(* ===== verification/Prelude.thy ===== *)
theory Prelude
  imports Complex_Main "HOL-Library.AList" "HOL-Library.Word"
begin

text \<open>
  Shared vocabulary of the development.

  Python exceptions are the values of \<open>py_error\<close>; a call that may raise returns
  \<open>'a res\<close>, with \<open>Inl e\<close> for a raised exception and \<open>Inr x\<close> for a normal
  return.  Sequencing is \<open>rbind\<close>, a \<open>for\<close> loop whose body may raise is \<open>rfold\<close>
  and a comprehension whose element may raise is \<open>rmap\<close>.

  A Python \<open>dict\<close> is an association list with the insertion order of the keys:
  \<open>AList.update\<close> overwrites in place or appends, as \<open>d[k] = v\<close> does, \<open>AList.delete\<close>
  is \<open>d.pop(k, None)\<close> and \<open>map_of\<close> is \<open>d.get\<close>.
\<close>

named_theorems res_simps \<open>rewriting of calls that may raise\<close>
named_theorems dict_simps \<open>lookups in updated dictionaries\<close>

declare map_of_eq_Some_iff [simp del] split_paired_All [simp del] split_paired_Ex [simp del]

section \<open>Exceptions\<close>

datatype py_error =
    ValueError
  | TypeError
  | RuntimeError
  | AssertionError
  | IndexError
  | KeyError
  | OverflowError
  | ZeroDivisionError
  | StopIteration
  | NotImplementedError
  | AttributeError
  | HKVWarmCapacityError
  | HKVWarmOwnershipError
  | HKVWarmReservationError
  | HKVWarmStaleValidationError
  | ExternalError

type_synonym 'a res = "py_error + 'a"

fun rbind :: "'a res \<Rightarrow> ('a \<Rightarrow> 'b res) \<Rightarrow> 'b res" where
  "rbind (Inl e) f = Inl e"
| "rbind (Inr x) f = f x"

lemma rbind_eq_Inr [res_simps]:
  "rbind m f = Inr y \<longleftrightarrow> (\<exists>x. m = Inr x \<and> f x = Inr y)"
  by (cases m) auto

lemma rbind_eq_Inl [res_simps]:
  "rbind m f = Inl e \<longleftrightarrow> m = Inl e \<or> (\<exists>x. m = Inr x \<and> f x = Inl e)"
  by (cases m) auto

lemma rbindE:
  assumes "rbind m f = Inr y" obtains x where "m = Inr x" "f x = Inr y"
  using assms by (cases m) auto

lemma rbind_cong [fundef_cong]:
  "m = m' \<Longrightarrow> (\<And>x. m' = Inr x \<Longrightarrow> f x = f' x) \<Longrightarrow> rbind m f = rbind m' f'"
  by (cases m') auto

text \<open>\<open>assert c\<close> and \<open>if not c: raise e\<close>.\<close>

definition check :: "bool \<Rightarrow> py_error \<Rightarrow> unit res" where
  "check c e = (if c then Inr () else Inl e)"

lemma check_eq_Inr [res_simps]: "check c e = Inr u \<longleftrightarrow> c"
  by (simp add: check_def)

lemma check_eq_Inl [res_simps]: "check c e = Inl e' \<longleftrightarrow> \<not> c \<and> e' = e"
  by (auto simp: check_def)

lemma check_True [simp]: "check True e = Inr ()"
  by (simp add: check_def)

lemma check_False [simp]: "check False e = Inl e"
  by (simp add: check_def)

text \<open>A \<open>for x in xs\<close> loop that threads a state and may raise.\<close>

fun rfold :: "('a \<Rightarrow> 's \<Rightarrow> 's res) \<Rightarrow> 'a list \<Rightarrow> 's \<Rightarrow> 's res" where
  "rfold f [] s = Inr s"
| "rfold f (x # xs) s = rbind (f x s) (rfold f xs)"

lemma rfold_append:
  "rfold f (xs @ ys) s = rbind (rfold f xs s) (rfold f ys)"
proof (induction xs arbitrary: s)
  case (Cons x xs)
  then show ?case by (cases "f x s") auto
qed simp

lemma rfold_inv:
  assumes "rfold f xs s = Inr s'" "P s"
    and "\<And>x s s'. x \<in> set xs \<Longrightarrow> P s \<Longrightarrow> f x s = Inr s' \<Longrightarrow> P s'"
  shows "P s'"
  using assms
proof (induction xs arbitrary: s)
  case (Cons x xs)
  from Cons.prems(1) obtain s1 where "f x s = Inr s1" "rfold f xs s1 = Inr s'"
    by (auto simp: rbind_eq_Inr)
  with Cons show ?case by (metis list.set_intros)
qed simp

text \<open>A comprehension \<open>[f x for x in xs]\<close> whose element may raise.\<close>

fun rmap :: "('a \<Rightarrow> 'b res) \<Rightarrow> 'a list \<Rightarrow> 'b list res" where
  "rmap f [] = Inr []"
| "rmap f (x # xs) = rbind (f x) (\<lambda>y. rbind (rmap f xs) (\<lambda>ys. Inr (y # ys)))"

lemma rmap_Inr_iff:
  "rmap f xs = Inr ys \<longleftrightarrow> list_all2 (\<lambda>x y. f x = Inr y) xs ys"
proof (induction xs arbitrary: ys)
  case (Cons x xs)
  then show ?case by (cases ys) (auto simp: res_simps)
qed auto

lemma rmap_total:
  "(\<And>x. x \<in> set xs \<Longrightarrow> f x = Inr (g x)) \<Longrightarrow> rmap f xs = Inr (map g xs)"
  by (induction xs) auto

section \<open>Dictionaries\<close>

type_synonym ('k, 'v) dict = "('k \<times> 'v) list"

abbreviation dkeys :: "('k, 'v) dict \<Rightarrow> 'k list" where
  "dkeys d \<equiv> map fst d"

text \<open>\<open>d[k]\<close> raises \<open>KeyError\<close>.\<close>

definition dict_index :: "('k, 'v) dict \<Rightarrow> 'k \<Rightarrow> 'v res" where
  "dict_index d k = (case map_of d k of None \<Rightarrow> Inl KeyError | Some v \<Rightarrow> Inr v)"

lemma dict_index_Inr [res_simps]: "dict_index d k = Inr v \<longleftrightarrow> map_of d k = Some v"
  by (auto simp: dict_index_def split: option.splits)

lemma map_of_update [dict_simps, simp]:
  "map_of (AList.update k v d) k' = (if k' = k then Some v else map_of d k')"
  by (simp add: update_conv)

lemma map_of_delete [dict_simps, simp]:
  "map_of (AList.delete k d) k' = (if k' = k then None else map_of d k')"
  by (simp add: delete_conv')

lemma distinct_keys_update [simp]:
  "distinct (dkeys d) \<Longrightarrow> distinct (dkeys (AList.update k v d))"
  by (rule distinct_update)

lemma distinct_keys_delete [simp]:
  "distinct (dkeys d) \<Longrightarrow> distinct (dkeys (AList.delete k d))"
  by (rule distinct_delete)

lemma map_of_SomeI_distinct:
  "distinct (dkeys d) \<Longrightarrow> (k, v) \<in> set d \<Longrightarrow> map_of d k = Some v"
  by (rule map_of_is_SomeI)

lemma length_card_dom:
  "distinct (dkeys d) \<Longrightarrow> length d = card (dom (map_of d))"
  by (metis distinct_card dom_map_of_conv_image_fst length_map list.set_map)

lemma update_fresh: "k \<notin> set (dkeys d) \<Longrightarrow> AList.update k v d = d @ [(k, v)]"
  by (induction d) auto

lemma delete_fresh [simp]: "k \<notin> set (dkeys d) \<Longrightarrow> AList.delete k d = d"
  by (induction d) auto

lemma delete_append [simp]: "AList.delete k (d @ d') = AList.delete k d @ AList.delete k d'"
  by (simp add: AList.delete_eq)

lemma map_of_None_iff: "map_of d k = None \<longleftrightarrow> k \<notin> set (dkeys d)"
  by (simp add: map_of_eq_None_iff)

lemma map_of_snoc_fresh:
  "k \<notin> set (dkeys d) \<Longrightarrow> map_of (d @ [(k, v)]) = (map_of d)(k \<mapsto> v)"
  by (induction d) (auto simp: fun_eq_iff)

text \<open>\<open>dict.fromkeys(xs)\<close>: the distinct elements in order of first occurrence.\<close>

fun uniq :: "'a list \<Rightarrow> 'a list" where
  "uniq [] = []"
| "uniq (x # xs) = x # filter (\<lambda>y. y \<noteq> x) (uniq xs)"

lemma set_uniq [simp]: "set (uniq xs) = set xs"
  by (induction xs) auto

lemma distinct_uniq [simp]: "distinct (uniq xs)"
  by (induction xs) auto

lemma uniq_distinct [simp]: "distinct xs \<Longrightarrow> uniq xs = xs"
  by (induction xs) (auto simp: filter_id_conv)

section \<open>Lists and integers\<close>

text \<open>\<open>cdiv(a, b) = -(a // -b)\<close> of the source's math utilities.\<close>

definition cdiv :: "int \<Rightarrow> int \<Rightarrow> int" where
  "cdiv a b = - (a div (- b))"

lemma cdiv_ge: "0 < b \<Longrightarrow> a \<le> cdiv a b * b"
proof -
  assume b: "0 < b"
  have "a = a div (- b) * (- b) + a mod (- b)" by (simp only: div_mult_mod_eq)
  moreover have "a mod (- b) \<le> 0" using b by (simp add: neg_mod_sign)
  ultimately show ?thesis by (simp add: cdiv_def algebra_simps)
qed

lemma cdiv_lt: "0 < b \<Longrightarrow> cdiv a b * b < a + b"
proof -
  assume b: "0 < b"
  have "a = a div (- b) * (- b) + a mod (- b)" by (simp only: div_mult_mod_eq)
  moreover have "- b < a mod (- b)" using b by (simp add: neg_mod_bound)
  ultimately show ?thesis by (simp add: cdiv_def algebra_simps)
qed

lemma cdiv_least:
  assumes "0 < b" "a \<le> n * b" shows "cdiv a b \<le> n"
proof -
  have "cdiv a b * b < (n + 1) * b"
    using cdiv_lt [OF assms(1), of a] assms(2) by (simp add: algebra_simps)
  then have "cdiv a b < n + 1"
    using assms(1) by (simp add: mult_less_cancel_right_pos)
  then show ?thesis by simp
qed

text \<open>\<open>xs[i:]\<close>, \<open>xs[:i]\<close> for an index that may be negative.\<close>

definition py_bound :: "int \<Rightarrow> 'a list \<Rightarrow> nat" where
  "py_bound i xs = nat (if i < 0 then i + int (length xs) else i)"

definition py_slice_from :: "int \<Rightarrow> 'a list \<Rightarrow> 'a list" where
  "py_slice_from i xs = drop (py_bound i xs) xs"

definition py_slice :: "int \<Rightarrow> int \<Rightarrow> 'a list \<Rightarrow> 'a list" where
  "py_slice i j xs = drop (py_bound i xs) (take (py_bound j xs) xs)"

text \<open>\<open>xs[i]\<close>, with negative indices counting from the end.\<close>

definition list_index :: "'a list \<Rightarrow> int \<Rightarrow> 'a res" where
  "list_index xs i =
     (let j = (if i < 0 then i + int (length xs) else i)
      in if 0 \<le> j \<and> j < int (length xs) then Inr (xs ! nat j) else Inl IndexError)"

lemma list_index_Inr:
  "0 \<le> i \<Longrightarrow> list_index xs i = Inr x \<longleftrightarrow> nat i < length xs \<and> xs ! nat i = x"
  by (auto simp: list_index_def Let_def)

lemma list_index_nat [simp]: "i < length xs \<Longrightarrow> list_index xs (int i) = Inr (xs ! i)"
  by (simp add: list_index_def)

lemma distinct_count_le: "distinct xs \<Longrightarrow> count_list xs x = (if x \<in> set xs then 1 else 0)"
  by (induction xs) auto

end
