(* ===== verification/KVState.thy ===== *)
theory KVState
  imports Prelude
begin

text \<open>
  The control-plane vocabulary of \<^verbatim>\<open>vllm/v1/kv_cache_state.py\<close>: tier states, worker
  statuses, block transitions, the transition command of the scheduler, the completion
  result of the worker, and the classification of an idle session.
  Times and thresholds (Python floats) are exact rationals; physical block ids are \<open>nat\<close>
  because they only ever come from \<open>range(num_gpu_blocks)\<close>; logical indices are \<open>int\<close>.
\<close>

section \<open>States and statuses\<close>

datatype kv_block_state = HOT | WARM | COLD

datatype kv_transition_status = SUCCESS | RETRYABLE_CAPACITY | STALE_VALIDATION | FATAL

text \<open>The rank \<open>_KV_STATE_COLDNESS\<close> of the scheduler.\<close>

fun kv_state_coldness :: "kv_block_state \<Rightarrow> nat" where
  "kv_state_coldness HOT = 0"
| "kv_state_coldness WARM = 1"
| "kv_state_coldness COLD = 2"

section \<open>Transitions\<close>

record kv_block_transition =
  bt_logical_index :: int
  bt_source_hot_id :: int

type_synonym flat_block = "nat \<times> int \<times> int"

definition flat_group :: "nat \<times> kv_block_transition list \<Rightarrow> flat_block list" where
  "flat_group g =
     map (\<lambda>b. (fst g, bt_logical_index b, bt_source_hot_id b)) (snd g)"

definition normalize_transition_blocks ::
  "kv_block_transition list list \<Rightarrow> flat_block list" where
  "normalize_transition_blocks groups =
     concat (map flat_group (enumerate 0 groups))"

type_synonym signature =
  "nat \<times> string \<times> kv_block_state \<times> kv_block_state \<times> flat_block list"

record kv_transition_result =
  tr_transition_id :: nat
  tr_request_id :: string
  tr_previous_state :: kv_block_state
  tr_new_state :: kv_block_state
  tr_changed_blocks :: "flat_block list"
  tr_status :: kv_transition_status
  tr_error_message :: "string option"

definition result_signature :: "kv_transition_result \<Rightarrow> signature" where
  "result_signature r =
     (tr_transition_id r, tr_request_id r, tr_previous_state r, tr_new_state r,
      tr_changed_blocks r)"

record kv_transition =
  tn_transition_id :: nat
  tn_request_id :: string
  tn_previous_state :: kv_block_state
  tn_new_state :: kv_block_state
  tn_changed_blocks :: "kv_block_transition list list"

definition transition_signature :: "kv_transition \<Rightarrow> signature" where
  "transition_signature t =
     (tn_transition_id t, tn_request_id t, tn_previous_state t, tn_new_state t,
      normalize_transition_blocks (tn_changed_blocks t))"

definition to_result ::
  "kv_transition \<Rightarrow> kv_transition_status \<Rightarrow> string option \<Rightarrow> kv_transition_result" where
  "to_result t status error_message =
     \<lparr>tr_transition_id = tn_transition_id t,
      tr_request_id = tn_request_id t,
      tr_previous_state = tn_previous_state t,
      tr_new_state = tn_new_state t,
      tr_changed_blocks = normalize_transition_blocks (tn_changed_blocks t),
      tr_status = status,
      tr_error_message = error_message\<rparr>"

section \<open>Classification of an idle session\<close>

definition classify_request_kv_state :: "rat \<Rightarrow> rat \<Rightarrow> rat \<Rightarrow> kv_block_state res" where
  "classify_request_kv_state idle_time hot_threshold cold_threshold =
     (if idle_time < 0 then Inl ValueError
      else if hot_threshold < 0 then Inl ValueError
      else if cold_threshold \<le> hot_threshold then Inl ValueError
      else if idle_time < hot_threshold then Inr HOT
      else if idle_time < cold_threshold then Inr WARM
      else Inr COLD)"

section \<open>Facts\<close>

lemma result_signature_to_result [simp]:
  "result_signature (to_result t st msg) = transition_signature t"
  by (simp add: result_signature_def to_result_def transition_signature_def)

lemma tr_status_to_result [simp]: "tr_status (to_result t st msg) = st"
  by (simp add: to_result_def)

lemma tr_id_to_result [simp]: "tr_transition_id (to_result t st msg) = tn_transition_id t"
  by (simp add: to_result_def)

lemma set_normalize_transition_blocks:
  "(g, l, h) \<in> set (normalize_transition_blocks cb) \<longleftrightarrow>
     g < length cb \<and>
     (\<exists>b \<in> set (cb ! g). l = bt_logical_index b \<and> h = bt_source_hot_id b)"
proof -
  have "set (enumerate 0 cb) = {(i, cb ! i) |i. i < length cb}"
    by (auto simp: in_set_enumerate_eq)
  then show ?thesis
    by (auto simp: normalize_transition_blocks_def flat_group_def)
qed

lemma length_normalize_transition_blocks:
  "length (normalize_transition_blocks cb) = sum_list (map length cb)"
proof -
  have "length (concat (map flat_group (enumerate n cb))) = sum_list (map length cb)" for n
    by (induction cb arbitrary: n) (auto simp: flat_group_def)
  then show ?thesis by (simp add: normalize_transition_blocks_def)
qed

text \<open>
  Flattening loses only empty groups at the end: blocks of one group are recovered by
  filtering on the group index.
\<close>

lemma filter_flat_groups:
  "filter (\<lambda>b. fst b = i) (concat (map flat_group (enumerate n cb))) =
     (if n \<le> i \<and> i < n + length cb then flat_group (i, cb ! (i - n)) else [])"
proof (induction cb arbitrary: n)
  case Nil
  then show ?case by auto
next
  case (Cons c cb)
  have hd: "filter (\<lambda>b. fst b = j) (flat_group (n, c)) =
      (if j = n then flat_group (n, c) else [])" for j
    by (auto simp: flat_group_def filter_id_conv filter_empty_conv)
  have nth: "(c # cb) ! (i - n) = cb ! (i - Suc n)" if "n < i"
    using that by (simp add: nth_Cons' Suc_diff_Suc)
  show ?case
    using Cons.IH [of "Suc n"] nth
    by (cases i n rule: linorder_cases) (simp_all add: hd)
qed

lemma normalize_transition_blocks_group:
  "i < length cb \<Longrightarrow>
     filter (\<lambda>b. fst b = i) (normalize_transition_blocks cb) = flat_group (i, cb ! i)"
  by (simp add: normalize_transition_blocks_def filter_flat_groups)

lemma inj_block_pair:
  "(bt_logical_index b, bt_source_hot_id b) = (bt_logical_index b', bt_source_hot_id b')
     \<Longrightarrow> b = (b' :: kv_block_transition)"
  by simp

lemma flat_group_inject: "flat_group (i, c) = flat_group (i, c') \<Longrightarrow> c = c'"
proof (induction c arbitrary: c')
  case Nil
  then show ?case by (simp add: flat_group_def)
next
  case (Cons b c)
  then show ?case by (cases c') (auto simp: flat_group_def)
qed



lemma classify_total:
  assumes "0 \<le> idle" "0 \<le> hot" "hot < cold"
  shows "classify_request_kv_state idle hot cold =
    Inr (if idle < hot then HOT else if idle < cold then WARM else COLD)"
  using assms by (auto simp: classify_request_kv_state_def)

lemma classify_mono_aux:
  assumes "classify_request_kv_state i hot cold = Inr s"
    and "classify_request_kv_state j hot cold = Inr s'" and "i \<le> j"
  shows "kv_state_coldness s \<le> kv_state_coldness s'"
  using assms by (auto simp: classify_request_kv_state_def split: if_splits)

end
