(* ===== verification/WarmAlloc.thy ===== *)
theory WarmAlloc
  imports KVState
begin

text \<open>
  \<open>HKVWarmSlotAllocator\<close> of \<^verbatim>\<open>vllm/v1/worker/gpu/hkv_migration.py\<close>: the deterministic
  transactional allocator of WARM cache slots.

  The free-slot heap is the sorted list of its elements: \<open>heapq.heappop\<close> returns the least
  element and \<open>heapq.heappush\<close> inserts one, and nothing else of the heap's layout is
  observed.  Object identity of reservations (\<open>is\<close>) is equality of the records, which carry
  the never repeated reservation id and the allocator's token.  The \<open>isinstance\<close> tests
  of the source hold by typing.  A call that raises leaves no state of its own: every
  \<open>raise\<close> of a public operation precedes its first write (\<open>rollback\<close> and
  \<open>release_keys\<close> excepted, whose only late exception \<open>HKVWarmOwnershipError\<close> cannot
  occur in a state that satisfies the invariant, as shown below).
\<close>

section \<open>State\<close>

type_synonym warm_key = "string \<times> int \<times> int"

record warm_reservation =
  wr_mappings :: "(warm_key \<times> nat) list"
  wr_existing :: "warm_key list"
  wr_newly_allocated :: "warm_key list"
  wr_reservation_id :: nat
  wr_allocator_token :: nat

record warm_allocator =
  wa_capacity :: int
  wa_token :: nat
  wa_next_reservation_id :: nat
  wa_active_reservation :: "warm_reservation option"
  wa_key_to_slot :: "(warm_key, nat) dict"
  wa_slot_to_key :: "(nat, warm_key) dict"
  wa_free_slots :: "nat list"
  wa_free_slot_set :: "nat set"

section \<open>Operations\<close>

definition new_allocator :: "nat \<Rightarrow> int \<Rightarrow> warm_allocator res" where
  "new_allocator token cap =
     (if cap \<le> 0 then Inl ValueError
      else Inr \<lparr>wa_capacity = cap, wa_token = token, wa_next_reservation_id = 0,
                wa_active_reservation = None, wa_key_to_slot = [], wa_slot_to_key = [],
                wa_free_slots = [0..<nat cap], wa_free_slot_set = set [0..<nat cap]\<rparr>)"

definition num_owned_slots :: "warm_allocator \<Rightarrow> nat" where
  "num_owned_slots a = length (wa_key_to_slot a)"

definition num_free_slots :: "warm_allocator \<Rightarrow> nat" where
  "num_free_slots a = length (wa_free_slots a)"

fun heappop :: "nat list \<Rightarrow> (nat \<times> nat list) res" where
  "heappop [] = Inl IndexError"
| "heappop (x # xs) = Inr (x, xs)"

definition heappush :: "nat list \<Rightarrow> nat \<Rightarrow> nat list" where
  "heappush xs x = insort x xs"

fun validate_logical_key :: "warm_key \<Rightarrow> unit res" where
  "validate_logical_key (request_id, cache_group_index, logical_block_index) =
     (if cache_group_index < 0 then Inl ValueError
      else if logical_block_index < 0 then Inl ValueError
      else Inr ())"

definition validate_keys :: "warm_key list \<Rightarrow> unit res" where
  "validate_keys ks = rfold (\<lambda>k _. validate_logical_key k) ks ()"

definition validate_slot :: "warm_allocator \<Rightarrow> int \<Rightarrow> unit res" where
  "validate_slot a slot = check (\<not> (slot < 0 \<or> slot \<ge> wa_capacity a)) ValueError"

definition lookup :: "warm_allocator \<Rightarrow> warm_key \<Rightarrow> nat option res" where
  "lookup a key = rbind (validate_logical_key key) (\<lambda>_. Inr (map_of (wa_key_to_slot a) key))"

definition owner_of :: "warm_allocator \<Rightarrow> int \<Rightarrow> warm_key option res" where
  "owner_of a slot =
     rbind (validate_slot a slot) (\<lambda>_. Inr (map_of (wa_slot_to_key a) (nat slot)))"

text \<open>The body of the loop over the new dkeys in \<open>reserve_many\<close>.\<close>

definition take_slot :: "warm_key \<Rightarrow> warm_allocator \<Rightarrow> warm_allocator res" where
  "take_slot key a =
     rbind (heappop (wa_free_slots a)) (\<lambda>(slot, rest).
     rbind (check (slot \<in> wa_free_slot_set a) KeyError) (\<lambda>_.
     Inr (a\<lparr>wa_free_slots := rest,
            wa_free_slot_set := wa_free_slot_set a - {slot},
            wa_key_to_slot := AList.update key slot (wa_key_to_slot a),
            wa_slot_to_key := AList.update slot key (wa_slot_to_key a)\<rparr>)))"

definition is_owned :: "warm_allocator \<Rightarrow> warm_key \<Rightarrow> bool" where
  "is_owned a key = (map_of (wa_key_to_slot a) key \<noteq> None)"

definition reserve_many ::
  "warm_key list \<Rightarrow> warm_allocator \<Rightarrow> (warm_reservation \<times> warm_allocator) res" where
  "reserve_many ks a =
     (if wa_active_reservation a \<noteq> None then Inl HKVWarmReservationError
      else
        rbind (validate_keys ks) (\<lambda>_.
        let unique_keys = uniq ks;
            existing_keys = filter (is_owned a) unique_keys;
            new_keys = filter (\<lambda>k. \<not> is_owned a k) unique_keys
        in
          if length new_keys > num_free_slots a then Inl HKVWarmCapacityError
          else
            rbind (rfold take_slot new_keys a) (\<lambda>a1.
            rbind (rmap (\<lambda>k. rbind (dict_index (wa_key_to_slot a1) k) (\<lambda>s. Inr (k, s))) unique_keys)
              (\<lambda>maps.
            let r = \<lparr>wr_mappings = maps, wr_existing = existing_keys,
                     wr_newly_allocated = new_keys,
                     wr_reservation_id = wa_next_reservation_id a1,
                     wr_allocator_token = wa_token a1\<rparr>
            in Inr (r, a1\<lparr>wa_next_reservation_id := wa_next_reservation_id a1 + 1,
                          wa_active_reservation := Some r\<rparr>)))))"

definition validate_active_reservation ::
  "warm_reservation \<Rightarrow> warm_allocator \<Rightarrow> unit res" where
  "validate_active_reservation r a =
     (if wr_allocator_token r \<noteq> wa_token a then Inl HKVWarmReservationError
      else if wa_active_reservation a \<noteq> Some r then Inl HKVWarmReservationError
      else rfold (\<lambda>(key, slot) _.
             if map_of (wa_key_to_slot a) key \<noteq> Some slot \<or> map_of (wa_slot_to_key a) slot \<noteq> Some key
             then Inl HKVWarmOwnershipError else Inr ()) (wr_mappings r) ())"

definition commit :: "warm_reservation \<Rightarrow> warm_allocator \<Rightarrow> warm_allocator res" where
  "commit r a =
     rbind (validate_active_reservation r a) (\<lambda>_. Inr (a\<lparr>wa_active_reservation := None\<rparr>))"

text \<open>\<open>_release_key\<close>: the public \<open>release_key\<close> adds the guards.\<close>

definition release_key_raw ::
  "warm_key \<Rightarrow> warm_allocator \<Rightarrow> (nat option \<times> warm_allocator) res" where
  "release_key_raw key a =
     (case map_of (wa_key_to_slot a) key of
        None \<Rightarrow> Inr (None, a)
      | Some slot \<Rightarrow>
          if map_of (wa_slot_to_key a) slot \<noteq> Some key then Inl HKVWarmOwnershipError
          else if slot \<in> wa_free_slot_set a then Inl HKVWarmOwnershipError
          else Inr (Some slot,
                    a\<lparr>wa_key_to_slot := AList.delete key (wa_key_to_slot a),
                      wa_slot_to_key := AList.delete slot (wa_slot_to_key a),
                      wa_free_slots := heappush (wa_free_slots a) slot,
                      wa_free_slot_set := insert slot (wa_free_slot_set a)\<rparr>))"

definition rollback :: "warm_reservation \<Rightarrow> warm_allocator \<Rightarrow> warm_allocator res" where
  "rollback r a =
     rbind (validate_active_reservation r a) (\<lambda>_.
     rbind (rfold (\<lambda>key a. rbind (release_key_raw key a) (\<lambda>(_, a'). Inr a'))
             (wr_newly_allocated r) a) (\<lambda>a1.
     Inr (a1\<lparr>wa_active_reservation := None\<rparr>)))"

definition require_no_active_reservation :: "warm_allocator \<Rightarrow> unit res" where
  "require_no_active_reservation a =
     check (wa_active_reservation a = None) HKVWarmReservationError"

definition release_key ::
  "warm_key \<Rightarrow> warm_allocator \<Rightarrow> (nat option \<times> warm_allocator) res" where
  "release_key key a =
     rbind (require_no_active_reservation a) (\<lambda>_.
     rbind (validate_logical_key key) (\<lambda>_. release_key_raw key a))"

text \<open>The loop of \<open>release_keys\<close>, with the released slots so far.\<close>

definition release_one ::
  "warm_key \<Rightarrow> nat list \<times> warm_allocator \<Rightarrow> (nat list \<times> warm_allocator) res" where
  "release_one key st =
     rbind (release_key_raw key (snd st)) (\<lambda>(slot, a').
     Inr (case slot of None \<Rightarrow> (fst st, a') | Some s \<Rightarrow> (fst st @ [s], a')))"

definition release_keys ::
  "warm_key list \<Rightarrow> warm_allocator \<Rightarrow> (nat list \<times> warm_allocator) res" where
  "release_keys ks a =
     rbind (require_no_active_reservation a) (\<lambda>_.
     rbind (validate_keys ks) (\<lambda>_.
     rfold release_one (uniq ks) ([], a)))"

definition clear :: "warm_allocator \<Rightarrow> warm_allocator" where
  "clear a = a\<lparr>wa_active_reservation := None, wa_key_to_slot := [], wa_slot_to_key := [],
               wa_free_slots := [0..<nat (wa_capacity a)],
               wa_free_slot_set := set [0..<nat (wa_capacity a)]\<rparr>"

text \<open>\<open>validate_invariants\<close>: true when no assertion of the source's method fails.\<close>

definition validate_invariants :: "warm_allocator \<Rightarrow> bool" where
  "validate_invariants a \<longleftrightarrow>
     (let free = set (wa_free_slots a);
          owned = set (dkeys (wa_slot_to_key a));
          all_slots = set [0..<nat (wa_capacity a)]
      in length (wa_free_slots a) = card free \<and>
         free = wa_free_slot_set a \<and>
         free \<inter> owned = {} \<and>
         free \<union> owned = all_slots \<and>
         int (card owned + card free) = wa_capacity a \<and>
         length (wa_key_to_slot a) = length (wa_slot_to_key a) \<and>
         list_all (\<lambda>(key, slot). int slot < wa_capacity a \<and>
                     map_of (wa_slot_to_key a) slot = Some key) (wa_key_to_slot a) \<and>
         list_all (\<lambda>(slot, key). int slot < wa_capacity a \<and>
                     map_of (wa_key_to_slot a) key = Some slot) (wa_slot_to_key a) \<and>
         (case wa_active_reservation a of None \<Rightarrow> True
          | Some r \<Rightarrow> list_all (\<lambda>(key, slot). map_of (wa_key_to_slot a) key = Some slot)
                       (wr_mappings r)))"

section \<open>The invariant\<close>

text \<open>
  The two ownership maps are inverse to each other, the free slots are the sorted list of
  the slots nobody owns, and an open reservation is backed by the maps.
\<close>

definition slots_inv :: "warm_allocator \<Rightarrow> bool" where
  "slots_inv a \<longleftrightarrow>
     0 < wa_capacity a \<and>
     distinct (dkeys (wa_key_to_slot a)) \<and> distinct (dkeys (wa_slot_to_key a)) \<and>
     (\<forall>k s. map_of (wa_key_to_slot a) k = Some s \<longleftrightarrow> map_of (wa_slot_to_key a) s = Some k) \<and>
     sorted (wa_free_slots a) \<and> distinct (wa_free_slots a) \<and>
     wa_free_slot_set a = set (wa_free_slots a) \<and>
     set (wa_free_slots a) \<inter> dom (map_of (wa_slot_to_key a)) = {} \<and>
     set (wa_free_slots a) \<union> dom (map_of (wa_slot_to_key a)) = {0..<nat (wa_capacity a)}"

definition reservation_ok :: "warm_reservation \<Rightarrow> warm_allocator \<Rightarrow> bool" where
  "reservation_ok r a \<longleftrightarrow>
     wr_allocator_token r = wa_token a \<and>
     wr_reservation_id r < wa_next_reservation_id a \<and>
     distinct (wr_newly_allocated r) \<and>
     set (wr_newly_allocated r) \<subseteq> fst ` set (wr_mappings r) \<and>
     (\<forall>(k, s) \<in> set (wr_mappings r). map_of (wa_key_to_slot a) k = Some s)"

definition warm_inv :: "warm_allocator \<Rightarrow> bool" where
  "warm_inv a \<longleftrightarrow>
     slots_inv a \<and>
     (case wa_active_reservation a of None \<Rightarrow> True | Some r \<Rightarrow> reservation_ok r a)"

definition idle :: "warm_allocator \<Rightarrow> bool" where
  "idle a \<longleftrightarrow> wa_active_reservation a = None"

definition key_valid :: "warm_key \<Rightarrow> bool" where
  "key_valid k \<longleftrightarrow> 0 \<le> fst (snd k) \<and> 0 \<le> snd (snd k)"

lemma validate_logical_key_iff [simp]: "validate_logical_key k = Inr () \<longleftrightarrow> key_valid k"
  by (cases k) (auto simp: key_valid_def)

lemma validate_logical_key_cases:
  "validate_logical_key k = (if key_valid k then Inr () else Inl ValueError)"
  by (cases k) (auto simp: key_valid_def)

lemma validate_keys_cases:
  "validate_keys ks = (if list_all key_valid ks then Inr () else Inl ValueError)"
  by (induction ks) (auto simp: validate_keys_def validate_logical_key_cases)

lemma slots_invD:
  assumes "slots_inv a"
  shows "distinct (dkeys (wa_key_to_slot a))" "distinct (dkeys (wa_slot_to_key a))"
    "map_of (wa_key_to_slot a) k = Some s \<longleftrightarrow> map_of (wa_slot_to_key a) s = Some k"
    "sorted (wa_free_slots a)" "distinct (wa_free_slots a)"
    "wa_free_slot_set a = set (wa_free_slots a)"
  using assms by (auto simp: slots_inv_def)

lemma slots_inv_free_unowned:
  "slots_inv a \<Longrightarrow> s \<in> set (wa_free_slots a) \<Longrightarrow> map_of (wa_slot_to_key a) s = None"
  by (fastforce simp: slots_inv_def)

lemma slots_inv_update_active [simp]:
  "slots_inv (a\<lparr>wa_active_reservation := r\<rparr>) = slots_inv a"
  "slots_inv (a\<lparr>wa_next_reservation_id := n\<rparr>) = slots_inv a"
  by (auto simp: slots_inv_def)

lemma new_allocator_inv:
  "new_allocator t cap = Inr a \<Longrightarrow> warm_inv a \<and> idle a"
  by (auto simp: new_allocator_def warm_inv_def slots_inv_def idle_def split: if_splits)

lemma clear_inv: "slots_inv a \<Longrightarrow> warm_inv (clear a) \<and> idle (clear a)"
  by (auto simp: clear_def warm_inv_def slots_inv_def idle_def)

section \<open>Taking and releasing slots\<close>

text \<open>The closed form of the reservation loop: the least free slots, in key order.\<close>

definition with_new :: "warm_allocator \<Rightarrow> warm_key list \<Rightarrow> warm_allocator" where
  "with_new a ks =
     (let ss = take (length ks) (wa_free_slots a)
      in a\<lparr>wa_free_slots := drop (length ks) (wa_free_slots a),
           wa_free_slot_set := wa_free_slot_set a - set ss,
           wa_key_to_slot := wa_key_to_slot a @ zip ks ss,
           wa_slot_to_key := wa_slot_to_key a @ zip ss ks\<rparr>)"

lemma take_slot_Cons:
  assumes "slots_inv a" "\<not> is_owned a k" "wa_free_slots a = s # ss"
  shows "take_slot k a = Inr (with_new a [k])"
proof -
  have "k \<notin> set (dkeys (wa_key_to_slot a))"
    using assms(2) by (simp add: is_owned_def map_of_None_iff)
  moreover have "s \<notin> set (dkeys (wa_slot_to_key a))"
    using slots_inv_free_unowned [OF assms(1), of s] assms(3) by (simp add: map_of_None_iff)
  ultimately show ?thesis
    using assms by (simp add: take_slot_def with_new_def Let_def update_fresh slots_invD(6))
qed

lemma with_new_Nil [simp]: "with_new a [] = a"
  by (simp add: with_new_def)

lemma with_new_Cons:
  assumes "wa_free_slots a = s # ss"
  shows "with_new (with_new a [k]) ks = with_new a (k # ks)"
proof -
  have "F - {s} - T = F - insert s T" for F T :: "nat set" by blast
  then show ?thesis using assms by (simp add: with_new_def Let_def)
qed

lemma slots_inv_with_new1:
  assumes inv: "slots_inv a" and new: "\<not> is_owned a k" and fr: "wa_free_slots a = s # ss"
  shows "slots_inv (with_new a [k])"
proof -
  have k: "k \<notin> set (dkeys (wa_key_to_slot a))" and k': "map_of (wa_key_to_slot a) k = None"
    using new by (simp_all add: is_owned_def map_of_None_iff)
  have s': "map_of (wa_slot_to_key a) s = None"
    using slots_inv_free_unowned [OF inv, of s] fr by simp
  then have s: "s \<notin> set (dkeys (wa_slot_to_key a))"
    by (simp add: map_of_None_iff)
  have bij: "map_of (wa_key_to_slot a) k' = Some s' \<longleftrightarrow> map_of (wa_slot_to_key a) s' = Some k'"
    for k' s' using inv by (rule slots_invD)
  have ks: "map_of (wa_key_to_slot a) k' \<noteq> Some s" for k'
    using s' bij by (metis option.distinct(1))
  have sk: "map_of (wa_slot_to_key a) s' \<noteq> Some k" for s'
    using k' bij by (metis option.distinct(1))
  have dom: "set ss \<inter> insert s (dom (map_of (wa_slot_to_key a))) = {}"
    "set ss \<union> insert s (dom (map_of (wa_slot_to_key a))) = {0..<nat (wa_capacity a)}"
    "distinct (s # ss)" "sorted (s # ss)" "wa_free_slot_set a = set (s # ss)"
    using inv fr by (auto simp: slots_inv_def)
  have iff: "((map_of (wa_key_to_slot a))(k \<mapsto> s)) k' = Some s' \<longleftrightarrow>
      ((map_of (wa_slot_to_key a))(s \<mapsto> k)) s' = Some k'" for k' s'
    using ks sk by (auto simp: bij)
  show ?thesis
    unfolding slots_inv_def with_new_def
    using inv fr k s dom iff
    by (simp add: map_of_snoc_fresh slots_inv_def del: map_of_append)
qed

lemma is_owned_with_new1:
  assumes "wa_free_slots a = s # ss"
  shows "is_owned (with_new a [k]) k' \<longleftrightarrow> k' = k \<or> is_owned a k'"
  using assms by (auto simp: is_owned_def with_new_def map_add_def split: option.splits)

lemma take_slots_eq:
  assumes "slots_inv a" "distinct ks" "\<forall>k \<in> set ks. \<not> is_owned a k"
    "length ks \<le> length (wa_free_slots a)"
  shows "rfold take_slot ks a = Inr (with_new a ks) \<and> slots_inv (with_new a ks)"
  using assms
proof (induction ks arbitrary: a)
  case Nil
  then show ?case by simp
next
  case (Cons k ks)
  then obtain s ss where fr: "wa_free_slots a = s # ss"
    by (cases "wa_free_slots a") auto
  have "slots_inv (with_new a [k])"
    using Cons.prems fr by (intro slots_inv_with_new1) auto
  moreover have "\<forall>k' \<in> set ks. \<not> is_owned (with_new a [k]) k'"
    using Cons.prems by (auto simp: is_owned_with_new1 [OF fr])
  moreover have "length ks \<le> length (wa_free_slots (with_new a [k]))"
    using Cons.prems fr by (simp add: with_new_def)
  ultimately have "rfold take_slot ks (with_new a [k]) = Inr (with_new (with_new a [k]) ks)
      \<and> slots_inv (with_new (with_new a [k]) ks)"
    using Cons.IH Cons.prems(2) by simp
  then show ?case
    using take_slot_Cons [OF Cons.prems(1) _ fr] Cons.prems(3)
    by (simp add: with_new_Cons [OF fr])
qed

text \<open>The abstract view of the allocator: which slot a logical key owns.\<close>

definition slot_of :: "warm_allocator \<Rightarrow> warm_key \<Rightarrow> nat option" where
  "slot_of a k = map_of (wa_key_to_slot a) k"

definition fresh_keys :: "warm_allocator \<Rightarrow> warm_key list \<Rightarrow> warm_key list" where
  "fresh_keys a ks = filter (\<lambda>k. \<not> is_owned a k) (uniq ks)"

lemma is_owned_slot_of: "is_owned a k \<longleftrightarrow> slot_of a k \<noteq> None"
  by (simp add: is_owned_def slot_of_def)

lemma slot_of_update_active [simp]:
  "slot_of (a\<lparr>wa_active_reservation := r\<rparr>) = slot_of a"
  "slot_of (a\<lparr>wa_next_reservation_id := n\<rparr>) = slot_of a"
  by (auto simp: slot_of_def fun_eq_iff)

lemma slot_of_inj:
  "slots_inv a \<Longrightarrow> slot_of a k = Some s \<Longrightarrow> slot_of a k' = Some s \<Longrightarrow> k = k'"
  by (metis option.inject slot_of_def slots_invD(3))

lemma slot_of_bound: "slots_inv a \<Longrightarrow> slot_of a k = Some s \<Longrightarrow> int s < wa_capacity a"
  by (fastforce simp: slot_of_def slots_inv_def)

lemma distinct_fresh_keys [simp]: "distinct (fresh_keys a ks)"
  by (simp add: fresh_keys_def)

lemma set_fresh_keys [simp]: "set (fresh_keys a ks) = {k \<in> set ks. slot_of a k = None}"
  by (auto simp: fresh_keys_def is_owned_slot_of)

lemma fresh_keys_all: "distinct ks \<Longrightarrow> \<forall>k \<in> set ks. slot_of a k = None \<Longrightarrow> fresh_keys a ks = ks"
  by (auto simp: fresh_keys_def is_owned_slot_of filter_id_conv)

lemma slot_of_with_new:
  assumes "distinct ks" "\<forall>k \<in> set ks. slot_of a k = None" "length ks \<le> length (wa_free_slots a)"
  shows "slot_of (with_new a ks) = slot_of a ++ map_of (zip ks (take (length ks) (wa_free_slots a)))"
    (is "_ = _ ++ map_of ?z")
proof
  fix k
  show "slot_of (with_new a ks) k = (slot_of a ++ map_of ?z) k"
  proof (cases "k \<in> set ks")
    case True
    then show ?thesis
      using assms by (auto simp: slot_of_def with_new_def Let_def map_add_def split: option.splits)
  next
    case False
    then have "map_of ?z k = None"
      using assms(3) by (auto simp: map_of_eq_None_iff dest: set_zip_leftD)
    then show ?thesis
      by (auto simp: slot_of_def with_new_def Let_def map_add_def split: option.splits)
  qed
qed

lemma slot_of_with_new_simps:
  assumes "distinct ks" "\<forall>k \<in> set ks. slot_of a k = None" "length ks \<le> length (wa_free_slots a)"
  shows "k \<in> set ks \<Longrightarrow> slot_of (with_new a ks) k \<noteq> None"
    and "k \<notin> set ks \<Longrightarrow> slot_of (with_new a ks) k = slot_of a k"
    and "i < length ks \<Longrightarrow> slot_of (with_new a ks) (ks ! i) = Some (wa_free_slots a ! i)"
proof -
  let ?ss = "take (length ks) (wa_free_slots a)"
  have len: "length ks = length ?ss" using assms(3) by simp
  have dom: "dom (map_of (zip ks ?ss)) = set ks" by (simp only: dom_map_of_zip [OF len])
  note eq = slot_of_with_new [OF assms]
  show "slot_of (with_new a ks) k \<noteq> None" if "k \<in> set ks"
    using that dom by (auto simp: eq map_add_def split: option.splits)
  show "slot_of (with_new a ks) k = slot_of a k" if "k \<notin> set ks"
    using that dom by (auto simp: eq map_add_def split: option.splits)
  show "slot_of (with_new a ks) (ks ! i) = Some (wa_free_slots a ! i)" if "i < length ks"
  proof -
    have "map_of (zip ks ?ss) (ks ! i) = Some (?ss ! i)"
      using map_of_zip_nth [OF len assms(1), of i] that assms(3) by simp
    then show ?thesis using that by (simp add: eq map_add_def)
  qed
qed

section \<open>Reservation\<close>

definition the_reservation :: "warm_allocator \<Rightarrow> warm_key list \<Rightarrow> warm_reservation" where
  "the_reservation a ks =
     \<lparr>wr_mappings = map (\<lambda>k. (k, the (slot_of (with_new a (fresh_keys a ks)) k))) (uniq ks),
      wr_existing = filter (is_owned a) (uniq ks),
      wr_newly_allocated = fresh_keys a ks,
      wr_reservation_id = wa_next_reservation_id a,
      wr_allocator_token = wa_token a\<rparr>"

definition reserved :: "warm_allocator \<Rightarrow> warm_key list \<Rightarrow> warm_allocator" where
  "reserved a ks =
     (with_new a (fresh_keys a ks))
       \<lparr>wa_next_reservation_id := wa_next_reservation_id a + 1,
        wa_active_reservation := Some (the_reservation a ks)\<rparr>"

lemma with_new_frame [simp]:
  "wa_capacity (with_new a ks) = wa_capacity a"
  "wa_token (with_new a ks) = wa_token a"
  "wa_next_reservation_id (with_new a ks) = wa_next_reservation_id a"
  "wa_active_reservation (with_new a ks) = wa_active_reservation a"
  "wa_free_slots (with_new a ks) = drop (length ks) (wa_free_slots a)"
  by (simp_all add: with_new_def Let_def)

lemma reserve_many_eq:
  assumes inv: "slots_inv a" and idle: "idle a" and valid: "list_all key_valid ks"
  shows "reserve_many ks a =
    (if num_free_slots a < length (fresh_keys a ks) then Inl HKVWarmCapacityError
     else Inr (the_reservation a ks, reserved a ks))"
proof (cases "num_free_slots a < length (fresh_keys a ks)")
  case True
  then show ?thesis
    using assms by (simp add: reserve_many_def idle_def validate_keys_cases fresh_keys_def)
next
  case False
  let ?new = "fresh_keys a ks" let ?a1 = "with_new a ?new"
  have len: "length ?new \<le> length (wa_free_slots a)"
    using False by (simp add: num_free_slots_def)
  have fold: "rfold take_slot ?new a = Inr ?a1"
    using take_slots_eq [OF inv distinct_fresh_keys _ len] by (auto simp: is_owned_slot_of)
  have some: "slot_of ?a1 k \<noteq> None" if "k \<in> set (uniq ks)" for k
    using slot_of_with_new_simps(1,2) [OF distinct_fresh_keys _ len, of k] that
    by (cases "slot_of a k") auto
  have "rmap (\<lambda>k. rbind (dict_index (wa_key_to_slot ?a1) k) (\<lambda>s. Inr (k, s))) (uniq ks) =
      Inr (map (\<lambda>k. (k, the (slot_of ?a1 k))) (uniq ks))"
  proof (rule rmap_total)
    fix k assume "k \<in> set (uniq ks)"
    then obtain s where "slot_of ?a1 k = Some s" using some by blast
    then show "rbind (dict_index (wa_key_to_slot ?a1) k) (\<lambda>s. Inr (k, s)) =
        Inr (k, the (slot_of ?a1 k))"
      by (simp add: dict_index_def slot_of_def)
  qed
  then show ?thesis
    using False fold idle valid
    by (simp add: reserve_many_def idle_def validate_keys_cases fresh_keys_def [symmetric] Let_def
        the_reservation_def reserved_def)
qed

lemma reserved_facts:
  assumes inv: "slots_inv a" and fits: "length (fresh_keys a ks) \<le> num_free_slots a"
  shows "slots_inv (reserved a ks)" and "reservation_ok (the_reservation a ks) (reserved a ks)"
    and "slot_of (reserved a ks) = slot_of (with_new a (fresh_keys a ks))"
    and "k \<in> set ks \<Longrightarrow> slot_of (reserved a ks) k \<noteq> None"
    and "slot_of a k \<noteq> None \<or> k \<notin> set ks \<Longrightarrow> slot_of (reserved a ks) k = slot_of a k"
proof -
  let ?new = "fresh_keys a ks" let ?a1 = "with_new a ?new"
  have len: "length ?new \<le> length (wa_free_slots a)"
    using fits by (simp add: num_free_slots_def)
  note so = slot_of_with_new_simps [OF distinct_fresh_keys _ len]
  have inv1: "slots_inv ?a1"
    using take_slots_eq [OF inv distinct_fresh_keys _ len] by (auto simp: is_owned_slot_of)
  then show "slots_inv (reserved a ks)" by (simp add: reserved_def)
  show sl: "slot_of (reserved a ks) = slot_of ?a1" by (simp add: reserved_def)
  have some: "slot_of ?a1 k \<noteq> None" if "k \<in> set ks" for k
    using so(1,2) [of k] that by (cases "slot_of a k") auto
  then show "k \<in> set ks \<Longrightarrow> slot_of (reserved a ks) k \<noteq> None" by (simp add: sl)
  show "slot_of a k \<noteq> None \<or> k \<notin> set ks \<Longrightarrow> slot_of (reserved a ks) k = slot_of a k"
    using so(2) [of k] by (auto simp: sl)
  show "reservation_ok (the_reservation a ks) (reserved a ks)"
    using some by (auto simp: reservation_ok_def the_reservation_def reserved_def
        slot_of_def [symmetric] image_image)
qed

lemma reserved_inv:
  "slots_inv a \<Longrightarrow> length (fresh_keys a ks) \<le> num_free_slots a \<Longrightarrow> warm_inv (reserved a ks)"
  using reserved_facts [of a ks] by (simp add: warm_inv_def) (simp add: reserved_def)

lemma validate_active_reservation_ok:
  assumes "slots_inv a" "reservation_ok r a" "wa_active_reservation a = Some r"
  shows "validate_active_reservation r a = Inr ()"
proof -
  have "rfold (\<lambda>(key, slot) _.
      if map_of (wa_key_to_slot a) key \<noteq> Some slot \<or> map_of (wa_slot_to_key a) slot \<noteq> Some key
      then Inl HKVWarmOwnershipError else Inr ()) ms () = Inr ()"
    if "\<forall>(k, s) \<in> set ms. map_of (wa_key_to_slot a) k = Some s" for ms
    using that slots_invD(3) [OF assms(1)] by (induction ms) auto
  then show ?thesis
    using assms by (auto simp: validate_active_reservation_def reservation_ok_def)
qed

lemma commit_ok:
  assumes "warm_inv a" "wa_active_reservation a = Some r"
  shows "commit r a = Inr (a\<lparr>wa_active_reservation := None\<rparr>)"
  using assms by (simp add: commit_def warm_inv_def validate_active_reservation_ok)

section \<open>Release and rollback\<close>

definition without_key :: "warm_allocator \<Rightarrow> warm_key \<Rightarrow> warm_allocator" where
  "without_key a key =
     (case slot_of a key of None \<Rightarrow> a
      | Some slot \<Rightarrow> a\<lparr>wa_key_to_slot := AList.delete key (wa_key_to_slot a),
                      wa_slot_to_key := AList.delete slot (wa_slot_to_key a),
                      wa_free_slots := insort slot (wa_free_slots a),
                      wa_free_slot_set := insert slot (wa_free_slot_set a)\<rparr>)"

lemma release_key_raw_eq:
  assumes inv: "slots_inv a"
  shows "release_key_raw key a = Inr (slot_of a key, without_key a key)"
proof (cases "map_of (wa_key_to_slot a) key")
  case None
  then show ?thesis by (simp add: release_key_raw_def without_key_def slot_of_def)
next
  case (Some s)
  then have sk: "map_of (wa_slot_to_key a) s = Some key"
    using slots_invD(3) [OF inv] by simp
  then have "s \<notin> wa_free_slot_set a"
    using slots_inv_free_unowned [OF inv, of s] slots_invD(6) [OF inv] by auto
  with Some sk show ?thesis
    by (simp add: release_key_raw_def without_key_def slot_of_def heappush_def)
qed

lemma slot_of_without_key: "slot_of (without_key a k) = (slot_of a)(k := None)"
  by (auto simp: without_key_def slot_of_def fun_eq_iff split: option.splits)

lemma slots_inv_without_key:
  assumes inv: "slots_inv a" shows "slots_inv (without_key a k)"
proof (cases "map_of (wa_key_to_slot a) k")
  case None
  then show ?thesis using inv by (simp add: without_key_def slot_of_def)
next
  case (Some s)
  have bij: "map_of (wa_key_to_slot a) k' = Some s' \<longleftrightarrow> map_of (wa_slot_to_key a) s' = Some k'"
    for k' s' using inv by (rule slots_invD)
  have sk: "map_of (wa_slot_to_key a) s = Some k" using Some bij by simp
  have s: "s \<notin> set (wa_free_slots a)"
    using slots_inv_free_unowned [OF inv, of s] sk by auto
  have iff: "((map_of (wa_key_to_slot a))(k := None)) k' = Some s' \<longleftrightarrow>
      ((map_of (wa_slot_to_key a))(s := None)) s' = Some k'" for k' s'
    using bij Some sk by (metis fun_upd_apply option.distinct(1) option.inject)
  have dom: "dom (map_of (AList.delete s (wa_slot_to_key a))) = dom (map_of (wa_slot_to_key a)) - {s}"
    by (simp add: delete_conv' dom_def set_eq_iff)
  have "insert s (set (wa_free_slots a)) \<inter> (dom (map_of (wa_slot_to_key a)) - {s}) = {}"
    "insert s (set (wa_free_slots a)) \<union> (dom (map_of (wa_slot_to_key a)) - {s})
      = {0..<nat (wa_capacity a)}"
    using inv sk by (auto simp: slots_inv_def)
  moreover have "without_key a k =
      a\<lparr>wa_key_to_slot := AList.delete k (wa_key_to_slot a),
        wa_slot_to_key := AList.delete s (wa_slot_to_key a),
        wa_free_slots := insort s (wa_free_slots a),
        wa_free_slot_set := insert s (wa_free_slot_set a)\<rparr>"
    using Some by (simp add: without_key_def slot_of_def)
  ultimately show ?thesis
    using inv s iff
    by (simp add: slots_inv_def sorted_insort distinct_insort set_insort_key dom)
qed

lemma release_one_eq:
  "slots_inv a \<Longrightarrow> release_one k (ss, a) =
     Inr (ss @ (case slot_of a k of None \<Rightarrow> [] | Some s \<Rightarrow> [s]), without_key a k)"
  by (simp add: release_one_def release_key_raw_eq split: option.splits)

lemma release_fold_eq:
  assumes "slots_inv a" "distinct ks"
  shows "rfold release_one ks (ss, a) =
     Inr (ss @ List.map_filter (slot_of a) ks, fold (\<lambda>k a. without_key a k) ks a)
   \<and> slots_inv (fold (\<lambda>k a. without_key a k) ks a)
   \<and> slot_of (fold (\<lambda>k a. without_key a k) ks a) = slot_of a |` (- set ks)"
  using assms
proof (induction ks arbitrary: a ss)
  case Nil
  then show ?case by (simp add: List.map_filter_def restrict_map_def)
next
  case (Cons k ks)
  have inv: "slots_inv (without_key a k)" using Cons.prems by (simp add: slots_inv_without_key)
  have mf: "List.map_filter (slot_of (without_key a k)) ks = List.map_filter (slot_of a) ks"
    using Cons.prems(2) by (induction ks) (auto simp: List.map_filter_simps slot_of_without_key split: option.splits)
  have rm: "slot_of (without_key a k) |` (- set ks) = slot_of a |` (- set (k # ks))"
    by (auto simp: slot_of_without_key fun_eq_iff restrict_map_def)
  show ?case
    using Cons.IH [OF inv] Cons.prems
    by (auto simp: release_one_eq List.map_filter_simps mf rm split: option.splits)
qed

lemma without_key_frame [simp]:
  "wa_capacity (without_key a k) = wa_capacity a" "wa_token (without_key a k) = wa_token a"
  "wa_active_reservation (without_key a k) = wa_active_reservation a"
  "wa_next_reservation_id (without_key a k) = wa_next_reservation_id a"
  by (simp_all add: without_key_def split: option.splits)

lemma fold_without_key_frame [simp]:
  "wa_active_reservation (fold (\<lambda>k a. without_key a k) ks a) = wa_active_reservation a"
  "wa_capacity (fold (\<lambda>k a. without_key a k) ks a) = wa_capacity a"
  by (induction ks arbitrary: a) auto

lemma release_keys_eq:
  assumes "slots_inv a" "idle a" "list_all key_valid ks"
  shows "release_keys ks a =
    Inr (List.map_filter (slot_of a) (uniq ks), fold (\<lambda>k a. without_key a k) (uniq ks) a)"
  using assms release_fold_eq [OF assms(1) distinct_uniq, of ks "[]"]
  by (simp add: release_keys_def require_no_active_reservation_def idle_def validate_keys_cases)

lemma release_key_eq:
  "slots_inv a \<Longrightarrow> idle a \<Longrightarrow> key_valid k \<Longrightarrow>
     release_key k a = Inr (slot_of a k, without_key a k)"
  by (simp add: release_key_def require_no_active_reservation_def idle_def
      validate_logical_key_cases release_key_raw_eq)

text \<open>
  Undoing a reservation: releasing the keys just appended, whatever the free list, gives the
  old maps back and inserts the slots.
\<close>

definition appended ::
  "warm_allocator \<Rightarrow> warm_key list \<Rightarrow> nat list \<Rightarrow> nat list \<Rightarrow> warm_allocator" where
  "appended a ks ss free =
     a\<lparr>wa_key_to_slot := wa_key_to_slot a @ zip ks ss,
       wa_slot_to_key := wa_slot_to_key a @ zip ss ks,
       wa_free_slots := free, wa_free_slot_set := set free\<rparr>"

lemma release_appended:
  assumes "length ks = length ss" "distinct ks" "distinct ss"
    "set ks \<inter> set (dkeys (wa_key_to_slot a)) = {}" "set ss \<inter> set (dkeys (wa_slot_to_key a)) = {}"
    "set ss \<inter> set free = {}"
  shows "rfold (\<lambda>key a. rbind (release_key_raw key a) (\<lambda>(_, a'). Inr a')) ks (appended a ks ss free) =
    Inr (appended a [] [] (fold insort ss free))"
  using assms
proof (induction ks ss arbitrary: free rule: list_induct2)
  case Nil
  then show ?case by simp
next
  case (Cons k ks s ss)
  have d: "AList.delete k (zip ks ss) = zip ks ss" "AList.delete s (zip ss ks) = zip ss ks"
    using Cons.prems Cons.hyps by (auto intro!: delete_fresh dest: in_set_zipE set_zip_leftD)
  have k: "k \<notin> set (dkeys (wa_key_to_slot a))" and s: "s \<notin> set (dkeys (wa_slot_to_key a))"
    using Cons.prems by auto
  have mk: "map_of (wa_key_to_slot a @ (k, s) # zip ks ss) k = Some s"
    "map_of (wa_slot_to_key a @ (s, k) # zip ss ks) s = Some k"
    using k s by (simp_all add: map_add_def map_of_None_iff [THEN iffD2])
  have "release_key_raw k (appended a (k # ks) (s # ss) free) =
      Inr (Some s, appended a ks ss (insort s free))"
    using Cons.prems(5) by (simp add: release_key_raw_def appended_def mk heappush_def d
        delete_fresh [OF k] delete_fresh [OF s] set_insort_key del: map_of_append)
  then show ?case
    using Cons.IH [of "insort s free"] Cons.prems by (auto simp: set_insort_key)
qed

lemma fold_insort_facts:
  assumes "sorted ys" "distinct ys" "distinct ss" "set ss \<inter> set ys = {}"
  shows "sorted (fold insort ss ys) \<and> distinct (fold insort ss ys) \<and>
    set (fold insort ss ys) = set ss \<union> set ys"
  using assms
proof (induction ss arbitrary: ys)
  case (Cons s ss)
  have "sorted (insort s ys)" "distinct (insort s ys)" "set ss \<inter> set (insort s ys) = {}"
    using Cons.prems by (auto simp: sorted_insort distinct_insort set_insort_key)
  then show ?case using Cons.IH [of "insort s ys"] Cons.prems(3) by (auto simp: set_insort_key)
qed simp

lemma rollback_reserved:
  assumes inv: "slots_inv a" and idle: "idle a"
    and fits: "length (fresh_keys a ks) \<le> num_free_slots a"
  shows "rollback (the_reservation a ks) (reserved a ks) =
    Inr (a\<lparr>wa_next_reservation_id := wa_next_reservation_id a + 1\<rparr>)"
proof -
  let ?new = "fresh_keys a ks" and ?r = "the_reservation a ks"
  let ?ss = "take (length ?new) (wa_free_slots a)"
  let ?rest = "drop (length ?new) (wa_free_slots a)"
  let ?b = "a\<lparr>wa_next_reservation_id := wa_next_reservation_id a + 1,
              wa_active_reservation := Some ?r\<rparr>"
  have len: "length ?new = length ?ss" using fits by (simp add: num_free_slots_def)
  have sd: "sorted (wa_free_slots a)" "distinct (wa_free_slots a)"
    and fs: "wa_free_slot_set a = set (wa_free_slots a)"
    using slots_invD [OF inv] by auto
  have disj: "set ?ss \<inter> set ?rest = {}"
    using sd(2) by (metis append_take_drop_id distinct_append)
  have split: "set (wa_free_slots a) = set ?ss \<union> set ?rest"
    by (metis append_take_drop_id set_append)
  have res: "reserved a ks = appended ?b ?new ?ss ?rest"
    using disj split
    by (intro warm_allocator.equality) (auto simp: reserved_def appended_def with_new_def Let_def fs)
  have "sorted (fold insort ?ss ?rest) \<and> distinct (fold insort ?ss ?rest) \<and>
      set (fold insort ?ss ?rest) = set ?ss \<union> set ?rest"
    using sd disj sorted_wrt_drop [of "(\<le>)"] by (intro fold_insort_facts) auto
  then have eq: "fold insort ?ss ?rest = wa_free_slots a"
    using sd split by (intro sorted_distinct_set_unique) auto
  have k: "set ?new \<inter> set (dkeys (wa_key_to_slot ?b)) = {}"
    by (auto simp: slot_of_def map_of_None_iff)
  have k': "set ?ss \<inter> set (dkeys (wa_slot_to_key ?b)) = {}"
  proof -
    have "s \<notin> set (dkeys (wa_slot_to_key a))" if "s \<in> set ?ss" for s
      using slots_inv_free_unowned [OF inv in_set_takeD [OF that]] by (simp only: map_of_None_iff not_False_eq_True)
    then show ?thesis by auto
  qed
  have whole: "appended ?b [] [] (wa_free_slots a) = ?b"
    by (intro warm_allocator.equality) (simp_all add: appended_def fs)
  have undo: "rfold (\<lambda>key a. rbind (release_key_raw key a) (\<lambda>(_, a'). Inr a')) ?new (reserved a ks)
      = Inr ?b"
    using release_appended [OF len distinct_fresh_keys _ k k' disj] sd(2) whole eq
    by (simp add: res)
  have "validate_active_reservation ?r (reserved a ks) = Inr ()"
    using reserved_facts [OF inv fits] by (intro validate_active_reservation_ok) (simp_all add: reserved_def)
  then show ?thesis
    using undo idle by (simp add: rollback_def the_reservation_def idle_def)
qed

section \<open>The runtime self-check\<close>

lemma slots_inv_owned_card:
  assumes "slots_inv a"
  shows "length (wa_key_to_slot a) = length (wa_slot_to_key a)"
proof -
  let ?f = "map_of (wa_key_to_slot a)" and ?g = "map_of (wa_slot_to_key a)"
  have iff: "?f k = Some s \<longleftrightarrow> ?g s = Some k" for k s using assms by (rule slots_invD)
  have "bij_betw (\<lambda>k. the (?f k)) (dom ?f) (dom ?g)"
  proof (rule bij_betw_byWitness [where f' = "\<lambda>s. the (?g s)"])
    have fg: "?g (the (?f k)) = Some k" if "k \<in> dom ?f" for k
      using that iff by (metis domIff option.exhaust_sel)
    have gf: "?f (the (?g s)) = Some s" if "s \<in> dom ?g" for s
      using that iff by (metis domIff option.exhaust_sel)
    show "\<forall>k \<in> dom ?f. the (?g (the (?f k))) = k" by (simp add: fg)
    show "\<forall>s \<in> dom ?g. the (?f (the (?g s))) = s" by (simp add: gf)
    show "(\<lambda>k. the (?f k)) ` dom ?f \<subseteq> dom ?g" by (rule image_subsetI, rule domI, erule fg)
    show "(\<lambda>s. the (?g s)) ` dom ?g \<subseteq> dom ?f" by (rule image_subsetI, rule domI, erule gf)
  qed
  then have "card (dom ?f) = card (dom ?g)" by (rule bij_betw_same_card)
  then show ?thesis using assms by (simp add: length_card_dom slots_invD)
qed

lemma slots_inv_self_check:
  assumes inv: "warm_inv a" shows "validate_invariants a"
proof -
  have s: "slots_inv a" using inv by (simp add: warm_inv_def)
  have dom: "set (dkeys (wa_slot_to_key a)) = dom (map_of (wa_slot_to_key a))"
    by (simp add: dom_map_of_conv_image_fst)
  have un: "set (wa_free_slots a) \<union> dom (map_of (wa_slot_to_key a)) = {0..<nat (wa_capacity a)}"
    and dis: "set (wa_free_slots a) \<inter> dom (map_of (wa_slot_to_key a)) = {}"
    and cap: "0 < wa_capacity a"
    using s by (auto simp: slots_inv_def)
  have "card (dom (map_of (wa_slot_to_key a))) + card (set (wa_free_slots a)) = nat (wa_capacity a)"
    using card_Un_disjoint [OF _ _ dis] un by (simp add: finite_dom_map_of)
  then have card: "int (card (dom (map_of (wa_slot_to_key a))) + card (set (wa_free_slots a)))
      = wa_capacity a" using cap by simp
  have bound: "int sl < wa_capacity a" if "map_of (wa_slot_to_key a) sl = Some k" for sl k
    using that un cap by (metis Un_iff atLeastLessThan_iff domI zless_nat_eq_int_zless)
  have k2s: "list_all (\<lambda>(key, slot). int slot < wa_capacity a \<and>
      map_of (wa_slot_to_key a) slot = Some key) (wa_key_to_slot a)"
    using s bound
    by (auto simp: list_all_iff slots_invD dest!: map_of_SomeI_distinct [OF slots_invD(1) [OF s]])
  have s2k: "list_all (\<lambda>(slot, key). int slot < wa_capacity a \<and>
      map_of (wa_key_to_slot a) key = Some slot) (wa_slot_to_key a)"
    using s bound
    by (auto simp: list_all_iff slots_invD dest!: map_of_SomeI_distinct [OF slots_invD(2) [OF s]])
  have act: "case wa_active_reservation a of None \<Rightarrow> True
      | Some r \<Rightarrow> list_all (\<lambda>(key, slot). map_of (wa_key_to_slot a) key = Some slot) (wr_mappings r)"
    using inv by (auto simp: warm_inv_def reservation_ok_def list_all_iff split: option.splits)
  show ?thesis
    unfolding validate_invariants_def Let_def dom
    using s k2s s2k act card un dis
    by (simp add: slots_inv_owned_card [OF s] distinct_card slots_invD add.commute atLeast_upt)
qed

section \<open>The allocator as an interface\<close>

text \<open>
  What the migration manager relies on.  \<open>own\<close> is the abstract ownership map; a
  reservation is all or nothing, hands out a slot for every requested key without touching
  the others, and can be closed in two ways: committed, which keeps it, or rolled back,
  which restores the ownership map and the number of free slots.
\<close>

locale slot_store =
  fixes inv :: "'a \<Rightarrow> bool"
    and quiet :: "'a \<Rightarrow> bool"
    and own :: "'a \<Rightarrow> 'k \<Rightarrow> nat option"
    and spare :: "'a \<Rightarrow> nat"
    and valid :: "'k \<Rightarrow> bool"
    and reserve :: "'k list \<Rightarrow> 'a \<Rightarrow> ('r \<times> 'a) res"
    and close :: "'r \<Rightarrow> 'a \<Rightarrow> 'a res"
    and undo :: "'r \<Rightarrow> 'a \<Rightarrow> 'a res"
    and release :: "'k list \<Rightarrow> 'a \<Rightarrow> (nat list \<times> 'a) res"
    and slots :: "'r \<Rightarrow> ('k \<times> nat) list"
    and created :: "'r \<Rightarrow> 'k list"
  assumes own_inj: "inv a \<Longrightarrow> own a k = Some s \<Longrightarrow> own a k' = Some s \<Longrightarrow> k = k'"
    and reserve_full:
      "inv a \<Longrightarrow> quiet a \<Longrightarrow> list_all valid ks \<Longrightarrow> distinct ks \<Longrightarrow>
       \<forall>k \<in> set ks. own a k = None \<Longrightarrow> spare a < length ks \<Longrightarrow>
       reserve ks a = Inl HKVWarmCapacityError"
    and reserve_fits:
      "inv a \<Longrightarrow> quiet a \<Longrightarrow> list_all valid ks \<Longrightarrow> distinct ks \<Longrightarrow>
       \<forall>k \<in> set ks. own a k = None \<Longrightarrow> length ks \<le> spare a \<Longrightarrow>
       \<exists>r a1 a2 a3. reserve ks a = Inr (r, a1) \<and> created r = ks \<and>
         (\<forall>k \<in> set ks. map_of (slots r) k \<noteq> None \<and> map_of (slots r) k = own a2 k) \<and>
         close r a1 = Inr a2 \<and> inv a2 \<and> quiet a2 \<and> spare a2 = spare a - length ks \<and>
         (\<forall>k. k \<notin> set ks \<longrightarrow> own a2 k = own a k) \<and>
         undo r a1 = Inr a3 \<and> inv a3 \<and> quiet a3 \<and> own a3 = own a \<and> spare a3 = spare a"
    and release_ok:
      "inv a \<Longrightarrow> quiet a \<Longrightarrow> list_all valid ks \<Longrightarrow> distinct ks \<Longrightarrow>
       \<exists>ss a'. release ks a = Inr (ss, a') \<and> inv a' \<and> quiet a' \<and>
         ss = List.map_filter (own a) ks \<and> own a' = own a |` (- set ks)"
begin

text \<open>A residency table agrees with the allocator when both know the same slots.\<close>

lemma agree_inj:
  assumes "inv a" "\<And>k. own a k = map_option f (R k)" "R k = Some x" "R k' = Some y" "f x = f y"
  shows "k = k'"
  using own_inj [OF assms(1), of k "f x" k'] assms by simp

lemma agree_release:
  assumes "inv a" "quiet a" "list_all valid ks" "distinct ks" "\<And>k. own a k = map_option f (R k)"
    and "release ks a = Inr (ss, a')"
  shows "inv a' \<and> quiet a' \<and> (\<forall>k. own a' k = map_option f ((R |` (- set ks)) k))"
  using release_ok [OF assms(1-4)] assms(5,6) by (auto simp: restrict_map_def)

lemma agree_commit:
  assumes "inv a" "quiet a" "list_all valid ks" "distinct ks" "\<And>k. own a k = map_option f (R k)"
    and "\<forall>k \<in> set ks. R k = None" and "reserve ks a = Inr (r, a1)" and "close r a1 = Inr a2"
    and "\<And>k. k \<in> set ks \<Longrightarrow> map_option f (R' k) = map_of (slots r) k"
    and "\<And>k. k \<notin> set ks \<Longrightarrow> R' k = R k"
  shows "inv a2 \<and> quiet a2 \<and> (\<forall>k. own a2 k = map_option f (R' k))"
proof -
  have fresh: "\<forall>k \<in> set ks. own a k = None" using assms(5,6) by simp
  have "length ks \<le> spare a"
    using reserve_full [OF assms(1-4) fresh] assms(7) by (cases "spare a < length ks") auto
  from reserve_fits [OF assms(1-4) fresh this] assms(7,8)
  have "inv a2 \<and> quiet a2 \<and> (\<forall>k \<in> set ks. own a2 k = map_of (slots r) k) \<and>
      (\<forall>k. k \<notin> set ks \<longrightarrow> own a2 k = own a k)" by auto
  then show ?thesis using assms(5,9,10) by metis
qed

lemma agree_rollback:
  assumes "inv a" "quiet a" "list_all valid ks" "distinct ks" "\<And>k. own a k = map_option f (R k)"
    and "\<forall>k \<in> set ks. R k = None" and "reserve ks a = Inr (r, a1)"
  shows "\<exists>a3. undo r a1 = Inr a3 \<and> inv a3 \<and> quiet a3 \<and> spare a3 = spare a \<and>
    (\<forall>k. own a3 k = map_option f (R k))"
proof -
  have fresh: "\<forall>k \<in> set ks. own a k = None" using assms(5,6) by simp
  have "length ks \<le> spare a"
    using reserve_full [OF assms(1-4) fresh] assms(7) by (cases "spare a < length ks") auto
  from reserve_fits [OF assms(1-4) fresh this] assms(5,7) show ?thesis by auto
qed

end

lemma num_free_with_new:
  "length ks \<le> num_free_slots a \<Longrightarrow> num_free_slots (with_new a ks) = num_free_slots a - length ks"
  by (simp add: num_free_slots_def)

interpretation wa: slot_store slots_inv idle slot_of num_free_slots key_valid
  reserve_many commit rollback release_keys wr_mappings wr_newly_allocated
proof unfold_locales
  fix a :: warm_allocator and k k' s
  assume "slots_inv a" "slot_of a k = Some s" "slot_of a k' = Some s"
  then show "k = k'" by (rule slot_of_inj)
next
  fix a :: warm_allocator and ks
  assume "slots_inv a" "idle a" "list_all key_valid ks" "distinct ks"
    "\<forall>k \<in> set ks. slot_of a k = None" "num_free_slots a < length ks"
  then show "reserve_many ks a = Inl HKVWarmCapacityError"
    by (simp add: reserve_many_eq fresh_keys_all)
next
  fix a :: warm_allocator and ks
  assume asm: "slots_inv a" "idle a" "list_all key_valid ks" "distinct ks"
    "\<forall>k \<in> set ks. slot_of a k = None" "length ks \<le> num_free_slots a"
  let ?r = "the_reservation a ks" and ?a1 = "reserved a ks"
  let ?a2 = "?a1\<lparr>wa_active_reservation := None\<rparr>"
  let ?a3 = "a\<lparr>wa_next_reservation_id := wa_next_reservation_id a + 1\<rparr>"
  have fr: "fresh_keys a ks = ks" using asm by (intro fresh_keys_all)
  then have fits: "length (fresh_keys a ks) \<le> num_free_slots a" using asm by simp
  note facts = reserved_facts [OF asm(1) fits]
  have "reserve_many ks a = Inr (?r, ?a1)" using asm fits by (simp add: reserve_many_eq)
  moreover have "wr_newly_allocated ?r = ks" by (simp add: the_reservation_def fr)
  moreover have "map_of (wr_mappings ?r) k = slot_of ?a2 k \<and> slot_of ?a2 k \<noteq> None"
    if "k \<in> set ks" for k
    using facts(4) [OF that] that by (auto simp: the_reservation_def facts(3) map_of_map_restrict)
  moreover have "commit ?r ?a1 = Inr ?a2"
    using asm fits by (intro commit_ok reserved_inv) (simp_all add: reserved_def)
  moreover have "rollback ?r ?a1 = Inr ?a3" using asm fits by (intro rollback_reserved)
  moreover have "slots_inv ?a2" "slots_inv ?a3" "idle ?a2" "idle ?a3"
    using facts(1) asm by (simp_all add: idle_def)
  moreover have "num_free_slots ?a2 = num_free_slots a - length ks" "num_free_slots ?a3 = num_free_slots a"
    using asm by (simp_all add: num_free_slots_def reserved_def fr)
  moreover have "\<forall>k. k \<notin> set ks \<longrightarrow> slot_of ?a2 k = slot_of a k" "slot_of ?a3 = slot_of a"
    using facts(5) by simp_all
  ultimately show "\<exists>r a1 a2 a3. reserve_many ks a = Inr (r, a1) \<and> wr_newly_allocated r = ks \<and>
         (\<forall>k \<in> set ks. map_of (wr_mappings r) k \<noteq> None \<and> map_of (wr_mappings r) k = slot_of a2 k) \<and>
         commit r a1 = Inr a2 \<and> slots_inv a2 \<and> idle a2 \<and>
         num_free_slots a2 = num_free_slots a - length ks \<and>
         (\<forall>k. k \<notin> set ks \<longrightarrow> slot_of a2 k = slot_of a k) \<and>
         rollback r a1 = Inr a3 \<and> slots_inv a3 \<and> idle a3 \<and> slot_of a3 = slot_of a \<and>
         num_free_slots a3 = num_free_slots a"
    by (intro exI [of _ ?r] exI [of _ ?a1] exI [of _ ?a2] exI [of _ ?a3]) auto
next
  fix a :: warm_allocator and ks
  assume asm: "slots_inv a" "idle a" "list_all key_valid ks" "distinct ks"
  then show "\<exists>ss a'. release_keys ks a = Inr (ss, a') \<and> slots_inv a' \<and> idle a' \<and>
         ss = List.map_filter (slot_of a) ks \<and> slot_of a' = slot_of a |` (- set ks)"
    using release_keys_eq [of a ks] release_fold_eq [of a ks "[]"] by (simp add: idle_def)
qed

section \<open>Every history of calls\<close>

text \<open>
  A history is any sequence of calls that returned; a call that raised left the state as it
  was.  \<open>reserve\<close> and its closing calls need not be paired in order: the guards of the
  code decide which calls return.
\<close>

inductive alloc_step :: "warm_allocator \<Rightarrow> warm_allocator \<Rightarrow> bool" where
  step_reserve: "reserve_many ks a = Inr (r, a') \<Longrightarrow> alloc_step a a'"
| step_commit: "commit r a = Inr a' \<Longrightarrow> alloc_step a a'"
| step_rollback: "rollback r a = Inr a' \<Longrightarrow> alloc_step a a'"
| step_release_key: "release_key k a = Inr (s, a') \<Longrightarrow> alloc_step a a'"
| step_release_keys: "release_keys ks a = Inr (ss, a') \<Longrightarrow> alloc_step a a'"
| step_clear: "alloc_step a (clear a)"

inductive alloc_reachable :: "int \<Rightarrow> warm_allocator \<Rightarrow> bool" for cap where
  init: "new_allocator t cap = Inr a \<Longrightarrow> alloc_reachable cap a"
| step: "alloc_reachable cap a \<Longrightarrow> alloc_step a a' \<Longrightarrow> alloc_reachable cap a'"

lemma reserve_many_inv:
  assumes inv: "warm_inv a" and res: "reserve_many ks a = Inr (r, a')"
  shows "warm_inv a' \<and> wa_capacity a' = wa_capacity a \<and> wa_active_reservation a' = Some r"
proof -
  have idle: "idle a" and val: "list_all key_valid ks"
    using res by (auto simp: reserve_many_def idle_def validate_keys_cases res_simps split: if_splits)
  have s: "slots_inv a" using inv by (simp add: warm_inv_def)
  then have "a' = reserved a ks" "r = the_reservation a ks" "length (fresh_keys a ks) \<le> num_free_slots a"
    using res reserve_many_eq [OF s idle val] by (auto split: if_splits)
  then show ?thesis using reserved_inv [OF s] by (auto simp: reserved_def)
qed

lemma release_fold_inv:
  assumes "slots_inv a" "rfold (\<lambda>key a. rbind (release_key_raw key a) (\<lambda>(_, a'). Inr a')) ks a = Inr a'"
  shows "slots_inv a' \<and> wa_capacity a' = wa_capacity a"
  using assms
proof (induction ks arbitrary: a)
  case (Cons k ks)
  then have "rfold (\<lambda>key a. rbind (release_key_raw key a) (\<lambda>(_, a'). Inr a')) ks (without_key a k) = Inr a'"
    by (simp add: release_key_raw_eq)
  from Cons.IH [OF slots_inv_without_key [OF Cons.prems(1)] this] show ?case by simp
qed simp

lemma alloc_step_inv:
  assumes "alloc_step a a'" "warm_inv a"
  shows "warm_inv a' \<and> wa_capacity a' = wa_capacity a"
  using assms
proof (induction rule: alloc_step.induct)
  case (step_reserve ks a r a')
  then show ?case using reserve_many_inv by blast
next
  case (step_commit r a a')
  then have "a' = a\<lparr>wa_active_reservation := None\<rparr>" by (auto simp: commit_def res_simps)
  with step_commit show ?case by (auto simp: warm_inv_def)
next
  case (step_rollback r a a')
  then obtain a1 where
    a1: "rfold (\<lambda>key a. rbind (release_key_raw key a) (\<lambda>(_, a'). Inr a')) (wr_newly_allocated r) a = Inr a1"
    and a': "a' = a1\<lparr>wa_active_reservation := None\<rparr>"
    by (auto simp: rollback_def res_simps)
  have "slots_inv a" using step_rollback by (simp add: warm_inv_def)
  from release_fold_inv [OF this a1] show ?case by (simp add: a' warm_inv_def)
next
  case (step_release_key k a s a')
  then have "idle a" "key_valid k" "slots_inv a"
    by (auto simp: release_key_def require_no_active_reservation_def validate_logical_key_cases
        idle_def res_simps warm_inv_def split: if_splits)
  with step_release_key show ?case
    by (auto simp: release_key_eq warm_inv_def idle_def slots_inv_without_key)
next
  case (step_release_keys ks a ss a')
  then have "idle a" "list_all key_valid ks" "slots_inv a"
    by (auto simp: release_keys_def require_no_active_reservation_def validate_keys_cases
        idle_def res_simps warm_inv_def split: if_splits)
  with step_release_keys show ?case
    using release_fold_eq [of a "uniq ks" "[]"]
    by (auto simp: release_keys_eq warm_inv_def idle_def)
next
  case (step_clear a)
  then show ?case using clear_inv [of a] by (simp add: warm_inv_def idle_def) (simp add: clear_def)
qed

lemma alloc_reachable_inv: "alloc_reachable cap a \<Longrightarrow> warm_inv a \<and> wa_capacity a = cap"
proof (induction rule: alloc_reachable.induct)
  case (init t a)
  then show ?case using new_allocator_inv by (auto simp: new_allocator_def split: if_splits)
next
  case (step a a')
  then show ?case using alloc_step_inv by simp
qed

lemma warm_inv_partition:
  assumes inv: "warm_inv a"
  shows "num_owned_slots a + num_free_slots a = nat (wa_capacity a)"
proof -
  have v: "validate_invariants a" by (rule slots_inv_self_check [OF inv])
  have s: "slots_inv a" using inv by (simp add: warm_inv_def)
  have "length (wa_slot_to_key a) = card (set (dkeys (wa_slot_to_key a)))"
    using distinct_card [OF slots_invD(2) [OF s]] by simp
  moreover have "length (wa_free_slots a) = card (set (wa_free_slots a))"
    "int (card (set (dkeys (wa_slot_to_key a))) + card (set (wa_free_slots a))) = wa_capacity a"
    "length (wa_key_to_slot a) = length (wa_slot_to_key a)"
    using v unfolding validate_invariants_def Let_def by blast+
  ultimately have "int (num_owned_slots a + num_free_slots a) = wa_capacity a"
    by (simp only: num_owned_slots_def num_free_slots_def)
  then show ?thesis by simp
qed

text \<open>Claim C1.  In every history of calls on an allocator, each assertion of the runtime
  self-check \<open>validate_invariants\<close> holds and no slot is lost or shared: the owned slots and the
  free slots partition the pool.\<close>

theorem warm_self_check_never_fails:
  assumes "alloc_reachable cap a"
  shows "validate_invariants a \<and> num_owned_slots a + num_free_slots a = nat cap"
  using alloc_reachable_inv [OF assms] warm_inv_partition slots_inv_self_check by blast

theorem warm_self_check_never_fails_witness:
  "\<exists>a. alloc_reachable 3 a \<and> slot_of a (''r'', 0, 7) = Some 0 \<and> slot_of a (''r'', 0, 9) = Some 1
     \<and> validate_invariants a \<and> num_owned_slots a + num_free_slots a = 3"
proof -
  obtain a where a: "new_allocator 0 3 = Inr a" by (simp add: new_allocator_def)
  obtain r a' where a': "reserve_many [(''r'', 0, 7), (''r'', 0, 9)] a = Inr (r, a')"
    and sl: "slot_of a' (''r'', 0, 7) = Some 0" "slot_of a' (''r'', 0, 9) = Some 1"
    using a by (auto simp: new_allocator_def reserve_many_def validate_keys_def is_owned_def
        num_free_slots_def take_slot_def dict_index_def slot_of_def upt_rec Let_def)
  have "alloc_reachable 3 a'"
    by (rule alloc_reachable.step [OF alloc_reachable.init [OF a] alloc_step.step_reserve [OF a']])
  from warm_self_check_never_fails [OF this] this sl show ?thesis by auto
qed

end
