(* ===== verification/WarmMigration.thy ===== *)
theory WarmMigration
  imports WarmAlloc
begin

text \<open>
  \<open>HKVWarmMigrationManager\<close> of \<^verbatim>\<open>vllm/v1/worker/gpu/hkv_migration.py\<close> and
  \<open>GPUModelRunner.handle_kv_cache_state_transitions\<close> of
  \<^verbatim>\<open>vllm/v1/worker/gpu/model_runner.py\<close>.

  The WARM tensors are the component \<open>mm_store\<close> of type \<open>'w\<close>, and the kernel call
  \<open>quantize_hkv_blocks_to_warm(hot ids, warm slots)\<close> is the argument \<open>quantize\<close>: it
  returns normally or raises, and in both cases may have changed the tensors.  \<open>migrate\<close>
  returns its outcome together with the manager it leaves behind, because the source
  handles the kernel's exception (rollback, then re-raise) and the runner handles two of the
  exceptions of \<open>migrate\<close>.  The block table the worker holds is a list of groups of HOT ids.
  CUDA synchronisation has no effect on this state and is left out.
\<close>

record warm_residency =
  rs_warm_slot_id :: nat
  rs_shadow_hot_block_id :: int

record 'w migration_manager =
  mm_allocator :: warm_allocator
  mm_store :: 'w
  mm_residency :: "(warm_key, warm_residency) dict"
  mm_revision :: nat

type_synonym 'w kernel = "int list \<Rightarrow> nat list \<Rightarrow> 'w \<Rightarrow> unit res \<times> 'w"

definition new_migration_manager :: "nat \<Rightarrow> int \<Rightarrow> 'w \<Rightarrow> 'w migration_manager res" where
  "new_migration_manager token warm_capacity store =
     rbind (new_allocator token warm_capacity) (\<lambda>a.
     Inr \<lparr>mm_allocator = a, mm_store = store, mm_residency = [], mm_revision = 0\<rparr>)"

section \<open>migrate\<close>

text \<open>One iteration of the validation loop, on the table of the normalised entries.\<close>

definition check_block ::
  "'w migration_manager \<Rightarrow> string \<Rightarrow> int \<Rightarrow> int list \<Rightarrow> kv_block_transition
     \<Rightarrow> (warm_key, int) dict \<Rightarrow> (warm_key, int) dict res" where
  "check_block m request_id group_index current_group block normalized =
     (let logical = bt_logical_index block;
          source = bt_source_hot_id block;
          key = (request_id, group_index, logical)
      in
        if logical < 0 then Inl ValueError
        else if source < 0 then Inl ValueError
        else if (case map_of normalized key of None \<Rightarrow> False | Some prev \<Rightarrow> prev \<noteq> source)
          then Inl ValueError
        else if logical \<ge> int (length current_group) then Inl HKVWarmStaleValidationError
        else if current_group ! nat logical \<noteq> source then Inl HKVWarmStaleValidationError
        else if (case map_of (mm_residency m) key of None \<Rightarrow> False
                 | Some res \<Rightarrow> rs_shadow_hot_block_id res \<noteq> source)
          then Inl HKVWarmStaleValidationError
        else Inr (AList.update key source normalized))"

fun check_groups ::
  "'w migration_manager \<Rightarrow> string \<Rightarrow> int \<Rightarrow> kv_block_transition list list \<Rightarrow> int list list
     \<Rightarrow> (warm_key, int) dict \<Rightarrow> (warm_key, int) dict res" where
  "check_groups m request_id i (blocks # rest) (current # table) normalized =
     rbind (rfold (check_block m request_id i current) blocks normalized) (\<lambda>normalized'.
     check_groups m request_id (i + 1) rest table normalized')"
| "check_groups m request_id i _ _ normalized = Inr normalized"

definition set_residency ::
  "(warm_key, nat) dict \<Rightarrow> warm_key \<times> int \<Rightarrow> (warm_key, warm_residency) dict
     \<Rightarrow> (warm_key, warm_residency) dict res" where
  "set_residency maps entry residency =
     rbind (dict_index maps (fst entry)) (\<lambda>slot.
     Inr (AList.update (fst entry)
            \<lparr>rs_warm_slot_id = slot, rs_shadow_hot_block_id = snd entry\<rparr> residency))"

text \<open>The transaction on the entries that are not resident yet.\<close>

definition migrate_new ::
  "'w kernel \<Rightarrow> (warm_key, int) dict \<Rightarrow> 'w migration_manager
     \<Rightarrow> bool res \<times> 'w migration_manager" where
  "migrate_new quantize new_entries m =
     (case reserve_many (dkeys new_entries) (mm_allocator m) of
        Inl e \<Rightarrow> (Inl e, m)
      | Inr (reservation, a1) \<Rightarrow>
          let maps = wr_mappings reservation;
              m1 = m\<lparr>mm_allocator := a1\<rparr>
          in
          (case (rmap (dict_index new_entries) (wr_newly_allocated reservation),
                 rmap (dict_index maps) (wr_newly_allocated reservation)) of
             (Inr hot_ids, Inr slot_ids) \<Rightarrow>
               (let (outcome, store') =
                      (if hot_ids \<noteq> [] then quantize hot_ids slot_ids (mm_store m)
                       else (Inr (), mm_store m));
                    m2 = m1\<lparr>mm_store := store'\<rparr>
                in case outcome of
                     Inl e \<Rightarrow>
                       (case rollback reservation a1 of
                          Inl e' \<Rightarrow> (Inl e', m2)
                        | Inr a2 \<Rightarrow> (Inl e, m2\<lparr>mm_allocator := a2\<rparr>))
                   | Inr _ \<Rightarrow>
                       (case commit reservation a1 of
                          Inl e' \<Rightarrow> (Inl e', m2)
                        | Inr a2 \<Rightarrow>
                            (case rfold (set_residency maps) new_entries (mm_residency m) of
                               Inl e' \<Rightarrow> (Inl e', m2\<lparr>mm_allocator := a2\<rparr>)
                             | Inr residency \<Rightarrow>
                                 (Inr True,
                                  m2\<lparr>mm_allocator := a2, mm_residency := residency,
                                     mm_revision := mm_revision m + 1\<rparr>))))
           | (Inl e, _) \<Rightarrow> (Inl e, m1)
           | (_, Inl e) \<Rightarrow> (Inl e, m1)))"

definition migrate ::
  "'w kernel \<Rightarrow> string \<Rightarrow> kv_block_transition list list \<Rightarrow> int list list
     \<Rightarrow> 'w migration_manager \<Rightarrow> bool res \<times> 'w migration_manager" where
  "migrate quantize request_id changed_blocks request_block_table m =
     (if length changed_blocks \<noteq> length request_block_table then (Inl ValueError, m)
      else case check_groups m request_id 0 changed_blocks request_block_table [] of
        Inl e \<Rightarrow> (Inl e, m)
      | Inr normalized \<Rightarrow>
          let new_entries =
                filter (\<lambda>(key, _). map_of (mm_residency m) key = None) normalized
          in if new_entries = [] then (Inr False, m)
             else migrate_new quantize new_entries m)"

section \<open>release_request\<close>

definition request_entries :: "string \<Rightarrow> 'w migration_manager \<Rightarrow> (warm_key \<times> warm_residency) list"
  where "request_entries request_id m =
     filter (\<lambda>(key, _). fst key = request_id) (mm_residency m)"

definition release_request ::
  "string \<Rightarrow> 'w migration_manager \<Rightarrow> (nat list \<times> 'w migration_manager) res" where
  "release_request request_id m =
     (let entries = request_entries request_id m
      in if entries = [] then Inr ([], m)
         else rbind (release_keys (map fst entries) (mm_allocator m)) (\<lambda>(slots, a').
              Inr (slots,
                   m\<lparr>mm_allocator := a',
                     mm_residency := fold (\<lambda>(key, _). AList.delete key) entries (mm_residency m),
                     mm_revision := mm_revision m + 1\<rparr>)))"

section \<open>The runner's handler\<close>

text \<open>
  The worker-side context of a transition batch: the parallel sizes, whether the manager
  exists is the caller's \<open>option\<close>, the block-table layout and the block table of every
  request the runner knows (\<open>req_states\<close> and \<open>block_tables\<close> together).
\<close>

record runner_context =
  rc_tensor_parallel_size :: nat
  rc_pipeline_parallel_size :: nat
  rc_dp_size :: nat
  rc_blocks_per_kv_block :: "nat list"
  rc_block_tables :: "(string, int list list) dict"

definition handle_one ::
  "'w kernel \<Rightarrow> (py_error \<Rightarrow> string) \<Rightarrow> runner_context \<Rightarrow> kv_transition
     \<Rightarrow> 'w migration_manager \<Rightarrow> kv_transition_result res \<times> 'w migration_manager" where
  "handle_one quantize message ctx t m =
     (if tn_previous_state t \<noteq> HOT \<or> tn_new_state t \<noteq> WARM then (Inl ValueError, m)
      else if length (tn_changed_blocks t) \<noteq> 1 then (Inl ValueError, m)
      else case map_of (rc_block_tables ctx) (tn_request_id t) of
        None \<Rightarrow> (Inr (to_result t STALE_VALIDATION (Some (message KeyError))), m)
      | Some table \<Rightarrow>
          (case migrate quantize (tn_request_id t) (tn_changed_blocks t) table m of
             (Inr enqueued, m') \<Rightarrow> (Inr (to_result t SUCCESS None), m')
           | (Inl HKVWarmCapacityError, m') \<Rightarrow>
               (Inr (to_result t RETRYABLE_CAPACITY (Some (message HKVWarmCapacityError))), m')
           | (Inl HKVWarmStaleValidationError, m') \<Rightarrow>
               (Inr (to_result t STALE_VALIDATION (Some (message HKVWarmStaleValidationError))), m')
           | (Inl e, m') \<Rightarrow> (Inl e, m')))"

fun handle_all ::
  "'w kernel \<Rightarrow> (py_error \<Rightarrow> string) \<Rightarrow> runner_context \<Rightarrow> kv_transition list
     \<Rightarrow> 'w migration_manager \<Rightarrow> kv_transition_result list res \<times> 'w migration_manager" where
  "handle_all quantize message ctx [] m = (Inr [], m)"
| "handle_all quantize message ctx (t # ts) m =
     (case handle_one quantize message ctx t m of
        (Inl e, m') \<Rightarrow> (Inl e, m')
      | (Inr r, m') \<Rightarrow>
          (case handle_all quantize message ctx ts m' of
             (Inl e, m'') \<Rightarrow> (Inl e, m'')
           | (Inr rs, m'') \<Rightarrow> (Inr (r # rs), m'')))"

definition handle_kv_cache_state_transitions ::
  "'w kernel \<Rightarrow> (py_error \<Rightarrow> string) \<Rightarrow> runner_context \<Rightarrow> kv_transition list
     \<Rightarrow> 'w migration_manager option
     \<Rightarrow> kv_transition_result list res \<times> 'w migration_manager option" where
  "handle_kv_cache_state_transitions quantize message ctx ts mo =
     (if ts = [] then (Inr [], mo)
      else if 1 < rc_tensor_parallel_size ctx \<or> 1 < rc_pipeline_parallel_size ctx
              \<or> 1 < rc_dp_size ctx then (Inl NotImplementedError, mo)
      else case mo of
        None \<Rightarrow> (Inl ValueError, None)
      | Some m \<Rightarrow>
          if rc_blocks_per_kv_block ctx \<noteq> [1] then (Inl ValueError, mo)
          else let (out, m') = handle_all quantize message ctx ts m in (out, Some m'))"

text \<open>\<open>GPUModelRunner.finish_requests\<close>: the WARM part, for finished and preempted requests.\<close>

definition finish_warm ::
  "string list \<Rightarrow> 'w migration_manager \<Rightarrow> 'w migration_manager res" where
  "finish_warm ids m =
     rfold (\<lambda>rid m. rbind (release_request rid m) (\<lambda>(_, m'). Inr m')) ids m"

section \<open>The slot table read by attention\<close>

text \<open>
  The rebuilt part of \<open>prepare_attn\<close>: \<open>-1\<close> in every padded row, then the slot of every
  resident block of an active request.  The table has \<open>width\<close> columns; row \<open>i\<close> belongs to the
  \<open>i\<close>-th active request.
\<close>

definition active_row :: "string list \<Rightarrow> string \<Rightarrow> nat option" where
  "active_row active rid = map_of (rev (map (\<lambda>(i, r). (r, i)) (enumerate 0 active))) rid"

definition put_slot ::
  "string list \<Rightarrow> nat \<Rightarrow> warm_key \<times> warm_residency \<Rightarrow> (nat \<times> int \<times> nat) list
     \<Rightarrow> (nat \<times> int \<times> nat) list res" where
  "put_slot active width entry acc =
     (case entry of ((rid, grp, logical), res) \<Rightarrow>
       case active_row active rid of
         None \<Rightarrow> Inr acc
       | Some row \<Rightarrow>
           if grp \<noteq> 0 then Inl ValueError
           else if logical \<ge> int width then Inl ValueError
           else Inr (acc @ [(row, logical, rs_warm_slot_id res)]))"

definition write_slots :: "(nat \<times> int \<times> nat) list \<Rightarrow> int list list \<Rightarrow> int list list" where
  "write_slots ws table =
     fold (\<lambda>(row, logical, slot) t. t[row := (t ! row)[nat logical := int slot]]) ws table"

definition warm_slot_table ::
  "string list \<Rightarrow> nat \<Rightarrow> int list list \<Rightarrow> nat \<Rightarrow> (warm_key, warm_residency) dict
     \<Rightarrow> int list list res" where
  "warm_slot_table active num_reqs_after_padding table width residency =
     rbind (rfold (put_slot active width) residency []) (\<lambda>ws.
     Inr (write_slots ws
           (map (\<lambda>(i, row). if i < num_reqs_after_padding then replicate (length row) (- 1) else row)
             (enumerate 0 table))))"

section \<open>Validation\<close>

lemma check_block_Inr:
  assumes "check_block m rid i cur b n = Inr n'"
  shows "n' = AList.update (rid, i, bt_logical_index b) (bt_source_hot_id b) n"
    and "0 \<le> bt_logical_index b" "0 \<le> bt_source_hot_id b"
    and "nat (bt_logical_index b) < length cur"
    and "cur ! nat (bt_logical_index b) = bt_source_hot_id b"
    and "map_of n (rid, i, bt_logical_index b) \<in> {None, Some (bt_source_hot_id b)}"
    and "\<And>r. map_of (mm_residency m) (rid, i, bt_logical_index b) = Some r \<Longrightarrow>
           rs_shadow_hot_block_id r = bt_source_hot_id b"
  using assms by (auto simp: check_block_def Let_def split: if_splits option.splits)

text \<open>A table of normalised entries that is right for the blocks seen so far.\<close>

definition sound_entries ::
  "string \<Rightarrow> kv_block_transition list list \<Rightarrow> int list list \<Rightarrow> (warm_key, int) dict \<Rightarrow> bool" where
  "sound_entries rid changed table n \<longleftrightarrow>
     distinct (dkeys n) \<and>
     (\<forall>k h. map_of n k = Some h \<longrightarrow>
        (\<exists>g l. k = (rid, int g, int l) \<and> g < length changed \<and> g < length table \<and>
           \<lparr>bt_logical_index = int l, bt_source_hot_id = h\<rparr> \<in> set (changed ! g) \<and>
           l < length (table ! g) \<and> table ! g ! l = h \<and> 0 \<le> h))"

lemma kv_block_eta:
  "\<lparr>bt_logical_index = bt_logical_index b, bt_source_hot_id = bt_source_hot_id b\<rparr>
     = (b :: kv_block_transition)"
  by simp

lemma check_block_sound:
  assumes "check_block m rid (int g) (table ! g) b n = Inr n'" "sound_entries rid changed table n"
    and "g < length changed" "g < length table" "b \<in> set (changed ! g)"
  shows "sound_entries rid changed table n'"
proof -
  note c = check_block_Inr [OF assms(1)]
  have b: "\<lparr>bt_logical_index = bt_logical_index b, bt_source_hot_id = bt_source_hot_id b\<rparr>
      \<in> set (changed ! g)" by (subst kv_block_eta) (rule assms(5))
  have "distinct (dkeys n')" using assms(2) by (simp add: c(1) sound_entries_def)
  moreover have "\<exists>g' l. k = (rid, int g', int l) \<and> g' < length changed \<and> g' < length table \<and>
           \<lparr>bt_logical_index = int l, bt_source_hot_id = h\<rparr> \<in> set (changed ! g') \<and>
           l < length (table ! g') \<and> table ! g' ! l = h \<and> 0 \<le> h"
    if "map_of n' k = Some h" for k h
  proof (cases "k = (rid, int g, bt_logical_index b)")
    case True
    then have h: "h = bt_source_hot_id b" using that by (simp add: c(1))
    have "int (nat (bt_logical_index b)) = bt_logical_index b" using c(2) by simp
    then show ?thesis
      using True assms(3,4) c(3-5) b h
      by (intro exI [of _ g] exI [of _ "nat (bt_logical_index b)"]) metis
  next
    case False
    then show ?thesis using that assms(2) by (simp add: c(1) sound_entries_def)
  qed
  ultimately show ?thesis by (auto simp: sound_entries_def)
qed

lemma check_block_mono:
  "check_block m rid i cur b n = Inr n' \<Longrightarrow> map_of n k = Some h \<Longrightarrow> map_of n' k = Some h"
  using check_block_Inr(1,6) by fastforce

lemma check_fold_spec:
  assumes "rfold (check_block m rid (int g) (table ! g)) bs n = Inr n'"
    and "sound_entries rid changed table n" "g < length changed" "g < length table"
    and "set bs \<subseteq> set (changed ! g)"
  shows "sound_entries rid changed table n' \<and>
    (\<forall>k h. map_of n k = Some h \<longrightarrow> map_of n' k = Some h) \<and>
    (\<forall>b \<in> set bs. map_of n' (rid, int g, bt_logical_index b) = Some (bt_source_hot_id b) \<and>
       (\<forall>r. map_of (mm_residency m) (rid, int g, bt_logical_index b) = Some r \<longrightarrow>
            rs_shadow_hot_block_id r = bt_source_hot_id b))"
  using assms
proof (induction bs arbitrary: n)
  case (Cons b bs)
  from Cons.prems(1) obtain n1 where n1: "check_block m rid (int g) (table ! g) b n = Inr n1"
    and rest: "rfold (check_block m rid (int g) (table ! g)) bs n1 = Inr n'"
    by (auto simp: res_simps)
  have "sound_entries rid changed table n1"
    using n1 Cons.prems by (intro check_block_sound [OF n1]) auto
  from Cons.IH [OF rest this Cons.prems(3,4)] Cons.prems(5)
  have IH: "sound_entries rid changed table n'" "\<forall>k h. map_of n1 k = Some h \<longrightarrow> map_of n' k = Some h"
    "\<forall>b \<in> set bs. map_of n' (rid, int g, bt_logical_index b) = Some (bt_source_hot_id b) \<and>
       (\<forall>r. map_of (mm_residency m) (rid, int g, bt_logical_index b) = Some r \<longrightarrow>
            rs_shadow_hot_block_id r = bt_source_hot_id b)" by auto
  have "map_of n1 (rid, int g, bt_logical_index b) = Some (bt_source_hot_id b)"
    using check_block_Inr(1) [OF n1] by simp
  then show ?case
    using IH check_block_mono [OF n1] check_block_Inr(7) [OF n1] by (auto simp: check_block_Inr(1) [OF n1])
qed simp

definition resident_sources_agree ::
  "'w migration_manager \<Rightarrow> string \<Rightarrow> int \<Rightarrow> kv_block_transition list \<Rightarrow> bool" where
  "resident_sources_agree m rid i bs \<longleftrightarrow>
     (\<forall>b \<in> set bs. \<forall>r. map_of (mm_residency m) (rid, i, bt_logical_index b) = Some r \<longrightarrow>
            rs_shadow_hot_block_id r = bt_source_hot_id b)"

lemma check_groups_spec:
  assumes "check_groups m rid (int i) groups' table' n = Inr n'"
    and "groups' = drop i changed" "table' = drop i table" "length changed = length table"
    and "sound_entries rid changed table n"
  shows "sound_entries rid changed table n' \<and>
    (\<forall>k h. map_of n k = Some h \<longrightarrow> map_of n' k = Some h) \<and>
    (\<forall>g. i \<le> g \<and> g < length changed \<longrightarrow> resident_sources_agree m rid (int g) (changed ! g) \<and>
       (\<forall>b \<in> set (changed ! g). map_of n' (rid, int g, bt_logical_index b) = Some (bt_source_hot_id b)))"
  using assms
proof (induction m rid "int i" groups' table' n arbitrary: i rule: check_groups.induct)
  case (1 m rid bs rest cur tab n)
  have i: "i < length changed" "changed ! i = bs" "table ! i = cur"
    "rest = drop (Suc i) changed" "tab = drop (Suc i) table"
    using 1(3-5) by (metis drop_all linorder_not_less list.distinct(1), metis nth_via_drop,
        metis nth_via_drop, metis drop_Suc list.sel(3) tl_drop, metis drop_Suc list.sel(3) tl_drop)
  from 1(2) obtain n1 where n1: "rfold (check_block m rid (int i) cur) bs n = Inr n1"
    and rec: "check_groups m rid (int (Suc i)) rest tab n1 = Inr n'"
    by (auto simp: res_simps add.commute)
  have f: "sound_entries rid changed table n1 \<and>
    (\<forall>k h. map_of n k = Some h \<longrightarrow> map_of n1 k = Some h) \<and>
    (\<forall>b \<in> set bs. map_of n1 (rid, int i, bt_logical_index b) = Some (bt_source_hot_id b) \<and>
       (\<forall>r. map_of (mm_residency m) (rid, int i, bt_logical_index b) = Some r \<longrightarrow>
            rs_shadow_hot_block_id r = bt_source_hot_id b))"
    using n1 i 1(5,6) by (intro check_fold_spec) auto
  from "1.hyps" [OF n1 _ rec] i f 1(5)
  have g: "sound_entries rid changed table n' \<and>
    (\<forall>k h. map_of n1 k = Some h \<longrightarrow> map_of n' k = Some h) \<and>
    (\<forall>g. Suc i \<le> g \<and> g < length changed \<longrightarrow> resident_sources_agree m rid (int g) (changed ! g) \<and>
       (\<forall>b \<in> set (changed ! g). map_of n' (rid, int g, bt_logical_index b) = Some (bt_source_hot_id b)))"
    by auto
  show ?case
  proof (intro conjI allI impI)
    show "sound_entries rid changed table n'" using g by blast
    show "map_of n' k = Some h" if "map_of n k = Some h" for k h using that f g by blast
    fix j assume "i \<le> j \<and> j < length changed"
    then have "j = i \<or> Suc i \<le> j \<and> j < length changed" by auto
    then show "resident_sources_agree m rid (int j) (changed ! j)"
      and "\<forall>b \<in> set (changed ! j). map_of n' (rid, int j, bt_logical_index b) = Some (bt_source_hot_id b)"
      using f g i by (auto simp: resident_sources_agree_def)
  qed
qed auto

lemma sound_entries_Nil: "sound_entries rid changed table []"
  by (simp add: sound_entries_def)

lemma check_groups_top:
  assumes "check_groups m rid 0 changed table [] = Inr n" "length changed = length table"
  shows "sound_entries rid changed table n"
    and "g < length changed \<Longrightarrow> resident_sources_agree m rid (int g) (changed ! g)"
    and "g < length changed \<Longrightarrow> b \<in> set (changed ! g) \<Longrightarrow>
           map_of n (rid, int g, bt_logical_index b) = Some (bt_source_hot_id b)"
  using check_groups_spec [of m rid 0 changed table "[]" n changed table] assms sound_entries_Nil
  by auto

lemma sound_entries_valid: "sound_entries rid changed table n \<Longrightarrow> list_all key_valid (dkeys n)"
proof (unfold list_all_iff, rule ballI)
  fix k assume "sound_entries rid changed table n" "k \<in> set (dkeys n)"
  then obtain h where "map_of n k = Some h" "sound_entries rid changed table n"
    by (metis domI map_of_None_iff option.exhaust)
  then show "key_valid k" by (fastforce simp: sound_entries_def key_valid_def)
qed

section \<open>The invariant of the manager\<close>

text \<open>
  Between calls no reservation is open and the residency table and the allocator agree on
  which slot holds which logical block.
\<close>

definition mig_inv :: "'w migration_manager \<Rightarrow> bool" where
  "mig_inv m \<longleftrightarrow>
     slots_inv (mm_allocator m) \<and> idle (mm_allocator m) \<and>
     distinct (dkeys (mm_residency m)) \<and> list_all key_valid (dkeys (mm_residency m)) \<and>
     (\<forall>k. slot_of (mm_allocator m) k = map_option rs_warm_slot_id (map_of (mm_residency m) k))"

lemma mig_invD:
  assumes "mig_inv m"
  shows "slots_inv (mm_allocator m)" "idle (mm_allocator m)" "distinct (dkeys (mm_residency m))"
    "\<And>k. slot_of (mm_allocator m) k = map_option rs_warm_slot_id (map_of (mm_residency m) k)"
  using assms by (auto simp: mig_inv_def)

lemma new_migration_manager_inv: "new_migration_manager t cap w = Inr m \<Longrightarrow> mig_inv m"
proof -
  assume "new_migration_manager t cap w = Inr m"
  then obtain a where a: "new_allocator t cap = Inr a"
    and m: "m = \<lparr>mm_allocator = a, mm_store = w, mm_residency = [], mm_revision = 0\<rparr>"
    by (auto simp: new_migration_manager_def res_simps)
  have "wa_key_to_slot a = []" using a by (auto simp: new_allocator_def split: if_splits)
  then show ?thesis
    using new_allocator_inv [OF a] by (simp add: m mig_inv_def slot_of_def warm_inv_def)
qed

lemma mig_inv_slots_distinct:
  assumes "mig_inv m" "map_of (mm_residency m) k = Some r" "map_of (mm_residency m) k' = Some r'"
    "rs_warm_slot_id r = rs_warm_slot_id r'"
  shows "k = k'"
  by (rule wa.agree_inj [OF mig_invD(1) [OF assms(1)] mig_invD(4) [OF assms(1)] assms(2-4)])

text \<open>Committing the residency of the new entries.\<close>

lemma set_residency_Inr:
  "set_residency maps e R = Inr R' \<longleftrightarrow>
     (\<exists>s. map_of maps (fst e) = Some s \<and>
        R' = AList.update (fst e) \<lparr>rs_warm_slot_id = s, rs_shadow_hot_block_id = snd e\<rparr> R)"
  by (auto simp: set_residency_def res_simps)

lemma set_residency_fold:
  assumes "rfold (set_residency maps) es R = Inr R'" "distinct (dkeys es)" "distinct (dkeys R)"
  shows "distinct (dkeys R') \<and> set (dkeys R') = set (dkeys R) \<union> set (dkeys es) \<and>
    (\<forall>k. map_of R' k = (case map_of es k of None \<Rightarrow> map_of R k
       | Some h \<Rightarrow> Some \<lparr>rs_warm_slot_id = the (map_of maps k), rs_shadow_hot_block_id = h\<rparr>)) \<and>
    (\<forall>k \<in> set (dkeys es). map_of maps k \<noteq> None)"
  using assms
proof (induction es arbitrary: R)
  case (Cons e es)
  obtain k h where e: "e = (k, h)" by (cases e)
  from Cons.prems(1) obtain s where s: "map_of maps k = Some s"
    and rest: "rfold (set_residency maps) es
        (AList.update k \<lparr>rs_warm_slot_id = s, rs_shadow_hot_block_id = h\<rparr> R) = Inr R'"
    by (auto simp: e set_residency_Inr rbind_eq_Inr)
  have k: "map_of es k = None" using Cons.prems(2) by (simp add: e map_of_None_iff)
  show ?case
    using Cons.IH [OF rest] Cons.prems(2,3) s k
    by (auto simp: e dom_update split: option.splits)
qed auto

lemma set_residency_total:
  assumes "\<forall>k \<in> set (dkeys es). map_of maps k \<noteq> None"
  shows "\<exists>R'. rfold (set_residency maps) es R = Inr R'"
  using assms by (induction es arbitrary: R) (auto simp: set_residency_def dict_index_def)

lemma migrate_new_spec:
  assumes inv: "mig_inv m" and ne: "es \<noteq> []" and dist: "distinct (dkeys es)"
    and valid: "list_all key_valid (dkeys es)"
    and fresh: "\<forall>k \<in> set (dkeys es). map_of (mm_residency m) k = None"
    and run: "migrate_new quantize es m = (out, m')"
  shows "mig_inv m' \<and>
    (case out of
       Inl e \<Rightarrow> mm_residency m' = mm_residency m \<and> mm_revision m' = mm_revision m \<and>
         num_free_slots (mm_allocator m') = num_free_slots (mm_allocator m)
     | Inr b \<Rightarrow> b \<and> mm_revision m' = mm_revision m + 1 \<and>
         (\<forall>k. map_option rs_shadow_hot_block_id (map_of (mm_residency m') k) =
              (case map_of es k of Some h \<Rightarrow> Some h
               | None \<Rightarrow> map_option rs_shadow_hot_block_id (map_of (mm_residency m) k))) \<and>
         (\<forall>k. map_of (mm_residency m) k \<noteq> None \<longrightarrow>
              map_of (mm_residency m') k = map_of (mm_residency m) k) \<and>
         num_free_slots (mm_allocator m') + length es = num_free_slots (mm_allocator m))"
proof -
  let ?a = "mm_allocator m" and ?ks = "dkeys es"
  note i = mig_invD [OF inv]
  have unowned: "\<forall>k \<in> set ?ks. slot_of ?a k = None" using fresh i(4) by simp
  show ?thesis
  proof (cases "num_free_slots ?a < length ?ks")
    case True
    then have "reserve_many ?ks ?a = Inl HKVWarmCapacityError"
      using wa.reserve_full [OF i(1,2) valid dist unowned] by simp
    then have "out = Inl HKVWarmCapacityError" "m' = m" using run by (auto simp: migrate_new_def)
    then show ?thesis using inv by simp
  next
    case False
    then obtain r a1 a2 a3 where
      res: "reserve_many ?ks ?a = Inr (r, a1)" and new: "wr_newly_allocated r = ?ks"
      and maps: "\<forall>k \<in> set ?ks. map_of (wr_mappings r) k \<noteq> None \<and> map_of (wr_mappings r) k = slot_of a2 k"
      and com: "commit r a1 = Inr a2" "slots_inv a2" "idle a2"
      and sp: "num_free_slots a2 = num_free_slots ?a - length ?ks"
      and oth: "\<forall>k. k \<notin> set ?ks \<longrightarrow> slot_of a2 k = slot_of ?a k"
      and rb: "rollback r a1 = Inr a3" "slots_inv a3" "idle a3" "slot_of a3 = slot_of ?a"
        "num_free_slots a3 = num_free_slots ?a"
      using wa.reserve_fits [OF i(1,2) valid dist unowned] by auto
    have hot: "rmap (dict_index es) ?ks = Inr (map snd es)"
    proof -
      have "rmap (dict_index es) (dkeys xs) = Inr (map snd xs)" if "set xs \<subseteq> set es" for xs
        using that dist by (induction xs) (auto simp: dict_index_def dest!: map_of_SomeI_distinct)
      then show ?thesis by simp
    qed
    have slots: "rmap (dict_index (wr_mappings r)) ?ks = Inr (map (\<lambda>k. the (map_of (wr_mappings r) k)) ?ks)"
      using maps by (intro rmap_total) (auto simp: dict_index_def)
    obtain oc st where q: "quantize (map snd es) (map (\<lambda>k. the (map_of (wr_mappings r) k)) ?ks)
        (mm_store m) = (oc, st)" by fastforce
    have "\<forall>k \<in> set ?ks. map_of (wr_mappings r) k \<noteq> None" using maps by blast
    then obtain R' where R': "rfold (set_residency (wr_mappings r)) es (mm_residency m) = Inr R'"
      using set_residency_total by blast
    note R = set_residency_fold [OF R' dist i(3)]
    show ?thesis
    proof (cases oc)
      case (Inl e)
      then have "out = Inl e" "m' = m\<lparr>mm_store := st, mm_allocator := a3\<rparr>"
        using run ne res hot slots q rb(1) by (simp_all add: migrate_new_def new)
      then show ?thesis using inv rb by (simp add: mig_inv_def)
    next
      case (Inr u)
      then have out: "out = Inr True"
        and m': "m' = m\<lparr>mm_store := st, mm_allocator := a2, mm_residency := R',
                        mm_revision := mm_revision m + 1\<rparr>"
        using run ne res hot slots q com(1) R' by (simp_all add: migrate_new_def new)
      have mem: "map_of es k = None \<longleftrightarrow> k \<notin> set ?ks" for k by (rule map_of_None_iff)
      have agree: "slot_of a2 k = map_option rs_warm_slot_id (map_of R' k)" for k
      proof (cases "k \<in> set ?ks")
        case True
        then obtain h where "map_of es k = Some h" using mem by (cases "map_of es k") auto
        with R have "map_of R' k = Some \<lparr>rs_warm_slot_id = the (map_of (wr_mappings r) k),
            rs_shadow_hot_block_id = h\<rparr>" by simp
        then show ?thesis using maps True by auto
      next
        case False
        then have "map_of es k = None" using mem by blast
        then have "map_of R' k = map_of (mm_residency m) k" using R by simp
        then show ?thesis using oth False i(4) by simp
      qed
      have "mig_inv m'"
        using inv com agree R valid by (auto simp: m' mig_inv_def list_all_iff)
      moreover have "map_of R' k = map_of (mm_residency m) k" if "map_of (mm_residency m) k \<noteq> None" for k
      proof -
        have "k \<notin> set ?ks" using fresh that by (metis (no_types))
        then have "map_of es k = None" using mem by blast
        then show ?thesis using R by simp
      qed
      moreover have "map_option rs_shadow_hot_block_id (map_of R' k) = (case map_of es k of Some h \<Rightarrow> Some h
               | None \<Rightarrow> map_option rs_shadow_hot_block_id (map_of (mm_residency m) k))" for k
        using R by (simp split: option.splits)
      ultimately show ?thesis using out sp False by (simp add: m')
    qed
  qed
qed

lemma map_of_filter_keys:
  "map_of (filter (\<lambda>(k, _). P k) xs) k = (if P k then map_of xs k else None)"
  by (induction xs) auto

lemma distinct_filter_keys [simp]:
  "distinct (dkeys xs) \<Longrightarrow> distinct (dkeys (filter P xs))"
  by (induction xs) auto

text \<open>Every block of the command is resident with the HOT block the command names.\<close>

definition blocks_resident ::
  "string \<Rightarrow> kv_block_transition list list \<Rightarrow> 'w migration_manager \<Rightarrow> bool" where
  "blocks_resident rid changed m \<longleftrightarrow>
     (\<forall>g < length changed. \<forall>b \<in> set (changed ! g).
        map_option rs_shadow_hot_block_id
          (map_of (mm_residency m) (rid, int g, bt_logical_index b)) = Some (bt_source_hot_id b))"

definition keeps_residency :: "'w migration_manager \<Rightarrow> 'w migration_manager \<Rightarrow> bool" where
  "keeps_residency m m' \<longleftrightarrow>
     (\<forall>k. map_of (mm_residency m) k \<noteq> None \<longrightarrow>
        map_of (mm_residency m') k = map_of (mm_residency m) k)"

lemma keeps_residency_refl [simp]: "keeps_residency m m"
  by (simp add: keeps_residency_def)

lemma keeps_residency_trans:
  "keeps_residency m m' \<Longrightarrow> keeps_residency m' m'' \<Longrightarrow> keeps_residency m m''"
  by (auto simp: keeps_residency_def)

lemma keeps_blocks_resident:
  "blocks_resident rid changed m \<Longrightarrow> keeps_residency m m' \<Longrightarrow> blocks_resident rid changed m'"
  unfolding blocks_resident_def keeps_residency_def by (metis option.map_disc_iff option.distinct(1))

lemma migrate_spec:
  assumes inv: "mig_inv m" and run: "migrate quantize rid changed table m = (out, m')"
  shows "mig_inv m' \<and> keeps_residency m m' \<and>
    (case out of
       Inl e \<Rightarrow> mm_residency m' = mm_residency m \<and> mm_revision m' = mm_revision m \<and>
         num_free_slots (mm_allocator m') = num_free_slots (mm_allocator m)
     | Inr moved \<Rightarrow> blocks_resident rid changed m' \<and> (\<not> moved \<longrightarrow> m' = m) \<and>
         mm_revision m' = mm_revision m + (if moved then 1 else 0))"
proof (cases "length changed \<noteq> length table \<or> (\<exists>e. check_groups m rid 0 changed table [] = Inl e)")
  case True
  then show ?thesis using run inv by (auto simp: migrate_def split: if_splits)
next
  case False
  then obtain n where len: "length changed = length table"
    and n: "check_groups m rid 0 changed table [] = Inr n"
    by (cases "check_groups m rid 0 changed table []") auto
  note top = check_groups_top [OF n len]
  let ?new = "filter (\<lambda>(k, _). map_of (mm_residency m) k = None) n"
  have dist: "distinct (dkeys ?new)" using top(1) by (simp add: sound_entries_def)
  have valid: "list_all key_valid (dkeys ?new)"
    using sound_entries_valid [OF top(1)] by (auto simp: list_all_iff)
  have fresh: "\<forall>k \<in> set (dkeys ?new). map_of (mm_residency m) k = None" by auto
  have new: "map_of ?new k = (if map_of (mm_residency m) k = None then map_of n k else None)" for k
    by (rule map_of_filter_keys)
  have old: "map_option rs_shadow_hot_block_id (map_of (mm_residency m) (rid, int g, bt_logical_index b))
      = Some (bt_source_hot_id b)"
    if "g < length changed" "b \<in> set (changed ! g)"
      "map_of (mm_residency m) (rid, int g, bt_logical_index b) \<noteq> None" for g b
    using top(2) [OF that(1)] that(2,3) by (auto simp: resident_sources_agree_def)
  show ?thesis
  proof (cases "?new = []")
    case True
    then have res: "out = Inr False" "m' = m" using run len n by (auto simp: migrate_def)
    have "map_of (mm_residency m) (rid, int g, bt_logical_index b) \<noteq> None"
      if "g < length changed" "b \<in> set (changed ! g)" for g b
      using new [of "(rid, int g, bt_logical_index b)"] top(3) [OF that] True
      by (auto split: if_splits)
    with old show ?thesis using inv by (simp add: res blocks_resident_def)
  next
    case False
    then have run': "migrate_new quantize ?new m = (out, m')"
      using run len n by (simp add: migrate_def)
    note sp = migrate_new_spec [OF inv False dist valid fresh run']
    show ?thesis
    proof (cases out)
      case (Inl e)
      then show ?thesis using sp by (simp add: keeps_residency_def)
    next
      case (Inr moved)
      have "map_option rs_shadow_hot_block_id (map_of (mm_residency m') (rid, int g, bt_logical_index b))
          = Some (bt_source_hot_id b)"
        if "g < length changed" "b \<in> set (changed ! g)" for g b
        using sp new [of "(rid, int g, bt_logical_index b)"] top(3) [OF that] old [OF that]
        by (auto simp: Inr split: if_splits option.splits)
      then have "blocks_resident rid changed m'" unfolding blocks_resident_def by blast
      then show ?thesis using sp by (simp add: Inr keeps_residency_def)
    qed
  qed
qed

section \<open>release\<close>

lemma fold_delete_entries:
  "map_of (fold (\<lambda>(k, _). AList.delete k) es d) k =
     (if k \<in> set (dkeys es) then None else map_of d k)"
  by (induction es arbitrary: d) auto

lemma fold_delete_distinct:
  "distinct (dkeys d) \<Longrightarrow> distinct (dkeys (fold (\<lambda>(k, _). AList.delete k) es d))"
  by (induction es arbitrary: d) auto

lemma fold_delete_subset:
  "set (dkeys (fold (\<lambda>(k, _). AList.delete k) es d)) \<subseteq> set (dkeys d)"
proof (induction es arbitrary: d)
  case (Cons e es)
  obtain k v where e: "e = (k, v)" by (cases e)
  have "set (dkeys (AList.delete k d)) \<subseteq> set (dkeys d)" by (auto simp: AList.delete_eq)
  then show ?case using Cons.IH [of "AList.delete k d"] by (auto simp: e)
qed simp

lemma release_request_spec:
  assumes inv: "mig_inv m"
  shows "\<exists>slots m'. release_request rid m = Inr (slots, m') \<and> mig_inv m' \<and>
    (\<forall>k. map_of (mm_residency m') k = (if fst k = rid then None else map_of (mm_residency m) k)) \<and>
    mm_store m' = mm_store m"
proof -
  let ?R = "mm_residency m" and ?es = "request_entries rid m"
  note i = mig_invD [OF inv]
  have mem: "k \<in> set (dkeys ?es) \<longleftrightarrow> fst k = rid \<and> map_of ?R k \<noteq> None" for k
    by (force simp: request_entries_def map_of_None_iff)
  have dist: "distinct (dkeys ?es)" using i(3) by (simp add: request_entries_def)
  have valid: "list_all key_valid (dkeys ?es)"
    using inv by (auto simp: mig_inv_def list_all_iff request_entries_def)
  show ?thesis
  proof (cases "?es = []")
    case True
    then have "map_of ?R k = None" if "fst k = rid" for k using mem [of k] that by simp
    then show ?thesis using True inv by (simp add: release_request_def)
  next
    case False
    obtain ss a' where rel: "release_keys (dkeys ?es) (mm_allocator m) = Inr (ss, a')"
      using wa.release_ok [OF i(1,2) valid dist] by blast
    note ag = wa.agree_release [OF i(1,2) valid dist i(4) rel]
    let ?m = "m\<lparr>mm_allocator := a', mm_residency := fold (\<lambda>(k, _). AList.delete k) ?es ?R,
                 mm_revision := mm_revision m + 1\<rparr>"
    have run: "release_request rid m = Inr (ss, ?m)"
      using False rel by (simp add: release_request_def)
    have "\<forall>k \<in> set (dkeys (mm_residency ?m)). key_valid k"
    proof
      fix k assume "k \<in> set (dkeys (mm_residency ?m))"
      then have "k \<in> set (dkeys ?R)" using fold_delete_subset [of ?es ?R] by auto
      then show "key_valid k" using inv by (auto simp: mig_inv_def list_all_iff)
    qed
    then have "list_all key_valid (dkeys (mm_residency ?m))" by (simp add: list_all_iff)
    then have "mig_inv ?m"
      using i ag by (auto simp: mig_inv_def fold_delete_entries fold_delete_distinct restrict_map_def)
    moreover have "map_of (mm_residency ?m) k = (if fst k = rid then None else map_of ?R k)" for k
      using mem [of k] by (auto simp: fold_delete_entries)
    ultimately show ?thesis using run by fastforce
  qed
qed

lemma finish_warm_spec:
  assumes "mig_inv m"
  shows "\<exists>m'. finish_warm ids m = Inr m' \<and> mig_inv m' \<and>
    (\<forall>k. map_of (mm_residency m') k = (if fst k \<in> set ids then None else map_of (mm_residency m) k))"
  using assms
proof (induction ids arbitrary: m)
  case (Cons rid ids)
  obtain ss m1 where m1: "release_request rid m = Inr (ss, m1)" "mig_inv m1"
    "\<forall>k. map_of (mm_residency m1) k = (if fst k = rid then None else map_of (mm_residency m) k)"
    using release_request_spec [OF Cons.prems] by blast
  from Cons.IH [OF m1(2)] m1 show ?case by (auto simp: finish_warm_def)
qed (simp add: finish_warm_def)

section \<open>The batch handler\<close>

text \<open>
  What one reply promises: its signature is the command's; \<open>SUCCESS\<close> exactly when the
  blocks of the command are now resident; any other status leaves the residency alone.
\<close>

definition reply_ok ::
  "kv_transition \<Rightarrow> kv_transition_result \<Rightarrow> 'w migration_manager \<Rightarrow> 'w migration_manager \<Rightarrow> bool" where
  "reply_ok t r m m' \<longleftrightarrow>
     result_signature r = transition_signature t \<and>
     (if tr_status r = SUCCESS then blocks_resident (tn_request_id t) (tn_changed_blocks t) m'
      else tr_status r \<in> {RETRYABLE_CAPACITY, STALE_VALIDATION} \<and>
           mm_residency m' = mm_residency m \<and> mm_revision m' = mm_revision m)"

lemma handle_one_spec:
  assumes inv: "mig_inv m" and run: "handle_one quantize msg ctx t m = (out, m')"
  shows "mig_inv m' \<and> keeps_residency m m' \<and>
    (case out of Inl e \<Rightarrow> mm_residency m' = mm_residency m | Inr r \<Rightarrow> reply_ok t r m m')"
proof (cases "tn_previous_state t \<noteq> HOT \<or> tn_new_state t \<noteq> WARM \<or> length (tn_changed_blocks t) \<noteq> 1
    \<or> map_of (rc_block_tables ctx) (tn_request_id t) = None")
  case True
  then show ?thesis using inv run by (auto simp: handle_one_def reply_ok_def split: if_splits)
next
  case False
  then obtain table where tab: "map_of (rc_block_tables ctx) (tn_request_id t) = Some table" by auto
  obtain o1 m1 where mig: "migrate quantize (tn_request_id t) (tn_changed_blocks t) table m = (o1, m1)"
    by fastforce
  have "m' = m1" using run False tab mig
    by (auto simp: handle_one_def split: sum.splits py_error.splits)
  moreover note migrate_spec [OF inv mig]
  ultimately show ?thesis using run False tab mig
    by (cases o1) (auto simp: handle_one_def reply_ok_def split: py_error.splits)
qed

lemma handle_all_spec:
  assumes "mig_inv m" "handle_all quantize msg ctx ts m = (out, m')"
  shows "mig_inv m' \<and> keeps_residency m m' \<and>
    (case out of Inl e \<Rightarrow> True
     | Inr rs \<Rightarrow> map result_signature rs = map transition_signature ts \<and>
         (\<forall>(t, r) \<in> set (zip ts rs).
            if tr_status r = SUCCESS then blocks_resident (tn_request_id t) (tn_changed_blocks t) m'
            else tr_status r \<in> {RETRYABLE_CAPACITY, STALE_VALIDATION}))"
  using assms
proof (induction ts arbitrary: m out m')
  case (Cons t ts)
  obtain o1 m1 where one: "handle_one quantize msg ctx t m = (o1, m1)" by fastforce
  note h1 = handle_one_spec [OF Cons.prems(1) one]
  obtain o2 m2 where rest: "handle_all quantize msg ctx ts m1 = (o2, m2)" by fastforce
  have inv1: "mig_inv m1" using h1 by blast
  note h2 = Cons.IH [OF inv1 rest]
  show ?case
  proof (cases o1)
    case (Inl e)
    then have "out = Inl e" "m' = m1" using Cons.prems(2) one by simp_all
    then show ?thesis using h1 by simp
  next
    case (Inr r)
    have m': "m' = m2" using Cons.prems(2) one rest Inr by (simp split: sum.splits)
    have keep: "keeps_residency m m2" using h1 h2 keeps_residency_trans by blast
    show ?thesis
    proof (cases o2)
      case Inl2: (Inl e)
      then have "out = Inl e" using Cons.prems(2) one rest Inr by simp
      then show ?thesis using h2 keep m' by simp
    next
      case Inr2: (Inr rs)
      have out: "out = Inr (r # rs)" using Cons.prems(2) one rest Inr Inr2 by simp
      have "reply_ok t r m m1" using h1 Inr by simp
      moreover have "blocks_resident (tn_request_id t) (tn_changed_blocks t) m2"
        if "blocks_resident (tn_request_id t) (tn_changed_blocks t) m1"
        using keeps_blocks_resident [OF that] h2 by blast
      ultimately show ?thesis using out h2 Inr2 keep m'
        by (auto simp: reply_ok_def split: if_splits)
    qed
  qed
qed auto

section \<open>Every history of the worker\<close>

text \<open>
  A history is any interleaving of transition batches, with any kernel, context and message
  function and whatever their outcome, and of clean-ups of finished or preempted requests.
\<close>

inductive worker_reachable :: "int \<Rightarrow> 'w migration_manager \<Rightarrow> bool" for cap where
  worker_init: "new_migration_manager t cap w = Inr m \<Longrightarrow> worker_reachable cap m"
| worker_batch: "worker_reachable cap m \<Longrightarrow>
    handle_kv_cache_state_transitions quantize msg ctx ts (Some m) = (out, Some m') \<Longrightarrow>
    worker_reachable cap m'"
| worker_finish: "worker_reachable cap m \<Longrightarrow> finish_warm ids m = Inr m' \<Longrightarrow> worker_reachable cap m'"

lemma handle_transitions_spec:
  assumes inv: "mig_inv m"
    and run: "handle_kv_cache_state_transitions quantize msg ctx ts (Some m) = (out, Some m')"
  shows "mig_inv m' \<and> keeps_residency m m' \<and>
    (case out of Inl e \<Rightarrow> True
     | Inr rs \<Rightarrow> map result_signature rs = map transition_signature ts \<and>
         (\<forall>(t, r) \<in> set (zip ts rs).
            if tr_status r = SUCCESS then blocks_resident (tn_request_id t) (tn_changed_blocks t) m'
            else tr_status r \<in> {RETRYABLE_CAPACITY, STALE_VALIDATION}))"
proof (cases "ts = [] \<or> 1 < rc_tensor_parallel_size ctx \<or> 1 < rc_pipeline_parallel_size ctx
    \<or> 1 < rc_dp_size ctx \<or> rc_blocks_per_kv_block ctx \<noteq> [1]")
  case True
  then show ?thesis
    using inv run by (auto simp: handle_kv_cache_state_transitions_def split: if_splits sum.splits)
next
  case False
  then have "handle_all quantize msg ctx ts m = (out, m')"
    using run by (auto simp: handle_kv_cache_state_transitions_def split: prod.splits)
  from handle_all_spec [OF inv this] show ?thesis .
qed

text \<open>Every call of the manager is a sequence of calls of the allocator.\<close>

lemma migrate_new_steps:
  assumes "migrate_new quantize es m = (out, m')"
  shows "alloc_step\<^sup>*\<^sup>* (mm_allocator m) (mm_allocator m')"
proof (cases "reserve_many (dkeys es) (mm_allocator m)")
  case (Inl e)
  then show ?thesis using assms by (simp add: migrate_new_def)
next
  case (Inr ra)
  obtain r a1 where ra: "ra = (r, a1)" by (cases ra)
  have r1: "alloc_step (mm_allocator m) a1" using Inr ra by (auto intro: step_reserve)
  have "mm_allocator m' = a1 \<or> rollback r a1 = Inr (mm_allocator m') \<or> commit r a1 = Inr (mm_allocator m')"
    using assms by (auto simp: migrate_new_def Inr ra Let_def split: sum.splits prod.splits)
  then have "alloc_step\<^sup>*\<^sup>* a1 (mm_allocator m')"
    by (auto intro: step_rollback step_commit)
  then show ?thesis using r1 by (meson converse_rtranclp_into_rtranclp)
qed

lemma migrate_steps:
  "migrate quantize rid changed table m = (out, m') \<Longrightarrow>
     alloc_step\<^sup>*\<^sup>* (mm_allocator m) (mm_allocator m')"
  using migrate_new_steps by (auto simp: migrate_def Let_def split: if_splits sum.splits)

lemma handle_all_steps:
  "handle_all quantize msg ctx ts m = (out, m') \<Longrightarrow>
     alloc_step\<^sup>*\<^sup>* (mm_allocator m) (mm_allocator m')"
proof (induction ts arbitrary: m out)
  case (Cons t ts)
  obtain o1 m1 where one: "handle_one quantize msg ctx t m = (o1, m1)" by fastforce
  have "m1 = m \<or> (\<exists>table o2. migrate quantize (tn_request_id t) (tn_changed_blocks t) table m = (o2, m1))"
    using one by (auto simp: handle_one_def split: if_splits option.splits prod.splits sum.splits py_error.splits)
  then have s1: "alloc_step\<^sup>*\<^sup>* (mm_allocator m) (mm_allocator m1)" using migrate_steps by auto
  show ?case
  proof (cases o1)
    case (Inl e)
    then show ?thesis using Cons.prems one s1 by simp
  next
    case (Inr r)
    obtain o2 m2 where rest: "handle_all quantize msg ctx ts m1 = (o2, m2)" by fastforce
    have eq: "m2 = m'" using Cons.prems one Inr rest by (simp split: sum.splits)
    show ?thesis using s1 Cons.IH [OF rest [unfolded eq]] by simp
  qed
qed simp

lemma release_request_steps:
  "release_request rid m = Inr (ss, m') \<Longrightarrow> alloc_step\<^sup>*\<^sup>* (mm_allocator m) (mm_allocator m')"
  by (auto simp: release_request_def Let_def res_simps split: if_splits
      intro!: r_into_rtranclp step_release_keys)

lemma finish_warm_steps:
  "finish_warm ids m = Inr m' \<Longrightarrow> alloc_step\<^sup>*\<^sup>* (mm_allocator m) (mm_allocator m')"
proof (induction ids arbitrary: m)
  case (Cons rid ids)
  then obtain ss m1 where "release_request rid m = Inr (ss, m1)" "finish_warm ids m1 = Inr m'"
    by (auto simp: finish_warm_def res_simps)
  with Cons.IH release_request_steps show ?case by (metis rtranclp_trans)
qed (simp add: finish_warm_def)

lemma alloc_reachable_steps:
  "alloc_step\<^sup>*\<^sup>* a a' \<Longrightarrow> alloc_reachable cap a \<Longrightarrow> alloc_reachable cap a'"
  by (induction rule: rtranclp_induct) (auto intro: alloc_reachable.step)

lemma worker_reachable_inv:
  "worker_reachable cap m \<Longrightarrow> mig_inv m \<and> alloc_reachable cap (mm_allocator m)"
proof (induction rule: worker_reachable.induct)
  case (worker_init t w m)
  then show ?case
    using new_migration_manager_inv [OF worker_init]
    by (auto simp: new_migration_manager_def res_simps intro: alloc_reachable.init)
next
  case (worker_batch m quantize msg ctx ts out m')
  have "alloc_step\<^sup>*\<^sup>* (mm_allocator m) (mm_allocator m')"
    using worker_batch(2) handle_all_steps
    by (auto simp: handle_kv_cache_state_transitions_def split: if_splits prod.splits)
  then show ?case
    using worker_batch handle_transitions_spec alloc_reachable_steps by blast
next
  case (worker_finish m ids m')
  obtain m2 where "finish_warm ids m = Inr m2 \<and> mig_inv m2" using finish_warm_spec worker_finish by blast
  then show ?case using worker_finish finish_warm_steps alloc_reachable_steps by fastforce
qed

lemma mig_inv_resident_count:
  assumes "mig_inv m"
  shows "length (mm_residency m) = num_owned_slots (mm_allocator m)"
proof -
  note i = mig_invD [OF assms]
  have "dom (map_of (wa_key_to_slot (mm_allocator m))) = dom (map_of (mm_residency m))"
    using i(4) by (auto simp: slot_of_def dom_def)
  then show ?thesis
    using length_card_dom [OF i(3)] length_card_dom [OF slots_invD(1) [OF i(1)]]
      slots_inv_owned_card [OF i(1)]
    by (simp add: num_owned_slots_def)
qed

section \<open>The slot table\<close>

lemma put_slots_spec:
  assumes "rfold (put_slot active w) R acc = Inr ws"
  shows "ws = acc @ concat (map (\<lambda>((rid, grp, l), r). case active_row active rid of
             None \<Rightarrow> [] | Some i \<Rightarrow> [(i, l, rs_warm_slot_id r)]) R) \<and>
    (\<forall>rid grp l r i. ((rid, grp, l), r) \<in> set R \<longrightarrow> active_row active rid = Some i \<longrightarrow>
       grp = 0 \<and> l < int w)"
  using assms
proof (induction R arbitrary: acc)
  case (Cons e R)
  obtain rid grp l r where e: "e = ((rid, grp, l), r)" by (metis prod_cases3 surj_pair)
  obtain acc1 where a1: "put_slot active w e acc = Inr acc1" "rfold (put_slot active w) R acc1 = Inr ws"
    using Cons.prems by (auto simp: res_simps)
  show ?case using Cons.IH [OF a1(2)] a1(1)
    by (auto simp: e put_slot_def split: option.splits if_splits)
qed simp

lemma active_row_Some:
  assumes "distinct active"
  shows "active_row active rid = Some i \<longleftrightarrow> i < length active \<and> active ! i = rid"
proof -
  have "distinct (dkeys (rev (map (\<lambda>(i, r). (r, i)) (enumerate 0 active))))"
    using assms by (simp add: rev_map [symmetric] comp_def case_prod_beta)
  then have "active_row active rid = Some i \<longleftrightarrow> (i, rid) \<in> set (enumerate 0 active)"
    unfolding active_row_def by (simp add: map_of_eq_Some_iff image_iff)
      (metis (mono_tags, lifting) case_prod_conv old.prod.exhaust prod.inject)
  then show ?thesis by (auto simp: in_set_enumerate_eq)
qed

lemma write_slots_snoc:
  "write_slots (ws @ [(i, l, s)]) t =
     (let u = write_slots ws t in u[i := (u ! i)[nat l := int s]])"
  by (simp add: write_slots_def Let_def)

lemma write_slots_nth:
  assumes "i < length t" "j < length (t ! i)"
  shows "length (write_slots ws t) = length t \<and> length (write_slots ws t ! i) = length (t ! i) \<and>
    write_slots ws t ! i ! j =
      (case map_of (rev (map (\<lambda>(i, l, s). ((i, nat l), int s)) ws)) (i, j) of
         Some v \<Rightarrow> v | None \<Rightarrow> t ! i ! j)"
proof (induction ws rule: rev_induct)
  case Nil
  then show ?case by (simp add: write_slots_def)
next
  case (snoc w ws)
  obtain a l s where w: "w = (a, l, s)" by (cases w)
  show ?case
  proof (cases "a = i")
    case True
    then show ?thesis using snoc assms by (simp add: w write_slots_snoc Let_def nth_list_update)
  next
    case False
    then show ?thesis using snoc by (simp add: w write_slots_snoc Let_def)
  qed
qed

lemma warm_slot_table_nth:
  assumes inv: "mig_inv m" and dist: "distinct active"
    and run: "warm_slot_table active n table w (mm_residency m) = Inr t"
    and i: "i < length table" "i < n" and j: "j < length (table ! i)"
  shows "t ! i ! j = (if i < length active
      then case map_of (mm_residency m) (active ! i, 0, int j) of
             Some r \<Rightarrow> int (rs_warm_slot_id r) | None \<Rightarrow> - 1
      else - 1)"
proof -
  let ?R = "mm_residency m"
  define ws where "ws = concat (map (\<lambda>((rid, grp, l), r). case active_row active rid of
             None \<Rightarrow> [] | Some i \<Rightarrow> [(i, l, rs_warm_slot_id r)]) ?R)"
  let ?W = "map_of (rev (map (\<lambda>(i, l, s). ((i, nat l), int s)) ws))"
  obtain ws' where ws': "rfold (put_slot active w) ?R [] = Inr ws'"
    and t: "t = write_slots ws'
           (map (\<lambda>(i, row). if i < n then replicate (length row) (- 1) else row) (enumerate 0 table))"
    using run by (auto simp: warm_slot_table_def res_simps)
  have ws: "ws' = ws" and zero: "\<And>rid grp l r i. ((rid, grp, l), r) \<in> set ?R \<Longrightarrow>
      active_row active rid = Some i \<Longrightarrow> grp = 0"
    using put_slots_spec [OF ws'] by (simp_all add: ws_def) blast
  have row: "map (\<lambda>(i, row). if i < n then replicate (length row) (- 1) else row) (enumerate 0 table) ! i
      = replicate (length (table ! i)) (- 1)"
    using i by (subst nth_map) (simp_all add: nth_enumerate_eq)
  have tij: "t ! i ! j = (case ?W (i, j) of Some v \<Rightarrow> v | None \<Rightarrow> - 1)"
    using i j row unfolding t ws by (subst write_slots_nth [THEN conjunct2, THEN conjunct2])
      (simp_all split: option.split)
  have hit: "\<exists>r. i < length active \<and> map_of ?R (active ! i, 0, int j) = Some r \<and>
      v = int (rs_warm_slot_id r)" if "?W (i, j) = Some v" for v
  proof -
    from map_of_SomeD [OF that] obtain l s where l: "(i, l, s) \<in> set ws" "nat l = j" "v = int s" by auto
    then obtain rid grp x where x: "((rid, grp, l), x) \<in> set ?R" "active_row active rid = Some i"
      "s = rs_warm_slot_id x"
      by (auto simp: ws_def split: option.splits)
    have rid: "i < length active" "active ! i = rid" using x(2) by (simp_all add: active_row_Some [OF dist])
    have "key_valid (rid, grp, l)" using inv x(1) by (auto simp: mig_inv_def list_all_iff)
    then have "map_of ?R (active ! i, 0, int j) = Some x"
      using x(1) l(2) rid zero [OF x(1,2)] inv
      by (auto simp: key_valid_def mig_inv_def intro!: map_of_SomeI_distinct)
    then show ?thesis using l(3) x(3) rid by blast
  qed
  have "?W (i, j) \<noteq> None" if len: "i < length active" and "map_of ?R (active ! i, 0, int j) = Some r" for r
  proof -
    have "active_row active (active ! i) = Some i" using len by (simp add: active_row_Some [OF dist])
    then have "(i, int j, rs_warm_slot_id r) \<in> set ws"
      using map_of_SomeD [OF that(2)] unfolding ws_def by force
    then have "((i, j), int (rs_warm_slot_id r)) \<in> set (rev (map (\<lambda>(i, l, s). ((i, nat l), int s)) ws))"
      by force
    then have "(i, j) \<in> set (dkeys (rev (map (\<lambda>(i, l, s). ((i, nat l), int s)) ws)))"
      unfolding list.set_map [of fst] by (rule rev_image_eqI) simp
    then show ?thesis by (simp only: map_of_None_iff not_not)
  qed
  then show ?thesis using hit tij
    by (cases "?W (i, j)") (fastforce split: option.splits)+
qed

section \<open>Properties\<close>

text \<open>The kernel that always succeeds and counts its calls, and one that always fails.\<close>

definition counting_kernel :: "nat kernel" where
  "counting_kernel hot slots w = (Inr (), w + length hot)"

definition failing_kernel :: "nat kernel" where
  "failing_kernel hot slots w = (Inl RuntimeError, w + 1)"

lemmas migrate_eval =
  new_migration_manager_def new_allocator_def migrate_def migrate_new_def check_block_def
  reserve_many_def validate_keys_def is_owned_def num_free_slots_def take_slot_def dict_index_def
  commit_def rollback_def validate_active_reservation_def release_key_raw_def heappush_def
  set_residency_def counting_kernel_def failing_kernel_def slot_of_def upt_rec Let_def

text \<open>Claim C3.  In every history of the worker, whatever the quantisation kernel does, the
  allocator has no open reservation between two calls, each resident block owns exactly the
  slot its residency record names, no two resident blocks share a slot, and resident blocks
  and free slots together make up the WARM pool.\<close>

theorem worker_residency_agrees_with_allocator:
  assumes "worker_reachable cap m"
  shows "wa_active_reservation (mm_allocator m) = None \<and>
    (\<forall>k. slot_of (mm_allocator m) k = map_option rs_warm_slot_id (map_of (mm_residency m) k)) \<and>
    inj_on (\<lambda>k. rs_warm_slot_id (the (map_of (mm_residency m) k))) (dom (map_of (mm_residency m))) \<and>
    length (mm_residency m) + num_free_slots (mm_allocator m) = nat cap"
proof -
  have inv: "mig_inv m" and al: "alloc_reachable cap (mm_allocator m)"
    using worker_reachable_inv [OF assms] by auto
  have "warm_inv (mm_allocator m)" "wa_capacity (mm_allocator m) = cap"
    using alloc_reachable_inv [OF al] by auto
  then show ?thesis
    using mig_invD [OF inv] warm_inv_partition mig_inv_resident_count [OF inv] mig_inv_slots_distinct [OF inv]
    by (fastforce simp: idle_def inj_on_def)
qed

theorem worker_residency_agrees_with_allocator_witness:
  "\<exists>m. new_migration_manager 0 3 (0 :: nat) = Inr m \<and>
     length (mm_residency m) + num_free_slots (mm_allocator m) = 3"
proof -
  obtain m where m: "new_migration_manager 0 3 (0 :: nat) = Inr m"
    by (simp add: new_migration_manager_def new_allocator_def)
  from worker_residency_agrees_with_allocator [OF worker_init [OF m]] m show ?thesis by auto
qed

text \<open>Claim C7.  \<open>migrate\<close> is all or nothing, for every kernel and every outcome of it.  When it
  returns, all blocks of the command are resident with the HOT block the command names,
  \<open>False\<close> means nothing changed, and the revision counts the migrations that did something.
  When it raises, the residency table, the revision and the number of free WARM slots are
  those before the call.  Blocks that were resident keep their record in every case.\<close>

theorem migrate_all_or_nothing:
  assumes "worker_reachable cap m" and "migrate quantize rid changed table m = (out, m')"
  shows "keeps_residency m m' \<and>
    (case out of
       Inl e \<Rightarrow> mm_residency m' = mm_residency m \<and> mm_revision m' = mm_revision m \<and>
         num_free_slots (mm_allocator m') = num_free_slots (mm_allocator m)
     | Inr moved \<Rightarrow> blocks_resident rid changed m' \<and> (\<not> moved \<longrightarrow> m' = m) \<and>
         mm_revision m' = mm_revision m + (if moved then 1 else 0))"
  using migrate_spec [OF _ assms(2)] worker_reachable_inv [OF assms(1)] by blast

theorem migrate_all_or_nothing_witness:
  "\<exists>m m' m''. new_migration_manager 0 2 0 = Inr m \<and>
     migrate failing_kernel ''r'' [[\<lparr>bt_logical_index = 0, bt_source_hot_id = 5\<rparr>]] [[5]] m
       = (Inl RuntimeError, m') \<and> mm_store m' = 1 \<and>
     mm_residency m' = [] \<and> num_free_slots (mm_allocator m') = 2 \<and>
     migrate counting_kernel ''r'' [[\<lparr>bt_logical_index = 0, bt_source_hot_id = 5\<rparr>]] [[5]] m
       = (Inr True, m'') \<and> mm_store m'' = 1 \<and>
     blocks_resident ''r'' [[\<lparr>bt_logical_index = 0, bt_source_hot_id = 5\<rparr>]] m''"
proof -
  obtain m where m: "new_migration_manager 0 2 (0 :: nat) = Inr m"
    by (simp add: new_migration_manager_def new_allocator_def)
  let ?b = "[[\<lparr>bt_logical_index = 0, bt_source_hot_id = 5\<rparr>]]"
  have m0: "mm_residency m = []" "num_free_slots (mm_allocator m) = 2"
    using m by (auto simp: migrate_eval)
  obtain m' where fail: "migrate failing_kernel ''r'' ?b [[5]] m = (Inl RuntimeError, m')" "mm_store m' = 1"
    using m by (auto simp: migrate_eval)
  obtain m'' where ok: "migrate counting_kernel ''r'' ?b [[5]] m = (Inr True, m'')" "mm_store m'' = 1"
    using m by (auto simp: migrate_eval)
  note r = worker_init [OF m]
  show ?thesis
    using m m0 fail ok migrate_all_or_nothing [OF r fail(1)] migrate_all_or_nothing [OF r ok(1)]
    by auto
qed


text \<open>Three commands against a pool of one slot: moved, out of capacity, unknown request.\<close>

definition demo_transition :: "nat \<Rightarrow> string \<Rightarrow> int \<Rightarrow> kv_transition" where
  "demo_transition i rid source =
     \<lparr>tn_transition_id = i, tn_request_id = rid, tn_previous_state = HOT, tn_new_state = WARM,
      tn_changed_blocks = [[\<lparr>bt_logical_index = 0, bt_source_hot_id = source\<rparr>]]\<rparr>"

definition demo_context :: runner_context where
  "demo_context = \<lparr>rc_tensor_parallel_size = 1, rc_pipeline_parallel_size = 1, rc_dp_size = 1,
     rc_blocks_per_kv_block = [1], rc_block_tables = [(''a'', [[4]]), (''b'', [[6]])]\<rparr>"

lemmas handle_eval =
  handle_kv_cache_state_transitions_def demo_context_def demo_transition_def handle_one_def


text \<open>Claim C13.  Cleaning up finished or preempted requests never fails, and afterwards no WARM
  slot belongs to one of them while the records of the other requests are untouched.\<close>

theorem finish_releases_all_warm_slots:
  assumes "worker_reachable cap m"
  shows "\<exists>m'. finish_warm ids m = Inr m' \<and>
    (\<forall>k. slot_of (mm_allocator m') k =
       (if fst k \<in> set ids then None else slot_of (mm_allocator m) k))"
proof -
  have inv: "mig_inv m" using worker_reachable_inv [OF assms] by simp
  obtain m' where "finish_warm ids m = Inr m'" "mig_inv m'"
    "\<forall>k. map_of (mm_residency m') k = (if fst k \<in> set ids then None else map_of (mm_residency m) k)"
    using finish_warm_spec [OF inv] by blast
  then show ?thesis using mig_invD(4) [OF inv] mig_invD(4) [of m'] by auto
qed

lemma demo_run:
  assumes "new_migration_manager 0 1 (0 :: nat) = Inr m"
  obtains m1 where
    "handle_kv_cache_state_transitions counting_kernel (\<lambda>_. '''') demo_context
       [demo_transition 0 ''a'' 4] (Some m) = (Inr [to_result (demo_transition 0 ''a'' 4) SUCCESS None], Some m1)"
    and "mm_residency m1 = [((''a'', 0, 0), \<lparr>rs_warm_slot_id = 0, rs_shadow_hot_block_id = 4\<rparr>)]"
    and "slot_of (mm_allocator m1) (''a'', 0, 0) = Some 0" and "worker_reachable 1 m1"
proof -
  obtain m1 where run: "handle_kv_cache_state_transitions counting_kernel (\<lambda>_. '''') demo_context
       [demo_transition 0 ''a'' 4] (Some m) = (Inr [to_result (demo_transition 0 ''a'' 4) SUCCESS None], Some m1)"
    and "mm_residency m1 = [((''a'', 0, 0), \<lparr>rs_warm_slot_id = 0, rs_shadow_hot_block_id = 4\<rparr>)]"
    and "slot_of (mm_allocator m1) (''a'', 0, 0) = Some 0"
    using assms by (auto simp: migrate_eval handle_eval)
  then show ?thesis using that worker_batch [OF worker_init [OF assms] run] by blast
qed

theorem finish_releases_all_warm_slots_witness:
  "\<exists>(m1 :: nat migration_manager) m2. worker_reachable 1 m1 \<and>
     slot_of (mm_allocator m1) (''a'', 0, 0) = Some 0 \<and>
     finish_warm [''a''] m1 = Inr m2 \<and> slot_of (mm_allocator m2) (''a'', 0, 0) = None"
proof -
  obtain m where m: "new_migration_manager 0 1 (0 :: nat) = Inr m"
    by (simp add: new_migration_manager_def new_allocator_def)
  obtain m1 :: "nat migration_manager" where r: "worker_reachable 1 m1"
    and sl: "slot_of (mm_allocator m1) (''a'', 0, 0) = Some 0" using demo_run [OF m] .
  from finish_releases_all_warm_slots [OF r, of "[''a'']"] r sl show ?thesis by fastforce
qed



end
