(* ===== verification/Request.thy ===== *)
theory Request
  imports KVState
begin

text \<open>
  \<open>Request\<close> and \<open>RequestStatus\<close> of \<^verbatim>\<open>vllm/v1/request.py\<close>.

  Token ids are \<open>nat\<close>, times are rationals.  A row of the prompt-embedding tensor is its raw
  bytes.  The LoRA request is represented by its name, the only part the modelled code reads.
  The object is split in two: \<open>request\<close> is what the KV cache reads, \<open>sched_request\<close> adds what
  only the scheduler reads.  Fields of the source that none of the modelled code reads (tracing,
  statistics, pooling parameters, the transfer parameters of a connector) are left out.
\<close>

type_synonym bytes = "8 word list"

section \<open>Status\<close>

datatype request_status =
    WAITING
  | WAITING_FOR_STRUCTURED_OUTPUT_GRAMMAR
  | WAITING_FOR_REMOTE_KVS
  | WAITING_FOR_STREAMING_REQ
  | RUNNING
  | PREEMPTED
  | FINISHED_STOPPED
  | FINISHED_LENGTH_CAPPED
  | FINISHED_ABORTED
  | FINISHED_IGNORED
  | FINISHED_ERROR
  | FINISHED_REPETITION

text \<open>\<open>enum.auto()\<close> numbers the members from 1.\<close>

fun status_value :: "request_status \<Rightarrow> nat" where
  "status_value WAITING = 1"
| "status_value WAITING_FOR_STRUCTURED_OUTPUT_GRAMMAR = 2"
| "status_value WAITING_FOR_REMOTE_KVS = 3"
| "status_value WAITING_FOR_STREAMING_REQ = 4"
| "status_value RUNNING = 5"
| "status_value PREEMPTED = 6"
| "status_value FINISHED_STOPPED = 7"
| "status_value FINISHED_LENGTH_CAPPED = 8"
| "status_value FINISHED_ABORTED = 9"
| "status_value FINISHED_IGNORED = 10"
| "status_value FINISHED_ERROR = 11"
| "status_value FINISHED_REPETITION = 12"

definition status_is_finished :: "request_status \<Rightarrow> bool" where
  "status_is_finished s \<longleftrightarrow> status_value PREEMPTED < status_value s"

datatype finish_reason = REASON_STOP | REASON_LENGTH | REASON_ABORT | REASON_ERROR | REASON_REPETITION

fun get_finished_reason :: "request_status \<Rightarrow> finish_reason option" where
  "get_finished_reason FINISHED_STOPPED = Some REASON_STOP"
| "get_finished_reason FINISHED_LENGTH_CAPPED = Some REASON_LENGTH"
| "get_finished_reason FINISHED_ABORTED = Some REASON_ABORT"
| "get_finished_reason FINISHED_IGNORED = Some REASON_LENGTH"
| "get_finished_reason FINISHED_ERROR = Some REASON_ERROR"
| "get_finished_reason WAITING_FOR_STREAMING_REQ = Some REASON_STOP"
| "get_finished_reason FINISHED_REPETITION = Some REASON_REPETITION"
| "get_finished_reason _ = None"

section \<open>Multi-modal features\<close>

record mm_feature =
  mf_identifier :: string
  mf_offset :: int
  mf_length :: int
  mf_is_embed :: "bool list option"

text \<open>\<open>PlaceholderRange.get_num_embeds\<close> and \<open>get_embeds_indices_in_range\<close> over the mask of embeddings.\<close>

definition embeds_cumsum :: "mm_feature \<Rightarrow> int list option" where
  "embeds_cumsum f =
     map_option (\<lambda>m. map (\<lambda>n. int (count_list (take (Suc n) m) True)) [0..<length m]) (mf_is_embed f)"

definition get_num_embeds :: "mm_feature \<Rightarrow> int" where
  "get_num_embeds f =
     (case embeds_cumsum f of None \<Rightarrow> mf_length f | Some c \<Rightarrow> if c \<noteq> [] then last c else 0)"

definition get_embeds_indices_in_range :: "int \<Rightarrow> int \<Rightarrow> mm_feature \<Rightarrow> (int \<times> int) res" where
  "get_embeds_indices_in_range start_idx end_idx f =
     (case embeds_cumsum f of
        None \<Rightarrow> Inr (start_idx, end_idx)
      | Some c \<Rightarrow>
          rbind (if start_idx > 0 then list_index c (start_idx - 1) else Inr 0) (\<lambda>embeds_start_idx.
          rbind (if end_idx > 0 then list_index c (end_idx - 1) else Inr 0) (\<lambda>embeds_end_idx.
          Inr (embeds_start_idx, embeds_end_idx))))"

section \<open>Requests\<close>

record request =
  rq_request_id :: string
  rq_priority :: int
  rq_arrival_time :: rat
  rq_last_activity_time :: rat
  rq_kv_cache_state :: kv_block_state
  rq_status :: request_status
  rq_prompt_token_ids :: "nat list option"
  rq_prompt_embeds :: "bytes list option"
  rq_prompt_embeds_per_block_hashes :: "(nat \<times> nat, bytes) dict"
  rq_num_prompt_tokens :: nat
  rq_output_token_ids :: "nat list"
  rq_all_token_ids :: "nat list"
  rq_num_output_placeholders :: int
  rq_num_computed_tokens :: int
  rq_spec_token_ids :: "nat list"
  rq_cache_salt :: "string option"
  rq_lora_name :: "string option"
  rq_mm_features :: "mm_feature list"
  rq_num_preemptions :: nat
  rq_block_hashes :: "bytes list"
  rq_skip_reading_prefix_cache :: bool
  rq_resumable :: bool

definition rq_num_tokens :: "request \<Rightarrow> nat" where
  "rq_num_tokens r = length (rq_all_token_ids r)"

definition rq_num_tokens_with_spec :: "request \<Rightarrow> nat" where
  "rq_num_tokens_with_spec r = length (rq_all_token_ids r) + length (rq_spec_token_ids r)"

definition rq_num_output_tokens :: "request \<Rightarrow> nat" where
  "rq_num_output_tokens r = length (rq_output_token_ids r)"

definition rq_is_finished :: "request \<Rightarrow> bool" where
  "rq_is_finished r \<longleftrightarrow> status_is_finished (rq_status r)"

definition mark_activity :: "rat \<Rightarrow> request \<Rightarrow> request" where
  "mark_activity activity_time r = r\<lparr>rq_last_activity_time := activity_time\<rparr>"

definition get_idle_time :: "rat \<Rightarrow> request \<Rightarrow> rat" where
  "get_idle_time current_time r = max 0 (current_time - rq_last_activity_time r)"

text \<open>\<open>length_from_prompt_token_ids_or_embeds\<close>.\<close>

definition prompt_length :: "nat list option \<Rightarrow> bytes list option \<Rightarrow> nat res" where
  "prompt_length prompt_token_ids prompt_embeds =
     (case (prompt_token_ids, prompt_embeds) of
        (None, None) \<Rightarrow> Inl ValueError
      | (None, Some e) \<Rightarrow> Inr (length e)
      | (Some t, None) \<Rightarrow> Inr (length t)
      | (Some t, Some e) \<Rightarrow> if length e \<noteq> length t then Inl ValueError else Inr (length t))"

text \<open>\<open>__lt__\<close>; the tie break on object identity compares the two addresses.\<close>

definition request_lt :: "(request \<Rightarrow> nat) \<Rightarrow> (string \<Rightarrow> string \<Rightarrow> bool) \<Rightarrow> request \<Rightarrow> request \<Rightarrow> bool" where
  "request_lt address string_lt r s =
     (if rq_priority r \<noteq> rq_priority s then rq_priority r < rq_priority s
      else if rq_arrival_time r \<noteq> rq_arrival_time s then rq_arrival_time r < rq_arrival_time s
      else if rq_request_id r \<noteq> rq_request_id s then string_lt (rq_request_id r) (rq_request_id s)
      else address r < address s)"

definition has_encoder_inputs :: "request \<Rightarrow> bool" where
  "has_encoder_inputs r \<longleftrightarrow> rq_mm_features r \<noteq> []"

definition get_num_encoder_embeds :: "nat \<Rightarrow> request \<Rightarrow> int res" where
  "get_num_encoder_embeds input_id r =
     rbind (check (input_id < length (rq_mm_features r)) AssertionError) (\<lambda>_.
     Inr (get_num_embeds (rq_mm_features r ! input_id)))"

section \<open>What the scheduler keeps of a request\<close>

text \<open>The sampling parameters that decide when a request stops; repetition detection is the maximal
  and minimal pattern size and the minimal count.\<close>

record sampling_params =
  sq_min_tokens :: int
  sq_eos_token_id :: "nat option"
  sq_stop_token_ids :: "nat list"
  sq_repetition_detection :: "(int \<times> int \<times> int) option"

datatype stop_reason = StopToken nat | RepetitionDetected

record streaming_update =
  su_mm_features :: "mm_feature list"
  su_prompt_token_ids :: "nat list option"
  su_max_tokens :: int
  su_arrival_time :: rat
  su_sampling_params :: sampling_params

text \<open>\<open>sr_grammar\<close> is \<open>None\<close> without a structured-output request, else whether its grammar is ready.
  In the queue of updates \<open>None\<close> is the sentinel that ends the session.\<close>

record sched_request =
  sr_core :: request
  sr_client_index :: int
  sr_sampling_params :: sampling_params
  sr_max_tokens :: int
  sr_stop_reason :: "stop_reason option"
  sr_grammar :: "bool option"
  sr_is_prefill_chunk :: bool
  sr_next_decode_eligible_step :: int
  sr_last_sched_seq :: int
  sr_streaming_queue :: "streaming_update option list option"

abbreviation sr_id :: "sched_request \<Rightarrow> string" where
  "sr_id s \<equiv> rq_request_id (sr_core s)"

abbreviation sr_status :: "sched_request \<Rightarrow> request_status" where
  "sr_status s \<equiv> rq_status (sr_core s)"

definition on_core :: "(request \<Rightarrow> request) \<Rightarrow> sched_request \<Rightarrow> sched_request" where
  "on_core f s = s\<lparr>sr_core := f (sr_core s)\<rparr>"

definition set_status :: "request_status \<Rightarrow> sched_request \<Rightarrow> sched_request" where
  "set_status st = on_core (\<lambda>r. r\<lparr>rq_status := st\<rparr>)"

text \<open>\<open>StreamingUpdate.from_request\<close>.\<close>

definition streaming_update_from_request :: "sched_request \<Rightarrow> streaming_update option" where
  "streaming_update_from_request s =
     (if \<not> rq_resumable (sr_core s) then None
      else Some \<lparr>su_mm_features = rq_mm_features (sr_core s),
                 su_prompt_token_ids = rq_prompt_token_ids (sr_core s),
                 su_max_tokens = sr_max_tokens s, su_arrival_time = rq_arrival_time (sr_core s),
                 su_sampling_params = sr_sampling_params s\<rparr>)"

section \<open>Facts\<close>

lemma status_is_finished_iff:
  "status_is_finished s \<longleftrightarrow>
     s \<in> {FINISHED_STOPPED, FINISHED_LENGTH_CAPPED, FINISHED_ABORTED, FINISHED_IGNORED,
          FINISHED_ERROR, FINISHED_REPETITION}"
  by (cases s) (simp_all add: status_is_finished_def)

lemma finished_has_reason: "status_is_finished s \<Longrightarrow> get_finished_reason s \<noteq> None"
  by (cases s) (simp_all add: status_is_finished_def)

lemma on_core_simps [simp]:
  "sr_core (on_core f s) = f (sr_core s)" "sr_streaming_queue (on_core f s) = sr_streaming_queue s"
  by (simp_all add: on_core_def)

lemma set_status_simps [simp]:
  "sr_id (set_status st s) = sr_id s" "sr_status (set_status st s) = st"
  "rq_resumable (sr_core (set_status st s)) = rq_resumable (sr_core s)"
  "rq_kv_cache_state (sr_core (set_status st s)) = rq_kv_cache_state (sr_core s)"
  by (simp_all add: set_status_def)

lemma get_idle_time_nonneg: "0 \<le> get_idle_time now r"
  by (simp add: get_idle_time_def)

end
