(* ===== verification/FreeQueue.thy ===== *)
theory FreeQueue
  imports Request
begin

text \<open>
  \<open>KVCacheBlock\<close> and \<open>FreeKVCacheBlockQueue\<close> of \<^verbatim>\<open>vllm/v1/core/kv_cache_utils.py\<close>.

  A block object is a reference of type \<open>block_ref\<close>: the two sentinels of the queue and the
  blocks of the pool, \<open>Blk i\<close> for the \<open>i\<close>-th element of \<open>BlockPool.blocks\<close>.  The objects
  live in a memory, a function from references to \<open>kv_cache_block\<close> records; the doubly linked
  list is in their fields \<open>kb_prev_free_block\<close> and \<open>kb_next_free_block\<close> as in the source.
  The abstract value of a queue is the list of its blocks, related by \<open>is_queue\<close>; every
  operation is refined to the operation on lists and leaves all other fields alone.
\<close>

datatype block_ref = FakeHead | FakeTail | Blk nat

record kv_cache_block =
  kb_block_id :: int
  kb_hierarchy_state :: kv_block_state
  kb_ref_cnt :: int
  kb_block_hash :: "bytes option"
  kb_block_hash_num_tokens :: "int option"
  kb_prev_free_block :: "block_ref option"
  kb_next_free_block :: "block_ref option"
  kb_is_null :: bool

type_synonym block_mem = "block_ref \<Rightarrow> kv_cache_block"

definition new_block :: "int \<Rightarrow> kv_cache_block" where
  "new_block i =
     \<lparr>kb_block_id = i, kb_hierarchy_state = HOT, kb_ref_cnt = 0, kb_block_hash = None,
      kb_block_hash_num_tokens = None, kb_prev_free_block = None, kb_next_free_block = None,
      kb_is_null = False\<rparr>"

definition reset_hierarchy_state :: "kv_cache_block \<Rightarrow> kv_cache_block" where
  "reset_hierarchy_state b = b\<lparr>kb_hierarchy_state := HOT\<rparr>"

definition set_block_hash :: "bytes \<Rightarrow> int option \<Rightarrow> kv_cache_block \<Rightarrow> kv_cache_block res" where
  "set_block_hash block_hash num_tokens b =
     (if kb_block_hash b = None \<and> kb_block_hash_num_tokens b = None
      then Inr (b\<lparr>kb_block_hash := Some block_hash, kb_block_hash_num_tokens := num_tokens\<rparr>)
      else Inl AssertionError)"

definition reset_hash :: "kv_cache_block \<Rightarrow> kv_cache_block" where
  "reset_hash b = b\<lparr>kb_block_hash := None, kb_block_hash_num_tokens := None\<rparr>"

section \<open>The queue\<close>

record free_queue =
  fq_num_free_blocks :: int
  fq_mem :: block_mem

definition set_prev :: "block_ref \<Rightarrow> block_ref option \<Rightarrow> block_mem \<Rightarrow> block_mem" where
  "set_prev b r mem = mem(b := (mem b)\<lparr>kb_prev_free_block := r\<rparr>)"

definition set_next :: "block_ref \<Rightarrow> block_ref option \<Rightarrow> block_mem \<Rightarrow> block_mem" where
  "set_next b r mem = mem(b := (mem b)\<lparr>kb_next_free_block := r\<rparr>)"

definition unlink :: "block_ref \<Rightarrow> block_mem \<Rightarrow> block_mem" where
  "unlink b mem = set_next b None (set_prev b None mem)"

definition link :: "block_ref \<Rightarrow> block_ref \<Rightarrow> block_mem \<Rightarrow> block_mem" where
  "link a b mem = set_prev b (Some a) (set_next a (Some b) mem)"

definition init_link :: "block_ref list \<Rightarrow> nat \<Rightarrow> block_mem \<Rightarrow> block_mem" where
  "init_link blocks i mem =
     (let mem1 = (if 0 < i then set_prev (blocks ! i) (Some (blocks ! (i - 1))) mem else mem)
      in if Suc i < length blocks then set_next (blocks ! i) (Some (blocks ! (i + 1))) mem1
         else mem1)"

definition new_free_queue :: "block_ref list \<Rightarrow> block_mem \<Rightarrow> free_queue" where
  "new_free_queue blocks mem =
     (let mem1 = fold (init_link blocks) [0..<length blocks] mem;
          mem2 = mem1(FakeHead := new_block (- 1), FakeTail := new_block (- 1))
      in \<lparr>fq_num_free_blocks = int (length blocks),
          fq_mem =
            (if 0 < length blocks
             then link (last blocks) FakeTail (link FakeHead (hd blocks) mem2)
             else link FakeHead FakeTail mem2)\<rparr>)"

definition popleft :: "free_queue \<Rightarrow> (block_ref \<times> free_queue) res" where
  "popleft q =
     (let mem = fq_mem q in
      case kb_next_free_block (mem FakeHead) of
        None \<Rightarrow> if fq_num_free_blocks q = 0 then Inl ValueError else Inl AssertionError
      | Some first \<Rightarrow>
          if first = FakeTail
          then (if fq_num_free_blocks q = 0 then Inl ValueError else Inl AssertionError)
          else (case kb_next_free_block (mem first) of
              None \<Rightarrow> Inl RuntimeError
            | Some second \<Rightarrow>
                Inr (first,
                     q\<lparr>fq_mem := unlink first (link FakeHead second mem),
                       fq_num_free_blocks := fq_num_free_blocks q - 1\<rparr>)))"

fun pop_loop ::
  "nat \<Rightarrow> block_ref option \<Rightarrow> block_mem \<Rightarrow> (block_ref list \<times> block_ref option \<times> block_mem) res"
where
  "pop_loop 0 cur mem = Inr ([], cur, mem)"
| "pop_loop (Suc n) None mem = Inl AssertionError"
| "pop_loop (Suc n) (Some b) mem =
     rbind (pop_loop n (kb_next_free_block (mem b)) (unlink b mem)) (\<lambda>(ret, rest).
     Inr (b # ret, rest))"

definition popleft_n :: "int \<Rightarrow> free_queue \<Rightarrow> (block_ref list \<times> free_queue) res" where
  "popleft_n n q =
     (if n = 0 then Inr ([], q)
      else if fq_num_free_blocks q < n then Inl AssertionError
      else rbind (pop_loop (nat n) (kb_next_free_block (fq_mem q FakeHead)) (fq_mem q))
        (\<lambda>(ret, cur, mem).
         Inr (ret,
              q\<lparr>fq_num_free_blocks := fq_num_free_blocks q - n,
                fq_mem := (case cur of None \<Rightarrow> mem | Some b \<Rightarrow> link FakeHead b mem)\<rparr>)))"

definition remove_free :: "block_ref \<Rightarrow> free_queue \<Rightarrow> free_queue res" where
  "remove_free b q =
     (let mem = fq_mem q in
      case (kb_prev_free_block (mem b), kb_next_free_block (mem b)) of
        (Some p, Some n) \<Rightarrow>
          Inr (q\<lparr>fq_mem := unlink b (link p n mem),
                 fq_num_free_blocks := fq_num_free_blocks q - 1\<rparr>)
      | _ \<Rightarrow> Inl RuntimeError)"

definition append_free :: "block_ref \<Rightarrow> free_queue \<Rightarrow> free_queue res" where
  "append_free b q =
     (case kb_prev_free_block (fq_mem q FakeTail) of
        None \<Rightarrow> Inl RuntimeError
      | Some lst \<Rightarrow>
          Inr (q\<lparr>fq_mem := link b FakeTail (link lst b (fq_mem q)),
                 fq_num_free_blocks := fq_num_free_blocks q + 1\<rparr>))"

fun link_all :: "block_ref \<Rightarrow> block_ref list \<Rightarrow> block_mem \<Rightarrow> block_ref \<times> block_mem" where
  "link_all prev [] mem = (prev, mem)"
| "link_all prev (b # bs) mem = link_all b bs (link prev b mem)"

definition prepend_n :: "block_ref list \<Rightarrow> free_queue \<Rightarrow> free_queue res" where
  "prepend_n blocks q =
     (if blocks = [] then Inr q
      else case kb_next_free_block (fq_mem q FakeHead) of
        None \<Rightarrow> Inl AssertionError
      | Some first \<Rightarrow>
          let (prev, mem) = link_all FakeHead blocks (fq_mem q)
          in Inr (q\<lparr>fq_mem := link prev first mem,
                    fq_num_free_blocks := fq_num_free_blocks q + int (length blocks)\<rparr>))"

definition append_n :: "block_ref list \<Rightarrow> free_queue \<Rightarrow> free_queue res" where
  "append_n blocks q =
     (if blocks = [] then Inr q
      else case kb_prev_free_block (fq_mem q FakeTail) of
        None \<Rightarrow> Inl AssertionError
      | Some lst \<Rightarrow>
          let (prev, mem) = link_all lst blocks (fq_mem q)
          in Inr (q\<lparr>fq_mem := link prev FakeTail mem,
                    fq_num_free_blocks := fq_num_free_blocks q + int (length blocks)\<rparr>))"

text \<open>The walk of \<open>get_all_free_blocks\<close> follows the links and may, on a corrupted list, not end.\<close>

partial_function (option) walk :: "block_mem \<Rightarrow> block_ref \<Rightarrow> block_ref list option" where
  "walk mem cur =
     (case kb_next_free_block (mem cur) of
        None \<Rightarrow> Some []
      | Some n \<Rightarrow> Option.bind (walk mem n) (\<lambda>ret. Some (cur # ret)))"

definition get_all_free_blocks :: "free_queue \<Rightarrow> block_ref list res option" where
  "get_all_free_blocks q =
     (case kb_next_free_block (fq_mem q FakeHead) of
        None \<Rightarrow> Some (Inl RuntimeError)
      | Some first \<Rightarrow> map_option Inr (walk (fq_mem q) first))"

section \<open>The abstract list\<close>

fun linked :: "block_mem \<Rightarrow> block_ref list \<Rightarrow> bool" where
  "linked mem (a # b # bs) \<longleftrightarrow>
     kb_next_free_block (mem a) = Some b \<and> kb_prev_free_block (mem b) = Some a \<and> linked mem (b # bs)"
| "linked mem bs \<longleftrightarrow> True"

definition is_real :: "block_ref \<Rightarrow> bool" where
  "is_real b \<longleftrightarrow> b \<noteq> FakeHead \<and> b \<noteq> FakeTail"

definition is_queue :: "free_queue \<Rightarrow> block_ref list \<Rightarrow> bool" where
  "is_queue q xs \<longleftrightarrow>
     distinct xs \<and> list_all is_real xs \<and> fq_num_free_blocks q = int (length xs) \<and>
     linked (fq_mem q) (FakeHead # xs @ [FakeTail]) \<and>
     kb_prev_free_block (fq_mem q FakeHead) = None \<and> kb_next_free_block (fq_mem q FakeTail) = None \<and>
     (\<forall>b. is_real b \<and> b \<notin> set xs \<longrightarrow>
        kb_prev_free_block (fq_mem q b) = None \<and> kb_next_free_block (fq_mem q b) = None)"

text \<open>All fields but the links.\<close>

definition data_of :: "kv_cache_block \<Rightarrow> kv_cache_block" where
  "data_of b = b\<lparr>kb_prev_free_block := None, kb_next_free_block := None\<rparr>"

definition same_data :: "free_queue \<Rightarrow> free_queue \<Rightarrow> bool" where
  "same_data q q' \<longleftrightarrow> (\<forall>b. data_of (fq_mem q' b) = data_of (fq_mem q b))"

definition same_links :: "block_mem \<Rightarrow> block_mem \<Rightarrow> bool" where
  "same_links mem mem' \<longleftrightarrow>
     (\<forall>b. kb_prev_free_block (mem' b) = kb_prev_free_block (mem b) \<and>
          kb_next_free_block (mem' b) = kb_next_free_block (mem b))"

lemma link_simps [simp]:
  "kb_next_free_block (link a b mem c) = (if c = a then Some b else kb_next_free_block (mem c))"
  "kb_prev_free_block (link a b mem c) = (if c = b then Some a else kb_prev_free_block (mem c))"
  "kb_next_free_block (unlink a mem c) = (if c = a then None else kb_next_free_block (mem c))"
  "kb_prev_free_block (unlink a mem c) = (if c = a then None else kb_prev_free_block (mem c))"
  "data_of (link a b mem c) = data_of (mem c)"
  "data_of (unlink a mem c) = data_of (mem c)"
  by (auto simp: link_def unlink_def set_prev_def set_next_def data_of_def)

lemma data_of_eq:
  "data_of b = data_of b' \<Longrightarrow>
     kb_block_id b = kb_block_id b' \<and> kb_hierarchy_state b = kb_hierarchy_state b' \<and>
     kb_ref_cnt b = kb_ref_cnt b' \<and> kb_block_hash b = kb_block_hash b' \<and>
     kb_block_hash_num_tokens b = kb_block_hash_num_tokens b' \<and> kb_is_null b = kb_is_null b'"
  by (cases b, cases b') (simp add: data_of_def)

lemma same_data_refl [simp]: "same_data q q"
  by (simp add: same_data_def)

lemma same_data_trans: "same_data q q' \<Longrightarrow> same_data q' q'' \<Longrightarrow> same_data q q''"
  by (simp add: same_data_def)

lemma linked_append:
  "linked mem (xs @ b # ys) \<longleftrightarrow> linked mem (xs @ [b]) \<and> linked mem (b # ys)"
proof (induction xs)
  case (Cons x xs)
  then show ?case by (cases xs) auto
qed simp

lemma linked_frame:
  "(\<And>b. b \<in> set (butlast xs) \<Longrightarrow> kb_next_free_block (mem' b) = kb_next_free_block (mem b)) \<Longrightarrow>
   (\<And>b. b \<in> set (tl xs) \<Longrightarrow> kb_prev_free_block (mem' b) = kb_prev_free_block (mem b)) \<Longrightarrow>
   linked mem' xs = linked mem xs"
proof (induction mem xs rule: linked.induct)
  case (1 mem a b bs)
  have "linked mem' (b # bs) = linked mem (b # bs)"
    using 1(2,3) by (intro 1(1)) (cases bs; auto)+
  then show ?case using 1(2) [of a] 1(3) [of b] by simp
qed auto

lemma linked_Cons:
  "linked mem (a # xs @ [b]) \<longleftrightarrow>
     kb_next_free_block (mem a) = Some (hd (xs @ [b])) \<and>
     kb_prev_free_block (mem (hd (xs @ [b]))) = Some a \<and> linked mem (xs @ [b])"
  by (cases xs) auto

lemma linked_snoc:
  "linked mem (a # xs @ [b]) \<longleftrightarrow>
     linked mem (a # xs) \<and> kb_next_free_block (mem (last (a # xs))) = Some b \<and>
     kb_prev_free_block (mem b) = Some (last (a # xs))"
proof (induction xs arbitrary: a)
  case (Cons x xs)
  then show ?case by (cases xs) auto
qed simp

lemma is_queue_same_links:
  assumes "is_queue q xs" "same_links (fq_mem q) (fq_mem q')"
    and "fq_num_free_blocks q' = fq_num_free_blocks q"
  shows "is_queue q' xs"
proof -
  have "linked (fq_mem q') (FakeHead # xs @ [FakeTail]) = linked (fq_mem q) (FakeHead # xs @ [FakeTail])"
    using assms(2) by (intro linked_frame) (auto simp: same_links_def)
  then show ?thesis using assms by (simp add: is_queue_def same_links_def)
qed

lemma is_queue_num: "is_queue q xs \<Longrightarrow> fq_num_free_blocks q = int (length xs)"
  by (simp add: is_queue_def)

lemma is_queue_head:
  "is_queue q xs \<Longrightarrow> kb_next_free_block (fq_mem q FakeHead) = Some (hd (xs @ [FakeTail]))"
  by (simp add: is_queue_def linked_Cons)

lemma is_queue_tail:
  "is_queue q xs \<Longrightarrow> kb_prev_free_block (fq_mem q FakeTail) = Some (last (FakeHead # xs))"
  by (simp only: is_queue_def linked_snoc)

text \<open>The list a queue represents is unique.\<close>

lemma linked_unique:
  "linked mem (a # xs @ [FakeTail]) \<Longrightarrow> linked mem (a # ys @ [FakeTail]) \<Longrightarrow>
   FakeTail \<notin> set xs \<Longrightarrow> FakeTail \<notin> set ys \<Longrightarrow> xs = ys"
proof (induction xs arbitrary: a ys)
  case Nil
  then show ?case by (cases ys) auto
next
  case (Cons x xs)
  then show ?case by (cases ys) auto
qed

lemma is_queue_unique: "is_queue q xs \<Longrightarrow> is_queue q ys \<Longrightarrow> xs = ys"
  by (rule linked_unique [of "fq_mem q" FakeHead]) (auto simp: is_queue_def list_all_iff is_real_def)

section \<open>Refinement of the operations\<close>

lemma linked_join:
  assumes "xs \<noteq> []" "ys \<noteq> []"
  shows "linked mem (xs @ ys) \<longleftrightarrow> linked mem xs \<and> linked mem ys \<and>
    kb_next_free_block (mem (last xs)) = Some (hd ys) \<and>
    kb_prev_free_block (mem (hd ys)) = Some (last xs)"
  using assms
proof (induction xs)
  case (Cons x xs)
  then show ?case by (cases xs; cases ys) auto
qed simp

lemma remove_free_refines:
  assumes q: "is_queue q (xs @ b # ys)"
  shows "\<exists>q'. remove_free b q = Inr q' \<and> is_queue q' (xs @ ys) \<and> same_data q q'"
proof -
  let ?mem = "fq_mem q" and ?A = "FakeHead # xs" and ?B = "ys @ [FakeTail]"
  let ?p = "last ?A" and ?n = "hd ?B"
  let ?q' = "q\<lparr>fq_mem := unlink b (link ?p ?n ?mem), fq_num_free_blocks := fq_num_free_blocks q - 1\<rparr>"
  have dist: "distinct (?A @ b # ?B)" using q by (auto simp: is_queue_def is_real_def list_all_iff)
  have l: "linked ?mem (?A @ b # ?B)" using q by (simp add: is_queue_def)
  have A: "linked ?mem ?A" "kb_prev_free_block (?mem b) = Some ?p"
    and bB: "linked ?mem (b # ?B)"
    using l linked_join [of ?A "b # ?B" ?mem] by auto
  have B: "linked ?mem ?B" "kb_next_free_block (?mem b) = Some ?n"
    using bB linked_join [of "[b]" ?B ?mem] by auto
  have pA: "?p \<in> set ?A" and nB: "?n \<in> set ?B" by (rule last_in_set, simp, rule hd_in_set, simp)
  have run: "remove_free b q = Inr ?q'" using A(2) B(2) by (simp add: remove_free_def)
  have "linked (fq_mem ?q') ?A = linked ?mem ?A"
  proof (rule linked_frame)
    fix c assume "c \<in> set (butlast ?A)"
    moreover have "?p \<notin> set (butlast ?A)"
      using dist by (metis append_butlast_last_id distinct_append list.distinct(1) not_distinct_conv_prefix)
    moreover have "b \<notin> set ?A" using dist by auto
    ultimately show "kb_next_free_block (fq_mem ?q' c) = kb_next_free_block (?mem c)"
      using in_set_butlastD [of c ?A] by (auto simp del: butlast.simps last.simps)
  next
    fix c assume c: "c \<in> set (tl ?A)"
    then have "c \<notin> set (b # ?B)" using dist by auto
    then have "c \<noteq> b" "c \<noteq> ?n" using nB by auto
    then show "kb_prev_free_block (fq_mem ?q' c) = kb_prev_free_block (?mem c)" by simp
  qed
  moreover have "linked (fq_mem ?q') ?B = linked ?mem ?B"
  proof (rule linked_frame)
    fix c assume "c \<in> set (butlast ?B)"
    then have "c \<notin> set (?A @ [b])" using dist by auto
    then have "c \<noteq> b" "c \<noteq> ?p" using pA by auto
    then show "kb_next_free_block (fq_mem ?q' c) = kb_next_free_block (?mem c)" by simp
  next
    fix c assume c: "c \<in> set (tl ?B)"
    then have "c \<in> set ?B" by (cases ?B) auto
    moreover have "c \<noteq> ?n" using c dist by (cases ?B) auto
    ultimately have "c \<noteq> b" "c \<noteq> ?n" using dist by auto
    then show "kb_prev_free_block (fq_mem ?q' c) = kb_prev_free_block (?mem c)" by simp
  qed
  moreover have "?p \<noteq> b" "?n \<noteq> b" using dist pA nB by auto
  ultimately have "linked (fq_mem ?q') (?A @ ?B)"
    using A(1) B(1) linked_join [of ?A ?B "fq_mem ?q'"] by simp
  moreover have "c \<noteq> ?p" "c \<noteq> ?n" if "is_real c" "c \<notin> set (xs @ ys)" for c
    using pA nB that by (auto simp: is_real_def)
  moreover have "?p \<noteq> FakeTail" "?n \<noteq> FakeHead"
    using pA nB dist by (auto simp del: last.simps)
  ultimately have "is_queue ?q' (xs @ ys)"
    using q by (auto simp: is_queue_def is_real_def)
  then show ?thesis using run by (simp add: same_data_def)
qed

lemma popleft_eq_remove:
  assumes "is_queue q (x # xs)"
  shows "popleft q = rbind (remove_free x q) (\<lambda>q'. Inr (x, q'))"
proof -
  have l: "linked (fq_mem q) (FakeHead # x # xs @ [FakeTail])" and x: "x \<noteq> FakeTail"
    using assms by (auto simp: is_queue_def is_real_def)
  then obtain n where "kb_next_free_block (fq_mem q x) = Some n" by (cases xs) auto
  then show ?thesis using l x by (simp add: popleft_def remove_free_def Let_def)
qed

lemma popleft_refines:
  assumes "is_queue q (x # xs)"
  shows "\<exists>q'. popleft q = Inr (x, q') \<and> is_queue q' xs \<and> same_data q q'"
  using remove_free_refines [of q "[]" x xs] popleft_eq_remove [OF assms] assms by auto

lemma popleft_empty: "is_queue q [] \<Longrightarrow> popleft q = Inl ValueError"
  by (simp add: is_queue_def popleft_def)

lemma unlink_all [simp]:
  "kb_next_free_block (fold unlink xs mem c) = (if c \<in> set xs then None else kb_next_free_block (mem c))"
  "kb_prev_free_block (fold unlink xs mem c) = (if c \<in> set xs then None else kb_prev_free_block (mem c))"
  "data_of (fold unlink xs mem c) = data_of (mem c)"
  by (induction xs arbitrary: mem) auto

lemma pop_loop_refines:
  "linked mem (xs @ ys @ [FakeTail]) \<Longrightarrow> distinct (xs @ ys) \<Longrightarrow> FakeTail \<notin> set (xs @ ys) \<Longrightarrow>
   pop_loop (length xs) (Some (hd (xs @ ys @ [FakeTail]))) mem =
     Inr (xs, Some (hd (ys @ [FakeTail])), fold unlink xs mem)"
proof (induction xs arbitrary: mem)
  case (Cons x xs)
  let ?r = "xs @ ys @ [FakeTail]"
  have l: "linked mem ?r" "kb_next_free_block (mem x) = Some (hd ?r)"
    using Cons.prems(1) linked_Cons [of mem x "xs @ ys" FakeTail] by auto
  have "linked (unlink x mem) ?r = linked mem ?r"
    using Cons.prems(2,3)
    by (intro linked_frame) (auto dest: in_set_butlastD simp: butlast_append split: if_splits;
        metis list.set_sel(2) tl_Nil append_is_Nil_conv Un_iff set_append empty_iff list.set(1,2) insert_iff)+
  then show ?case using Cons l by auto
qed simp

lemma popleft_n_refines:
  assumes q: "is_queue q (xs @ ys)"
  shows "\<exists>q'. popleft_n (int (length xs)) q = Inr (xs, q') \<and> is_queue q' ys \<and> same_data q q'"
proof (cases "xs = []")
  case True
  then show ?thesis using q by (auto simp: popleft_n_def)
next
  case False
  let ?mem = "fold unlink xs (fq_mem q)" and ?B = "ys @ [FakeTail]"
  let ?q' = "q\<lparr>fq_num_free_blocks := fq_num_free_blocks q - int (length xs), fq_mem := link FakeHead (hd ?B) ?mem\<rparr>"
  have l: "linked (fq_mem q) (FakeHead # xs @ ?B)" using q by (simp add: is_queue_def)
  have l': "linked (fq_mem q) (xs @ ?B)" and hd: "kb_next_free_block (fq_mem q FakeHead) = Some (hd (xs @ ?B))"
    using l linked_Cons [of "fq_mem q" FakeHead "xs @ ys" FakeTail] by auto
  have dist: "distinct (FakeHead # xs @ ?B)" using q by (auto simp: is_queue_def is_real_def list_all_iff)
  have "pop_loop (length xs) (Some (hd (xs @ ?B))) (fq_mem q) = Inr (xs, Some (hd ?B), ?mem)"
    using dist by (intro pop_loop_refines [OF l']) auto
  then have run: "popleft_n (int (length xs)) q = Inr (xs, ?q')"
    using q False hd by (simp add: popleft_n_def is_queue_def)
  have lB: "linked (fq_mem q) ?B" using l' linked_join [OF False, of ?B] by simp
  have "linked (fq_mem ?q') ?B = linked (fq_mem q) ?B"
  proof (rule linked_frame)
    fix c assume "c \<in> set (butlast ?B)"
    then show "kb_next_free_block (fq_mem ?q' c) = kb_next_free_block (fq_mem q c)" using dist by auto
  next
    fix c assume c: "c \<in> set (tl ?B)"
    then have "c \<in> set ?B" "c \<noteq> hd ?B" using dist by (cases ?B; auto)+
    then show "kb_prev_free_block (fq_mem ?q' c) = kb_prev_free_block (fq_mem q c)" using dist by auto
  qed
  then have "linked (fq_mem ?q') (FakeHead # ?B)" using lB linked_Cons [of "fq_mem ?q'" FakeHead ys] by simp
  moreover have "hd ?B \<noteq> FakeHead" using dist by (cases ys) auto
  moreover have "c \<noteq> hd ?B" if "is_real c" "c \<notin> set ys" for c
    using that by (cases ys) (auto simp: is_real_def)
  ultimately have "is_queue ?q' ys"
    using q by (auto simp: is_queue_def is_real_def list_all_iff)
  then show ?thesis using run by (simp add: same_data_def)
qed

lemma popleft_n_short:
  "is_queue q xs \<Longrightarrow> int (length xs) < n \<Longrightarrow> popleft_n n q = Inl AssertionError"
  by (auto simp: popleft_n_def is_queue_def)

lemma link_all_spec:
  assumes "distinct (p # bs)"
  shows "fst (link_all p bs mem) = last (p # bs) \<and> linked (snd (link_all p bs mem)) (p # bs) \<and>
    (\<forall>c. c \<notin> set (butlast (p # bs)) \<longrightarrow>
       kb_next_free_block (snd (link_all p bs mem) c) = kb_next_free_block (mem c)) \<and>
    (\<forall>c. c \<notin> set bs \<longrightarrow>
       kb_prev_free_block (snd (link_all p bs mem) c) = kb_prev_free_block (mem c)) \<and>
    (\<forall>c. data_of (snd (link_all p bs mem) c) = data_of (mem c))"
  using assms
proof (induction bs arbitrary: p mem)
  case (Cons b bs)
  have "p \<notin> set (butlast (b # bs))" using Cons.prems by (meson distinct.simps(2) in_set_butlastD)
  then have "kb_next_free_block (snd (link_all b bs (link p b mem)) p) = Some b"
    using Cons.IH [of b "link p b mem"] Cons.prems by simp
  then show ?case using Cons.IH [of b "link p b mem"] Cons.prems by auto
qed simp

lemma last_notin_butlast: "distinct xs \<Longrightarrow> last xs \<notin> set (butlast xs)"
  by (cases xs rule: rev_cases) auto

lemma append_n_refines:
  assumes q: "is_queue q xs" and new: "distinct bs" "list_all is_real bs" "set bs \<inter> set xs = {}"
  shows "\<exists>q'. append_n bs q = Inr q' \<and> is_queue q' (xs @ bs) \<and> same_data q q'"
proof (cases "bs = []")
  case True
  then show ?thesis using q by (simp add: append_n_def)
next
  case False
  let ?A = "FakeHead # xs" and ?mem = "fq_mem q"
  define lst where "lst = last ?A"
  define prev mem1 where "prev = fst (link_all lst bs ?mem)" and "mem1 = snd (link_all lst bs ?mem)"
  let ?mem' = "link prev FakeTail mem1"
  let ?q' = "q\<lparr>fq_mem := ?mem', fq_num_free_blocks := fq_num_free_blocks q + int (length bs)\<rparr>"
  have dist: "distinct (?A @ bs @ [FakeTail])"
    using q new by (auto simp: is_queue_def is_real_def list_all_iff)
  have lA: "lst \<in> set ?A" unfolding lst_def by (rule last_in_set) simp
  have nb: "lst \<notin> set bs" "lst \<noteq> FakeTail" using lA dist by auto
  have d: "distinct (lst # bs)" using nb new by simp
  note la = link_all_spec [OF d, of ?mem, folded prev_def mem1_def]
  have prev: "prev = last bs" "prev \<in> set bs" using la False by auto
  have run: "append_n bs q = Inr ?q'"
    using is_queue_tail [OF q] False
    by (simp add: append_n_def lst_def [symmetric] prev_def mem1_def case_prod_beta del: last.simps)
  have "linked ?mem' ?A = linked ?mem ?A"
  proof (rule linked_frame)
    fix c assume c: "c \<in> set (butlast ?A)"
    then have "c \<in> set ?A" by (rule in_set_butlastD)
    moreover have "c \<noteq> lst" using c last_notin_butlast [of ?A] dist by (auto simp: lst_def simp del: butlast.simps last.simps)
    ultimately have "c \<notin> set (lst # bs)" using dist by auto
    moreover have "c \<notin> set (butlast (lst # bs))" using calculation in_set_butlastD by metis
    ultimately show "kb_next_free_block (?mem' c) = kb_next_free_block (?mem c)" using la prev by auto
  next
    fix c assume "c \<in> set (tl ?A)"
    then have "c \<notin> set bs" "c \<noteq> FakeTail" using dist by auto
    then show "kb_prev_free_block (?mem' c) = kb_prev_free_block (?mem c)" using la by simp
  qed
  moreover have "linked ?mem ?A" using q linked_join [of ?A "[FakeTail]"] by (simp add: is_queue_def)
  moreover have "linked ?mem' (lst # bs) = linked mem1 (lst # bs)"
  proof (rule linked_frame)
    fix c assume "c \<in> set (butlast (lst # bs))"
    then show "kb_next_free_block (?mem' c) = kb_next_free_block (mem1 c)"
      using last_notin_butlast [OF d] False prev by auto
  next
    fix c assume "c \<in> set (tl (lst # bs))"
    then show "kb_prev_free_block (?mem' c) = kb_prev_free_block (mem1 c)" using dist by auto
  qed
  ultimately have A: "linked ?mem' ?A" "linked ?mem' (lst # bs)" using la by simp_all
  have "linked ?mem' (?A @ bs)"
    using A linked_join [of ?A bs ?mem'] linked_join [of "[lst]" bs ?mem'] False by (simp add: lst_def)
  then have "linked ?mem' ((?A @ bs) @ [FakeTail])"
    using linked_join [of "?A @ bs" "[FakeTail]" ?mem'] prev(1) False by simp
  moreover have "c \<notin> set (butlast (lst # bs))" "c \<noteq> prev" if "is_real c" "c \<notin> set (xs @ bs)" for c
    using that lA prev(2) in_set_butlastD [of c "lst # bs"] by (auto simp: is_real_def)
  moreover have "FakeTail \<notin> set (butlast (lst # bs))" "FakeTail \<noteq> prev"
    using nb dist prev(2) in_set_butlastD [of FakeTail "lst # bs"] by auto
  ultimately have "is_queue ?q' (xs @ bs)"
    using q la dist new by (auto simp: is_queue_def is_real_def)
  then show ?thesis using run la by (simp add: same_data_def)
qed

lemma append_free_refines:
  assumes "is_queue q xs" "is_real b" "b \<notin> set xs"
  shows "\<exists>q'. append_free b q = Inr q' \<and> is_queue q' (xs @ [b]) \<and> same_data q q'"
proof -
  have "append_free b q = append_n [b] q"
    using is_queue_tail [OF assms(1)] by (simp add: append_free_def append_n_def del: last.simps)
  then show ?thesis using append_n_refines [of q xs "[b]"] assms by simp
qed

lemma prepend_n_refines:
  assumes q: "is_queue q xs" and new: "distinct bs" "list_all is_real bs" "set bs \<inter> set xs = {}"
  shows "\<exists>q'. prepend_n bs q = Inr q' \<and> is_queue q' (bs @ xs) \<and> same_data q q'"
proof (cases "bs = []")
  case True
  then show ?thesis using q by (simp add: prepend_n_def)
next
  case False
  let ?B = "xs @ [FakeTail]" and ?mem = "fq_mem q"
  define frst where "frst = hd ?B"
  define prev mem1 where "prev = fst (link_all FakeHead bs ?mem)" and "mem1 = snd (link_all FakeHead bs ?mem)"
  let ?mem' = "link prev frst mem1"
  let ?q' = "q\<lparr>fq_mem := ?mem', fq_num_free_blocks := fq_num_free_blocks q + int (length bs)\<rparr>"
  have dist: "distinct (FakeHead # bs @ ?B)"
    using q new by (auto simp: is_queue_def is_real_def list_all_iff)
  have fB: "frst \<in> set ?B" unfolding frst_def by (rule hd_in_set) simp
  have d: "distinct (FakeHead # bs)" using dist by simp
  note la = link_all_spec [OF d, of ?mem, folded prev_def mem1_def]
  have prev: "prev = last bs" "prev \<in> set bs" using la False by auto
  have run: "prepend_n bs q = Inr ?q'"
    using is_queue_head [OF q] False
    by (simp add: prepend_n_def frst_def [symmetric] prev_def mem1_def case_prod_beta)
  have "linked ?mem' ?B = linked ?mem ?B"
  proof (rule linked_frame)
    fix c assume "c \<in> set (butlast ?B)"
    then have "c \<notin> set (FakeHead # bs)" using dist by auto
    moreover have "c \<notin> set (butlast (FakeHead # bs))" using calculation in_set_butlastD by metis
    ultimately show "kb_next_free_block (?mem' c) = kb_next_free_block (?mem c)" using la prev by auto
  next
    fix c assume c: "c \<in> set (tl ?B)"
    then have "c \<in> set ?B" "c \<noteq> frst" using dist by (cases ?B; auto simp: frst_def)+
    then show "kb_prev_free_block (?mem' c) = kb_prev_free_block (?mem c)" using la dist by auto
  qed
  moreover have "linked ?mem ?B" using q linked_Cons [of ?mem FakeHead xs] by (simp add: is_queue_def)
  moreover have "linked ?mem' (FakeHead # bs) = linked mem1 (FakeHead # bs)"
  proof (rule linked_frame)
    fix c assume "c \<in> set (butlast (FakeHead # bs))"
    then show "kb_next_free_block (?mem' c) = kb_next_free_block (mem1 c)"
      using last_notin_butlast [OF d] False prev by auto
  next
    fix c assume "c \<in> set (tl (FakeHead # bs))"
    then show "kb_prev_free_block (?mem' c) = kb_prev_free_block (mem1 c)" using dist fB by auto
  qed
  ultimately have B: "linked ?mem' ?B" "linked ?mem' (FakeHead # bs)" using la by simp_all
  then have "linked ?mem' ((FakeHead # bs) @ ?B)"
    using linked_join [of "FakeHead # bs" ?B ?mem'] prev(1) False by (simp add: frst_def)
  moreover have "c \<notin> set (butlast (FakeHead # bs))" "c \<noteq> prev" "c \<noteq> frst"
    if "is_real c" "c \<notin> set (bs @ xs)" for c
    using that fB prev(2) in_set_butlastD [of c "FakeHead # bs"] by (auto simp: is_real_def)
  moreover have "FakeTail \<notin> set (butlast (FakeHead # bs))" "FakeTail \<noteq> prev"
    using dist prev(2) in_set_butlastD [of FakeTail "FakeHead # bs"] by auto
  moreover have "FakeHead \<noteq> frst" "FakeHead \<notin> set bs" using dist fB by auto
  ultimately have "is_queue ?q' (bs @ xs)"
    using q la dist new by (auto simp: is_queue_def is_real_def)
  then show ?thesis using run la by (simp add: same_data_def)
qed

lemma walk_linked:
  assumes "linked mem (xs @ [FakeTail])" "kb_next_free_block (mem FakeTail) = None"
  shows "walk mem (hd (xs @ [FakeTail])) = Some xs"
  using assms
proof (induction xs)
  case Nil
  then show ?case by (simp add: walk.simps)
next
  case (Cons x xs)
  have "kb_next_free_block (mem x) = Some (hd (xs @ [FakeTail]))" "linked mem (xs @ [FakeTail])"
    using Cons.prems linked_Cons [of mem x xs FakeTail] by auto
  then show ?case using Cons by (subst walk.simps) simp
qed

lemma get_all_free_blocks_refines: "is_queue q xs \<Longrightarrow> get_all_free_blocks q = Some (Inr xs)"
  using walk_linked [of "fq_mem q" xs] is_queue_head [of q xs] linked_Cons [of "fq_mem q" FakeHead xs]
  by (simp add: get_all_free_blocks_def is_queue_def)

text \<open>The constructor links the blocks in the order of the list.\<close>

lemma linked_nth:
  "linked mem ys \<longleftrightarrow> (\<forall>i. Suc i < length ys \<longrightarrow>
     kb_next_free_block (mem (ys ! i)) = Some (ys ! Suc i) \<and>
     kb_prev_free_block (mem (ys ! Suc i)) = Some (ys ! i))"
proof (induction mem ys rule: linked.induct)
  case (1 mem a b bs)
  then show ?case by (simp add: All_less_Suc2)
qed auto

lemma init_link_simps:
  "kb_next_free_block (init_link bs k mem c) =
     (if c = bs ! k \<and> Suc k < length bs then Some (bs ! Suc k) else kb_next_free_block (mem c))"
  "kb_prev_free_block (init_link bs k mem c) =
     (if c = bs ! k \<and> 0 < k then Some (bs ! (k - 1)) else kb_prev_free_block (mem c))"
  "c \<noteq> bs ! k \<Longrightarrow> init_link bs k mem c = mem c"
  "data_of (init_link bs k mem c) = data_of (mem c)"
  by (auto simp: init_link_def Let_def set_prev_def set_next_def data_of_def)

lemma init_links:
  assumes d: "distinct bs" and k: "k \<le> length bs"
  shows "(\<forall>i < length bs.
      kb_next_free_block (fold (init_link bs) [0..<k] mem (bs ! i)) =
        (if i < k \<and> Suc i < length bs then Some (bs ! Suc i) else kb_next_free_block (mem (bs ! i))) \<and>
      kb_prev_free_block (fold (init_link bs) [0..<k] mem (bs ! i)) =
        (if i < k \<and> 0 < i then Some (bs ! (i - 1)) else kb_prev_free_block (mem (bs ! i)))) \<and>
    (\<forall>c. c \<notin> set bs \<longrightarrow> fold (init_link bs) [0..<k] mem c = mem c) \<and>
    (\<forall>c. data_of (fold (init_link bs) [0..<k] mem c) = data_of (mem c))"
  using k
proof (induction k)
  case (Suc k)
  have k: "k < length bs" using Suc.prems by simp
  then have eq: "bs ! i = bs ! k \<longleftrightarrow> i = k" if "i < length bs" for i
    using d that by (simp add: nth_eq_iff_index_eq)
  have out: "c \<noteq> bs ! k" if "c \<notin> set bs" for c using that k by auto
  from Suc.IH k show ?case
    by (intro conjI allI impI) (auto simp: init_link_simps eq out less_Suc_eq)
qed simp

lemma new_free_queue_refines:
  assumes d: "distinct bs" "list_all is_real bs"
    and clean: "\<And>b. is_real b \<Longrightarrow> kb_prev_free_block (mem b) = None \<and> kb_next_free_block (mem b) = None"
  shows "is_queue (new_free_queue bs mem) bs \<and>
    (\<forall>b. is_real b \<longrightarrow> data_of (fq_mem (new_free_queue bs mem) b) = data_of (mem b))"
proof -
  let ?m1 = "fold (init_link bs) [0..<length bs] mem"
  let ?m = "fq_mem (new_free_queue bs mem)"
  note il = init_links [OF d(1) order_refl, of mem]
  have real: "bs ! i \<noteq> FakeHead" "bs ! i \<noteq> FakeTail" if "i < length bs" for i
    using d(2) that by (auto simp: list_all_length is_real_def)
  have nf: "FakeHead \<notin> set bs" "FakeTail \<notin> set bs" using d(2) by (auto simp: list_all_iff is_real_def)
  have "kb_next_free_block (?m ((FakeHead # bs @ [FakeTail]) ! i)) = Some ((FakeHead # bs @ [FakeTail]) ! Suc i) \<and>
      kb_prev_free_block (?m ((FakeHead # bs @ [FakeTail]) ! Suc i)) = Some ((FakeHead # bs @ [FakeTail]) ! i)"
    if "Suc i < length (FakeHead # bs @ [FakeTail])" for i
  proof (cases "bs = []")
    case True
    then show ?thesis using that by (simp add: new_free_queue_def)
  next
    case False
    have i: "i \<le> length bs" using that by simp
    have fst: "hd bs = bs ! 0" "last bs = bs ! (length bs - 1)" using False by (simp_all add: hd_conv_nth last_conv_nth)
    have len: "0 < length bs" "length bs - Suc 0 < length bs" using False by auto
    note rl = real(1) [OF len(1), symmetric] real(2) [OF len(1), symmetric]
      real(1) [OF len(2), symmetric] real(2) [OF len(2), symmetric]
    have q: "bs ! a = bs ! c \<longleftrightarrow> a = c" if "a < length bs" "c < length bs" for a c
      using d(1) that by (simp add: nth_eq_iff_index_eq)
    consider "i = 0" | j where "i = Suc j" "Suc j < length bs" | "i = length bs" "0 < i"
      using i by (cases i; cases "i = length bs") auto
    then show ?thesis
    proof cases
      case 1
      then show ?thesis using il real len rl q by (simp add: new_free_queue_def fst nth_append)
    next
      case 2
      then show ?thesis using il real len rl q by (simp add: new_free_queue_def fst nth_append) linarith
    next
      case 3
      then obtain j where "i = Suc j" using gr0_implies_Suc by blast
      then show ?thesis using 3 il real len q by (simp add: new_free_queue_def fst nth_append)
    qed
  qed
  then have "linked ?m (FakeHead # bs @ [FakeTail])" by (simp only: linked_nth) blast
  moreover have "kb_prev_free_block (?m FakeHead) = None \<and> kb_next_free_block (?m FakeTail) = None"
    using nf by (cases "bs = []") (auto simp: new_free_queue_def new_block_def dest: hd_in_set last_in_set)
  moreover have "kb_prev_free_block (?m b) = None \<and> kb_next_free_block (?m b) = None"
    if "is_real b" "b \<notin> set bs" for b
    using that il clean [OF that(1)] hd_in_set [of bs] last_in_set [of bs]
    by (cases "bs = []") (auto simp: new_free_queue_def is_real_def)
  moreover have "data_of (?m b) = data_of (mem b)" if "is_real b" for b
    using that il by (cases "bs = []") (auto simp: new_free_queue_def is_real_def)
  moreover have "fq_num_free_blocks (new_free_queue bs mem) = int (length bs)"
    by (simp add: new_free_queue_def Let_def)
  ultimately show ?thesis using d unfolding is_queue_def by blast
qed

section \<open>The queue as an interface\<close>

text \<open>
  What the block pool relies on: a representation of a duplicate-free list with an
  observation \<open>same\<close> that the queue operations do not disturb.
\<close>

locale free_list =
  fixes rep :: "'q \<Rightarrow> 'b list \<Rightarrow> bool"
    and same :: "'q \<Rightarrow> 'q \<Rightarrow> bool"
    and real :: "'b \<Rightarrow> bool"
    and count :: "'q \<Rightarrow> int"
    and pop_n :: "int \<Rightarrow> 'q \<Rightarrow> ('b list \<times> 'q) res"
    and detach :: "'b \<Rightarrow> 'q \<Rightarrow> 'q res"
    and push_back :: "'b list \<Rightarrow> 'q \<Rightarrow> 'q res"
    and push_front :: "'b list \<Rightarrow> 'q \<Rightarrow> 'q res"
  assumes same_refl: "same q q"
    and same_trans: "same q q1 \<Longrightarrow> same q1 q2 \<Longrightarrow> same q q2"
    and rep_distinct: "rep q xs \<Longrightarrow> distinct xs"
    and rep_count: "rep q xs \<Longrightarrow> count q = int (length xs)"
    and pop_n_ok: "rep q (xs @ ys) \<Longrightarrow>
      \<exists>q'. pop_n (int (length xs)) q = Inr (xs, q') \<and> rep q' ys \<and> same q q'"
    and pop_n_short: "rep q xs \<Longrightarrow> int (length xs) < n \<Longrightarrow> pop_n n q = Inl AssertionError"
    and detach_ok: "rep q (xs @ b # ys) \<Longrightarrow>
      \<exists>q'. detach b q = Inr q' \<and> rep q' (xs @ ys) \<and> same q q'"
    and push_back_ok: "rep q xs \<Longrightarrow> distinct bs \<Longrightarrow> list_all real bs \<Longrightarrow> set bs \<inter> set xs = {} \<Longrightarrow>
      \<exists>q'. push_back bs q = Inr q' \<and> rep q' (xs @ bs) \<and> same q q'"
    and push_front_ok: "rep q xs \<Longrightarrow> distinct bs \<Longrightarrow> list_all real bs \<Longrightarrow> set bs \<inter> set xs = {} \<Longrightarrow>
      \<exists>q'. push_front bs q = Inr q' \<and> rep q' (bs @ xs) \<and> same q q'"
begin

lemma detach_mem:
  assumes "rep q xs" "b \<in> set xs"
  shows "\<exists>q'. detach b q = Inr q' \<and> rep q' (remove1 b xs) \<and> same q q'"
proof -
  obtain us vs where s: "xs = us @ b # vs" "b \<notin> set us" using split_list_first [OF assms(2)] by blast
  then have "remove1 b xs = us @ vs" by (simp add: remove1_append)
  then show ?thesis using detach_ok [of q us b vs] assms(1) s by simp
qed

lemma pop_n_take:
  assumes "rep q xs" "0 \<le> n" "n \<le> count q"
  shows "\<exists>q'. pop_n n q = Inr (take (nat n) xs, q') \<and> rep q' (drop (nat n) xs) \<and> same q q'"
proof -
  have "length (take (nat n) xs) = nat n" using assms rep_count [OF assms(1)] by simp
  then show ?thesis using pop_n_ok [of q "take (nat n) xs" "drop (nat n) xs"] assms by simp
qed

text \<open>The two calls with which blocks are given back.\<close>

lemma give_back:
  assumes "rep q xs" "distinct (us @ hs)" "list_all real (us @ hs)" "set (us @ hs) \<inter> set xs = {}"
  shows "\<exists>q'. rbind (push_front us q) (push_back hs) = Inr q' \<and> rep q' (us @ xs @ hs) \<and> same q q'"
proof -
  obtain q1 where q1: "push_front us q = Inr q1" "rep q1 (us @ xs)" "same q q1"
    using push_front_ok [OF assms(1), of us] assms(2-4) by auto
  moreover have "set hs \<inter> set (us @ xs) = {}" using assms(2,4) by auto
  ultimately show ?thesis
    using push_back_ok [OF q1(2), of hs] assms(2,3) same_trans by fastforce
qed

end

interpretation fl: free_list is_queue same_data is_real fq_num_free_blocks popleft_n remove_free
  append_n prepend_n
proof unfold_locales
  fix q :: free_queue and xs bs
  assume "is_queue q xs" "distinct bs" "list_all is_real bs" "set bs \<inter> set xs = {}"
  then show "\<exists>q'. append_n bs q = Inr q' \<and> is_queue q' (xs @ bs) \<and> same_data q q'"
    and "\<exists>q'. prepend_n bs q = Inr q' \<and> is_queue q' (bs @ xs) \<and> same_data q q'"
    by (simp_all add: append_n_refines prepend_n_refines)
qed (auto simp: popleft_n_refines popleft_n_short remove_free_refines is_queue_num
    intro: same_data_trans, simp add: is_queue_def)

section \<open>Histories of the queue\<close>

datatype queue_call =
    PopLeft
  | PopLeftN int
  | Remove block_ref
  | Append block_ref
  | AppendN "block_ref list"
  | PrependN "block_ref list"

fun queue_op :: "queue_call \<Rightarrow> free_queue \<Rightarrow> (block_ref list \<times> free_queue) res" where
  "queue_op PopLeft q = rbind (popleft q) (\<lambda>(b, q'). Inr ([b], q'))"
| "queue_op (PopLeftN n) q = popleft_n n q"
| "queue_op (Remove b) q = rbind (remove_free b q) (\<lambda>q'. Inr ([], q'))"
| "queue_op (Append b) q = rbind (append_free b q) (\<lambda>q'. Inr ([], q'))"
| "queue_op (AppendN bs) q = rbind (append_n bs q) (\<lambda>q'. Inr ([], q'))"
| "queue_op (PrependN bs) q = rbind (prepend_n bs q) (\<lambda>q'. Inr ([], q'))"

text \<open>The specification: the same calls on a plain list.\<close>

fun list_op :: "queue_call \<Rightarrow> block_ref list \<Rightarrow> (block_ref list \<times> block_ref list) res" where
  "list_op PopLeft [] = Inl ValueError"
| "list_op PopLeft (x # xs) = Inr ([x], xs)"
| "list_op (PopLeftN n) xs =
     (if int (length xs) < n then Inl AssertionError else Inr (take (nat n) xs, drop (nat n) xs))"
| "list_op (Remove b) xs = (if b \<in> set xs then Inr ([], remove1 b xs) else Inl RuntimeError)"
| "list_op (Append b) xs = Inr ([], xs @ [b])"
| "list_op (AppendN bs) xs = Inr ([], xs @ bs)"
| "list_op (PrependN bs) xs = Inr ([], bs @ xs)"

text \<open>Callers count with natural numbers and give back only blocks that are not free.\<close>

fun legal_op :: "queue_call \<Rightarrow> block_ref list \<Rightarrow> bool" where
  "legal_op PopLeft xs \<longleftrightarrow> True"
| "legal_op (PopLeftN n) xs \<longleftrightarrow> 0 \<le> n"
| "legal_op (Remove b) xs \<longleftrightarrow> is_real b"
| "legal_op (Append b) xs \<longleftrightarrow> is_real b \<and> b \<notin> set xs"
| "legal_op (AppendN bs) xs \<longleftrightarrow> distinct bs \<and> list_all is_real bs \<and> set bs \<inter> set xs = {}"
| "legal_op (PrependN bs) xs \<longleftrightarrow> distinct bs \<and> list_all is_real bs \<and> set bs \<inter> set xs = {}"

fun queue_run :: "queue_call list \<Rightarrow> free_queue \<Rightarrow> (block_ref list \<times> free_queue) res" where
  "queue_run [] q = Inr ([], q)"
| "queue_run (x # xs) q =
     rbind (queue_op x q) (\<lambda>(out, q'). rbind (queue_run xs q') (\<lambda>(outs, q''). Inr (out @ outs, q'')))"

fun list_run :: "queue_call list \<Rightarrow> block_ref list \<Rightarrow> (block_ref list \<times> block_ref list) res" where
  "list_run [] ys = Inr ([], ys)"
| "list_run (x # xs) ys =
     rbind (list_op x ys) (\<lambda>(out, ys'). rbind (list_run xs ys') (\<lambda>(outs, ys''). Inr (out @ outs, ys'')))"

fun legal_run :: "queue_call list \<Rightarrow> block_ref list \<Rightarrow> bool" where
  "legal_run [] ys \<longleftrightarrow> True"
| "legal_run (x # xs) ys \<longleftrightarrow>
     legal_op x ys \<and> (case list_op x ys of Inl _ \<Rightarrow> True | Inr (_, ys') \<Rightarrow> legal_run xs ys')"

lemma remove_free_absent:
  "is_queue q xs \<Longrightarrow> is_real b \<Longrightarrow> b \<notin> set xs \<Longrightarrow> remove_free b q = Inl RuntimeError"
  by (simp add: is_queue_def remove_free_def)

lemma queue_op_refines:
  assumes q: "is_queue q xs" and legal: "legal_op x xs"
  shows "case list_op x xs of
      Inl e \<Rightarrow> queue_op x q = Inl e
    | Inr (out, ys) \<Rightarrow> \<exists>q'. queue_op x q = Inr (out, q') \<and> is_queue q' ys"
proof (cases x)
  case PopLeft
  then show ?thesis using q popleft_empty [of q] popleft_refines [of q]
    by (cases xs) fastforce+
next
  case (PopLeftN n)
  then show ?thesis using q legal fl.pop_n_take [OF q, of n] fl.pop_n_short [OF q, of n] fl.rep_count [OF q]
    by (auto simp: not_less)
next
  case (Remove b)
  then show ?thesis using q legal fl.detach_mem [OF q, of b] remove_free_absent [OF q, of b] by auto
next
  case (Append b)
  then show ?thesis using append_free_refines [OF q, of b] legal by auto
next
  case (AppendN bs)
  then show ?thesis using fl.push_back_ok [OF q, of bs] legal by auto
next
  case (PrependN bs)
  then show ?thesis using fl.push_front_ok [OF q, of bs] legal by auto
qed

lemma queue_run_refines:
  assumes "is_queue q xs" "legal_run ops xs"
  shows "case list_run ops xs of
      Inl e \<Rightarrow> queue_run ops q = Inl e
    | Inr (out, ys) \<Rightarrow> \<exists>q'. queue_run ops q = Inr (out, q') \<and> is_queue q' ys"
  using assms
proof (induction ops arbitrary: q xs)
  case (Cons x ops)
  have op: "case list_op x xs of Inl e \<Rightarrow> queue_op x q = Inl e
    | Inr (out, ys) \<Rightarrow> \<exists>q'. queue_op x q = Inr (out, q') \<and> is_queue q' ys"
    using queue_op_refines Cons.prems by simp
  show ?case
  proof (cases "list_op x xs")
    case (Inr p)
    obtain out ys where p: "p = (out, ys)" by (cases p)
    obtain q' where q': "queue_op x q = Inr (out, q')" "is_queue q' ys" using op Inr p by auto
    have "legal_run ops ys" using Cons.prems(2) Inr p by simp
    from Cons.IH [OF q'(2) this] show ?thesis using q'(1) Inr p
      by (auto split: sum.splits)
  qed (use op in simp)
qed simp

text \<open>Claim C34.  The doubly linked list implements a plain list: for every sequence of calls on a
  fresh queue that respects the callers' obligations, the blocks returned, the error raised by
  the first failing call, the blocks left in the queue in order, and the counter are those of
  the same calls on the list of the blocks.\<close>

theorem free_queue_implements_list:
  assumes "distinct bs" "list_all is_real bs" and "legal_run ops bs"
    and "\<forall>b. is_real b \<longrightarrow> kb_prev_free_block (mem b) = None \<and> kb_next_free_block (mem b) = None"
  shows "case list_run ops bs of
      Inl e \<Rightarrow> queue_run ops (new_free_queue bs mem) = Inl e
    | Inr (out, ys) \<Rightarrow> \<exists>q. queue_run ops (new_free_queue bs mem) = Inr (out, q) \<and>
        get_all_free_blocks q = Some (Inr ys) \<and> fq_num_free_blocks q = int (length ys)"
proof -
  have "is_queue (new_free_queue bs mem) bs" using new_free_queue_refines assms by blast
  from queue_run_refines [OF this assms(3)] show ?thesis
    using get_all_free_blocks_refines is_queue_num by (fastforce split: sum.splits)
qed

theorem free_queue_implements_list_witness:
  "\<exists>q. queue_run [PopLeftN 2, Remove (Blk 3), Append (Blk 0), PrependN [Blk 3, Blk 1], PopLeft]
       (new_free_queue [Blk 0, Blk 1, Blk 2, Blk 3] (\<lambda>_. new_block 0))
     = Inr ([Blk 0, Blk 1, Blk 3], q) \<and>
     get_all_free_blocks q = Some (Inr [Blk 1, Blk 2, Blk 0]) \<and> fq_num_free_blocks q = 3"
  using free_queue_implements_list [of "[Blk 0, Blk 1, Blk 2, Blk 3]"
      "[PopLeftN 2, Remove (Blk 3), Append (Blk 0), PrependN [Blk 3, Blk 1], PopLeft]"
      "\<lambda>_. new_block 0"]
  by (simp add: is_real_def new_block_def)

end
