(* ===== verification/BlockHash.thy ===== *)
theory BlockHash
  imports FreeQueue
begin

text \<open>
  Block hashes of \<^verbatim>\<open>vllm/v1/core/kv_cache_utils.py\<close>: packing a hash with its group id, the
  extra keys of a block, the chained hash of a block, the incremental hasher of a request, the
  change of granularity and the choice of the block sizes.

  The caching hash function, \<open>NONE_HASH\<close> and SHA-256 are the fields of a \<open>hash_env\<close>: nothing
  is assumed of them in the definitions.
\<close>

section \<open>Hashes with a group id\<close>

text \<open>\<open>int.to_bytes(4, "big", signed=False)\<close> and \<open>int.from_bytes(_, "big")\<close>.\<close>

definition to_bytes_4 :: "int \<Rightarrow> bytes res" where
  "to_bytes_4 n =
     (if n < 0 \<or> 2 ^ 32 \<le> n then Inl OverflowError
      else Inr [word_of_int (n div 2 ^ 24), word_of_int (n div 2 ^ 16),
                word_of_int (n div 2 ^ 8), word_of_int n])"

definition from_bytes :: "bytes \<Rightarrow> int" where
  "from_bytes bs = foldl (\<lambda>n b. n * 256 + uint b) 0 bs"

definition make_block_hash_with_group_id :: "bytes \<Rightarrow> int \<Rightarrow> bytes res" where
  "make_block_hash_with_group_id block_hash group_id =
     rbind (to_bytes_4 group_id) (\<lambda>suffix. Inr (block_hash @ suffix))"

definition get_block_hash :: "bytes \<Rightarrow> bytes" where
  "get_block_hash key = py_slice 0 (- 4) key"

definition get_group_id :: "bytes \<Rightarrow> int" where
  "get_group_id key = from_bytes (py_slice_from (- 4) key)"

datatype external_block_hash = ExtBytes bytes | ExtInt int

definition maybe_convert_block_hash :: "bool \<Rightarrow> bytes \<Rightarrow> external_block_hash" where
  "maybe_convert_block_hash use_int_block_hashes hash_bytes =
     (if \<not> use_int_block_hashes then ExtBytes hash_bytes
      else ExtInt (from_bytes hash_bytes mod 2 ^ 64))"

section \<open>Extra keys\<close>

datatype extra_key = KeyStr string | KeyMM string int | KeyBytes bytes

type_synonym hash_input = "bytes \<times> nat list \<times> extra_key list option"

record hash_env =
  he_hash_function :: "hash_input \<Rightarrow> bytes"
  he_none_hash :: bytes
  he_sha256 :: "bytes \<Rightarrow> bytes"

text \<open>\<open>init_none_hash\<close>: the seed variable of the environment, or 32 random bytes.\<close>

definition init_none_hash :: "(string \<Rightarrow> bytes) \<Rightarrow> string option \<Rightarrow> bytes \<Rightarrow> bytes" where
  "init_none_hash hash_fn hash_seed urandom_32 =
     (case hash_seed of None \<Rightarrow> urandom_32 | Some seed \<Rightarrow> hash_fn seed)"

definition need_extra_keys :: "request \<Rightarrow> bool" where
  "need_extra_keys r \<longleftrightarrow>
     rq_mm_features r \<noteq> [] \<or> rq_lora_name r \<noteq> None \<or> rq_cache_salt r \<noteq> None"

function gen_mm_loop :: "mm_feature list \<Rightarrow> nat \<Rightarrow> nat \<Rightarrow> nat \<Rightarrow> extra_key list \<times> nat" where
  "gen_mm_loop mm_features start_token_idx end_token_idx curr_mm_idx =
     (if curr_mm_idx < length mm_features then
        let f = mm_features ! curr_mm_idx;
            offset = mf_offset f;
            len = mf_length f;
            key = KeyMM (mf_identifier f) (offset - int start_token_idx)
        in
          if int end_token_idx > offset then
            if int start_token_idx \<ge> offset + len
            then gen_mm_loop mm_features start_token_idx end_token_idx (curr_mm_idx + 1)
            else if int end_token_idx \<ge> offset + len
            then (let (keys', idx) =
                        gen_mm_loop mm_features start_token_idx end_token_idx (curr_mm_idx + 1)
                  in (key # keys', idx))
            else ([key], curr_mm_idx)
          else ([], curr_mm_idx)
      else ([], curr_mm_idx))"
  by auto
termination by (relation "measure (\<lambda>(fs, _, _, i). length fs - i)") auto

definition gen_mm_extra_hash_keys ::
  "request \<Rightarrow> nat \<Rightarrow> nat \<Rightarrow> int \<Rightarrow> (extra_key list \<times> int) res" where
  "gen_mm_extra_hash_keys r start_token_idx end_token_idx start_mm_idx =
     (let mm_features = rq_mm_features r in
      if mm_features = [] then Inr ([], start_mm_idx)
      else if mf_offset (last mm_features) + mf_length (last mm_features) \<le> int start_token_idx
      then Inr ([], start_mm_idx)
      else if start_mm_idx < 0 \<and> - start_mm_idx > int (length mm_features)
      then Inl AssertionError
      else
        let idx = (if start_mm_idx < 0 then int (length mm_features) + start_mm_idx
                   else start_mm_idx);
            (keys', idx') = gen_mm_loop mm_features start_token_idx end_token_idx (nat idx)
        in Inr (keys', int idx'))"

definition gen_lora_extra_hash_keys :: "request \<Rightarrow> extra_key list" where
  "gen_lora_extra_hash_keys r = (case rq_lora_name r of None \<Rightarrow> [] | Some n \<Rightarrow> [KeyStr n])"

definition cache_salt_keys :: "request \<Rightarrow> nat \<Rightarrow> extra_key list" where
  "cache_salt_keys r start_token_idx =
     (case rq_cache_salt r of None \<Rightarrow> []
      | Some s \<Rightarrow> if start_token_idx = 0 \<and> s \<noteq> [] then [KeyStr s] else [])"

definition gen_prompt_embeds_extra_hash_keys ::
  "hash_env \<Rightarrow> request \<Rightarrow> nat \<Rightarrow> nat \<Rightarrow> extra_key list \<times> request" where
  "gen_prompt_embeds_extra_hash_keys env r start_token_idx end_token_idx =
     (case rq_prompt_embeds r of
        None \<Rightarrow> ([], r)
      | Some embeds \<Rightarrow>
          let block_range = (start_token_idx, end_token_idx) in
          case map_of (rq_prompt_embeds_per_block_hashes r) block_range of
            Some embeds_hash \<Rightarrow> ([KeyBytes embeds_hash], r)
          | None \<Rightarrow>
              let embeds_hash =
                    he_sha256 env (concat (drop start_token_idx (take end_token_idx embeds)))
              in ([KeyBytes embeds_hash],
                  r\<lparr>rq_prompt_embeds_per_block_hashes :=
                      AList.update block_range embeds_hash
                        (rq_prompt_embeds_per_block_hashes r)\<rparr>))"

definition generate_block_hash_extra_keys ::
  "hash_env \<Rightarrow> request \<Rightarrow> nat \<Rightarrow> nat \<Rightarrow> int
     \<Rightarrow> (extra_key list option \<times> int \<times> request) res" where
  "generate_block_hash_extra_keys env r start_token_idx end_token_idx start_mm_idx =
     rbind (gen_mm_extra_hash_keys r start_token_idx end_token_idx start_mm_idx)
       (\<lambda>(mm_extra_keys, new_start_mm_idx).
         let (prompt_embeds_keys, r') =
               gen_prompt_embeds_extra_hash_keys env r start_token_idx end_token_idx;
             extra_keys = gen_lora_extra_hash_keys r @ mm_extra_keys
                          @ cache_salt_keys r start_token_idx @ prompt_embeds_keys
         in Inr (if extra_keys = [] then None else Some extra_keys, new_start_mm_idx, r'))"

section \<open>Hashes of blocks\<close>

definition hash_block_tokens ::
  "hash_env \<Rightarrow> bytes option \<Rightarrow> nat list \<Rightarrow> extra_key list option \<Rightarrow> bytes" where
  "hash_block_tokens env parent_block_hash curr_block_token_ids extra_keys =
     (let parent = (case parent_block_hash of
                      None \<Rightarrow> he_none_hash env
                    | Some p \<Rightarrow> if p = [] then he_none_hash env else p)
      in he_hash_function env (parent, curr_block_token_ids, extra_keys))"

text \<open>
  The \<open>while True\<close> loop of the hasher.  It does not end for a block size of 0, so it is a
  partial function; that it ends for a positive size is \<open>hash_loop_closed\<close>.
\<close>

partial_function (option) hash_loop ::
  "hash_env \<Rightarrow> nat \<Rightarrow> nat \<Rightarrow> bytes option \<Rightarrow> int \<Rightarrow> request \<Rightarrow> (bytes list \<times> request) res option"
where
  "hash_loop env hash_block_size start_token_idx prev curr_mm_idx r =
     (if start_token_idx + hash_block_size > rq_num_tokens r then Some (Inr ([], r))
      else case generate_block_hash_extra_keys env r start_token_idx
                  (start_token_idx + hash_block_size) curr_mm_idx of
        Inl e \<Rightarrow> Some (Inl e)
      | Inr (extra_keys, curr_mm_idx', r') \<Rightarrow>
          let block_tokens = drop start_token_idx
                (take (start_token_idx + hash_block_size) (rq_all_token_ids r'));
              block_hash = hash_block_tokens env prev block_tokens extra_keys
          in Option.bind
               (hash_loop env hash_block_size (start_token_idx + hash_block_size)
                 (Some block_hash) curr_mm_idx' r')
               (\<lambda>rest. Some (rbind rest (\<lambda>(hashes, r''). Inr (block_hash # hashes, r'')))))"

definition request_block_hasher ::
  "hash_env \<Rightarrow> nat \<Rightarrow> request \<Rightarrow> (bytes list \<times> request) res option" where
  "request_block_hasher env hash_block_size r =
     (let start_token_idx = length (rq_block_hashes r) * hash_block_size in
      if start_token_idx + hash_block_size > rq_num_tokens r then Some (Inr ([], r))
      else hash_loop env hash_block_size start_token_idx
             (if rq_block_hashes r = [] then None else Some (last (rq_block_hashes r)))
             (if 0 < start_token_idx then - 1 else 0) r)"

definition update_block_hashes :: "hash_env \<Rightarrow> nat \<Rightarrow> request \<Rightarrow> request res option" where
  "update_block_hashes env hash_block_size r =
     map_option (\<lambda>out. rbind out (\<lambda>(hashes, r').
        Inr (r'\<lparr>rq_block_hashes := rq_block_hashes r' @ hashes\<rparr>)))
       (request_block_hasher env hash_block_size r)"

definition append_output_token_ids ::
  "hash_env \<Rightarrow> nat \<Rightarrow> nat list \<Rightarrow> request \<Rightarrow> request res option" where
  "append_output_token_ids env hash_block_size token_ids r =
     update_block_hashes env hash_block_size
       (r\<lparr>rq_output_token_ids := rq_output_token_ids r @ token_ids,
          rq_all_token_ids := rq_all_token_ids r @ token_ids\<rparr>)"

text \<open>The part of \<open>Request.__init__\<close> that the development needs.\<close>

definition init_request ::
  "hash_env \<Rightarrow> nat \<Rightarrow> string \<Rightarrow> nat list option \<Rightarrow> bytes list option \<Rightarrow> mm_feature list
     \<Rightarrow> string option \<Rightarrow> string option \<Rightarrow> int \<Rightarrow> rat \<Rightarrow> bool \<Rightarrow> bool \<Rightarrow> request res option" where
  "init_request env hash_block_size request_id prompt_token_ids prompt_embeds mm_features
       lora_name cache_salt priority arrival_time skip_reading_prefix_cache resumable =
     (case prompt_length prompt_token_ids prompt_embeds of
        Inl e \<Rightarrow> Some (Inl e)
      | Inr n \<Rightarrow> update_block_hashes env hash_block_size
          \<lparr>rq_request_id = request_id, rq_priority = priority, rq_arrival_time = arrival_time,
           rq_last_activity_time = arrival_time, rq_kv_cache_state = HOT, rq_status = WAITING,
           rq_prompt_token_ids = prompt_token_ids, rq_prompt_embeds = prompt_embeds,
           rq_prompt_embeds_per_block_hashes = [], rq_num_prompt_tokens = n,
           rq_output_token_ids = [],
           rq_all_token_ids = (case prompt_token_ids of None \<Rightarrow> replicate n 0 | Some t \<Rightarrow> t),
           rq_num_output_placeholders = 0, rq_num_computed_tokens = 0, rq_spec_token_ids = [],
           rq_cache_salt = cache_salt, rq_lora_name = lora_name, rq_mm_features = mm_features,
           rq_num_preemptions = 0, rq_block_hashes = [],
           rq_skip_reading_prefix_cache = skip_reading_prefix_cache,
           rq_resumable = resumable\<rparr>)"

section \<open>Change of granularity\<close>

record block_hash_list =
  bl_block_hashes :: "bytes list"
  bl_scale_factor :: int

definition new_block_hash_list :: "bytes list \<Rightarrow> int \<Rightarrow> int \<Rightarrow> block_hash_list res" where
  "new_block_hash_list block_hashes hash_block_size target_block_size =
     (if hash_block_size = 0 then Inl ZeroDivisionError
      else if target_block_size mod hash_block_size \<noteq> 0 then Inl AssertionError
      else Inr \<lparr>bl_block_hashes = block_hashes,
                bl_scale_factor = target_block_size div hash_block_size\<rparr>)"

definition bl_len :: "block_hash_list \<Rightarrow> int" where
  "bl_len l = int (length (bl_block_hashes l)) div bl_scale_factor l"

definition get_value_at :: "block_hash_list \<Rightarrow> int \<Rightarrow> bytes res" where
  "get_value_at l idx = list_index (bl_block_hashes l) ((idx + 1) * bl_scale_factor l - 1)"

text \<open>\<open>__iter__\<close>, and \<open>__getitem__\<close> on a slice with its indices already normalised.\<close>

definition bl_range :: "block_hash_list \<Rightarrow> int \<Rightarrow> int \<Rightarrow> bytes list res" where
  "bl_range l start stop = rmap (get_value_at l) [start..stop - 1]"

definition bl_iter :: "block_hash_list \<Rightarrow> bytes list res" where
  "bl_iter l = bl_range l 0 (bl_len l)"

section \<open>Block sizes\<close>

record cache_sizes =
  cs_block_size :: nat
  cs_dcp :: nat
  cs_pcp :: nat
  cs_groups :: "(nat \<times> bool) list"
  cs_connector_enabled :: bool
  cs_enable_prefix_caching :: bool
  cs_hash_block_size :: "nat option"

text \<open>A group is its block size and whether its specification is a \<open>MambaSpec\<close>.\<close>

definition resolve_kv_cache_block_sizes :: "cache_sizes \<Rightarrow> (nat \<times> nat) res" where
  "resolve_kv_cache_block_sizes c =
     (if length (cs_groups c) \<le> 1
      then let bs = cs_block_size c * cs_dcp c * cs_pcp c in Inr (bs, bs)
      else if cs_dcp c \<noteq> 1 \<or> cs_pcp c \<noteq> 1 then Inl ValueError
      else
        let group_block_sizes = map fst (cs_groups c);
            scheduler_block_size = foldr lcm group_block_sizes 1
        in
          if \<not> (cs_enable_prefix_caching c \<or> cs_connector_enabled c)
          then Inr (scheduler_block_size, scheduler_block_size)
          else if list_ex (\<lambda>(bs, mamba). mamba \<and> bs \<noteq> cs_block_size c) (cs_groups c)
          then Inr (scheduler_block_size, scheduler_block_size)
          else
            let hash_block_size =
                  (case cs_hash_block_size c of
                     Some requested \<Rightarrow> requested
                   | None \<Rightarrow> foldr gcd group_block_sizes 0)
            in if hash_block_size = 0 then Inl ZeroDivisionError
               else if list_ex (\<lambda>bs. bs mod hash_block_size \<noteq> 0) group_block_sizes
               then Inl ValueError
               else Inr (scheduler_block_size, hash_block_size))"

section \<open>Round trip of the packed key\<close>

lemma to_bytes_4_length: "to_bytes_4 n = Inr s \<Longrightarrow> length s = 4"
  by (auto simp: to_bytes_4_def split: if_splits)

lemma from_bytes_to_bytes_4:
  assumes "to_bytes_4 n = Inr s" shows "from_bytes s = n"
proof -
  have n: "0 \<le> n" "n < 4294967296" and s: "s = [word_of_int (n div 2 ^ 24), word_of_int (n div 2 ^ 16),
                word_of_int (n div 2 ^ 8), word_of_int n]"
    using assms by (auto simp: to_bytes_4_def split: if_splits)
  have "from_bytes s = ((n div 16777216 mod 256 * 256 + n div 65536 mod 256) * 256
      + n div 256 mod 256) * 256 + n mod 256"
    unfolding s by (simp add: from_bytes_def uint_word_of_int)
  moreover define a where "a = n div 256"
  moreover define b where "b = a div 256"
  moreover define c where "c = b div 256"
  moreover have "n div 65536 = b" "n div 16777216 = c"
    unfolding a_def b_def c_def by (simp_all add: zdiv_zmult2_eq [symmetric])
  moreover have "n = a * 256 + n mod 256" "a = b * 256 + a mod 256" "b = c * 256 + b mod 256"
    unfolding a_def b_def c_def by simp_all
  moreover have "c mod 256 = c"
    using n unfolding calculation(6) [symmetric] by (intro mod_pos_pos_trivial) auto
  ultimately show ?thesis by presburger
qed

lemma packed_key_parts:
  assumes "make_block_hash_with_group_id h g = Inr key"
  shows "get_block_hash key = h \<and> get_group_id key = g"
proof -
  obtain s where s: "to_bytes_4 g = Inr s" and key: "key = h @ s"
    using assms by (auto simp: make_block_hash_with_group_id_def res_simps)
  have len: "length s = 4" by (rule to_bytes_4_length [OF s])
  show ?thesis
    using from_bytes_to_bytes_4 [OF s]
    by (simp add: key get_block_hash_def get_group_id_def py_slice_def py_slice_from_def py_bound_def len)
qed

section \<open>The multi-modal keys are those of the overlapping items\<close>

definition mm_end :: "mm_feature \<Rightarrow> int" where
  "mm_end f = mf_offset f + mf_length f"

text \<open>Items are non-empty, disjoint and in the order of their positions.\<close>

definition mm_sorted :: "mm_feature list \<Rightarrow> bool" where
  "mm_sorted fs \<longleftrightarrow>
     sorted_wrt (\<lambda>f g. mm_end f \<le> mf_offset g) fs \<and> list_all (\<lambda>f. 0 < mf_length f) fs"

definition overlaps :: "nat \<Rightarrow> nat \<Rightarrow> mm_feature \<Rightarrow> bool" where
  "overlaps s e f \<longleftrightarrow> mf_offset f < int e \<and> int s < mm_end f"

definition mm_keys :: "mm_feature list \<Rightarrow> nat \<Rightarrow> nat \<Rightarrow> extra_key list" where
  "mm_keys fs s e =
     map (\<lambda>f. KeyMM (mf_identifier f) (mf_offset f - int s)) (filter (overlaps s e) fs)"

lemma mm_sorted_nth:
  "mm_sorted fs \<Longrightarrow> i < j \<Longrightarrow> j < length fs \<Longrightarrow> mm_end (fs ! i) \<le> mf_offset (fs ! j)"
  by (simp add: mm_sorted_def sorted_wrt_iff_nth_less)

lemma mm_sorted_pos: "mm_sorted fs \<Longrightarrow> i < length fs \<Longrightarrow> mf_offset (fs ! i) < mm_end (fs ! i)"
  by (simp add: mm_sorted_def mm_end_def list_all_length)

lemma mm_keys_drop_none:
  "(\<And>k. i \<le> k \<Longrightarrow> k < length fs \<Longrightarrow> int e \<le> mf_offset (fs ! k)) \<Longrightarrow> mm_keys (drop i fs) s e = []"
proof -
  assume far: "\<And>k. i \<le> k \<Longrightarrow> k < length fs \<Longrightarrow> int e \<le> mf_offset (fs ! k)"
  have "\<not> overlaps s e f" if f: "f \<in> set (drop i fs)" for f
  proof -
    obtain k where "k < length (drop i fs)" "drop i fs ! k = f"
      using f unfolding in_set_conv_nth by blast
    moreover from this have "i + k < length fs" by simp
    ultimately show ?thesis using far [of "i + k"] by (auto simp: overlaps_def)
  qed
  then show ?thesis by (simp add: mm_keys_def filter_False)
qed

lemma mm_keys_Cons:
  "i < length fs \<Longrightarrow> mm_keys (drop i fs) s e =
     (if overlaps s e (fs ! i)
      then [KeyMM (mf_identifier (fs ! i)) (mf_offset (fs ! i) - int s)] else [])
     @ mm_keys (drop (Suc i) fs) s e"
  by (simp add: mm_keys_def Cons_nth_drop_Suc [symmetric])

lemma mm_sorted_later:
  assumes "mm_sorted fs" "i < k" "k < length fs" "int e \<le> mm_end (fs ! i)"
  shows "int e \<le> mf_offset (fs ! k)"
  using mm_sorted_nth [OF assms(1-3)] assms(4) by linarith

declare gen_mm_loop.simps [simp del]

lemma upto_split:
  "\<forall>k. i + 1 \<le> k \<and> k < n \<longrightarrow> P k \<Longrightarrow> P i \<Longrightarrow> \<forall>k. i \<le> k \<and> k < n \<longrightarrow> P k" for i n :: nat
  by (metis Suc_eq_plus1 Suc_leI order_le_imp_less_or_eq)

lemma gen_mm_loop_spec:
  assumes "mm_sorted fs" "s \<le> e" "i \<le> length fs"
  shows "fst (gen_mm_loop fs s e i) = mm_keys (drop i fs) s e \<and>
    snd (gen_mm_loop fs s e i) \<le> length fs \<and> i \<le> snd (gen_mm_loop fs s e i) \<and>
    (\<forall>k. i \<le> k \<and> k < snd (gen_mm_loop fs s e i) \<longrightarrow> mm_end (fs ! k) \<le> int e)"
  using assms
proof (induction fs s e i rule: gen_mm_loop.induct)
  case (1 fs s e i)
  let ?f = "fs ! i" and ?rest = "gen_mm_loop fs s e (i + 1)"
  have unf: "gen_mm_loop fs s e i = (if i < length fs then
        if int e > mf_offset ?f then
            if int s \<ge> mm_end ?f then ?rest
            else if int e \<ge> mm_end ?f
            then (KeyMM (mf_identifier ?f) (mf_offset ?f - int s) # fst ?rest, snd ?rest)
            else ([KeyMM (mf_identifier ?f) (mf_offset ?f - int s)], i)
          else ([], i) else ([], i))"
    by (subst gen_mm_loop.simps) (simp add: Let_def mm_end_def case_prod_beta)
  consider "i = length fs" | "i < length fs" "int e \<le> mf_offset ?f"
    | "i < length fs" "mf_offset ?f < int e" "mm_end ?f \<le> int s"
    | "i < length fs" "mf_offset ?f < int e" "int s < mm_end ?f" "mm_end ?f \<le> int e"
    | "i < length fs" "mf_offset ?f < int e" "int s < mm_end ?f" "int e < mm_end ?f"
    using "1.prems"(3) by linarith
  then show ?case
  proof cases
    case 1
    then have "gen_mm_loop fs s e i = ([], i)" by (subst unf) simp
    then show ?thesis using 1 by (simp add: mm_keys_def)
  next
    case 2
    have "int e \<le> mf_offset (fs ! k)" if "i \<le> k" "k < length fs" for k
    proof (cases "i = k")
      case False
      then have "i < k" using that by simp
      moreover have "int e \<le> mm_end ?f" using 2 mm_sorted_pos [OF "1.prems"(1) 2(1)] by simp
      ultimately show ?thesis using mm_sorted_later [OF "1.prems"(1) _ that(2)] by simp
    qed (use 2 in simp)
    moreover have "gen_mm_loop fs s e i = ([], i)" using 2 by (subst unf) simp
    ultimately show ?thesis using 2 by (simp add: mm_keys_drop_none)
  next
    case 3
    note IH = "1.IH"(1) [OF 3(1) refl refl refl refl]
    have "fst ?rest = mm_keys (drop (i + 1) fs) s e \<and> snd ?rest \<le> length fs \<and> i + 1 \<le> snd ?rest \<and>
        (\<forall>k. i + 1 \<le> k \<and> k < snd ?rest \<longrightarrow> mm_end (fs ! k) \<le> int e)"
      using IH 3 "1.prems" by (simp add: mm_end_def)
    moreover have "mm_end ?f \<le> int e" using 3 "1.prems"(2) by simp
    ultimately have rest: "fst ?rest = mm_keys (drop (i + 1) fs) s e" "snd ?rest \<le> length fs"
        "i + 1 \<le> snd ?rest" and ends: "\<forall>k. i \<le> k \<and> k < snd ?rest \<longrightarrow> mm_end (fs ! k) \<le> int e"
      using upto_split [of i "snd ?rest" "\<lambda>k. mm_end (fs ! k) \<le> int e"] by blast+
    have "mm_keys (drop i fs) s e = mm_keys (drop (i + 1) fs) s e"
      using 3 mm_keys_Cons [OF 3(1)] by (simp add: overlaps_def)
    moreover have "gen_mm_loop fs s e i = ?rest" using 3 by (subst unf) simp
    ultimately show ?thesis using rest ends by simp
  next
    case 4
    note IH = "1.IH"(2) [OF 4(1) refl refl refl refl]
    have "fst ?rest = mm_keys (drop (i + 1) fs) s e \<and> snd ?rest \<le> length fs \<and> i + 1 \<le> snd ?rest \<and>
        (\<forall>k. i + 1 \<le> k \<and> k < snd ?rest \<longrightarrow> mm_end (fs ! k) \<le> int e)"
      using IH 4 "1.prems" by (simp add: mm_end_def)
    then have rest: "fst ?rest = mm_keys (drop (i + 1) fs) s e" "snd ?rest \<le> length fs"
        "i + 1 \<le> snd ?rest" and ends: "\<forall>k. i \<le> k \<and> k < snd ?rest \<longrightarrow> mm_end (fs ! k) \<le> int e"
      using 4(4) upto_split [of i "snd ?rest" "\<lambda>k. mm_end (fs ! k) \<le> int e"] by blast+
    have "mm_keys (drop i fs) s e =
        KeyMM (mf_identifier ?f) (mf_offset ?f - int s) # mm_keys (drop (i + 1) fs) s e"
      using 4 mm_keys_Cons [OF 4(1)] by (simp add: overlaps_def)
    moreover have "gen_mm_loop fs s e i =
        (KeyMM (mf_identifier ?f) (mf_offset ?f - int s) # fst ?rest, snd ?rest)"
      using 4 by (subst unf) simp
    ultimately show ?thesis using rest ends by simp
  next
    case 5
    have "int e \<le> mf_offset (fs ! k)" if "Suc i \<le> k" "k < length fs" for k
      using mm_sorted_later [OF "1.prems"(1) _ that(2), of i e] that 5 by simp
    then have "mm_keys (drop (Suc i) fs) s e = []" by (rule mm_keys_drop_none)
    then show ?thesis using 5 by (simp add: unf mm_keys_Cons overlaps_def)
  qed
qed

text \<open>A start index is right for a block when every item it skips ended before the block.\<close>

definition mm_start_ok :: "mm_feature list \<Rightarrow> int \<Rightarrow> nat \<Rightarrow> bool" where
  "mm_start_ok fs mm s \<longleftrightarrow>
     fs = [] \<or>
     - int (length fs) \<le> mm \<and> mm \<le> int (length fs) \<and>
     (\<forall>i < length fs. int i < (if mm < 0 then int (length fs) + mm else mm) \<longrightarrow>
        mm_end (fs ! i) \<le> int s)"

lemma mm_keys_skip:
  assumes "\<forall>k < i. mm_end (fs ! k) \<le> int s" "i \<le> length fs"
  shows "mm_keys fs s e = mm_keys (drop i fs) s e"
proof -
  have "filter (overlaps s e) (take i fs) = []"
    using assms by (fastforce simp: filter_empty_conv overlaps_def in_set_conv_nth)
  then have "filter (overlaps s e) fs = filter (overlaps s e) (drop i fs)"
    by (metis append_Nil append_take_drop_id filter_append)
  then show ?thesis by (simp add: mm_keys_def)
qed

lemma gen_mm_extra_hash_keys_spec:
  assumes "mm_sorted (rq_mm_features r)" "s \<le> e" "mm_start_ok (rq_mm_features r) mm s"
  shows "\<exists>mm'. gen_mm_extra_hash_keys r s e mm = Inr (mm_keys (rq_mm_features r) s e, mm') \<and>
    mm_start_ok (rq_mm_features r) mm' e"
proof -
  let ?fs = "rq_mm_features r"
  let ?i = "nat (if mm < 0 then int (length ?fs) + mm else mm)"
  consider "?fs = []" | "?fs \<noteq> []" "mm_end (last ?fs) \<le> int s" | "?fs \<noteq> []" "int s < mm_end (last ?fs)"
    by linarith
  then show ?thesis
  proof cases
    case 1
    then show ?thesis by (simp add: gen_mm_extra_hash_keys_def mm_keys_def mm_start_ok_def)
  next
    case 2
    have all: "mm_end (?fs ! k) \<le> int s" if "k < length ?fs" for k
    proof (cases "k = length ?fs - 1")
      case False
      then have "mm_end (?fs ! k) \<le> mf_offset (last ?fs)"
        using mm_sorted_nth [OF assms(1), of k "length ?fs - 1"] that 2(1) by (simp add: last_conv_nth)
      moreover have "mf_offset (last ?fs) < mm_end (last ?fs)"
        using mm_sorted_pos [OF assms(1), of "length ?fs - 1"] 2(1) by (simp add: last_conv_nth)
      ultimately show ?thesis using 2(2) by simp
    qed (use 2 in \<open>simp add: last_conv_nth\<close>)
    then have "mm_keys ?fs s e = []"
      using mm_keys_skip [of "length ?fs" ?fs s e] by (simp add: mm_keys_def)
    moreover have "mm_end (?fs ! k) \<le> int e" if "k < length ?fs" for k
      using all [OF that] assms(2) by simp
    then have "mm_start_ok ?fs mm e" using assms(3) by (auto simp: mm_start_ok_def)
    ultimately show ?thesis using 2 by (simp add: gen_mm_extra_hash_keys_def mm_end_def Let_def)
  next
    case 3
    have i: "?i \<le> length ?fs" "\<forall>k < ?i. mm_end (?fs ! k) \<le> int s"
      using assms(3) 3(1) by (auto simp: mm_start_ok_def)
    obtain ks j where l: "gen_mm_loop ?fs s e ?i = (ks, j)" by fastforce
    have ks: "ks = mm_keys ?fs s e" and j: "j \<le> length ?fs"
      and upto: "\<forall>k. ?i \<le> k \<and> k < j \<longrightarrow> mm_end (?fs ! k) \<le> int e"
      using gen_mm_loop_spec [OF assms(1,2) i(1)] mm_keys_skip [OF i(2,1)] l by simp_all
    have "mm_end (?fs ! k) \<le> int e" if "k < j" for k
      using i(2) upto that assms(2) by (cases "k < ?i") fastforce+
    then have "mm_start_ok ?fs (int j) e" using j by (simp add: mm_start_ok_def)
    moreover have "gen_mm_extra_hash_keys r s e mm = Inr (ks, int j)"
      using 3 assms(3) l by (auto simp: gen_mm_extra_hash_keys_def Let_def mm_end_def mm_start_ok_def)
    ultimately show ?thesis using ks by blast
  qed
qed

section \<open>The hashes without state\<close>

definition embeds_keys :: "hash_env \<Rightarrow> request \<Rightarrow> nat \<Rightarrow> nat \<Rightarrow> extra_key list" where
  "embeds_keys env r s e =
     (case rq_prompt_embeds r of None \<Rightarrow> []
      | Some rows \<Rightarrow> [KeyBytes (he_sha256 env (concat (drop s (take e rows))))])"

definition block_extra :: "hash_env \<Rightarrow> request \<Rightarrow> nat \<Rightarrow> nat \<Rightarrow> extra_key list option" where
  "block_extra env r s e =
     (let ks = gen_lora_extra_hash_keys r @ mm_keys (rq_mm_features r) s e
               @ cache_salt_keys r s @ embeds_keys env r s e
      in if ks = [] then None else Some ks)"

definition block_tokens :: "request \<Rightarrow> nat \<Rightarrow> nat \<Rightarrow> nat list" where
  "block_tokens r n i = drop (i * n) (take (i * n + n) (rq_all_token_ids r))"

definition parent_bytes :: "hash_env \<Rightarrow> bytes option \<Rightarrow> bytes" where
  "parent_bytes env p =
     (case p of None \<Rightarrow> he_none_hash env | Some b \<Rightarrow> if b = [] then he_none_hash env else b)"

text \<open>The input and the value of the hash of block \<open>i\<close>, straight from tokens and extra keys.\<close>

fun chain_input :: "hash_env \<Rightarrow> request \<Rightarrow> nat \<Rightarrow> nat \<Rightarrow> hash_input" where
  "chain_input env r n 0 = (he_none_hash env, block_tokens r n 0, block_extra env r 0 n)"
| "chain_input env r n (Suc i) =
     (parent_bytes env (Some (he_hash_function env (chain_input env r n i))),
      block_tokens r n (Suc i), block_extra env r (Suc i * n) (Suc i * n + n))"

definition chain_hash :: "hash_env \<Rightarrow> request \<Rightarrow> nat \<Rightarrow> nat \<Rightarrow> bytes" where
  "chain_hash env r n i = he_hash_function env (chain_input env r n i)"

definition chain_prev :: "hash_env \<Rightarrow> request \<Rightarrow> nat \<Rightarrow> nat \<Rightarrow> bytes option" where
  "chain_prev env r n i = (if i = 0 then None else Some (chain_hash env r n (i - 1)))"

definition memo_ok :: "hash_env \<Rightarrow> request \<Rightarrow> bool" where
  "memo_ok env r \<longleftrightarrow>
     (\<forall>rows s e h. rq_prompt_embeds r = Some rows \<longrightarrow>
        map_of (rq_prompt_embeds_per_block_hashes r) (s, e) = Some h \<longrightarrow>
        h = he_sha256 env (concat (drop s (take e rows))))"

definition same_but_memo :: "request \<Rightarrow> request \<Rightarrow> bool" where
  "same_but_memo r r' \<longleftrightarrow> (\<exists>m. r' = r\<lparr>rq_prompt_embeds_per_block_hashes := m\<rparr>)"

lemma same_but_memo_refl [simp]: "same_but_memo r r"
  unfolding same_but_memo_def by (rule exI [of _ "rq_prompt_embeds_per_block_hashes r"]) simp

lemma same_but_memo_update [simp]: "same_but_memo r (r\<lparr>rq_prompt_embeds_per_block_hashes := m\<rparr>)"
  unfolding same_but_memo_def by blast

lemma same_but_memo_trans: "same_but_memo r r' \<Longrightarrow> same_but_memo r' r'' \<Longrightarrow> same_but_memo r r''"
  by (auto simp: same_but_memo_def)

lemma same_but_memo_fields:
  assumes "same_but_memo r r'"
  shows "rq_all_token_ids r' = rq_all_token_ids r" "rq_mm_features r' = rq_mm_features r"
    "rq_block_hashes r' = rq_block_hashes r" "rq_num_tokens r' = rq_num_tokens r"
    "block_extra env r' s e = block_extra env r s e"
    "chain_input env r' n i = chain_input env r n i"
proof -
  obtain m where m: "r' = r\<lparr>rq_prompt_embeds_per_block_hashes := m\<rparr>"
    using assms by (auto simp: same_but_memo_def)
  have x: "block_extra env r' s e = block_extra env r s e" for s e
    by (simp add: m block_extra_def gen_lora_extra_hash_keys_def cache_salt_keys_def embeds_keys_def)
  show "chain_input env r' n i = chain_input env r n i"
    by (induction i) (simp_all add: x, simp_all add: m block_tokens_def)
qed (use assms in \<open>auto simp: same_but_memo_def rq_num_tokens_def block_extra_def
    gen_lora_extra_hash_keys_def cache_salt_keys_def embeds_keys_def\<close>)

lemma hash_block_tokens_chain:
  "hash_block_tokens env (chain_prev env r n i) (block_tokens r n i) (block_extra env r (i * n) (i * n + n))
     = chain_hash env r n i"
  by (cases i) (simp_all add: hash_block_tokens_def chain_prev_def chain_hash_def parent_bytes_def Let_def)

lemma gen_prompt_embeds_spec:
  assumes "memo_ok env r"
  shows "fst (gen_prompt_embeds_extra_hash_keys env r s e) = embeds_keys env r s e \<and>
    same_but_memo r (snd (gen_prompt_embeds_extra_hash_keys env r s e)) \<and>
    memo_ok env (snd (gen_prompt_embeds_extra_hash_keys env r s e))"
  using assms
  by (auto simp: gen_prompt_embeds_extra_hash_keys_def embeds_keys_def memo_ok_def Let_def
      split: option.splits)

lemma generate_extra_spec:
  assumes "mm_sorted (rq_mm_features r)" "memo_ok env r" "s \<le> e" "mm_start_ok (rq_mm_features r) mm s"
  shows "\<exists>mm' r'. generate_block_hash_extra_keys env r s e mm = Inr (block_extra env r s e, mm', r') \<and>
    mm_start_ok (rq_mm_features r) mm' e \<and> same_but_memo r r' \<and> memo_ok env r'"
proof -
  obtain mm' where "gen_mm_extra_hash_keys r s e mm = Inr (mm_keys (rq_mm_features r) s e, mm')"
    "mm_start_ok (rq_mm_features r) mm' e"
    using gen_mm_extra_hash_keys_spec [OF assms(1,3,4)] by blast
  then show ?thesis using gen_prompt_embeds_spec [OF assms(2), of s e]
    by (cases "gen_prompt_embeds_extra_hash_keys env r s e")
      (simp add: generate_block_hash_extra_keys_def block_extra_def Let_def)
qed

lemma hash_loop_closed:
  assumes "0 < n" "mm_sorted (rq_mm_features r)" "memo_ok env r" "mm_start_ok (rq_mm_features r) mm (k * n)"
  shows "\<exists>r'. hash_loop env n (k * n) (chain_prev env r n k) mm r =
      Some (Inr (map (chain_hash env r n) [k..<rq_num_tokens r div n], r')) \<and>
    same_but_memo r r' \<and> memo_ok env r'"
  using assms(2-)
proof (induction "rq_num_tokens r div n - k" arbitrary: k mm r)
  case 0
  then have "rq_num_tokens r div n \<le> k" by simp
  then have "rq_num_tokens r < k * n + n"
    using assms(1) by (metis add.commute div_less_iff_less_mult less_Suc_eq_le mult_Suc)
  then show ?case using 0 by (subst hash_loop.simps) simp
next
  case (Suc d)
  then have k: "k < rq_num_tokens r div n" by simp
  then have len: "\<not> rq_num_tokens r < k * n + n"
    using assms(1) by (metis Suc_leI add.commute less_eq_div_iff_mult_less_eq mult_Suc not_less)
  obtain mm' r1 where gen: "generate_block_hash_extra_keys env r (k * n) (k * n + n) mm =
      Inr (block_extra env r (k * n) (k * n + n), mm', r1)"
    and mm': "mm_start_ok (rq_mm_features r) mm' (k * n + n)"
    and r1: "same_but_memo r r1" "memo_ok env r1"
    using generate_extra_spec [OF Suc.prems(1,2) _ Suc.prems(3), of "k * n + n"] by auto
  note f = same_but_memo_fields [OF r1(1)]
  have ch: "chain_hash env r1 n = chain_hash env r n" by (rule ext) (simp add: chain_hash_def f)
  have "d = rq_num_tokens r1 div n - Suc k" using Suc.hyps(2) f by simp
  moreover have "mm_start_ok (rq_mm_features r1) mm' (Suc k * n)" using mm' f by (simp add: add.commute)
  ultimately obtain r2 where
    rec: "hash_loop env n (Suc k * n) (chain_prev env r1 n (Suc k)) mm' r1 =
      Some (Inr (map (chain_hash env r1 n) [Suc k..<rq_num_tokens r1 div n], r2))"
    and r2: "same_but_memo r1 r2" "memo_ok env r2"
    using Suc.hyps(1) [of r1 "Suc k" mm'] Suc.prems(1) f r1(2) by auto
  have prev: "chain_prev env r1 n (Suc k) = Some (chain_hash env r n k)"
    by (simp add: chain_prev_def ch)
  have val: "hash_block_tokens env (chain_prev env r n k)
      (drop (k * n) (take (k * n + n) (rq_all_token_ids r))) (block_extra env r (k * n) (k * n + n))
      = chain_hash env r n k"
    using hash_block_tokens_chain [of env r n k] by (simp add: block_tokens_def)
  have idx: "k * n + n = Suc k * n" by simp
  have "hash_loop env n (k * n) (chain_prev env r n k) mm r =
      Some (Inr (chain_hash env r n k # map (chain_hash env r n) [Suc k..<rq_num_tokens r div n], r2))"
    using len rec by (subst hash_loop.simps) (simp add: gen f val prev ch Let_def add.commute [of n])
  moreover have "chain_hash env r n k # map (chain_hash env r n) [Suc k..<rq_num_tokens r div n]
      = map (chain_hash env r n) [k..<rq_num_tokens r div n]" using k by (simp add: upt_conv_Cons)
  ultimately show ?case using r2 r1(1) same_but_memo_trans by fastforce
qed

section \<open>Incremental hashing\<close>

definition hashes_current :: "hash_env \<Rightarrow> nat \<Rightarrow> request \<Rightarrow> bool" where
  "hashes_current env n r \<longleftrightarrow>
     rq_block_hashes r = map (chain_hash env r n) [0..<rq_num_tokens r div n]"

text \<open>Every item but the last one lies in the hashed prefix.\<close>

definition mm_covered :: "request \<Rightarrow> nat \<Rightarrow> bool" where
  "mm_covered r s \<longleftrightarrow>
     (\<forall>i. Suc i < length (rq_mm_features r) \<longrightarrow> mm_end (rq_mm_features r ! i) \<le> int s)"

lemma update_block_hashes_spec:
  assumes n: "0 < n" and mm: "mm_sorted (rq_mm_features r)" and memo: "memo_ok env r"
    and pre: "rq_block_hashes r = map (chain_hash env r n) [0..<k]" "k \<le> rq_num_tokens r div n"
    and cov: "0 < k \<Longrightarrow> mm_covered r (k * n)"
  shows "\<exists>r'. update_block_hashes env n r = Some (Inr r') \<and>
    same_but_memo (r\<lparr>rq_block_hashes := map (chain_hash env r n) [0..<rq_num_tokens r div n]\<rparr>) r' \<and>
    memo_ok env r'"
proof (cases "k * n + n > rq_num_tokens r")
  case True
  have "rq_num_tokens r div n < Suc k" using True n by (simp add: div_less_iff_less_mult add.commute)
  then have "rq_num_tokens r div n = k" using pre(2) by simp
  then have "r\<lparr>rq_block_hashes := map (chain_hash env r n) [0..<rq_num_tokens r div n]\<rparr> = r"
    using pre(1) by simp
  moreover have "update_block_hashes env n r = Some (Inr r)"
    using True pre(1) by (simp add: update_block_hashes_def request_block_hasher_def Let_def)
  ultimately show ?thesis using memo by simp
next
  case False
  let ?mm = "if 0 < k * n then - 1 else 0 :: int"
  have prev: "(if rq_block_hashes r = [] then None else Some (last (rq_block_hashes r))) = chain_prev env r n k"
    using pre(1) by (cases k) (simp_all add: chain_prev_def)
  have "mm_start_ok (rq_mm_features r) ?mm (k * n)"
    using cov n by (auto simp: mm_start_ok_def mm_covered_def) (simp add: Suc_le_eq)
  from hash_loop_closed [OF n mm memo this] obtain r1 where
    loop: "hash_loop env n (k * n) (chain_prev env r n k) ?mm r =
      Some (Inr (map (chain_hash env r n) [k..<rq_num_tokens r div n], r1))"
    and r1: "same_but_memo r r1" "memo_ok env r1" by blast
  have "[0..<k] @ [k..<rq_num_tokens r div n] = [0..<rq_num_tokens r div n]"
    using pre(2) by (metis le_add_diff_inverse upt_add_eq_append zero_le)
  then have app: "map (chain_hash env r n) [0..<k] @ map (chain_hash env r n) [k..<rq_num_tokens r div n]
      = map (chain_hash env r n) [0..<rq_num_tokens r div n]" by (simp flip: map_append)
  have "request_block_hasher env n r = Some (Inr (map (chain_hash env r n) [k..<rq_num_tokens r div n], r1))"
    using False loop unfolding request_block_hasher_def Let_def prev by (simp add: pre(1))
  then have "update_block_hashes env n r =
      Some (Inr (r1\<lparr>rq_block_hashes := map (chain_hash env r n) [0..<rq_num_tokens r div n]\<rparr>))"
    using same_but_memo_fields(3) [OF r1(1)] pre(1) app by (simp add: update_block_hashes_def)
  moreover obtain m where m: "r1 = r\<lparr>rq_prompt_embeds_per_block_hashes := m\<rparr>"
    using r1(1) by (auto simp: same_but_memo_def)
  moreover have "same_but_memo (r\<lparr>rq_block_hashes := h\<rparr>) (r1\<lparr>rq_block_hashes := h\<rparr>)" for h
    unfolding same_but_memo_def by (rule exI [of _ m]) (simp add: m)
  ultimately show ?thesis using r1(2) by (auto simp: memo_ok_def)
qed

lemma chain_input_append:
  assumes "i * n + n \<le> rq_num_tokens r"
  shows "chain_input env (r\<lparr>rq_output_token_ids := out, rq_all_token_ids := rq_all_token_ids r @ ts\<rparr>) n i
    = chain_input env r n i"
proof -
  let ?r = "r\<lparr>rq_output_token_ids := out, rq_all_token_ids := rq_all_token_ids r @ ts\<rparr>"
  have x: "block_extra env ?r s e = block_extra env r s e" for s e
    by (simp add: block_extra_def gen_lora_extra_hash_keys_def cache_salt_keys_def embeds_keys_def)
  have t: "block_tokens ?r n j = block_tokens r n j" if "j * n + n \<le> rq_num_tokens r" for j
    using that by (simp add: block_tokens_def rq_num_tokens_def)
  show ?thesis using assms
  proof (induction i)
    case (Suc i)
    then show ?case using t [of "Suc i"] by (simp add: x)
  qed (use t [of 0] in \<open>simp add: x\<close>)
qed

lemma div_block_fits: "0 < n \<Longrightarrow> i < m div n \<Longrightarrow> i * n + n \<le> m" for n :: nat
  by (metis Suc_leI add.commute less_eq_div_iff_mult_less_eq mult_Suc)

lemma append_output_spec:
  assumes n: "0 < n" and mm: "mm_sorted (rq_mm_features r)" and memo: "memo_ok env r"
    and cur: "hashes_current env n r"
    and cov: "mm_covered r (rq_num_tokens r div n * n)"
  shows "\<exists>r'. append_output_token_ids env n ts r = Some (Inr r') \<and> hashes_current env n r' \<and>
    memo_ok env r' \<and> rq_mm_features r' = rq_mm_features r \<and>
    rq_all_token_ids r' = rq_all_token_ids r @ ts"
proof -
  let ?r = "r\<lparr>rq_output_token_ids := rq_output_token_ids r @ ts, rq_all_token_ids := rq_all_token_ids r @ ts\<rparr>"
  let ?k = "rq_num_tokens r div n"
  have eq: "chain_hash env ?r n i = chain_hash env r n i" if "i < ?k" for i
    using chain_input_append [OF div_block_fits [OF n that]] by (simp add: chain_hash_def)
  have pre: "rq_block_hashes ?r = map (chain_hash env ?r n) [0..<?k]"
    using cur eq by (simp add: hashes_current_def)
  have le: "?k \<le> rq_num_tokens ?r div n" by (simp add: rq_num_tokens_def div_le_mono)
  have memo': "memo_ok env ?r" using memo by (simp add: memo_ok_def)
  have cov': "mm_covered ?r (?k * n)" using cov by (simp add: mm_covered_def)
  obtain r' where r': "update_block_hashes env n ?r = Some (Inr r')" "memo_ok env r'"
    "same_but_memo (?r\<lparr>rq_block_hashes := map (chain_hash env ?r n) [0..<rq_num_tokens ?r div n]\<rparr>) r'"
    using update_block_hashes_spec [OF n _ memo' pre le cov'] mm by auto
  note f = same_but_memo_fields [OF r'(3)]
  have x: "block_extra env (?r\<lparr>rq_block_hashes := h\<rparr>) s e = block_extra env ?r s e" for s e h
    by (simp add: block_extra_def gen_lora_extra_hash_keys_def cache_salt_keys_def embeds_keys_def)
  have "chain_input env (?r\<lparr>rq_block_hashes := h\<rparr>) n i = chain_input env ?r n i" for h i
    by (induction i) (simp_all add: x, simp_all add: block_tokens_def)
  then have "hashes_current env n r'"
    using f by (simp add: hashes_current_def chain_hash_def rq_num_tokens_def)
  then show ?thesis using r' f by (simp add: append_output_token_ids_def)
qed

text \<open>A request with its outputs appended chunk by chunk.\<close>

inductive output_history :: "hash_env \<Rightarrow> nat \<Rightarrow> request \<Rightarrow> request \<Rightarrow> bool" for env n r0 where
  history_init: "output_history env n r0 r0"
| history_append: "output_history env n r0 r \<Longrightarrow>
    append_output_token_ids env n ts r = Some (Inr r') \<Longrightarrow> output_history env n r0 r'"

lemma init_request_spec:
  assumes n: "0 < n" and mm: "mm_sorted fs"
    and run: "init_request env n rid toks emb fs lora salt prio t skip resum = Some (Inr r)"
  shows "hashes_current env n r \<and> memo_ok env r \<and> rq_mm_features r = fs"
proof -
  obtain m where m: "prompt_length toks emb = Inr m"
    using run by (auto simp: init_request_def split: sum.splits)
  define r0 where "r0 =
          \<lparr>rq_request_id = rid, rq_priority = prio, rq_arrival_time = t,
           rq_last_activity_time = t, rq_kv_cache_state = HOT, rq_status = WAITING,
           rq_prompt_token_ids = toks, rq_prompt_embeds = emb,
           rq_prompt_embeds_per_block_hashes = [], rq_num_prompt_tokens = m,
           rq_output_token_ids = [],
           rq_all_token_ids = (case toks of None \<Rightarrow> replicate m 0 | Some t \<Rightarrow> t),
           rq_num_output_placeholders = 0, rq_num_computed_tokens = 0, rq_spec_token_ids = [],
           rq_cache_salt = salt, rq_lora_name = lora, rq_mm_features = fs,
           rq_num_preemptions = 0, rq_block_hashes = [],
           rq_skip_reading_prefix_cache = skip, rq_resumable = resum\<rparr>"
  have run': "update_block_hashes env n r0 = Some (Inr r)"
    using run m by (simp add: init_request_def r0_def)
  have "\<exists>r'. update_block_hashes env n r0 = Some (Inr r') \<and>
    same_but_memo (r0\<lparr>rq_block_hashes := map (chain_hash env r0 n) [0..<rq_num_tokens r0 div n]\<rparr>) r' \<and>
    memo_ok env r'"
    using mm by (intro update_block_hashes_spec [OF n, where k = 0]) (simp_all add: r0_def memo_ok_def)
  then have s: "same_but_memo (r0\<lparr>rq_block_hashes := map (chain_hash env r0 n) [0..<rq_num_tokens r0 div n]\<rparr>) r"
    and memo: "memo_ok env r" using run' by auto
  note f = same_but_memo_fields [OF s]
  have x: "block_extra env (r0\<lparr>rq_block_hashes := h\<rparr>) s e = block_extra env r0 s e" for s e h
    by (simp add: block_extra_def gen_lora_extra_hash_keys_def cache_salt_keys_def embeds_keys_def)
  have "chain_input env (r0\<lparr>rq_block_hashes := h\<rparr>) n i = chain_input env r0 n i" for h i
    by (induction i) (simp_all add: x, simp_all add: block_tokens_def)
  then have "hashes_current env n r"
    using f by (simp add: hashes_current_def chain_hash_def rq_num_tokens_def)
  then show ?thesis using memo f by (simp add: r0_def)
qed

lemma output_history_spec:
  assumes n: "0 < n" and mm: "mm_sorted (rq_mm_features r0)" and memo: "memo_ok env r0"
    and cur: "hashes_current env n r0" and cov: "mm_covered r0 (rq_num_tokens r0 div n * n)"
    and hist: "output_history env n r0 r"
  shows "hashes_current env n r \<and> memo_ok env r \<and> rq_mm_features r = rq_mm_features r0 \<and>
    mm_covered r (rq_num_tokens r div n * n) \<and> rq_num_tokens r0 \<le> rq_num_tokens r"
  using hist
proof (induction rule: output_history.induct)
  case history_init
  then show ?case using cur memo cov by simp
next
  case (history_append r ts r')
  have "mm_sorted (rq_mm_features r)" using history_append mm by simp
  from append_output_spec [OF n this, of env ts] history_append
  have r': "hashes_current env n r'" "memo_ok env r'" "rq_mm_features r' = rq_mm_features r"
    "rq_all_token_ids r' = rq_all_token_ids r @ ts" by auto
  have "rq_num_tokens r div n * n \<le> rq_num_tokens r' div n * n"
    using r'(4) by (simp add: rq_num_tokens_def div_le_mono)
  then have "int (rq_num_tokens r div n * n) \<le> int (rq_num_tokens r' div n * n)" by (simp only: of_nat_le_iff)
  then have "mm_covered r' (rq_num_tokens r' div n * n)"
    using history_append.IH r'(3) unfolding mm_covered_def by (metis order_trans)
  then show ?case using history_append.IH r' by (simp add: rq_num_tokens_def)
qed

section \<open>What equal hashes mean\<close>

text \<open>A set of inputs on which the hash function has no collision and never yields a value the
  code treats as "no parent".\<close>

definition collision_free :: "hash_env \<Rightarrow> hash_input set \<Rightarrow> bool" where
  "collision_free env S \<longleftrightarrow>
     inj_on (he_hash_function env) S \<and>
     (\<forall>x \<in> S. he_hash_function env x \<noteq> [] \<and> he_hash_function env x \<noteq> he_none_hash env)"

lemma block_tokens_take: "take (i * n) ts @ drop (i * n) (take (i * n + n) ts) = take (i * n + n) ts"
  by (metis append_take_drop_id le_add1 min.absorb1 take_take)

lemma chain_hash_inject:
  assumes "collision_free env S"
    and "\<forall>k \<le> i. chain_input env r n k \<in> S" and "\<forall>k \<le> j. chain_input env r' n k \<in> S"
    and "chain_hash env r n i = chain_hash env r' n j"
  shows "i = j \<and> take (i * n + n) (rq_all_token_ids r) = take (i * n + n) (rq_all_token_ids r') \<and>
    (\<forall>k \<le> i. block_extra env r (k * n) (k * n + n) = block_extra env r' (k * n) (k * n + n))"
  using assms(2-)
proof (induction i arbitrary: j)
  case 0
  have eq: "chain_input env r n 0 = chain_input env r' n j"
    using assms(1) 0 unfolding collision_free_def chain_hash_def inj_on_def by blast
  show ?case
  proof (cases j)
    case (Suc j')
    have "chain_input env r' n j' \<in> S" using 0(2) Suc by simp
    then have "parent_bytes env (Some (chain_hash env r' n j')) \<noteq> he_none_hash env"
      using assms(1) by (simp add: collision_free_def parent_bytes_def chain_hash_def)
    then show ?thesis using eq by (simp add: Suc chain_hash_def)
  qed (use eq in \<open>simp add: block_tokens_def\<close>)
next
  case (Suc i)
  have eq: "chain_input env r n (Suc i) = chain_input env r' n j"
    using assms(1) Suc.prems unfolding collision_free_def chain_hash_def inj_on_def by blast
  have pi: "parent_bytes env (Some (chain_hash env r n i)) = chain_hash env r n i"
    "chain_hash env r n i \<noteq> he_none_hash env"
    using assms(1) Suc.prems(1) by (auto simp: collision_free_def parent_bytes_def chain_hash_def)
  show ?case
  proof (cases j)
    case 0
    then show ?thesis using eq pi by (simp add: chain_hash_def)
  next
    case Suc': (Suc j')
    have "chain_input env r' n j' \<in> S" using Suc.prems(2) Suc' by simp
    then have "parent_bytes env (Some (chain_hash env r' n j')) = chain_hash env r' n j'"
      using assms(1) by (auto simp: collision_free_def parent_bytes_def chain_hash_def)
    then have par: "chain_hash env r n i = chain_hash env r' n j'"
      using eq pi by (simp add: Suc' chain_hash_def)
    have IH: "i = j' \<and> take (i * n + n) (rq_all_token_ids r) = take (i * n + n) (rq_all_token_ids r') \<and>
        (\<forall>k \<le> i. block_extra env r (k * n) (k * n + n) = block_extra env r' (k * n) (k * n + n))"
      using Suc.prems(1,2) Suc' by (intro Suc.IH [OF _ _ par]) auto
    then have tok: "block_tokens r n (Suc i) = block_tokens r' n (Suc i)"
      and ext: "block_extra env r (Suc i * n) (Suc i * n + n) = block_extra env r' (Suc i * n) (Suc i * n + n)"
      using eq Suc' by simp_all
    have "take (Suc i * n) (rq_all_token_ids r) = take (Suc i * n) (rq_all_token_ids r')"
      using IH by (metis add.commute mult_Suc)
    then have "take (Suc i * n + n) (rq_all_token_ids r) = take (Suc i * n + n) (rq_all_token_ids r')"
      using tok block_tokens_take [of "Suc i" n] unfolding block_tokens_def by metis
    then show ?thesis using IH ext Suc' by (auto simp: le_Suc_eq)
  qed
qed

section \<open>Granularity and block sizes\<close>

lemma get_value_at_nat:
  assumes "new_block_hash_list hs n t = Inr l" "0 < n" "0 < t" "0 \<le> i" "i < bl_len l"
  shows "get_value_at l i = Inr (hs ! nat ((i + 1) * (t div n) - 1)) \<and>
    nat ((i + 1) * (t div n) - 1) < length hs"
proof -
  have l: "bl_block_hashes l = hs" "bl_scale_factor l = t div n" and d: "t mod n = 0"
    using assms(1) by (auto simp: new_block_hash_list_def split: if_splits)
  then have sc: "0 < t div n" using assms(2,3)
    by (metis div_mult_mod_eq add.right_neutral mult_zero_left zero_less_mult_pos2)
  let ?k = "t div n" and ?L = "int (length hs)"
  have "i + 1 \<le> ?L div ?k" using assms(5) by (simp add: bl_len_def l)
  then have "(i + 1) * ?k \<le> ?L div ?k * ?k" using sc by (intro mult_right_mono) simp_all
  also have "\<dots> \<le> ?L"
    using div_mult_mod_eq [of ?L ?k] pos_mod_sign [OF sc, of ?L] by linarith
  finally have "(i + 1) * ?k \<le> ?L" .
  moreover have "0 < (i + 1) * ?k" using sc assms(4) by (intro mult_pos_pos) simp_all
  ultimately show ?thesis by (simp add: get_value_at_def l list_index_def nat_less_iff)
qed

lemma foldr_lcm_dvd: "x \<in> set xs \<Longrightarrow> x dvd foldr lcm xs (1 :: nat)"
  by (induction xs) (auto intro: dvd_trans [OF _ dvd_lcm2])

lemma foldr_lcm_least: "(\<And>x. x \<in> set xs \<Longrightarrow> x dvd m) \<Longrightarrow> foldr lcm xs (1 :: nat) dvd m"
  by (induction xs) auto

lemma foldr_gcd_dvd: "x \<in> set xs \<Longrightarrow> foldr gcd xs (0 :: nat) dvd x"
  by (induction xs) (auto intro: dvd_trans [OF gcd_dvd2])

lemma init_request_total:
  assumes "0 < n" "mm_sorted fs" "prompt_length toks emb = Inr m"
  shows "\<exists>r. init_request env n rid toks emb fs lora salt prio t skip resum = Some (Inr r) \<and>
    rq_all_token_ids r = (case toks of None \<Rightarrow> replicate m 0 | Some t \<Rightarrow> t)"
proof -
  define r0 where "r0 =
          \<lparr>rq_request_id = rid, rq_priority = prio, rq_arrival_time = t,
           rq_last_activity_time = t, rq_kv_cache_state = HOT, rq_status = WAITING,
           rq_prompt_token_ids = toks, rq_prompt_embeds = emb,
           rq_prompt_embeds_per_block_hashes = [], rq_num_prompt_tokens = m,
           rq_output_token_ids = [],
           rq_all_token_ids = (case toks of None \<Rightarrow> replicate m 0 | Some t \<Rightarrow> t),
           rq_num_output_placeholders = 0, rq_num_computed_tokens = 0, rq_spec_token_ids = [],
           rq_cache_salt = salt, rq_lora_name = lora, rq_mm_features = fs,
           rq_num_preemptions = 0, rq_block_hashes = [],
           rq_skip_reading_prefix_cache = skip, rq_resumable = resum\<rparr>"
  have "\<exists>r. update_block_hashes env n r0 = Some (Inr r) \<and>
    same_but_memo (r0\<lparr>rq_block_hashes := map (chain_hash env r0 n) [0..<rq_num_tokens r0 div n]\<rparr>) r \<and>
    memo_ok env r"
    using assms(2) by (intro update_block_hashes_spec [OF assms(1), where k = 0]) (simp_all add: r0_def memo_ok_def)
  then show ?thesis using assms(3) by (auto simp: init_request_def r0_def same_but_memo_def)
qed

section \<open>Properties\<close>

text \<open>Claim C36.  Packing a block hash with a group id fails exactly when the id does not fit four
  unsigned bytes, and otherwise both parts are recovered from the packed key, so two packed
  keys are equal only when both parts are.\<close>

theorem packed_key_round_trip:
  "case make_block_hash_with_group_id h g of
     Inl e \<Rightarrow> e = OverflowError \<and> (g < 0 \<or> 2 ^ 32 \<le> g)
   | Inr key \<Rightarrow> 0 \<le> g \<and> g < 2 ^ 32 \<and> get_block_hash key = h \<and> get_group_id key = g"
proof (cases "make_block_hash_with_group_id h g")
  case (Inl e)
  then show ?thesis
    by (auto simp: make_block_hash_with_group_id_def to_bytes_4_def res_simps split: if_splits)
next
  case (Inr key)
  then have "0 \<le> g \<and> g < 2 ^ 32"
    by (auto simp: make_block_hash_with_group_id_def to_bytes_4_def res_simps split: if_splits)
  then show ?thesis using packed_key_parts [OF Inr] Inr by simp
qed


definition demo_request :: "nat list \<Rightarrow> mm_feature list \<Rightarrow> bytes list \<Rightarrow> request" where
  "demo_request toks fs hashes =
     \<lparr>rq_request_id = ''r'', rq_priority = 0, rq_arrival_time = 0, rq_last_activity_time = 0,
      rq_kv_cache_state = HOT, rq_status = WAITING, rq_prompt_token_ids = Some toks,
      rq_prompt_embeds = None, rq_prompt_embeds_per_block_hashes = [],
      rq_num_prompt_tokens = length toks, rq_output_token_ids = [], rq_all_token_ids = toks,
      rq_num_output_placeholders = 0, rq_num_computed_tokens = 0, rq_spec_token_ids = [],
      rq_cache_salt = None, rq_lora_name = None, rq_mm_features = fs, rq_num_preemptions = 0,
      rq_block_hashes = hashes, rq_skip_reading_prefix_cache = False, rq_resumable = False\<rparr>"

definition item :: "string \<Rightarrow> int \<Rightarrow> int \<Rightarrow> mm_feature" where
  "item i off len = \<lparr>mf_identifier = i, mf_offset = off, mf_length = len, mf_is_embed = None\<rparr>"



definition demo_env :: hash_env where
  "demo_env = \<lparr>he_hash_function = (\<lambda>(p, ts, x). map word_of_nat ts @ [1] @ p), he_none_hash = [255],
     he_sha256 = (\<lambda>b. b)\<rparr>"




text \<open>Seen at a coarser block size that is a multiple of the hash block size, the hashes
  of a request are those at the boundaries of the coarse blocks: there is one for every full
  coarse block and the \<open>i\<close>-th is the chained hash that ends at token \<open>(i + 1) * target\<close>.\<close>

lemma coarse_hashes_are_at_block_ends:
  assumes "hashes_current env n r" and "0 < n" "0 < k"
  shows "\<exists>l. new_block_hash_list (rq_block_hashes r) (int n) (int (n * k)) = Inr l \<and>
    bl_len l = int (rq_num_tokens r div (n * k)) \<and>
    bl_iter l = Inr (map (\<lambda>i. chain_hash env r n ((i + 1) * k - 1)) [0..<rq_num_tokens r div (n * k)])"
proof -
  let ?hs = "rq_block_hashes r" and ?m = "rq_num_tokens r div (n * k)"
  have mod: "int n * int k mod int n = 0" "int n * int k div int n = int k" using assms(2) by simp_all
  define l where "l = \<lparr>bl_block_hashes = ?hs, bl_scale_factor = int k\<rparr>"
  have l: "new_block_hash_list ?hs (int n) (int (n * k)) = Inr l"
    using assms(2) by (simp add: new_block_hash_list_def mod l_def)
  have sc: "bl_block_hashes l = ?hs" "bl_scale_factor l = int k" by (simp_all add: l_def)
  have hs: "length ?hs = rq_num_tokens r div n" using assms(1) by (simp add: hashes_current_def)
  have len: "bl_len l = int ?m"
    by (simp add: bl_len_def sc hs zdiv_int [symmetric] div_mult2_eq)
  have val: "get_value_at l (int i) = Inr (chain_hash env r n ((i + 1) * k - 1))" if "i < ?m" for i
  proof -
    have b: "0 < int n" "0 < int (n * k)" "int i < bl_len l" using assms(2,3) that len by simp_all
    have idx: "nat ((int i + 1) * (int (n * k) div int n) - 1) = (i + 1) * k - 1"
    proof -
      have "(int i + 1) * (int (n * k) div int n) = int ((i + 1) * k)"
        using mod by (simp add: distrib_right)
      moreover have "nat (int x - 1) = x - 1" for x by simp
      ultimately show ?thesis by metis
    qed
    have "(i + 1) * k - 1 < length ?hs \<and> get_value_at l (int i) = Inr (?hs ! ((i + 1) * k - 1))"
      using get_value_at_nat [OF l b(1,2) _ b(3)] idx by simp
    then show ?thesis using assms(1) by (simp add: hashes_current_def)
  qed
  have "[0..int ?m - 1] = map int [0..<?m]"
    by (rule nth_equalityI) simp_all
  moreover have "rmap (get_value_at l) (map int is) = Inr (map (\<lambda>i. chain_hash env r n ((i + 1) * k - 1)) is)"
    if "set is \<subseteq> {0..<?m}" for "is"
    using that by (induction "is") (simp_all add: val)
  ultimately have "bl_iter l = Inr (map (\<lambda>i. chain_hash env r n ((i + 1) * k - 1)) [0..<?m])"
    by (simp add: bl_iter_def bl_range_def len del: map_map)
  then show ?thesis using l len by blast
qed

theorem coarse_hashes_are_at_block_ends_witness:
  "\<exists>l (r :: request). rq_all_token_ids r = [7, 7, 7, 7, 7] \<and>
     new_block_hash_list (rq_block_hashes r) 1 2 = Inr l \<and> bl_len l = 2"
proof -
  have mm: "mm_sorted []" by (simp add: mm_sorted_def)
  obtain r where r: "init_request demo_env 1 ''r'' (Some [7, 7, 7, 7, 7]) None [] None None 0 0 False False
       = Some (Inr r)" and t: "rq_all_token_ids r = [7, 7, 7, 7, 7]"
    using init_request_total [OF zero_less_one mm, of "Some [7, 7, 7, 7, 7]" None 5 demo_env "''r''"
        None None 0 0 False False] by (auto simp: prompt_length_def)
  have "hashes_current demo_env 1 r" using init_request_spec [OF zero_less_one mm r] by simp
  from coarse_hashes_are_at_block_ends [OF this, of 2] t show ?thesis
    by (auto simp: rq_num_tokens_def)
qed

text \<open>With several cache groups, the scheduler block size is the least common multiple of
  the groups' block sizes, and the hash block size divides it; the hash block size also
  divides every group's block size unless block hashing is off or a Mamba group has its own
  block size, in which case it is the scheduler block size.\<close>

lemma resolved_block_sizes_fit_groups:
  assumes "resolve_kv_cache_block_sizes c = Inr (s, h)" and "1 < length (cs_groups c)"
  shows "(\<forall>(bs, mamba) \<in> set (cs_groups c). bs dvd s) \<and>
    (\<forall>m. (\<forall>(bs, mamba) \<in> set (cs_groups c). bs dvd m) \<longrightarrow> s dvd m) \<and> h dvd s \<and>
    ((cs_enable_prefix_caching c \<or> cs_connector_enabled c) \<and>
     (\<forall>(bs, mamba) \<in> set (cs_groups c). mamba \<longrightarrow> bs = cs_block_size c) \<longrightarrow>
       0 < h \<and> (\<forall>(bs, mamba) \<in> set (cs_groups c). h dvd bs))"
proof -
  let ?bs = "map fst (cs_groups c)"
  have s: "s = foldr lcm ?bs 1" using assms
    by (auto simp: resolve_kv_cache_block_sizes_def Let_def split: if_splits option.splits)
  have dvd: "bs dvd s" if "(bs, mamba) \<in> set (cs_groups c)" for bs mamba
    unfolding s using that by (intro foldr_lcm_dvd) force
  have least: "s dvd m" if "\<forall>(bs, mamba) \<in> set (cs_groups c). bs dvd m" for m
    unfolding s using that by (intro foldr_lcm_least) auto
  have h: "h = s \<or> 0 < h \<and> (\<forall>bs \<in> set ?bs. h dvd bs)"
    and act: "(cs_enable_prefix_caching c \<or> cs_connector_enabled c) \<and>
     (\<forall>(bs, mamba) \<in> set (cs_groups c). mamba \<longrightarrow> bs = cs_block_size c) \<Longrightarrow>
     0 < h \<and> (\<forall>bs \<in> set ?bs. h dvd bs)"
    using assms s
    by (auto simp: resolve_kv_cache_block_sizes_def Let_def list_ex_iff mod_eq_0_iff_dvd
        split: if_splits option.splits)
  have ne: "?bs \<noteq> []" using assms(2) by auto
  have "h dvd s"
  proof (cases "h = s")
    case False
    then have "h dvd hd ?bs" using h ne by (meson hd_in_set)
    moreover have "hd ?bs dvd s" unfolding s by (rule foldr_lcm_dvd [OF hd_in_set [OF ne]])
    ultimately show ?thesis by (rule dvd_trans)
  qed simp
  moreover have "h dvd bs" if "(bs, mamba) \<in> set (cs_groups c)" "\<forall>bs \<in> set ?bs. h dvd bs" for bs mamba
    using that by force
  ultimately show ?thesis using dvd least act by blast
qed

theorem resolved_block_sizes_fit_groups_witness:
  "\<exists>c s h. resolve_kv_cache_block_sizes c = Inr (s, h) \<and> map fst (cs_groups c) = [48, 32] \<and>
     s = 96 \<and> h = 16 \<and> h dvd s"
proof -
  let ?c = "\<lparr>cs_block_size = 32, cs_dcp = 1, cs_pcp = 1, cs_groups = [(48, False), (32, False)],
     cs_connector_enabled = False, cs_enable_prefix_caching = True, cs_hash_block_size = None\<rparr>"
  have num: "lcm 48 32 = (96 :: nat)" "gcd 48 32 = (16 :: nat)" by code_simp+
  have run: "resolve_kv_cache_block_sizes ?c = Inr (96, 16)"
    by (simp add: resolve_kv_cache_block_sizes_def num)
  have "16 dvd (96 :: nat)" using resolved_block_sizes_fit_groups [OF run] by simp
  then show ?thesis using run by (intro exI [of _ ?c]) simp
qed

section \<open>Two weaknesses of the extra keys\<close>

text \<open>LoRA names and cache salts are both plain strings in the key of a first block, so
  a request for adapter \<open>s\<close> and a base-model request salted with \<open>s\<close> get the same first block
  hash: the hasher does not separate them.\<close>

lemma lora_name_and_salt_collide:
  assumes "s \<noteq> []" "rq_mm_features r = []"
  shows "chain_hash env (r\<lparr>rq_lora_name := Some s, rq_cache_salt := None\<rparr>) n 0 =
    chain_hash env (r\<lparr>rq_lora_name := None, rq_cache_salt := Some s\<rparr>) n 0"
  using assms
  by (simp add: chain_hash_def block_tokens_def block_extra_def gen_lora_extra_hash_keys_def
      cache_salt_keys_def embeds_keys_def mm_keys_def Let_def)

theorem lora_name_and_salt_collide_witness:
  "\<exists>r. rq_mm_features (r :: request) = [] \<and> chain_hash demo_env (r\<lparr>rq_lora_name := Some ''s'', rq_cache_salt := None\<rparr>) 4 0 =
     chain_hash demo_env (r\<lparr>rq_lora_name := None, rq_cache_salt := Some ''s''\<rparr>) 4 0"
  using lora_name_and_salt_collide [of "''s''" "demo_request [1, 2, 3, 4] [] []" demo_env 4]
  by (intro exI [of _ "demo_request [1, 2, 3, 4] [] []"]) (simp add: demo_request_def)

definition tail_request :: "hash_env \<Rightarrow> string \<Rightarrow> request res option" where
  "tail_request env ident =
     Option.bind (init_request env 4 ''r'' (Some [1, 2, 3, 4, 5, 6, 7]) None
        [item ident 4 1, item ''last'' 5 1] None None 0 0 False False)
       (\<lambda>out. case out of Inl e \<Rightarrow> Some (Inl e) | Inr r \<Rightarrow> append_output_token_ids env 4 [8] r)"

text \<open>When output tokens complete the last block of a prompt, only the last multi-modal
  item is looked at: prompts that differ in an earlier item of that block get equal hashes.\<close>

lemma tail_items_missing_from_hash:
  "\<exists>hashes. length hashes = 2 \<and>
     (\<forall>ident. \<exists>r. tail_request env ident = Some (Inr r) \<and> rq_block_hashes r = hashes)"
proof -
  let ?h0 = "he_hash_function env (he_none_hash env, [1, 2, 3, 4], None)"
  let ?h1 = "hash_block_tokens env (Some ?h0) [5, 6, 7, 8] (Some [KeyMM ''last'' 1])"
  have "\<exists>r. tail_request env ident = Some (Inr r) \<and> rq_block_hashes r = [?h0, ?h1]" for ident
    by (simp add: tail_request_def init_request_def prompt_length_def update_block_hashes_def
        request_block_hasher_def append_output_token_ids_def hash_loop.simps
        generate_block_hash_extra_keys_def gen_mm_extra_hash_keys_def gen_mm_loop.simps item_def
        gen_prompt_embeds_extra_hash_keys_def gen_lora_extra_hash_keys_def cache_salt_keys_def
        hash_block_tokens_def rq_num_tokens_def Let_def)
  then show ?thesis by (intro exI [of _ "[?h0, ?h1]"]) simp
qed

end
