(* ===== verification/BlockPool.thy ===== *)
theory BlockPool
  imports BlockHash
begin

text \<open>
  \<open>BlockHashToBlockMap\<close> and \<open>BlockPool\<close> of \<^verbatim>\<open>vllm/v1/core/block_pool.py\<close>.

  The pool owns the block objects through the memory of its free queue.  The metrics
  collector, whose answers depend on clocks and random sampling, is the log of the
  notifications it is sent.  The sets of \<open>cached_block_hashes_by_block\<close> are lists in insertion
  order, and a \<open>set[int]\<close> argument is the list in which Python iterates over it.  The memo of
  embedding hashes that \<open>generate_block_hash_extra_keys\<close> leaves in the request when an event is
  emitted is dropped: by \<open>generate_extra_spec\<close> it never changes a key.
\<close>

section \<open>The map from hashes to blocks\<close>

datatype cached_blocks = Single block_ref | Multi "(int, block_ref) dict"

type_synonym hash_map = "(bytes, cached_blocks) dict"

definition get_one_block :: "hash_map \<Rightarrow> bytes \<Rightarrow> block_ref option res" where
  "get_one_block cache key =
     (case map_of cache key of
        None \<Rightarrow> Inr None
      | Some (Single b) \<Rightarrow> Inr (Some b)
      | Some (Multi d) \<Rightarrow>
          (case d of [] \<Rightarrow> Inl StopIteration | (_, b) # _ \<Rightarrow> Inr (Some b)))"

definition hm_contain :: "block_mem \<Rightarrow> hash_map \<Rightarrow> bytes \<Rightarrow> int \<Rightarrow> bool" where
  "hm_contain mem cache key block_id =
     (case map_of cache key of
        None \<Rightarrow> False
      | Some (Single b) \<Rightarrow> kb_block_id (mem b) = block_id
      | Some (Multi d) \<Rightarrow> map_of d block_id \<noteq> None)"

definition hm_insert :: "block_mem \<Rightarrow> bytes \<Rightarrow> block_ref \<Rightarrow> hash_map \<Rightarrow> hash_map" where
  "hm_insert mem key b cache =
     (case map_of cache key of
        None \<Rightarrow> AList.update key (Single b) cache
      | Some (Single b') \<Rightarrow>
          AList.update key
            (Multi (AList.update (kb_block_id (mem b)) b [(kb_block_id (mem b'), b')])) cache
      | Some (Multi d) \<Rightarrow>
          AList.update key (Multi (AList.update (kb_block_id (mem b)) b d)) cache)"

definition hm_pop :: "block_mem \<Rightarrow> bytes \<Rightarrow> int \<Rightarrow> hash_map \<Rightarrow> block_ref option \<times> hash_map" where
  "hm_pop mem key block_id cache =
     (let rest = AList.delete key cache in
      case map_of cache key of
        None \<Rightarrow> (None, rest)
      | Some (Single b) \<Rightarrow>
          if kb_block_id (mem b) = block_id then (Some b, rest)
          else (None, AList.update key (Single b) rest)
      | Some (Multi d) \<Rightarrow>
          let d' = AList.delete block_id d in
          (map_of d block_id,
           if 0 < length d' then AList.update key (Multi d') rest else rest))"

section \<open>The pool\<close>

datatype kv_cache_event =
    BlockStored "external_block_hash list" "external_block_hash option" "nat list" int
      "string option" "extra_key list option list option" int
  | BlockRemoved external_block_hash int
  | AllBlocksCleared

datatype metrics_note =
    OnBlockAllocated int
  | OnBlockAccessed int
  | OnBlockEvicted int
  | MetricsReset

record block_pool =
  bp_num_gpu_blocks :: int
  bp_enable_caching :: bool
  bp_hash_block_size :: int
  bp_blocks :: "block_ref list"
  bp_free_block_queue :: free_queue
  bp_cached_block_hash_to_block :: hash_map
  bp_cached_block_hashes_by_block :: "(int, bytes list) dict"
  bp_null_block :: block_ref
  bp_enable_kv_cache_events :: bool
  bp_use_int_block_hashes :: bool
  bp_kv_event_queue :: "kv_cache_event list"
  bp_metrics_collector :: "metrics_note list option"

abbreviation blk :: "block_pool \<Rightarrow> block_ref \<Rightarrow> kv_cache_block" where
  "blk p \<equiv> fq_mem (bp_free_block_queue p)"

definition set_blk :: "block_ref \<Rightarrow> kv_cache_block \<Rightarrow> block_pool \<Rightarrow> block_pool" where
  "set_blk b x p =
     p\<lparr>bp_free_block_queue := (bp_free_block_queue p)
         \<lparr>fq_mem := (fq_mem (bp_free_block_queue p))(b := x)\<rparr>\<rparr>"

definition notify :: "metrics_note \<Rightarrow> block_pool \<Rightarrow> block_pool" where
  "notify note p = p\<lparr>bp_metrics_collector := map_option (\<lambda>l. l @ [note]) (bp_metrics_collector p)\<rparr>"

definition get_num_free_blocks :: "block_pool \<Rightarrow> int" where
  "get_num_free_blocks p = fq_num_free_blocks (bp_free_block_queue p)"

definition new_block_pool ::
  "int \<Rightarrow> bool \<Rightarrow> int \<Rightarrow> bool \<Rightarrow> bool \<Rightarrow> bool \<Rightarrow> block_pool res" where
  "new_block_pool num_gpu_blocks enable_caching hash_block_size enable_kv_cache_events
       use_int_block_hashes with_metrics =
     (if num_gpu_blocks \<le> 0 then Inl AssertionError
      else
        let blocks = map Blk [0..<nat num_gpu_blocks];
            mem = (\<lambda>b. case b of Blk i \<Rightarrow> new_block (int i) | _ \<Rightarrow> new_block (- 1))
        in rbind (popleft (new_free_queue blocks mem)) (\<lambda>(null_block, q).
           Inr \<lparr>bp_num_gpu_blocks = num_gpu_blocks, bp_enable_caching = enable_caching,
                bp_hash_block_size = hash_block_size, bp_blocks = blocks,
                bp_free_block_queue =
                  q\<lparr>fq_mem := (fq_mem q)(null_block := (fq_mem q null_block)\<lparr>kb_is_null := True\<rparr>)\<rparr>,
                bp_cached_block_hash_to_block = [], bp_cached_block_hashes_by_block = [],
                bp_null_block = null_block, bp_enable_kv_cache_events = enable_kv_cache_events,
                bp_use_int_block_hashes = use_int_block_hashes, bp_kv_event_queue = [],
                bp_metrics_collector = (if with_metrics then Some [] else None)\<rparr>))"

fun get_cached_block :: "block_pool \<Rightarrow> bytes \<Rightarrow> int list \<Rightarrow> block_ref list option res" where
  "get_cached_block p block_hash [] = Inr (Some [])"
| "get_cached_block p block_hash (g # gs) =
     rbind (make_block_hash_with_group_id block_hash g) (\<lambda>key.
     rbind (get_one_block (bp_cached_block_hash_to_block p) key) (\<lambda>found.
     case found of
       None \<Rightarrow> Inr None
     | Some b \<Rightarrow>
         rbind (get_cached_block p block_hash gs) (\<lambda>rest.
         Inr (map_option (\<lambda>bs. b # bs) rest))))"

section \<open>Hash bookkeeping\<close>

definition pop_hash ::
  "int \<Rightarrow> bytes \<Rightarrow> bytes list \<times> block_pool \<Rightarrow> bytes list \<times> block_pool" where
  "pop_hash block_id h acc =
     (let p = snd acc;
          (popped, cache) = hm_pop (blk p) h block_id (bp_cached_block_hash_to_block p)
      in (if popped \<noteq> None then fst acc @ [h] else fst acc,
          p\<lparr>bp_cached_block_hash_to_block := cache\<rparr>))"

definition remove_cached_block_hashes ::
  "block_ref \<Rightarrow> block_pool \<Rightarrow> bytes list \<times> block_pool" where
  "remove_cached_block_hashes b p =
     (let block_id = kb_block_id (blk p b);
          primary = (case kb_block_hash (blk p b) of None \<Rightarrow> [] | Some h \<Rightarrow> [h]);
          aliases = (case map_of (bp_cached_block_hashes_by_block p) block_id of
                       None \<Rightarrow> [] | Some hs \<Rightarrow> hs);
          p1 = p\<lparr>bp_cached_block_hashes_by_block :=
                   AList.delete block_id (bp_cached_block_hashes_by_block p)\<rparr>;
          block_hashes = primary @ aliases
      in if block_hashes = [] then ([], p1)
         else let (removed, p2) = fold (pop_hash block_id) block_hashes ([], p1)
              in (removed, set_blk b (reset_hash (blk p2 b)) p2))"

definition emit_block_removed_events :: "bytes list \<Rightarrow> block_pool \<Rightarrow> block_pool" where
  "emit_block_removed_events block_hashes p =
     (if \<not> bp_enable_kv_cache_events p then p
      else p\<lparr>bp_kv_event_queue := bp_kv_event_queue p @
               map (\<lambda>h. BlockRemoved
                     (maybe_convert_block_hash (bp_use_int_block_hashes p) (get_block_hash h))
                     (get_group_id h)) block_hashes\<rparr>)"

definition insert_block_hash ::
  "bytes \<Rightarrow> block_ref \<Rightarrow> int option \<Rightarrow> block_pool \<Rightarrow> block_pool res" where
  "insert_block_hash key b num_tokens p =
     (let block_id = kb_block_id (blk p b) in
      if kb_block_hash (blk p b) = Some key then Inr p
      else if hm_contain (blk p) (bp_cached_block_hash_to_block p) key block_id then Inr p
      else rbind
        (if kb_block_hash (blk p b) = None
         then rbind (set_block_hash key num_tokens (blk p b)) (\<lambda>x. Inr (set_blk b x p))
         else
           let hs = (case map_of (bp_cached_block_hashes_by_block p) block_id of
                       None \<Rightarrow> [] | Some hs \<Rightarrow> hs)
           in Inr (p\<lparr>bp_cached_block_hashes_by_block :=
                       AList.update block_id (if key \<in> set hs then hs else hs @ [key])
                         (bp_cached_block_hashes_by_block p)\<rparr>))
        (\<lambda>p'. Inr (p'\<lparr>bp_cached_block_hash_to_block :=
                        hm_insert (blk p') key b (bp_cached_block_hash_to_block p')\<rparr>)))"

definition maybe_evict_cached_block :: "block_ref \<Rightarrow> block_pool \<Rightarrow> bool \<times> block_pool" where
  "maybe_evict_cached_block b p =
     (let p1 = notify (OnBlockEvicted (kb_block_id (blk p b))) p;
          (evicted, p2) = remove_cached_block_hashes b p1
      in if evicted = [] then (False, p2)
         else (True, emit_block_removed_events evicted p2))"

section \<open>Allocation and release\<close>

definition claim_block :: "block_ref \<Rightarrow> block_pool \<Rightarrow> block_pool res" where
  "claim_block b p =
     (let p1 = (if bp_enable_caching p then snd (maybe_evict_cached_block b p) else p);
          p2 = set_blk b (reset_hierarchy_state (blk p1 b)) p1
      in if kb_ref_cnt (blk p2 b) \<noteq> 0 then Inl AssertionError
         else Inr (notify (OnBlockAllocated (kb_block_id (blk p2 b)))
                (set_blk b ((blk p2 b)\<lparr>kb_ref_cnt := kb_ref_cnt (blk p2 b) + 1\<rparr>) p2)))"

definition get_new_blocks :: "int \<Rightarrow> block_pool \<Rightarrow> (block_ref list \<times> block_pool) res" where
  "get_new_blocks num_blocks p =
     (if num_blocks > get_num_free_blocks p then Inl ValueError
      else rbind (popleft_n num_blocks (bp_free_block_queue p)) (\<lambda>(ret, q).
           rbind (rfold claim_block ret (p\<lparr>bp_free_block_queue := q\<rparr>)) (\<lambda>p'.
           Inr (ret, p'))))"

definition touch_block :: "block_ref \<Rightarrow> block_pool \<Rightarrow> block_pool res" where
  "touch_block b p =
     rbind (if kb_ref_cnt (blk p b) = 0 \<and> \<not> kb_is_null (blk p b)
            then rbind (remove_free b (bp_free_block_queue p)) (\<lambda>q.
                 Inr (p\<lparr>bp_free_block_queue := q\<rparr>))
            else Inr p)
       (\<lambda>p1. Inr (notify (OnBlockAccessed (kb_block_id (blk p1 b)))
                   (set_blk b ((blk p1 b)\<lparr>kb_ref_cnt := kb_ref_cnt (blk p1 b) + 1\<rparr>) p1)))"

definition touch :: "block_ref list \<Rightarrow> block_pool \<Rightarrow> block_pool res" where
  "touch blocks p = rfold touch_block blocks p"

text \<open>The loop of \<open>free_blocks\<close> accumulates the blocks with and without a hash.\<close>

fun drop_refs ::
  "block_ref list \<Rightarrow> block_ref list \<Rightarrow> block_ref list \<Rightarrow> block_pool
     \<Rightarrow> block_ref list \<times> block_ref list \<times> block_pool" where
  "drop_refs [] with_hash without_hash p = (with_hash, without_hash, p)"
| "drop_refs (b # bs) with_hash without_hash p =
     (if kb_is_null (blk p b) then drop_refs bs with_hash without_hash p
      else
        let p1 = set_blk b ((blk p b)\<lparr>kb_ref_cnt := kb_ref_cnt (blk p b) - 1\<rparr>) p
        in if kb_ref_cnt (blk p1 b) = 0
           then (if kb_block_hash (blk p1 b) = None
                 then drop_refs bs with_hash (without_hash @ [b]) p1
                 else drop_refs bs (with_hash @ [b]) without_hash p1)
           else drop_refs bs with_hash without_hash p1)"

definition free_blocks :: "block_ref list \<Rightarrow> block_pool \<Rightarrow> block_pool res" where
  "free_blocks ordered_blocks p =
     (let (with_hash, without_hash, p1) = drop_refs ordered_blocks [] [] p
      in rbind (prepend_n without_hash (bp_free_block_queue p1)) (\<lambda>q1.
         rbind (append_n with_hash q1) (\<lambda>q2.
         Inr (p1\<lparr>bp_free_block_queue := q2\<rparr>))))"

definition evict_block :: "int \<Rightarrow> block_pool \<Rightarrow> block_pool res" where
  "evict_block block_id p =
     (if block_id \<ge> int (length (bp_blocks p)) then Inl AssertionError
      else rbind (list_index (bp_blocks p) block_id) (\<lambda>b.
           Inr (snd (maybe_evict_cached_block b p))))"

definition evict_blocks :: "int list \<Rightarrow> block_pool \<Rightarrow> block_pool res" where
  "evict_blocks block_ids p = rfold evict_block block_ids p"

definition reset_prefix_cache :: "block_pool \<Rightarrow> bool \<times> block_pool" where
  "reset_prefix_cache p =
     (if bp_num_gpu_blocks p - get_num_free_blocks p \<noteq> 1 then (False, p)
      else
        let p1 = p\<lparr>bp_cached_block_hash_to_block := [], bp_cached_block_hashes_by_block := []\<rparr>;
            p2 = fold (\<lambda>b p. set_blk b (reset_hash (blk p b)) p) (bp_blocks p1) p1;
            p3 = notify MetricsReset p2
        in (True,
            if bp_enable_kv_cache_events p3
            then p3\<lparr>bp_kv_event_queue := bp_kv_event_queue p3 @ [AllBlocksCleared]\<rparr>
            else p3))"

definition get_usage :: "block_pool \<Rightarrow> rat" where
  "get_usage p =
     (let total = bp_num_gpu_blocks p - 1
      in if total = 0 then 0 else 1 - of_int (get_num_free_blocks p) / of_int total)"

definition take_events :: "block_pool \<Rightarrow> kv_cache_event list \<times> block_pool" where
  "take_events p =
     (if \<not> bp_enable_kv_cache_events p then ([], p)
      else (bp_kv_event_queue p, p\<lparr>bp_kv_event_queue := []\<rparr>))"

section \<open>Caching of full and partial blocks\<close>

datatype hash_list = Plain "bytes list" | Scaled block_hash_list

fun hl_len :: "hash_list \<Rightarrow> int" where
  "hl_len (Plain hs) = int (length hs)"
| "hl_len (Scaled l) = bl_len l"

fun hl_at :: "hash_list \<Rightarrow> int \<Rightarrow> bytes res" where
  "hl_at (Plain hs) i = list_index hs i"
| "hl_at (Scaled l) i = get_value_at l i"

fun hl_from :: "hash_list \<Rightarrow> int \<Rightarrow> bytes list res" where
  "hl_from (Plain hs) i = Inr (py_slice_from i hs)"
| "hl_from (Scaled l) i =
     bl_range l (if i < 0 then max 0 (i + bl_len l) else min i (bl_len l)) (bl_len l)"

definition block_hashes_at :: "block_pool \<Rightarrow> request \<Rightarrow> int \<Rightarrow> hash_list res" where
  "block_hashes_at p r block_size =
     (if block_size = bp_hash_block_size p then Inr (Plain (rq_block_hashes r))
      else rbind (new_block_hash_list (rq_block_hashes r) (bp_hash_block_size p) block_size)
        (\<lambda>l. Inr (Scaled l)))"

definition skipped :: "block_pool \<Rightarrow> bool list option \<Rightarrow> nat \<Rightarrow> block_ref \<Rightarrow> bool" where
  "skipped p block_mask i b \<longleftrightarrow>
     kb_is_null (blk p b) \<or> (case block_mask of None \<Rightarrow> False | Some m \<Rightarrow> \<not> m ! i)"

definition cache_one_block ::
  "bytes list \<Rightarrow> int \<Rightarrow> int \<Rightarrow> int \<Rightarrow> bool list option \<Rightarrow> nat \<times> block_ref
     \<Rightarrow> external_block_hash list \<times> block_pool \<Rightarrow> (external_block_hash list \<times> block_pool) res" where
  "cache_one_block new_block_hashes num_cached_blocks block_size group_id block_mask entry acc =
     (let (i, b) = entry; (new_hashes, p) = acc in
      if skipped p block_mask i b then Inr acc
      else
        rbind (list_index new_block_hashes (int i)) (\<lambda>block_hash.
        let num_hash_tokens = (num_cached_blocks + int i + 1) * block_size in
        rbind (make_block_hash_with_group_id block_hash group_id) (\<lambda>key.
        rbind (if kb_block_hash (blk p b) \<noteq> None
               then (case kb_block_hash_num_tokens (blk p b) of
                       None \<Rightarrow> Inl AssertionError
                     | Some t \<Rightarrow>
                         if t < num_hash_tokens
                         then let (removed, p1) = remove_cached_block_hashes b p
                              in Inr (emit_block_removed_events removed p1)
                         else Inl AssertionError)
               else Inr p) (\<lambda>p1.
        rbind (insert_block_hash key b (Some num_hash_tokens) p1) (\<lambda>p2.
        Inr (if bp_enable_kv_cache_events p2
             then new_hashes @ [maybe_convert_block_hash (bp_use_int_block_hashes p2) block_hash]
             else new_hashes, p2))))))"

definition extra_key_step ::
  "hash_env \<Rightarrow> block_pool \<Rightarrow> block_ref list \<Rightarrow> int \<Rightarrow> int \<Rightarrow> bool list option \<Rightarrow> int
     \<Rightarrow> extra_key list option list \<times> int \<times> request
     \<Rightarrow> (extra_key list option list \<times> int \<times> request) res" where
  "extra_key_step env p blocks num_cached_blocks block_size block_mask i acc =
     rbind (list_index blocks i) (\<lambda>b.
     if skipped p block_mask (nat (i - num_cached_blocks)) b then Inr acc
     else
       let (ks, curr_mm_idx, r) = acc;
           block_start = nat (i * block_size);
           block_end = nat (i * block_size + block_size)
       in rbind (generate_block_hash_extra_keys env r block_start block_end curr_mm_idx)
            (\<lambda>(extra_keys, curr_mm_idx', r'). Inr (ks @ [extra_keys], curr_mm_idx', r')))"

definition cache_full_blocks ::
  "hash_env \<Rightarrow> request \<Rightarrow> block_ref list \<Rightarrow> int \<Rightarrow> int \<Rightarrow> int \<Rightarrow> int \<Rightarrow> bool list option
     \<Rightarrow> block_pool \<Rightarrow> block_pool res" where
  "cache_full_blocks env r blocks num_cached_blocks num_full_blocks block_size kv_cache_group_id
       block_mask p =
     (if num_cached_blocks \<ge> num_full_blocks then Inr p
      else
        let new_full_blocks = py_slice num_cached_blocks num_full_blocks blocks in
        rbind (check (case block_mask of None \<Rightarrow> True
                      | Some m \<Rightarrow> length m = length new_full_blocks) AssertionError) (\<lambda>_.
        rbind (block_hashes_at p r block_size) (\<lambda>block_hashes.
        rbind (check (hl_len block_hashes \<ge> num_full_blocks) AssertionError) (\<lambda>_.
        rbind (hl_from block_hashes num_cached_blocks) (\<lambda>new_block_hashes.
        rbind (rfold (cache_one_block new_block_hashes num_cached_blocks block_size
                        kv_cache_group_id block_mask)
                 (enumerate 0 new_full_blocks) ([], p)) (\<lambda>(new_hashes, p1).
        if \<not> bp_enable_kv_cache_events p1 then Inr p1
        else
          rbind (if num_cached_blocks = 0 then Inr None
                 else rbind (hl_at block_hashes (num_cached_blocks - 1)) (\<lambda>h.
                      Inr (Some (maybe_convert_block_hash (bp_use_int_block_hashes p1) h))))
            (\<lambda>parent_block_hash.
          rbind (rfold (extra_key_step env p1 blocks num_cached_blocks block_size block_mask)
                   [num_cached_blocks..num_full_blocks - 1] ([], 0, r)) (\<lambda>(extra_keys_list, _, _).
          Inr (p1\<lparr>bp_kv_event_queue := bp_kv_event_queue p1 @
                 [BlockStored new_hashes parent_block_hash
                    (py_slice (num_cached_blocks * block_size) (num_full_blocks * block_size)
                       (rq_all_token_ids r))
                    block_size (rq_lora_name r)
                    (if extra_keys_list = [] then None else Some extra_keys_list)
                    kv_cache_group_id]\<rparr>)))))))))"

definition get_partial_block_hash :: "block_pool \<Rightarrow> request \<Rightarrow> int \<Rightarrow> bytes res" where
  "get_partial_block_hash p r num_tokens =
     (let num_hash_blocks = num_tokens div bp_hash_block_size p in
      rbind (check (num_tokens mod bp_hash_block_size p = 0) AssertionError) (\<lambda>_.
      rbind (check (0 < num_hash_blocks \<and> num_hash_blocks \<le> int (length (rq_block_hashes r)))
               AssertionError) (\<lambda>_.
      list_index (rq_block_hashes r) (num_hash_blocks - 1))))"

definition get_partial_block_parent_hash_and_start ::
  "block_pool \<Rightarrow> request \<Rightarrow> int \<Rightarrow> (bytes option \<times> int) res" where
  "get_partial_block_parent_hash_and_start p r num_tokens =
     (let num_hash_blocks = num_tokens div bp_hash_block_size p in
      rbind (if num_hash_blocks > 1
             then rbind (list_index (rq_block_hashes r) (num_hash_blocks - 2)) (\<lambda>h. Inr (Some h))
             else Inr None) (\<lambda>parent_hash.
      Inr (parent_hash, (num_hash_blocks - 1) * bp_hash_block_size p)))"

definition cache_partial_block ::
  "hash_env \<Rightarrow> request \<Rightarrow> block_ref \<Rightarrow> int \<Rightarrow> int \<Rightarrow> int \<Rightarrow> block_pool
     \<Rightarrow> (bytes option \<times> block_pool) res" where
  "cache_partial_block env r b num_tokens kv_cache_group_id block_size p =
     (if kb_is_null (blk p b) then Inr (None, p)
      else
        let hbs = bp_hash_block_size p; num_hash_blocks = num_tokens div hbs in
        rbind (check (block_size > hbs) AssertionError) (\<lambda>_.
        rbind (check (hbs \<noteq> 0) ZeroDivisionError) (\<lambda>_.
        rbind (check (block_size mod hbs = 0 \<and> num_tokens mod block_size \<noteq> 0) AssertionError) (\<lambda>_.
        rbind (get_partial_block_hash p r num_tokens) (\<lambda>block_hash.
        rbind (make_block_hash_with_group_id block_hash kv_cache_group_id) (\<lambda>key.
        let already_cached =
              kb_block_hash (blk p b) = Some key \<or>
              hm_contain (blk p) (bp_cached_block_hash_to_block p) key (kb_block_id (blk p b));
            p1 = (if \<not> already_cached \<and> kb_block_hash (blk p b) \<noteq> None \<and>
                     (case kb_block_hash_num_tokens (blk p b) of None \<Rightarrow> False
                      | Some t \<Rightarrow> t < num_hash_blocks * hbs)
                  then let (removed, p') = remove_cached_block_hashes b p
                       in emit_block_removed_events removed p'
                  else p)
        in
        rbind (insert_block_hash key b (Some (num_hash_blocks * hbs)) p1) (\<lambda>p2.
        if \<not> (bp_enable_kv_cache_events p2 \<and> \<not> already_cached) then Inr (Some key, p2)
        else
          rbind (get_partial_block_parent_hash_and_start p2 r num_tokens)
            (\<lambda>(parent_hash, block_start).
          rbind (generate_block_hash_extra_keys env r (nat block_start) (nat num_tokens)
                   (if block_start > 0 then - 1 else 0)) (\<lambda>(extra_keys, _, _).
          Inr (Some key,
               p2\<lparr>bp_kv_event_queue := bp_kv_event_queue p2 @
                 [BlockStored [maybe_convert_block_hash (bp_use_int_block_hashes p2) block_hash]
                    (map_option (maybe_convert_block_hash (bp_use_int_block_hashes p2)) parent_hash)
                    (py_slice block_start num_tokens (rq_all_token_ids r))
                    (num_tokens - block_start) (rq_lora_name r) (Some [extra_keys])
                    kv_cache_group_id]\<rparr>))))))))))"

section \<open>The ids behind a key\<close>

definition entry_ids :: "(block_ref \<Rightarrow> int) \<Rightarrow> cached_blocks \<Rightarrow> int set" where
  "entry_ids idf e = (case e of Single b \<Rightarrow> {idf b} | Multi d \<Rightarrow> set (dkeys d))"

definition hm_ids :: "(block_ref \<Rightarrow> int) \<Rightarrow> hash_map \<Rightarrow> bytes \<Rightarrow> int set" where
  "hm_ids idf cache k = (case map_of cache k of None \<Rightarrow> {} | Some e \<Rightarrow> entry_ids idf e)"

definition entry_ok :: "(block_ref \<Rightarrow> int) \<Rightarrow> block_ref set \<Rightarrow> cached_blocks \<Rightarrow> bool" where
  "entry_ok idf good e =
     (case e of
        Single b \<Rightarrow> b \<in> good
      | Multi d \<Rightarrow> d \<noteq> [] \<and> distinct (dkeys d) \<and> (\<forall>(i, b) \<in> set d. idf b = i \<and> b \<in> good))"

definition map_ok :: "(block_ref \<Rightarrow> int) \<Rightarrow> block_ref set \<Rightarrow> hash_map \<Rightarrow> bool" where
  "map_ok idf good cache \<longleftrightarrow>
     distinct (dkeys cache) \<and> (\<forall>k e. map_of cache k = Some e \<longrightarrow> entry_ok idf good e)"

abbreviation ids :: "block_mem \<Rightarrow> block_ref \<Rightarrow> int" where
  "ids mem \<equiv> (\<lambda>b. kb_block_id (mem b))"

lemma map_ok_Nil [simp]: "map_ok idf good []"
  by (simp add: map_ok_def)

lemma hm_contain_iff: "hm_contain mem cache k i \<longleftrightarrow> i \<in> hm_ids (ids mem) cache k"
proof (cases "map_of cache k")
  case (Some e)
  then show ?thesis
    by (cases e) (auto simp: hm_contain_def hm_ids_def entry_ids_def map_of_None_iff simp flip: not_None_eq
        simp del: list.set_map)
qed (simp add: hm_contain_def hm_ids_def)

lemma set_dkeys_update: "set (dkeys (AList.update k v d)) = insert k (set (dkeys d))"
  by (simp add: dom_update)

lemma set_dkeys_delete: "set (dkeys (AList.delete k d)) = set (dkeys d) - {k}"
  by (simp add: delete_keys [symmetric] AList.delete_eq) auto

lemma hm_insert_spec:
  assumes "map_ok (ids mem) good cache" "b \<in> good"
  shows "map_ok (ids mem) good (hm_insert mem k b cache) \<and>
    hm_ids (ids mem) (hm_insert mem k b cache) k' =
      (if k' = k then insert (kb_block_id (mem b)) (hm_ids (ids mem) cache k) else hm_ids (ids mem) cache k')"
proof (cases "map_of cache k")
  case None
  then show ?thesis using assms
    by (auto simp: hm_insert_def hm_ids_def entry_ids_def map_ok_def entry_ok_def)
next
  case (Some e)
  have e: "entry_ok (ids mem) good e" using assms(1) Some by (simp add: map_ok_def)
  show ?thesis
  proof (cases e)
    case (Single b')
    then show ?thesis using assms e Some
      by (auto simp: hm_insert_def hm_ids_def entry_ids_def map_ok_def entry_ok_def)
  next
    case (Multi d)
    have "entry_ok (ids mem) good (Multi (AList.update (kb_block_id (mem b)) b d))"
    proof -
      have dd: "distinct (dkeys (AList.update (kb_block_id (mem b)) b d))"
        using e Multi by (simp add: entry_ok_def)
      have "ids mem b' = i \<and> b' \<in> good" if "(i, b') \<in> set (AList.update (kb_block_id (mem b)) b d)" for i b'
        using map_of_SomeI_distinct [OF dd that] e Multi assms(2) map_of_SomeD [of d i b']
        by (auto simp: entry_ok_def split: if_splits)
      moreover have "AList.update (kb_block_id (mem b)) b d \<noteq> []" by (cases d) auto
      ultimately show ?thesis using dd by (auto simp: entry_ok_def)
    qed
    then show ?thesis using assms Some Multi
      by (auto simp: hm_insert_def hm_ids_def entry_ids_def map_ok_def set_dkeys_update simp del: set_map list.set_map)
  qed
qed

lemma hm_pop_spec:
  assumes "map_ok (ids mem) good cache"
  shows "map_ok (ids mem) good (snd (hm_pop mem k i cache)) \<and>
    (fst (hm_pop mem k i cache) \<noteq> None \<longleftrightarrow> i \<in> hm_ids (ids mem) cache k) \<and>
    hm_ids (ids mem) (snd (hm_pop mem k i cache)) k' =
      (if k' = k then hm_ids (ids mem) cache k - {i} else hm_ids (ids mem) cache k')"
proof (cases "map_of cache k")
  case None
  then show ?thesis using assms by (auto simp: hm_pop_def hm_ids_def map_ok_def)
next
  case (Some e)
  have e: "entry_ok (ids mem) good e" using assms(1) Some by (simp add: map_ok_def)
  show ?thesis
  proof (cases e)
    case (Single b')
    then show ?thesis using assms e Some
      by (cases "kb_block_id (mem b') = i")
        (auto simp: hm_pop_def Let_def hm_ids_def entry_ids_def map_ok_def)
  next
    case (Multi d)
    let ?d = "AList.delete i d"
    have dk: "set (dkeys ?d) = set (dkeys d) - {i}" by (rule set_dkeys_delete)
    have mem: "map_of d i \<noteq> None \<longleftrightarrow> i \<in> set (dkeys d)" by (simp add: map_of_None_iff)
    have "distinct (dkeys ?d)" using e Multi by (simp add: entry_ok_def)
    moreover have "set ?d \<subseteq> set d" by (auto simp: AList.delete_eq)
    ultimately have ok: "?d \<noteq> [] \<Longrightarrow> entry_ok (ids mem) good (Multi ?d)"
      using e Multi by (auto simp: entry_ok_def)
    show ?thesis
    proof (cases "?d = []")
      case True
      then have "set (dkeys d) - {i} = {}" using dk by simp
      then show ?thesis using assms Some Multi True mem
        by (auto simp: hm_pop_def Let_def hm_ids_def entry_ids_def map_ok_def simp del: list.set_map)
    next
      case False
      then show ?thesis using assms Some Multi ok mem dk
        by (auto simp: hm_pop_def Let_def hm_ids_def entry_ids_def map_ok_def simp del: list.set_map)
    qed
  qed
qed

lemma get_one_block_spec:
  assumes "map_ok idf good cache"
  shows "\<exists>o'. get_one_block cache k = Inr o' \<and>
    (case o' of None \<Rightarrow> hm_ids idf cache k = {} | Some b \<Rightarrow> b \<in> good \<and> idf b \<in> hm_ids idf cache k)"
proof (cases "map_of cache k")
  case (Some e)
  have "entry_ok idf good e" using assms Some by (simp add: map_ok_def)
  then show ?thesis using Some
    by (cases e) (auto simp: get_one_block_def hm_ids_def entry_ids_def entry_ok_def neq_Nil_conv)
qed (simp add: get_one_block_def hm_ids_def)

section \<open>The invariant of the pool\<close>

definition good_blocks :: "block_pool \<Rightarrow> block_ref set" where
  "good_blocks p = set (bp_blocks p) - {bp_null_block p}"

definition pool_wf :: "block_pool \<Rightarrow> bool" where
  "pool_wf p \<longleftrightarrow>
     0 < bp_num_gpu_blocks p \<and> bp_blocks p = map Blk [0..<nat (bp_num_gpu_blocks p)] \<and>
     bp_null_block p = Blk 0 \<and>
     (\<forall>i < nat (bp_num_gpu_blocks p).
        kb_block_id (blk p (Blk i)) = int i \<and> (kb_is_null (blk p (Blk i)) \<longleftrightarrow> i = 0))"

definition aliases :: "block_pool \<Rightarrow> block_ref \<Rightarrow> bytes list" where
  "aliases p b =
     (case map_of (bp_cached_block_hashes_by_block p) (kb_block_id (blk p b)) of
        None \<Rightarrow> [] | Some hs \<Rightarrow> hs)"

text \<open>The keys under which a block is cached: its own hash and the partial entries.\<close>

definition block_keys :: "block_pool \<Rightarrow> block_ref \<Rightarrow> bytes set" where
  "block_keys p b = set_option (kb_block_hash (blk p b)) \<union> set (aliases p b)"

definition hash_ok :: "block_pool \<Rightarrow> bool" where
  "hash_ok p \<longleftrightarrow>
     map_ok (ids (blk p)) (good_blocks p) (bp_cached_block_hash_to_block p) \<and>
     (\<forall>b \<in> good_blocks p. \<forall>k.
        kb_block_id (blk p b) \<in> hm_ids (ids (blk p)) (bp_cached_block_hash_to_block p) k
          \<longleftrightarrow> k \<in> block_keys p b) \<and>
     (\<forall>b \<in> set (bp_blocks p). kb_block_hash (blk p b) = None \<longrightarrow>
        aliases p b = [] \<and> kb_block_hash_num_tokens (blk p b) = None) \<and>
     kb_block_hash (blk p (bp_null_block p)) = None"

definition refs_ok :: "block_pool \<Rightarrow> block_ref list \<Rightarrow> bool" where
  "refs_ok p xs \<longleftrightarrow>
     is_queue (bp_free_block_queue p) xs \<and>
     set xs = {b \<in> good_blocks p. kb_ref_cnt (blk p b) = 0} \<and>
     (\<forall>b \<in> good_blocks p. 0 \<le> kb_ref_cnt (blk p b))"

definition pool_inv :: "block_pool \<Rightarrow> bool" where
  "pool_inv p \<longleftrightarrow> pool_wf p \<and> hash_ok p \<and> (\<exists>xs. refs_ok p xs)"

text \<open>What each part of the invariant looks at.\<close>

definition hash_view where
  "hash_view p = (bp_blocks p, bp_null_block p, bp_cached_block_hash_to_block p,
     bp_cached_block_hashes_by_block p,
     \<lambda>b. (kb_block_id (blk p b), kb_block_hash (blk p b), kb_block_hash_num_tokens (blk p b)))"

definition wf_view where
  "wf_view p = (bp_num_gpu_blocks p, bp_blocks p, bp_null_block p, \<lambda>b. (kb_block_id (blk p b), kb_is_null (blk p b)))"

definition refs_view where
  "refs_view p = (fq_num_free_blocks (bp_free_block_queue p),
     \<lambda>b. (kb_prev_free_block (blk p b), kb_next_free_block (blk p b), kb_ref_cnt (blk p b)))"

lemmas view_defs = hash_view_def wf_view_def refs_view_def

lemma wf_view_cong: "wf_view p' = wf_view p \<Longrightarrow> pool_wf p' = pool_wf p"
  by (simp add: wf_view_def pool_wf_def fun_eq_iff)

lemma wf_view_good: "wf_view p' = wf_view p \<Longrightarrow> good_blocks p' = good_blocks p"
  by (simp add: wf_view_def good_blocks_def)

lemma hash_view_keys:
  "hash_view p' = hash_view p \<Longrightarrow> block_keys p' b = block_keys p b \<and> aliases p' b = aliases p b"
  by (simp add: hash_view_def block_keys_def aliases_def fun_eq_iff)

lemma hash_view_cong:
  assumes "hash_view p' = hash_view p" shows "hash_ok p' = hash_ok p"
proof -
  have "ids (blk p') = ids (blk p)" using assms by (simp add: hash_view_def fun_eq_iff)
  then show ?thesis
    using assms hash_view_keys [OF assms]
    by (simp add: hash_ok_def good_blocks_def hash_view_def fun_eq_iff)
qed

lemma refs_view_cong:
  assumes "refs_view p' = refs_view p" "wf_view p' = wf_view p" shows "refs_ok p' xs = refs_ok p xs"
proof -
  have l: "same_links (blk p) (blk p')" "same_links (blk p') (blk p)"
    and n: "fq_num_free_blocks (bp_free_block_queue p') = fq_num_free_blocks (bp_free_block_queue p)"
    and r: "\<And>b. kb_ref_cnt (blk p' b) = kb_ref_cnt (blk p b)"
    using assms(1) by (auto simp: refs_view_def same_links_def fun_eq_iff)
  have "is_queue (bp_free_block_queue p') xs = is_queue (bp_free_block_queue p) xs"
    using is_queue_same_links l n by metis
  then show ?thesis using r wf_view_good [OF assms(2)] by (simp add: refs_ok_def)
qed

lemma reset_hash_fields [simp]:
  "kb_block_id (reset_hash x) = kb_block_id x" "kb_ref_cnt (reset_hash x) = kb_ref_cnt x"
  "kb_is_null (reset_hash x) = kb_is_null x" "kb_block_hash (reset_hash x) = None"
  "kb_hierarchy_state (reset_hash x) = kb_hierarchy_state x"
  "kb_block_hash_num_tokens (reset_hash x) = None"
  "kb_prev_free_block (reset_hash x) = kb_prev_free_block x"
  "kb_next_free_block (reset_hash x) = kb_next_free_block x"
  by (simp_all add: reset_hash_def)

lemma blk_set_blk [simp]: "blk (set_blk b x p) = (blk p)(b := x)"
  by (simp add: set_blk_def)

lemma set_blk_fields [simp]:
  "bp_num_gpu_blocks (set_blk b x p) = bp_num_gpu_blocks p"
  "bp_enable_caching (set_blk b x p) = bp_enable_caching p"
  "bp_hash_block_size (set_blk b x p) = bp_hash_block_size p"
  "bp_blocks (set_blk b x p) = bp_blocks p"
  "bp_cached_block_hash_to_block (set_blk b x p) = bp_cached_block_hash_to_block p"
  "bp_cached_block_hashes_by_block (set_blk b x p) = bp_cached_block_hashes_by_block p"
  "bp_null_block (set_blk b x p) = bp_null_block p"
  "bp_enable_kv_cache_events (set_blk b x p) = bp_enable_kv_cache_events p"
  "bp_use_int_block_hashes (set_blk b x p) = bp_use_int_block_hashes p"
  "bp_kv_event_queue (set_blk b x p) = bp_kv_event_queue p"
  "bp_metrics_collector (set_blk b x p) = bp_metrics_collector p"
  "fq_num_free_blocks (bp_free_block_queue (set_blk b x p)) = fq_num_free_blocks (bp_free_block_queue p)"
  by (simp_all add: set_blk_def)

lemma notify_views [simp]:
  "hash_view (notify note p) = hash_view p" "wf_view (notify note p) = wf_view p"
  "refs_view (notify note p) = refs_view p" "blk (notify note p) = blk p"
  "bp_enable_caching (notify note p) = bp_enable_caching p"
  "bp_free_block_queue (notify note p) = bp_free_block_queue p"
  "bp_enable_kv_cache_events (notify note p) = bp_enable_kv_cache_events p"
  by (simp_all add: notify_def view_defs)

lemma emit_views [simp]:
  "hash_view (emit_block_removed_events hs p) = hash_view p"
  "wf_view (emit_block_removed_events hs p) = wf_view p"
  "refs_view (emit_block_removed_events hs p) = refs_view p"
  "blk (emit_block_removed_events hs p) = blk p"
  "bp_enable_caching (emit_block_removed_events hs p) = bp_enable_caching p"
  "bp_free_block_queue (emit_block_removed_events hs p) = bp_free_block_queue p"
  "bp_enable_kv_cache_events (emit_block_removed_events hs p) = bp_enable_kv_cache_events p"
  by (simp_all add: emit_block_removed_events_def view_defs)

lemma pool_wf_ids:
  assumes "pool_wf p" "b \<in> set (bp_blocks p)" "b' \<in> set (bp_blocks p)"
    "kb_block_id (blk p b) = kb_block_id (blk p b')"
  shows "b = b'"
  using assms by (auto simp: pool_wf_def)

lemma pool_wf_null:
  "pool_wf p \<Longrightarrow> b \<in> set (bp_blocks p) \<Longrightarrow> kb_is_null (blk p b) \<longleftrightarrow> b = bp_null_block p"
  by (auto simp: pool_wf_def)

lemma pool_wf_good: "pool_wf p \<Longrightarrow> b \<in> good_blocks p \<Longrightarrow> is_real b \<and> \<not> kb_is_null (blk p b)"
  by (auto simp: pool_wf_def good_blocks_def is_real_def)

lemma good_in_blocks: "b \<in> good_blocks p \<Longrightarrow> b \<in> set (bp_blocks p)"
  by (simp add: good_blocks_def)

section \<open>The keys of a block change only as intended\<close>

lemma pop_hash_fold:
  assumes "map_ok (ids (blk p)) good (bp_cached_block_hash_to_block p)"
  shows "\<exists>c acc'. fold (pop_hash i) hs (acc, p) = (acc', p\<lparr>bp_cached_block_hash_to_block := c\<rparr>) \<and>
    map_ok (ids (blk p)) good c \<and>
    (\<forall>k. hm_ids (ids (blk p)) c k = (if k \<in> set hs then hm_ids (ids (blk p)) (bp_cached_block_hash_to_block p) k - {i}
       else hm_ids (ids (blk p)) (bp_cached_block_hash_to_block p) k)) \<and>
    set acc' = set acc \<union> {h \<in> set hs. i \<in> hm_ids (ids (blk p)) (bp_cached_block_hash_to_block p) h}"
  using assms
proof (induction hs arbitrary: acc p)
  case Nil
  then show ?case
    by (intro exI [of _ "bp_cached_block_hash_to_block p"]) simp
next
  case (Cons h hs)
  let ?c = "bp_cached_block_hash_to_block p"
  obtain o' c1 where pop: "hm_pop (blk p) h i ?c = (o', c1)" by fastforce
  note sp = hm_pop_spec [OF Cons.prems, of h i, unfolded pop fst_conv snd_conv]
  let ?acc = "if o' \<noteq> None then acc @ [h] else acc"
  let ?p = "p\<lparr>bp_cached_block_hash_to_block := c1\<rparr>"
  have step: "pop_hash i h (acc, p) = (?acc, ?p)" by (simp add: pop_hash_def pop)
  have "map_ok (ids (blk ?p)) good (bp_cached_block_hash_to_block ?p)" using sp by simp
  from Cons.IH [OF this, of ?acc] obtain c acc' where
    r: "fold (pop_hash i) hs (?acc, ?p) = (acc', p\<lparr>bp_cached_block_hash_to_block := c\<rparr>)"
      "map_ok (ids (blk p)) good c"
      "\<forall>k. hm_ids (ids (blk p)) c k = (if k \<in> set hs then hm_ids (ids (blk p)) c1 k - {i} else hm_ids (ids (blk p)) c1 k)"
      "set acc' = set ?acc \<union> {h \<in> set hs. i \<in> hm_ids (ids (blk p)) c1 h}"
    by auto
  have k1: "hm_ids (ids (blk p)) c1 k' = (if k' = h then hm_ids (ids (blk p)) ?c h - {i} else hm_ids (ids (blk p)) ?c k')" for k'
    by (rule sp [THEN conjunct2, THEN conjunct2])
  have o': "o' \<noteq> None \<longleftrightarrow> i \<in> hm_ids (ids (blk p)) ?c h"
    by (rule sp [THEN conjunct2, THEN conjunct1])
  have "\<forall>k. hm_ids (ids (blk p)) c k = (if k \<in> set (h # hs) then hm_ids (ids (blk p)) ?c k - {i}
       else hm_ids (ids (blk p)) ?c k)" using r(3) k1 by auto
  moreover have "set acc' = set acc \<union> {x \<in> set (h # hs). i \<in> hm_ids (ids (blk p)) ?c x}"
    using r(4) k1 o' by auto
  ultimately show ?case using step r(1,2) by auto
qed

lemma aliases_other:
  assumes "pool_wf p" "b \<in> set (bp_blocks p)" "b' \<in> set (bp_blocks p)" "b' \<noteq> b"
  shows "kb_block_id (blk p b') \<noteq> kb_block_id (blk p b)"
  using pool_wf_ids assms by metis

lemma remove_hashes_spec:
  assumes wf: "pool_wf p" and h: "hash_ok p" and b: "b \<in> set (bp_blocks p)"
  shows "\<exists>removed p'. remove_cached_block_hashes b p = (removed, p') \<and>
    wf_view p' = wf_view p \<and> refs_view p' = refs_view p \<and> hash_ok p' \<and>
    set removed = block_keys p b \<and> block_keys p' b = {} \<and> kb_block_hash (blk p' b) = None \<and>
    (\<forall>b' \<in> set (bp_blocks p). b' \<noteq> b \<longrightarrow> block_keys p' b' = block_keys p b' \<and> blk p' b' = blk p b') \<and>
    kb_hierarchy_state (blk p' b) = kb_hierarchy_state (blk p b) \<and>
    bp_enable_caching p' = bp_enable_caching p"
proof -
  let ?i = "kb_block_id (blk p b)"
  let ?p1 = "p\<lparr>bp_cached_block_hashes_by_block := AList.delete ?i (bp_cached_block_hashes_by_block p)\<rparr>"
  let ?hs = "(case kb_block_hash (blk p b) of None \<Rightarrow> [] | Some h \<Rightarrow> [h]) @ aliases p b"
  have hs: "set ?hs = block_keys p b" by (auto simp: block_keys_def split: option.splits)
  have al: "aliases ?p1 b' = (if b' = b then [] else aliases p b')" if "b' \<in> set (bp_blocks p)" for b'
    using aliases_other [OF wf b that] by (auto simp: aliases_def)
  show ?thesis
  proof (cases "?hs = []")
    case True
    then have none: "kb_block_hash (blk p b) = None" "aliases p b = []" by (auto split: option.splits)
    have run: "remove_cached_block_hashes b p = ([], ?p1)"
      using True by (simp add: remove_cached_block_hashes_def aliases_def Let_def)
    have keys: "block_keys ?p1 b' = block_keys p b'" if "b' \<in> set (bp_blocks p)" for b'
      using al [OF that] none(2) by (simp add: block_keys_def)
    have good: "good_blocks ?p1 = good_blocks p" by (simp add: good_blocks_def)
    have "hash_ok ?p1"
      unfolding hash_ok_def good
    proof (intro conjI ballI allI impI)
      fix b' assume "b' \<in> set (bp_blocks ?p1)" "kb_block_hash (blk ?p1 b') = None"
      then show "aliases ?p1 b' = []" "kb_block_hash_num_tokens (blk ?p1 b') = None"
        using h al [of b'] by (simp_all add: hash_ok_def)
    next
      fix b' k assume "b' \<in> good_blocks p"
      then show "kb_block_id (blk ?p1 b') \<in> hm_ids (ids (blk ?p1)) (bp_cached_block_hash_to_block ?p1) k
          \<longleftrightarrow> k \<in> block_keys ?p1 b'"
        using h keys [OF good_in_blocks] by (simp add: hash_ok_def)
    qed (use h in \<open>simp_all add: hash_ok_def\<close>)
    then show ?thesis
      using run keys hs True none al [OF b] by (simp add: view_defs block_keys_def)
  next
    case False
    have good: "b \<in> good_blocks p"
    proof (rule ccontr)
      assume "b \<notin> good_blocks p"
      then have "b = bp_null_block p" using b by (simp add: good_blocks_def)
      then show False using h b False by (auto simp: hash_ok_def)
    qed
    have mo: "map_ok (ids (blk ?p1)) (good_blocks p) (bp_cached_block_hash_to_block ?p1)"
      using h by (simp add: hash_ok_def)
    obtain c removed where f: "fold (pop_hash ?i) ?hs ([], ?p1) = (removed, ?p1\<lparr>bp_cached_block_hash_to_block := c\<rparr>)"
      and c: "map_ok (ids (blk p)) (good_blocks p) c"
      and ci: "\<forall>k. hm_ids (ids (blk p)) c k = (if k \<in> set ?hs then hm_ids (ids (blk p)) (bp_cached_block_hash_to_block p) k - {?i}
         else hm_ids (ids (blk p)) (bp_cached_block_hash_to_block p) k)"
      and rem: "set removed = {h \<in> set ?hs. ?i \<in> hm_ids (ids (blk p)) (bp_cached_block_hash_to_block p) h}"
      using pop_hash_fold [OF mo, of ?i ?hs "[]"] by auto
    let ?p2 = "?p1\<lparr>bp_cached_block_hash_to_block := c\<rparr>"
    let ?p' = "set_blk b (reset_hash (blk p b)) ?p2"
    have run: "remove_cached_block_hashes b p = (removed, ?p')"
      using False f by (simp add: remove_cached_block_hashes_def aliases_def [symmetric] Let_def del: fold_append append_is_Nil_conv)
    have own: "\<forall>b' \<in> good_blocks p. \<forall>k. kb_block_id (blk p b') \<in> hm_ids (ids (blk p)) (bp_cached_block_hash_to_block p) k
        \<longleftrightarrow> k \<in> block_keys p b'" using h by (simp add: hash_ok_def)
    have ids': "ids (blk ?p') = ids (blk p)" by (auto simp: reset_hash_def)
    have al': "aliases ?p' b' = (if b' = b then [] else aliases p b')" if "b' \<in> set (bp_blocks p)" for b'
      using al [OF that] by (auto simp: aliases_def reset_hash_def)
    have keys: "block_keys ?p' b' = (if b' = b then {} else block_keys p b')" if "b' \<in> set (bp_blocks p)" for b'
      using al' [OF that] by (simp add: block_keys_def reset_hash_def)
    have views: "wf_view ?p' = wf_view p" "refs_view ?p' = refs_view p"
      by (simp_all add: view_defs reset_hash_def fun_eq_iff)
    have "hash_ok ?p'"
      unfolding hash_ok_def
    proof (intro conjI ballI allI impI)
      show "map_ok (ids (blk ?p')) (good_blocks ?p') (bp_cached_block_hash_to_block ?p')"
        using c wf_view_good [OF views(1)] by (simp only: ids') simp
      fix b' k assume "b' \<in> good_blocks ?p'"
      then have b': "b' \<in> good_blocks p" using wf_view_good [OF views(1)] by simp
      have "kb_block_id (blk p b') \<noteq> ?i" if "b' \<noteq> b"
        using aliases_other [OF wf b good_in_blocks [OF b'] that] .
      then show "kb_block_id (blk ?p' b') \<in> hm_ids (ids (blk ?p')) (bp_cached_block_hash_to_block ?p') k
          \<longleftrightarrow> k \<in> block_keys ?p' b'"
        using own b' good ci hs keys [OF good_in_blocks [OF b']] unfolding ids' by auto
    next
      fix b' assume "b' \<in> set (bp_blocks ?p')" "kb_block_hash (blk ?p' b') = None"
      then show "aliases ?p' b' = []" "kb_block_hash_num_tokens (blk ?p' b') = None"
        using h al' [of b'] by (auto simp: hash_ok_def reset_hash_def split: if_splits)
    next
      show "kb_block_hash (blk ?p' (bp_null_block ?p')) = None"
        using h by (simp add: hash_ok_def reset_hash_def)
    qed
    moreover have "set removed = block_keys p b" using rem hs own good by auto
    ultimately show ?thesis using run views keys b by (simp add: reset_hash_def)
  qed
qed

lemma insert_hash_spec:
  assumes wf: "pool_wf p" and h: "hash_ok p" and b: "b \<in> good_blocks p"
  shows "\<exists>p'. insert_block_hash key b nt p = Inr p' \<and>
    wf_view p' = wf_view p \<and> refs_view p' = refs_view p \<and> hash_ok p' \<and>
    (\<forall>b' \<in> set (bp_blocks p). block_keys p' b' =
       (if b' = b then insert key (block_keys p b) else block_keys p b')) \<and>
    bp_enable_kv_cache_events p' = bp_enable_kv_cache_events p \<and>
    bp_enable_caching p' = bp_enable_caching p"
proof -
  let ?i = "kb_block_id (blk p b)" and ?c = "bp_cached_block_hash_to_block p"
  have bb: "b \<in> set (bp_blocks p)" using good_in_blocks [OF b] .
  have own: "\<forall>b' \<in> good_blocks p. \<forall>k. kb_block_id (blk p b') \<in> hm_ids (ids (blk p)) ?c k
      \<longleftrightarrow> k \<in> block_keys p b'" using h by (simp add: hash_ok_def)
  show ?thesis
  proof (cases "kb_block_hash (blk p b) = Some key \<or> hm_contain (blk p) ?c key ?i")
    case True
    then have "key \<in> block_keys p b" using own b by (auto simp: hm_contain_iff block_keys_def)
    moreover have "insert_block_hash key b nt p = Inr p"
      using True by (auto simp: insert_block_hash_def Let_def)
    ultimately show ?thesis using h by (auto simp: insert_absorb)
  next
    case False
    let ?set = "\<lambda>q. q\<lparr>bp_cached_block_hash_to_block := hm_insert (blk q) key b (bp_cached_block_hash_to_block q)\<rparr>"
    define p1 where "p1 = (if kb_block_hash (blk p b) = None
        then set_blk b ((blk p b)\<lparr>kb_block_hash := Some key, kb_block_hash_num_tokens := nt\<rparr>) p
        else p\<lparr>bp_cached_block_hashes_by_block :=
            AList.update ?i (if key \<in> set (aliases p b) then aliases p b else aliases p b @ [key])
              (bp_cached_block_hashes_by_block p)\<rparr>)"
    have "kb_block_hash (blk p b) = None \<longrightarrow> kb_block_hash_num_tokens (blk p b) = None"
      using h bb by (simp add: hash_ok_def)
    then have run: "insert_block_hash key b nt p = Inr (?set p1)"
      using False by (auto simp: insert_block_hash_def p1_def set_block_hash_def aliases_def Let_def)
    have views1: "wf_view p1 = wf_view p" "refs_view p1 = refs_view p"
      by (auto simp: view_defs p1_def fun_eq_iff)
    have ids1: "ids (blk p1) = ids (blk p)" by (auto simp: p1_def)
    have c1: "bp_cached_block_hash_to_block p1 = ?c" by (simp add: p1_def)
    have al: "aliases p1 b' = (if b' = b \<and> kb_block_hash (blk p b) \<noteq> None
          then (if key \<in> set (aliases p b) then aliases p b else aliases p b @ [key]) else aliases p b')"
      if "b' \<in> set (bp_blocks p)" for b'
      using aliases_other [OF wf bb that] by (auto simp: p1_def aliases_def)
    have keys: "block_keys (?set p1) b' = (if b' = b then insert key (block_keys p b) else block_keys p b')"
      if "b' \<in> set (bp_blocks p)" for b'
    proof -
      have "block_keys p1 b' = (if b' = b then insert key (block_keys p b) else block_keys p b')"
        using al [OF that] h bb by (auto simp: block_keys_def p1_def hash_ok_def)
      moreover have "block_keys (?set p1) b' = block_keys p1 b'" by (simp add: block_keys_def aliases_def)
      ultimately show ?thesis by simp
    qed
    have "map_ok (ids (blk p1)) (good_blocks p) (bp_cached_block_hash_to_block p1)"
      using h c1 ids1 by (simp add: hash_ok_def)
    note hi = hm_insert_spec [OF this b, of key]
    have good: "good_blocks (?set p1) = good_blocks p"
      using wf_view_good [OF views1(1)] by (simp add: good_blocks_def)
    have "hash_ok (?set p1)"
      unfolding hash_ok_def good
    proof (intro conjI ballI allI impI)
      show "map_ok (ids (blk (?set p1))) (good_blocks p) (bp_cached_block_hash_to_block (?set p1))"
        using hi by simp
      fix b' k assume b': "b' \<in> good_blocks p"
      have "hm_ids (ids (blk p)) (bp_cached_block_hash_to_block (?set p1)) k =
          (if k = key then insert ?i (hm_ids (ids (blk p)) ?c key) else hm_ids (ids (blk p)) ?c k)"
        using hi c1 ids1 by (simp add: fun_eq_iff)
      moreover have "kb_block_id (blk p b') \<noteq> ?i" if "b' \<noteq> b"
        using aliases_other [OF wf bb good_in_blocks [OF b'] that] .
      ultimately show "kb_block_id (blk (?set p1) b') \<in> hm_ids (ids (blk (?set p1)))
          (bp_cached_block_hash_to_block (?set p1)) k \<longleftrightarrow> k \<in> block_keys (?set p1) b'"
        using own b' b keys [OF good_in_blocks [OF b']] ids1 by (auto simp: fun_eq_iff)
    next
      fix b' assume a: "b' \<in> set (bp_blocks (?set p1))" "kb_block_hash (blk (?set p1) b') = None"
      have "b' \<in> set (bp_blocks p)" using a(1) by (simp add: p1_def split: if_splits)
      moreover have "b' \<noteq> b" "kb_block_hash (blk p b') = None"
        using a(2) by (auto simp: p1_def split: if_splits)
      moreover have "aliases (?set p1) b' = aliases p1 b'" by (simp add: aliases_def)
      ultimately show "aliases (?set p1) b' = []" "kb_block_hash_num_tokens (blk (?set p1) b') = None"
        using h al [of b'] by (auto simp: hash_ok_def p1_def)
    next
      show "kb_block_hash (blk (?set p1) (bp_null_block (?set p1))) = None"
        using h b by (auto simp: hash_ok_def p1_def good_blocks_def)
    qed
    moreover have "wf_view (?set p1) = wf_view p" "refs_view (?set p1) = refs_view p"
      using views1 by (simp_all add: view_defs)
    moreover have "bp_enable_kv_cache_events p1 = bp_enable_kv_cache_events p"
      "bp_enable_caching p1 = bp_enable_caching p" by (simp_all add: p1_def)
    ultimately show ?thesis using run keys by simp
  qed
qed

lemma get_cached_block_spec:
  assumes h: "hash_ok p" and wf: "pool_wf p"
    and run: "get_cached_block p bh gs = Inr found"
  shows "case found of
      Some bs \<Rightarrow> list_all2 (\<lambda>g b. b \<in> good_blocks p \<and>
        (\<exists>key. make_block_hash_with_group_id bh g = Inr key \<and> key \<in> block_keys p b)) gs bs
    | None \<Rightarrow> \<exists>g \<in> set gs. \<exists>key. make_block_hash_with_group_id bh g = Inr key \<and>
        (\<forall>b \<in> good_blocks p. key \<notin> block_keys p b)"
  using run
proof (induction gs arbitrary: found)
  case (Cons g gs)
  have mo: "map_ok (ids (blk p)) (good_blocks p) (bp_cached_block_hash_to_block p)"
    and own: "\<forall>b' \<in> good_blocks p. \<forall>k. kb_block_id (blk p b') \<in> hm_ids (ids (blk p)) (bp_cached_block_hash_to_block p) k
      \<longleftrightarrow> k \<in> block_keys p b'" using h by (auto simp: hash_ok_def)
  obtain key where key: "make_block_hash_with_group_id bh g = Inr key"
    using Cons.prems by (auto simp: rbind_eq_Inr)
  obtain o' where o': "get_one_block (bp_cached_block_hash_to_block p) key = Inr o'"
    and sp: "case o' of None \<Rightarrow> hm_ids (ids (blk p)) (bp_cached_block_hash_to_block p) key = {}
      | Some b \<Rightarrow> b \<in> good_blocks p \<and> kb_block_id (blk p b) \<in> hm_ids (ids (blk p)) (bp_cached_block_hash_to_block p) key"
    using get_one_block_spec [OF mo] by blast
  show ?case
  proof (cases o')
    case None
    then show ?thesis using Cons.prems key o' sp own by auto
  next
    case (Some b)
    then obtain rest where r: "get_cached_block p bh gs = Inr rest" "found = map_option (\<lambda>bs. b # bs) rest"
      using Cons.prems key o' by (auto simp: rbind_eq_Inr)
    show ?thesis using Cons.IH [OF r(1)] r(2) key sp own Some by (cases rest) auto
  qed
qed auto

section \<open>References and the free list\<close>

definition links_view where
  "links_view p = (fq_num_free_blocks (bp_free_block_queue p),
     \<lambda>b. (kb_prev_free_block (blk p b), kb_next_free_block (blk p b)))"

abbreviation refs :: "block_pool \<Rightarrow> block_ref \<Rightarrow> int" where
  "refs p b \<equiv> kb_ref_cnt (blk p b)"

lemma refs_view_split: "refs_view p' = refs_view p \<longleftrightarrow> links_view p' = links_view p \<and> (\<forall>b. refs p' b = refs p b)"
  by (auto simp: refs_view_def links_view_def fun_eq_iff)

lemma links_view_queue:
  "links_view p' = links_view p \<Longrightarrow> is_queue (bp_free_block_queue p') xs = is_queue (bp_free_block_queue p) xs"
proof -
  assume "links_view p' = links_view p"
  then have l: "same_links (blk p) (blk p')" "same_links (blk p') (blk p)"
    and n: "fq_num_free_blocks (bp_free_block_queue p') = fq_num_free_blocks (bp_free_block_queue p)"
    by (auto simp: links_view_def same_links_def fun_eq_iff)
  show ?thesis using is_queue_same_links l n by metis
qed

lemma notify_emit_links [simp]:
  "links_view (notify note p) = links_view p" "links_view (emit_block_removed_events hs p) = links_view p"
  by (simp_all add: links_view_def)

lemma queue_update_views:
  assumes "same_data (bp_free_block_queue p) q"
  shows "wf_view (p\<lparr>bp_free_block_queue := q\<rparr>) = wf_view p"
    and "hash_view (p\<lparr>bp_free_block_queue := q\<rparr>) = hash_view p"
    and "refs (p\<lparr>bp_free_block_queue := q\<rparr>) b = refs p b"
    and "kb_hierarchy_state (blk (p\<lparr>bp_free_block_queue := q\<rparr>) b) = kb_hierarchy_state (blk p b)"
proof -
  have "data_of (fq_mem q b) = data_of (blk p b)" for b using assms by (simp add: same_data_def)
  note e = data_of_eq [OF this]
  show "wf_view (p\<lparr>bp_free_block_queue := q\<rparr>) = wf_view p"
    and "hash_view (p\<lparr>bp_free_block_queue := q\<rparr>) = hash_view p"
    and "refs (p\<lparr>bp_free_block_queue := q\<rparr>) b = refs p b"
    and "kb_hierarchy_state (blk (p\<lparr>bp_free_block_queue := q\<rparr>) b) = kb_hierarchy_state (blk p b)"
    using e by (simp_all add: view_defs)
qed

lemma queue_update_keys:
  "same_data (bp_free_block_queue p) q \<Longrightarrow> block_keys (p\<lparr>bp_free_block_queue := q\<rparr>) b = block_keys p b"
  using hash_view_keys [OF queue_update_views(2)] by blast

lemma claim_block_spec:
  assumes wf: "pool_wf p" and h: "hash_ok p" and b: "b \<in> good_blocks p" and r: "refs p b = 0"
  shows "\<exists>p'. claim_block b p = Inr p' \<and> wf_view p' = wf_view p \<and> hash_ok p' \<and>
    links_view p' = links_view p \<and> (\<forall>b'. b' \<in> set (bp_blocks p) \<longrightarrow> refs p' b' = (if b' = b then 1 else refs p b')) \<and>
    kb_hierarchy_state (blk p' b) = HOT \<and>
    block_keys p' b = (if bp_enable_caching p then {} else block_keys p b) \<and>
    (\<forall>b' \<in> set (bp_blocks p). b' \<noteq> b \<longrightarrow> block_keys p' b' = block_keys p b' \<and>
       kb_hierarchy_state (blk p' b') = kb_hierarchy_state (blk p b')) \<and>
    bp_enable_caching p' = bp_enable_caching p"
proof -
  let ?n = "notify (OnBlockEvicted (kb_block_id (blk p b))) p"
  define p1 where "p1 = (if bp_enable_caching p then snd (maybe_evict_cached_block b p) else p)"
  have bb: "b \<in> set (bp_blocks p)" using good_in_blocks [OF b] .
  have p1: "wf_view p1 = wf_view p \<and> refs_view p1 = refs_view p \<and> hash_ok p1 \<and>
    block_keys p1 b = (if bp_enable_caching p then {} else block_keys p b) \<and>
    (\<forall>b' \<in> set (bp_blocks p). b' \<noteq> b \<longrightarrow> block_keys p1 b' = block_keys p b' \<and>
       kb_hierarchy_state (blk p1 b') = kb_hierarchy_state (blk p b')) \<and>
    bp_enable_caching p1 = bp_enable_caching p"
  proof (cases "bp_enable_caching p")
    case True
    have n: "pool_wf ?n" "hash_ok ?n" "b \<in> set (bp_blocks ?n)"
      using wf h bb wf_view_cong [of ?n p] hash_view_cong [of ?n p] by (simp_all, simp add: notify_def)
    obtain removed p2 where p2: "remove_cached_block_hashes b ?n = (removed, p2)"
      "wf_view p2 = wf_view ?n" "refs_view p2 = refs_view ?n" "hash_ok p2" "block_keys p2 b = {}"
      "\<forall>b' \<in> set (bp_blocks ?n). b' \<noteq> b \<longrightarrow> block_keys p2 b' = block_keys ?n b' \<and> blk p2 b' = blk ?n b'"
      "bp_enable_caching p2 = bp_enable_caching ?n"
      using remove_hashes_spec [OF n] by blast
    have "p1 = p2 \<or> p1 = emit_block_removed_events removed p2"
      using True p2(1) by (auto simp: p1_def maybe_evict_cached_block_def Let_def)
    moreover have "hash_ok (emit_block_removed_events removed p2)"
      using p2(4) hash_view_cong [of "emit_block_removed_events removed p2" p2] by simp
    moreover have "block_keys (emit_block_removed_events removed p2) b' = block_keys p2 b'" for b'
      using hash_view_keys [of "emit_block_removed_events removed p2" p2] by simp
    moreover have "block_keys ?n b' = block_keys p b'" for b'
      using hash_view_keys [of ?n p] by simp
    moreover have "bp_blocks ?n = bp_blocks p" by (simp add: notify_def)
    ultimately show ?thesis using p2 True by auto
  next
    case False
    then show ?thesis using h by (simp add: p1_def)
  qed
  let ?x = "reset_hierarchy_state (blk p1 b)"
  let ?p2 = "set_blk b (?x\<lparr>kb_ref_cnt := 1\<rparr>) p1"
  let ?p' = "notify (OnBlockAllocated (kb_block_id (blk p1 b))) ?p2"
  have r1: "refs p1 b = 0" using p1 r by (simp add: refs_view_split)
  have two: "set_blk b y (set_blk b x p1) = set_blk b y p1" for x y by (simp add: set_blk_def)
  have run: "claim_block b p = Inr ?p'"
    using r1 by (simp add: claim_block_def Let_def p1_def [symmetric] reset_hierarchy_state_def two)
  have v: "wf_view ?p2 = wf_view p1" "hash_view ?p2 = hash_view p1" "links_view ?p2 = links_view p1"
    by (auto simp: view_defs links_view_def reset_hierarchy_state_def fun_eq_iff)
  have "hash_ok ?p'" using p1 hash_view_cong [of ?p' p1] v by simp
  moreover have "block_keys ?p' b' = block_keys p1 b'" for b' using hash_view_keys [of ?p' p1] v by simp
  ultimately show ?thesis using run p1 v
    by (simp add: refs_view_split reset_hierarchy_state_def)
qed

lemma claim_fold_spec:
  assumes "pool_wf p" "hash_ok p" "distinct bs" "set bs \<subseteq> good_blocks p" "\<forall>b \<in> set bs. refs p b = 0"
  shows "\<exists>p'. rfold claim_block bs p = Inr p' \<and> wf_view p' = wf_view p \<and> hash_ok p' \<and>
    links_view p' = links_view p \<and>
    (\<forall>b' \<in> set (bp_blocks p). refs p' b' = (if b' \<in> set bs then 1 else refs p b')) \<and>
    (\<forall>b' \<in> set bs. kb_hierarchy_state (blk p' b') = HOT \<and>
       (bp_enable_caching p \<longrightarrow> block_keys p' b' = {})) \<and>
    (\<forall>b' \<in> set (bp_blocks p). b' \<notin> set bs \<or> \<not> bp_enable_caching p \<longrightarrow> block_keys p' b' = block_keys p b') \<and>
    (\<forall>b' \<in> set (bp_blocks p). b' \<notin> set bs \<longrightarrow>
       kb_hierarchy_state (blk p' b') = kb_hierarchy_state (blk p b')) \<and>
    bp_enable_caching p' = bp_enable_caching p"
  using assms
proof (induction bs arbitrary: p)
  case (Cons b bs)
  obtain p1 where p1: "claim_block b p = Inr p1" "wf_view p1 = wf_view p" "hash_ok p1"
    "links_view p1 = links_view p" "\<forall>b' \<in> set (bp_blocks p). refs p1 b' = (if b' = b then 1 else refs p b')"
    "kb_hierarchy_state (blk p1 b) = HOT"
    "block_keys p1 b = (if bp_enable_caching p then {} else block_keys p b)"
    "\<forall>b' \<in> set (bp_blocks p). b' \<noteq> b \<longrightarrow> block_keys p1 b' = block_keys p b' \<and>
       kb_hierarchy_state (blk p1 b') = kb_hierarchy_state (blk p b')"
    "bp_enable_caching p1 = bp_enable_caching p"
    using claim_block_spec [OF Cons.prems(1,2), of b] Cons.prems(4,5) by auto
  have bl: "bp_blocks p1 = bp_blocks p" using p1(2) by (simp add: wf_view_def)
  have "refs p1 b' = 0" if "b' \<in> set bs" for b'
    using that p1(5) Cons.prems(3-5) good_in_blocks by (metis (no_types, lifting) distinct.simps(2) list.set_intros(2) subsetD)
  moreover have "set bs \<subseteq> good_blocks p1" using Cons.prems(4) wf_view_good [OF p1(2)] by auto
  ultimately obtain p2 where p2: "rfold claim_block bs p1 = Inr p2" "wf_view p2 = wf_view p1" "hash_ok p2"
    "links_view p2 = links_view p1"
    "\<forall>b' \<in> set (bp_blocks p1). refs p2 b' = (if b' \<in> set bs then 1 else refs p1 b')"
    "\<forall>b' \<in> set bs. kb_hierarchy_state (blk p2 b') = HOT \<and> (bp_enable_caching p1 \<longrightarrow> block_keys p2 b' = {})"
    "\<forall>b' \<in> set (bp_blocks p1). b' \<notin> set bs \<or> \<not> bp_enable_caching p1 \<longrightarrow> block_keys p2 b' = block_keys p1 b'"
    "\<forall>b' \<in> set (bp_blocks p1). b' \<notin> set bs \<longrightarrow>
       kb_hierarchy_state (blk p2 b') = kb_hierarchy_state (blk p1 b')"
    "bp_enable_caching p2 = bp_enable_caching p1"
    using Cons.IH [of p1] Cons.prems p1(3) wf_view_cong [OF p1(2)] by auto
  have nb: "b \<notin> set bs" "b \<in> set (bp_blocks p)" using Cons.prems(3,4) good_in_blocks by auto
  have "rfold claim_block (b # bs) p = Inr p2" using p1(1) p2(1) by simp
  moreover have "\<forall>b' \<in> set (bp_blocks p). refs p2 b' = (if b' \<in> set (b # bs) then 1 else refs p b')"
    using p2(5) p1(5) bl by auto
  moreover have "\<forall>b' \<in> set (b # bs). kb_hierarchy_state (blk p2 b') = HOT \<and>
       (bp_enable_caching p \<longrightarrow> block_keys p2 b' = {})"
    using p2(6,7,8) p1(6,7,9) nb bl by auto
  moreover have "\<forall>b' \<in> set (bp_blocks p). b' \<notin> set (b # bs) \<or> \<not> bp_enable_caching p \<longrightarrow>
      block_keys p2 b' = block_keys p b'"
    using p2(7) p1(7,8,9) nb bl by auto
  moreover have "\<forall>b' \<in> set (bp_blocks p). b' \<notin> set (b # bs) \<longrightarrow>
       kb_hierarchy_state (blk p2 b') = kb_hierarchy_state (blk p b')"
    using p2(8) p1(8) bl by auto
  ultimately show ?case using p1(2,4,9) p2(2,3,4,9) by auto
qed auto

lemma refs_okD:
  assumes "refs_ok p xs"
  shows "is_queue (bp_free_block_queue p) xs" "distinct xs" "set xs \<subseteq> good_blocks p"
    "b \<in> set xs \<Longrightarrow> refs p b = 0" "b \<in> good_blocks p \<Longrightarrow> refs p b = 0 \<longleftrightarrow> b \<in> set xs"
    "b \<in> good_blocks p \<Longrightarrow> 0 \<le> refs p b" "get_num_free_blocks p = int (length xs)"
  using assms fl.rep_count fl.rep_distinct by (auto simp: refs_ok_def get_num_free_blocks_def)

lemma get_new_blocks_spec:
  assumes wf: "pool_wf p" and h: "hash_ok p" and r: "refs_ok p xs" and n: "0 \<le> n"
  shows "if int (length xs) < n then get_new_blocks n p = Inl ValueError
    else \<exists>p'. get_new_blocks n p = Inr (take (nat n) xs, p') \<and> wf_view p' = wf_view p \<and> hash_ok p' \<and>
      refs_ok p' (drop (nat n) xs) \<and>
      (\<forall>b \<in> set (bp_blocks p). refs p' b = (if b \<in> set (take (nat n) xs) then 1 else refs p b)) \<and>
      (\<forall>b \<in> set (take (nat n) xs). kb_hierarchy_state (blk p' b) = HOT \<and>
         (bp_enable_caching p \<longrightarrow> block_keys p' b = {})) \<and>
      (\<forall>b \<in> set (bp_blocks p). b \<notin> set (take (nat n) xs) \<or> \<not> bp_enable_caching p \<longrightarrow>
         block_keys p' b = block_keys p b) \<and>
      (\<forall>b \<in> set (bp_blocks p). b \<notin> set (take (nat n) xs) \<longrightarrow>
         kb_hierarchy_state (blk p' b) = kb_hierarchy_state (blk p b)) \<and>
      bp_enable_caching p' = bp_enable_caching p"
proof (cases "int (length xs) < n")
  case True
  then show ?thesis using refs_okD(7) [OF r] by (simp add: get_new_blocks_def)
next
  case False
  note d = refs_okD [OF r]
  let ?take = "take (nat n) xs" and ?drop = "drop (nat n) xs"
  have "n \<le> fq_num_free_blocks (bp_free_block_queue p)" using False d(7) by (simp add: get_num_free_blocks_def)
  then obtain q where q: "popleft_n n (bp_free_block_queue p) = Inr (?take, q)" "is_queue q ?drop"
    "same_data (bp_free_block_queue p) q"
    using fl.pop_n_take [OF d(1) n] by blast
  let ?p1 = "p\<lparr>bp_free_block_queue := q\<rparr>"
  note v = queue_update_views [OF q(3)]
  have k1: "block_keys ?p1 b = block_keys p b" for b by (rule queue_update_keys [OF q(3)])
  have w: "pool_wf ?p1" "hash_ok ?p1" using wf h wf_view_cong [OF v(1)] hash_view_cong [OF v(2)] by simp_all
  have s: "set ?take \<subseteq> good_blocks ?p1" using d(3) wf_view_good [OF v(1)] set_take_subset by fastforce
  have z: "\<forall>b \<in> set ?take. refs ?p1 b = 0"
  proof
    fix b assume "b \<in> set ?take"
    then have "b \<in> set xs" by (rule in_set_takeD)
    then show "refs ?p1 b = 0" using d(4) v(3) [of b] by simp
  qed
  have dt: "distinct ?take" using d(2) by simp
  have bl: "bp_blocks ?p1 = bp_blocks p" "bp_enable_caching ?p1 = bp_enable_caching p" by simp_all
  obtain p' where p': "rfold claim_block ?take ?p1 = Inr p'" "wf_view p' = wf_view ?p1" "hash_ok p'"
    "links_view p' = links_view ?p1"
    "\<forall>b' \<in> set (bp_blocks p). refs p' b' = (if b' \<in> set ?take then 1 else refs ?p1 b')"
    "\<forall>b' \<in> set ?take. kb_hierarchy_state (blk p' b') = HOT \<and> (bp_enable_caching p \<longrightarrow> block_keys p' b' = {})"
    "\<forall>b' \<in> set (bp_blocks p). b' \<notin> set ?take \<or> \<not> bp_enable_caching p \<longrightarrow> block_keys p' b' = block_keys ?p1 b'"
    "\<forall>b' \<in> set (bp_blocks p). b' \<notin> set ?take \<longrightarrow>
       kb_hierarchy_state (blk p' b') = kb_hierarchy_state (blk ?p1 b')"
    "bp_enable_caching p' = bp_enable_caching p"
    using claim_fold_spec [OF w dt s z, unfolded bl] by blast
  have "is_queue (bp_free_block_queue p') ?drop" using links_view_queue [OF p'(4)] q(2) by simp
  moreover have gp: "good_blocks p' = good_blocks p" using wf_view_good p'(2) v(1) by metis
  moreover have rp: "refs p' b = (if b \<in> set ?take then 1 else refs p b)" if "b \<in> set (bp_blocks p)" for b
    using p'(5) v(3) that by simp
  moreover have "set ?drop = {b \<in> good_blocks p. refs p' b = 0}"
  proof -
    have "set xs = set ?take \<union> set ?drop" by (metis append_take_drop_id set_append)
    moreover have "set ?take \<inter> set ?drop = {}" using d(2) by (metis append_take_drop_id distinct_append)
    ultimately have "b \<in> set ?drop \<longleftrightarrow> b \<in> set xs \<and> b \<notin> set ?take" for b by blast
    moreover have "b \<in> set xs \<longleftrightarrow> b \<in> good_blocks p \<and> refs p b = 0" for b using d(3,4,5) by blast
    ultimately show ?thesis using rp good_in_blocks by (auto simp del: set_drop_subset split: if_splits)
  qed
  moreover have "0 \<le> refs p' b" if "b \<in> good_blocks p" for b
    using d(6) [OF that] rp [OF good_in_blocks [OF that]] by simp
  ultimately have "refs_ok p' ?drop" by (simp add: refs_ok_def)
  moreover have "get_new_blocks n p = Inr (?take, p')"
    using False d(7) q(1) p'(1) by (simp add: get_new_blocks_def)
  ultimately show ?thesis using False p' v(1,4) rp k1 by simp
qed

lemma set_ref_views:
  assumes "p' = set_blk b ((blk p b)\<lparr>kb_ref_cnt := k\<rparr>) p"
  shows "wf_view p' = wf_view p" "hash_view p' = hash_view p" "links_view p' = links_view p"
    "refs p' b' = (if b' = b then k else refs p b')"
    "kb_hierarchy_state (blk p' b') = kb_hierarchy_state (blk p b')"
    "kb_block_hash (blk p' b') = kb_block_hash (blk p b')"
    "kb_is_null (blk p' b') = kb_is_null (blk p b')"
  using assms by (simp_all add: view_defs links_view_def fun_eq_iff)

lemma touch_block_spec:
  assumes wf: "pool_wf p" and r: "refs_ok p xs" and b: "b \<in> set (bp_blocks p)"
  shows "\<exists>p'. touch_block b p = Inr p' \<and> wf_view p' = wf_view p \<and> hash_view p' = hash_view p \<and>
    refs_ok p' (remove1 b xs) \<and> (\<forall>b'. refs p' b' = (if b' = b then refs p b + 1 else refs p b')) \<and>
    (\<forall>b'. kb_hierarchy_state (blk p' b') = kb_hierarchy_state (blk p b'))"
proof -
  note d = refs_okD [OF r]
  have good: "b \<in> good_blocks p \<longleftrightarrow> \<not> kb_is_null (blk p b)"
    using pool_wf_null [OF wf b] b by (simp add: good_blocks_def)
  obtain q where q: "is_queue q (remove1 b xs)" "same_data (bp_free_block_queue p) q"
    and run: "touch_block b p = Inr (notify (OnBlockAccessed (kb_block_id (fq_mem q b)))
        (set_blk b ((fq_mem q b)\<lparr>kb_ref_cnt := kb_ref_cnt (fq_mem q b) + 1\<rparr>) (p\<lparr>bp_free_block_queue := q\<rparr>)))"
  proof (cases "refs p b = 0 \<and> \<not> kb_is_null (blk p b)")
    case True
    then have "b \<in> set xs" using d(5) good by blast
    then obtain q where "remove_free b (bp_free_block_queue p) = Inr q" "is_queue q (remove1 b xs)"
      "same_data (bp_free_block_queue p) q" using fl.detach_mem [OF d(1)] by blast
    then show ?thesis using True that by (simp add: touch_block_def)
  next
    case False
    then have "b \<notin> set xs" using d(3,4) good by blast
    then have "remove1 b xs = xs" by (rule remove1_idem)
    moreover have "touch_block b p = Inr (notify (OnBlockAccessed (kb_block_id (blk p b)))
        (set_blk b ((blk p b)\<lparr>kb_ref_cnt := refs p b + 1\<rparr>) p))"
      using False by (auto simp: touch_block_def)
    ultimately show ?thesis using that [of "bp_free_block_queue p"] d(1) by simp
  qed
  let ?p1 = "p\<lparr>bp_free_block_queue := q\<rparr>"
  let ?p2 = "set_blk b ((blk ?p1 b)\<lparr>kb_ref_cnt := refs ?p1 b + 1\<rparr>) ?p1"
  let ?p' = "notify (OnBlockAccessed (kb_block_id (fq_mem q b))) ?p2"
  note v1 = queue_update_views [OF q(2)]
  note v2 = set_ref_views [OF refl, where b = b and p = ?p1 and k = "refs ?p1 b + 1"]
  have w: "wf_view ?p' = wf_view p" "hash_view ?p' = hash_view p" using v1(1,2) v2(1,2) by simp_all
  have rp: "refs ?p' b' = (if b' = b then refs p b + 1 else refs p b')" for b'
    using v2(4) v1(3) by simp
  have "links_view ?p' = links_view ?p1" using v2(3) by simp
  then have "is_queue (bp_free_block_queue ?p') (remove1 b xs)" using links_view_queue q(1) by fastforce
  moreover have "set (remove1 b xs) = {b' \<in> good_blocks p. refs ?p' b' = 0}"
  proof -
    have "refs p b + 1 \<noteq> 0" if "b \<in> good_blocks p" using d(6) [OF that] by simp
    then show ?thesis unfolding set_remove1_eq [OF d(2)] rp using d(3,4,5) by (auto split: if_splits)
  qed
  moreover have "0 \<le> refs ?p' b'" if "b' \<in> good_blocks p" for b'
    using d(6) [OF that] unfolding rp by auto
  ultimately have "refs_ok ?p' (remove1 b xs)"
    using wf_view_good [OF w(1)] by (simp add: refs_ok_def)
  moreover have "kb_hierarchy_state (blk ?p' b') = kb_hierarchy_state (blk p b')" for b'
    using v2(5) v1(4) by simp
  ultimately show ?thesis using run w rp by simp
qed

lemma touch_spec:
  assumes "pool_wf p" "refs_ok p xs" "set bs \<subseteq> set (bp_blocks p)"
  shows "\<exists>p'. touch bs p = Inr p' \<and> wf_view p' = wf_view p \<and> hash_view p' = hash_view p \<and>
    refs_ok p' (filter (\<lambda>b. b \<notin> set bs) xs) \<and> (\<forall>b. refs p' b = refs p b + int (count_list bs b)) \<and>
    (\<forall>b. kb_hierarchy_state (blk p' b) = kb_hierarchy_state (blk p b))"
  using assms
proof (induction bs arbitrary: p xs)
  case (Cons b bs)
  have bb: "b \<in> set (bp_blocks p)" using Cons.prems(3) by simp
  obtain p1 where p1: "touch_block b p = Inr p1" "wf_view p1 = wf_view p" "hash_view p1 = hash_view p"
    "refs_ok p1 (remove1 b xs)" "\<forall>b'. refs p1 b' = (if b' = b then refs p b + 1 else refs p b')"
    "\<forall>b'. kb_hierarchy_state (blk p1 b') = kb_hierarchy_state (blk p b')"
    using touch_block_spec [OF Cons.prems(1,2) bb] by blast
  have "pool_wf p1" "set bs \<subseteq> set (bp_blocks p1)"
    using Cons.prems p1(2) wf_view_cong [OF p1(2)] by (auto simp: wf_view_def)
  from Cons.IH [OF this(1) p1(4) this(2)] obtain p2 where p2: "touch bs p1 = Inr p2"
    "wf_view p2 = wf_view p1" "hash_view p2 = hash_view p1"
    "refs_ok p2 (filter (\<lambda>b. b \<notin> set bs) (remove1 b xs))" "\<forall>b. refs p2 b = refs p1 b + int (count_list bs b)"
    "\<forall>b'. kb_hierarchy_state (blk p2 b') = kb_hierarchy_state (blk p1 b')"
    by blast
  have "filter (\<lambda>b. b \<notin> set bs) (remove1 b xs) = filter (\<lambda>c. c \<notin> set (b # bs)) xs"
    using refs_okD(2) [OF Cons.prems(2)]
    by (auto simp: distinct_remove1_removeAll removeAll_filter_not_eq intro!: filter_cong)
  then show ?case using p1 p2 by (auto simp: touch_def)
qed (auto simp: touch_def)

lemma drop_refs_spec:
  assumes "pool_wf p" "set bs \<subseteq> set (bp_blocks p)"
    and "\<forall>b \<in> good_blocks p. int (count_list bs b) \<le> refs p b"
    and "\<forall>b \<in> set (wh @ wo). b \<in> good_blocks p \<and> refs p b = 0" "distinct (wh @ wo)"
    and "\<forall>b \<in> set wh. kb_block_hash (blk p b) \<noteq> None" "\<forall>b \<in> set wo. kb_block_hash (blk p b) = None"
  shows "\<exists>us hs p'. drop_refs bs wh wo p = (wh @ hs, wo @ us, p') \<and>
    wf_view p' = wf_view p \<and> hash_view p' = hash_view p \<and> links_view p' = links_view p \<and>
    (\<forall>b. refs p' b = refs p b - (if kb_is_null (blk p b) then 0 else int (count_list bs b))) \<and>
    (\<forall>b. kb_hierarchy_state (blk p' b) = kb_hierarchy_state (blk p b)) \<and>
    distinct ((wh @ hs) @ (wo @ us)) \<and>
    set (us @ hs) = {b \<in> good_blocks p. b \<in> set bs \<and> int (count_list bs b) = refs p b} \<and>
    (\<forall>b \<in> set hs. kb_block_hash (blk p b) \<noteq> None) \<and> (\<forall>b \<in> set us. kb_block_hash (blk p b) = None) \<and>
    (distinct bs \<longrightarrow>
       us = filter (\<lambda>b. b \<in> good_blocks p \<and> refs p b = 1 \<and> kb_block_hash (blk p b) = None) bs \<and>
       hs = filter (\<lambda>b. b \<in> good_blocks p \<and> refs p b = 1 \<and> kb_block_hash (blk p b) \<noteq> None) bs)"
  using assms
proof (induction bs arbitrary: wh wo p)
  case (Cons b bs)
  have bb: "b \<in> set (bp_blocks p)" using Cons.prems(2) by simp
  have good: "b \<in> good_blocks p \<longleftrightarrow> \<not> kb_is_null (blk p b)"
    using pool_wf_null [OF Cons.prems(1) bb] bb by (simp add: good_blocks_def)
  show ?case
  proof (cases "kb_is_null (blk p b)")
    case True
    have cnt: "\<forall>c \<in> good_blocks p. int (count_list bs c) \<le> refs p c"
    proof
      fix c assume "c \<in> good_blocks p"
      then have "int (count_list (b # bs) c) \<le> refs p c" using Cons.prems(3) by blast
      then show "int (count_list bs c) \<le> refs p c" by (simp split: if_splits)
    qed
    have sub: "set bs \<subseteq> set (bp_blocks p)" using Cons.prems(2) by simp
    from Cons.IH [OF Cons.prems(1) sub cnt Cons.prems(4-7)]
    obtain us hs p' where r: "drop_refs bs wh wo p = (wh @ hs, wo @ us, p')"
      "wf_view p' = wf_view p" "hash_view p' = hash_view p" "links_view p' = links_view p"
      "\<forall>b. refs p' b = refs p b - (if kb_is_null (blk p b) then 0 else int (count_list bs b))"
      "\<forall>b. kb_hierarchy_state (blk p' b) = kb_hierarchy_state (blk p b)"
      "distinct ((wh @ hs) @ (wo @ us))"
      "set (us @ hs) = {b \<in> good_blocks p. b \<in> set bs \<and> int (count_list bs b) = refs p b}"
      "\<forall>b \<in> set hs. kb_block_hash (blk p b) \<noteq> None" "\<forall>b \<in> set us. kb_block_hash (blk p b) = None"
      "distinct bs \<longrightarrow>
       us = filter (\<lambda>b. b \<in> good_blocks p \<and> refs p b = 1 \<and> kb_block_hash (blk p b) = None) bs \<and>
       hs = filter (\<lambda>b. b \<in> good_blocks p \<and> refs p b = 1 \<and> kb_block_hash (blk p b) \<noteq> None) bs"
      by blast
    have "b \<notin> good_blocks p" using True good by simp
    then have "set (us @ hs) = {c \<in> good_blocks p. c \<in> set (b # bs) \<and> int (count_list (b # bs) c) = refs p c}"
      unfolding r(8) by auto
    moreover have "\<forall>c. refs p' c = refs p c - (if kb_is_null (blk p c) then 0 else int (count_list (b # bs) c))"
      using r(5) True by auto
    moreover have "drop_refs (b # bs) wh wo p = (wh @ hs, wo @ us, p')" using r(1) True by simp
    moreover have "distinct (b # bs) \<longrightarrow>
       us = filter (\<lambda>c. c \<in> good_blocks p \<and> refs p c = 1 \<and> kb_block_hash (blk p c) = None) (b # bs) \<and>
       hs = filter (\<lambda>c. c \<in> good_blocks p \<and> refs p c = 1 \<and> kb_block_hash (blk p c) \<noteq> None) (b # bs)"
      using r(11) \<open>b \<notin> good_blocks p\<close> by simp
    ultimately show ?thesis using r(2-4,6,7,9,10) by blast
  next
    case False
    then have gb: "b \<in> good_blocks p" using good by simp
    let ?p1 = "set_blk b ((blk p b)\<lparr>kb_ref_cnt := refs p b - 1\<rparr>) p"
    note v = set_ref_views [OF refl, where b = b and p = p and k = "refs p b - 1"]
    have wf1: "pool_wf ?p1" using Cons.prems(1) wf_view_cong [OF v(1)] by simp
    have g1: "good_blocks ?p1 = good_blocks p" by (rule wf_view_good [OF v(1)])
    have pos: "1 \<le> refs p b" using Cons.prems(3) gb by force
    have cnt: "\<forall>c \<in> good_blocks ?p1. int (count_list bs c) \<le> refs ?p1 c"
    proof
      fix c assume "c \<in> good_blocks ?p1"
      then have "int (count_list (b # bs) c) \<le> refs p c" using Cons.prems(3) unfolding g1 by blast
      then show "int (count_list bs c) \<le> refs ?p1 c" unfolding v(4) by (auto split: if_splits)
    qed
    have nb: "b \<notin> set (wh @ wo)" using Cons.prems(4) pos by auto
    define zero where "zero \<longleftrightarrow> refs p b = 1"
    define wh1 where "wh1 = (if zero \<and> kb_block_hash (blk p b) \<noteq> None then wh @ [b] else wh)"
    define wo1 where "wo1 = (if zero \<and> kb_block_hash (blk p b) = None then wo @ [b] else wo)"
    have step: "drop_refs (b # bs) wh wo p = drop_refs bs wh1 wo1 ?p1"
      using False by (auto simp: wh1_def wo1_def zero_def Let_def)
    have acc: "\<forall>c \<in> set (wh1 @ wo1). c \<in> good_blocks ?p1 \<and> refs ?p1 c = 0" "distinct (wh1 @ wo1)"
      "\<forall>c \<in> set wh1. kb_block_hash (blk ?p1 c) \<noteq> None" "\<forall>c \<in> set wo1. kb_block_hash (blk ?p1 c) = None"
      using Cons.prems(4-7) nb gb unfolding g1 v(4,6) by (auto simp: wh1_def wo1_def zero_def)
    have sub: "set bs \<subseteq> set (bp_blocks ?p1)" using Cons.prems(2) by simp
    from Cons.IH [OF wf1 sub cnt acc]
    obtain us hs p' where r: "drop_refs bs wh1 wo1 ?p1 = (wh1 @ hs, wo1 @ us, p')"
      "wf_view p' = wf_view ?p1" "hash_view p' = hash_view ?p1" "links_view p' = links_view ?p1"
      "\<forall>c. refs p' c = refs ?p1 c - (if kb_is_null (blk ?p1 c) then 0 else int (count_list bs c))"
      "\<forall>c. kb_hierarchy_state (blk p' c) = kb_hierarchy_state (blk ?p1 c)"
      "distinct ((wh1 @ hs) @ (wo1 @ us))"
      "set (us @ hs) = {c \<in> good_blocks ?p1. c \<in> set bs \<and> int (count_list bs c) = refs ?p1 c}"
      "\<forall>c \<in> set hs. kb_block_hash (blk ?p1 c) \<noteq> None" "\<forall>c \<in> set us. kb_block_hash (blk ?p1 c) = None"
      "distinct bs \<longrightarrow>
       us = filter (\<lambda>c. c \<in> good_blocks ?p1 \<and> refs ?p1 c = 1 \<and> kb_block_hash (blk ?p1 c) = None) bs \<and>
       hs = filter (\<lambda>c. c \<in> good_blocks ?p1 \<and> refs ?p1 c = 1 \<and> kb_block_hash (blk ?p1 c) \<noteq> None) bs"
      by blast
    define us' where "us' = (if zero \<and> kb_block_hash (blk p b) = None then b # us else us)"
    define hs' where "hs' = (if zero \<and> kb_block_hash (blk p b) \<noteq> None then b # hs else hs)"
    have app: "wh1 @ hs = wh @ hs'" "wo1 @ us = wo @ us'"
      by (simp_all add: wh1_def wo1_def us'_def hs'_def)
    have "set (us' @ hs') = (if zero then insert b (set (us @ hs)) else set (us @ hs))"
      by (auto simp: us'_def hs'_def)
    moreover have "b \<notin> set bs" if zero
      using Cons.prems(3) gb that count_notin [of b bs] count_list_0_iff [of bs b] by (fastforce simp: zero_def)
    moreover have same: "int (count_list bs c) = refs ?p1 c \<longleftrightarrow> int (count_list (b # bs) c) = refs p c" for c
      unfolding v(4) by auto
    moreover have "set (us @ hs) = {c \<in> good_blocks p. c \<in> set bs \<and> int (count_list (b # bs) c) = refs p c}"
      using r(8) unfolding g1 same .
    moreover have "zero" if "b \<notin> set bs" "int (count_list (b # bs) b) = refs p b"
      using that by (simp add: zero_def count_notin)
    moreover have "int (count_list (b # bs) b) = refs p b" if zero
      using \<open>zero \<Longrightarrow> b \<notin> set bs\<close> [OF that] that by (simp add: zero_def count_notin)
    ultimately have set': "set (us' @ hs') =
        {c \<in> good_blocks p. c \<in> set (b # bs) \<and> int (count_list (b # bs) c) = refs p c}"
      using gb by (cases zero) (auto simp del: count_list.simps)
    have ord: "us' = filter (\<lambda>c. c \<in> good_blocks p \<and> refs p c = 1 \<and> kb_block_hash (blk p c) = None) (b # bs) \<and>
       hs' = filter (\<lambda>c. c \<in> good_blocks p \<and> refs p c = 1 \<and> kb_block_hash (blk p c) \<noteq> None) (b # bs)"
      if "distinct (b # bs)"
    proof -
      have "us = filter (\<lambda>c. c \<in> good_blocks p \<and> refs p c = 1 \<and> kb_block_hash (blk p c) = None) bs"
        "hs = filter (\<lambda>c. c \<in> good_blocks p \<and> refs p c = 1 \<and> kb_block_hash (blk p c) \<noteq> None) bs"
        using r(11) that unfolding g1 v(4,6) by (auto intro!: filter_cong)
      then show ?thesis using gb by (simp add: us'_def hs'_def zero_def)
    qed
    have "\<forall>c. refs p' c = refs p c - (if kb_is_null (blk p c) then 0 else int (count_list (b # bs) c))"
      using r(5) False unfolding v(4,7) by auto
    moreover have "\<forall>c \<in> set hs'. kb_block_hash (blk p c) \<noteq> None" "\<forall>c \<in> set us'. kb_block_hash (blk p c) = None"
      using r(9,10) unfolding v(6) by (auto simp: us'_def hs'_def)
    moreover have "drop_refs (b # bs) wh wo p = (wh @ hs', wo @ us', p')" using step r(1) app by simp
    moreover have "wf_view p' = wf_view p" "hash_view p' = hash_view p" "links_view p' = links_view p"
      using r(2-4) v(1-3) by simp_all
    moreover have "\<forall>c. kb_hierarchy_state (blk p' c) = kb_hierarchy_state (blk p c)" using r(6) v(5) by simp
    moreover have "distinct ((wh @ hs') @ (wo @ us'))" using r(7) unfolding app .
    ultimately show ?thesis using set' ord by blast
  qed
qed auto

lemma free_blocks_spec:
  assumes wf: "pool_wf p" and r: "refs_ok p xs" and bs: "set bs \<subseteq> set (bp_blocks p)"
    and cnt: "\<forall>b \<in> good_blocks p. int (count_list bs b) \<le> refs p b"
  shows "\<exists>us hs p'. free_blocks bs p = Inr p' \<and> wf_view p' = wf_view p \<and> hash_view p' = hash_view p \<and>
    refs_ok p' (us @ xs @ hs) \<and>
    (\<forall>b. refs p' b = refs p b - (if kb_is_null (blk p b) then 0 else int (count_list bs b))) \<and>
    (\<forall>b. kb_hierarchy_state (blk p' b) = kb_hierarchy_state (blk p b)) \<and>
    set (us @ hs) = {b \<in> good_blocks p. b \<in> set bs \<and> int (count_list bs b) = refs p b} \<and>
    (\<forall>b \<in> set hs. kb_block_hash (blk p b) \<noteq> None) \<and> (\<forall>b \<in> set us. kb_block_hash (blk p b) = None) \<and>
    (distinct bs \<longrightarrow>
       us = filter (\<lambda>b. b \<in> good_blocks p \<and> refs p b = 1 \<and> kb_block_hash (blk p b) = None) bs \<and>
       hs = filter (\<lambda>b. b \<in> good_blocks p \<and> refs p b = 1 \<and> kb_block_hash (blk p b) \<noteq> None) bs)"
proof -
  note d = refs_okD [OF r]
  obtain us hs p1 where dr: "drop_refs bs [] [] p = (hs, us, p1)"
    and v: "wf_view p1 = wf_view p" "hash_view p1 = hash_view p" "links_view p1 = links_view p"
    and rf: "\<forall>b. refs p1 b = refs p b - (if kb_is_null (blk p b) then 0 else int (count_list bs b))"
    and st: "\<forall>b. kb_hierarchy_state (blk p1 b) = kb_hierarchy_state (blk p b)"
    and dist: "distinct (hs @ us)"
    and set: "set (us @ hs) = {b \<in> good_blocks p. b \<in> set bs \<and> int (count_list bs b) = refs p b}"
    and hash: "\<forall>b \<in> set hs. kb_block_hash (blk p b) \<noteq> None" "\<forall>b \<in> set us. kb_block_hash (blk p b) = None"
    and ord: "distinct bs \<longrightarrow>
       us = filter (\<lambda>b. b \<in> good_blocks p \<and> refs p b = 1 \<and> kb_block_hash (blk p b) = None) bs \<and>
       hs = filter (\<lambda>b. b \<in> good_blocks p \<and> refs p b = 1 \<and> kb_block_hash (blk p b) \<noteq> None) bs"
    using drop_refs_spec [OF wf bs cnt, of "[]" "[]"] by auto
  have q1: "is_queue (bp_free_block_queue p1) xs" using links_view_queue [OF v(3)] d(1) by simp
  have pos: "0 < int (count_list bs b)" if "b \<in> set bs" for b
    using that count_list_0_iff [of bs b] by simp
  have disj: "set (us @ hs) \<inter> set xs = {}"
    unfolding set using d(4) pos by fastforce
  have real: "list_all is_real (us @ hs)"
    using set pool_wf_good [OF wf] by (auto simp: list_all_iff)
  have dist': "distinct (us @ hs)" using dist by auto
  obtain q where q: "rbind (prepend_n us (bp_free_block_queue p1)) (append_n hs) = Inr q"
    "is_queue q (us @ xs @ hs)" "same_data (bp_free_block_queue p1) q"
    using fl.give_back [OF q1 dist' real disj] by blast
  let ?p' = "p1\<lparr>bp_free_block_queue := q\<rparr>"
  note qv = queue_update_views [OF q(3)]
  have run: "free_blocks bs p = Inr ?p'"
    using q(1) dr by (auto simp: free_blocks_def rbind_eq_Inr)
  have rf': "refs ?p' b = refs p b - (if kb_is_null (blk p b) then 0 else int (count_list bs b))" for b
    using rf qv(3) by simp
  have good: "good_blocks ?p' = good_blocks p" using wf_view_good qv(1) v(1) by metis
  have nn: "\<not> kb_is_null (blk p b)" if "b \<in> good_blocks p" for b using pool_wf_good [OF wf that] by simp
  have "set (us @ xs @ hs) = {b \<in> good_blocks p. refs ?p' b = 0}"
  proof -
    have "refs ?p' b = 0 \<longleftrightarrow> b \<in> set xs \<or> b \<in> set bs \<and> int (count_list bs b) = refs p b"
      if b: "b \<in> good_blocks p" for b
    proof (cases "b \<in> set bs")
      case True
      then have "refs p b \<noteq> 0" using cnt b pos by fastforce
      then have "b \<notin> set xs" using d(4) by blast
      then show ?thesis using rf' nn [OF b] True by auto
    next
      case False
      then show ?thesis using rf' nn [OF b] d(5) [OF b] by (simp add: count_notin)
    qed
    moreover have "set (us @ xs @ hs) = set xs \<union> set (us @ hs)" by auto
    ultimately show ?thesis unfolding set using d(3) by blast
  qed
  moreover have "0 \<le> refs ?p' b" if "b \<in> good_blocks p" for b
    using rf' cnt nn [OF that] that by simp
  ultimately have "refs_ok ?p' (us @ xs @ hs)" using q(2) good by (simp add: refs_ok_def)
  moreover have "wf_view ?p' = wf_view p" "hash_view ?p' = hash_view p" using qv v by simp_all
  moreover have "\<forall>b. kb_hierarchy_state (blk ?p' b) = kb_hierarchy_state (blk p b)" using qv(4) st by simp
  ultimately show ?thesis using run rf' set hash ord by blast
qed

lemma new_block_pool_spec:
  assumes "0 < n"
  shows "\<exists>p. new_block_pool n caching hbs ev ints met = Inr p \<and> pool_wf p \<and> hash_ok p \<and>
    refs_ok p (map Blk [1..<nat n]) \<and> (\<forall>b \<in> set (bp_blocks p). block_keys p b = {}) \<and>
    bp_num_gpu_blocks p = n \<and> bp_enable_caching p = caching \<and> bp_hash_block_size p = hbs \<and>
    (\<forall>b \<in> set (bp_blocks p). refs p b = 0 \<and> kb_hierarchy_state (blk p b) = HOT)"
proof -
  let ?bs = "map Blk [0..<nat n]"
  define mem where "mem = (\<lambda>b. case b of Blk i \<Rightarrow> new_block (int i) | _ \<Rightarrow> new_block (- 1))"
  have "distinct ?bs" "list_all is_real ?bs" by (auto simp: distinct_map inj_on_def list_all_iff is_real_def)
  moreover have "kb_prev_free_block (mem b) = None \<and> kb_next_free_block (mem b) = None" for b
    by (cases b) (simp_all add: mem_def new_block_def)
  ultimately have nq: "is_queue (new_free_queue ?bs mem) ?bs"
    "\<forall>b. is_real b \<longrightarrow> data_of (fq_mem (new_free_queue ?bs mem) b) = data_of (mem b)"
    using new_free_queue_refines by blast+
  have split: "?bs = Blk 0 # map Blk [1..<nat n]" using assms by (simp add: upt_rec)
  then obtain q where q: "popleft (new_free_queue ?bs mem) = Inr (Blk 0, q)"
    "is_queue q (map Blk [1..<nat n])" "same_data (new_free_queue ?bs mem) q"
    using popleft_refines nq(1) by metis
  define q' where "q' = q\<lparr>fq_mem := (fq_mem q)(Blk 0 := (fq_mem q (Blk 0))\<lparr>kb_is_null := True\<rparr>)\<rparr>"
  have data: "kb_block_id (fq_mem q (Blk i)) = int i \<and> kb_hierarchy_state (fq_mem q (Blk i)) = HOT \<and>
      kb_ref_cnt (fq_mem q (Blk i)) = 0 \<and> kb_block_hash (fq_mem q (Blk i)) = None \<and>
      kb_block_hash_num_tokens (fq_mem q (Blk i)) = None \<and> \<not> kb_is_null (fq_mem q (Blk i))" for i
  proof -
    have "data_of (fq_mem q (Blk i)) = data_of (mem (Blk i))"
      using q(3) nq(2) by (simp add: same_data_def is_real_def)
    from data_of_eq [OF this] show ?thesis by (simp add: mem_def new_block_def)
  qed
  have q'2: "is_queue q' (map Blk [1..<nat n])"
    by (rule is_queue_same_links [OF q(2)]) (auto simp: q'_def same_links_def)
  define p where "p = \<lparr>bp_num_gpu_blocks = n, bp_enable_caching = caching,
                bp_hash_block_size = hbs, bp_blocks = ?bs, bp_free_block_queue = q',
                bp_cached_block_hash_to_block = [], bp_cached_block_hashes_by_block = [],
                bp_null_block = Blk 0, bp_enable_kv_cache_events = ev,
                bp_use_int_block_hashes = ints, bp_kv_event_queue = [],
                bp_metrics_collector = (if met then Some [] else None)\<rparr>"
  have run: "new_block_pool n caching hbs ev ints met = Inr p"
    using assms q(1) by (simp add: new_block_pool_def p_def mem_def [symmetric] q'_def)
  have "pool_wf p" using assms data by (auto simp: pool_wf_def p_def q'_def)
  moreover have keys: "block_keys p (Blk i) = {}" for i
    using data by (simp add: block_keys_def aliases_def p_def q'_def)
  moreover have "hash_ok p"
    using keys data by (auto simp: hash_ok_def good_blocks_def p_def hm_ids_def aliases_def q'_def)
  moreover have "refs_ok p (map Blk [1..<nat n])"
    using q'2 data by (auto simp: refs_ok_def good_blocks_def p_def q'_def)
  moreover have "\<forall>b \<in> set (bp_blocks p). refs p b = 0 \<and> kb_hierarchy_state (blk p b) = HOT"
    using data by (auto simp: p_def q'_def)
  ultimately show ?thesis using run by (auto simp: p_def)
qed

end
