(* ===== verification/PoolHistory.thy ===== *)
theory PoolHistory
  imports BlockPool
begin

text \<open>
  Histories of a block pool: caching, eviction and resetting keep the invariant of
  \<^verbatim>\<open>BlockPool\<close>, so it holds in every pool the operations of the source can produce when their
  callers keep to what they are asked (blocks of the pool, no more references given back than
  taken).  The properties of the pool are stated over those histories.
\<close>

section \<open>Caching keeps the invariant\<close>

text \<open>What a caching operation may change: keys of blocks, never references or the free list.\<close>

definition caches :: "block_pool \<Rightarrow> block_pool \<Rightarrow> bool" where
  "caches p p' \<longleftrightarrow> wf_view p' = wf_view p \<and> refs_view p' = refs_view p \<and> hash_ok p' \<and>
     bp_enable_kv_cache_events p' = bp_enable_kv_cache_events p"

lemma caches_refl: "hash_ok p \<Longrightarrow> caches p p"
  by (simp add: caches_def)

lemma caches_trans: "caches p p' \<Longrightarrow> caches p' p'' \<Longrightarrow> caches p p''"
  by (simp add: caches_def)

lemma caches_wf: "caches p p' \<Longrightarrow> pool_wf p' = pool_wf p"
  using wf_view_cong [of p' p] by (simp add: caches_def)

lemma caches_blocks: "caches p p' \<Longrightarrow> bp_blocks p' = bp_blocks p \<and> good_blocks p' = good_blocks p"
  using wf_view_good [of p' p] by (simp add: caches_def wf_view_def)

lemma caches_refs: "caches p p' \<Longrightarrow> refs_ok p' xs = refs_ok p xs"
  using refs_view_cong [of p' p] by (simp add: caches_def)

lemma caches_null: "caches p p' \<Longrightarrow> kb_is_null (blk p' b) = kb_is_null (blk p b)"
  by (simp add: caches_def wf_view_def fun_eq_iff)

lemma caches_skipped: "caches p p' \<Longrightarrow> skipped p' m i b = skipped p m i b"
  by (simp add: skipped_def caches_null)

lemma pop_fold_events:
  "bp_enable_kv_cache_events (snd (fold (pop_hash i) hs x)) = bp_enable_kv_cache_events (snd x)"
  by (induction hs arbitrary: x) (auto simp: pop_hash_def Let_def case_prod_beta)

lemma remove_emit_caches:
  assumes "pool_wf p" "hash_ok p" "b \<in> set (bp_blocks p)"
    and "remove_cached_block_hashes b p = (removed, p1)"
  shows "caches p (emit_block_removed_events removed p1) \<and>
    block_keys (emit_block_removed_events removed p1) b = {} \<and>
    (\<forall>b' \<in> set (bp_blocks p). b' \<noteq> b \<longrightarrow>
       block_keys (emit_block_removed_events removed p1) b' = block_keys p b')"
proof -
  have ev: "bp_enable_kv_cache_events p1 = bp_enable_kv_cache_events p"
    using assms(4) by (auto simp: remove_cached_block_hashes_def Let_def case_prod_beta pop_fold_events split: if_splits)
  let ?e = "emit_block_removed_events removed p1"
  have "hash_ok ?e = hash_ok p1" "\<And>b'. block_keys ?e b' = block_keys p1 b'"
    using hash_view_cong [of ?e p1] hash_view_keys [of ?e p1] by simp_all
  then show ?thesis using remove_hashes_spec [OF assms(1-3)] assms(4) ev by (auto simp: caches_def)
qed

lemma cache_one_block_spec:
  assumes wf: "pool_wf p" and h: "hash_ok p" and b: "b \<in> set (bp_blocks p)"
    and run: "cache_one_block nbh nc bsz g m (i, b) (nh, p) = Inr (nh', p')"
  shows "caches p p' \<and>
    (\<forall>b' \<in> set (bp_blocks p). b' \<noteq> b \<longrightarrow> block_keys p' b' = block_keys p b') \<and>
    (if skipped p m i b then block_keys p' b = block_keys p b
     else \<exists>key. i < length nbh \<and> make_block_hash_with_group_id (nbh ! i) g = Inr key \<and>
       key \<in> block_keys p' b \<and> block_keys p' b \<subseteq> insert key (block_keys p b))"
proof (cases "skipped p m i b")
  case True
  then show ?thesis using run h by (auto simp: cache_one_block_def caches_refl)
next
  case False
  have good: "b \<in> good_blocks p"
    using False pool_wf_null [OF wf b] b by (simp add: skipped_def good_blocks_def)
  obtain bh key p1 p2 where bh: "list_index nbh (int i) = Inr bh"
    and key: "make_block_hash_with_group_id bh g = Inr key"
    and p1: "p1 = p \<and> kb_block_hash (blk p b) = None \<or>
      p1 = emit_block_removed_events (fst (remove_cached_block_hashes b p)) (snd (remove_cached_block_hashes b p))"
    and p2: "insert_block_hash key b (Some ((nc + int i + 1) * bsz)) p1 = Inr p2" and p': "p' = p2"
    using run False
    by (auto simp: cache_one_block_def rbind_eq_Inr Let_def case_prod_beta split: if_splits option.splits)
  have i: "i < length nbh" "bh = nbh ! i" using bh by (auto simp: list_index_def split: if_splits)
  have c1: "caches p p1 \<and> block_keys p1 b \<subseteq> block_keys p b \<and>
      (\<forall>b' \<in> set (bp_blocks p). b' \<noteq> b \<longrightarrow> block_keys p1 b' = block_keys p b')"
    using p1 remove_emit_caches [OF wf h b surjective_pairing] caches_refl [OF h] by auto
  have "pool_wf p1" "hash_ok p1" "b \<in> good_blocks p1" "bp_blocks p1 = bp_blocks p"
    using c1 wf good caches_wf caches_blocks by (auto simp: caches_def)
  note w1 = this
  obtain p3 where p3: "insert_block_hash key b (Some ((nc + int i + 1) * bsz)) p1 = Inr p3"
    "caches p1 p3" "\<forall>b' \<in> set (bp_blocks p1). block_keys p3 b' =
       (if b' = b then insert key (block_keys p1 b) else block_keys p1 b')"
    using insert_hash_spec [OF w1(1-3), of key "Some ((nc + int i + 1) * bsz)"] unfolding caches_def by blast
  then have c2: "caches p1 p2" "\<forall>b' \<in> set (bp_blocks p). block_keys p2 b' =
       (if b' = b then insert key (block_keys p1 b) else block_keys p1 b')"
    using p2 w1(4) by simp_all
  have "caches p p2" using c1 c2(1) caches_trans by blast
  then show ?thesis using False key i c1 c2(2) p' b by auto
qed

lemma cache_loop_spec:
  assumes "pool_wf p" "hash_ok p" "set bs \<subseteq> set (bp_blocks p)"
    and "rfold (cache_one_block nbh nc bsz g m) (enumerate n bs) (nh, p) = Inr (nh', p')"
  shows "caches p p' \<and>
    (\<forall>b \<in> set (bp_blocks p). \<forall>k \<in> block_keys p' b. k \<in> block_keys p b \<or>
       (\<exists>j < length bs. bs ! j = b \<and> \<not> skipped p m (n + j) b \<and> n + j < length nbh \<and>
          make_block_hash_with_group_id (nbh ! (n + j)) g = Inr k)) \<and>
    (distinct (filter (\<lambda>b. \<not> kb_is_null (blk p b)) bs) \<longrightarrow>
       (\<forall>j < length bs. \<not> skipped p m (n + j) (bs ! j) \<longrightarrow>
          (\<exists>key \<in> block_keys p' (bs ! j). n + j < length nbh \<and>
             make_block_hash_with_group_id (nbh ! (n + j)) g = Inr key)))"
  using assms
proof (induction bs arbitrary: n nh p)
  case (Cons b bs)
  obtain nh1 p1 where one: "cache_one_block nbh nc bsz g m (n, b) (nh, p) = Inr (nh1, p1)"
    and rest: "rfold (cache_one_block nbh nc bsz g m) (enumerate (Suc n) bs) (nh1, p1) = Inr (nh', p')"
    using Cons.prems(4) by (auto simp: rbind_eq_Inr)
  have bb: "b \<in> set (bp_blocks p)" using Cons.prems(3) by simp
  note c1 = cache_one_block_spec [OF Cons.prems(1,2) bb one]
  have c0: "caches p p1" using c1 by blast
  have bl: "bp_blocks p1 = bp_blocks p" using caches_blocks [OF c0] by simp
  have w1: "pool_wf p1" "hash_ok p1" "set bs \<subseteq> set (bp_blocks p1)"
    using caches_wf [OF c0] c0 Cons.prems(1,3) bl by (simp_all add: caches_def)
  have sk: "skipped p1 m j c = skipped p m j c" for j c by (rule caches_skipped [OF c0])
  have nl: "kb_is_null (blk p1 c) = kb_is_null (blk p c)" for c by (rule caches_null [OF c0])
  note IH = Cons.IH [OF w1 rest, unfolded sk nl bl]
  have "caches p p'" using c1 IH caches_trans by blast
  moreover have "k \<in> block_keys p c \<or> (\<exists>j < length (b # bs). (b # bs) ! j = c \<and> \<not> skipped p m (n + j) c \<and>
      n + j < length nbh \<and> make_block_hash_with_group_id (nbh ! (n + j)) g = Inr k)"
    if c: "c \<in> set (bp_blocks p)" "k \<in> block_keys p' c" for c k
  proof -
    consider "k \<in> block_keys p1 c"
      | j where "j < length bs" "bs ! j = c" "\<not> skipped p m (Suc n + j) c" "Suc n + j < length nbh"
          "make_block_hash_with_group_id (nbh ! (Suc n + j)) g = Inr k"
      using IH c by blast
    then show ?thesis
    proof cases
      case 1
      show ?thesis
      proof (cases "c = b \<and> k \<notin> block_keys p c")
        case True
        then have "\<not> skipped p m n b" "n < length nbh" "make_block_hash_with_group_id (nbh ! n) g = Inr k"
          using c1 1 by (auto split: if_splits)
        then show ?thesis using True by (intro disjI2 exI [of _ 0]) simp
      next
        case False
        then show ?thesis using c1 1 c(1) by blast
      qed
    next
      case 2
      then show ?thesis by (intro disjI2 exI [of _ "Suc j"]) simp
    qed
  qed
  moreover have "\<exists>key \<in> block_keys p' ((b # bs) ! j). n + j < length nbh \<and>
      make_block_hash_with_group_id (nbh ! (n + j)) g = Inr key"
    if dist: "distinct (filter (\<lambda>b. \<not> kb_is_null (blk p b)) (b # bs))" and j: "j < length (b # bs)"
      and ns: "\<not> skipped p m (n + j) ((b # bs) ! j)" for j
  proof (cases j)
    case 0
    then have nsb: "\<not> skipped p m n b" using ns by simp
    then have nn: "\<not> kb_is_null (blk p b)" by (simp add: skipped_def)
    then have "b \<notin> set bs" using dist by auto
    have i: "set (bs) \<subseteq> set (bp_blocks p)" using Cons.prems(3) by simp
    have other: "block_keys q' b = block_keys q b"
      if "pool_wf q" "hash_ok q" "set cs \<subseteq> set (bp_blocks q)" "b \<in> set (bp_blocks q)" "b \<notin> set cs"
        "rfold (cache_one_block nbh nc bsz g m) (enumerate l cs) (x, q) = Inr (x', q')" for q q' cs l x x'
      using that
    proof (induction cs arbitrary: l x q)
      case (Cons d cs)
      obtain y q1 where o: "cache_one_block nbh nc bsz g m (l, d) (x, q) = Inr (y, q1)"
        "rfold (cache_one_block nbh nc bsz g m) (enumerate (Suc l) cs) (y, q1) = Inr (x', q')"
        using Cons.prems(6) by (auto simp: rbind_eq_Inr)
      have "d \<in> set (bp_blocks q)" using Cons.prems(3) by simp
      note s = cache_one_block_spec [OF Cons.prems(1,2) this o(1)]
      have s0: "caches q q1" using s by blast
      have "pool_wf q1" "hash_ok q1" "bp_blocks q1 = bp_blocks q"
        using caches_wf [OF s0] caches_blocks [OF s0] s0 Cons.prems(1) by (simp_all add: caches_def)
      then have "block_keys q' b = block_keys q1 b" using Cons.IH [OF _ _ _ _ _ o(2)] Cons.prems by simp
      then show ?case using s Cons.prems(4,5) by simp
    qed auto
    obtain key where key: "n < length nbh" "make_block_hash_with_group_id (nbh ! n) g = Inr key"
      "key \<in> block_keys p1 b" using c1 nsb by auto
    have "block_keys p' b = block_keys p1 b"
      using other [OF w1 _ \<open>b \<notin> set bs\<close> rest] bb bl by simp
    then show ?thesis using 0 key by auto
  next
    case (Suc j')
    have "distinct (filter (\<lambda>b. \<not> kb_is_null (blk p b)) bs)" using dist by (auto split: if_splits)
    then show ?thesis using IH Suc j ns by auto
  qed
  ultimately show ?case by blast
qed (auto simp: caches_refl)

lemma list_index_drop:
  assumes "0 \<le> n" "j < length (py_slice_from n xs)"
  shows "list_index xs (n + int j) = Inr (py_slice_from n xs ! j)"
  using assms by (auto simp: py_slice_from_def py_bound_def list_index_def nat_add_distrib Let_def)

lemma hl_from_at:
  assumes "hl_from hl n = Inr hs" "0 \<le> n" "j < length hs"
  shows "hl_at hl (n + int j) = Inr (hs ! j)"
proof (cases hl)
  case (Plain xs)
  then show ?thesis using assms list_index_drop by auto
next
  case (Scaled l)
  have r: "rmap (get_value_at l) [min n (bl_len l)..bl_len l - 1] = Inr hs"
    using assms Scaled by (simp add: bl_range_def)
  then have "length hs = length [min n (bl_len l)..bl_len l - 1]"
    by (simp only: rmap_Inr_iff list_all2_lengthD)
  then have j: "j < nat (bl_len l - min n (bl_len l))" using assms(3) by simp
  then have "min n (bl_len l) = n" by simp
  moreover have "get_value_at l ([min n (bl_len l)..bl_len l - 1] ! j) = Inr (hs ! j)"
    using r j list_all2_nthD by (fastforce simp: rmap_Inr_iff)
  ultimately show ?thesis using Scaled j by simp
qed

lemma hash_view_events [simp]:
  "hash_view (p\<lparr>bp_kv_event_queue := q\<rparr>) = hash_view p" "wf_view (p\<lparr>bp_kv_event_queue := q\<rparr>) = wf_view p"
  "refs_view (p\<lparr>bp_kv_event_queue := q\<rparr>) = refs_view p"
  by (simp_all add: view_defs)

lemma caches_events: "caches p p' \<Longrightarrow> caches p (p'\<lparr>bp_kv_event_queue := q\<rparr>)"
  using hash_view_cong [of "p'\<lparr>bp_kv_event_queue := q\<rparr>" p'] by (simp add: caches_def)

lemma block_keys_events [simp]: "block_keys (p\<lparr>bp_kv_event_queue := q\<rparr>) b = block_keys p b"
  by (simp add: block_keys_def aliases_def)

lemma set_py_slice: "set (py_slice i j xs) \<subseteq> set xs"
  by (auto simp: py_slice_def dest: in_set_dropD in_set_takeD)

lemma nth_py_slice:
  assumes "0 \<le> i" "0 \<le> j" "k < length (py_slice i j xs)"
  shows "py_slice i j xs ! k = xs ! (nat i + k) \<and> nat i + k < length xs \<and> int (nat i + k) < j"
proof -
  have k: "k < length (take (nat j) xs) - nat i" using assms by (simp add: py_slice_def py_bound_def)
  then have "nat i \<le> length (take (nat j) xs)" by linarith
  then have "drop (nat i) (take (nat j) xs) ! k = xs ! (nat i + k)" using k by (simp del: length_take) auto
  then show ?thesis using assms k by (auto simp: py_slice_def py_bound_def)
qed

text \<open>The hash of block \<open>i\<close> of a request at a block size, packed for a group.\<close>

definition key_of_block :: "block_pool \<Rightarrow> request \<Rightarrow> int \<Rightarrow> int \<Rightarrow> int \<Rightarrow> bytes res" where
  "key_of_block p r block_size group_id i =
     rbind (block_hashes_at p r block_size) (\<lambda>hl.
     rbind (hl_at hl i) (\<lambda>h. make_block_hash_with_group_id h group_id))"

definition mask_at :: "bool list option \<Rightarrow> int \<Rightarrow> bool" where
  "mask_at block_mask i = (case block_mask of None \<Rightarrow> True | Some m \<Rightarrow> m ! nat i)"

lemma cache_full_blocks_spec:
  assumes "pool_wf p" "hash_ok p" "set bs \<subseteq> set (bp_blocks p)" "0 \<le> nc"
    and run: "cache_full_blocks env r bs nc nf bsz g m p = Inr p'"
  shows "caches p p' \<and>
    (\<forall>b \<in> set (bp_blocks p). \<forall>k \<in> block_keys p' b. k \<in> block_keys p b \<or>
       (\<exists>i. nc \<le> i \<and> i < nf \<and> i < int (length bs) \<and> bs ! nat i = b \<and> \<not> kb_is_null (blk p b) \<and>
          mask_at m (i - nc) \<and> key_of_block p r bsz g i = Inr k)) \<and>
    (distinct (filter (\<lambda>b. \<not> kb_is_null (blk p b)) bs) \<longrightarrow>
       (\<forall>i. nc \<le> i \<and> i < nf \<and> i < int (length bs) \<and> \<not> kb_is_null (blk p (bs ! nat i)) \<and>
            mask_at m (i - nc) \<longrightarrow>
          (\<exists>key \<in> block_keys p' (bs ! nat i). key_of_block p r bsz g i = Inr key)))"
proof (cases "nf \<le> nc")
  case True
  then show ?thesis using run assms(2) by (auto simp: cache_full_blocks_def caches_refl)
next
  case False
  let ?new = "py_slice nc nf bs"
  have "\<exists>hl nbh nh p1. block_hashes_at p r bsz = Inr hl \<and> hl_from hl nc = Inr nbh \<and>
      rfold (cache_one_block nbh nc bsz g m) (enumerate 0 ?new) ([], p) = Inr (nh, p1) \<and>
      (p' = p1 \<or> (\<exists>q. p' = p1\<lparr>bp_kv_event_queue := q\<rparr>))"
    using run [unfolded cache_full_blocks_def Let_def if_not_P [OF False]]
    by (elim rbindE) (fastforce simp: rbind_eq_Inr split: if_splits)
  then obtain hl nbh nh p1 where hl: "block_hashes_at p r bsz = Inr hl" and nbh: "hl_from hl nc = Inr nbh"
    and loop: "rfold (cache_one_block nbh nc bsz g m) (enumerate 0 ?new) ([], p) = Inr (nh, p1)"
    and p': "p' = p1 \<or> (\<exists>q. p' = p1\<lparr>bp_kv_event_queue := q\<rparr>)" by blast
  have new: "set ?new \<subseteq> set (bp_blocks p)" using set_py_slice assms(3) by fast
  note sp = cache_loop_spec [OF assms(1,2) new loop, unfolded add_0]
  have keys: "block_keys p' b = block_keys p1 b" for b using p' by auto
  have "caches p p'" using p' sp caches_events by blast
  have at: "key_of_block p r bsz g (nc + int j) = make_block_hash_with_group_id (nbh ! j) g"
    if "j < length nbh" for j
    using hl_from_at [OF nbh assms(4) that] hl by (simp add: key_of_block_def)
  have sk: "skipped p m j b \<longleftrightarrow> kb_is_null (blk p b) \<or> \<not> mask_at m (int j)" for j b
    by (auto simp: skipped_def mask_at_def split: option.splits)
  have nth: "?new ! j = bs ! nat (nc + int j) \<and> nc + int j < int (length bs) \<and> nc + int j < nf"
    if "j < length ?new" for j
    using nth_py_slice [OF assms(4) _ that] False assms(4) by (simp add: nat_add_distrib) linarith
  show ?thesis
  proof (intro conjI ballI impI allI)
    show "caches p p'" by fact
    fix b k assume "b \<in> set (bp_blocks p)" "k \<in> block_keys p' b"
    then consider "k \<in> block_keys p b"
      | j where "j < length ?new" "?new ! j = b" "\<not> skipped p m j b" "j < length nbh"
          "make_block_hash_with_group_id (nbh ! j) g = Inr k"
      using sp unfolding keys by blast
    then show "k \<in> block_keys p b \<or> (\<exists>i. nc \<le> i \<and> i < nf \<and> i < int (length bs) \<and> bs ! nat i = b \<and>
        \<not> kb_is_null (blk p b) \<and> mask_at m (i - nc) \<and> key_of_block p r bsz g i = Inr k)"
    proof cases
      case 2
      then show ?thesis using nth [OF 2(1)] at [OF 2(4)] sk
        by (intro disjI2 exI [of _ "nc + int j"]) auto
    qed simp
  next
    fix i assume d: "distinct (filter (\<lambda>b. \<not> kb_is_null (blk p b)) bs)"
      and i: "nc \<le> i \<and> i < nf \<and> i < int (length bs) \<and> \<not> kb_is_null (blk p (bs ! nat i)) \<and> mask_at m (i - nc)"
    define j where "j = nat (i - nc)"
    have ij: "i = nc + int j" using i by (simp add: j_def)
    have j: "j < length ?new" using i assms(4) by (simp add: py_slice_def py_bound_def j_def) linarith
    have "filter (\<lambda>b. \<not> kb_is_null (blk p b)) bs = filter (\<lambda>b. \<not> kb_is_null (blk p b)) (take (nat nc) bs) @
        filter (\<lambda>b. \<not> kb_is_null (blk p b)) ?new @ filter (\<lambda>b. \<not> kb_is_null (blk p b)) (drop (nat nf) bs)"
    proof -
      have "bs = take (nat nc) bs @ ?new @ drop (nat nf) bs"
        using assms(4) False by (simp add: py_slice_def py_bound_def drop_take)
          (metis append_assoc append_take_drop_id drop_drop le_add_diff_inverse2 nat_mono linear take_add)
      then show ?thesis by (metis filter_append)
    qed
    then have "distinct (filter (\<lambda>b. \<not> kb_is_null (blk p b)) ?new)" using d by simp
    moreover have "\<not> skipped p m j (?new ! j)" using i nth [OF j] ij sk by auto
    ultimately obtain key where "key \<in> block_keys p1 (?new ! j)" "j < length nbh"
      "make_block_hash_with_group_id (nbh ! j) g = Inr key"
      using sp j by auto
    then show "\<exists>key \<in> block_keys p' (bs ! nat i). key_of_block p r bsz g i = Inr key"
      using nth [OF j] ij at keys by metis
  qed
qed

lemma cache_partial_block_spec:
  assumes wf: "pool_wf p" and h: "hash_ok p" and b: "b \<in> set (bp_blocks p)"
    and run: "cache_partial_block env r b nt g bsz p = Inr (key', p')"
  shows "caches p p' \<and>
    (\<forall>b' \<in> set (bp_blocks p). b' \<noteq> b \<longrightarrow> block_keys p' b' = block_keys p b') \<and>
    (if kb_is_null (blk p b) then key' = None \<and> p' = p
     else \<exists>h key. get_partial_block_hash p r nt = Inr h \<and> make_block_hash_with_group_id h g = Inr key \<and>
       key' = Some key \<and> key \<in> block_keys p' b \<and> block_keys p' b \<subseteq> insert key (block_keys p b))"
proof (cases "kb_is_null (blk p b)")
  case True
  then show ?thesis using run h by (simp add: cache_partial_block_def caches_refl)
next
  case False
  then have good: "b \<in> good_blocks p" using pool_wf_null [OF wf b] b by (simp add: good_blocks_def)
  let ?n = "nt div bp_hash_block_size p * bp_hash_block_size p"
  obtain rem p0 where rr: "remove_cached_block_hashes b p = (rem, p0)" by fastforce
  have "\<exists>h key P p2. get_partial_block_hash p r nt = Inr h \<and> make_block_hash_with_group_id h g = Inr key \<and>
      insert_block_hash key b (Some ?n) (if P then emit_block_removed_events rem p0 else p) = Inr p2 \<and>
      key' = Some key \<and> (p' = p2 \<or> (\<exists>q. p' = p2\<lparr>bp_kv_event_queue := q\<rparr>))"
    using run [unfolded cache_partial_block_def Let_def if_not_P [OF False] rr prod.case]
  proof (elim rbindE, goal_cases)
    case (1 u1 u2 u3 h key p2)
    then have "key' = Some key \<and> (p' = p2 \<or> (\<exists>q. p' = p2\<lparr>bp_kv_event_queue := q\<rparr>))"
      by (cases "bp_enable_kv_cache_events p2") (auto simp: rbind_eq_Inr split: if_split_asm)
    then show ?case using 1(4-6) by blast
  qed
  then obtain h key P p1 p2 where key: "get_partial_block_hash p r nt = Inr h"
      "make_block_hash_with_group_id h g = Inr key" "key' = Some key"
    and p1: "p1 = (if P then emit_block_removed_events rem p0 else p)"
    and p2: "insert_block_hash key b (Some ?n) p1 = Inr p2"
    and p': "p' = p2 \<or> (\<exists>q. p' = p2\<lparr>bp_kv_event_queue := q\<rparr>)" by blast
  have c1: "caches p p1" and k1: "block_keys p1 b \<subseteq> block_keys p b"
    and o1: "\<forall>b' \<in> set (bp_blocks p). b' \<noteq> b \<longrightarrow> block_keys p1 b' = block_keys p b'"
    using p1 remove_emit_caches [OF wf assms(2) b rr] caches_refl [OF assms(2)] by auto
  have w1: "pool_wf p1" "hash_ok p1" "b \<in> good_blocks p1" "bp_blocks p1 = bp_blocks p"
    using caches_wf [OF c1] caches_blocks [OF c1] c1 wf good by (simp_all add: caches_def)
  obtain p3 where p3: "insert_block_hash key b (Some ?n) p1 = Inr p3" "caches p1 p3"
    "\<forall>b' \<in> set (bp_blocks p1). block_keys p3 b' =
       (if b' = b then insert key (block_keys p1 b) else block_keys p1 b')"
    using insert_hash_spec [OF w1(1-3), of key "Some ?n"] unfolding caches_def by blast
  have "p3 = p2" using p2 p3(1) by simp
  then have "caches p p2" using c1 p3(2) caches_trans by blast
  then have "caches p p'" using p' caches_events by blast
  moreover have "block_keys p' b' = block_keys p2 b'" for b' using p' by auto
  ultimately show ?thesis using False key k1 o1 p3(3) \<open>p3 = p2\<close> w1(4) b by auto
qed

section \<open>Eviction and reset\<close>

lemma caches_notify: "caches p p' \<Longrightarrow> caches p (notify note p')"
  using hash_view_cong [of "notify note p'" p'] by (simp add: caches_def)

lemma maybe_evict_spec:
  assumes "pool_wf p" "hash_ok p" "b \<in> set (bp_blocks p)"
  shows "caches p (snd (maybe_evict_cached_block b p)) \<and>
    block_keys (snd (maybe_evict_cached_block b p)) b = {} \<and>
    (\<forall>b' \<in> set (bp_blocks p). b' \<noteq> b \<longrightarrow>
       block_keys (snd (maybe_evict_cached_block b p)) b' = block_keys p b')"
proof -
  let ?n = "notify (OnBlockEvicted (kb_block_id (blk p b))) p"
  have n: "caches p ?n" using caches_notify caches_refl [OF assms(2)] by blast
  have w: "pool_wf ?n" "hash_ok ?n" "b \<in> set (bp_blocks ?n)" and bl: "bp_blocks ?n = bp_blocks p"
    using caches_wf [OF n] caches_blocks [OF n] n assms by (simp_all add: caches_def)
  have kn: "block_keys ?n b' = block_keys p b'" for b' using hash_view_keys [of ?n p] by simp
  obtain removed p1 where r: "remove_cached_block_hashes b ?n = (removed, p1)" by fastforce
  note sp = remove_emit_caches [OF w r, unfolded kn bl]
  have "snd (maybe_evict_cached_block b p) = p1 \<and> removed = [] \<or>
      snd (maybe_evict_cached_block b p) = emit_block_removed_events removed p1"
    using r by (auto simp: maybe_evict_cached_block_def Let_def)
  moreover have "emit_block_removed_events [] p1 = p1" by (simp add: emit_block_removed_events_def)
  ultimately have "snd (maybe_evict_cached_block b p) = emit_block_removed_events removed p1" by auto
  then show ?thesis using sp caches_trans [OF n] by auto
qed

lemma evict_blocks_spec:
  assumes "pool_wf p" "hash_ok p" "\<forall>i \<in> set is. 0 \<le> i"
    and "evict_blocks is p = Inr p'"
  shows "caches p p' \<and> (\<forall>i \<in> set is. i < bp_num_gpu_blocks p) \<and>
    (\<forall>b \<in> set (bp_blocks p). block_keys p' b =
       (if kb_block_id (blk p b) \<in> set is then {} else block_keys p b))"
  using assms
proof (induction "is" arbitrary: p)
  case Nil
  then show ?case by (simp add: evict_blocks_def caches_refl)
next
  case (Cons i rest)
  obtain p1 where one: "evict_block i p = Inr p1" and more: "evict_blocks rest p1 = Inr p'"
    using Cons.prems(4) by (auto simp: evict_blocks_def rbind_eq_Inr)
  have bl: "bp_blocks p = map Blk [0..<nat (bp_num_gpu_blocks p)]" using Cons.prems(1) by (simp add: pool_wf_def)
  have i: "0 \<le> i" "i < bp_num_gpu_blocks p" and p1: "p1 = snd (maybe_evict_cached_block (Blk (nat i)) p)"
    using one Cons.prems(3) bl by (auto simp: evict_block_def list_index_def rbind_eq_Inr split: if_splits)
  have b: "Blk (nat i) \<in> set (bp_blocks p)" using i bl by auto
  note sp = maybe_evict_spec [OF Cons.prems(1,2) b, folded p1]
  have c: "caches p p1" using sp by blast
  have w: "pool_wf p1" "hash_ok p1" using caches_wf [OF c] c Cons.prems(1) by (simp_all add: caches_def)
  have "bp_num_gpu_blocks p1 = bp_num_gpu_blocks p" "bp_blocks p1 = bp_blocks p"
    and ids: "kb_block_id (blk p1 b') = kb_block_id (blk p b')" for b'
    using c by (auto simp: caches_def wf_view_def fun_eq_iff)
  note IH = Cons.IH [OF w _ more, unfolded this]
  have id: "kb_block_id (blk p b') = i \<longleftrightarrow> b' = Blk (nat i)" if "b' \<in> set (bp_blocks p)" for b'
    using that i Cons.prems(1) by (auto simp: pool_wf_def)
  show ?case
  proof (intro conjI ballI)
    show "caches p p'" using caches_trans [OF c] IH Cons.prems(3) by simp
  next
    fix j assume "j \<in> set (i # rest)"
    then show "j < bp_num_gpu_blocks p" using i IH Cons.prems(3) by auto
  next
    fix b' assume "b' \<in> set (bp_blocks p)"
    then show "block_keys p' b' = (if kb_block_id (blk p b') \<in> set (i # rest) then {} else block_keys p b')"
      using IH sp id Cons.prems(3) by auto
  qed
qed

lemma reset_hashes_fold:
  "fold (\<lambda>b p. set_blk b (reset_hash (blk p b)) p) bs p =
   p\<lparr>bp_free_block_queue := (bp_free_block_queue p)
       \<lparr>fq_mem := (\<lambda>b. if b \<in> set bs then reset_hash (blk p b) else blk p b)\<rparr>\<rparr>"
proof (induction bs arbitrary: p)
  case (Cons b bs)
  have [simp]: "reset_hash (reset_hash x) = reset_hash x" for x by (simp add: reset_hash_def)
  show ?case unfolding fold_Cons o_apply Cons.IH
    by (rule block_pool.equality) (auto simp: set_blk_def fun_eq_iff)
qed simp

lemma reset_prefix_cache_spec:
  assumes "pool_wf p" "hash_ok p"
  shows "reset_prefix_cache p = (b, p') \<Longrightarrow>
    b = (bp_num_gpu_blocks p - get_num_free_blocks p = 1) \<and> (\<not> b \<longrightarrow> p' = p) \<and> caches p p' \<and>
    (b \<longrightarrow> (\<forall>c \<in> set (bp_blocks p). block_keys p' c = {}))"
proof -
  assume run: "reset_prefix_cache p = (b, p')"
  show ?thesis
  proof (cases "bp_num_gpu_blocks p - get_num_free_blocks p = 1")
    case False
    then show ?thesis using run assms(2) by (simp add: reset_prefix_cache_def caches_refl)
  next
    case True
    let ?p2 = "p\<lparr>bp_cached_block_hash_to_block := [], bp_cached_block_hashes_by_block := [],
        bp_free_block_queue := (bp_free_block_queue p)
          \<lparr>fq_mem := (\<lambda>b. if b \<in> set (bp_blocks p) then reset_hash (blk p b) else blk p b)\<rparr>\<rparr>"
    have fo: "fold (\<lambda>b p. set_blk b (reset_hash (blk p b)) p) (bp_blocks p)
        (p\<lparr>bp_cached_block_hash_to_block := [], bp_cached_block_hashes_by_block := []\<rparr>) = ?p2"
      unfolding reset_hashes_fold by (simp cong: if_cong)
    have p': "b" "p' = notify MetricsReset ?p2 \<or> (\<exists>q. p' = (notify MetricsReset ?p2)\<lparr>bp_kv_event_queue := q\<rparr>)"
      using run True fo by (auto simp: reset_prefix_cache_def Let_def split: if_splits)
    have keys: "block_keys ?p2 c = {}" if "c \<in> set (bp_blocks p)" for c
      using that by (simp add: block_keys_def aliases_def)
    have ids: "ids (blk ?p2) = ids (blk p)" by auto
    have nul: "bp_null_block p \<in> set (bp_blocks p)" using assms(1) by (auto simp: pool_wf_def)
    have "hash_ok ?p2"
      using keys nul by (auto simp: hash_ok_def good_blocks_def aliases_def hm_ids_def)
    moreover have "wf_view ?p2 = wf_view p" "refs_view ?p2 = refs_view p"
      by (auto simp: view_defs fun_eq_iff)
    ultimately have c: "caches p ?p2" by (simp add: caches_def)
    have "caches p p'" using p'(2) caches_events caches_notify [OF c] by blast
    moreover have "block_keys p' c = block_keys ?p2 c" for c
      using p'(2) hash_view_keys [of "notify MetricsReset ?p2" ?p2] by auto
    ultimately show ?thesis using True p'(1) keys by simp
  qed
qed

lemma take_events_spec:
  "hash_ok p \<Longrightarrow> caches p (snd (take_events p)) \<and> block_keys (snd (take_events p)) b = block_keys p b"
  using caches_events [OF caches_refl] by (auto simp: take_events_def caches_refl)

lemma rfold_same:
  assumes "rfold f xs s = Inr s'" and "\<And>x s s'. f x s = Inr s' \<Longrightarrow> v s' = v s"
  shows "v s' = v s"
  using assms(1)
proof (induction xs arbitrary: s)
  case (Cons x xs)
  then show ?case using assms(2) by (auto simp: rbind_eq_Inr)
qed simp

section \<open>The configuration never changes\<close>

definition config_of :: "block_pool \<Rightarrow> int \<times> bool" where
  "config_of p = (bp_hash_block_size p, bp_enable_caching p)"

lemma config_updates [simp]:
  "config_of (set_blk b x p) = config_of p" "config_of (notify note p) = config_of p"
  "config_of (emit_block_removed_events hs p) = config_of p"
  "config_of (p\<lparr>bp_free_block_queue := q\<rparr>) = config_of p"
  "config_of (p\<lparr>bp_cached_block_hash_to_block := c\<rparr>) = config_of p"
  "config_of (p\<lparr>bp_cached_block_hashes_by_block := d\<rparr>) = config_of p"
  "config_of (p\<lparr>bp_kv_event_queue := e\<rparr>) = config_of p"
  by (simp_all add: config_of_def notify_def emit_block_removed_events_def)

lemma pop_fold_config [simp]: "config_of (snd (fold (pop_hash i) hs acc)) = config_of (snd acc)"
  by (induction hs arbitrary: acc) (auto simp: pop_hash_def Let_def case_prod_beta)

lemma remove_config [simp]: "config_of (snd (remove_cached_block_hashes b p)) = config_of p"
  by (auto simp: remove_cached_block_hashes_def Let_def case_prod_beta)

lemma insert_config: "insert_block_hash key b nt p = Inr p' \<Longrightarrow> config_of p' = config_of p"
  by (auto simp: insert_block_hash_def Let_def rbind_eq_Inr split: if_splits)

lemma evict_config [simp]: "config_of (snd (maybe_evict_cached_block b p)) = config_of p"
  using remove_config [of b "notify (OnBlockEvicted (kb_block_id (blk p b))) p"]
  by (simp add: maybe_evict_cached_block_def Let_def case_prod_beta)

lemma claim_config: "claim_block b p = Inr p' \<Longrightarrow> config_of p' = config_of p"
  by (auto simp: claim_block_def Let_def split: if_splits)

lemma get_new_blocks_config: "get_new_blocks n p = Inr (bs, p') \<Longrightarrow> config_of p' = config_of p"
proof -
  assume "get_new_blocks n p = Inr (bs, p')"
  then obtain xs q where "rfold claim_block xs (p\<lparr>bp_free_block_queue := q\<rparr>) = Inr p'"
    by (auto simp: get_new_blocks_def rbind_eq_Inr split: if_splits)
  from rfold_same [OF this, of config_of] claim_config show ?thesis by simp
qed

lemma touch_config: "touch bs p = Inr p' \<Longrightarrow> config_of p' = config_of p"
proof -
  assume "touch bs p = Inr p'"
  moreover have "config_of s' = config_of s" if "touch_block b s = Inr s'" for b s s'
    using that by (auto simp: touch_block_def rbind_eq_Inr split: if_splits)
  ultimately show ?thesis unfolding touch_def by (rule rfold_same)
qed

lemma drop_refs_config: "config_of (snd (snd (drop_refs bs wh wo p))) = config_of p"
  by (induction bs arbitrary: wh wo p) (auto simp: Let_def)

lemma free_blocks_config: "free_blocks bs p = Inr p' \<Longrightarrow> config_of p' = config_of p"
  using drop_refs_config [of bs "[]" "[]" p]
  by (auto simp: free_blocks_def rbind_eq_Inr case_prod_beta)

lemma cache_one_config:
  assumes "cache_one_block nbh nc bsz g m ib acc = Inr acc'"
  shows "config_of (snd acc') = config_of (snd acc)"
proof -
  obtain i b where ib: "ib = (i, b)" by fastforce
  obtain nh p where acc: "acc = (nh, p)" by fastforce
  obtain rem p0 where rr: "remove_cached_block_hashes b p = (rem, p0)" by fastforce
  have r: "config_of p0 = config_of p" using remove_config [of b p] rr by simp
  show ?thesis
    using assms r insert_config unfolding ib acc
    by (auto simp: cache_one_block_def rbind_eq_Inr Let_def rr split: if_splits option.splits)
qed

lemma cache_full_blocks_config:
  assumes "cache_full_blocks env r bs nc nf bsz g m p = Inr p'" shows "config_of p' = config_of p"
proof (cases "nf \<le> nc")
  case False
  have "\<exists>nbh xs nh p1. rfold (cache_one_block nbh nc bsz g m) xs ([], p) = Inr (nh, p1) \<and>
      (p' = p1 \<or> (\<exists>q. p' = p1\<lparr>bp_kv_event_queue := q\<rparr>))"
    using assms [unfolded cache_full_blocks_def Let_def if_not_P [OF False]]
    by (elim rbindE) (fastforce simp: rbind_eq_Inr split: if_splits)
  then obtain nbh xs nh p1 where loop: "rfold (cache_one_block nbh nc bsz g m) xs ([], p) = Inr (nh, p1)"
    and p': "p' = p1 \<or> (\<exists>q. p' = p1\<lparr>bp_kv_event_queue := q\<rparr>)" by blast
  have "config_of (snd (nh, p1)) = config_of (snd ([] :: external_block_hash list, p))"
    using rfold_same [OF loop, of "\<lambda>acc. config_of (snd acc)"] cache_one_config by blast
  then show ?thesis using p' by auto
qed (use assms in \<open>simp add: cache_full_blocks_def\<close>)

lemma cache_partial_block_config:
  assumes "cache_partial_block env r b nt g bsz p = Inr (key', p')" shows "config_of p' = config_of p"
proof (cases "kb_is_null (blk p b)")
  case False
  obtain rem p0 where rr: "remove_cached_block_hashes b p = (rem, p0)" by fastforce
  have r: "config_of p0 = config_of p" using remove_config [of b p] rr by simp
  show ?thesis
    using assms [unfolded cache_partial_block_def Let_def if_not_P [OF False] rr prod.case]
  proof (elim rbindE, goal_cases)
    case (1 u1 u2 u3 h key p2)
    then have "p' = p2 \<or> (\<exists>q. p' = p2\<lparr>bp_kv_event_queue := q\<rparr>)"
      by (cases "bp_enable_kv_cache_events p2") (auto simp: rbind_eq_Inr split: if_split_asm)
    moreover have "config_of p2 = config_of p" using insert_config [OF 1(6)] r by (simp split: if_splits)
    ultimately show ?case by auto
  qed
qed (use assms in \<open>simp add: cache_partial_block_def\<close>)

lemma evict_blocks_config: "evict_blocks is p = Inr p' \<Longrightarrow> config_of p' = config_of p"
proof -
  assume "evict_blocks is p = Inr p'"
  moreover have "config_of s' = config_of s" if "evict_block i s = Inr s'" for i s s'
    using that by (auto simp: evict_block_def rbind_eq_Inr split: if_splits)
  ultimately show ?thesis unfolding evict_blocks_def by (rule rfold_same)
qed

lemma reset_config [simp]: "config_of (snd (reset_prefix_cache p)) = config_of p"
  by (simp add: reset_prefix_cache_def Let_def reset_hashes_fold config_of_def notify_def)

lemma take_events_config [simp]: "config_of (snd (take_events p)) = config_of p"
  by (simp add: take_events_def)

end
