(* ===== verification/PrefixCache.thy ===== *)
theory PrefixCache
  imports PoolHistory
begin

text \<open>
  The prefix cache as a whole: histories of a pool in which every block carries the prefixes it
  was cached for since it was last handed out.  \<open>pool_traced env p T\<close> means that \<open>p\<close> is a
  pool such a history ends in, and \<open>(r, t, g)\<close> is in \<open>T b\<close> when block \<open>b\<close> was cached for the
  first \<open>t\<close> tokens of request \<open>r\<close> in group \<open>g\<close>; \<open>T\<close> is ghost state, absent from the code.
  The premises of each rule are what the callers in the managers keep to: token hashes that are
  those of the request's tokens, blocks of the pool, no reference given back twice.
\<close>

type_synonym block_trace = "block_ref \<Rightarrow> (request \<times> nat \<times> int) set"

definition trace_full ::
  "block_pool \<Rightarrow> request \<Rightarrow> block_ref list \<Rightarrow> int \<Rightarrow> int \<Rightarrow> int \<Rightarrow> int \<Rightarrow> bool list option
     \<Rightarrow> block_trace \<Rightarrow> block_trace" where
  "trace_full p r bs nc nf bsz g m T b =
     T b \<union> {(r, nat ((i + 1) * bsz), g) | i. nc \<le> i \<and> i < nf \<and> i < int (length bs) \<and>
              bs ! nat i = b \<and> \<not> kb_is_null (blk p b) \<and> mask_at m (i - nc)}"

definition retier :: "block_ref \<Rightarrow> kv_block_state \<Rightarrow> block_pool \<Rightarrow> block_pool" where
  "retier b s p = set_blk b ((blk p b)\<lparr>kb_hierarchy_state := s\<rparr>) p"

inductive pool_traced :: "hash_env \<Rightarrow> block_pool \<Rightarrow> block_trace \<Rightarrow> bool" for env where
  created: "new_block_pool n caching hbs ev ints met = Inr p \<Longrightarrow> 0 < hbs \<Longrightarrow>
     pool_traced env p (\<lambda>_. {})"
| allocated: "pool_traced env p T \<Longrightarrow> 0 \<le> n \<Longrightarrow> get_new_blocks n p = Inr (bs, p') \<Longrightarrow>
     pool_traced env p' (\<lambda>b. if b \<in> set bs then {} else T b)"
| touched: "pool_traced env p T \<Longrightarrow> set bs \<subseteq> set (bp_blocks p) \<Longrightarrow> touch bs p = Inr p' \<Longrightarrow>
     pool_traced env p' T"
| freed: "pool_traced env p T \<Longrightarrow> set bs \<subseteq> set (bp_blocks p) \<Longrightarrow>
     \<forall>b \<in> good_blocks p. int (count_list bs b) \<le> refs p b \<Longrightarrow> free_blocks bs p = Inr p' \<Longrightarrow>
     pool_traced env p' T"
| cached: "pool_traced env p T \<Longrightarrow> set bs \<subseteq> set (bp_blocks p) \<Longrightarrow> 0 \<le> nc \<Longrightarrow> 0 < bsz \<Longrightarrow>
     hashes_current env (nat (bp_hash_block_size p)) r \<Longrightarrow>
     cache_full_blocks env r bs nc nf bsz g m p = Inr p' \<Longrightarrow>
     pool_traced env p' (trace_full p r bs nc nf bsz g m T)"
| cached_partially: "pool_traced env p T \<Longrightarrow> b \<in> set (bp_blocks p) \<Longrightarrow>
     hashes_current env (nat (bp_hash_block_size p)) r \<Longrightarrow>
     cache_partial_block env r b nt g bsz p = Inr (key, p') \<Longrightarrow>
     pool_traced env p' (if kb_is_null (blk p b) then T else T(b := insert (r, nat nt, g) (T b)))"
| evicted: "pool_traced env p T \<Longrightarrow> \<forall>i \<in> set is. 0 \<le> i \<Longrightarrow> evict_blocks is p = Inr p' \<Longrightarrow>
     pool_traced env p' T"
| reset: "pool_traced env p T \<Longrightarrow> reset_prefix_cache p = (b, p') \<Longrightarrow> pool_traced env p' T"
| events_taken: "pool_traced env p T \<Longrightarrow> pool_traced env (snd (take_events p)) T"
| retiered: "pool_traced env p T \<Longrightarrow> b \<in> set (bp_blocks p) \<Longrightarrow> pool_traced env (retier b s p) T"

section \<open>The invariant of a history\<close>

definition cached_key :: "hash_env \<Rightarrow> nat \<Rightarrow> request \<times> nat \<times> int \<Rightarrow> bytes \<Rightarrow> bool" where
  "cached_key env n e k \<longleftrightarrow> (case e of (r, t, g) \<Rightarrow>
     hashes_current env n r \<and> n dvd t \<and> 0 < t \<and> t \<le> rq_num_tokens r \<and>
     make_block_hash_with_group_id (chain_hash env r n (t div n - 1)) g = Inr k)"

definition traced_inv :: "hash_env \<Rightarrow> block_pool \<Rightarrow> block_trace \<Rightarrow> bool" where
  "traced_inv env p T \<longleftrightarrow> pool_inv p \<and> 0 < bp_hash_block_size p \<and>
     (bp_enable_caching p \<longrightarrow> (\<forall>b \<in> good_blocks p. \<forall>k \<in> block_keys p b.
        \<exists>e \<in> T b. cached_key env (nat (bp_hash_block_size p)) e k))"

lemma list_index_current:
  assumes "hashes_current env n r" "0 < n" "list_index (rq_block_hashes r) i = Inr h" "0 \<le> i"
  shows "h = chain_hash env r n (nat i) \<and> nat i * n + n \<le> rq_num_tokens r"
proof -
  have i: "nat i < rq_num_tokens r div n" "h = rq_block_hashes r ! nat i"
    using assms(1,3,4) by (auto simp: list_index_def hashes_current_def Let_def split: if_splits)
  moreover have "(nat i + 1) * n \<le> rq_num_tokens r"
    using i(1) assms(2) by (metis Suc_eq_plus1 Suc_leI less_eq_div_iff_mult_less_eq)
  ultimately show ?thesis using assms(1) by (simp add: hashes_current_def)
qed

lemma cached_key_at:
  assumes "hashes_current env n r" "0 < n" "j * n + n \<le> rq_num_tokens r"
    and "make_block_hash_with_group_id (chain_hash env r n j) g = Inr k"
  shows "cached_key env n (r, (j + 1) * n, g) k"
  using assms by (simp add: cached_key_def)

lemma key_of_block_current:
  assumes key: "key_of_block p r bsz g i = Inr k" and "0 \<le> i" "0 < bsz" and hbs: "0 < bp_hash_block_size p"
    and cur: "hashes_current env (nat (bp_hash_block_size p)) r"
  shows "cached_key env (nat (bp_hash_block_size p)) (r, nat ((i + 1) * bsz), g) k"
proof -
  let ?n = "nat (bp_hash_block_size p)"
  have n: "0 < ?n" using hbs by simp
  obtain hl h where hl: "block_hashes_at p r bsz = Inr hl" "hl_at hl i = Inr h"
    and k: "make_block_hash_with_group_id h g = Inr k"
    using key by (auto simp: key_of_block_def rbind_eq_Inr)
  obtain j where j: "0 \<le> j" "list_index (rq_block_hashes r) j = Inr h" "(j + 1) * bp_hash_block_size p = (i + 1) * bsz"
  proof (cases "bsz = bp_hash_block_size p")
    case True
    then show ?thesis using hl that [of i] assms(2) by (auto simp: block_hashes_at_def)
  next
    case False
    let ?s = "bsz div bp_hash_block_size p"
    have dvd: "bp_hash_block_size p * ?s = bsz"
      and at: "list_index (rq_block_hashes r) ((i + 1) * ?s - 1) = Inr h"
      using hl False by (auto simp: block_hashes_at_def rbind_eq_Inr new_block_hash_list_def get_value_at_def
          split: if_splits)
    have "0 < ?s" using dvd assms(3) hbs by (metis zero_less_mult_pos)
    then have "0 < (i + 1) * ?s" using assms(2) by (intro mult_pos_pos) simp_all
    then show ?thesis using that [of "(i + 1) * ?s - 1"] at dvd by (simp add: algebra_simps)
  qed
  note c = list_index_current [OF cur n j(2,1)]
  have "nat ((i + 1) * bsz) = (nat j + 1) * ?n"
    unfolding j(3) [symmetric] using j(1) hbs by (simp add: nat_mult_distrib nat_add_distrib)
  then show ?thesis using cached_key_at [OF cur n, of "nat j" g k] c k by simp
qed

lemma partial_key_current:
  assumes "get_partial_block_hash p r nt = Inr h" "make_block_hash_with_group_id h g = Inr k"
    and hbs: "0 < bp_hash_block_size p" and cur: "hashes_current env (nat (bp_hash_block_size p)) r"
  shows "cached_key env (nat (bp_hash_block_size p)) (r, nat nt, g) k"
proof -
  let ?n = "nat (bp_hash_block_size p)"
  have n: "0 < ?n" using hbs by simp
  let ?q = "nt div bp_hash_block_size p"
  have q: "0 < ?q" "nt = bp_hash_block_size p * ?q" "list_index (rq_block_hashes r) (?q - 1) = Inr h"
    using assms(1) by (auto simp: get_partial_block_hash_def rbind_eq_Inr Let_def res_simps)
  note c = list_index_current [OF cur n q(3)]
  have "nat nt = (nat (?q - 1) + 1) * ?n"
    by (subst q(2)) (use q(1) hbs in \<open>simp add: nat_mult_distrib mult.commute Suc_nat_eq_nat_zadd1\<close>)
  then show ?thesis using cached_key_at [OF cur n, of "nat (?q - 1)" g k] c q(1) assms(2) by simp
qed

lemma traced_inv_caches:
  assumes inv: "traced_inv env p T" and c: "caches p p'" and cfg: "config_of p' = config_of p"
    and keys: "\<And>b k. b \<in> good_blocks p \<Longrightarrow> k \<in> block_keys p' b \<Longrightarrow> bp_enable_caching p \<Longrightarrow>
      \<exists>e \<in> T' b. cached_key env (nat (bp_hash_block_size p)) e k"
  shows "traced_inv env p' T'"
proof -
  have "pool_inv p'" using inv caches_wf [OF c] caches_refs [OF c] c
    by (auto simp: traced_inv_def pool_inv_def caches_def)
  moreover have "good_blocks p' = good_blocks p" using caches_blocks [OF c] by simp
  ultimately show ?thesis using inv cfg keys by (auto simp: traced_inv_def config_of_def)
qed

lemma traced_keysD:
  assumes "traced_inv env p T" "bp_enable_caching p" "b \<in> good_blocks p" "k \<in> block_keys p b"
  shows "\<exists>e \<in> T b. cached_key env (nat (bp_hash_block_size p)) e k"
  using assms by (simp add: traced_inv_def)

lemma traced_invD:
  assumes "traced_inv env p T" obtains xs where "pool_wf p" "hash_ok p" "refs_ok p xs" "0 < bp_hash_block_size p"
  using assms by (auto simp: traced_inv_def pool_inv_def)

lemma traced_inv_refs:
  assumes inv: "traced_inv env p T" and wf: "wf_view p' = wf_view p" and h: "hash_view p' = hash_view p"
    and r: "refs_ok p' xs" and cfg: "config_of p' = config_of p"
  shows "traced_inv env p' T"
proof -
  have "pool_wf p'" "hash_ok p'" "good_blocks p' = good_blocks p"
    using inv wf_view_cong [OF wf] hash_view_cong [OF h] wf_view_good [OF wf]
    by (auto simp: traced_inv_def pool_inv_def)
  then show ?thesis using inv r cfg hash_view_keys [OF h]
    by (auto simp: traced_inv_def pool_inv_def config_of_def)
qed

lemma allocated_inv:
  assumes inv: "traced_inv env p T" and n: "0 \<le> n" and run: "get_new_blocks n p = Inr (bs, p')"
  shows "traced_inv env p' (\<lambda>b. if b \<in> set bs then {} else T b)"
proof -
  obtain xs where wf: "pool_wf p" "hash_ok p" "refs_ok p xs" using inv by (rule traced_invD)
  note sp = get_new_blocks_spec [OF wf n]
  have len: "\<not> int (length xs) < n" using sp run by (auto split: if_splits)
  have bs: "bs = take (nat n) xs" and w: "wf_view p' = wf_view p" and h: "hash_ok p'" and r: "refs_ok p' (drop (nat n) xs)"
    and new: "\<forall>b \<in> set bs. bp_enable_caching p \<longrightarrow> block_keys p' b = {}"
    and old: "\<forall>b \<in> set (bp_blocks p). b \<notin> set bs \<longrightarrow> block_keys p' b = block_keys p b"
    using sp run len by auto
  have "pool_inv p'" using wf_view_cong [OF w] wf(1) h r by (auto simp: pool_inv_def)
  moreover have "config_of p' = config_of p" by (rule get_new_blocks_config [OF run])
  moreover have "good_blocks p' = good_blocks p" by (rule wf_view_good [OF w])
  moreover have "\<exists>e \<in> (if b \<in> set bs then {} else T b). cached_key env (nat (bp_hash_block_size p)) e k"
    if "b \<in> good_blocks p" "k \<in> block_keys p' b" "bp_enable_caching p" for b k
  proof -
    have "b \<notin> set bs" using new that by auto
    then show ?thesis using traced_keysD [OF inv that(3,1)] old that good_in_blocks by auto
  qed
  ultimately show ?thesis using inv by (simp add: traced_inv_def config_of_def)
qed

lemma cached_inv:
  assumes inv: "traced_inv env p T" and bs: "set bs \<subseteq> set (bp_blocks p)" and nc: "0 \<le> nc" and bsz: "0 < bsz"
    and cur: "hashes_current env (nat (bp_hash_block_size p)) r"
    and run: "cache_full_blocks env r bs nc nf bsz g m p = Inr p'"
  shows "traced_inv env p' (trace_full p r bs nc nf bsz g m T)"
proof -
  obtain xs where wf: "pool_wf p" "hash_ok p" and hbs: "0 < bp_hash_block_size p" using inv by (rule traced_invD)
  note sp = cache_full_blocks_spec [OF wf bs nc run]
  have "\<exists>e \<in> trace_full p r bs nc nf bsz g m T b. cached_key env (nat (bp_hash_block_size p)) e k"
    if b: "b \<in> good_blocks p" "k \<in> block_keys p' b" "bp_enable_caching p" for b k
  proof -
    consider "k \<in> block_keys p b"
      | i where "nc \<le> i" "i < nf" "i < int (length bs)" "bs ! nat i = b" "\<not> kb_is_null (blk p b)"
          "mask_at m (i - nc)" "key_of_block p r bsz g i = Inr k"
      using sp b good_in_blocks by blast
    then show ?thesis
    proof cases
      case 1
      then show ?thesis using traced_keysD [OF inv b(3,1)] by (auto simp: trace_full_def)
    next
      case 2
      have "cached_key env (nat (bp_hash_block_size p)) (r, nat ((i + 1) * bsz), g) k"
        using key_of_block_current [OF 2(7) _ bsz hbs cur] 2(1) nc by simp
      then show ?thesis using 2 by (intro bexI [of _ "(r, nat ((i + 1) * bsz), g)"]) (auto simp: trace_full_def)
    qed
  qed
  then show ?thesis using traced_inv_caches [OF inv _ cache_full_blocks_config [OF run]] sp by blast
qed

lemma cached_partially_inv:
  assumes inv: "traced_inv env p T" and b: "b \<in> set (bp_blocks p)"
    and cur: "hashes_current env (nat (bp_hash_block_size p)) r"
    and run: "cache_partial_block env r b nt g bsz p = Inr (key', p')"
  shows "traced_inv env p' (if kb_is_null (blk p b) then T else T(b := insert (r, nat nt, g) (T b)))"
proof -
  obtain xs where wf: "pool_wf p" "hash_ok p" and hbs: "0 < bp_hash_block_size p" using inv by (rule traced_invD)
  note sp = cache_partial_block_spec [OF wf b run]
  show ?thesis
  proof (cases "kb_is_null (blk p b)")
    case True
    then show ?thesis using sp inv by simp
  next
    case False
    then obtain h key where key: "get_partial_block_hash p r nt = Inr h" "make_block_hash_with_group_id h g = Inr key"
      "block_keys p' b \<subseteq> insert key (block_keys p b)"
      using sp by auto
    have other: "\<forall>b' \<in> set (bp_blocks p). b' \<noteq> b \<longrightarrow> block_keys p' b' = block_keys p b'" and c: "caches p p'"
      using sp by blast+
    note ck = partial_key_current [OF key(1,2) hbs cur]
    have "\<exists>e \<in> (T(b := insert (r, nat nt, g) (T b))) b'. cached_key env (nat (bp_hash_block_size p)) e k"
      if b': "b' \<in> good_blocks p" "k \<in> block_keys p' b'" "bp_enable_caching p" for b' k
    proof (cases "b' = b \<and> k \<notin> block_keys p b")
      case True
      then have "k = key" using key(3) b'(2) by blast
      then show ?thesis using ck True by simp
    next
      case False
      then have "k \<in> block_keys p b'" using bspec [OF other good_in_blocks [OF b'(1)]] b'(2) by auto
      then show ?thesis using traced_keysD [OF inv b'(3,1)] by auto
    qed
    then show ?thesis using traced_inv_caches [OF inv c cache_partial_block_config [OF run]] False by simp
  qed
qed

lemma retier_views [simp]:
  "hash_view (retier b s p) = hash_view p" "wf_view (retier b s p) = wf_view p"
  "refs_view (retier b s p) = refs_view p" "config_of (retier b s p) = config_of p"
  by (auto simp: retier_def view_defs fun_eq_iff config_of_def)

lemma pool_traced_inv: "pool_traced env p T \<Longrightarrow> traced_inv env p T"
proof (induction rule: pool_traced.induct)
  case (created n caching hbs ev ints met p)
  have n: "0 < n" using created(1) by (auto simp: new_block_pool_def split: if_splits)
  show ?case using new_block_pool_spec [OF n, of caching hbs ev ints met] created
    by (auto simp: traced_inv_def pool_inv_def good_blocks_def)
next
  case (allocated p T n bs p')
  then show ?case using allocated_inv by blast
next
  case (touched p T bs p')
  obtain xs where wf: "pool_wf p" "refs_ok p xs" using touched.IH by (rule traced_invD)
  show ?case using touch_spec [OF wf touched.hyps(2)] touched.hyps(3)
      traced_inv_refs [OF touched.IH _ _ _ touch_config [OF touched.hyps(3)]] by auto
next
  case (freed p T bs p')
  obtain xs where wf: "pool_wf p" "refs_ok p xs" using freed.IH by (rule traced_invD)
  obtain ys p'' where "free_blocks bs p = Inr p''" "wf_view p'' = wf_view p" "hash_view p'' = hash_view p" "refs_ok p'' ys"
    using free_blocks_spec [OF wf freed.hyps(2,3)] by blast
  then show ?case using freed.hyps(4)
      traced_inv_refs [OF freed.IH _ _ _ free_blocks_config [OF freed.hyps(4)]] by auto
next
  case (cached p T bs nc bsz r nf g m p')
  then show ?case using cached_inv by blast
next
  case (cached_partially p T b r nt g bsz key p')
  then show ?case using cached_partially_inv by blast
next
  case (evicted p T "is" p')
  obtain xs where wf: "pool_wf p" "hash_ok p" using evicted.IH by (rule traced_invD)
  note sp = evict_blocks_spec [OF wf evicted.hyps(2,3)]
  show ?case
    by (rule traced_inv_caches [OF evicted.IH _ evict_blocks_config [OF evicted.hyps(3)]])
      (use sp traced_keysD [OF evicted.IH] good_in_blocks in \<open>auto split: if_splits\<close>)
next
  case (reset p T b p')
  obtain xs where wf: "pool_wf p" "hash_ok p" using reset.IH by (rule traced_invD)
  note sp = reset_prefix_cache_spec [OF wf reset.hyps(2)]
  have "config_of p' = config_of p" using reset_config [of p] reset.hyps(2) by simp
  then show ?case
    by (rule traced_inv_caches [OF reset.IH conjunct1 [OF conjunct2 [OF conjunct2 [OF sp]]]])
      (use sp traced_keysD [OF reset.IH] good_in_blocks in \<open>cases b; auto\<close>)
next
  case (events_taken p T)
  obtain xs where wf: "hash_ok p" using events_taken.IH by (rule traced_invD)
  note sp = take_events_spec [OF wf]
  show ?case by (rule traced_inv_caches [OF events_taken.IH _ take_events_config])
      (use sp traced_keysD [OF events_taken.IH] in auto)
next
  case (retiered p T b s)
  obtain xs where wf: "refs_ok p xs" using retiered.IH by (rule traced_invD)
  then have "refs_ok (retier b s p) xs" using refs_view_cong [of "retier b s p" p] by simp
  then show ?case using traced_inv_refs [OF retiered.IH] by simp
qed

section \<open>Every block is free or held\<close>

definition held_blocks :: "block_pool \<Rightarrow> block_ref set" where
  "held_blocks p = {b \<in> set (bp_blocks p). \<not> kb_is_null (blk p b) \<and> 0 < refs p b}"

lemma pool_wf_good_eq: "pool_wf p \<Longrightarrow> good_blocks p = {b \<in> set (bp_blocks p). \<not> kb_is_null (blk p b)}"
  using pool_wf_null by (auto simp: good_blocks_def)

lemma card_good_blocks:
  assumes "pool_wf p" shows "int (card (good_blocks p)) = bp_num_gpu_blocks p - 1"
proof -
  have "good_blocks p = Blk ` {1..<nat (bp_num_gpu_blocks p)}"
    using assms by (auto simp: good_blocks_def pool_wf_def)
  then have "card (good_blocks p) = nat (bp_num_gpu_blocks p) - 1"
    by (simp add: card_image inj_on_def)
  then show ?thesis using assms unfolding pool_wf_def by linarith
qed

lemma refs_ok_partition:
  assumes "pool_wf p" "refs_ok p xs"
  shows "set xs = {b \<in> set (bp_blocks p). \<not> kb_is_null (blk p b) \<and> refs p b = 0} \<and>
    int (length xs) + int (card (held_blocks p)) = bp_num_gpu_blocks p - 1 \<and>
    get_num_free_blocks p = int (length xs) \<and> distinct xs \<and>
    get_all_free_blocks (bp_free_block_queue p) = Some (Inr xs)"
proof -
  note d = refs_okD [OF assms(2)]
  have xs: "set xs = {b \<in> good_blocks p. refs p b = 0}" using assms(2) by (simp add: refs_ok_def)
  have held: "held_blocks p = good_blocks p - set xs"
    using xs assms(2) pool_wf_good_eq [OF assms(1)] by (auto simp: held_blocks_def refs_ok_def)
  have dist: "distinct xs" using fl.rep_distinct [OF d(1)] .
  have sub: "set xs \<subseteq> good_blocks p" using xs by blast
  have fin: "finite (good_blocks p)" by (simp add: good_blocks_def)
  have "card (good_blocks p) = length xs + card (held_blocks p)"
    unfolding held using card_Diff_subset [OF finite_set sub] card_mono [OF fin sub] distinct_card [OF dist] by simp
  then have "int (length xs) + int (card (held_blocks p)) = bp_num_gpu_blocks p - 1"
    using card_good_blocks [OF assms(1)] by simp
  moreover have "get_num_free_blocks p = int (length xs)"
    using fl.rep_count [OF d(1)] by (simp add: get_num_free_blocks_def)
  ultimately show ?thesis
    using xs pool_wf_good_eq [OF assms(1)] dist get_all_free_blocks_refines [OF d(1)] by auto
qed

lemma get_usage_bounds:
  assumes "pool_wf p" "refs_ok p xs"
  shows "0 \<le> get_usage p \<and> get_usage p \<le> 1 \<and> (get_usage p = 0 \<longleftrightarrow> held_blocks p = {})"
proof -
  have sum: "int (length xs) + int (card (held_blocks p)) = bp_num_gpu_blocks p - 1"
    and free: "get_num_free_blocks p = int (length xs)"
    using refs_ok_partition [OF assms] by blast+
  have fin: "finite (held_blocks p)" by (simp add: held_blocks_def)
  show ?thesis
  proof (cases "bp_num_gpu_blocks p = 1")
    case True
    then have "card (held_blocks p) = 0" using sum by linarith
    then show ?thesis using True fin by (simp add: get_usage_def)
  next
    case False
    then have pos: "0 < bp_num_gpu_blocks p - 1" using assms(1) by (simp add: pool_wf_def)
    have n: "(of_int (bp_num_gpu_blocks p - 1) :: rat) = of_nat (length xs) + of_nat (card (held_blocks p))"
      by (simp flip: sum)
    have u: "get_usage p = of_nat (card (held_blocks p)) / of_int (bp_num_gpu_blocks p - 1)"
      using pos free n by (simp add: get_usage_def Let_def field_simps)
    have "0 \<le> (of_int (bp_num_gpu_blocks p - 1) :: rat)" using pos by simp
    then have "0 \<le> get_usage p \<and> get_usage p \<le> 1"
      unfolding u using n pos by (simp add: divide_le_eq_1)
    moreover have "get_usage p = 0 \<longleftrightarrow> held_blocks p = {}"
      unfolding u using pos fin by simp
    ultimately show ?thesis by blast
  qed
qed

text \<open>Claim C28.  In every history of the pool each block but the null block is either held, with a
  positive reference count, or is exactly once in the free list, with count 0; the counter of
  free blocks is the length of the list, and the reported usage is a fraction between 0 and 1
  that is 0 exactly when nothing is held.\<close>

theorem every_block_is_free_or_held:
  assumes "pool_traced env p T"
  shows "\<exists>xs. get_all_free_blocks (bp_free_block_queue p) = Some (Inr xs) \<and> distinct xs \<and>
    set xs = {b \<in> set (bp_blocks p). \<not> kb_is_null (blk p b) \<and> refs p b = 0} \<and>
    set xs \<inter> held_blocks p = {} \<and> get_num_free_blocks p = int (length xs) \<and>
    get_num_free_blocks p + int (card (held_blocks p)) = bp_num_gpu_blocks p - 1 \<and>
    0 \<le> get_usage p \<and> get_usage p \<le> 1 \<and> (get_usage p = 0 \<longleftrightarrow> held_blocks p = {})"
proof -
  obtain xs where wf: "pool_wf p" and r: "refs_ok p xs"
    using pool_traced_inv [OF assms] by (rule traced_invD)
  have "set xs \<inter> held_blocks p = {}" using refs_ok_partition [OF wf r] by (auto simp: held_blocks_def)
  then show ?thesis using refs_ok_partition [OF wf r] get_usage_bounds [OF wf r] by auto
qed

text \<open>Claim C29.  Allocation in any history: asking for more blocks than are free raises
  \<open>ValueError\<close>; otherwise exactly the first \<open>n\<close> blocks of the free list are handed out, each with
  one reference, in state HOT and (with caching on) under no cache key, while the other blocks
  keep their references and the rest of the free list keeps its order.\<close>

theorem allocation_hands_out_fresh_blocks:
  assumes "pool_traced env p T" and "0 \<le> n"
    and "get_all_free_blocks (bp_free_block_queue p) = Some (Inr xs)"
  shows "if get_num_free_blocks p < n then get_new_blocks n p = Inl ValueError
    else \<exists>p'. get_new_blocks n p = Inr (take (nat n) xs, p') \<and>
      get_all_free_blocks (bp_free_block_queue p') = Some (Inr (drop (nat n) xs)) \<and>
      (\<forall>b \<in> set (take (nat n) xs). refs p b = 0 \<and> refs p' b = 1 \<and> kb_hierarchy_state (blk p' b) = HOT \<and>
         (bp_enable_caching p \<longrightarrow> block_keys p' b = {})) \<and>
      (\<forall>b \<in> set (bp_blocks p) - set (take (nat n) xs). refs p' b = refs p b \<and>
         block_keys p' b = block_keys p b \<and> kb_hierarchy_state (blk p' b) = kb_hierarchy_state (blk p b))"
proof -
  obtain ys where wf: "pool_wf p" "hash_ok p" "refs_ok p ys"
    using pool_traced_inv [OF assms(1)] by (rule traced_invD)
  note part = refs_ok_partition [OF wf(1,3)]
  have xs: "ys = xs" using part assms(3) by simp
  note sp = get_new_blocks_spec [OF wf assms(2), unfolded xs]
  show ?thesis
  proof (cases "get_num_free_blocks p < n")
    case True
    then show ?thesis using sp part xs by simp
  next
    case False
    then have "\<not> int (length xs) < n" using part xs by simp
    from sp [unfolded if_not_P [OF this]]
    obtain p' where p': "get_new_blocks n p = Inr (take (nat n) xs, p')" "wf_view p' = wf_view p"
      "refs_ok p' (drop (nat n) xs)"
      "\<forall>b \<in> set (bp_blocks p). refs p' b = (if b \<in> set (take (nat n) xs) then 1 else refs p b)"
      "\<forall>b \<in> set (take (nat n) xs). kb_hierarchy_state (blk p' b) = HOT \<and> (bp_enable_caching p \<longrightarrow> block_keys p' b = {})"
      "\<forall>b \<in> set (bp_blocks p). b \<notin> set (take (nat n) xs) \<or> \<not> bp_enable_caching p \<longrightarrow> block_keys p' b = block_keys p b"
      "\<forall>b \<in> set (bp_blocks p). b \<notin> set (take (nat n) xs) \<longrightarrow> kb_hierarchy_state (blk p' b) = kb_hierarchy_state (blk p b)"
      by blast
    have "pool_wf p'" using wf(1) wf_view_cong [OF p'(2)] by simp
    then have "get_all_free_blocks (bp_free_block_queue p') = Some (Inr (drop (nat n) xs))"
      using refs_ok_partition p'(3) by blast
    moreover have "b \<in> set (bp_blocks p) \<and> refs p b = 0" if "b \<in> set (take (nat n) xs)" for b
      using part xs in_set_takeD [OF that] by auto
    ultimately show ?thesis using False p'(1,4-7) by auto
  qed
qed

section \<open>Giving blocks back\<close>

text \<open>Claim C30.  Giving back distinct blocks never fails when each of them is held, drops one
  reference of each, and orders the free list for eviction: the blocks that become free and
  carry no hash come first, then the old free list, then those that may still be hit, each part
  in the order given.  Nothing is uncached.\<close>

theorem freed_blocks_are_ordered_for_eviction:
  assumes "pool_traced env p T" and "get_all_free_blocks (bp_free_block_queue p) = Some (Inr xs)"
    and "distinct bs" "set bs \<subseteq> insert (bp_null_block p) (held_blocks p)"
  shows "\<exists>p'. free_blocks bs p = Inr p' \<and>
    get_all_free_blocks (bp_free_block_queue p') = Some (Inr
      (filter (\<lambda>b. b \<in> held_blocks p \<and> refs p b = 1 \<and> kb_block_hash (blk p b) = None) bs @ xs @
       filter (\<lambda>b. b \<in> held_blocks p \<and> refs p b = 1 \<and> kb_block_hash (blk p b) \<noteq> None) bs)) \<and>
    (\<forall>b \<in> set (bp_blocks p). refs p' b = (if b \<in> held_blocks p \<and> b \<in> set bs then refs p b - 1 else refs p b)) \<and>
    (\<forall>b \<in> set (bp_blocks p). block_keys p' b = block_keys p b)"
proof -
  obtain ys where wf: "pool_wf p" "refs_ok p ys"
    using pool_traced_inv [OF assms(1)] by (rule traced_invD)
  have xs: "ys = xs" using refs_ok_partition [OF wf] assms(2) by simp
  have nul: "bp_null_block p \<in> set (bp_blocks p)" using wf(1) by (auto simp: pool_wf_def)
  have sub: "set bs \<subseteq> set (bp_blocks p)" using assms(4) nul by (auto simp: held_blocks_def)
  have held: "b \<in> held_blocks p" if "b \<in> good_blocks p" "b \<in> set bs" for b
    using that assms(4) by (auto simp: good_blocks_def)
  have cnt: "int (count_list bs b) \<le> refs p b" if "b \<in> good_blocks p" for b
    using held [OF that] distinct_count_le [OF assms(3), of b] refs_okD(6) [OF wf(2) that]
    by (auto simp: held_blocks_def)
  then obtain us hs p' where p': "free_blocks bs p = Inr p'" "wf_view p' = wf_view p" "hash_view p' = hash_view p"
    "refs_ok p' (us @ ys @ hs)"
    "\<forall>b. refs p' b = refs p b - (if kb_is_null (blk p b) then 0 else int (count_list bs b))"
    "us = filter (\<lambda>b. b \<in> good_blocks p \<and> refs p b = 1 \<and> kb_block_hash (blk p b) = None) bs"
    "hs = filter (\<lambda>b. b \<in> good_blocks p \<and> refs p b = 1 \<and> kb_block_hash (blk p b) \<noteq> None) bs"
    using free_blocks_spec [OF wf sub] assms(3) by blast
  have hg: "b \<in> held_blocks p \<longleftrightarrow> b \<in> good_blocks p" if "b \<in> set bs" for b
    using held [OF _ that] pool_wf_good_eq [OF wf(1)] by (auto simp: held_blocks_def)
  have "us = filter (\<lambda>b. b \<in> held_blocks p \<and> refs p b = 1 \<and> kb_block_hash (blk p b) = None) bs"
    "hs = filter (\<lambda>b. b \<in> held_blocks p \<and> refs p b = 1 \<and> kb_block_hash (blk p b) \<noteq> None) bs"
    unfolding p'(6,7) using hg by (auto intro!: filter_cong)
  moreover have "pool_wf p'" using wf(1) wf_view_cong [OF p'(2)] by simp
  then have "get_all_free_blocks (bp_free_block_queue p') = Some (Inr (us @ ys @ hs))"
    using refs_ok_partition p'(4) by blast
  moreover have "refs p' b = (if b \<in> held_blocks p \<and> b \<in> set bs then refs p b - 1 else refs p b)"
    if "b \<in> set (bp_blocks p)" for b
    using p'(5) distinct_count_le [OF assms(3), of b] hg [of b] pool_wf_good_eq [OF wf(1)] that
    by (auto simp: held_blocks_def)
  ultimately show ?thesis using p'(1,3) hash_view_keys [OF p'(3)] xs by auto
qed

section \<open>Hits\<close>

lemma chain_inputs_upto:
  assumes "hashes_current env n r" "i < length (rq_block_hashes r)"
    and "\<forall>k < length (rq_block_hashes r). chain_input env r n k \<in> S"
  shows "\<forall>k \<le> i. chain_input env r n k \<in> S"
  using assms by auto

lemma cached_key_prefix:
  assumes n: "0 < n" and ck: "cached_key env n (r', t, g') key" and cf: "collision_free env S"
    and h: "hashes_current env n r" "i < length (rq_block_hashes r)"
    and key: "make_block_hash_with_group_id (rq_block_hashes r ! i) g = Inr key"
    and S: "\<forall>k < length (rq_block_hashes r). chain_input env r n k \<in> S"
      "\<forall>k < length (rq_block_hashes r'). chain_input env r' n k \<in> S"
  shows "g' = g \<and> t = (i + 1) * n \<and> take t (rq_all_token_ids r') = take t (rq_all_token_ids r) \<and>
    (\<forall>k \<le> i. block_extra env r' (k * n) (k * n + n) = block_extra env r (k * n) (k * n + n))"
proof -
  let ?j = "t div n - 1"
  have r': "hashes_current env n r'" "n dvd t" "0 < t" "t \<le> rq_num_tokens r'"
    and key': "make_block_hash_with_group_id (chain_hash env r' n ?j) g' = Inr key"
    using ck by (auto simp: cached_key_def)
  have hash: "rq_block_hashes r ! i = chain_hash env r n i" using h by (simp add: hashes_current_def)
  have same: "chain_hash env r' n ?j = chain_hash env r n i" "g' = g"
    using packed_key_parts [OF key'] packed_key_parts [OF key] hash by simp_all
  have j: "t div n \<noteq> 0" "t = t div n * n" using r'(2,3) n by auto
  have "?j < length (rq_block_hashes r')"
    using r'(1,4) j n div_le_mono [OF r'(4), of n] by (simp add: hashes_current_def)
  then have "?j = i \<and> take (?j * n + n) (rq_all_token_ids r') = take (?j * n + n) (rq_all_token_ids r) \<and>
    (\<forall>k \<le> ?j. block_extra env r' (k * n) (k * n + n) = block_extra env r (k * n) (k * n + n))"
    using chain_inputs_upto [OF r'(1) _ S(2)] chain_inputs_upto [OF h S(1)] same(1)
    by (intro chain_hash_inject [OF cf]) auto
  moreover have "?j * n + n = t" using j by (metis Suc_eq_plus1 Suc_pred' add.commute mult_Suc neq0_conv)
  ultimately show ?thesis using same(2) by (metis add.commute mult_Suc Suc_eq_plus1)
qed


text \<open>Claim C31.  Completeness of caching: after full blocks were cached, the hash of each of them
  that is neither the null block nor masked out hits in its group, whatever was in the pool
  before; no other block gains a key.\<close>

theorem cached_full_blocks_are_found:
  assumes "pool_traced env p T" and "set bs \<subseteq> set (bp_blocks p)" "0 \<le> nc"
    and "distinct (filter (\<lambda>b. \<not> kb_is_null (blk p b)) bs)"
    and "cache_full_blocks env r bs nc nf bsz g m p = Inr p'"
    and "nc \<le> i" "i < nf" "i < int (length bs)" "\<not> kb_is_null (blk p (bs ! nat i))" "mask_at m (i - nc)"
  shows "\<exists>hl h b. block_hashes_at p r bsz = Inr hl \<and> hl_at hl i = Inr h \<and>
    get_cached_block p' h [g] = Inr (Some [b]) \<and> b \<in> good_blocks p \<and>
    (\<forall>c \<in> set (bp_blocks p) - set bs. block_keys p' c \<subseteq> block_keys p c)"
proof -
  have wf: "pool_wf p" "hash_ok p" using pool_traced_inv [OF assms(1)] by (auto simp: traced_inv_def pool_inv_def)
  note sp = cache_full_blocks_spec [OF wf assms(2,3,5)]
  have c: "caches p p'" and new: "\<forall>b \<in> set (bp_blocks p). \<forall>k \<in> block_keys p' b. k \<in> block_keys p b \<or>
       (\<exists>i. nc \<le> i \<and> i < nf \<and> i < int (length bs) \<and> bs ! nat i = b \<and> \<not> kb_is_null (blk p b) \<and>
          mask_at m (i - nc) \<and> key_of_block p r bsz g i = Inr k)" using sp by blast+
  obtain key where key: "key \<in> block_keys p' (bs ! nat i)" "key_of_block p r bsz g i = Inr key"
    using sp assms(4,6-10) by blast
  obtain hl h where h: "block_hashes_at p r bsz = Inr hl" "hl_at hl i = Inr h"
    "make_block_hash_with_group_id h g = Inr key"
    using key(2) by (auto simp: key_of_block_def rbind_eq_Inr)
  have wf': "pool_wf p'" "hash_ok p'" and good: "good_blocks p' = good_blocks p"
    using caches_wf [OF c] caches_blocks [OF c] c wf(1) by (simp_all add: caches_def)
  have "bs ! nat i \<in> set bs" using assms(3,6,8) by simp
  then have gi: "bs ! nat i \<in> good_blocks p'"
    using pool_wf_good_eq [OF wf(1)] assms(2,9) good by blast
  have mo: "map_ok (ids (blk p')) (good_blocks p') (bp_cached_block_hash_to_block p')" using wf'(2) by (simp add: hash_ok_def)
  obtain o' where o': "get_one_block (bp_cached_block_hash_to_block p') key = Inr o'"
    "case o' of None \<Rightarrow> hm_ids (ids (blk p')) (bp_cached_block_hash_to_block p') key = {}
      | Some b \<Rightarrow> b \<in> good_blocks p'"
    using get_one_block_spec [OF mo, of key] by (auto split: option.splits)
  have "hm_ids (ids (blk p')) (bp_cached_block_hash_to_block p') key \<noteq> {}"
    using wf'(2) gi key(1) by (auto simp: hash_ok_def)
  then obtain b where b: "o' = Some b" "b \<in> good_blocks p" using o'(2) good by (cases o') auto
  have "get_cached_block p' h [g] = Inr (Some [b])" using h(3) o'(1) b(1) by simp
  moreover have "block_keys p' c \<subseteq> block_keys p c" if "c \<in> set (bp_blocks p) - set bs" for c
  proof
    fix k assume k: "k \<in> block_keys p' c"
    have c: "c \<in> set (bp_blocks p)" using that by simp
    consider "k \<in> block_keys p c" | j where "nc \<le> j" "j < int (length bs)" "bs ! nat j = c"
      using bspec [OF bspec [OF new c] k] by blast
    then show "k \<in> block_keys p c"
    proof cases
      case 2
      then have "c \<in> set bs" using assms(3) by (metis nat_less_iff nth_mem order_trans)
      then show ?thesis using that by blast
    qed
  qed
  ultimately show ?thesis using h(1,2) b(2) by blast
qed

text \<open>Claim C32.  Resetting the prefix cache succeeds exactly when no block is held; then every
  lookup misses, otherwise nothing changes.\<close>

theorem reset_succeeds_when_idle_and_clears:
  assumes "pool_traced env p T" and "reset_prefix_cache p = (ok, p')"
  shows "ok = (held_blocks p = {}) \<and> (\<not> ok \<longrightarrow> p' = p) \<and>
    (ok \<longrightarrow> get_cached_block p' h (g # gs) =
       (if 0 \<le> g \<and> g < 2 ^ 32 then Inr None else Inl OverflowError))"
proof -
  obtain xs where wf: "pool_wf p" "hash_ok p" "refs_ok p xs"
    using pool_traced_inv [OF assms(1)] by (rule traced_invD)
  note sp = reset_prefix_cache_spec [OF wf(1,2) assms(2)]
  have fin: "finite (held_blocks p)" by (simp add: held_blocks_def)
  have "bp_num_gpu_blocks p - get_num_free_blocks p = 1 \<longleftrightarrow> card (held_blocks p) = 0"
    using refs_ok_partition [OF wf(1,3)] by linarith
  moreover have "get_cached_block p' h (g # gs) = (if 0 \<le> g \<and> g < 2 ^ 32 then Inr None else Inl OverflowError)" if ok
  proof -
    have "bp_cached_block_hash_to_block p' = []"
      using assms(2) that by (auto simp: reset_prefix_cache_def Let_def reset_hashes_fold notify_def split: if_splits)
    then show ?thesis
      by (auto simp: get_one_block_def make_block_hash_with_group_id_def to_bytes_4_def not_le)
  qed
  ultimately show ?thesis using sp fin by simp
qed

section \<open>A concrete history\<close>

text \<open>A pool of four blocks of two tokens; two blocks are allocated and cached for a prompt.\<close>

declare walk.simps [code]

definition demo_prefix :: request where
  "demo_prefix = demo_request [1, 2, 3, 4] [] [[1, 2, 1, 255], [3, 4, 1, 1, 2, 1, 255]]"

definition demo_run :: "(block_pool \<times> block_pool \<times> block_pool) res" where
  "demo_run =
     rbind (new_block_pool 4 True 2 False False False) (\<lambda>p0.
     rbind (get_new_blocks 2 p0) (\<lambda>(bs, p1).
     rbind (check (bs = [Blk 1, Blk 2]) AssertionError) (\<lambda>_.
     rbind (cache_full_blocks demo_env demo_prefix [Blk 1, Blk 2] 0 2 2 0 None p1) (\<lambda>p2.
     Inr (p0, p1, p2)))))"

lemma demo_current: "hashes_current demo_env 2 demo_prefix"
  by code_simp

lemma demo_run_ok:
  "case demo_run of Inl _ \<Rightarrow> False
   | Inr (p0, p1, p2) \<Rightarrow> get_cached_block p2 [3, 4, 1, 1, 2, 1, 255] [0] = Inr (Some [Blk 2]) \<and>
       bp_enable_caching p2 \<and> bp_hash_block_size p1 = 2 \<and> bp_hash_block_size p2 = 2 \<and>
       \<not> kb_is_null (blk p1 (Blk 1)) \<and> \<not> kb_is_null (blk p1 (Blk 2)) \<and>
       \<not> kb_is_null (blk p2 (Blk 1)) \<and> \<not> kb_is_null (blk p2 (Blk 2)) \<and>
       refs p2 (Blk 1) = 1 \<and> refs p2 (Blk 2) = 1 \<and>
       kb_block_hash (blk p2 (Blk 1)) \<noteq> None \<and> kb_block_hash (blk p2 (Blk 2)) \<noteq> None \<and>
       get_num_free_blocks p0 = 3 \<and> bp_num_gpu_blocks p0 = 4 \<and>
       get_all_free_blocks (bp_free_block_queue p1) = Some (Inr [Blk 3]) \<and> get_num_free_blocks p1 = 1 \<and>
       get_all_free_blocks (bp_free_block_queue p2) = Some (Inr [Blk 3]) \<and>
       bp_blocks p1 = [Blk 0, Blk 1, Blk 2, Blk 3] \<and> bp_blocks p2 = [Blk 0, Blk 1, Blk 2, Blk 3]"
  by code_simp

lemma demo_history:
  obtains p0 p1 p2 where "demo_run = Inr (p0, p1, p2)"
    "pool_traced demo_env p0 (\<lambda>_. {})" "pool_traced demo_env p1 (\<lambda>_. {})"
    "cache_full_blocks demo_env demo_prefix [Blk 1, Blk 2] 0 2 2 0 None p1 = Inr p2"
    "pool_traced demo_env p2 (trace_full p1 demo_prefix [Blk 1, Blk 2] 0 2 2 0 None (\<lambda>_. {}))"
proof -
  obtain p0 p1 p2 where run: "demo_run = Inr (p0, p1, p2)"
    using demo_run_ok by (auto split: sum.splits)
  have a: "new_block_pool 4 True 2 False False False = Inr p0" "get_new_blocks 2 p0 = Inr ([Blk 1, Blk 2], p1)"
    and c: "cache_full_blocks demo_env demo_prefix [Blk 1, Blk 2] 0 2 2 0 None p1 = Inr p2"
    using run by (auto simp: demo_run_def rbind_eq_Inr check_eq_Inr)
  have 0: "pool_traced demo_env p0 (\<lambda>_. {})" by (rule pool_traced.created [OF a(1)]) simp
  have 1: "pool_traced demo_env p1 (\<lambda>_. {})" using pool_traced.allocated [OF 0 _ a(2)] by simp
  have "bp_hash_block_size p1 = 2" "bp_blocks p1 = [Blk 0, Blk 1, Blk 2, Blk 3]"
    using demo_run_ok [unfolded run sum.case prod.case] by blast+
  then have "pool_traced demo_env p2 (trace_full p1 demo_prefix [Blk 1, Blk 2] 0 2 2 0 None (\<lambda>_. {}))"
    using demo_current by (intro pool_traced.cached [OF 1 _ _ _ _ c]) simp_all
  with run 0 1 c show ?thesis by (rule that)
qed

theorem every_block_is_free_or_held_witness:
  "\<exists>p T xs. pool_traced demo_env p T \<and> get_all_free_blocks (bp_free_block_queue p) = Some (Inr xs) \<and>
     xs = [Blk 3] \<and> get_num_free_blocks p = 1 \<and> get_num_free_blocks p + int (card (held_blocks p)) = bp_num_gpu_blocks p - 1"
proof -
  obtain p0 p1 p2 where run: "demo_run = Inr (p0, p1, p2)" and t: "pool_traced demo_env p1 (\<lambda>_. {})"
    by (rule demo_history)
  have "get_all_free_blocks (bp_free_block_queue p1) = Some (Inr [Blk 3])" "get_num_free_blocks p1 = 1"
    using demo_run_ok [unfolded run sum.case prod.case] by blast+
  then show ?thesis using every_block_is_free_or_held [OF t] t by (intro exI [of _ p1] exI [of _ "\<lambda>_. {}"]) auto
qed

theorem allocation_hands_out_fresh_blocks_witness:
  "\<exists>p p'. get_new_blocks 1 p = Inr ([Blk 3], p') \<and> refs p (Blk 3) = 0 \<and> refs p' (Blk 3) = 1 \<and>
     get_new_blocks 2 p = Inl ValueError"
proof -
  obtain p0 p1 p2 where run: "demo_run = Inr (p0, p1, p2)" and t: "pool_traced demo_env p1 (\<lambda>_. {})"
    by (rule demo_history)
  have f: "get_all_free_blocks (bp_free_block_queue p1) = Some (Inr [Blk 3])" "get_num_free_blocks p1 = 1"
    using demo_run_ok [unfolded run sum.case prod.case] by blast+
  show ?thesis using allocation_hands_out_fresh_blocks [OF t _ f(1), of 1]
      allocation_hands_out_fresh_blocks [OF t _ f(1), of 2] f(2) by auto
qed

theorem freed_blocks_are_ordered_for_eviction_witness:
  "\<exists>p p'. get_all_free_blocks (bp_free_block_queue p) = Some (Inr [Blk 3]) \<and>
     free_blocks [Blk 2, Blk 1] p = Inr p' \<and>
     get_all_free_blocks (bp_free_block_queue p') = Some (Inr [Blk 3, Blk 2, Blk 1])"
proof -
  obtain p0 p1 p2 where run: "demo_run = Inr (p0, p1, p2)"
    and t: "pool_traced demo_env p2 (trace_full p1 demo_prefix [Blk 1, Blk 2] 0 2 2 0 None (\<lambda>_. {}))"
    by (rule demo_history)
  have f: "get_all_free_blocks (bp_free_block_queue p2) = Some (Inr [Blk 3])"
    "\<not> kb_is_null (blk p2 (Blk 1))" "\<not> kb_is_null (blk p2 (Blk 2))"
    "refs p2 (Blk 1) = 1" "refs p2 (Blk 2) = 1" "kb_block_hash (blk p2 (Blk 1)) \<noteq> None"
    "kb_block_hash (blk p2 (Blk 2)) \<noteq> None" "bp_blocks p2 = [Blk 0, Blk 1, Blk 2, Blk 3]"
    using demo_run_ok [unfolded run sum.case prod.case] by blast+
  have h: "Blk 1 \<in> held_blocks p2" "Blk 2 \<in> held_blocks p2" using f by (simp_all add: held_blocks_def)
  from freed_blocks_are_ordered_for_eviction [OF t f(1), of "[Blk 2, Blk 1]"] f h show ?thesis by auto
qed


theorem cached_full_blocks_are_found_witness:
  "\<exists>p p' b. cache_full_blocks demo_env demo_prefix [Blk 1, Blk 2] 0 2 2 0 None p = Inr p' \<and>
     get_cached_block p' (rq_block_hashes demo_prefix ! 1) [0] = Inr (Some [b])"
proof -
  obtain p0 p1 p2 where run: "demo_run = Inr (p0, p1, p2)" and t: "pool_traced demo_env p1 (\<lambda>_. {})"
    and c: "cache_full_blocks demo_env demo_prefix [Blk 1, Blk 2] 0 2 2 0 None p1 = Inr p2"
    by (rule demo_history)
  have f: "\<not> kb_is_null (blk p1 (Blk 1))" "\<not> kb_is_null (blk p1 (Blk 2))" "bp_hash_block_size p1 = 2"
    "bp_blocks p1 = [Blk 0, Blk 1, Blk 2, Blk 3]"
    using demo_run_ok [unfolded run sum.case prod.case] by blast+
  have "\<exists>hl h b. block_hashes_at p1 demo_prefix 2 = Inr hl \<and> hl_at hl 1 = Inr h \<and>
      get_cached_block p2 h [0] = Inr (Some [b])"
    using cached_full_blocks_are_found [OF t _ _ _ c, of 1] f by (auto simp: mask_at_def)
  then obtain h b where h: "list_index (rq_block_hashes demo_prefix) 1 = Inr h" "get_cached_block p2 h [0] = Inr (Some [b])"
    using f(3) by (auto simp: block_hashes_at_def)
  then show ?thesis using c by (auto simp: list_index_def Let_def split: if_splits)
qed

theorem reset_succeeds_when_idle_and_clears_witness:
  "\<exists>p p'. reset_prefix_cache p = (True, p') \<and> held_blocks p = {} \<and> get_cached_block p' [7] [0] = Inr None"
proof -
  obtain p0 p1 p2 where run: "demo_run = Inr (p0, p1, p2)" and t: "pool_traced demo_env p0 (\<lambda>_. {})"
    by (rule demo_history)
  have "get_num_free_blocks p0 = 3" "bp_num_gpu_blocks p0 = 4" using demo_run_ok [unfolded run sum.case prod.case] by blast+
  then obtain p' where r: "reset_prefix_cache p0 = (True, p')"
    by (simp add: reset_prefix_cache_def Let_def)
  then show ?thesis using reset_succeeds_when_idle_and_clears [OF t r, of "[7]" 0 "[]"] by auto
qed

end
