(* ===== verification/KVCacheSpec.thy ===== *)
theory KVCacheSpec
  imports PrefixCache
begin

text \<open>
  The parts of \<^verbatim>\<open>vllm/v1/kv_cache_interface.py\<close> the cache managers look at: the classes of
  cache specifications with the fields the managers read, the registry that maps a class to its
  manager class, and the admission caps of the classes that recycle blocks.

  A specification is its class with those fields, its block size, and \<open>sp_layout\<close>, which stands
  for all other fields of the frozen dataclass (head counts, dtypes, padding): they are only
  compared for equality.  Block sizes are positive, so no division by them fails.
\<close>

datatype mamba_mode = MambaNone | MambaAll | MambaAlign

datatype spec_kind =
    FullAttentionSpec
  | TQFullAttentionSpec
  | MLAAttentionSpec
  | HiddenStateCacheSpec
  | SinkFullAttentionSpec "int option"
  | SlidingWindowSpec int
  | SlidingWindowMLASpec int
  | ChunkedLocalAttentionSpec int
  | MambaSpec mamba_mode int
  | CrossAttentionSpec

record kv_cache_spec =
  sp_kind :: spec_kind
  sp_block_size :: int
  sp_layout :: nat

text \<open>\<open>isinstance(spec, FullAttentionSpec)\<close> and \<open>isinstance(spec, SlidingWindowSpec)\<close>.\<close>

fun is_full_attention :: "spec_kind \<Rightarrow> bool" where
  "is_full_attention FullAttentionSpec = True"
| "is_full_attention TQFullAttentionSpec = True"
| "is_full_attention MLAAttentionSpec = True"
| "is_full_attention HiddenStateCacheSpec = True"
| "is_full_attention (SinkFullAttentionSpec _) = True"
| "is_full_attention _ = False"

fun sliding_window_of :: "spec_kind \<Rightarrow> int option" where
  "sliding_window_of (SlidingWindowSpec w) = Some w"
| "sliding_window_of (SlidingWindowMLASpec w) = Some w"
| "sliding_window_of _ = None"

fun is_mamba :: "spec_kind \<Rightarrow> bool" where
  "is_mamba (MambaSpec _ _) = True"
| "is_mamba _ = False"

text \<open>The registrations of \<open>register_all_kvcache_specs\<close>.\<close>

datatype manager_class =
    FullAttentionManager
  | SlidingWindowManager
  | ChunkedLocalAttentionManager
  | MambaManager
  | CrossAttentionManager
  | SinkFullAttentionManager

fun get_manager_class :: "spec_kind \<Rightarrow> manager_class" where
  "get_manager_class FullAttentionSpec = FullAttentionManager"
| "get_manager_class TQFullAttentionSpec = FullAttentionManager"
| "get_manager_class MLAAttentionSpec = FullAttentionManager"
| "get_manager_class HiddenStateCacheSpec = FullAttentionManager"
| "get_manager_class (SinkFullAttentionSpec _) = SinkFullAttentionManager"
| "get_manager_class (SlidingWindowSpec _) = SlidingWindowManager"
| "get_manager_class (SlidingWindowMLASpec _) = SlidingWindowManager"
| "get_manager_class (ChunkedLocalAttentionSpec _) = ChunkedLocalAttentionManager"
| "get_manager_class (MambaSpec _ _) = MambaManager"
| "get_manager_class CrossAttentionSpec = CrossAttentionManager"

text \<open>\<open>max_admission_blocks_per_request\<close> of the two classes that have it.\<close>

definition sliding_window_admission_blocks :: "int \<Rightarrow> int \<Rightarrow> int \<Rightarrow> int \<Rightarrow> int" where
  "sliding_window_admission_blocks sliding_window block_size max_num_batched_tokens max_model_len =
     cdiv (min (sliding_window - 1 + max_num_batched_tokens) max_model_len) block_size + 1"

definition chunked_local_admission_blocks :: "int \<Rightarrow> int \<Rightarrow> int \<Rightarrow> int \<Rightarrow> int" where
  "chunked_local_admission_blocks attention_chunk_size block_size max_num_batched_tokens max_model_len =
     cdiv (min (attention_chunk_size + max_num_batched_tokens) max_model_len) block_size"

definition max_admission_blocks_per_request :: "kv_cache_spec \<Rightarrow> int \<Rightarrow> int \<Rightarrow> int option" where
  "max_admission_blocks_per_request spec max_num_batched_tokens max_model_len =
     (case sp_kind spec of
        SlidingWindowSpec w \<Rightarrow>
          Some (sliding_window_admission_blocks w (sp_block_size spec) max_num_batched_tokens max_model_len)
      | SlidingWindowMLASpec w \<Rightarrow>
          Some (sliding_window_admission_blocks w (sp_block_size spec) max_num_batched_tokens max_model_len)
      | ChunkedLocalAttentionSpec c \<Rightarrow>
          Some (chunked_local_admission_blocks c (sp_block_size spec) max_num_batched_tokens max_model_len)
      | _ \<Rightarrow> None)"

datatype kv_cache_spec_kind =
    KindFullAttention | KindMLAAttention | KindSlidingWindow | KindSlidingWindowMLA | KindMamba
  | KindChunkedLocalAttention | KindSinkFullAttention | KindCrossAttention

fun get_kv_cache_spec_kind :: "spec_kind \<Rightarrow> kv_cache_spec_kind" where
  "get_kv_cache_spec_kind (SlidingWindowMLASpec _) = KindSlidingWindowMLA"
| "get_kv_cache_spec_kind MLAAttentionSpec = KindMLAAttention"
| "get_kv_cache_spec_kind HiddenStateCacheSpec = KindMLAAttention"
| "get_kv_cache_spec_kind (SinkFullAttentionSpec _) = KindSinkFullAttention"
| "get_kv_cache_spec_kind FullAttentionSpec = KindFullAttention"
| "get_kv_cache_spec_kind TQFullAttentionSpec = KindFullAttention"
| "get_kv_cache_spec_kind (ChunkedLocalAttentionSpec _) = KindChunkedLocalAttention"
| "get_kv_cache_spec_kind (SlidingWindowSpec _) = KindSlidingWindow"
| "get_kv_cache_spec_kind (MambaSpec _ _) = KindMamba"
| "get_kv_cache_spec_kind CrossAttentionSpec = KindCrossAttention"

section \<open>The caps are large enough\<close>

text \<open>
  The blocks that hold a run of tokens \<open>[a, b)\<close>: from block \<open>a div bs\<close> to block
  \<open>(b - 1) div bs\<close>.  The caps bound their number for what is held during chunked prefill.
\<close>

definition blocks_spanned :: "int \<Rightarrow> int \<Rightarrow> int \<Rightarrow> int" where
  "blocks_spanned bs a b = (if b \<le> a then 0 else cdiv b bs - a div bs)"

lemma cdiv_floor: "0 < b \<Longrightarrow> cdiv a b = (a + b - 1) div b"
proof -
  assume b: "0 < b"
  have "cdiv a b \<le> (a + b - 1) div b"
  proof (rule cdiv_least [OF b])
    have "a + b - 1 = (a + b - 1) div b * b + (a + b - 1) mod b" by simp
    moreover have "(a + b - 1) mod b < b" using b by simp
    ultimately show "a \<le> (a + b - 1) div b * b" by linarith
  qed
  moreover have "(a + b - 1) div b < cdiv a b + 1"
  proof -
    have "a + b - 1 < (cdiv a b + 1) * b" using cdiv_ge [OF b, of a] by (simp add: algebra_simps)
    then have "(a + b - 1) div b * b < (cdiv a b + 1) * b"
      using b by (smt (verit) minus_mod_eq_div_mult pos_mod_sign)
    then show ?thesis using b by (simp add: mult_less_cancel_right_pos)
  qed
  ultimately show ?thesis by linarith
qed

lemma cdiv_mono: "0 < b \<Longrightarrow> a \<le> a' \<Longrightarrow> cdiv a b \<le> cdiv a' b"
  by (simp add: cdiv_floor zdiv_mono1)

lemma cdiv_nonneg: "0 < b \<Longrightarrow> 0 \<le> a \<Longrightarrow> 0 \<le> cdiv a b"
  by (simp add: cdiv_floor pos_imp_zdiv_nonneg_iff)

lemma cdiv_add_mult: "0 < b \<Longrightarrow> cdiv (a + k * b) b = cdiv a b + k"
proof -
  assume b: "0 < b"
  have "a + k * b + b - 1 = (a + b - 1) + k * b" by simp
  moreover have "((a + b - 1) + k * b) div b = k + (a + b - 1) div b"
    using b by (intro div_mult_self1) simp
  ultimately show ?thesis using b by (simp only: cdiv_floor add.commute)
qed

lemma blocks_spanned_le:
  assumes "0 < bs" "a \<le> b" shows "blocks_spanned bs a b \<le> cdiv (b - a) bs + 1"
proof (cases "b \<le> a")
  case True
  then show ?thesis using assms cdiv_nonneg [OF assms(1), of "b - a"] by (simp add: blocks_spanned_def)
next
  case False
  have "a = a div bs * bs + a mod bs" by simp
  then have "a \<le> a div bs * bs + bs" using pos_mod_bound [OF assms(1), of a] by linarith
  then have "b \<le> (b - a) + (a div bs + 1) * bs" by (simp add: distrib_right)
  then have "cdiv b bs \<le> cdiv (b - a) bs + (a div bs + 1)"
    using cdiv_mono [OF assms(1)] cdiv_add_mult [OF assms(1)] by metis
  then show ?thesis using False by (simp add: blocks_spanned_def)
qed

end
