(* ===== verification/SingleType.thy ===== *)
theory SingleType
  imports KVCacheSpec
begin

text \<open>
  The single-type managers of \<^verbatim>\<open>vllm/v1/core/single_type_kv_cache_manager.py\<close>: the block lists
  of the requests of one cache group, for the classes \<open>FullAttentionManager\<close>,
  \<open>SlidingWindowManager\<close>, \<open>ChunkedLocalAttentionManager\<close>, \<open>MambaManager\<close> and
  \<open>CrossAttentionManager\<close>.  A method that a subclass overrides is one definition that branches
  on the class of the specification.

  The managers share the pool, so every operation takes the pool and the manager and returns
  both.  \<open>req_to_blocks\<close> is a \<open>defaultdict\<close>: indexing it inserts an empty list, which
  \<open>req_blocks_of\<close> does.  The sets of the Mamba manager are lists.
\<close>

record single_manager =
  sm_spec :: kv_cache_spec
  sm_block_size :: int
  sm_scheduler_block_size :: int
  sm_enable_caching :: bool
  sm_group_id :: int
  sm_max_admission :: "int option"
  sm_new_block_ids :: "int list"
  sm_req_to_blocks :: "(string, block_ref list) dict"
  sm_num_cached_block :: "(string, int) dict"
  sm_null_block :: block_ref
  sm_use_eagle :: bool
  sm_cached_blocks_this_step :: "bytes list"
  sm_last_state_block_idx :: "(string, int) dict"
  sm_allocated_block_reqs :: "string list"

abbreviation sm_kind :: "single_manager \<Rightarrow> spec_kind" where
  "sm_kind m \<equiv> sp_kind (sm_spec m)"

text \<open>
  \<open>get_manager_for_kv_cache_spec\<close>.  The constructor of \<open>SinkFullAttentionManager\<close> takes no
  \<open>scheduler_block_size\<close>, which the coordinator always passes: the call raises \<open>TypeError\<close>.
\<close>

definition get_manager_for_kv_cache_spec ::
  "kv_cache_spec \<Rightarrow> int \<Rightarrow> int \<Rightarrow> block_pool \<Rightarrow> bool \<Rightarrow> int \<Rightarrow> int \<Rightarrow> int \<Rightarrow> int \<Rightarrow> single_manager res" where
  "get_manager_for_kv_cache_spec spec max_num_batched_tokens max_model_len p enable_caching
       kv_cache_group_id dcp_world_size pcp_world_size scheduler_block_size =
     (if get_manager_class (sp_kind spec) = SinkFullAttentionManager then Inl TypeError
      else Inr \<lparr>sm_spec = spec,
        sm_block_size =
          (if dcp_world_size * pcp_world_size > 1
           then sp_block_size spec * (dcp_world_size * pcp_world_size) else sp_block_size spec),
        sm_scheduler_block_size = scheduler_block_size, sm_enable_caching = enable_caching,
        sm_group_id = kv_cache_group_id,
        sm_max_admission = max_admission_blocks_per_request spec max_num_batched_tokens max_model_len,
        sm_new_block_ids = [], sm_req_to_blocks = [], sm_num_cached_block = [],
        sm_null_block = bp_null_block p, sm_use_eagle = False, sm_cached_blocks_this_step = [],
        sm_last_state_block_idx = [], sm_allocated_block_reqs = []\<rparr>)"

section \<open>Access to the block lists\<close>

definition req_blocks_of :: "string \<Rightarrow> single_manager \<Rightarrow> block_ref list \<times> single_manager" where
  "req_blocks_of request_id m =
     (case map_of (sm_req_to_blocks m) request_id of
        Some bs \<Rightarrow> (bs, m)
      | None \<Rightarrow> ([], m\<lparr>sm_req_to_blocks := AList.update request_id [] (sm_req_to_blocks m)\<rparr>))"

definition set_req_blocks :: "string \<Rightarrow> block_ref list \<Rightarrow> single_manager \<Rightarrow> single_manager" where
  "set_req_blocks request_id bs m =
     m\<lparr>sm_req_to_blocks := AList.update request_id bs (sm_req_to_blocks m)\<rparr>"

text \<open>\<open>req_to_blocks.get(request_id, ())\<close>.\<close>

definition blocks_or_empty :: "string \<Rightarrow> single_manager \<Rightarrow> block_ref list" where
  "blocks_or_empty request_id m =
     (case map_of (sm_req_to_blocks m) request_id of None \<Rightarrow> [] | Some bs \<Rightarrow> bs)"

text \<open>\<open>xs[i] = x\<close>.\<close>

definition py_set :: "'a list \<Rightarrow> int \<Rightarrow> 'a \<Rightarrow> 'a list res" where
  "py_set xs i x =
     (let j = (if i < 0 then i + int (length xs) else i)
      in if 0 \<le> j \<and> j < int (length xs) then Inr (xs[nat j := x]) else Inl IndexError)"

section \<open>The attention window\<close>

definition num_skipped_tokens :: "spec_kind \<Rightarrow> int \<Rightarrow> int" where
  "num_skipped_tokens kind num_computed_tokens =
     (case kind of
        SlidingWindowSpec w \<Rightarrow> max 0 (num_computed_tokens - w + 1)
      | SlidingWindowMLASpec w \<Rightarrow> max 0 (num_computed_tokens - w + 1)
      | ChunkedLocalAttentionSpec c \<Rightarrow> (num_computed_tokens div c) * c
      | MambaSpec _ _ \<Rightarrow> num_computed_tokens - 1
      | _ \<Rightarrow> 0)"

definition get_num_skipped_tokens :: "single_manager \<Rightarrow> int \<Rightarrow> int" where
  "get_num_skipped_tokens m = num_skipped_tokens (sm_kind m)"

section \<open>Admission\<close>

definition get_num_evictable_blocks :: "block_pool \<Rightarrow> block_ref list \<Rightarrow> int" where
  "get_num_evictable_blocks p blocks =
     int (length (filter (\<lambda>b. kb_ref_cnt (blk p b) = 0 \<and> \<not> kb_is_null (blk p b)) blocks))"

definition base_num_blocks_to_allocate ::
  "block_pool \<Rightarrow> string \<Rightarrow> int \<Rightarrow> block_ref list \<Rightarrow> int \<Rightarrow> bool \<Rightarrow> single_manager \<Rightarrow> int res" where
  "base_num_blocks_to_allocate p request_id num_tokens new_computed_blocks total_computed_tokens
       apply_admission_cap m =
     (let required = cdiv num_tokens (sm_block_size m);
          num_required_blocks =
            (case (apply_admission_cap, sm_max_admission m) of
               (True, Some cap) \<Rightarrow> min required cap | _ \<Rightarrow> required);
          num_req_blocks = int (length (blocks_or_empty request_id m))
      in
        if map_of (sm_num_cached_block m) request_id \<noteq> None
        then rbind (check (length new_computed_blocks = 0) AssertionError) (\<lambda>_.
             Inr (max (num_required_blocks - num_req_blocks) 0))
        else
          let num_skipped_tokens = get_num_skipped_tokens m total_computed_tokens;
              num_local_computed_blocks = int (length new_computed_blocks) + num_req_blocks;
              num_skipped_blocks = num_skipped_tokens div sm_block_size m;
              num_new_blocks =
                max (num_required_blocks - max num_skipped_blocks num_local_computed_blocks) 0;
              num_skipped_new_computed_blocks = max 0 (num_skipped_blocks - num_req_blocks)
          in Inr (num_new_blocks +
                  get_num_evictable_blocks p
                    (py_slice_from num_skipped_new_computed_blocks new_computed_blocks)))"

definition manager_num_blocks_to_allocate ::
  "block_pool \<Rightarrow> string \<Rightarrow> int \<Rightarrow> block_ref list \<Rightarrow> int \<Rightarrow> int \<Rightarrow> bool \<Rightarrow> single_manager
     \<Rightarrow> (int \<times> single_manager) res" where
  "manager_num_blocks_to_allocate p request_id num_tokens new_computed_blocks total_computed_tokens
       num_tokens_main_model apply_admission_cap m =
     (case sm_kind m of
        MambaSpec mode num_speculative_blocks \<Rightarrow>
          if new_computed_blocks \<noteq> [] \<and>
             (case kb_block_hash (blk p (last new_computed_blocks)) of
                None \<Rightarrow> False | Some h \<Rightarrow> h \<in> set (sm_cached_blocks_this_step m))
          then Inr (bp_num_gpu_blocks p + 1, m)
          else if mode \<noteq> MambaAlign
          then rbind (base_num_blocks_to_allocate p request_id
                  (if num_speculative_blocks > 0
                   then num_tokens + sp_block_size (sm_spec m) * num_speculative_blocks
                   else num_tokens)
                  new_computed_blocks total_computed_tokens apply_admission_cap m)
                 (\<lambda>n. Inr (n, m))
          else
            let num_required_blocks =
                  cdiv num_tokens_main_model (sm_block_size m) + num_speculative_blocks;
                (req_blocks, m1) = req_blocks_of request_id m;
                missing = num_required_blocks - int (length new_computed_blocks)
                          - int (length req_blocks);
                num_new_blocks =
                  (if missing > 0
                   then (if request_id \<in> set (sm_allocated_block_reqs m) then 1
                         else 1 + num_speculative_blocks)
                   else missing)
            in Inr (num_new_blocks + get_num_evictable_blocks p new_computed_blocks, m1)
      | _ \<Rightarrow>
          rbind (base_num_blocks_to_allocate p request_id num_tokens new_computed_blocks
                   total_computed_tokens apply_admission_cap m)
            (\<lambda>n. Inr (n, m)))"

section \<open>Blocks of a new request\<close>

definition add_local_computed_blocks ::
  "string \<Rightarrow> block_ref list \<Rightarrow> int \<Rightarrow> int \<Rightarrow> block_pool \<times> single_manager
     \<Rightarrow> (block_pool \<times> single_manager) res" where
  "add_local_computed_blocks request_id new_computed_blocks num_local_computed_tokens
       num_external_computed_tokens st =
     (let (p, m) = st in
      if sm_kind m = CrossAttentionSpec
      then rbind (check (length new_computed_blocks = 0) AssertionError) (\<lambda>_. Inr st)
      else
        let (req_blocks, m1) = req_blocks_of request_id m in
        rbind (check (length req_blocks = 0) AssertionError) (\<lambda>_.
        let num_skipped_blocks =
              get_num_skipped_tokens m1 (num_local_computed_tokens + num_external_computed_tokens)
                div sm_block_size m1;
            kept = (if num_skipped_blocks > 0
                    then py_slice_from num_skipped_blocks new_computed_blocks
                    else new_computed_blocks)
        in
        rbind (if sm_enable_caching m1 then touch kept p
               else rbind (check (kept = []) AssertionError) (\<lambda>_. Inr p)) (\<lambda>p1.
        let req_blocks' = req_blocks @ replicate (nat num_skipped_blocks) (sm_null_block m1) @ kept
        in Inr (p1, (set_req_blocks request_id req_blocks' m1)
                 \<lparr>sm_num_cached_block :=
                    AList.update request_id (int (length req_blocks')) (sm_num_cached_block m1)\<rparr>))))"

text \<open>Ids of new blocks are recorded for the four plain full-attention classes.\<close>

definition records_new_ids :: "single_manager \<Rightarrow> bool" where
  "records_new_ids m \<longleftrightarrow>
     sm_kind m \<in> {FullAttentionSpec, TQFullAttentionSpec, MLAAttentionSpec, HiddenStateCacheSpec}"

definition append_new_blocks ::
  "string \<Rightarrow> block_ref list \<Rightarrow> block_ref list \<Rightarrow> block_pool \<Rightarrow> single_manager \<Rightarrow> single_manager" where
  "append_new_blocks request_id req_blocks new_blocks p m =
     (let m1 = set_req_blocks request_id (req_blocks @ new_blocks) m
      in if records_new_ids m
         then m1\<lparr>sm_new_block_ids := sm_new_block_ids m1 @ map (\<lambda>b. kb_block_id (blk p b)) new_blocks\<rparr>
         else m1)"

definition allocate_external_computed_blocks ::
  "string \<Rightarrow> int \<Rightarrow> int \<Rightarrow> block_pool \<times> single_manager \<Rightarrow> (block_pool \<times> single_manager) res" where
  "allocate_external_computed_blocks request_id num_local_computed_tokens
       num_external_computed_tokens st =
     (let (p, m) = st in
      if sm_kind m = CrossAttentionSpec then Inr st
      else
        let total = num_local_computed_tokens + num_external_computed_tokens;
            num_skipped_tokens = get_num_skipped_tokens m total;
            external = (if num_skipped_tokens > 0
                        then min (total - num_skipped_tokens) num_external_computed_tokens
                        else num_external_computed_tokens)
        in
        if external \<le> 0 then Inr st
        else
          let (req_blocks, m1) = req_blocks_of request_id m in
          rbind (get_new_blocks (cdiv total (sm_block_size m1) - int (length req_blocks)) p)
            (\<lambda>(allocated_blocks, p1).
          Inr (p1, append_new_blocks request_id req_blocks allocated_blocks p1 m1)))"

section \<open>New blocks\<close>

definition base_allocate_new_blocks ::
  "string \<Rightarrow> int \<Rightarrow> block_pool \<times> single_manager
     \<Rightarrow> (block_ref list \<times> block_pool \<times> single_manager) res" where
  "base_allocate_new_blocks request_id num_tokens st =
     (let (p, m) = st;
          (req_blocks, m1) = req_blocks_of request_id m;
          num_new_blocks = cdiv num_tokens (sm_block_size m1) - int (length req_blocks)
      in if num_new_blocks \<le> 0 then Inr ([], p, m1)
         else rbind (get_new_blocks num_new_blocks p) (\<lambda>(new_blocks, p1).
              Inr (new_blocks, p1, append_new_blocks request_id req_blocks new_blocks p1 m1)))"

text \<open>
  The align mode of Mamba: pad with null blocks up to the running state, move the speculative
  blocks of the previous step behind them, and allocate the rest.
\<close>

fun move_speculative :: "nat \<Rightarrow> int \<Rightarrow> int \<Rightarrow> block_ref \<Rightarrow> block_ref list \<Rightarrow> block_ref list res" where
  "move_speculative 0 block_idx num_skipped_blocks null req_blocks = Inr req_blocks"
| "move_speculative (Suc n) block_idx num_skipped_blocks null req_blocks =
     (if block_idx < num_skipped_blocks
      then rbind (list_index req_blocks block_idx) (\<lambda>b.
           rbind (py_set (req_blocks @ [b]) block_idx null) (\<lambda>bs.
           move_speculative n (block_idx + 1) num_skipped_blocks null bs))
      else Inr req_blocks)"

definition align_blocks ::
  "bool \<Rightarrow> int \<Rightarrow> int \<Rightarrow> block_ref \<Rightarrow> block_ref list \<Rightarrow> block_ref list res" where
  "align_blocks blocks_allocated num_speculative_blocks num_skipped_blocks null req_blocks =
     (let prev_block_len = int (length req_blocks);
          padded = (if prev_block_len < num_skipped_blocks
                    then req_blocks @ replicate (nat (num_skipped_blocks - prev_block_len)) null
                    else req_blocks)
      in if blocks_allocated
         then move_speculative (nat num_speculative_blocks)
                (prev_block_len - num_speculative_blocks) num_skipped_blocks null padded
         else Inr padded)"

definition mamba_align_allocate ::
  "int \<Rightarrow> string \<Rightarrow> int \<Rightarrow> block_pool \<times> single_manager
     \<Rightarrow> (block_ref list \<times> block_pool \<times> single_manager) res" where
  "mamba_align_allocate num_speculative_blocks request_id num_tokens_main_model st =
     (let (p, m) = st;
          (req_blocks, m1) = req_blocks_of request_id m;
          num_required_blocks = cdiv num_tokens_main_model (sm_block_size m1) + num_speculative_blocks;
          prev_block_len = int (length req_blocks)
      in if num_required_blocks \<le> prev_block_len then Inr ([], p, m1)
      else
        let blocks_allocated = (request_id \<in> set (sm_allocated_block_reqs m1));
            m2 = (if blocks_allocated
                  then m1\<lparr>sm_last_state_block_idx :=
                            AList.update request_id (prev_block_len - 1 - num_speculative_blocks)
                              (sm_last_state_block_idx m1)\<rparr>
                  else if prev_block_len > 0
                  then m1\<lparr>sm_last_state_block_idx :=
                            AList.update request_id (prev_block_len - 1) (sm_last_state_block_idx m1)\<rparr>
                  else m1);
            num_skipped_blocks = num_required_blocks - num_speculative_blocks - 1
        in
        rbind (align_blocks blocks_allocated num_speculative_blocks num_skipped_blocks
                 (sm_null_block m2) req_blocks) (\<lambda>bs.
        let num_new_blocks = num_required_blocks - int (length bs) in
        rbind (check (if blocks_allocated then num_new_blocks \<le> 1
                      else num_new_blocks \<le> num_speculative_blocks + 1) AssertionError) (\<lambda>_.
        rbind (get_new_blocks num_new_blocks p) (\<lambda>(new_blocks, p1).
        Inr (drop (nat prev_block_len) (bs @ new_blocks), p1,
             (set_req_blocks request_id (bs @ new_blocks) m2)
               \<lparr>sm_allocated_block_reqs := List.insert request_id (sm_allocated_block_reqs m2)\<rparr>)))))"

definition manager_allocate_new_blocks ::
  "string \<Rightarrow> int \<Rightarrow> int \<Rightarrow> block_pool \<times> single_manager
     \<Rightarrow> (block_ref list \<times> block_pool \<times> single_manager) res" where
  "manager_allocate_new_blocks request_id num_tokens num_tokens_main_model st =
     (case sm_kind (snd st) of
        MambaSpec mode num_speculative_blocks \<Rightarrow>
          if mode \<noteq> MambaAlign
          then base_allocate_new_blocks request_id
                 (if num_speculative_blocks > 0
                  then num_tokens + sm_block_size (snd st) * num_speculative_blocks else num_tokens) st
          else mamba_align_allocate num_speculative_blocks request_id num_tokens_main_model st
      | _ \<Rightarrow> base_allocate_new_blocks request_id num_tokens st)"

definition take_new_block_ids :: "single_manager \<Rightarrow> int list \<times> single_manager" where
  "take_new_block_ids m = (sm_new_block_ids m, m\<lparr>sm_new_block_ids := []\<rparr>)"

section \<open>Which blocks to cache\<close>

definition contiguous_blocks_for_hit :: "int \<Rightarrow> int \<Rightarrow> bool \<Rightarrow> int" where
  "contiguous_blocks_for_hit window_size block_size use_eagle =
     cdiv (window_size - 1) block_size + (if use_eagle then 1 else 0)"

text \<open>\<open>for i in range(lo, hi): mask[i - start_block] = True\<close>, indices in range.\<close>

definition mark_range :: "int \<Rightarrow> int \<Rightarrow> int \<Rightarrow> bool list \<Rightarrow> bool list" where
  "mark_range start_block lo hi flags =
     fold (\<lambda>i m. m[nat (i - start_block) := True]) [lo..hi - 1] flags"

definition sliding_window_mask ::
  "int \<Rightarrow> int \<Rightarrow> int \<Rightarrow> int \<Rightarrow> int \<Rightarrow> bool \<Rightarrow> int option \<Rightarrow> int option \<Rightarrow> bool list option res" where
  "sliding_window_mask sliding_window block_size start_block end_block alignment_tokens use_eagle
       retention_interval num_prompt_tokens =
     rbind (check (alignment_tokens mod block_size = 0) AssertionError) (\<lambda>_.
     let need = contiguous_blocks_for_hit sliding_window block_size use_eagle;
         shift = (if use_eagle then 1 else 0);
         mask0 = replicate (nat (end_block - start_block)) False;
         segment_tokens =
           (case retention_interval of None \<Rightarrow> Some alignment_tokens
            | Some r \<Rightarrow> if r = 0 then None else Some r);
         mask1 =
           (case segment_tokens of
              None \<Rightarrow> Some mask0
            | Some seg \<Rightarrow>
                let per_segment = seg div block_size in
                if need \<ge> per_segment then None
                else Some (fold (\<lambda>i m. if i \<ge> shift \<and> (i - shift) mod per_segment \<ge> per_segment - need
                                       then m[nat (i - start_block) := True] else m)
                             [start_block..end_block - 1] mask0))
     in case mask1 of
          None \<Rightarrow> Inr None
        | Some flags \<Rightarrow>
            Inr (Some
              (case (retention_interval, num_prompt_tokens) of
                 (Some _, Some n) \<Rightarrow>
                   let latest = (n - 1) div alignment_tokens * alignment_tokens;
                       prompt_end_block = latest div block_size + shift
                   in mark_range start_block (max start_block (prompt_end_block - need))
                        (min end_block prompt_end_block) flags
               | _ \<Rightarrow> flags)))"

text \<open>\<open>for i in range(first, len(mask), step): mask[i] = True\<close>.\<close>

definition mark_every :: "int \<Rightarrow> int \<Rightarrow> bool list \<Rightarrow> bool list" where
  "mark_every first step flags =
     map (\<lambda>(i, x). if first \<le> int i \<and> (int i - first) mod step = 0 then True else x) (enumerate 0 flags)"

definition mamba_mask ::
  "int \<Rightarrow> int \<Rightarrow> int \<Rightarrow> int \<Rightarrow> int option \<Rightarrow> int option \<Rightarrow> bool list option" where
  "mamba_mask block_size start_block end_block alignment_tokens retention_interval num_prompt_tokens =
     (case retention_interval of
        None \<Rightarrow> None
      | Some r \<Rightarrow>
          let mask0 = replicate (nat (end_block - start_block)) False;
              mask1 =
                (if r = 0 then Some mask0
                 else let per_segment = r div block_size in
                      if per_segment \<le> 1 then None
                      else let first_boundary =
                                 (start_block + per_segment) div per_segment * per_segment - 1
                           in Some (mark_every (first_boundary - start_block) per_segment mask0))
          in case mask1 of
               None \<Rightarrow> None
             | Some flags \<Rightarrow>
                 Some (case num_prompt_tokens of
                         None \<Rightarrow> flags
                       | Some n \<Rightarrow>
                           let latest = (n - 1) div alignment_tokens * alignment_tokens;
                               boundary_block = latest div block_size - 1
                           in if start_block \<le> boundary_block \<and> boundary_block < end_block
                              then flags[nat (boundary_block - start_block) := True] else flags))"

definition reachable_block_mask ::
  "single_manager \<Rightarrow> int \<Rightarrow> int \<Rightarrow> int option \<Rightarrow> int option \<Rightarrow> bool list option res" where
  "reachable_block_mask m start_block end_block retention_interval num_prompt_tokens =
     (let bs = sp_block_size (sm_spec m) in
      case sm_kind m of
        SlidingWindowSpec w \<Rightarrow>
          sliding_window_mask w bs start_block end_block (sm_scheduler_block_size m) (sm_use_eagle m)
            retention_interval num_prompt_tokens
      | SlidingWindowMLASpec w \<Rightarrow>
          sliding_window_mask w bs start_block end_block (sm_scheduler_block_size m) (sm_use_eagle m)
            retention_interval num_prompt_tokens
      | MambaSpec _ _ \<Rightarrow>
          Inr (mamba_mask bs start_block end_block (sm_scheduler_block_size m) retention_interval
                 num_prompt_tokens)
      | _ \<Rightarrow> Inr None)"

section \<open>Caching\<close>

definition base_cache_blocks ::
  "hash_env \<Rightarrow> request \<Rightarrow> int \<Rightarrow> int option \<Rightarrow> block_pool \<times> single_manager
     \<Rightarrow> (block_pool \<times> single_manager) res" where
  "base_cache_blocks env r num_tokens retention_interval st =
     (let (p, m) = st;
          rid = rq_request_id r;
          num_cached_blocks = (case map_of (sm_num_cached_block m) rid of None \<Rightarrow> 0 | Some n \<Rightarrow> n);
          num_full_blocks = num_tokens div sm_block_size m
      in if num_cached_blocks \<ge> num_full_blocks then Inr st
         else
           rbind (reachable_block_mask m num_cached_blocks num_full_blocks retention_interval
                    (Some (int (rq_num_prompt_tokens r)))) (\<lambda>block_mask.
           let (req_blocks, m1) = req_blocks_of rid m in
           rbind (cache_full_blocks env r req_blocks num_cached_blocks num_full_blocks
                    (sm_block_size m1) (sm_group_id m1) block_mask p) (\<lambda>p1.
           Inr (p1, m1\<lparr>sm_num_cached_block :=
                         AList.update rid num_full_blocks (sm_num_cached_block m1)\<rparr>))))"

definition manager_cache_blocks ::
  "hash_env \<Rightarrow> request \<Rightarrow> int \<Rightarrow> int option \<Rightarrow> block_pool \<times> single_manager
     \<Rightarrow> (block_pool \<times> single_manager) res" where
  "manager_cache_blocks env r num_tokens retention_interval st =
     (case sm_kind (snd st) of
        CrossAttentionSpec \<Rightarrow> Inl ValueError
      | MambaSpec _ _ \<Rightarrow>
          let rid = rq_request_id r;
              cached = (\<lambda>m. case map_of (sm_num_cached_block m) rid of None \<Rightarrow> 0 | Some n \<Rightarrow> n);
              cached_before = cached (snd st)
          in rbind (base_cache_blocks env r num_tokens retention_interval st) (\<lambda>(p, m).
             let cached_after = cached m in
             if cached_after > cached_before
             then let (req_blocks, m1) = req_blocks_of rid m
                  in Inr (p, m1\<lparr>sm_cached_blocks_this_step :=
                       fold (\<lambda>b hs. case kb_block_hash (blk p b) of
                                      None \<Rightarrow> hs
                                    | Some h \<Rightarrow> if kb_is_null (blk p b) then hs else List.insert h hs)
                         (py_slice cached_before cached_after req_blocks) (sm_cached_blocks_this_step m1)\<rparr>)
             else Inr (p, m))
      | _ \<Rightarrow> base_cache_blocks env r num_tokens retention_interval st)"

definition new_step_starts :: "single_manager \<Rightarrow> single_manager" where
  "new_step_starts m =
     (case sm_kind m of MambaSpec _ _ \<Rightarrow> m\<lparr>sm_cached_blocks_this_step := []\<rparr> | _ \<Rightarrow> m)"

section \<open>Release\<close>

definition pop_blocks_for_free :: "string \<Rightarrow> single_manager \<Rightarrow> block_ref list \<times> single_manager" where
  "pop_blocks_for_free request_id m =
     (let m1 = (case sm_kind m of
                  MambaSpec MambaAlign _ \<Rightarrow>
                    m\<lparr>sm_allocated_block_reqs := removeAll request_id (sm_allocated_block_reqs m),
                      sm_last_state_block_idx := AList.delete request_id (sm_last_state_block_idx m)\<rparr>
                | _ \<Rightarrow> m)
      in (blocks_or_empty request_id m1,
          m1\<lparr>sm_req_to_blocks := AList.delete request_id (sm_req_to_blocks m1),
             sm_num_cached_block := AList.delete request_id (sm_num_cached_block m1)\<rparr>))"

definition manager_free :: "string \<Rightarrow> block_pool \<times> single_manager \<Rightarrow> (block_pool \<times> single_manager) res" where
  "manager_free request_id st =
     (let (blocks, m1) = pop_blocks_for_free request_id (snd st)
      in rbind (free_blocks (rev blocks) (fst st)) (\<lambda>p1. Inr (p1, m1)))"

text \<open>The loop of \<open>remove_skipped_blocks\<close>, from block \<open>n - 1\<close> down to the first null block.\<close>

fun skip_blocks :: "nat \<Rightarrow> block_ref \<Rightarrow> block_ref list \<Rightarrow> block_ref list \<times> block_ref list" where
  "skip_blocks 0 null blocks = ([], blocks)"
| "skip_blocks (Suc i) null blocks =
     (if blocks ! i = null then ([], blocks)
      else let (removed, blocks') = skip_blocks i null (blocks[i := null])
           in (blocks ! i # removed, blocks'))"

definition base_remove_skipped_blocks ::
  "string \<Rightarrow> int \<Rightarrow> block_pool \<times> single_manager \<Rightarrow> (block_pool \<times> single_manager) res" where
  "base_remove_skipped_blocks request_id total_computed_tokens st =
     (let (p, m) = st;
          num_skipped_tokens = get_num_skipped_tokens m total_computed_tokens
      in if num_skipped_tokens \<le> 0 then Inr st
         else
           let (blocks, m1) = req_blocks_of request_id m;
               num_skipped_blocks =
                 min (num_skipped_tokens div sm_block_size m1) (int (length blocks));
               (removed, blocks') = skip_blocks (nat num_skipped_blocks) (sm_null_block m1) blocks
           in rbind (free_blocks removed p) (\<lambda>p1. Inr (p1, set_req_blocks request_id blocks' m1)))"

definition manager_remove_skipped_blocks ::
  "string \<Rightarrow> int \<Rightarrow> block_pool \<times> single_manager \<Rightarrow> (block_pool \<times> single_manager) res" where
  "manager_remove_skipped_blocks request_id total_computed_tokens st =
     (case sm_kind (snd st) of
        MambaSpec mode num_speculative_blocks \<Rightarrow>
          let num_computed_tokens = max 0 (total_computed_tokens - num_speculative_blocks) in
          rbind (base_remove_skipped_blocks request_id num_computed_tokens st) (\<lambda>(p, m).
          if mode \<noteq> MambaAlign then Inr (p, m)
          else case map_of (sm_last_state_block_idx m) request_id of
            None \<Rightarrow> Inr (p, m)
          | Some idx \<Rightarrow>
              if idx < cdiv num_computed_tokens (sm_block_size m) - 1
              then let (blocks, m1) = req_blocks_of request_id m in
                   rbind (list_index blocks idx) (\<lambda>b.
                   if b = sm_null_block m1 then Inr (p, m1)
                   else rbind (free_blocks [b] p) (\<lambda>p1.
                        rbind (py_set blocks idx (sm_null_block m1)) (\<lambda>blocks'.
                        Inr (p1, set_req_blocks request_id blocks' m1))))
              else Inr (p, m))
      | _ \<Rightarrow> base_remove_skipped_blocks request_id total_computed_tokens st)"

section \<open>Common prefix\<close>

fun count_common :: "block_pool \<Rightarrow> int \<Rightarrow> block_ref list \<Rightarrow> int" where
  "count_common p num_requests [] = 0"
| "count_common p num_requests (b # bs) =
     (if kb_ref_cnt (blk p b) = num_requests then 1 + count_common p num_requests bs else 0)"

definition manager_num_common_prefix_blocks ::
  "string \<Rightarrow> block_pool \<times> single_manager \<Rightarrow> int \<times> single_manager" where
  "manager_num_common_prefix_blocks running_request_id st =
     (if is_full_attention (sm_kind (snd st))
      then let (blocks, m1) = req_blocks_of running_request_id (snd st)
           in (count_common (fst st) (int (length (sm_req_to_blocks m1))) blocks, m1)
      else (0, snd st))"

end
