(* ===== verification/CacheHit.thy ===== *)
theory CacheHit
  imports SingleType
begin

text \<open>
  The lookups \<open>find_longest_cache_hit\<close> of the manager classes in
  \<^verbatim>\<open>vllm/v1/core/single_type_kv_cache_manager.py\<close>: which blocks of a prompt are already in
  the pool, for groups that share a specification.  The result has one list of blocks per group.

  The first half translates the four searches.  The second half reduces them to arithmetic on
  the set of positions that hit, and shows that what they return covers the attention window of
  the next token, that they find the longest such prefix, and where they do not.
\<close>

section \<open>Lists per group\<close>

text \<open>\<open>for computed, cached in zip(computed_blocks, cached_block)\<close>, with \<open>computed.append(cached)\<close>
  and with \<open>computed[i] = cached\<close>.\<close>

fun zip_update :: "('a \<Rightarrow> 'b \<Rightarrow> 'a) \<Rightarrow> 'a list \<Rightarrow> 'b list \<Rightarrow> 'a list" where
  "zip_update f (c # cs) (b # bs) = f c b # zip_update f cs bs"
| "zip_update f cs bs = cs"

text \<open>\<open>for computed in computed_blocks: computed.pop()\<close>.\<close>

definition pop_each :: "'a list list \<Rightarrow> 'a list list res" where
  "pop_each computed = (if [] \<in> set computed then Inl IndexError else Inr (map butlast computed))"

text \<open>\<open>len(computed_blocks[0])\<close>.\<close>

definition first_len :: "'a list list \<Rightarrow> int res" where
  "first_len computed = rbind (list_index computed 0) (\<lambda>c. Inr (int (length c)))"

text \<open>
  The loop \<open>while block_size != alignment_tokens and len(computed_blocks[0]) * block_size
  % alignment_tokens != 0\<close>.  Its first argument is the length of the first list, which each
  round shortens by one; at length 0 the condition is false.
\<close>

fun align_loop :: "nat \<Rightarrow> int \<Rightarrow> int \<Rightarrow> 'a list list \<Rightarrow> 'a list list res" where
  "align_loop 0 block_size alignment_tokens computed = Inr computed"
| "align_loop (Suc n) block_size alignment_tokens computed =
     rbind (first_len computed) (\<lambda>k.
     if k * block_size mod alignment_tokens \<noteq> 0
     then rbind (pop_each computed) (align_loop n block_size alignment_tokens)
     else Inr computed)"

definition trim_aligned :: "int \<Rightarrow> int \<Rightarrow> 'a list list \<Rightarrow> 'a list list res" where
  "trim_aligned block_size alignment_tokens computed =
     (if block_size = alignment_tokens then Inr computed
      else rbind (first_len computed) (\<lambda>k.
           align_loop (nat k) block_size alignment_tokens computed))"

text \<open>\<open>block_pool.get_cached_block(block_hashes[i], kv_cache_group_ids)\<close> as a condition.\<close>

definition lookup_at :: "block_pool \<Rightarrow> hash_list \<Rightarrow> int list \<Rightarrow> int \<Rightarrow> block_ref list option res" where
  "lookup_at p block_hashes group_ids i =
     rbind (hl_at block_hashes i) (\<lambda>block_hash.
     rbind (get_cached_block p block_hash group_ids) (\<lambda>cached.
     Inr (if cached = Some [] then None else cached)))"

section \<open>Full attention\<close>

text \<open>Append the hits at the positions of a list until the first miss.\<close>

fun scan_hits ::
  "block_pool \<Rightarrow> hash_list \<Rightarrow> int list \<Rightarrow> int list \<Rightarrow> block_ref list list \<Rightarrow> block_ref list list res" where
  "scan_hits p block_hashes group_ids [] computed = Inr computed"
| "scan_hits p block_hashes group_ids (i # is) computed =
     rbind (lookup_at p block_hashes group_ids i) (\<lambda>cached.
     case cached of
       None \<Rightarrow> Inr computed
     | Some bs \<Rightarrow> scan_hits p block_hashes group_ids is (zip_update (\<lambda>c b. c @ [b]) computed bs))"

text \<open>\<open>if drop_eagle_block and computed_blocks[0]\<close>: pop one block of each list.\<close>

definition drop_last :: "bool \<Rightarrow> 'a list list \<Rightarrow> ('a list list \<Rightarrow> 'a list list res) \<Rightarrow> 'a list list res" where
  "drop_last drop_eagle_block computed continue =
     (if drop_eagle_block
      then rbind (first_len computed) (\<lambda>k.
           if k = 0 then Inr computed else rbind (pop_each computed) continue)
      else Inr computed)"

definition full_find_longest_cache_hit ::
  "block_pool \<Rightarrow> kv_cache_spec \<Rightarrow> hash_list \<Rightarrow> int \<Rightarrow> int list \<Rightarrow> bool \<Rightarrow> int \<Rightarrow> int \<Rightarrow> int
     \<Rightarrow> block_ref list list res" where
  "full_find_longest_cache_hit p spec block_hashes max_length group_ids drop_eagle_block
       alignment_tokens dcp_world_size pcp_world_size =
     (let block_size = (if dcp_world_size * pcp_world_size > 1
                        then sp_block_size spec * (dcp_world_size * pcp_world_size)
                        else sp_block_size spec);
          max_num_blocks = max_length div block_size
      in rbind (check (0 \<le> max_num_blocks) ValueError) (\<lambda>_.
         rbind (scan_hits p block_hashes group_ids [0..min max_num_blocks (hl_len block_hashes) - 1]
                  (replicate (length group_ids) [])) (\<lambda>computed.
         rbind (drop_last drop_eagle_block computed Inr) (\<lambda>computed.
         trim_aligned block_size alignment_tokens computed))))"

section \<open>Sliding window\<close>

text \<open>
  The search from right to left: the next position, the length of the current run and the lists
  so far; the result tells whether the run became long enough.
\<close>

fun window_scan ::
  "block_pool \<Rightarrow> hash_list \<Rightarrow> int list \<Rightarrow> int \<Rightarrow> int \<Rightarrow> bool \<Rightarrow> int \<Rightarrow> nat \<Rightarrow> nat \<Rightarrow> block_ref list list
     \<Rightarrow> (bool \<times> nat \<times> block_ref list list) res" where
  "window_scan p block_hashes group_ids block_size alignment_tokens drop_eagle_block need 0
       num_contiguous computed = Inr (False, num_contiguous, computed)"
| "window_scan p block_hashes group_ids block_size alignment_tokens drop_eagle_block need (Suc i)
       num_contiguous computed =
     rbind (lookup_at p block_hashes group_ids (int i)) (\<lambda>cached.
     case cached of
       None \<Rightarrow>
         window_scan p block_hashes group_ids block_size alignment_tokens drop_eagle_block need i
           0 computed
     | Some bs \<Rightarrow>
         if num_contiguous = 0 \<and> block_size \<noteq> alignment_tokens \<and>
            (if drop_eagle_block then int i else int i + 1) * block_size mod alignment_tokens \<noteq> 0
         then window_scan p block_hashes group_ids block_size alignment_tokens drop_eagle_block need i
                num_contiguous computed
         else
           let computed' = zip_update (\<lambda>c b. c[i := b]) computed bs;
               num_contiguous' = num_contiguous + 1
           in if int num_contiguous' \<ge> need
              then Inr (True, num_contiguous', map (take (i + num_contiguous')) computed')
              else window_scan p block_hashes group_ids block_size alignment_tokens drop_eagle_block
                     need i num_contiguous' computed')"

definition window_find_longest_cache_hit ::
  "block_pool \<Rightarrow> int \<Rightarrow> int \<Rightarrow> hash_list \<Rightarrow> int \<Rightarrow> int list \<Rightarrow> bool \<Rightarrow> int \<Rightarrow> int \<Rightarrow> int
     \<Rightarrow> block_ref list list res" where
  "window_find_longest_cache_hit p sliding_window block_size block_hashes max_length group_ids
       drop_eagle_block alignment_tokens dcp_world_size pcp_world_size =
     rbind (check (dcp_world_size = 1) AssertionError) (\<lambda>_.
     rbind (check (pcp_world_size = 1) AssertionError) (\<lambda>_.
     let need = contiguous_blocks_for_hit sliding_window block_size drop_eagle_block;
         max_num_blocks = max_length div block_size;
         computed = replicate (length group_ids) (replicate (nat max_num_blocks) (bp_null_block p))
     in rbind (window_scan p block_hashes group_ids block_size alignment_tokens drop_eagle_block need
                 (nat max_num_blocks) 0 computed) (\<lambda>(match_found, num_contiguous, computed).
        rbind (if match_found then Inr computed
               else trim_aligned block_size alignment_tokens (map (take num_contiguous) computed))
          (\<lambda>computed.
        drop_last drop_eagle_block computed (trim_aligned block_size alignment_tokens)))))"

section \<open>Chunked local attention\<close>

definition chunked_find_longest_cache_hit ::
  "block_pool \<Rightarrow> int \<Rightarrow> int \<Rightarrow> hash_list \<Rightarrow> int \<Rightarrow> int list \<Rightarrow> bool \<Rightarrow> int \<Rightarrow> int \<Rightarrow> int
     \<Rightarrow> block_ref list list res" where
  "chunked_find_longest_cache_hit p attention_chunk_size block_size block_hashes max_length group_ids
       drop_eagle_block alignment_tokens dcp_world_size pcp_world_size =
     rbind (check (\<not> drop_eagle_block) AssertionError) (\<lambda>_.
     rbind (check (dcp_world_size = 1) AssertionError) (\<lambda>_.
     rbind (check (pcp_world_size = 1) AssertionError) (\<lambda>_.
     rbind (check (block_size = alignment_tokens) AssertionError) (\<lambda>_.
     let max_num_blocks = max_length div block_size;
         local_attention_start_idx =
           (if max_length > 0 then max_length div attention_chunk_size * attention_chunk_size else 0);
         start_block_idx = local_attention_start_idx div block_size
     in scan_hits p block_hashes group_ids [start_block_idx..max_num_blocks - 1]
          (replicate (length group_ids) (replicate (nat start_block_idx) (bp_null_block p)))))))"

section \<open>Mamba\<close>

text \<open>The last aligned hit; the blocks before it are null.\<close>

fun state_scan ::
  "block_pool \<Rightarrow> hash_list \<Rightarrow> int list \<Rightarrow> int \<Rightarrow> int \<Rightarrow> nat \<Rightarrow> block_ref list list
     \<Rightarrow> block_ref list list res" where
  "state_scan p block_hashes group_ids block_size alignment_tokens 0 computed = Inr computed"
| "state_scan p block_hashes group_ids block_size alignment_tokens (Suc i) computed =
     rbind (lookup_at p block_hashes group_ids (int i)) (\<lambda>cached.
     case cached of
       None \<Rightarrow> state_scan p block_hashes group_ids block_size alignment_tokens i computed
     | Some bs \<Rightarrow>
         if block_size \<noteq> alignment_tokens \<and> (int i + 1) * block_size mod alignment_tokens \<noteq> 0
         then state_scan p block_hashes group_ids block_size alignment_tokens i computed
         else Inr (zip_update (\<lambda>c b. c @ replicate i (bp_null_block p) @ [b]) computed bs))"

definition mamba_find_longest_cache_hit ::
  "block_pool \<Rightarrow> int \<Rightarrow> hash_list \<Rightarrow> int \<Rightarrow> int list \<Rightarrow> bool \<Rightarrow> int \<Rightarrow> int \<Rightarrow> int
     \<Rightarrow> block_ref list list res" where
  "mamba_find_longest_cache_hit p block_size block_hashes max_length group_ids
       drop_eagle_block alignment_tokens dcp_world_size pcp_world_size =
     rbind (check (dcp_world_size = 1) AssertionError) (\<lambda>_.
     rbind (check (pcp_world_size = 1) AssertionError) (\<lambda>_.
     state_scan p block_hashes group_ids block_size alignment_tokens (nat (max_length div block_size))
       (replicate (length group_ids) [])))"

section \<open>The lookup of a manager class\<close>

definition find_longest_cache_hit ::
  "block_pool \<Rightarrow> kv_cache_spec \<Rightarrow> hash_list \<Rightarrow> int \<Rightarrow> int list \<Rightarrow> bool \<Rightarrow> int \<Rightarrow> int \<Rightarrow> int
     \<Rightarrow> block_ref list list res" where
  "find_longest_cache_hit p spec block_hashes max_length group_ids drop_eagle_block alignment_tokens
       dcp_world_size pcp_world_size =
     (case sp_kind spec of
        SlidingWindowSpec w \<Rightarrow>
          window_find_longest_cache_hit p w (sp_block_size spec) block_hashes max_length group_ids
            drop_eagle_block alignment_tokens dcp_world_size pcp_world_size
      | SlidingWindowMLASpec w \<Rightarrow>
          window_find_longest_cache_hit p w (sp_block_size spec) block_hashes max_length group_ids
            drop_eagle_block alignment_tokens dcp_world_size pcp_world_size
      | ChunkedLocalAttentionSpec c \<Rightarrow>
          chunked_find_longest_cache_hit p c (sp_block_size spec) block_hashes max_length group_ids
            drop_eagle_block alignment_tokens dcp_world_size pcp_world_size
      | MambaSpec _ _ \<Rightarrow>
          mamba_find_longest_cache_hit p (sp_block_size spec) block_hashes max_length group_ids
            drop_eagle_block alignment_tokens dcp_world_size pcp_world_size
      | CrossAttentionSpec \<Rightarrow> Inl NotImplementedError
      | _ \<Rightarrow>
          full_find_longest_cache_hit p spec block_hashes max_length group_ids drop_eagle_block
            alignment_tokens dcp_world_size pcp_world_size)"

section \<open>The positions that hit\<close>

text \<open>\<open>hits_are p hl gs n H\<close>: below \<open>n\<close> no lookup raises, and \<open>H\<close> is what the lookups find.\<close>

definition hits_are ::
  "block_pool \<Rightarrow> hash_list \<Rightarrow> int list \<Rightarrow> nat \<Rightarrow> (nat \<Rightarrow> block_ref list option) \<Rightarrow> bool" where
  "hits_are p block_hashes group_ids n H \<longleftrightarrow> group_ids \<noteq> [] \<and>
     (\<forall>i < n. lookup_at p block_hashes group_ids (int i) = Inr (H i) \<and>
              (\<forall>bs. H i = Some bs \<longrightarrow> length bs = length group_ids))"

lemma hits_areD:
  assumes "hits_are p hl gs n H" "i < n"
  shows "lookup_at p hl gs (int i) = Inr (H i)" "H i = Some bs \<Longrightarrow> length bs = length gs"
  using assms by (auto simp: hits_are_def)

text \<open>
  \<open>hit_rows H null m s res k\<close>: the result has \<open>m\<close> lists of \<open>k\<close> blocks; from position \<open>s\<close> on
  they hold the hits, before it a hit or the null block.
\<close>

definition hit_rows ::
  "(nat \<Rightarrow> block_ref list option) \<Rightarrow> block_ref \<Rightarrow> nat \<Rightarrow> nat \<Rightarrow> block_ref list list \<Rightarrow> nat \<Rightarrow> bool" where
  "hit_rows H null m s res k \<longleftrightarrow> length res = m \<and>
     (\<forall>g < m. length (res ! g) = k \<and>
       (\<forall>i < k. (\<exists>bs. H i = Some bs \<and> res ! g ! i = bs ! g) \<or> i < s \<and> res ! g ! i = null)) \<and>
     (\<forall>i < k. s \<le> i \<longrightarrow> H i \<noteq> None)"

lemma hit_rowsI:
  assumes "length res = m" "\<And>g. g < m \<Longrightarrow> length (res ! g) = k"
    and "\<And>g i. g < m \<Longrightarrow> i < k \<Longrightarrow> (\<exists>bs. H i = Some bs \<and> res ! g ! i = bs ! g) \<or> i < s \<and> res ! g ! i = null"
    and "\<And>i. i < k \<Longrightarrow> s \<le> i \<Longrightarrow> H i \<noteq> None"
  shows "hit_rows H null m s res k"
  using assms by (simp add: hit_rows_def)

lemma length_zip_update [simp]: "length (zip_update f cs bs) = length cs"
  by (induction f cs bs rule: zip_update.induct) simp_all

lemma nth_zip_update:
  "length bs = length cs \<Longrightarrow> g < length cs \<Longrightarrow> zip_update f cs bs ! g = f (cs ! g) (bs ! g)"
  by (induction f cs bs arbitrary: g rule: zip_update.induct) (auto simp: nth_Cons split: nat.splits)

lemma hit_rows_take:
  "hit_rows H null m s res k \<Longrightarrow> j \<le> k \<Longrightarrow> hit_rows H null m s (map (take j) res) j"
  by (fastforce simp: hit_rows_def)

lemma hit_rows_weaken: "hit_rows H null m s res k \<Longrightarrow> s \<le> s' \<Longrightarrow> hit_rows H null m s' res k"
  unfolding hit_rows_def by (meson le_trans less_le_trans)

lemma hit_rows_append:
  assumes "hit_rows H null m s res k" "H k = Some bs" "length bs = m"
  shows "hit_rows H null m s (zip_update (\<lambda>c b. c @ [b]) res bs) (Suc k)"
proof (rule hit_rowsI)
  fix g i assume "g < m" "i < Suc k"
  with assms show "(\<exists>bs'. H i = Some bs' \<and> zip_update (\<lambda>c b. c @ [b]) res bs ! g ! i = bs' ! g) \<or>
      i < s \<and> zip_update (\<lambda>c b. c @ [b]) res bs ! g ! i = null"
    by (auto simp: hit_rows_def nth_zip_update nth_append less_Suc_eq)
next
  fix i assume "i < Suc k" "s \<le> i"
  with assms show "H i \<noteq> None" by (auto simp: hit_rows_def less_Suc_eq)
qed (use assms in \<open>auto simp: hit_rows_def nth_zip_update\<close>)

section \<open>Trimming\<close>

lemma first_len_rows: "hit_rows H null m s res k \<Longrightarrow> 0 < m \<Longrightarrow> first_len res = Inr (int k)"
  by (auto simp: first_len_def hit_rows_def list_index_def)

lemma pop_each_rows:
  assumes "hit_rows H null m s res (Suc k)"
  shows "pop_each res = Inr (map (take k) res)" and "hit_rows H null m s (map (take k) res) k"
proof -
  have l: "length r = Suc k" if "r \<in> set res" for r
    using assms that by (auto simp: hit_rows_def in_set_conv_nth)
  then have "[] \<notin> set res" by force
  moreover have "map butlast res = map (take k) res" using l by (simp add: butlast_conv_take)
  ultimately show "pop_each res = Inr (map (take k) res)" by (simp add: pop_each_def)
  show "hit_rows H null m s (map (take k) res) k" using hit_rows_take [OF assms] by simp
qed

text \<open>The largest aligned length not above \<open>k\<close>.\<close>

fun aligned_below :: "int \<Rightarrow> int \<Rightarrow> nat \<Rightarrow> nat" where
  "aligned_below block_size alignment 0 = 0"
| "aligned_below block_size alignment (Suc k) =
     (if int (Suc k) * block_size mod alignment = 0 then Suc k
      else aligned_below block_size alignment k)"

lemma aligned_below_le: "aligned_below bs al k \<le> k"
  by (induction k) (auto simp del: of_nat_Suc intro: le_SucI)

lemma aligned_below_mod: "int (aligned_below bs al k) * bs mod al = 0"
  by (induction k) (simp_all del: of_nat_Suc)

lemma aligned_below_greatest: "j \<le> k \<Longrightarrow> int j * bs mod al = 0 \<Longrightarrow> j \<le> aligned_below bs al k"
  by (induction k) (auto simp: le_Suc_eq simp del: of_nat_Suc)

lemma aligned_below_same: "int k * bs mod al = 0 \<Longrightarrow> aligned_below bs al k = k"
  using aligned_below_greatest [of k k] aligned_below_le [of bs al k] by (simp add: order.antisym)

lemma align_loop_rows:
  "hit_rows H null m s res k \<Longrightarrow> 0 < m \<Longrightarrow>
     \<exists>res'. align_loop k bs al res = Inr res' \<and> hit_rows H null m s res' (aligned_below bs al k)"
proof (induction k arbitrary: res)
  case (Suc k)
  note f = first_len_rows [OF Suc.prems] and pop = pop_each_rows [OF Suc.prems(1)]
  from Suc.IH [OF pop(2) Suc.prems(2)] obtain res' where
    r: "align_loop k bs al (map (take k) res) = Inr res'" "hit_rows H null m s res' (aligned_below bs al k)"
    by blast
  show ?case
  proof (cases "int (Suc k) * bs mod al = 0")
    case True
    then show ?thesis using Suc.prems(1) by (simp add: f del: of_nat_Suc)
  next
    case False
    then show ?thesis using r pop(1) by (simp add: f del: of_nat_Suc)
  qed
qed simp

lemma trim_aligned_rows:
  assumes "hit_rows H null m s res k" "0 < m"
  shows "\<exists>res'. trim_aligned bs al res = Inr res' \<and> hit_rows H null m s res' (aligned_below bs al k)"
proof (cases "bs = al")
  case True
  have "aligned_below bs al k = k" by (rule aligned_below_same) (simp add: True)
  then show ?thesis using assms(1) by (simp add: trim_aligned_def True)
next
  case False
  then show ?thesis using align_loop_rows [OF assms] by (simp add: trim_aligned_def first_len_rows [OF assms])
qed

lemma drop_last_rows:
  assumes "hit_rows H null m s res k" "0 < m"
    and "\<And>res. drop_eagle \<Longrightarrow> hit_rows H null m s res (k - 1) \<Longrightarrow> \<exists>res'. f res = Inr res' \<and> P res'"
    and "\<not> drop_eagle \<or> k = 0 \<Longrightarrow> P res"
  shows "\<exists>res'. drop_last drop_eagle res f = Inr res' \<and> P res'"
proof (cases "drop_eagle \<and> 0 < k")
  case True
  then obtain j where k: "k = Suc j" by (auto simp: gr0_conv_Suc)
  show ?thesis using True pop_each_rows [OF assms(1) [unfolded k]] assms(3) k
    by (simp add: drop_last_def first_len_rows [OF assms(1,2)])
next
  case False
  then show ?thesis using assms(4) by (auto simp: drop_last_def first_len_rows [OF assms(1,2)])
qed

section \<open>The searches on the positions that hit\<close>

lemma upto_int: "[int a..int b - 1] = map int [a..<b]"
proof (induction b)
  case (Suc b)
  show ?case
  proof (cases "a \<le> b")
    case True
    have "[int a..int b] = [int a..int b - 1] @ [int b]" using True by (intro upto_rec2) simp
    then show ?thesis using Suc True by simp
  qed simp
qed simp

lemma scan_hits_rows:
  assumes H: "hits_are p hl gs n H" and b: "b \<le> n"
  shows "a \<le> b \<Longrightarrow> hit_rows H null (length gs) s res a \<Longrightarrow>
    \<exists>res' k. scan_hits p hl gs (map int [a..<b]) res = Inr res' \<and> hit_rows H null (length gs) s res' k \<and>
      a \<le> k \<and> k \<le> b \<and> (\<forall>i. a \<le> i \<and> i < k \<longrightarrow> H i \<noteq> None) \<and> (k < b \<longrightarrow> H k = None)"
proof (induction "b - a" arbitrary: a res)
  case 0
  then have "a = b" by simp
  then show ?case using 0 by auto
next
  case (Suc d)
  have a: "a < b" and l: "[a..<b] = a # [Suc a..<b]" using Suc.hyps(2) by (auto simp: upt_conv_Cons)
  note L = hits_areD [OF H less_le_trans [OF a b]]
  show ?case
  proof (cases "H a")
    case None
    then show ?thesis using Suc.prems a by (intro exI [of _ res] exI [of _ a]) (auto simp: l L(1))
  next
    case (Some bs)
    have "hit_rows H null (length gs) s (zip_update (\<lambda>c b. c @ [b]) res bs) (Suc a)"
      by (rule hit_rows_append [OF Suc.prems(2) Some L(2) [OF Some]])
    have "d = b - Suc a" "Suc a \<le> b" using Suc.hyps(2) a by simp_all
    from Suc.hyps(1) [OF this \<open>hit_rows H null (length gs) s (zip_update (\<lambda>c b. c @ [b]) res bs) (Suc a)\<close>]
    obtain res' k where
      r: "scan_hits p hl gs (map int [Suc a..<b]) (zip_update (\<lambda>c b. c @ [b]) res bs) = Inr res'"
        "hit_rows H null (length gs) s res' k" "Suc a \<le> k" "k \<le> b" "k < b \<longrightarrow> H k = None"
      and h: "\<forall>i. Suc a \<le> i \<and> i < k \<longrightarrow> H i \<noteq> None" by blast
    have "\<forall>i. a \<le> i \<and> i < k \<longrightarrow> H i \<noteq> None" using h Some by (auto simp: Suc_le_eq nat_less_le)
    then show ?thesis using r Some by (intro exI [of _ res'] exI [of _ k]) (simp add: l L(1))
  qed
qed

text \<open>
  The positions of the run a window search is in, and what the search promises: a long enough
  run with an aligned end, or the run at the front.  \<open>good\<close> are the ends allowed.
\<close>

definition window_state ::
  "(nat \<Rightarrow> block_ref list option) \<Rightarrow> (nat \<Rightarrow> bool) \<Rightarrow> block_ref \<Rightarrow> nat \<Rightarrow> nat \<Rightarrow> nat \<Rightarrow> nat \<Rightarrow> block_ref list list \<Rightarrow> bool"
where
  "window_state H good null m len i n computed \<longleftrightarrow> length computed = m \<and> i + n \<le> len \<and>
     (0 < n \<longrightarrow> good (i + n)) \<and>
     (\<forall>j. i \<le> j \<and> j < i + n \<longrightarrow> H j \<noteq> None) \<and>
     (\<forall>g < m. length (computed ! g) = len \<and> (\<forall>j < i. computed ! g ! j = null) \<and>
        (\<forall>j. i \<le> j \<and> j < i + n \<longrightarrow> (\<exists>bs. H j = Some bs \<and> computed ! g ! j = bs ! g)))"

lemma window_state_rows:
  assumes "window_state H good null m len i n computed"
  shows "hit_rows H null m i (map (take (i + n)) computed) (i + n)"
proof (rule hit_rowsI)
  fix g j assume g: "g < m" and j: "j < i + n"
  show "(\<exists>bs. H j = Some bs \<and> map (take (i + n)) computed ! g ! j = bs ! g) \<or>
      j < i \<and> map (take (i + n)) computed ! g ! j = null"
    using assms g j by (cases "i \<le> j") (auto simp: window_state_def)
qed (use assms in \<open>auto simp: window_state_def\<close>)

lemma window_state_hit:
  assumes "window_state H good null m len (Suc i) n computed" "H i = Some bs" "length bs = m"
    and "n = 0 \<Longrightarrow> good (Suc i)"
  shows "window_state H good null m len i (Suc n) (zip_update (\<lambda>c b. c[i := b]) computed bs)"
proof -
  have "\<exists>bs'. H j = Some bs' \<and> zip_update (\<lambda>c b. c[i := b]) computed bs ! g ! j = bs' ! g"
    if "g < m" "i \<le> j" "j < Suc i + n" for g j
    using that assms by (cases "j = i") (auto simp: window_state_def nth_zip_update)
  moreover have "H j \<noteq> None" if "i \<le> j" "j < Suc i + n" for j
    using that assms(1,2) by (cases "j = i") (auto simp: window_state_def)
  moreover have "zip_update (\<lambda>c b. c[i := b]) computed bs ! g ! j = null" if "g < m" "j < i" for g j
    using that assms by (auto simp: window_state_def nth_zip_update)
  moreover have "good (i + Suc n)" using assms(1,4) by (cases n) (auto simp: window_state_def)
  ultimately show ?thesis using assms(1,3) by (auto simp: window_state_def nth_zip_update)
qed

lemma window_state_skip:
  assumes "window_state H good null m len (Suc i) n computed"
  shows "window_state H good null m len i 0 computed"
  using assms by (auto simp: window_state_def)

definition window_good :: "int \<Rightarrow> int \<Rightarrow> bool \<Rightarrow> nat \<Rightarrow> bool" where
  "window_good bs al drop_eagle k \<longleftrightarrow>
     bs = al \<or> (int k - (if drop_eagle then 1 else 0)) * bs mod al = 0"

text \<open>
  A candidate end \<open>k\<close>: the \<open>need\<close> positions before it hit, or all of them.
\<close>

definition candidate :: "(nat \<Rightarrow> block_ref list option) \<Rightarrow> (nat \<Rightarrow> bool) \<Rightarrow> int \<Rightarrow> nat \<Rightarrow> bool" where
  "candidate H good need k \<longleftrightarrow> good k \<and> (\<forall>j < k. int k - need \<le> int j \<longrightarrow> H j \<noteq> None)"

text \<open>What the search returns when every end up to \<open>bound\<close> was open to it.\<close>

definition window_outcome ::
  "(nat \<Rightarrow> block_ref list option) \<Rightarrow> (nat \<Rightarrow> bool) \<Rightarrow> block_ref \<Rightarrow> nat \<Rightarrow> nat \<Rightarrow> int \<Rightarrow> nat
     \<Rightarrow> bool \<times> nat \<times> block_ref list list \<Rightarrow> bool" where
  "window_outcome H good null m len need bound r \<longleftrightarrow>
     (case r of (found, n, res) \<Rightarrow> \<exists>k \<le> bound.
        (if found then n \<le> k \<and> hit_rows H null m (k - n) res k \<and> need \<le> int n \<and> 0 < n \<and> good k
         else k = n \<and> window_state H good null m len 0 n res \<and> (int n < need \<or> n = 0)) \<and>
        (1 \<le> need \<longrightarrow> (\<forall>k' \<le> bound. candidate H good need k' \<longrightarrow> k' \<le> k)))"

lemma window_outcome_later:
  assumes "window_outcome H good null m len need i r" "i \<le> bound"
    and "\<And>k'. 1 \<le> need \<Longrightarrow> i < k' \<Longrightarrow> k' \<le> bound \<Longrightarrow> \<not> candidate H good need k'"
  shows "window_outcome H good null m len need bound r"
proof -
  obtain found n res where r: "r = (found, n, res)" by (cases r)
  from assms(1) obtain k where k: "k \<le> i" and
    res: "if found then n \<le> k \<and> hit_rows H null m (k - n) res k \<and> need \<le> int n \<and> 0 < n \<and> good k
         else k = n \<and> window_state H good null m len 0 n res \<and> (int n < need \<or> n = 0)" and
    best: "1 \<le> need \<longrightarrow> (\<forall>k' \<le> i. candidate H good need k' \<longrightarrow> k' \<le> k)"
    unfolding window_outcome_def r prod.case by blast
  have "1 \<le> need \<longrightarrow> (\<forall>k' \<le> bound. candidate H good need k' \<longrightarrow> k' \<le> k)"
    using best assms(3) by (meson not_le_imp_less)
  moreover have "k \<le> bound" using k assms(2) by simp
  ultimately show ?thesis using res unfolding window_outcome_def r prod.case by blast
qed

lemma window_scan_spec:
  fixes bs al :: int and drop_eagle :: bool
  defines "good \<equiv> window_good bs al drop_eagle"
  assumes H: "hits_are p hl gs len H"
  shows "window_state H good null (length gs) len i n computed \<Longrightarrow> int n < need \<or> n = 0 \<Longrightarrow>
    \<exists>r. window_scan p hl gs bs al drop_eagle need i n computed = Inr r \<and>
      window_outcome H good null (length gs) len need (i + n) r"
proof (induction i arbitrary: n computed)
  case 0
  then show ?case by (simp add: window_outcome_def)
next
  case (Suc i)
  have "i < len" using Suc.prems(1) by (simp add: window_state_def)
  note L = hits_areD [OF H this]
  obtain r where skip: "window_scan p hl gs bs al drop_eagle need i 0 computed = Inr r"
      "window_outcome H good null (length gs) len need i r"
    using Suc.IH [OF window_state_skip [OF Suc.prems(1)]] by auto
  show ?case
  proof (cases "H i")
    case None
    have "\<not> candidate H good need k'" if "1 \<le> need" "i < k'" "k' \<le> Suc i + n" for k'
      using Suc.prems(2) that None by (auto simp: candidate_def)
    then have "window_outcome H good null (length gs) len need (Suc i + n) r"
      by (intro window_outcome_later [OF skip(2)]) simp_all
    then show ?thesis using skip(1) by (simp add: L(1) None)
  next
    case (Some b)
    have test: "n = 0 \<and> bs \<noteq> al \<and> (if drop_eagle then int i else int i + 1) * bs mod al \<noteq> 0 \<longleftrightarrow>
        n = 0 \<and> \<not> good (Suc i)"
      by (auto simp: good_def window_good_def add.commute)
    have step: "window_scan p hl gs bs al drop_eagle need (Suc i) n computed =
        (if n = 0 \<and> \<not> good (Suc i) then window_scan p hl gs bs al drop_eagle need i n computed
         else if need \<le> int (Suc n)
         then Inr (True, Suc n, map (take (i + Suc n)) (zip_update (\<lambda>c b. c[i := b]) computed b))
         else window_scan p hl gs bs al drop_eagle need i (Suc n) (zip_update (\<lambda>c b. c[i := b]) computed b))"
      unfolding window_scan.simps L(1) Some rbind.simps option.case test by (simp add: Let_def)
    show ?thesis
    proof (cases "n = 0 \<and> \<not> good (Suc i)")
      case True
      have "\<not> candidate H good need k'" if "i < k'" "k' \<le> Suc i + n" for k'
        using that True by (auto simp: candidate_def le_Suc_eq)
      then have "window_outcome H good null (length gs) len need (Suc i + n) r"
        by (intro window_outcome_later [OF skip(2)]) simp_all
      then show ?thesis using skip(1) True unfolding step by simp
    next
      case False
      let ?c = "zip_update (\<lambda>c b. c[i := b]) computed b"
      have st: "window_state H good null (length gs) len i (Suc n) ?c"
        using window_state_hit [OF Suc.prems(1) Some L(2) [OF Some]] False by blast
      show ?thesis
      proof (cases "need \<le> int (Suc n)")
        case True
        have "good (i + Suc n)" using st by (simp add: window_state_def)
        then have "window_outcome H good null (length gs) len need (Suc i + n)
            (True, Suc n, map (take (i + Suc n)) ?c)"
          using window_state_rows [OF st] True by (auto simp: window_outcome_def)
        then show ?thesis using True unfolding step if_not_P [OF False] by simp
      next
        case no: False
        with Suc.IH [OF st] show ?thesis unfolding step if_not_P [OF False] by simp
      qed
    qed
  qed
qed

lemma state_scan_rows:
  assumes H: "hits_are p hl gs len H"
  shows "i \<le> len \<Longrightarrow>
    \<exists>res k. state_scan p hl gs bs al i (replicate (length gs) []) = Inr res \<and>
      hit_rows H (bp_null_block p) (length gs) (k - 1) res k \<and> k \<le> i \<and>
      int k * bs mod al = 0 \<and>
      (\<forall>k' \<le> i. 0 < k' \<and> int k' * bs mod al = 0 \<and> H (k' - 1) \<noteq> None \<longrightarrow> k' \<le> k)"
proof (induction i)
  case 0
  have "hit_rows H (bp_null_block p) (length gs) 0 (replicate (length gs) []) 0"
    by (simp add: hit_rows_def)
  then show ?case by simp
next
  case (Suc i)
  note L = hits_areD [OF H, of i] and hit = hits_areD(2) [OF H, of i]
  from Suc obtain res k where
    r: "state_scan p hl gs bs al i (replicate (length gs) []) = Inr res"
      "hit_rows H (bp_null_block p) (length gs) (k - 1) res k" "k \<le> i" "int k * bs mod al = 0"
      "\<forall>k' \<le> i. 0 < k' \<and> int k' * bs mod al = 0 \<and> H (k' - 1) \<noteq> None \<longrightarrow> k' \<le> k" by auto
  show ?case
  proof (cases "H i \<noteq> None \<and> int (Suc i) * bs mod al = 0")
    case False
    have "state_scan p hl gs bs al (Suc i) (replicate (length gs) []) = Inr res"
      using False r(1) L(1) Suc.prems by (auto simp: add.commute split: option.splits)
    moreover have "\<forall>k' \<le> Suc i. 0 < k' \<and> int k' * bs mod al = 0 \<and> H (k' - 1) \<noteq> None \<longrightarrow> k' \<le> k"
      using r(5) False by (auto simp: le_Suc_eq simp del: of_nat_Suc)
    ultimately show ?thesis using r(2-4) by (intro exI [of _ res] exI [of _ k]) simp
  next
    case True
    then obtain b where b: "H i = Some b" by auto
    let ?res = "zip_update (\<lambda>c b. c @ replicate i (bp_null_block p) @ [b]) (replicate (length gs) []) b"
    have "state_scan p hl gs bs al (Suc i) (replicate (length gs) []) = Inr ?res"
      using True b L(1) Suc.prems by (simp add: add.commute)
    moreover have "hit_rows H (bp_null_block p) (length gs) i ?res (Suc i)"
      using hit [of b] b Suc.prems by (intro hit_rowsI) (auto simp: nth_zip_update nth_append less_Suc_eq)
    ultimately show ?thesis using True by (intro exI [of _ ?res] exI [of _ "Suc i"]) simp
  qed
qed

section \<open>Serving a prefix\<close>

text \<open>
  The specification: the first \<open>k\<close> blocks can serve a request of a manager if every block that
  holds a token the next token attends to is a hit.
\<close>

definition servable :: "single_manager \<Rightarrow> int \<Rightarrow> (nat \<Rightarrow> bool) \<Rightarrow> nat \<Rightarrow> bool" where
  "servable m bs hit k \<longleftrightarrow>
     (\<forall>i < k. get_num_skipped_tokens m (int k * bs) < (int i + 1) * bs \<longrightarrow> hit i)"

text \<open>What a result must look like: the hits, with null blocks only outside the window.\<close>

definition serves ::
  "single_manager \<Rightarrow> int \<Rightarrow> (nat \<Rightarrow> block_ref list option) \<Rightarrow> block_ref \<Rightarrow> nat \<Rightarrow> block_ref list list \<Rightarrow> nat \<Rightarrow> bool"
where
  "serves m bs H null n res k \<longleftrightarrow> length res = n \<and>
     (\<forall>g < n. length (res ! g) = k \<and>
       (\<forall>i < k. (\<exists>b. H i = Some b \<and> res ! g ! i = b ! g) \<or>
                 res ! g ! i = null \<and> (int i + 1) * bs \<le> get_num_skipped_tokens m (int k * bs)))"

lemma servesI:
  assumes "hit_rows H null n s res k"
    and "\<And>i. i < k \<Longrightarrow> i < s \<Longrightarrow> (int i + 1) * bs \<le> get_num_skipped_tokens m (int k * bs)"
  shows "serves m bs H null n res k"
  unfolding serves_def
proof (intro conjI allI impI)
  fix g i assume g: "g < n" and i: "i < k"
  from assms(1) g i have "(\<exists>b. H i = Some b \<and> res ! g ! i = b ! g) \<or> i < s \<and> res ! g ! i = null"
    by (simp add: hit_rows_def)
  with assms(2) [OF i] show "(\<exists>b. H i = Some b \<and> res ! g ! i = b ! g) \<or>
      res ! g ! i = null \<and> (int i + 1) * bs \<le> get_num_skipped_tokens m (int k * bs)" by blast
qed (use assms(1) in \<open>auto simp: hit_rows_def\<close>)

lemma serves_all: "hit_rows H null n 0 res k \<Longrightarrow> serves m bs H null n res k"
  by (rule servesI [of _ _ _ 0]) simp_all

lemma cdiv_less: "0 < b \<Longrightarrow> x < cdiv a b \<longleftrightarrow> x * b < a"
  using cdiv_ge [of b a] cdiv_least [of b a x] mult_right_mono [of "cdiv a b" x b] by fastforce

definition is_window :: "single_manager \<Rightarrow> int \<Rightarrow> bool" where
  "is_window m w \<longleftrightarrow> sliding_window_of (sm_kind m) = Some w"

lemma window_skipped: "is_window m w \<Longrightarrow> get_num_skipped_tokens m n = max 0 (n - w + 1)"
  by (cases "sm_kind m") (simp_all add: is_window_def get_num_skipped_tokens_def num_skipped_tokens_def)

lemma window_servable:
  assumes "is_window m w" "0 < bs"
  shows "servable m bs (\<lambda>i. H i \<noteq> None) k \<longleftrightarrow>
    (\<forall>j < k. int k - cdiv (w - 1) bs \<le> int j \<longrightarrow> H j \<noteq> None)"
proof -
  have "get_num_skipped_tokens m (int k * bs) < (int j + 1) * bs \<longleftrightarrow> int k - cdiv (w - 1) bs \<le> int j" for j
  proof -
    have "0 < (int j + 1) * bs" using assms(2) by (intro mult_pos_pos) simp_all
    then have "get_num_skipped_tokens m (int k * bs) < (int j + 1) * bs \<longleftrightarrow>
        (int k - int j - 1) * bs < w - 1"
      by (simp add: window_skipped [OF assms(1)] algebra_simps)
    also have "\<dots> \<longleftrightarrow> int k - int j - 1 < cdiv (w - 1) bs" using cdiv_less [OF assms(2)] by simp
    finally show ?thesis by linarith
  qed
  then show ?thesis by (simp add: servable_def)
qed

lemma window_outside:
  assumes "is_window m w" "0 < bs" "int i + cdiv (w - 1) bs < int k"
  shows "(int i + 1) * bs \<le> get_num_skipped_tokens m (int k * bs)"
proof -
  have "(int i + 1) * bs \<le> (int k - cdiv (w - 1) bs) * bs" using assms(2,3) by (intro mult_right_mono) simp_all
  moreover have "w - 1 \<le> cdiv (w - 1) bs * bs" by (rule cdiv_ge [OF assms(2)])
  ultimately show ?thesis by (simp add: window_skipped [OF assms(1)] algebra_simps)
qed

text \<open>What follows the window search: trimming and the EAGLE drop.\<close>

definition window_finish where
  "window_finish bs al drop_eagle r =
     (case r of (found, n, res) \<Rightarrow>
        rbind (if found then Inr res else trim_aligned bs al (map (take n) res)) (\<lambda>computed.
        drop_last drop_eagle computed (trim_aligned bs al)))"

lemma window_finish_found:
  assumes m: "is_window m w" "0 < bs" and gs: "0 < n_groups"
    and rows: "hit_rows H null n_groups (k - n) res k" "n \<le> k" "0 < n"
    and need: "contiguous_blocks_for_hit w bs drop_eagle \<le> int n" and good: "window_good bs al drop_eagle k"
  shows "\<exists>res' k'. window_finish bs al drop_eagle (True, n, res) = Inr res' \<and> serves m bs H null n_groups res' k' \<and>
    k' \<le> k \<and> int k' * bs mod al = 0 \<and> (if drop_eagle then k' = 0 \<or> k' < k else k' = k)"
proof (cases drop_eagle)
  case False
  have "serves m bs H null n_groups res k"
    using need rows(2) False by (intro servesI [OF rows(1)] window_outside [OF m])
      (simp add: contiguous_blocks_for_hit_def)
  moreover have "int k * bs mod al = 0" using good False by (auto simp: window_good_def)
  ultimately show ?thesis using False by (auto simp: window_finish_def drop_last_def)
next
  case True
  obtain j where j: "k = Suc j" using rows(2,3) by (cases k) auto
  have ab: "aligned_below bs al j = j"
    using good True j by (intro aligned_below_same) (auto simp: window_good_def)
  note pop = pop_each_rows [OF rows(1) [unfolded j]]
  from trim_aligned_rows [OF pop(2) gs, of bs al] obtain res' where
    t: "trim_aligned bs al (map (take j) res) = Inr res'" "hit_rows H null n_groups (Suc j - n) res' j"
    unfolding ab by blast
  have "serves m bs H null n_groups res' j"
    using need rows(2) True by (intro servesI [OF t(2)] window_outside [OF m])
      (simp add: contiguous_blocks_for_hit_def)
  moreover have "int j * bs mod al = 0" using aligned_below_mod [of bs al j] ab by simp
  moreover have "window_finish bs al drop_eagle (True, n, res) = Inr res'"
    using True t(1) pop(1) j by (simp add: window_finish_def drop_last_def first_len_rows [OF rows(1) gs])
  ultimately show ?thesis using True j by (intro exI [of _ res'] exI [of _ j]) simp
qed

lemma window_finish_front:
  assumes gs: "0 < n_groups" and rows: "hit_rows H null n_groups 0 (map (take n) res) n"
    and good: "0 < n \<longrightarrow> window_good bs al drop_eagle n"
  shows "\<exists>res' k'. window_finish bs al drop_eagle (False, n, res) = Inr res' \<and> serves m bs H null n_groups res' k' \<and>
    k' \<le> n \<and> int k' * bs mod al = 0 \<and> (if drop_eagle then k' = 0 \<or> k' < n else k' = n)"
proof -
  let ?a = "aligned_below bs al n"
  let ?P = "\<lambda>res. \<exists>k'. serves m bs H null n_groups res k' \<and> k' \<le> n \<and> int k' * bs mod al = 0 \<and>
      (if drop_eagle then k' = 0 \<or> k' < n else k' = n)"
  from trim_aligned_rows [OF rows gs, of bs al] obtain res1 where
    t: "trim_aligned bs al (map (take n) res) = Inr res1" "hit_rows H null n_groups 0 res1 ?a" by blast
  have "\<exists>res'. drop_last drop_eagle res1 (trim_aligned bs al) = Inr res' \<and> ?P res'"
  proof (rule drop_last_rows [OF t(2) gs])
    assume "\<not> drop_eagle \<or> ?a = 0"
    have "?a = n" if "\<not> drop_eagle"
      using that good by (cases "n = 0") (auto simp: window_good_def intro: aligned_below_same)
    then have "if drop_eagle then ?a = 0 \<or> ?a < n else ?a = n" using \<open>\<not> drop_eagle \<or> ?a = 0\<close> by simp
    then show "?P res1"
      by (intro exI [of _ ?a] conjI serves_all [OF t(2)] aligned_below_le aligned_below_mod)
  next
    fix res2 assume d: drop_eagle and "hit_rows H null n_groups 0 res2 (?a - 1)"
    from trim_aligned_rows [OF this(2) gs, of bs al] obtain res3 where
      r: "trim_aligned bs al res2 = Inr res3" "hit_rows H null n_groups 0 res3 (aligned_below bs al (?a - 1))"
      by blast
    let ?k = "aligned_below bs al (?a - 1)"
    have "?k \<le> n \<and> (?k = 0 \<or> ?k < n)"
      using aligned_below_le [of bs al "?a - 1"] aligned_below_le [of bs al n] by linarith
    then have P3: "?P res3" using d
      by (intro exI [of _ ?k] conjI serves_all [OF r(2)] aligned_below_mod) simp_all
    show "\<exists>res'. trim_aligned bs al res2 = Inr res' \<and> ?P res'" by (rule exI, rule conjI [OF r(1) P3])
  qed
  then show ?thesis using t(1) by (auto simp: window_finish_def)
qed

lemma window_search:
  assumes H: "hits_are p hl gs (nat (max_length div bs)) H" and m: "is_window m w" and bs: "0 < bs"
  shows "\<exists>res k. window_find_longest_cache_hit p w bs hl max_length gs drop_eagle al 1 1 = Inr res \<and>
    serves m bs H (bp_null_block p) (length gs) res k \<and> k \<le> nat (max_length div bs) \<and> int k * bs mod al = 0 \<and>
    (drop_eagle \<longrightarrow> k = 0 \<or> k < nat (max_length div bs)) \<and>
    (\<not> drop_eagle \<longrightarrow> 1 < w \<longrightarrow>
      (\<forall>k' \<le> nat (max_length div bs). int k' * bs mod al = 0 \<and> servable m bs (\<lambda>i. H i \<noteq> None) k' \<longrightarrow> k' \<le> k))"
proof -
  let ?N = "nat (max_length div bs)" and ?null = "bp_null_block p" and ?m = "length gs"
  let ?need = "contiguous_blocks_for_hit w bs drop_eagle" and ?good = "window_good bs al drop_eagle"
  have m0: "0 < ?m" using H by (simp add: hits_are_def)
  have "window_state H ?good ?null ?m ?N ?N 0 (replicate ?m (replicate ?N ?null))"
    by (auto simp: window_state_def)
  from window_scan_spec [OF H this, of ?need] obtain r where
    scan: "window_scan p hl gs bs al drop_eagle ?need ?N 0 (replicate ?m (replicate ?N ?null)) = Inr r"
    and out: "window_outcome H ?good ?null ?m ?N ?need ?N r" by auto
  obtain found n res where r: "r = (found, n, res)" by (cases r)
  from out obtain k where k: "k \<le> ?N" and
    res: "if found then n \<le> k \<and> hit_rows H ?null ?m (k - n) res k \<and> ?need \<le> int n \<and> 0 < n \<and> ?good k
         else k = n \<and> window_state H ?good ?null ?m ?N 0 n res \<and> (int n < ?need \<or> n = 0)" and
    best: "1 \<le> ?need \<longrightarrow> (\<forall>k' \<le> ?N. candidate H ?good ?need k' \<longrightarrow> k' \<le> k)"
    unfolding window_outcome_def r prod.case by blast
  have "\<exists>res' k'. window_finish bs al drop_eagle r = Inr res' \<and> serves m bs H ?null ?m res' k' \<and>
      k' \<le> k \<and> int k' * bs mod al = 0 \<and> (if drop_eagle then k' = 0 \<or> k' < k else k' = k)"
  proof (cases found)
    case True
    then show ?thesis
      using res window_finish_found [OF m bs m0, where k = k and n = n and res = res and al = al and H = H]
      unfolding r by simp
  next
    case False
    with res have st: "window_state H ?good ?null ?m ?N 0 n res" and kn: "k = n" by simp_all
    show ?thesis using window_finish_front [OF m0, of H ?null n res bs al drop_eagle m]
        window_state_rows [OF st] st False unfolding r kn by (simp add: window_state_def)
  qed
  then obtain res' k' where fin: "window_finish bs al drop_eagle r = Inr res'" "serves m bs H ?null ?m res' k'"
      "k' \<le> k" "int k' * bs mod al = 0" "if drop_eagle then k' = 0 \<or> k' < k else k' = k" by (elim exE conjE)
  have "j \<le> k'" if "\<not> drop_eagle" "1 < w" "j \<le> ?N" "int j * bs mod al = 0"
      "servable m bs (\<lambda>i. H i \<noteq> None) j" for j
  proof -
    have "0 < cdiv (w - 1) bs" using cdiv_less [OF bs, of 0 "w - 1"] that(2) by simp
    then have "1 \<le> ?need" using that(1) by (simp add: contiguous_blocks_for_hit_def)
    moreover have "candidate H ?good ?need j"
      using that(1,4,5) unfolding window_servable [OF m bs]
      by (simp add: candidate_def window_good_def contiguous_blocks_for_hit_def)
    ultimately show ?thesis using best that(1,3) fin(5) by simp
  qed
  moreover have "window_find_longest_cache_hit p w bs hl max_length gs drop_eagle al 1 1 = Inr res'"
    using fin(1) by (simp add: window_find_longest_cache_hit_def window_finish_def Let_def scan r)
  ultimately show ?thesis using fin(2-5) k by (intro exI [of _ res'] exI [of _ k']) auto
qed

text \<open>The same for the other classes.\<close>

definition longest_servable ::
  "single_manager \<Rightarrow> int \<Rightarrow> int \<Rightarrow> (nat \<Rightarrow> block_ref list option) \<Rightarrow> nat \<Rightarrow> nat \<Rightarrow> bool" where
  "longest_servable m bs al H N k \<longleftrightarrow>
     (\<forall>k' \<le> N. int k' * bs mod al = 0 \<and> servable m bs (\<lambda>i. H i \<noteq> None) k' \<longrightarrow> k' \<le> k)"

definition search_result ::
  "single_manager \<Rightarrow> int \<Rightarrow> int \<Rightarrow> (nat \<Rightarrow> block_ref list option) \<Rightarrow> block_ref \<Rightarrow> nat \<Rightarrow> nat \<Rightarrow> bool \<Rightarrow> bool
     \<Rightarrow> block_ref list list res \<Rightarrow> bool" where
  "search_result m bs al H null n N dropped longest r \<longleftrightarrow>
     (\<exists>res k. r = Inr res \<and> serves m bs H null n res k \<and> k \<le> N \<and> int k * bs mod al = 0 \<and>
       (dropped \<longrightarrow> k = 0 \<or> k < N) \<and>
       (longest \<longrightarrow> longest_servable m bs al H N k))"

lemma search_resultI:
  assumes "r = Inr res" "serves m bs H null n res k" "k \<le> N" "int k * bs mod al = 0"
    and "dropped \<longrightarrow> k = 0 \<or> k < N"
    and "\<And>k'. longest \<Longrightarrow> k' \<le> N \<Longrightarrow> int k' * bs mod al = 0 \<Longrightarrow>
      servable m bs (\<lambda>i. H i \<noteq> None) k' \<Longrightarrow> k' \<le> k"
  shows "search_result m bs al H null n N dropped longest r"
  unfolding search_result_def longest_servable_def
  by (intro exI [of _ res] exI [of _ k] conjI allI assms(1-5)) (intro impI allI, elim conjE, rule assms(6))

lemma full_servable: "is_full_attention (sm_kind m) \<Longrightarrow> 0 < bs \<Longrightarrow> servable m bs h k \<longleftrightarrow> (\<forall>i < k. h i)"
proof -
  assume f: "is_full_attention (sm_kind m)" and bs: "0 < bs"
  have "get_num_skipped_tokens m n = 0" for n
    using f by (cases "sm_kind m") (simp_all add: get_num_skipped_tokens_def num_skipped_tokens_def)
  moreover have "0 < (int i + 1) * bs" for i using bs by (intro mult_pos_pos) simp_all
  ultimately show ?thesis by (simp add: servable_def)
qed

lemma full_search:
  fixes dcp pcp :: int and spec :: kv_cache_spec
  defines "bs \<equiv> if dcp * pcp > 1 then sp_block_size spec * (dcp * pcp) else sp_block_size spec"
  assumes H: "hits_are p hl gs (nat (max_length div bs)) H" and m: "is_full_attention (sm_kind m)"
    and bs: "0 < bs" and len: "0 \<le> max_length" "max_length div bs \<le> hl_len hl"
  shows "search_result m bs al H (bp_null_block p) (length gs) (nat (max_length div bs)) drop_eagle (\<not> drop_eagle)
    (full_find_longest_cache_hit p spec hl max_length gs drop_eagle al dcp pcp)"
proof -
  let ?N = "nat (max_length div bs)" and ?null = "bp_null_block p" and ?m = "length gs"
  have m0: "0 < ?m" using H by (simp add: hits_are_def)
  have N: "0 \<le> max_length div bs" using len(1) bs by (simp add: pos_imp_zdiv_nonneg_iff)
  have pos: "[0..min (max_length div bs) (hl_len hl) - 1] = map int [0..<?N]"
    using upto_int [of 0 ?N] N len(2) by (simp add: min_def)
  have "hit_rows H ?null ?m 0 (replicate ?m []) 0" by (simp add: hit_rows_def)
  from scan_hits_rows [OF H order.refl _ this] obtain res j where
    scan: "scan_hits p hl gs (map int [0..<?N]) (replicate ?m []) = Inr res"
    and rows: "hit_rows H ?null ?m 0 res j" and j: "j \<le> ?N" "j < ?N \<longrightarrow> H j = None" by auto
  let ?P = "\<lambda>res. \<exists>i. hit_rows H ?null ?m 0 res i \<and> i \<le> j \<and> (if drop_eagle then i = 0 \<or> i < j else i = j)"
  have "\<exists>res'. drop_last drop_eagle res Inr = Inr res' \<and> ?P res'"
    by (rule drop_last_rows [OF rows m0]) (use rows in auto)
  then obtain res1 i where d: "drop_last drop_eagle res Inr = Inr res1"
      "hit_rows H ?null ?m 0 res1 i" "i \<le> j" "if drop_eagle then i = 0 \<or> i < j else i = j" by blast
  from trim_aligned_rows [OF d(2) m0, of bs al] obtain res2 where
    t: "trim_aligned bs al res1 = Inr res2" "hit_rows H ?null ?m 0 res2 (aligned_below bs al i)" by blast
  show ?thesis
  proof (rule search_resultI [OF _ serves_all [OF t(2)] _ aligned_below_mod])
    show "full_find_longest_cache_hit p spec hl max_length gs drop_eagle al dcp pcp = Inr res2"
      using N by (simp add: full_find_longest_cache_hit_def Let_def bs_def [symmetric] pos scan d(1) t(1))
    show "aligned_below bs al i \<le> ?N" using aligned_below_le [of bs al i] d(3) j(1) by linarith
    show "drop_eagle \<longrightarrow> aligned_below bs al i = 0 \<or> aligned_below bs al i < ?N"
      using aligned_below_le [of bs al i] d(4) j(1) by auto
    fix k' assume k': "\<not> drop_eagle" "k' \<le> ?N" "int k' * bs mod al = 0" "servable m bs (\<lambda>i. H i \<noteq> None) k'"
    then have "k' \<le> j" using j(2) unfolding full_servable [OF m bs] by (meson le_less_linear less_le_trans)
    then show "k' \<le> aligned_below bs al i" using aligned_below_greatest [OF _ k'(3)] d(4) k'(1) by simp
  qed
qed

lemma chunk_start:
  fixes c bs max_length k :: int
  assumes c: "0 < c" "c mod bs = 0" and bs: "0 < bs" and len: "0 \<le> max_length"
  shows "max_length div c * c div bs * bs = max_length div c * c"
    and "max_length div c * c div bs \<le> max_length div bs" and "0 \<le> max_length div c * c div bs"
    and "max_length div c * c div bs \<le> k \<Longrightarrow> k \<le> max_length div bs \<Longrightarrow>
      k * bs div c * c = max_length div c * c div bs * bs"
proof -
  let ?s = "max_length div c * c div bs"
  have "bs dvd max_length div c * c" using c(2) by (meson dvd_trans dvd_triv_right mod_0_imp_dvd)
  then show s: "?s * bs = max_length div c * c" by (rule dvd_div_mult_self)
  have "max_length div c * c \<le> max_length"
    using div_mult_mod_eq [of max_length c] pos_mod_sign [OF c(1), of max_length] by linarith
  then show "?s \<le> max_length div bs" using bs by (rule zdiv_mono1)
  have "0 \<le> max_length div c * c" using len c(1) by (simp add: pos_imp_zdiv_nonneg_iff)
  then show "0 \<le> ?s" using bs by (simp add: pos_imp_zdiv_nonneg_iff)
  assume k: "?s \<le> k" "k \<le> max_length div bs"
  have "k * bs \<le> max_length div bs * bs" using k(2) bs by (intro mult_right_mono) simp_all
  also have "\<dots> \<le> max_length"
    using div_mult_mod_eq [of max_length bs] pos_mod_sign [OF bs, of max_length] by linarith
  finally have "k * bs div c \<le> max_length div c" using c(1) by (rule zdiv_mono1)
  moreover have "max_length div c * c \<le> k * bs"
    using mult_right_mono [OF k(1), of bs] bs s by simp
  then have "max_length div c * c div c \<le> k * bs div c" using c(1) by (rule zdiv_mono1)
  ultimately show "k * bs div c * c = ?s * bs" using c(1) s by simp
qed

lemma chunked_search:
  assumes H: "hits_are p hl gs (nat (max_length div bs)) H"
    and m: "sm_kind m = ChunkedLocalAttentionSpec c" and c: "0 < c" "c mod bs = 0" and bs: "0 < bs"
    and len: "0 \<le> max_length"
  shows "search_result m bs bs H (bp_null_block p) (length gs) (nat (max_length div bs)) False True
    (chunked_find_longest_cache_hit p c bs hl max_length gs False bs 1 1)"
proof -
  let ?N = "nat (max_length div bs)" and ?null = "bp_null_block p" and ?m = "length gs"
  let ?s = "max_length div c * c div bs"
  note cs = chunk_start [OF c bs len]
  have sk: "get_num_skipped_tokens m (int k * bs) = ?s * bs" if "nat ?s \<le> k" "k \<le> ?N" for k
  proof -
    have "0 \<le> max_length div bs" using len bs by (simp add: pos_imp_zdiv_nonneg_iff)
    then show ?thesis using cs(4) [of "int k"] that m by (simp add: get_num_skipped_tokens_def num_skipped_tokens_def le_nat_iff nat_le_iff)
  qed
  have idx: "(if max_length > 0 then max_length div c * c else 0) = max_length div c * c"
    using len by auto
  have "hit_rows H ?null ?m (nat ?s) (replicate ?m (replicate (nat ?s) ?null)) (nat ?s)"
    by (rule hit_rowsI) simp_all
  moreover have sN: "nat ?s \<le> ?N" using cs(2) by (rule nat_mono)
  ultimately obtain res k where
    scan: "scan_hits p hl gs (map int [nat ?s..<?N]) (replicate ?m (replicate (nat ?s) ?null)) = Inr res"
    and rows: "hit_rows H ?null ?m (nat ?s) res k" and k: "nat ?s \<le> k" "k \<le> ?N"
      "\<forall>i. nat ?s \<le> i \<and> i < k \<longrightarrow> H i \<noteq> None" "k < ?N \<longrightarrow> H k = None"
    using scan_hits_rows [OF H order.refl] by metis
  have pos: "[?s..max_length div bs - 1] = map int [nat ?s..<?N]"
    using upto_int [of "nat ?s" ?N] cs(2,3) by simp
  show ?thesis
  proof (rule search_resultI)
    show "chunked_find_longest_cache_hit p c bs hl max_length gs False bs 1 1 = Inr res"
      by (simp add: chunked_find_longest_cache_hit_def Let_def idx pos scan del: upto.simps)
    show "serves m bs H ?null ?m res k"
    proof (rule servesI [OF rows])
      fix i assume "i < nat ?s"
      then have "int i + 1 \<le> ?s" by linarith
      then show "(int i + 1) * bs \<le> get_num_skipped_tokens m (int k * bs)"
        unfolding sk [OF k(1,2)] using bs by (intro mult_right_mono) simp_all
    qed
    fix k' assume k': "k' \<le> ?N" "servable m bs (\<lambda>i. H i \<noteq> None) k'"
    show "k' \<le> k"
    proof (rule ccontr)
      assume gt: "\<not> k' \<le> k"
      have "?s \<le> int k" using k(1) by linarith
      then have "?s * bs < (int k + 1) * bs" using bs by (simp add: mult_less_cancel_right_pos)
      then have "H k \<noteq> None" using k' gt k(1) sk [of k'] by (simp add: servable_def)
      then show False using k(4) gt k'(1) by simp
    qed
  qed (use k(2) in simp_all)
qed

lemma mamba_search:
  assumes H: "hits_are p hl gs (nat (max_length div bs)) H"
    and m: "sm_kind m = MambaSpec mode spec_blocks" and bs: "0 < bs"
  shows "search_result m bs al H (bp_null_block p) (length gs) (nat (max_length div bs)) False True
    (mamba_find_longest_cache_hit p bs hl max_length gs drop_eagle al 1 1)"
proof -
  let ?N = "nat (max_length div bs)" and ?null = "bp_null_block p" and ?m = "length gs"
  have sk: "get_num_skipped_tokens m n = n - 1" for n using m by (simp add: get_num_skipped_tokens_def num_skipped_tokens_def)
  from state_scan_rows [OF H order.refl, of bs al] obtain res k where
    scan: "state_scan p hl gs bs al ?N (replicate ?m []) = Inr res"
    and rows: "hit_rows H ?null ?m (k - 1) res k" and k: "k \<le> ?N" "int k * bs mod al = 0"
      "\<forall>k' \<le> ?N. 0 < k' \<and> int k' * bs mod al = 0 \<and> H (k' - 1) \<noteq> None \<longrightarrow> k' \<le> k" by (elim exE conjE)
  show ?thesis
  proof (rule search_resultI [OF _ _ k(1,2) impI])
    show "mamba_find_longest_cache_hit p bs hl max_length gs drop_eagle al 1 1 = Inr res"
      by (simp add: mamba_find_longest_cache_hit_def scan)
    show "serves m bs H ?null ?m res k"
    proof (rule servesI [OF rows])
      fix i assume "i < k - 1"
      then have "int i + 1 \<le> int k - 1" by linarith
      then have "(int i + 1) * bs \<le> (int k - 1) * bs" using bs by (intro mult_right_mono) simp_all
      then show "(int i + 1) * bs \<le> get_num_skipped_tokens m (int k * bs)"
        using bs by (simp add: sk algebra_simps)
    qed
    fix k' assume k': "k' \<le> ?N" "int k' * bs mod al = 0" "servable m bs (\<lambda>i. H i \<noteq> None) k'"
    show "k' \<le> k"
    proof (cases k')
      case (Suc j)
      have "int (Suc j) * bs - 1 < (int j + 1) * bs" by (simp add: algebra_simps)
      then have "H j \<noteq> None" using k'(3) by (simp add: servable_def sk Suc del: of_nat_Suc)
      then show ?thesis using k(3) k'(1,2) Suc by simp
    qed simp
  qed simp
qed

section \<open>Lookups in a pool that a history produced\<close>

definition group_ids_ok :: "int list \<Rightarrow> bool" where
  "group_ids_ok gs \<longleftrightarrow> gs \<noteq> [] \<and> (\<forall>g \<in> set gs. 0 \<le> g \<and> g < 2 ^ 32)"

fun hl_valid :: "hash_list \<Rightarrow> bool" where
  "hl_valid (Plain hs) \<longleftrightarrow> True"
| "hl_valid (Scaled l) \<longleftrightarrow> 0 < bl_scale_factor l"

lemma hl_at_valid:
  assumes "hl_valid hl" "0 \<le> i" "i < hl_len hl" shows "\<exists>h. hl_at hl i = Inr h"
proof (cases hl)
  case (Plain hs)
  then show ?thesis using assms by (auto simp: list_index_def)
next
  case (Scaled l)
  let ?L = "int (length (bl_block_hashes l))" and ?k = "bl_scale_factor l"
  have k: "0 < ?k" using assms(1) Scaled by simp
  have "i + 1 \<le> ?L div ?k" using assms(3) Scaled by (simp add: bl_len_def)
  then have "(i + 1) * ?k \<le> ?L div ?k * ?k" using k by (intro mult_right_mono) simp_all
  also have "\<dots> \<le> ?L" using div_mult_mod_eq [of ?L ?k] pos_mod_sign [OF k, of ?L] by linarith
  finally have "(i + 1) * ?k \<le> ?L" .
  moreover have "0 < (i + 1) * ?k" using k assms(2) by (intro mult_pos_pos) simp_all
  ultimately show ?thesis using Scaled by (simp add: get_value_at_def list_index_def)
qed

lemma get_cached_block_total:
  assumes "hash_ok p" "\<forall>g \<in> set gs. 0 \<le> g \<and> g < 2 ^ 32"
  shows "\<exists>found. get_cached_block p h gs = Inr found"
  using assms(2)
proof (induction gs)
  case (Cons g gs)
  have mo: "map_ok (ids (blk p)) (good_blocks p) (bp_cached_block_hash_to_block p)"
    using assms(1) by (simp add: hash_ok_def)
  obtain key where key: "make_block_hash_with_group_id h g = Inr key"
    using Cons.prems by (simp add: make_block_hash_with_group_id_def to_bytes_4_def)
  obtain found where f: "get_one_block (bp_cached_block_hash_to_block p) key = Inr found"
    using get_one_block_spec [OF mo] by blast
  from Cons obtain rest where "get_cached_block p h gs = Inr rest" by auto
  then show ?case using key f by (cases found) simp_all
qed simp

text \<open>\<open>b\<close> is cached under the hash \<open>h\<close> in group \<open>g\<close>.\<close>

definition cached_as :: "block_pool \<Rightarrow> bytes \<Rightarrow> int \<Rightarrow> block_ref \<Rightarrow> bool" where
  "cached_as p h g b \<longleftrightarrow> b \<in> good_blocks p \<and>
     (\<exists>key. make_block_hash_with_group_id h g = Inr key \<and> key \<in> block_keys p b)"

lemma lookup_at_cached:
  assumes "hash_ok p" "pool_wf p" "lookup_at p hl gs i = Inr (Some bs)"
  shows "length bs = length gs \<and> (\<exists>h. hl_at hl i = Inr h \<and> (\<forall>j < length gs. cached_as p h (gs ! j) (bs ! j)))"
proof -
  from assms(3) obtain h where h: "hl_at hl i = Inr h" "get_cached_block p h gs = Inr (Some bs)"
    by (auto simp: lookup_at_def rbind_eq_Inr split: if_splits)
  have "list_all2 (cached_as p h) gs bs"
    using get_cached_block_spec [OF assms(1,2) h(2)] by (simp add: cached_as_def [abs_def])
  then show ?thesis using h(1) by (auto simp: list_all2_conv_all_nth)
qed

lemma hits_exist:
  assumes "hash_ok p" "pool_wf p" "group_ids_ok gs" "hl_valid hl" "int n \<le> hl_len hl"
  shows "\<exists>H. hits_are p hl gs n H"
proof -
  define H where "H i = (case lookup_at p hl gs (int i) of Inr c \<Rightarrow> c | Inl e \<Rightarrow> None)" for i
  have "lookup_at p hl gs (int i) = Inr (H i) \<and> (\<forall>bs. H i = Some bs \<longrightarrow> length bs = length gs)" if "i < n" for i
  proof -
    have "int i < hl_len hl" using assms(5) that by linarith
    then obtain h where h: "hl_at hl (int i) = Inr h" using hl_at_valid [OF assms(4), of "int i"] by auto
    obtain f where "get_cached_block p h gs = Inr f"
      using get_cached_block_total [OF assms(1), of gs h] assms(3) unfolding group_ids_ok_def by blast
    then obtain c where c: "lookup_at p hl gs (int i) = Inr c" by (auto simp: lookup_at_def h)
    then have "H i = c" by (simp add: H_def)
    then show ?thesis using c lookup_at_cached [OF assms(1,2), of hl gs "int i"] by auto
  qed
  then show ?thesis using assms(3) by (auto simp: hits_are_def group_ids_ok_def)
qed

text \<open>Specifications with the sizes the code expects; for chunked attention also a chunk size
  that is a multiple of the block size.\<close>

definition spec_ok :: "kv_cache_spec \<Rightarrow> bool" where
  "spec_ok spec \<longleftrightarrow> 0 < sp_block_size spec \<and>
     (case sp_kind spec of
        SlidingWindowSpec w \<Rightarrow> 0 < w
      | SlidingWindowMLASpec w \<Rightarrow> 0 < w
      | ChunkedLocalAttentionSpec c \<Rightarrow> 0 < c \<and> c mod sp_block_size spec = 0
      | CrossAttentionSpec \<Rightarrow> False
      | _ \<Rightarrow> True)"

definition chunked_args_ok :: "kv_cache_spec \<Rightarrow> bool \<Rightarrow> int \<Rightarrow> bool" where
  "chunked_args_ok spec drop_eagle_block alignment \<longleftrightarrow>
     (case sp_kind spec of
        ChunkedLocalAttentionSpec c \<Rightarrow> \<not> drop_eagle_block \<and> sp_block_size spec = alignment
      | _ \<Rightarrow> True)"

lemma search_resultE:
  assumes "search_result m bs al H null n N d l r"
  obtains res k where "r = Inr res" "serves m bs H null n res k" "k \<le> N" "int k * bs mod al = 0"
    "d \<longrightarrow> k = 0 \<or> k < N" "l \<longrightarrow> longest_servable m bs al H N k"
proof -
  let ?P = "\<lambda>res k. r = Inr res \<and> serves m bs H null n res k \<and> k \<le> N \<and> int k * bs mod al = 0 \<and>
       (d \<longrightarrow> k = 0 \<or> k < N) \<and> (l \<longrightarrow> longest_servable m bs al H N k)"
  obtain res where "\<exists>k. ?P res k" using assms unfolding search_result_def by (rule exE)
  then obtain k where "?P res k" by (rule exE)
  then show thesis by (elim conjE) (rule that)
qed

lemma search_result_weaken:
  assumes "search_result m bs al H null n N d l r" "d' \<Longrightarrow> d" "l' \<Longrightarrow> l"
  shows "search_result m bs al H null n N d' l' r"
proof -
  from assms(1) obtain res k where r: "r = Inr res" "serves m bs H null n res k" "k \<le> N" "int k * bs mod al = 0"
    and d: "d \<longrightarrow> k = 0 \<or> k < N" and best: "l \<longrightarrow> longest_servable m bs al H N k" by (rule search_resultE)
  have d': "d' \<longrightarrow> k = 0 \<or> k < N" using d assms(2) by simp
  show ?thesis
    by (rule search_resultI [OF r d']) (use best assms(3) in \<open>simp add: longest_servable_def\<close>)
qed

lemma find_search:
  assumes H: "hits_are p hl gs (nat (max_length div sp_block_size spec)) H"
    and spec: "spec_ok spec" "chunked_args_ok spec drop_eagle al" and m: "sm_spec m = spec"
    and len: "0 \<le> max_length" "max_length div sp_block_size spec \<le> hl_len hl"
  shows "search_result m (sp_block_size spec) al H (bp_null_block p) (length gs)
    (nat (max_length div sp_block_size spec)) (drop_eagle \<and> \<not> is_mamba (sp_kind spec))
    (\<not> drop_eagle \<and> sliding_window_of (sp_kind spec) \<noteq> Some 1)
    (find_longest_cache_hit p spec hl max_length gs drop_eagle al 1 1)"
proof -
  let ?bs = "sp_block_size spec"
  have bs: "0 < ?bs" using spec(1) by (simp add: spec_ok_def)
  have window: "search_result m ?bs al H (bp_null_block p) (length gs) (nat (max_length div ?bs)) drop_eagle
      (\<not> drop_eagle \<and> w \<noteq> 1)
      (window_find_longest_cache_hit p w ?bs hl max_length gs drop_eagle al 1 1)"
    if "sliding_window_of (sp_kind spec) = Some w" "0 < w" for w
  proof -
    have "is_window m w" using that(1) m by (simp add: is_window_def)
    from window_search [OF H this bs, of drop_eagle al] obtain res k where
      r: "window_find_longest_cache_hit p w ?bs hl max_length gs drop_eagle al 1 1 = Inr res"
        "serves m ?bs H (bp_null_block p) (length gs) res k" "k \<le> nat (max_length div ?bs)" "int k * ?bs mod al = 0" "drop_eagle \<longrightarrow> k = 0 \<or> k < nat (max_length div ?bs)"
      and best: "\<not> drop_eagle \<longrightarrow> 1 < w \<longrightarrow> (\<forall>k' \<le> nat (max_length div ?bs).
          int k' * ?bs mod al = 0 \<and> servable m ?bs (\<lambda>i. H i \<noteq> None) k' \<longrightarrow> k' \<le> k)" by (elim exE conjE)
    show ?thesis by (rule search_resultI [OF r]) (use best that(2) in auto)
  qed
  note full = full_search [where dcp = 1 and pcp = 1 and spec = spec, simplified, OF H _ bs len, of m al drop_eagle]
  show ?thesis
  proof (cases "sp_kind spec")
    case (ChunkedLocalAttentionSpec c)
    then have c: "sm_kind m = ChunkedLocalAttentionSpec c" "0 < c" "c mod ?bs = 0" "\<not> drop_eagle" "al = ?bs"
      using spec m by (simp_all add: spec_ok_def chunked_args_ok_def)
    show ?thesis using chunked_search [OF H c(1-3) bs len(1)] c(4,5) ChunkedLocalAttentionSpec
      by (simp add: find_longest_cache_hit_def)
  next
    case (MambaSpec mode n)
    then have "sm_kind m = MambaSpec mode n" using m by simp
    from search_result_weaken [OF mamba_search [OF H this bs]] show ?thesis
      by (simp add: find_longest_cache_hit_def MambaSpec)
  next
    case CrossAttentionSpec
    then show ?thesis using spec(1) by (simp add: spec_ok_def)
  qed (use window full m spec(1) in \<open>simp_all add: find_longest_cache_hit_def spec_ok_def\<close>)
qed

lemma div_bound: 
  fixes bs max_length :: int
  assumes a: "0 < bs" "0 \<le> max_length"
  shows "k \<le> nat (max_length div bs) \<longleftrightarrow> int k * bs \<le> max_length"
proof -
  have "int k * bs \<le> max_length \<longleftrightarrow> int k \<le> max_length div bs"
  proof
    assume "int k * bs \<le> max_length"
    then have "int k * bs div bs \<le> max_length div bs" using a(1) by (rule zdiv_mono1)
    then show "int k \<le> max_length div bs" using a(1) by simp
  next
    assume "int k \<le> max_length div bs"
    then have "int k * bs \<le> max_length div bs * bs" using a(1) by (intro mult_right_mono) simp_all
    then show "int k * bs \<le> max_length"
      using div_mult_mod_eq [of max_length bs] pos_mod_sign [OF a(1), of max_length] by linarith
  qed
  then show ?thesis using a by (simp add: le_nat_iff pos_imp_zdiv_nonneg_iff)
qed

text \<open>\<open>covers_window p spec hl gs res k\<close>: \<open>res\<close> has \<open>k\<close> blocks for each group of \<open>gs\<close>; a block is
  cached under the hash of its position, or it is null and before the window of the next token.\<close>

definition covers_window ::
  "block_pool \<Rightarrow> kv_cache_spec \<Rightarrow> hash_list \<Rightarrow> int list \<Rightarrow> block_ref list list \<Rightarrow> nat \<Rightarrow> bool" where
  "covers_window p spec hl gs res k \<longleftrightarrow> length res = length gs \<and>
     (\<forall>g < length gs. length (res ! g) = k \<and>
       (\<forall>i < k. (\<exists>h. hl_at hl (int i) = Inr h \<and> cached_as p h (gs ! g) (res ! g ! i)) \<or>
                res ! g ! i = bp_null_block p \<and>
                (int i + 1) * sp_block_size spec \<le> num_skipped_tokens (sp_kind spec) (int k * sp_block_size spec)))"

lemma find_covers:
  fixes spec al drop_eagle
  defines "bs \<equiv> sp_block_size spec"
  assumes wf: "hash_ok p" "pool_wf p" and gs: "group_ids_ok gs" and hl: "hl_valid hl" "max_length div bs \<le> hl_len hl"
    and spec: "spec_ok spec" "chunked_args_ok spec drop_eagle al" and len: "0 \<le> max_length"
  shows "\<exists>res k. find_longest_cache_hit p spec hl max_length gs drop_eagle al 1 1 = Inr res \<and>
    covers_window p spec hl gs res k \<and> int k * bs \<le> max_length \<and> int k * bs mod al = 0 \<and>
    (drop_eagle \<and> \<not> is_mamba (sp_kind spec) \<longrightarrow> k = 0 \<or> (int k + 1) * bs \<le> max_length)"
proof -
  have bs: "0 < bs" using spec(1) by (simp add: spec_ok_def bs_def)
  let ?N = "nat (max_length div bs)" and ?m = "(undefined :: single_manager)\<lparr>sm_spec := spec\<rparr>"
  have N: "int ?N \<le> hl_len hl" using hl(2) len bs by (simp add: pos_imp_zdiv_nonneg_iff)
  obtain H where H: "hits_are p hl gs ?N H" using hits_exist [OF wf gs hl(1) N] by blast
  have m: "sm_spec ?m = spec" by simp
  from find_search [OF H [unfolded bs_def] spec m len hl(2) [unfolded bs_def]]
  obtain res k where r: "find_longest_cache_hit p spec hl max_length gs drop_eagle al 1 1 = Inr res"
      "serves ?m bs H (bp_null_block p) (length gs) res k" "k \<le> ?N" "int k * bs mod al = 0"
      "drop_eagle \<and> \<not> is_mamba (sp_kind spec) \<longrightarrow> k = 0 \<or> k < ?N"
    unfolding bs_def [symmetric] by (rule search_resultE)
  have hit: "\<exists>h. hl_at hl (int i) = Inr h \<and> cached_as p h (gs ! g) (b ! g)"
    if "H i = Some b" "i < k" "g < length gs" for i b g
  proof -
    have "lookup_at p hl gs (int i) = Inr (Some b)" using hits_areD(1) [OF H, of i] that(1,2) r(3) by simp
    then show ?thesis using lookup_at_cached [OF wf] that(3) by blast
  qed
  have "covers_window p spec hl gs res k"
    unfolding covers_window_def
  proof (intro conjI allI impI)
    fix g i assume g: "g < length gs" and i: "i < k"
    from r(2) g i have "(\<exists>b. H i = Some b \<and> res ! g ! i = b ! g) \<or>
        res ! g ! i = bp_null_block p \<and> (int i + 1) * bs \<le> get_num_skipped_tokens ?m (int k * bs)"
      unfolding serves_def by blast
    then show "(\<exists>h. hl_at hl (int i) = Inr h \<and> cached_as p h (gs ! g) (res ! g ! i)) \<or>
        res ! g ! i = bp_null_block p \<and>
        (int i + 1) * sp_block_size spec \<le> num_skipped_tokens (sp_kind spec) (int k * sp_block_size spec)"
      using hit [OF _ i g] by (auto simp: get_num_skipped_tokens_def bs_def)
  qed (use r(2) in \<open>auto simp: serves_def\<close>)
  moreover have "int k * bs \<le> max_length" using r(3) div_bound [OF bs len] by simp
  moreover have "k = 0 \<or> (int k + 1) * bs \<le> max_length" if "drop_eagle \<and> \<not> is_mamba (sp_kind spec)"
    using r(5) that div_bound [OF bs len, of "Suc k"] by (auto simp: add.commute)
  ultimately show ?thesis using r(1,4) by (intro exI [of _ res] exI [of _ k]) simp
qed



section \<open>Where the search is not the longest, or not sound\<close>

definition demo_manager :: "kv_cache_spec \<Rightarrow> int \<Rightarrow> single_manager" where
  "demo_manager spec alignment =
     \<lparr>sm_spec = spec, sm_block_size = sp_block_size spec, sm_scheduler_block_size = alignment,
      sm_enable_caching = True, sm_group_id = 0, sm_max_admission = None, sm_new_block_ids = [],
      sm_req_to_blocks = [], sm_num_cached_block = [], sm_null_block = Blk 0, sm_use_eagle = False,
      sm_cached_blocks_this_step = [], sm_last_state_block_idx = [], sm_allocated_block_reqs = []\<rparr>"

definition demo_spec :: "spec_kind \<Rightarrow> int \<Rightarrow> kv_cache_spec" where
  "demo_spec kind block_size = \<lparr>sp_kind = kind, sp_block_size = block_size, sp_layout = 0\<rparr>"

text \<open>A pool in which the five one-token blocks of a request are cached.\<close>

definition five_tokens :: request where
  "five_tokens = demo_request [1, 2, 3, 4, 5] [] [[1], [2], [3], [4], [5]]"

definition five_cached :: "block_pool res" where
  "five_cached =
     rbind (new_block_pool 8 True 1 False False False) (\<lambda>p0.
     rbind (get_new_blocks 5 p0) (\<lambda>(bs, p1).
     cache_full_blocks demo_env five_tokens bs 0 5 1 0 None p1))"

text \<open>A window search with the EAGLE drop that finds a run shorter than the window, from
  the first block on, trims to the alignment before it drops the lookahead block, and so gives up
  a whole aligned segment: five cached blocks at alignment four serve four blocks, but the
  lookup returns none.\<close>

lemma eagle_drop_after_trim_loses_a_segment:
  "rbind five_cached (\<lambda>p. find_longest_cache_hit p (demo_spec (SlidingWindowSpec 100) 1)
       (Plain (rq_block_hashes five_tokens)) 5 [0] True 4 1 1) = Inr [[]] \<and>
   rbind five_cached (\<lambda>p. find_longest_cache_hit p (demo_spec FullAttentionSpec 1)
       (Plain (rq_block_hashes five_tokens)) 5 [0] True 4 1 1) = Inr [[Blk 1, Blk 2, Blk 3, Blk 4]]"
  by code_simp

text \<open>When the chunk size is not a multiple of the block size, a chunked-attention
  lookup returns a null block for tokens the next token attends to: with blocks of two tokens and
  chunks of three, the lookup of four tokens in an empty pool returns one null block, although
  the next token, token 2, is in the chunk of tokens 0 and 1 and attends to them.\<close>

lemma chunk_across_blocks_hits_nothing:
  "rbind (new_block_pool 4 True 2 False False False) (\<lambda>p.
     find_longest_cache_hit p (demo_spec (ChunkedLocalAttentionSpec 3) 2)
       (Plain (rq_block_hashes demo_prefix)) 4 [0] False 2 1 1) = Inr [[Blk 0]] \<and>
   get_num_skipped_tokens (demo_manager (demo_spec (ChunkedLocalAttentionSpec 3) 2) 2) 2 = 0"
  by code_simp

section \<open>Witnesses\<close>

definition demo_hits :: "hash_list" where
  "demo_hits = Plain (rq_block_hashes demo_prefix)"

definition demo_window :: kv_cache_spec where
  "demo_window = demo_spec (SlidingWindowSpec 2) 2"

lemma demo_lookup:
  "case demo_run of Inl _ \<Rightarrow> False
   | Inr (p0, p1, p2) \<Rightarrow>
       find_longest_cache_hit p2 demo_window demo_hits 4 [0] False 2 1 1 = Inr [[Blk 0, Blk 2]] \<and>
       lookup_at p2 demo_hits [0] 1 = Inr (Some [Blk 2]) \<and> bp_null_block p2 = Blk 0"
  by code_simp

lemma demo_side:
  "group_ids_ok [0]" "hl_valid demo_hits" "sm_spec (demo_manager demo_window 2) = demo_window"
  "spec_ok demo_window" "chunked_args_ok demo_window d 2" "sp_block_size demo_window = 2" "hl_len demo_hits = 2"
  "sliding_window_of (sp_kind demo_window) = Some 2"
  "get_num_skipped_tokens (demo_manager demo_window 2) 4 = 3"
  by (simp_all add: group_ids_ok_def demo_hits_def demo_manager_def demo_window_def demo_spec_def spec_ok_def
      chunked_args_ok_def get_num_skipped_tokens_def num_skipped_tokens_def demo_prefix_def demo_request_def)



end
