(* ===== verification/Coordinator.thy ===== *)
theory Coordinator
  imports CacheHit
begin

text \<open>
  The coordinators of \<^verbatim>\<open>vllm/v1/core/kv_cache_coordinator.py\<close>: one pool shared by the managers of
  all cache groups.  The three classes are one record with their class; a method that a subclass
  overrides branches on it.  \<open>attention_groups\<close> is used by the hybrid class only.

  The loop of the hybrid lookup may be given any specification, so it is a partial function:
  \<open>None\<close> is a lookup that does not return.
\<close>

record kv_cache_group =
  kg_spec :: kv_cache_spec
  kg_is_eagle_group :: bool

record kv_cache_config =
  cf_num_blocks :: int
  cf_kv_cache_groups :: "kv_cache_group list"

datatype coordinator_class =
    KVCacheCoordinatorNoPrefixCache
  | UnitaryKVCacheCoordinator
  | HybridKVCacheCoordinator

record spec_group =
  sg_spec :: kv_cache_spec
  sg_group_ids :: "nat list"
  sg_use_eagle :: bool

record coordinator =
  co_class :: coordinator_class
  co_config :: kv_cache_config
  co_max_model_len :: int
  co_enable_caching :: bool
  co_scheduler_block_size :: int
  co_pool :: block_pool
  co_eagle_group_ids :: "nat list"
  co_managers :: "single_manager list"
  co_retention_interval :: "int option"
  co_hash_block_size :: int
  co_dcp_world_size :: int
  co_pcp_world_size :: int
  co_attention_groups :: "spec_group list"
  co_num_uncached_common_prefix_tokens :: int

section \<open>Construction\<close>

definition validate_retention_interval ::
  "int option \<Rightarrow> int \<Rightarrow> kv_cache_config \<Rightarrow> unit res" where
  "validate_retention_interval retention_interval scheduler_block_size kv_cache_config =
     (case retention_interval of
        None \<Rightarrow> Inr ()
      | Some r \<Rightarrow>
          rbind (check (\<exists>g \<in> set (cf_kv_cache_groups kv_cache_config).
                   sliding_window_of (sp_kind (kg_spec g)) \<noteq> None \<or> is_mamba (sp_kind (kg_spec g)))
                 ValueError) (\<lambda>_.
          check (\<not> (r < 0 \<or> r mod scheduler_block_size \<noteq> 0)) ValueError))"

definition eagle_groups :: "bool \<Rightarrow> kv_cache_group list \<Rightarrow> nat list" where
  "eagle_groups use_eagle groups =
     (let flagged = [i. (i, g) \<leftarrow> enumerate 0 groups, kg_is_eagle_group g]
      in if use_eagle \<and> flagged = [] then [0..<length groups] else flagged)"

definition new_base_coordinator ::
  "coordinator_class \<Rightarrow> kv_cache_config \<Rightarrow> int \<Rightarrow> int \<Rightarrow> bool \<Rightarrow> bool \<Rightarrow> bool \<Rightarrow> int \<Rightarrow> int \<Rightarrow> int \<Rightarrow> int
     \<Rightarrow> bool \<Rightarrow> bool \<Rightarrow> int option \<Rightarrow> coordinator res" where
  "new_base_coordinator cls config max_model_len max_num_batched_tokens use_eagle enable_caching
       enable_kv_cache_events dcp_world_size pcp_world_size scheduler_block_size hash_block_size
       use_int_block_hashes with_metrics retention_interval =
     (let groups = cf_kv_cache_groups config in
      rbind (check (hash_block_size \<noteq> 0) ZeroDivisionError) (\<lambda>_.
      rbind (check (scheduler_block_size mod hash_block_size = 0 \<and>
               (\<forall>g \<in> set groups. scheduler_block_size mod sp_block_size (kg_spec g) = 0)) AssertionError) (\<lambda>_.
      rbind (new_block_pool (cf_num_blocks config) enable_caching hash_block_size enable_kv_cache_events
               use_int_block_hashes with_metrics) (\<lambda>p.
      rbind (rmap (\<lambda>(i, g). get_manager_for_kv_cache_spec (kg_spec g) max_num_batched_tokens max_model_len p
                     enable_caching (int i) dcp_world_size pcp_world_size scheduler_block_size)
               (enumerate 0 groups)) (\<lambda>managers.
      rbind (validate_retention_interval retention_interval scheduler_block_size config) (\<lambda>_.
      Inr \<lparr>co_class = cls, co_config = config, co_max_model_len = max_model_len,
           co_enable_caching = enable_caching, co_scheduler_block_size = scheduler_block_size,
           co_pool = p, co_eagle_group_ids = eagle_groups use_eagle groups, co_managers = managers,
           co_retention_interval = retention_interval, co_hash_block_size = hash_block_size,
           co_dcp_world_size = dcp_world_size, co_pcp_world_size = pcp_world_size,
           co_attention_groups = [], co_num_uncached_common_prefix_tokens = 0\<rparr>))))))"

text \<open>The block size of the only group of a unitary coordinator.\<close>

definition unitary_block_size :: "coordinator \<Rightarrow> int" where
  "unitary_block_size co =
     sp_block_size (kg_spec (cf_kv_cache_groups (co_config co) ! 0)) *
       (if co_dcp_world_size co > 1 then co_dcp_world_size co else 1) *
       (if co_pcp_world_size co > 1 then co_pcp_world_size co else 1)"

definition finish_unitary :: "coordinator \<Rightarrow> coordinator res" where
  "finish_unitary co =
     (if cf_kv_cache_groups (co_config co) = [] then Inl IndexError
      else
        rbind (check (\<not> co_enable_caching co \<or> co_hash_block_size co = unitary_block_size co)
                 AssertionError) (\<lambda>_.
        rbind (check (length (cf_kv_cache_groups (co_config co)) = 1) AssertionError) (\<lambda>_.
        Inr (co\<lparr>co_managers :=
                  (co_managers co)[0 := (co_managers co ! 0)
                     \<lparr>sm_use_eagle := 0 \<in> set (co_eagle_group_ids co)\<rparr>]\<rparr>))))"

text \<open>\<open>verify_and_split_kv_cache_groups\<close>: groups with equal specifications are looked up
  together; the manager class is a function of the specification.\<close>

fun join_spec_group :: "nat \<Rightarrow> kv_cache_spec \<Rightarrow> bool \<Rightarrow> spec_group list \<Rightarrow> spec_group list" where
  "join_spec_group i spec use_eagle [] =
     [\<lparr>sg_spec = spec, sg_group_ids = [i], sg_use_eagle = use_eagle\<rparr>]"
| "join_spec_group i spec use_eagle (g # gs) =
     (if sg_spec g = spec
      then g\<lparr>sg_group_ids := sg_group_ids g @ [i],
             sg_use_eagle := use_eagle \<or> sg_use_eagle g\<rparr> # gs
      else g # join_spec_group i spec use_eagle gs)"

definition split_kv_cache_groups :: "coordinator \<Rightarrow> spec_group list" where
  "split_kv_cache_groups co =
     (let groups = fold (\<lambda>(i, g). join_spec_group i (kg_spec g) (i \<in> set (co_eagle_group_ids co)))
                        (enumerate 0 (cf_kv_cache_groups (co_config co))) []
      in filter (\<lambda>g. is_full_attention (sp_kind (sg_spec g))) groups @
         filter (\<lambda>g. \<not> is_full_attention (sp_kind (sg_spec g))) groups)"

definition flag_managers :: "spec_group list \<Rightarrow> single_manager list \<Rightarrow> single_manager list" where
  "flag_managers groups managers =
     fold (\<lambda>g ms. if sg_use_eagle g
                  then fold (\<lambda>gid ms. ms[gid := (ms ! gid)\<lparr>sm_use_eagle := True\<rparr>]) (sg_group_ids g) ms
                  else ms) groups managers"

definition finish_hybrid :: "coordinator \<Rightarrow> coordinator res" where
  "finish_hybrid co =
     rbind (check (\<forall>g \<in> set (cf_kv_cache_groups (co_config co)).
              sp_block_size (kg_spec g) mod co_hash_block_size co = 0) AssertionError) (\<lambda>_.
     rbind (check (co_dcp_world_size co = 1) AssertionError) (\<lambda>_.
     rbind (check (co_pcp_world_size co = 1) AssertionError) (\<lambda>_.
     let groups = split_kv_cache_groups co in
     rbind (check (length groups > 1) AssertionError) (\<lambda>_.
     Inr (co\<lparr>co_attention_groups := groups, co_managers := flag_managers groups (co_managers co)\<rparr>)))))"

definition get_kv_cache_coordinator ::
  "kv_cache_config \<Rightarrow> int \<Rightarrow> int \<Rightarrow> bool \<Rightarrow> bool \<Rightarrow> bool \<Rightarrow> int \<Rightarrow> int \<Rightarrow> int \<Rightarrow> int
     \<Rightarrow> bool \<Rightarrow> bool \<Rightarrow> int option \<Rightarrow> coordinator res" where
  "get_kv_cache_coordinator config max_model_len max_num_batched_tokens use_eagle enable_caching
       enable_kv_cache_events dcp_world_size pcp_world_size scheduler_block_size hash_block_size
       use_int_block_hashes with_metrics retention_interval =
     (let make = (\<lambda>cls. new_base_coordinator cls config max_model_len max_num_batched_tokens use_eagle
                    (enable_caching \<and> cls \<noteq> KVCacheCoordinatorNoPrefixCache) enable_kv_cache_events
                    dcp_world_size pcp_world_size scheduler_block_size hash_block_size
                    use_int_block_hashes with_metrics retention_interval)
      in if \<not> enable_caching then make KVCacheCoordinatorNoPrefixCache
         else if length (cf_kv_cache_groups config) = 1
         then rbind (make UnitaryKVCacheCoordinator) finish_unitary
         else rbind (make HybridKVCacheCoordinator) finish_hybrid)"

section \<open>Loops over the managers\<close>

text \<open>The managers act one after another on the shared pool; the results are collected.\<close>

fun manager_loop ::
  "(nat \<Rightarrow> block_pool \<times> single_manager \<Rightarrow> ('r \<times> block_pool \<times> single_manager) res) \<Rightarrow> nat
     \<Rightarrow> block_pool \<Rightarrow> single_manager list \<Rightarrow> ('r list \<times> block_pool \<times> single_manager list) res" where
  "manager_loop f i p [] = Inr ([], p, [])"
| "manager_loop f i p (m # ms) =
     rbind (f i (p, m)) (\<lambda>(r, p1, m1).
     rbind (manager_loop f (Suc i) p1 ms) (\<lambda>(rs, p2, ms').
     Inr (r # rs, p2, m1 # ms')))"

definition each_manager ::
  "(nat \<Rightarrow> block_pool \<times> single_manager \<Rightarrow> ('r \<times> block_pool \<times> single_manager) res) \<Rightarrow> coordinator
     \<Rightarrow> ('r list \<times> coordinator) res" where
  "each_manager f co =
     rbind (manager_loop f 0 (co_pool co) (co_managers co)) (\<lambda>(rs, p, ms).
     Inr (rs, co\<lparr>co_pool := p, co_managers := ms\<rparr>))"

definition each_manager_do ::
  "(nat \<Rightarrow> block_pool \<times> single_manager \<Rightarrow> (block_pool \<times> single_manager) res) \<Rightarrow> coordinator \<Rightarrow> coordinator res"
where
  "each_manager_do f co =
     rbind (each_manager (\<lambda>i st. rbind (f i st) (\<lambda>st'. Inr ((), st'))) co) (\<lambda>(_, co'). Inr co')"

section \<open>Allocation\<close>

definition coordinator_num_blocks_to_allocate ::
  "string \<Rightarrow> int \<Rightarrow> block_ref list list \<Rightarrow> int \<Rightarrow> int \<Rightarrow> int \<Rightarrow> bool \<Rightarrow> coordinator \<Rightarrow> (int \<times> coordinator) res" where
  "coordinator_num_blocks_to_allocate request_id num_tokens new_computed_blocks num_encoder_tokens
       total_computed_tokens num_tokens_main_model apply_admission_cap co =
     rbind (each_manager (\<lambda>i (p, m).
       if sm_kind m = CrossAttentionSpec
       then rbind (manager_num_blocks_to_allocate p request_id num_encoder_tokens [] 0 num_encoder_tokens
                     apply_admission_cap m) (\<lambda>(n, m'). Inr (n, p, m'))
       else rbind (list_index new_computed_blocks (int i)) (\<lambda>blocks.
            rbind (manager_num_blocks_to_allocate p request_id num_tokens blocks total_computed_tokens
                     num_tokens_main_model apply_admission_cap m) (\<lambda>(n, m'). Inr (n, p, m')))) co)
       (\<lambda>(ns, co'). Inr (sum_list ns, co'))"

definition allocate_new_computed_blocks ::
  "string \<Rightarrow> block_ref list list \<Rightarrow> int \<Rightarrow> int \<Rightarrow> coordinator \<Rightarrow> coordinator res" where
  "allocate_new_computed_blocks request_id new_computed_blocks num_local_computed_tokens
       num_external_computed_tokens co =
     (if \<exists>m \<in> set (co_managers co). map_of (sm_num_cached_block m) request_id \<noteq> None
      then rbind (check (\<forall>blocks \<in> set new_computed_blocks. length blocks = 0) AssertionError) (\<lambda>_. Inr co)
      else
        rbind (each_manager_do (\<lambda>i st.
                 rbind (list_index new_computed_blocks (int i)) (\<lambda>blocks.
                 add_local_computed_blocks request_id blocks num_local_computed_tokens
                   num_external_computed_tokens st)) co) (\<lambda>co1.
        if num_external_computed_tokens > 0
        then each_manager_do (\<lambda>_. allocate_external_computed_blocks request_id num_local_computed_tokens
               num_external_computed_tokens) co1
        else Inr co1))"

definition coordinator_allocate_new_blocks ::
  "string \<Rightarrow> int \<Rightarrow> int \<Rightarrow> int \<Rightarrow> coordinator \<Rightarrow> (block_ref list list \<times> coordinator) res" where
  "coordinator_allocate_new_blocks request_id num_tokens num_tokens_main_model num_encoder_tokens co =
     each_manager (\<lambda>_ (p, m).
       manager_allocate_new_blocks request_id
         (if sm_kind m = CrossAttentionSpec then num_encoder_tokens else num_tokens)
         num_tokens_main_model (p, m)) co"

section \<open>Caching, release, common prefix\<close>

definition coordinator_cache_blocks ::
  "hash_env \<Rightarrow> request \<Rightarrow> int \<Rightarrow> coordinator \<Rightarrow> coordinator res" where
  "coordinator_cache_blocks env r num_computed_tokens co =
     (if co_class co = HybridKVCacheCoordinator
      then
        let aligned = num_computed_tokens div co_scheduler_block_size co * co_scheduler_block_size co in
        each_manager_do (\<lambda>_ (p, m).
          manager_cache_blocks env r
            (if sm_use_eagle m \<and> aligned > 0
             then min num_computed_tokens (aligned + sm_block_size m) else aligned)
            (co_retention_interval co) (p, m)) co
      else
        each_manager_do (\<lambda>_. manager_cache_blocks env r num_computed_tokens (co_retention_interval co)) co)"

definition coordinator_free :: "string \<Rightarrow> coordinator \<Rightarrow> coordinator res" where
  "coordinator_free request_id = each_manager_do (\<lambda>_. manager_free request_id)"

definition coordinator_pop_blocks_for_free :: "string \<Rightarrow> coordinator \<Rightarrow> block_ref list \<times> coordinator" where
  "coordinator_pop_blocks_for_free request_id co =
     (let popped = map (pop_blocks_for_free request_id) (co_managers co)
      in (concat (map fst popped), co\<lparr>co_managers := map snd popped\<rparr>))"

definition coordinator_num_common_prefix_blocks :: "string \<Rightarrow> coordinator \<Rightarrow> int list \<times> coordinator" where
  "coordinator_num_common_prefix_blocks running_request_id co =
     (if co_class co = KVCacheCoordinatorNoPrefixCache
      then (replicate (length (co_managers co)) 0, co)
      else
        let counted = map (\<lambda>m. manager_num_common_prefix_blocks running_request_id (co_pool co, m)) (co_managers co)
        in (map fst counted, co\<lparr>co_managers := map snd counted\<rparr>))"

definition coordinator_remove_skipped_blocks :: "string \<Rightarrow> int \<Rightarrow> coordinator \<Rightarrow> coordinator res" where
  "coordinator_remove_skipped_blocks request_id total_computed_tokens =
     each_manager_do (\<lambda>_. manager_remove_skipped_blocks request_id total_computed_tokens)"

definition coordinator_get_blocks :: "string \<Rightarrow> coordinator \<Rightarrow> block_ref list list" where
  "coordinator_get_blocks request_id co = map (blocks_or_empty request_id) (co_managers co)"

definition coordinator_new_step_starts :: "coordinator \<Rightarrow> coordinator" where
  "coordinator_new_step_starts co = co\<lparr>co_managers := map new_step_starts (co_managers co)\<rparr>"

section \<open>The longest cache hit\<close>

definition get_block_hashes :: "int \<Rightarrow> kv_cache_spec \<Rightarrow> bytes list \<Rightarrow> hash_list res" where
  "get_block_hashes hash_block_size spec block_hashes =
     (if sp_block_size spec = hash_block_size then Inr (Plain block_hashes)
      else rbind (new_block_hash_list block_hashes hash_block_size (sp_block_size spec)) (\<lambda>l. Inr (Scaled l)))"

text \<open>The lookup of one attention group.\<close>

definition group_lookup ::
  "coordinator \<Rightarrow> bytes list \<Rightarrow> spec_group \<Rightarrow> int \<Rightarrow> bool \<Rightarrow> block_ref list list res" where
  "group_lookup co block_hashes g max_length drop_eagle_block =
     rbind (get_block_hashes (co_hash_block_size co) (sg_spec g) block_hashes) (\<lambda>hl.
     find_longest_cache_hit (co_pool co) (sg_spec g) hl max_length (map int (sg_group_ids g))
       drop_eagle_block (co_scheduler_block_size co) 1 1)"

text \<open>
  The state of a pass over the groups: the current hit length, the longest one seen, the blocks
  found per cache group, and the groups whose EAGLE drop is verified.
\<close>

type_synonym pass_state = "int \<times> int \<times> block_ref list option list \<times> nat list"

fun store_hits :: "nat list \<Rightarrow> block_ref list list \<Rightarrow> block_ref list option list \<Rightarrow> block_ref list option list" where
  "store_hits (gid # gids) (blocks # hits) by_group = store_hits gids hits (by_group[gid := Some blocks])"
| "store_hits gids hits by_group = by_group"

definition check_group ::
  "(spec_group \<Rightarrow> int \<Rightarrow> bool \<Rightarrow> block_ref list list res) \<Rightarrow> int \<Rightarrow> nat \<times> spec_group \<Rightarrow> pass_state
     \<Rightarrow> pass_state res" where
  "check_group look max_cache_hit_length ig st =
     (let (idx, g) = ig;
          (curr_hit_length, longest_hit_length, hit_blocks_by_group, eagle_verified) = st;
          block_size = sp_block_size (sg_spec g)
      in if is_full_attention (sp_kind (sg_spec g)) \<and> hit_blocks_by_group ! hd (sg_group_ids g) \<noteq> None
         then Inr (curr_hit_length div block_size * block_size, longest_hit_length, hit_blocks_by_group,
                   eagle_verified)
         else
           let drop_eagle_block = (sg_use_eagle g \<and> idx \<notin> set eagle_verified);
               max_length = (if drop_eagle_block then min (curr_hit_length + block_size) max_cache_hit_length
                             else curr_hit_length)
           in rbind (look g max_length drop_eagle_block) (\<lambda>hit_blocks.
              rbind (first_len hit_blocks) (\<lambda>k.
              let new_hit_length = k * block_size;
                  eagle_verified' =
                    (if drop_eagle_block then List.insert idx eagle_verified
                     else if new_hit_length < curr_hit_length then [] else eagle_verified)
              in Inr (new_hit_length, max longest_hit_length new_hit_length,
                      store_hits (sg_group_ids g) hit_blocks hit_blocks_by_group, eagle_verified'))))"

partial_function (option) hit_loop ::
  "(spec_group \<Rightarrow> int \<Rightarrow> bool \<Rightarrow> block_ref list list res) \<Rightarrow> spec_group list \<Rightarrow> bool \<Rightarrow> int \<Rightarrow> int \<Rightarrow> int
     \<Rightarrow> block_ref list option list \<Rightarrow> nat list \<Rightarrow> (int \<times> int \<times> block_ref list option list) res option" where
  "hit_loop look groups is_simple_hybrid max_cache_hit_length hit_length longest_hit_length
       hit_blocks_by_group eagle_verified =
     (case rfold (check_group look max_cache_hit_length) (enumerate 0 groups)
             (hit_length, longest_hit_length, hit_blocks_by_group, eagle_verified) of
        Inl e \<Rightarrow> Some (Inl e)
      | Inr (cur, longest, by_group, verified) \<Rightarrow>
          if cur \<ge> hit_length then Some (Inr (hit_length, longest, by_group))
          else if is_simple_hybrid then Some (Inr (cur, longest, by_group))
          else hit_loop look groups is_simple_hybrid max_cache_hit_length cur longest by_group verified)"

text \<open>Truncation of the full-attention blocks to the final length.\<close>

definition truncate_first ::
  "spec_group list \<Rightarrow> int \<Rightarrow> block_ref list option list \<Rightarrow> block_ref list option list" where
  "truncate_first groups hit_length by_group =
     (case groups of
        [] \<Rightarrow> by_group
      | g # _ \<Rightarrow>
          if is_full_attention (sp_kind (sg_spec g))
          then fold (\<lambda>gid bg. bg[gid := map_option (take (nat (hit_length div sp_block_size (sg_spec g)))) (bg ! gid)])
                 (sg_group_ids g) by_group
          else by_group)"

definition hybrid_search ::
  "(spec_group \<Rightarrow> int \<Rightarrow> bool \<Rightarrow> block_ref list list res) \<Rightarrow> spec_group list \<Rightarrow> nat \<Rightarrow> int
     \<Rightarrow> (block_ref list list \<times> int \<times> int) res option" where
  "hybrid_search look groups num_groups max_cache_hit_length =
     (let is_simple_hybrid = (length groups = 2 \<and> is_full_attention (sp_kind (sg_spec (hd groups))))
      in map_option (\<lambda>r. rbind r (\<lambda>(hit_length, longest, by_group).
           let final = truncate_first groups hit_length by_group
           in Inr (map (case_option [] (\<lambda>blocks. blocks)) final, hit_length, longest - hit_length)))
         (hit_loop look groups is_simple_hybrid max_cache_hit_length max_cache_hit_length 0
            (replicate num_groups None) []))"

definition coordinator_find_longest_cache_hit ::
  "bytes list \<Rightarrow> int \<Rightarrow> coordinator \<Rightarrow> (block_ref list list \<times> int \<times> coordinator) res option" where
  "coordinator_find_longest_cache_hit block_hashes max_cache_hit_length co =
     (case co_class co of
        KVCacheCoordinatorNoPrefixCache \<Rightarrow>
          Some (Inr (replicate (length (co_managers co)) [], 0, co))
      | UnitaryKVCacheCoordinator \<Rightarrow>
          Some (rbind (find_longest_cache_hit (co_pool co) (kg_spec (cf_kv_cache_groups (co_config co) ! 0))
                   (Plain block_hashes) max_cache_hit_length [0] (0 \<in> set (co_eagle_group_ids co))
                   (unitary_block_size co) (co_dcp_world_size co) (co_pcp_world_size co)) (\<lambda>hit_blocks.
                rbind (first_len hit_blocks) (\<lambda>k.
                Inr (hit_blocks, k * unitary_block_size co, co))))
      | HybridKVCacheCoordinator \<Rightarrow>
          map_option (\<lambda>r. rbind r (\<lambda>(blocks, hit_length, uncached).
              Inr (blocks, hit_length, co\<lparr>co_num_uncached_common_prefix_tokens := uncached\<rparr>)))
            (hybrid_search (group_lookup co block_hashes) (co_attention_groups co)
               (length (cf_kv_cache_groups (co_config co))) max_cache_hit_length))"

text \<open>Every group on its own.\<close>

definition find_longest_cache_hit_per_group ::
  "bytes list \<Rightarrow> int \<Rightarrow> coordinator \<Rightarrow> (block_ref list list \<times> int list) res" where
  "find_longest_cache_hit_per_group block_hashes max_cache_hit_length co =
     (let n = length (cf_kv_cache_groups (co_config co)) in
      rfold (\<lambda>g (hit_blocks, hit_lengths).
        rbind (group_lookup co block_hashes g max_cache_hit_length (sg_use_eagle g)) (\<lambda>blocks.
        rbind (first_len blocks) (\<lambda>k.
        Inr (fold (\<lambda>(gid, blks) hb. hb[gid := blks]) (zip (sg_group_ids g) blocks) hit_blocks,
             fold (\<lambda>(gid, blks) hl. hl[gid := k * sp_block_size (sg_spec g)])
               (zip (sg_group_ids g) blocks) hit_lengths))))
        (co_attention_groups co) (replicate n [], replicate n 0))"

end
