(* ===== verification/HybridSearch.thy ===== *)
theory HybridSearch
  imports Coordinator "HOL-Library.Multiset"
begin

text \<open>
  The fixpoint search of \<open>HybridKVCacheCoordinator.find_longest_cache_hit\<close>: it always returns, and
  what it returns is one length that every group can serve.  The argument only needs what a group
  lookup promises, which is the interface \<open>prefix_lookup\<close>; it is interpreted on the lookups of the
  manager classes.
\<close>

abbreviation is_full_group :: "spec_group \<Rightarrow> bool" where
  "is_full_group g \<equiv> is_full_attention (sp_kind (sg_spec g))"

abbreviation group_size :: "spec_group \<Rightarrow> int" where
  "group_size g \<equiv> sp_block_size (sg_spec g)"

section \<open>The table of hits\<close>

text \<open>The cache groups of the attention groups are distinct positions of the table.\<close>

definition layout_ok :: "spec_group list \<Rightarrow> nat \<Rightarrow> bool" where
  "layout_ok groups n \<longleftrightarrow> distinct (concat (map sg_group_ids groups)) \<and>
     (\<forall>g \<in> set groups. sg_group_ids g \<noteq> [] \<and> (\<forall>i \<in> set (sg_group_ids g). i < n))"

definition rows_of :: "'a list \<Rightarrow> spec_group \<Rightarrow> 'a list" where
  "rows_of table g = map (\<lambda>gid. table ! gid) (sg_group_ids g)"

lemma layout_ok_Cons:
  "layout_ok (g # gs) n \<longleftrightarrow> layout_ok gs n \<and> distinct (sg_group_ids g) \<and> sg_group_ids g \<noteq> [] \<and>
     (\<forall>i \<in> set (sg_group_ids g). i < n) \<and> (\<forall>g' \<in> set gs. set (sg_group_ids g) \<inter> set (sg_group_ids g') = {})"
  by (auto simp: layout_ok_def)

lemma length_store_hits [simp]: "length (store_hits gids hits by_group) = length by_group"
  by (induction gids hits by_group rule: store_hits.induct) simp_all

lemma store_hits_other: "i \<notin> set gids \<Longrightarrow> store_hits gids hits by_group ! i = by_group ! i"
  by (induction gids hits by_group rule: store_hits.induct) auto

lemma store_hits_rows:
  assumes "distinct gids" "\<forall>i \<in> set gids. i < length by_group" "length hits = length gids"
  shows "map ((!) (store_hits gids hits by_group)) gids = map Some hits"
  using assms
  by (induction gids hits by_group rule: store_hits.induct) (auto simp: store_hits_other)

lemma rows_of_store_other:
  "set (sg_group_ids g) \<inter> set gids = {} \<Longrightarrow> rows_of (store_hits gids hits by_group) g = rows_of by_group g"
  by (auto simp: rows_of_def intro!: store_hits_other)

section \<open>The interface of a group lookup\<close>

locale prefix_lookup =
  fixes valid :: "'s \<Rightarrow> bool"
    and look :: "'s \<Rightarrow> spec_group \<Rightarrow> int \<Rightarrow> bool \<Rightarrow> block_ref list list res"
    and groups :: "'s \<Rightarrow> spec_group list"
    and bound :: "'s \<Rightarrow> int"
    and alignment :: "'s \<Rightarrow> int"
    and found :: "'s \<Rightarrow> spec_group \<Rightarrow> block_ref list list \<Rightarrow> nat \<Rightarrow> bool"
  assumes group_size: "valid s \<Longrightarrow> g \<in> set (groups s) \<Longrightarrow> 0 < group_size g \<and> alignment s mod group_size g = 0"
    and lookup: "valid s \<Longrightarrow> g \<in> set (groups s) \<Longrightarrow> 0 \<le> n \<Longrightarrow> n \<le> bound s \<Longrightarrow> dropped \<longrightarrow> sg_use_eagle g \<Longrightarrow>
      \<exists>res k. look s g n dropped = Inr res \<and> found s g res k \<and> int k * group_size g \<le> n \<and>
        int k * group_size g mod alignment s = 0 \<and> (dropped \<longrightarrow> k = 0 \<or> (int k + 1) * group_size g \<le> n)"
    and found_rows: "valid s \<Longrightarrow> g \<in> set (groups s) \<Longrightarrow> found s g res k \<Longrightarrow>
      length res = length (sg_group_ids g) \<and> (\<forall>r \<in> set res. length r = k)"
    and found_take: "valid s \<Longrightarrow> g \<in> set (groups s) \<Longrightarrow> found s g res k \<Longrightarrow> is_full_group g \<Longrightarrow> j \<le> k \<Longrightarrow>
      found s g (map (take j) res) j"
begin

text \<open>The table holds \<open>k\<close> blocks for a group, which it can serve.\<close>

definition holds :: "'s \<Rightarrow> block_ref list option list \<Rightarrow> spec_group \<Rightarrow> nat \<Rightarrow> bool" where
  "holds s table g k \<longleftrightarrow> (\<exists>res. rows_of table g = map Some res \<and> found s g res k)"

definition fits :: "'s \<Rightarrow> block_ref list option list \<Rightarrow> int \<Rightarrow> int \<Rightarrow> spec_group \<Rightarrow> bool" where
  "fits s table start cur g \<longleftrightarrow>
     (\<exists>k. holds s table g k \<and> cur \<le> int k * group_size g \<and> (is_full_group g \<or> int k * group_size g \<le> start))"

lemma fits_mono: "fits s table start cur g \<Longrightarrow> cur' \<le> cur \<Longrightarrow> start \<le> start' \<Longrightarrow> fits s table start' cur' g"
  unfolding fits_def by (meson order.trans)

lemma fits_rows: "rows_of table' g = rows_of table g \<Longrightarrow> fits s table' start cur g = fits s table start cur g"
  by (simp add: fits_def holds_def)

lemma aligned_floor:
  assumes "valid s" "g \<in> set (groups s)" "cur mod alignment s = 0"
  shows "cur div group_size g * group_size g = cur"
proof -
  have "group_size g dvd alignment s" using group_size [OF assms(1,2)] by (simp add: dvd_eq_mod_eq_0)
  moreover have "alignment s dvd cur" using assms(3) by (simp add: dvd_eq_mod_eq_0)
  ultimately show ?thesis by (meson dvd_trans dvd_div_mult_self)
qed

text \<open>One group: the length does not grow, and the group holds it.\<close>

lemma check_group_spec:
  assumes s: "valid s" "g \<in> set (groups s)" and ids: "distinct (sg_group_ids g)" "sg_group_ids g \<noteq> []"
    "\<forall>i \<in> set (sg_group_ids g). i < length table"
    and cur: "0 \<le> cur" "cur \<le> bound s"
    and stored: "is_full_group g \<and> table ! hd (sg_group_ids g) \<noteq> None \<longrightarrow>
      fits s table cur cur g \<and> cur mod alignment s = 0"
  shows "\<exists>cur' longest' table' ver'.
    check_group (look s) (bound s) (i, g) (cur, longest, table, ver) = Inr (cur', longest', table', ver') \<and>
    0 \<le> cur' \<and> cur' \<le> cur \<and> cur' mod alignment s = 0 \<and> fits s table' cur' cur' g \<and>
    length table' = length table \<and>
    (\<forall>g'. set (sg_group_ids g') \<inter> set (sg_group_ids g) = {} \<longrightarrow> rows_of table' g' = rows_of table g')"
proof (cases "is_full_group g \<and> table ! hd (sg_group_ids g) \<noteq> None")
  case True
  then have f: "fits s table cur cur g" "cur mod alignment s = 0" using stored by simp_all
  then show ?thesis using True cur by (simp add: check_group_def aligned_floor [OF s])
next
  case False
  define bs where "bs = group_size g"
  define d where "d \<longleftrightarrow> sg_use_eagle g \<and> i \<notin> set ver"
  define n where "n = (if d then min (cur + bs) (bound s) else cur)"
  have bs: "0 < bs" using group_size [OF s] by (simp add: bs_def)
  have n: "0 \<le> n" "n \<le> bound s" "d \<longrightarrow> sg_use_eagle g" using cur bs by (auto simp: n_def d_def)
  from lookup [OF s n] obtain res k where
    r: "look s g n d = Inr res" "found s g res k" "int k * bs \<le> n" "int k * bs mod alignment s = 0"
       "d \<longrightarrow> k = 0 \<or> (int k + 1) * bs \<le> n" unfolding bs_def by (elim exE conjE)
  have k: "int k * bs \<le> cur"
  proof (cases "d \<and> k \<noteq> 0")
    case True
    then have "(int k + 1) * bs \<le> cur + bs" using r(5) by (auto simp: n_def)
    then show ?thesis by (simp add: algebra_simps)
  qed (use r(3) cur(1) in \<open>auto simp: n_def\<close>)
  let ?table = "store_hits (sg_group_ids g) res table"
  note fr = found_rows [OF s r(2)]
  have "first_len res = Inr (int k)"
    using fr ids(2) by (cases res) (auto simp: first_len_def list_index_def)
  then obtain longest' ver' where run: "check_group (look s) (bound s) (i, g) (cur, longest, table, ver) =
      Inr (int k * bs, longest', ?table, ver')"
    using False r(1)
    by (auto simp: check_group_def Let_def d_def [symmetric] bs_def [symmetric] n_def [unfolded bs_def, symmetric])
  have "rows_of ?table g = map Some res"
    using store_hits_rows [OF ids(1,3)] fr by (simp add: rows_of_def)
  then have "fits s ?table (int k * bs) (int k * bs) g"
    using r(2) by (auto simp: fits_def holds_def bs_def)
  moreover have "\<forall>g'. set (sg_group_ids g') \<inter> set (sg_group_ids g) = {} \<longrightarrow> rows_of ?table g' = rows_of table g'"
    by (simp add: rows_of_store_other)
  ultimately show ?thesis using run k r(4) bs
    by (intro exI [of _ "int k * bs"] exI [of _ longest'] exI [of _ ?table] exI [of _ ver']) simp
qed

text \<open>One pass over the groups.\<close>

lemma attention_pass_spec:
  assumes s: "valid s" and gs: "set gs \<subseteq> set (groups s)"
  shows "layout_ok gs (length table) \<Longrightarrow> 0 \<le> cur \<Longrightarrow> cur \<le> bound s \<Longrightarrow>
    (\<forall>g \<in> set gs. is_full_group g \<and> table ! hd (sg_group_ids g) \<noteq> None \<longrightarrow>
      fits s table cur cur g \<and> cur mod alignment s = 0) \<Longrightarrow>
    \<exists>cur' longest' table' ver'.
      rfold (check_group (look s) (bound s)) (enumerate i gs) (cur, longest, table, ver) =
        Inr (cur', longest', table', ver') \<and>
      0 \<le> cur' \<and> cur' \<le> cur \<and> length table' = length table \<and> (gs \<noteq> [] \<longrightarrow> cur' mod alignment s = 0) \<and>
      (\<forall>g \<in> set gs. fits s table' cur cur' g) \<and> (gs \<noteq> [] \<longrightarrow> fits s table' cur' cur' (last gs)) \<and>
      (\<forall>g'. (\<forall>g \<in> set gs. set (sg_group_ids g') \<inter> set (sg_group_ids g) = {}) \<longrightarrow>
        rows_of table' g' = rows_of table g')"
  using gs
proof (induction gs arbitrary: i cur longest table ver)
  case (Cons g gs)
  have g: "g \<in> set (groups s)" using Cons.prems(5) by simp
  have lay: "layout_ok gs (length table)" "distinct (sg_group_ids g)" "sg_group_ids g \<noteq> []"
    "\<forall>i \<in> set (sg_group_ids g). i < length table"
    and disj: "\<forall>g' \<in> set gs. set (sg_group_ids g) \<inter> set (sg_group_ids g') = {}"
    using Cons.prems(1) by (auto simp: layout_ok_Cons)
  have "is_full_group g \<and> table ! hd (sg_group_ids g) \<noteq> None \<longrightarrow> fits s table cur cur g \<and> cur mod alignment s = 0"
    using Cons.prems(4) by simp
  from check_group_spec [OF s g lay(2-4) Cons.prems(2,3) this, of i longest ver]
  obtain cur1 longest1 table1 ver1 where
    one: "check_group (look s) (bound s) (i, g) (cur, longest, table, ver) = Inr (cur1, longest1, table1, ver1)"
      "0 \<le> cur1" "cur1 \<le> cur" "cur1 mod alignment s = 0" "fits s table1 cur1 cur1 g" "length table1 = length table"
    and frame1: "\<forall>g'. set (sg_group_ids g') \<inter> set (sg_group_ids g) = {} \<longrightarrow> rows_of table1 g' = rows_of table g'"
    by (elim exE conjE)
  have keep: "rows_of table1 g' = rows_of table g'" if "g' \<in> set gs" for g' using that disj frame1 by blast
  have stored: "\<forall>g' \<in> set gs. is_full_group g' \<and> table1 ! hd (sg_group_ids g') \<noteq> None \<longrightarrow>
      fits s table1 cur1 cur1 g' \<and> cur1 mod alignment s = 0"
  proof (intro ballI impI)
    fix g' assume g': "g' \<in> set gs" and st: "is_full_group g' \<and> table1 ! hd (sg_group_ids g') \<noteq> None"
    have "sg_group_ids g' \<noteq> []" using lay(1) g' by (auto simp: layout_ok_def)
    then have "table1 ! hd (sg_group_ids g') = table ! hd (sg_group_ids g')"
      using keep [OF g'] by (auto simp: rows_of_def neq_Nil_conv)
    then have "fits s table cur cur g'" using Cons.prems(4) g' st by simp
    then have "fits s table1 cur cur g'" using fits_rows [OF keep [OF g']] by blast
    then have "fits s table1 cur1 cur1 g'" using one(3) st unfolding fits_def by (meson order.trans)
    then show "fits s table1 cur1 cur1 g' \<and> cur1 mod alignment s = 0" using one(4) by blast
  qed
  have "layout_ok gs (length table1)" "cur1 \<le> bound s" "set gs \<subseteq> set (groups s)"
    using lay(1) one(3,6) Cons.prems(3,5) by auto
  from Cons.IH [OF this(1) one(2) this(2) stored this(3), of "Suc i" longest1 ver1]
  obtain cur' longest' table' ver' where
    rest: "rfold (check_group (look s) (bound s)) (enumerate (Suc i) gs) (cur1, longest1, table1, ver1) =
        Inr (cur', longest', table', ver')"
      "0 \<le> cur'" "cur' \<le> cur1" "length table' = length table1" "gs \<noteq> [] \<longrightarrow> cur' mod alignment s = 0"
      "\<forall>g \<in> set gs. fits s table' cur1 cur' g" "gs \<noteq> [] \<longrightarrow> fits s table' cur' cur' (last gs)"
    and frame: "\<forall>g'. (\<forall>g \<in> set gs. set (sg_group_ids g') \<inter> set (sg_group_ids g) = {}) \<longrightarrow>
        rows_of table' g' = rows_of table1 g'" by (elim exE conjE)
  have "rows_of table' g = rows_of table1 g" using frame disj by blast
  then have fg: "fits s table' cur1 cur1 g" using one(5) fits_rows by blast
  have nil: "cur' = cur1" "table' = table1" if "gs = []" using rest(1) that by simp_all
  show ?case
  proof (intro exI conjI)
    show "rfold (check_group (look s) (bound s)) (enumerate i (g # gs)) (cur, longest, table, ver) =
        Inr (cur', longest', table', ver')" using one(1) rest(1) by simp
    show "0 \<le> cur'" "cur' \<le> cur" "length table' = length table" using rest one by simp_all
    show "g # gs \<noteq> [] \<longrightarrow> cur' mod alignment s = 0" using rest(5) one(4) nil by (cases "gs = []") auto
    show "\<forall>g \<in> set (g # gs). fits s table' cur cur' g"
      using fits_mono [OF fg rest(3) one(3)] rest(6) fits_mono [OF _ order.refl one(3)] by auto
    show "g # gs \<noteq> [] \<longrightarrow> fits s table' cur' cur' (last (g # gs))"
      using fg rest(7) nil by (cases "gs = []") auto
    show "\<forall>g'. (\<forall>g \<in> set (g # gs). set (sg_group_ids g') \<inter> set (sg_group_ids g) = {}) \<longrightarrow>
        rows_of table' g' = rows_of table g'" using frame frame1 by simp
  qed
qed auto

text \<open>The loop: the length strictly decreases from one pass to the next.\<close>

lemma hit_loop_spec:
  assumes s: "valid s" and ne: "groups s \<noteq> []"
    and simple: "simple \<longrightarrow> (\<exists>f g. groups s = [f, g] \<and> is_full_group f)"
  shows "layout_ok (groups s) (length table) \<Longrightarrow> 0 \<le> hit \<Longrightarrow> hit \<le> bound s \<Longrightarrow>
    (\<forall>g \<in> set (groups s). is_full_group g \<and> table ! hd (sg_group_ids g) \<noteq> None \<longrightarrow>
      fits s table hit hit g \<and> hit mod alignment s = 0) \<Longrightarrow>
    \<exists>h longest' table'.
      hit_loop (look s) (groups s) simple (bound s) hit longest table ver = Some (Inr (h, longest', table')) \<and>
      0 \<le> h \<and> h \<le> hit \<and> h mod alignment s = 0 \<and> length table' = length table \<and>
      (\<forall>g \<in> set (groups s). fits s table' h h g)"
proof (induction "nat hit" arbitrary: hit longest table ver rule: less_induct)
  case less
  from attention_pass_spec [OF s order.refl less.prems, of 0 longest ver]
  obtain cur longest' table' ver' where
    pass: "rfold (check_group (look s) (bound s)) (enumerate 0 (groups s)) (hit, longest, table, ver) =
        Inr (cur, longest', table', ver')"
      "0 \<le> cur" "cur \<le> hit" "length table' = length table" "groups s \<noteq> [] \<longrightarrow> cur mod alignment s = 0"
      "\<forall>g \<in> set (groups s). fits s table' hit cur g" "groups s \<noteq> [] \<longrightarrow> fits s table' cur cur (last (groups s))"
    by (elim exE conjE)
  have al: "cur mod alignment s = 0" using pass(5) ne by simp
  have full: "fits s table' cur cur g" if "g \<in> set (groups s)" "is_full_group g" for g
    using pass(6) that unfolding fits_def by blast
  note step = hit_loop.simps [of "look s" "groups s" simple "bound s" hit longest table ver]
  show ?case
  proof (cases "cur < hit")
    case False
    then have "cur = hit" using pass(3) by simp
    then show ?thesis using pass(1,2,4,6) al by (simp add: step)
  next
    case smaller: True
    show ?thesis
    proof (cases simple)
      case True
      then obtain f g where fg: "groups s = [f, g]" "is_full_group f" using simple by blast
      have "\<forall>g \<in> set (groups s). fits s table' cur cur g" using full [of f] fg pass(7) by simp
      moreover have "hit_loop (look s) (groups s) simple (bound s) hit longest table ver = Some (Inr (cur, longest', table'))"
        unfolding step pass(1) sum.case prod.case using smaller True by simp
      ultimately show ?thesis using pass(2-4) al
        by (intro exI [of _ cur] exI [of _ longest'] exI [of _ table']) simp
    next
      case no: False
      have lay: "layout_ok (groups s) (length table')" using less.prems(1) pass(4) by simp
      have "nat cur < nat hit" "cur \<le> bound s" using smaller pass(2) less.prems(3) by linarith+
      from less.hyps [OF this(1) lay pass(2) this(2), of longest' ver'] full al
      obtain h longest'' table'' where
        rec: "hit_loop (look s) (groups s) simple (bound s) cur longest' table' ver' = Some (Inr (h, longest'', table''))"
        "0 \<le> h" "h \<le> cur" "h mod alignment s = 0" "length table'' = length table'"
        "\<forall>g \<in> set (groups s). fits s table'' h h g" by auto
      moreover have "hit_loop (look s) (groups s) simple (bound s) hit longest table ver = Some (Inr (h, longest'', table''))"
        unfolding step pass(1) sum.case prod.case using smaller no rec by simp
      ultimately show ?thesis using pass(3,4)
        by (intro exI [of _ h] exI [of _ longest''] exI [of _ table'']) simp
    qed
  qed
qed

lemma fold_take_rows:
  "distinct gids \<Longrightarrow> \<forall>i \<in> set gids. i < length table \<Longrightarrow>
     map ((!) (fold (\<lambda>gid bg. bg[gid := map_option (take n) (bg ! gid)]) gids table)) gids =
       map (\<lambda>i. map_option (take n) (table ! i)) gids \<and>
     (\<forall>i. i \<notin> set gids \<longrightarrow> fold (\<lambda>gid bg. bg[gid := map_option (take n) (bg ! gid)]) gids table ! i = table ! i) \<and>
     length (fold (\<lambda>gid bg. bg[gid := map_option (take n) (bg ! gid)]) gids table) = length table"
  by (induction gids arbitrary: table) (auto simp: nth_list_update intro!: map_cong)

text \<open>After the truncation, the groups hold exactly the final length.\<close>

definition serves_exactly :: "'s \<Rightarrow> spec_group \<Rightarrow> block_ref list list \<Rightarrow> int \<Rightarrow> bool" where
  "serves_exactly s g rows h \<longleftrightarrow> (\<exists>k. found s g rows k \<and> h \<le> int k * group_size g \<and>
     (\<not> is_full_group g \<or> g = hd (groups s) \<longrightarrow> int k * group_size g = h))"

lemma truncate_first_spec:
  assumes s: "valid s" "groups s \<noteq> []" "layout_ok (groups s) (length table)"
    and h: "0 \<le> h" "h mod alignment s = 0" and fits: "\<forall>g \<in> set (groups s). fits s table h h g"
  shows "length (truncate_first (groups s) h table) = length table \<and>
    (\<forall>g \<in> set (groups s). \<exists>rows. rows_of (truncate_first (groups s) h table) g = map Some rows \<and>
      serves_exactly s g rows h)"
proof -
  obtain f gs where gs: "groups s = f # gs" using s(2) by (cases "groups s") auto
  have f: "f \<in> set (groups s)" by (simp add: gs)
  have lay: "distinct (sg_group_ids f)" "\<forall>i \<in> set (sg_group_ids f). i < length table"
    and disj: "\<forall>g \<in> set gs. set (sg_group_ids f) \<inter> set (sg_group_ids g) = {}"
    using s(3) by (auto simp: gs layout_ok_Cons)
  have other: "\<exists>rows. rows_of table g = map Some rows \<and> serves_exactly s g rows h"
    if "g \<in> set (groups s)" "\<not> is_full_group g \<or> g \<noteq> f" for g
    using fits that unfolding fits_def holds_def serves_exactly_def gs by fastforce
  show ?thesis
  proof (cases "is_full_group f")
    case False
    then have "truncate_first (groups s) h table = table" by (simp add: truncate_first_def gs)
    moreover have "\<exists>rows. rows_of table g = map Some rows \<and> serves_exactly s g rows h" if "g \<in> set (groups s)" for g
      using other [OF that] False by (cases "g = f") auto
    ultimately show ?thesis by simp
  next
    case True
    let ?n = "nat (h div group_size f)"
    let ?t = "truncate_first (groups s) h table"
    have t: "?t = fold (\<lambda>gid bg. bg[gid := map_option (take ?n) (bg ! gid)]) (sg_group_ids f) table"
      using True by (simp add: truncate_first_def gs)
    note F = fold_take_rows [OF lay, of ?n]
    have sz: "0 < group_size f" using group_size [OF s(1) f] by simp
    obtain res k where res: "rows_of table f = map Some res" "found s f res k" "h \<le> int k * group_size f"
      using fits f unfolding fits_def holds_def by blast
    have n: "int ?n * group_size f = h"
      using aligned_floor [OF s(1) f h(2)] h(1) sz by (simp add: pos_imp_zdiv_nonneg_iff)
    then have "?n \<le> k" using res(3) sz by (metis mult_le_cancel_right_pos of_nat_le_iff)
    then have fnd: "found s f (map (take ?n) res) ?n" by (rule found_take [OF s(1) f res(2) True])
    have "rows_of ?t f = map (map_option (take ?n)) (rows_of table f)"
      using F by (simp add: rows_of_def t o_def)
    then have rows_f: "rows_of ?t f = map Some (map (take ?n) res)" by (simp add: res(1) o_def)
    have "\<exists>rows. rows_of ?t g = map Some rows \<and> serves_exactly s g rows h" if g: "g \<in> set (groups s)" for g
    proof (cases "g = f")
      case True
      have "serves_exactly s f (map (take ?n) res) h" using fnd n unfolding serves_exactly_def by auto
      then show ?thesis using rows_f True by blast
    next
      case False
      then have "g \<in> set gs" using g gs by simp
      then have "rows_of ?t g = rows_of table g"
        using F disj by (auto simp: rows_of_def t intro!: map_cong)
      then show ?thesis using other [OF g] False by simp
    qed
    then show ?thesis using F by (simp add: t)
  qed
qed

lemma hybrid_search_spec:
  assumes s: "valid s" "groups s \<noteq> []" "layout_ok (groups s) n" and bound: "0 \<le> bound s"
  shows "\<exists>blocks h uncached. hybrid_search (look s) (groups s) n (bound s) = Some (Inr (blocks, h, uncached)) \<and>
    length blocks = n \<and> 0 \<le> h \<and> h \<le> bound s \<and> h mod alignment s = 0 \<and>
    (\<forall>g \<in> set (groups s). serves_exactly s g (rows_of blocks g) h)"
proof -
  define simple where "simple \<longleftrightarrow> length (groups s) = 2 \<and> is_full_group (hd (groups s))"
  have simple: "simple \<longrightarrow> (\<exists>f g. groups s = [f, g] \<and> is_full_group f)"
    by (auto simp: simple_def numeral_2_eq_2 length_Suc_conv)
  let ?none = "replicate n None :: block_ref list option list"
  have lay: "layout_ok (groups s) (length ?none)" using s(3) by simp
  have empty: "\<forall>g \<in> set (groups s). is_full_group g \<and> ?none ! hd (sg_group_ids g) \<noteq> None \<longrightarrow>
      fits s ?none (bound s) (bound s) g \<and> bound s mod alignment s = 0"
    using s(3) by (auto simp: layout_ok_def)
  from hit_loop_spec [OF s(1,2) simple lay bound order.refl empty, of 0 "[]"]
  obtain h longest table where
    loop: "hit_loop (look s) (groups s) simple (bound s) (bound s) 0 ?none [] = Some (Inr (h, longest, table))"
    and h: "0 \<le> h" "h \<le> bound s" "h mod alignment s = 0" and len: "length table = length ?none"
    and fits: "\<forall>g \<in> set (groups s). fits s table h h g" by (elim exE conjE)
  let ?t = "truncate_first (groups s) h table" and ?b = "map (case_option [] (\<lambda>blocks. blocks))"
  have "layout_ok (groups s) (length table)" using s(3) len by simp
  note T = truncate_first_spec [OF s(1,2) this h(1,3) fits]
  have run: "hybrid_search (look s) (groups s) n (bound s) = Some (Inr (?b ?t, h, longest - h))"
    using loop by (simp add: hybrid_search_def simple_def Let_def)
  have "serves_exactly s g (rows_of (?b ?t) g) h" if g: "g \<in> set (groups s)" for g
  proof -
    obtain rows where rows: "rows_of ?t g = map Some rows" "serves_exactly s g rows h" using T g by blast
    have "\<forall>i \<in> set (sg_group_ids g). i < length ?t" using s(3) g T len by (auto simp: layout_ok_def)
    then have "rows_of (?b ?t) g = ?b (rows_of ?t g)" by (auto simp: rows_of_def)
    also have "\<dots> = rows" by (simp add: rows(1) o_def)
    finally show ?thesis using rows(2) by simp
  qed
  then show ?thesis using run T len h by (intro exI [of _ "?b ?t"] exI [of _ h] exI [of _ "longest - h"]) simp
qed

end

section \<open>The lookups of the manager classes\<close>

text \<open>A hybrid coordinator, the hashes of a request and the bound of a lookup.\<close>

definition lookup_ready :: "coordinator \<times> bytes list \<times> int \<Rightarrow> bool" where
  "lookup_ready s \<longleftrightarrow> (case s of (co, hashes, n) \<Rightarrow>
     hash_ok (co_pool co) \<and> pool_wf (co_pool co) \<and>
     (\<forall>g \<in> set (co_attention_groups co).
        spec_ok (sg_spec g) \<and> group_ids_ok (map int (sg_group_ids g)) \<and>
        co_scheduler_block_size co mod group_size g = 0 \<and>
        (\<forall>d. (d \<longrightarrow> sg_use_eagle g) \<longrightarrow> chunked_args_ok (sg_spec g) d (co_scheduler_block_size co)) \<and>
        (sg_use_eagle g \<longrightarrow> \<not> is_mamba (sp_kind (sg_spec g))) \<and>
        (\<exists>hl. get_block_hashes (co_hash_block_size co) (sg_spec g) hashes = Inr hl \<and> hl_valid hl \<and>
              n div group_size g \<le> hl_len hl)))"

definition group_found :: "coordinator \<times> bytes list \<times> int \<Rightarrow> spec_group \<Rightarrow> block_ref list list \<Rightarrow> nat \<Rightarrow> bool" where
  "group_found s g res k \<longleftrightarrow> (case s of (co, hashes, _) \<Rightarrow>
     \<exists>hl. get_block_hashes (co_hash_block_size co) (sg_spec g) hashes = Inr hl \<and>
          covers_window (co_pool co) (sg_spec g) hl (map int (sg_group_ids g)) res k)"

lemma covers_window_take:
  assumes "covers_window p spec hl gs res k" "is_full_attention (sp_kind spec)" "0 < sp_block_size spec" "j \<le> k"
  shows "covers_window p spec hl gs (map (take j) res) j"
proof -
  have "num_skipped_tokens (sp_kind spec) n = 0" for n
    using assms(2) by (cases "sp_kind spec") (simp_all add: num_skipped_tokens_def)
  moreover have "\<not> (int i + 1) * sp_block_size spec \<le> 0" for i
  proof -
    have "0 < (int i + 1) * sp_block_size spec" using assms(3) by (intro mult_pos_pos) simp_all
    then show ?thesis by linarith
  qed
  ultimately show ?thesis using assms(1,4) by (auto simp: covers_window_def)
qed

lemma group_lookup_law:
  assumes r: "lookup_ready (co, hashes, b)" "g \<in> set (co_attention_groups co)" and n: "0 \<le> n" "n \<le> b"
    and d: "d \<longrightarrow> sg_use_eagle g"
  shows "\<exists>res k. group_lookup co hashes g n d = Inr res \<and> group_found (co, hashes, b) g res k \<and>
    int k * group_size g \<le> n \<and> int k * group_size g mod co_scheduler_block_size co = 0 \<and>
    (d \<longrightarrow> k = 0 \<or> (int k + 1) * group_size g \<le> n)"
proof -
  obtain hl where hl: "get_block_hashes (co_hash_block_size co) (sg_spec g) hashes = Inr hl" "hl_valid hl"
      "b div group_size g \<le> hl_len hl"
    and ok: "hash_ok (co_pool co)" "pool_wf (co_pool co)" "spec_ok (sg_spec g)"
      "group_ids_ok (map int (sg_group_ids g))" "chunked_args_ok (sg_spec g) d (co_scheduler_block_size co)"
      "d \<longrightarrow> \<not> is_mamba (sp_kind (sg_spec g))"
    using r d by (auto simp: lookup_ready_def)
  have "0 < group_size g" using ok(3) by (simp add: spec_ok_def)
  then have "n div group_size g \<le> hl_len hl" using hl(3) zdiv_mono1 [OF n(2)] by (meson order.trans)
  from find_covers [OF ok(1,2,4) hl(2) this ok(3,5) n(1)]
  obtain res k where
    f: "find_longest_cache_hit (co_pool co) (sg_spec g) hl n (map int (sg_group_ids g)) d
        (co_scheduler_block_size co) 1 1 = Inr res"
      "covers_window (co_pool co) (sg_spec g) hl (map int (sg_group_ids g)) res k"
      "int k * group_size g \<le> n" "int k * group_size g mod co_scheduler_block_size co = 0"
      "d \<and> \<not> is_mamba (sp_kind (sg_spec g)) \<longrightarrow> k = 0 \<or> (int k + 1) * group_size g \<le> n"
    by (elim exE conjE)
  have "group_lookup co hashes g n d = Inr res" using hl(1) f(1) by (simp add: group_lookup_def)
  moreover have "group_found (co, hashes, b) g res k" using hl(1) f(2) by (simp add: group_found_def)
  ultimately show ?thesis using f(3-5) ok(6) by (intro exI [of _ res] exI [of _ k]) simp
qed

interpretation pl: prefix_lookup lookup_ready "\<lambda>(co, hashes, n). group_lookup co hashes"
  "\<lambda>(co, hashes, n). co_attention_groups co" "\<lambda>(co, hashes, n). n"
  "\<lambda>(co, hashes, n). co_scheduler_block_size co" group_found
proof (unfold_locales, goal_cases)
  case (1 s g)
  then show ?case by (auto simp: lookup_ready_def spec_ok_def split: prod.splits)
next
  case (2 s g n d)
  obtain co hashes b where s: "s = (co, hashes, b)" by (cases s)
  from 2 show ?case unfolding s prod.case by (intro group_lookup_law)
next
  case (3 s g res k)
  then show ?case by (auto simp: group_found_def covers_window_def in_set_conv_nth split: prod.splits)
next
  case (4 s g res k j)
  then show ?case
    by (auto simp: group_found_def lookup_ready_def spec_ok_def split: prod.splits intro: covers_window_take)
qed

section \<open>The attention groups of a coordinator\<close>

definition split_inv :: "nat list \<Rightarrow> kv_cache_group list \<Rightarrow> nat \<Rightarrow> spec_group list \<Rightarrow> bool" where
  "split_inv eagle groups i gs \<longleftrightarrow>
     distinct (concat (map sg_group_ids gs)) \<and> set (concat (map sg_group_ids gs)) = {..<i} \<and>
     distinct (map sg_spec gs) \<and>
     (\<forall>g \<in> set gs. sg_group_ids g \<noteq> [] \<and> (\<forall>j \<in> set (sg_group_ids g). sg_spec g = kg_spec (groups ! j)) \<and>
        (sg_use_eagle g \<longleftrightarrow> (\<exists>j \<in> set (sg_group_ids g). j \<in> set eagle)))"

lemma set_join_spec_group:
  "set (concat (map sg_group_ids (join_spec_group i spec e gs))) = insert i (set (concat (map sg_group_ids gs)))"
  by (induction i spec e gs rule: join_spec_group.induct) auto

lemma distinct_join_spec_group:
  "distinct (concat (map sg_group_ids gs)) \<Longrightarrow> i \<notin> set (concat (map sg_group_ids gs)) \<Longrightarrow>
     distinct (concat (map sg_group_ids (join_spec_group i spec e gs)))"
  by (induction i spec e gs rule: join_spec_group.induct)
     (auto simp: set_join_spec_group [simplified])

lemma join_spec_group_members:
  assumes "g \<in> set (join_spec_group i spec e gs)"
  shows "g \<in> set gs \<or> g = \<lparr>sg_spec = spec, sg_group_ids = [i], sg_use_eagle = e\<rparr> \<or>
    (\<exists>g' \<in> set gs. sg_spec g' = spec \<and> g = g'\<lparr>sg_group_ids := sg_group_ids g' @ [i], sg_use_eagle := e \<or> sg_use_eagle g'\<rparr>)"
  using assms by (induction i spec e gs rule: join_spec_group.induct) (auto split: if_splits)

lemma specs_join_spec_group:
  "map sg_spec (join_spec_group i spec e gs) =
     (if spec \<in> set (map sg_spec gs) then map sg_spec gs else map sg_spec gs @ [spec])"
  by (induction i spec e gs rule: join_spec_group.induct) auto

lemma split_inv_step:
  assumes "split_inv eagle groups i gs"
  shows "split_inv eagle groups (Suc i) (join_spec_group i (kg_spec (groups ! i)) (i \<in> set eagle) gs)"
  unfolding split_inv_def
proof (intro conjI ballI)
  show "distinct (concat (map sg_group_ids (join_spec_group i (kg_spec (groups ! i)) (i \<in> set eagle) gs)))"
    using assms by (intro distinct_join_spec_group) (simp_all add: split_inv_def del: set_concat)
  show "set (concat (map sg_group_ids (join_spec_group i (kg_spec (groups ! i)) (i \<in> set eagle) gs))) = {..<Suc i}"
    using assms unfolding set_join_spec_group split_inv_def by auto
  show "distinct (map sg_spec (join_spec_group i (kg_spec (groups ! i)) (i \<in> set eagle) gs))"
    using assms unfolding specs_join_spec_group split_inv_def by simp
qed (use assms in \<open>auto simp: split_inv_def dest!: join_spec_group_members\<close>)

lemma split_fold:
  "split_inv eagle groups i gs \<Longrightarrow> drop i groups = rest \<Longrightarrow>
     split_inv eagle groups (i + length rest)
       (fold (\<lambda>(i, g). join_spec_group i (kg_spec g) (i \<in> set eagle)) (enumerate i rest) gs)"
proof (induction rest arbitrary: i gs)
  case (Cons g rest)
  have g: "groups ! i = g" "drop (Suc i) groups = rest"
    using Cons.prems(2) by (metis nth_via_drop, metis drop_Suc list.sel(3) tl_drop)
  have "split_inv eagle groups (Suc i) (join_spec_group i (kg_spec g) (i \<in> set eagle) gs)"
    using split_inv_step [OF Cons.prems(1)] g(1) by simp
  from Cons.IH [OF this g(2)] show ?case by simp
qed simp

lemma split_groups_inv:
  "split_inv (co_eagle_group_ids co) (cf_kv_cache_groups (co_config co)) (length (cf_kv_cache_groups (co_config co)))
     (split_kv_cache_groups co)"
proof -
  let ?G = "cf_kv_cache_groups (co_config co)" and ?e = "co_eagle_group_ids co"
  let ?gs = "fold (\<lambda>(i, g). join_spec_group i (kg_spec g) (i \<in> set ?e)) (enumerate 0 ?G) []"
  let ?P = "\<lambda>g. is_full_attention (sp_kind (sg_spec g))"
  have inv: "split_inv ?e ?G (length ?G) ?gs"
    using split_fold [of ?e ?G 0 "[]" ?G] by (simp add: split_inv_def)
  have "mset (concat (map sg_group_ids (filter ?P gs @ filter (\<lambda>g. \<not> ?P g) gs))) = mset (concat (map sg_group_ids gs))" for gs
    by (induction gs) auto
  then have m: "mset (concat (map sg_group_ids (split_kv_cache_groups co))) = mset (concat (map sg_group_ids ?gs))"
    by (simp only: split_kv_cache_groups_def Let_def)
  have "mset (map sg_spec (filter ?P gs @ filter (\<lambda>g. \<not> ?P g) gs)) = mset (map sg_spec gs)" for gs
    by (induction gs) auto
  then have m': "mset (map sg_spec (split_kv_cache_groups co)) = mset (map sg_spec ?gs)"
    by (simp only: split_kv_cache_groups_def Let_def)
  have "set (split_kv_cache_groups co) = set ?gs" by (auto simp: split_kv_cache_groups_def Let_def)
  then show ?thesis using inv mset_eq_setD [OF m] mset_eq_imp_distinct_iff [OF m] mset_eq_imp_distinct_iff [OF m']
    by (simp add: split_inv_def)
qed

lemma split_groups_full_first:
  "\<exists>as bs. split_kv_cache_groups co = as @ bs \<and> (\<forall>g \<in> set as. is_full_group g) \<and> (\<forall>g \<in> set bs. \<not> is_full_group g)"
  unfolding split_kv_cache_groups_def Let_def by (intro exI conjI) (rule refl, auto)

section \<open>Properties\<close>

text \<open>What the constructor leaves: the groups of the configuration, split by specification.\<close>

definition hybrid_coordinator :: "coordinator \<Rightarrow> bool" where
  "hybrid_coordinator co \<longleftrightarrow> co_class co = HybridKVCacheCoordinator \<and>
     co_attention_groups co = split_kv_cache_groups co \<and> co_attention_groups co \<noteq> [] \<and> 0 < co_hash_block_size co \<and>
     (\<forall>g \<in> set (cf_kv_cache_groups (co_config co)).
        sp_block_size (kg_spec g) mod co_hash_block_size co = 0 \<and>
        co_scheduler_block_size co mod sp_block_size (kg_spec g) = 0)"

lemma new_base_coordinator_fields:
  assumes "new_base_coordinator cls config mml mnbt ue ec ev dcp pcp sbs hbs ints met ret = Inr co"
  shows "co_class co = cls \<and> co_config co = config \<and> co_hash_block_size co = hbs \<and> co_scheduler_block_size co = sbs \<and>
    (\<forall>g \<in> set (cf_kv_cache_groups config). sbs mod sp_block_size (kg_spec g) = 0)"
  using assms by (auto simp: new_base_coordinator_def Let_def res_simps)

lemma new_hybrid_coordinator:
  assumes "get_kv_cache_coordinator config mml mnbt ue True ev dcp pcp sbs hbs ints met ret = Inr co"
    and "length (cf_kv_cache_groups config) \<noteq> 1" "0 < hbs"
  shows "hybrid_coordinator co"
proof -
  obtain co0 where c: "new_base_coordinator HybridKVCacheCoordinator config mml mnbt ue True ev dcp pcp sbs hbs ints met ret = Inr co0"
    and f: "finish_hybrid co0 = Inr co"
    using assms(1,2) by (auto simp: get_kv_cache_coordinator_def Let_def rbind_eq_Inr)
  note b = new_base_coordinator_fields [OF c]
  from f have g: "\<forall>g \<in> set (cf_kv_cache_groups (co_config co0)). sp_block_size (kg_spec g) mod co_hash_block_size co0 = 0"
      "length (split_kv_cache_groups co0) > 1"
    and co: "co = co0\<lparr>co_attention_groups := split_kv_cache_groups co0,
      co_managers := flag_managers (split_kv_cache_groups co0) (co_managers co0)\<rparr>"
    by (auto simp: finish_hybrid_def Let_def res_simps)
  have "split_kv_cache_groups co = split_kv_cache_groups co0"
    by (simp add: split_kv_cache_groups_def co)
  then show ?thesis using b g assms(3) by (auto simp: hybrid_coordinator_def co)
qed

lemma covers_window_nth:
  "covers_window p spec hl gs res k \<Longrightarrow> j < length gs \<Longrightarrow> covers_window p spec hl [gs ! j] [res ! j] k"
  by (simp add: covers_window_def)

lemma chunked_args_weaken: "chunked_args_ok spec e al \<Longrightarrow> d \<longrightarrow> e \<Longrightarrow> chunked_args_ok spec d al"
  by (auto simp: chunked_args_ok_def split: spec_kind.splits)

lemma block_hashes_available:
  assumes "0 < hbs" "0 < bs" "bs mod hbs = 0" "sp_block_size spec = bs" "n div hbs \<le> int (length hashes)"
  shows "\<exists>hl. get_block_hashes hbs spec hashes = Inr hl \<and> hl_valid hl \<and> n div bs \<le> hl_len hl"
proof (cases "bs = hbs")
  case True
  then show ?thesis using assms by (simp add: get_block_hashes_def)
next
  case False
  define q where "q = bs div hbs"
  have q: "bs = hbs * q" "0 < q" using assms(1-3) by (auto simp: q_def intro: pos_imp_zdiv_pos_iff [THEN iffD2] zdvd_imp_le)
  have "n div bs = n div hbs div q" using assms(1) q by (simp add: zdiv_zmult2_eq)
  also have "\<dots> \<le> int (length hashes) div q" using assms(5) q(2) by (intro zdiv_mono1) simp_all
  finally show ?thesis using False assms(1,3,4) q(2)
    by (simp add: get_block_hashes_def new_block_hash_list_def bl_len_def q_def)
qed

text \<open>The hypotheses on the configuration, for each cache group.\<close>

definition group_config_ok :: "coordinator \<Rightarrow> nat \<Rightarrow> bool" where
  "group_config_ok co i \<longleftrightarrow> (let spec = kg_spec (cf_kv_cache_groups (co_config co) ! i) in
     spec_ok spec \<and> chunked_args_ok spec (i \<in> set (co_eagle_group_ids co)) (co_scheduler_block_size co) \<and>
     (i \<in> set (co_eagle_group_ids co) \<longrightarrow> \<not> is_mamba (sp_kind spec)))"

lemma lookup_ready_hybrid:
  fixes co hashes n
  defines "groups \<equiv> cf_kv_cache_groups (co_config co)"
  assumes co: "hybrid_coordinator co" and wf: "hash_ok (co_pool co)" "pool_wf (co_pool co)"
    and len: "int (length groups) < 2 ^ 32" and cfg: "\<forall>i < length groups. group_config_ok co i"
    and n: "n div co_hash_block_size co \<le> int (length hashes)"
  shows "lookup_ready (co, hashes, n)"
  unfolding lookup_ready_def prod.case
proof (intro conjI ballI wf)
  fix g assume "g \<in> set (co_attention_groups co)"
  then have g: "g \<in> set (split_kv_cache_groups co)" using co by (simp add: hybrid_coordinator_def)
  note inv = split_groups_inv [of co, folded groups_def]
  have ids: "sg_group_ids g \<noteq> []" "\<forall>j \<in> set (sg_group_ids g). j < length groups"
    "\<forall>j \<in> set (sg_group_ids g). sg_spec g = kg_spec (groups ! j)"
    "sg_use_eagle g \<longleftrightarrow> (\<exists>j \<in> set (sg_group_ids g). j \<in> set (co_eagle_group_ids co))"
    using inv g by (auto simp: split_inv_def)
  obtain j where j: "j \<in> set (sg_group_ids g)" using ids(1) by (cases "sg_group_ids g") auto
  have cj: "group_config_ok co j'" if "j' \<in> set (sg_group_ids g)" for j' using that ids(2) cfg by blast
  have spec: "sg_spec g = kg_spec (groups ! j')" if "j' \<in> set (sg_group_ids g)" for j' using that ids(3) by blast
  show "spec_ok (sg_spec g)" using cj [OF j] spec [OF j] by (simp add: group_config_ok_def Let_def groups_def)
  show "group_ids_ok (map int (sg_group_ids g))" using ids(1,2) len by (force simp: group_ids_ok_def)
  have size: "sp_block_size (kg_spec (groups ! j)) mod co_hash_block_size co = 0"
    "co_scheduler_block_size co mod sp_block_size (kg_spec (groups ! j)) = 0" "0 < co_hash_block_size co"
    using co ids(2) j by (auto simp: hybrid_coordinator_def groups_def)
  show "co_scheduler_block_size co mod group_size g = 0" using size(2) spec [OF j] by simp
  show "\<forall>d. (d \<longrightarrow> sg_use_eagle g) \<longrightarrow> chunked_args_ok (sg_spec g) d (co_scheduler_block_size co)"
  proof (intro allI impI)
    fix d assume "d \<longrightarrow> sg_use_eagle g"
    then obtain j' where "j' \<in> set (sg_group_ids g)" "d \<longrightarrow> j' \<in> set (co_eagle_group_ids co)"
      using ids(4) j by blast
    then show "chunked_args_ok (sg_spec g) d (co_scheduler_block_size co)"
      using cj [of j'] spec [of j']
      by (auto simp: group_config_ok_def Let_def groups_def intro: chunked_args_weaken)
  qed
  show "sg_use_eagle g \<longrightarrow> \<not> is_mamba (sp_kind (sg_spec g))"
  proof
    assume "sg_use_eagle g"
    then obtain j' where "j' \<in> set (sg_group_ids g)" "j' \<in> set (co_eagle_group_ids co)" using ids(4) by blast
    then show "\<not> is_mamba (sp_kind (sg_spec g))"
      using cj [of j'] spec [of j'] by (simp add: group_config_ok_def Let_def groups_def)
  qed
  have "0 < group_size g" using \<open>spec_ok (sg_spec g)\<close> by (simp add: spec_ok_def)
  then show "\<exists>hl. get_block_hashes (co_hash_block_size co) (sg_spec g) hashes = Inr hl \<and> hl_valid hl \<and>
      n div group_size g \<le> hl_len hl"
    using block_hashes_available [OF size(3) _ _ refl n] size(1) spec [OF j] by simp
qed

lemma full_group_unique:
  assumes inv: "split_inv eagle groups n (split_kv_cache_groups co)"
    and g: "g \<in> set (split_kv_cache_groups co)" "is_full_group g"
    and one: "\<forall>j < n. is_full_attention (sp_kind (kg_spec (groups ! j))) \<longrightarrow> kg_spec (groups ! j) = sg_spec g"
  shows "g = hd (split_kv_cache_groups co)"
proof -
  let ?gs = "split_kv_cache_groups co"
  obtain as bs where ab: "?gs = as @ bs" "\<forall>g \<in> set as. is_full_group g" "\<forall>g \<in> set bs. \<not> is_full_group g"
    using split_groups_full_first by blast
  have "g \<in> set as" using g ab by auto
  then have hd: "hd ?gs \<in> set ?gs" "is_full_group (hd ?gs)" using ab by (cases as; simp)+
  have "sg_group_ids (hd ?gs) \<noteq> []" using inv hd(1) by (auto simp: split_inv_def)
  then obtain j where j: "j \<in> set (sg_group_ids (hd ?gs))" by (cases "sg_group_ids (hd ?gs)") auto
  have "j \<in> set (concat (map sg_group_ids ?gs))" using j hd(1) by auto
  then have "j < n" using inv unfolding split_inv_def by blast
  moreover have "sg_spec (hd ?gs) = kg_spec (groups ! j)" using inv hd(1) j by (auto simp: split_inv_def)
  ultimately have "sg_spec (hd ?gs) = sg_spec g" using one hd(2) by simp
  moreover have "inj_on sg_spec (set ?gs)" using inv by (simp add: split_inv_def distinct_map)
  ultimately show ?thesis using g(1) hd(1) by (auto dest: inj_onD)
qed

lemma group_is_served:
  fixes co hashes
  defines "groups \<equiv> cf_kv_cache_groups (co_config co)" and "gs \<equiv> co_attention_groups co"
  assumes inv: "split_inv eagle groups (length groups) gs" and gs: "gs = split_kv_cache_groups co"
    and serve: "\<forall>g \<in> set gs. pl.serves_exactly (co, hashes, n) g (rows_of blocks g) hit"
    and i: "i < length groups" "spec = kg_spec (groups ! i)"
  shows "\<exists>hl k. get_block_hashes (co_hash_block_size co) spec hashes = Inr hl \<and>
    covers_window (co_pool co) spec hl [int i] [blocks ! i] k \<and> hit \<le> int k * sp_block_size spec \<and>
    ((\<forall>j < length groups. is_full_attention (sp_kind spec) \<and>
         is_full_attention (sp_kind (kg_spec (groups ! j))) \<longrightarrow> kg_spec (groups ! j) = spec) \<longrightarrow>
     int k * sp_block_size spec = hit)"
proof -
  have "i \<in> set (concat (map sg_group_ids gs))" using inv i(1) unfolding split_inv_def by blast
  then obtain g where g: "g \<in> set gs" "i \<in> set (sg_group_ids g)" by auto
  have sg: "sg_spec g = spec" using inv g i(2) by (auto simp: split_inv_def)
  obtain c where c: "c < length (sg_group_ids g)" "sg_group_ids g ! c = i" using g(2) by (auto simp: in_set_conv_nth)
  from serve g(1) obtain k where k: "group_found (co, hashes, n) g (rows_of blocks g) k" "hit \<le> int k * group_size g"
    "\<not> is_full_group g \<or> g = hd gs \<longrightarrow> int k * group_size g = hit" by (auto simp: pl.serves_exactly_def gs_def)
  then obtain hl where hl: "get_block_hashes (co_hash_block_size co) (sg_spec g) hashes = Inr hl"
    "covers_window (co_pool co) (sg_spec g) hl (map int (sg_group_ids g)) (rows_of blocks g) k"
    by (auto simp: group_found_def)
  have "covers_window (co_pool co) spec hl [int i] [blocks ! i] k"
    using covers_window_nth [OF hl(2), of c] c by (simp add: sg rows_of_def)
  moreover have "int k * sp_block_size spec = hit" if "\<forall>j < length groups. is_full_attention (sp_kind spec) \<and>
      is_full_attention (sp_kind (kg_spec (groups ! j))) \<longrightarrow> kg_spec (groups ! j) = spec"
    using k(3) that full_group_unique [OF inv [unfolded gs] g(1) [unfolded gs]] sg gs by auto
  ultimately show ?thesis using hl(1) k(2) sg by auto
qed


section \<open>Witness and counterexamples\<close>

text \<open>A pool in which the first \<open>k\<close> blocks of a request are cached for some groups.\<close>

definition fill_cache ::
  "hash_env \<Rightarrow> request \<Rightarrow> nat \<Rightarrow> int \<Rightarrow> block_ref list \<Rightarrow> nat \<times> int \<times> bool list option \<Rightarrow> block_pool \<Rightarrow> block_pool res" where
  "fill_cache env r k bsz blocks igm =
     (case igm of (i, g, flags) \<Rightarrow>
        cache_full_blocks env r (take k (drop (i * k) blocks)) 0 (int k) bsz g flags)"

definition filled_pool ::
  "int \<Rightarrow> request \<Rightarrow> nat \<Rightarrow> int \<Rightarrow> (int \<times> bool list option) list \<Rightarrow> block_pool res" where
  "filled_pool num_blocks r k bsz gms =
     rbind (new_block_pool num_blocks True bsz False False False) (\<lambda>p0.
     rbind (get_new_blocks (int (k * length gms)) p0) (\<lambda>(blocks, p1).
     rfold (fill_cache demo_env r k bsz blocks) (enumerate 0 gms) p1))"

definition filled_coordinator ::
  "int \<Rightarrow> kv_cache_group list \<Rightarrow> bool \<Rightarrow> request \<Rightarrow> nat \<Rightarrow> int \<Rightarrow> (int \<times> bool list option) list \<Rightarrow> coordinator res" where
  "filled_coordinator num_blocks groups use_eagle r k bsz gms =
     rbind (filled_pool num_blocks r k bsz gms) (\<lambda>p.
     rbind (get_kv_cache_coordinator \<lparr>cf_num_blocks = num_blocks, cf_kv_cache_groups = groups\<rparr> 100 100 use_eagle True False
              1 1 bsz bsz False False None) (\<lambda>co.
     Inr (co\<lparr>co_pool := p\<rparr>)))"

lemma filled_pool_traced:
  assumes "filled_pool num_blocks r k bsz gms = Inr p" "0 < num_blocks" "0 < bsz"
    and cur: "hashes_current demo_env (nat bsz) r"
  shows "\<exists>T. pool_traced demo_env p T"
proof -
  obtain p0 blocks p1 where c: "new_block_pool num_blocks True bsz False False False = Inr p0"
    and a: "get_new_blocks (int (k * length gms)) p0 = Inr (blocks, p1)"
    and f: "rfold (fill_cache demo_env r k bsz blocks) (enumerate 0 gms) p1 = Inr p"
    using assms(1) by (auto simp: filled_pool_def rbind_eq_Inr)
  have t0: "pool_traced demo_env p0 (\<lambda>_. {})" by (rule pool_traced.created [OF c assms(3)])
  have hbs: "bp_hash_block_size p0 = bsz" using new_block_pool_spec [OF assms(2), of True bsz False False False] c by auto
  obtain xs where wf: "pool_wf p0" "hash_ok p0" "refs_ok p0 xs"
    using pool_traced_inv [OF t0] by (auto simp: traced_inv_def pool_inv_def)
  have n: "(0 :: int) \<le> int (k * length gms)" by simp
  have "blocks = take (nat (int (k * length gms))) xs" and view: "wf_view p1 = wf_view p0"
    using get_new_blocks_spec [OF wf n] a by (auto split: if_splits)
  then have "set blocks \<subseteq> good_blocks p0" using set_take_subset refs_okD(3) [OF wf(3)] by (metis order.trans)
  then have blocks: "set blocks \<subseteq> set (bp_blocks p1)" using view good_in_blocks by (auto simp: wf_view_def)
  have t1: "pool_traced demo_env p1 (\<lambda>b. if b \<in> set blocks then {} else {})"
    by (rule pool_traced.allocated [OF t0 n a])
  let ?P = "\<lambda>p. (\<exists>T. pool_traced demo_env p T) \<and> bp_hash_block_size p = bsz \<and> set blocks \<subseteq> set (bp_blocks p)"
  have "?P p"
  proof (rule rfold_inv [OF f])
    show "?P p1" using t1 get_new_blocks_config [OF a] blocks hbs by (auto simp: config_of_def)
    fix igm p p' assume P: "?P p" and run: "fill_cache demo_env r k bsz blocks igm p = Inr p'"
    obtain T where T: "pool_traced demo_env p T" using P by blast
    obtain i g flags where igm: "igm = (i, g, flags)" by (cases igm)
    let ?bs = "take k (drop (i * k) blocks)"
    have c: "cache_full_blocks demo_env r ?bs 0 (int k) bsz g flags p = Inr p'"
      using run by (simp add: fill_cache_def igm)
    have bs: "set ?bs \<subseteq> set (bp_blocks p)" using P by (meson order.trans set_drop_subset set_take_subset)
    have "hashes_current demo_env (nat (bp_hash_block_size p)) r" using cur P by simp
    from pool_traced.cached [OF T bs order.refl assms(3) this c]
    have "\<exists>T. pool_traced demo_env p' T" by blast
    moreover have "bp_hash_block_size p' = bsz" using cache_full_blocks_config [OF c] P by (simp add: config_of_def)
    moreover obtain xs where "pool_wf p" "hash_ok p"
      using pool_traced_inv [OF T] by (auto simp: traced_inv_def pool_inv_def)
    then have "bp_blocks p' = bp_blocks p"
      using cache_full_blocks_spec [OF _ _ bs order.refl c] caches_blocks by blast
    ultimately show "?P p'" using P by simp
  qed
  then show ?thesis by blast
qed

lemma filled_coordinator_traced:
  assumes "filled_coordinator num_blocks groups use_eagle r k bsz gms = Inr co" "0 < num_blocks" "0 < bsz"
    and "hashes_current demo_env (nat bsz) r" "length groups \<noteq> 1"
  shows "hybrid_coordinator co \<and> (\<exists>T. pool_traced demo_env (co_pool co) T)"
proof -
  let ?config = "\<lparr>cf_num_blocks = num_blocks, cf_kv_cache_groups = groups\<rparr>"
  obtain co0 p where f: "filled_pool num_blocks r k bsz gms = Inr p"
    and c: "get_kv_cache_coordinator ?config 100 100 use_eagle True False 1 1 bsz bsz False False None = Inr co0"
    and co: "co = co0\<lparr>co_pool := p\<rparr>"
    using assms(1) by (auto simp: filled_coordinator_def rbind_eq_Inr)
  have h: "hybrid_coordinator co0" using new_hybrid_coordinator [OF c] assms(3,5) by simp
  have "split_kv_cache_groups co = split_kv_cache_groups co0"
    by (simp add: split_kv_cache_groups_def co)
  then have "hybrid_coordinator co" using h unfolding hybrid_coordinator_def co by (elim conjE) simp
  then show ?thesis using filled_pool_traced [OF f assms(2-4)] by (simp add: co)
qed

declare hit_loop.simps [code]

definition cache_group :: "spec_kind \<Rightarrow> int \<Rightarrow> nat \<Rightarrow> kv_cache_group" where
  "cache_group kind block_size layout =
     \<lparr>kg_spec = \<lparr>sp_kind = kind, sp_block_size = block_size, sp_layout = layout\<rparr>, kg_is_eagle_group = False\<rparr>"

text \<open>A full and a sliding-window group; both blocks of \<open>demo_prefix\<close> are cached for both.\<close>

definition two_groups :: "kv_cache_group list" where
  "two_groups = [cache_group FullAttentionSpec 2 0, cache_group (SlidingWindowSpec 2) 2 0]"

definition two_filled :: "coordinator res" where
  "two_filled = filled_coordinator 6 two_groups False demo_prefix 2 2 [(0, None), (1, None)]"

definition found_by :: "bytes list \<Rightarrow> int \<Rightarrow> coordinator res \<Rightarrow> (block_ref list list \<times> int) res option" where
  "found_by hashes n r =
     (case r of Inl e \<Rightarrow> None
      | Inr co \<Rightarrow> map_option (\<lambda>r. rbind r (\<lambda>(blocks, hit, _). Inr (blocks, hit)))
                    (coordinator_find_longest_cache_hit hashes n co))"

lemma two_filled_finds:
  "found_by (rq_block_hashes demo_prefix) 4 two_filled = Some (Inr ([[Blk 1, Blk 2], [Blk 0, Blk 4]], 4))"
  by code_simp


text \<open>Counterexample: a Mamba group among the EAGLE groups, which is what the fallback
  \<open>use_eagle and not self.eagle_group_ids\<close> produces for a full-attention and Mamba model.  The
  Mamba lookup ignores the drop, so the pass raises the length back above what full attention
  found: the lookup returns four tokens as computed with one block of two tokens for the
  full-attention group.\<close>

lemma mamba_in_eagle_group_overstates_the_hit:
  "found_by (rq_block_hashes demo_prefix) 4
     (filled_coordinator 6 [cache_group FullAttentionSpec 2 0, cache_group (MambaSpec MambaAll 0) 2 0] True
        demo_prefix 2 2 [(0, None), (1, None)]) = Some (Inr ([[Blk 1], [Blk 0, Blk 4]], 4))"
  by code_simp

text \<open>Counterexample: with two different full-attention specifications only the first is
  truncated to the final length.  Here the window group limits the hit to two tokens and the
  second full-attention group still returns three blocks of one token.\<close>

lemma second_full_group_is_not_truncated:
  "found_by (rq_block_hashes five_tokens) 3
     (filled_coordinator 10 [cache_group FullAttentionSpec 1 0, cache_group FullAttentionSpec 1 1,
          cache_group (SlidingWindowSpec 2) 1 0] False five_tokens 3 1
        [(0, None), (1, None), (2, Some [False, True, False])]) =
     Some (Inr ([[Blk 1, Blk 2], [Blk 4, Blk 5, Blk 6], [Blk 0, Blk 8]], 2))"
  by code_simp

end
