(* ===== verification/KVManager.thy ===== *)
theory KVManager
  imports Coordinator
begin

text \<open>
  \<open>KVCacheBlocks\<close> and \<open>KVCacheManager\<close> of \<^verbatim>\<open>vllm/v1/core/kv_cache_manager.py\<close>: what the scheduler
  calls to look up cached blocks, to admit a request and give it slots, to release it, and to plan
  and commit a change of tier of its blocks.

  The source compares the shared empty \<open>KVCacheBlocks\<close> by identity, so it has a constructor of its
  own.  The watermark, a Python float, is a rational.  \<open>get_blocks\<close> returns the managers' own
  lists: a commit that overwrites an entry of them is an update of \<open>req_to_blocks\<close>.
\<close>

section \<open>\<open>KVCacheBlocks\<close>\<close>

datatype kv_cache_blocks =
    EmptyKVCacheBlocks nat
  | KVCacheBlocks "block_ref list list"

fun kvb_blocks :: "kv_cache_blocks \<Rightarrow> block_ref list list" where
  "kvb_blocks (EmptyKVCacheBlocks n) = replicate n []"
| "kvb_blocks (KVCacheBlocks blocks) = blocks"

definition kvb_add :: "kv_cache_blocks \<Rightarrow> kv_cache_blocks \<Rightarrow> kv_cache_blocks" where
  "kvb_add a b = KVCacheBlocks (map2 (@) (kvb_blocks a) (kvb_blocks b))"

definition get_block_ids :: "block_pool \<Rightarrow> bool \<Rightarrow> kv_cache_blocks \<Rightarrow> int list list option" where
  "get_block_ids p allow_none b =
     (if allow_none \<and> (\<forall>cache_group \<in> set (kvb_blocks b). length cache_group = 0) then None
      else Some (map (map (\<lambda>b. kb_block_id (blk p b))) (kvb_blocks b)))"

definition get_unhashed_block_ids :: "block_pool \<Rightarrow> kv_cache_blocks \<Rightarrow> int list res" where
  "get_unhashed_block_ids p b =
     rbind (check (length (kvb_blocks b) = 1) AssertionError) (\<lambda>_.
     Inr (map (\<lambda>b. kb_block_id (blk p b))
            (filter (\<lambda>b. kb_block_hash (blk p b) = None) (kvb_blocks b ! 0))))"

definition get_unhashed_block_ids_all_groups :: "block_pool \<Rightarrow> kv_cache_blocks \<Rightarrow> int list list" where
  "get_unhashed_block_ids_all_groups p b =
     map (\<lambda>cache_group. map (\<lambda>b. kb_block_id (blk p b))
            (filter (\<lambda>b. kb_block_hash (blk p b) = None \<and> \<not> kb_is_null (blk p b)) cache_group))
       (kvb_blocks b)"

definition new_empty :: "kv_cache_blocks \<Rightarrow> kv_cache_blocks" where
  "new_empty b = KVCacheBlocks (replicate (length (kvb_blocks b)) [])"

section \<open>The manager\<close>

record prefix_cache_stats =
  ps_reset :: bool
  ps_requests :: nat
  ps_queries :: int
  ps_hits :: int
  ps_preempted_requests :: nat
  ps_preempted_queries :: int
  ps_preempted_hits :: int

definition new_prefix_cache_stats :: prefix_cache_stats where
  "new_prefix_cache_stats =
     \<lparr>ps_reset = False, ps_requests = 0, ps_queries = 0, ps_hits = 0,
      ps_preempted_requests = 0, ps_preempted_queries = 0, ps_preempted_hits = 0\<rparr>"

definition record_stats :: "int \<Rightarrow> int \<Rightarrow> bool \<Rightarrow> prefix_cache_stats \<Rightarrow> prefix_cache_stats" where
  "record_stats num_tokens num_hits preempted s =
     (if preempted
      then s\<lparr>ps_preempted_requests := ps_preempted_requests s + 1,
             ps_preempted_queries := ps_preempted_queries s + num_tokens,
             ps_preempted_hits := ps_preempted_hits s + num_hits\<rparr>
      else s\<lparr>ps_requests := ps_requests s + 1, ps_queries := ps_queries s + num_tokens,
             ps_hits := ps_hits s + num_hits\<rparr>)"

record kv_cache_manager =
  km_max_model_len :: int
  km_enable_caching :: bool
  km_log_stats :: bool
  km_prefix_cache_stats :: "prefix_cache_stats option"
  km_coordinator :: coordinator
  km_num_kv_cache_groups :: nat
  km_block_sizes :: "int list"
  km_watermark_blocks :: int
  km_event_metadata :: "(kv_cache_spec_kind \<times> int option) list"

abbreviation km_pool :: "kv_cache_manager \<Rightarrow> block_pool" where
  "km_pool km \<equiv> co_pool (km_coordinator km)"

definition set_pool :: "block_pool \<Rightarrow> kv_cache_manager \<Rightarrow> kv_cache_manager" where
  "set_pool p km = km\<lparr>km_coordinator := (km_coordinator km)\<lparr>co_pool := p\<rparr>\<rparr>"

definition new_kv_cache_manager ::
  "kv_cache_config \<Rightarrow> int \<Rightarrow> int \<Rightarrow> int \<Rightarrow> int option \<Rightarrow> bool \<Rightarrow> bool \<Rightarrow> bool \<Rightarrow> bool \<Rightarrow> int \<Rightarrow> int
     \<Rightarrow> bool \<Rightarrow> bool \<Rightarrow> int option \<Rightarrow> rat \<Rightarrow> kv_cache_manager res" where
  "new_kv_cache_manager config max_model_len scheduler_block_size hash_block_size
       max_num_batched_tokens enable_caching use_eagle log_stats enable_kv_cache_events
       dcp_world_size pcp_world_size use_int_block_hashes with_metrics retention_interval watermark =
     rbind (get_kv_cache_coordinator config max_model_len
              (case max_num_batched_tokens of None \<Rightarrow> max_model_len | Some n \<Rightarrow> n)
              use_eagle enable_caching enable_kv_cache_events dcp_world_size pcp_world_size
              scheduler_block_size hash_block_size use_int_block_hashes with_metrics
              retention_interval) (\<lambda>co.
     rbind (check (watermark \<ge> 0) AssertionError) (\<lambda>_.
     Inr \<lparr>km_max_model_len = max_model_len, km_enable_caching = enable_caching,
          km_log_stats = log_stats,
          km_prefix_cache_stats = (if log_stats then Some new_prefix_cache_stats else None),
          km_coordinator = co, km_num_kv_cache_groups = length (cf_kv_cache_groups config),
          km_block_sizes = map sm_block_size (co_managers co),
          km_watermark_blocks = \<lfloor>watermark * of_int (cf_num_blocks config)\<rfloor>,
          km_event_metadata =
            map (\<lambda>g. (get_kv_cache_spec_kind (sp_kind (kg_spec g)), sliding_window_of (sp_kind (kg_spec g))))
              (cf_kv_cache_groups config)\<rparr>))"

definition usage :: "kv_cache_manager \<Rightarrow> rat" where
  "usage km = get_usage (km_pool km)"

definition make_prefix_cache_stats ::
  "kv_cache_manager \<Rightarrow> prefix_cache_stats option \<times> kv_cache_manager" where
  "make_prefix_cache_stats km =
     (if \<not> km_log_stats km then (None, km)
      else (km_prefix_cache_stats km, km\<lparr>km_prefix_cache_stats := Some new_prefix_cache_stats\<rparr>))"

definition create_kv_cache_blocks :: "kv_cache_manager \<Rightarrow> block_ref list list \<Rightarrow> kv_cache_blocks" where
  "create_kv_cache_blocks km blocks =
     (if \<exists>b \<in> set blocks. b \<noteq> [] then KVCacheBlocks blocks
      else EmptyKVCacheBlocks (km_num_kv_cache_groups km))"

definition get_computed_blocks ::
  "request \<Rightarrow> kv_cache_manager \<Rightarrow> (kv_cache_blocks \<times> int \<times> kv_cache_manager) res option" where
  "get_computed_blocks r km =
     (if \<not> km_enable_caching km \<or> rq_skip_reading_prefix_cache r
      then Some (Inr (EmptyKVCacheBlocks (km_num_kv_cache_groups km), 0, km))
      else
        map_option (\<lambda>res. rbind res (\<lambda>(computed_blocks, num_new_computed_tokens, co).
            let km1 = km\<lparr>km_coordinator := co\<rparr> in
            if \<not> km_log_stats km
            then Inr (create_kv_cache_blocks km computed_blocks, num_new_computed_tokens, km1)
            else case km_prefix_cache_stats km of
              None \<Rightarrow> Inl AssertionError
            | Some s \<Rightarrow>
                Inr (create_kv_cache_blocks km computed_blocks, num_new_computed_tokens,
                     km1\<lparr>km_prefix_cache_stats :=
                           Some (record_stats (int (rq_num_tokens r)) num_new_computed_tokens
                                   (rq_num_preemptions r > 0) s)\<rparr>)))
          (coordinator_find_longest_cache_hit (rq_block_hashes r) (int (rq_num_tokens r) - 1)
             (km_coordinator km)))"

section \<open>Slots for a request\<close>

text \<open>The admission gate for the whole sequence.\<close>

definition full_sequence_fits ::
  "request \<Rightarrow> block_ref list list \<Rightarrow> int \<Rightarrow> int \<Rightarrow> int \<Rightarrow> kv_cache_manager \<Rightarrow> (bool \<times> kv_cache_manager) res"
where
  "full_sequence_fits r new_computed_block_list num_encoder_tokens total_computed_tokens
       watermark_blocks km =
     (let full_num_tokens = min (int (rq_num_tokens r)) (km_max_model_len km) in
      rbind (coordinator_num_blocks_to_allocate (rq_request_id r) full_num_tokens
               new_computed_block_list num_encoder_tokens total_computed_tokens full_num_tokens True
               (km_coordinator km)) (\<lambda>(n, co).
      Inr (n + watermark_blocks \<le> get_num_free_blocks (co_pool co), km\<lparr>km_coordinator := co\<rparr>)))"

text \<open>Release of the skipped blocks and the check for the tokens of this step.\<close>

definition slots_fit ::
  "string \<Rightarrow> int \<Rightarrow> int \<Rightarrow> block_ref list list \<Rightarrow> int \<Rightarrow> int \<Rightarrow> int \<Rightarrow> int \<Rightarrow> int \<Rightarrow> coordinator
     \<Rightarrow> (bool \<times> coordinator) res" where
  "slots_fit request_id num_tokens_need_slot num_tokens_main_model new_computed_block_list
       num_encoder_tokens total_computed_tokens uncapped_computed_tokens watermark_blocks
       reserved_blocks co =
     rbind (coordinator_remove_skipped_blocks request_id total_computed_tokens co) (\<lambda>co1.
     rbind (coordinator_num_blocks_to_allocate request_id num_tokens_need_slot
              new_computed_block_list num_encoder_tokens uncapped_computed_tokens
              num_tokens_main_model False co1) (\<lambda>(n, co2).
     Inr (n + watermark_blocks \<le> get_num_free_blocks (co_pool co2) - reserved_blocks, co2)))"

text \<open>The allocation of an admitted request.\<close>

definition allocate_admitted ::
  "string \<Rightarrow> int \<Rightarrow> int \<Rightarrow> block_ref list list \<Rightarrow> bool \<Rightarrow> int \<Rightarrow> int \<Rightarrow> int \<Rightarrow> coordinator
     \<Rightarrow> (block_ref list list \<times> coordinator) res" where
  "allocate_admitted request_id num_tokens_need_slot num_tokens_main_model new_computed_block_list
       is_shared_empty num_encoder_tokens num_local_computed_tokens num_external_computed_tokens co =
     rbind (if \<not> is_shared_empty \<or> num_external_computed_tokens > 0
            then allocate_new_computed_blocks request_id new_computed_block_list
                   num_local_computed_tokens num_external_computed_tokens co
            else Inr co) (\<lambda>co1.
     coordinator_allocate_new_blocks request_id num_tokens_need_slot num_tokens_main_model
       num_encoder_tokens co1)"

definition is_shared_empty :: "kv_cache_blocks option \<Rightarrow> bool" where
  "is_shared_empty new_computed_blocks =
     (case new_computed_blocks of Some (KVCacheBlocks _) \<Rightarrow> False | _ \<Rightarrow> True)"

definition allocate_slots ::
  "hash_env \<Rightarrow> request \<Rightarrow> int \<Rightarrow> int \<Rightarrow> kv_cache_blocks option \<Rightarrow> int \<Rightarrow> int \<Rightarrow> bool \<Rightarrow> int \<Rightarrow> bool \<Rightarrow> int
     \<Rightarrow> bool \<Rightarrow> kv_cache_manager \<Rightarrow> (kv_cache_blocks option \<times> kv_cache_manager) res" where
  "allocate_slots env r num_new_tokens num_new_computed_tokens new_computed_blocks
       num_lookahead_tokens num_external_computed_tokens delay_cache_blocks num_encoder_tokens
       full_sequence_must_fit reserved_blocks has_scheduled_reqs km =
     (if num_new_tokens = 0 \<and> num_external_computed_tokens = 0 then Inl ValueError
      else
        let new_computed_block_list =
              (case new_computed_blocks of
                 None \<Rightarrow> replicate (km_num_kv_cache_groups km) [] | Some b \<Rightarrow> kvb_blocks b);
            num_local_computed_tokens = rq_num_computed_tokens r + num_new_computed_tokens;
            total_computed_tokens =
              min (num_local_computed_tokens + num_external_computed_tokens) (km_max_model_len km);
            watermark_blocks =
              (if has_scheduled_reqs \<and> rq_status r \<in> {WAITING, PREEMPTED}
               then km_watermark_blocks km else 0)
        in
        rbind (if full_sequence_must_fit
               then full_sequence_fits r new_computed_block_list num_encoder_tokens
                      total_computed_tokens watermark_blocks km
               else Inr (True, km)) (\<lambda>(fits, km1).
        if \<not> fits then Inr (None, km1)
        else
          let num_tokens_main_model = total_computed_tokens + num_new_tokens;
              num_tokens_need_slot =
                min (num_tokens_main_model + num_lookahead_tokens) (km_max_model_len km)
          in
          rbind (slots_fit (rq_request_id r) num_tokens_need_slot num_tokens_main_model
                   new_computed_block_list num_encoder_tokens total_computed_tokens
                   (num_local_computed_tokens + num_external_computed_tokens) watermark_blocks
                   reserved_blocks (km_coordinator km1)) (\<lambda>(fits, co2).
          if \<not> fits then Inr (None, km1\<lparr>km_coordinator := co2\<rparr>)
          else
            rbind (allocate_admitted (rq_request_id r) num_tokens_need_slot num_tokens_main_model
                     new_computed_block_list (is_shared_empty new_computed_blocks)
                     num_encoder_tokens num_local_computed_tokens num_external_computed_tokens co2)
              (\<lambda>(new_blocks, co3).
            if \<not> km_enable_caching km \<or> delay_cache_blocks
            then Inr (Some (create_kv_cache_blocks km new_blocks), km1\<lparr>km_coordinator := co3\<rparr>)
            else
              rbind (coordinator_cache_blocks env r
                       (min (total_computed_tokens + num_new_tokens) (int (rq_num_tokens r))) co3)
                (\<lambda>co4.
              Inr (Some (create_kv_cache_blocks km new_blocks), km1\<lparr>km_coordinator := co4\<rparr>))))))"

section \<open>Release, eviction, events\<close>

definition on_coordinator ::
  "(coordinator \<Rightarrow> coordinator res) \<Rightarrow> kv_cache_manager \<Rightarrow> kv_cache_manager res" where
  "on_coordinator f km = rbind (f (km_coordinator km)) (\<lambda>co. Inr (km\<lparr>km_coordinator := co\<rparr>))"

definition kv_manager_free :: "request \<Rightarrow> kv_cache_manager \<Rightarrow> kv_cache_manager res" where
  "kv_manager_free r = on_coordinator (coordinator_free (rq_request_id r))"

definition kv_manager_remove_skipped_blocks :: "string \<Rightarrow> int \<Rightarrow> kv_cache_manager \<Rightarrow> kv_cache_manager res" where
  "kv_manager_remove_skipped_blocks request_id total_computed_tokens =
     on_coordinator (coordinator_remove_skipped_blocks request_id total_computed_tokens)"

definition kv_manager_pop_blocks_for_free :: "request \<Rightarrow> kv_cache_manager \<Rightarrow> block_ref list \<times> kv_cache_manager" where
  "kv_manager_pop_blocks_for_free r km =
     (let (blocks, co) = coordinator_pop_blocks_for_free (rq_request_id r) (km_coordinator km)
      in (blocks, km\<lparr>km_coordinator := co\<rparr>))"

definition kv_manager_evict_blocks :: "int list \<Rightarrow> kv_cache_manager \<Rightarrow> kv_cache_manager res" where
  "kv_manager_evict_blocks block_ids km =
     rbind (evict_blocks block_ids (km_pool km)) (\<lambda>p. Inr (set_pool p km))"

definition kv_manager_reset_prefix_cache :: "kv_cache_manager \<Rightarrow> (bool \<times> kv_cache_manager) res" where
  "kv_manager_reset_prefix_cache km =
     (let (done, p) = reset_prefix_cache (km_pool km);
          km1 = set_pool p km
      in if \<not> done then Inr (False, km1)
         else if \<not> km_log_stats km1 then Inr (True, km1)
         else case km_prefix_cache_stats km1 of
           None \<Rightarrow> Inl AssertionError
         | Some s \<Rightarrow> Inr (True, km1\<lparr>km_prefix_cache_stats := Some (s\<lparr>ps_reset := True\<rparr>)\<rparr>))"

definition kv_manager_num_common_prefix_blocks :: "string \<Rightarrow> kv_cache_manager \<Rightarrow> int list \<times> kv_cache_manager" where
  "kv_manager_num_common_prefix_blocks running_request_id km =
     (let (ns, co) = coordinator_num_common_prefix_blocks running_request_id (km_coordinator km)
      in (ns, km\<lparr>km_coordinator := co\<rparr>))"

text \<open>A stored block is annotated with the kind and window of its group.\<close>

definition annotate_event ::
  "(kv_cache_spec_kind \<times> int option) list \<Rightarrow> kv_cache_event
     \<Rightarrow> kv_cache_event \<times> (kv_cache_spec_kind \<times> int option) option" where
  "annotate_event metadata event =
     (event,
      case event of
        BlockStored hashes parent_hash tokens bsz lora extra group_idx \<Rightarrow>
          if group_idx < 0 \<or> group_idx \<ge> int (length metadata) then None
          else Some (metadata ! nat group_idx)
      | _ \<Rightarrow> None)"

definition kv_manager_take_events ::
  "kv_cache_manager \<Rightarrow> (kv_cache_event \<times> (kv_cache_spec_kind \<times> int option) option) list \<times> kv_cache_manager" where
  "kv_manager_take_events km =
     (let (events, p) = take_events (km_pool km)
      in (map (annotate_event (km_event_metadata km)) events, set_pool p km))"

definition get_blocks :: "string \<Rightarrow> kv_cache_manager \<Rightarrow> kv_cache_blocks" where
  "get_blocks request_id km =
     create_kv_cache_blocks km (coordinator_get_blocks request_id (km_coordinator km))"

definition kv_manager_get_block_ids :: "string \<Rightarrow> kv_cache_manager \<Rightarrow> int list list option" where
  "kv_manager_get_block_ids request_id km =
     get_block_ids (km_pool km) False (get_blocks request_id km)"

definition kv_manager_cache_blocks :: "hash_env \<Rightarrow> request \<Rightarrow> int \<Rightarrow> kv_cache_manager \<Rightarrow> kv_cache_manager res" where
  "kv_manager_cache_blocks env r num_computed_tokens km =
     (if km_enable_caching km
      then on_coordinator (coordinator_cache_blocks env r num_computed_tokens) km else Inr km)"

definition kv_manager_take_new_block_ids :: "kv_cache_manager \<Rightarrow> int list \<times> kv_cache_manager" where
  "kv_manager_take_new_block_ids km =
     (let taken = map take_new_block_ids (co_managers (km_coordinator km))
      in (concat (map fst taken),
          km\<lparr>km_coordinator := (km_coordinator km)\<lparr>co_managers := map snd taken\<rparr>\<rparr>))"

definition kv_manager_new_step_starts :: "kv_cache_manager \<Rightarrow> kv_cache_manager" where
  "kv_manager_new_step_starts km =
     km\<lparr>km_coordinator := coordinator_new_step_starts (km_coordinator km)\<rparr>"

section \<open>Changes of tier\<close>

text \<open>The first block that is not complete, when a token boundary is given.\<close>

definition num_complete_blocks :: "int option \<Rightarrow> int \<Rightarrow> int option" where
  "num_complete_blocks num_computed_tokens block_size =
     map_option (\<lambda>n. n div block_size) num_computed_tokens"

definition past_boundary :: "kv_block_state \<Rightarrow> int option \<Rightarrow> nat \<Rightarrow> bool" where
  "past_boundary state complete_upto i \<longleftrightarrow>
     state \<noteq> HOT \<and> (case complete_upto of None \<Rightarrow> False | Some n \<Rightarrow> int i \<ge> n)"

definition plan_takes :: "block_pool \<Rightarrow> kv_block_state \<Rightarrow> int option \<Rightarrow> nat \<Rightarrow> block_ref \<Rightarrow> bool" where
  "plan_takes p state complete_upto i b =
     (if kb_is_null (blk p b) \<or> kb_ref_cnt (blk p b) = 0 then False
      else if kb_ref_cnt (blk p b) > 1 then False
      else if past_boundary state complete_upto i then False
      else if kb_hierarchy_state (blk p b) = state then False
      else True)"

definition plan_group ::
  "block_pool \<Rightarrow> kv_block_state \<Rightarrow> int option \<Rightarrow> block_ref list \<Rightarrow> kv_block_transition list" where
  "plan_group p state complete_upto cache_group =
     map (\<lambda>(i, b). \<lparr>bt_logical_index = int i, bt_source_hot_id = kb_block_id (blk p b)\<rparr>)
       (filter (\<lambda>(i, b). plan_takes p state complete_upto i b) (enumerate 0 cache_group))"

definition plan_request_kv_state ::
  "string \<Rightarrow> kv_block_state \<Rightarrow> int option \<Rightarrow> kv_cache_manager \<Rightarrow> kv_block_transition list list res" where
  "plan_request_kv_state request_id state num_computed_tokens km =
     rbind (check (case num_computed_tokens of None \<Rightarrow> True | Some n \<Rightarrow> \<not> n < 0) ValueError) (\<lambda>_.
     let request_blocks = kvb_blocks (get_blocks request_id km) in
     rbind (check (length request_blocks = length (km_block_sizes km)) ValueError) (\<lambda>_.
     Inr (map2 (\<lambda>cache_group block_size.
            plan_group (km_pool km) state (num_complete_blocks num_computed_tokens block_size) cache_group)
            request_blocks (km_block_sizes km))))"

definition validate_reclaim ::
  "block_pool \<Rightarrow> block_ref list \<Rightarrow> kv_block_transition \<Rightarrow> block_ref res" where
  "validate_reclaim p current_group t =
     (if bt_logical_index t \<ge> int (length current_group) then Inl ValueError
      else rbind (list_index current_group (bt_logical_index t)) (\<lambda>b.
        if kb_is_null (blk p b) then Inl ValueError
        else if kb_block_id (blk p b) \<noteq> bt_source_hot_id t then Inl ValueError
        else if kb_ref_cnt (blk p b) \<noteq> 1 then Inl ValueError
        else Inr b))"

definition validate_reclaims ::
  "block_pool \<Rightarrow> block_ref list list \<Rightarrow> kv_block_transition list list \<Rightarrow> (nat \<times> int \<times> block_ref) list res"
where
  "validate_reclaims p request_blocks changed_blocks =
     rbind (check (\<not> length changed_blocks > length request_blocks) ValueError) (\<lambda>_.
     rbind (rmap (\<lambda>(group_idx, ts). rmap (\<lambda>t.
              rbind (validate_reclaim p (request_blocks ! group_idx) t) (\<lambda>b.
              Inr (group_idx, bt_logical_index t, b))) ts) (enumerate 0 changed_blocks)) (\<lambda>rs.
     Inr (concat rs)))"

definition reclaim_block ::
  "string \<Rightarrow> kv_block_state \<Rightarrow> bool \<Rightarrow> nat \<times> int \<times> block_ref
     \<Rightarrow> block_pool \<times> single_manager list \<times> block_ref list
     \<Rightarrow> (block_pool \<times> single_manager list \<times> block_ref list) res" where
  "reclaim_block request_id new_state enable_caching reclaim st =
     (let (group_idx, logical_idx, b) = reclaim; (p, managers, freed) = st in
      if new_state = WARM
      then
        let p1 = (if enable_caching \<and> kb_block_hash (blk p b) \<noteq> None
                  then snd (maybe_evict_cached_block b p) else p);
            m = managers ! group_idx
        in rbind (py_set (blocks_or_empty request_id m) logical_idx (bp_null_block p1)) (\<lambda>bs.
           Inr (p1, managers[group_idx := set_req_blocks request_id bs m], freed @ [b]))
      else Inr (retier b new_state p, managers, freed))"

definition commit_request_kv_transition :: "kv_transition \<Rightarrow> kv_cache_manager \<Rightarrow> kv_cache_manager res" where
  "commit_request_kv_transition t km =
     (let request_blocks = kvb_blocks (get_blocks (tn_request_id t) km);
          co = km_coordinator km
      in
      rbind (validate_reclaims (co_pool co) request_blocks (tn_changed_blocks t)) (\<lambda>reclaims.
      rbind (rfold (reclaim_block (tn_request_id t) (tn_new_state t) (km_enable_caching km)) reclaims
               (co_pool co, co_managers co, [])) (\<lambda>(p, managers, freed).
      rbind (if freed \<noteq> [] then free_blocks (rev freed) p else Inr p) (\<lambda>p1.
      Inr (km\<lparr>km_coordinator := co\<lparr>co_pool := p1, co_managers := managers\<rparr>\<rparr>)))))"

text \<open>\<open>apply_request_kv_state\<close>: shared and incomplete blocks are set HOT, planned ones to the state.\<close>

definition keep_hot ::
  "kv_block_state \<Rightarrow> int option \<Rightarrow> nat \<times> block_ref \<Rightarrow> block_pool \<Rightarrow> block_pool" where
  "keep_hot state complete_upto ib p =
     (let (i, b) = ib in
      if kb_ref_cnt (blk p b) > 1 then retier b HOT p
      else if past_boundary state complete_upto i then retier b HOT p
      else p)"

definition apply_request_kv_state ::
  "string \<Rightarrow> kv_block_state \<Rightarrow> int option \<Rightarrow> kv_cache_manager
     \<Rightarrow> (kv_block_transition list list \<times> kv_cache_manager) res" where
  "apply_request_kv_state request_id state num_computed_tokens km =
     rbind (plan_request_kv_state request_id state num_computed_tokens km) (\<lambda>planned.
     let request_blocks = kvb_blocks (get_blocks request_id km);
         p1 = fold (\<lambda>(group, block_size).
                fold (keep_hot state (num_complete_blocks num_computed_tokens block_size))
                  (enumerate 0 group))
                (zip request_blocks (km_block_sizes km)) (km_pool km)
     in
     rbind (rfold (\<lambda>(group, ts). rfold (\<lambda>t p.
              rbind (list_index group (bt_logical_index t)) (\<lambda>b. Inr (retier b state p))) ts)
              (zip request_blocks planned) p1) (\<lambda>p2.
     Inr (planned, set_pool p2 km)))"

end
