(* ===== verification/Ownership.thy ===== *)
theory Ownership
  imports KVManager
begin

text \<open>
  Who holds a block: the reference count of every block is the number of places at which the
  block lists of the requests, over all managers, name it.  Every operation of the managers keeps
  this, so no block is leaked, given back twice, or written by a request that does not own it.

  The managers share the pool.  What one of them sees is \<open>shares ext p m\<close>: the pool \<open>p\<close>, its own
  lists, and \<open>ext\<close>, the references that belong to the other managers and that it must not touch.
\<close>

section \<open>Sums over a dictionary\<close>

definition dsum :: "('v \<Rightarrow> int) \<Rightarrow> ('k, 'v) dict \<Rightarrow> int" where
  "dsum f d = (\<Sum>(k, v) \<leftarrow> d. f v)"

lemma dsum_simps [simp]: "dsum f [] = 0" "dsum f ((k, v) # d) = f v + dsum f d"
  by (simp_all add: dsum_def)

lemma dsum_update:
  "dsum f (AList.update k v d) = dsum f d - (case map_of d k of None \<Rightarrow> 0 | Some w \<Rightarrow> f w) + f v"
  by (induction d) auto

lemma dsum_delete:
  "distinct (dkeys d) \<Longrightarrow>
     dsum f (AList.delete k d) = dsum f d - (case map_of d k of None \<Rightarrow> 0 | Some w \<Rightarrow> f w)"
  by (induction d) (auto simp: map_of_None_iff split: option.splits dest!: map_of_SomeD
      intro: rev_image_eqI)

lemma dsum_nonneg: "(\<And>v. 0 \<le> f v) \<Longrightarrow> 0 \<le> dsum f d"
  by (induction d) auto

lemma dsum_ge: "(\<And>v. 0 \<le> f v) \<Longrightarrow> map_of d k = Some v \<Longrightarrow> f v \<le> dsum f d"
proof (induction d)
  case (Cons x d)
  then show ?case using dsum_nonneg [of f d] by (cases x) (auto split: if_splits intro: add_increasing)
qed simp

lemma update_same: "map_of d k = Some v \<Longrightarrow> AList.update k v d = d"
  by (induction d) (auto split: if_splits)

section \<open>Blocks of the requests of a manager\<close>

definition owned :: "single_manager \<Rightarrow> block_ref \<Rightarrow> int" where
  "owned m b = dsum (\<lambda>bs. int (count_list bs b)) (sm_req_to_blocks m)"

definition owned_all :: "single_manager list \<Rightarrow> block_ref \<Rightarrow> int" where
  "owned_all ms b = (\<Sum>m \<leftarrow> ms. owned m b)"

lemma req_blocks_of_eq:
  "req_blocks_of rid m = (blocks_or_empty rid m, set_req_blocks rid (blocks_or_empty rid m) m)"
  by (auto simp: req_blocks_of_def blocks_or_empty_def set_req_blocks_def update_same split: option.splits)

lemma blocks_or_empty_set [simp]:
  "blocks_or_empty rid' (set_req_blocks rid bs m) = (if rid' = rid then bs else blocks_or_empty rid' m)"
  by (simp add: blocks_or_empty_def set_req_blocks_def)

lemma owned_set:
  "owned (set_req_blocks rid bs m) b =
     owned m b - int (count_list (blocks_or_empty rid m) b) + int (count_list bs b)"
  by (auto simp: owned_def set_req_blocks_def dsum_update blocks_or_empty_def split: option.splits)

lemma owned_nonneg: "0 \<le> owned m b"
  by (simp add: owned_def dsum_nonneg)

lemma owned_ge: "int (count_list (blocks_or_empty rid m) b) \<le> owned m b"
proof (cases "map_of (sm_req_to_blocks m) rid")
  case None
  then show ?thesis by (simp add: blocks_or_empty_def owned_nonneg)
next
  case (Some bs)
  then show ?thesis using dsum_ge [of "\<lambda>bs. int (count_list bs b)"] by (simp add: blocks_or_empty_def owned_def)
qed

lemma owned_all_nonneg: "0 \<le> owned_all ms b"
  by (induction ms) (auto simp: owned_all_def owned_nonneg)

text \<open>The fields an operation never changes.\<close>

definition setup_of where
  "setup_of m = (sm_spec m, sm_block_size m, sm_scheduler_block_size m, sm_enable_caching m,
     sm_group_id m, sm_max_admission m, sm_null_block m, sm_use_eagle m)"

lemma setup_ofD:
  assumes "setup_of m' = setup_of m"
  shows "sm_spec m' = sm_spec m" "sm_block_size m' = sm_block_size m" "sm_null_block m' = sm_null_block m"
    "sm_enable_caching m' = sm_enable_caching m" "sm_max_admission m' = sm_max_admission m"
    "sm_group_id m' = sm_group_id m"
  using assms by (simp_all add: setup_of_def)

text \<open>A specification whose numbers are those of an attention layer.\<close>

definition spec_sane :: "spec_kind \<Rightarrow> bool" where
  "spec_sane kind = (case kind of
      SlidingWindowSpec w \<Rightarrow> 1 \<le> w | SlidingWindowMLASpec w \<Rightarrow> 1 \<le> w
    | ChunkedLocalAttentionSpec c \<Rightarrow> 1 \<le> c | MambaSpec _ ns \<Rightarrow> 0 \<le> ns | _ \<Rightarrow> True)"

text \<open>The running requests of Mamba's align mode hold at least the speculative blocks.\<close>

definition align_ok :: "single_manager \<Rightarrow> bool" where
  "align_ok m = (case sm_kind m of
      MambaSpec MambaAlign ns \<Rightarrow>
        \<forall>rid \<in> set (sm_allocated_block_reqs m). ns \<le> int (length (blocks_or_empty rid m))
    | _ \<Rightarrow> True)"

definition manager_ok :: "block_pool \<Rightarrow> single_manager \<Rightarrow> bool" where
  "manager_ok p m \<longleftrightarrow>
     0 < sm_block_size m \<and> spec_sane (sm_kind m) \<and> sm_null_block m = bp_null_block p \<and>
     distinct (dkeys (sm_req_to_blocks m)) \<and>
     (\<forall>rid. set (blocks_or_empty rid m) \<subseteq> set (bp_blocks p)) \<and>
     (\<forall>rid n. map_of (sm_num_cached_block m) rid = Some n \<longrightarrow> 0 \<le> n) \<and> align_ok m"

definition shares :: "(block_ref \<Rightarrow> int) \<Rightarrow> block_pool \<Rightarrow> single_manager \<Rightarrow> bool" where
  "shares ext p m \<longleftrightarrow> pool_inv p \<and> manager_ok p m \<and>
     (\<forall>b \<in> good_blocks p. 0 \<le> ext b \<and> refs p b = ext b + owned m b)"

lemma sharesD:
  assumes "shares ext p m"
  shows "pool_inv p" "manager_ok p m" "pool_wf p" "hash_ok p"
    "b \<in> good_blocks p \<Longrightarrow> 0 \<le> ext b" "b \<in> good_blocks p \<Longrightarrow> refs p b = ext b + owned m b"
    "b \<in> good_blocks p \<Longrightarrow> int (count_list (blocks_or_empty rid m) b) \<le> refs p b"
    "set (blocks_or_empty rid m) \<subseteq> set (bp_blocks p)" "sm_null_block m = bp_null_block p"
    "0 < sm_block_size m" "spec_sane (sm_kind m)" "align_ok m"
    "map_of (sm_num_cached_block m) rid = Some n \<Longrightarrow> 0 \<le> n"
  using assms owned_ge [of rid m b] by (fastforce simp: shares_def pool_inv_def manager_ok_def)+

lemma wf_viewD:
  assumes "wf_view p' = wf_view p"
  shows "bp_blocks p' = bp_blocks p" "bp_null_block p' = bp_null_block p" "pool_wf p' = pool_wf p"
    "good_blocks p' = good_blocks p" "kb_is_null (blk p' b) = kb_is_null (blk p b)"
    "kb_block_id (blk p' b) = kb_block_id (blk p b)"
  using wf_view_cong [OF assms] wf_view_good [OF assms] assms
  by (auto simp: wf_view_def fun_eq_iff)

text \<open>Writing one request's list, with the references that it needs.\<close>

lemma shares_write:
  assumes s: "shares ext p m" and p: "pool_inv p'" "wf_view p' = wf_view p"
    and m: "setup_of m' = setup_of m"
      "sm_req_to_blocks m' = AList.update rid bs (sm_req_to_blocks m)"
    and bs: "set bs \<subseteq> set (bp_blocks p)"
    and refs: "\<And>b. b \<in> good_blocks p \<Longrightarrow>
       refs p' b = refs p b - int (count_list (blocks_or_empty rid m) b) + int (count_list bs b)"
    and cached: "\<And>rid n. map_of (sm_num_cached_block m') rid = Some n \<Longrightarrow> 0 \<le> n"
    and align: "align_ok m'"
  shows "shares ext p' m'"
proof -
  have own: "owned m' b = owned (set_req_blocks rid bs m) b" for b
    using m(2) by (simp add: owned_def set_req_blocks_def)
  have list: "blocks_or_empty rid' m' = (if rid' = rid then bs else blocks_or_empty rid' m)" for rid'
    using m(2) by (simp add: blocks_or_empty_def)
  have "manager_ok p' m'"
    using sharesD(2) [OF s] setup_ofD [OF m(1)] m(2) bs cached align wf_viewD [OF p(2)]
    by (simp add: manager_ok_def list)
  moreover have "refs p' b = ext b + owned m' b" if "b \<in> good_blocks p" for b
    using refs [OF that] sharesD(6) [OF s that] by (simp add: own owned_set)
  ultimately show ?thesis using p sharesD(5) [OF s] wf_viewD(4) [OF p(2)] by (simp add: shares_def)
qed

lemma align_ok_write:
  assumes "align_ok m" "setup_of m' = setup_of m"
    "sm_req_to_blocks m' = AList.update rid bs (sm_req_to_blocks m)"
    "sm_allocated_block_reqs m' = sm_allocated_block_reqs m"
    "length (blocks_or_empty rid m) \<le> length bs"
  shows "align_ok m'"
proof -
  have "blocks_or_empty rid' m' = (if rid' = rid then bs else blocks_or_empty rid' m)" for rid'
    using assms(3) by (simp add: blocks_or_empty_def)
  then show ?thesis using assms(1,4,5) setup_ofD [OF assms(2)]
    by (fastforce simp: align_ok_def split: spec_kind.splits mamba_mode.splits)
qed

text \<open>An operation that leaves the lists alone.\<close>

lemma shares_same:
  assumes s: "shares ext p m" and p: "pool_inv p'" "wf_view p' = wf_view p"
    and m: "setup_of m' = setup_of m" "sm_req_to_blocks m' = sm_req_to_blocks m"
    and refs: "\<And>b. b \<in> good_blocks p \<Longrightarrow> refs p' b = refs p b"
    and cached: "\<And>rid n. map_of (sm_num_cached_block m') rid = Some n \<Longrightarrow> 0 \<le> n"
    and align: "align_ok m'"
  shows "shares ext p' m'"
proof -
  have list: "blocks_or_empty rid m' = blocks_or_empty rid m" "owned m' b = owned m b" for rid b
    using m(2) by (simp_all add: blocks_or_empty_def owned_def)
  have "manager_ok p' m'"
    using sharesD(2) [OF s] setup_ofD [OF m(1)] m(2) cached align wf_viewD [OF p(2)]
    by (simp add: manager_ok_def list)
  then show ?thesis using p refs sharesD(5,6) [OF s] wf_viewD(4) [OF p(2)]
    by (simp add: shares_def list)
qed

section \<open>The pool operations the managers call\<close>

lemma pool_invI: "wf_view p' = wf_view p \<Longrightarrow> pool_wf p \<Longrightarrow> hash_ok p' \<Longrightarrow> refs_ok p' xs \<Longrightarrow> pool_inv p'"
  unfolding pool_inv_def using wf_view_cong by metis

lemma pool_invE:
  assumes "pool_inv p"
  obtains xs where "pool_wf p" "hash_ok p" "refs_ok p xs" "get_num_free_blocks p = int (length xs)"
  using assms refs_okD(7) by (auto simp: pool_inv_def)

lemma take_new_total:
  assumes "pool_inv p" "0 \<le> n" "n \<le> get_num_free_blocks p"
  shows "\<exists>bs p'. get_new_blocks n p = Inr (bs, p')"
proof -
  obtain xs where x: "pool_wf p" "hash_ok p" "refs_ok p xs" "get_num_free_blocks p = int (length xs)"
    using assms(1) by (rule pool_invE)
  show ?thesis using get_new_blocks_spec [OF x(1-3) assms(2)] x(4) assms(3) by auto
qed

lemma take_new:
  assumes "pool_inv p" "0 \<le> n" "get_new_blocks n p = Inr (bs, p')"
  shows "pool_inv p' \<and> wf_view p' = wf_view p \<and> set bs \<subseteq> set (bp_blocks p) \<and> int (length bs) = n \<and>
    get_num_free_blocks p' = get_num_free_blocks p - n \<and>
    (\<forall>b \<in> good_blocks p. refs p' b = refs p b + int (count_list bs b))"
proof -
  obtain xs where x: "pool_wf p" "hash_ok p" "refs_ok p xs" "get_num_free_blocks p = int (length xs)"
    using assms(1) by (rule pool_invE)
  note d = refs_okD [OF x(3)]
  have le: "\<not> int (length xs) < n" using get_new_blocks_spec [OF x(1-3) assms(2)] assms(3) by auto
  have bs: "bs = take (nat n) xs" and w: "wf_view p' = wf_view p" "hash_ok p'" "refs_ok p' (drop (nat n) xs)"
    and r: "\<forall>b \<in> set (bp_blocks p). refs p' b = (if b \<in> set (take (nat n) xs) then 1 else refs p b)"
    using get_new_blocks_spec [OF x(1-3) assms(2)] assms(3) le by auto
  have sub: "set bs \<subseteq> set xs" unfolding bs by (rule set_take_subset)
  have "refs p' b = refs p b + int (count_list bs b)" if b: "b \<in> good_blocks p" for b
  proof -
    have "distinct bs" unfolding bs using d(2) by simp
    moreover have "refs p b = 0" if "b \<in> set bs" using that sub d(4) by blast
    ultimately show ?thesis using r good_in_blocks [OF b] bs by (auto simp: distinct_count_le)
  qed
  moreover have "set bs \<subseteq> set (bp_blocks p)" using sub d(3) good_in_blocks by blast
  moreover have "int (length bs) = n" "get_num_free_blocks p' = get_num_free_blocks p - n"
    using bs le assms(2) x(4) refs_okD(7) [OF w(3)] by auto
  ultimately show ?thesis using w x(1) pool_invI by blast
qed

lemma touch_shares:
  assumes "pool_inv p" "set bs \<subseteq> set (bp_blocks p)"
  shows "\<exists>p'. touch bs p = Inr p' \<and> pool_inv p' \<and> wf_view p' = wf_view p \<and>
    (\<forall>b. refs p' b = refs p b + int (count_list bs b)) \<and>
    get_num_free_blocks p - get_num_evictable_blocks p bs \<le> get_num_free_blocks p'"
proof -
  obtain xs where x: "pool_wf p" "hash_ok p" "refs_ok p xs" "get_num_free_blocks p = int (length xs)"
    using assms(1) by (rule pool_invE)
  note d = refs_okD [OF x(3)]
  obtain p' where t: "touch bs p = Inr p'" "wf_view p' = wf_view p" "hash_view p' = hash_view p"
    "refs_ok p' (filter (\<lambda>b. b \<notin> set bs) xs)" "\<forall>b. refs p' b = refs p b + int (count_list bs b)"
    using touch_spec [OF x(1,3) assms(2)] by blast
  have "length (filter (\<lambda>b. b \<in> set bs) xs) = card (set (filter (\<lambda>b. b \<in> set bs) xs))"
    using distinct_card [OF distinct_filter [OF d(2)]] by simp
  also have "\<dots> \<le> card (set (filter (\<lambda>b. refs p b = 0 \<and> \<not> kb_is_null (blk p b)) bs))"
    using d(3,4) pool_wf_good [OF x(1)] by (intro card_mono) auto
  also have "\<dots> \<le> length (filter (\<lambda>b. refs p b = 0 \<and> \<not> kb_is_null (blk p b)) bs)" by (rule card_length)
  finally have "int (length (filter (\<lambda>b. b \<in> set bs) xs)) \<le> get_num_evictable_blocks p bs"
    by (simp add: get_num_evictable_blocks_def)
  moreover have "length (filter (\<lambda>b. b \<notin> set bs) xs) = length xs - length (filter (\<lambda>b. b \<in> set bs) xs)"
    using sum_length_filter_compl [of "\<lambda>b. b \<in> set bs" xs] by simp
  ultimately have "get_num_free_blocks p - get_num_evictable_blocks p bs \<le> get_num_free_blocks p'"
    using x(4) refs_okD(7) [OF t(4)] by linarith
  moreover have "hash_ok p'" using hash_view_cong [OF t(3)] t(2) x(2) by simp
  ultimately show ?thesis using t pool_invI [OF t(2) x(1)] by blast
qed

lemma free_shares:
  assumes "pool_inv p" "set bs \<subseteq> set (bp_blocks p)"
    and "\<And>b. b \<in> good_blocks p \<Longrightarrow> int (count_list bs b) \<le> refs p b"
  shows "\<exists>p'. free_blocks bs p = Inr p' \<and> pool_inv p' \<and> wf_view p' = wf_view p \<and>
    (\<forall>b \<in> good_blocks p. refs p' b = refs p b - int (count_list bs b)) \<and>
    get_num_free_blocks p \<le> get_num_free_blocks p'"
proof -
  obtain xs where x: "pool_wf p" "hash_ok p" "refs_ok p xs" "get_num_free_blocks p = int (length xs)"
    using assms(1) by (rule pool_invE)
  have cnt: "\<forall>b \<in> good_blocks p. int (count_list bs b) \<le> refs p b" using assms(3) by blast
  obtain us hs p' where f: "free_blocks bs p = Inr p'" "wf_view p' = wf_view p" "hash_view p' = hash_view p"
    "refs_ok p' (us @ xs @ hs)"
    "\<forall>b. refs p' b = refs p b - (if kb_is_null (blk p b) then 0 else int (count_list bs b))"
    using free_blocks_spec [OF x(1,3) assms(2) cnt] by blast
  have "hash_ok p'" using hash_view_cong [OF f(3)] f(2) x(2) by simp
  moreover have "get_num_free_blocks p \<le> get_num_free_blocks p'"
    using x(4) refs_okD(7) [OF f(4)] by simp
  moreover have "\<forall>b \<in> good_blocks p. refs p' b = refs p b - int (count_list bs b)"
    using f(5) pool_wf_good [OF x(1)] by simp
  ultimately show ?thesis using f pool_invI [OF f(2) x(1)] by blast
qed

lemma caches_shares:
  assumes "pool_inv p" "caches p p'"
  shows "pool_inv p' \<and> wf_view p' = wf_view p \<and> (\<forall>b. refs p' b = refs p b) \<and>
    get_num_free_blocks p' = get_num_free_blocks p"
  using assms caches_wf [OF assms(2)] caches_refs [OF assms(2)]
  by (auto simp: pool_inv_def caches_def refs_view_def get_num_free_blocks_def fun_eq_iff)

section \<open>Each operation keeps the shares\<close>

definition keeps ::
  "(block_ref \<Rightarrow> int) \<Rightarrow> block_pool \<Rightarrow> single_manager \<Rightarrow> block_pool \<Rightarrow> single_manager \<Rightarrow> bool" where
  "keeps ext p m p' m' \<longleftrightarrow> shares ext p' m' \<and> wf_view p' = wf_view p \<and> setup_of m' = setup_of m"

lemma keepsD: "keeps ext p m p' m' \<Longrightarrow> shares ext p' m'" "keeps ext p m p' m' \<Longrightarrow> wf_view p' = wf_view p"
  "keeps ext p m p' m' \<Longrightarrow> setup_of m' = setup_of m"
  by (simp_all add: keeps_def)

lemma keeps_refl: "shares ext p m \<Longrightarrow> keeps ext p m p m"
  by (simp add: keeps_def)

lemma keeps_trans: "keeps ext p m p1 m1 \<Longrightarrow> keeps ext p1 m1 p2 m2 \<Longrightarrow> keeps ext p m p2 m2"
  by (simp add: keeps_def)

lemma setup_updates [simp]:
  "setup_of (set_req_blocks rid bs m) = setup_of m"
  "setup_of (m\<lparr>sm_num_cached_block := x1\<rparr>) = setup_of m"
  "setup_of (m\<lparr>sm_new_block_ids := x2\<rparr>) = setup_of m"
  "setup_of (m\<lparr>sm_cached_blocks_this_step := x3\<rparr>) = setup_of m"
  "setup_of (m\<lparr>sm_last_state_block_idx := x4\<rparr>) = setup_of m"
  "setup_of (m\<lparr>sm_allocated_block_reqs := x5\<rparr>) = setup_of m"
  "setup_of (m\<lparr>sm_req_to_blocks := x6\<rparr>) = setup_of m"
  by (simp_all add: setup_of_def set_req_blocks_def)

lemma set_req_blocks_fields [simp]:
  "sm_req_to_blocks (set_req_blocks rid bs m) = AList.update rid bs (sm_req_to_blocks m)"
  "sm_num_cached_block (set_req_blocks rid bs m) = sm_num_cached_block m"
  "sm_allocated_block_reqs (set_req_blocks rid bs m) = sm_allocated_block_reqs m"
  "sm_last_state_block_idx (set_req_blocks rid bs m) = sm_last_state_block_idx m"
  "sm_new_block_ids (set_req_blocks rid bs m) = sm_new_block_ids m"
  "sm_spec (set_req_blocks rid bs m) = sm_spec m"
  "sm_block_size (set_req_blocks rid bs m) = sm_block_size m"
  "sm_null_block (set_req_blocks rid bs m) = sm_null_block m"
  "sm_enable_caching (set_req_blocks rid bs m) = sm_enable_caching m"
  by (simp_all add: set_req_blocks_def)

lemma append_new_blocks_fields [simp]:
  "setup_of (append_new_blocks rid bs new p m) = setup_of m"
  "sm_req_to_blocks (append_new_blocks rid bs new p m) = AList.update rid (bs @ new) (sm_req_to_blocks m)"
  "sm_num_cached_block (append_new_blocks rid bs new p m) = sm_num_cached_block m"
  "sm_allocated_block_reqs (append_new_blocks rid bs new p m) = sm_allocated_block_reqs m"
  "blocks_or_empty rid' (append_new_blocks rid bs new p m) =
     (if rid' = rid then bs @ new else blocks_or_empty rid' m)"
  by (simp_all add: append_new_blocks_def Let_def blocks_or_empty_def)

lemma update_update [simp]: "AList.update k v (AList.update k w d) = AList.update k v d"
  by (induction d) auto

text \<open>Reading a list through the \<open>defaultdict\<close>.\<close>

lemma shares_read: "shares ext p m \<Longrightarrow> keeps ext p m p (set_req_blocks rid (blocks_or_empty rid m) m)"
proof -
  assume s: "shares ext p m"
  let ?bs = "blocks_or_empty rid m"
  have "shares ext p (set_req_blocks rid ?bs m)"
  proof (rule shares_write [OF s, where rid = rid and bs = ?bs])
    show "align_ok (set_req_blocks rid ?bs m)"
      by (rule align_ok_write [OF sharesD(12) [OF s], where rid = rid and bs = ?bs]) simp_all
  qed (use sharesD(1,8,13) [OF s] in simp_all)
  then show ?thesis by (simp add: keeps_def)
qed

abbreviation grown :: "string \<Rightarrow> block_ref list \<Rightarrow> block_pool \<Rightarrow> single_manager \<Rightarrow> single_manager" where
  "grown rid new p m \<equiv>
     append_new_blocks rid (blocks_or_empty rid m) new p (set_req_blocks rid (blocks_or_empty rid m) m)"

lemma shares_append:
  assumes s: "shares ext p m" and n: "0 \<le> n" "get_new_blocks n p = Inr (new, p')"
  shows "keeps ext p m p' (grown rid new p' m) \<and> int (length new) = n \<and>
    get_num_free_blocks p' = get_num_free_blocks p - n"
proof -
  let ?m = "grown rid new p' m"
  note t = take_new [OF sharesD(1) [OF s] n]
  have "shares ext p' ?m"
  proof (rule shares_write [OF s, where rid = rid and bs = "blocks_or_empty rid m @ new"])
    show "align_ok ?m" by (rule align_ok_write [OF sharesD(12) [OF s], where rid = rid and bs = "blocks_or_empty rid m @ new"])
        simp_all
    show "0 \<le> k" if "map_of (sm_num_cached_block ?m) rid' = Some k" for rid' k
      using that sharesD(13) [OF s] by simp
  qed (use t sharesD(8) [OF s] in auto)
  then show ?thesis using t by (simp add: keeps_def)
qed

lemma base_allocate_keeps:
  assumes s: "shares ext p m" and run: "base_allocate_new_blocks rid n (p, m) = Inr (new, p', m')"
  shows "keeps ext p m p' m'"
proof -
  let ?n = "cdiv n (sm_block_size m) - int (length (blocks_or_empty rid m))"
  show ?thesis
  proof (cases "?n \<le> 0")
    case True
    then show ?thesis using run shares_read [OF s, of rid]
      by (auto simp: base_allocate_new_blocks_def req_blocks_of_eq Let_def)
  next
    case False
    then obtain bs p1 where "get_new_blocks ?n p = Inr (bs, p1)"
      "p' = p1" "m' = grown rid bs p1 m"
      using run by (auto simp: base_allocate_new_blocks_def req_blocks_of_eq Let_def elim!: rbindE)
    moreover have "0 \<le> ?n" using False by simp
    ultimately show ?thesis using shares_append [OF s] by blast
  qed
qed

lemma allocate_external_keeps:
  assumes s: "shares ext p m"
    and run: "allocate_external_computed_blocks rid loc exts (p, m) = Inr (p', m')"
    and fits: "int (length (blocks_or_empty rid m)) \<le> cdiv (loc + exts) (sm_block_size m)"
  shows "keeps ext p m p' m'"
proof -
  let ?n = "cdiv (loc + exts) (sm_block_size m) - int (length (blocks_or_empty rid m))"
  have "(p', m') = (p, m) \<or> (\<exists>bs p1. get_new_blocks ?n p = Inr (bs, p1) \<and>
      p' = p1 \<and> m' = grown rid bs p1 m)"
    using run by (auto simp: allocate_external_computed_blocks_def req_blocks_of_eq Let_def split: if_splits elim!: rbindE)
  then show ?thesis
  proof
    assume "\<exists>bs p1. get_new_blocks ?n p = Inr (bs, p1) \<and>
      p' = p1 \<and> m' = grown rid bs p1 m"
    then obtain bs where "get_new_blocks ?n p = Inr (bs, p')"
      "m' = grown rid bs p' m"
      by auto
    moreover have "0 \<le> ?n" using fits by simp
    ultimately show ?thesis using shares_append [OF s] by blast
  qed (use keeps_refl [OF s] in simp)
qed

lemma py_slice_from_set: "set (py_slice_from k xs) \<subseteq> set xs"
  by (auto simp: py_slice_from_def dest: in_set_dropD)

lemma count_replicate_null: "b \<noteq> null \<Longrightarrow> count_list (replicate n null) b = 0"
  by (induction n) auto

lemma pool_inv_null: "pool_inv p \<Longrightarrow> bp_null_block p \<in> set (bp_blocks p)"
  by (auto simp: pool_inv_def pool_wf_def)

lemma good_not_null: "b \<in> good_blocks p \<Longrightarrow> b \<noteq> bp_null_block p"
  by (simp add: good_blocks_def)

text \<open>The prefix of a new request: null blocks, then the computed blocks that are kept.\<close>

definition kept_blocks :: "single_manager \<Rightarrow> int \<Rightarrow> block_ref list \<Rightarrow> block_ref list" where
  "kept_blocks m computed new =
     (let k = get_num_skipped_tokens m computed div sm_block_size m
      in if k > 0 then py_slice_from k new else new)"

definition local_blocks :: "single_manager \<Rightarrow> int \<Rightarrow> block_ref list \<Rightarrow> block_ref list" where
  "local_blocks m computed new =
     replicate (nat (get_num_skipped_tokens m computed div sm_block_size m)) (sm_null_block m) @ kept_blocks m computed new"

lemma add_local_run:
  assumes "add_local_computed_blocks rid new loc exts (p, m) = Inr (p', m')" "sm_kind m \<noteq> CrossAttentionSpec"
  shows "blocks_or_empty rid m = []" "m' = (set_req_blocks rid (local_blocks m (loc + exts) new)
       (set_req_blocks rid [] m))\<lparr>sm_num_cached_block :=
          AList.update rid (int (length (local_blocks m (loc + exts) new))) (sm_num_cached_block m)\<rparr>"
    "if sm_enable_caching m then touch (kept_blocks m (loc + exts) new) p = Inr p'
     else kept_blocks m (loc + exts) new = [] \<and> p' = p"
  using assms unfolding add_local_computed_blocks_def Let_def split prod.case req_blocks_of_eq
  by (auto simp: local_blocks_def kept_blocks_def get_num_skipped_tokens_def Let_def res_simps split: if_splits)

lemma add_local_keeps:
  assumes s: "shares ext p m" and new: "set new \<subseteq> set (bp_blocks p)"
    and run: "add_local_computed_blocks rid new loc exts (p, m) = Inr (p', m')"
  shows "keeps ext p m p' m'"
proof (cases "sm_kind m = CrossAttentionSpec")
  case True
  then show ?thesis using run keeps_refl [OF s] by (auto simp: add_local_computed_blocks_def elim!: rbindE)
next
  case False
  note r = add_local_run [OF run False]
  let ?L = "local_blocks m (loc + exts) new" and ?kept = "kept_blocks m (loc + exts) new"
  have kept: "set ?kept \<subseteq> set (bp_blocks p)" using subset_trans [OF py_slice_from_set new] new by (simp add: kept_blocks_def Let_def)
  have p: "pool_inv p' \<and> wf_view p' = wf_view p \<and> (\<forall>b. refs p' b = refs p b + int (count_list ?kept b))"
    using r(3) touch_shares [OF sharesD(1) [OF s] kept] sharesD(1) [OF s] by (auto split: if_splits)
  have "shares ext p' m'"
  proof (rule shares_write [OF s, where rid = rid and bs = ?L])
    show "set ?L \<subseteq> set (bp_blocks p)"
      using kept pool_inv_null [OF sharesD(1) [OF s]] sharesD(9) [OF s] by (auto simp: local_blocks_def)
    show "refs p' b = refs p b - int (count_list (blocks_or_empty rid m) b) + int (count_list ?L b)"
      if b: "b \<in> good_blocks p" for b
      using p r(1) good_not_null [OF b] sharesD(9) [OF s] by (simp add: local_blocks_def count_replicate_null)
    show "align_ok m'"
      by (rule align_ok_write [OF sharesD(12) [OF s], where rid = rid and bs = ?L]) (simp_all add: r(1,2))
    show "0 \<le> n" if "map_of (sm_num_cached_block m') rid' = Some n" for rid' n
      using that sharesD(13) [OF s] by (auto simp: r(2) split: if_splits)
  qed (use p r(2) in simp_all)
  then show ?thesis using p r(2) by (simp add: keeps_def)
qed

lemma py_set_nat: "i < length xs \<Longrightarrow> py_set xs (int i) x = Inr (xs[i := x])"
  by (simp add: py_set_def)

lemma count_list_update:
  "i < length xs \<Longrightarrow>
     count_list (xs[i := y]) b + (if xs ! i = b then 1 else 0) = count_list xs b + (if y = b then 1 else 0)"
proof (induction xs arbitrary: i)
  case (Cons x xs)
  show ?case
  proof (cases i)
    case (Suc j)
    then show ?thesis using Cons.IH [of j] Cons.prems by (cases "y = b") simp_all
  qed simp
qed simp

lemma move_speculative_spec:
  assumes "move_speculative n (int i) k null xs = Inr ys"
  shows "(\<forall>b. b \<noteq> null \<longrightarrow> count_list ys b = count_list xs b) \<and> set ys \<subseteq> insert null (set xs) \<and>
    int (length ys) = int (length xs) + max 0 (min (int n) (k - int i))"
  using assms
proof (induction n arbitrary: i xs)
  case (Suc n)
  show ?case
  proof (cases "int i < k")
    case True
    obtain b where b: "list_index xs (int i) = Inr b"
      and r: "rbind (py_set (xs @ [b]) (int i) null) (\<lambda>bs. move_speculative n (int i + 1) k null bs) = Inr ys"
      using Suc.prems True by (auto elim: rbindE)
    have i: "i < length xs" "xs ! i = b" using b by (auto simp: list_index_Inr)
    let ?zs = "(xs @ [b])[i := null]"
    have "py_set (xs @ [b]) (int i) null = Inr ?zs" using i by (intro py_set_nat) simp
    then have "move_speculative n (int (Suc i)) k null ?zs = Inr ys" using r by (simp add: add.commute)
    note ih = Suc.IH [OF this]
    have "count_list ?zs c = count_list xs c" if "c \<noteq> null" for c
      using count_list_update [of i "xs @ [b]" null c] i that by (simp add: nth_append split: if_splits)
    moreover have "set ?zs \<subseteq> insert null (set xs)"
      using set_update_subset_insert [of "xs @ [b]" i null] i nth_mem [OF i(1)] by auto
    ultimately show ?thesis using ih True by auto
  qed (use Suc.prems in auto)
qed auto

lemma align_blocks_spec:
  assumes run: "align_blocks allocated ns k null xs = Inr ys" and ns: "0 \<le> ns"
    and len: "allocated \<longrightarrow> ns \<le> int (length xs)"
  shows "(\<forall>b. b \<noteq> null \<longrightarrow> count_list ys b = count_list xs b) \<and> set ys \<subseteq> insert null (set xs) \<and>
    int (length xs) \<le> int (length ys) \<and>
    int (length ys) = (if allocated then max (int (length xs)) (k + ns) else max (int (length xs)) k)"
proof -
  let ?pad = "if int (length xs) < k then xs @ replicate (nat (k - int (length xs))) null else xs"
  have pad: "\<forall>b. b \<noteq> null \<longrightarrow> count_list ?pad b = count_list xs b" "set ?pad \<subseteq> insert null (set xs)"
    "int (length ?pad) = max (int (length xs)) k"
    by (auto simp: count_replicate_null)
  show ?thesis
  proof (cases allocated)
    case True
    then obtain i where i: "int (length xs) - ns = int i" using len nonneg_int_cases [of "int (length xs) - ns"] by auto
    have "move_speculative (nat ns) (int i) k null ?pad = Inr ys"
      using run True i by (simp add: align_blocks_def Let_def)
    from move_speculative_spec [OF this] have
      m: "\<forall>b. b \<noteq> null \<longrightarrow> count_list ys b = count_list ?pad b" "set ys \<subseteq> insert null (set ?pad)"
      "int (length ys) = int (length ?pad) + max 0 (min (int (nat ns)) (k - int i))" by blast+
    have "int (length ys) = max (int (length xs)) (k + ns)"
      using m(3) pad(3) ns by (simp only: i [symmetric]) (simp add: max_def min_def)
    then show ?thesis using m(1,2) pad(1,2) True by auto
  next
    case False
    then have "ys = ?pad" using run by (simp add: align_blocks_def Let_def)
    then show ?thesis using pad False by auto
  qed
qed

lemma mamba_align_keeps:
  assumes s: "shares ext p m" and kind: "sm_kind m = MambaSpec MambaAlign ns" and n: "0 \<le> n"
    and run: "mamba_align_allocate ns rid n (p, m) = Inr (new, p', m')"
  shows "keeps ext p m p' m'"
proof -
  let ?xs = "blocks_or_empty rid m" and ?m1 = "set_req_blocks rid (blocks_or_empty rid m) m"
  let ?req = "cdiv n (sm_block_size m) + ns"
  let ?alloc = "rid \<in> set (sm_allocated_block_reqs m)"
  have ns: "0 \<le> ns" using sharesD(11) [OF s] kind by (simp add: spec_sane_def)
  have len: "?alloc \<longrightarrow> ns \<le> int (length ?xs)" using sharesD(12) [OF s] kind by (auto simp: align_ok_def)
  show ?thesis
  proof (cases "?req \<le> int (length ?xs)")
    case True
    then show ?thesis using run shares_read [OF s, of rid]
      by (auto simp: mamba_align_allocate_def req_blocks_of_eq Let_def)
  next
    case False
    define m2 where "m2 = (if ?alloc
        then ?m1\<lparr>sm_last_state_block_idx := AList.update rid (int (length ?xs) - 1 - ns) (sm_last_state_block_idx ?m1)\<rparr>
        else if int (length ?xs) > 0
        then ?m1\<lparr>sm_last_state_block_idx := AList.update rid (int (length ?xs) - 1) (sm_last_state_block_idx ?m1)\<rparr>
        else ?m1)"
    have m2: "setup_of m2 = setup_of m" "sm_req_to_blocks m2 = AList.update rid ?xs (sm_req_to_blocks m)"
      "sm_num_cached_block m2 = sm_num_cached_block m" "sm_allocated_block_reqs m2 = sm_allocated_block_reqs m"
      by (auto simp: m2_def)
    have null: "sm_null_block m2 = bp_null_block p" using setup_ofD [OF m2(1)] sharesD(9) [OF s] by simp
    have "rbind (align_blocks ?alloc ns (?req - ns - 1) (sm_null_block m2) ?xs) (\<lambda>bs.
        rbind (check (if ?alloc then ?req - int (length bs) \<le> 1 else ?req - int (length bs) \<le> ns + 1) AssertionError) (\<lambda>_.
        rbind (get_new_blocks (?req - int (length bs)) p) (\<lambda>(new_blocks, p1).
        Inr (drop (nat (int (length ?xs))) (bs @ new_blocks), p1,
             (set_req_blocks rid (bs @ new_blocks) m2)
               \<lparr>sm_allocated_block_reqs := List.insert rid (sm_allocated_block_reqs m2)\<rparr>)))) = Inr (new, p', m')"
      using run False by (simp add: mamba_align_allocate_def req_blocks_of_eq Let_def m2_def)
    then obtain bs nb where al: "align_blocks ?alloc ns (?req - ns - 1) (bp_null_block p) ?xs = Inr bs"
      and g: "get_new_blocks (?req - int (length bs)) p = Inr (nb, p')"
      and m': "m' = (set_req_blocks rid (bs @ nb) m2)\<lparr>sm_allocated_block_reqs := List.insert rid (sm_allocated_block_reqs m2)\<rparr>"
      unfolding null by (auto elim!: rbindE)
    note a = align_blocks_spec [OF al ns len]
    have room: "0 \<le> ?req - int (length bs)" using a False ns by (auto split: if_splits)
    note t = take_new [OF sharesD(1) [OF s] room g]
    have "shares ext p' m'"
    proof (rule shares_write [OF s, where rid = rid and bs = "bs @ nb"])
      show "set (bs @ nb) \<subseteq> set (bp_blocks p)"
        using a t sharesD(8) [OF s, of rid] pool_inv_null [OF sharesD(1) [OF s]] by auto
      show "refs p' b = refs p b - int (count_list ?xs b) + int (count_list (bs @ nb) b)"
        if b: "b \<in> good_blocks p" for b
        using a t b good_not_null [OF b] by simp
      have "ns \<le> int (length (bs @ nb))" using t cdiv_nonneg [OF sharesD(10) [OF s] n] by simp
      moreover have "blocks_or_empty rid' m' = (if rid' = rid then bs @ nb else blocks_or_empty rid' m)" for rid'
        by (simp add: m' blocks_or_empty_def m2)
      ultimately show "align_ok m'"
        using sharesD(12) [OF s] setup_ofD [OF m2(1)] kind by (simp add: align_ok_def m' m2)
    qed (use t m2 sharesD(13) [OF s] in \<open>simp_all add: m'\<close>)
    then show ?thesis using t m2 by (simp add: keeps_def m')
  qed
qed

lemma align_ok_cong:
  assumes "sm_spec m' = sm_spec m" "sm_req_to_blocks m' = sm_req_to_blocks m"
    "sm_allocated_block_reqs m' = sm_allocated_block_reqs m"
  shows "align_ok m' = align_ok m"
proof -
  have "blocks_or_empty rid m' = blocks_or_empty rid m" for rid
    using assms(2) by (simp add: blocks_or_empty_def)
  then show ?thesis using assms(1,3) by (auto simp: align_ok_def split: spec_kind.split mamba_mode.split)
qed

lemma manager_allocate_keeps:
  assumes s: "shares ext p m" and n: "0 \<le> n_main"
    and run: "manager_allocate_new_blocks rid n n_main (p, m) = Inr (new, p', m')"
  shows "keeps ext p m p' m'"
proof (cases "\<exists>ns. sm_kind m = MambaSpec MambaAlign ns")
  case True
  then show ?thesis using run mamba_align_keeps [OF s _ n] by (auto simp: manager_allocate_new_blocks_def)
next
  case False
  then obtain n' where "base_allocate_new_blocks rid n' (p, m) = Inr (new, p', m')"
    using run by (auto simp: manager_allocate_new_blocks_def split: spec_kind.splits if_splits)
  then show ?thesis by (rule base_allocate_keeps [OF s])
qed

lemma num_blocks_to_allocate_keeps:
  assumes s: "shares ext p m"
    and run: "manager_num_blocks_to_allocate p rid n new computed n_main capped m = Inr (k, m')"
  shows "keeps ext p m p m'"
proof -
  have "m' = m \<or> m' = set_req_blocks rid (blocks_or_empty rid m) m"
    using run by (auto simp: manager_num_blocks_to_allocate_def req_blocks_of_eq Let_def
        split: spec_kind.splits if_splits elim!: rbindE)
  then show ?thesis using keeps_refl [OF s] shares_read [OF s, of rid] by auto
qed

lemma base_cache_keeps:
  assumes s: "shares ext p m" and run: "base_cache_blocks env r n ret (p, m) = Inr (p', m')"
  shows "keeps ext p m p' m'"
proof -
  let ?rid = "rq_request_id r"
  let ?nc = "case map_of (sm_num_cached_block m) ?rid of None \<Rightarrow> 0 | Some n \<Rightarrow> n"
  let ?nf = "n div sm_block_size m"
  have nc: "0 \<le> ?nc" using sharesD(13) [OF s] by (auto split: option.splits)
  show ?thesis
  proof (cases "?nc \<ge> ?nf")
    case True
    then show ?thesis using run keeps_refl [OF s] by (simp add: base_cache_blocks_def Let_def)
  next
    case False
    have rd: "shares ext p (set_req_blocks ?rid (blocks_or_empty ?rid m) m)"
      using shares_read [OF s] by (simp add: keeps_def)
    obtain mask where c: "cache_full_blocks env r (blocks_or_empty ?rid m) ?nc ?nf (sm_block_size m) (sm_group_id (set_req_blocks ?rid (blocks_or_empty ?rid m) m)) mask p = Inr p'"
      and m': "m' = (set_req_blocks ?rid (blocks_or_empty ?rid m) m)\<lparr>sm_num_cached_block := AList.update ?rid ?nf (sm_num_cached_block m)\<rparr>"
      using run False by (auto simp: base_cache_blocks_def req_blocks_of_eq Let_def elim!: rbindE)
    have "caches p p'" using cache_full_blocks_spec [OF sharesD(3,4,8) [OF s] nc c] by blast
    note k = caches_shares [OF sharesD(1) [OF s] this]
    have "shares ext p' m'"
    proof (rule shares_same [OF rd])
      show "align_ok m'" using sharesD(12) [OF rd] align_ok_cong [of m' "set_req_blocks ?rid (blocks_or_empty ?rid m) m"]
        by (simp add: m')
    qed (use k False nc sharesD(13) [OF s] in \<open>auto simp: m' split: if_splits\<close>)
    then show ?thesis using k by (simp add: keeps_def m')
  qed
qed

lemma manager_cache_keeps:
  assumes s: "shares ext p m" and run: "manager_cache_blocks env r n ret (p, m) = Inr (p', m')"
  shows "keeps ext p m p' m'"
proof -
  have "\<exists>m1. base_cache_blocks env r n ret (p, m) = Inr (p', m1) \<and>
      (m' = m1 \<or> (\<exists>hs. m' = (set_req_blocks (rq_request_id r) (blocks_or_empty (rq_request_id r) m1) m1)\<lparr>sm_cached_blocks_this_step := hs\<rparr>))"
    using run by (auto simp: manager_cache_blocks_def req_blocks_of_eq Let_def
        split: spec_kind.splits if_splits elim!: rbindE)
  then obtain m1 where b: "base_cache_blocks env r n ret (p, m) = Inr (p', m1)"
    and m': "m' = m1 \<or> (\<exists>hs. m' = (set_req_blocks (rq_request_id r) (blocks_or_empty (rq_request_id r) m1) m1)\<lparr>sm_cached_blocks_this_step := hs\<rparr>)"
    by blast
  note k = base_cache_keeps [OF s b]
  note k2 = shares_read [OF keepsD(1) [OF k], of "rq_request_id r"]
  have "shares ext p' (m2\<lparr>sm_cached_blocks_this_step := hs\<rparr>)" if "shares ext p' m2" for m2 hs
  proof (rule shares_same [OF that])
    show "align_ok (m2\<lparr>sm_cached_blocks_this_step := hs\<rparr>)"
      using sharesD(12) [OF that] align_ok_cong [of "m2\<lparr>sm_cached_blocks_this_step := hs\<rparr>" m2] by simp
  qed (use sharesD(1,13) [OF that] in auto)
  then show ?thesis using k k2 m' by (auto simp: keeps_def)
qed

text \<open>Popping the list of a request hands its references to the caller.\<close>

lemma pop_blocks_shares:
  assumes s: "shares ext p m" and pop: "pop_blocks_for_free rid m = (bs, m')"
  shows "bs = blocks_or_empty rid m \<and> shares (\<lambda>b. ext b + int (count_list bs b)) p m' \<and>
    setup_of m' = setup_of m \<and> sm_req_to_blocks m' = AList.delete rid (sm_req_to_blocks m)"
proof -
  have f: "bs = blocks_or_empty rid m" "sm_req_to_blocks m' = AList.delete rid (sm_req_to_blocks m)"
    "sm_num_cached_block m' = AList.delete rid (sm_num_cached_block m)" "setup_of m' = setup_of m"
    "(\<exists>ns. sm_kind m = MambaSpec MambaAlign ns) \<longrightarrow>
       sm_allocated_block_reqs m' = removeAll rid (sm_allocated_block_reqs m)"
    using pop by (auto simp: pop_blocks_for_free_def blocks_or_empty_def split: spec_kind.splits mamba_mode.splits)
  have list: "blocks_or_empty rid' m' = (if rid' = rid then [] else blocks_or_empty rid' m)" for rid'
    using f(2) by (simp add: blocks_or_empty_def)
  have dist: "distinct (dkeys (sm_req_to_blocks m))" using sharesD(2) [OF s] by (simp add: manager_ok_def)
  have own: "owned m' b = owned m b - int (count_list bs b)" for b
    using dsum_delete [OF dist, where k = rid] f(1,2) by (auto simp: owned_def blocks_or_empty_def split: option.splits)
  have "align_ok m'" using sharesD(12) [OF s] setup_ofD(1) [OF f(4)] f(5)
    by (auto simp: align_ok_def list split: spec_kind.splits mamba_mode.splits)
  then have "manager_ok p m'"
    using sharesD(2) [OF s] setup_ofD [OF f(4)] f(2,3) by (auto simp: manager_ok_def list split: if_splits)
  then show ?thesis using f sharesD(1,5,6) [OF s] own by (auto simp: shares_def)
qed

text \<open>References given back by the holder of \<open>c\<close>.\<close>

lemma shares_give_back:
  assumes s: "shares (\<lambda>b. ext b + c b) p m" and p: "pool_inv p'" "wf_view p' = wf_view p"
    and refs: "\<And>b. b \<in> good_blocks p \<Longrightarrow> refs p' b = refs p b - c b" and ext: "\<And>b. b \<in> good_blocks p \<Longrightarrow> 0 \<le> ext b"
  shows "shares ext p' m"
proof -
  have "manager_ok p' m" using sharesD(2) [OF s] wf_viewD [OF p(2)] by (simp add: manager_ok_def)
  then show ?thesis using p refs ext sharesD(6) [OF s] wf_viewD(4) [OF p(2)] by (simp add: shares_def)
qed

lemma manager_free_keeps:
  assumes s: "shares ext p m"
  shows "\<exists>p' m'. manager_free rid (p, m) = Inr (p', m') \<and> keeps ext p m p' m' \<and>
    sm_req_to_blocks m' = AList.delete rid (sm_req_to_blocks m) \<and>
    get_num_free_blocks p \<le> get_num_free_blocks p'"
proof -
  obtain bs m' where pop: "pop_blocks_for_free rid m = (bs, m')" by fastforce
  note o = pop_blocks_shares [OF s pop]
  have "\<exists>p'. free_blocks (rev bs) p = Inr p' \<and> pool_inv p' \<and> wf_view p' = wf_view p \<and>
    (\<forall>b \<in> good_blocks p. refs p' b = refs p b - int (count_list (rev bs) b)) \<and>
    get_num_free_blocks p \<le> get_num_free_blocks p'"
    by (rule free_shares [OF sharesD(1) [OF s]]) (use o sharesD(7,8) [OF s] in simp_all)
  then obtain p' where f: "free_blocks (rev bs) p = Inr p'" "pool_inv p'" "wf_view p' = wf_view p"
    "\<forall>b \<in> good_blocks p. refs p' b = refs p b - int (count_list bs b)" "get_num_free_blocks p \<le> get_num_free_blocks p'"
    by auto
  have "shares ext p' m'"
    by (rule shares_give_back [where c = "\<lambda>b. int (count_list bs b)"]) (use o f sharesD(5) [OF s] in auto)
  then show ?thesis using o f pop by (auto simp: manager_free_def keeps_def)
qed

lemma skip_blocks_spec:
  assumes "n \<le> length bs" "skip_blocks n null bs = (removed, bs')"
  shows "null \<notin> set removed \<and> set removed \<subseteq> set bs \<and> set bs' \<subseteq> insert null (set bs) \<and> length bs' = length bs \<and>
    (\<forall>b. b \<noteq> null \<longrightarrow> count_list bs' b + count_list removed b = count_list bs b)"
  using assms
proof (induction n arbitrary: bs removed bs')
  case (Suc n)
  show ?case
  proof (cases "bs ! n = null")
    case False
    obtain rs where r: "skip_blocks n null (bs[n := null]) = (rs, bs')" "removed = bs ! n # rs"
      using Suc.prems(2) False by (auto split: prod.splits)
    have n: "n < length bs" using Suc.prems(1) by simp
    have "n \<le> length (bs[n := null])" using n by simp
    note ih = Suc.IH [OF this r(1)]
    have sub: "set (bs[n := null]) \<subseteq> insert null (set bs)" using set_update_subset_insert by fast
    have "count_list bs' b + count_list removed b = count_list bs b" if b: "b \<noteq> null" for b
    proof -
      have "count_list bs' b + count_list rs b = count_list (bs[n := null]) b" using ih b by blast
      moreover have "count_list (bs[n := null]) b + (if bs ! n = b then 1 else 0) = count_list bs b"
        using count_list_update [OF n, of null b] b by simp
      ultimately show ?thesis using r(2) by (simp split: if_splits)
    qed
    moreover have "set rs \<subseteq> set bs" "null \<notin> set rs" using ih sub by blast+
    moreover have "set bs' \<subseteq> insert null (set bs)" using ih sub by blast
    ultimately show ?thesis using ih r(2) False nth_mem [OF n] by simp
  qed (use Suc.prems in auto)
qed auto

lemma list_replace_keeps:
  assumes s: "shares ext p m" and bs: "length bs = length (blocks_or_empty rid m)"
    "set bs \<subseteq> insert (bp_null_block p) (set (blocks_or_empty rid m))" "set removed \<subseteq> set (blocks_or_empty rid m)"
    and cnt: "\<And>b. b \<noteq> bp_null_block p \<Longrightarrow>
      count_list bs b + count_list removed b = count_list (blocks_or_empty rid m) b"
  shows "\<exists>p'. free_blocks removed p = Inr p' \<and> keeps ext p m p' (set_req_blocks rid bs m) \<and>
    get_num_free_blocks p \<le> get_num_free_blocks p' \<and>
    (\<forall>b \<in> good_blocks p. refs p' b = refs p b - int (count_list removed b))"
proof -
  let ?m = "set_req_blocks rid bs m"
  have "\<exists>p'. free_blocks removed p = Inr p' \<and> pool_inv p' \<and> wf_view p' = wf_view p \<and>
    (\<forall>b \<in> good_blocks p. refs p' b = refs p b - int (count_list removed b)) \<and>
    get_num_free_blocks p \<le> get_num_free_blocks p'"
  proof (rule free_shares [OF sharesD(1) [OF s]])
    show "set removed \<subseteq> set (bp_blocks p)" using bs(3) sharesD(8) [OF s] by blast
    show "int (count_list removed b) \<le> refs p b" if b: "b \<in> good_blocks p" for b
      using sharesD(7) [OF s b, of rid] cnt [OF good_not_null [OF b]] by linarith
  qed
  then obtain p' where f: "free_blocks removed p = Inr p'" "pool_inv p'" "wf_view p' = wf_view p"
    "\<forall>b \<in> good_blocks p. refs p' b = refs p b - int (count_list removed b)"
    "get_num_free_blocks p \<le> get_num_free_blocks p'" by blast
  have "shares ext p' ?m"
  proof (rule shares_write [OF s, where rid = rid and bs = bs])
    show "set bs \<subseteq> set (bp_blocks p)" using bs(2) sharesD(8) [OF s] pool_inv_null [OF sharesD(1) [OF s]] by blast
    show "refs p' b = refs p b - int (count_list (blocks_or_empty rid m) b) + int (count_list bs b)"
      if b: "b \<in> good_blocks p" for b
      using f(4) b cnt [OF good_not_null [OF b]] by fastforce
    show "align_ok ?m"
      by (rule align_ok_write [OF sharesD(12) [OF s], where rid = rid and bs = bs]) (simp_all add: bs)
  qed (use f sharesD(13) [OF s] in auto)
  then show ?thesis using f by (auto simp: keeps_def)
qed

lemma base_remove_skipped_keeps:
  assumes s: "shares ext p m"
  shows "\<exists>p' m'. base_remove_skipped_blocks rid n (p, m) = Inr (p', m') \<and> keeps ext p m p' m' \<and>
    get_num_free_blocks p \<le> get_num_free_blocks p' \<and> sm_num_cached_block m' = sm_num_cached_block m \<and>
    length (blocks_or_empty rid m') = length (blocks_or_empty rid m) \<and>
    (\<forall>b \<in> good_blocks p. refs p' b \<le> refs p b)"
proof (cases "get_num_skipped_tokens m n \<le> 0")
  case True
  then show ?thesis using keeps_refl [OF s] by (simp add: base_remove_skipped_blocks_def Let_def)
next
  case False
  let ?bs = "blocks_or_empty rid m" and ?m1 = "set_req_blocks rid (blocks_or_empty rid m) m"
  let ?n = "nat (min (get_num_skipped_tokens m n div sm_block_size m) (int (length ?bs)))"
  obtain removed bs' where sk: "skip_blocks ?n (bp_null_block p) ?bs = (removed, bs')" by fastforce
  have "?n \<le> length ?bs" by simp
  note sp = skip_blocks_spec [OF this sk]
  have s1: "shares ext p ?m1" "keeps ext p m p ?m1" using shares_read [OF s, of rid] by (auto simp: keeps_def)
  have "\<exists>p'. free_blocks removed p = Inr p' \<and> keeps ext p ?m1 p' (set_req_blocks rid bs' ?m1) \<and>
      get_num_free_blocks p \<le> get_num_free_blocks p' \<and>
      (\<forall>b \<in> good_blocks p. refs p' b = refs p b - int (count_list removed b))"
    by (rule list_replace_keeps [OF s1(1)]) (use sp in simp_all)
  then obtain p' where f: "free_blocks removed p = Inr p'" "keeps ext p ?m1 p' (set_req_blocks rid bs' ?m1)"
    "get_num_free_blocks p \<le> get_num_free_blocks p'"
    "\<forall>b \<in> good_blocks p. refs p' b = refs p b - int (count_list removed b)" by blast
  have "base_remove_skipped_blocks rid n (p, m) = Inr (p', set_req_blocks rid bs' ?m1)"
    using False sk f(1) sharesD(9) [OF s] by (simp add: base_remove_skipped_blocks_def req_blocks_of_eq Let_def get_num_skipped_tokens_def)
  then show ?thesis using keeps_trans [OF s1(2) f(2)] f sp by auto
qed

lemma manager_remove_skipped_keeps:
  assumes s: "shares ext p m" and run: "manager_remove_skipped_blocks rid n (p, m) = Inr (p', m')"
  shows "keeps ext p m p' m'"
proof -
  have base: "keeps ext p m p1 m1" if "base_remove_skipped_blocks rid k (p, m) = Inr (p1, m1)" for k p1 m1
    using base_remove_skipped_keeps [OF s, of rid k] that by auto
  show ?thesis
  proof (cases "is_mamba (sm_kind m)")
    case False
    then show ?thesis using run base by (auto simp: manager_remove_skipped_blocks_def split: spec_kind.splits)
  next
    case True
    then obtain mode ns where kind: "sm_kind m = MambaSpec mode ns" by (cases "sm_kind m") auto
    obtain p1 m1 where b: "base_remove_skipped_blocks rid (max 0 (n - ns)) (p, m) = Inr (p1, m1)"
      and rest: "(p', m') = (p1, m1) \<or> (\<exists>idx x bs' p2.
        let bs = blocks_or_empty rid m1; m2 = set_req_blocks rid bs m1 in
          list_index bs idx = Inr x \<and> ((p', m') = (p1, m2) \<or> x \<noteq> sm_null_block m2 \<and> free_blocks [x] p1 = Inr p2 \<and>
            py_set bs idx (sm_null_block m2) = Inr bs' \<and> (p', m') = (p2, set_req_blocks rid bs' m2)))"
      using run kind unfolding manager_remove_skipped_blocks_def Let_def
      by (fastforce simp: req_blocks_of_eq split: option.splits if_splits elim!: rbindE)
    note k1 = base [OF b]
    note s1 = keepsD(1) [OF k1]
    show ?thesis
    proof (cases "(p', m') = (p1, m1)")
      case False
      let ?bs = "blocks_or_empty rid m1" and ?m2 = "set_req_blocks rid (blocks_or_empty rid m1) m1"
      note k2 = shares_read [OF s1, of rid]
      note s2 = keepsD(1) [OF k2]
      obtain idx x bs' p2 where i: "list_index ?bs idx = Inr x"
        and or: "(p', m') = (p1, ?m2) \<or> x \<noteq> sm_null_block ?m2 \<and> free_blocks [x] p1 = Inr p2 \<and>
            py_set ?bs idx (sm_null_block ?m2) = Inr bs' \<and> (p', m') = (p2, set_req_blocks rid bs' ?m2)"
        using rest False unfolding Let_def by blast
      define j where "j = nat (if idx < 0 then idx + int (length ?bs) else idx)"
      have j: "j < length ?bs" "x = ?bs ! j" using i by (auto simp: list_index_def Let_def j_def split: if_splits)
      show ?thesis
      proof (cases "(p', m') = (p1, ?m2)")
        case True
        then show ?thesis using keeps_trans [OF k1 k2] by simp
      next
        case False
        then have x: "x \<noteq> bp_null_block p1" "free_blocks [x] p1 = Inr p'" "m' = set_req_blocks rid (?bs[j := bp_null_block p1]) ?m2"
          using or sharesD(9) [OF s1] by (auto simp: py_set_def Let_def j_def split: if_splits)
        have "\<exists>p3. free_blocks [x] p1 = Inr p3 \<and> keeps ext p1 ?m2 p3 (set_req_blocks rid (?bs[j := bp_null_block p1]) ?m2) \<and>
            get_num_free_blocks p1 \<le> get_num_free_blocks p3 \<and>
            (\<forall>b \<in> good_blocks p1. refs p3 b = refs p1 b - int (count_list [x] b))"
        proof (rule list_replace_keeps [OF s2])
          show "set (?bs[j := bp_null_block p1]) \<subseteq> insert (bp_null_block p1) (set (blocks_or_empty rid ?m2))"
            using set_update_subset_insert [of ?bs j] by simp
          show "count_list (?bs[j := bp_null_block p1]) b + count_list [x] b = count_list (blocks_or_empty rid ?m2) b"
            if "b \<noteq> bp_null_block p1" for b
            using count_list_update [OF j(1), of "bp_null_block p1" b] that j(2) by (simp split: if_splits)
        qed (use j in auto)
        then have "keeps ext p1 ?m2 p' m'" using x by auto
        then show ?thesis using keeps_trans [OF keeps_trans [OF k1 k2]] by blast
      qed
    qed (use k1 in simp)
  qed
qed

section \<open>All managers of a coordinator\<close>

definition all_share :: "(block_ref \<Rightarrow> int) \<Rightarrow> block_pool \<Rightarrow> single_manager list \<Rightarrow> bool" where
  "all_share ext p ms \<longleftrightarrow> pool_inv p \<and> (\<forall>m \<in> set ms. manager_ok p m) \<and>
     (\<forall>b \<in> good_blocks p. 0 \<le> ext b \<and> refs p b = ext b + owned_all ms b)"

lemma all_share_Cons:
  "all_share ext p (m # ms) \<longleftrightarrow> shares (\<lambda>b. ext b + owned_all ms b) p m \<and>
     all_share (\<lambda>b. ext b + owned m b) p ms \<and> (\<forall>b \<in> good_blocks p. 0 \<le> ext b)"
  using owned_nonneg owned_all_nonneg by (force simp: all_share_def shares_def owned_all_def)

lemma manager_ok_wf: "wf_view p' = wf_view p \<Longrightarrow> manager_ok p' m = manager_ok p m"
  using wf_viewD [of p' p] by (simp add: manager_ok_def)

lemma all_share_step:
  assumes a: "all_share ext p (m # ms)" and k: "keeps (\<lambda>b. ext b + owned_all ms b) p m p' m'"
  shows "all_share ext p' (m' # ms)" "all_share (\<lambda>b. ext b + owned m' b) p' ms"
proof -
  note s = keepsD(1) [OF k] and w = keepsD(2) [OF k]
  have e: "0 \<le> ext b" if "b \<in> good_blocks p'" for b
    using a that wf_viewD(4) [OF w] by (simp add: all_share_def)
  have ok: "\<forall>m \<in> set ms. manager_ok p' m" using a manager_ok_wf [OF w] by (simp add: all_share_def)
  have r: "refs p' b = ext b + owned_all ms b + owned m' b" if "b \<in> good_blocks p'" for b
    using sharesD(6) [OF s that] .
  show "all_share ext p' (m' # ms)"
    using sharesD(1,2) [OF s] ok e r by (simp add: all_share_def owned_all_def)
  then show "all_share (\<lambda>b. ext b + owned m' b) p' ms" by (simp add: all_share_Cons)
qed

text \<open>
  The contract of an operation that the coordinator runs on one manager after another: with \<open>pre\<close>
  it keeps the shares of that manager and establishes \<open>post\<close>.  The loop then keeps all shares.
\<close>

locale shared_op =
  fixes f :: "nat \<Rightarrow> block_pool \<times> single_manager \<Rightarrow> ('r \<times> block_pool \<times> single_manager) res"
    and pre :: "nat \<Rightarrow> block_ref list \<Rightarrow> single_manager \<Rightarrow> bool"
    and post :: "nat \<Rightarrow> single_manager \<Rightarrow> single_manager \<Rightarrow> bool"
  assumes op_keeps: "\<And>ext p m i r p' m'. shares ext p m \<Longrightarrow> pre i (bp_blocks p) m \<Longrightarrow>
      f i (p, m) = Inr (r, p', m') \<Longrightarrow> keeps ext p m p' m' \<and> post i m m'"
begin

lemma loop_keeps:
  assumes "manager_loop f i p ms = Inr (rs, p', ms')" "all_share ext p ms"
    and "\<And>j. j < length ms \<Longrightarrow> pre (i + j) (bp_blocks p) (ms ! j)"
  shows "all_share ext p' ms' \<and> wf_view p' = wf_view p \<and> map setup_of ms' = map setup_of ms \<and>
    (\<forall>j < length ms. post (i + j) (ms ! j) (ms' ! j))"
  using assms
proof (induction ms arbitrary: i p ext rs ms')
  case (Cons m ms)
  obtain r p1 m1 rs1 ms1 where f: "f i (p, m) = Inr (r, p1, m1)"
    and l: "manager_loop f (Suc i) p1 ms = Inr (rs1, p', ms1)" and ms': "ms' = m1 # ms1"
    using Cons.prems(1) by (auto elim!: rbindE)
  have "pre i (bp_blocks p) m" using Cons.prems(3) [of 0] by simp
  from op_keeps [OF _ this f] Cons.prems(2) have
    k: "keeps (\<lambda>b. ext b + owned_all ms b) p m p1 m1" and po: "post i m m1" by (auto simp: all_share_Cons)
  note a = all_share_step [OF Cons.prems(2) k]
  have "pre (Suc i + j) (bp_blocks p1) (ms ! j)" if "j < length ms" for j
    using Cons.prems(3) [of "Suc j"] that wf_viewD(1) [OF keepsD(2) [OF k]] by simp
  note ih = Cons.IH [OF l a(2) this]
  have "all_share ext p' (m1 # ms1)"
  proof -
    have "manager_ok p' m1" using sharesD(2) [OF keepsD(1) [OF k]] ih manager_ok_wf by blast
    moreover have "0 \<le> ext b" if "b \<in> good_blocks p'" for b
      using Cons.prems(2) that ih wf_viewD(4) [OF keepsD(2) [OF k]] wf_viewD(4) [of p' p1]
      by (simp add: all_share_def)
    ultimately show ?thesis using ih by (auto simp: all_share_def owned_all_def)
  qed
  moreover have "post (i + j) ((m # ms) ! j) (ms' ! j)" if "j < length (m # ms)" for j
    using that po ih by (cases j) (auto simp: ms')
  ultimately show ?case using ih k by (auto simp: ms' keeps_def)
qed simp

end

text \<open>An operation without a result.\<close>

locale shared_do =
  fixes g :: "nat \<Rightarrow> block_pool \<times> single_manager \<Rightarrow> (block_pool \<times> single_manager) res"
    and pre :: "nat \<Rightarrow> block_ref list \<Rightarrow> single_manager \<Rightarrow> bool"
    and post :: "nat \<Rightarrow> single_manager \<Rightarrow> single_manager \<Rightarrow> bool"
  assumes do_keeps: "\<And>ext p m i p' m'. shares ext p m \<Longrightarrow> pre i (bp_blocks p) m \<Longrightarrow>
      g i (p, m) = Inr (p', m') \<Longrightarrow> keeps ext p m p' m' \<and> post i m m'"

sublocale shared_do \<subseteq> shared_op "\<lambda>i st. rbind (g i st) (\<lambda>st'. Inr ((), st'))" pre post
  by unfold_locales (auto simp: res_simps dest: do_keeps)

text \<open>The reference counts of a coordinator, with \<open>ext\<close> for blocks popped but not yet given back.\<close>

definition coordinator_holds :: "(block_ref \<Rightarrow> int) \<Rightarrow> coordinator \<Rightarrow> bool" where
  "coordinator_holds ext co \<longleftrightarrow> all_share ext (co_pool co) (co_managers co)"

text \<open>What no operation of a coordinator changes.\<close>

definition frame_of where
  "frame_of co = (wf_view (co_pool co), map setup_of (co_managers co), co_class co, co_config co,
     co_max_model_len co, co_enable_caching co, co_scheduler_block_size co, co_eagle_group_ids co,
     co_hash_block_size co, co_attention_groups co)"

context shared_op
begin

lemma each_keeps:
  assumes run: "each_manager f co = Inr (rs, co')" and h: "coordinator_holds ext co"
    and pre: "\<And>j. j < length (co_managers co) \<Longrightarrow> pre j (bp_blocks (co_pool co)) (co_managers co ! j)"
  shows "coordinator_holds ext co' \<and> frame_of co' = frame_of co \<and>
    (\<forall>j < length (co_managers co). post j (co_managers co ! j) (co_managers co' ! j))"
proof -
  obtain p ms where "manager_loop f 0 (co_pool co) (co_managers co) = Inr (rs, p, ms)"
    "co' = co\<lparr>co_pool := p, co_managers := ms\<rparr>"
    using run by (auto simp: each_manager_def elim!: rbindE)
  then show ?thesis using loop_keeps [of 0 "co_pool co" "co_managers co" rs p ms ext] h pre
    by (auto simp: coordinator_holds_def frame_of_def)
qed

end

context shared_do
begin

lemma each_do_keeps:
  assumes run: "each_manager_do g co = Inr co'" and h: "coordinator_holds ext co"
    and pre: "\<And>j. j < length (co_managers co) \<Longrightarrow> pre j (bp_blocks (co_pool co)) (co_managers co ! j)"
  shows "coordinator_holds ext co' \<and> frame_of co' = frame_of co \<and>
    (\<forall>j < length (co_managers co). post j (co_managers co ! j) (co_managers co' ! j))"
  using run each_keeps [OF _ h pre] by (auto simp: each_manager_do_def elim!: rbindE)

end

lemma num_skipped_le: "spec_sane kind \<Longrightarrow> 0 \<le> n \<Longrightarrow> num_skipped_tokens kind n \<le> n"
  by (auto simp: num_skipped_tokens_def spec_sane_def minus_mod_eq_div_mult [symmetric]
      split: spec_kind.splits)

lemma div_le_cdiv: "0 < b \<Longrightarrow> a \<le> n \<Longrightarrow> a div b \<le> cdiv n (b::int)"
proof -
  assume b: "0 < b" and a: "a \<le> n"
  have "a div b \<le> cdiv a b" using b by (simp add: cdiv_floor zdiv_mono1)
  then show ?thesis using cdiv_mono [OF b a] by linarith
qed

lemma mult_le_cdiv: "0 < b \<Longrightarrow> k * b \<le> n \<Longrightarrow> k \<le> cdiv n (b::int)"
  using div_le_cdiv [of b "k * b" n] by simp

lemma length_local_blocks:
  "int (length (local_blocks m n new)) = max (max 0 (get_num_skipped_tokens m n div sm_block_size m)) (int (length new))"
  by (auto simp: local_blocks_def kept_blocks_def Let_def py_slice_from_def py_bound_def)

lemma local_blocks_fit:
  assumes "0 < sm_block_size m" "spec_sane (sm_kind m)" "0 \<le> loc" "0 \<le> exts"
    "int (length new) * sm_block_size m \<le> loc"
  shows "int (length (local_blocks m (loc + exts) new)) \<le> cdiv (loc + exts) (sm_block_size m)"
proof -
  have "get_num_skipped_tokens m (loc + exts) \<le> loc + exts"
    using num_skipped_le assms by (simp add: get_num_skipped_tokens_def)
  then show ?thesis
    using div_le_cdiv [OF assms(1)] mult_le_cdiv [OF assms(1), of "int (length new)" "loc + exts"]
      cdiv_nonneg [OF assms(1), of "loc + exts"] assms(3-5) by (simp add: length_local_blocks)
qed

text \<open>The computed blocks handed to the coordinator: blocks of the pool that the local tokens cover.\<close>

definition computed_ok :: "block_ref list list \<Rightarrow> int \<Rightarrow> int \<Rightarrow> nat \<Rightarrow> block_ref list \<Rightarrow> single_manager \<Rightarrow> bool" where
  "computed_ok blocks loc exts i B m \<longleftrightarrow> 0 \<le> loc \<and> 0 \<le> exts \<and> i < length blocks \<and>
     set (blocks ! i) \<subseteq> set B \<and> int (length (blocks ! i)) * sm_block_size m \<le> loc"

definition covered_by :: "string \<Rightarrow> int \<Rightarrow> single_manager \<Rightarrow> bool" where
  "covered_by rid n m \<longleftrightarrow> sm_kind m = CrossAttentionSpec \<or>
     int (length (blocks_or_empty rid m)) \<le> cdiv n (sm_block_size m)"

interpretation new_blocks: shared_op
  "\<lambda>_ (p, m). manager_allocate_new_blocks rid (if sm_kind m = CrossAttentionSpec then n_enc else n) n_main (p, m)"
  "\<lambda>_ _ _. 0 \<le> n_main" "\<lambda>_ _ _. True" for rid n n_main n_enc
  by unfold_locales (auto intro: manager_allocate_keeps)

interpretation local_blocks: shared_do
  "\<lambda>i st. rbind (list_index blocks (int i)) (\<lambda>bs. add_local_computed_blocks rid bs loc exts st)"
  "computed_ok blocks loc exts" "\<lambda>_ _ m'. covered_by rid (loc + exts) m'" for blocks rid loc exts
proof
  fix ext p m i p' m'
  assume s: "shares ext p m" and c: "computed_ok blocks loc exts i (bp_blocks p) m"
    and run: "rbind (list_index blocks (int i)) (\<lambda>bs. add_local_computed_blocks rid bs loc exts (p, m)) = Inr (p', m')"
  have run': "add_local_computed_blocks rid (blocks ! i) loc exts (p, m) = Inr (p', m')"
    using run c by (simp add: computed_ok_def)
  have k: "keeps ext p m p' m'" by (rule add_local_keeps [OF s _ run']) (use c in \<open>simp add: computed_ok_def\<close>)
  have "covered_by rid (loc + exts) m'"
  proof (cases "sm_kind m = CrossAttentionSpec")
    case False
    have "blocks_or_empty rid m' = local_blocks m (loc + exts) (blocks ! i)"
      using add_local_run(2) [OF run' False] by (simp add: blocks_or_empty_def)
    then show ?thesis
      using local_blocks_fit [OF sharesD(10,11) [OF s], of loc exts "blocks ! i"] c setup_ofD [OF keepsD(3) [OF k]]
      by (simp add: covered_by_def computed_ok_def)
  qed (use setup_ofD [OF keepsD(3) [OF k]] in \<open>simp add: covered_by_def\<close>)
  then show "keeps ext p m p' m' \<and> covered_by rid (loc + exts) m'" using k by blast
qed

interpretation external_blocks: shared_do
  "\<lambda>_. allocate_external_computed_blocks rid loc exts" "\<lambda>_ _ m. covered_by rid (loc + exts) m"
  "\<lambda>_ _ _. True" for rid loc exts
proof
  fix ext p m i p' m'
  assume s: "shares ext p m" and c: "covered_by rid (loc + exts) m"
    and run: "allocate_external_computed_blocks rid loc exts (p, m) = Inr (p', m')"
  show "keeps ext p m p' m' \<and> True"
  proof (cases "sm_kind m = CrossAttentionSpec")
    case True
    then show ?thesis using run keeps_refl [OF s] by (simp add: allocate_external_computed_blocks_def)
  qed (use allocate_external_keeps [OF s run] c in \<open>simp add: covered_by_def\<close>)
qed

interpretation caching: shared_do "\<lambda>_ st. manager_cache_blocks env r (n (snd st)) ret st" "\<lambda>_ _ _. True"
  "\<lambda>_ _ _. True" for env r n ret
  by unfold_locales (auto intro: manager_cache_keeps)

interpretation freeing: shared_do "\<lambda>_. manager_free rid" "\<lambda>_ _ _. True"
  "\<lambda>_ m m'. sm_req_to_blocks m' = AList.delete rid (sm_req_to_blocks m)" for rid
proof
  fix ext p m i p' m'
  assume "shares ext p m" "manager_free rid (p, m) = Inr (p', m')"
  then show "keeps ext p m p' m' \<and> sm_req_to_blocks m' = AList.delete rid (sm_req_to_blocks m)"
    using manager_free_keeps [of ext p m rid] by auto
qed

interpretation skipping: shared_do "\<lambda>_. manager_remove_skipped_blocks rid n" "\<lambda>_ _ _. True" "\<lambda>_ _ _. True" for rid n
  by unfold_locales (auto intro: manager_remove_skipped_keeps)

definition count_for ::
  "string \<Rightarrow> int \<Rightarrow> block_ref list list \<Rightarrow> int \<Rightarrow> int \<Rightarrow> int \<Rightarrow> bool \<Rightarrow> nat \<Rightarrow> block_pool \<times> single_manager
     \<Rightarrow> (int \<times> block_pool \<times> single_manager) res" where
  "count_for rid n blocks n_enc computed n_main capped = (\<lambda>i (p, m).
       if sm_kind m = CrossAttentionSpec
       then rbind (manager_num_blocks_to_allocate p rid n_enc [] 0 n_enc capped m) (\<lambda>(n, m'). Inr (n, p, m'))
       else rbind (list_index blocks (int i)) (\<lambda>bs.
            rbind (manager_num_blocks_to_allocate p rid n bs computed n_main capped m) (\<lambda>(n, m'). Inr (n, p, m'))))"

interpretation counting: shared_op "count_for rid n blocks n_enc computed n_main capped"
  "\<lambda>_ _ _. True" "\<lambda>_ _ _. True" for rid n blocks n_enc computed n_main capped
  by unfold_locales (auto simp: count_for_def elim!: rbindE split: if_splits dest: num_blocks_to_allocate_keeps)

end
