(* ===== verification/KVHistory.thy ===== *)
theory KVHistory
  imports Ownership
begin

text \<open>
  The histories of a \<open>KVCacheManager\<close>: what the scheduler may do with it, in any order, and the
  reference counts in every state it can reach.
\<close>

section \<open>The operations of the coordinator\<close>

lemma coordinator_allocate_keeps:
  assumes "coordinator_allocate_new_blocks rid n n_main n_enc co = Inr (bs, co')" "coordinator_holds ext co" "0 \<le> n_main"
  shows "coordinator_holds ext co' \<and> frame_of co' = frame_of co"
  using new_blocks.each_keeps [where n_main = n_main and rid = rid and n = n and n_enc = n_enc, OF _ assms(2)] assms(1,3)
  by (simp add: coordinator_allocate_new_blocks_def)

lemma coordinator_count_keeps:
  assumes "coordinator_num_blocks_to_allocate rid n blocks n_enc computed n_main capped co = Inr (k, co')"
    "coordinator_holds ext co"
  shows "coordinator_holds ext co' \<and> frame_of co' = frame_of co"
proof -
  obtain ns where "each_manager (count_for rid n blocks n_enc computed n_main capped) co = Inr (ns, co')"
    using assms(1) by (auto simp: coordinator_num_blocks_to_allocate_def count_for_def elim!: rbindE)
  then show ?thesis using counting.each_keeps assms(2) by blast
qed

lemma coordinator_cache_keeps:
  assumes "coordinator_cache_blocks env r n co = Inr co'" "coordinator_holds ext co"
  shows "coordinator_holds ext co' \<and> frame_of co' = frame_of co"
proof -
  obtain n' where "each_manager_do (\<lambda>_ st. manager_cache_blocks env r (n' (snd st)) (co_retention_interval co) st) co = Inr co'"
  proof (cases "co_class co = HybridKVCacheCoordinator")
    case True
    let ?al = "n div co_scheduler_block_size co * co_scheduler_block_size co"
    show ?thesis
      using that [of "\<lambda>m. if sm_use_eagle m \<and> ?al > 0 then min n (?al + sm_block_size m) else ?al"] assms(1) True
      by (simp add: coordinator_cache_blocks_def Let_def case_prod_unfold)
  qed (use that [of "\<lambda>_. n"] assms(1) in \<open>simp add: coordinator_cache_blocks_def\<close>)
  then show ?thesis using caching.each_do_keeps assms(2) by blast
qed

lemma coordinator_skip_keeps:
  assumes "coordinator_remove_skipped_blocks rid n co = Inr co'" "coordinator_holds ext co"
  shows "coordinator_holds ext co' \<and> frame_of co' = frame_of co"
  using skipping.each_do_keeps [OF _ assms(2)] assms(1) by (simp add: coordinator_remove_skipped_blocks_def)

lemma allocate_computed_keeps:
  assumes run: "allocate_new_computed_blocks rid blocks loc exts co = Inr co'" and h: "coordinator_holds ext co"
    and ok: "\<And>j. j < length (co_managers co) \<Longrightarrow>
      computed_ok blocks loc exts j (bp_blocks (co_pool co)) (co_managers co ! j)"
  shows "coordinator_holds ext co' \<and> frame_of co' = frame_of co"
proof (cases "\<exists>m \<in> set (co_managers co). map_of (sm_num_cached_block m) rid \<noteq> None")
  case True
  then show ?thesis using run h by (auto simp: allocate_new_computed_blocks_def elim!: rbindE)
next
  case False
  obtain co1 where l: "each_manager_do (\<lambda>i st. rbind (list_index blocks (int i)) (\<lambda>bs.
        add_local_computed_blocks rid bs loc exts st)) co = Inr co1"
    and e: "co' = co1 \<or> each_manager_do (\<lambda>_. allocate_external_computed_blocks rid loc exts) co1 = Inr co'"
    using run False by (auto simp: allocate_new_computed_blocks_def elim!: rbindE split: if_splits)
  have k: "coordinator_holds ext co1 \<and> frame_of co1 = frame_of co \<and>
    (\<forall>j < length (co_managers co). covered_by rid (loc + exts) (co_managers co1 ! j))"
    using local_blocks.each_do_keeps [OF l h ok] by simp
  then have "length (co_managers co1) = length (co_managers co)"
    unfolding frame_of_def by (metis length_map prod.inject)
  then show ?thesis using e k external_blocks.each_do_keeps [of rid loc exts co1 co' ext] by auto
qed

section \<open>Release\<close>

text \<open>An operation that cannot fail.\<close>

locale shared_total = shared_op +
  assumes op_total: "\<And>ext p m i. shares ext p m \<Longrightarrow> pre i (bp_blocks p) m \<Longrightarrow> \<exists>r p' m'. f i (p, m) = Inr (r, p', m')"
begin

lemma loop_total:
  assumes "all_share ext p ms" "\<And>j. j < length ms \<Longrightarrow> pre (i + j) (bp_blocks p) (ms ! j)"
  shows "\<exists>rs p' ms'. manager_loop f i p ms = Inr (rs, p', ms')"
  using assms
proof (induction ms arbitrary: i p ext)
  case (Cons m ms)
  have s: "shares (\<lambda>b. ext b + owned_all ms b) p m" and pr: "pre i (bp_blocks p) m"
    using Cons.prems(1) Cons.prems(2) [of 0] by (simp_all add: all_share_Cons)
  obtain r p1 m1 where f: "f i (p, m) = Inr (r, p1, m1)" using op_total [OF s pr] by blast
  have k: "keeps (\<lambda>b. ext b + owned_all ms b) p m p1 m1" using op_keeps [OF s pr f] by blast
  have "pre (Suc i + j) (bp_blocks p1) (ms ! j)" if "j < length ms" for j
    using Cons.prems(2) [of "Suc j"] that wf_viewD(1) [OF keepsD(2) [OF k]] by simp
  from Cons.IH [OF all_share_step(2) [OF Cons.prems(1) k] this] show ?case using f by auto
qed simp

lemma each_total:
  assumes "coordinator_holds ext co" "\<And>j. j < length (co_managers co) \<Longrightarrow> pre j (bp_blocks (co_pool co)) (co_managers co ! j)"
  shows "\<exists>rs co'. each_manager f co = Inr (rs, co')"
  using loop_total [of ext "co_pool co" "co_managers co" 0] assms by (auto simp: each_manager_def coordinator_holds_def)

end

interpretation freeing: shared_total "\<lambda>i st. rbind (manager_free rid st) (\<lambda>st'. Inr ((), st'))" "\<lambda>_ _ _. True"
  "\<lambda>_ m m'. sm_req_to_blocks m' = AList.delete rid (sm_req_to_blocks m)" for rid
proof
  fix ext p m
  assume "shares ext p m"
  then show "\<exists>r p' m'. rbind (manager_free rid (p, m)) (\<lambda>st'. Inr ((), st')) = Inr (r, p', m')"
    using manager_free_keeps [of ext p m rid] by auto
qed

lemma coordinator_free_keeps:
  assumes h: "coordinator_holds ext co"
  shows "\<exists>co'. coordinator_free rid co = Inr co' \<and> coordinator_holds ext co' \<and> frame_of co' = frame_of co \<and>
    (\<forall>j < length (co_managers co). sm_req_to_blocks (co_managers co' ! j) =
       AList.delete rid (sm_req_to_blocks (co_managers co ! j)))"
proof -
  obtain rs co' where "each_manager (\<lambda>i st. rbind (manager_free rid st) (\<lambda>st'. Inr ((), st'))) co = Inr (rs, co')"
    using freeing.each_total [OF h] by blast
  then have "coordinator_free rid co = Inr co'" by (simp add: coordinator_free_def each_manager_do_def)
  then show ?thesis using freeing.each_do_keeps [OF _ h, of rid co'] by (auto simp: coordinator_free_def)
qed

lemma coordinator_pop_keeps:
  assumes h: "coordinator_holds ext co" and pop: "coordinator_pop_blocks_for_free rid co = (bs, co')"
  shows "coordinator_holds (\<lambda>b. ext b + int (count_list bs b)) co' \<and> frame_of co' = frame_of co \<and>
    set bs \<subseteq> set (bp_blocks (co_pool co)) \<and> co_pool co' = co_pool co"
proof -
  have "all_share (\<lambda>b. ext b + int (count_list (concat (map fst (map (pop_blocks_for_free rid) ms))) b)) p
      (map snd (map (pop_blocks_for_free rid) ms)) \<and>
    map setup_of (map snd (map (pop_blocks_for_free rid) ms)) = map setup_of ms \<and>
    set (concat (map fst (map (pop_blocks_for_free rid) ms))) \<subseteq> set (bp_blocks p)"
    if "all_share ext p ms" for ext p ms
    using that
  proof (induction ms arbitrary: ext)
    case (Cons m ms)
    obtain bs1 m1 where pop: "pop_blocks_for_free rid m = (bs1, m1)" by fastforce
    have s: "shares (\<lambda>b. ext b + owned_all ms b) p m" using Cons.prems by (simp add: all_share_Cons)
    note o = pop_blocks_shares [OF s pop]
    have "owned m1 b = owned m b - int (count_list bs1 b)" if "b \<in> good_blocks p" for b
      using o sharesD(6) [OF s that] sharesD(6) [OF conjunct1 [OF conjunct2 [OF o]] that] by simp
    moreover have ms: "all_share (\<lambda>b. ext b + owned m b) p ms" using Cons.prems by (simp add: all_share_Cons)
    ultimately have "all_share (\<lambda>b. ext b + int (count_list bs1 b) + owned m1 b) p ms"
      by (simp add: all_share_def)
    from Cons.IH [OF this] have ih: "all_share (\<lambda>b. ext b + int (count_list bs1 b) + owned m1 b +
        int (count_list (concat (map fst (map (pop_blocks_for_free rid) ms))) b)) p (map snd (map (pop_blocks_for_free rid) ms))"
      "map setup_of (map snd (map (pop_blocks_for_free rid) ms)) = map setup_of ms"
      "set (concat (map fst (map (pop_blocks_for_free rid) ms))) \<subseteq> set (bp_blocks p)" by blast+
    have "manager_ok p m1" using o sharesD(2) by blast
    moreover have "0 \<le> ext b" if "b \<in> good_blocks p" for b using Cons.prems that by (simp add: all_share_def)
    ultimately show ?case using ih o sharesD(8) [OF s] pop
      by (simp add: all_share_def owned_all_def algebra_simps)
  qed (simp add: all_share_def)
  from this [of ext "co_pool co" "co_managers co"] show ?thesis using h pop
    by (auto simp: coordinator_holds_def coordinator_pop_blocks_for_free_def Let_def frame_of_def)
qed

section \<open>The commit of a tier change\<close>

definition reclaim_pos :: "nat \<times> int \<times> block_ref \<Rightarrow> nat \<times> int" where
  "reclaim_pos x = (fst x, fst (snd x))"

definition reclaims_ok :: "string \<Rightarrow> block_ref \<Rightarrow> single_manager list \<Rightarrow> (nat \<times> int \<times> block_ref) list \<Rightarrow> bool" where
  "reclaims_ok rid null ms xs \<longleftrightarrow> distinct (map reclaim_pos xs) \<and>
     (\<forall>(g, i, b) \<in> set xs. g < length ms \<and> 0 \<le> i \<and> nat i < length (blocks_or_empty rid (ms ! g)) \<and>
        blocks_or_empty rid (ms ! g) ! nat i = b \<and> b \<noteq> null)"

abbreviation reclaimed_blocks :: "(nat \<times> int \<times> block_ref) list \<Rightarrow> block_ref list" where
  "reclaimed_blocks xs \<equiv> map (\<lambda>x. snd (snd x)) xs"

text \<open>The list of group \<open>g\<close> with the reclaimed positions nulled.\<close>

definition nulled :: "(nat \<times> int) set \<Rightarrow> block_ref \<Rightarrow> nat \<Rightarrow> block_ref list \<Rightarrow> block_ref list" where
  "nulled P null g bs = map (\<lambda>(i, b). if (g, int i) \<in> P then null else b) (enumerate 0 bs)"

lemma nulled_nth: "i < length bs \<Longrightarrow> nulled P null g bs ! i = (if (g, int i) \<in> P then null else bs ! i)"
  by (simp add: nulled_def nth_enumerate_eq)

lemma length_nulled [simp]: "length (nulled P null g bs) = length bs"
  by (simp add: nulled_def)

lemma nulled_empty [simp]: "nulled {} null g bs = bs"
  by (rule nth_equalityI) (simp_all add: nulled_nth)

lemma nulled_insert:
  "i < length bs \<Longrightarrow> nulled P null g (bs[i := null]) = nulled (insert (g, int i) P) null g bs"
  by (rule nth_equalityI) (auto simp: nulled_nth nth_list_update)

lemma nulled_other: "g \<noteq> g' \<Longrightarrow> nulled (insert (g', j) P) null g bs = nulled P null g bs"
  by (rule nth_equalityI) (auto simp: nulled_nth)

lemma owned_all_update:
  "g < length ms \<Longrightarrow> owned_all (ms[g := y]) x = owned_all ms x - owned (ms ! g) x + owned y x"
proof (induction ms arbitrary: g)
  case (Cons m ms)
  then show ?case by (cases g) (auto simp: owned_all_def)
qed simp

text \<open>One reclaim moves the reference of a block from the request's list to the caller.\<close>

lemma reclaim_step:
  assumes h: "all_share ext p ms" and g: "g < length ms" and i: "0 \<le> i" "nat i < length (blocks_or_empty rid (ms ! g))"
    and b: "blocks_or_empty rid (ms ! g) ! nat i = b" "b \<noteq> bp_null_block p"
  shows "\<exists>p' ms'. reclaim_block rid WARM caching (g, i, b) (p, ms, freed) = Inr (p', ms', freed @ [b]) \<and>
    all_share (\<lambda>c. ext c + (if c = b then 1 else 0)) p' ms' \<and> wf_view p' = wf_view p \<and>
    (\<forall>c. refs p' c = refs p c) \<and>
    ms' = ms[g := set_req_blocks rid ((blocks_or_empty rid (ms ! g))[nat i := bp_null_block p]) (ms ! g)] \<and>
    (caching \<longrightarrow> block_keys p' b = {}) \<and>
    (\<forall>c \<in> set (bp_blocks p). c \<noteq> b \<longrightarrow> block_keys p' c = block_keys p c) \<and>
    get_num_free_blocks p' = get_num_free_blocks p"
proof -
  let ?m = "ms ! g" and ?bs = "blocks_or_empty rid (ms ! g)"
  let ?bs' = "?bs[nat i := bp_null_block p]"
  let ?p' = "if caching \<and> kb_block_hash (blk p b) \<noteq> None then snd (maybe_evict_cached_block b p) else p"
  have pi: "pool_inv p" and ok: "\<And>m. m \<in> set ms \<Longrightarrow> manager_ok p m" using h by (auto simp: all_share_def)
  have mg: "?m \<in> set ms" using g by simp
  have bb: "b \<in> set (bp_blocks p)" using ok [OF mg] b(1) nth_mem [OF i(2)] by (auto simp: manager_ok_def)
  have pw: "pool_wf p" "hash_ok p" using pi by (auto simp: pool_inv_def)
  have c: "caches p ?p'" using maybe_evict_spec [OF pw bb] caches_refl [OF pw(2)] by simp
  have al: "aliases p b = []" if "kb_block_hash (blk p b) = None" using pw(2) bb that by (simp add: hash_ok_def)
  have keys: "caching \<longrightarrow> block_keys ?p' b = {}" "\<forall>c \<in> set (bp_blocks p). c \<noteq> b \<longrightarrow> block_keys ?p' c = block_keys p c"
    using maybe_evict_spec [OF pw bb] al by (auto simp: block_keys_def)
  note cs = caches_shares [OF pi c]
  have null: "bp_null_block ?p' = bp_null_block p" using cs wf_viewD(2) by blast
  let ?m' = "set_req_blocks rid ?bs' ?m"
  have run: "reclaim_block rid WARM caching (g, i, b) (p, ms, freed) = Inr (?p', ms[g := ?m'], freed @ [b])"
    using i null by (simp add: reclaim_block_def Let_def py_set_def)
  have mok: "manager_ok p ?m'"
  proof -
    have "align_ok ?m'" by (rule align_ok_write [of ?m _ rid ?bs']) (use ok [OF mg] in \<open>simp_all add: manager_ok_def\<close>)
    moreover have "set ?bs' \<subseteq> set (bp_blocks p)"
      using set_update_subset_insert [of ?bs "nat i" "bp_null_block p"] pool_inv_null [OF pi] ok [OF mg]
      by (auto simp: manager_ok_def)
    ultimately show ?thesis using ok [OF mg] by (simp add: manager_ok_def)
  qed
  have own: "owned_all (ms[g := ?m']) x = owned_all ms x - (if x = b then 1 else 0)" if x: "x \<in> good_blocks p" for x
  proof -
    have "count_list ?bs' x + (if b = x then 1 else 0) = count_list ?bs x"
      using count_list_update [OF i(2), of "bp_null_block p" x] b(1) good_not_null [OF x] by simp
    then have "owned ?m' x = owned ?m x - (if x = b then 1 else 0)" by (auto simp: owned_set split: if_splits)
    then show ?thesis using owned_all_update [OF g] by simp
  qed
  have "all_share (\<lambda>c. ext c + (if c = b then 1 else 0)) ?p' (ms[g := ?m'])"
  proof -
    have "manager_ok ?p' m" if "m \<in> set (ms[g := ?m'])" for m
      using set_update_subset_insert [of ms g ?m'] that mok ok manager_ok_wf cs by blast
    moreover have "refs ?p' x = refs p x" for x using cs by blast
    moreover have "good_blocks ?p' = good_blocks p" using cs wf_viewD(4) by blast
    ultimately show ?thesis using cs own h by (simp add: all_share_def)
  qed
  then show ?thesis using run cs keys by blast
qed

lemma reclaims_ok_step:
  assumes "reclaims_ok rid null ms ((g, i, b) # xs)"
  shows "reclaims_ok rid null (ms[g := set_req_blocks rid ((blocks_or_empty rid (ms ! g))[nat i := null]) (ms ! g)]) xs"
proof -
  have "nat i' < length (blocks_or_empty rid (ms ! g')) \<and>
      blocks_or_empty rid (ms[g := set_req_blocks rid ((blocks_or_empty rid (ms ! g))[nat i := null]) (ms ! g)] ! g') ! nat i' = b'"
    if x: "(g', i', b') \<in> set xs" for g' i' b'
  proof -
    have o: "g < length ms" "g' < length ms" "0 \<le> i'" "0 \<le> i" "nat i' < length (blocks_or_empty rid (ms ! g'))"
      "blocks_or_empty rid (ms ! g') ! nat i' = b'"
      using assms x by (auto simp: reclaims_ok_def)
    have "(g', i') \<noteq> (g, i)"
      using assms x by (force simp: reclaims_ok_def reclaim_pos_def image_iff)
    then have "g' \<noteq> g \<or> nat i' \<noteq> nat i" using o by auto
    then show ?thesis using o by (auto simp: nth_list_update)
  qed
  then show ?thesis using assms by (fastforce simp: reclaims_ok_def nth_list_update)
qed

lemma reclaim_loop:
  assumes "all_share ext p ms" "reclaims_ok rid (bp_null_block p) ms xs"
  shows "\<exists>p' ms'. rfold (reclaim_block rid WARM caching) xs (p, ms, freed) = Inr (p', ms', freed @ reclaimed_blocks xs) \<and>
    all_share (\<lambda>c. ext c + int (count_list (reclaimed_blocks xs) c)) p' ms' \<and> wf_view p' = wf_view p \<and>
    (\<forall>c. refs p' c = refs p c) \<and> map setup_of ms' = map setup_of ms \<and>
    (\<forall>g < length ms. \<forall>r. blocks_or_empty r (ms' ! g) =
       (if r = rid then nulled (reclaim_pos ` set xs) (bp_null_block p) g (blocks_or_empty rid (ms ! g))
        else blocks_or_empty r (ms ! g))) \<and>
    (caching \<longrightarrow> (\<forall>b \<in> set (reclaimed_blocks xs). block_keys p' b = {})) \<and>
    (\<forall>c \<in> set (bp_blocks p). c \<notin> set (reclaimed_blocks xs) \<longrightarrow> block_keys p' c = block_keys p c) \<and>
    get_num_free_blocks p' = get_num_free_blocks p"
  using assms
proof (induction xs arbitrary: ext p ms freed)
  case (Cons x xs)
  obtain g i b where x: "x = (g, i, b)" by (cases x)
  let ?null = "bp_null_block p"
  have o: "g < length ms" "0 \<le> i" "nat i < length (blocks_or_empty rid (ms ! g))"
    "blocks_or_empty rid (ms ! g) ! nat i = b" "b \<noteq> ?null"
    using Cons.prems(2) by (auto simp: reclaims_ok_def x)
  let ?ms1 = "ms[g := set_req_blocks rid ((blocks_or_empty rid (ms ! g))[nat i := ?null]) (ms ! g)]"
  obtain p1 where s: "reclaim_block rid WARM caching (g, i, b) (p, ms, freed) = Inr (p1, ?ms1, freed @ [b])"
    "all_share (\<lambda>c. ext c + (if c = b then 1 else 0)) p1 ?ms1" "wf_view p1 = wf_view p" "\<forall>c. refs p1 c = refs p c"
    "caching \<longrightarrow> block_keys p1 b = {}" "\<forall>c \<in> set (bp_blocks p). c \<noteq> b \<longrightarrow> block_keys p1 c = block_keys p c"
    "get_num_free_blocks p1 = get_num_free_blocks p"
    using reclaim_step [OF Cons.prems(1) o, of caching freed] by blast
  have null: "bp_null_block p1 = ?null" "bp_blocks p1 = bp_blocks p" using wf_viewD [OF s(3)] by simp_all
  have ok: "reclaims_ok rid (bp_null_block p1) ?ms1 xs"
    using reclaims_ok_step [of rid ?null ms g i b xs] Cons.prems(2) null by (simp add: x)
  obtain p2 ms2 where t: "rfold (reclaim_block rid WARM caching) xs (p1, ?ms1, freed @ [b]) =
      Inr (p2, ms2, (freed @ [b]) @ reclaimed_blocks xs)"
    "all_share (\<lambda>c. ext c + (if c = b then 1 else 0) + int (count_list (reclaimed_blocks xs) c)) p2 ms2"
    "wf_view p2 = wf_view p1" "\<forall>c. refs p2 c = refs p1 c" "map setup_of ms2 = map setup_of ?ms1"
    "\<forall>g' < length ?ms1. \<forall>r. blocks_or_empty r (ms2 ! g') =
       (if r = rid then nulled (reclaim_pos ` set xs) ?null g' (blocks_or_empty rid (?ms1 ! g'))
        else blocks_or_empty r (?ms1 ! g'))"
    "caching \<longrightarrow> (\<forall>b \<in> set (reclaimed_blocks xs). block_keys p2 b = {})"
    "\<forall>c \<in> set (bp_blocks p). c \<notin> set (reclaimed_blocks xs) \<longrightarrow> block_keys p2 c = block_keys p1 c"
    "get_num_free_blocks p2 = get_num_free_blocks p1"
    using Cons.IH [OF s(2) ok, of "freed @ [b]", unfolded null] by blast
  have "all_share (\<lambda>c. ext c + int (count_list (reclaimed_blocks (x # xs)) c)) p2 ms2"
  proof -
    have "(\<lambda>c. ext c + (if c = b then 1 else 0) + int (count_list (reclaimed_blocks xs) c)) =
      (\<lambda>c. ext c + int (count_list (reclaimed_blocks (x # xs)) c))" by (auto simp: x fun_eq_iff)
    then show ?thesis using t(2) by metis
  qed
  moreover have "map setup_of ms2 = map setup_of ms"
    using t(5) by (simp add: map_update list_update_same_conv o(1))
  moreover have "blocks_or_empty r (ms2 ! g') =
       (if r = rid then nulled (reclaim_pos ` set (x # xs)) ?null g' (blocks_or_empty rid (ms ! g'))
        else blocks_or_empty r (ms ! g'))" if "g' < length ms" for g' r
    using t(6) that o nulled_insert [OF o(3), of "reclaim_pos ` set xs" ?null g]
    by (auto simp: nth_list_update x reclaim_pos_def nulled_other)
  moreover have "caching \<longrightarrow> (\<forall>c \<in> set (reclaimed_blocks (x # xs)). block_keys p2 c = {})"
  proof (intro impI ballI)
    fix c assume "caching" and c: "c \<in> set (reclaimed_blocks (x # xs))"
    have "manager_ok p (ms ! g)" using Cons.prems(1) o(1) by (simp add: all_share_def)
    then have "set (blocks_or_empty rid (ms ! g)) \<subseteq> set (bp_blocks p)" by (simp add: manager_ok_def)
    then have "b \<in> set (bp_blocks p)" using nth_mem [OF o(3)] o(4) by blast
    then show "block_keys p2 c = {}" using s(5) t(7,8) c \<open>caching\<close> by (cases "c \<in> set (reclaimed_blocks xs)") (auto simp: x)
  qed
  ultimately show ?case using s t by (simp add: x)
qed simp

text \<open>What validation accepts.\<close>

lemma validate_reclaim_Inr:
  assumes "validate_reclaim p bs t = Inr b"
  shows "\<not> kb_is_null (blk p b) \<and> kb_block_id (blk p b) = bt_source_hot_id t \<and> refs p b = 1 \<and>
    (0 \<le> bt_logical_index t \<longrightarrow> nat (bt_logical_index t) < length bs \<and> bs ! nat (bt_logical_index t) = b)"
  using assms by (auto simp: validate_reclaim_def list_index_Inr split: if_splits elim!: rbindE)

lemma validate_concat:
  assumes "rmap (\<lambda>(gi, ts). rmap (\<lambda>t. rbind (validate_reclaim p (groups ! gi) t) (\<lambda>b.
      Inr (gi, bt_logical_index t, b))) ts) cs = Inr rs"
  shows "map reclaim_pos (concat rs) = map (\<lambda>(g, l, h). (g, l)) (concat (map flat_group cs)) \<and>
    (\<forall>(g, i, b) \<in> set (concat rs). \<exists>ts t. (g, ts) \<in> set cs \<and> t \<in> set ts \<and> i = bt_logical_index t \<and>
       validate_reclaim p (groups ! g) t = Inr b)"
  using assms
proof (induction cs arbitrary: rs)
  case (Cons c cs)
  obtain gi ts where c: "c = (gi, ts)" by fastforce
  obtain ys rs1 where y: "rmap (\<lambda>t. rbind (validate_reclaim p (groups ! gi) t) (\<lambda>b. Inr (gi, bt_logical_index t, b))) ts = Inr ys"
    and r: "rs = ys # rs1"
    and rest: "rmap (\<lambda>(gi, ts). rmap (\<lambda>t. rbind (validate_reclaim p (groups ! gi) t) (\<lambda>b.
      Inr (gi, bt_logical_index t, b))) ts) cs = Inr rs1"
    using Cons.prems by (auto simp: c elim!: rbindE)
  have a: "list_all2 (\<lambda>t y. \<exists>b. validate_reclaim p (groups ! gi) t = Inr b \<and> y = (gi, bt_logical_index t, b)) ts ys"
    using y by (simp add: rmap_Inr_iff rbind_eq_Inr eq_commute [of "(_, _)"] cong: conj_cong)
  have pos: "map reclaim_pos ys = map (\<lambda>(g, l, h). (g, l)) (flat_group c)"
    using a by (auto simp: c flat_group_def reclaim_pos_def list_all2_conv_all_nth intro!: nth_equalityI)
  have el: "\<exists>t \<in> set ts. g = gi \<and> i = bt_logical_index t \<and> validate_reclaim p (groups ! gi) t = Inr b"
    if x: "(g, i, b) \<in> set ys" for g i b
  proof -
    from x obtain k where k: "k < length ys" "ys ! k = (g, i, b)" by (auto simp: in_set_conv_nth)
    then have "\<exists>b'. validate_reclaim p (groups ! gi) (ts ! k) = Inr b' \<and> (g, i, b) = (gi, bt_logical_index (ts ! k), b')"
      using list_all2_nthD2 [OF a k(1)] by simp
    then show ?thesis using k list_all2_lengthD [OF a] nth_mem [of k ts] by auto
  qed
  show ?case using Cons.IH [OF rest] pos el by (fastforce simp: r c)
qed simp

lemma validate_reclaims_spec:
  assumes "validate_reclaims p groups changed = Inr xs"
  shows "length changed \<le> length groups \<and>
    map reclaim_pos xs = map (\<lambda>(g, l, h). (g, l)) (normalize_transition_blocks changed) \<and>
    (\<forall>(g, i, b) \<in> set xs. g < length groups \<and> \<not> kb_is_null (blk p b) \<and> refs p b = 1 \<and>
       (0 \<le> i \<longrightarrow> nat i < length (groups ! g) \<and> groups ! g ! nat i = b))"
proof -
  obtain rs where len: "length changed \<le> length groups" and xs: "xs = concat rs"
    and r: "rmap (\<lambda>(gi, ts). rmap (\<lambda>t. rbind (validate_reclaim p (groups ! gi) t) (\<lambda>b.
      Inr (gi, bt_logical_index t, b))) ts) (enumerate 0 changed) = Inr rs"
    using assms by (auto simp: validate_reclaims_def check_def split: if_splits elim!: rbindE)
  note v = validate_concat [OF r]
  have "g < length groups \<and> \<not> kb_is_null (blk p b) \<and> refs p b = 1 \<and>
       (0 \<le> i \<longrightarrow> nat i < length (groups ! g) \<and> groups ! g ! nat i = b)" if x: "(g, i, b) \<in> set xs" for g i b
  proof -
    obtain ts t where t: "(g, ts) \<in> set (enumerate 0 changed)" "i = bt_logical_index t"
      "validate_reclaim p (groups ! g) t = Inr b"
      using bspec [OF conjunct2 [OF v] x [unfolded xs]] by auto
    have "g < length changed" using t(1) by (auto simp: in_set_enumerate_eq)
    then show ?thesis using validate_reclaim_Inr [OF t(3)] t(2) len by auto
  qed
  then show ?thesis using v len by (auto simp: xs normalize_transition_blocks_def)
qed

definition distinct_entries :: "kv_transition \<Rightarrow> bool" where
  "distinct_entries t \<longleftrightarrow>
     distinct (map (\<lambda>(g, l, h). (g, l)) (normalize_transition_blocks (tn_changed_blocks t))) \<and>
     (\<forall>(g, l, h) \<in> set (normalize_transition_blocks (tn_changed_blocks t)). 0 \<le> l)"

section \<open>The references of a manager\<close>

text \<open>\<open>out\<close>: blocks that were popped for a deferred release.\<close>

definition kv_holds :: "block_ref list \<Rightarrow> kv_cache_manager \<Rightarrow> bool" where
  "kv_holds out km \<longleftrightarrow> coordinator_holds (\<lambda>b. int (count_list out b)) (km_coordinator km) \<and>
     set out \<subseteq> set (bp_blocks (km_pool km)) \<and>
     km_num_kv_cache_groups km = length (co_managers (km_coordinator km)) \<and>
     km_block_sizes km = map sm_block_size (co_managers (km_coordinator km))"

lemma kv_holdsD:
  assumes "kv_holds out km"
  shows "coordinator_holds (\<lambda>b. int (count_list out b)) (km_coordinator km)"
    "all_share (\<lambda>b. int (count_list out b)) (km_pool km) (co_managers (km_coordinator km))"
    "pool_inv (km_pool km)" "set out \<subseteq> set (bp_blocks (km_pool km))"
    "km_num_kv_cache_groups km = length (co_managers (km_coordinator km))"
    "km_block_sizes km = map sm_block_size (co_managers (km_coordinator km))"
  using assms by (auto simp: kv_holds_def coordinator_holds_def all_share_def)

lemma frame_of_sizes:
  "frame_of co' = frame_of co \<Longrightarrow> map sm_block_size (co_managers co') = map sm_block_size (co_managers co) \<and>
     length (co_managers co') = length (co_managers co) \<and> bp_blocks (co_pool co') = bp_blocks (co_pool co)"
proof -
  assume f: "frame_of co' = frame_of co"
  then have s: "map setup_of (co_managers co') = map setup_of (co_managers co)" by (simp add: frame_of_def)
  then have len: "length (co_managers co') = length (co_managers co)" by (metis length_map)
  have "sm_block_size (co_managers co' ! i) = sm_block_size (co_managers co ! i)" if "i < length (co_managers co)" for i
    using s that len setup_ofD(2) by (metis nth_map)
  then have "map sm_block_size (co_managers co') = map sm_block_size (co_managers co)"
    using len by (intro nth_equalityI) simp_all
  moreover have "wf_view (co_pool co') = wf_view (co_pool co)" using f by (simp add: frame_of_def)
  ultimately show ?thesis using len wf_viewD(1) by blast
qed

lemma kv_holds_coordinator:
  assumes "kv_holds out km" "coordinator_holds (\<lambda>b. int (count_list out b)) co" "frame_of co = frame_of (km_coordinator km)"
    "km_coordinator km' = co" "km_num_kv_cache_groups km' = km_num_kv_cache_groups km" "km_block_sizes km' = km_block_sizes km"
  shows "kv_holds out km'"
  using assms(1,2,4-) frame_of_sizes [OF assms(3)] by (simp add: kv_holds_def)

lemma get_blocks_at:
  assumes h: "kv_holds out km" and g: "g < length (kvb_blocks (get_blocks rid km))"
  shows "kvb_blocks (get_blocks rid km) ! g = blocks_or_empty rid (co_managers (km_coordinator km) ! g) \<and>
    g < length (co_managers (km_coordinator km))"
proof -
  have len: "length (kvb_blocks (get_blocks rid km)) = length (co_managers (km_coordinator km))"
    using kv_holdsD(5) [OF h] by (simp add: get_blocks_def create_kv_cache_blocks_def coordinator_get_blocks_def)
  then show ?thesis using g
    by (auto simp: get_blocks_def create_kv_cache_blocks_def coordinator_get_blocks_def kv_holdsD(5) [OF h])
qed

lemma caches_all_share: "caches p p' \<Longrightarrow> all_share ext p ms \<Longrightarrow> all_share ext p' ms"
proof -
  assume c: "caches p p'" and a: "all_share ext p ms"
  have "pool_inv p" using a by (simp add: all_share_def)
  note k = caches_shares [OF this c]
  then show ?thesis using a wf_viewD(4) [of p' p] manager_ok_wf [of p' p] by (simp add: all_share_def)
qed

lemma retier_caches: "hash_ok p \<Longrightarrow> caches p (retier b s p)"
  using hash_view_cong [of "retier b s p" p] by (auto simp: caches_def retier_def set_blk_def view_defs fun_eq_iff)

lemma num_free_card:
  assumes "pool_inv p" shows "get_num_free_blocks p = int (card {b \<in> good_blocks p. refs p b = 0})"
proof -
  obtain xs where x: "pool_wf p" "hash_ok p" "refs_ok p xs" "get_num_free_blocks p = int (length xs)"
    using assms by (rule pool_invE)
  have "set xs = {b \<in> good_blocks p. refs p b = 0}" using x(3) by (simp add: refs_ok_def)
  then show ?thesis using distinct_card [OF refs_okD(2) [OF x(3)]] x(4) by simp
qed

lemma free_keys:
  assumes "pool_inv p" "set bs \<subseteq> set (bp_blocks p)"
    and "\<And>b. b \<in> good_blocks p \<Longrightarrow> int (count_list bs b) \<le> refs p b" "free_blocks bs p = Inr p'"
  shows "block_keys p' b = block_keys p b"
proof -
  obtain xs where x: "pool_wf p" "hash_ok p" "refs_ok p xs" using assms(1) by (rule pool_invE)
  have cnt: "\<forall>b \<in> good_blocks p. int (count_list bs b) \<le> refs p b" using assms(3) by blast
  obtain p'' where f: "free_blocks bs p = Inr p''" "hash_view p'' = hash_view p"
    using free_blocks_spec [OF x(1,3) assms(2) cnt] by blast
  then show ?thesis using hash_view_keys [of p' p] assms(4) by simp
qed

lemma all_share_give_back:
  assumes s: "all_share (\<lambda>b. ext b + c b) p ms" and p: "pool_inv p'" "wf_view p' = wf_view p"
    and refs: "\<And>b. b \<in> good_blocks p \<Longrightarrow> refs p' b = refs p b - c b" and ext: "\<And>b. 0 \<le> ext b"
  shows "all_share ext p' ms"
  using assms wf_viewD(4) [OF p(2)] manager_ok_wf [OF p(2)] by (simp add: all_share_def)

lemma all_share_count:
  "all_share (\<lambda>b. ext b + c b) p ms \<Longrightarrow> b \<in> good_blocks p \<Longrightarrow> 0 \<le> ext b \<Longrightarrow> c b \<le> refs p b"
  using owned_all_nonneg [of ms b] by (simp add: all_share_def)

lemma count_le_1_distinct: "(\<And>x. x \<in> set xs \<Longrightarrow> count_list xs x = 1) \<Longrightarrow> distinct xs"
proof (induction xs)
  case (Cons x xs)
  have "count_list xs y = 1" if "y \<in> set xs" for y
    using Cons.prems [of y] Cons.prems [of x] that by (auto simp: count_list_0_iff split: if_splits)
  moreover have "x \<notin> set xs" using Cons.prems [of x] by (simp add: count_list_0_iff)
  ultimately show ?case using Cons.IH by simp
qed simp

text \<open>The positions a transition names.\<close>

definition named_positions :: "kv_transition \<Rightarrow> (nat \<times> int) set" where
  "named_positions t = (\<lambda>(g, l, h). (g, l)) ` set (normalize_transition_blocks (tn_changed_blocks t))"

lemma validated_reclaims_ok:
  assumes h: "kv_holds out km" and d: "distinct_entries t"
    and v: "validate_reclaims (km_pool km) (kvb_blocks (get_blocks (tn_request_id t) km)) (tn_changed_blocks t) = Inr xs"
  shows "reclaims_ok (tn_request_id t) (bp_null_block (km_pool km)) (co_managers (km_coordinator km)) xs \<and>
    reclaim_pos ` set xs = named_positions t \<and> (\<forall>b \<in> set (reclaimed_blocks xs). refs (km_pool km) b = 1)"
proof -
  let ?ms = "co_managers (km_coordinator km)" and ?p = "km_pool km"
  note s = validate_reclaims_spec [OF v]
  have pos: "reclaim_pos ` set xs = named_positions t"
    using arg_cong [OF conjunct1 [OF conjunct2 [OF s]], of set] by (simp add: named_positions_def)
  have nn: "0 \<le> i" if x: "(g, i, b) \<in> set xs" for g i b
  proof -
    have "(g, i) \<in> reclaim_pos ` set xs" using imageI [OF x, of reclaim_pos] by (simp add: reclaim_pos_def)
    then have "(g, i) \<in> named_positions t" by (simp only: pos)
    then show ?thesis using d by (auto simp: distinct_entries_def named_positions_def)
  qed
  have nul: "kb_is_null (blk ?p (bp_null_block ?p))"
    using kv_holdsD(3) [OF h] by (auto simp: pool_inv_def pool_wf_def)
  have at: "g < length ?ms \<and> nat i < length (blocks_or_empty (tn_request_id t) (?ms ! g)) \<and>
      blocks_or_empty (tn_request_id t) (?ms ! g) ! nat i = b \<and> b \<noteq> bp_null_block ?p \<and> refs ?p b = 1"
    if x: "(g, i, b) \<in> set xs" for g i b
  proof -
    have "g < length (kvb_blocks (get_blocks (tn_request_id t) km)) \<and> \<not> kb_is_null (blk ?p b) \<and> refs ?p b = 1 \<and>
       (0 \<le> i \<longrightarrow> nat i < length (kvb_blocks (get_blocks (tn_request_id t) km) ! g) \<and>
         kvb_blocks (get_blocks (tn_request_id t) km) ! g ! nat i = b)"
      using s x by fast
    then show ?thesis using get_blocks_at [OF h] nn [OF x] nul by auto
  qed
  have "distinct (map reclaim_pos xs)" using s d by (simp add: distinct_entries_def)
  then show ?thesis using pos at nn by (fastforce simp: reclaims_ok_def)
qed

lemma commit_warm:
  assumes h: "kv_holds out km" and d: "distinct_entries t" and w: "tn_new_state t = WARM"
    and v: "validate_reclaims (km_pool km) (kvb_blocks (get_blocks (tn_request_id t) km)) (tn_changed_blocks t) = Inr xs"
  shows "\<exists>km'. commit_request_kv_transition t km = Inr km' \<and> kv_holds out km' \<and>
    frame_of (km_coordinator km') = frame_of (km_coordinator km) \<and>
    (\<forall>g < length (co_managers (km_coordinator km)). \<forall>r.
       blocks_or_empty r (co_managers (km_coordinator km') ! g) =
       (if r = tn_request_id t
        then nulled (named_positions t) (bp_null_block (km_pool km)) g (blocks_or_empty r (co_managers (km_coordinator km) ! g))
        else blocks_or_empty r (co_managers (km_coordinator km) ! g))) \<and>
    (\<forall>b \<in> good_blocks (km_pool km). refs (km_pool km') b = (if b \<in> set (reclaimed_blocks xs) then 0 else refs (km_pool km) b)) \<and>
    (km_enable_caching km \<longrightarrow> (\<forall>b \<in> set (reclaimed_blocks xs). block_keys (km_pool km') b = {})) \<and>
    (\<forall>b \<in> set (bp_blocks (km_pool km)). b \<notin> set (reclaimed_blocks xs) \<longrightarrow>
       block_keys (km_pool km') b = block_keys (km_pool km) b) \<and>
    get_num_free_blocks (km_pool km') = get_num_free_blocks (km_pool km) + int (length xs)"
proof -
  let ?rid = "tn_request_id t" and ?ms = "co_managers (km_coordinator km)" and ?p = "km_pool km"
  let ?bs = "reclaimed_blocks xs" and ?out = "\<lambda>b. int (count_list out b)"
  have ok: "reclaims_ok ?rid (bp_null_block ?p) ?ms xs" and pos: "reclaim_pos ` set xs = named_positions t"
    and one: "\<forall>b \<in> set ?bs. refs ?p b = 1" using validated_reclaims_ok [OF h d v] by blast+
  obtain p1 ms1 where l: "rfold (reclaim_block ?rid WARM (km_enable_caching km)) xs (?p, ?ms, []) = Inr (p1, ms1, [] @ ?bs)"
    "all_share (\<lambda>c. ?out c + int (count_list ?bs c)) p1 ms1" "wf_view p1 = wf_view ?p" "\<forall>c. refs p1 c = refs ?p c"
    "map setup_of ms1 = map setup_of ?ms"
    "\<forall>g < length ?ms. \<forall>r. blocks_or_empty r (ms1 ! g) =
       (if r = ?rid then nulled (reclaim_pos ` set xs) (bp_null_block ?p) g (blocks_or_empty ?rid (?ms ! g))
        else blocks_or_empty r (?ms ! g))"
    "km_enable_caching km \<longrightarrow> (\<forall>b \<in> set ?bs. block_keys p1 b = {})"
    "\<forall>c \<in> set (bp_blocks ?p). c \<notin> set ?bs \<longrightarrow> block_keys p1 c = block_keys ?p c"
    "get_num_free_blocks p1 = get_num_free_blocks ?p"
    using reclaim_loop [OF kv_holdsD(2) [OF h] ok, of "km_enable_caching km" "[]"] by blast
  have pi1: "pool_inv p1" using l(2) by (simp add: all_share_def)
  have good1: "good_blocks p1 = good_blocks ?p" "bp_blocks p1 = bp_blocks ?p" using wf_viewD [OF l(3)] by simp_all
  have cnt: "int (count_list ?bs b) \<le> refs p1 b" if "b \<in> good_blocks p1" for b
    using all_share_count [OF l(2) that] by simp
  have inb: "set ?bs \<subseteq> good_blocks ?p"
  proof
    fix b assume "b \<in> set ?bs"
    then obtain g i where "(g, i, b) \<in> set xs" by force
    then have o: "g < length ?ms" "nat i < length (blocks_or_empty ?rid (?ms ! g))"
      "blocks_or_empty ?rid (?ms ! g) ! nat i = b" "b \<noteq> bp_null_block ?p" using ok by (auto simp: reclaims_ok_def)
    have "manager_ok ?p (?ms ! g)" using kv_holdsD(2) [OF h] o(1) by (simp add: all_share_def)
    then show "b \<in> good_blocks ?p" using nth_mem [OF o(2)] o(3,4) by (auto simp: manager_ok_def good_blocks_def)
  qed
  have c1: "count_list ?bs b = (if b \<in> set ?bs then 1 else 0)" if "b \<in> good_blocks ?p" for b
  proof (cases "b \<in> set ?bs")
    case True
    then have "count_list ?bs b \<le> 1" using cnt [of b] good1 l(4) one that by fastforce
    moreover have "count_list ?bs b \<noteq> 0" using True by (simp add: count_list_0_iff)
    ultimately show ?thesis using True by simp
  qed (simp add: count_list_0_iff)
  have rev: "count_list (rev ?bs) b = count_list ?bs b" for b by simp
  have sub: "set (rev ?bs) \<subseteq> set (bp_blocks p1)" using inb good1 good_in_blocks [of _ ?p] by auto
  obtain p2 where f: "(if ?bs \<noteq> [] then free_blocks (rev ?bs) p1 else Inr p1) = Inr p2" "pool_inv p2"
    "wf_view p2 = wf_view p1" "\<forall>b \<in> good_blocks p1. refs p2 b = refs p1 b - int (count_list ?bs b)"
    "\<forall>b. block_keys p2 b = block_keys p1 b"
  proof (cases "?bs = []")
    case True
    then show ?thesis using that [of p1] pi1 by simp
  next
    case False
    obtain p2 where "free_blocks (rev ?bs) p1 = Inr p2" "pool_inv p2" "wf_view p2 = wf_view p1"
      "\<forall>b \<in> good_blocks p1. refs p2 b = refs p1 b - int (count_list (rev ?bs) b)"
      using free_shares [OF pi1 sub] cnt rev by auto
    then show ?thesis using that [of p2] False free_keys [OF pi1 sub] cnt rev by auto
  qed
  let ?km' = "km\<lparr>km_coordinator := (km_coordinator km)\<lparr>co_pool := p2, co_managers := ms1\<rparr>\<rparr>"
  have run: "commit_request_kv_transition t km = Inr ?km'"
    using v l(1) f(1) w by (simp add: commit_request_kv_transition_def Let_def)
  have refs: "refs p2 b = (if b \<in> set ?bs then 0 else refs ?p b)" if "b \<in> good_blocks ?p" for b
  proof (cases "b \<in> set ?bs")
    case True
    then have "refs ?p b = 1" using one by blast
    then show ?thesis using f(4) l(4) c1 [OF that] that good1 True by simp
  qed (use f(4) l(4) c1 [OF that] that good1 in simp)
  have frame: "frame_of (km_coordinator ?km') = frame_of (km_coordinator km)"
    using f(3) l(3,5) by (simp add: frame_of_def)
  have "all_share ?out p2 ms1"
    by (rule all_share_give_back [OF l(2) f(2,3)]) (use f(4) in simp_all)
  then have "kv_holds out ?km'"
    using kv_holds_coordinator [OF h _ frame] by (simp add: coordinator_holds_def)
  moreover have "get_num_free_blocks p2 = get_num_free_blocks ?p + int (length xs)"
  proof -
    have dist: "distinct ?bs"
    proof (rule count_le_1_distinct)
      fix b assume b: "b \<in> set ?bs"
      then have "b \<in> good_blocks ?p" using inb by blast
      then show "count_list ?bs b = 1" using c1 b by presburger
    qed
    have "{b \<in> good_blocks p2. refs p2 b = 0} = {b \<in> good_blocks ?p. refs ?p b = 0} \<union> set ?bs"
    proof (intro set_eqI)
      fix b show "b \<in> {b \<in> good_blocks p2. refs p2 b = 0} \<longleftrightarrow> b \<in> {b \<in> good_blocks ?p. refs ?p b = 0} \<union> set ?bs"
        using refs [of b] subsetD [OF inb, of b] wf_viewD(4) [OF f(3)] good1(1)
        by (cases "b \<in> set ?bs") (simp_all del: set_map cong: conj_cong)
    qed
    moreover have "{b \<in> good_blocks ?p. refs ?p b = 0} \<inter> set ?bs = {}" using one by auto
    ultimately have "card {b \<in> good_blocks p2. refs p2 b = 0} = card {b \<in> good_blocks ?p. refs ?p b = 0} + card (set ?bs)"
      by (simp add: card_Un_disjoint good_blocks_def)
    then show ?thesis using num_free_card [OF f(2)] num_free_card [OF kv_holdsD(3) [OF h]] distinct_card [OF dist] by simp
  qed
  ultimately show ?thesis using run frame refs f(5) l(6-8) pos by (intro exI [of _ ?km']) simp
qed

lemma kv_holds_pool:
  assumes h: "kv_holds out km" and c: "caches (km_pool km) p"
  shows "kv_holds out (set_pool p km) \<and> frame_of (km_coordinator (set_pool p km)) = frame_of (km_coordinator km)"
proof -
  have f: "frame_of ((km_coordinator km)\<lparr>co_pool := p\<rparr>) = frame_of (km_coordinator km)"
    using c by (simp add: frame_of_def caches_def)
  have "coordinator_holds (\<lambda>b. int (count_list out b)) ((km_coordinator km)\<lparr>co_pool := p\<rparr>)"
    using caches_all_share [OF c kv_holdsD(2) [OF h]] by (simp add: coordinator_holds_def)
  from kv_holds_coordinator [OF h this f] show ?thesis using f by (simp add: set_pool_def)
qed

lemma retier_fold:
  assumes "st \<noteq> WARM" "hash_ok p" "rfold (reclaim_block rid st c) xs (p, ms, fr) = Inr (p', ms', fr')"
  shows "caches p p' \<and> ms' = ms \<and> fr' = fr"
  using assms(2,3)
proof (induction xs arbitrary: p)
  case (Cons x xs)
  obtain g i b where x: "x = (g, i, b)" by (cases x)
  have "caches p (retier b st p)" by (rule retier_caches [OF Cons.prems(1)])
  moreover have "reclaim_block rid st c x (p, ms, fr) = Inr (retier b st p, ms, fr)"
    using assms(1) by (simp add: x reclaim_block_def)
  then have "rfold (reclaim_block rid st c) xs (retier b st p, ms, fr) = Inr (p', ms', fr')"
    using Cons.prems(2) by (simp only: rfold.simps rbind.simps)
  ultimately show ?case using Cons.IH [of "retier b st p"] caches_trans by (metis caches_def)
qed (auto simp: caches_refl)

lemma commit_keeps:
  assumes h: "kv_holds out km" and d: "distinct_entries t" and run: "commit_request_kv_transition t km = Inr km'"
  shows "kv_holds out km' \<and> frame_of (km_coordinator km') = frame_of (km_coordinator km)"
proof -
  obtain xs where v: "validate_reclaims (km_pool km) (kvb_blocks (get_blocks (tn_request_id t) km)) (tn_changed_blocks t) = Inr xs"
    using run by (auto simp: commit_request_kv_transition_def Let_def elim!: rbindE)
  show ?thesis
  proof (cases "tn_new_state t = WARM")
    case True
    then show ?thesis using commit_warm [OF h d True v] run by auto
  next
    case False
    have ho: "hash_ok (km_pool km)" using kv_holdsD(3) [OF h] by (simp add: pool_inv_def)
    obtain p1 ms1 fr where l: "rfold (reclaim_block (tn_request_id t) (tn_new_state t) (km_enable_caching km)) xs
        (km_pool km, co_managers (km_coordinator km), []) = Inr (p1, ms1, fr)"
      and rest: "rbind (if fr \<noteq> [] then free_blocks (rev fr) p1 else Inr p1) (\<lambda>p1.
        Inr (km\<lparr>km_coordinator := (km_coordinator km)\<lparr>co_pool := p1, co_managers := ms1\<rparr>\<rparr>)) = Inr km'"
      using run v by (auto simp: commit_request_kv_transition_def Let_def elim!: rbindE)
    note r = retier_fold [OF False ho l]
    then have "km' = set_pool p1 km" using rest by (auto simp: set_pool_def)
    then show ?thesis using kv_holds_pool [OF h] r by simp
  qed
qed

lemma caches_fold:
  assumes step: "\<And>x p. hash_ok p \<Longrightarrow> caches p (f x p)"
  shows "hash_ok p \<Longrightarrow> caches p (fold f xs p)"
proof (induction xs arbitrary: p)
  case (Cons x xs)
  note c = step [OF Cons.prems, of x]
  then have "hash_ok (f x p)" by (simp add: caches_def)
  then have "caches (f x p) (fold f xs (f x p))" by (rule Cons.IH)
  then show ?case using caches_trans [OF c] by simp
qed (simp add: caches_refl)

lemma apply_keeps:
  assumes h: "kv_holds out km" and run: "apply_request_kv_state rid st n km = Inr (cb, km')"
  shows "kv_holds out km' \<and> frame_of (km_coordinator km') = frame_of (km_coordinator km)"
proof -
  let ?bs = "kvb_blocks (get_blocks rid km)"
  let ?inner = "\<lambda>(grp, sz). fold (keep_hot st (num_complete_blocks n sz)) (enumerate 0 grp)"
  have ho: "hash_ok (km_pool km)" using kv_holdsD(3) [OF h] by (simp add: pool_inv_def)
  have k1: "caches p (fold (keep_hot st k) xs p)" if "hash_ok p" for k xs p
    by (rule caches_fold [OF _ that])
      (use retier_caches caches_refl in \<open>auto simp: keep_hot_def split: prod.split\<close>)
  have k2: "caches p (fold ?inner xs p)" if "hash_ok p" for xs p
    by (rule caches_fold [OF _ that]) (use k1 in \<open>auto split: prod.split\<close>)
  define p1 where "p1 = fold ?inner (zip ?bs (km_block_sizes km)) (km_pool km)"
  have c1: "caches (km_pool km) p1" unfolding p1_def by (rule k2 [OF ho])
  obtain cb' :: "kv_block_transition list list" and p2 where l: "rfold (\<lambda>(grp, ts). rfold (\<lambda>t p. rbind (list_index grp (bt_logical_index t)) (\<lambda>b. Inr (retier b st p))) ts)
      (zip ?bs cb') p1 = Inr p2" and km': "km' = set_pool p2 km"
    using run [unfolded apply_request_kv_state_def Let_def, folded p1_def]
    by (elim rbindE) (rule that, assumption, simp)
  have "caches p1 p2"
  proof (rule rfold_inv [OF l, where P = "caches p1"])
    show "caches p1 p1" using c1 by (simp add: caches_def)
    fix x p p' assume c: "caches p1 p"
      and x: "(case x of (grp, ts) \<Rightarrow> rfold (\<lambda>t p. rbind (list_index grp (bt_logical_index t)) (\<lambda>b. Inr (retier b st p))) ts) p = Inr p'"
    obtain grp ts where xx: "x = (grp, ts)" by fastforce
    have l2: "rfold (\<lambda>t p. rbind (list_index grp (bt_logical_index t)) (\<lambda>b. Inr (retier b st p))) ts p = Inr p'"
      using x by (simp add: xx)
    show "caches p1 p'"
    proof (rule rfold_inv [OF l2, where P = "caches p1"])
      show "caches p1 p" by (rule c)
    next
      fix t q q' assume q: "caches p1 q" "rbind (list_index grp (bt_logical_index t)) (\<lambda>b. Inr (retier b st q)) = Inr q'"
      then obtain b where "q' = retier b st q" by (auto elim!: rbindE)
      moreover have "hash_ok q" using q(1) by (simp add: caches_def)
      ultimately show "caches p1 q'" using caches_trans [OF q(1)] retier_caches by blast
    qed
  qed
  then show ?thesis using kv_holds_pool [OF h caches_trans [OF c1]] by (simp add: km')
qed

text \<open>What a caller of \<open>allocate_slots\<close> passes.\<close>

definition computed_list :: "kv_cache_blocks option \<Rightarrow> kv_cache_manager \<Rightarrow> block_ref list list" where
  "computed_list new_computed_blocks km =
     (case new_computed_blocks of None \<Rightarrow> replicate (km_num_kv_cache_groups km) [] | Some b \<Rightarrow> kvb_blocks b)"

definition slots_ok :: "request \<Rightarrow> int \<Rightarrow> int \<Rightarrow> kv_cache_blocks option \<Rightarrow> int \<Rightarrow> kv_cache_manager \<Rightarrow> bool" where
  "slots_ok r num_new_tokens num_new_computed_tokens new_computed_blocks num_external km \<longleftrightarrow>
     0 \<le> num_new_tokens \<and> 0 \<le> km_max_model_len km \<and> 0 \<le> num_external \<and>
     0 \<le> rq_num_computed_tokens r + num_new_computed_tokens \<and>
     (\<forall>j < length (co_managers (km_coordinator km)).
        computed_ok (computed_list new_computed_blocks km) (rq_num_computed_tokens r + num_new_computed_tokens)
          num_external j (bp_blocks (km_pool km)) (co_managers (km_coordinator km) ! j))"

lemma computed_ok_frame:
  assumes f: "frame_of co' = frame_of co" and j: "j < length (co_managers co')"
    and c: "computed_ok blocks loc exts j (bp_blocks (co_pool co)) (co_managers co ! j)"
  shows "computed_ok blocks loc exts j (bp_blocks (co_pool co')) (co_managers co' ! j)"
proof -
  note s = frame_of_sizes [OF f]
  then have "sm_block_size (co_managers co' ! j) = sm_block_size (co_managers co ! j)"
    using j by (metis nth_map)
  then show ?thesis using c s by (simp add: computed_ok_def)
qed

lemma full_sequence_fits_keeps:
  assumes "full_sequence_fits r blocks n_enc computed wm km = Inr (b, km')" "kv_holds out km"
  shows "\<exists>co. km' = km\<lparr>km_coordinator := co\<rparr> \<and> coordinator_holds (\<lambda>b. int (count_list out b)) co \<and>
    frame_of co = frame_of (km_coordinator km)"
  using assms coordinator_count_keeps kv_holdsD(1) [OF assms(2)]
  by (fastforce simp: full_sequence_fits_def Let_def elim!: rbindE)

lemma slots_fit_keeps:
  assumes "slots_fit rid n n_main blocks n_enc computed uncapped wm reserved co = Inr (b, co')" "coordinator_holds ext co"
  shows "coordinator_holds ext co' \<and> frame_of co' = frame_of co"
proof -
  obtain co1 k where "coordinator_remove_skipped_blocks rid computed co = Inr co1"
    "coordinator_num_blocks_to_allocate rid n blocks n_enc uncapped n_main False co1 = Inr (k, co')"
    using assms(1) by (auto simp: slots_fit_def elim!: rbindE)
  then show ?thesis using coordinator_skip_keeps [OF _ assms(2)] coordinator_count_keeps by metis
qed

lemma allocate_admitted_keeps:
  assumes "allocate_admitted rid n n_main blocks shared n_enc loc exts co = Inr (bs, co')" "coordinator_holds ext co" "0 \<le> n_main"
    "\<And>j. j < length (co_managers co) \<Longrightarrow> computed_ok blocks loc exts j (bp_blocks (co_pool co)) (co_managers co ! j)"
  shows "coordinator_holds ext co' \<and> frame_of co' = frame_of co"
proof -
  obtain co1 where a: "co1 = co \<or> allocate_new_computed_blocks rid blocks loc exts co = Inr co1"
    and b: "coordinator_allocate_new_blocks rid n n_main n_enc co1 = Inr (bs, co')"
    using assms(1) by (auto simp: allocate_admitted_def split: if_splits elim!: rbindE)
  have "coordinator_holds ext co1 \<and> frame_of co1 = frame_of co"
    using a allocate_computed_keeps [OF _ assms(2,4)] assms(2) by blast
  then show ?thesis using coordinator_allocate_keeps [OF b _ assms(3), of ext] by simp
qed

lemma allocate_slots_keeps:
  assumes h: "kv_holds out km" and ok: "slots_ok r n n_comp blocks exts km"
    and run: "allocate_slots env r n n_comp blocks ahead exts delay n_enc full reserved sched km = Inr (res, km')"
  shows "\<exists>co. km' = km\<lparr>km_coordinator := co\<rparr> \<and> kv_holds out km' \<and> frame_of co = frame_of (km_coordinator km)"
proof -
  let ?ext = "\<lambda>b. int (count_list out b)" and ?list = "computed_list blocks km"
  let ?loc = "rq_num_computed_tokens r + n_comp"
  let ?tot = "min (?loc + exts) (km_max_model_len km)"
  let ?wm = "if sched \<and> rq_status r \<in> {WAITING, PREEMPTED} then km_watermark_blocks km else 0"
  let ?F = "frame_of (km_coordinator km)"
  have done1: "\<exists>co. km' = km\<lparr>km_coordinator := co\<rparr> \<and> kv_holds out km' \<and> frame_of co = ?F"
    if "km' = km\<lparr>km_coordinator := co\<rparr>" "coordinator_holds ?ext co" "frame_of co = ?F" for co
    using that kv_holds_coordinator [OF h that(2,3)] by auto
  have notz: "\<not> (n = 0 \<and> exts = 0)" using run by (auto simp: allocate_slots_def)
  define A where "A = (if full then full_sequence_fits r ?list n_enc ?tot ?wm km else Inr (True, km))"
  define need where "need = min (?tot + n + ahead) (km_max_model_len km)"
  define B where "B = slots_fit (rq_request_id r) need (?tot + n) ?list n_enc ?tot (?loc + exts) ?wm reserved"
  define C where "C = allocate_admitted (rq_request_id r) need (?tot + n) ?list (is_shared_empty blocks) n_enc ?loc exts"
  define D where "D = coordinator_cache_blocks env r (min (?tot + n) (int (rq_num_tokens r)))"
  note run' = run [unfolded allocate_slots_def Let_def if_not_P [OF notz], folded computed_list_def,
    folded need_def, folded A_def, folded B_def, folded C_def, folded D_def]
  obtain fits km1 where f1: "A = Inr (fits, km1)" using run' by (cases A) auto
  have r1: "\<not> fits \<and> km' = km1 \<or> fits \<and> (\<exists>fits2 co2. B (km_coordinator km1) = Inr (fits2, co2) \<and>
      (\<not> fits2 \<and> km' = km1\<lparr>km_coordinator := co2\<rparr> \<or> fits2 \<and> (\<exists>bs co3. C co2 = Inr (bs, co3) \<and>
        (km' = km1\<lparr>km_coordinator := co3\<rparr> \<or> (\<exists>co4. D co3 = Inr co4 \<and> km' = km1\<lparr>km_coordinator := co4\<rparr>)))))"
    using run' [unfolded f1 rbind.simps prod.case] by (auto split: if_splits elim!: rbindE)
  obtain co1 where km1: "km1 = km\<lparr>km_coordinator := co1\<rparr>" and c1: "coordinator_holds ?ext co1" "frame_of co1 = ?F"
  proof (cases full)
    case True
    then show ?thesis using full_sequence_fits_keeps [OF f1 [unfolded A_def if_P [OF True]] h] that by auto
  next
    case False
    then show ?thesis using f1 kv_holdsD(1) [OF h] that [of "km_coordinator km"] by (simp add: A_def)
  qed
  show ?thesis
  proof (cases fits)
    case False
    then show ?thesis using r1 done1 [OF _ c1] km1 by simp
  next
    case True
    then obtain fits2 co2 where s: "B co1 = Inr (fits2, co2)"
      and r2: "\<not> fits2 \<and> km' = km1\<lparr>km_coordinator := co2\<rparr> \<or> fits2 \<and> (\<exists>bs co3. C co2 = Inr (bs, co3) \<and>
        (km' = km1\<lparr>km_coordinator := co3\<rparr> \<or> (\<exists>co4. D co3 = Inr co4 \<and> km' = km1\<lparr>km_coordinator := co4\<rparr>)))"
      using r1 km1 by auto
    have c2: "coordinator_holds ?ext co2" "frame_of co2 = ?F" using slots_fit_keeps [OF s [unfolded B_def] c1(1)] c1(2) by simp_all
    show ?thesis
    proof (cases fits2)
      case False
      then show ?thesis using r2 done1 [OF _ c2] km1 by simp
    next
      case True
      then obtain bs co3 where a: "C co2 = Inr (bs, co3)"
        and r3: "km' = km1\<lparr>km_coordinator := co3\<rparr> \<or> (\<exists>co4. D co3 = Inr co4 \<and> km' = km1\<lparr>km_coordinator := co4\<rparr>)"
        using r2 by blast
      have cok: "computed_ok ?list ?loc exts j (bp_blocks (co_pool co2)) (co_managers co2 ! j)"
        if "j < length (co_managers co2)" for j
        using computed_ok_frame [OF c2(2) that] ok frame_of_sizes [OF c2(2)] that by (simp add: slots_ok_def)
      have "0 \<le> ?tot + n" using ok by (simp add: slots_ok_def)
      then have c3: "coordinator_holds ?ext co3" "frame_of co3 = ?F"
        using allocate_admitted_keeps [OF a [unfolded C_def] c2(1) _ cok] c2(2) by simp_all
      from r3 show ?thesis
      proof (elim disjE exE conjE)
        assume "km' = km1\<lparr>km_coordinator := co3\<rparr>"
        then show ?thesis using done1 [OF _ c3] km1 by simp
      next
        fix co4 assume d: "D co3 = Inr co4" and km': "km' = km1\<lparr>km_coordinator := co4\<rparr>"
        have "coordinator_holds ?ext co4" "frame_of co4 = ?F"
          using coordinator_cache_keeps [OF d [unfolded D_def] c3(1)] c3(2) by simp_all
        then show ?thesis using done1 [of co4] km' km1 by simp
      qed
    qed
  qed
qed

end
