(* ===== verification/KVLifecycle.thy ===== *)
theory KVLifecycle
  imports KVHistory "HOL-Library.Multiset"
begin

text \<open>
  The reachable states of a \<open>KVCacheManager\<close> as an inductive predicate, and what holds in all of
  them: who holds each block, what the release of a request gives back, and what a planned change
  of tier does.
\<close>

section \<open>A new manager\<close>

definition config_sane :: "kv_cache_config \<Rightarrow> bool" where
  "config_sane config \<longleftrightarrow> (\<forall>g \<in> set (cf_kv_cache_groups config).
     0 < sp_block_size (kg_spec g) \<and> spec_sane (sp_kind (kg_spec g)))"

definition fresh_manager :: "block_pool \<Rightarrow> single_manager \<Rightarrow> bool" where
  "fresh_manager p m \<longleftrightarrow> 0 < sm_block_size m \<and> spec_sane (sm_kind m) \<and> sm_null_block m = bp_null_block p \<and>
     sm_req_to_blocks m = [] \<and> sm_num_cached_block m = [] \<and> sm_allocated_block_reqs m = []"

lemma fresh_manager_ok: "fresh_manager p m \<Longrightarrow> manager_ok p m \<and> owned m b = 0"
  by (auto simp: fresh_manager_def manager_ok_def owned_def blocks_or_empty_def align_ok_def
      split: spec_kind.splits mamba_mode.splits)

lemma fresh_eagle [simp]: "fresh_manager p (m\<lparr>sm_use_eagle := b\<rparr>) = fresh_manager p m"
  by (simp add: fresh_manager_def)

lemma fresh_flagged:
  "list_all (fresh_manager p) ms \<Longrightarrow>
     list_all (fresh_manager p) (ms[i := (ms ! i)\<lparr>sm_use_eagle := b\<rparr>])"
  by (cases "i < length ms") (auto simp: list_all_length nth_list_update list_update_beyond)

lemma flag_managers_fresh:
  assumes "list_all (fresh_manager p) ms"
  shows "list_all (fresh_manager p) (flag_managers gs ms) \<and> length (flag_managers gs ms) = length ms"
proof -
  have inner: "list_all (fresh_manager p) (fold (\<lambda>gid ms. ms[gid := (ms ! gid)\<lparr>sm_use_eagle := True\<rparr>]) ids ms) \<and>
      length (fold (\<lambda>gid ms. ms[gid := (ms ! gid)\<lparr>sm_use_eagle := True\<rparr>]) ids ms) = length ms"
    if "list_all (fresh_manager p) ms" for ids ms
    using that by (induction ids arbitrary: ms) (simp_all add: fresh_flagged)
  show ?thesis using assms
  proof (induction gs arbitrary: ms)
    case (Cons g gs)
    then show ?case using inner [OF Cons.prems, of "sg_group_ids g"] by (simp add: flag_managers_def)
  qed (simp add: flag_managers_def)
qed

lemma new_managers_fresh:
  assumes "rmap (\<lambda>(i, g). get_manager_for_kv_cache_spec (kg_spec g) nb ml p ec (int i) dcp pcp sbs) (enumerate k gs) = Inr ms"
    and "\<forall>g \<in> set gs. 0 < sp_block_size (kg_spec g) \<and> spec_sane (sp_kind (kg_spec g))"
  shows "list_all (fresh_manager p) ms \<and> length ms = length gs"
  using assms
proof (induction gs arbitrary: k ms)
  case (Cons g gs)
  obtain m ms1 where m: "get_manager_for_kv_cache_spec (kg_spec g) nb ml p ec (int k) dcp pcp sbs = Inr m"
    and r: "rmap (\<lambda>(i, g). get_manager_for_kv_cache_spec (kg_spec g) nb ml p ec (int i) dcp pcp sbs) (enumerate (Suc k) gs) = Inr ms1"
    and ms: "ms = m # ms1"
    using Cons.prems(1) by (auto elim!: rbindE)
  have "fresh_manager p m"
    using m Cons.prems(2) by (auto simp: get_manager_for_kv_cache_spec_def fresh_manager_def split: if_splits)
  then show ?case using Cons.IH [OF r] Cons.prems(2) by (simp add: ms)
qed simp

definition fresh_coordinator :: "kv_cache_config \<Rightarrow> coordinator \<Rightarrow> bool" where
  "fresh_coordinator config co \<longleftrightarrow> pool_inv (co_pool co) \<and> (\<forall>b \<in> good_blocks (co_pool co). refs (co_pool co) b = 0) \<and>
     list_all (fresh_manager (co_pool co)) (co_managers co) \<and>
     length (co_managers co) = length (cf_kv_cache_groups config)"

lemma new_base_coordinator_fresh:
  assumes run: "new_base_coordinator cls config ml nb eagle ec ev dcp pcp sbs hbs ints met ret = Inr co"
    and sane: "config_sane config"
  shows "fresh_coordinator config co"
proof -
  obtain p ms where p: "new_block_pool (cf_num_blocks config) ec hbs ev ints met = Inr p"
    and ms: "rmap (\<lambda>(i, g). get_manager_for_kv_cache_spec (kg_spec g) nb ml p ec (int i) dcp pcp sbs)
        (enumerate 0 (cf_kv_cache_groups config)) = Inr ms"
    and co: "co_pool co = p" "co_managers co = ms"
    using run by (auto simp: new_base_coordinator_def Let_def elim!: rbindE)
  have n: "0 < cf_num_blocks config" using p by (auto simp: new_block_pool_def split: if_splits)
  note np = new_block_pool_spec [OF n, of ec hbs ev ints met]
  have "pool_inv p" "\<forall>b \<in> good_blocks p. refs p b = 0"
    using np p good_in_blocks by (auto simp: pool_inv_def)
  then show ?thesis using new_managers_fresh [OF ms] sane
    by (simp add: fresh_coordinator_def co config_sane_def)
qed

lemma new_coordinator_fresh:
  assumes run: "get_kv_cache_coordinator config ml nb eagle ec ev dcp pcp sbs hbs ints met ret = Inr co"
    and sane: "config_sane config"
  shows "fresh_coordinator config co"
proof -
  obtain cls ec' co0 where b: "new_base_coordinator cls config ml nb eagle ec' ev dcp pcp sbs hbs ints met ret = Inr co0"
    and c: "co = co0 \<or> finish_unitary co0 = Inr co \<or> finish_hybrid co0 = Inr co"
    using run by (auto simp: get_kv_cache_coordinator_def Let_def split: if_splits elim!: rbindE)
  note f = new_base_coordinator_fresh [OF b sane]
  from c show ?thesis
  proof (elim disjE)
    assume "finish_unitary co0 = Inr co"
    then have "co = co0\<lparr>co_managers := (co_managers co0)[0 := (co_managers co0 ! 0)
                     \<lparr>sm_use_eagle := 0 \<in> set (co_eagle_group_ids co0)\<rparr>]\<rparr>"
      by (auto simp: finish_unitary_def split: if_splits elim!: rbindE)
    then show ?thesis using f fresh_flagged by (simp add: fresh_coordinator_def)
  next
    assume "finish_hybrid co0 = Inr co"
    then have "co = co0\<lparr>co_attention_groups := split_kv_cache_groups co0,
        co_managers := flag_managers (split_kv_cache_groups co0) (co_managers co0)\<rparr>"
      by (auto simp: finish_hybrid_def Let_def elim!: rbindE)
    then show ?thesis
      using f flag_managers_fresh [of "co_pool co0" "co_managers co0" "split_kv_cache_groups co0"]
      by (simp add: fresh_coordinator_def)
  qed (use f in simp)
qed

lemma new_manager_holds:
  assumes run: "new_kv_cache_manager config ml sbs hbs nb ec eagle lg ev dcp pcp ints met ret wm = Inr km"
    and sane: "config_sane config"
  shows "kv_holds [] km"
proof -
  obtain nb' co where c: "get_kv_cache_coordinator config ml nb' eagle ec ev dcp pcp sbs hbs ints met ret = Inr co"
    and km: "km_coordinator km = co" "km_num_kv_cache_groups km = length (cf_kv_cache_groups config)"
      "km_block_sizes km = map sm_block_size (co_managers co)"
    using run by (auto simp: new_kv_cache_manager_def elim!: rbindE)
  have f: "fresh_coordinator config co" by (rule new_coordinator_fresh [OF c sane])
  have "owned_all ms b = 0" if "list_all (fresh_manager p) ms" for p ms b
    using that by (induction ms) (auto simp: owned_all_def fresh_manager_ok)
  then have "all_share (\<lambda>b. int (count_list [] b)) (co_pool co) (co_managers co)"
    using f fresh_manager_ok by (auto simp: all_share_def fresh_coordinator_def list_all_iff)
  then show ?thesis using f by (simp add: kv_holds_def coordinator_holds_def km fresh_coordinator_def)
qed

section \<open>Operations that leave the lists alone\<close>

lemma find_hit_keeps:
  assumes "coordinator_find_longest_cache_hit hs n co = Some (Inr (bs, k, co'))"
  shows "co_pool co' = co_pool co \<and> co_managers co' = co_managers co \<and> frame_of co' = frame_of co"
  using assms by (auto simp: coordinator_find_longest_cache_hit_def frame_of_def
      split: coordinator_class.splits elim!: rbindE)

lemma computed_blocks_keeps:
  assumes "get_computed_blocks r km = Some (Inr (bs, n, km'))" "kv_holds out km"
  shows "kv_holds out km' \<and> frame_of (km_coordinator km') = frame_of (km_coordinator km)"
proof (cases "km' = km")
  case False
  then obtain bs' co where c: "coordinator_find_longest_cache_hit (rq_block_hashes r) (int (rq_num_tokens r) - 1)
      (km_coordinator km) = Some (Inr (bs', n, co))" "km_coordinator km' = co"
      "km_num_kv_cache_groups km' = km_num_kv_cache_groups km" "km_block_sizes km' = km_block_sizes km"
    using assms(1) by (auto simp: get_computed_blocks_def Let_def split: if_splits option.splits elim!: rbindE)
  note k = find_hit_keeps [OF c(1)]
  have "coordinator_holds (\<lambda>b. int (count_list out b)) co"
    using k kv_holdsD(2) [OF assms(2)] by (simp add: coordinator_holds_def)
  then have "kv_holds out km'" by (rule kv_holds_coordinator [OF assms(2)]) (use k c in simp_all)
  then show ?thesis using k c(2) by simp
qed (use assms in simp)

text \<open>A rewriting of the managers that neither moves a block nor touches the rest.\<close>

definition inert :: "(single_manager \<Rightarrow> single_manager) \<Rightarrow> bool" where
  "inert f \<longleftrightarrow> (\<forall>p m. manager_ok p m \<longrightarrow> manager_ok p (f m)) \<and> (\<forall>m b. owned (f m) b = owned m b) \<and>
     (\<forall>m. setup_of (f m) = setup_of m)"

lemma inert_keeps:
  assumes h: "kv_holds out km" and f: "inert f"
  shows "kv_holds out (km\<lparr>km_coordinator := (km_coordinator km)\<lparr>co_managers := map f (co_managers (km_coordinator km))\<rparr>\<rparr>)"
proof -
  let ?ms = "co_managers (km_coordinator km)"
  have fr: "frame_of ((km_coordinator km)\<lparr>co_managers := map f ?ms\<rparr>) = frame_of (km_coordinator km)"
    using f by (simp add: frame_of_def inert_def)
  have "owned_all (map f ms) b = owned_all ms b" for ms b
    using f by (induction ms) (simp_all add: owned_all_def inert_def)
  then have "coordinator_holds (\<lambda>b. int (count_list out b)) ((km_coordinator km)\<lparr>co_managers := map f ?ms\<rparr>)"
    using kv_holdsD(2) [OF h] f by (auto simp: coordinator_holds_def all_share_def inert_def)
  from kv_holds_coordinator [OF h this fr] show ?thesis by simp
qed

lemma inertI:
  assumes f: "\<And>m. setup_of (f m) = setup_of m" "\<And>m. sm_req_to_blocks (f m) = sm_req_to_blocks m"
    "\<And>m. sm_num_cached_block (f m) = sm_num_cached_block m"
    "\<And>m. sm_allocated_block_reqs (f m) = sm_allocated_block_reqs m"
  shows "inert f"
proof -
  have "manager_ok p (f m) = manager_ok p m" for p m
    using setup_ofD [OF f(1) [of m]] f(2-4) align_ok_cong [of "f m" m]
    by (simp add: manager_ok_def blocks_or_empty_def)
  then show ?thesis using f by (simp add: inert_def owned_def)
qed

lemma inert_ids: "inert (\<lambda>m. snd (take_new_block_ids m))"
  by (rule inertI) (simp_all add: take_new_block_ids_def)

lemma inert_step: "inert new_step_starts"
  by (rule inertI) (simp_all add: new_step_starts_def split: spec_kind.split)

lemma read_all_keeps:
  assumes h: "kv_holds out km" and ms: "list_all2 (\<lambda>m m'. m' = m \<or> m' = set_req_blocks rid (blocks_or_empty rid m) m)
      (co_managers (km_coordinator km)) ms"
  shows "kv_holds out (km\<lparr>km_coordinator := (km_coordinator km)\<lparr>co_managers := ms\<rparr>\<rparr>)"
proof -
  let ?ms = "co_managers (km_coordinator km)"
  have one: "manager_ok p m' \<and> owned m' b = owned m b \<and> setup_of m' = setup_of m"
    if "m' = m \<or> m' = set_req_blocks rid (blocks_or_empty rid m) m" "manager_ok p m" for p m m' b
  proof -
    have "align_ok (set_req_blocks rid (blocks_or_empty rid m) m)" if "align_ok m"
      by (rule align_ok_write [OF that, where rid = rid and bs = "blocks_or_empty rid m"]) simp_all
    with that show ?thesis by (elim disjE) (simp_all add: manager_ok_def owned_set)
  qed
  have "(\<forall>m \<in> set ms'. manager_ok p m) \<and> (\<forall>b. owned_all ms' b = owned_all xs b) \<and> map setup_of ms' = map setup_of xs"
    if "list_all2 (\<lambda>m m'. m' = m \<or> m' = set_req_blocks rid (blocks_or_empty rid m) m) xs ms'" "\<forall>m \<in> set xs. manager_ok p m" for p xs ms'
    using that
  proof (induction xs ms' rule: list_all2_induct)
    case (Cons x xs y ys)
    then show ?case using one [OF Cons.hyps(1), of p] by (simp add: owned_all_def)
  qed simp
  note k = this [OF ms, of "km_pool km"]
  have "all_share (\<lambda>b. int (count_list out b)) (km_pool km) ms \<and> map setup_of ms = map setup_of ?ms"
    using k kv_holdsD(2) [OF h] by (simp add: all_share_def)
  then show ?thesis
    using kv_holds_coordinator [OF h, of "(km_coordinator km)\<lparr>co_managers := ms\<rparr>"]
    by (simp add: coordinator_holds_def frame_of_def)
qed

lemma common_prefix_keeps:
  assumes "kv_manager_num_common_prefix_blocks rid km = (ns, km')" "kv_holds out km"
  shows "kv_holds out km'"
proof -
  let ?f = "\<lambda>m. snd (manager_num_common_prefix_blocks rid (km_pool km, m))"
  have "?f m = m \<or> ?f m = set_req_blocks rid (blocks_or_empty rid m) m" for m
    by (simp add: manager_num_common_prefix_blocks_def req_blocks_of_eq)
  then have "list_all2 (\<lambda>m m'. m' = m \<or> m' = set_req_blocks rid (blocks_or_empty rid m) m)
      (co_managers (km_coordinator km)) (map ?f (co_managers (km_coordinator km)))"
    by (simp add: list_all2_conv_all_nth)
  from read_all_keeps [OF assms(2) this] show ?thesis using assms
    by (auto simp: kv_manager_num_common_prefix_blocks_def coordinator_num_common_prefix_blocks_def Let_def
        comp_def split: if_splits)
qed

section \<open>The histories of a manager\<close>

text \<open>
  The second component lists the blocks that were popped for a release that is still to come.
  The premises are what the scheduler keeps to: sane specifications, computed blocks that the
  computed tokens cover, distinct entries in a committed transition.
\<close>

inductive kv_history :: "hash_env \<Rightarrow> kv_cache_manager \<Rightarrow> block_ref list \<Rightarrow> bool" for env where
  created: "new_kv_cache_manager config ml sbs hbs nb ec eagle lg ev dcp pcp ints met ret wm = Inr km \<Longrightarrow>
     config_sane config \<Longrightarrow> kv_history env km []"
| looked_up: "kv_history env km out \<Longrightarrow> get_computed_blocks r km = Some (Inr (bs, n, km')) \<Longrightarrow>
     kv_history env km' out"
| slots: "kv_history env km out \<Longrightarrow> slots_ok r n n_comp bs exts km \<Longrightarrow>
     allocate_slots env r n n_comp bs ahead exts delay n_enc full reserved sched km = Inr (res, km') \<Longrightarrow>
     kv_history env km' out"
| freed: "kv_history env km out \<Longrightarrow> kv_manager_free r km = Inr km' \<Longrightarrow> kv_history env km' out"
| skipped: "kv_history env km out \<Longrightarrow> kv_manager_remove_skipped_blocks rid n km = Inr km' \<Longrightarrow>
     kv_history env km' out"
| cached: "kv_history env km out \<Longrightarrow> kv_manager_cache_blocks env r n km = Inr km' \<Longrightarrow> kv_history env km' out"
| evicted: "kv_history env km out \<Longrightarrow> \<forall>i \<in> set taken. 0 \<le> i \<Longrightarrow> kv_manager_evict_blocks taken km = Inr km' \<Longrightarrow>
     kv_history env km' out"
| reset: "kv_history env km out \<Longrightarrow> kv_manager_reset_prefix_cache km = Inr (b, km') \<Longrightarrow> kv_history env km' out"
| events: "kv_history env km out \<Longrightarrow> kv_manager_take_events km = (evs, km') \<Longrightarrow> kv_history env km' out"
| stats: "kv_history env km out \<Longrightarrow> make_prefix_cache_stats km = (st, km') \<Longrightarrow> kv_history env km' out"
| ids_taken: "kv_history env km out \<Longrightarrow> kv_manager_take_new_block_ids km = (taken, km') \<Longrightarrow> kv_history env km' out"
| step_started: "kv_history env km out \<Longrightarrow> kv_history env (kv_manager_new_step_starts km) out"
| prefix_counted: "kv_history env km out \<Longrightarrow> kv_manager_num_common_prefix_blocks rid km = (ns, km') \<Longrightarrow>
     kv_history env km' out"
| popped: "kv_history env km out \<Longrightarrow> kv_manager_pop_blocks_for_free r km = (bs, km') \<Longrightarrow>
     kv_history env km' (bs @ out)"
| given_back: "kv_history env km out \<Longrightarrow> mset out = mset (bs @ rest) \<Longrightarrow> free_blocks bs (km_pool km) = Inr p \<Longrightarrow>
     kv_history env (set_pool p km) rest"
| committed: "kv_history env km out \<Longrightarrow> distinct_entries t \<Longrightarrow> commit_request_kv_transition t km = Inr km' \<Longrightarrow>
     kv_history env km' out"
| applied: "kv_history env km out \<Longrightarrow> apply_request_kv_state rid st n km = Inr (cb, km') \<Longrightarrow> kv_history env km' out"

lemma on_coordinator_keeps:
  assumes "on_coordinator f km = Inr km'" "kv_holds out km"
    and "\<And>co'. f (km_coordinator km) = Inr co' \<Longrightarrow> coordinator_holds (\<lambda>b. int (count_list out b)) (km_coordinator km) \<Longrightarrow>
      coordinator_holds (\<lambda>b. int (count_list out b)) co' \<and> frame_of co' = frame_of (km_coordinator km)"
  shows "kv_holds out km'"
proof -
  obtain co' where c: "f (km_coordinator km) = Inr co'" "km' = km\<lparr>km_coordinator := co'\<rparr>"
    using assms(1) by (auto simp: on_coordinator_def elim!: rbindE)
  note k = assms(3) [OF c(1) kv_holdsD(1) [OF assms(2)]]
  show ?thesis
    by (rule kv_holds_coordinator [OF assms(2) conjunct1 [OF k] conjunct2 [OF k]]) (simp_all add: c)
qed

lemma pop_keeps:
  assumes "kv_manager_pop_blocks_for_free r km = (bs, km')" and h: "kv_holds out km"
  shows "kv_holds (bs @ out) km'"
proof -
  obtain co where p: "coordinator_pop_blocks_for_free (rq_request_id r) (km_coordinator km) = (bs, co)"
    and km': "km' = km\<lparr>km_coordinator := co\<rparr>"
    using assms(1) by (auto simp: kv_manager_pop_blocks_for_free_def split: prod.splits)
  note k = coordinator_pop_keeps [OF kv_holdsD(1) [OF h] p]
  have "(\<lambda>b. int (count_list out b) + int (count_list bs b)) = (\<lambda>b. int (count_list (bs @ out) b))" by auto
  then have "coordinator_holds (\<lambda>b. int (count_list (bs @ out) b)) co" using k by metis
  then show ?thesis using k h frame_of_sizes [of co "km_coordinator km"]
    by (auto simp: kv_holds_def km')
qed

lemma give_back_keeps:
  assumes h: "kv_holds out km" and m: "mset out = mset (bs @ rest)" and run: "free_blocks bs (km_pool km) = Inr p"
  shows "kv_holds rest (set_pool p km)"
proof -
  let ?ms = "co_managers (km_coordinator km)"
  have cnt: "count_list out b = count_list bs b + count_list rest b" for b
    using arg_cong [OF m, of "\<lambda>M. count M b"] by (simp add: count_mset)
  have sub: "set bs \<subseteq> set (bp_blocks (km_pool km))" "set rest \<subseteq> set (bp_blocks (km_pool km))"
    using kv_holdsD(4) [OF h] arg_cong [OF m, of set_mset] by auto
  have a: "all_share (\<lambda>b. int (count_list rest b) + int (count_list bs b)) (km_pool km) ?ms"
    using kv_holdsD(2) [OF h] by (simp add: all_share_def cnt algebra_simps)
  obtain p' where f: "free_blocks bs (km_pool km) = Inr p'" "pool_inv p'" "wf_view p' = wf_view (km_pool km)"
    "\<forall>b \<in> good_blocks (km_pool km). refs p' b = refs (km_pool km) b - int (count_list bs b)"
    using free_shares [OF kv_holdsD(3) [OF h] sub(1)] all_share_count [OF a] by auto
  have "all_share (\<lambda>b. int (count_list rest b)) p ?ms"
    by (rule all_share_give_back [OF a]) (use f run in auto)
  then show ?thesis using sub(2) wf_viewD(1) [OF f(3)] f(1) run kv_holdsD(5,6) [OF h]
    by (simp add: kv_holds_def coordinator_holds_def set_pool_def)
qed

lemma history_holds: "kv_history env km out \<Longrightarrow> kv_holds out km"
proof (induction rule: kv_history.induct)
  case (created config ml sbs hbs nb ec eagle lg ev dcp pcp ints met ret wm km)
  then show ?case by (rule new_manager_holds)
next
  case (looked_up km out r bs n km')
  then show ?case using computed_blocks_keeps by blast
next
  case (slots km out r n n_comp bs exts ahead delay n_enc full reserved sched res km')
  then show ?case using allocate_slots_keeps by blast
next
  case (freed km out r km')
  have k: "coordinator_holds ext co' \<and> frame_of co' = frame_of co"
    if "coordinator_free rid co = Inr co'" "coordinator_holds ext co" for rid co co' ext
    using coordinator_free_keeps [OF that(2), of rid] that(1) by auto
  show ?case by (rule on_coordinator_keeps [OF freed.hyps(2) [unfolded kv_manager_free_def] freed.IH k])
next
  case (skipped km out rid n km')
  show ?case using on_coordinator_keeps [OF skipped.hyps(2) [unfolded kv_manager_remove_skipped_blocks_def] skipped.IH]
      coordinator_skip_keeps by blast
next
  case (cached km out r n km')
  show ?case
  proof (cases "km_enable_caching km")
    case True
    then have "on_coordinator (coordinator_cache_blocks env r n) km = Inr km'"
      using cached.hyps(2) by (simp add: kv_manager_cache_blocks_def)
    from on_coordinator_keeps [OF this cached.IH] show ?thesis using coordinator_cache_keeps by blast
  qed (use cached in \<open>simp add: kv_manager_cache_blocks_def\<close>)
next
  case (evicted km out taken km')
  obtain p where p: "evict_blocks taken (km_pool km) = Inr p" "km' = set_pool p km"
    using evicted.hyps(3) by (auto simp: kv_manager_evict_blocks_def elim!: rbindE)
  have "pool_wf (km_pool km)" "hash_ok (km_pool km)" using kv_holdsD(3) [OF evicted.IH] by (auto simp: pool_inv_def)
  then show ?case using evict_blocks_spec [OF _ _ evicted.hyps(2) p(1)] kv_holds_pool [OF evicted.IH] p(2) by blast
next
  case (reset km out b km')
  have w: "pool_wf (km_pool km)" "hash_ok (km_pool km)" using kv_holdsD(3) [OF reset.IH] by (auto simp: pool_inv_def)
  obtain c p where p: "reset_prefix_cache (km_pool km) = (c, p)" by fastforce
  have k: "kv_holds out (set_pool p km)" using kv_holds_pool [OF reset.IH] reset_prefix_cache_spec [OF w p] by blast
  have "km_coordinator km' = km_coordinator (set_pool p km) \<and> km_num_kv_cache_groups km' = km_num_kv_cache_groups (set_pool p km) \<and>
      km_block_sizes km' = km_block_sizes (set_pool p km)"
    using reset.hyps(2) by (auto simp: kv_manager_reset_prefix_cache_def p Let_def split: if_splits option.splits)
  then show ?case using k by (simp add: kv_holds_def)
next
  case (events km out evs km')
  have "km' = set_pool (snd (take_events (km_pool km))) km"
    using events.hyps(2) by (auto simp: kv_manager_take_events_def split: prod.splits)
  moreover have "hash_ok (km_pool km)" using kv_holdsD(3) [OF events.IH] by (simp add: pool_inv_def)
  ultimately show ?case using kv_holds_pool [OF events.IH] take_events_spec by blast
next
  case (stats km out st km')
  then show ?case by (auto simp: make_prefix_cache_stats_def kv_holds_def split: if_splits)
next
  case (ids_taken km out is' km')
  then show ?case using inert_keeps [OF ids_taken.IH inert_ids]
    by (auto simp: kv_manager_take_new_block_ids_def Let_def comp_def)
next
  case (step_started km out)
  then show ?case using inert_keeps [OF step_started.IH inert_step]
    by (simp add: kv_manager_new_step_starts_def coordinator_new_step_starts_def)
next
  case (prefix_counted km out rid ns km')
  then show ?case using common_prefix_keeps by blast
next
  case (popped km out r bs km')
  then show ?case using pop_keeps by blast
next
  case (given_back km out bs rest p)
  then show ?case using give_back_keeps by blast
next
  case (committed km out t km')
  then show ?case using commit_keeps by blast
next
  case (applied km out rid st n cb km')
  then show ?case using apply_keeps by blast
qed

section \<open>Who holds a block\<close>

lemma history_pool:
  assumes "kv_history env km out"
  shows "pool_inv (km_pool km)"
    "b \<in> good_blocks (km_pool km) \<Longrightarrow>
       refs (km_pool km) b = owned_all (co_managers (km_coordinator km)) b + int (count_list out b)"
  using kv_holdsD(2) [OF history_holds [OF assms]] by (auto simp: all_share_def)

text \<open>Claim C8.  In every state a manager can reach, the reference count of a block is the number of
  places at which the block lists of its requests name it, over all cache groups, plus its
  occurrences among the blocks popped for a later release; the free list holds each block that
  nobody names exactly once, and nothing else.\<close>

theorem references_are_the_owners:
  assumes "kv_history env km out"
  shows "(\<forall>b \<in> set (bp_blocks (km_pool km)). \<not> kb_is_null (blk (km_pool km) b) \<longrightarrow>
       refs (km_pool km) b = owned_all (co_managers (km_coordinator km)) b + int (count_list out b)) \<and>
    (\<exists>xs. get_all_free_blocks (bp_free_block_queue (km_pool km)) = Some (Inr xs) \<and> distinct xs \<and>
       set xs = {b \<in> set (bp_blocks (km_pool km)). \<not> kb_is_null (blk (km_pool km) b) \<and>
          owned_all (co_managers (km_coordinator km)) b = 0 \<and> b \<notin> set out} \<and>
       get_num_free_blocks (km_pool km) = int (length xs))"
proof -
  let ?p = "km_pool km" and ?ms = "co_managers (km_coordinator km)"
  obtain xs where x: "pool_wf ?p" "refs_ok ?p xs" using history_pool(1) [OF assms] by (auto simp: pool_inv_def)
  have r: "refs ?p b = owned_all ?ms b + int (count_list out b)"
    if "b \<in> set (bp_blocks ?p)" "\<not> kb_is_null (blk ?p b)" for b
    using history_pool(2) [OF assms, of b] that pool_wf_good_eq [OF x(1)] by simp
  have z: "refs ?p b = 0 \<longleftrightarrow> owned_all ?ms b = 0 \<and> b \<notin> set out"
    if "b \<in> set (bp_blocks ?p)" "\<not> kb_is_null (blk ?p b)" for b
    using r [OF that] owned_all_nonneg [of ?ms b] count_list_0_iff [of out b] by auto
  note q = refs_ok_partition [OF x]
  have "set xs = {b \<in> set (bp_blocks ?p). \<not> kb_is_null (blk ?p b) \<and> owned_all ?ms b = 0 \<and> b \<notin> set out}"
    using q z by auto
  then show ?thesis using q r by blast
qed

section \<open>The release of a request\<close>

definition held_by :: "string \<Rightarrow> kv_cache_manager \<Rightarrow> block_ref \<Rightarrow> int" where
  "held_by rid km b = (\<Sum>m \<leftarrow> co_managers (km_coordinator km). int (count_list (blocks_or_empty rid m) b))"

lemma owned_all_deleted:
  assumes "length ms' = length ms" "\<forall>m \<in> set ms. distinct (dkeys (sm_req_to_blocks m))"
    and "\<forall>j < length ms. sm_req_to_blocks (ms' ! j) = AList.delete rid (sm_req_to_blocks (ms ! j))"
  shows "owned_all ms' b = owned_all ms b - (\<Sum>m \<leftarrow> ms. int (count_list (blocks_or_empty rid m) b))"
  using assms
proof (induction ms' ms rule: list_induct2)
  case (Cons m' ms' m ms)
  have "sm_req_to_blocks m' = AList.delete rid (sm_req_to_blocks m)" using Cons.prems(2) by (auto dest: spec [of _ 0])
  moreover have "distinct (dkeys (sm_req_to_blocks m))" using Cons.prems(1) by simp
  ultimately have "owned m' b = owned m b - int (count_list (blocks_or_empty rid m) b)"
    by (auto simp: owned_def dsum_delete blocks_or_empty_def split: option.splits)
  moreover have "\<forall>j < length ms. sm_req_to_blocks (ms' ! j) = AList.delete rid (sm_req_to_blocks (ms ! j))"
    using Cons.prems(2) by (auto dest: spec [of _ "Suc _"])
  ultimately show ?case using Cons.IH Cons.prems(1) by (simp add: owned_all_def)
qed (simp add: owned_all_def)

lemma free_spec:
  assumes h: "kv_holds out km"
  shows "\<exists>km'. kv_manager_free r km = Inr km' \<and> kv_holds out km' \<and>
    frame_of (km_coordinator km') = frame_of (km_coordinator km) \<and>
    (\<forall>j < length (co_managers (km_coordinator km)). sm_req_to_blocks (co_managers (km_coordinator km') ! j) =
       AList.delete (rq_request_id r) (sm_req_to_blocks (co_managers (km_coordinator km) ! j))) \<and>
    (\<forall>b \<in> good_blocks (km_pool km). refs (km_pool km') b = refs (km_pool km) b - held_by (rq_request_id r) km b)"
proof -
  let ?rid = "rq_request_id r" and ?ms = "co_managers (km_coordinator km)"
  obtain co' where c: "coordinator_free ?rid (km_coordinator km) = Inr co'"
    "coordinator_holds (\<lambda>b. int (count_list out b)) co'" "frame_of co' = frame_of (km_coordinator km)"
    "\<forall>j < length ?ms. sm_req_to_blocks (co_managers co' ! j) = AList.delete ?rid (sm_req_to_blocks (?ms ! j))"
    using coordinator_free_keeps [OF kv_holdsD(1) [OF h], of ?rid] by blast
  let ?km' = "km\<lparr>km_coordinator := co'\<rparr>"
  have k: "kv_holds out ?km'" by (rule kv_holds_coordinator [OF h c(2,3)]) simp_all
  have len: "length (co_managers co') = length ?ms" using frame_of_sizes [OF c(3)] by simp
  have "\<forall>m \<in> set ?ms. distinct (dkeys (sm_req_to_blocks m))"
    using kv_holdsD(2) [OF h] by (auto simp: all_share_def manager_ok_def)
  note own = owned_all_deleted [OF len this c(4)]
  have "wf_view (co_pool co') = wf_view (km_pool km)" using c(3) by (simp add: frame_of_def)
  then have good: "good_blocks (co_pool co') = good_blocks (km_pool km)" by (rule wf_viewD)
  have "refs (co_pool co') b = refs (km_pool km) b - held_by ?rid km b" if "b \<in> good_blocks (km_pool km)" for b
    using kv_holdsD(2) [OF h] kv_holdsD(2) [OF k] own [of b] that good by (simp add: all_share_def held_by_def)
  then show ?thesis using c k by (intro exI [of _ ?km']) (simp add: kv_manager_free_def on_coordinator_def)
qed

lemma held_by_nonneg: "0 \<le> held_by rid km b"
  unfolding held_by_def by (rule sum_list_nonneg) auto

text \<open>Claim C11.  The release of a request never fails, in any reachable state: its lists vanish from
  every cache group and no other list changes, each block loses exactly the references the
  request had, and the blocks that become free are those that only this request held.\<close>

theorem finished_request_returns_its_blocks:
  assumes "kv_history env km out"
  shows "\<exists>km'. kv_manager_free r km = Inr km' \<and>
    (\<forall>j < length (co_managers (km_coordinator km)). sm_req_to_blocks (co_managers (km_coordinator km') ! j) =
       AList.delete (rq_request_id r) (sm_req_to_blocks (co_managers (km_coordinator km) ! j))) \<and>
    (\<forall>b \<in> good_blocks (km_pool km).
       refs (km_pool km') b = refs (km_pool km) b - held_by (rq_request_id r) km b \<and>
       held_by (rq_request_id r) km b \<le> refs (km_pool km) b) \<and>
    get_num_free_blocks (km_pool km') = get_num_free_blocks (km_pool km) +
      int (card {b \<in> good_blocks (km_pool km). 0 < refs (km_pool km) b \<and> refs (km_pool km) b = held_by (rq_request_id r) km b})"
proof -
  let ?rid = "rq_request_id r" and ?p = "km_pool km"
  have h: "kv_holds out km" by (rule history_holds [OF assms])
  obtain km' where k: "kv_manager_free r km = Inr km'" "kv_holds out km'" "frame_of (km_coordinator km') = frame_of (km_coordinator km)"
    "\<forall>j < length (co_managers (km_coordinator km)). sm_req_to_blocks (co_managers (km_coordinator km') ! j) =
       AList.delete ?rid (sm_req_to_blocks (co_managers (km_coordinator km) ! j))"
    "\<forall>b \<in> good_blocks ?p. refs (km_pool km') b = refs ?p b - held_by ?rid km b"
    using free_spec [OF h] by blast
  have "wf_view (km_pool km') = wf_view ?p" using k(3) by (simp add: frame_of_def)
  then have good: "good_blocks (km_pool km') = good_blocks ?p" by (rule wf_viewD)
  have pos: "0 \<le> refs (km_pool km') b" "0 \<le> refs ?p b" if "b \<in> good_blocks ?p" for b
    using kv_holdsD(2) [OF k(2)] kv_holdsD(2) [OF h] that good owned_all_nonneg by (auto simp: all_share_def)
  have le: "held_by ?rid km b \<le> refs ?p b" if "b \<in> good_blocks ?p" for b
    using k(5) pos(1) that by force
  let ?F = "{b \<in> good_blocks ?p. refs ?p b = 0}"
  let ?N = "{b \<in> good_blocks ?p. 0 < refs ?p b \<and> refs ?p b = held_by ?rid km b}"
  have "{b \<in> good_blocks (km_pool km'). refs (km_pool km') b = 0} = ?F \<union> ?N"
  proof (intro set_eqI)
    fix b show "b \<in> {b \<in> good_blocks (km_pool km'). refs (km_pool km') b = 0} \<longleftrightarrow> b \<in> ?F \<union> ?N"
      using good k(5) le [of b] pos(2) [of b] held_by_nonneg [of ?rid km b] by auto
  qed
  moreover have "?F \<inter> ?N = {}" by auto
  moreover have "finite (good_blocks ?p)" by (simp add: good_blocks_def)
  ultimately have "card {b \<in> good_blocks (km_pool km'). refs (km_pool km') b = 0} = card ?F + card ?N"
    by (simp add: card_Un_disjoint)
  then have "get_num_free_blocks (km_pool km') = get_num_free_blocks ?p + int (card ?N)"
    using num_free_card [OF kv_holdsD(3) [OF h]] num_free_card [OF kv_holdsD(3) [OF k(2)]] by simp
  then show ?thesis using k le by (intro exI [of _ km']) simp
qed

section \<open>Draining\<close>

lemma free_all_spec:
  assumes "kv_holds out km"
  shows "\<exists>km'. rfold kv_manager_free rs km = Inr km' \<and> kv_holds out km' \<and>
    frame_of (km_coordinator km') = frame_of (km_coordinator km) \<and>
    (\<forall>j < length (co_managers (km_coordinator km)). set (dkeys (sm_req_to_blocks (co_managers (km_coordinator km') ! j))) =
       set (dkeys (sm_req_to_blocks (co_managers (km_coordinator km) ! j))) - rq_request_id ` set rs)"
  using assms
proof (induction rs arbitrary: km)
  case (Cons r rs)
  obtain km1 where k: "kv_manager_free r km = Inr km1" "kv_holds out km1" "frame_of (km_coordinator km1) = frame_of (km_coordinator km)"
    "\<forall>j < length (co_managers (km_coordinator km)). sm_req_to_blocks (co_managers (km_coordinator km1) ! j) =
       AList.delete (rq_request_id r) (sm_req_to_blocks (co_managers (km_coordinator km) ! j))"
    using free_spec [OF Cons.prems, of r] by blast
  have len: "length (co_managers (km_coordinator km1)) = length (co_managers (km_coordinator km))"
    using frame_of_sizes [OF k(3)] by simp
  obtain km' where f: "rfold kv_manager_free rs km1 = Inr km'" "kv_holds out km'"
    "frame_of (km_coordinator km') = frame_of (km_coordinator km1)"
    "\<forall>j < length (co_managers (km_coordinator km1)). set (dkeys (sm_req_to_blocks (co_managers (km_coordinator km') ! j))) =
       set (dkeys (sm_req_to_blocks (co_managers (km_coordinator km1) ! j))) - rq_request_id ` set rs"
    using Cons.IH [OF k(2)] by blast
  have "set (dkeys (sm_req_to_blocks (co_managers (km_coordinator km') ! j))) =
      set (dkeys (sm_req_to_blocks (co_managers (km_coordinator km) ! j))) - rq_request_id ` set (r # rs)"
    if j: "j < length (co_managers (km_coordinator km))" for j
  proof -
    have "set (dkeys (sm_req_to_blocks (co_managers (km_coordinator km') ! j))) =
        set (dkeys (AList.delete (rq_request_id r) (sm_req_to_blocks (co_managers (km_coordinator km) ! j)))) - rq_request_id ` set rs"
      using f(4) k(4) j len by metis
    then show ?thesis unfolding set_dkeys_delete by auto
  qed
  then show ?case using k(1) f(1-3) k(3) by (intro exI [of _ km']) simp
qed auto

text \<open>Claim C40.  Draining: from any reachable state with no deferred release pending, releasing
  all requests that have an entry - in any order, repetitions allowed - succeeds, every block
  but the null block is free again, and the prefix cache can be reset.\<close>

theorem draining_frees_every_block:
  assumes "kv_history env km []"
    and "\<forall>m \<in> set (co_managers (km_coordinator km)). set (dkeys (sm_req_to_blocks m)) \<subseteq> rq_request_id ` set rs"
  shows "\<exists>km'. rfold kv_manager_free rs km = Inr km' \<and>
    (\<forall>m \<in> set (co_managers (km_coordinator km')). sm_req_to_blocks m = []) \<and>
    get_num_free_blocks (km_pool km') = bp_num_gpu_blocks (km_pool km) - 1 \<and>
    fst (reset_prefix_cache (km_pool km'))"
proof -
  have h: "kv_holds [] km" by (rule history_holds [OF assms(1)])
  obtain km' where k: "rfold kv_manager_free rs km = Inr km'" "kv_holds [] km'" "frame_of (km_coordinator km') = frame_of (km_coordinator km)"
    "\<forall>j < length (co_managers (km_coordinator km)). set (dkeys (sm_req_to_blocks (co_managers (km_coordinator km') ! j))) =
       set (dkeys (sm_req_to_blocks (co_managers (km_coordinator km) ! j))) - rq_request_id ` set rs"
    using free_all_spec [OF h, of rs] by blast
  let ?ms = "co_managers (km_coordinator km')" and ?p = "km_pool km'"
  have empty: "sm_req_to_blocks m = []" if m: "m \<in> set ?ms" for m
  proof -
    obtain j where j: "j < length ?ms" "m = ?ms ! j" using m by (auto simp: in_set_conv_nth)
    have jl: "j < length (co_managers (km_coordinator km))" using j(1) frame_of_sizes [OF k(3)] by simp
    then have "set (dkeys (sm_req_to_blocks (co_managers (km_coordinator km) ! j))) \<subseteq> rq_request_id ` set rs"
      using assms(2) nth_mem by blast
    moreover have "set (dkeys (sm_req_to_blocks m)) =
        set (dkeys (sm_req_to_blocks (co_managers (km_coordinator km) ! j))) - rq_request_id ` set rs"
      unfolding j(2) by (rule k(4) [rule_format, OF jl])
    ultimately have "set (dkeys (sm_req_to_blocks m)) = {}" by (simp only: Diff_eq_empty_iff)
    then show ?thesis by simp
  qed
  have "owned_all ms b = 0" if "\<forall>m \<in> set ms. sm_req_to_blocks m = []" for ms b
    using that by (induction ms) (auto simp: owned_all_def owned_def)
  then have "refs ?p b = 0" if "b \<in> good_blocks ?p" for b
    using kv_holdsD(2) [OF k(2)] that empty by (simp add: all_share_def)
  then have "{b \<in> good_blocks ?p. refs ?p b = 0} = good_blocks ?p" by blast
  moreover have wf: "pool_wf ?p" using kv_holdsD(3) [OF k(2)] by (simp add: pool_inv_def)
  ultimately have free: "get_num_free_blocks ?p = bp_num_gpu_blocks ?p - 1"
    using num_free_card [OF kv_holdsD(3) [OF k(2)]] card_good_blocks [OF wf] by simp
  have "wf_view ?p = wf_view (km_pool km)" using k(3) by (simp add: frame_of_def)
  then have "bp_num_gpu_blocks ?p = bp_num_gpu_blocks (km_pool km)" by (simp add: wf_view_def)
  then show ?thesis using k(1) empty free by (intro exI [of _ km']) (simp add: reset_prefix_cache_def Let_def)
qed

section \<open>A planned change of tier\<close>

lemma plan_group_props:
  "distinct (map bt_logical_index (plan_group p st k bs))"
  "t \<in> set (plan_group p st k bs) \<longleftrightarrow> (\<exists>i < length bs. plan_takes p st k i (bs ! i) \<and>
     t = \<lparr>bt_logical_index = int i, bt_source_hot_id = kb_block_id (blk p (bs ! i))\<rparr>)"
proof -
  have "map bt_logical_index (plan_group p st k bs) =
      map (int \<circ> fst) (filter (\<lambda>(i, b). plan_takes p st k i b) (enumerate 0 bs))"
    by (simp add: plan_group_def comp_def case_prod_unfold)
  moreover have "distinct (map fst (filter (\<lambda>(i, b). plan_takes p st k i b) (enumerate 0 bs)))"
    by (rule distinct_map_filter) simp
  ultimately show "distinct (map bt_logical_index (plan_group p st k bs))"
    by (simp add: comp_inj_on inj_on_def distinct_map)
  show "t \<in> set (plan_group p st k bs) \<longleftrightarrow> (\<exists>i < length bs. plan_takes p st k i (bs ! i) \<and>
     t = \<lparr>bt_logical_index = int i, bt_source_hot_id = kb_block_id (blk p (bs ! i))\<rparr>)"
    by (auto simp: plan_group_def in_set_enumerate_eq image_iff Bex_def)
qed

lemma normalize_distinct:
  assumes "\<forall>ts \<in> set cb. distinct (map bt_logical_index ts)"
  shows "distinct (map (\<lambda>(g, l, h). (g, l)) (normalize_transition_blocks cb))"
proof -
  have "distinct (map (\<lambda>(g, l, h). (g, l)) (concat (map flat_group (enumerate n cb)))) \<and>
      (\<forall>x \<in> set (concat (map flat_group (enumerate n cb))). n \<le> fst x)" for n
    using assms
  proof (induction cb arbitrary: n)
    case (Cons ts cb)
    have "map (\<lambda>(g, l, h). (g, l)) (flat_group (n, ts)) = map (\<lambda>l. (n, l)) (map bt_logical_index ts)"
      by (simp add: flat_group_def)
    moreover have "distinct (map (\<lambda>l. (n, l)) (map bt_logical_index ts))"
      using Cons.prems by (simp add: distinct_map inj_on_def)
    moreover have "\<forall>x \<in> set (flat_group (n, ts)). fst x = n" by (auto simp: flat_group_def)
    ultimately show ?case using Cons.IH [of "Suc n"] Cons.prems by fastforce
  qed simp
  then show ?thesis by (simp add: normalize_transition_blocks_def)
qed

lemma plan_spec:
  assumes h: "kv_holds out km" and run: "plan_request_kv_state rid st n km = Inr cb"
  shows "length cb = length (co_managers (km_coordinator km)) \<and> (\<forall>g < length cb. cb ! g =
      plan_group (km_pool km) st (num_complete_blocks n (sm_block_size (co_managers (km_coordinator km) ! g)))
        (blocks_or_empty rid (co_managers (km_coordinator km) ! g)))"
proof -
  let ?bs = "kvb_blocks (get_blocks rid km)" and ?ms = "co_managers (km_coordinator km)"
  have len: "length ?bs = length (km_block_sizes km)" and cb: "cb = map2 (\<lambda>grp size. plan_group (km_pool km) st
      (num_complete_blocks n size) grp) ?bs (km_block_sizes km)"
    using run by (auto simp: plan_request_kv_state_def check_def Let_def split: if_splits elim!: rbindE)
  have "length (km_block_sizes km) = length ?ms" using kv_holdsD(6) [OF h] by simp
  then show ?thesis using len get_blocks_at [OF h, of _ rid] kv_holdsD(6) [OF h] by (auto simp: cb)
qed

lemma planned_private:
  assumes h: "kv_holds out km" and b: "b \<in> set (bp_blocks (km_pool km))" and t: "plan_takes (km_pool km) st k i b"
  shows "\<not> kb_is_null (blk (km_pool km) b)" "refs (km_pool km) b = 1"
proof -
  show n: "\<not> kb_is_null (blk (km_pool km) b)" using t by (auto simp: plan_takes_def split: if_splits)
  have "pool_wf (km_pool km)" using kv_holdsD(3) [OF h] by (simp add: pool_inv_def)
  then have "b \<in> good_blocks (km_pool km)" using b n pool_wf_good_eq by blast
  then have "0 \<le> refs (km_pool km) b" using kv_holdsD(2) [OF h] owned_all_nonneg by (simp add: all_share_def)
  then show "refs (km_pool km) b = 1" using t by (simp add: plan_takes_def split: if_splits)
qed

lemma plan_validates:
  assumes h: "kv_holds out km" and run: "plan_request_kv_state rid st n km = Inr cb"
  defines "bs \<equiv> kvb_blocks (get_blocks rid km)"
  shows "validate_reclaims (km_pool km) bs cb =
    Inr (concat (map (\<lambda>(g, ts). map (\<lambda>t. (g, bt_logical_index t, bs ! g ! nat (bt_logical_index t))) ts) (enumerate 0 cb)))"
proof -
  let ?ms = "co_managers (km_coordinator km)" and ?p = "km_pool km"
  note pl = plan_spec [OF h run]
  have len: "length cb = length bs" using pl kv_holdsD(5,6) [OF h] run
    by (auto simp: bs_def plan_request_kv_state_def check_def Let_def split: if_splits elim!: rbindE)
  have one: "validate_reclaim ?p (bs ! g) t = Inr (bs ! g ! nat (bt_logical_index t))"
    if g: "g < length cb" and t: "t \<in> set (cb ! g)" for g t
  proof -
    have at: "bs ! g = blocks_or_empty rid (?ms ! g)" "g < length ?ms"
      using get_blocks_at [OF h, of g rid] g len by (auto simp: bs_def)
    obtain i where i: "i < length (bs ! g)" "plan_takes ?p st (num_complete_blocks n (sm_block_size (?ms ! g))) i (bs ! g ! i)"
      "t = \<lparr>bt_logical_index = int i, bt_source_hot_id = kb_block_id (blk ?p (bs ! g ! i))\<rparr>"
      using t pl g plan_group_props(2) at by auto
    have "manager_ok ?p (?ms ! g)" using kv_holdsD(2) [OF h] at(2) by (simp add: all_share_def)
    then have "bs ! g ! i \<in> set (bp_blocks ?p)" using nth_mem [OF i(1)] at(1) by (auto simp: manager_ok_def)
    from planned_private [OF h this i(2)] show ?thesis using i by (simp add: validate_reclaim_def)
  qed
  have "rmap (\<lambda>(g, ts). rmap (\<lambda>t. rbind (validate_reclaim ?p (bs ! g) t) (\<lambda>b. Inr (g, bt_logical_index t, b))) ts) (enumerate 0 cb) =
      Inr (map (\<lambda>(g, ts). map (\<lambda>t. (g, bt_logical_index t, bs ! g ! nat (bt_logical_index t))) ts) (enumerate 0 cb))"
  proof (rule rmap_total)
    fix x assume "x \<in> set (enumerate 0 cb)"
    then obtain g where g: "g < length cb" "x = (g, cb ! g)" by (auto simp: in_set_enumerate_eq prod_eq_iff)
    have "rmap (\<lambda>t. rbind (validate_reclaim ?p (bs ! g) t) (\<lambda>b. Inr (g, bt_logical_index t, b))) (cb ! g) =
        Inr (map (\<lambda>t. (g, bt_logical_index t, bs ! g ! nat (bt_logical_index t))) (cb ! g))"
      by (rule rmap_total) (simp add: one [OF g(1)])
    then show "(case x of (g, ts) \<Rightarrow> rmap (\<lambda>t. rbind (validate_reclaim ?p (bs ! g) t) (\<lambda>b. Inr (g, bt_logical_index t, b))) ts) =
        Inr (case x of (g, ts) \<Rightarrow> map (\<lambda>t. (g, bt_logical_index t, bs ! g ! nat (bt_logical_index t))) ts)"
      by (simp add: g(2))
  qed
  then show ?thesis using len by (simp add: validate_reclaims_def)
qed

lemma plan_distinct_entries:
  assumes h: "kv_holds out km" and run: "plan_request_kv_state rid st n km = Inr cb" and t: "tn_changed_blocks t = cb"
  shows "distinct_entries t"
proof -
  note pl = plan_spec [OF h run]
  have "distinct (map bt_logical_index ts)" if "ts \<in> set cb" for ts
    using that pl plan_group_props(1) by (auto simp: in_set_conv_nth)
  moreover have "0 \<le> l" if "(g, l, k) \<in> set (normalize_transition_blocks cb)" for g l k
    using that pl by (auto simp: set_normalize_transition_blocks plan_group_props(2))
  ultimately show ?thesis using normalize_distinct [of cb] by (auto simp: distinct_entries_def t)
qed

lemma planned_index:
  "(\<exists>t \<in> set (plan_group p st k bs). int i = bt_logical_index t) \<longleftrightarrow> i < length bs \<and> plan_takes p st k i (bs ! i)"
proof
  assume "i < length bs \<and> plan_takes p st k i (bs ! i)"
  then have "\<lparr>bt_logical_index = int i, bt_source_hot_id = kb_block_id (blk p (bs ! i))\<rparr> \<in> set (plan_group p st k bs)"
    unfolding plan_group_props(2) by blast
  then show "\<exists>t \<in> set (plan_group p st k bs). int i = bt_logical_index t" by (rule bexI [rotated]) simp
qed (auto simp: plan_group_props(2))

lemma named_positions_iff:
  "(g, l) \<in> named_positions t \<longleftrightarrow> (\<exists>k. (g, l, k) \<in> set (normalize_transition_blocks (tn_changed_blocks t)))"
proof
  assume "\<exists>k. (g, l, k) \<in> set (normalize_transition_blocks (tn_changed_blocks t))"
  then obtain k where "(g, l, k) \<in> set (normalize_transition_blocks (tn_changed_blocks t))" by blast
  from imageI [OF this, of "\<lambda>(g, l, h). (g, l)"] show "(g, l) \<in> named_positions t" by (simp add: named_positions_def)
qed (auto simp: named_positions_def)

text \<open>Whether the plan demotes block \<open>i\<close> of the request in group \<open>g\<close>.\<close>

definition demotes :: "kv_cache_manager \<Rightarrow> string \<Rightarrow> kv_block_state \<Rightarrow> int option \<Rightarrow> nat \<Rightarrow> nat \<Rightarrow> bool" where
  "demotes km rid st n g i \<longleftrightarrow>
     (let m = co_managers (km_coordinator km) ! g in
      i < length (blocks_or_empty rid m) \<and>
      plan_takes (km_pool km) st (num_complete_blocks n (sm_block_size m)) i (blocks_or_empty rid m ! i))"


section \<open>A concrete history\<close>

definition demo_config :: kv_cache_config where
  "demo_config = \<lparr>cf_num_blocks = 4, cf_kv_cache_groups =
     [\<lparr>kg_spec = demo_spec FullAttentionSpec 2, kg_is_eagle_group = False\<rparr>]\<rparr>"

definition demo_served :: "(kv_cache_manager \<times> kv_cache_manager \<times> kv_block_transition list list) res" where
  "demo_served =
     rbind (new_kv_cache_manager demo_config 8 2 2 None True False True False 1 1 False False None 0) (\<lambda>k0.
     rbind (allocate_slots demo_env demo_prefix 4 0 None 0 0 False 0 True 0 False k0) (\<lambda>(res, k1).
     rbind (plan_request_kv_state ''r'' WARM (Some 4) k1) (\<lambda>cb.
     Inr (k0, k1, cb))))"

lemma demo_served_ok:
  "case demo_served of Inl _ \<Rightarrow> False
   | Inr (k0, k1, cb) \<Rightarrow>
       length (co_managers (km_coordinator k0)) = 1 \<and> sm_block_size (co_managers (km_coordinator k0) ! 0) = 2 \<and>
       km_max_model_len k0 = 8 \<and> km_num_kv_cache_groups k0 = 1 \<and>
       map sm_req_to_blocks (co_managers (km_coordinator k1)) = [[(''r'', [Blk 1, Blk 2])]] \<and>
       bp_blocks (km_pool k1) = [Blk 0, Blk 1, Blk 2, Blk 3] \<and> bp_null_block (km_pool k1) = Blk 0 \<and>
       get_num_free_blocks (km_pool k1) = 1 \<and> bp_num_gpu_blocks (km_pool k1) = 4 \<and>
       refs (km_pool k1) (Blk 1) = 1 \<and> refs (km_pool k1) (Blk 2) = 1 \<and>
       cb = [[\<lparr>bt_logical_index = 0, bt_source_hot_id = 1\<rparr>, \<lparr>bt_logical_index = 1, bt_source_hot_id = 2\<rparr>]]"
  by code_simp

lemma demo_rid: "rq_request_id demo_prefix = ''r''"
  by code_simp

lemma demo_served_history:
  obtains k0 k1 cb where "demo_served = Inr (k0, k1, cb)" "kv_history demo_env k1 []"
    "plan_request_kv_state ''r'' WARM (Some 4) k1 = Inr cb"
    "map sm_req_to_blocks (co_managers (km_coordinator k1)) = [[(''r'', [Blk 1, Blk 2])]]"
    "good_blocks (km_pool k1) = {Blk 1, Blk 2, Blk 3}" "get_num_free_blocks (km_pool k1) = 1"
    "bp_num_gpu_blocks (km_pool k1) = 4" "refs (km_pool k1) (Blk 1) = 1" "refs (km_pool k1) (Blk 2) = 1"
    "bp_null_block (km_pool k1) = Blk 0"
    "cb = [[\<lparr>bt_logical_index = 0, bt_source_hot_id = 1\<rparr>, \<lparr>bt_logical_index = 1, bt_source_hot_id = 2\<rparr>]]"
proof -
  obtain k0 k1 cb where run: "demo_served = Inr (k0, k1, cb)" using demo_served_ok by (auto split: sum.splits)
  note f = demo_served_ok [unfolded run sum.case prod.case]
  have n: "new_kv_cache_manager demo_config 8 2 2 None True False True False 1 1 False False None 0 = Inr k0"
    and plan: "plan_request_kv_state ''r'' WARM (Some 4) k1 = Inr cb"
    using run by (auto simp: demo_served_def elim!: rbindE)
  obtain res where a: "allocate_slots demo_env demo_prefix 4 0 None 0 0 False 0 True 0 False k0 = Inr (res, k1)"
    using run by (auto simp: demo_served_def elim!: rbindE)
  have h0: "kv_history demo_env k0 []"
    by (rule kv_history.created [OF n]) (simp add: config_sane_def demo_config_def demo_spec_def spec_sane_def)
  have "rq_num_computed_tokens demo_prefix = 0" by code_simp
  then have "slots_ok demo_prefix 4 0 None 0 k0" using f
    by (simp add: slots_ok_def computed_ok_def computed_list_def)
  from kv_history.slots [OF h0 this a] have "kv_history demo_env k1 []" .
  then show ?thesis using that [OF run] plan f by (auto simp: good_blocks_def)
qed

lemma demo_managers:
  assumes "map sm_req_to_blocks (co_managers (km_coordinator km)) = [[(''r'', [Blk 1, Blk 2])]]"
  obtains m where "co_managers (km_coordinator km) = [m]" "sm_req_to_blocks m = [(''r'', [Blk 1, Blk 2])]"
    "blocks_or_empty ''r'' m = [Blk 1, Blk 2]"
  using assms by (auto simp: blocks_or_empty_def)

theorem references_are_the_owners_witness:
  "\<exists>km. kv_history demo_env km [] \<and> owned_all (co_managers (km_coordinator km)) (Blk 1) = 1 \<and>
     refs (km_pool km) (Blk 1) = 1 \<and> (\<exists>xs. get_all_free_blocks (bp_free_block_queue (km_pool km)) = Some (Inr xs) \<and>
       Blk 1 \<notin> set xs \<and> length xs = 1)"
proof -
  obtain k0 k1 cb where k: "kv_history demo_env k1 []"
    "map sm_req_to_blocks (co_managers (km_coordinator k1)) = [[(''r'', [Blk 1, Blk 2])]]"
    "refs (km_pool k1) (Blk 1) = 1" "get_num_free_blocks (km_pool k1) = 1"
    by (rule demo_served_history)
  obtain m where "co_managers (km_coordinator k1) = [m]" "sm_req_to_blocks m = [(''r'', [Blk 1, Blk 2])]"
    by (rule demo_managers [OF k(2)])
  then have o: "owned_all (co_managers (km_coordinator k1)) (Blk 1) = 1" by (simp add: owned_all_def owned_def)
  show ?thesis using references_are_the_owners [OF k(1)] o k by (intro exI [of _ k1]) auto
qed

theorem finished_request_returns_its_blocks_witness:
  "\<exists>km km'. kv_history demo_env km [] \<and> refs (km_pool km) (Blk 1) = 1 \<and> held_by ''r'' km (Blk 1) = 1 \<and>
     kv_manager_free demo_prefix km = Inr km' \<and> refs (km_pool km') (Blk 1) = 0"
proof -
  obtain k0 k1 cb where k: "kv_history demo_env k1 []"
    "map sm_req_to_blocks (co_managers (km_coordinator k1)) = [[(''r'', [Blk 1, Blk 2])]]"
    "good_blocks (km_pool k1) = {Blk 1, Blk 2, Blk 3}" "refs (km_pool k1) (Blk 1) = 1"
    by (rule demo_served_history)
  obtain m where "co_managers (km_coordinator k1) = [m]" "blocks_or_empty ''r'' m = [Blk 1, Blk 2]"
    by (rule demo_managers [OF k(2)])
  then have "held_by ''r'' k1 (Blk 1) = 1" by (simp add: held_by_def)
  moreover obtain km' where "kv_manager_free demo_prefix k1 = Inr km'"
    "\<forall>b \<in> good_blocks (km_pool k1). refs (km_pool km') b = refs (km_pool k1) b - held_by ''r'' k1 b"
    using finished_request_returns_its_blocks [OF k(1), of demo_prefix] unfolding demo_rid by blast
  ultimately show ?thesis using k by (intro exI [of _ k1] exI [of _ km']) simp
qed

theorem draining_frees_every_block_witness:
  "\<exists>km km'. kv_history demo_env km [] \<and> get_num_free_blocks (km_pool km) = 1 \<and>
     rfold kv_manager_free [demo_prefix, demo_prefix] km = Inr km' \<and> get_num_free_blocks (km_pool km') = 3 \<and>
     fst (reset_prefix_cache (km_pool km'))"
proof -
  obtain k0 k1 cb where k: "kv_history demo_env k1 []"
    "map sm_req_to_blocks (co_managers (km_coordinator k1)) = [[(''r'', [Blk 1, Blk 2])]]"
    "get_num_free_blocks (km_pool k1) = 1" "bp_num_gpu_blocks (km_pool k1) = 4"
    by (rule demo_served_history)
  obtain m where "co_managers (km_coordinator k1) = [m]" "sm_req_to_blocks m = [(''r'', [Blk 1, Blk 2])]"
    by (rule demo_managers [OF k(2)])
  then have "\<forall>m \<in> set (co_managers (km_coordinator k1)).
      set (dkeys (sm_req_to_blocks m)) \<subseteq> rq_request_id ` set [demo_prefix, demo_prefix]" by (simp add: demo_rid)
  from draining_frees_every_block [OF k(1) this] show ?thesis using k by auto
qed


end
