(* ===== verification/EncoderCache.thy ===== *)
theory EncoderCache
  imports Request
begin

text \<open>
  \<open>EncoderCacheManager\<close>, \<open>EncoderDecoderCacheManager\<close> and \<open>compute_mm_encoder_budget\<close> of
  \<^verbatim>\<open>vllm/v1/core/encoder_cache_manager.py\<close>: the accounting of encoder outputs that requests share.

  A Python set is a list without repetition; its order is the order in which \<open>list(s)\<close> visits it.
  \<open>freeable\<close>, an \<open>OrderedDict\<close>, is the association list in insertion order, so \<open>popitem(last=False)\<close>
  takes its head.
\<close>

section \<open>The cache manager\<close>

record encoder_cache_manager =
  ec_cache_size :: int
  ec_num_free_slots :: int
  ec_num_freeable_slots :: int
  ec_cached :: "(string, string list) dict"
  ec_request_cached_ids :: "(string, nat list) dict"
  ec_freeable :: "(string, int) dict"
  ec_freed :: "string list"

definition new_encoder_cache_manager :: "int \<Rightarrow> encoder_cache_manager" where
  "new_encoder_cache_manager cache_size =
     \<lparr>ec_cache_size = cache_size, ec_num_free_slots = cache_size, ec_num_freeable_slots = cache_size,
      ec_cached = [], ec_request_cached_ids = [], ec_freeable = [], ec_freed = []\<rparr>"

definition encoder_reset :: "encoder_cache_manager \<Rightarrow> encoder_cache_manager" where
  "encoder_reset c =
     c\<lparr>ec_cached := [], ec_request_cached_ids := [], ec_freeable := [], ec_freed := [],
       ec_num_free_slots := ec_cache_size c, ec_num_freeable_slots := ec_cache_size c\<rparr>"

definition mm_hash_of :: "request \<Rightarrow> nat \<Rightarrow> string res" where
  "mm_hash_of r input_id =
     rbind (list_index (rq_mm_features r) (int input_id)) (\<lambda>f. Inr (mf_identifier f))"

text \<open>The request joins the referencing requests of the entry, the input its own cached inputs.\<close>

definition add_reference ::
  "string \<Rightarrow> string \<Rightarrow> string list \<Rightarrow> nat \<Rightarrow> encoder_cache_manager \<Rightarrow> encoder_cache_manager" where
  "add_reference mm_hash request_id users input_id c =
     c\<lparr>ec_cached := AList.update mm_hash (List.insert request_id users) (ec_cached c),
       ec_request_cached_ids :=
         AList.update request_id
           (List.insert input_id
             (case map_of (ec_request_cached_ids c) request_id of None \<Rightarrow> [] | Some s \<Rightarrow> s))
           (ec_request_cached_ids c)\<rparr>"

definition check_and_update_cache ::
  "request \<Rightarrow> nat \<Rightarrow> encoder_cache_manager \<Rightarrow> (bool \<times> encoder_cache_manager) res" where
  "check_and_update_cache r input_id c =
     rbind (mm_hash_of r input_id) (\<lambda>mm_hash.
     case map_of (ec_cached c) mm_hash of
       None \<Rightarrow> Inr (False, c)
     | Some users \<Rightarrow>
         rbind (if users = []
                then rbind (dict_index (ec_freeable c) mm_hash) (\<lambda>num_encoder_embeds.
                     Inr (c\<lparr>ec_freeable := AList.delete mm_hash (ec_freeable c),
                            ec_num_freeable_slots := ec_num_freeable_slots c - num_encoder_embeds\<rparr>))
                else Inr c) (\<lambda>c1.
         Inr (True, add_reference mm_hash (rq_request_id r) users input_id c1)))"

text \<open>The eviction loop; \<open>popitem\<close> raises on an empty dictionary.\<close>

fun evict_loop :: "int \<Rightarrow> (string, int) dict \<Rightarrow> encoder_cache_manager \<Rightarrow> encoder_cache_manager res" where
  "evict_loop num_embeds [] c =
     (if num_embeds > ec_num_free_slots c then Inl KeyError else Inr c)"
| "evict_loop num_embeds ((mm_hash, num_free_embeds) # rest) c =
     (if num_embeds > ec_num_free_slots c
      then rbind (dict_index (ec_cached c) mm_hash) (\<lambda>_.
           evict_loop num_embeds rest
             (c\<lparr>ec_freeable := rest, ec_cached := AList.delete mm_hash (ec_cached c),
                ec_freed := ec_freed c @ [mm_hash],
                ec_num_free_slots := ec_num_free_slots c + num_free_embeds\<rparr>))
      else Inr c)"

definition can_allocate ::
  "request \<Rightarrow> nat \<Rightarrow> int \<Rightarrow> int \<Rightarrow> encoder_cache_manager \<Rightarrow> (bool \<times> encoder_cache_manager) res" where
  "can_allocate r input_id encoder_compute_budget num_embeds_to_schedule c =
     rbind (get_num_encoder_embeds input_id r) (\<lambda>n.
     if n > encoder_compute_budget then Inr (False, c)
     else
       let num_embeds = n + num_embeds_to_schedule
       in if num_embeds \<le> ec_num_free_slots c then Inr (True, c)
          else if num_embeds > ec_num_freeable_slots c then Inr (False, c)
          else rbind (evict_loop num_embeds (ec_freeable c) c) (\<lambda>c1. Inr (True, c1)))"

definition encoder_allocate ::
  "request \<Rightarrow> nat \<Rightarrow> encoder_cache_manager \<Rightarrow> encoder_cache_manager res" where
  "encoder_allocate r input_id c =
     rbind (mm_hash_of r input_id) (\<lambda>mm_hash.
     let users = (case map_of (ec_cached c) mm_hash of None \<Rightarrow> [] | Some s \<Rightarrow> s) in
     rbind (get_num_encoder_embeds input_id r) (\<lambda>n.
     rbind (check (ec_num_free_slots c \<ge> n) AssertionError) (\<lambda>_.
     rbind (check (ec_num_freeable_slots c \<ge> n) AssertionError) (\<lambda>_.
     let c1 = add_reference mm_hash (rq_request_id r) users input_id c in
     Inr (c1\<lparr>ec_num_free_slots := ec_num_free_slots c - n,
             ec_num_freeable_slots := ec_num_freeable_slots c - n\<rparr>)))))"

definition get_cached_input_ids :: "request \<Rightarrow> encoder_cache_manager \<Rightarrow> nat list" where
  "get_cached_input_ids r c =
     (case map_of (ec_request_cached_ids c) (rq_request_id r) of None \<Rightarrow> [] | Some s \<Rightarrow> s)"

definition drop_cached_id :: "string \<Rightarrow> nat \<Rightarrow> encoder_cache_manager \<Rightarrow> encoder_cache_manager" where
  "drop_cached_id req_id input_id c =
     (case map_of (ec_request_cached_ids c) req_id of
        None \<Rightarrow> c
      | Some s \<Rightarrow>
          let s' = removeAll input_id s
          in c\<lparr>ec_request_cached_ids :=
                 (if s' = [] then AList.delete req_id (ec_request_cached_ids c)
                  else AList.update req_id s' (ec_request_cached_ids c))\<rparr>)"

definition free_encoder_input ::
  "request \<Rightarrow> nat \<Rightarrow> encoder_cache_manager \<Rightarrow> encoder_cache_manager res" where
  "free_encoder_input r input_id c =
     rbind (mm_hash_of r input_id) (\<lambda>mm_hash.
     let c1 = drop_cached_id (rq_request_id r) input_id c in
     case map_of (ec_cached c1) mm_hash of
       None \<Rightarrow> Inr c1
     | Some users \<Rightarrow>
         if users = [] then Inr c1
         else
           let users' = removeAll (rq_request_id r) users;
               c2 = c1\<lparr>ec_cached := AList.update mm_hash users' (ec_cached c1)\<rparr>
           in if users' = []
              then rbind (get_num_encoder_embeds input_id r) (\<lambda>n.
                   Inr (c2\<lparr>ec_freeable := AList.update mm_hash n (ec_freeable c2),
                           ec_num_freeable_slots := ec_num_freeable_slots c2 + n\<rparr>))
              else Inr c2)"

definition encoder_free :: "request \<Rightarrow> encoder_cache_manager \<Rightarrow> encoder_cache_manager res" where
  "encoder_free r c = rfold (free_encoder_input r) (get_cached_input_ids r c) c"

definition get_freed_mm_hashes :: "encoder_cache_manager \<Rightarrow> string list \<times> encoder_cache_manager" where
  "get_freed_mm_hashes c = (ec_freed c, c\<lparr>ec_freed := []\<rparr>)"

section \<open>The budgets\<close>

record encoder_config =
  nc_disable_chunked_mm_input :: bool
  nc_max_num_batched_tokens :: int
  nc_max_num_encoder_input_tokens :: int
  nc_encoder_cache_size :: int

definition compute_mm_encoder_budget ::
  "encoder_config \<Rightarrow> (string, int) dict \<Rightarrow> (int \<times> int) res" where
  "compute_mm_encoder_budget config mm_max_toks_per_item =
     (if mm_max_toks_per_item = [] then Inr (0, 0)
      else
        let values = map snd mm_max_toks_per_item;
            max_tokens_per_mm_item = fold max (tl values) (hd values)
        in if nc_disable_chunked_mm_input config \<and>
              max_tokens_per_mm_item > nc_max_num_batched_tokens config
           then Inl ValueError
           else Inr (max (nc_max_num_encoder_input_tokens config) max_tokens_per_mm_item,
                     max (nc_encoder_cache_size config) max_tokens_per_mm_item))"

section \<open>The manager of encoder-decoder models\<close>

record encoder_decoder_cache_manager =
  ed_cache_size :: int
  ed_num_free_slots :: int
  ed_allocated :: "string list"
  ed_to_free :: "string list"

definition new_encoder_decoder_cache_manager :: "int \<Rightarrow> encoder_decoder_cache_manager" where
  "new_encoder_decoder_cache_manager cache_size =
     \<lparr>ed_cache_size = cache_size, ed_num_free_slots = cache_size, ed_allocated = [], ed_to_free = []\<rparr>"

definition ed_reset :: "encoder_decoder_cache_manager \<Rightarrow> encoder_decoder_cache_manager" where
  "ed_reset c = c\<lparr>ed_num_free_slots := ed_cache_size c, ed_allocated := [], ed_to_free := []\<rparr>"

definition ed_can_allocate ::
  "request \<Rightarrow> nat \<Rightarrow> int \<Rightarrow> int \<Rightarrow> encoder_decoder_cache_manager \<Rightarrow> bool res" where
  "ed_can_allocate r input_id encoder_compute_budget num_embeds_to_schedule c =
     rbind (get_num_encoder_embeds input_id r) (\<lambda>n.
     Inr (if n > encoder_compute_budget then False
          else n + num_embeds_to_schedule \<le> ed_num_free_slots c))"

definition ed_allocate ::
  "request \<Rightarrow> nat \<Rightarrow> encoder_decoder_cache_manager \<Rightarrow> encoder_decoder_cache_manager res" where
  "ed_allocate r input_id c =
     rbind (get_num_encoder_embeds input_id r) (\<lambda>n.
     rbind (mm_hash_of r input_id) (\<lambda>mm_hash.
     Inr (c\<lparr>ed_num_free_slots := ed_num_free_slots c - n, ed_allocated := ed_allocated c @ [mm_hash]\<rparr>)))"

definition ed_free_encoder_input ::
  "request \<Rightarrow> nat \<Rightarrow> encoder_decoder_cache_manager \<Rightarrow> encoder_decoder_cache_manager res" where
  "ed_free_encoder_input r input_id c =
     rbind (get_num_encoder_embeds input_id r) (\<lambda>n.
     Inr (c\<lparr>ed_num_free_slots := ed_num_free_slots c + n\<rparr>))"

definition ed_free ::
  "request \<Rightarrow> encoder_decoder_cache_manager \<Rightarrow> encoder_decoder_cache_manager res" where
  "ed_free r c = rfold (ed_free_encoder_input r) [0..<length (rq_mm_features r)] c"

definition ed_get_freed_mm_hashes ::
  "encoder_decoder_cache_manager \<Rightarrow> string list \<times> encoder_decoder_cache_manager" where
  "ed_get_freed_mm_hashes c =
     (ed_to_free c, c\<lparr>ed_to_free := ed_allocated c, ed_allocated := []\<rparr>)"

section \<open>Accounting\<close>

lemma list_insert_not_Nil [simp]: "List.insert x xs \<noteq> []"
  by (auto simp: List.insert_def)

text \<open>\<open>sized\<close> gives the number of embeddings of an item by its identifier.\<close>

definition space :: "(string \<Rightarrow> int) \<Rightarrow> (string, 'a) dict \<Rightarrow> int" where
  "space sized d = (\<Sum>h\<leftarrow>dkeys d. sized h)"

definition encoder_inv :: "(string \<Rightarrow> int) \<Rightarrow> encoder_cache_manager \<Rightarrow> bool" where
  "encoder_inv sized c \<longleftrightarrow>
     distinct (dkeys (ec_cached c)) \<and> distinct (dkeys (ec_freeable c)) \<and>
     ec_num_free_slots c = ec_cache_size c - space sized (ec_cached c) \<and>
     ec_num_freeable_slots c = ec_num_free_slots c + space sized (ec_freeable c) \<and>
     (\<forall>h v. map_of (ec_freeable c) h = Some v \<longleftrightarrow> map_of (ec_cached c) h = Some [] \<and> v = sized h) \<and>
     0 \<le> ec_num_free_slots c"

definition sized_request :: "(string \<Rightarrow> int) \<Rightarrow> request \<Rightarrow> bool" where
  "sized_request sized r \<longleftrightarrow> (\<forall>f \<in> set (rq_mm_features r). get_num_embeds f = sized (mf_identifier f))"

lemma space_Cons [simp]: "space sized ((h, v) # d) = sized h + space sized d"
  by (simp add: space_def)

lemma space_Nil [simp]: "space sized [] = 0"
  by (simp add: space_def)

lemma space_update:
  "space sized (AList.update h v d) = space sized d + (if h \<in> set (dkeys d) then 0 else sized h)"
proof (induction d)
  case (Cons kv d)
  then show ?case by (cases kv) auto
qed simp

lemma space_delete:
  "distinct (dkeys d) \<Longrightarrow>
     space sized (AList.delete h d) = space sized d - (if h \<in> set (dkeys d) then sized h else 0)"
proof (induction d)
  case (Cons kv d)
  then show ?case by (cases kv) auto
qed simp

lemma space_nonneg: "\<forall>h. 0 \<le> sized h \<Longrightarrow> 0 \<le> space sized d"
  by (induction d) (auto simp: space_def)

lemma encoder_invD:
  assumes "encoder_inv sized c"
  shows "distinct (dkeys (ec_cached c))" "distinct (dkeys (ec_freeable c))"
    "ec_num_free_slots c = ec_cache_size c - space sized (ec_cached c)"
    "ec_num_freeable_slots c = ec_num_free_slots c + space sized (ec_freeable c)"
    "\<And>h v. map_of (ec_freeable c) h = Some v \<longleftrightarrow> map_of (ec_cached c) h = Some [] \<and> v = sized h"
    "0 \<le> ec_num_free_slots c"
proof -
  note a = assms [unfolded encoder_inv_def]
  show "distinct (dkeys (ec_cached c))" by (rule conjunct1 [OF a])
  note a = conjunct2 [OF a]
  show "distinct (dkeys (ec_freeable c))" by (rule conjunct1 [OF a])
  note a = conjunct2 [OF a]
  show "ec_num_free_slots c = ec_cache_size c - space sized (ec_cached c)" by (rule conjunct1 [OF a])
  note a = conjunct2 [OF a]
  show "ec_num_freeable_slots c = ec_num_free_slots c + space sized (ec_freeable c)" by (rule conjunct1 [OF a])
  note a = conjunct2 [OF a]
  show "map_of (ec_freeable c) h = Some v \<longleftrightarrow> map_of (ec_cached c) h = Some [] \<and> v = sized h" for h v
    by (rule conjunct1 [OF a, rule_format])
  show "0 \<le> ec_num_free_slots c" by (rule conjunct2 [OF a])
qed

lemma sized_embeds:
  assumes "sized_request sized r" "mm_hash_of r i = Inr h"
  shows "get_num_encoder_embeds i r = Inr (sized h)"
proof -
  have "i < length (rq_mm_features r)" "mf_identifier (rq_mm_features r ! i) = h"
    using assms(2) by (auto simp: mm_hash_of_def list_index_def Let_def res_simps split: if_splits)
  then show ?thesis
    using assms(1) by (auto simp: get_num_encoder_embeds_def sized_request_def)
qed

lemma embeds_sized:
  assumes "sized_request sized r" "get_num_encoder_embeds i r = Inr n"
  shows "\<exists>h. mm_hash_of r i = Inr h \<and> n = sized h"
proof -
  have i: "i < length (rq_mm_features r)" using assms(2) by (auto simp: get_num_encoder_embeds_def res_simps)
  then have "mm_hash_of r i = Inr (mf_identifier (rq_mm_features r ! i))" by (simp add: mm_hash_of_def)
  with assms(2) sized_embeds [OF assms(1) this] show ?thesis by simp
qed

lemma new_encoder_inv: "0 \<le> n \<Longrightarrow> encoder_inv sized (new_encoder_cache_manager n)"
  by (simp add: encoder_inv_def new_encoder_cache_manager_def)

text \<open>A change of the per-request ids alone.\<close>

lemma encoder_inv_cong:
  assumes "encoder_inv sized c" "ec_cache_size c' = ec_cache_size c"
    "ec_num_free_slots c' = ec_num_free_slots c" "ec_num_freeable_slots c' = ec_num_freeable_slots c"
    "ec_cached c' = ec_cached c" "ec_freeable c' = ec_freeable c"
  shows "encoder_inv sized c'"
  using assms by (simp add: encoder_inv_def)

lemma drop_cached_id_inv: "encoder_inv sized c \<Longrightarrow> encoder_inv sized (drop_cached_id rid i c)"
  by (erule encoder_inv_cong) (simp_all add: drop_cached_id_def Let_def split: option.split)

lemma check_and_update_inv:
  assumes h: "encoder_inv sized c" and run: "check_and_update_cache r i c = Inr (b, c')"
  shows "encoder_inv sized c'"
proof -
  note inv = encoder_invD [OF h]
  obtain mh where mh: "mm_hash_of r i = Inr mh" using run by (auto simp: check_and_update_cache_def elim!: rbindE)
  show ?thesis
  proof (cases "map_of (ec_cached c) mh")
    case None
    then show ?thesis using run h by (simp add: check_and_update_cache_def mh)
  next
    case (Some users)
    have mem: "mh \<in> set (dkeys (ec_cached c))" using Some by (metis map_of_None_iff option.distinct(1))
    show ?thesis
    proof (cases "users = []")
      case True
      have f: "map_of (ec_freeable c) mh = Some (sized mh)" using inv(5) Some True by blast
      have fm: "mh \<in> set (dkeys (ec_freeable c))" using f by (metis map_of_None_iff option.distinct(1))
      have c': "c' = add_reference mh (rq_request_id r) [] i
          (c\<lparr>ec_freeable := AList.delete mh (ec_freeable c),
             ec_num_freeable_slots := ec_num_freeable_slots c - sized mh\<rparr>)"
        using run Some True f by (simp add: check_and_update_cache_def mh dict_index_def)
      show ?thesis
        unfolding encoder_inv_def c'
        using inv(1-4,6) inv(5) Some mem fm
        by (simp add: add_reference_def space_update space_delete)
    next
      case False
      have c': "c' = add_reference mh (rq_request_id r) users i c"
        using run Some False by (simp add: check_and_update_cache_def mh)
      show ?thesis
        unfolding encoder_inv_def c'
        using inv(1-4,6) inv(5) Some mem False
        by (auto simp: add_reference_def space_update)
    qed
  qed
qed

lemma evict_loop_ok:
  assumes "encoder_inv sized c" "\<forall>h. 0 \<le> sized h" "fr = ec_freeable c" "n \<le> ec_num_freeable_slots c"
  shows "\<exists>c'. evict_loop n fr c = Inr c' \<and> encoder_inv sized c' \<and> n \<le> ec_num_free_slots c' \<and>
     ec_num_freeable_slots c' = ec_num_freeable_slots c \<and> ec_cache_size c' = ec_cache_size c \<and>
     ec_num_free_slots c \<le> ec_num_free_slots c' \<and>
     (\<forall>h. h \<notin> set (dkeys (ec_cached c)) \<longrightarrow> h \<notin> set (dkeys (ec_cached c')))"
  using assms
proof (induction n fr c rule: evict_loop.induct)
  case (1 n c)
  have "n \<le> ec_num_free_slots c"
    using "1.prems"(4) encoder_invD(4) [OF "1.prems"(1)] "1.prems"(3) by simp
  then show ?case using "1.prems"(1) by simp
next
  case (2 n mh v rest c)
  note inv = encoder_invD [OF "2.prems"(1)]
  show ?case
  proof (cases "n > ec_num_free_slots c")
    case True
    have e: "map_of (ec_cached c) mh = Some []" "v = sized mh"
      using inv(5) [of mh v] "2.prems"(3) by (metis map_of_Cons_code(2))+
    have mem: "mh \<in> set (dkeys (ec_cached c))" using e by (metis map_of_None_iff option.distinct(1))
    have fresh: "mh \<notin> set (dkeys rest)" "distinct (dkeys rest)"
      using inv(2) "2.prems"(3) [symmetric] by auto
    let ?c = "c\<lparr>ec_freeable := rest, ec_cached := AList.delete mh (ec_cached c),
                ec_freed := ec_freed c @ [mh], ec_num_free_slots := ec_num_free_slots c + v\<rparr>"
    have "map_of rest h = Some w \<longleftrightarrow> h \<noteq> mh \<and> map_of (ec_cached c) h = Some [] \<and> w = sized h" for h w
    proof (cases "h = mh")
      case True
      then show ?thesis using fresh(1) by (metis map_of_None_iff option.distinct(1))
    next
      case False
      then show ?thesis using inv(5) [of h w] by (simp add: "2.prems"(3) [symmetric])
    qed
    then have i: "encoder_inv sized ?c"
      unfolding encoder_inv_def using inv(1-4,6) e(2) mem fresh "2.prems"(2,3)
      by (simp add: space_delete "2.prems"(3) [symmetric] del: map_of_eq_None_iff) 
    obtain c' where c': "evict_loop n rest ?c = Inr c'" "encoder_inv sized c'" "n \<le> ec_num_free_slots c'"
      "ec_num_freeable_slots c' = ec_num_freeable_slots c" "ec_cache_size c' = ec_cache_size c"
      "ec_num_free_slots c + v \<le> ec_num_free_slots c'"
      "\<forall>h. h \<notin> set (dkeys (AList.delete mh (ec_cached c))) \<longrightarrow> h \<notin> set (dkeys (ec_cached c'))"
      using "2.IH" [OF True _ i] "2.prems"(2,4) e(1) by (auto simp: dict_index_def)
    have "h \<notin> set (dkeys (AList.delete mh (ec_cached c)))" if "h \<notin> set (dkeys (ec_cached c))" for h
      using that by (simp add: delete_keys)
    then show ?thesis using c' e True "2.prems"(2) by (auto simp: dict_index_def)
  next
    case False
    then show ?thesis using "2.prems"(1) by simp
  qed
qed

lemma can_allocate_ok:
  assumes h: "encoder_inv sized c" and pos: "\<forall>h. 0 \<le> sized h" and r: "sized_request sized r"
    and i: "mm_hash_of r i = Inr mh"
  shows "\<exists>b c'. can_allocate r i budget k c = Inr (b, c') \<and> encoder_inv sized c' \<and>
    (b \<longleftrightarrow> sized mh \<le> budget \<and> sized mh + k \<le> ec_num_freeable_slots c) \<and>
    (b \<longrightarrow> sized mh + k \<le> ec_num_free_slots c') \<and>
    (\<forall>h. h \<notin> set (dkeys (ec_cached c)) \<longrightarrow> h \<notin> set (dkeys (ec_cached c')))"
proof -
  let ?n = "sized mh"
  note n = sized_embeds [OF r i]
  have le: "ec_num_free_slots c \<le> ec_num_freeable_slots c"
    using encoder_invD(4) [OF h] space_nonneg [OF pos, of "ec_freeable c"] by simp
  show ?thesis
  proof (cases "?n \<le> budget \<and> \<not> ?n + k \<le> ec_num_free_slots c \<and> ?n + k \<le> ec_num_freeable_slots c")
    case True
    then obtain c' where "evict_loop (?n + k) (ec_freeable c) c = Inr c'" "encoder_inv sized c'"
        "?n + k \<le> ec_num_free_slots c'"
        "\<forall>h. h \<notin> set (dkeys (ec_cached c)) \<longrightarrow> h \<notin> set (dkeys (ec_cached c'))"
      using evict_loop_ok [OF h pos refl, of "?n + k"] by blast
    then show ?thesis using True by (intro exI [of _ True] exI [of _ c']) (simp add: can_allocate_def n)
  next
    case False
    then show ?thesis using h le by (auto simp: can_allocate_def n)
  qed
qed

lemma encoder_allocate_ok:
  assumes h: "encoder_inv sized c" and r: "sized_request sized r" and i: "mm_hash_of r i = Inr mh"
    and new: "mh \<notin> set (dkeys (ec_cached c))" and pos: "\<forall>h. 0 \<le> sized h"
    and room: "sized mh \<le> ec_num_free_slots c"
  shows "\<exists>c'. encoder_allocate r i c = Inr c' \<and> encoder_inv sized c' \<and>
    ec_num_free_slots c' = ec_num_free_slots c - sized mh \<and>
    set (dkeys (ec_cached c')) = insert mh (set (dkeys (ec_cached c)))"
proof -
  note inv = encoder_invD [OF h]
  note n = sized_embeds [OF r i]
  have none: "map_of (ec_cached c) mh = None" using new by (simp add: map_of_None_iff)
  have le: "sized mh \<le> ec_num_freeable_slots c"
    using inv(4) room space_nonneg [OF pos, of "ec_freeable c"] by simp
  let ?c = "(add_reference mh (rq_request_id r) [] i c)\<lparr>ec_num_free_slots := ec_num_free_slots c - sized mh,
             ec_num_freeable_slots := ec_num_freeable_slots c - sized mh\<rparr>"
  have run: "encoder_allocate r i c = Inr ?c"
    using room le by (simp add: encoder_allocate_def i n none Let_def)
  have fr: "map_of (ec_freeable c) mh = None" using inv(5) [of mh] none by (cases "map_of (ec_freeable c) mh") auto
  have "encoder_inv sized ?c"
    unfolding encoder_inv_def using inv(1-4,6) inv(5) room new fr none
    by (simp add: add_reference_def space_update)
  then show ?thesis using run by (simp add: add_reference_def dom_update)
qed

lemma drop_cached_id_frame:
  "ec_cached (drop_cached_id rid i c) = ec_cached c \<and> ec_freeable (drop_cached_id rid i c) = ec_freeable c \<and>
   ec_num_freeable_slots (drop_cached_id rid i c) = ec_num_freeable_slots c"
  by (simp add: drop_cached_id_def Let_def split: option.split)

lemma free_encoder_input_inv:
  assumes h: "encoder_inv sized c" and r: "sized_request sized r" and run: "free_encoder_input r i c = Inr c'"
  shows "encoder_inv sized c'"
proof -
  obtain mh where mh: "mm_hash_of r i = Inr mh" using run by (auto simp: free_encoder_input_def elim!: rbindE)
  define c1 where "c1 = drop_cached_id (rq_request_id r) i c"
  have h1: "encoder_inv sized c1" unfolding c1_def by (rule drop_cached_id_inv [OF h])
  note inv = encoder_invD [OF h1]
  show ?thesis
  proof (cases "\<exists>u us. map_of (ec_cached c1) mh = Some (u # us)")
    case False
    then have "map_of (ec_cached c1) mh = None \<or> map_of (ec_cached c1) mh = Some []"
      by (metis list.exhaust option.exhaust)
    then show ?thesis using run h1 by (auto simp: free_encoder_input_def mh c1_def [symmetric])
  next
    case True
    then obtain u us where s: "map_of (ec_cached c1) mh = Some (u # us)" by blast
    define users where "users = removeAll (rq_request_id r) (u # us)"
    have mem: "mh \<in> set (dkeys (ec_cached c1))" using s by (metis map_of_None_iff option.distinct(1))
    have nf: "map_of (ec_freeable c1) mh = None" using inv(5) [of mh] s by (cases "map_of (ec_freeable c1) mh") auto
    then have nm: "mh \<notin> set (dkeys (ec_freeable c1))" by (simp add: map_of_None_iff)
    let ?c2 = "c1\<lparr>ec_cached := AList.update mh users (ec_cached c1)\<rparr>"
    show ?thesis
    proof (cases "users = []")
      case True
      have "c' = ?c2\<lparr>ec_freeable := AList.update mh (sized mh) (ec_freeable c1),
                     ec_num_freeable_slots := ec_num_freeable_slots c1 + sized mh\<rparr>"
        using run s True sized_embeds [OF r mh]
        by (simp add: free_encoder_input_def mh c1_def [symmetric] users_def [symmetric] Let_def del: removeAll.simps)
      then show ?thesis
        unfolding encoder_inv_def using inv(1-4,6) inv(5) mem nm True by (simp add: space_update eq_commute)
    next
      case False
      have "c' = ?c2"
        using run s False by (simp add: free_encoder_input_def mh c1_def [symmetric] users_def [symmetric] Let_def del: removeAll.simps)
      then show ?thesis
        unfolding encoder_inv_def using inv(1-4,6) inv(5) mem False nf s by (simp add: space_update)
    qed
  qed
qed

lemma encoder_free_inv:
  assumes "encoder_inv sized c" "sized_request sized r" "encoder_free r c = Inr c'"
  shows "encoder_inv sized c'"
  using assms(3) unfolding encoder_free_def
  by (rule rfold_inv [where P = "encoder_inv sized"]) (use assms(1,2) free_encoder_input_inv in blast)+

section \<open>Histories of a cache manager\<close>

text \<open>
  An entry is allocated when it is not cached, which \<open>_try_schedule_encoder_inputs\<close> has looked up;
  what a call of \<open>can_allocate\<close> was asked for may have been anything.
\<close>

inductive encoder_history :: "(string \<Rightarrow> int) \<Rightarrow> encoder_cache_manager \<Rightarrow> bool" for sized where
  created: "0 \<le> cache_size \<Longrightarrow> encoder_history sized (new_encoder_cache_manager cache_size)"
| reset: "encoder_history sized c \<Longrightarrow> 0 \<le> ec_cache_size c \<Longrightarrow> encoder_history sized (encoder_reset c)"
| looked_up: "encoder_history sized c \<Longrightarrow> check_and_update_cache r i c = Inr (b, c') \<Longrightarrow> encoder_history sized c'"
| tried: "encoder_history sized c \<Longrightarrow> sized_request sized r \<Longrightarrow>
     can_allocate r i budget k c = Inr (b, c') \<Longrightarrow> encoder_history sized c'"
| allocated: "encoder_history sized c \<Longrightarrow> sized_request sized r \<Longrightarrow> mm_hash_of r i = Inr mh \<Longrightarrow>
     mh \<notin> set (dkeys (ec_cached c)) \<Longrightarrow> encoder_allocate r i c = Inr c' \<Longrightarrow> encoder_history sized c'"
| input_freed: "encoder_history sized c \<Longrightarrow> sized_request sized r \<Longrightarrow> free_encoder_input r i c = Inr c' \<Longrightarrow>
     encoder_history sized c'"
| request_freed: "encoder_history sized c \<Longrightarrow> sized_request sized r \<Longrightarrow> encoder_free r c = Inr c' \<Longrightarrow>
     encoder_history sized c'"
| hashes_taken: "encoder_history sized c \<Longrightarrow> get_freed_mm_hashes c = (hs, c') \<Longrightarrow> encoder_history sized c'"

lemma encoder_history_inv:
  assumes "encoder_history sized c" "\<forall>h. 0 \<le> sized h" shows "encoder_inv sized c"
  using assms
proof (induction rule: encoder_history.induct)
  case (created n)
  then show ?case by (simp add: new_encoder_inv)
next
  case (reset c)
  then show ?case by (simp add: encoder_inv_def encoder_reset_def)
next
  case (looked_up c r i b c')
  then show ?case using check_and_update_inv by blast
next
  case (tried c r i budget k b c')
  have "get_num_encoder_embeds i r \<noteq> Inl e" for e
    using tried.hyps(3) by (auto simp: can_allocate_def)
  then obtain n where "get_num_encoder_embeds i r = Inr n" by (cases "get_num_encoder_embeds i r") auto
  then obtain mh where "mm_hash_of r i = Inr mh" using embeds_sized [OF tried.hyps(2)] by blast
  from can_allocate_ok [OF tried.IH tried.prems tried.hyps(2) this, of budget k]
  show ?case using tried.prems tried.hyps(3) by auto
next
  case (allocated c r i mh c')
  have "sized mh \<le> ec_num_free_slots c"
    using allocated.hyps(5) sized_embeds [OF allocated.hyps(2,3)]
    by (auto simp: encoder_allocate_def Let_def check_eq_Inr allocated.hyps(3) elim!: rbindE)
  from encoder_allocate_ok [OF allocated.IH allocated.hyps(2-4) allocated.prems this]
  show ?case using allocated.hyps(5) allocated.prems by auto
next
  case (input_freed c r i c')
  then show ?case using free_encoder_input_inv by blast
next
  case (request_freed c r c')
  then show ?case using encoder_free_inv by blast
next
  case (hashes_taken c hs c')
  then show ?case by (auto simp: get_freed_mm_hashes_def intro: encoder_inv_cong)
qed

lemma allocate_list:
  assumes "encoder_inv sized c" "\<forall>h. 0 \<le> sized h" "sized_request sized r"
    and "rmap (mm_hash_of r) js = Inr hs" and "distinct hs" "set hs \<inter> set (dkeys (ec_cached c)) = {}"
    and "sum_list (map sized hs) \<le> ec_num_free_slots c"
  shows "\<exists>c'. rfold (encoder_allocate r) js c = Inr c' \<and>
    ec_num_free_slots c' = ec_num_free_slots c - sum_list (map sized hs)"
  using assms
proof (induction js arbitrary: hs c)
  case (Cons j js)
  obtain h hs' where h: "mm_hash_of r j = Inr h" "rmap (mm_hash_of r) js = Inr hs'" "hs = h # hs'"
    using Cons.prems(4) by (auto elim!: rbindE)
  have nn: "0 \<le> sum_list (map sized hs')" using Cons.prems(2) by (induction hs') auto
  obtain c1 where c1: "encoder_allocate r j c = Inr c1" "encoder_inv sized c1"
    "ec_num_free_slots c1 = ec_num_free_slots c - sized h"
    "set (dkeys (ec_cached c1)) = insert h (set (dkeys (ec_cached c)))"
    using encoder_allocate_ok [OF Cons.prems(1,3) h(1)] Cons.prems(2,6,7) h(3) nn by auto
  from Cons.IH [OF c1(2) Cons.prems(2,3) h(2)] c1(3,4) Cons.prems(5-7) h(3)
  show ?case by (auto simp: c1(1))
qed simp

section \<open>Admission is enough\<close>

text \<open>Claim C35.  Whatever requests came before, \<open>can_allocate\<close> for one more input never raises, answers
  yes exactly when the input is within the compute budget and the inputs chosen so far plus this one
  fit what is free or reclaimable, and after a yes every one of those inputs can be allocated: the two
  assertions of \<open>allocate\<close> hold, so the free space never becomes negative.\<close>

theorem encoder_admission_is_enough:
  assumes "encoder_history sized c" "\<forall>h. 0 \<le> sized h" "sized_request sized r"
    and "rmap (mm_hash_of r) (js @ [i]) = Inr (hs @ [mh])" "distinct (hs @ [mh])"
    and "set (hs @ [mh]) \<inter> set (dkeys (ec_cached c)) = {}"
  shows "\<exists>b c1. can_allocate r i budget (sum_list (map sized hs)) c = Inr (b, c1) \<and>
    (b \<longleftrightarrow> sized mh \<le> budget \<and> sized mh + sum_list (map sized hs) \<le> ec_num_freeable_slots c) \<and>
    (b \<longrightarrow> (\<exists>c2. rfold (encoder_allocate r) (js @ [i]) c1 = Inr c2 \<and> 0 \<le> ec_num_free_slots c2))"
proof -
  have i: "mm_hash_of r i = Inr mh" using assms(4) by (auto simp: rmap_Inr_iff list_all2_append2 dest: list_all2_lengthD)
  obtain b c1 where c1: "can_allocate r i budget (sum_list (map sized hs)) c = Inr (b, c1)" "encoder_inv sized c1"
      "b \<longleftrightarrow> sized mh \<le> budget \<and> sized mh + sum_list (map sized hs) \<le> ec_num_freeable_slots c"
      "b \<longrightarrow> sized mh + sum_list (map sized hs) \<le> ec_num_free_slots c1"
      "\<forall>h. h \<notin> set (dkeys (ec_cached c)) \<longrightarrow> h \<notin> set (dkeys (ec_cached c1))"
    using can_allocate_ok [OF encoder_history_inv [OF assms(1,2)] assms(2,3) i] by blast
  have "\<exists>c2. rfold (encoder_allocate r) (js @ [i]) c1 = Inr c2 \<and> 0 \<le> ec_num_free_slots c2" if "b"
  proof -
    have "set (hs @ [mh]) \<inter> set (dkeys (ec_cached c1)) = {}" using assms(6) c1(5) by blast
    with allocate_list [OF c1(2) assms(2,3,4,5) this] c1(4) \<open>b\<close> show ?thesis
      by (elim impE exE) (auto simp: add.commute)
  qed
  then show ?thesis using c1(1,3) by blast
qed

definition demo_picture :: "string \<Rightarrow> int \<Rightarrow> mm_feature" where
  "demo_picture name n = \<lparr>mf_identifier = name, mf_offset = 0, mf_length = n, mf_is_embed = None\<rparr>"

definition demo_viewer :: "string \<Rightarrow> mm_feature list \<Rightarrow> request" where
  "demo_viewer name pictures =
     \<lparr>rq_request_id = name, rq_priority = 0, rq_arrival_time = 0, rq_last_activity_time = 0,
      rq_kv_cache_state = HOT, rq_status = WAITING, rq_prompt_token_ids = None, rq_prompt_embeds = None,
      rq_prompt_embeds_per_block_hashes = [], rq_num_prompt_tokens = 0, rq_output_token_ids = [],
      rq_all_token_ids = [], rq_num_output_placeholders = 0, rq_num_computed_tokens = 0,
      rq_spec_token_ids = [], rq_cache_salt = None, rq_lora_name = None, rq_mm_features = pictures,
      rq_num_preemptions = 0, rq_block_hashes = [], rq_skip_reading_prefix_cache = False, rq_resumable = False\<rparr>"

text \<open>A cache of six, of which a picture of four is held and one of two is reclaimable.\<close>

definition demo_encoder_cache :: encoder_cache_manager where
  "demo_encoder_cache =
     (let r = demo_viewer ''a'' [demo_picture ''cat'' 4, demo_picture ''dog'' 2] in
      projr (rbind (encoder_allocate r 0 (new_encoder_cache_manager 6)) (\<lambda>c.
      rbind (encoder_allocate r 1 c) (free_encoder_input r 1))))"

lemma demo_encoder_history:
  "encoder_history (\<lambda>h. if h = ''cat'' then 4 else 2) demo_encoder_cache"
proof -
  let ?s = "\<lambda>h. if h = ''cat'' then 4 else (2 :: int)"
  let ?r = "demo_viewer ''a'' [demo_picture ''cat'' 4, demo_picture ''dog'' 2]"
  have r: "sized_request ?s ?r" by code_simp
  define c0 c1 c2 where "c0 = new_encoder_cache_manager 6" and "c1 = projr (encoder_allocate ?r 0 c0)"
    and "c2 = projr (encoder_allocate ?r 1 c1)"
  have "encoder_history ?s c0" unfolding c0_def by (rule encoder_history.created) simp
  moreover have "encoder_allocate ?r 0 c0 = Inr c1" "mm_hash_of ?r 0 = Inr ''cat''" "''cat'' \<notin> set (dkeys (ec_cached c0))"
    unfolding c1_def c0_def by code_simp+
  ultimately have h1: "encoder_history ?s c1" using encoder_history.allocated r by blast
  have s2: "encoder_allocate ?r 1 c1 = Inr c2" "mm_hash_of ?r 1 = Inr ''dog''" "''dog'' \<notin> set (dkeys (ec_cached c1))"
    unfolding c2_def c1_def c0_def by code_simp+
  have h2: "encoder_history ?s c2" by (rule encoder_history.allocated [OF h1 r s2(2,3,1)])
  have "free_encoder_input ?r 1 c2 = Inr demo_encoder_cache"
    unfolding c2_def c1_def c0_def demo_encoder_cache_def by code_simp
  from encoder_history.input_freed [OF h2 r this] show ?thesis .
qed

theorem encoder_admission_is_enough_witness:
  "\<exists>b c1. can_allocate (demo_viewer ''b'' [demo_picture ''cow'' 2]) 0 10 0 demo_encoder_cache = Inr (b, c1) \<and>
    b \<and> (\<exists>c2. rfold (encoder_allocate (demo_viewer ''b'' [demo_picture ''cow'' 2])) [0] c1 = Inr c2)"
proof -
  let ?s = "\<lambda>h. if h = ''cat'' then 4 else (2 :: int)"
  let ?r = "demo_viewer ''b'' [demo_picture ''cow'' 2]"
  have "sized_request ?s ?r" "rmap (mm_hash_of ?r) ([] @ [0]) = Inr ([] @ [''cow''])" "distinct ([] @ [''cow''])"
    "set ([] @ [''cow'']) \<inter> set (dkeys (ec_cached demo_encoder_cache)) = {}" "ec_num_freeable_slots demo_encoder_cache = 2"
    by code_simp+
  moreover have "\<forall>h. 0 \<le> ?s h" by simp
  ultimately have "\<exists>b c1. can_allocate ?r 0 10 (sum_list (map ?s [])) demo_encoder_cache = Inr (b, c1) \<and>
      (b \<longleftrightarrow> ?s ''cow'' \<le> 10 \<and> ?s ''cow'' + sum_list (map ?s []) \<le> 2) \<and>
      (b \<longrightarrow> (\<exists>c2. rfold (encoder_allocate ?r) ([] @ [0]) c1 = Inr c2 \<and> 0 \<le> ec_num_free_slots c2))"
    using encoder_admission_is_enough [OF demo_encoder_history, of ?r "[]" 0 "[]" "''cow''" 10] by simp
  then show ?thesis by (elim exE) (intro exI, auto)
qed

end
