(* ===== verification/Scheduler.thy ===== *)
theory Scheduler
  imports KVManager EncoderCache "HOL-Library.Char_ord" "HOL-Library.List_Lexorder" "HOL-Library.Product_Lexorder"
begin

text \<open>
  The state of \<open>Scheduler\<close> of \<^verbatim>\<open>vllm/v1/core/sched/scheduler.py\<close>, the life cycle of a request and
  of a streaming session, and the control of the HOT and WARM tiers: which idle sessions are demoted,
  how a command is planned, and how the replies of the worker are applied.

  The model is the scheduler without a KV connector and without an encoder connector, for models that
  are not encoder-decoders, with the FCFS policy and without LoRA adapters or routed experts.  The queues
  hold the ids of requests, which are the keys of \<open>self.requests\<close>; a set is a list without repetition.
  \<open>update_block_hashes\<close> may not return (for a hash block size of 0), so what calls it is a \<open>run\<close>.
\<close>

section \<open>Calls that may raise or not return\<close>

type_synonym 'a run = "'a res option"

definition xbind :: "'a run \<Rightarrow> ('a \<Rightarrow> 'b run) \<Rightarrow> 'b run" where
  "xbind m f = (case m of None \<Rightarrow> None | Some (Inl e) \<Rightarrow> Some (Inl e) | Some (Inr x) \<Rightarrow> f x)"

fun xfold :: "('a \<Rightarrow> 's \<Rightarrow> 's run) \<Rightarrow> 'a list \<Rightarrow> 's \<Rightarrow> 's run" where
  "xfold f [] s = Some (Inr s)"
| "xfold f (x # xs) s = xbind (f x s) (xfold f xs)"

lemma xbind_cong [fundef_cong]:
  "m = m' \<Longrightarrow> (\<And>x. m' = Some (Inr x) \<Longrightarrow> f x = f' x) \<Longrightarrow> xbind m f = xbind m' f'"
  by (cases m') (auto simp: xbind_def split: sum.split)

lemma xbind_simps [simp]:
  "xbind (Some (Inr x)) f = f x" "xbind (Some (Inl e)) f = Some (Inl e)" "xbind None f = None"
  by (simp_all add: xbind_def)

lemma xbindE:
  assumes "xbind m f = Some (Inr y)" obtains x where "m = Some (Inr x)" "f x = Some (Inr y)"
  using assms by (auto simp: xbind_def split: option.splits sum.splits)

lemma xbind_eq_Inl [res_simps]:
  "xbind m f = Some (Inl e) \<longleftrightarrow> m = Some (Inl e) \<or> (\<exists>x. m = Some (Inr x) \<and> f x = Some (Inl e))"
  by (auto simp: xbind_def split: option.splits sum.splits)

lemma xbind_eq_Inr [res_simps]:
  "xbind m f = Some (Inr y) \<longleftrightarrow> (\<exists>x. m = Some (Inr x) \<and> f x = Some (Inr y))"
  by (auto simp: xbind_def split: option.splits sum.splits)

section \<open>The state\<close>

datatype pause_state = UNPAUSED | PAUSED_NEW | PAUSED_ALL

record sched_config =
  sf_hot_idle_threshold :: "rat option"
  sf_cold_idle_threshold :: "rat option"
  sf_demotion_start_utilization :: "rat option"
  sf_demotion_stop_utilization :: "rat option"
  sf_env :: hash_env
  sf_hash_block_size :: "nat option"
  sf_max_model_len :: int
  sf_max_num_running_reqs :: nat
  sf_max_num_scheduled_tokens :: int
  sf_max_num_encoder_input_tokens :: int
  sf_num_lookahead_tokens :: int
  sf_num_spec_tokens :: int
  sf_num_sampled_tokens_per_step :: int
  sf_long_prefill_token_threshold :: int
  sf_enable_chunked_prefill :: bool
  sf_disable_chunked_mm_input :: bool
  sf_use_eagle :: bool
  sf_has_mamba_layers :: bool
  sf_need_mamba_block_aligned_split :: bool
  sf_cache_block_size :: int
  sf_reserve_full_isl :: bool
  sf_needs_kv_cache_zeroing :: bool

text \<open>The hasher of a request, absent when prefix caching is off.\<close>

definition block_hasher :: "sched_config \<Rightarrow> (hash_env \<times> nat) option" where
  "block_hasher config = map_option (Pair (sf_env config)) (sf_hash_block_size config)"

record scheduler =
  sd_config :: sched_config
  sd_next_kv_transition_id :: nat
  sd_pending_kv_transitions :: "(string, kv_transition) dict"
  sd_pending_finish_requests :: "(string, request_status) dict"
  sd_capacity_failure_count :: nat
  sd_capacity_cooldown_steps_remaining :: nat
  sd_capacity_probe_required :: bool
  sd_capacity_probe_transition_id :: "nat option"
  sd_kv_cache_manager :: kv_cache_manager
  sd_encoder_cache_manager :: encoder_cache_manager
  sd_requests :: "(string, sched_request) dict"
  sd_waiting :: "string list"
  sd_skipped_waiting :: "string list"
  sd_running :: "string list"
  sd_finished_req_ids :: "string list"
  sd_finished_req_ids_dict :: "(int, string list) dict option"
  sd_num_waiting_for_streaming_input :: int
  sd_inflight_prefills :: "string list"
  sd_pause_state :: pause_state
  sd_current_step :: int
  sd_prefill_capacity_bound :: bool
  sd_defer_block_free :: bool
  sd_sched_step_seq :: int
  sd_processed_step_seq :: int
  sd_deferred_frees :: "(int \<times> block_ref list) list"

abbreviation kv_pool :: "scheduler \<Rightarrow> block_pool" where
  "kv_pool s \<equiv> km_pool (sd_kv_cache_manager s)"

abbreviation is_pending :: "scheduler \<Rightarrow> string \<Rightarrow> bool" where
  "is_pending s rid \<equiv> rid \<in> set (dkeys (sd_pending_kv_transitions s))"

definition put_request :: "sched_request \<Rightarrow> scheduler \<Rightarrow> scheduler" where
  "put_request q s = s\<lparr>sd_requests := AList.update (sr_id q) q (sd_requests s)\<rparr>"

definition new_scheduler :: "sched_config \<Rightarrow> kv_cache_manager \<Rightarrow> int \<Rightarrow> bool \<Rightarrow> scheduler" where
  "new_scheduler config km encoder_cache_size include_finished_set =
     \<lparr>sd_config = config, sd_next_kv_transition_id = 0, sd_pending_kv_transitions = [],
      sd_pending_finish_requests = [], sd_capacity_failure_count = 0,
      sd_capacity_cooldown_steps_remaining = 0, sd_capacity_probe_required = False,
      sd_capacity_probe_transition_id = None, sd_kv_cache_manager = km,
      sd_encoder_cache_manager = new_encoder_cache_manager encoder_cache_size,
      sd_requests = [], sd_waiting = [], sd_skipped_waiting = [], sd_running = [],
      sd_finished_req_ids = [],
      sd_finished_req_ids_dict = (if include_finished_set then Some [] else None),
      sd_num_waiting_for_streaming_input = 0, sd_inflight_prefills = [], sd_pause_state = UNPAUSED,
      sd_current_step = 0, sd_prefill_capacity_bound = False, sd_defer_block_free = False,
      sd_sched_step_seq = 0, sd_processed_step_seq = 0, sd_deferred_frees = []\<rparr>"

section \<open>Queues\<close>

definition is_blocked_waiting_status :: "request_status \<Rightarrow> bool" where
  "is_blocked_waiting_status st \<longleftrightarrow>
     st \<in> {WAITING_FOR_STRUCTURED_OUTPUT_GRAMMAR, WAITING_FOR_REMOTE_KVS, WAITING_FOR_STREAMING_REQ}"

definition enqueue_waiting_request :: "sched_request \<Rightarrow> scheduler \<Rightarrow> scheduler" where
  "enqueue_waiting_request q s =
     (if is_blocked_waiting_status (sr_status q)
      then s\<lparr>sd_skipped_waiting := sd_skipped_waiting s @ [sr_id q]\<rparr>
      else s\<lparr>sd_waiting := sd_waiting s @ [sr_id q]\<rparr>)"

definition remove_all :: "'a list \<Rightarrow> 'a list \<Rightarrow> 'a list" where
  "remove_all lst items_to_remove =
     (if items_to_remove = [] then lst
      else if length items_to_remove = 1 then remove1 (hd items_to_remove) lst
      else filter (\<lambda>x. x \<notin> set items_to_remove) lst)"

definition remove_requests :: "string list \<Rightarrow> string list \<Rightarrow> string list" where
  "remove_requests requests q = filter (\<lambda>x. x \<notin> set requests) q"

definition get_request_counts :: "scheduler \<Rightarrow> nat \<times> nat" where
  "get_request_counts s =
     (length (sd_running s), length (sd_waiting s) + length (sd_skipped_waiting s))"

definition get_num_unfinished_requests :: "scheduler \<Rightarrow> int" where
  "get_num_unfinished_requests s =
     (if sd_pause_state s = PAUSED_ALL then 0
      else if sd_pause_state s = PAUSED_NEW then int (length (sd_running s))
      else int (length (sd_waiting s)) + int (length (sd_skipped_waiting s))
             - sd_num_waiting_for_streaming_input s + int (length (sd_running s)))"

section \<open>Release of a request\<close>

definition free_request_blocks :: "sched_request \<Rightarrow> scheduler \<Rightarrow> scheduler res" where
  "free_request_blocks q s =
     (if \<not> sd_defer_block_free s \<or> sr_last_sched_seq q \<le> sd_processed_step_seq s
      then rbind (kv_manager_free (sr_core q) (sd_kv_cache_manager s)) (\<lambda>km.
           Inr (s\<lparr>sd_kv_cache_manager := km\<rparr>))
      else
        let (blocks, km) = kv_manager_pop_blocks_for_free (sr_core q) (sd_kv_cache_manager s);
            s1 = s\<lparr>sd_kv_cache_manager := km\<rparr>
        in Inr (if blocks \<noteq> []
                then s1\<lparr>sd_deferred_frees := sd_deferred_frees s1 @ [(sd_sched_step_seq s, blocks)]\<rparr>
                else s1))"

definition free_blocks_of :: "sched_request \<Rightarrow> scheduler \<Rightarrow> scheduler res" where
  "free_blocks_of q s =
     rbind (check (rq_is_finished (sr_core q)) AssertionError) (\<lambda>_.
     rbind (free_request_blocks q s) (\<lambda>s1.
     rbind (dict_index (sd_requests s1) (sr_id q)) (\<lambda>_.
     Inr (s1\<lparr>sd_requests := AList.delete (sr_id q) (sd_requests s1)\<rparr>))))"

definition note_finished :: "sched_request \<Rightarrow> scheduler \<Rightarrow> scheduler" where
  "note_finished q s =
     s\<lparr>sd_finished_req_ids := List.insert (sr_id q) (sd_finished_req_ids s),
       sd_finished_req_ids_dict :=
         map_option (\<lambda>d. AList.update (sr_client_index q)
             (List.insert (sr_id q) (case map_of d (sr_client_index q) of None \<Rightarrow> [] | Some x \<Rightarrow> x)) d)
           (sd_finished_req_ids_dict s)\<rparr>"

definition free_request :: "sched_request \<Rightarrow> bool \<Rightarrow> scheduler \<Rightarrow> scheduler res" where
  "free_request q delay_free_blocks s =
     rbind (check (rq_is_finished (sr_core q)) AssertionError) (\<lambda>_.
     if is_pending s (sr_id q) then Inl RuntimeError
     else
       rbind (encoder_free (sr_core q) (sd_encoder_cache_manager s)) (\<lambda>c.
       let s1 = note_finished q
                  (s\<lparr>sd_inflight_prefills := removeAll (sr_id q) (sd_inflight_prefills s),
                     sd_encoder_cache_manager := c\<rparr>)
       in if \<not> delay_free_blocks then free_blocks_of q s1 else Inr s1))"

definition preempt_request :: "sched_request \<Rightarrow> scheduler \<Rightarrow> scheduler res" where
  "preempt_request q s =
     rbind (check (sr_status q = RUNNING) AssertionError) (\<lambda>_.
     if is_pending s (sr_id q) then Inl RuntimeError
     else
       rbind (free_request_blocks q s) (\<lambda>s1.
       rbind (encoder_free (sr_core q) (sd_encoder_cache_manager s1)) (\<lambda>c.
       let q1 = on_core (\<lambda>r. r\<lparr>rq_status := PREEMPTED, rq_num_computed_tokens := 0,
                               rq_spec_token_ids := [],
                               rq_num_preemptions := rq_num_preemptions r + 1\<rparr>) q
       in Inr (put_request q1
            (s1\<lparr>sd_encoder_cache_manager := c,
                sd_inflight_prefills := removeAll (sr_id q) (sd_inflight_prefills s1),
                sd_waiting := sr_id q # sd_waiting s1\<rparr>)))))"

section \<open>Finish signals\<close>

text \<open>The first pass: the requests to remove from the running list and from the waiting queues, and the
  valid requests; a request whose transition is pending is only marked.\<close>

definition collect_finish ::
  "request_status \<Rightarrow> string \<Rightarrow> string list \<times> string list \<times> string list \<times> scheduler
     \<Rightarrow> string list \<times> string list \<times> string list \<times> scheduler" where
  "collect_finish finished_status req_id st =
     (let (running_to_remove, waiting_to_remove, valid_requests, s) = st in
      case map_of (sd_requests s) req_id of
        None \<Rightarrow> st
      | Some q \<Rightarrow>
          if rq_is_finished (sr_core q) then st
          else if is_pending s req_id
          then (running_to_remove, waiting_to_remove, valid_requests @ [req_id],
                s\<lparr>sd_pending_finish_requests :=
                    AList.update req_id finished_status (sd_pending_finish_requests s)\<rparr>)
          else if sr_status q = RUNNING
          then (List.insert req_id running_to_remove, waiting_to_remove, valid_requests @ [req_id], s)
          else (running_to_remove, waiting_to_remove @ [req_id], valid_requests @ [req_id],
                (if sr_status q = WAITING_FOR_STREAMING_REQ
                 then s\<lparr>sd_num_waiting_for_streaming_input := sd_num_waiting_for_streaming_input s - 1\<rparr>
                 else s)))"

text \<open>The second pass on one request.  Without a connector no request has received remote blocks.\<close>

definition finish_one :: "request_status \<Rightarrow> string \<Rightarrow> scheduler \<Rightarrow> scheduler res" where
  "finish_one finished_status req_id s =
     (if req_id \<in> set (dkeys (sd_pending_finish_requests s)) then Inr s
      else
        rbind (dict_index (sd_requests s) req_id) (\<lambda>q.
        let delay_free_blocks = (sr_status q = WAITING_FOR_REMOTE_KVS);
            q1 = set_status finished_status q
        in free_request q1 delay_free_blocks (put_request q1 s)))"

definition finish_requests ::
  "string list option \<Rightarrow> request_status \<Rightarrow> scheduler \<Rightarrow> ((string \<times> int) list \<times> scheduler) res" where
  "finish_requests request_ids finished_status s =
     rbind (check (status_is_finished finished_status) AssertionError) (\<lambda>_.
     let targets = (case request_ids of Some rids \<Rightarrow> uniq rids | None \<Rightarrow> dkeys (sd_requests s));
         (running_to_remove, waiting_to_remove, valid_requests, s1) =
           fold (collect_finish finished_status) targets ([], [], [], s);
         s2 = s1\<lparr>sd_running := remove_all (sd_running s1) running_to_remove,
                 sd_waiting := remove_requests waiting_to_remove (sd_waiting s1),
                 sd_skipped_waiting := remove_requests waiting_to_remove (sd_skipped_waiting s1)\<rparr>
     in
     rbind (rmap (\<lambda>rid. rbind (dict_index (sd_requests s2) rid) (\<lambda>q. Inr (rid, sr_client_index q)))
              valid_requests) (\<lambda>reported.
     rbind (rfold (finish_one finished_status) valid_requests s2) (\<lambda>s3.
     Inr (reported, s3))))"

section \<open>Streaming sessions\<close>

text \<open>The part of \<open>_update_request_as_session\<close> on the request alone.\<close>

definition resume_session ::
  "(hash_env \<times> nat) option \<Rightarrow> streaming_update \<Rightarrow> sched_request \<Rightarrow> sched_request run" where
  "resume_session hasher u q =
     (let r = sr_core q;
          num_computed_tokens = rq_num_computed_tokens r;
          num_prompt_tokens = int (rq_num_prompt_tokens r);
          kept_output_tokens = py_slice num_prompt_tokens num_computed_tokens (rq_all_token_ids r);
          truncate_at = max num_computed_tokens num_prompt_tokens;
          kept = take (nat truncate_at) (rq_all_token_ids r)
      in case rq_prompt_token_ids r of
        None \<Rightarrow> Some (Inl AssertionError)
      | Some prompt \<Rightarrow>
          let base = int (length kept);
              new_tokens = (case su_prompt_token_ids u of None \<Rightarrow> [] | Some t \<Rightarrow> t);
              new_features = map (\<lambda>f. f\<lparr>mf_offset := mf_offset f + base\<rparr>) (su_mm_features u);
              prompt' = prompt @ kept_output_tokens @ new_tokens;
              r1 = r\<lparr>rq_output_token_ids := [], rq_prompt_token_ids := Some prompt',
                     rq_mm_features := rq_mm_features r @ new_features,
                     rq_all_token_ids := kept @ new_tokens\<rparr>
          in xbind (case hasher of
                      None \<Rightarrow> Some (Inr r1)
                    | Some (env, hash_block_size) \<Rightarrow> update_block_hashes env hash_block_size r1) (\<lambda>r2.
             if length (rq_all_token_ids r2) < length prompt' then Some (Inl AssertionError)
             else Some (Inr (q\<lparr>sr_core := mark_activity (su_arrival_time u)
                    (r2\<lparr>rq_num_prompt_tokens := length prompt', rq_arrival_time := su_arrival_time u,
                        rq_kv_cache_state := HOT, rq_status := WAITING\<rparr>),
                  sr_sampling_params := su_sampling_params u, sr_max_tokens := su_max_tokens u\<rparr>))))"

definition update_request_as_session ::
  "string \<Rightarrow> streaming_update \<Rightarrow> scheduler \<Rightarrow> scheduler run" where
  "update_request_as_session req_id u s =
     (if is_pending s req_id then Some (Inl RuntimeError)
      else xbind (Some (dict_index (sd_requests s) req_id)) (\<lambda>q.
           xbind (resume_session (block_hasher (sd_config s)) u q) (\<lambda>q1.
           Some (Inr (put_request q1
             (if sr_status q = WAITING_FOR_STREAMING_REQ
              then s\<lparr>sd_num_waiting_for_streaming_input := sd_num_waiting_for_streaming_input s - 1\<rparr>
              else s))))))"

definition add_request :: "sched_request \<Rightarrow> scheduler \<Rightarrow> scheduler run" where
  "add_request q s =
     (case map_of (sd_requests s) (sr_id q) of
        Some existing \<Rightarrow>
          let u = streaming_update_from_request q in
          if sr_status existing \<noteq> WAITING_FOR_STREAMING_REQ \<or> is_pending s (sr_id q)
          then (case sr_streaming_queue existing of
                  None \<Rightarrow> Some (Inl AssertionError)
                | Some updates \<Rightarrow>
                    Some (Inr (put_request (existing\<lparr>sr_streaming_queue := Some (updates @ [u])\<rparr>) s)))
          else (case u of
                  Some u' \<Rightarrow> update_request_as_session (sr_id q) u' s
                | None \<Rightarrow>
                    Some (rbind (finish_requests (Some [sr_id q]) FINISHED_ABORTED s) (\<lambda>(_, s1). Inr s1)))
      | None \<Rightarrow>
          let q1 = (if rq_resumable (sr_core q) then q\<lparr>sr_streaming_queue := Some []\<rparr> else q)
          in Some (Inr (put_request q1 (enqueue_waiting_request q1 s))))"

text \<open>The flag says whether the request is finished.\<close>

definition handle_stopped_request :: "string \<Rightarrow> scheduler \<Rightarrow> (bool \<times> scheduler) run" where
  "handle_stopped_request req_id s =
     xbind (Some (dict_index (sd_requests s) req_id)) (\<lambda>q.
     if \<not> rq_resumable (sr_core q) then Some (Inr (True, s))
     else
       let requeue = (\<lambda>s1. xbind (Some (dict_index (sd_requests s1) req_id)) (\<lambda>q1.
                        Some (Inr (False, enqueue_waiting_request q1 s1))))
       in case sr_streaming_queue q of
            Some (None # updates) \<Rightarrow>
              Some (Inr (True, put_request (q\<lparr>sr_streaming_queue := Some updates\<rparr>) s))
          | Some (Some u # updates) \<Rightarrow>
              xbind (update_request_as_session req_id u
                       (put_request (q\<lparr>sr_streaming_queue := Some updates\<rparr>) s)) requeue
          | _ \<Rightarrow>
              requeue ((put_request (set_status WAITING_FOR_STREAMING_REQ q) s)
                \<lparr>sd_num_waiting_for_streaming_input := sd_num_waiting_for_streaming_input s + 1\<rparr>))"

section \<open>Planning changes of tier\<close>

definition num_changed :: "kv_transition \<Rightarrow> int" where
  "num_changed t = (\<Sum>group\<leftarrow>tn_changed_blocks t. int (length group))"

definition plan_kv_state_transition ::
  "sched_request \<Rightarrow> kv_block_state \<Rightarrow> scheduler \<Rightarrow> (kv_transition option \<times> scheduler) res" where
  "plan_kv_state_transition q new_state s =
     rbind (plan_request_kv_state (sr_id q) new_state (Some (rq_num_computed_tokens (sr_core q)))
              (sd_kv_cache_manager s)) (\<lambda>changed_blocks.
     if \<not> list_ex (\<lambda>group. group \<noteq> []) changed_blocks then Inr (None, s)
     else
       let t = \<lparr>tn_transition_id = sd_next_kv_transition_id s, tn_request_id = sr_id q,
                tn_previous_state = rq_kv_cache_state (sr_core q), tn_new_state = new_state,
                tn_changed_blocks = changed_blocks\<rparr>
       in Inr (Some t,
               s\<lparr>sd_next_kv_transition_id := sd_next_kv_transition_id s + 1,
                 sd_pending_kv_transitions :=
                   AList.update (sr_id q) t (sd_pending_kv_transitions s)\<rparr>))"

text \<open>The state an idle session should get, if it should get another one; COLD is not implemented on
  the worker and becomes WARM.\<close>

definition idle_target ::
  "rat \<Rightarrow> rat \<Rightarrow> rat \<Rightarrow> sched_request \<Rightarrow> kv_block_state option res" where
  "idle_target hot_threshold cold_threshold current_time q =
     (let previous_state = rq_kv_cache_state (sr_core q) in
      rbind (classify_request_kv_state (get_idle_time current_time (sr_core q)) hot_threshold cold_threshold)
        (\<lambda>new_state.
      if new_state = COLD \<and> previous_state = WARM then Inr None
      else
        let target = (if new_state = COLD then WARM else new_state)
        in Inr (if kv_state_coldness target \<le> kv_state_coldness previous_state then None
                else Some target)))"

definition classify_one ::
  "rat \<Rightarrow> rat \<Rightarrow> rat \<Rightarrow> sched_request \<Rightarrow> kv_transition list \<times> scheduler
     \<Rightarrow> (kv_transition list \<times> scheduler) res" where
  "classify_one hot_threshold cold_threshold current_time q st =
     (let (transitions, s) = st in
      if \<not> rq_resumable (sr_core q) \<or> sr_status q \<noteq> WAITING_FOR_STREAMING_REQ then Inr st
      else if is_pending s (sr_id q) then Inr st
      else rbind (idle_target hot_threshold cold_threshold current_time q) (\<lambda>target.
           case target of
             None \<Rightarrow> Inr st
           | Some new_state \<Rightarrow>
               rbind (plan_kv_state_transition q new_state s) (\<lambda>(t, s1).
               Inr (transitions @ (case t of None \<Rightarrow> [] | Some t' \<Rightarrow> [t']), s1))))"

section \<open>Demotion under memory pressure\<close>

definition is_hot_demotion :: "kv_transition \<Rightarrow> bool" where
  "is_hot_demotion t \<longleftrightarrow> tn_previous_state t = HOT \<and> tn_new_state t = WARM"

definition projected_released :: "scheduler \<Rightarrow> int" where
  "projected_released s =
     (\<Sum>t\<leftarrow>filter is_hot_demotion (map snd (sd_pending_kv_transitions s)). num_changed t)"

text \<open>The sessions that may be demoted, the least recently active ones first.\<close>

definition demotion_candidates :: "scheduler \<Rightarrow> sched_request list" where
  "demotion_candidates s =
     sort_key (\<lambda>q. (rq_last_activity_time (sr_core q), rq_arrival_time (sr_core q), sr_id q))
       (filter (\<lambda>q. rq_resumable (sr_core q) \<and> sr_status q = WAITING_FOR_STREAMING_REQ \<and>
                   rq_kv_cache_state (sr_core q) = HOT \<and> \<not> is_pending s (sr_id q))
         (map snd (sd_requests s)))"

text \<open>The loop over the candidates; \<open>below_stop n\<close> says that \<open>n\<close> used blocks are few enough.\<close>

fun demote_loop ::
  "(int \<Rightarrow> bool) \<Rightarrow> int \<Rightarrow> sched_request list \<Rightarrow> int \<Rightarrow> scheduler \<Rightarrow> (kv_transition list \<times> scheduler) res" where
  "demote_loop below_stop used_hot_blocks [] projected_released_blocks s = Inr ([], s)"
| "demote_loop below_stop used_hot_blocks (q # qs) projected_released_blocks s =
     rbind (plan_kv_state_transition q WARM s) (\<lambda>(t, s1).
     case t of
       None \<Rightarrow> demote_loop below_stop used_hot_blocks qs projected_released_blocks s1
     | Some t \<Rightarrow>
         if sd_capacity_probe_required s1
         then Inr ([t], s1\<lparr>sd_capacity_probe_required := False,
                           sd_capacity_probe_transition_id := Some (tn_transition_id t)\<rparr>)
         else
           let released = projected_released_blocks + num_changed t
           in if below_stop (used_hot_blocks - released) then Inr ([t], s1)
              else rbind (demote_loop below_stop used_hot_blocks qs released s1) (\<lambda>(ts, s2).
                   Inr (t # ts, s2)))"

definition demote_kv_sessions_under_pressure ::
  "scheduler \<Rightarrow> (kv_transition list \<times> scheduler) res" where
  "demote_kv_sessions_under_pressure s =
     (case (sf_demotion_start_utilization (sd_config s), sf_demotion_stop_utilization (sd_config s)) of
        (Some start, Some stop) \<Rightarrow>
          if sd_capacity_cooldown_steps_remaining s > 0
          then Inr ([], s\<lparr>sd_capacity_cooldown_steps_remaining :=
                            sd_capacity_cooldown_steps_remaining s - 1\<rparr>)
          else if sd_capacity_probe_transition_id s \<noteq> None then Inr ([], s)
          else
            let usable_hot_blocks = bp_num_gpu_blocks (kv_pool s) - 1
            in if usable_hot_blocks \<le> 0 then Inr ([], s)
               else
                 let used_hot_blocks = usable_hot_blocks - get_num_free_blocks (kv_pool s);
                     below_stop = (\<lambda>n. of_int n / of_int usable_hot_blocks \<le> stop)
                 in if of_int used_hot_blocks / of_int usable_hot_blocks < start then Inr ([], s)
                    else if below_stop (used_hot_blocks - projected_released s) then Inr ([], s)
                    else demote_loop below_stop used_hot_blocks (demotion_candidates s)
                           (projected_released s) s
      | _ \<Rightarrow> Inl AssertionError)"

definition classify_idle_kv_sessions ::
  "rat \<Rightarrow> scheduler \<Rightarrow> (kv_transition list \<times> scheduler) res" where
  "classify_idle_kv_sessions current_time s =
     (if sf_demotion_start_utilization (sd_config s) \<noteq> None
      then demote_kv_sessions_under_pressure s
      else case (sf_hot_idle_threshold (sd_config s), sf_cold_idle_threshold (sd_config s)) of
             (Some hot_threshold, Some cold_threshold) \<Rightarrow>
               rfold (classify_one hot_threshold cold_threshold current_time)
                 (map snd (sd_requests s)) ([], s)
           | _ \<Rightarrow> Inr ([], s))"

section \<open>The replies of the worker\<close>

fun cooldown_loop :: "nat \<Rightarrow> nat \<Rightarrow> nat" where
  "cooldown_loop 0 cooldown_steps = cooldown_steps"
| "cooldown_loop (Suc n) cooldown_steps =
     (let cooldown_steps' = min (cooldown_steps * 2) 16
      in if cooldown_steps' = 16 then cooldown_steps' else cooldown_loop n cooldown_steps')"

definition note_capacity_failure :: "scheduler \<Rightarrow> scheduler" where
  "note_capacity_failure s =
     (let failure_count = sd_capacity_failure_count s + 1
      in s\<lparr>sd_capacity_failure_count := failure_count,
           sd_capacity_cooldown_steps_remaining := cooldown_loop (failure_count - 1) 1,
           sd_capacity_probe_required := True, sd_capacity_probe_transition_id := None\<rparr>)"

definition drop_pending :: "string \<Rightarrow> scheduler \<Rightarrow> scheduler" where
  "drop_pending req_id s =
     s\<lparr>sd_pending_kv_transitions := AList.delete req_id (sd_pending_kv_transitions s)\<rparr>"

text \<open>The checks on one pair of an expected transition and a reply.\<close>

definition check_reply ::
  "nat list \<Rightarrow> kv_transition \<Rightarrow> kv_transition_result \<Rightarrow> scheduler \<Rightarrow> unit res" where
  "check_reply seen_transition_ids expected actual s =
     (if tr_transition_id actual \<in> set seen_transition_ids then Inl ValueError
      else if tr_transition_id actual \<noteq> tn_transition_id expected then Inl ValueError
      else if result_signature actual \<noteq> transition_signature expected then Inl ValueError
      else case map_of (sd_pending_kv_transitions s) (tn_request_id expected) of
        None \<Rightarrow> Inl ValueError
      | Some pending \<Rightarrow>
          if tn_transition_id pending \<noteq> tn_transition_id expected then Inl ValueError else Inr ())"

definition apply_success :: "kv_transition \<Rightarrow> scheduler \<Rightarrow> scheduler res" where
  "apply_success expected s =
     rbind (commit_request_kv_transition expected (sd_kv_cache_manager s)) (\<lambda>km.
     let s1 = s\<lparr>sd_kv_cache_manager := km\<rparr>;
         s2 = (case map_of (sd_requests s1) (tn_request_id expected) of
                 None \<Rightarrow> s1
               | Some q \<Rightarrow> put_request (on_core (\<lambda>r. r\<lparr>rq_kv_cache_state := tn_new_state expected\<rparr>) q) s1);
         s3 = drop_pending (tn_request_id expected) s2
     in Inr (if sd_capacity_probe_transition_id s3 = Some (tn_transition_id expected)
             then s3\<lparr>sd_capacity_failure_count := 0, sd_capacity_cooldown_steps_remaining := 0,
                     sd_capacity_probe_required := False, sd_capacity_probe_transition_id := None\<rparr>
             else s3))"

text \<open>A retryable reply; the flag is \<open>pressure_capacity_failure\<close>.\<close>

definition apply_retry ::
  "kv_transition \<Rightarrow> kv_transition_status \<Rightarrow> bool \<Rightarrow> scheduler \<Rightarrow> bool \<times> scheduler" where
  "apply_retry expected status capacity_failure s =
     (let s1 = drop_pending (tn_request_id expected) s;
          is_pressure_demotion =
            (sf_demotion_start_utilization (sd_config s) \<noteq> None \<and> is_hot_demotion expected)
      in if status = RETRYABLE_CAPACITY \<and> is_pressure_demotion then (True, s1)
         else if status = STALE_VALIDATION \<and>
                 sd_capacity_probe_transition_id s1 = Some (tn_transition_id expected)
         then (capacity_failure, s1\<lparr>sd_capacity_probe_required := True,
                                    sd_capacity_probe_transition_id := None\<rparr>)
         else (capacity_failure, s1))"

definition apply_status ::
  "kv_transition \<Rightarrow> kv_transition_status \<Rightarrow> bool \<Rightarrow> scheduler \<Rightarrow> (bool \<times> scheduler) res" where
  "apply_status expected status capacity_failure s =
     (case status of
        SUCCESS \<Rightarrow> rbind (apply_success expected s) (\<lambda>s1. Inr (capacity_failure, s1))
      | FATAL \<Rightarrow> Inl ValueError
      | _ \<Rightarrow> Inr (apply_retry expected status capacity_failure s))"

text \<open>What was put off while the transition was pending: a finish signal, else one queued update.\<close>

definition resume_deferred :: "string \<Rightarrow> scheduler \<Rightarrow> scheduler run" where
  "resume_deferred req_id s =
     (let deferred_status = map_of (sd_pending_finish_requests s) req_id;
          s1 = s\<lparr>sd_pending_finish_requests := AList.delete req_id (sd_pending_finish_requests s)\<rparr>;
          request = map_of (sd_requests s1) req_id
      in case deferred_status of
        Some status \<Rightarrow>
          (case request of
             Some q \<Rightarrow>
               if \<not> rq_is_finished (sr_core q)
               then Some (rbind (finish_requests (Some [req_id]) status s1) (\<lambda>(_, s2). Inr s2))
               else Some (Inr s1)
           | None \<Rightarrow> Some (Inr s1))
      | None \<Rightarrow>
          (case request of
             None \<Rightarrow> Some (Inr s1)
           | Some q \<Rightarrow>
               (case sr_streaming_queue q of
                  Some (u # updates) \<Rightarrow>
                    let s2 = put_request (q\<lparr>sr_streaming_queue := Some updates\<rparr>) s1
                    in (case u of
                          Some u' \<Rightarrow> update_request_as_session req_id u' s2
                        | None \<Rightarrow>
                            Some (rbind (finish_requests (Some [req_id]) FINISHED_ABORTED s2)
                                    (\<lambda>(_, s3). Inr s3)))
                | _ \<Rightarrow> Some (Inr s1))))"

definition apply_reply ::
  "kv_transition \<times> kv_transition_result \<Rightarrow> nat list \<times> bool \<times> scheduler
     \<Rightarrow> (nat list \<times> bool \<times> scheduler) run" where
  "apply_reply pair st =
     (let (expected, actual) = pair; (seen_transition_ids, capacity_failure, s) = st in
      xbind (Some (check_reply seen_transition_ids expected actual s)) (\<lambda>_.
      xbind (Some (apply_status expected (tr_status actual) capacity_failure s)) (\<lambda>(failure, s1).
      xbind (resume_deferred (tn_request_id expected) s1) (\<lambda>s2.
      Some (Inr (tr_transition_id actual # seen_transition_ids, failure, s2))))))"

definition validate_kv_cache_transition_results ::
  "kv_transition list \<Rightarrow> kv_transition_result list option \<Rightarrow> scheduler \<Rightarrow> scheduler run" where
  "validate_kv_cache_transition_results expected_transitions results s =
     (let actual_results = (case results of None \<Rightarrow> [] | Some rs \<Rightarrow> rs) in
      if expected_transitions = [] \<and> actual_results = [] then Some (Inr s)
      else if length expected_transitions \<noteq> length actual_results then Some (Inl ValueError)
      else xbind (xfold apply_reply (zip expected_transitions actual_results) ([], False, s))
             (\<lambda>(_, capacity_failure, s1).
           Some (Inr (if capacity_failure then note_capacity_failure s1 else s1))))"

end
