(* ===== verification/Schedule.thy ===== *)
theory Schedule
  imports Scheduler
begin

text \<open>
  One step of the scheduler, \<open>schedule()\<close> of \<^verbatim>\<open>vllm/v1/core/sched/scheduler.py\<close>: planning of tier
  changes, the running requests with preemption, then the waiting ones, and the command sent to the
  worker.  The bounds of the two loops are the lengths of the queues when the loop starts: an iteration
  of the first passes one running request, an iteration of the second takes one waiting request.
\<close>

section \<open>Encoder inputs\<close>

text \<open>\<open>bisect.bisect_left\<close> over the keys of a list.\<close>

function bisect_left :: "int list \<Rightarrow> int \<Rightarrow> nat \<Rightarrow> nat \<Rightarrow> nat" where
  "bisect_left ks x lo hi =
     (if lo < hi
      then let mid = (lo + hi) div 2
           in if ks ! mid < x then bisect_left ks x (mid + 1) hi else bisect_left ks x lo mid
      else lo)"
  by pat_completeness auto
termination by (relation "measure (\<lambda>(ks, x, lo, hi). hi - lo)") auto

declare bisect_left.simps [simp del]

definition get_mm_features_in_window :: "mm_feature list \<Rightarrow> int \<Rightarrow> int \<Rightarrow> nat \<times> nat" where
  "get_mm_features_in_window mm_features start end_pos =
     (bisect_left (map (\<lambda>f. mf_offset f + mf_length f) mm_features) (start + 1) 0 (length mm_features),
      bisect_left (map mf_offset mm_features) end_pos 0 (length mm_features))"

text \<open>The trackers of the loop: inputs to schedule, new tokens, compute budget, the identifiers and the
  number of embeddings chosen so far, and the cache.\<close>

record encoder_plan =
  en_inputs :: "nat list"
  en_num_new_tokens :: int
  en_budget :: int
  en_hashes :: "string list"
  en_num_embeds :: int
  en_cache :: encoder_cache_manager

fun encoder_loop ::
  "bool \<Rightarrow> request \<Rightarrow> int \<Rightarrow> int \<Rightarrow> nat list \<Rightarrow> encoder_plan \<Rightarrow> encoder_plan res" where
  "encoder_loop disable_chunked r num_computed_tokens shift [] st = Inr st"
| "encoder_loop disable_chunked r num_computed_tokens shift (i # rest) st =
     (let f = rq_mm_features r ! i;
          start_pos = mf_offset f;
          num_encoder_tokens = mf_length f;
          num_new_tokens = en_num_new_tokens st;
          go = encoder_loop disable_chunked r num_computed_tokens shift rest
      in if mf_identifier f \<in> set (en_hashes st) then go st
         else rbind (check_and_update_cache r i (en_cache st)) (\<lambda>(hit, c1).
           let st1 = st\<lparr>en_cache := c1\<rparr> in
           if hit then go st1
           else if disable_chunked \<and> num_computed_tokens < start_pos \<and>
                   num_computed_tokens + num_new_tokens < start_pos + num_encoder_tokens
           then Inr (st1\<lparr>en_num_new_tokens := max 0 (start_pos - (num_computed_tokens + shift))\<rparr>)
           else rbind (can_allocate r i (en_budget st) (en_num_embeds st) c1) (\<lambda>(fits, c2).
             let st2 = st1\<lparr>en_cache := c2\<rparr> in
             if \<not> fits
             then Inr (st2\<lparr>en_num_new_tokens :=
                    (if num_computed_tokens + shift < start_pos
                     then start_pos - (num_computed_tokens + shift) else 0)\<rparr>)
             else
               rbind (get_embeds_indices_in_range (max 0 (num_computed_tokens - start_pos))
                        (min num_encoder_tokens (num_computed_tokens + num_new_tokens - start_pos)) f)
                 (\<lambda>(embeds_start, embeds_end).
               if embeds_end - embeds_start = 0 then go st2
               else go (st2\<lparr>en_num_embeds := en_num_embeds st + get_num_embeds f,
                            en_budget := en_budget st - get_num_embeds f,
                            en_hashes := List.insert (mf_identifier f) (en_hashes st),
                            en_inputs := en_inputs st @ [i]\<rparr>)))))"

definition try_schedule_encoder_inputs ::
  "bool \<Rightarrow> request \<Rightarrow> int \<Rightarrow> int \<Rightarrow> int \<Rightarrow> int \<Rightarrow> encoder_cache_manager
     \<Rightarrow> (nat list \<times> int \<times> int \<times> encoder_cache_manager) res" where
  "try_schedule_encoder_inputs disable_chunked r num_computed_tokens num_new_tokens
       encoder_compute_budget shift c =
     (if num_new_tokens = 0 \<or> \<not> has_encoder_inputs r then Inr ([], num_new_tokens, encoder_compute_budget, c)
      else
        let (lo, hi) = get_mm_features_in_window (rq_mm_features r) num_computed_tokens
                         (num_computed_tokens + num_new_tokens + shift)
        in rbind (encoder_loop disable_chunked r num_computed_tokens shift [lo..<hi]
                    \<lparr>en_inputs = [], en_num_new_tokens = num_new_tokens, en_budget = encoder_compute_budget,
                     en_hashes = [], en_num_embeds = 0, en_cache = c\<rparr>) (\<lambda>st.
           Inr (en_inputs st, en_num_new_tokens st, en_budget st, en_cache st)))"

section \<open>Chunks of the state-space layers\<close>

definition mamba_block_aligned_split ::
  "sched_config \<Rightarrow> request \<Rightarrow> int \<Rightarrow> int \<Rightarrow> int \<Rightarrow> int \<Rightarrow> int res" where
  "mamba_block_aligned_split config r num_new_tokens num_new_local_computed_tokens
       num_external_computed_tokens num_uncached_common_prefix_tokens =
     (let num_computed_tokens =
            rq_num_computed_tokens r + num_new_local_computed_tokens + num_external_computed_tokens;
          num_tokens = int (rq_num_tokens r);
          block_size = sf_cache_block_size config
      in if \<not> num_computed_tokens < max (int (rq_num_prompt_tokens r)) (num_tokens - 1)
         then Inr num_new_tokens
         else if block_size = 0 then Inl ZeroDivisionError
         else
           let aligned = num_tokens - num_tokens mod block_size;
               last_cache_position =
                 (if sf_use_eagle config then max (aligned - block_size) 0 else aligned);
               after_sched = num_computed_tokens + num_new_tokens;
               n1 = (if after_sched < last_cache_position
                     then num_new_tokens div block_size * block_size
                     else if num_computed_tokens < last_cache_position \<and> last_cache_position < after_sched
                     then last_cache_position - num_computed_tokens
                     else num_new_tokens)
           in Inr (if num_uncached_common_prefix_tokens \<ge> block_size \<and>
                      n1 > num_uncached_common_prefix_tokens
                   then num_uncached_common_prefix_tokens div block_size * block_size
                   else n1))"

section \<open>The state of a step\<close>

record step_state =
  ss_sched :: scheduler
  ss_token_budget :: int
  ss_encoder_compute_budget :: int
  ss_scheduled_running_reqs :: "string list"
  ss_scheduled_new_reqs :: "string list"
  ss_scheduled_resumed_reqs :: "string list"
  ss_preempted_reqs :: "string list"
  ss_req_to_new_blocks :: "(string, kv_cache_blocks) dict"
  ss_num_scheduled_tokens :: "(string, int) dict"
  ss_scheduled_spec_decode_tokens :: "(string, nat list) dict"
  ss_scheduled_encoder_inputs :: "(string, nat list) dict"
  ss_step_skipped_waiting :: "string list"

definition with_sched :: "(scheduler \<Rightarrow> scheduler) \<Rightarrow> step_state \<Rightarrow> step_state" where
  "with_sched f st = st\<lparr>ss_sched := f (ss_sched st)\<rparr>"

definition set_manager :: "kv_cache_manager \<Rightarrow> scheduler \<Rightarrow> scheduler" where
  "set_manager km s = s\<lparr>sd_kv_cache_manager := km\<rparr>"

definition set_encoder_cache :: "encoder_cache_manager \<Rightarrow> scheduler \<Rightarrow> scheduler" where
  "set_encoder_cache c s = s\<lparr>sd_encoder_cache_manager := c\<rparr>"

text \<open>The encoder inputs chosen for a scheduled request are allocated and recorded.\<close>

definition record_encoder_inputs ::
  "request \<Rightarrow> nat list \<Rightarrow> int \<Rightarrow> step_state \<Rightarrow> step_state res" where
  "record_encoder_inputs r inputs new_budget st =
     (if inputs = [] then Inr st
      else rbind (rfold (encoder_allocate r) inputs (sd_encoder_cache_manager (ss_sched st))) (\<lambda>c.
           Inr ((with_sched (set_encoder_cache c) st)
                \<lparr>ss_scheduled_encoder_inputs :=
                   AList.update (rq_request_id r) inputs (ss_scheduled_encoder_inputs st),
                 ss_encoder_compute_budget := new_budget\<rparr>)))"

section \<open>Running requests\<close>

definition running_num_new_tokens :: "sched_config \<Rightarrow> int \<Rightarrow> request \<Rightarrow> int" where
  "running_num_new_tokens config token_budget r =
     (let n = int (rq_num_tokens_with_spec r) + rq_num_output_placeholders r - rq_num_computed_tokens r;
          threshold = sf_long_prefill_token_threshold config;
          n1 = (if 0 < threshold \<and> threshold < n then threshold else n)
      in min (min n1 token_budget)
           (sf_max_model_len config - rq_num_computed_tokens r - sf_num_sampled_tokens_per_step config))"

text \<open>Whether a running request is passed over before its tokens are counted.\<close>

definition passed_over :: "bool \<Rightarrow> scheduler \<Rightarrow> sched_request \<Rightarrow> bool" where
  "passed_over defer_prefills s q \<longleftrightarrow>
     (let r = sr_core q in
      (rq_num_output_placeholders r > 0 \<and>
       rq_num_computed_tokens r + 2 - rq_num_output_placeholders r
         \<ge> int (rq_num_prompt_tokens r) + sr_max_tokens q) \<or>
      sd_current_step s < sr_next_decode_eligible_step q \<or>
      (defer_prefills \<and> sr_is_prefill_chunk q))"

text \<open>
  One round of the loop that finds slots for a running request: the slots, or the last running request
  is preempted.  The answer is \<open>None\<close> when the loop goes on, else what it ends with.
\<close>

definition slots_round ::
  "string \<Rightarrow> int \<Rightarrow> step_state \<Rightarrow> (kv_cache_blocks option option \<times> step_state) res" where
  "slots_round req_id num_new_tokens st =
     (let s = ss_sched st in
      rbind (dict_index (sd_requests s) req_id) (\<lambda>q.
      rbind (allocate_slots (sf_env (sd_config s)) (sr_core q) num_new_tokens 0 None
               (sf_num_lookahead_tokens (sd_config s)) 0 False 0 False 0 False (sd_kv_cache_manager s))
        (\<lambda>(new_blocks, km).
      let s1 = set_manager km s in
      if new_blocks \<noteq> None then Inr (Some new_blocks, st\<lparr>ss_sched := s1\<rparr>)
      else if sd_running s1 = [] then Inl IndexError
      else
        let victim = last (sd_running s1);
            s2 = s1\<lparr>sd_running := butlast (sd_running s1)\<rparr>
        in rbind (dict_index (sd_requests s2) victim) (\<lambda>v.
           rbind (preempt_request v s2) (\<lambda>s3.
           Inr (if victim = req_id then Some None else None,
                st\<lparr>ss_sched := s3, ss_preempted_reqs := ss_preempted_reqs st @ [victim]\<rparr>))))))"

text \<open>The number is that of the running requests, each of which can be preempted once.\<close>

fun slots_or_preempt ::
  "nat \<Rightarrow> string \<Rightarrow> int \<Rightarrow> step_state \<Rightarrow> (kv_cache_blocks option \<times> step_state) res" where
  "slots_or_preempt 0 req_id num_new_tokens st =
     rbind (slots_round req_id num_new_tokens st) (\<lambda>(answer, st1).
     case answer of Some b \<Rightarrow> Inr (b, st1) | None \<Rightarrow> Inl IndexError)"
| "slots_or_preempt (Suc n) req_id num_new_tokens st =
     rbind (slots_round req_id num_new_tokens st) (\<lambda>(answer, st1).
     case answer of Some b \<Rightarrow> Inr (b, st1) | None \<Rightarrow> slots_or_preempt n req_id num_new_tokens st1)"

text \<open>The speculative tokens of a scheduled request.\<close>

definition record_spec_tokens :: "sched_request \<Rightarrow> int \<Rightarrow> step_state \<Rightarrow> step_state" where
  "record_spec_tokens q num_new_tokens st =
     (let r = sr_core q; spec = rq_spec_token_ids r in
      if spec = [] then st
      else
        let n = num_new_tokens + rq_num_computed_tokens r - int (rq_num_tokens r)
                  - rq_num_output_placeholders r;
            st1 = (if n > 0
                   then st\<lparr>ss_scheduled_spec_decode_tokens :=
                       AList.update (sr_id q) (if int (length spec) > n then take (nat n) spec else spec)
                         (ss_scheduled_spec_decode_tokens st)\<rparr>
                   else st)
        in with_sched (put_request (on_core (\<lambda>r. r\<lparr>rq_spec_token_ids := []\<rparr>) q)) st1)"

text \<open>One running request; the flag says whether the loop goes on.\<close>

definition schedule_running_one ::
  "bool \<Rightarrow> string \<Rightarrow> step_state \<Rightarrow> (bool \<times> step_state) res" where
  "schedule_running_one defer_prefills req_id st =
     (let s = ss_sched st; config = sd_config s in
      rbind (dict_index (sd_requests s) req_id) (\<lambda>q.
      if passed_over defer_prefills s q then Inr (True, st)
      else
        let r = sr_core q in
        rbind (if has_encoder_inputs r
               then try_schedule_encoder_inputs (sf_disable_chunked_mm_input config) r
                      (rq_num_computed_tokens r)
                      (running_num_new_tokens config (ss_token_budget st) r)
                      (ss_encoder_compute_budget st) (if sf_use_eagle config then 1 else 0)
                      (sd_encoder_cache_manager s)
               else Inr ([], running_num_new_tokens config (ss_token_budget st) r,
                         ss_encoder_compute_budget st, sd_encoder_cache_manager s))
          (\<lambda>(inputs, n, new_budget, c).
        let st1 = with_sched (set_encoder_cache c) st in
        rbind (if sf_need_mamba_block_aligned_split config
               then mamba_block_aligned_split config r n 0 0 0 else Inr n) (\<lambda>num_new_tokens.
        if num_new_tokens = 0 then Inr (True, st1)
        else
          rbind (slots_or_preempt (length (sd_running s)) req_id num_new_tokens st1) (\<lambda>(new_blocks, st2).
          case new_blocks of
            None \<Rightarrow> Inr (False, st2)
          | Some b \<Rightarrow>
              let st3 = st2\<lparr>ss_scheduled_running_reqs := ss_scheduled_running_reqs st2 @ [req_id],
                            ss_req_to_new_blocks := AList.update req_id b (ss_req_to_new_blocks st2),
                            ss_num_scheduled_tokens :=
                              AList.update req_id num_new_tokens (ss_num_scheduled_tokens st2),
                            ss_token_budget := ss_token_budget st2 - num_new_tokens\<rparr>
              in rbind (record_encoder_inputs r inputs new_budget (record_spec_tokens q num_new_tokens st3))
                   (\<lambda>st4. Inr (True, st4)))))))"

fun running_loop :: "bool \<Rightarrow> nat \<Rightarrow> nat \<Rightarrow> step_state \<Rightarrow> step_state res" where
  "running_loop defer_prefills 0 req_index st = Inr st"
| "running_loop defer_prefills (Suc n) req_index st =
     (if req_index < length (sd_running (ss_sched st)) \<and> ss_token_budget st > 0
      then rbind (schedule_running_one defer_prefills (sd_running (ss_sched st) ! req_index) st)
             (\<lambda>(go_on, st1).
           if go_on then running_loop defer_prefills n (req_index + 1) st1 else Inr st1)
      else Inr st)"

section \<open>Waiting requests\<close>

text \<open>Promotion of a blocked request.  Without a connector no remote load ever finishes.\<close>

definition try_promote_blocked_waiting_request ::
  "sched_request \<Rightarrow> scheduler \<Rightarrow> (bool \<times> scheduler) res" where
  "try_promote_blocked_waiting_request q s =
     (case sr_status q of
        WAITING_FOR_REMOTE_KVS \<Rightarrow> Inr (False, s)
      | WAITING_FOR_STRUCTURED_OUTPUT_GRAMMAR \<Rightarrow>
          if sr_grammar q \<noteq> Some True then Inr (False, s)
          else Inr (True, put_request (set_status WAITING q) s)
      | WAITING_FOR_STREAMING_REQ \<Rightarrow>
          if is_pending s (sr_id q) then Inr (False, s)
          else if sr_streaming_queue q \<noteq> None \<and> sr_streaming_queue q \<noteq> Some [] then Inl AssertionError
          else Inr (False, s)
      | _ \<Rightarrow> Inl AssertionError)"

text \<open>FCFS: the skipped requests come first.  The head is taken off with \<open>pop_waiting\<close>.\<close>

definition waiting_head :: "scheduler \<Rightarrow> string option" where
  "waiting_head s =
     (case sd_skipped_waiting s of
        rid # _ \<Rightarrow> Some rid
      | [] \<Rightarrow> (case sd_waiting s of rid # _ \<Rightarrow> Some rid | [] \<Rightarrow> None))"

definition pop_waiting :: "scheduler \<Rightarrow> scheduler" where
  "pop_waiting s =
     (if sd_skipped_waiting s \<noteq> [] then s\<lparr>sd_skipped_waiting := tl (sd_skipped_waiting s)\<rparr>
      else s\<lparr>sd_waiting := tl (sd_waiting s)\<rparr>)"

definition skip_waiting :: "string \<Rightarrow> step_state \<Rightarrow> step_state" where
  "skip_waiting req_id st =
     (with_sched pop_waiting st)\<lparr>ss_step_skipped_waiting := req_id # ss_step_skipped_waiting st\<rparr>"

text \<open>The cached prefix of a waiting request: blocks, tokens newly found, tokens computed, the hint for
  uncached common prefixes.\<close>

definition waiting_computed ::
  "request \<Rightarrow> scheduler \<Rightarrow> (kv_cache_blocks \<times> int \<times> int \<times> int \<times> scheduler) run" where
  "waiting_computed r s =
     (if rq_num_computed_tokens r = 0
      then xbind (get_computed_blocks r (sd_kv_cache_manager s)) (\<lambda>(blocks, n, km).
           let uncached = (if sf_has_mamba_layers (sd_config s)
                           then co_num_uncached_common_prefix_tokens (km_coordinator km) else 0)
           in if n > int (rq_num_tokens r) then Some (Inl AssertionError)
              else Some (Inr (blocks, n, n, uncached, set_manager km s)))
      else Some (Inr (EmptyKVCacheBlocks (km_num_kv_cache_groups (sd_kv_cache_manager s)), 0,
                      rq_num_computed_tokens r, 0, s)))"

text \<open>The number of tokens of a waiting request; \<open>None\<close> stops the loop.\<close>

definition waiting_num_new_tokens :: "sched_config \<Rightarrow> int \<Rightarrow> request \<Rightarrow> int \<Rightarrow> int option res" where
  "waiting_num_new_tokens config token_budget r num_computed_tokens =
     (let n = int (rq_num_tokens r) - num_computed_tokens;
          threshold = sf_long_prefill_token_threshold config;
          n1 = (if 0 < threshold \<and> threshold < n then threshold else n)
      in if \<not> sf_enable_chunked_prefill config \<and> n1 > token_budget then Inr None
         else let n2 = min n1 token_budget
              in if n2 > 0 then Inr (Some n2) else Inl AssertionError)"

text \<open>A waiting request that got its slots becomes a running one.\<close>

definition start_request ::
  "sched_request \<Rightarrow> int \<Rightarrow> int \<Rightarrow> nat list \<Rightarrow> int \<Rightarrow> step_state \<Rightarrow> step_state res" where
  "start_request q num_new_tokens num_computed_tokens inputs new_budget st =
     (let rid = sr_id q;
          st1 = with_sched (\<lambda>s. (pop_waiting s)\<lparr>sd_running := sd_running s @ [rid]\<rparr>) st
      in
      rbind (case sr_status q of
               WAITING \<Rightarrow> Inr (st1\<lparr>ss_scheduled_new_reqs := ss_scheduled_new_reqs st1 @ [rid]\<rparr>)
             | PREEMPTED \<Rightarrow> Inr (st1\<lparr>ss_scheduled_resumed_reqs := ss_scheduled_resumed_reqs st1 @ [rid]\<rparr>)
             | _ \<Rightarrow> Inl RuntimeError) (\<lambda>st2.
      let q1 = on_core (\<lambda>r. r\<lparr>rq_status := RUNNING, rq_num_computed_tokens := num_computed_tokens\<rparr>) q;
          st3 = st2\<lparr>ss_req_to_new_blocks :=
                      AList.update rid (get_blocks rid (sd_kv_cache_manager (ss_sched st2)))
                        (ss_req_to_new_blocks st2),
                    ss_num_scheduled_tokens :=
                      AList.update rid num_new_tokens (ss_num_scheduled_tokens st2),
                    ss_token_budget := ss_token_budget st2 - num_new_tokens\<rparr>;
          st4 = with_sched (\<lambda>s. put_request q1
                  (if num_computed_tokens + num_new_tokens < int (rq_num_tokens (sr_core q))
                   then s\<lparr>sd_inflight_prefills := List.insert rid (sd_inflight_prefills s)\<rparr> else s)) st3
      in record_encoder_inputs (sr_core q) inputs new_budget st4))"

text \<open>The tokens and encoder inputs of a waiting request; \<open>None\<close> stops the loop.\<close>

definition size_waiting ::
  "sched_request \<Rightarrow> int \<Rightarrow> int \<Rightarrow> int \<Rightarrow> step_state \<Rightarrow> ((int \<times> nat list \<times> int) option \<times> step_state) res" where
  "size_waiting q num_new_local_computed_tokens num_computed_tokens uncached st =
     (let r = sr_core q; s = ss_sched st; config = sd_config s in
      rbind (waiting_num_new_tokens config (ss_token_budget st) r num_computed_tokens) (\<lambda>n0.
      case n0 of
        None \<Rightarrow> Inr (None, st)
      | Some n \<Rightarrow>
          rbind (if has_encoder_inputs r
                 then try_schedule_encoder_inputs (sf_disable_chunked_mm_input config) r num_computed_tokens n
                        (ss_encoder_compute_budget st) (if sf_use_eagle config then 1 else 0)
                        (sd_encoder_cache_manager s)
                 else Inr ([], n, ss_encoder_compute_budget st, sd_encoder_cache_manager s))
            (\<lambda>(inputs, n1, new_budget, c).
          let st1 = with_sched (set_encoder_cache c) st in
          if has_encoder_inputs r \<and> n1 = 0 then Inr (None, st1)
          else rbind (if sf_need_mamba_block_aligned_split config
                      then mamba_block_aligned_split config r n1 num_new_local_computed_tokens 0 uncached
                      else Inr n1) (\<lambda>n2.
               if sf_need_mamba_block_aligned_split config \<and> n2 = 0 then Inr (None, st1)
               else Inr (Some (n2, inputs, new_budget), st1)))))"

text \<open>One request at the head of the waiting queues; the flag says whether the loop goes on.\<close>

definition schedule_waiting_one ::
  "bool \<Rightarrow> string \<Rightarrow> step_state \<Rightarrow> (bool \<times> step_state) run" where
  "schedule_waiting_one defer_prefills req_id st =
     xbind (Some (dict_index (sd_requests (ss_sched st)) req_id)) (\<lambda>q0.
     xbind (Some (if is_blocked_waiting_status (sr_status q0)
                  then try_promote_blocked_waiting_request q0 (ss_sched st)
                  else Inr (True, ss_sched st))) (\<lambda>(ready, s0).
     if \<not> ready then Some (Inr (True, skip_waiting req_id st))
     else
       xbind (Some (dict_index (sd_requests s0) req_id)) (\<lambda>q.
       let r = sr_core q in
       xbind (waiting_computed r s0) (\<lambda>(new_computed_blocks, n_local, num_computed_tokens, uncached, s1).
       let st1 = st\<lparr>ss_sched := s1\<rparr> in
       if defer_prefills \<and> rq_num_computed_tokens r = 0 then Some (Inr (False, st1))
       else
         xbind (Some (size_waiting q n_local num_computed_tokens uncached st1)) (\<lambda>(sized, st2).
         case sized of
           None \<Rightarrow> Some (Inr (False, st2))
         | Some (num_new_tokens, inputs, new_budget) \<Rightarrow>
             let s2 = ss_sched st2; config = sd_config s2 in
             xbind (Some (allocate_slots (sf_env config) r num_new_tokens n_local (Some new_computed_blocks)
                            (sf_num_lookahead_tokens config) 0 False 0 (sf_reserve_full_isl config) 0
                            (sd_running s2 \<noteq> []) (sd_kv_cache_manager s2))) (\<lambda>(new_blocks, km).
             let st3 = with_sched (set_manager km) st2 in
             if new_blocks = None
             then xbind (Some (if has_encoder_inputs r
                               then encoder_free r (sd_encoder_cache_manager (ss_sched st3))
                               else Inr (sd_encoder_cache_manager (ss_sched st3)))) (\<lambda>c.
                  Some (Inr (False, with_sched (set_encoder_cache c) st3)))
             else xbind (Some (start_request q num_new_tokens num_computed_tokens inputs new_budget st3))
                    (\<lambda>st4. Some (Inr (True, st4)))))))))"

fun waiting_loop :: "bool \<Rightarrow> nat \<Rightarrow> step_state \<Rightarrow> step_state run" where
  "waiting_loop defer_prefills 0 st = Some (Inr st)"
| "waiting_loop defer_prefills (Suc n) st =
     (case waiting_head (ss_sched st) of
        None \<Rightarrow> Some (Inr st)
      | Some req_id \<Rightarrow>
          if \<not> ss_token_budget st > 0 then Some (Inr st)
          else if length (sd_running (ss_sched st)) = sf_max_num_running_reqs (sd_config (ss_sched st))
          then Some (Inr st)
          else xbind (schedule_waiting_one defer_prefills req_id st) (\<lambda>(go_on, st1).
               if go_on then waiting_loop defer_prefills n st1 else Some (Inr st1)))"

definition schedule_waiting :: "bool \<Rightarrow> step_state \<Rightarrow> step_state run" where
  "schedule_waiting defer_prefills st =
     (if ss_preempted_reqs st \<noteq> [] \<or> sd_pause_state (ss_sched st) \<noteq> UNPAUSED then Some (Inr st)
      else
        let s = ss_sched st in
        xbind (waiting_loop defer_prefills (length (sd_waiting s) + length (sd_skipped_waiting s)) st) (\<lambda>st1.
        Some (Inr (with_sched (\<lambda>s.
            (s\<lparr>sd_skipped_waiting := rev (ss_step_skipped_waiting st1) @ sd_skipped_waiting s,
               sd_prefill_capacity_bound :=
                 (if \<not> defer_prefills then sd_waiting s \<noteq> [] else sd_prefill_capacity_bound s)\<rparr>))
            (st1\<lparr>ss_step_skipped_waiting := []\<rparr>)))))"

section \<open>The command for the worker\<close>

record new_request_data =
  nd_req_id :: string
  nd_prompt_token_ids :: "nat list option"
  nd_mm_features :: "mm_feature list"
  nd_block_ids :: "int list list"
  nd_num_computed_tokens :: int
  nd_prefill_token_ids :: "nat list"

record cached_request_data =
  cd_req_ids :: "string list"
  cd_new_block_ids :: "int list list option list"
  cd_num_computed_tokens :: "int list"
  cd_num_output_tokens :: "int list"

record scheduler_output =
  so_scheduled_new_reqs :: "new_request_data list"
  so_scheduled_cached_reqs :: cached_request_data
  so_num_scheduled_tokens :: "(string, int) dict"
  so_total_num_scheduled_tokens :: int
  so_scheduled_spec_decode_tokens :: "(string, nat list) dict"
  so_scheduled_encoder_inputs :: "(string, nat list) dict"
  so_num_common_prefix_blocks :: "int list"
  so_preempted_req_ids :: "string list"
  so_finished_req_ids :: "string list"
  so_free_encoder_mm_hashes :: "string list"
  so_new_block_ids_to_zero :: "int list option"
  so_kv_cache_state_transitions :: "kv_transition list"
  so_num_spec_tokens_to_schedule :: int

text \<open>\<open>NewRequestData.from_request\<close> for the V2 model runner, which gets all the tokens.\<close>

definition new_request_data_of :: "step_state \<Rightarrow> string \<Rightarrow> new_request_data res" where
  "new_request_data_of st rid =
     rbind (dict_index (sd_requests (ss_sched st)) rid) (\<lambda>q.
     rbind (dict_index (ss_req_to_new_blocks st) rid) (\<lambda>b.
     case get_block_ids (kv_pool (ss_sched st)) False b of
       None \<Rightarrow> Inl TypeError
     | Some block_ids \<Rightarrow>
         Inr \<lparr>nd_req_id = rid, nd_prompt_token_ids = rq_prompt_token_ids (sr_core q),
              nd_mm_features = rq_mm_features (sr_core q), nd_block_ids = block_ids,
              nd_num_computed_tokens = rq_num_computed_tokens (sr_core q),
              nd_prefill_token_ids = rq_all_token_ids (sr_core q)\<rparr>))"

text \<open>\<open>_make_cached_request_data\<close> for the V2 model runner without pipeline parallelism, where the
  resumed requests are already among the new ones.\<close>

definition make_cached_request_data :: "step_state \<Rightarrow> cached_request_data res" where
  "make_cached_request_data st =
     rbind (rmap (\<lambda>rid. rbind (dict_index (sd_requests (ss_sched st)) rid) (\<lambda>q.
              rbind (dict_index (ss_req_to_new_blocks st) rid) (\<lambda>b.
              Inr (get_block_ids (kv_pool (ss_sched st)) True b, rq_num_computed_tokens (sr_core q),
                   int (rq_num_output_tokens (sr_core q)) + rq_num_output_placeholders (sr_core q)))))
              (ss_scheduled_running_reqs st)) (\<lambda>rows.
     Inr \<lparr>cd_req_ids = ss_scheduled_running_reqs st, cd_new_block_ids = map fst rows,
          cd_num_computed_tokens = map (fst \<circ> snd) rows, cd_num_output_tokens = map (snd \<circ> snd) rows\<rparr>)"

text \<open>\<open>_update_after_schedule\<close> on one scheduled request.\<close>

definition advance_one :: "string \<times> int \<Rightarrow> scheduler \<Rightarrow> scheduler res" where
  "advance_one scheduled s =
     (let (req_id, num_scheduled_token) = scheduled in
      rbind (dict_index (sd_requests s) req_id) (\<lambda>q.
      let q1 = on_core (\<lambda>r. r\<lparr>rq_num_computed_tokens := rq_num_computed_tokens r + num_scheduled_token\<rparr>) q;
          q2 = (if sd_defer_block_free s then q1\<lparr>sr_last_sched_seq := sd_sched_step_seq s\<rparr> else q1);
          chunk = rq_num_computed_tokens (sr_core q2)
                    < int (rq_num_tokens (sr_core q2)) + rq_num_output_placeholders (sr_core q2);
          s1 = put_request (q2\<lparr>sr_is_prefill_chunk := chunk\<rparr>) s
      in Inr (if chunk then s1
              else s1\<lparr>sd_inflight_prefills := removeAll req_id (sd_inflight_prefills s1)\<rparr>)))"

definition update_after_schedule :: "(string, int) dict \<Rightarrow> scheduler \<Rightarrow> scheduler res" where
  "update_after_schedule num_scheduled_tokens s =
     rbind (rfold advance_one num_scheduled_tokens s) (\<lambda>s1. Inr (s1\<lparr>sd_finished_req_ids := []\<rparr>))"

definition new_step_state :: "scheduler \<Rightarrow> step_state" where
  "new_step_state s =
     \<lparr>ss_sched = s,
      ss_token_budget = (if sd_pause_state s = PAUSED_ALL then 0 else sf_max_num_scheduled_tokens (sd_config s)),
      ss_encoder_compute_budget = sf_max_num_encoder_input_tokens (sd_config s),
      ss_scheduled_running_reqs = [], ss_scheduled_new_reqs = [], ss_scheduled_resumed_reqs = [],
      ss_preempted_reqs = [], ss_req_to_new_blocks = [], ss_num_scheduled_tokens = [],
      ss_scheduled_spec_decode_tokens = [], ss_scheduled_encoder_inputs = [], ss_step_skipped_waiting = []\<rparr>"

text \<open>\<open>schedule()\<close> up to the end of the two loops: the planned transitions and the state of the step.\<close>

definition begin_step :: "rat \<Rightarrow> scheduler \<Rightarrow> (kv_transition list \<times> scheduler) res" where
  "begin_step current_time s =
     classify_idle_kv_sessions current_time
       (s\<lparr>sd_current_step := sd_current_step s + 1,
          sd_kv_cache_manager := kv_manager_new_step_starts (sd_kv_cache_manager s)\<rparr>)"

definition schedule_requests :: "bool \<Rightarrow> scheduler \<Rightarrow> step_state run" where
  "schedule_requests throttle_prefills s =
     xbind (Some (rmap (\<lambda>rid. rbind (dict_index (sd_requests s) rid) (\<lambda>q. Inr (sr_is_prefill_chunk q)))
              (sd_running s))) (\<lambda>chunks.
     let defer_prefills = (throttle_prefills \<and> \<not> sd_prefill_capacity_bound s) \<and> (\<exists>c \<in> set chunks. \<not> c) in
     xbind (Some (running_loop defer_prefills (length (sd_running s)) 0 (new_step_state s)))
       (schedule_waiting defer_prefills))"

text \<open>The assertions after the loops.\<close>

definition step_constraints :: "step_state \<Rightarrow> bool" where
  "step_constraints st \<longleftrightarrow>
     (let s = ss_sched st in
      sum_list (map snd (ss_num_scheduled_tokens st)) \<le> sf_max_num_scheduled_tokens (sd_config s) \<and>
      0 \<le> ss_token_budget st \<and>
      length (sd_running s) \<le> sf_max_num_running_reqs (sd_config s) \<and>
      length (ss_scheduled_new_reqs st) + length (ss_scheduled_resumed_reqs st)
        + length (ss_scheduled_running_reqs st) \<le> length (sd_running s))"

text \<open>The rest of \<open>schedule()\<close>: the command, and the state after it.\<close>

definition finish_step ::
  "kv_transition list \<Rightarrow> step_state \<Rightarrow> (scheduler_output \<times> scheduler) res" where
  "finish_step transitions st =
     rbind (check (step_constraints st) AssertionError) (\<lambda>_.
     let s = ss_sched st;
         (common, km1) = (case sd_running s of
             [] \<Rightarrow> (replicate (km_num_kv_cache_groups (sd_kv_cache_manager s)) 0, sd_kv_cache_manager s)
           | rid # _ \<Rightarrow> kv_manager_num_common_prefix_blocks rid (sd_kv_cache_manager s));
         new_reqs = ss_scheduled_new_reqs st @ ss_scheduled_resumed_reqs st;
         st1 = with_sched (set_manager km1) st
     in
     rbind (rmap (new_request_data_of st1) new_reqs) (\<lambda>new_reqs_data.
     rbind (make_cached_request_data st1) (\<lambda>cached_reqs_data.
     let (zeroed, km2) = (if sf_needs_kv_cache_zeroing (sd_config s)
                          then (let (fresh, km) = kv_manager_take_new_block_ids km1
                                in (if fresh = [] then None else Some fresh, km))
                          else (None, km1));
         (freed_hashes, c) = get_freed_mm_hashes (sd_encoder_cache_manager s);
         total_num = sum_list (map snd (ss_num_scheduled_tokens st));
         out = \<lparr>so_scheduled_new_reqs = new_reqs_data, so_scheduled_cached_reqs = cached_reqs_data,
                so_num_scheduled_tokens = ss_num_scheduled_tokens st,
                so_total_num_scheduled_tokens = total_num,
                so_scheduled_spec_decode_tokens = ss_scheduled_spec_decode_tokens st,
                so_scheduled_encoder_inputs = ss_scheduled_encoder_inputs st,
                so_num_common_prefix_blocks = common,
                so_preempted_req_ids = uniq (ss_preempted_reqs st),
                so_finished_req_ids = sd_finished_req_ids s,
                so_free_encoder_mm_hashes = freed_hashes,
                so_new_block_ids_to_zero = zeroed,
                so_kv_cache_state_transitions = transitions,
                so_num_spec_tokens_to_schedule = sf_num_spec_tokens (sd_config s)\<rparr>;
         s1 = s\<lparr>sd_kv_cache_manager := km2, sd_encoder_cache_manager := c,
                sd_sched_step_seq :=
                  (if sd_defer_block_free s \<and> total_num > 0 then sd_sched_step_seq s + 1
                   else sd_sched_step_seq s)\<rparr>
     in
     rbind (update_after_schedule (ss_num_scheduled_tokens st) s1) (\<lambda>s2.
     Inr (out, s2)))))"

definition schedule :: "rat \<Rightarrow> bool \<Rightarrow> scheduler \<Rightarrow> (scheduler_output \<times> scheduler) run" where
  "schedule current_time throttle_prefills s =
     xbind (Some (begin_step current_time s)) (\<lambda>(transitions, s1).
     xbind (schedule_requests throttle_prefills s1) (\<lambda>st.
     Some (finish_step transitions st)))"

end
