(* ===== verification/StepOutput.thy ===== *)
theory StepOutput
  imports Schedule
begin

text \<open>
  What the scheduler does with the output of the model, \<open>update_from_output()\<close> of
  \<^verbatim>\<open>vllm/v1/core/sched/scheduler.py\<close>, with the stop conditions of \<^verbatim>\<open>sched/utils.py\<close>.

  The sampled tokens are lists of token ids.  Whether the grammar of a request rejects tokens is an
  argument of the model: \<open>rejects q ts\<close> is true when the structured-output manager advances the
  grammar of \<open>q\<close> on \<open>ts\<close> and the grammar does not accept them.  Log probabilities, pooling models,
  routed experts and statistics other than those of the prefix cache are left out.
\<close>

section \<open>Stop conditions\<close>

text \<open>The \<open>n\<close>-th token from the end, counted from 1.\<close>

definition from_end :: "nat list \<Rightarrow> nat \<Rightarrow> nat" where
  "from_end xs n = xs ! (length xs - n)"

definition has_repeating_pattern :: "nat list \<Rightarrow> nat \<Rightarrow> nat \<Rightarrow> bool" where
  "has_repeating_pattern token_ids pattern_len repetition_min_count =
     list_all (\<lambda>n. list_all (\<lambda>m. from_end token_ids (pattern_len * m + n) = from_end token_ids n)
                     [1..<repetition_min_count]) [1..<pattern_len + 1]"

fun repetition_loop :: "nat list \<Rightarrow> nat \<Rightarrow> nat list \<Rightarrow> bool" where
  "repetition_loop token_ids min_count [] = False"
| "repetition_loop token_ids min_count (pattern_len # rest) =
     (if pattern_len * min_count > length token_ids then False
      else if has_repeating_pattern token_ids pattern_len min_count then True
      else repetition_loop token_ids min_count rest)"

definition check_sequence_repetition :: "nat list \<Rightarrow> int \<times> int \<times> int \<Rightarrow> bool" where
  "check_sequence_repetition token_ids params =
     (let (max_pattern_size, min_size, min_count) = params;
          min_pattern_size = (if min_size \<le> 0 then 1 else min_size)
      in if max_pattern_size \<le> 0 \<or> min_count < 2 \<or> min_pattern_size > max_pattern_size then False
         else repetition_loop token_ids (nat min_count)
                [nat min_pattern_size..<nat (max_pattern_size + 1)])"

definition check_stop :: "int \<Rightarrow> sched_request \<Rightarrow> (bool \<times> sched_request) res" where
  "check_stop max_model_len q =
     (let r = sr_core q; p = sr_sampling_params q in
      if int (rq_num_output_tokens r) < sq_min_tokens p then Inr (False, q)
      else rbind (list_index (rq_output_token_ids r) (- 1)) (\<lambda>last_token_id.
        if sq_eos_token_id p = Some last_token_id then Inr (True, set_status FINISHED_STOPPED q)
        else if last_token_id \<in> set (sq_stop_token_ids p)
        then Inr (True, (set_status FINISHED_STOPPED q)\<lparr>sr_stop_reason := Some (StopToken last_token_id)\<rparr>)
        else if int (rq_num_tokens r) \<ge> max_model_len \<or> int (rq_num_output_tokens r) \<ge> sr_max_tokens q
        then Inr (True, set_status FINISHED_LENGTH_CAPPED q)
        else case sq_repetition_detection p of
          Some d \<Rightarrow>
            if check_sequence_repetition (rq_output_token_ids r) d
            then Inr (True, (set_status FINISHED_REPETITION q)\<lparr>sr_stop_reason := Some RepetitionDetected\<rparr>)
            else Inr (False, q)
        | None \<Rightarrow> Inr (False, q)))"

text \<open>\<open>Request.append_output_token_ids\<close> on one token.\<close>

definition append_token :: "sched_config \<Rightarrow> nat \<Rightarrow> request \<Rightarrow> request run" where
  "append_token config token r =
     (case block_hasher config of
        None \<Rightarrow> Some (Inr (r\<lparr>rq_output_token_ids := rq_output_token_ids r @ [token],
                            rq_all_token_ids := rq_all_token_ids r @ [token]\<rparr>))
      | Some (env, hash_block_size) \<Rightarrow> append_output_token_ids env hash_block_size [token] r)"

text \<open>\<open>_update_request_with_output\<close>: the tokens kept, whether the request stopped, and the request.\<close>

fun update_request_with_output ::
  "sched_config \<Rightarrow> nat list \<Rightarrow> sched_request \<Rightarrow> (nat list \<times> bool \<times> sched_request) run" where
  "update_request_with_output config [] q = Some (Inr ([], False, q))"
| "update_request_with_output config (token # rest) q =
     xbind (append_token config token (sr_core q)) (\<lambda>r.
     xbind (Some (check_stop (sf_max_model_len config) (q\<lparr>sr_core := r\<rparr>))) (\<lambda>(stopped, q1).
     if stopped then Some (Inr ([token], True, q1))
     else xbind (update_request_with_output config rest q1) (\<lambda>(kept, stopped', q2).
          Some (Inr (token # kept, stopped', q2)))))"

section \<open>Encoder inputs that are done\<close>

definition free_encoder_inputs :: "sched_request \<Rightarrow> scheduler \<Rightarrow> scheduler res" where
  "free_encoder_inputs q s =
     (let r = sr_core q; spec_lookahead = (if sf_use_eagle (sd_config s) then 1 else 0) in
      rbind (rfold (\<lambda>input_id c.
               rbind (list_index (rq_mm_features r) (int input_id)) (\<lambda>f.
               if mf_offset f + mf_length f + spec_lookahead
                    \<le> rq_num_computed_tokens r - rq_num_output_placeholders r
               then free_encoder_input r input_id c else Inr c))
             (get_cached_input_ids r (sd_encoder_cache_manager s)) (sd_encoder_cache_manager s)) (\<lambda>c.
      Inr (set_encoder_cache c s)))"

section \<open>Outputs of the engine\<close>

record engine_core_output =
  eo_request_id :: string
  eo_new_token_ids :: "nat list"
  eo_finish_reason :: "finish_reason option"
  eo_stop_reason :: "stop_reason option"

record engine_core_outputs =
  es_outputs :: "engine_core_output list"
  es_finished_requests :: "string list option"

record model_runner_output =
  mo_req_id_to_index :: "(string, nat) dict"
  mo_sampled_token_ids :: "nat list list"
  mo_kv_cache_transition_results :: "kv_transition_result list option"

record update_state =
  us_sched :: scheduler
  us_outputs :: "(int, engine_core_output list) dict"
  us_stopped_running :: "string list"
  us_stopped_preempted :: "string list"

definition generated_tokens :: "model_runner_output \<Rightarrow> string \<Rightarrow> nat list res" where
  "generated_tokens out req_id =
     rbind (dict_index (mo_req_id_to_index out) req_id) (\<lambda>i.
     if mo_sampled_token_ids out = [] then Inr []
     else list_index (mo_sampled_token_ids out) (int i))"

text \<open>Speculative tokens that were not accepted are taken back.\<close>

definition reject_spec_tokens :: "sched_config \<Rightarrow> nat list option \<Rightarrow> nat list \<Rightarrow> sched_request \<Rightarrow> sched_request" where
  "reject_spec_tokens config scheduled_spec generated q =
     (case scheduled_spec of
        None \<Rightarrow> q
      | Some spec \<Rightarrow>
          if spec = [] \<or> (generated = [] \<and> sf_num_sampled_tokens_per_step config \<noteq> 0) then q
          else
            let num_accepted = max (int (length generated) - sf_num_sampled_tokens_per_step config) 0;
                num_rejected = int (length spec) - num_accepted
            in on_core (\<lambda>r. r\<lparr>
                 rq_num_computed_tokens :=
                   (if rq_num_computed_tokens r > 0 then rq_num_computed_tokens r - num_rejected
                    else rq_num_computed_tokens r),
                 rq_num_output_placeholders :=
                   (if rq_num_output_placeholders r > 0 then rq_num_output_placeholders r - num_rejected
                    else rq_num_output_placeholders r)\<rparr>) q)"

text \<open>A stopped request goes on as a session or is freed.\<close>

definition settle_stopped :: "string \<Rightarrow> request_status \<Rightarrow> update_state \<Rightarrow> update_state run" where
  "settle_stopped req_id status_before_stop us =
     xbind (handle_stopped_request req_id (us_sched us)) (\<lambda>(finished, s1).
     xbind (Some (if finished
                  then rbind (dict_index (sd_requests s1) req_id) (\<lambda>q. free_request q False s1)
                  else Inr s1)) (\<lambda>s2.
     let us1 = us\<lparr>us_sched := s2\<rparr> in
     Some (Inr (if status_before_stop = RUNNING
                then us1\<lparr>us_stopped_running := List.insert req_id (us_stopped_running us1)\<rparr>
                else us1\<lparr>us_stopped_preempted := List.insert req_id (us_stopped_preempted us1)\<rparr>))))"

definition emit_output :: "int \<Rightarrow> engine_core_output \<Rightarrow> update_state \<Rightarrow> update_state" where
  "emit_output client_index e us =
     us\<lparr>us_outputs := AList.update client_index
          ((case map_of (us_outputs us) client_index of None \<Rightarrow> [] | Some es \<Rightarrow> es) @ [e]) (us_outputs us)\<rparr>"

text \<open>The loop body for one scheduled request.\<close>

definition update_one ::
  "(sched_request \<Rightarrow> nat list \<Rightarrow> bool) \<Rightarrow> scheduler_output \<Rightarrow> model_runner_output \<Rightarrow> string \<times> int
     \<Rightarrow> update_state \<Rightarrow> update_state run" where
  "update_one rejects so out scheduled us =
     (let (req_id, num_tokens_scheduled) = scheduled; s = us_sched us; config = sd_config s in
      if \<not> num_tokens_scheduled > 0 then Some (Inl AssertionError)
      else case map_of (sd_requests s) req_id of
        None \<Rightarrow> Some (Inr us)
      | Some q0 \<Rightarrow>
          if rq_is_finished (sr_core q0) then Some (Inr us)
          else
            xbind (Some (generated_tokens out req_id)) (\<lambda>generated.
            let q1 = reject_spec_tokens config
                       (map_of (so_scheduled_spec_decode_tokens so) req_id) generated q0;
                s1 = put_request q1 s
            in
            xbind (Some (if has_encoder_inputs (sr_core q1) then free_encoder_inputs q1 s1 else Inr s1)) (\<lambda>s2.
            xbind (update_request_with_output config generated q1) (\<lambda>(new_token_ids, stopped0, q2).
            let rejected = (new_token_ids \<noteq> [] \<and> rejects q2 new_token_ids);
                q3 = (if rejected
                      then on_core (\<lambda>r. r\<lparr>rq_status := FINISHED_ERROR, rq_resumable := False\<rparr>) q2 else q2);
                stopped = (stopped0 \<or> rejected);
                us1 = us\<lparr>us_sched := put_request q3 s2\<rparr>;
                e = \<lparr>eo_request_id = req_id, eo_new_token_ids = new_token_ids,
                     eo_finish_reason = (if stopped then get_finished_reason (sr_status q3) else None),
                     eo_stop_reason = sr_stop_reason q3\<rparr>
            in
            xbind (if stopped then settle_stopped req_id (sr_status q1) us1 else Some (Inr us1)) (\<lambda>us2.
            Some (Inr (if new_token_ids \<noteq> [] \<or> stopped then emit_output (sr_client_index q3) e us2
                       else us2)))))))"

fun drain_deferred :: "(int \<times> block_ref list) list \<Rightarrow> scheduler \<Rightarrow> scheduler res" where
  "drain_deferred [] s = Inr s"
| "drain_deferred ((fence, blocks) # rest) s =
     (if fence > sd_processed_step_seq s then Inr s
      else rbind (free_blocks (rev blocks) (kv_pool s)) (\<lambda>p.
           drain_deferred rest
             (s\<lparr>sd_deferred_frees := rest,
                sd_kv_cache_manager := set_pool p (sd_kv_cache_manager s)\<rparr>)))"

definition drain_deferred_frees :: "scheduler \<Rightarrow> scheduler res" where
  "drain_deferred_frees s = drain_deferred (sd_deferred_frees s) s"

text \<open>The stopped requests leave the queues.\<close>

definition remove_stopped :: "update_state \<Rightarrow> scheduler" where
  "remove_stopped us =
     (let s = us_sched us in
      s\<lparr>sd_running := remove_all (sd_running s) (us_stopped_running us),
        sd_waiting := (if us_stopped_preempted us = [] then sd_waiting s
                       else remove_requests (us_stopped_preempted us) (sd_waiting s))\<rparr>)"

text \<open>Events and statistics are taken, and the finished ids of each client are reported.\<close>

definition report :: "update_state \<Rightarrow> scheduler \<Rightarrow> (int, engine_core_outputs) dict \<times> scheduler" where
  "report us s =
     (let (events, km1) = kv_manager_take_events (sd_kv_cache_manager s);
          (stats, km2) = make_prefix_cache_stats km1;
          outs = map (\<lambda>(client, es). (client, \<lparr>es_outputs = es, es_finished_requests = None\<rparr>)) (us_outputs us);
          finished = (case sd_finished_req_ids_dict s of None \<Rightarrow> [] | Some d \<Rightarrow> d);
          outs1 = fold (\<lambda>(client, rids) o1.
                    AList.update client
                      ((case map_of o1 client of
                          None \<Rightarrow> \<lparr>es_outputs = [], es_finished_requests = None\<rparr>
                        | Some e \<Rightarrow> e)\<lparr>es_finished_requests := Some rids\<rparr>) o1) finished outs
      in (outs1, s\<lparr>sd_kv_cache_manager := km2,
                   sd_finished_req_ids_dict := map_option (\<lambda>_. []) (sd_finished_req_ids_dict s)\<rparr>))"

definition update_from_output ::
  "(sched_request \<Rightarrow> nat list \<Rightarrow> bool) \<Rightarrow> scheduler_output \<Rightarrow> model_runner_output \<Rightarrow> scheduler
     \<Rightarrow> ((int, engine_core_outputs) dict \<times> scheduler) run" where
  "update_from_output rejects so out s =
     xbind (validate_kv_cache_transition_results (so_kv_cache_state_transitions so)
              (mo_kv_cache_transition_results out) s) (\<lambda>s1.
     xbind (Some (if sd_defer_block_free s1 \<and> so_total_num_scheduled_tokens so > 0
                  then drain_deferred_frees (s1\<lparr>sd_processed_step_seq := sd_processed_step_seq s1 + 1\<rparr>)
                  else Inr s1)) (\<lambda>s2.
     xbind (xfold (update_one rejects so out) (so_num_scheduled_tokens so)
              \<lparr>us_sched = s2, us_outputs = [], us_stopped_running = [], us_stopped_preempted = []\<rparr>) (\<lambda>us.
     Some (Inr (report us (remove_stopped us))))))"

text \<open>Resetting the prefix cache, on request by preempting everything that runs first.\<close>

fun preempt_running :: "string list \<Rightarrow> scheduler \<Rightarrow> scheduler res" where
  "preempt_running [] s = Inr s"
| "preempt_running (req_id # rest) s =
     (let s1 = s\<lparr>sd_running := butlast (sd_running s)\<rparr> in
      rbind (dict_index (sd_requests s1) req_id) (\<lambda>q.
      rbind (preempt_request q s1) (\<lambda>s2.
      rbind (dict_index (sd_requests s2) req_id) (\<lambda>q2.
      preempt_running rest
        (put_request (on_core (\<lambda>r. r\<lparr>rq_num_output_placeholders := 0\<rparr>) q2) s2)))))"

definition scheduler_reset_prefix_cache :: "bool \<Rightarrow> scheduler \<Rightarrow> (bool \<times> scheduler) res" where
  "scheduler_reset_prefix_cache reset_running_requests s =
     rbind (if reset_running_requests then preempt_running (rev (sd_running s)) s else Inr s) (\<lambda>s1.
     rbind (kv_manager_reset_prefix_cache (sd_kv_cache_manager s1)) (\<lambda>(reset_successful, km).
     if reset_running_requests \<and> \<not> reset_successful then Inl RuntimeError
     else Inr (reset_successful, set_manager km s1)))"

section \<open>The rest of the interface\<close>

definition set_pause_state :: "pause_state \<Rightarrow> scheduler \<Rightarrow> scheduler" where
  "set_pause_state state s = s\<lparr>sd_pause_state := state\<rparr>"

definition has_finished_requests :: "scheduler \<Rightarrow> bool" where
  "has_finished_requests s \<longleftrightarrow> sd_finished_req_ids s \<noteq> []"

definition has_requests :: "scheduler \<Rightarrow> bool" where
  "has_requests s \<longleftrightarrow> get_num_unfinished_requests s > 0 \<or> has_finished_requests s"

definition scheduler_reset_encoder_cache :: "scheduler \<Rightarrow> scheduler" where
  "scheduler_reset_encoder_cache s = set_encoder_cache (encoder_reset (sd_encoder_cache_manager s)) s"

text \<open>The draft tokens of one request; \<open>validated q ts\<close> are the tokens of \<open>ts\<close> that the grammar of
  \<open>q\<close> lets through, all of them when it has none.\<close>

definition update_draft_one ::
  "(sched_request \<Rightarrow> nat list \<Rightarrow> nat list) \<Rightarrow> string \<times> nat list \<Rightarrow> scheduler \<Rightarrow> scheduler" where
  "update_draft_one validated draft s =
     (let (req_id, spec_token_ids) = draft in
      case map_of (sd_requests s) req_id of
        None \<Rightarrow> s
      | Some q \<Rightarrow>
          if rq_is_finished (sr_core q) then s
          else if sr_is_prefill_chunk q
          then put_request (on_core (\<lambda>r. r\<lparr>rq_spec_token_ids := []\<rparr>) q) s
          else put_request (on_core (\<lambda>r. r\<lparr>rq_spec_token_ids := validated q spec_token_ids\<rparr>) q) s)"

definition update_draft_token_ids ::
  "(sched_request \<Rightarrow> nat list \<Rightarrow> nat list) \<Rightarrow> string list \<Rightarrow> nat list list \<Rightarrow> scheduler \<Rightarrow> scheduler" where
  "update_draft_token_ids validated req_ids draft_token_ids s =
     fold (update_draft_one validated) (zip req_ids draft_token_ids) s"

end
