(* ===== verification/TierControl.thy ===== *)
theory TierControl
  imports StepOutput
begin

text \<open>
  The control of the tiers over whole runs of the engine: which transitions are pending when, how a
  session whose transition is pending is treated, and how capacity failures throttle demotion.
\<close>

section \<open>Hashing leaves the rest of a request alone\<close>

lemma extra_keys_memo:
  assumes "generate_block_hash_extra_keys env r a b i = Inr (k, j, r')"
  shows "same_but_memo r r'"
proof -
  have "same_but_memo r (snd (gen_prompt_embeds_extra_hash_keys env r a b))"
    by (simp add: gen_prompt_embeds_extra_hash_keys_def Let_def split: option.split)
  then show ?thesis using assms
    by (auto simp: generate_block_hash_extra_keys_def Let_def split: prod.splits elim!: rbindE)
qed

lemma hash_loop_memo:
  assumes "hash_loop env n a prev i r = Some out"
  shows "\<forall>hs r'. out = Inr (hs, r') \<longrightarrow> same_but_memo r r'"
proof (rule hash_loop.raw_induct [OF _ assms, where P = "\<lambda>env n a prev i r out. \<forall>hs r'. out = Inr (hs, r') \<longrightarrow> same_but_memo r r'"], goal_cases)
  case (1 hl env n a prev i r out)
  show ?case
  proof (intro allI impI)
    fix hs r' assume out: "out = Inr (hs, r')"
    show "same_but_memo r r'"
    proof (cases "a + n > rq_num_tokens r")
      case True
      then show ?thesis using "1"(2) out by simp
    next
      case False
      then obtain k j r1 where g: "generate_block_hash_extra_keys env r a (a + n) i = Inr (k, j, r1)"
        using "1"(2) out by (cases "generate_block_hash_extra_keys env r a (a + n) i") (auto split: prod.splits)
      obtain prev' rest where h: "hl env n (a + n) prev' j r1 = Some rest"
        and o: "rbind rest (\<lambda>(hashes, r''). Inr (the prev' # hashes, r'')) = Inr (hs, r')"
        using "1"(2) False g out by (auto simp: Let_def bind_eq_Some_conv)
      obtain hs' where "rest = Inr (hs', r')" using o by (auto elim!: rbindE)
      with "1"(1) [OF h] have "same_but_memo r1 r'" by blast
      then show ?thesis by (rule same_but_memo_trans [OF extra_keys_memo [OF g]])
    qed
  qed
qed

lemma update_block_hashes_frame:
  assumes "update_block_hashes env n r = Some (Inr r')"
  shows "\<exists>m hs. r' = r\<lparr>rq_prompt_embeds_per_block_hashes := m, rq_block_hashes := hs\<rparr>"
proof -
  obtain hs r1 where h: "request_block_hasher env n r = Some (Inr (hs, r1))"
    and r': "r' = r1\<lparr>rq_block_hashes := rq_block_hashes r1 @ hs\<rparr>"
    using assms by (auto simp: update_block_hashes_def elim!: rbindE)
  have "same_but_memo r r1"
    using h hash_loop_memo [of env n _ _ _ r "Inr (hs, r1)"]
    by (auto simp: request_block_hasher_def Let_def split: if_splits)
  then show ?thesis using r' by (auto simp: same_but_memo_def)
qed
section \<open>The tier bookkeeping and the sessions at rest\<close>

definition wf_requests :: "scheduler \<Rightarrow> bool" where
  "wf_requests s \<longleftrightarrow> distinct (dkeys (sd_requests s)) \<and>
     (\<forall>rid q. map_of (sd_requests s) rid = Some q \<longrightarrow> sr_id q = rid)"

definition tiers :: "scheduler \<Rightarrow> (string, kv_transition) dict \<times> (string, request_status) dict \<times> nat \<times> nat \<times> nat
    \<times> bool \<times> nat option \<times> sched_config" where
  "tiers s = (sd_pending_kv_transitions s, sd_pending_finish_requests s, sd_next_kv_transition_id s,
     sd_capacity_failure_count s, sd_capacity_cooldown_steps_remaining s, sd_capacity_probe_required s,
     sd_capacity_probe_transition_id s, sd_config s)"

definition rest_view :: "sched_request \<Rightarrow> bool \<times> request_status \<times> kv_block_state" where
  "rest_view q = (rq_resumable (sr_core q), sr_status q, rq_kv_cache_state (sr_core q))"

definition at_rest :: "sched_request \<Rightarrow> bool" where
  "at_rest q \<longleftrightarrow> sr_status q = WAITING_FOR_STREAMING_REQ"

text \<open>A piece of a step that leaves the bookkeeping and the sessions at rest alone.\<close>

definition steady :: "scheduler \<Rightarrow> scheduler \<Rightarrow> bool" where
  "steady s s' \<longleftrightarrow> wf_requests s' \<and> tiers s' = tiers s \<and>
     (\<forall>rid q. map_of (sd_requests s) rid = Some q \<longrightarrow> at_rest q \<longrightarrow>
        (\<exists>q'. map_of (sd_requests s') rid = Some q' \<and> rest_view q' = rest_view q))"

lemma steady_refl: "wf_requests s \<Longrightarrow> steady s s"
  by (simp add: steady_def)

lemma rest_view_at_rest: "rest_view q' = rest_view q \<Longrightarrow> at_rest q' = at_rest q"
  by (simp add: rest_view_def at_rest_def)

lemma steady_trans:
  assumes "steady s s'" "steady s' s''" shows "steady s s''"
proof -
  have "\<exists>q''. map_of (sd_requests s'') rid = Some q'' \<and> rest_view q'' = rest_view q"
    if q: "map_of (sd_requests s) rid = Some q" "at_rest q" for rid q
  proof -
    obtain q' where q': "map_of (sd_requests s') rid = Some q'" "rest_view q' = rest_view q"
      using assms(1) q unfolding steady_def by blast
    then obtain q'' where "map_of (sd_requests s'') rid = Some q''" "rest_view q'' = rest_view q'"
      using assms(2) rest_view_at_rest [OF q'(2)] q(2) unfolding steady_def by blast
    then show ?thesis using q'(2) by auto
  qed
  then show ?thesis using assms unfolding steady_def by auto
qed

lemma steady_frame:
  "wf_requests s \<Longrightarrow> sd_requests s' = sd_requests s \<Longrightarrow> tiers s' = tiers s \<Longrightarrow> steady s s'"
  by (simp add: steady_def wf_requests_def)

lemma wf_requests_cong: "wf_requests s \<Longrightarrow> sd_requests s' = sd_requests s \<Longrightarrow> wf_requests s'"
  by (simp add: wf_requests_def)

lemma tiers_put [simp]: "tiers (put_request q s) = tiers s"
  by (simp add: tiers_def put_request_def)

lemma wf_put: "wf_requests s \<Longrightarrow> wf_requests (put_request q s)"
  by (auto simp: wf_requests_def put_request_def split: if_splits)

lemma steady_put:
  assumes "wf_requests s" "map_of (sd_requests s) (sr_id q) = Some q0" "at_rest q0 \<Longrightarrow> rest_view q = rest_view q0"
  shows "steady s (put_request q s)"
  using assms by (auto simp: steady_def wf_put) (auto simp: put_request_def)

lemma wf_requestsD: "wf_requests s \<Longrightarrow> map_of (sd_requests s) rid = Some q \<Longrightarrow> sr_id q = rid"
  by (simp add: wf_requests_def)

lemma steady_wf: "steady s s' \<Longrightarrow> wf_requests s'"
  by (simp add: steady_def)

text \<open>A put of a changed request on top of other changes of the state.\<close>

lemma steady_put_after:
  assumes w: "wf_requests s" and q0: "map_of (sd_requests s) (sr_id q) = Some q0"
    and r: "at_rest q0 \<Longrightarrow> rest_view q = rest_view q0"
    and f: "sd_requests s1 = sd_requests s" "tiers s1 = tiers s"
  shows "steady s (put_request q s1)"
proof -
  have "wf_requests s1" using w f by (simp add: wf_requests_def)
  then have "steady s1 (put_request q s1)" by (rule steady_put [where ?q0.0 = q0]) (use q0 r f in auto)
  then show ?thesis by (rule steady_trans [OF steady_frame [OF w f]])
qed

section \<open>The running and the waiting requests\<close>

lemma set_manager_frame [simp]:
  "sd_requests (set_manager km s) = sd_requests s" "tiers (set_manager km s) = tiers s"
  "sd_requests (set_encoder_cache c s) = sd_requests s" "tiers (set_encoder_cache c s) = tiers s"
  "sd_requests (pop_waiting s) = sd_requests s" "tiers (pop_waiting s) = tiers s"
  by (simp_all add: set_manager_def set_encoder_cache_def pop_waiting_def tiers_def)

lemma free_request_blocks_frame:
  assumes "free_request_blocks q s = Inr s'"
  shows "sd_requests s' = sd_requests s \<and> tiers s' = tiers s"
  using assms by (auto simp: free_request_blocks_def Let_def tiers_def split: if_splits prod.splits elim!: rbindE)

lemma preempt_steady:
  assumes run: "preempt_request q s = Inr s'" and w: "wf_requests s" and q: "map_of (sd_requests s) (sr_id q) = Some q"
  shows "steady s s'"
proof -
  obtain s1 c where st: "sr_status q = RUNNING" and f: "free_request_blocks q s = Inr s1"
    and s': "s' = put_request (on_core (\<lambda>r. r\<lparr>rq_status := PREEMPTED, rq_num_computed_tokens := 0,
                               rq_spec_token_ids := [], rq_num_preemptions := rq_num_preemptions r + 1\<rparr>) q)
       (s1\<lparr>sd_encoder_cache_manager := c,
           sd_inflight_prefills := removeAll (sr_id q) (sd_inflight_prefills s1),
           sd_waiting := sr_id q # sd_waiting s1\<rparr>)"
    using run by (auto simp: preempt_request_def Let_def check_eq_Inr split: if_splits elim!: rbindE)
  note fr = free_request_blocks_frame [OF f]
  show ?thesis
    unfolding s' by (rule steady_put_after [OF w, where ?q0.0 = q]) (use q st fr in \<open>auto simp: at_rest_def tiers_def\<close>)
qed

lemma promote_steady:
  assumes "try_promote_blocked_waiting_request q s = Inr (b, s')" "wf_requests s" "map_of (sd_requests s) (sr_id q) = Some q"
  shows "steady s s'"
proof (cases "s' = s")
  case False
  then have "s' = put_request (set_status WAITING q) s" "sr_status q = WAITING_FOR_STRUCTURED_OUTPUT_GRAMMAR"
    using assms(1) by (auto simp: try_promote_blocked_waiting_request_def split: request_status.splits if_splits)
  then show ?thesis using steady_put [of s "set_status WAITING q" q] assms by (simp add: at_rest_def)
qed (use assms steady_refl in simp)

lemma record_encoder_inputs_frame:
  assumes "record_encoder_inputs r inputs b st = Inr st'"
  shows "sd_requests (ss_sched st') = sd_requests (ss_sched st) \<and> tiers (ss_sched st') = tiers (ss_sched st)"
  using assms by (auto simp: record_encoder_inputs_def with_sched_def split: if_splits elim!: rbindE)

lemma record_spec_tokens_steady:
  assumes "wf_requests (ss_sched st)" "map_of (sd_requests (ss_sched st)) (sr_id q) = Some q0"
    "rest_view q0 = rest_view q"
  shows "steady (ss_sched st) (ss_sched (record_spec_tokens q n st))"
proof -
  have "steady (ss_sched st) (put_request (on_core (\<lambda>r. r\<lparr>rq_spec_token_ids := []\<rparr>) q) (ss_sched st))"
    by (rule steady_put [where ?q0.0 = q0]) (use assms in \<open>simp_all add: rest_view_def\<close>)
  then show ?thesis using steady_refl [OF assms(1)]
    by (simp add: record_spec_tokens_def Let_def with_sched_def)
qed

lemma preempt_others:
  assumes "preempt_request v s = Inr s'" "rid \<noteq> sr_id v"
  shows "map_of (sd_requests s') rid = map_of (sd_requests s) rid"
  using assms free_request_blocks_frame
  by (fastforce simp: preempt_request_def Let_def put_request_def split: if_splits elim!: rbindE)

lemma slots_round_steady:
  assumes run: "slots_round rid k (st :: step_state) = Inr (answer, st')" and w: "wf_requests (ss_sched st)"
  shows "steady (ss_sched st) (ss_sched st') \<and>
    ((\<forall>b. answer \<noteq> Some (None :: kv_cache_blocks option)) \<longrightarrow>
       map_of (sd_requests (ss_sched st')) rid = map_of (sd_requests (ss_sched st)) rid)"
proof -
  let ?s = "ss_sched st"
  obtain q nb km where r: "(let s1 = set_manager km ?s in
      if nb \<noteq> None then Inr (Some nb, st\<lparr>ss_sched := s1\<rparr>)
      else if sd_running s1 = [] then Inl IndexError
      else
        let victim = last (sd_running s1); s2 = s1\<lparr>sd_running := butlast (sd_running s1)\<rparr>
        in rbind (dict_index (sd_requests s2) victim) (\<lambda>v. rbind (preempt_request v s2) (\<lambda>s3.
           Inr (if victim = rid then Some None else None,
                st\<lparr>ss_sched := s3, ss_preempted_reqs := ss_preempted_reqs st @ [victim]\<rparr>)))) = Inr (answer, st')"
    using run by (auto simp: slots_round_def Let_def [of "ss_sched st"] elim!: rbindE)
  define s2 where "s2 = (set_manager km ?s)\<lparr>sd_running := butlast (sd_running (set_manager km ?s))\<rparr>"
  have s2: "sd_requests s2 = sd_requests ?s" "tiers s2 = tiers ?s" by (simp_all add: s2_def tiers_def set_manager_def)
  show ?thesis
  proof (cases "nb = None")
    case False
    then have "st' = st\<lparr>ss_sched := set_manager km ?s\<rparr>" using r by (simp add: Let_def)
    then show ?thesis using steady_frame [OF w, of "set_manager km ?s"] by simp
  next
    case True
    then obtain v s3 where v: "map_of (sd_requests s2) (last (sd_running (set_manager km ?s))) = Some v"
      and p: "preempt_request v s2 = Inr s3" and o: "ss_sched st' = s3"
        "answer = (if last (sd_running (set_manager km ?s)) = rid then Some None else None)"
      using r by (auto simp: Let_def dict_index_Inr s2_def split: if_splits elim!: rbindE)
    have "sr_id v = last (sd_running (set_manager km ?s))" using wf_requestsD [OF w] v s2 by simp
    moreover have "wf_requests s2" using w s2 by (simp add: wf_requests_def)
    moreover note steady_trans [OF steady_frame [OF w s2] preempt_steady [OF p]]
    ultimately show ?thesis using v o preempt_others [OF p] s2 by auto
  qed
qed

lemma slots_or_preempt_steady:
  assumes "slots_or_preempt n rid k st = Inr (b, st')" "wf_requests (ss_sched st)"
  shows "steady (ss_sched st) (ss_sched st') \<and>
    (b \<noteq> None \<longrightarrow> map_of (sd_requests (ss_sched st')) rid = map_of (sd_requests (ss_sched st)) rid)"
  using assms
proof (induction n arbitrary: st)
  case (0 st)
  obtain answer st1 where a: "slots_round rid k st = Inr (answer, st1)"
    and r: "(case answer of Some b \<Rightarrow> Inr (b, st1) | None \<Rightarrow> Inl IndexError) = Inr (b, st')"
    using 0(1) by (auto elim!: rbindE)
  then have "answer = Some b" "st1 = st'" by (auto split: option.splits)
  with slots_round_steady [OF a 0(2)] show ?case by auto
next
  case (Suc n)
  obtain answer st1 where a: "slots_round rid k st = Inr (answer, st1)"
    and r: "(case answer of Some b \<Rightarrow> Inr (b, st1) | None \<Rightarrow> slots_or_preempt n rid k st1) = Inr (b, st')"
    using Suc.prems(1) by (auto elim!: rbindE)
  note one = slots_round_steady [OF a Suc.prems(2)]
  show ?case
  proof (cases answer)
    case None
    then have "slots_or_preempt n rid k st1 = Inr (b, st')" using r by simp
    note ih = Suc.IH [OF this steady_wf [OF conjunct1 [OF one]]]
    show ?thesis using ih one steady_trans [OF conjunct1 [OF one] conjunct1 [OF ih]] None by simp
  next
    case (Some b')
    then show ?thesis using one r by auto
  qed
qed

lemma schedule_running_one_steady:
  assumes run: "schedule_running_one d rid st = Inr (b, st')" and w: "wf_requests (ss_sched st)"
  shows "steady (ss_sched st) (ss_sched st')"
proof -
  let ?s = "ss_sched st"
  obtain q where q: "map_of (sd_requests ?s) rid = Some q"
    using run by (auto simp: schedule_running_one_def Let_def dict_index_Inr elim!: rbindE)
  show ?thesis
  proof (cases "passed_over d ?s q")
    case True
    then show ?thesis using run q steady_refl [OF w] by (simp add: schedule_running_one_def dict_index_def)
  next
    case False
    obtain inputs n b' c k where r: "(let st1 = with_sched (set_encoder_cache c) st in
        if k = 0 then Inr (True, st1)
        else rbind (slots_or_preempt (length (sd_running ?s)) rid k st1) (\<lambda>(new_blocks, st2).
          case new_blocks of None \<Rightarrow> Inr (False, st2)
          | Some bl \<Rightarrow>
              let st3 = st2\<lparr>ss_scheduled_running_reqs := ss_scheduled_running_reqs st2 @ [rid],
                            ss_req_to_new_blocks := AList.update rid bl (ss_req_to_new_blocks st2),
                            ss_num_scheduled_tokens := AList.update rid k (ss_num_scheduled_tokens st2),
                            ss_token_budget := ss_token_budget st2 - k\<rparr>
              in rbind (record_encoder_inputs (sr_core q) inputs b' (record_spec_tokens q k st3))
                   (\<lambda>st4. Inr (True, st4)))) = Inr (b, st')"
      using run q False
      by (auto simp: schedule_running_one_def dict_index_def Let_def [of "ss_sched st"] Let_def [of "sd_config (ss_sched st)"]
          Let_def [of "sr_core q"] Let_def [of "with_sched f st" for f] elim!: rbindE)
    define st1 where "st1 = with_sched (set_encoder_cache c) st"
    have st1: "sd_requests (ss_sched st1) = sd_requests ?s" "tiers (ss_sched st1) = tiers ?s"
      by (simp_all add: st1_def with_sched_def)
    have w1: "wf_requests (ss_sched st1)" using w st1 by (simp add: wf_requests_def)
    note f1 = steady_frame [OF w st1]
    show ?thesis
    proof (cases "k = 0")
      case True
      then show ?thesis using r f1 by (simp add: Let_def st1_def)
    next
      case False
      obtain nb st2 where sl: "slots_or_preempt (length (sd_running ?s)) rid k st1 = Inr (nb, st2)"
        and c: "(nb = None \<and> st' = st2) \<or> (nb \<noteq> None \<and> (\<exists>st3. ss_sched st3 = ss_sched st2 \<and>
            record_encoder_inputs (sr_core q) inputs b' (record_spec_tokens q k st3) = Inr st'))"
        using r False by (auto simp: Let_def st1_def [symmetric] split: option.splits elim!: rbindE) (metis step_state.select_convs(1) step_state.surjective step_state.update_convs(2,4,8,9))
      note so = slots_or_preempt_steady [OF sl w1]
      note s2 = steady_trans [OF f1 conjunct1 [OF so]]
      from c show ?thesis
      proof (elim disjE conjE exE)
        fix st3 assume nb: "nb \<noteq> None" and st3: "ss_sched st3 = ss_sched st2"
          and re: "record_encoder_inputs (sr_core q) inputs b' (record_spec_tokens q k st3) = Inr st'"
        have "map_of (sd_requests (ss_sched st3)) (sr_id q) = Some q"
          using so nb q st1 st3 wf_requestsD [OF w q] by simp
        then have s3: "steady (ss_sched st2) (ss_sched (record_spec_tokens q k st3))"
          using record_spec_tokens_steady [of st3 q q k] steady_wf [OF s2] st3 by simp
        note re' = record_encoder_inputs_frame [OF re]
        show ?thesis
          using steady_trans [OF s2 steady_trans [OF s3 steady_frame [OF steady_wf [OF s3]]]] re' by blast
      qed (use s2 in simp)
    qed
  qed
qed

lemma running_loop_steady:
  assumes "running_loop d n i st = Inr st'" "wf_requests (ss_sched st)"
  shows "steady (ss_sched st) (ss_sched st')"
  using assms
proof (induction d n i st rule: running_loop.induct)
  case (1 d i st)
  then show ?case by (simp add: steady_refl)
next
  case (2 d n i st)
  show ?case
  proof (cases "i < length (sd_running (ss_sched st)) \<and> ss_token_budget st > 0")
    case True
    obtain go st1 where o: "schedule_running_one d (sd_running (ss_sched st) ! i) st = Inr (go, st1)"
      and r: "(if go then running_loop d n (i + 1) st1 else Inr st1) = Inr st'"
      using "2.prems"(1) True by (auto elim!: rbindE)
    note s1 = schedule_running_one_steady [OF o "2.prems"(2)]
    show ?thesis
    proof (cases go)
      case go: True
      have "running_loop d n (i + 1) st1 = Inr st'" using r go by simp
      from "2.IH" [OF True o refl go this steady_wf [OF s1]] show ?thesis by (rule steady_trans [OF s1])
    qed (use r s1 in simp)
  qed (use 2 steady_refl in auto)
qed

lemma waiting_computed_frame:
  assumes "waiting_computed r s = Some (Inr (bs, n, k, u, s'))"
  shows "sd_requests s' = sd_requests s \<and> tiers s' = tiers s"
  using assms by (auto simp: waiting_computed_def Let_def split: if_splits elim!: xbindE)

lemma size_waiting_frame:
  assumes "size_waiting q nl n u st = Inr (z, st')"
  shows "sd_requests (ss_sched st') = sd_requests (ss_sched st) \<and> tiers (ss_sched st') = tiers (ss_sched st)"
  using assms by (auto simp: size_waiting_def Let_def with_sched_def split: option.splits if_splits elim!: rbindE)

lemma start_request_steady:
  assumes run: "start_request q k n inputs b st = Inr st'" and w: "wf_requests (ss_sched st)"
    and q: "map_of (sd_requests (ss_sched st)) (sr_id q) = Some q"
  shows "steady (ss_sched st) (ss_sched st')"
proof -
  let ?s = "ss_sched st"
  let ?q = "on_core (\<lambda>r. r\<lparr>rq_status := RUNNING, rq_num_computed_tokens := n\<rparr>) q"
  show ?thesis
  proof (rule rbindE [OF run [unfolded start_request_def Let_def]], goal_cases)
    case (1 st2)
    have st: "sr_status q = WAITING \<or> sr_status q = PREEMPTED"
      and st2: "sd_requests (ss_sched st2) = sd_requests ?s" "tiers (ss_sched st2) = tiers ?s"
      using 1(1) by (auto simp: with_sched_def tiers_def pop_waiting_def split: request_status.splits if_splits)
    define s1 where "s1 = (if n + k < int (rq_num_tokens (sr_core q))
      then (ss_sched st2)\<lparr>sd_inflight_prefills := List.insert (sr_id q) (sd_inflight_prefills (ss_sched st2))\<rparr>
      else ss_sched st2)"
    have s1: "sd_requests s1 = sd_requests ?s" "tiers s1 = tiers ?s" using st2 by (simp_all add: s1_def tiers_def)
    have p: "steady ?s (put_request ?q s1)"
      by (rule steady_put_after [OF w, where ?q0.0 = q]) (use q st s1 in \<open>auto simp: at_rest_def\<close>)
    have "sd_requests (ss_sched st') = sd_requests (put_request ?q s1)" "tiers (ss_sched st') = tiers (put_request ?q s1)"
      using record_encoder_inputs_frame [OF 1(2)] by (simp_all add: with_sched_def s1_def)
    with p show ?thesis using steady_trans [OF p steady_frame [OF steady_wf [OF p]]] by blast
  qed
qed

lemma schedule_waiting_one_steady:
  assumes run: "schedule_waiting_one d rid st = Some (Inr (b, st'))" and w: "wf_requests (ss_sched st)"
  shows "steady (ss_sched st) (ss_sched st')"
proof -
  let ?s = "ss_sched st"
  obtain q0 ready s0 where q0: "map_of (sd_requests ?s) rid = Some q0"
    and p: "(if is_blocked_waiting_status (sr_status q0) then try_promote_blocked_waiting_request q0 ?s
             else Inr (True, ?s)) = Inr (ready, s0)"
    using run by (auto simp: schedule_waiting_one_def dict_index_Inr elim!: xbindE)
  have id0: "sr_id q0 = rid" by (rule wf_requestsD [OF w q0])
  have s0: "steady ?s s0"
    using p promote_steady [of q0 ?s ready s0] w q0 id0 steady_refl [OF w] by (auto split: if_splits)
  show ?thesis
  proof (cases ready)
    case False
    then have "st' = skip_waiting rid st"
      using run q0 p by (simp add: schedule_waiting_one_def dict_index_def)
    then show ?thesis using steady_frame [OF w] by (simp add: skip_waiting_def with_sched_def)
  next
    case True
    obtain q bs nl n u s1 where q: "map_of (sd_requests s0) rid = Some q"
      and wc: "waiting_computed (sr_core q) s0 = Some (Inr (bs, nl, n, u, s1))"
      using run q0 p True by (auto simp: schedule_waiting_one_def dict_index_def [of "sd_requests (ss_sched st)"] dict_index_Inr Let_def elim!: xbindE)
    note f1 = waiting_computed_frame [OF wc]
    define st1 where "st1 = st\<lparr>ss_sched := s1\<rparr>"
    have t1: "steady ?s (ss_sched st1)"
      using steady_trans [OF s0 steady_frame [OF steady_wf [OF s0]]] f1 by (simp add: st1_def)
    show ?thesis
    proof (cases "d \<and> rq_num_computed_tokens (sr_core q) = 0")
      case True
      then have "st' = st1"
        using run q0 p \<open>ready\<close> q wc by (simp add: schedule_waiting_one_def dict_index_def Let_def st1_def)
      then show ?thesis using t1 by simp
    next
      case False
      obtain z st2 where sz: "size_waiting q nl n u st1 = Inr (z, st2)"
        and r: "(case z of None \<Rightarrow> Some (Inr (False, st2))
         | Some (num_new_tokens, inputs, new_budget) \<Rightarrow>
             let s2 = ss_sched st2; config = sd_config s2 in
             xbind (Some (allocate_slots (sf_env config) (sr_core q) num_new_tokens nl (Some bs)
                            (sf_num_lookahead_tokens config) 0 False 0 (sf_reserve_full_isl config) 0
                            (sd_running s2 \<noteq> []) (sd_kv_cache_manager s2))) (\<lambda>(new_blocks, km).
             let st3 = with_sched (set_manager km) st2 in
             if new_blocks = None
             then xbind (Some (if has_encoder_inputs (sr_core q)
                               then encoder_free (sr_core q) (sd_encoder_cache_manager (ss_sched st3))
                               else Inr (sd_encoder_cache_manager (ss_sched st3)))) (\<lambda>c.
                  Some (Inr (False, with_sched (set_encoder_cache c) st3)))
             else xbind (Some (start_request q num_new_tokens n inputs new_budget st3))
                    (\<lambda>st4. Some (Inr (True, st4))))) = Some (Inr (b, st'))"
        using run q0 p \<open>ready\<close> q wc False
        by (auto simp: schedule_waiting_one_def dict_index_def Let_def [of "sr_core q"] Let_def [of "st\<lparr>ss_sched := s1\<rparr>"]
            st1_def [symmetric] elim!: xbindE)
      note f2 = size_waiting_frame [OF sz]
      have t2: "steady ?s (ss_sched st2)" using steady_trans [OF t1 steady_frame [OF steady_wf [OF t1]]] f2 by blast
      have q2: "map_of (sd_requests (ss_sched st2)) (sr_id q) = Some q"
        using q f1 f2 wf_requestsD [OF steady_wf [OF s0] q] by (simp add: st1_def)
      have end1: "(sd_requests (ss_sched st') = sd_requests (ss_sched st2) \<and> tiers (ss_sched st') = tiers (ss_sched st2)) \<or>
          (\<exists>km k inputs nb. start_request q k n inputs nb (with_sched (set_manager km) st2) = Inr st')"
        using r by (auto simp: Let_def with_sched_def split: option.splits if_splits elim!: xbindE)
      then show ?thesis
      proof (elim disjE exE)
        fix km k inputs nb assume s: "start_request q k n inputs nb (with_sched (set_manager km) st2) = Inr st'"
        have t3: "steady ?s (ss_sched (with_sched (set_manager km) st2))"
          using steady_trans [OF t2 steady_frame [OF steady_wf [OF t2]]] by (simp add: with_sched_def)
        show ?thesis
          by (rule steady_trans [OF t3 start_request_steady [OF s steady_wf [OF t3]]]) (use q2 in \<open>simp add: with_sched_def\<close>)
      qed (use steady_trans [OF t2 steady_frame [OF steady_wf [OF t2]]] in blast)
    qed
  qed
qed

lemma waiting_loop_steady:
  assumes "waiting_loop d n st = Some (Inr st')" "wf_requests (ss_sched st)"
  shows "steady (ss_sched st) (ss_sched st')"
  using assms
proof (induction d n st rule: waiting_loop.induct)
  case (1 d st)
  then show ?case by (simp add: steady_refl)
next
  case (2 d n st)
  show ?case
  proof (cases "waiting_head (ss_sched st) = None \<or> \<not> ss_token_budget st > 0 \<or>
      length (sd_running (ss_sched st)) = sf_max_num_running_reqs (sd_config (ss_sched st))")
    case True
    then have "st' = st" using "2.prems"(1) by (auto split: option.splits if_splits)
    then show ?thesis using steady_refl [OF "2.prems"(2)] by simp
  next
    case False
    then obtain rid where h: "waiting_head (ss_sched st) = Some rid" "\<not> \<not> ss_token_budget st > 0"
      "length (sd_running (ss_sched st)) \<noteq> sf_max_num_running_reqs (sd_config (ss_sched st))" by auto
    obtain go st1 where o: "schedule_waiting_one d rid st = Some (Inr (go, st1))"
      and r: "(if go then waiting_loop d n st1 else Some (Inr st1)) = Some (Inr st')"
      using "2.prems"(1) h by (auto elim!: xbindE)
    note s1 = schedule_waiting_one_steady [OF o "2.prems"(2)]
    show ?thesis
    proof (cases go)
      case True
      from "2.IH" [OF h o refl True _ steady_wf [OF s1]] r True
      show ?thesis by (simp add: steady_trans [OF s1])
    qed (use r s1 in simp)
  qed
qed

lemma schedule_requests_steady:
  assumes run: "schedule_requests t s = Some (Inr st)" and w: "wf_requests s"
  shows "steady s (ss_sched st)"
proof -
  obtain d st1 where r1: "running_loop d (length (sd_running s)) 0 (new_step_state s) = Inr st1"
    and r2: "schedule_waiting d st1 = Some (Inr st)"
    using run by (auto simp: schedule_requests_def Let_def elim!: xbindE)
  have s1: "steady s (ss_sched st1)" using running_loop_steady [OF r1] w by (simp add: new_step_state_def)
  have "steady (ss_sched st1) (ss_sched st)"
  proof (cases "st = st1")
    case False
    then obtain st2 n where l: "waiting_loop d n st1 = Some (Inr st2)"
      and e: "sd_requests (ss_sched st) = sd_requests (ss_sched st2)" "tiers (ss_sched st) = tiers (ss_sched st2)"
      using r2 by (auto simp: schedule_waiting_def Let_def with_sched_def tiers_def split: if_splits elim!: xbindE)
    note s2 = waiting_loop_steady [OF l steady_wf [OF s1]]
    show ?thesis by (rule steady_trans [OF s2 steady_frame [OF steady_wf [OF s2] e]])
  qed (use steady_refl [OF steady_wf [OF s1]] in simp)
  then show ?thesis by (rule steady_trans [OF s1])
qed

section \<open>Signals and inputs from outside\<close>

definition throttle :: "scheduler \<Rightarrow> (string, kv_transition) dict \<times> nat \<times> nat \<times> nat \<times> bool \<times> nat option \<times> sched_config" where
  "throttle s = (sd_pending_kv_transitions s, sd_next_kv_transition_id s, sd_capacity_failure_count s,
     sd_capacity_cooldown_steps_remaining s, sd_capacity_probe_required s, sd_capacity_probe_transition_id s,
     sd_config s)"

text \<open>Sessions with a pending transition stay as they are; finish signals for them are put off.\<close>

definition gentle :: "scheduler \<Rightarrow> scheduler \<Rightarrow> bool" where
  "gentle s s' \<longleftrightarrow> wf_requests s' \<and> throttle s' = throttle s \<and>
     set (dkeys (sd_pending_finish_requests s')) \<subseteq> set (dkeys (sd_pending_finish_requests s)) \<union> set (dkeys (sd_pending_kv_transitions s)) \<and>
     (\<forall>rid q. is_pending s rid \<longrightarrow> map_of (sd_requests s) rid = Some q \<longrightarrow> at_rest q \<longrightarrow>
        (\<exists>q'. map_of (sd_requests s') rid = Some q' \<and> rest_view q' = rest_view q))"

lemma throttle_pending: "throttle s' = throttle s \<Longrightarrow> sd_pending_kv_transitions s' = sd_pending_kv_transitions s"
  by (simp add: throttle_def)

lemma tiers_throttle: "tiers s' = tiers s \<Longrightarrow> throttle s' = throttle s \<and> sd_pending_finish_requests s' = sd_pending_finish_requests s"
  by (simp add: tiers_def throttle_def)

lemma gentleD:
  assumes "gentle s s'"
  shows "wf_requests s'" "throttle s' = throttle s"
    "set (dkeys (sd_pending_finish_requests s')) \<subseteq> set (dkeys (sd_pending_finish_requests s)) \<union> set (dkeys (sd_pending_kv_transitions s))"
    "\<And>rid q. is_pending s rid \<Longrightarrow> map_of (sd_requests s) rid = Some q \<Longrightarrow> at_rest q \<Longrightarrow>
        \<exists>q'. map_of (sd_requests s') rid = Some q' \<and> rest_view q' = rest_view q"
    "sd_pending_kv_transitions s' = sd_pending_kv_transitions s"
proof -
  note a = assms [unfolded gentle_def]
  show "wf_requests s'" by (rule conjunct1 [OF a])
  note a = conjunct2 [OF a]
  show t: "throttle s' = throttle s" by (rule conjunct1 [OF a])
  show "sd_pending_kv_transitions s' = sd_pending_kv_transitions s" by (rule throttle_pending [OF t])
  note a = conjunct2 [OF a]
  show "set (dkeys (sd_pending_finish_requests s')) \<subseteq> set (dkeys (sd_pending_finish_requests s)) \<union> set (dkeys (sd_pending_kv_transitions s))"
    by (rule conjunct1 [OF a])
  show "\<exists>q'. map_of (sd_requests s') rid = Some q' \<and> rest_view q' = rest_view q"
    if "is_pending s rid" "map_of (sd_requests s) rid = Some q" "at_rest q" for rid q
    using conjunct2 [OF a, rule_format, OF that] .
qed

lemma gentleI:
  assumes "wf_requests s'" "throttle s' = throttle s"
    "set (dkeys (sd_pending_finish_requests s')) \<subseteq> set (dkeys (sd_pending_finish_requests s)) \<union> set (dkeys (sd_pending_kv_transitions s))"
    "\<And>rid q. is_pending s rid \<Longrightarrow> map_of (sd_requests s) rid = Some q \<Longrightarrow> at_rest q \<Longrightarrow>
        \<exists>q'. map_of (sd_requests s') rid = Some q' \<and> rest_view q' = rest_view q"
  shows "gentle s s'"
  unfolding gentle_def using assms(1-3) by (intro conjI allI impI assms(4))

lemma steadyD:
  assumes "steady s s'"
  shows "wf_requests s'" "tiers s' = tiers s"
    "\<And>rid q. map_of (sd_requests s) rid = Some q \<Longrightarrow> at_rest q \<Longrightarrow>
        \<exists>q'. map_of (sd_requests s') rid = Some q' \<and> rest_view q' = rest_view q"
proof -
  note a = assms [unfolded steady_def]
  show "wf_requests s'" by (rule conjunct1 [OF a])
  note a = conjunct2 [OF a]
  show "tiers s' = tiers s" by (rule conjunct1 [OF a])
  show "\<exists>q'. map_of (sd_requests s') rid = Some q' \<and> rest_view q' = rest_view q"
    if "map_of (sd_requests s) rid = Some q" "at_rest q" for rid q
    using conjunct2 [OF a, rule_format, OF that] .
qed

lemma steady_gentle: "steady s s' \<Longrightarrow> gentle s s'"
  by (rule gentleI [OF steadyD(1) conjunct1 [OF tiers_throttle [OF steadyD(2)]]])
    (simp_all add: tiers_throttle [OF steadyD(2)] steadyD(3))

lemma gentle_refl: "wf_requests s \<Longrightarrow> gentle s s"
  by (rule gentleI) simp_all

lemma gentle_trans:
  assumes a: "gentle s s'" and b: "gentle s' s''" shows "gentle s s''"
proof (rule gentleI)
  show "wf_requests s''" by (rule gentleD [OF b])
  show "throttle s'' = throttle s" using gentleD(2) [OF a] gentleD(2) [OF b] by simp
  show "set (dkeys (sd_pending_finish_requests s'')) \<subseteq> set (dkeys (sd_pending_finish_requests s)) \<union> set (dkeys (sd_pending_kv_transitions s))"
    by (rule subset_trans [OF gentleD(3) [OF b, unfolded gentleD(5) [OF a]] Un_least [OF gentleD(3) [OF a] Un_upper2]])
next
  fix rid q assume q: "is_pending s rid" "map_of (sd_requests s) rid = Some q" "at_rest q"
  obtain q' where q': "map_of (sd_requests s') rid = Some q'" "rest_view q' = rest_view q"
    using gentleD(4) [OF a q] by (elim exE conjE)
  have "is_pending s' rid" using q(1) gentleD(5) [OF a] by simp
  from gentleD(4) [OF b this q'(1)] rest_view_at_rest [OF q'(2)] q(3) q'(2)
  show "\<exists>q'. map_of (sd_requests s'') rid = Some q' \<and> rest_view q' = rest_view q" by simp
qed

text \<open>What changes only a request without a pending transition.\<close>

lemma gentle_one:
  assumes w: "wf_requests s'" and t: "throttle s' = throttle s"
    and p: "sd_pending_finish_requests s' = sd_pending_finish_requests s" and n: "\<not> is_pending s rid"
    and o: "\<And>r. r \<noteq> rid \<Longrightarrow> map_of (sd_requests s') r = map_of (sd_requests s) r"
  shows "gentle s s'"
proof (rule gentleI [OF w t])
  fix r q assume "is_pending s r" "map_of (sd_requests s) r = Some q"
  then show "\<exists>q'. map_of (sd_requests s') r = Some q' \<and> rest_view q' = rest_view q"
    using n o [of r] by (cases "r = rid") simp_all
qed (simp add: p)

lemma gentle_frame:
  "wf_requests s \<Longrightarrow> sd_requests s' = sd_requests s \<Longrightarrow> throttle s' = throttle s \<Longrightarrow>
     sd_pending_finish_requests s' = sd_pending_finish_requests s \<Longrightarrow> gentle s s'"
  by (rule gentleI) (simp_all add: wf_requests_def)

lemma throttle_put [simp]: "throttle (put_request q s) = throttle s"
  "sd_pending_finish_requests (put_request q s) = sd_pending_finish_requests s"
  by (simp_all add: throttle_def put_request_def)

lemma map_of_put [simp]:
  "map_of (sd_requests (put_request q s)) rid = (if rid = sr_id q then Some q else map_of (sd_requests s) rid)"
  by (simp add: put_request_def)

lemma wf_delete: "wf_requests s \<Longrightarrow> sd_requests s' = AList.delete rid (sd_requests s) \<Longrightarrow> wf_requests s'"
  by (auto simp: wf_requests_def split: if_splits)

lemma free_request_frame:
  assumes run: "free_request q d s = Inr s'"
  shows "throttle s' = throttle s \<and> sd_pending_finish_requests s' = sd_pending_finish_requests s \<and>
    \<not> is_pending s (sr_id q) \<and>
    sd_requests s' = (if d then sd_requests s else AList.delete (sr_id q) (sd_requests s))"
proof -
  have fb: "tiers s2 = tiers s1 \<and> sd_requests s2 = AList.delete (sr_id q) (sd_requests s1)"
    if f: "free_blocks_of q s1 = Inr s2" for s1 s2
  proof -
    obtain s3 where "free_request_blocks q s1 = Inr s3" "s2 = s3\<lparr>sd_requests := AList.delete (sr_id q) (sd_requests s3)\<rparr>"
      using f by (auto simp: free_blocks_of_def elim!: rbindE)
    then show ?thesis using free_request_blocks_frame [of q s1 s3] by (simp add: tiers_def)
  qed
  obtain c where np: "\<not> is_pending s (sr_id q)"
    and r: "(let s1 = note_finished q (s\<lparr>sd_inflight_prefills := removeAll (sr_id q) (sd_inflight_prefills s),
                 sd_encoder_cache_manager := c\<rparr>)
             in if \<not> d then free_blocks_of q s1 else Inr s1) = Inr s'"
    using run by (auto simp: free_request_def split: if_splits elim!: rbindE)
  define s1 where "s1 = note_finished q (s\<lparr>sd_inflight_prefills := removeAll (sr_id q) (sd_inflight_prefills s),
                 sd_encoder_cache_manager := c\<rparr>)"
  have s1: "tiers s1 = tiers s" "sd_requests s1 = sd_requests s"
    by (simp_all add: s1_def note_finished_def tiers_def)
  have "tiers s' = tiers s \<and> sd_requests s' = (if d then sd_requests s else AList.delete (sr_id q) (sd_requests s))"
    using r fb [of s1 s'] s1 by (auto simp: Let_def s1_def [symmetric] split: if_splits)
  then have a: "tiers s' = tiers s" "sd_requests s' = (if d then sd_requests s else AList.delete (sr_id q) (sd_requests s))"
    by simp_all
  show ?thesis by (intro conjI np a(2) conjunct1 [OF tiers_throttle [OF a(1)]] conjunct2 [OF tiers_throttle [OF a(1)]])
qed

lemma collect_finish_frame:
  fixes A :: "string list" and s s' :: scheduler
  assumes "fold (collect_finish st) rids (A, B, C, s) = (A', B', C', s')"
    and "\<And>r. r \<in> set C \<Longrightarrow> is_pending s r \<Longrightarrow> r \<in> set (dkeys (sd_pending_finish_requests s))"
    and "\<And>r. r \<in> set C \<Longrightarrow> r \<in> set (dkeys (sd_requests s))"
  shows "sd_requests s' = sd_requests s \<and> throttle s' = throttle s \<and>
    set (dkeys (sd_pending_finish_requests s')) \<subseteq> set (dkeys (sd_pending_finish_requests s)) \<union> set (dkeys (sd_pending_kv_transitions s)) \<and>
    (\<forall>r \<in> set C'. r \<in> set (dkeys (sd_requests s)) \<and> (is_pending s r \<longrightarrow> r \<in> set (dkeys (sd_pending_finish_requests s'))))"
  using assms
proof (induction rids arbitrary: A B C s)
  case (Cons r rids)
  obtain A1 B1 C1 s1 where c: "collect_finish st r (A, B, C, s) = (A1, B1, C1, s1)" by (metis prod_cases4)
  have s1: "sd_requests s1 = sd_requests s" "throttle s1 = throttle s"
    "set (dkeys (sd_pending_finish_requests s1)) \<subseteq> set (dkeys (sd_pending_finish_requests s)) \<union> set (dkeys (sd_pending_kv_transitions s))"
    "set (dkeys (sd_pending_finish_requests s)) \<subseteq> set (dkeys (sd_pending_finish_requests s1))"
    "set C1 \<subseteq> set C \<union> {r}" "r \<in> set C1 \<longrightarrow> r \<in> set C \<or> (r \<in> set (dkeys (sd_requests s)) \<and> (is_pending s r \<longrightarrow> r \<in> set (dkeys (sd_pending_finish_requests s1))))"
  proof -
    consider "C1 = C" "s1 = s"
      | q where "map_of (sd_requests s) r = Some q" "C1 = C @ [r]" "is_pending s r"
          "s1 = s\<lparr>sd_pending_finish_requests := AList.update r st (sd_pending_finish_requests s)\<rparr>"
      | q where "map_of (sd_requests s) r = Some q" "C1 = C @ [r]" "\<not> is_pending s r"
          "sd_requests s1 = sd_requests s" "throttle s1 = throttle s"
          "sd_pending_finish_requests s1 = sd_pending_finish_requests s"
    proof (cases "map_of (sd_requests s) r")
      case None
      then show ?thesis using c by (intro that(1)) (simp_all add: collect_finish_def)
    next
      case (Some q)
      consider "rq_is_finished (sr_core q)" | "\<not> rq_is_finished (sr_core q)" "is_pending s r"
        | "\<not> rq_is_finished (sr_core q)" "\<not> is_pending s r" by metis
      then show ?thesis
      proof cases
        case 1
        then show ?thesis using c Some by (intro that(1)) (simp_all add: collect_finish_def)
      next
        case 2
        then show ?thesis using c Some by (intro that(2) [of q]) (simp_all add: collect_finish_def)
      next
        case 3
        then show ?thesis using c Some
          by (intro that(3) [of q]) (simp_all add: collect_finish_def throttle_def split: if_splits, auto)
      qed
    qed
    note c3 = this
    have mem: "r \<in> set (dkeys (sd_requests s))" if "map_of (sd_requests s) r = Some q" for q
      using that map_of_None_iff [of "sd_requests s" r] by simp
    from c3 have all: "sd_requests s1 = sd_requests s \<and> throttle s1 = throttle s \<and>
      set (dkeys (sd_pending_finish_requests s1)) \<subseteq> set (dkeys (sd_pending_finish_requests s)) \<union> set (dkeys (sd_pending_kv_transitions s)) \<and>
      set (dkeys (sd_pending_finish_requests s)) \<subseteq> set (dkeys (sd_pending_finish_requests s1)) \<and>
      set C1 \<subseteq> set C \<union> {r} \<and> (r \<in> set C1 \<longrightarrow> r \<in> set C \<or> (r \<in> set (dkeys (sd_requests s)) \<and> (is_pending s r \<longrightarrow> r \<in> set (dkeys (sd_pending_finish_requests s1)))))"
    proof cases
      case 1
      then show ?thesis by (simp add: subset_insertI)
    next
      case (2 q)
      then show ?thesis using mem [OF 2(1)] by (simp add: throttle_def dom_update subset_insertI)
    next
      case (3 q)
      then show ?thesis using mem [OF 3(1)] by simp
    qed
    show "sd_requests s1 = sd_requests s" "throttle s1 = throttle s"
      "set (dkeys (sd_pending_finish_requests s1)) \<subseteq> set (dkeys (sd_pending_finish_requests s)) \<union> set (dkeys (sd_pending_kv_transitions s))"
      "set (dkeys (sd_pending_finish_requests s)) \<subseteq> set (dkeys (sd_pending_finish_requests s1))"
      "set C1 \<subseteq> set C \<union> {r}" "r \<in> set C1 \<longrightarrow> r \<in> set C \<or> (r \<in> set (dkeys (sd_requests s)) \<and> (is_pending s r \<longrightarrow> r \<in> set (dkeys (sd_pending_finish_requests s1))))"
      by (rule conjunct1 [OF all], rule conjunct1 [OF conjunct2 [OF all]], rule conjunct1 [OF conjunct2 [OF conjunct2 [OF all]]], rule conjunct1 [OF conjunct2 [OF conjunct2 [OF conjunct2 [OF all]]]], rule conjunct1 [OF conjunct2 [OF conjunct2 [OF conjunct2 [OF conjunct2 [OF all]]]]], rule conjunct2 [OF conjunct2 [OF conjunct2 [OF conjunct2 [OF conjunct2 [OF all]]]]])
  qed
  have p: "sd_pending_kv_transitions s1 = sd_pending_kv_transitions s" by (rule throttle_pending [OF s1(2)])
  have "fold (collect_finish st) rids (A1, B1, C1, s1) = (A', B', C', s')" using Cons.prems(1) c by simp
  moreover have "r' \<in> set (dkeys (sd_pending_finish_requests s1))" if "r' \<in> set C1" "is_pending s1 r'" for r'
    using that s1(4,5,6) Cons.prems(2) unfolding p by blast
  moreover have "r' \<in> set (dkeys (sd_requests s1))" if "r' \<in> set C1" for r'
    using that s1(1,5,6) Cons.prems(3) by auto
  ultimately have ih: "sd_requests s' = sd_requests s1 \<and> throttle s' = throttle s1 \<and>
    set (dkeys (sd_pending_finish_requests s')) \<subseteq> set (dkeys (sd_pending_finish_requests s1)) \<union> set (dkeys (sd_pending_kv_transitions s1)) \<and>
    (\<forall>r \<in> set C'. r \<in> set (dkeys (sd_requests s1)) \<and> (is_pending s1 r \<longrightarrow> r \<in> set (dkeys (sd_pending_finish_requests s'))))"
    by (rule Cons.IH)
  have "set (dkeys (sd_pending_finish_requests s')) \<subseteq> set (dkeys (sd_pending_finish_requests s)) \<union> set (dkeys (sd_pending_kv_transitions s))"
    by (rule subset_trans [OF conjunct1 [OF conjunct2 [OF conjunct2 [OF ih]], unfolded p] Un_least [OF s1(3) Un_upper2]])
  then show ?case using ih s1(1,2) unfolding p by simp
qed auto

lemma finish_one_gentle:
  assumes run: "finish_one st rid s = Inr s'" and w: "wf_requests s"
    and p: "is_pending s rid \<Longrightarrow> rid \<in> set (dkeys (sd_pending_finish_requests s))"
  shows "gentle s s' \<and> sd_pending_finish_requests s' = sd_pending_finish_requests s"
proof (cases "rid \<in> set (dkeys (sd_pending_finish_requests s))")
  case True
  then show ?thesis using run gentle_refl [OF w] by (simp add: finish_one_def)
next
  case False
  obtain q where q: "map_of (sd_requests s) rid = Some q"
    and f: "free_request (set_status st q) (sr_status q = WAITING_FOR_REMOTE_KVS) (put_request (set_status st q) s) = Inr s'"
    using run False by (auto simp: finish_one_def dict_index_Inr Let_def elim!: rbindE)
  have qid: "sr_id q = rid" by (rule wf_requestsD [OF w q])
  let ?s = "put_request (set_status st q) s"
  note fr = free_request_frame [OF f]
  have fr2: "throttle s' = throttle s" "sd_pending_finish_requests s' = sd_pending_finish_requests s"
    using fr by simp_all
  have np: "\<not> is_pending s rid" using p False by (rule contrapos_nn [rotated])
  have w': "wf_requests s'"
  proof (cases "sr_status q = WAITING_FOR_REMOTE_KVS")
    case True
    then have "sd_requests s' = sd_requests ?s" using fr by simp
    then show ?thesis by (rule wf_requests_cong [OF wf_put [OF w]])
  next
    case False
    then have "sd_requests s' = AList.delete rid (sd_requests ?s)" using fr qid by simp
    then show ?thesis by (rule wf_delete [OF wf_put [OF w]])
  qed
  have "map_of (sd_requests s') r = map_of (sd_requests s) r" if "r \<noteq> rid" for r
    using that fr qid by simp
  from gentle_one [OF w' fr2 np this] fr2 show ?thesis by simp
qed

lemma finish_all_gentle:
  assumes "rfold (finish_one st) rids s = Inr s'" "wf_requests s"
    and "\<And>rid. rid \<in> set rids \<Longrightarrow> is_pending s rid \<Longrightarrow> rid \<in> set (dkeys (sd_pending_finish_requests s))"
  shows "gentle s s'"
  using assms
proof (induction rids arbitrary: s)
  case Nil
  then show ?case by (simp add: gentle_refl)
next
  case (Cons rid rids)
  obtain s1 where o: "finish_one st rid s = Inr s1" and r: "rfold (finish_one st) rids s1 = Inr s'"
    using Cons.prems(1) by (auto elim!: rbindE)
  have "gentle s s1 \<and> sd_pending_finish_requests s1 = sd_pending_finish_requests s"
    by (rule finish_one_gentle [OF o Cons.prems(2)]) (rule Cons.prems(3), simp_all)
  then have g: "gentle s s1" and pf: "sd_pending_finish_requests s1 = sd_pending_finish_requests s" by simp_all
  have "gentle s1 s'"
    by (rule Cons.IH [OF r gentleD(1) [OF g]]) (use Cons.prems(3) gentleD(5) [OF g] pf in simp)
  then show ?case by (rule gentle_trans [OF g])
qed

lemma finish_requests_gentle:
  assumes run: "finish_requests targets st s = Inr (out, s')" and w: "wf_requests s"
  shows "gentle s s'"
proof -
  let ?ids = "case targets of Some rids \<Rightarrow> uniq rids | None \<Rightarrow> dkeys (sd_requests s)"
  obtain A B C s1 where c: "fold (collect_finish st) ?ids ([], [], [], s) = (A, B, C, s1)" by (metis prod_cases4)
  define s2 where "s2 = s1\<lparr>sd_running := remove_all (sd_running s1) A,
      sd_waiting := remove_requests B (sd_waiting s1), sd_skipped_waiting := remove_requests B (sd_skipped_waiting s1)\<rparr>"
  have r: "rfold (finish_one st) C s2 = Inr s'"
    using run by (auto simp: finish_requests_def Let_def c s2_def elim!: rbindE)
  note cf = collect_finish_frame [OF c, simplified]
  have s2: "sd_requests s2 = sd_requests s" "throttle s2 = throttle s"
    "sd_pending_finish_requests s2 = sd_pending_finish_requests s1"
    using cf by (simp_all add: s2_def throttle_def)
  have w2: "wf_requests s2" using w s2 by (simp add: wf_requests_cong)
  have g1: "gentle s s2"
    by (rule gentleI [OF w2 s2(2)]) (use cf s2 in simp_all)
  have "gentle s2 s'"
    by (rule finish_all_gentle [OF r w2]) (use cf s2(3) gentleD(5) [OF g1] in simp)
  then show ?thesis by (rule gentle_trans [OF g1])
qed

lemma resume_session_id:
  assumes "resume_session h u q = Some (Inr q')"
  shows "sr_id q' = sr_id q"
proof -
  have "rq_request_id r' = rq_request_id r" if "update_block_hashes env hb r = Some (Inr r')" for env hb r r'
    using update_block_hashes_frame [OF that] by (elim exE) simp
  then show ?thesis using assms
    by (auto simp: resume_session_def Let_def mark_activity_def split: option.splits if_splits elim!: xbindE)
qed

lemma update_request_as_session_gentle:
  assumes run: "update_request_as_session rid u s = Some (Inr s')" and w: "wf_requests s"
  shows "gentle s s'"
proof -
  obtain q q1 where np: "\<not> is_pending s rid" and q: "map_of (sd_requests s) rid = Some q"
    and r: "resume_session (block_hasher (sd_config s)) u q = Some (Inr q1)"
    and s': "s' = put_request q1 (if sr_status q = WAITING_FOR_STREAMING_REQ
              then s\<lparr>sd_num_waiting_for_streaming_input := sd_num_waiting_for_streaming_input s - 1\<rparr> else s)"
    using run by (auto simp: update_request_as_session_def dict_index_Inr split: if_splits elim!: xbindE)
  define s1 where "s1 = (if sr_status q = WAITING_FOR_STREAMING_REQ
              then s\<lparr>sd_num_waiting_for_streaming_input := sd_num_waiting_for_streaming_input s - 1\<rparr> else s)"
  have s1: "sd_requests s1 = sd_requests s" "throttle s1 = throttle s"
    "sd_pending_finish_requests s1 = sd_pending_finish_requests s"
    by (simp_all add: s1_def throttle_def)
  have "sr_id q1 = rid" using resume_session_id [OF r] wf_requestsD [OF w q] by simp
  moreover have "wf_requests s1" by (rule wf_requests_cong [OF w s1(1)])
  ultimately show ?thesis
    by (intro gentle_one [OF _ _ _ np]) (simp_all add: s' s1_def [symmetric] s1 wf_put)
qed

end
