(* ===== verification/EngineHistory.thy ===== *)
theory EngineHistory
  imports TierControl
begin

text \<open>
  The reachable states of a scheduler whose steps alternate with the replies of the worker, and what
  holds in all of them about the commands that change tiers.
\<close>

section \<open>Planned transitions\<close>

text \<open>The pending transitions are exactly \<open>ts\<close>, each the demotion of a session at rest.\<close>

definition resting :: "scheduler \<Rightarrow> kv_transition \<Rightarrow> bool" where
  "resting s t \<longleftrightarrow> is_hot_demotion t \<and> (\<exists>q. map_of (sd_requests s) (tn_request_id t) = Some q \<and>
     rest_view q = (True, WAITING_FOR_STREAMING_REQ, HOT))"

definition planned :: "scheduler \<Rightarrow> kv_transition list \<Rightarrow> bool" where
  "planned s ts \<longleftrightarrow> sd_pending_kv_transitions s = map (\<lambda>t. (tn_request_id t, t)) ts \<and>
     distinct (map tn_request_id ts) \<and> distinct (map tn_transition_id ts) \<and>
     list_all (\<lambda>t. tn_transition_id t < sd_next_kv_transition_id s \<and> resting s t) ts"

lemma plannedD:
  assumes "planned s ts"
  shows "sd_pending_kv_transitions s = map (\<lambda>t. (tn_request_id t, t)) ts" "distinct (map tn_request_id ts)"
    "distinct (map tn_transition_id ts)" "\<And>t. t \<in> set ts \<Longrightarrow> tn_transition_id t < sd_next_kv_transition_id s"
    "\<And>t. t \<in> set ts \<Longrightarrow> resting s t"
  using assms by (simp_all add: planned_def list_all_iff)

lemma planned_pending: "planned s ts \<Longrightarrow> is_pending s rid \<longleftrightarrow> rid \<in> tn_request_id ` set ts"
  by (simp add: plannedD(1) image_image)

lemma planned_transfer:
  assumes p: "planned s ts" and e: "sd_pending_kv_transitions s' = sd_pending_kv_transitions s"
    "sd_next_kv_transition_id s' = sd_next_kv_transition_id s"
    and r: "\<And>rid q. is_pending s rid \<Longrightarrow> map_of (sd_requests s) rid = Some q \<Longrightarrow> at_rest q \<Longrightarrow>
        \<exists>q'. map_of (sd_requests s') rid = Some q' \<and> rest_view q' = rest_view q"
  shows "planned s' ts"
proof -
  have "resting s' t" if t: "t \<in> set ts" for t
  proof -
    obtain q where h: "is_hot_demotion t" and q: "map_of (sd_requests s) (tn_request_id t) = Some q"
      "rest_view q = (True, WAITING_FOR_STREAMING_REQ, HOT)"
      using plannedD(5) [OF p t] by (auto simp: resting_def)
    have "is_pending s (tn_request_id t)" using planned_pending [OF p] t by blast
    moreover have "at_rest q" using q(2) by (simp add: rest_view_def at_rest_def)
    ultimately obtain q' where "map_of (sd_requests s') (tn_request_id t) = Some q'" "rest_view q' = rest_view q"
      using r q(1) by blast
    then show ?thesis using h q(2) by (simp add: resting_def)
  qed
  then show ?thesis using p e by (simp add: planned_def list_all_iff)
qed

lemma planned_gentle:
  assumes "planned s ts" "gentle s s'" shows "planned s' ts"
proof (rule planned_transfer [OF assms(1) gentleD(5) [OF assms(2)]])
  show "sd_next_kv_transition_id s' = sd_next_kv_transition_id s"
    using gentleD(2) [OF assms(2)] by (simp add: throttle_def)
qed (rule gentleD(4) [OF assms(2)])

lemma planned_steady: "planned s ts \<Longrightarrow> steady s s' \<Longrightarrow> planned s' ts"
  by (rule planned_gentle [OF _ steady_gentle])

lemma planned_frame:
  assumes "planned s ts" "sd_pending_kv_transitions s' = sd_pending_kv_transitions s"
    "sd_next_kv_transition_id s' = sd_next_kv_transition_id s" "sd_requests s' = sd_requests s"
  shows "planned s' ts"
  by (rule planned_transfer [OF assms(1-3)]) (use assms(4) in simp)

lemma plan_extends:
  assumes run: "plan_kv_state_transition q WARM s = Inr (out, s')" and p: "planned s ts"
    and q: "map_of (sd_requests s) (sr_id q) = Some q" "rest_view q = (True, WAITING_FOR_STREAMING_REQ, HOT)"
    and np: "\<not> is_pending s (sr_id q)"
  shows "planned s' (ts @ (case out of None \<Rightarrow> [] | Some t \<Rightarrow> [t])) \<and>
    s' = s\<lparr>sd_next_kv_transition_id := sd_next_kv_transition_id s', sd_pending_kv_transitions := sd_pending_kv_transitions s'\<rparr> \<and>
    (\<forall>t. out = Some t \<longrightarrow> tn_request_id t = sr_id q)"
proof (cases out)
  case None
  then have "s' = s" using run by (auto simp: plan_kv_state_transition_def Let_def split: if_splits elim!: rbindE)
  then show ?thesis using p None by simp
next
  case (Some t)
  then obtain cb where t: "t = \<lparr>tn_transition_id = sd_next_kv_transition_id s, tn_request_id = sr_id q,
      tn_previous_state = rq_kv_cache_state (sr_core q), tn_new_state = WARM, tn_changed_blocks = cb\<rparr>"
    and s': "s' = s\<lparr>sd_next_kv_transition_id := sd_next_kv_transition_id s + 1,
        sd_pending_kv_transitions := AList.update (sr_id q) t (sd_pending_kv_transitions s)\<rparr>"
    using run by (auto simp: plan_kv_state_transition_def Let_def split: if_splits elim!: rbindE)
  have fresh: "sr_id q \<notin> tn_request_id ` set ts" using np planned_pending [OF p] by simp
  have upd: "AList.update (sr_id q) t (sd_pending_kv_transitions s) = map (\<lambda>t. (tn_request_id t, t)) (ts @ [t])"
    using update_fresh [OF np, of t] by (simp add: plannedD(1) [OF p] t)
  have old: "resting s' t'" if "t' \<in> set ts" for t'
    using plannedD(5) [OF p that] by (simp add: resting_def s')
  have new: "resting s' t" using q by (simp add: resting_def is_hot_demotion_def t s' rest_view_def)
  have ids: "sr_id q = tn_request_id t" "sd_next_kv_transition_id s = tn_transition_id t"
    "sd_next_kv_transition_id s' = Suc (tn_transition_id t)"
    "sd_pending_kv_transitions s' = map (\<lambda>t. (tn_request_id t, t)) (ts @ [t])"
    using upd by (simp_all add: s') (simp_all add: t)
  have lt: "tn_transition_id t' < tn_transition_id t" if "t' \<in> set ts" for t'
    using plannedD(4) [OF p that] ids(2) by simp
  have "planned s' (ts @ [t])"
    unfolding planned_def list_all_iff ids(3,4)
    using plannedD(2,3) [OF p] fresh [unfolded ids(1)] old new by (auto simp: less_Suc_eq dest: lt)
  then show ?thesis using Some by (simp add: s') (simp add: t)
qed

section \<open>Planning a step\<close>

text \<open>Every request of the dictionary is found under its own id.\<close>

lemma wf_entry:
  assumes "wf_requests s" "q \<in> set (map snd (sd_requests s))"
  shows "map_of (sd_requests s) (sr_id q) = Some q"
proof -
  obtain rid where "(rid, q) \<in> set (sd_requests s)" using assms(2) by auto
  then have "map_of (sd_requests s) rid = Some q" using assms(1) by (simp add: wf_requests_def)
  with wf_requestsD [OF assms(1) this] show ?thesis by simp
qed

lemma wf_ids: "wf_requests s \<Longrightarrow> map sr_id (map snd (sd_requests s)) = dkeys (sd_requests s)"
proof -
  assume w: "wf_requests s"
  have "sr_id (snd e) = fst e" if "e \<in> set (sd_requests s)" for e
    using wf_requestsD [OF w, of "fst e" "snd e"] that w by (simp add: wf_requests_def)
  then show ?thesis by simp
qed

text \<open>What planning may change besides the transitions: the probe and the cooldown.\<close>

definition planning :: "scheduler \<Rightarrow> kv_transition list \<Rightarrow> scheduler \<Rightarrow> kv_transition list \<Rightarrow> bool" where
  "planning s ts s' ts' \<longleftrightarrow> planned s' (ts @ ts') \<and> sd_requests s' = sd_requests s \<and> sd_config s' = sd_config s \<and>
     sd_pending_finish_requests s' = sd_pending_finish_requests s \<and>
     sd_capacity_cooldown_steps_remaining s' \<le> sd_capacity_cooldown_steps_remaining s \<and>
     (\<forall>i. sd_capacity_probe_transition_id s' = Some i \<longrightarrow>
        sd_capacity_probe_transition_id s = Some i \<or>
        (i \<in> tn_transition_id ` set ts' \<and> sf_demotion_start_utilization (sd_config s) \<noteq> None))"

lemma planning_refl: "planned s ts \<Longrightarrow> planning s ts s []"
  by (simp add: planning_def)

lemma planning_trans:
  assumes "planning s ts s1 ts1" "planning s1 (ts @ ts1) s2 ts2"
  shows "planning s ts s2 (ts1 @ ts2)"
  using assms by (auto simp: planning_def)

lemma plan_planning:
  assumes run: "plan_kv_state_transition q WARM s = Inr (out, s')" and p: "planned s ts"
    and q: "map_of (sd_requests s) (sr_id q) = Some q" "rest_view q = (True, WAITING_FOR_STREAMING_REQ, HOT)"
    and np: "\<not> is_pending s (sr_id q)"
  shows "planning s ts s' (case out of None \<Rightarrow> [] | Some t \<Rightarrow> [t])"
proof -
  note e = plan_extends [OF assms]
  note u = conjunct1 [OF conjunct2 [OF e]]
  have "sd_requests s' = sd_requests s" by (rule trans [OF arg_cong [OF u, of sd_requests]]) simp
  moreover have "sd_config s' = sd_config s" by (rule trans [OF arg_cong [OF u, of sd_config]]) simp
  moreover have "sd_pending_finish_requests s' = sd_pending_finish_requests s"
    by (rule trans [OF arg_cong [OF u, of sd_pending_finish_requests]]) simp
  moreover have "sd_capacity_cooldown_steps_remaining s' = sd_capacity_cooldown_steps_remaining s"
    by (rule trans [OF arg_cong [OF u, of sd_capacity_cooldown_steps_remaining]]) simp
  moreover have "sd_capacity_probe_transition_id s' = sd_capacity_probe_transition_id s"
    by (rule trans [OF arg_cong [OF u, of sd_capacity_probe_transition_id]]) simp
  ultimately show ?thesis using conjunct1 [OF e] by (simp add: planning_def)
qed

text \<open>The rank leaves only one change that an idle session can make.\<close>

lemma idle_target_hot:
  assumes "idle_target hot cold now q = Inr (Some st)"
  shows "st = WARM \<and> rq_kv_cache_state (sr_core q) = HOT"
proof -
  let ?p = "rq_kv_cache_state (sr_core q)"
  obtain c where c: "(if c = COLD \<and> ?p = WARM then Inr None
      else Inr (if kv_state_coldness (if c = COLD then WARM else c) \<le> kv_state_coldness ?p then None
                else Some (if c = COLD then WARM else c))) = (Inr (Some st) :: kv_block_state option res)"
    by (rule rbindE [OF assms [unfolded idle_target_def Let_def]])
  then show ?thesis by (cases c; cases ?p) auto
qed

lemma classify_one_planning:
  assumes run: "classify_one hot cold now q (acc, s) = Inr (acc', s')" and p: "planned s ts"
    and q: "map_of (sd_requests s) (sr_id q) = Some q"
  shows "\<exists>us. acc' = acc @ us \<and> planning s ts s' us"
proof (cases "rq_resumable (sr_core q) \<and> sr_status q = WAITING_FOR_STREAMING_REQ \<and> \<not> is_pending s (sr_id q)")
  case False
  then have "acc' = acc \<and> s' = s" using run unfolding classify_one_def by (simp split: if_splits)
  then show ?thesis using planning_refl [OF p] by auto
next
  case True
  obtain target where target: "idle_target hot cold now q = Inr target"
    and r: "(case target of None \<Rightarrow> Inr (acc, s) | Some new_state \<Rightarrow>
        rbind (plan_kv_state_transition q new_state s)
          (\<lambda>(t, s1). Inr (acc @ (case t of None \<Rightarrow> [] | Some t' \<Rightarrow> [t']), s1))) = Inr (acc', s')"
    by (rule rbindE [of "idle_target hot cold now q"]) (use run True in \<open>simp_all add: classify_one_def\<close>)
  show ?thesis
  proof (cases target)
    case None
    then show ?thesis using r planning_refl [OF p] by auto
  next
    case (Some st)
    have st: "st = WARM" and v: "rest_view q = (True, WAITING_FOR_STREAMING_REQ, HOT)"
      using idle_target_hot [OF target [unfolded Some]] True by (simp_all add: rest_view_def)
    obtain out where pl: "plan_kv_state_transition q WARM s = Inr (out, s')"
      and acc': "acc' = acc @ (case out of None \<Rightarrow> [] | Some t \<Rightarrow> [t])"
      using r Some st by (auto elim!: rbindE)
    show ?thesis
      by (intro exI [of _ "case out of None \<Rightarrow> [] | Some t \<Rightarrow> [t]"] conjI acc' plan_planning [OF pl p q v])
        (use True in simp)
  qed
qed

lemma classify_fold_planning:
  assumes "rfold (classify_one hot cold now) qs (acc, s) = Inr (acc', s')" "planned s ts"
    and "\<And>q. q \<in> set qs \<Longrightarrow> map_of (sd_requests s) (sr_id q) = Some q"
  shows "\<exists>us. acc' = acc @ us \<and> planning s ts s' us"
  using assms
proof (induction qs arbitrary: acc s ts)
  case Nil
  then show ?case using planning_refl by auto
next
  case (Cons q qs)
  obtain acc1 s1 where o: "classify_one hot cold now q (acc, s) = Inr (acc1, s1)"
    and r: "rfold (classify_one hot cold now) qs (acc1, s1) = Inr (acc', s')"
    using Cons.prems(1) by (auto elim!: rbindE)
  obtain us where acc1: "acc1 = acc @ us" and p1: "planning s ts s1 us"
    using classify_one_planning [OF o Cons.prems(2)] Cons.prems(3) by auto
  have e: "planned s1 (ts @ us)" "sd_requests s1 = sd_requests s" using p1 by (simp_all add: planning_def)
  obtain us2 where "acc' = acc1 @ us2" "planning s1 (ts @ us) s' us2"
    using Cons.IH [OF r e(1)] Cons.prems(3) e(2) by auto
  then show ?case using planning_trans [OF p1] acc1 by auto
qed

lemma demote_loop_planning:
  assumes "demote_loop b u qs rel s = Inr (ts', s')" "planned s ts" "wf_requests s"
    and "distinct (map sr_id qs)"
    and "\<And>q. q \<in> set qs \<Longrightarrow> map_of (sd_requests s) (sr_id q) = Some q \<and>
       rest_view q = (True, WAITING_FOR_STREAMING_REQ, HOT) \<and> \<not> is_pending s (sr_id q)"
    and "sf_demotion_start_utilization (sd_config s) \<noteq> None"
  shows "planning s ts s' ts'"
  using assms
proof (induction qs arbitrary: rel s ts ts')
  case Nil
  then show ?case using planning_refl by simp
next
  case (Cons q qs)
  obtain out s1 where pl: "plan_kv_state_transition q WARM s = Inr (out, s1)"
    and r: "(case out of None \<Rightarrow> demote_loop b u qs rel s1
     | Some t \<Rightarrow>
         if sd_capacity_probe_required s1
         then Inr ([t], s1\<lparr>sd_capacity_probe_required := False, sd_capacity_probe_transition_id := Some (tn_transition_id t)\<rparr>)
         else if b (u - (rel + num_changed t)) then Inr ([t], s1)
         else rbind (demote_loop b u qs (rel + num_changed t) s1) (\<lambda>(ts, s2). Inr (t # ts, s2))) = Inr (ts', s')"
    by (rule rbindE [OF Cons.prems(1) [unfolded demote_loop.simps Let_def]]) (metis (lifting) case_prod_conv surj_pair)
  have q: "map_of (sd_requests s) (sr_id q) = Some q" "rest_view q = (True, WAITING_FOR_STREAMING_REQ, HOT)"
    "\<not> is_pending s (sr_id q)" using Cons.prems(5) [of q] by simp_all
  note p1 = plan_planning [OF pl Cons.prems(2) q]
  note ex = conjunct2 [OF conjunct2 [OF plan_extends [OF pl Cons.prems(2) q]]]
  define us where "us = (case out of None \<Rightarrow> [] | Some t \<Rightarrow> [t])"
  have e: "planned s1 (ts @ us)" "sd_requests s1 = sd_requests s" "sd_config s1 = sd_config s"
    using p1 by (simp_all add: planning_def us_def)
  have w1: "wf_requests s1" by (rule wf_requests_cong [OF Cons.prems(3) e(2)])
  have rest: "map_of (sd_requests s1) (sr_id q') = Some q' \<and>
       rest_view q' = (True, WAITING_FOR_STREAMING_REQ, HOT) \<and> \<not> is_pending s1 (sr_id q')" if "q' \<in> set qs" for q'
  proof -
    have "sr_id q' \<noteq> sr_id q" using Cons.prems(4) that by (auto simp: image_iff)
    then have "sr_id q' \<notin> tn_request_id ` set us" using ex by (auto simp: us_def split: option.splits)
    moreover have "sr_id q' \<notin> tn_request_id ` set ts"
      using Cons.prems(5) [of q'] that planned_pending [OF Cons.prems(2), of "sr_id q'"] by simp
    ultimately have "\<not> is_pending s1 (sr_id q')"
      using planned_pending [OF e(1), of "sr_id q'"] by (simp add: image_Un)
    then show ?thesis using Cons.prems(5) [of q'] that e(2) by simp
  qed
  have d: "distinct (map sr_id qs)" using Cons.prems(4) by simp
  have st: "sf_demotion_start_utilization (sd_config s1) \<noteq> None" using Cons.prems(6) e(3) by simp
  show ?case
  proof (cases out)
    case None
    then have "us = []" "demote_loop b u qs rel s1 = Inr (ts', s')" using r by (simp_all add: us_def)
    from Cons.IH [OF this(2) e(1) w1 d rest st] show ?thesis
      using planning_trans [OF p1 [folded us_def]] \<open>us = []\<close> by simp
  next
    case (Some t)
    have us: "us = [t]" by (simp add: us_def Some)
    consider "ts' = [t]" "s' = s1"
      | "ts' = [t]" "s' = s1\<lparr>sd_capacity_probe_required := False, sd_capacity_probe_transition_id := Some (tn_transition_id t)\<rparr>"
      | ts2 where "demote_loop b u qs (rel + num_changed t) s1 = Inr (ts2, s')" "ts' = t # ts2"
      using r Some by (auto split: if_splits elim!: rbindE)
    then show ?thesis
    proof cases
      case 1
      then show ?thesis using p1 us by (simp add: us_def)
    next
      case 2
      have "planned s' (ts @ [t])" by (rule planned_frame [OF e(1) [unfolded us]]) (simp_all add: 2(2))
      then show ?thesis using p1 us Cons.prems(6) by (simp add: planning_def us_def [symmetric] 2)
    next
      case (3 ts2)
      from Cons.IH [OF 3(1) e(1) w1 d rest st] show ?thesis
        using planning_trans [OF p1 [folded us_def]] us 3(2) by simp
    qed
  qed
qed

lemma candidates_distinct:
  assumes "wf_requests s" shows "distinct (map sr_id (demotion_candidates s))"
proof -
  have "distinct (map sr_id (map snd (sd_requests s)))"
    unfolding wf_ids [OF assms] by (rule conjunct1 [OF assms [unfolded wf_requests_def]])
  then have "distinct (map sr_id (filter P (map snd (sd_requests s))))" for P
    by (rule distinct_map_filter)
  moreover have "distinct (map sr_id (sort_key f xs)) = distinct (map sr_id xs)"
    for f :: "sched_request \<Rightarrow> rat \<times> rat \<times> string" and xs
    by (simp add: distinct_map)
  ultimately show ?thesis by (simp add: demotion_candidates_def)
qed

lemma candidates_rest:
  assumes "wf_requests s" "q \<in> set (demotion_candidates s)"
  shows "map_of (sd_requests s) (sr_id q) = Some q \<and> rest_view q = (True, WAITING_FOR_STREAMING_REQ, HOT) \<and>
    \<not> is_pending s (sr_id q)"
proof -
  have "q \<in> set (map snd (sd_requests s))" using assms(2) by (auto simp: demotion_candidates_def)
  then show ?thesis using wf_entry [OF assms(1)] assms(2) by (simp add: demotion_candidates_def rest_view_def)
qed

lemma demote_planning:
  assumes run: "demote_kv_sessions_under_pressure s = Inr (ts', s')" and p: "planned s ts" and w: "wf_requests s"
    and st: "sf_demotion_start_utilization (sd_config s) \<noteq> None"
  shows "planning s ts s' ts'"
proof -
  obtain start stop where "sf_demotion_start_utilization (sd_config s) = Some start"
    "sf_demotion_stop_utilization (sd_config s) = Some stop"
    using run st by (auto simp: demote_kv_sessions_under_pressure_def split: option.splits)
  note r = run [unfolded demote_kv_sessions_under_pressure_def Let_def this prod.case option.case]
  consider "ts' = []" "s' = s"
    | "ts' = []" "s' = s\<lparr>sd_capacity_cooldown_steps_remaining := sd_capacity_cooldown_steps_remaining s - 1\<rparr>"
    | b u where "demote_loop b u (demotion_candidates s) (projected_released s) s = Inr (ts', s')"
    using r by (simp split: if_splits)
  then show ?thesis
  proof cases
    case 1
    then show ?thesis using planning_refl [OF p] by simp
  next
    case 2
    have "planned s' ts" by (rule planned_frame [OF p]) (simp_all add: 2)
    then show ?thesis by (simp add: planning_def 2)
  next
    case 3
    show ?thesis
      by (rule demote_loop_planning [OF 3 p w candidates_distinct [OF w] candidates_rest [OF w] st])
  qed
qed

lemma classify_planning:
  assumes run: "classify_idle_kv_sessions now s = Inr (ts', s')" and p: "planned s ts" and w: "wf_requests s"
  shows "planning s ts s' ts'"
proof (cases "sf_demotion_start_utilization (sd_config s) = None")
  case False
  then show ?thesis using demote_planning [OF _ p w] run by (simp add: classify_idle_kv_sessions_def)
next
  case True
  consider "ts' = []" "s' = s"
    | hot cold where "rfold (classify_one hot cold now) (map snd (sd_requests s)) ([], s) = Inr (ts', s')"
    using run [unfolded classify_idle_kv_sessions_def] True
    by (cases "sf_hot_idle_threshold (sd_config s)"; cases "sf_cold_idle_threshold (sd_config s)") auto
  then show ?thesis
  proof cases
    case 1
    then show ?thesis using planning_refl [OF p] by simp
  next
    case 2
    then show ?thesis using classify_fold_planning [OF 2 p wf_entry [OF w]] by simp
  qed
qed

section \<open>The bookkeeping of commands in flight\<close>

text \<open>The flag is that of a capacity failure among the replies seen so far, after which the probe is
  settled with the last reply; between two calls of the engine it is false.\<close>

definition tier_inv :: "bool \<Rightarrow> scheduler \<Rightarrow> kv_transition list \<Rightarrow> bool" where
  "tier_inv c s ts \<longleftrightarrow> wf_requests s \<and> planned s ts \<and>
     set (dkeys (sd_pending_finish_requests s)) \<subseteq> tn_request_id ` set ts \<and>
     (\<forall>i. sd_capacity_probe_transition_id s = Some i \<longrightarrow>
        (c \<or> i \<in> tn_transition_id ` set ts) \<and> sf_demotion_start_utilization (sd_config s) \<noteq> None) \<and>
     sd_capacity_cooldown_steps_remaining s \<le> 16"

lemma tier_invD:
  assumes "tier_inv c s ts"
  shows "wf_requests s" "planned s ts" "set (dkeys (sd_pending_finish_requests s)) \<subseteq> tn_request_id ` set ts"
    "\<And>i. sd_capacity_probe_transition_id s = Some i \<Longrightarrow>
       (c \<or> i \<in> tn_transition_id ` set ts) \<and> sf_demotion_start_utilization (sd_config s) \<noteq> None"
    "sd_capacity_cooldown_steps_remaining s \<le> 16"
  using assms by (simp_all add: tier_inv_def)

lemma tier_inv_gentle:
  assumes i: "tier_inv c s ts" and g: "gentle s s'" shows "tier_inv c s' ts"
proof -
  have "set (dkeys (sd_pending_kv_transitions s)) = tn_request_id ` set ts"
    by (simp add: plannedD(1) [OF tier_invD(2) [OF i]] image_image)
  then have "set (dkeys (sd_pending_finish_requests s')) \<subseteq> tn_request_id ` set ts"
    using gentleD(3) [OF g] tier_invD(3) [OF i] by (simp only:) blast
  moreover have "sd_capacity_probe_transition_id s' = sd_capacity_probe_transition_id s"
    "sd_config s' = sd_config s"
    "sd_capacity_cooldown_steps_remaining s' = sd_capacity_cooldown_steps_remaining s"
    using gentleD(2) [OF g] by (simp_all add: throttle_def)
  ultimately show ?thesis
    unfolding tier_inv_def
    using gentleD(1) [OF g] planned_gentle [OF tier_invD(2) [OF i] g] tier_invD(4,5) [OF i] by simp
qed

lemma tier_inv_steady: "tier_inv c s ts \<Longrightarrow> steady s s' \<Longrightarrow> tier_inv c s' ts"
  by (rule tier_inv_gentle [OF _ steady_gentle])

lemma tier_inv_planning:
  assumes i: "tier_inv c s ts" and p: "planning s ts s' us" shows "tier_inv c s' (ts @ us)"
proof -
  note p = p [unfolded planning_def]
  have "wf_requests s'" by (rule wf_requests_cong [OF tier_invD(1) [OF i]]) (use p in simp)
  then show ?thesis using p tier_invD(3,5) [OF i] tier_invD(4) [OF i] by (auto simp: tier_inv_def)
qed

lemma begin_step_inv:
  assumes run: "begin_step now s = Inr (us, s')" and i: "tier_inv c s ts"
  shows "tier_inv c s' (ts @ us)"
proof -
  define s0 where "s0 = s\<lparr>sd_current_step := sd_current_step s + 1,
      sd_kv_cache_manager := kv_manager_new_step_starts (sd_kv_cache_manager s)\<rparr>"
  have s0: "tier_inv c s0 ts"
    by (rule tier_inv_steady [OF i steady_frame [OF tier_invD(1) [OF i]]]) (simp_all add: s0_def tiers_def)
  show ?thesis
    by (rule tier_inv_planning [OF s0 classify_planning [OF _ tier_invD(2,1) [OF s0]]])
      (use run in \<open>simp add: begin_step_def s0_def\<close>)
qed

lemma advance_one_steady:
  assumes run: "advance_one p s = Inr s'" and w: "wf_requests s" shows "steady s s'"
proof -
  obtain rid n where p: "p = (rid, n)" by force
  obtain q where q: "map_of (sd_requests s) rid = Some q"
    using run by (auto simp: advance_one_def p dict_index_Inr elim!: rbindE)
  have qid: "sr_id q = rid" by (rule wf_requestsD [OF w q])
  obtain q1 where q1: "sr_id q1 = rid" "rest_view q1 = rest_view q"
    and s': "sd_requests s' = sd_requests (put_request q1 s)" "tiers s' = tiers s"
  proof (rule that)
    let ?q1 = "on_core (\<lambda>r. r\<lparr>rq_num_computed_tokens := rq_num_computed_tokens r + n\<rparr>) q"
    let ?q2 = "if sd_defer_block_free s then ?q1\<lparr>sr_last_sched_seq := sd_sched_step_seq s\<rparr> else ?q1"
    let ?chunk = "rq_num_computed_tokens (sr_core ?q2)
                    < int (rq_num_tokens (sr_core ?q2)) + rq_num_output_placeholders (sr_core ?q2)"
    let ?q3 = "?q2\<lparr>sr_is_prefill_chunk := ?chunk\<rparr>"
    show "sr_id ?q3 = rid" "rest_view ?q3 = rest_view q" by (simp_all add: qid rest_view_def on_core_def)
    show "sd_requests s' = sd_requests (put_request ?q3 s)" "tiers s' = tiers s"
      using run by (auto simp: advance_one_def p dict_index_def q Let_def tiers_def put_request_def split: if_splits)
  qed
  have "steady s (put_request q1 s)" by (rule steady_put [where ?q0.0 = q]) (simp_all add: w q q1)
  moreover have "steady (put_request q1 s) s'" by (rule steady_frame [OF wf_put [OF w] s'(1)]) (simp add: s'(2))
  ultimately show ?thesis by (rule steady_trans)
qed

lemma update_after_schedule_steady:
  assumes run: "update_after_schedule xs s = Inr s'" and w: "wf_requests s" shows "steady s s'"
proof -
  obtain s1 where f: "rfold advance_one xs s = Inr s1" and s': "s' = s1\<lparr>sd_finished_req_ids := []\<rparr>"
    using run by (auto simp: update_after_schedule_def elim!: rbindE)
  have s1: "steady s s1"
  proof (rule rfold_inv [OF f, where P = "\<lambda>x. steady s x"])
    fix x y z assume "steady s y" "advance_one x y = Inr z"
    then show "steady s z" using advance_one_steady steady_wf steady_trans by blast
  qed (rule steady_refl [OF w])
  show ?thesis
    by (rule steady_trans [OF s1 steady_frame [OF steady_wf [OF s1]]]) (simp_all add: s' tiers_def)
qed

lemma finish_step_steady:
  assumes run: "finish_step ts st = Inr (so, s')" and w: "wf_requests (ss_sched st)"
  shows "steady (ss_sched st) s' \<and> so_kv_cache_state_transitions so = ts"
proof -
  obtain km2 c n where u: "update_after_schedule (ss_num_scheduled_tokens st)
      ((ss_sched st)\<lparr>sd_kv_cache_manager := km2, sd_encoder_cache_manager := c, sd_sched_step_seq := n\<rparr>) = Inr s'"
    and t: "so_kv_cache_state_transitions so = ts"
    using run unfolding finish_step_def Let_def split_def by (elim rbindE) auto
  define s1 where "s1 = (ss_sched st)\<lparr>sd_kv_cache_manager := km2, sd_encoder_cache_manager := c, sd_sched_step_seq := n\<rparr>"
  note u = u [folded s1_def]
  have f: "sd_requests s1 = sd_requests (ss_sched st)" "tiers s1 = tiers (ss_sched st)"
    by (simp_all add: s1_def tiers_def)
  note s1 = steady_frame [OF w f]
  show ?thesis using steady_trans [OF s1 update_after_schedule_steady [OF u steady_wf [OF s1]]] t by simp
qed

lemma schedule_inv:
  assumes run: "schedule now thr s = Some (Inr (so, s'))" and i: "tier_inv c s ts"
  shows "tier_inv c s' (ts @ so_kv_cache_state_transitions so)"
proof -
  obtain us s1 st where b: "begin_step now s = Inr (us, s1)" and r: "schedule_requests thr s1 = Some (Inr st)"
    and f: "finish_step us st = Inr (so, s')"
    using run by (auto simp: schedule_def elim!: xbindE)
  note i1 = begin_step_inv [OF b i]
  note r1 = schedule_requests_steady [OF r tier_invD(1) [OF i1]]
  note f1 = finish_step_steady [OF f steady_wf [OF r1]]
  show ?thesis using tier_inv_steady [OF i1 steady_trans [OF r1]] f1 by simp
qed

section \<open>One reply of the worker\<close>

lemma planned_settled:
  assumes p: "planned s (t # ts)"
    and e: "sd_pending_kv_transitions s' = AList.delete (tn_request_id t) (sd_pending_kv_transitions s)"
      "sd_next_kv_transition_id s' = sd_next_kv_transition_id s"
    and o: "\<And>rid. rid \<noteq> tn_request_id t \<Longrightarrow> map_of (sd_requests s') rid = map_of (sd_requests s) rid"
  shows "planned s' ts"
proof -
  have d: "tn_request_id t \<notin> tn_request_id ` set ts" using plannedD(2) [OF p] by simp
  have del: "AList.delete (tn_request_id t) (map (\<lambda>t. (tn_request_id t, t)) (t # ts)) = map (\<lambda>t. (tn_request_id t, t)) ts"
    using d by (auto simp: AList.delete_eq filter_map o_def intro!: arg_cong [of _ _ "map _"] filter_True)
  have "resting s' u" if "u \<in> set ts" for u
  proof -
    have "tn_request_id u \<noteq> tn_request_id t" using d that by (metis image_eqI)
    then show ?thesis using plannedD(5) [OF p, of u] that o by (simp add: resting_def)
  qed
  then show ?thesis
    using plannedD(2,3,4) [OF p] by (simp add: planned_def list_all_iff e plannedD(1) [OF p] del [simplified])
qed

text \<open>What is left once the reply to \<open>t\<close> is applied, before what was put off is resumed.\<close>

definition settled :: "bool \<Rightarrow> scheduler \<Rightarrow> kv_transition \<Rightarrow> kv_transition list \<Rightarrow> bool" where
  "settled c s t ts \<longleftrightarrow> wf_requests s \<and> planned s ts \<and> \<not> is_pending s (tn_request_id t) \<and>
     set (dkeys (sd_pending_finish_requests s)) \<subseteq> insert (tn_request_id t) (tn_request_id ` set ts) \<and>
     (\<forall>i. sd_capacity_probe_transition_id s = Some i \<longrightarrow>
        (c \<or> i \<in> tn_transition_id ` set ts) \<and> sf_demotion_start_utilization (sd_config s) \<noteq> None) \<and>
     sd_capacity_cooldown_steps_remaining s \<le> 16"

lemma settledI:
  assumes i: "tier_inv c s (t # ts)"
    and e: "sd_pending_kv_transitions s' = AList.delete (tn_request_id t) (sd_pending_kv_transitions s)"
      "sd_next_kv_transition_id s' = sd_next_kv_transition_id s"
      "sd_pending_finish_requests s' = sd_pending_finish_requests s" "sd_config s' = sd_config s"
    and w: "wf_requests s'"
    and o: "\<And>rid. rid \<noteq> tn_request_id t \<Longrightarrow> map_of (sd_requests s') rid = map_of (sd_requests s) rid"
    and cd: "sd_capacity_cooldown_steps_remaining s' \<le> 16"
    and pr: "\<And>i. sd_capacity_probe_transition_id s' = Some i \<Longrightarrow>
       sd_capacity_probe_transition_id s = Some i \<and> (c' \<or> \<not> c \<and> i \<noteq> tn_transition_id t)"
  shows "settled c' s' t ts"
proof -
  note d = tier_invD [OF i]
  have p: "planned s' ts" by (rule planned_settled [OF d(2) e(1,2) o])
  moreover have "\<not> is_pending s' (tn_request_id t)"
    using planned_pending [OF p] plannedD(2) [OF d(2)] by simp
  moreover have "(c' \<or> i \<in> tn_transition_id ` set ts) \<and> sf_demotion_start_utilization (sd_config s') \<noteq> None"
    if "sd_capacity_probe_transition_id s' = Some i" for i
    using pr [OF that] d(4) [of i] e(4) by auto
  ultimately show ?thesis using w cd d(3) by (simp add: settled_def e(3))
qed

lemma apply_status_settled:
  assumes run: "apply_status t st c s = Inr (c', s')" and i: "tier_inv c s (t # ts)"
  shows "settled c' s' t ts"
proof -
  note d = tier_invD [OF i]
  have hot: "is_hot_demotion t" using plannedD(5) [OF d(2), of t] by (simp add: resting_def)
  consider "st = SUCCESS" "c' = c" "apply_success t s = Inr s'"
    | "st \<noteq> SUCCESS" "(c', s') = apply_retry t st c s"
    using run by (cases st) (auto simp: apply_status_def elim!: rbindE)
  then show ?thesis
  proof cases
    case 1
    obtain km where s': "s' = (let s1 = s\<lparr>sd_kv_cache_manager := km\<rparr>;
         s2 = (case map_of (sd_requests s1) (tn_request_id t) of
                 None \<Rightarrow> s1
               | Some q \<Rightarrow> put_request (on_core (\<lambda>r. r\<lparr>rq_kv_cache_state := tn_new_state t\<rparr>) q) s1);
         s3 = drop_pending (tn_request_id t) s2
       in if sd_capacity_probe_transition_id s3 = Some (tn_transition_id t)
          then s3\<lparr>sd_capacity_failure_count := 0, sd_capacity_cooldown_steps_remaining := 0,
                  sd_capacity_probe_required := False, sd_capacity_probe_transition_id := None\<rparr>
          else s3)"
      using 1(3) by (auto simp: apply_success_def Let_def elim!: rbindE)
    have "wf_requests s' \<and> (\<forall>rid. rid \<noteq> tn_request_id t \<longrightarrow> map_of (sd_requests s') rid = map_of (sd_requests s) rid)"
    proof (cases "map_of (sd_requests s) (tn_request_id t)")
      case None
      then have "sd_requests s' = sd_requests s" by (simp add: s' drop_pending_def Let_def)
      then show ?thesis using wf_requests_cong [OF d(1)] by simp
    next
      case (Some q)
      have "sd_requests s' = sd_requests (put_request (on_core (\<lambda>r. r\<lparr>rq_kv_cache_state := tn_new_state t\<rparr>) q) s)"
        by (simp add: s' drop_pending_def Let_def Some put_request_def)
      then show ?thesis using wf_requests_cong [OF wf_put [OF d(1)]] wf_requestsD [OF d(1) Some]
        by (auto simp: on_core_def)
    qed
    moreover have "sd_pending_kv_transitions s' = AList.delete (tn_request_id t) (sd_pending_kv_transitions s)"
      "sd_next_kv_transition_id s' = sd_next_kv_transition_id s" "sd_config s' = sd_config s"
      "sd_pending_finish_requests s' = sd_pending_finish_requests s"
      "sd_capacity_cooldown_steps_remaining s' \<le> 16"
      using d(5) by (simp_all add: s' drop_pending_def Let_def put_request_def split: option.split)
    moreover have "sd_capacity_probe_transition_id s' = Some i \<Longrightarrow>
        sd_capacity_probe_transition_id s = Some i \<and> i \<noteq> tn_transition_id t" for i
      by (auto simp: s' drop_pending_def Let_def put_request_def split: option.splits if_splits)
    ultimately show ?thesis by (intro settledI [OF i]) (auto simp: 1)
  next
    case 2
    have "sd_requests s' = sd_requests s"
      "sd_pending_kv_transitions s' = AList.delete (tn_request_id t) (sd_pending_kv_transitions s)"
      "sd_next_kv_transition_id s' = sd_next_kv_transition_id s" "sd_config s' = sd_config s"
      "sd_pending_finish_requests s' = sd_pending_finish_requests s"
      "sd_capacity_cooldown_steps_remaining s' \<le> 16"
      using 2(2) d(5) by (auto simp: apply_retry_def drop_pending_def Let_def split: if_splits)
    moreover have "sd_capacity_probe_transition_id s' = Some i \<Longrightarrow>
        sd_capacity_probe_transition_id s = Some i \<and> (c' \<or> \<not> c \<and> i \<noteq> tn_transition_id t)" for i
      using 2(2) hot d(4) [of i] 2(1) run
      by (cases st) (auto simp: apply_retry_def apply_status_def drop_pending_def Let_def split: if_splits)
    ultimately show ?thesis
      by (intro settledI [OF i]) (auto intro: wf_requests_cong [OF d(1)])
  qed
qed

lemma finish_or_resume_gentle:
  assumes run: "(case u of
        Some u' \<Rightarrow> update_request_as_session rid u' s
      | None \<Rightarrow> Some (rbind (finish_requests (Some [rid]) FINISHED_ABORTED s) (\<lambda>(_, s3). Inr s3))) = Some (Inr s')"
    and w: "wf_requests s"
  shows "gentle s s'"
proof (cases u)
  case None
  then obtain out where "finish_requests (Some [rid]) FINISHED_ABORTED s = Inr (out, s')"
    using run by (auto elim!: rbindE)
  then show ?thesis by (rule finish_requests_gentle [OF _ w])
next
  case (Some u')
  then show ?thesis using run update_request_as_session_gentle [OF _ w] by simp
qed

lemma resume_deferred_inv:
  assumes run: "resume_deferred (tn_request_id t) s = Some (Inr s')" and i: "settled c s t ts"
  shows "tier_inv c s' ts"
proof -
  let ?rid = "tn_request_id t"
  define s1 where "s1 = s\<lparr>sd_pending_finish_requests := AList.delete ?rid (sd_pending_finish_requests s)\<rparr>"
  have w: "wf_requests s1" by (rule wf_requests_cong [of s]) (use i in \<open>simp_all add: s1_def settled_def\<close>)
  have np: "\<not> is_pending s1 ?rid" using i by (simp add: s1_def settled_def)
  have "planned s1 ts" by (rule planned_frame [of s]) (use i in \<open>simp_all add: s1_def settled_def\<close>)
  then have i1: "tier_inv c s1 ts" using i w by (auto simp: tier_inv_def settled_def s1_def AList.delete_eq)
  have "gentle s1 s'"
  proof (cases "map_of (sd_pending_finish_requests s) ?rid")
    case (Some st)
    then consider "s' = s1" | out where "finish_requests (Some [?rid]) st s1 = Inr (out, s')"
      using run by (auto simp: resume_deferred_def Let_def s1_def split: option.splits if_splits elim!: rbindE)
    then show ?thesis using gentle_refl [OF w] finish_requests_gentle [OF _ w] by cases auto
  next
    case None
    note r = run [unfolded resume_deferred_def Let_def None option.case, folded s1_def]
    show ?thesis
    proof (cases "s' = s1")
      case True
      then show ?thesis using gentle_refl [OF w] by simp
    next
      case False
      then obtain q where q: "map_of (sd_requests s1) ?rid = Some q" using r by (cases "map_of (sd_requests s1) ?rid") auto
      note r = r [unfolded q option.case]
      obtain u updates where e: "sr_streaming_queue q = Some (u # updates)"
        using r False by (cases "sr_streaming_queue q"; cases "the (sr_streaming_queue q)") auto
      let ?q = "q\<lparr>sr_streaming_queue := Some updates\<rparr>"
      have "gentle s1 (put_request ?q s1)"
        by (rule gentle_one [where rid = ?rid, OF wf_put [OF w] throttle_put np])
          (use wf_requestsD [OF w q] in simp)
      then show ?thesis
        by (rule gentle_trans [OF _ finish_or_resume_gentle [OF r [unfolded e option.case list.case] wf_put [OF w]]])
    qed
  qed
  then show ?thesis by (rule tier_inv_gentle [OF i1])
qed

lemma apply_reply_inv:
  assumes run: "apply_reply (t, r) (seen, c, s) = Some (Inr (seen', c', s'))" and i: "tier_inv c s (t # ts)"
  shows "tier_inv c' s' ts"
proof -
  obtain s1 where a: "apply_status t (tr_status r) c s = Inr (c', s1)"
    and d: "resume_deferred (tn_request_id t) s1 = Some (Inr s')"
    using run by (auto simp: apply_reply_def elim!: xbindE)
  show ?thesis by (rule resume_deferred_inv [OF d apply_status_settled [OF a i]])
qed

lemma replies_inv:
  assumes "xfold apply_reply (zip us rs) (seen, c, s) = Some (Inr (seen', c', s'))" "length us = length rs"
    and "tier_inv c s (us @ ts)"
  shows "tier_inv c' s' ts"
  using assms
proof (induction us arbitrary: rs seen c s)
  case Nil
  then show ?case by simp
next
  case (Cons t us)
  then obtain r rs1 where rs: "rs = r # rs1" by (cases rs) auto
  obtain seen1 c1 s1 where a: "apply_reply (t, r) (seen, c, s) = Some (Inr (seen1, c1, s1))"
    and f: "xfold apply_reply (zip us rs1) (seen1, c1, s1) = Some (Inr (seen', c', s'))"
    using Cons.prems(1) by (auto simp: rs elim!: xbindE)
  show ?case
    by (rule Cons.IH [OF f]) (use Cons.prems(2,3) rs apply_reply_inv [OF a] in simp_all)
qed

lemma cooldown_loop_le: "cooldown \<le> 16 \<Longrightarrow> cooldown_loop n cooldown \<le> 16"
  by (induction n cooldown rule: cooldown_loop.induct) (auto simp: Let_def)

lemma validate_inv:
  assumes run: "validate_kv_cache_transition_results us rs s = Some (Inr s')"
    and i: "tier_inv False s (us @ ts)"
  shows "tier_inv False s' ts"
proof (cases "us = [] \<and> (case rs of None \<Rightarrow> [] | Some r \<Rightarrow> r) = []")
  case True
  then show ?thesis using run i by (simp add: validate_kv_cache_transition_results_def)
next
  case False
  define rs1 where "rs1 = (case rs of None \<Rightarrow> [] | Some r \<Rightarrow> r)"
  have len: "length us = length rs1"
    using run False unfolding validate_kv_cache_transition_results_def Let_def rs1_def [symmetric]
    by (simp split: if_splits)
  obtain seen c s1 where f: "xfold apply_reply (zip us rs1) ([], False, s) = Some (Inr (seen, c, s1))"
    and s': "s' = (if c then note_capacity_failure s1 else s1)"
    using run False unfolding validate_kv_cache_transition_results_def Let_def rs1_def [symmetric]
    by (auto simp: len elim!: xbindE)
  have i1: "tier_inv c s1 ts" by (rule replies_inv [OF f len i])
  show ?thesis
  proof (cases c)
    case False
    then show ?thesis using i1 s' by simp
  next
    case True
    then have s': "s' = note_capacity_failure s1" using s' by simp
    have "planned s' ts" by (rule planned_frame [OF tier_invD(2) [OF i1]]) (simp_all add: s' note_capacity_failure_def)
    then show ?thesis
      using tier_invD(1,3) [OF i1] wf_requests_cong [OF tier_invD(1) [OF i1], of s']
      by (simp add: tier_inv_def s' note_capacity_failure_def cooldown_loop_le)
  qed
qed

section \<open>The output of a step\<close>

lemma gentle_free:
  assumes "wf_requests s'" "throttle s' = throttle s"
    "sd_pending_finish_requests s' = sd_pending_finish_requests s" "sd_pending_kv_transitions s = []"
  shows "gentle s s'"
  by (rule gentleI) (use assms in simp_all)

lemma enqueue_frame [simp]:
  "sd_requests (enqueue_waiting_request q s) = sd_requests s" "throttle (enqueue_waiting_request q s) = throttle s"
  "sd_pending_finish_requests (enqueue_waiting_request q s) = sd_pending_finish_requests s"
  by (simp_all add: enqueue_waiting_request_def throttle_def)

lemma free_request_gentle:
  assumes run: "free_request q d s = Inr s'" and w: "wf_requests s"
  shows "gentle s s'"
proof -
  note f = free_request_frame [OF run]
  have w': "wf_requests s'" using f w wf_delete [OF w, of s' "sr_id q"] wf_requests_cong [OF w, of s'] by (cases d) simp_all
  show ?thesis
    by (rule gentle_one [where rid = "sr_id q", OF w']) (use f in \<open>simp_all add: AList.delete_conv'\<close>)
qed

lemma handle_stopped_gentle:
  assumes run: "handle_stopped_request rid s = Some (Inr (b, s'))" and w: "wf_requests s"
    and n: "sd_pending_kv_transitions s = []"
  shows "gentle s s'"
proof -
  obtain q where q: "map_of (sd_requests s) rid = Some q"
    using run by (auto simp: handle_stopped_request_def dict_index_Inr elim!: xbindE)
  have idx: "dict_index (sd_requests s) rid = Inr q" by (simp add: dict_index_def q)
  note r = run [unfolded handle_stopped_request_def idx xbind_simps]
  have put: "gentle s (put_request q' s)" for q' by (rule gentle_free [OF wf_put [OF w] throttle_put n])
  have requeue: "gentle s s2" if f: "xbind (Some (dict_index (sd_requests s1) rid)) (\<lambda>q1.
       Some (Inr (False, enqueue_waiting_request q1 s1))) = Some (Inr (b2, s2))" and g: "gentle s s1" for s1 s2 b2
  proof -
    obtain q1 where s2: "s2 = enqueue_waiting_request q1 s1" using f by (auto elim!: xbindE)
    have "gentle s1 s2" by (rule gentle_frame [OF gentleD(1) [OF g]]) (simp_all add: s2)
    then show ?thesis by (rule gentle_trans [OF g])
  qed
  show ?thesis
  proof (cases "rq_resumable (sr_core q)")
    case False
    then show ?thesis using r gentle_refl [OF w] by simp
  next
    case True
    let ?idle = "(put_request (set_status WAITING_FOR_STREAMING_REQ q) s)
        \<lparr>sd_num_waiting_for_streaming_input := sd_num_waiting_for_streaming_input s + 1\<rparr>"
    have idle: "gentle s ?idle"
      by (rule gentle_free [OF wf_requests_cong [OF wf_put [OF w, of "set_status WAITING_FOR_STREAMING_REQ q"]] _ _ n])
        (simp_all add: throttle_def put_request_def)
    consider "sr_streaming_queue q = None \<or> sr_streaming_queue q = Some []"
      | updates where "sr_streaming_queue q = Some (None # updates)"
      | u updates where "sr_streaming_queue q = Some (Some u # updates)"
      by (metis list.exhaust not_None_eq)
    then show ?thesis
    proof cases
      case 1
      have "xbind (Some (dict_index (sd_requests ?idle) rid)) (\<lambda>q1.
          Some (Inr (False, enqueue_waiting_request q1 ?idle))) = Some (Inr (b, s'))"
        using r True 1 by auto
      then show ?thesis by (rule requeue [OF _ idle])
    next
      case 2
      then show ?thesis using r True put by auto
    next
      case (3 u updates)
      let ?s1 = "put_request (q\<lparr>sr_streaming_queue := Some updates\<rparr>) s"
      obtain s1 where u: "update_request_as_session rid u ?s1 = Some (Inr s1)"
        and e: "xbind (Some (dict_index (sd_requests s1) rid)) (\<lambda>q1.
          Some (Inr (False, enqueue_waiting_request q1 s1))) = Some (Inr (b, s'))"
        using r True 3 by (auto elim!: xbindE)
      show ?thesis
        by (rule requeue [OF e gentle_trans [OF put update_request_as_session_gentle [OF u wf_put [OF w]]]])
    qed
  qed
qed

lemma settle_stopped_gentle:
  assumes run: "settle_stopped rid st us = Some (Inr us')" and w: "wf_requests (us_sched us)"
    and n: "sd_pending_kv_transitions (us_sched us) = []"
  shows "gentle (us_sched us) (us_sched us')"
proof -
  obtain b s1 s2 where h: "handle_stopped_request rid (us_sched us) = Some (Inr (b, s1))"
    and f: "(if b then rbind (dict_index (sd_requests s1) rid) (\<lambda>q. free_request q False s1) else Inr s1) = Inr s2"
    and us': "us_sched us' = s2"
    using run by (auto simp: settle_stopped_def Let_def elim!: xbindE)
  note g = handle_stopped_gentle [OF h w n]
  have "gentle s1 s2"
    using f free_request_gentle gentleD(1) [OF g] gentle_refl by (auto split: if_splits elim!: rbindE)
  then show ?thesis using gentle_trans [OF g] us' by simp
qed

lemma free_encoder_inputs_frame:
  assumes "free_encoder_inputs q s = Inr s'" shows "\<exists>c. s' = set_encoder_cache c s"
  using assms by (auto simp: free_encoder_inputs_def Let_def elim!: rbindE)

lemma set_encoder_cache_frame [simp]:
  "sd_requests (set_encoder_cache c s) = sd_requests s" "throttle (set_encoder_cache c s) = throttle s"
  "sd_pending_finish_requests (set_encoder_cache c s) = sd_pending_finish_requests s"
  by (simp_all add: set_encoder_cache_def throttle_def)

lemma emit_output_sched [simp]: "us_sched (emit_output i e us) = us_sched us"
  by (simp add: emit_output_def)

text \<open>What the loop body does to the scheduler.\<close>

lemma update_one_steps:
  assumes run: "update_one rej so out (rid, k) us = Some (Inr us')" and ne: "us' \<noteq> us"
  obtains q1 s2 q3 us1 us2 stp where
     "(if has_encoder_inputs (sr_core q1) then free_encoder_inputs q1 (put_request q1 (us_sched us))
       else Inr (put_request q1 (us_sched us))) = Inr s2"
     "(if stp then settle_stopped rid (sr_status q1) us1 else Some (Inr us1)) = Some (Inr us2)"
     "us_sched us1 = put_request q3 s2" "us_sched us' = us_sched us2"
proof -
  obtain q0 where k: "0 < k" and q0: "map_of (sd_requests (us_sched us)) rid = Some q0"
    and nf: "\<not> rq_is_finished (sr_core q0)"
    using run ne by (auto simp: update_one_def Let_def split: if_splits option.splits)
  have e: "(\<not> 0 < k) = False" "rq_is_finished (sr_core q0) = False" using k nf by simp_all
  note r = run [unfolded update_one_def prod.case Let_def q0 option.case e if_False]
  show ?thesis
    apply (rule xbindE [OF r])
    apply (erule xbindE)
    apply (erule xbindE)
    apply (clarsimp simp: case_prod_unfold)
    apply (erule xbindE)
    apply (rule that, assumption, assumption)
    apply (auto split: if_splits)
    done
qed

lemma update_one_gentle:
  assumes run: "update_one rej so out p us = Some (Inr us')" and w: "wf_requests (us_sched us)"
    and n: "sd_pending_kv_transitions (us_sched us) = []"
  shows "gentle (us_sched us) (us_sched us')"
proof (cases "us' = us")
  case True
  then show ?thesis using gentle_refl [OF w] by simp
next
  case False
  obtain rid k where p: "p = (rid, k)" by force
  obtain q1 s2 q3 us1 us2 stp where fe: "(if has_encoder_inputs (sr_core q1)
        then free_encoder_inputs q1 (put_request q1 (us_sched us)) else Inr (put_request q1 (us_sched us))) = Inr s2"
    and st: "(if stp then settle_stopped rid (sr_status q1) us1 else Some (Inr us1)) = Some (Inr us2)"
    and u: "us_sched us1 = put_request q3 s2" "us_sched us' = us_sched us2"
    by (rule update_one_steps [OF run [unfolded p] False])
  have s2: "sd_requests s2 = sd_requests (put_request q1 (us_sched us))" "throttle s2 = throttle (us_sched us)"
    "sd_pending_finish_requests s2 = sd_pending_finish_requests (us_sched us)"
    using fe free_encoder_inputs_frame [of q1 "put_request q1 (us_sched us)" s2] by (auto split: if_splits)
  have w1: "wf_requests (us_sched us1)" unfolding u by (rule wf_put [OF wf_requests_cong [OF wf_put [OF w] s2(1)]])
  have g: "gentle (us_sched us) (us_sched us1)" by (rule gentle_free [OF w1]) (simp_all add: u s2 n)
  have "gentle (us_sched us1) (us_sched us2)"
    using st settle_stopped_gentle [OF _ w1] gentleD(5) [OF g] n gentle_refl [OF w1] by (cases stp) auto
  then show ?thesis using gentle_trans [OF g] u(2) by simp
qed

lemma xfold_inv:
  assumes "xfold f xs s = Some (Inr s')" "P s"
    and "\<And>x s s'. x \<in> set xs \<Longrightarrow> P s \<Longrightarrow> f x s = Some (Inr s') \<Longrightarrow> P s'"
  shows "P s'"
  using assms
proof (induction xs arbitrary: s)
  case (Cons x xs)
  obtain s1 where "f x s = Some (Inr s1)" "xfold f xs s1 = Some (Inr s')"
    using Cons.prems(1) by (auto elim!: xbindE)
  then show ?case using Cons.IH [of s1] Cons.prems(2,3) by auto
qed simp

lemma drain_deferred_frame:
  "drain_deferred xs s = Inr s' \<Longrightarrow> sd_requests s' = sd_requests s \<and> throttle s' = throttle s \<and>
     sd_pending_finish_requests s' = sd_pending_finish_requests s"
proof (induction xs s rule: drain_deferred.induct)
  case (2 fence blocks rest s)
  then show ?case by (auto simp: throttle_def split: if_splits elim!: rbindE)
qed simp

lemma report_frame:
  assumes "report us s = (outs, s')"
  shows "sd_requests s' = sd_requests s" "throttle s' = throttle s"
    "sd_pending_finish_requests s' = sd_pending_finish_requests s"
  using assms by (auto simp: report_def Let_def throttle_def split_def)

lemma remove_stopped_frame [simp]:
  "sd_requests (remove_stopped us) = sd_requests (us_sched us)" "throttle (remove_stopped us) = throttle (us_sched us)"
  "sd_pending_finish_requests (remove_stopped us) = sd_pending_finish_requests (us_sched us)"
  by (simp_all add: remove_stopped_def Let_def throttle_def)

lemma update_from_output_inv:
  assumes run: "update_from_output rej so out s = Some (Inr (outs, s'))"
    and i: "tier_inv False s (so_kv_cache_state_transitions so)"
  shows "tier_inv False s' []"
proof -
  obtain s1 s2 us where v: "validate_kv_cache_transition_results (so_kv_cache_state_transitions so)
        (mo_kv_cache_transition_results out) s = Some (Inr s1)"
    and d: "(if sd_defer_block_free s1 \<and> so_total_num_scheduled_tokens so > 0
             then drain_deferred_frees (s1\<lparr>sd_processed_step_seq := sd_processed_step_seq s1 + 1\<rparr>)
             else Inr s1) = Inr s2"
    and f: "xfold (update_one rej so out) (so_num_scheduled_tokens so)
              \<lparr>us_sched = s2, us_outputs = [], us_stopped_running = [], us_stopped_preempted = []\<rparr> = Some (Inr us)"
    and r: "report us (remove_stopped us) = (outs, s')"
    using run by (auto simp: update_from_output_def elim!: xbindE)
  have i1: "tier_inv False s1 []" using validate_inv [OF v] i by simp
  have "sd_requests s2 = sd_requests s1 \<and> throttle s2 = throttle s1 \<and>
      sd_pending_finish_requests s2 = sd_pending_finish_requests s1"
    using d drain_deferred_frame by (fastforce simp: drain_deferred_frees_def throttle_def split: if_splits)
  then have g2: "gentle s1 s2" using gentle_frame [OF tier_invD(1) [OF i1]] by blast
  note i2 = tier_inv_gentle [OF i1 g2]
  have i3: "tier_inv False (us_sched us) []"
  proof (rule xfold_inv [OF f, where P = "\<lambda>u. tier_inv False (us_sched u) []"])
    fix p u u' assume o: "tier_inv False (us_sched u) []" and "update_one rej so out p u = Some (Inr u')"
    then show "tier_inv False (us_sched u') []"
      using tier_inv_gentle [OF o update_one_gentle [OF _ tier_invD(1) [OF o]]] plannedD(1) [OF tier_invD(2) [OF o]]
      by simp
  qed (simp add: i2)
  have "gentle (us_sched us) s'"
    by (rule gentle_frame [OF tier_invD(1) [OF i3]])
      (simp_all add: report_frame [OF r])
  then show ?thesis by (rule tier_inv_gentle [OF i3])
qed

section \<open>The other calls of the engine\<close>

lemma add_request_gentle:
  assumes run: "add_request q s = Some (Inr s')" and i: "tier_inv c s ts"
  shows "gentle s s'"
proof (cases "map_of (sd_requests s) (sr_id q)")
  case None
  have np: "\<not> is_pending s (sr_id q)"
  proof
    assume "is_pending s (sr_id q)"
    then obtain t where t: "t \<in> set ts" "tn_request_id t = sr_id q"
      using planned_pending [OF tier_invD(2) [OF i]] by auto
    then show False using plannedD(5) [OF tier_invD(2) [OF i] t(1)] None by (simp add: resting_def)
  qed
  obtain q1 where q1: "sr_id q1 = sr_id q" and s': "s' = put_request q1 (enqueue_waiting_request q1 s)"
    by (rule that [of "if rq_resumable (sr_core q) then q\<lparr>sr_streaming_queue := Some []\<rparr> else q"])
      (use run None in \<open>simp_all add: add_request_def Let_def\<close>)
  have "wf_requests (enqueue_waiting_request q1 s)" by (rule wf_requests_cong [OF tier_invD(1) [OF i]]) simp
  then show ?thesis
    unfolding s' by (intro gentle_one [where rid = "sr_id q", OF wf_put _ _ np]) (simp_all add: q1)
next
  case (Some q0)
  have qid: "sr_id q0 = sr_id q" by (rule wf_requestsD [OF tier_invD(1) [OF i] Some])
  show ?thesis
  proof (cases "sr_status q0 \<noteq> WAITING_FOR_STREAMING_REQ \<or> is_pending s (sr_id q)")
    case True
    then obtain us where s': "s' = put_request (q0\<lparr>sr_streaming_queue := Some us\<rparr>) s"
      using run Some by (auto simp: add_request_def Let_def split: option.splits)
    have "steady s s'" unfolding s'
      by (rule steady_put [where ?q0.0 = q0, OF tier_invD(1) [OF i]]) (simp_all add: qid Some rest_view_def)
    then show ?thesis by (rule steady_gentle)
  next
    case False
    then have r: "(case streaming_update_from_request q of
         Some u' \<Rightarrow> update_request_as_session (sr_id q) u' s
       | None \<Rightarrow> Some (rbind (finish_requests (Some [sr_id q]) FINISHED_ABORTED s) (\<lambda>(_, s1). Inr s1))) = Some (Inr s')"
      using run Some by (simp add: add_request_def Let_def)
    show ?thesis by (rule finish_or_resume_gentle [OF r tier_invD(1) [OF i]])
  qed
qed

lemma preempt_running_steady:
  "preempt_running rids s = Inr s' \<Longrightarrow> wf_requests s \<Longrightarrow> steady s s'"
proof (induction rids s rule: preempt_running.induct)
  case (1 s)
  then show ?case using steady_refl by simp
next
  case (2 rid rest s)
  let ?s1 = "s\<lparr>sd_running := butlast (sd_running s)\<rparr>"
  obtain q s2 q2 where q: "map_of (sd_requests ?s1) rid = Some q" and p: "preempt_request q ?s1 = Inr s2"
    and q2: "map_of (sd_requests s2) rid = Some q2"
    and r: "preempt_running rest (put_request (on_core (\<lambda>r. r\<lparr>rq_num_output_placeholders := 0\<rparr>) q2) s2) = Inr s'"
    using "2.prems"(1) by (auto simp: Let_def dict_index_Inr elim!: rbindE)
  let ?s3 = "put_request (on_core (\<lambda>r. r\<lparr>rq_num_output_placeholders := 0\<rparr>) q2) s2"
  have s1: "steady s ?s1" by (rule steady_frame [OF "2.prems"(2)]) (simp_all add: tiers_def)
  have s2: "steady ?s1 s2"
    by (rule preempt_steady [OF p steady_wf [OF s1]]) (use q wf_requestsD [OF steady_wf [OF s1] q] in simp)
  have s3: "steady s2 ?s3"
    by (rule steady_put [where ?q0.0 = q2, OF steady_wf [OF s2]])
      (use q2 wf_requestsD [OF steady_wf [OF s2] q2] in \<open>simp_all add: on_core_def rest_view_def\<close>)
  have "steady ?s3 s'" using "2.IH" q p q2 r steady_wf [OF s3] by (simp add: dict_index_def)
  then show ?case using steady_trans s1 s2 s3 by blast
qed

lemma reset_prefix_cache_steady:
  assumes run: "scheduler_reset_prefix_cache b s = Inr (ok, s')" and w: "wf_requests s"
  shows "steady s s'"
proof -
  obtain s1 km where p: "(if b then preempt_running (rev (sd_running s)) s else Inr s) = Inr s1"
    and s': "s' = set_manager km s1"
    using run by (auto simp: scheduler_reset_prefix_cache_def split: if_splits elim!: rbindE)
  have s1: "steady s s1" using p preempt_running_steady [OF _ w] steady_refl [OF w] by (auto split: if_splits)
  then show ?thesis
    using steady_trans [OF s1 steady_frame [OF steady_wf [OF s1]]] by (simp add: s' tiers_def set_manager_def)
qed

lemma update_draft_one_steady: "wf_requests s \<Longrightarrow> steady s (update_draft_one validated d s)"
proof -
  assume w: "wf_requests s"
  have "steady s (put_request (on_core (\<lambda>r. r\<lparr>rq_spec_token_ids := ts\<rparr>) q) s)"
    if "map_of (sd_requests s) rid = Some q" for rid q ts
    by (rule steady_put [where ?q0.0 = q, OF w])
      (use that wf_requestsD [OF w that] in \<open>simp_all add: on_core_def rest_view_def\<close>)
  then show ?thesis
    using steady_refl [OF w] by (auto simp: update_draft_one_def split_def split: option.split)
qed

lemma update_draft_steady: "wf_requests s \<Longrightarrow> steady s (update_draft_token_ids validated rids tss s)"
proof -
  have "wf_requests s \<Longrightarrow> steady s (fold (update_draft_one validated) ds s)" for ds
  proof (induction ds arbitrary: s)
    case (Cons d ds)
    show ?case
      using steady_trans [OF update_draft_one_steady [OF Cons.prems] Cons.IH [OF steady_wf [OF update_draft_one_steady [OF Cons.prems]]]]
      by simp
  qed (simp add: steady_refl)
  then show "wf_requests s \<Longrightarrow> ?thesis" by (simp add: update_draft_token_ids_def)
qed

section \<open>Histories of an engine\<close>

text \<open>
  The calls of an engine whose steps do not overlap: \<open>schedule\<close> is called when no step is in flight, and
  the output of a step is processed before the next one.  Requests arrive, are finished from outside
  and get draft tokens at any time.  A call that raises or does not return ends the history.
\<close>

inductive engine_history ::
  "(sched_request \<Rightarrow> nat list \<Rightarrow> bool) \<Rightarrow> scheduler \<Rightarrow> scheduler_output option \<Rightarrow> bool"
  for rejects where
    started: "engine_history rejects (new_scheduler config km encoder_cache_size include_finished_set) None"
  | request_added: "engine_history rejects s flight \<Longrightarrow> add_request q s = Some (Inr s') \<Longrightarrow>
      engine_history rejects s' flight"
  | finish_signalled: "engine_history rejects s flight \<Longrightarrow> finish_requests targets st s = Inr (reported, s') \<Longrightarrow>
      engine_history rejects s' flight"
  | stepped: "engine_history rejects s None \<Longrightarrow> schedule now throttle_prefills s = Some (Inr (so, s')) \<Longrightarrow>
      engine_history rejects s' (Some so)"
  | updated: "engine_history rejects s (Some so) \<Longrightarrow> update_from_output rejects so out s = Some (Inr (outs, s')) \<Longrightarrow>
      engine_history rejects s' None"
  | drafts_updated: "engine_history rejects s flight \<Longrightarrow>
      engine_history rejects (update_draft_token_ids validated req_ids drafts s) flight"
  | pause_set: "engine_history rejects s flight \<Longrightarrow> engine_history rejects (set_pause_state ps s) flight"
  | encoder_cache_reset: "engine_history rejects s flight \<Longrightarrow>
      engine_history rejects (scheduler_reset_encoder_cache s) flight"
  | prefix_cache_reset: "engine_history rejects s flight \<Longrightarrow>
      scheduler_reset_prefix_cache reset_running s = Inr (ok, s') \<Longrightarrow> engine_history rejects s' flight"

text \<open>The commands of the step in flight.\<close>

definition in_flight :: "scheduler_output option \<Rightarrow> kv_transition list" where
  "in_flight flight = (case flight of None \<Rightarrow> [] | Some so \<Rightarrow> so_kv_cache_state_transitions so)"

lemma in_flight_simps [simp]: "in_flight None = []" "in_flight (Some so) = so_kv_cache_state_transitions so"
  by (simp_all add: in_flight_def)

lemma engine_history_inv: "engine_history rejects s flight \<Longrightarrow> tier_inv False s (in_flight flight)"
proof (induction rule: engine_history.induct)
  case (started config km encoder_cache_size include_finished_set)
  show ?case by (simp add: tier_inv_def new_scheduler_def wf_requests_def planned_def)
next
  case (request_added s flight q s')
  show ?case by (rule tier_inv_gentle [OF request_added.IH add_request_gentle [OF request_added.hyps(2) request_added.IH]])
next
  case (finish_signalled s flight targets st reported s')
  show ?case
    by (rule tier_inv_gentle [OF finish_signalled.IH
          finish_requests_gentle [OF finish_signalled.hyps(2) tier_invD(1) [OF finish_signalled.IH]]])
next
  case (stepped s now throttle_prefills so s')
  show ?case using schedule_inv [OF stepped.hyps(2) stepped.IH] by simp
next
  case (updated s so out outs s')
  show ?case using update_from_output_inv [OF updated.hyps(2)] updated.IH by simp
next
  case (drafts_updated s flight validated req_ids drafts)
  show ?case by (rule tier_inv_steady [OF drafts_updated.IH update_draft_steady [OF tier_invD(1) [OF drafts_updated.IH]]])
next
  case (pause_set s flight ps)
  show ?case
    by (rule tier_inv_steady [OF pause_set.IH steady_frame [OF tier_invD(1) [OF pause_set.IH]]])
      (simp_all add: set_pause_state_def tiers_def)
next
  case (encoder_cache_reset s flight)
  show ?case
    by (rule tier_inv_steady [OF encoder_cache_reset.IH steady_frame [OF tier_invD(1) [OF encoder_cache_reset.IH]]])
      (simp_all add: scheduler_reset_encoder_cache_def set_encoder_cache_def tiers_def)
next
  case (prefix_cache_reset s flight reset_running ok s')
  show ?case
    by (rule tier_inv_steady [OF prefix_cache_reset.IH
          reset_prefix_cache_steady [OF prefix_cache_reset.hyps(2) tier_invD(1) [OF prefix_cache_reset.IH]]])
qed

end
