(* ===== verification/EngineProperties.thy ===== *)
theory EngineProperties
  imports EngineHistory "HOL-Library.Sublist"
begin

text \<open>
  What the control of the tiers guarantees in every reachable state of the scheduler, with a small engine
  that is run step by step: a session becomes idle and is demoted, and another request finds the
  session's blocks in the prefix cache in the step that demotes them.
\<close>

section \<open>A small engine\<close>

declare hash_loop.simps [code] hit_loop.simps [code]

definition demo_sched_config :: sched_config where
  "demo_sched_config =
     \<lparr>sf_hot_idle_threshold = Some 10, sf_cold_idle_threshold = Some 100,
      sf_demotion_start_utilization = None, sf_demotion_stop_utilization = None,
      sf_env = demo_env, sf_hash_block_size = Some 2, sf_max_model_len = 16, sf_max_num_running_reqs = 4,
      sf_max_num_scheduled_tokens = 16, sf_max_num_encoder_input_tokens = 0, sf_num_lookahead_tokens = 0,
      sf_num_spec_tokens = 0, sf_num_sampled_tokens_per_step = 1, sf_long_prefill_token_threshold = 0,
      sf_enable_chunked_prefill = True, sf_disable_chunked_mm_input = False, sf_use_eagle = False,
      sf_has_mamba_layers = False, sf_need_mamba_block_aligned_split = False, sf_cache_block_size = 2,
      sf_reserve_full_isl = False, sf_needs_kv_cache_zeroing = False\<rparr>"

definition demo_kv_config :: kv_cache_config where
  "demo_kv_config = \<lparr>cf_num_blocks = 4, cf_kv_cache_groups =
     [\<lparr>kg_spec = demo_spec FullAttentionSpec 2, kg_is_eagle_group = False\<rparr>]\<rparr>"

definition demo_engine_request :: "string \<Rightarrow> nat list \<Rightarrow> rat \<Rightarrow> bool \<Rightarrow> sched_request run" where
  "demo_engine_request rid tokens arrival resumable =
     xbind (init_request demo_env 2 rid (Some tokens) None [] None None 0 arrival False resumable) (\<lambda>r.
     Some (Inr \<lparr>sr_core = r, sr_client_index = 0,
                sr_sampling_params = \<lparr>sq_min_tokens = 0, sq_eos_token_id = None, sq_stop_token_ids = [],
                                      sq_repetition_detection = None\<rparr>,
                sr_max_tokens = 1, sr_stop_reason = None, sr_grammar = None, sr_is_prefill_chunk = False,
                sr_next_decode_eligible_step = 0, sr_last_sched_seq = 0, sr_streaming_queue = None\<rparr>))"

definition demo_scheduler :: "scheduler run" where
  "demo_scheduler =
     Some (rbind (new_kv_cache_manager demo_kv_config 16 2 2 None True False True False 1 1 False False None 0)
       (\<lambda>km. Inr (new_scheduler demo_sched_config km 0 False)))"

definition demo_output :: "(string \<times> nat list) list \<Rightarrow> kv_transition_result list \<Rightarrow> model_runner_output" where
  "demo_output sampled results =
     \<lparr>mo_req_id_to_index = zip (map fst sampled) [0..<length sampled], mo_sampled_token_ids = map snd sampled,
      mo_kv_cache_transition_results = Some results\<rparr>"

text \<open>A session of two tokens, one block, is served and becomes idle at time 0.\<close>

definition demo_idle :: "scheduler run" where
  "demo_idle =
     xbind demo_scheduler (\<lambda>s0.
     xbind (demo_engine_request ''a'' [1, 2] 0 True) (\<lambda>a.
     xbind (add_request a s0) (\<lambda>s1.
     xbind (schedule 0 False s1) (\<lambda>(so, s2).
     xbind (update_from_output (\<lambda>_ _. False) so (demo_output [(''a'', [5])] []) s2) (\<lambda>(_, s3).
     Some (Inr s3))))))"

text \<open>At time 50 another request that starts with the same block arrives, and a step is scheduled.\<close>

definition demo_shared :: "(scheduler_output \<times> scheduler) run" where
  "demo_shared =
     xbind demo_idle (\<lambda>s3.
     xbind (demo_engine_request ''b'' [1, 2, 3] 50 False) (\<lambda>b.
     xbind (add_request b s3) (\<lambda>s4.
     schedule 50 False s4)))"

text \<open>The same step without the other request.\<close>

definition demo_alone :: "(scheduler_output \<times> scheduler) run" where
  "demo_alone = xbind demo_idle (schedule 50 False)"

text \<open>The worker answers every command with the same status.\<close>

definition demo_answer ::
  "kv_transition_status \<Rightarrow> (string \<times> nat list) list \<Rightarrow> scheduler_output \<times> scheduler
     \<Rightarrow> ((int, engine_core_outputs) dict \<times> scheduler) run" where
  "demo_answer status sampled step =
     (let (so, s) = step in
      update_from_output (\<lambda>_ _. False) so
        (demo_output sampled (map (\<lambda>t. to_result t status None) (so_kv_cache_state_transitions so))) s)"

text \<open>With sequencing unfolded to a case distinction, the evaluation of a run looks at the rest of the run
  only when its first part has returned.\<close>

lemma rbind_case [code_unfold]: "rbind m f = (case m of Inl e \<Rightarrow> Inl e | Inr x \<Rightarrow> f x)"
  by (cases m) simp_all

declare xbind_def [code_unfold]

lemma returnsE:
  assumes "case m of Some (Inr x) \<Rightarrow> P x | _ \<Rightarrow> False" obtains x where "m = Some (Inr x)" "P x"
  using assms by (auto split: option.splits sum.splits)

lemma raises: "(case m of Some (Inl e') \<Rightarrow> e' = e | _ \<Rightarrow> False) \<Longrightarrow> m = Some (Inl e)"
  by (auto split: option.splits sum.splits)

lemma demo_idle_history:
  assumes "demo_idle = Some (Inr s)" shows "engine_history (\<lambda>_ _. False) s None"
proof -
  obtain km a s1 so s2 outs where a: "add_request a (new_scheduler demo_sched_config km 0 False) = Some (Inr s1)"
    and b: "schedule 0 False s1 = Some (Inr (so, s2))"
    and u: "update_from_output (\<lambda>_ _. False) so (demo_output [(''a'', [5])] []) s2 = Some (Inr (outs, s))"
    using assms by (auto simp: demo_idle_def demo_scheduler_def elim!: xbindE rbindE)
  show ?thesis
    by (rule engine_history.updated [OF engine_history.stepped [OF
          engine_history.request_added [OF engine_history.started a] b] u])
qed

lemma demo_alone_history:
  assumes "demo_alone = Some (Inr (so, s))" shows "engine_history (\<lambda>_ _. False) s (Some so)"
proof -
  obtain s0 where "demo_idle = Some (Inr s0)" "schedule 50 False s0 = Some (Inr (so, s))"
    using assms by (auto simp: demo_alone_def elim!: xbindE)
  then show ?thesis using engine_history.stepped [OF demo_idle_history] by blast
qed

lemma demo_shared_history:
  assumes "demo_shared = Some (Inr (so, s))" shows "engine_history (\<lambda>_ _. False) s (Some so)"
proof -
  obtain s3 b s4 where "demo_idle = Some (Inr s3)" "add_request b s3 = Some (Inr s4)"
    "schedule 50 False s4 = Some (Inr (so, s))"
    using assms by (auto simp: demo_shared_def elim!: xbindE)
  then show ?thesis
    using engine_history.stepped [OF engine_history.request_added [OF demo_idle_history]] by blast
qed

text \<open>Claim C4.  In every reachable state the scheduler's table of pending transitions is exactly the list
  of commands that the step in flight carries to the worker: each has an id of its own and belongs to
  another session, and that session is still there, resumable, waiting for its next input and HOT, to
  become WARM; a running or finished request is never touched.  When no step is in flight nothing is
  pending, no finish signal is put off and no capacity probe is open.  The cooldown never exceeds 16
  steps.\<close>

theorem pending_commands_are_those_in_flight:
  assumes "engine_history rejects s flight"
  shows "sd_pending_kv_transitions s = map (\<lambda>t. (tn_request_id t, t)) (in_flight flight) \<and>
    distinct (map tn_request_id (in_flight flight)) \<and> distinct (map tn_transition_id (in_flight flight)) \<and>
    (\<forall>t \<in> set (in_flight flight). tn_previous_state t = HOT \<and> tn_new_state t = WARM \<and>
       (\<exists>q. map_of (sd_requests s) (tn_request_id t) = Some q \<and> rq_resumable (sr_core q) \<and>
          sr_status q = WAITING_FOR_STREAMING_REQ \<and> rq_kv_cache_state (sr_core q) = HOT)) \<and>
    set (dkeys (sd_pending_finish_requests s)) \<subseteq> tn_request_id ` set (in_flight flight) \<and>
    (\<forall>i. sd_capacity_probe_transition_id s = Some i \<longrightarrow> i \<in> tn_transition_id ` set (in_flight flight)) \<and>
    sd_capacity_cooldown_steps_remaining s \<le> 16"
proof -
  have i: "tier_inv False s (in_flight flight)" by (rule engine_history_inv [OF assms])
  note p = plannedD [OF tier_invD(2) [OF i]]
  have "\<exists>q. map_of (sd_requests s) (tn_request_id t) = Some q \<and> rq_resumable (sr_core q) \<and>
      sr_status q = WAITING_FOR_STREAMING_REQ \<and> rq_kv_cache_state (sr_core q) = HOT"
    "tn_previous_state t = HOT" "tn_new_state t = WARM" if "t \<in> set (in_flight flight)" for t
    using p(5) [OF that] by (auto simp: resting_def is_hot_demotion_def rest_view_def)
  then show ?thesis using p(1-3) tier_invD(3,5) [OF i] tier_invD(4) [OF i] by auto
qed

theorem pending_commands_are_those_in_flight_witness:
  "\<exists>so s. engine_history (\<lambda>_ _. False) s (Some so) \<and> map tn_request_id (so_kv_cache_state_transitions so) = [''a''] \<and>
     dkeys (sd_pending_kv_transitions s) = [''a'']"
proof -
  have "case demo_alone of Some (Inr step) \<Rightarrow> map tn_request_id (so_kv_cache_state_transitions (fst step)) = [''a''] | _ \<Rightarrow> False"
    by code_simp
  then obtain step where "demo_alone = Some (Inr step)"
    "map tn_request_id (so_kv_cache_state_transitions (fst step)) = [''a'']" by (rule returnsE)
  then obtain so s where r: "demo_alone = Some (Inr (so, s))"
    and t: "map tn_request_id (so_kv_cache_state_transitions so) = [''a'']" by (cases step) auto
  note h = demo_alone_history [OF r]
  show ?thesis using pending_commands_are_those_in_flight [OF h] h t by (intro exI [of _ so] exI [of _ s]) (auto simp: o_def)
qed


section \<open>Cooldown and probe\<close>

lemma cooldown_loop_min: "0 < c \<Longrightarrow> c \<le> 16 \<Longrightarrow> cooldown_loop n c = min (c * 2 ^ n) 16"
proof (induction n c rule: cooldown_loop.induct)
  case (2 n c)
  show ?case
  proof (cases "c * 2 < 16")
    case True
    then show ?thesis using 2 by (simp add: Let_def mult.assoc)
  next
    case False
    have "16 \<le> c * 2 * 2 ^ n" using False mult_le_mono [of 16 "c * 2" 1 "2 ^ n"] by simp
    then show ?thesis using False by (simp add: Let_def mult.assoc)
  qed
qed simp

text \<open>The number of calls in a row that plan nothing.\<close>

fun quiet_steps :: "nat \<Rightarrow> scheduler \<Rightarrow> scheduler option" where
  "quiet_steps 0 s = Some s"
| "quiet_steps (Suc n) s =
     (case demote_kv_sessions_under_pressure s of Inr ([], s') \<Rightarrow> quiet_steps n s' | _ \<Rightarrow> None)"

lemma quiet_while_cooling:
  assumes "sf_demotion_start_utilization (sd_config s) = Some start"
    "sf_demotion_stop_utilization (sd_config s) = Some stop"
  shows "quiet_steps (sd_capacity_cooldown_steps_remaining s) s = Some (s\<lparr>sd_capacity_cooldown_steps_remaining := 0\<rparr>)"
  using assms
proof (induction "sd_capacity_cooldown_steps_remaining s" arbitrary: s)
  case (Suc n)
  let ?s = "s\<lparr>sd_capacity_cooldown_steps_remaining := n\<rparr>"
  have d: "demote_kv_sessions_under_pressure s = Inr ([], ?s)"
    using Suc.hyps(2) Suc.prems by (simp add: demote_kv_sessions_under_pressure_def flip: Suc.hyps(2))
  have "quiet_steps (sd_capacity_cooldown_steps_remaining ?s) ?s = Some (?s\<lparr>sd_capacity_cooldown_steps_remaining := 0\<rparr>)"
    by (rule Suc.hyps(1)) (simp_all add: Suc.prems)
  then show ?case by (simp add: d flip: Suc.hyps(2))
qed (simp add: scheduler.surjective)

lemma probe_loop:
  "demote_loop b u qs rel s = Inr (ts, s') \<Longrightarrow> sd_capacity_probe_required s \<Longrightarrow>
     ts = [] \<or> (\<exists>t. ts = [t] \<and> sd_capacity_probe_transition_id s' = Some (tn_transition_id t))"
proof (induction qs arbitrary: s rel)
  case (Cons q qs)
  obtain out s1 where pl: "plan_kv_state_transition q WARM s = Inr (out, s1)"
    and r: "(case out of None \<Rightarrow> demote_loop b u qs rel s1
     | Some t \<Rightarrow>
         if sd_capacity_probe_required s1
         then Inr ([t], s1\<lparr>sd_capacity_probe_required := False, sd_capacity_probe_transition_id := Some (tn_transition_id t)\<rparr>)
         else if b (u - (rel + num_changed t)) then Inr ([t], s1)
         else rbind (demote_loop b u qs (rel + num_changed t) s1) (\<lambda>(ts, s2). Inr (t # ts, s2))) = Inr (ts, s')"
    by (rule rbindE [OF Cons.prems(1) [unfolded demote_loop.simps Let_def]]) (metis (lifting) case_prod_conv surj_pair)
  have "sd_capacity_probe_required s1"
    using pl Cons.prems(2) by (auto simp: plan_kv_state_transition_def Let_def split: if_splits elim!: rbindE)
  then show ?case using r Cons.IH by (cases out) auto
qed simp


definition demo_pressed :: "kv_cache_manager \<Rightarrow> scheduler" where
  "demo_pressed km =
     (new_scheduler (demo_sched_config\<lparr>sf_demotion_start_utilization := Some (9/10),
        sf_demotion_stop_utilization := Some (1/2)\<rparr>) km 0 False)\<lparr>sd_capacity_failure_count := 3\<rparr>"


section \<open>How much pressure demotes\<close>

text \<open>No block of the session can be demoted.\<close>

definition nothing_to_demote :: "scheduler \<Rightarrow> sched_request \<Rightarrow> bool" where
  "nothing_to_demote s q \<longleftrightarrow>
     (\<exists>groups. plan_request_kv_state (sr_id q) WARM (Some (rq_num_computed_tokens (sr_core q)))
        (sd_kv_cache_manager s) = Inr groups \<and> (\<forall>g \<in> set groups. g = []))"

lemma plan_outcome:
  assumes "plan_kv_state_transition q WARM s = Inr (out, s')"
  shows "sd_kv_cache_manager s' = sd_kv_cache_manager s" "sd_capacity_probe_required s' = sd_capacity_probe_required s"
    "case out of None \<Rightarrow> nothing_to_demote s q | Some t \<Rightarrow> tn_request_id t = sr_id q"
  using assms
  by (auto simp: plan_kv_state_transition_def nothing_to_demote_def Let_def list_ex_iff split: if_splits elim!: rbindE)

lemma demote_loop_minimal:
  assumes "demote_loop b u qs rel s = Inr (ts, s')" "\<not> sd_capacity_probe_required s" "\<not> b (u - rel)"
  shows "subseq (map tn_request_id ts) (map sr_id qs) \<and>
    (\<forall>k < length ts. \<not> b (u - rel - (\<Sum>t\<leftarrow>take k ts. num_changed t))) \<and>
    (b (u - rel - (\<Sum>t\<leftarrow>ts. num_changed t)) \<or>
       (\<forall>q \<in> set qs. sr_id q \<in> tn_request_id ` set ts \<or> nothing_to_demote s q))"
  using assms
proof (induction qs arbitrary: rel s ts)
  case (Cons q qs)
  obtain out s1 where pl: "plan_kv_state_transition q WARM s = Inr (out, s1)"
    and r: "(case out of None \<Rightarrow> demote_loop b u qs rel s1
     | Some t \<Rightarrow>
         if sd_capacity_probe_required s1
         then Inr ([t], s1\<lparr>sd_capacity_probe_required := False, sd_capacity_probe_transition_id := Some (tn_transition_id t)\<rparr>)
         else if b (u - (rel + num_changed t)) then Inr ([t], s1)
         else rbind (demote_loop b u qs (rel + num_changed t) s1) (\<lambda>(ts, s2). Inr (t # ts, s2))) = Inr (ts, s')"
    by (rule rbindE [OF Cons.prems(1) [unfolded demote_loop.simps Let_def]]) (metis (lifting) case_prod_conv surj_pair)
  note o = plan_outcome [OF pl]
  have pr: "\<not> sd_capacity_probe_required s1" using Cons.prems(2) o(2) by simp
  have same: "nothing_to_demote s1 = nothing_to_demote s" by (simp add: nothing_to_demote_def fun_eq_iff o(1))
  show ?case
  proof (cases out)
    case None
    then show ?thesis using Cons.IH [of rel s1 ts] r pr Cons.prems(3) o(3) same by auto
  next
    case (Some t)
    show ?thesis
    proof (cases "b (u - (rel + num_changed t))")
      case True
      then have "ts = [t]" using r Some pr by simp
      then show ?thesis using True Some o(3) Cons.prems(3) by (simp add: diff_diff_eq)
    next
      case False
      obtain us where l: "demote_loop b u qs (rel + num_changed t) s1 = Inr (us, s')" and ts: "ts = t # us"
        using r Some pr False by (auto elim!: rbindE)
      note ih = Cons.IH [OF l pr False, unfolded same]
      have "\<not> b (u - rel - (\<Sum>t\<leftarrow>take k ts. num_changed t))" if "k < length ts" for k
        using that ih Cons.prems(3) ts by (cases k) (auto simp: algebra_simps)
      then show ?thesis using ih o(3) Some ts by (auto simp: algebra_simps)
    qed
  qed
qed simp


text \<open>The idle session of the small engine, with marks that its one block of three exceeds.\<close>

definition demo_pressure :: "scheduler run" where
  "demo_pressure = xbind demo_idle (\<lambda>s. Some (Inr (s\<lparr>sd_config := demo_sched_config\<lparr>
     sf_demotion_start_utilization := Some (1/4), sf_demotion_stop_utilization := Some (1/8)\<rparr>\<rparr>)))"


section \<open>Stale hashes of a resumed session\<close>

text \<open>A session of three tokens gets a fourth one from the model, and then continues with another token.\<close>

definition demo_resumed :: "(scheduler_output \<times> scheduler) run" where
  "demo_resumed =
     xbind demo_scheduler (\<lambda>s0.
     xbind (demo_engine_request ''a'' [1, 2, 3] 0 True) (\<lambda>a.
     xbind (add_request a s0) (\<lambda>s1.
     xbind (schedule 0 False s1) (\<lambda>(so, s2).
     xbind (update_from_output (\<lambda>_ _. False) so (demo_output [(''a'', [4])] []) s2) (\<lambda>(_, s3).
     xbind (demo_engine_request ''a'' [5] 1 True) (\<lambda>a1.
     xbind (add_request a1 s3) (\<lambda>s4.
     schedule 1 False s4)))))))"

definition demo_hit :: "scheduler_output \<times> scheduler \<Rightarrow> (nat list \<times> int \<times> block_ref list list \<times> block_ref list list) run" where
  "demo_hit step =
     xbind (Some (dict_index (sd_requests (snd step)) ''a'')) (\<lambda>a.
     xbind (demo_engine_request ''b'' [1, 2, 3, 4, 6] 2 False) (\<lambda>b.
     xbind (get_computed_blocks (sr_core b) (sd_kv_cache_manager (snd step))) (\<lambda>(blocks, n, km).
     Some (Inr (rq_all_token_ids (sr_core a), n, kvb_blocks blocks,
       kvb_blocks (get_blocks ''a'' (sd_kv_cache_manager (snd step))))))))"

lemma demo_resumed_history:
  assumes "demo_resumed = Some (Inr (so, s))" shows "engine_history (\<lambda>_ _. False) s (Some so)"
proof -
  obtain km a s1 so1 s2 outs s3 a1 s4 where a: "add_request a (new_scheduler demo_sched_config km 0 False) = Some (Inr s1)"
    and b: "schedule 0 False s1 = Some (Inr (so1, s2))"
    and u: "update_from_output (\<lambda>_ _. False) so1 (demo_output [(''a'', [4])] []) s2 = Some (Inr (outs, s3))"
    and a1: "add_request a1 s3 = Some (Inr s4)" and b1: "schedule 1 False s4 = Some (Inr (so, s))"
    using assms by (auto simp: demo_resumed_def demo_scheduler_def elim!: xbindE rbindE)
  show ?thesis
    by (rule engine_history.stepped [OF engine_history.request_added [OF engine_history.updated [OF
          engine_history.stepped [OF engine_history.request_added [OF engine_history.started a] b] u] a1] b1])
qed


end
