(* ===== verification/LayerSpec.thy ===== *)
theory LayerSpec
  imports KVCacheSpec
begin

text \<open>
  The cache specifications of the layers with all their fields, \<^verbatim>\<open>vllm/v1/kv_cache_interface.py\<close>:
  how many bytes a page takes, how many bytes a request may need, which layers count as one type,
  and the merging of the specifications of a group.  A frozen dataclass is a value of the datatype
  with a constructor for each class; equality of two instances is equality of class and fields.

  The element size of a tensor type is a parameter, the function \<open>sz\<close>.  Block sizes, compression
  ratios and alignments are positive, so no division by them fails.
\<close>

section \<open>Configuration\<close>

text \<open>The options the memory plan reads.  \<open>mc_enable_cross_layers_blocks\<close> is the option of the
  connector, \<open>mc_use_eagle\<close> stands for \<open>speculative_config.use_eagle()\<close>.\<close>

record mem_config =
  mc_max_model_len :: int
  mc_original_max_model_len :: "int option"
  mc_max_num_batched_tokens :: int
  mc_max_num_encoder_input_tokens :: int
  mc_decode_context_parallel_size :: int
  mc_prefill_context_parallel_size :: int
  mc_mamba_cache_mode :: mamba_mode
  mc_num_gpu_blocks_override :: "int option"
  mc_disable_hybrid_kv_cache_manager :: bool
  mc_enable_cross_layers_blocks :: bool
  mc_use_eagle :: bool
  mc_get_dtype_size :: "string \<Rightarrow> int"

datatype kv_quant_mode = QuantNone | Fp8PerTensor | Int8PerTokenHead | Fp8PerTokenHead | Nvfp4

definition is_per_token_head :: "kv_quant_mode \<Rightarrow> bool" where
  "is_per_token_head q \<longleftrightarrow> q = Int8PerTokenHead \<or> q = Fp8PerTokenHead"

definition get_kv_quant_mode :: "string \<Rightarrow> kv_quant_mode" where
  "get_kv_quant_mode kv_cache_dtype =
     (if kv_cache_dtype = ''int8_per_token_head'' then Int8PerTokenHead
      else if kv_cache_dtype = ''fp8_per_token_head'' then Fp8PerTokenHead
      else if kv_cache_dtype = ''nvfp4'' then Nvfp4
      else if take 3 kv_cache_dtype = ''fp8'' then Fp8PerTensor
      else QuantNone)"

definition is_quantized_kv_cache :: "string \<Rightarrow> bool" where
  "is_quantized_kv_cache kv_cache_dtype \<longleftrightarrow> get_kv_quant_mode kv_cache_dtype \<noteq> QuantNone"

definition kv_cache_uses_per_token_head_scales :: "string \<Rightarrow> bool" where
  "kv_cache_uses_per_token_head_scales kv_cache_dtype = is_per_token_head (get_kv_quant_mode kv_cache_dtype)"

section \<open>The classes\<close>

record attention_fields =
  af_num_kv_heads :: int
  af_head_size :: int
  af_dtype :: string
  af_kv_quant_mode :: kv_quant_mode
  af_page_size_padded :: "int option"
  af_indexes_kv_by_block_stride :: bool

record full_fields =
  ff_head_size_v :: int
  ff_sliding_window :: "int option"
  ff_attention_chunk_size :: "int option"
  ff_non_causal :: bool

record mla_fields =
  ml_cache_dtype_str :: "string option"
  ml_alignment :: "int option"
  ml_compress_ratio :: int
  ml_model_version :: "string option"

record mamba_fields =
  mf_shapes :: "int list list"
  mf_dtypes :: "string list"
  mf_page_size_padded :: "int option"
  mf_mamba_type :: string
  mf_mamba_cache_mode :: mamba_mode
  mf_num_speculative_blocks :: int

datatype attention_class =
    FullAttention full_fields
  | TQFullAttention full_fields int
  | MLAAttention full_fields mla_fields
  | HiddenStateCache full_fields mla_fields
  | SinkFullAttention full_fields "int option"
  | ChunkedLocalAttention int
  | SlidingWindow int int
  | SlidingWindowMLA int "int option" mla_fields
  | EncoderOnlyAttention
  | CrossAttention

datatype layer_spec =
    AttentionLayer int attention_fields attention_class
  | MambaLayer int mamba_fields

text \<open>A specification of one layer, or \<open>UniformTypeKVCacheSpecs\<close> with its block size and one for each layer.\<close>

datatype group_spec =
    OneSpec layer_spec
  | UniformTypeKVCacheSpecs int "(string, layer_spec) dict"

text \<open>\<open>isinstance\<close>: the fields of the class the specification is an instance of, if it is one.\<close>

fun full_of :: "attention_class \<Rightarrow> full_fields option" where
  "full_of (FullAttention f) = Some f"
| "full_of (TQFullAttention f _) = Some f"
| "full_of (MLAAttention f _) = Some f"
| "full_of (HiddenStateCache f _) = Some f"
| "full_of (SinkFullAttention f _) = Some f"
| "full_of _ = None"

fun mla_of :: "attention_class \<Rightarrow> mla_fields option" where
  "mla_of (MLAAttention _ m) = Some m"
| "mla_of (HiddenStateCache _ m) = Some m"
| "mla_of _ = None"

fun sliding_mla_of :: "attention_class \<Rightarrow> (int \<times> mla_fields) option" where
  "sliding_mla_of (SlidingWindowMLA w _ m) = Some (w, m)"
| "sliding_mla_of _ = None"

fun window_of :: "attention_class \<Rightarrow> int option" where
  "window_of (SlidingWindow w _) = Some w"
| "window_of (SlidingWindowMLA w _ _) = Some w"
| "window_of _ = None"

fun chunk_of :: "attention_class \<Rightarrow> int option" where
  "chunk_of (ChunkedLocalAttention c) = Some c"
| "chunk_of _ = None"

fun spec_block_size :: "layer_spec \<Rightarrow> int" where
  "spec_block_size (AttentionLayer bs _ _) = bs"
| "spec_block_size (MambaLayer bs _) = bs"

fun class_of :: "layer_spec \<Rightarrow> attention_class option" where
  "class_of (AttentionLayer _ _ c) = Some c"
| "class_of (MambaLayer _ _) = None"

definition as_class :: "(attention_class \<Rightarrow> 'a option) \<Rightarrow> layer_spec \<Rightarrow> 'a option" where
  "as_class sel s = Option.bind (class_of s) sel"

abbreviation "is_full s \<equiv> as_class full_of s \<noteq> None"
abbreviation "is_mla s \<equiv> as_class mla_of s \<noteq> None"
abbreviation "is_sliding s \<equiv> as_class window_of s \<noteq> None"
abbreviation "is_sliding_mla s \<equiv> as_class sliding_mla_of s \<noteq> None"
abbreviation "is_chunked s \<equiv> as_class chunk_of s \<noteq> None"

fun is_hidden_state :: "layer_spec \<Rightarrow> bool" where
  "is_hidden_state (AttentionLayer _ _ (HiddenStateCache _ _)) = True"
| "is_hidden_state _ = False"

section \<open>The size of a page\<close>

definition storage_block_size :: "int \<Rightarrow> mla_fields \<Rightarrow> int" where
  "storage_block_size block_size m = block_size div ml_compress_ratio m"

definition nvfp4_kv_cache_full_dim :: "int \<Rightarrow> int" where
  "nvfp4_kv_cache_full_dim head_size = head_size div 2 + head_size div 16"

definition round_up :: "int \<Rightarrow> int \<Rightarrow> int" where
  "round_up x y = ((x + y - 1) div y) * y"

text \<open>\<open>real_page_size_bytes\<close> of \<open>AttentionSpec\<close>, of the classes with a size of the values, and of
  the MLA classes.\<close>

definition attention_page :: "(string \<Rightarrow> int) \<Rightarrow> int \<Rightarrow> attention_fields \<Rightarrow> int" where
  "attention_page sz block_size a =
     (if af_kv_quant_mode a = Nvfp4
      then 2 * block_size * af_num_kv_heads a * nvfp4_kv_cache_full_dim (af_head_size a) * sz (af_dtype a)
      else 2 * block_size * af_num_kv_heads a * af_head_size a * sz (af_dtype a))"

definition full_page :: "(string \<Rightarrow> int) \<Rightarrow> int \<Rightarrow> attention_fields \<Rightarrow> int \<Rightarrow> int" where
  "full_page sz block_size a head_size_v =
     (if af_kv_quant_mode a = Nvfp4
      then block_size * af_num_kv_heads a *
        (nvfp4_kv_cache_full_dim (af_head_size a) + nvfp4_kv_cache_full_dim head_size_v) * sz (af_dtype a)
      else block_size * af_num_kv_heads a * (af_head_size a + head_size_v) * sz (af_dtype a))"

definition mla_page :: "(string \<Rightarrow> int) \<Rightarrow> int \<Rightarrow> attention_fields \<Rightarrow> mla_fields \<Rightarrow> int" where
  "mla_page sz block_size a m =
     (if ml_cache_dtype_str m = Some ''fp8_ds_mla''
      then if ml_model_version m = Some ''deepseek_v4'' then storage_block_size block_size m * 584
           else block_size * 656
      else storage_block_size block_size m * af_num_kv_heads a * af_head_size a * sz (af_dtype a))"

definition sliding_mla_page :: "(string \<Rightarrow> int) \<Rightarrow> int \<Rightarrow> attention_fields \<Rightarrow> mla_fields \<Rightarrow> int res" where
  "sliding_mla_page sz block_size a m =
     (if ml_model_version m = Some ''deepseek_v4'' \<and> ml_cache_dtype_str m = Some ''fp8_ds_mla''
      then Inr (storage_block_size block_size m * 584)
      else rbind (check (ml_model_version m = None \<or> ml_model_version m = Some ''deepseek_v4'') AssertionError)
        (\<lambda>_. Inr (storage_block_size block_size m * af_num_kv_heads a * af_head_size a * sz (af_dtype a))))"

fun real_page_size_bytes :: "(string \<Rightarrow> int) \<Rightarrow> int \<Rightarrow> attention_fields \<Rightarrow> attention_class \<Rightarrow> int res" where
  "real_page_size_bytes sz bs a (FullAttention f) = Inr (full_page sz bs a (ff_head_size_v f))"
| "real_page_size_bytes sz bs a (TQFullAttention f tq_slot_size) =
     Inr (if tq_slot_size > 0 then bs * af_num_kv_heads a * tq_slot_size
          else full_page sz bs a (ff_head_size_v f))"
| "real_page_size_bytes sz bs a (MLAAttention _ m) = Inr (mla_page sz bs a m)"
| "real_page_size_bytes sz bs a (HiddenStateCache _ m) = Inr (mla_page sz bs a m)"
| "real_page_size_bytes sz bs a (SinkFullAttention f _) = Inr (full_page sz bs a (ff_head_size_v f))"
| "real_page_size_bytes sz bs a (ChunkedLocalAttention _) = Inr (attention_page sz bs a)"
| "real_page_size_bytes sz bs a (SlidingWindow _ head_size_v) = Inr (full_page sz bs a head_size_v)"
| "real_page_size_bytes sz bs a (SlidingWindowMLA _ _ m) = sliding_mla_page sz bs a m"
| "real_page_size_bytes sz bs a EncoderOnlyAttention = Inr (attention_page sz bs a)"
| "real_page_size_bytes sz bs a CrossAttention = Inr (attention_page sz bs a)"

definition padded_page :: "int \<Rightarrow> int option \<Rightarrow> int res" where
  "padded_page page_size page_size_padded =
     (case page_size_padded of
        None \<Rightarrow> Inr page_size
      | Some p \<Rightarrow> rbind (check (p \<ge> page_size) AssertionError) (\<lambda>_. Inr p))"

definition attention_page_size_bytes ::
  "(string \<Rightarrow> int) \<Rightarrow> int \<Rightarrow> attention_fields \<Rightarrow> attention_class \<Rightarrow> int res" where
  "attention_page_size_bytes sz bs a c =
     rbind (real_page_size_bytes sz bs a c) (\<lambda>real_page_size.
       padded_page
         (if is_per_token_head (af_kv_quant_mode a)
          then real_page_size + 2 * bs * af_num_kv_heads a * sz ''float32'' else real_page_size)
         (af_page_size_padded a))"

definition mamba_page_size_bytes :: "(string \<Rightarrow> int) \<Rightarrow> mamba_fields \<Rightarrow> int res" where
  "mamba_page_size_bytes sz m =
     padded_page (\<Sum>(shape, dtype)\<leftarrow>zip (mf_shapes m) (mf_dtypes m). prod_list shape * sz dtype)
       (mf_page_size_padded m)"

fun page_size_bytes :: "(string \<Rightarrow> int) \<Rightarrow> layer_spec \<Rightarrow> int res" where
  "page_size_bytes sz (AttentionLayer bs a c) = attention_page_size_bytes sz bs a c"
| "page_size_bytes sz (MambaLayer _ m) = mamba_page_size_bytes sz m"

text \<open>\<open>__post_init__\<close> of the MLA classes, and \<open>replace\<close>, which runs it again.\<close>

fun alignment_of :: "attention_class \<Rightarrow> int option" where
  "alignment_of (MLAAttention _ m) = ml_alignment m"
| "alignment_of (HiddenStateCache _ m) = ml_alignment m"
| "alignment_of (SlidingWindowMLA _ _ m) = ml_alignment m"
| "alignment_of _ = None"

definition apply_alignment_padding ::
  "(string \<Rightarrow> int) \<Rightarrow> int \<Rightarrow> attention_fields \<Rightarrow> attention_class \<Rightarrow> layer_spec res" where
  "apply_alignment_padding sz bs a c =
     (case alignment_of c of
        None \<Rightarrow> Inr (AttentionLayer bs a c)
      | Some alignment \<Rightarrow>
          rbind (real_page_size_bytes sz bs a c) (\<lambda>actual_page_size.
          let padded_page_size = round_up actual_page_size alignment
          in Inr (AttentionLayer bs
               (if padded_page_size \<noteq> actual_page_size
                then a\<lparr>af_page_size_padded := Some padded_page_size\<rparr> else a) c)))"

fun replace_block_size :: "(string \<Rightarrow> int) \<Rightarrow> int \<Rightarrow> layer_spec \<Rightarrow> layer_spec res" where
  "replace_block_size sz block_size (AttentionLayer _ a c) = apply_alignment_padding sz block_size a c"
| "replace_block_size sz block_size (MambaLayer _ m) = Inr (MambaLayer block_size m)"

section \<open>The memory of a request\<close>

definition full_max_memory_usage_bytes :: "mem_config \<Rightarrow> layer_spec \<Rightarrow> int res" where
  "full_max_memory_usage_bytes cfg s =
     (let world_size = mc_decode_context_parallel_size cfg * mc_prefill_context_parallel_size cfg;
          max_model_len = (if world_size > 1 then cdiv (mc_max_model_len cfg) world_size else mc_max_model_len cfg)
      in rbind (page_size_bytes (mc_get_dtype_size cfg) s) (\<lambda>page.
         Inr (cdiv max_model_len (spec_block_size s) * page)))"

definition sliding_max_memory_usage_bytes :: "mem_config \<Rightarrow> layer_spec \<Rightarrow> int \<Rightarrow> int res" where
  "sliding_max_memory_usage_bytes cfg s sliding_window =
     rbind (check (mc_decode_context_parallel_size cfg = 1) AssertionError) (\<lambda>_.
     rbind (page_size_bytes (mc_get_dtype_size cfg) s) (\<lambda>page.
       Inr (sliding_window_admission_blocks sliding_window (spec_block_size s)
              (mc_max_num_batched_tokens cfg) (mc_max_model_len cfg) * page)))"

definition chunked_max_memory_usage_bytes :: "mem_config \<Rightarrow> layer_spec \<Rightarrow> int \<Rightarrow> int res" where
  "chunked_max_memory_usage_bytes cfg s attention_chunk_size =
     rbind (page_size_bytes (mc_get_dtype_size cfg) s) (\<lambda>page.
       Inr (chunked_local_admission_blocks attention_chunk_size (spec_block_size s)
              (mc_max_num_batched_tokens cfg) (mc_max_model_len cfg) * page))"

definition mamba_max_memory_usage_bytes :: "mem_config \<Rightarrow> int \<Rightarrow> mamba_fields \<Rightarrow> int res" where
  "mamba_max_memory_usage_bytes cfg bs m =
     rbind (mamba_page_size_bytes (mc_get_dtype_size cfg) m) (\<lambda>page.
       Inr (case mc_mamba_cache_mode cfg of
              MambaAll \<Rightarrow> (cdiv (mc_max_model_len cfg) bs + mf_num_speculative_blocks m) * page
            | MambaAlign \<Rightarrow> page * (2 + mf_num_speculative_blocks m)
            | MambaNone \<Rightarrow> page * (1 + mf_num_speculative_blocks m)))"

definition cross_max_memory_usage_bytes :: "mem_config \<Rightarrow> layer_spec \<Rightarrow> int res" where
  "cross_max_memory_usage_bytes cfg s =
     rbind (page_size_bytes (mc_get_dtype_size cfg) s) (\<lambda>page.
       Inr (cdiv (mc_max_num_encoder_input_tokens cfg) (spec_block_size s) * page))"

fun max_memory_usage_bytes :: "mem_config \<Rightarrow> layer_spec \<Rightarrow> int res" where
  "max_memory_usage_bytes cfg (AttentionLayer bs a c) =
     (let s = AttentionLayer bs a c in
      case c of
        ChunkedLocalAttention w \<Rightarrow> chunked_max_memory_usage_bytes cfg s w
      | SlidingWindow w _ \<Rightarrow> sliding_max_memory_usage_bytes cfg s w
      | SlidingWindowMLA w _ _ \<Rightarrow> sliding_max_memory_usage_bytes cfg s w
      | EncoderOnlyAttention \<Rightarrow> Inr 0
      | CrossAttention \<Rightarrow> cross_max_memory_usage_bytes cfg s
      | _ \<Rightarrow> full_max_memory_usage_bytes cfg s)"
| "max_memory_usage_bytes cfg (MambaLayer bs m) = mamba_max_memory_usage_bytes cfg bs m"

section \<open>Merging the specifications of a group\<close>

definition all_equal :: "'a list \<Rightarrow> bool" where
  "all_equal xs \<longleftrightarrow> length (uniq xs) = 1"

fun merge_window_sizes :: "int list \<Rightarrow> int option res" where
  "merge_window_sizes [] = Inr None"
| "merge_window_sizes [w] = Inr (Some w)"
| "merge_window_sizes _ = Inl ValueError"

text \<open>\<open>KVCacheSpec.merge\<close>.\<close>

definition merge_same :: "layer_spec \<Rightarrow> layer_spec list \<Rightarrow> layer_spec res" where
  "merge_same s specs = rbind (check (\<forall>s' \<in> set specs. s' = s) AssertionError) (\<lambda>_. Inr s)"

text \<open>\<open>FullAttentionSpec.merge\<close>: the fields of the merged specification; its block size and its
  fields of \<open>AttentionSpec\<close> are those of the first one.\<close>

fun attention_part :: "layer_spec \<Rightarrow> (int \<times> attention_fields) option" where
  "attention_part (AttentionLayer bs a _) = Some (bs, a)"
| "attention_part (MambaLayer _ _) = None"

definition merge_full :: "int \<Rightarrow> attention_fields \<Rightarrow> full_fields \<Rightarrow> layer_spec list \<Rightarrow> full_fields res" where
  "merge_full bs a f specs =
     rbind (check (\<forall>s \<in> set specs. is_full s) AssertionError) (\<lambda>_.
     let fulls = List.map_filter (as_class full_of) specs in
     rbind (check (\<forall>s \<in> set specs. \<not> is_mla s) AssertionError) (\<lambda>_.
     rbind (merge_window_sizes (uniq (List.map_filter ff_sliding_window fulls))) (\<lambda>sliding_window.
     rbind (merge_window_sizes (uniq (List.map_filter ff_attention_chunk_size fulls))) (\<lambda>attention_chunk_size.
     rbind (check (\<forall>s \<in> set specs. attention_part s = Some (bs, a)) AssertionError) (\<lambda>_.
     rbind (check (sliding_window = None \<or> attention_chunk_size = None) AssertionError) (\<lambda>_.
       Inr \<lparr>ff_head_size_v = ff_head_size_v f, ff_sliding_window = sliding_window,
            ff_attention_chunk_size = attention_chunk_size, ff_non_causal = (\<exists>f \<in> set fulls. ff_non_causal f)\<rparr>))))))"

text \<open>The check of \<open>TQFullAttentionSpec.merge\<close>: reading the slot size of another class raises.\<close>

fun check_tq_slot_size :: "int \<Rightarrow> layer_spec list \<Rightarrow> unit res" where
  "check_tq_slot_size slot [] = Inr ()"
| "check_tq_slot_size slot (s # ss) =
     (case class_of s of
        Some (TQFullAttention _ slot') \<Rightarrow>
          rbind (check (slot' = slot) AssertionError) (\<lambda>_. check_tq_slot_size slot ss)
      | _ \<Rightarrow> Inl AttributeError)"

text \<open>\<open>MLAAttentionSpec.merge\<close> and \<open>SlidingWindowMLASpec.merge\<close>: what a new instance of the class with
  the arguments they pass looks like.  The alignment is not passed on, nor is the quantisation mode of
  sliding windows.\<close>

definition merge_mla ::
  "attention_fields \<Rightarrow> mla_fields \<Rightarrow> layer_spec list \<Rightarrow> (full_fields \<times> mla_fields) res" where
  "merge_mla a m specs =
     rbind (check (\<forall>s \<in> set specs. is_mla s) AssertionError) (\<lambda>_.
     let mlas = List.map_filter (as_class mla_of) specs;
         strides = map (af_indexes_kv_by_block_stride \<circ> snd) (List.map_filter attention_part specs)
     in rbind (check (all_equal (map ml_cache_dtype_str mlas) \<and> all_equal (map ml_compress_ratio mlas) \<and>
                      all_equal (map ml_model_version mlas) \<and> all_equal strides) AssertionError) (\<lambda>_.
       Inr (\<lparr>ff_head_size_v = af_head_size a, ff_sliding_window = None, ff_attention_chunk_size = None,
             ff_non_causal = False\<rparr>,
            m\<lparr>ml_alignment := None\<rparr>)))"

definition merge_sliding_mla ::
  "int \<Rightarrow> attention_fields \<Rightarrow> int \<Rightarrow> mla_fields \<Rightarrow> layer_spec list \<Rightarrow> layer_spec res" where
  "merge_sliding_mla bs a w m specs =
     rbind (check (\<forall>s \<in> set specs. is_sliding_mla s) AssertionError) (\<lambda>_.
     let wms = List.map_filter (as_class sliding_mla_of) specs; mlas = map snd wms;
         strides = map (af_indexes_kv_by_block_stride \<circ> snd) (List.map_filter attention_part specs)
     in rbind (check (all_equal (map ml_cache_dtype_str mlas) \<and> all_equal (map ml_compress_ratio mlas) \<and>
                      all_equal (map ml_model_version mlas) \<and> all_equal (map fst wms) \<and> all_equal strides)
                 AssertionError) (\<lambda>_.
       Inr (AttentionLayer bs (a\<lparr>af_kv_quant_mode := QuantNone\<rparr>)
              (SlidingWindowMLA w None (m\<lparr>ml_alignment := None\<rparr>)))))"

text \<open>\<open>specs[0].merge(specs)\<close>.\<close>

fun merge_specs :: "layer_spec list \<Rightarrow> layer_spec res" where
  "merge_specs [] = Inl IndexError"
| "merge_specs (AttentionLayer bs a c # specs) =
     (let first = AttentionLayer bs a c; layers = first # specs in
      case c of
        FullAttention f \<Rightarrow>
          rbind (merge_full bs a f layers) (\<lambda>f'. Inr (AttentionLayer bs a (FullAttention f')))
      | TQFullAttention f slot \<Rightarrow>
          rbind (merge_full bs a f layers) (\<lambda>f'.
          rbind (check_tq_slot_size slot layers) (\<lambda>_. Inr (AttentionLayer bs a (TQFullAttention f' slot))))
      | MLAAttention f m \<Rightarrow>
          rbind (merge_mla a m layers) (\<lambda>(f', m'). Inr (AttentionLayer bs a (MLAAttention f' m')))
      | HiddenStateCache f m \<Rightarrow>
          rbind (merge_mla a m layers) (\<lambda>(f', m'). Inr (AttentionLayer bs a (HiddenStateCache f' m')))
      | SinkFullAttention f sink_len \<Rightarrow>
          rbind (merge_full bs a f layers) (\<lambda>f'. Inr (AttentionLayer bs a (SinkFullAttention f' sink_len)))
      | SlidingWindowMLA w _ m \<Rightarrow> merge_sliding_mla bs a w m layers
      | _ \<Rightarrow> merge_same first layers)"
| "merge_specs (MambaLayer bs m # specs) = merge_same (MambaLayer bs m) (MambaLayer bs m # specs)"

section \<open>Layers of one type\<close>

text \<open>The registered base class of a class: the classes without one are refused.\<close>

datatype base_class =
    BaseFullAttention | BaseSlidingWindow | BaseSlidingWindowMLA | BaseMamba | BaseChunkedLocal | BaseCross

fun get_uniform_type_base_spec :: "layer_spec \<Rightarrow> base_class option" where
  "get_uniform_type_base_spec (MambaLayer _ _) = Some BaseMamba"
| "get_uniform_type_base_spec (AttentionLayer _ _ c) =
     (case c of
        ChunkedLocalAttention _ \<Rightarrow> Some BaseChunkedLocal
      | SlidingWindow _ _ \<Rightarrow> Some BaseSlidingWindow
      | SlidingWindowMLA _ _ _ \<Rightarrow> Some BaseSlidingWindowMLA
      | EncoderOnlyAttention \<Rightarrow> None
      | CrossAttention \<Rightarrow> Some BaseCross
      | _ \<Rightarrow> Some BaseFullAttention)"

text \<open>\<open>check_kv_cache_spec_registry\<close>.\<close>

definition check_kv_cache_spec_registry :: "(string, layer_spec) dict \<Rightarrow> unit res" where
  "check_kv_cache_spec_registry kv_cache_spec =
     check (\<forall>s \<in> set (map snd kv_cache_spec). get_uniform_type_base_spec s \<noteq> None) ValueError"

fun is_uniform_with_collection :: "layer_spec \<Rightarrow> layer_spec list \<Rightarrow> bool res" where
  "is_uniform_with_collection (MambaLayer bs m) specs =
     Inr (\<forall>s \<in> set specs. case s of
            MambaLayer _ m' \<Rightarrow> mf_num_speculative_blocks m' = mf_num_speculative_blocks m
          | AttentionLayer _ _ _ \<Rightarrow> False)"
| "is_uniform_with_collection (AttentionLayer bs a c) specs =
     (case c of
        ChunkedLocalAttention w \<Rightarrow> Inr (\<forall>s \<in> set specs. as_class chunk_of s = Some w)
      | SlidingWindow w _ \<Rightarrow> Inr (\<forall>s \<in> set specs. as_class window_of s = Some w)
      | SlidingWindowMLA w _ _ \<Rightarrow> Inr (\<forall>s \<in> set specs. map_option fst (as_class sliding_mla_of s) = Some w)
      | EncoderOnlyAttention \<Rightarrow> Inl AssertionError
      | CrossAttention \<Rightarrow> Inr (\<forall>s \<in> set specs. class_of s = Some CrossAttention)
      | _ \<Rightarrow> Inr (\<forall>s \<in> set specs. is_full s))"

definition is_uniform_type :: "(string, layer_spec) dict \<Rightarrow> bool res" where
  "is_uniform_type kv_cache_specs =
     (let specs = map snd kv_cache_specs in
      if length (uniq (map spec_block_size specs)) > 1 then Inr False
      else case specs of
             [] \<Rightarrow> Inl StopIteration
           | first_spec # _ \<Rightarrow> is_uniform_with_collection first_spec specs)"

definition from_specs :: "(string, layer_spec) dict \<Rightarrow> (int \<times> (string, layer_spec) dict) option res" where
  "from_specs kv_cache_specs =
     rbind (is_uniform_type kv_cache_specs) (\<lambda>u.
     Inr (if u then Some (spec_block_size (snd (hd kv_cache_specs)), kv_cache_specs) else None))"

text \<open>\<open>max\<close> of a sequence and \<open>a // b\<close>.\<close>

definition py_max :: "int list \<Rightarrow> int res" where
  "py_max xs = (if xs = [] then Inl ValueError else Inr (Max (set xs)))"

definition py_min :: "int list \<Rightarrow> int res" where
  "py_min xs = (if xs = [] then Inl ValueError else Inr (Min (set xs)))"

definition py_div :: "int \<Rightarrow> int \<Rightarrow> int res" where
  "py_div a b = (if b = 0 then Inl ZeroDivisionError else Inr (a div b))"

definition py_cdiv :: "int \<Rightarrow> int \<Rightarrow> int res" where
  "py_cdiv a b = (if b = 0 then Inl ZeroDivisionError else Inr (cdiv a b))"

text \<open>The methods of \<open>UniformTypeKVCacheSpecs\<close>, and the same methods of any specification of a group.\<close>

definition uniform_page_size_bytes :: "(string \<Rightarrow> int) \<Rightarrow> (string, layer_spec) dict \<Rightarrow> int res" where
  "uniform_page_size_bytes sz d =
     rbind (rmap (page_size_bytes sz) (map snd d)) (\<lambda>pages. Inr (sum_list pages))"

definition max_memory_usage_pages :: "mem_config \<Rightarrow> (string, layer_spec) dict \<Rightarrow> int res" where
  "max_memory_usage_pages cfg d =
     rbind (rmap (\<lambda>s.
       rbind (max_memory_usage_bytes cfg s) (\<lambda>n.
       rbind (page_size_bytes (mc_get_dtype_size cfg) s) (\<lambda>page. py_cdiv n page))) (map snd d)) py_max"

definition get_page_sizes :: "(string \<Rightarrow> int) \<Rightarrow> (string, layer_spec) dict \<Rightarrow> int list res" where
  "get_page_sizes sz d = rbind (rmap (page_size_bytes sz) (map snd d)) (\<lambda>pages. Inr (uniq pages))"

definition get_num_layer_tuples :: "(string \<Rightarrow> int) \<Rightarrow> (string, layer_spec) dict \<Rightarrow> int res" where
  "get_num_layer_tuples sz d =
     rbind (rmap (page_size_bytes sz) (map snd d)) (\<lambda>pages.
       if pages = [] then Inl IndexError
       else Inr (Max (set (map (int \<circ> count_list pages) pages))))"

fun group_page_size_bytes :: "(string \<Rightarrow> int) \<Rightarrow> group_spec \<Rightarrow> int res" where
  "group_page_size_bytes sz (OneSpec s) = page_size_bytes sz s"
| "group_page_size_bytes sz (UniformTypeKVCacheSpecs _ d) = uniform_page_size_bytes sz d"

fun group_max_memory_usage_bytes :: "mem_config \<Rightarrow> group_spec \<Rightarrow> int res" where
  "group_max_memory_usage_bytes cfg (OneSpec s) = max_memory_usage_bytes cfg s"
| "group_max_memory_usage_bytes cfg (UniformTypeKVCacheSpecs _ d) =
     rbind (max_memory_usage_pages cfg d) (\<lambda>pages.
     rbind (uniform_page_size_bytes (mc_get_dtype_size cfg) d) (\<lambda>page. Inr (pages * page)))"

text \<open>The window of a group, if all its layers have the same one.\<close>

fun get_kv_cache_spec_sliding_window :: "group_spec \<Rightarrow> int option" where
  "get_kv_cache_spec_sliding_window (OneSpec s) = as_class window_of s"
| "get_kv_cache_spec_sliding_window (UniformTypeKVCacheSpecs _ d) =
     (case uniq (map (as_class window_of \<circ> snd) d) of [w] \<Rightarrow> w | _ \<Rightarrow> None)"

end
