(* ===== verification/MemoryPlan.thy ===== *)
theory MemoryPlan
  imports LayerSpec
begin

text \<open>
  The memory plan of \<^verbatim>\<open>vllm/v1/core/kv_cache_utils.py\<close>: the layers of the model are
  grouped, the memory of every worker is checked against the longest request, the maximum length is
  reduced to what fits when the user asked for that, and the memory is cut into blocks.

  The plan mutates \<open>max_model_len\<close> of the configuration while it searches and restores it; here the
  configuration is an argument.  Padding a specification in place is returning the padded one: the
  objects of different layers are distinct.
\<close>

record cache_group =
  cg_layer_names :: "string list"
  cg_kv_cache_spec :: group_spec
  cg_is_eagle_group :: bool

record cache_tensor =
  ct_size :: int
  ct_shared_by :: "string list"
  ct_offset :: int
  ct_block_stride :: int

record cache_config =
  cc_num_blocks :: int
  cc_kv_cache_tensors :: "cache_tensor list"
  cc_kv_cache_groups :: "cache_group list"

fun is_uniform_specs :: "group_spec \<Rightarrow> bool" where
  "is_uniform_specs (UniformTypeKVCacheSpecs _ _) = True"
| "is_uniform_specs (OneSpec _) = False"

section \<open>Checks against the longest request\<close>

text \<open>The estimate only enters the message of the error.\<close>

definition check_enough_memory :: "int \<Rightarrow> int res \<Rightarrow> int res \<Rightarrow> unit res" where
  "check_enough_memory available_memory needed estimate =
     rbind (check (0 < available_memory) ValueError) (\<lambda>_.
     rbind needed (\<lambda>needed_memory.
       if needed_memory > available_memory then rbind estimate (\<lambda>_. Inl ValueError) else Inr ()))"

definition specs_max_memory_usage_bytes :: "mem_config \<Rightarrow> layer_spec list \<Rightarrow> int res" where
  "specs_max_memory_usage_bytes cfg specs =
     rbind (rmap (max_memory_usage_bytes cfg) specs) (\<lambda>ns. Inr (sum_list ns))"

text \<open>The binary search both estimates share.\<close>

function search_model_len :: "(int \<Rightarrow> bool res) \<Rightarrow> int \<Rightarrow> int \<Rightarrow> int \<Rightarrow> int res" where
  "search_model_len fits left right result =
     (if left \<le> right
      then let mid = (left + right) div 2
           in case fits mid of
                Inl e \<Rightarrow> Inl e
              | Inr True \<Rightarrow> search_model_len fits (mid + 1) right mid
              | Inr False \<Rightarrow> search_model_len fits left (mid - 1) result
      else Inr result)"
  by pat_completeness auto
termination
  by (relation "measure (\<lambda>(_, left, right, _). nat (right + 1 - left))") auto

declare search_model_len.simps [simp del]

definition search_max_model_len :: "(int \<Rightarrow> int res) \<Rightarrow> int \<Rightarrow> int \<Rightarrow> int res" where
  "search_max_model_len usage available_memory original_max_model_len =
     (let fits = (\<lambda>model_len. rbind (usage model_len) (\<lambda>n. Inr (n \<le> available_memory)))
      in rbind (fits 1) (\<lambda>b. if \<not> b then Inr 0 else search_model_len fits 1 original_max_model_len 1))"

definition estimate_max_model_len :: "mem_config \<Rightarrow> layer_spec list \<Rightarrow> int \<Rightarrow> int res" where
  "estimate_max_model_len cfg specs available_memory =
     search_max_model_len (\<lambda>model_len. specs_max_memory_usage_bytes (cfg\<lparr>mc_max_model_len := model_len\<rparr>) specs)
       available_memory (mc_max_model_len cfg)"

definition check_enough_kv_cache_memory :: "mem_config \<Rightarrow> (string, layer_spec) dict \<Rightarrow> int \<Rightarrow> unit res" where
  "check_enough_kv_cache_memory cfg kv_cache_spec available_memory =
     (if kv_cache_spec = [] then Inr ()
      else check_enough_memory available_memory
             (specs_max_memory_usage_bytes cfg (map snd kv_cache_spec))
             (estimate_max_model_len cfg (map snd kv_cache_spec) available_memory))"

section \<open>Groups\<close>

definition create_kv_cache_group_specs ::
  "(string, layer_spec) dict \<Rightarrow> string list list \<Rightarrow> cache_group list res" where
  "create_kv_cache_group_specs kv_cache_spec grouped_layer_names =
     rmap (\<lambda>names.
       rbind (rmap (dict_index kv_cache_spec) names) (\<lambda>layer_specs.
       rbind (merge_specs layer_specs) (\<lambda>merged.
       Inr \<lparr>cg_layer_names = names, cg_kv_cache_spec = OneSpec merged, cg_is_eagle_group = False\<rparr>)))
       grouped_layer_names"

text \<open>Only \<open>AssertionError\<close> is caught.\<close>

definition is_kv_cache_spec_uniform :: "(string, layer_spec) dict \<Rightarrow> bool res" where
  "is_kv_cache_spec_uniform kv_cache_spec =
     (if kv_cache_spec = [] then Inr True
      else case merge_specs (map snd kv_cache_spec) of
             Inr _ \<Rightarrow> Inr True
           | Inl AssertionError \<Rightarrow> Inr False
           | Inl e \<Rightarrow> Inl e)"

definition may_override_num_blocks :: "mem_config \<Rightarrow> int \<Rightarrow> int" where
  "may_override_num_blocks cfg num_blocks =
     (case mc_num_gpu_blocks_override cfg of None \<Rightarrow> num_blocks | Some n \<Rightarrow> n)"

definition get_num_blocks :: "mem_config \<Rightarrow> int \<Rightarrow> int \<Rightarrow> int \<Rightarrow> int res" where
  "get_num_blocks cfg num_layers available_memory page_size =
     rbind (py_div available_memory page_size) (\<lambda>n.
     rbind (py_div n num_layers) (\<lambda>num_blocks. Inr (may_override_num_blocks cfg (max num_blocks 0))))"

definition get_uniform_page_size :: "(string \<Rightarrow> int) \<Rightarrow> group_spec list \<Rightarrow> int res" where
  "get_uniform_page_size sz specs =
     rbind (rmap (group_page_size_bytes sz) specs) (\<lambda>pages.
       case uniq pages of [page_size] \<Rightarrow> Inr page_size | _ \<Rightarrow> Inl AssertionError)"

definition get_kv_cache_groups_uniform_spec :: "(string, layer_spec) dict \<Rightarrow> cache_group list res" where
  "get_kv_cache_groups_uniform_spec kv_cache_specs =
     create_kv_cache_group_specs kv_cache_specs [dkeys kv_cache_specs]"

definition get_kv_cache_groups_uniform_type :: "int \<times> (string, layer_spec) dict \<Rightarrow> cache_group list" where
  "get_kv_cache_groups_uniform_type spec =
     [\<lparr>cg_layer_names = dkeys (snd spec), cg_kv_cache_spec = UniformTypeKVCacheSpecs (fst spec) (snd spec),
       cg_is_eagle_group = False\<rparr>]"

definition is_kv_cache_page_size_uniform :: "(string \<Rightarrow> int) \<Rightarrow> (string, layer_spec) dict \<Rightarrow> bool res" where
  "is_kv_cache_page_size_uniform sz kv_cache_spec =
     rbind (get_page_sizes sz kv_cache_spec) (\<lambda>pages. Inr (length pages = 1))"

text \<open>The body of the loop of \<open>unify_kv_cache_spec_page_size\<close> for one layer.\<close>

fun pad_page :: "int \<Rightarrow> (string \<Rightarrow> int) \<Rightarrow> layer_spec \<Rightarrow> layer_spec res" where
  "pad_page max_page_size sz (AttentionLayer bs a c) =
     (if af_indexes_kv_by_block_stride a
      then apply_alignment_padding sz bs (a\<lparr>af_page_size_padded := Some max_page_size\<rparr>) c
      else Inl NotImplementedError)"
| "pad_page max_page_size sz (MambaLayer _ _) = Inl NotImplementedError"

definition unify_layer :: "(string \<Rightarrow> int) \<Rightarrow> int \<Rightarrow> layer_spec \<Rightarrow> layer_spec res" where
  "unify_layer sz max_page_size layer_spec =
     rbind (page_size_bytes sz layer_spec) (\<lambda>layer_page_size.
       if layer_page_size = max_page_size then Inr layer_spec
       else if layer_page_size = 0 then Inl ZeroDivisionError
       else
         rbind (if max_page_size mod layer_page_size = 0
                then replace_block_size sz (spec_block_size layer_spec * (max_page_size div layer_page_size)) layer_spec
                else pad_page max_page_size sz layer_spec) (\<lambda>new_spec.
         rbind (page_size_bytes sz new_spec) (\<lambda>page.
         rbind (check (page = max_page_size) AssertionError) (\<lambda>_. Inr new_spec))))"

definition unify_kv_cache_spec_page_size ::
  "(string \<Rightarrow> int) \<Rightarrow> (string, layer_spec) dict \<Rightarrow> (string, layer_spec) dict res" where
  "unify_kv_cache_spec_page_size sz kv_cache_spec =
     rbind (get_page_sizes sz kv_cache_spec) (\<lambda>page_sizes.
       if length page_sizes \<le> 1 then Inr kv_cache_spec
       else rmap (\<lambda>(layer_name, layer_spec).
              rbind (unify_layer sz (Max (set page_sizes)) layer_spec) (\<lambda>new_spec. Inr (layer_name, new_spec)))
            kv_cache_spec)"

text \<open>\<open>layers[i::n]\<close>.\<close>

definition every_nth :: "nat \<Rightarrow> nat \<Rightarrow> 'a list \<Rightarrow> 'a list" where
  "every_nth i n xs = map snd (filter (\<lambda>(k, _). k mod n = i mod n \<and> i \<le> k) (enumerate 0 xs))"

text \<open>\<open>same_type_layers\<close>: the names of the layers of each specification, in order of appearance.\<close>

definition same_type_layers :: "(string, layer_spec) dict \<Rightarrow> string list list" where
  "same_type_layers kv_cache_spec =
     map (\<lambda>s. map fst (filter (\<lambda>(_, s'). s' = s) kv_cache_spec)) (uniq (map snd kv_cache_spec))"

definition group_size_of :: "string list list \<Rightarrow> nat" where
  "group_size_of layers =
     (let min_num_layers = Min (set (map length layers)); max_num_layers = Max (set (map length layers))
      in if 2 * max_num_layers < 3 * min_num_layers then max_num_layers else min_num_layers)"

definition split_layers :: "nat \<Rightarrow> string list \<Rightarrow> string list list" where
  "split_layers group_size layers =
     (let num_groups = nat (cdiv (int (length layers)) (int group_size))
      in map (\<lambda>i. every_nth i num_groups layers) [0..<num_groups])"

definition get_kv_cache_groups_uniform_page_size ::
  "(string, layer_spec) dict \<Rightarrow> cache_group list res" where
  "get_kv_cache_groups_uniform_page_size kv_cache_spec =
     (let layers = same_type_layers kv_cache_spec
      in if layers = [] then Inl ValueError
         else create_kv_cache_group_specs kv_cache_spec
                (concat (map (split_layers (group_size_of layers)) layers)))"

section \<open>Tensors\<close>

text \<open>\<open>buckets[page_size][slot]\<close> are the layers that share one tensor.\<close>

definition layer_page_size :: "(string \<Rightarrow> int) \<Rightarrow> group_spec \<Rightarrow> string \<Rightarrow> int res" where
  "layer_page_size sz spec layer_name =
     (case spec of
        OneSpec s \<Rightarrow> page_size_bytes sz s
      | UniformTypeKVCacheSpecs _ d \<Rightarrow> rbind (dict_index d layer_name) (page_size_bytes sz))"

definition bucket_layer ::
  "(string \<Rightarrow> int) \<Rightarrow> group_spec \<Rightarrow> string \<Rightarrow> (int, nat) dict \<times> (int, string list list) dict
     \<Rightarrow> ((int, nat) dict \<times> (int, string list list) dict) res" where
  "bucket_layer sz spec layer_name st =
     (case st of (slot_count, buckets) \<Rightarrow>
     rbind (layer_page_size sz spec layer_name) (\<lambda>ps.
     let slot_idx = (case map_of slot_count ps of None \<Rightarrow> 0 | Some n \<Rightarrow> n);
         slots = (case map_of buckets ps of None \<Rightarrow> [] | Some ss \<Rightarrow> ss);
         slots' = (if slot_idx = length slots then slots @ [[]] else slots)
     in if slot_idx < length slots'
        then Inr (AList.update ps (slot_idx + 1) slot_count,
                  AList.update ps (slots'[slot_idx := slots' ! slot_idx @ [layer_name]]) buckets)
        else Inl IndexError))"

definition bucket_layers_by_page_size ::
  "(string \<Rightarrow> int) \<Rightarrow> cache_group list \<Rightarrow> (int, string list list) dict res" where
  "bucket_layers_by_page_size sz kv_cache_groups =
     rfold (\<lambda>g buckets.
       rbind (rfold (bucket_layer sz (cg_kv_cache_spec g)) (cg_layer_names g) ([], buckets)) (\<lambda>(_, b). Inr b))
       kv_cache_groups []"

definition use_packed_kv_cache_config :: "mem_config \<Rightarrow> cache_group list \<Rightarrow> bool" where
  "use_packed_kv_cache_config cfg kv_cache_groups \<longleftrightarrow>
     (\<forall>g \<in> set kv_cache_groups. is_uniform_specs (cg_kv_cache_spec g)) \<or>
     (mc_enable_cross_layers_blocks cfg \<and> length kv_cache_groups > 1)"

definition buckets_bytes :: "(int, string list list) dict \<Rightarrow> int" where
  "buckets_bytes buckets = (\<Sum>(ps, slots)\<leftarrow>buckets. ps * int (length slots))"

fun packed_tensors :: "int \<Rightarrow> int \<Rightarrow> int \<Rightarrow> (int \<times> string list) list \<Rightarrow> cache_tensor list" where
  "packed_tensors total_size block_stride byte_offset [] = []"
| "packed_tensors total_size block_stride byte_offset ((ps, slot) # slots) =
     \<lparr>ct_size = total_size, ct_shared_by = slot, ct_offset = byte_offset, ct_block_stride = block_stride\<rparr> #
     packed_tensors total_size block_stride (byte_offset + ps) slots"

definition get_kv_cache_config_packed ::
  "mem_config \<Rightarrow> cache_group list \<Rightarrow> int \<Rightarrow> (int \<times> cache_tensor list) res" where
  "get_kv_cache_config_packed cfg kv_cache_groups available_memory =
     rbind (bucket_layers_by_page_size (mc_get_dtype_size cfg) kv_cache_groups) (\<lambda>buckets.
     let total = buckets_bytes buckets in
     rbind (py_div available_memory total) (\<lambda>n.
     let num_blocks = may_override_num_blocks cfg n
     in Inr (num_blocks, packed_tensors (total * num_blocks) total 0
               (concat (map (\<lambda>(ps, slots). map (Pair ps) slots) buckets)))))"

text \<open>The single group of one type with its dictionary, if the groups are that case.\<close>

fun single_uniform :: "cache_group list \<Rightarrow> (string, layer_spec) dict option" where
  "single_uniform [g] =
     (case cg_kv_cache_spec g of UniformTypeKVCacheSpecs _ d \<Rightarrow> Some d | OneSpec _ \<Rightarrow> None)"
| "single_uniform _ = None"

definition pool_bytes_per_block :: "mem_config \<Rightarrow> cache_group list \<Rightarrow> int res" where
  "pool_bytes_per_block cfg kv_cache_groups =
     (let sz = mc_get_dtype_size cfg in
      case single_uniform kv_cache_groups of
        Some d \<Rightarrow> uniform_page_size_bytes sz d
      | None \<Rightarrow>
          if use_packed_kv_cache_config cfg kv_cache_groups
          then rbind (bucket_layers_by_page_size sz kv_cache_groups) (\<lambda>buckets. Inr (buckets_bytes buckets))
          else rbind (py_max (map (int \<circ> length \<circ> cg_layer_names) kv_cache_groups)) (\<lambda>group_size.
               rbind (get_uniform_page_size sz (map cg_kv_cache_spec kv_cache_groups)) (\<lambda>page_size.
               Inr (page_size * group_size))))"

text \<open>The layers at place \<open>i\<close> of every group share a tensor.\<close>

definition shared_by :: "cache_group list \<Rightarrow> nat \<Rightarrow> string list" where
  "shared_by kv_cache_groups i =
     map (\<lambda>g. cg_layer_names g ! i) (filter (\<lambda>g. i < length (cg_layer_names g)) kv_cache_groups)"

definition plain_tensor :: "int \<Rightarrow> string list \<Rightarrow> cache_tensor" where
  "plain_tensor tensor_size layers = \<lparr>ct_size = tensor_size, ct_shared_by = layers, ct_offset = 0, ct_block_stride = 0\<rparr>"

definition general_config :: "mem_config \<Rightarrow> cache_group list \<Rightarrow> int \<Rightarrow> (int \<times> cache_tensor list) res" where
  "general_config cfg kv_cache_groups available_memory =
     rbind (py_max (map (int \<circ> length \<circ> cg_layer_names) kv_cache_groups)) (\<lambda>group_size.
     rbind (get_uniform_page_size (mc_get_dtype_size cfg) (map cg_kv_cache_spec kv_cache_groups)) (\<lambda>page_size.
     rbind (check (group_size > 0) AssertionError) (\<lambda>_.
     rbind (get_num_blocks cfg group_size available_memory page_size) (\<lambda>num_blocks.
       Inr (num_blocks, map (\<lambda>i. plain_tensor (page_size * num_blocks) (shared_by kv_cache_groups i))
              [0..<nat group_size])))))"

definition uniform_type_config ::
  "mem_config \<Rightarrow> cache_group list \<Rightarrow> (string, layer_spec) dict \<Rightarrow> int \<Rightarrow> (int \<times> cache_tensor list) res" where
  "uniform_type_config cfg kv_cache_groups per_layer_specs available_memory =
     rbind (uniform_page_size_bytes (mc_get_dtype_size cfg) per_layer_specs) (\<lambda>page.
     rbind (py_div available_memory page) (\<lambda>n.
     let num_blocks = may_override_num_blocks cfg n in
     rbind (rmap (\<lambda>layer_name.
              rbind (dict_index per_layer_specs layer_name) (\<lambda>s.
              rbind (page_size_bytes (mc_get_dtype_size cfg) s) (\<lambda>ps.
              Inr (plain_tensor (ps * num_blocks) [layer_name]))))
            (cg_layer_names (hd kv_cache_groups))) (\<lambda>tensors. Inr (num_blocks, tensors))))"

definition get_kv_cache_config_from_groups :: "mem_config \<Rightarrow> cache_group list \<Rightarrow> int \<Rightarrow> cache_config res" where
  "get_kv_cache_config_from_groups cfg kv_cache_groups available_memory =
     (if kv_cache_groups = []
      then Inr \<lparr>cc_num_blocks = 1, cc_kv_cache_tensors = [], cc_kv_cache_groups = []\<rparr>
      else rbind (case single_uniform kv_cache_groups of
                    Some d \<Rightarrow> uniform_type_config cfg kv_cache_groups d available_memory
                  | None \<Rightarrow>
                      if use_packed_kv_cache_config cfg kv_cache_groups
                      then get_kv_cache_config_packed cfg kv_cache_groups available_memory
                      else general_config cfg kv_cache_groups available_memory)
             (\<lambda>(num_blocks, tensors).
               Inr \<lparr>cc_num_blocks = num_blocks, cc_kv_cache_tensors = tensors,
                    cc_kv_cache_groups = kv_cache_groups\<rparr>))"

section \<open>Without the hybrid manager\<close>

definition new_full_fields :: "int \<Rightarrow> int option \<Rightarrow> int option \<Rightarrow> full_fields" where
  "new_full_fields head_size_v sliding_window attention_chunk_size =
     \<lparr>ff_head_size_v = head_size_v, ff_sliding_window = sliding_window,
      ff_attention_chunk_size = attention_chunk_size, ff_non_causal = False\<rparr>"

text \<open>The conversion of one layer.  Fields that are not passed to the constructor get their default:
  the quantisation mode of all but the sliding windows, and the stride indexing.\<close>

fun to_full_attention :: "(string \<Rightarrow> int) \<Rightarrow> int option \<Rightarrow> layer_spec \<Rightarrow> layer_spec res" where
  "to_full_attention sz uniform_block_size (MambaLayer bs m) = Inr (MambaLayer bs m)"
| "to_full_attention sz uniform_block_size (AttentionLayer bs a c) =
     (let a' = a\<lparr>af_indexes_kv_by_block_stride := False\<rparr>; a'' = a'\<lparr>af_kv_quant_mode := QuantNone\<rparr> in
      case c of
        SlidingWindowMLA _ _ m \<Rightarrow>
          apply_alignment_padding sz (case uniform_block_size of Some n \<Rightarrow> n | None \<Rightarrow> bs) a''
            (MLAAttention (new_full_fields (af_head_size a) None None) m)
      | SlidingWindow w head_size_v \<Rightarrow>
          Inr (AttentionLayer bs a' (FullAttention (new_full_fields head_size_v (Some w) None)))
      | ChunkedLocalAttention w \<Rightarrow>
          Inr (AttentionLayer bs a'' (FullAttention (new_full_fields (af_head_size a) None (Some w))))
      | _ \<Rightarrow> Inr (AttentionLayer bs a c))"

definition is_one_type :: "(string, layer_spec) dict \<Rightarrow> bool res" where
  "is_one_type kv_cache_spec =
     rbind (is_kv_cache_spec_uniform kv_cache_spec) (\<lambda>u. if u then Inr True else is_uniform_type kv_cache_spec)"

definition unify_hybrid_kv_cache_specs ::
  "(string \<Rightarrow> int) \<Rightarrow> (string, layer_spec) dict \<Rightarrow> (string, layer_spec) dict res" where
  "unify_hybrid_kv_cache_specs sz kv_cache_spec =
     rbind (is_one_type kv_cache_spec) (\<lambda>one.
       if one then Inr kv_cache_spec
       else
         let specs = map snd kv_cache_spec;
             has_full = list_ex is_full specs; has_swa_mla = list_ex is_sliding_mla specs;
             has_window = list_ex is_sliding specs \<or> list_ex is_chunked specs
         in rbind (check (has_swa_mla \<longrightarrow> has_full) AssertionError) (\<lambda>_.
            let uniform_block_size =
                  (if has_swa_mla then Some (spec_block_size (hd (filter is_full specs))) else None)
            in rbind (if has_full \<and> has_window
                      then rmap (\<lambda>(name, s).
                             rbind (to_full_attention sz uniform_block_size s) (\<lambda>s'. Inr (name, s'))) kv_cache_spec
                      else Inr kv_cache_spec) (\<lambda>kv_cache_spec'.
               rbind (is_one_type kv_cache_spec') (\<lambda>one'.
                 if one' then Inr kv_cache_spec' else Inl ValueError))))"

section \<open>Groups of one type each\<close>

text \<open>\<open>_approximate_gcd\<close>: the chunk size with the least padding, the larger one if two are equal.\<close>

definition upward_padding :: "int list \<Rightarrow> int \<Rightarrow> int" where
  "upward_padding xs d = (\<Sum>x\<leftarrow>xs. (d - x mod d) mod d)"

fun best_chunk :: "(int \<Rightarrow> int) \<Rightarrow> int list \<Rightarrow> int \<times> int option \<Rightarrow> int \<times> int option" where
  "best_chunk pad_of [] best = best"
| "best_chunk pad_of (d # ds) (best_d, best_pad) =
     (let pad = pad_of d in
      best_chunk pad_of ds
        (case best_pad of
           None \<Rightarrow> (d, Some pad)
         | Some b \<Rightarrow> if pad < b \<or> (pad = b \<and> d > best_d) then (d, Some pad) else (best_d, best_pad)))"

definition approximate_gcd :: "int list \<Rightarrow> int option \<Rightarrow> int res" where
  "approximate_gcd xs lower_bound =
     rbind (check (xs \<noteq> []) ValueError) (\<lambda>_.
     rbind (check (\<forall>x \<in> set xs. 0 < x) ValueError) (\<lambda>_.
     let min_d = max 1 (case lower_bound of Some b \<Rightarrow> b | None \<Rightarrow> 1); max_d = Max (set xs)
     in Inr (if min_d > max_d then min_d
             else fst (best_chunk (upward_padding xs) [min_d..max_d] (min_d, None)))))"

text \<open>The layers of sliding windows by \<open>(block_size, sliding_window)\<close>, the MLA layers in one group.\<close>

definition group_and_unify_kv_cache_specs ::
  "(string, layer_spec) dict \<Rightarrow> (int \<times> (string, layer_spec) dict) list option res" where
  "group_and_unify_kv_cache_specs kv_cache_spec =
     (let swa = List.map_filter (\<lambda>(name, s).
                  map_option (\<lambda>(w, _). ((spec_block_size s, w), (name, s))) (as_class sliding_mla_of s)) kv_cache_spec;
          mla_specs = filter (\<lambda>(_, s). is_mla s) kv_cache_spec;
          unified = (\<lambda>d. rbind (from_specs d) (\<lambda>u. case u of None \<Rightarrow> Inl AssertionError | Some s \<Rightarrow> Inr s))
      in if swa = [] then Inr None
         else rbind (check (mla_specs \<noteq> []) AssertionError) (\<lambda>_.
              rbind (unified mla_specs) (\<lambda>mla.
              rbind (rmap (\<lambda>key. unified (map snd (filter (\<lambda>(k, _). k = key) swa))) (uniq (map fst swa))) (\<lambda>swas.
              Inr (Some (mla # swas))))))"

text \<open>Padding the pages of one group of sliding windows to the page sizes of the first group: the padded
  specifications and the names by page size.\<close>

fun set_page_size_padded :: "int \<Rightarrow> layer_spec \<Rightarrow> layer_spec" where
  "set_page_size_padded n (AttentionLayer bs a c) = AttentionLayer bs (a\<lparr>af_page_size_padded := Some n\<rparr>) c"
| "set_page_size_padded n (MambaLayer bs m) = MambaLayer bs (m\<lparr>mf_page_size_padded := Some n\<rparr>)"

fun pad_layers ::
  "(string \<Rightarrow> int) \<Rightarrow> (int, int) dict \<Rightarrow> (string, layer_spec) dict
     \<Rightarrow> ((string, layer_spec) dict \<times> (int \<times> string) list) res" where
  "pad_layers sz size_to_candidate [] = Inr ([], [])"
| "pad_layers sz size_to_candidate ((name, s) # layers) =
     rbind (page_size_bytes sz s) (\<lambda>current_size.
     rbind (dict_index size_to_candidate current_size) (\<lambda>candidate.
     rbind (pad_layers sz size_to_candidate layers) (\<lambda>(d, sizes).
       Inr ((name, if current_size < candidate then set_page_size_padded candidate s else s) # d,
            (candidate, name) # sizes))))"

text \<open>\<open>zip(*columns)\<close> for columns of one length.\<close>

definition zip_columns :: "nat \<Rightarrow> 'a list list \<Rightarrow> 'a list list" where
  "zip_columns n columns = map (\<lambda>k. map (\<lambda>col. col ! k) columns) [0..<n]"

definition split_swa_group ::
  "(string \<Rightarrow> int) \<Rightarrow> int list \<Rightarrow> int \<Rightarrow> int \<times> (string, layer_spec) dict \<Rightarrow> cache_group list res" where
  "split_swa_group sz all_page_sizes num_layer_tuples sm_spec =
     rbind (get_page_sizes sz (snd sm_spec)) (\<lambda>sm_page_sizes.
     rbind (py_max sm_page_sizes) (\<lambda>sm_max.
     rbind (py_max all_page_sizes) (\<lambda>all_max.
     rbind (check (sm_max \<le> all_max) AssertionError) (\<lambda>_.
     let candidates = map (\<lambda>ps. (ps, Min (set (filter (\<lambda>x. x \<ge> ps) all_page_sizes)))) sm_page_sizes in
     rbind (pad_layers sz candidates (snd sm_spec)) (\<lambda>(specs, sizes).
     let columns = map (\<lambda>size. map snd (filter (\<lambda>(c, _). c = size) sizes)) (uniq (map fst sizes)) in
     rbind (check (all_equal (map length columns)) AssertionError) (\<lambda>_.
     let num_layers_per_size = length (hd columns);
         n = nat (cdiv (int num_layers_per_size) num_layer_tuples);
         layer_tuples = zip_columns num_layers_per_size columns
     in rmap (\<lambda>i.
          let names = concat (every_nth i n layer_tuples) in
          rbind (rmap (\<lambda>name. rbind (dict_index specs name) (\<lambda>s. Inr (name, s))) names) (\<lambda>d.
          rbind (from_specs d) (\<lambda>u.
            case u of
              None \<Rightarrow> Inl AssertionError
            | Some (bs, d') \<Rightarrow> Inr \<lparr>cg_layer_names = names, cg_kv_cache_spec = UniformTypeKVCacheSpecs bs d',
                                    cg_is_eagle_group = False\<rparr>)))
        [0..<n]))))))"

definition get_kv_cache_groups_uniform_groups ::
  "(string \<Rightarrow> int) \<Rightarrow> (int \<times> (string, layer_spec) dict) list \<Rightarrow> cache_group list res" where
  "get_kv_cache_groups_uniform_groups sz grouped_specs =
     (case grouped_specs of
        [] \<Rightarrow> Inl AssertionError
      | full_mla_spec # swa_mla_specs \<Rightarrow>
          rbind (check (\<forall>s \<in> set (map snd (snd full_mla_spec)). is_mla s) AssertionError) (\<lambda>_.
          rbind (rmap (\<lambda>g. get_num_layer_tuples sz (snd g)) grouped_specs) (\<lambda>num_layer_tuples_per_group.
          rbind (approximate_gcd num_layer_tuples_per_group (Some (hd num_layer_tuples_per_group)))
            (\<lambda>num_layer_tuples.
          rbind (check (\<forall>g \<in> set swa_mla_specs. \<forall>s \<in> set (map snd (snd g)). is_sliding_mla s) AssertionError) (\<lambda>_.
          rbind (get_page_sizes sz (snd full_mla_spec)) (\<lambda>all_page_sizes.
          rbind (rmap (split_swa_group sz all_page_sizes num_layer_tuples) swa_mla_specs) (\<lambda>swa_mla_groups.
            Inr (\<lparr>cg_layer_names = dkeys (snd full_mla_spec),
                  cg_kv_cache_spec = UniformTypeKVCacheSpecs (fst full_mla_spec) (snd full_mla_spec),
                  cg_is_eagle_group = False\<rparr> # concat swa_mla_groups))))))))"

text \<open>The first group with the last layer is flagged.\<close>

fun mark_eagle :: "string \<Rightarrow> cache_group list \<Rightarrow> cache_group list" where
  "mark_eagle last_layer [] = []"
| "mark_eagle last_layer (g # gs) =
     (if last_layer \<in> set (cg_layer_names g) then g\<lparr>cg_is_eagle_group := True\<rparr> # gs
      else g # mark_eagle last_layer gs)"

definition model_version_of :: "layer_spec \<Rightarrow> string option" where
  "model_version_of s =
     (case as_class mla_of s of
        Some m \<Rightarrow> ml_model_version m
      | None \<Rightarrow> Option.bind (as_class sliding_mla_of s) (ml_model_version \<circ> snd))"

definition annotate_eagle_groups_deepseek_v4 ::
  "mem_config \<Rightarrow> (string, layer_spec) dict \<Rightarrow> cache_group list \<Rightarrow> cache_group list" where
  "annotate_eagle_groups_deepseek_v4 cfg kv_cache_spec kv_cache_groups =
     (if \<not> mc_use_eagle cfg then kv_cache_groups
      else if \<not> list_ex (\<lambda>s. model_version_of s = Some ''deepseek_v4'') (map snd kv_cache_spec) then kv_cache_groups
      else mark_eagle (last (dkeys kv_cache_spec)) kv_cache_groups)"

section \<open>The groups of a model\<close>

text \<open>Layers of hidden states get a group of their own, with as many tokens as fit in the common page.\<close>

fun align_hidden :: "(string \<Rightarrow> int) \<Rightarrow> int \<Rightarrow> string \<times> layer_spec \<Rightarrow> cache_group res" where
  "align_hidden sz common_page (name, AttentionLayer bs a c) =
     rbind (py_div common_page (af_num_kv_heads a * af_head_size a * sz (af_dtype a))) (\<lambda>n.
     rbind (apply_alignment_padding sz (max n 1) (a\<lparr>af_page_size_padded := Some common_page\<rparr>) c) (\<lambda>aligned.
     Inr \<lparr>cg_layer_names = [name], cg_kv_cache_spec = OneSpec aligned, cg_is_eagle_group = False\<rparr>))"
| "align_hidden sz common_page (name, MambaLayer bs m) = Inl AttributeError"

definition hybrid_groups :: "(string \<Rightarrow> int) \<Rightarrow> (string, layer_spec) dict \<Rightarrow> cache_group list res" where
  "hybrid_groups sz kv_cache_spec =
     (let hidden_specs = filter (\<lambda>(_, s). is_hidden_state s) kv_cache_spec;
          filtered_spec = filter (\<lambda>(_, s). \<not> is_hidden_state s) kv_cache_spec
      in rbind (unify_kv_cache_spec_page_size sz filtered_spec) (\<lambda>unified.
         rbind (get_kv_cache_groups_uniform_page_size unified) (\<lambda>groups.
           if hidden_specs = [] then Inr groups
           else rbind (get_uniform_page_size sz (map cg_kv_cache_spec groups)) (\<lambda>common_page.
                rbind (rmap (align_hidden sz common_page) hidden_specs) (\<lambda>hidden. Inr (groups @ hidden))))))"

definition get_kv_cache_groups :: "mem_config \<Rightarrow> (string, layer_spec) dict \<Rightarrow> cache_group list res" where
  "get_kv_cache_groups cfg kv_cache_spec =
     (let sz = mc_get_dtype_size cfg in
      rbind (if mc_disable_hybrid_kv_cache_manager cfg then unify_hybrid_kv_cache_specs sz kv_cache_spec
             else Inr kv_cache_spec) (\<lambda>kv_cache_spec.
      if kv_cache_spec = [] then Inr []
      else rbind (is_kv_cache_spec_uniform kv_cache_spec) (\<lambda>uniform.
        if uniform then get_kv_cache_groups_uniform_spec kv_cache_spec
        else rbind (from_specs kv_cache_spec) (\<lambda>uniform_spec.
          case uniform_spec of
            Some spec \<Rightarrow> Inr (get_kv_cache_groups_uniform_type spec)
          | None \<Rightarrow>
              rbind (group_and_unify_kv_cache_specs kv_cache_spec) (\<lambda>grouped_specs.
                case grouped_specs of
                  Some gs \<Rightarrow> rbind (get_kv_cache_groups_uniform_groups sz gs) (\<lambda>groups.
                               Inr (annotate_eagle_groups_deepseek_v4 cfg kv_cache_spec groups))
                | None \<Rightarrow> hybrid_groups sz kv_cache_spec)))))"

section \<open>Capacity\<close>

definition get_max_concurrency_for_kv_cache_config :: "mem_config \<Rightarrow> cache_config \<Rightarrow> rat res" where
  "get_max_concurrency_for_kv_cache_config cfg c =
     rbind (py_max (map (int \<circ> length \<circ> cg_layer_names) (cc_kv_cache_groups c))) (\<lambda>num_layer_per_group.
     rbind (rmap (group_max_memory_usage_bytes cfg \<circ> cg_kv_cache_spec) (cc_kv_cache_groups c)) (\<lambda>usages.
     rbind (group_page_size_bytes (mc_get_dtype_size cfg) (cg_kv_cache_spec (hd (cc_kv_cache_groups c)))) (\<lambda>page.
     rbind (py_cdiv (num_layer_per_group * sum_list usages) (page * num_layer_per_group)) (\<lambda>num_block_per_request.
       if num_block_per_request = 0 then Inl ZeroDivisionError
       else Inr (of_int (cc_num_blocks c) / of_int num_block_per_request)))))"

definition get_kv_cache_capacity :: "mem_config \<Rightarrow> cache_config \<Rightarrow> (int \<times> rat) res" where
  "get_kv_cache_capacity cfg c =
     rbind (get_max_concurrency_for_kv_cache_config cfg c) (\<lambda>max_concurrency.
     Inr (\<lfloor>max_concurrency * of_int (mc_max_model_len cfg)\<rfloor>, max_concurrency))"

text \<open>The configuration of the scheduler: for a group of one type, the specification of any layer.\<close>

definition scheduler_group :: "cache_group \<Rightarrow> cache_group res" where
  "scheduler_group g =
     (case cg_kv_cache_spec g of
        OneSpec s \<Rightarrow> Inr g
      | UniformTypeKVCacheSpecs _ [] \<Rightarrow> Inl StopIteration
      | UniformTypeKVCacheSpecs _ ((_, s) # _) \<Rightarrow> Inr (g\<lparr>cg_kv_cache_spec := OneSpec s\<rparr>))"

definition generate_scheduler_kv_cache_config :: "cache_config list \<Rightarrow> cache_config res" where
  "generate_scheduler_kv_cache_config kv_cache_configs =
     (case kv_cache_configs of
        [] \<Rightarrow> Inl IndexError
      | c # cs \<Rightarrow>
          rbind (check (\<forall>c' \<in> set cs. cc_num_blocks c' = cc_num_blocks c) AssertionError) (\<lambda>_.
          rbind (rmap scheduler_group (cc_kv_cache_groups c)) (\<lambda>groups.
          Inr (c\<lparr>cc_kv_cache_groups := groups\<rparr>))))"

definition max_memory_usage_bytes_from_groups :: "mem_config \<Rightarrow> cache_group list \<Rightarrow> int res" where
  "max_memory_usage_bytes_from_groups cfg kv_cache_groups =
     (let sz = mc_get_dtype_size cfg; specs = map cg_kv_cache_spec kv_cache_groups;
          dicts = List.map_filter (\<lambda>s. case s of UniformTypeKVCacheSpecs _ d \<Rightarrow> Some d | OneSpec _ \<Rightarrow> None) specs
      in if kv_cache_groups = [] then Inr 0
         else case single_uniform kv_cache_groups of
           Some per_layer_specs \<Rightarrow> specs_max_memory_usage_bytes cfg (map snd per_layer_specs)
         | None \<Rightarrow>
             if \<forall>s \<in> set specs. is_uniform_specs s
             then rbind (get_page_sizes sz (hd dicts)) (\<lambda>page_sizes.
                  rbind (rmap (get_num_layer_tuples sz) dicts) (\<lambda>tuples.
                  rbind (py_max tuples) (\<lambda>num_layer_tuples.
                  rbind (rmap (max_memory_usage_pages cfg) dicts) (\<lambda>pages.
                  Inr (\<Sum>n\<leftarrow>pages. num_layer_tuples * n * sum_list page_sizes)))))
             else rbind (py_max (map (int \<circ> length \<circ> cg_layer_names) kv_cache_groups)) (\<lambda>group_size.
                  rbind (get_uniform_page_size sz specs) (\<lambda>page_size.
                  rbind (rmap (\<lambda>s. rbind (group_max_memory_usage_bytes cfg s) (\<lambda>n. py_cdiv n page_size)) specs)
                    (\<lambda>blocks. Inr (group_size * page_size * sum_list blocks)))))"

definition estimate_max_model_len_from_groups :: "mem_config \<Rightarrow> cache_group list \<Rightarrow> int \<Rightarrow> int res" where
  "estimate_max_model_len_from_groups cfg kv_cache_groups available_memory =
     search_max_model_len
       (\<lambda>model_len. max_memory_usage_bytes_from_groups (cfg\<lparr>mc_max_model_len := model_len\<rparr>) kv_cache_groups)
       available_memory (mc_max_model_len cfg)"

text \<open>The new \<open>max_model_len\<close>: the least of the workers' estimates, never more than the original.\<close>

definition auto_fit_max_model_len :: "mem_config \<Rightarrow> cache_group list list \<Rightarrow> int list \<Rightarrow> mem_config res" where
  "auto_fit_max_model_len cfg projected_groups_per_worker available_memory =
     (if \<forall>groups \<in> set projected_groups_per_worker. groups = [] then Inr cfg
      else if available_memory = [] then Inl IndexError
      else rbind (rfold (\<lambda>(groups, avail_mem) auto_fit_max.
               if groups = [] then Inr auto_fit_max
               else rbind (estimate_max_model_len_from_groups cfg groups avail_mem) (\<lambda>worker_max.
                    Inr (if worker_max < auto_fit_max then worker_max else auto_fit_max)))
             (zip projected_groups_per_worker available_memory) (mc_max_model_len cfg)) (\<lambda>auto_fit_max.
           rbind (check (0 < auto_fit_max) ValueError) (\<lambda>_.
           Inr (if auto_fit_max \<ge> mc_max_model_len cfg then cfg else cfg\<lparr>mc_max_model_len := auto_fit_max\<rparr>))))"

section \<open>The configurations of all workers\<close>

definition project_group :: "(string, layer_spec) dict \<Rightarrow> cache_group \<Rightarrow> cache_group res" where
  "project_group worker_spec g =
     (let worker_layer_names = filter (\<lambda>name. name \<in> set (dkeys worker_spec)) (cg_layer_names g)
      in rbind (case cg_kv_cache_spec g of
                  UniformTypeKVCacheSpecs bs d \<Rightarrow>
                    if worker_layer_names = [] then Inr (cg_kv_cache_spec g)
                    else rbind (rmap (\<lambda>name. rbind (dict_index d name) (\<lambda>s. Inr (name, s))) worker_layer_names)
                           (\<lambda>d'. Inr (UniformTypeKVCacheSpecs bs d'))
                | OneSpec s \<Rightarrow> Inr (OneSpec s)) (\<lambda>spec.
         Inr \<lparr>cg_layer_names = worker_layer_names, cg_kv_cache_spec = spec,
              cg_is_eagle_group = cg_is_eagle_group g \<and> worker_layer_names \<noteq> []\<rparr>))"

definition project_kv_cache_groups_to_worker ::
  "cache_group list \<Rightarrow> (string, layer_spec) dict \<Rightarrow> cache_group list res" where
  "project_kv_cache_groups_to_worker global_kv_cache_groups worker_spec =
     rmap (project_group worker_spec) global_kv_cache_groups"

definition merge_layer :: "string \<times> layer_spec \<Rightarrow> (string, layer_spec) dict \<Rightarrow> (string, layer_spec) dict res" where
  "merge_layer layer merged =
     (case map_of merged (fst layer) of
        None \<Rightarrow> Inr (AList.update (fst layer) (snd layer) merged)
      | Some s \<Rightarrow> rbind (check (s = snd layer) AssertionError) (\<lambda>_. Inr merged))"

definition merge_worker_specs :: "(string, layer_spec) dict list \<Rightarrow> (string, layer_spec) dict res" where
  "merge_worker_specs kv_cache_specs = rfold (rfold merge_layer) kv_cache_specs []"

text \<open>With an override of the number of blocks the memory is that of so many blocks.\<close>

definition override_memory :: "mem_config \<Rightarrow> cache_group list \<times> int \<Rightarrow> int res" where
  "override_memory cfg p =
     (case mc_num_gpu_blocks_override cfg of
        None \<Rightarrow> Inr (snd p)
      | Some override \<Rightarrow>
          if fst p = [] then Inr (snd p)
          else rbind (pool_bytes_per_block cfg (fst p)) (\<lambda>bytes_per_block.
               rbind (py_div (snd p) bytes_per_block) (\<lambda>_. Inr (override * bytes_per_block))))"

definition effective_memory :: "mem_config \<Rightarrow> cache_group list list \<Rightarrow> int list \<Rightarrow> int list res" where
  "effective_memory cfg projected available_memory =
     (if mc_num_gpu_blocks_override cfg = None then Inr available_memory
      else rmap (override_memory cfg) (zip projected available_memory))"

definition check_worker :: "mem_config \<Rightarrow> cache_group list \<times> int \<Rightarrow> unit res" where
  "check_worker cfg p =
     (if fst p = [] then Inr ()
      else check_enough_memory (snd p) (max_memory_usage_bytes_from_groups cfg (fst p))
             (estimate_max_model_len_from_groups cfg (fst p) (snd p)))"

definition worker_config ::
  "mem_config \<Rightarrow> cache_group list \<times> (string, layer_spec) dict \<times> int \<Rightarrow> cache_config res" where
  "worker_config cfg p =
     (case p of (projected_groups, kv_cache_spec_one_worker, available_memory_one_worker) \<Rightarrow>
      rbind (check ((\<Sum>g\<leftarrow>projected_groups. length (cg_layer_names g)) = length kv_cache_spec_one_worker)
               AssertionError) (\<lambda>_.
      get_kv_cache_config_from_groups cfg projected_groups available_memory_one_worker))"

definition shrink_tensor :: "int \<Rightarrow> int \<Rightarrow> cache_tensor \<Rightarrow> cache_tensor res" where
  "shrink_tensor num_blocks_old min_num_blocks t =
     (if num_blocks_old = 0 then Inl ZeroDivisionError
      else rbind (check (ct_size t mod num_blocks_old = 0) AssertionError) (\<lambda>_.
           Inr (t\<lparr>ct_size := ct_size t div num_blocks_old * min_num_blocks\<rparr>)))"

text \<open>The number of blocks of every worker becomes the least one; the capacity is computed for the log.\<close>

definition shrink_config :: "mem_config \<Rightarrow> int \<Rightarrow> cache_config \<Rightarrow> cache_config res" where
  "shrink_config cfg min_num_blocks c =
     rbind (rmap (shrink_tensor (cc_num_blocks c) min_num_blocks) (cc_kv_cache_tensors c)) (\<lambda>tensors.
     let c' = c\<lparr>cc_num_blocks := min_num_blocks, cc_kv_cache_tensors := tensors\<rparr>
     in if cc_kv_cache_groups c' = [] then Inr c'
        else rbind (get_kv_cache_capacity cfg c') (\<lambda>_. Inr c'))"

definition shrink_configs :: "mem_config \<Rightarrow> cache_config list \<Rightarrow> cache_config list res" where
  "shrink_configs cfg configs =
     rbind (py_min (map cc_num_blocks configs)) (\<lambda>min_num_blocks.
     rmap (shrink_config cfg min_num_blocks) configs)"

text \<open>The result carries the configuration, whose \<open>max_model_len\<close> may have been reduced.\<close>

definition plan_workers ::
  "mem_config \<Rightarrow> cache_group list list \<Rightarrow> (string, layer_spec) dict list \<Rightarrow> int list
     \<Rightarrow> (cache_config list \<times> mem_config) res" where
  "plan_workers cfg projected kv_cache_specs available_memory =
     rbind (effective_memory cfg projected available_memory) (\<lambda>memory.
     rbind (if mc_original_max_model_len cfg = Some (-1) then auto_fit_max_model_len cfg projected memory
            else Inr cfg) (\<lambda>cfg'.
     rbind (rmap (check_worker cfg') (zip projected memory)) (\<lambda>_.
     rbind (rmap (worker_config cfg') (zip projected (zip kv_cache_specs memory))) (\<lambda>configs.
     rbind (shrink_configs cfg' configs) (\<lambda>configs'. Inr (configs', cfg'))))))"

definition get_kv_cache_configs ::
  "mem_config \<Rightarrow> (string, layer_spec) dict list \<Rightarrow> int list \<Rightarrow> (cache_config list \<times> mem_config) res" where
  "get_kv_cache_configs cfg kv_cache_specs available_memory =
     rbind (merge_worker_specs kv_cache_specs) (\<lambda>merged.
     rbind (check_kv_cache_spec_registry merged) (\<lambda>_.
     rbind (get_kv_cache_groups cfg merged) (\<lambda>groups.
     rbind (rmap (project_kv_cache_groups_to_worker groups) kv_cache_specs) (\<lambda>projected.
       plan_workers cfg projected kv_cache_specs available_memory))))"

end
