(* ===== verification/MemoryProperties.thy ===== *)
theory MemoryProperties
  imports MemoryPlan "HOL-Library.Multiset"
begin

text \<open>
  The memory plan is right: the memory a request may need grows with the length of the model, so the
  binary searches find the largest length that fits, and the blocks every worker gets are enough for
  a request of that length as the check counts them.
\<close>

section \<open>Quantities that grow with the length\<close>

text \<open>A call that raises for every length or for none, and whose result does not decrease.\<close>

definition steady :: "(int \<Rightarrow> int res) \<Rightarrow> bool" where
  "steady f \<longleftrightarrow> (\<exists>e. \<forall>n. f n = Inl e) \<or> (\<exists>g. mono g \<and> (\<forall>n. f n = Inr (g n)))"

definition steady_list :: "(int \<Rightarrow> int list res) \<Rightarrow> bool" where
  "steady_list f \<longleftrightarrow> (\<exists>e. \<forall>n. f n = Inl e) \<or> (\<exists>gs. (\<forall>g \<in> set gs. mono g) \<and> (\<forall>n. f n = Inr (map (\<lambda>g. g n) gs)))"

named_theorems steady_intros \<open>calls that are steady\<close>

lemma steady_mono: "mono g \<Longrightarrow> steady (\<lambda>n. Inr (g n))"
  by (auto simp: steady_def)

lemma steady_const [steady_intros]: "steady (\<lambda>_. Inr c)"
  by (rule steady_mono) (simp add: mono_def)

lemma steady_raise [steady_intros]: "steady (\<lambda>_. Inl e)" "steady_list (\<lambda>_. Inl e)"
  by (auto simp: steady_def steady_list_def)

lemma steady_fixed [steady_intros]:
  "(\<And>x. c = Inr x \<Longrightarrow> steady (\<lambda>n. k x n)) \<Longrightarrow> steady (\<lambda>n. rbind c (\<lambda>x. k x n))"
  by (cases c) (auto simp: steady_raise)

lemma steady_map:
  assumes "steady f" "mono h" shows "steady (\<lambda>n. rbind (f n) (\<lambda>x. Inr (h x)))"
  using assms(1) unfolding steady_def
proof (elim disjE exE conjE)
  fix g assume "mono g" "\<forall>n. f n = Inr (g n)"
  then show "(\<exists>e. \<forall>n. rbind (f n) (\<lambda>x. Inr (h x)) = Inl e) \<or>
      (\<exists>g. mono g \<and> (\<forall>n. rbind (f n) (\<lambda>x. Inr (h x)) = Inr (g n)))"
    using assms(2) by (intro disjI2 exI [of _ "\<lambda>n. h (g n)"]) (auto simp: mono_def)
qed auto

lemma steady_list_fixed [steady_intros]:
  "(\<And>x. c = Inr x \<Longrightarrow> steady_list (\<lambda>n. k x n)) \<Longrightarrow> steady_list (\<lambda>n. rbind c (\<lambda>x. k x n))"
  by (cases c) (auto simp: steady_raise)

lemma steady_rmap [steady_intros]:
  "(\<And>x. x \<in> set xs \<Longrightarrow> steady (\<lambda>n. f n x)) \<Longrightarrow> steady_list (\<lambda>n. rmap (f n) xs)"
proof (induction xs)
  case Nil
  show ?case unfolding steady_list_def by (rule disjI2) (rule exI [of _ "[]"], simp)
next
  case (Cons x xs)
  have "steady (\<lambda>n. f n x)" by (rule Cons.prems) simp
  moreover have "steady_list (\<lambda>n. rmap (f n) xs)" using Cons by simp
  ultimately show ?case unfolding steady_def steady_list_def
  proof (elim disjE exE conjE)
    fix g gs assume "mono g" "\<forall>n. f n x = Inr (g n)" "\<forall>g \<in> set gs. mono g" "\<forall>n. rmap (f n) xs = Inr (map (\<lambda>g. g n) gs)"
    then show "(\<exists>e. \<forall>n. rmap (f n) (x # xs) = Inl e) \<or>
        (\<exists>gs. (\<forall>g \<in> set gs. mono g) \<and> (\<forall>n. rmap (f n) (x # xs) = Inr (map (\<lambda>g. g n) gs)))"
      by (intro disjI2 exI [of _ "g # gs"]) auto
  qed auto
qed

lemma sum_list_mono_funs: "\<forall>g \<in> set gs. mono g \<Longrightarrow> mono (\<lambda>n::int. \<Sum>g\<leftarrow>gs. g n :: int)"
  by (induction gs) (auto simp: mono_def add_mono)

lemma Max_mono_funs:
  assumes "\<forall>g \<in> set gs. mono g" "gs \<noteq> []" shows "mono (\<lambda>n::int. Max ((\<lambda>g. g n :: int) ` set gs))"
proof (rule monoI)
  fix m n :: int assume "m \<le> n"
  have "g m \<le> Max ((\<lambda>g. g n) ` set gs)" if g: "g \<in> set gs" for g
    using assms(1) g \<open>m \<le> n\<close> by (intro order.trans [OF monoD Max_ge]) auto
  then show "Max ((\<lambda>g. g m) ` set gs) \<le> Max ((\<lambda>g. g n) ` set gs)"
    using assms(2) by (subst Max_le_iff) auto
qed

lemma steady_sum [steady_intros]:
  "steady_list f \<Longrightarrow> steady (\<lambda>n. rbind (f n) (\<lambda>xs. Inr (sum_list xs)))"
  unfolding steady_def steady_list_def using sum_list_mono_funs by fastforce

lemma steady_max [steady_intros]:
  assumes "steady_list f" shows "steady (\<lambda>n. rbind (f n) py_max)"
proof -
  have "steady (\<lambda>n. py_max (map (\<lambda>g. g n) gs))" if "\<forall>g \<in> set gs. mono g" for gs
  proof (cases "gs = []")
    case False
    then show ?thesis using steady_mono [OF Max_mono_funs [OF that False]] by (simp add: py_max_def)
  qed (simp add: py_max_def steady_raise)
  then show ?thesis using assms unfolding steady_list_def by (auto simp: steady_raise)
qed

section \<open>The blocks of a request\<close>

text \<open>How many blocks of a layer's specification the check reserves for one request.\<close>

fun request_blocks :: "mem_config \<Rightarrow> layer_spec \<Rightarrow> int" where
  "request_blocks cfg (AttentionLayer bs a c) =
     (let world_size = mc_decode_context_parallel_size cfg * mc_prefill_context_parallel_size cfg;
          n = mc_max_model_len cfg
      in case c of
           ChunkedLocalAttention w \<Rightarrow> chunked_local_admission_blocks w bs (mc_max_num_batched_tokens cfg) n
         | SlidingWindow w _ \<Rightarrow> sliding_window_admission_blocks w bs (mc_max_num_batched_tokens cfg) n
         | SlidingWindowMLA w _ _ \<Rightarrow> sliding_window_admission_blocks w bs (mc_max_num_batched_tokens cfg) n
         | EncoderOnlyAttention \<Rightarrow> 0
         | CrossAttention \<Rightarrow> cdiv (mc_max_num_encoder_input_tokens cfg) bs
         | _ \<Rightarrow> cdiv (if world_size > 1 then cdiv n world_size else n) bs)"
| "request_blocks cfg (MambaLayer bs m) =
     (case mc_mamba_cache_mode cfg of
        MambaAll \<Rightarrow> cdiv (mc_max_model_len cfg) bs + mf_num_speculative_blocks m
      | MambaAlign \<Rightarrow> 2 + mf_num_speculative_blocks m
      | MambaNone \<Rightarrow> 1 + mf_num_speculative_blocks m)"

lemma cdiv_mono_fun: "0 < b \<Longrightarrow> mono (\<lambda>n. cdiv n b)"
  by (simp add: monoI cdiv_mono)

lemma request_blocks_mono:
  assumes "0 < spec_block_size s" shows "mono (\<lambda>n. request_blocks (cfg\<lparr>mc_max_model_len := n\<rparr>) s)"
proof (rule monoI)
  fix m n :: int assume "m \<le> n"
  then show "request_blocks (cfg\<lparr>mc_max_model_len := m\<rparr>) s \<le> request_blocks (cfg\<lparr>mc_max_model_len := n\<rparr>) s"
    using assms
    by (cases s) (auto simp: sliding_window_admission_blocks_def chunked_local_admission_blocks_def Let_def
      intro!: cdiv_mono split: attention_class.splits mamba_mode.splits)
qed

text \<open>The memory of a request is its blocks times the size of a page.\<close>

lemma max_memory_request_blocks:
  assumes "max_memory_usage_bytes cfg s = Inr n" "page_size_bytes (mc_get_dtype_size cfg) s = Inr p"
  shows "n = request_blocks cfg s * p"
  using assms
  by (cases s) (auto simp: res_simps Let_def full_max_memory_usage_bytes_def sliding_max_memory_usage_bytes_def
    chunked_max_memory_usage_bytes_def cross_max_memory_usage_bytes_def mamba_max_memory_usage_bytes_def
    mult.commute split: attention_class.splits mamba_mode.splits)

lemma steady_max_memory:
  assumes "0 < spec_block_size s" "page_size_bytes (mc_get_dtype_size cfg) s = Inr p" "0 \<le> p"
  shows "steady (\<lambda>n. max_memory_usage_bytes (cfg\<lparr>mc_max_model_len := n\<rparr>) s)"
proof -
  let ?f = "\<lambda>n. max_memory_usage_bytes (cfg\<lparr>mc_max_model_len := n\<rparr>) s"
  let ?g = "\<lambda>n. request_blocks (cfg\<lparr>mc_max_model_len := n\<rparr>) s * p"
  have d: "(\<exists>e. \<forall>n. ?f n = Inl e) \<or> (\<forall>n. ?f n = Inr (?g n))"
    using assms(2)
    by (cases s) (auto simp: Let_def full_max_memory_usage_bytes_def sliding_max_memory_usage_bytes_def
      chunked_max_memory_usage_bytes_def cross_max_memory_usage_bytes_def mamba_max_memory_usage_bytes_def
      check_def mult.commute split: attention_class.splits mamba_mode.splits)
  moreover have "mono ?g"
    using request_blocks_mono [OF assms(1), of cfg] assms(3) by (auto simp: mono_def mult_right_mono)
  ultimately show ?thesis unfolding steady_def by blast
qed

text \<open>A configuration of positive sizes.\<close>

definition sized :: "(string \<Rightarrow> int) \<Rightarrow> layer_spec \<Rightarrow> bool" where
  "sized sz s \<longleftrightarrow> 0 < spec_block_size s \<and> (case page_size_bytes sz s of Inr p \<Rightarrow> 0 < p | Inl _ \<Rightarrow> False)"

fun specs_of :: "group_spec \<Rightarrow> layer_spec list" where
  "specs_of (OneSpec s) = [s]"
| "specs_of (UniformTypeKVCacheSpecs _ d) = map snd d"

definition sized_groups :: "(string \<Rightarrow> int) \<Rightarrow> cache_group list \<Rightarrow> bool" where
  "sized_groups sz groups \<longleftrightarrow> (\<forall>g \<in> set groups. \<forall>s \<in> set (specs_of (cg_kv_cache_spec g)). sized sz s)"

lemma sizedE:
  assumes "sized sz s" obtains p where "page_size_bytes sz s = Inr p" "0 < p" "0 < spec_block_size s"
  using assms by (auto simp: sized_def split: sum.splits)

lemma steady_sized: "sized (mc_get_dtype_size cfg) s \<Longrightarrow> steady (\<lambda>n. max_memory_usage_bytes (cfg\<lparr>mc_max_model_len := n\<rparr>) s)"
  by (elim sizedE) (rule steady_max_memory, auto)

lemma steady_cdiv:
  assumes "steady f" "0 \<le> page" shows "steady (\<lambda>n. rbind (f n) (\<lambda>x. py_cdiv x page))"
proof (cases "page = 0")
  case True
  have "steady (\<lambda>n. rbind (f n) (\<lambda>x. Inl ZeroDivisionError))"
    using assms(1) unfolding steady_def by auto
  then show ?thesis using True by (simp add: py_cdiv_def)
next
  case False
  then show ?thesis
    using steady_map [OF assms(1) cdiv_mono_fun [of page]] assms(2) by (simp add: py_cdiv_def)
qed

lemma steady_specs_memory:
  "\<forall>s \<in> set specs. sized (mc_get_dtype_size cfg) s \<Longrightarrow>
     steady (\<lambda>n. specs_max_memory_usage_bytes (cfg\<lparr>mc_max_model_len := n\<rparr>) specs)"
  unfolding specs_max_memory_usage_bytes_def by (intro steady_intros steady_sized) auto

lemma steady_pages:
  assumes "\<forall>s \<in> set (map snd d). sized (mc_get_dtype_size cfg) s"
  shows "steady (\<lambda>n. max_memory_usage_pages (cfg\<lparr>mc_max_model_len := n\<rparr>) d)"
proof -
  have "steady (\<lambda>n. rbind (max_memory_usage_bytes (cfg\<lparr>mc_max_model_len := n\<rparr>) s) (\<lambda>x.
      rbind (page_size_bytes (mc_get_dtype_size cfg) s) (\<lambda>page. py_cdiv x page)))"
    if "s \<in> set (map snd d)" for s
  proof -
    have z: "sized (mc_get_dtype_size cfg) s" using assms that by blast
    then obtain p where "page_size_bytes (mc_get_dtype_size cfg) s = Inr p" "0 < p" by (rule sizedE)
    then show ?thesis using steady_cdiv [OF steady_sized [OF z]] by simp
  qed
  then show ?thesis unfolding max_memory_usage_pages_def by (intro steady_intros) simp
qed

lemma pages_positive:
  assumes "rmap (page_size_bytes sz) specs = Inr pages" "\<forall>s \<in> set specs. sized sz s"
  shows "\<forall>p \<in> set pages. 0 < p"
  using assms by (auto simp: rmap_Inr_iff list_all2_conv_all_nth in_set_conv_nth sized_def split: sum.splits)
    (metis nth_mem sum.inject(2) sum.simps(4))

lemma steady_group_memory:
  assumes "\<forall>s \<in> set (specs_of g). sized (mc_get_dtype_size cfg) s"
  shows "steady (\<lambda>n. group_max_memory_usage_bytes (cfg\<lparr>mc_max_model_len := n\<rparr>) g)"
proof (cases g)
  case (OneSpec s)
  then show ?thesis using assms by (simp add: steady_sized)
next
  case (UniformTypeKVCacheSpecs bs d)
  have d: "\<forall>s \<in> set (map snd d). sized (mc_get_dtype_size cfg) s" using assms UniformTypeKVCacheSpecs by simp
  show ?thesis
  proof (cases "uniform_page_size_bytes (mc_get_dtype_size cfg) d")
    case (Inl e)
    have "steady (\<lambda>n. rbind (f n) (\<lambda>_. Inl e))" if "steady f" for f :: "int \<Rightarrow> int res"
      using that unfolding steady_def by auto
    then show ?thesis using UniformTypeKVCacheSpecs Inl steady_pages [OF d] by simp
  next
    case (Inr p)
    then have "0 \<le> p"
      unfolding uniform_page_size_bytes_def using pages_positive d
      by (fastforce simp: res_simps intro!: sum_list_nonneg)
    then show ?thesis
      using UniformTypeKVCacheSpecs Inr steady_map [OF steady_pages [OF d], of "\<lambda>x. x * p"]
      by (simp add: mono_def mult_right_mono)
  qed
qed

lemma rmap_elem:
  assumes "rmap f xs = Inr ys" "x \<in> set xs" shows "\<exists>y \<in> set ys. f x = Inr y"
  using assms by (induction xs arbitrary: ys) (auto simp: res_simps)

lemma rmap_source:
  assumes "rmap f xs = Inr ys" "y \<in> set ys" shows "\<exists>x \<in> set xs. f x = Inr y"
  using assms by (induction xs arbitrary: ys) (auto simp: res_simps)

lemma steady_sum_map:
  assumes "steady_list f" "mono h" shows "steady (\<lambda>n. rbind (f n) (\<lambda>xs. Inr (\<Sum>x\<leftarrow>xs. h x)))"
proof -
  have "steady_list (\<lambda>n. rbind (f n) (\<lambda>xs. Inr (map h xs)))"
    using assms(1) unfolding steady_list_def
  proof (elim disjE exE conjE)
    fix gs assume "\<forall>g \<in> set gs. mono g" "\<forall>n. f n = Inr (map (\<lambda>g. g n) gs)"
    then show "(\<exists>e. \<forall>n. rbind (f n) (\<lambda>xs. Inr (map h xs)) = Inl e) \<or>
        (\<exists>gs. (\<forall>g \<in> set gs. mono g) \<and> (\<forall>n. rbind (f n) (\<lambda>xs. Inr (map h xs)) = Inr (map (\<lambda>g. g n) gs)))"
      using assms(2) by (intro disjI2 exI [of _ "map (\<lambda>g n. h (g n)) gs"]) (auto simp: mono_def)
  qed auto
  moreover have "rbind (rbind (f n) (\<lambda>xs. Inr (map h xs))) (\<lambda>xs. Inr (sum_list xs)) =
      rbind (f n) (\<lambda>xs. Inr (\<Sum>x\<leftarrow>xs. h x))" for n
    by (cases "f n") simp_all
  ultimately show ?thesis using steady_sum by fastforce
qed

lemma page_sizes_positive:
  assumes "get_page_sizes sz d = Inr pages" "\<forall>s \<in> set (map snd d). sized sz s"
  shows "0 \<le> sum_list pages"
proof -
  obtain ps where ps: "rmap (page_size_bytes sz) (map snd d) = Inr ps" "pages = uniq ps"
    using assms(1) by (auto simp: get_page_sizes_def res_simps)
  show ?thesis using pages_positive [OF ps(1) assms(2)] by (force simp: ps(2) intro!: sum_list_nonneg)
qed

lemma layer_tuples_nonneg:
  assumes "get_num_layer_tuples sz d = Inr n" shows "0 \<le> n"
proof -
  obtain ps :: "int list" where r: "(if ps = [] then Inl IndexError else Inr (Max (set (map (int \<circ> count_list ps) ps)))) = Inr n"
    by (rule rbindE [OF assms [unfolded get_num_layer_tuples_def]])
  have "ps \<noteq> []" "n = Max (set (map (int \<circ> count_list ps) ps))" using r by (simp_all split: if_splits)
  then show ?thesis by (cases ps) (auto simp: Max_ge_iff)
qed

lemma py_max_ge: "py_max xs = Inr m \<Longrightarrow> \<forall>x \<in> set xs. 0 \<le> x \<Longrightarrow> 0 \<le> m"
  by (cases xs) (auto simp: py_max_def Max_ge_iff)

lemma py_max_upper: "py_max xs = Inr m \<Longrightarrow> x \<in> set xs \<Longrightarrow> x \<le> m"
  by (auto simp: py_max_def split: if_splits)

lemma py_max_in: "py_max xs = Inr m \<Longrightarrow> m \<in> set xs"
  by (auto simp: py_max_def split: if_splits)

lemma group_page_nonneg:
  assumes "group_page_size_bytes sz g = Inr p" "\<forall>s \<in> set (specs_of g). sized sz s"
  shows "0 \<le> p"
proof (cases g)
  case (UniformTypeKVCacheSpecs bs d)
  then show ?thesis using assms pages_positive [of sz "map snd d"]
    by (fastforce simp: uniform_page_size_bytes_def res_simps intro!: sum_list_nonneg)
qed (use assms in \<open>auto simp: sized_def\<close>)

lemma uniform_page_size:
  assumes "get_uniform_page_size sz gs = Inr page" "g \<in> set gs" shows "group_page_size_bytes sz g = Inr page"
proof -
  obtain ps where ps: "rmap (group_page_size_bytes sz) gs = Inr ps" "uniq ps = [page]"
    by (rule rbindE [OF assms(1) [unfolded get_uniform_page_size_def]])
      (auto split: list.splits)
  have "set ps = {page}" using ps(2) by (metis list.simps(15) list.set(1) set_uniq)
  moreover obtain p where "group_page_size_bytes sz g = Inr p" "p \<in> set ps"
    using rmap_elem [OF ps(1) assms(2)] by blast
  ultimately show ?thesis by simp
qed

lemma uniform_page_nonneg:
  assumes "get_uniform_page_size sz gs = Inr page" "\<forall>g \<in> set gs. \<forall>s \<in> set (specs_of g). sized sz s"
  shows "0 \<le> page"
proof -
  have "gs \<noteq> []" using assms(1) by (auto simp: get_uniform_page_size_def)
  then obtain g where "g \<in> set gs" by (meson list.set_sel(1))
  then show ?thesis using uniform_page_size [OF assms(1)] group_page_nonneg assms(2) by blast
qed
lemma uniform_dicts:
  assumes "d \<in> set (List.map_filter (\<lambda>s. case s of UniformTypeKVCacheSpecs _ d \<Rightarrow> Some d | OneSpec _ \<Rightarrow> None)
      (map cg_kv_cache_spec groups))" "sized_groups sz groups"
  shows "\<forall>s \<in> set (map snd d). sized sz s"
proof -
  obtain g bs where "g \<in> set groups" "cg_kv_cache_spec g = UniformTypeKVCacheSpecs bs d"
    using assms(1) by (auto simp: map_filter_def split: group_spec.splits)
  then show ?thesis using assms(2) by (force simp: sized_groups_def)
qed

lemma steady_groups_memory:
  assumes "sized_groups (mc_get_dtype_size cfg) groups"
  shows "steady (\<lambda>n. max_memory_usage_bytes_from_groups (cfg\<lparr>mc_max_model_len := n\<rparr>) groups)"
proof -
  let ?sz = "mc_get_dtype_size cfg" and ?specs = "map cg_kv_cache_spec groups"
  let ?dicts = "List.map_filter (\<lambda>s. case s of UniformTypeKVCacheSpecs _ d \<Rightarrow> Some d | OneSpec _ \<Rightarrow> None) ?specs"
  have g: "\<forall>s \<in> set (specs_of g). sized ?sz s" if "g \<in> set ?specs" for g
    using assms that by (auto simp: sized_groups_def)
  consider (none) "groups = []" | (single) d where "groups \<noteq> []" "single_uniform groups = Some d"
    | (all) "groups \<noteq> []" "single_uniform groups = None" "\<forall>s \<in> set ?specs. is_uniform_specs s"
    | (general) "groups \<noteq> []" "single_uniform groups = None" "\<not> (\<forall>s \<in> set ?specs. is_uniform_specs s)"
    by fastforce
  then show ?thesis
  proof cases
    case none
    then show ?thesis by (simp add: max_memory_usage_bytes_from_groups_def steady_const)
  next
    case (single d)
    then obtain g bs where "groups = [g]" "cg_kv_cache_spec g = UniformTypeKVCacheSpecs bs d"
      by (cases groups rule: single_uniform.cases) (auto split: group_spec.splits)
    then have "\<forall>s \<in> set (map snd d). sized ?sz s" using g by simp
    then show ?thesis using single steady_specs_memory
      by (simp add: max_memory_usage_bytes_from_groups_def)
  next
    case all
    then have "?dicts \<noteq> []"
      by (cases groups; cases "cg_kv_cache_spec (hd groups)") (auto simp: map_filter_simps)
    then obtain d where d: "hd ?dicts = d" "d \<in> set ?dicts" by simp
    have "steady (\<lambda>n. rbind (rmap (max_memory_usage_pages (cfg\<lparr>mc_max_model_len := n\<rparr>)) ?dicts)
        (\<lambda>pages. Inr (\<Sum>k\<leftarrow>pages. t * k * sum_list sizes)))"
      if "get_page_sizes ?sz d = Inr sizes" "rmap (get_num_layer_tuples ?sz) ?dicts = Inr ts" "py_max ts = Inr t"
      for sizes ts t
    proof (rule steady_sum_map)
      have "0 \<le> sum_list sizes" by (rule page_sizes_positive [OF that(1) uniform_dicts [OF d(2) assms]])
      moreover have "\<forall>x \<in> set ts. 0 \<le> x" using rmap_source [OF that(2)] layer_tuples_nonneg by blast
      then have "0 \<le> t" by (rule py_max_ge [OF that(3)])
      ultimately show "mono (\<lambda>k. t * k * sum_list sizes)" by (simp add: mono_def mult_left_mono mult_right_mono)
      show "steady_list (\<lambda>n. rmap (max_memory_usage_pages (cfg\<lparr>mc_max_model_len := n\<rparr>)) ?dicts)"
        by (intro steady_intros steady_pages uniform_dicts [OF _ assms])
    qed
    then show ?thesis using all d(1)
      by (auto simp: max_memory_usage_bytes_from_groups_def Let_def intro!: steady_intros)
  next
    case general
    have "steady (\<lambda>n. rbind (rmap (\<lambda>s. rbind (group_max_memory_usage_bytes (cfg\<lparr>mc_max_model_len := n\<rparr>) s)
        (\<lambda>x. py_cdiv x page)) ?specs) (\<lambda>blocks. Inr (size * page * sum_list blocks)))"
      if "py_max (map (int \<circ> length \<circ> cg_layer_names) groups) = Inr size" "get_uniform_page_size ?sz ?specs = Inr page"
      for size page
    proof -
      have p: "0 \<le> page" by (rule uniform_page_nonneg [OF that(2)]) (use g in blast)
      have n: "0 \<le> size" by (rule py_max_ge [OF that(1)]) auto
      have "steady_list (\<lambda>n. rmap (\<lambda>s. rbind (group_max_memory_usage_bytes (cfg\<lparr>mc_max_model_len := n\<rparr>) s)
          (\<lambda>x. py_cdiv x page)) ?specs)"
        by (intro steady_intros steady_cdiv steady_group_memory g p)
      from steady_sum_map [OF this, of "\<lambda>x. size * page * x"] show ?thesis
        using p n by (simp add: mono_def mult_left_mono sum_list_const_mult)
    qed
    moreover have nv: "(\<forall>x \<in> set groups. is_uniform_specs (cg_kv_cache_spec x)) = False" using general(3) by simp
    ultimately show ?thesis using general(1,2)
      by (simp add: max_memory_usage_bytes_from_groups_def Let_def nv) (intro steady_intros, simp)
  qed
qed

section \<open>The largest length that fits\<close>

lemma search_finds_largest:
  fixes u :: "int \<Rightarrow> int"
  assumes "mono u" "u result \<le> avail" "left \<le> result + 1" "result \<le> left"
  shows "\<exists>r. search_model_len (\<lambda>n. Inr (u n \<le> avail)) left right result = Inr r \<and> u r \<le> avail \<and>
    result \<le> r \<and> r \<le> max result right \<and> (\<forall>n. r < n \<and> n \<le> right \<longrightarrow> avail < u n)"
  using assms(2-)
proof (induction "\<lambda>n. Inr (u n \<le> avail) :: bool res" left right result rule: search_model_len.induct)
  case (1 left right result)
  let ?s = "search_model_len (\<lambda>n. Inr (u n \<le> avail))" and ?mid = "(left + right) div 2"
  show ?case
  proof (cases "left \<le> right")
    case True
    show ?thesis
    proof (cases "u ?mid \<le> avail")
      case fits: True
      have "\<exists>r. ?s (?mid + 1) right ?mid = Inr r \<and> u r \<le> avail \<and> ?mid \<le> r \<and> r \<le> max ?mid right \<and>
          (\<forall>n. r < n \<and> n \<le> right \<longrightarrow> avail < u n)"
        by (rule "1.hyps"(1) [OF True refl]) (use fits in auto)
      then show ?thesis using True fits 1(5) by (subst search_model_len.simps) auto
    next
      case over: False
      have "\<exists>r. ?s left (?mid - 1) result = Inr r \<and> u r \<le> avail \<and> result \<le> r \<and> r \<le> max result (?mid - 1) \<and>
          (\<forall>n. r < n \<and> n \<le> ?mid - 1 \<longrightarrow> avail < u n)"
        by (rule "1.hyps"(2) [OF True refl]) (use over 1 in auto)
      then obtain r where r: "?s left (?mid - 1) result = Inr r" "u r \<le> avail" "result \<le> r"
        "r \<le> max result (?mid - 1)" "\<And>n. r < n \<Longrightarrow> n \<le> ?mid - 1 \<Longrightarrow> avail < u n" by blast
      have "avail < u n" if "?mid \<le> n" for n using monoD [OF assms(1) that] over by linarith
      then have "\<forall>n. r < n \<and> n \<le> right \<longrightarrow> avail < u n" using r(5) by (meson not_le zle_diff1_eq)
      moreover have "?s left right result = Inr r" using True over r(1) by (subst search_model_len.simps) simp
      moreover have "r \<le> max result right" using r(4) True by linarith
      ultimately show ?thesis using r(2,3) by blast
    qed
  next
    case False
    then show ?thesis using 1 by (subst search_model_len.simps) auto
  qed
qed
text \<open>What a length needs is available.\<close>

definition fits_in :: "int \<Rightarrow> int res \<Rightarrow> bool" where
  "fits_in available_memory needed \<longleftrightarrow> (case needed of Inr n \<Rightarrow> n \<le> available_memory | Inl _ \<Rightarrow> False)"

lemma fits_in_iff: "fits_in a m \<longleftrightarrow> (\<exists>n. m = Inr n \<and> n \<le> a)"
  by (auto simp: fits_in_def split: sum.splits)

text \<open>The estimate for any way to count the memory of a length, as long as it grows with the length.\<close>

locale length_search =
  fixes well_sized :: "'a \<Rightarrow> bool"
    and usage :: "'a \<Rightarrow> int \<Rightarrow> int res"
  assumes steady_usage: "well_sized x \<Longrightarrow> steady (usage x)"
begin

lemma finds_largest:
  assumes "well_sized x" "search_max_model_len (usage x) avail original = Inr r"
  shows "r = 0 \<and> \<not> fits_in avail (usage x 1) \<or>
    1 \<le> r \<and> r \<le> max 1 original \<and> fits_in avail (usage x r) \<and>
    (\<forall>n. r < n \<and> n \<le> original \<longrightarrow> \<not> fits_in avail (usage x n))"
proof -
  obtain u where u: "mono u" "\<And>n. usage x n = Inr (u n)"
    using steady_usage [OF assms(1)] assms(2) by (auto simp: steady_def search_max_model_len_def Let_def)
  then have run: "(if \<not> u 1 \<le> avail then Inr 0 else search_model_len (\<lambda>n. Inr (u n \<le> avail)) 1 original 1) = Inr r"
    using assms(2) by (simp add: search_max_model_len_def)
  show ?thesis
  proof (cases "u 1 \<le> avail")
    case True
    then show ?thesis
      using run search_finds_largest [OF u(1) True, of 1 original] u(2) by (auto simp: fits_in_iff not_le)
  qed (use run u(2) in \<open>simp add: fits_in_iff\<close>)
qed

lemma fits_shorter:
  assumes "well_sized x" "fits_in avail (usage x n)" "m \<le> n" shows "fits_in avail (usage x m)"
proof -
  obtain u where u: "mono u" "\<And>n. usage x n = Inr (u n)"
    using steady_usage [OF assms(1)] assms(2) by (auto simp: steady_def fits_in_iff)
  then show ?thesis using assms(2) monoD [OF u(1) assms(3)] by (auto simp: fits_in_iff)
qed

end

interpretation of_specs: length_search
  "\<lambda>(cfg, specs). \<forall>s \<in> set specs. sized (mc_get_dtype_size cfg) s"
  "\<lambda>(cfg, specs) n. specs_max_memory_usage_bytes (cfg\<lparr>mc_max_model_len := n\<rparr>) specs"
  by unfold_locales (auto intro!: steady_specs_memory)

interpretation of_groups: length_search
  "\<lambda>(cfg, groups). sized_groups (mc_get_dtype_size cfg) groups"
  "\<lambda>(cfg, groups) n. max_memory_usage_bytes_from_groups (cfg\<lparr>mc_max_model_len := n\<rparr>) groups"
  by unfold_locales (auto intro!: steady_groups_memory)

text \<open>One worker holds a request of a length.\<close>

definition worker_fits :: "mem_config \<Rightarrow> cache_group list \<times> int \<Rightarrow> int \<Rightarrow> bool" where
  "worker_fits cfg w n \<longleftrightarrow>
     fst w = [] \<or> fits_in (snd w) (max_memory_usage_bytes_from_groups (cfg\<lparr>mc_max_model_len := n\<rparr>) (fst w))"

lemma worker_estimate:
  assumes "sized_groups (mc_get_dtype_size cfg) groups" "groups \<noteq> []"
    "estimate_max_model_len_from_groups cfg groups mem = Inr r" "0 < r"
  shows "worker_fits cfg (groups, mem) r \<and>
    (\<forall>n. r < n \<and> n \<le> mc_max_model_len cfg \<longrightarrow> \<not> worker_fits cfg (groups, mem) n)"
  using of_groups.finds_largest [of "(cfg, groups)" mem "mc_max_model_len cfg" r] assms
  by (auto simp: worker_fits_def estimate_max_model_len_from_groups_def)

lemma worker_fits_shorter:
  assumes "sized_groups (mc_get_dtype_size cfg) (fst w)" "worker_fits cfg w n" "m \<le> n"
  shows "worker_fits cfg w m"
  using of_groups.fits_shorter [of "(cfg, fst w)" "snd w" n m] assms by (auto simp: worker_fits_def)

text \<open>The loop over the workers takes the least estimate.\<close>

lemma auto_fit_loop:
  assumes "rfold (\<lambda>(groups, avail_mem) auto_fit_max.
      if groups = [] then Inr auto_fit_max
      else rbind (estimate_max_model_len_from_groups cfg groups avail_mem) (\<lambda>worker_max.
        Inr (if worker_max < auto_fit_max then worker_max else auto_fit_max))) ws m = Inr r"
    "\<forall>w \<in> set ws. sized_groups (mc_get_dtype_size cfg) (fst w)" "0 < r"
  shows "r \<le> m \<and> (\<forall>w \<in> set ws. worker_fits cfg w r) \<and>
    (\<forall>n. r < n \<and> n \<le> m \<and> n \<le> mc_max_model_len cfg \<longrightarrow> (\<exists>w \<in> set ws. \<not> worker_fits cfg w n))"
  using assms
proof (induction ws arbitrary: m)
  case (Cons w ws)
  obtain groups mem where w: "w = (groups, mem)" by (cases w)
  show ?case
  proof (cases "groups = []")
    case True
    then show ?thesis using Cons by (simp add: w worker_fits_def)
  next
    case False
    obtain k where k: "estimate_max_model_len_from_groups cfg groups mem = Inr k"
      using Cons.prems(1) False by (auto simp: w res_simps)
    have rest: "rfold (\<lambda>(groups, avail_mem) auto_fit_max.
      if groups = [] then Inr auto_fit_max
      else rbind (estimate_max_model_len_from_groups cfg groups avail_mem) (\<lambda>worker_max.
        Inr (if worker_max < auto_fit_max then worker_max else auto_fit_max))) ws (if k < m then k else m) = Inr r"
      using Cons.prems(1) False k by (simp add: w)
    have ih: "r \<le> (if k < m then k else m) \<and> (\<forall>w \<in> set ws. worker_fits cfg w r) \<and>
      (\<forall>n. r < n \<and> n \<le> (if k < m then k else m) \<and> n \<le> mc_max_model_len cfg \<longrightarrow> (\<exists>w \<in> set ws. \<not> worker_fits cfg w n))"
      by (rule Cons.IH [OF rest]) (use Cons.prems in auto)
    then have "0 < k" using Cons.prems(3) by (simp split: if_splits)
    then have est: "worker_fits cfg w k" "\<And>n. k < n \<Longrightarrow> n \<le> mc_max_model_len cfg \<Longrightarrow> \<not> worker_fits cfg w n"
      using worker_estimate [OF _ False k] Cons.prems(2) w by auto
    have "worker_fits cfg w r"
      by (rule worker_fits_shorter [OF _ est(1)]) (use ih Cons.prems(2) in \<open>auto split: if_splits\<close>)
    moreover have "\<exists>w' \<in> set (w # ws). \<not> worker_fits cfg w' n"
      if n: "r < n" "n \<le> m" "n \<le> mc_max_model_len cfg" for n
      using est(2) [of n] ih n by (cases "k < n") (auto split: if_splits)
    ultimately show ?thesis using ih by (auto split: if_splits)
  qed
qed simp

text \<open>Claim C10.  The maximum length chosen for the available memory is the best one: every worker can hold a
  request of the chosen length, and for every longer length up to the model's own there is a worker
  that cannot.  The searches are binary searches that agree on this because the memory of a request
  does not shrink with its length.\<close>

theorem auto_fit_finds_largest_length:
  assumes run: "auto_fit_max_model_len cfg projected memory = Inr cfg'"
    and sized: "\<forall>groups \<in> set projected. sized_groups (mc_get_dtype_size cfg) groups"
  shows "let L = mc_max_model_len cfg' in
    cfg' = cfg\<lparr>mc_max_model_len := L\<rparr> \<and> L \<le> mc_max_model_len cfg \<and>
    (\<forall>w \<in> set (zip projected memory). worker_fits cfg w L) \<and>
    (\<forall>n. L < n \<and> n \<le> mc_max_model_len cfg \<longrightarrow> (\<exists>w \<in> set (zip projected memory). \<not> worker_fits cfg w n))"
proof (cases "\<forall>groups \<in> set projected. groups = []")
  case True
  then have "cfg' = cfg" using run by (simp add: auto_fit_max_model_len_def)
  then show ?thesis using True unfolding Let_def by (auto simp: worker_fits_def dest: set_zip_leftD)
next
  case False
  let ?f = "\<lambda>(groups, avail_mem) auto_fit_max.
      if groups = [] then Inr auto_fit_max
      else rbind (estimate_max_model_len_from_groups cfg groups avail_mem) (\<lambda>worker_max.
        Inr (if worker_max < auto_fit_max then worker_max else auto_fit_max))"
  obtain L where L: "rfold ?f (zip projected memory) (mc_max_model_len cfg) = Inr L" "0 < L"
    "cfg' = (if L \<ge> mc_max_model_len cfg then cfg else cfg\<lparr>mc_max_model_len := L\<rparr>)"
    using run False by (auto simp: auto_fit_max_model_len_def res_simps split: if_splits)
  have "L \<le> mc_max_model_len cfg \<and> (\<forall>w \<in> set (zip projected memory). worker_fits cfg w L) \<and>
    (\<forall>n. L < n \<and> n \<le> mc_max_model_len cfg \<and> n \<le> mc_max_model_len cfg \<longrightarrow>
       (\<exists>w \<in> set (zip projected memory). \<not> worker_fits cfg w n))"
    by (rule auto_fit_loop [OF L(1) _ L(2)]) (use sized in \<open>auto dest: set_zip_leftD\<close>)
  then show ?thesis using L(3) by (auto simp: Let_def)
qed

section \<open>The plan of a worker\<close>

text \<open>The groups are of single specifications, with positive sizes: the general layout.\<close>

definition plain_groups :: "(string \<Rightarrow> int) \<Rightarrow> cache_group list \<Rightarrow> bool" where
  "plain_groups sz groups \<longleftrightarrow>
     groups \<noteq> [] \<and> (\<forall>g \<in> set groups. case cg_kv_cache_spec g of OneSpec s \<Rightarrow> sized sz s | _ \<Rightarrow> False)"

text \<open>The blocks of all groups for a request of the maximum length.\<close>

fun group_request_blocks :: "mem_config \<Rightarrow> group_spec \<Rightarrow> int" where
  "group_request_blocks cfg (OneSpec s) = request_blocks cfg s"
| "group_request_blocks cfg (UniformTypeKVCacheSpecs _ d) = Max (set (map (request_blocks cfg \<circ> snd) d))"

definition request_blocks_of_groups :: "mem_config \<Rightarrow> cache_group list \<Rightarrow> int" where
  "request_blocks_of_groups cfg groups = (\<Sum>g\<leftarrow>groups. group_request_blocks cfg (cg_kv_cache_spec g))"

lemma plain_groupsE:
  assumes "plain_groups sz groups" "g \<in> set groups"
  obtains s where "cg_kv_cache_spec g = OneSpec s" "sized sz s"
  using assms by (cases "cg_kv_cache_spec g") (force simp: plain_groups_def)+

lemma plain_not_uniform:
  assumes "plain_groups sz groups"
  shows "\<not> (\<forall>g \<in> set groups. is_uniform_specs (cg_kv_cache_spec g))" "single_uniform groups = None"
proof -
  obtain g gs where "groups = g # gs" using assms by (cases groups) (auto simp: plain_groups_def)
  moreover from this obtain s where "cg_kv_cache_spec g = OneSpec s" using plain_groupsE [OF assms] by auto
  ultimately show "\<not> (\<forall>g \<in> set groups. is_uniform_specs (cg_kv_cache_spec g))" "single_uniform groups = None"
    by (auto, cases gs, auto)
qed

lemma plain_page_positive:
  assumes "plain_groups sz groups" "get_uniform_page_size sz (map cg_kv_cache_spec groups) = Inr page"
  shows "0 < page" "\<forall>g \<in> set groups. group_page_size_bytes sz (cg_kv_cache_spec g) = Inr page"
proof -
  show p: "\<forall>g \<in> set groups. group_page_size_bytes sz (cg_kv_cache_spec g) = Inr page"
    using uniform_page_size [OF assms(2)] by simp
  obtain g where g: "g \<in> set groups" using assms(1) unfolding plain_groups_def by (meson list.set_sel(1))
  then obtain s where "cg_kv_cache_spec g = OneSpec s" "sized sz s" using plain_groupsE [OF assms(1)] by blast
  then show "0 < page" using p g by (force simp: sized_def)
qed

lemma cdiv_mult [simp]: "0 < b \<Longrightarrow> cdiv (k * b) b = k"
  using cdiv_add_mult [of b 0 k] by (simp add: cdiv_def)

text \<open>What the check computes for such groups.\<close>

lemma plain_memory:
  assumes plain: "plain_groups (mc_get_dtype_size cfg) groups"
    and run: "max_memory_usage_bytes_from_groups cfg groups = Inr n"
  obtains width page where "py_max (map (int \<circ> length \<circ> cg_layer_names) groups) = Inr width"
    "get_uniform_page_size (mc_get_dtype_size cfg) (map cg_kv_cache_spec groups) = Inr page"
    "n = width * page * request_blocks_of_groups cfg groups"
proof -
  have nv: "(\<forall>x \<in> set groups. is_uniform_specs (cg_kv_cache_spec x)) = False" "groups \<noteq> []"
    using plain_not_uniform(1) [OF plain] plain by (auto simp: plain_groups_def)
  obtain width page blocks where r: "py_max (map (int \<circ> length \<circ> cg_layer_names) groups) = Inr width"
    "get_uniform_page_size (mc_get_dtype_size cfg) (map cg_kv_cache_spec groups) = Inr page"
    "rmap (\<lambda>s. rbind (group_max_memory_usage_bytes cfg s) (\<lambda>n. py_cdiv n page)) (map cg_kv_cache_spec groups) = Inr blocks"
    "n = width * page * sum_list blocks"
    using run plain_not_uniform(2) [OF plain] nv
    by (auto simp: max_memory_usage_bytes_from_groups_def Let_def res_simps)
  note p = plain_page_positive [OF plain r(2)]
  have "list_all2 (\<lambda>s b. rbind (group_max_memory_usage_bytes cfg s) (\<lambda>n. py_cdiv n page) = Inr b)
      (map cg_kv_cache_spec groups) blocks"
    using r(3) by (simp add: rmap_Inr_iff)
  then have "list_all2 (\<lambda>g b. b = group_request_blocks cfg (cg_kv_cache_spec g)) groups blocks"
    unfolding list_all2_map1
  proof (rule list.rel_mono_strong)
    fix g b assume g: "g \<in> set groups"
      and b: "rbind (group_max_memory_usage_bytes cfg (cg_kv_cache_spec g)) (\<lambda>n. py_cdiv n page) = Inr b"
    obtain s where s: "cg_kv_cache_spec g = OneSpec s" using plain_groupsE [OF plain g] by blast
    then obtain m where m: "max_memory_usage_bytes cfg s = Inr m" "b = cdiv m page"
      using b p(1) by (auto simp: res_simps py_cdiv_def)
    have "page_size_bytes (mc_get_dtype_size cfg) s = Inr page" using p(2) g s by force
    then have "m = request_blocks cfg s * page" using max_memory_request_blocks [OF m(1)] by blast
    then show "b = group_request_blocks cfg (cg_kv_cache_spec g)" using m(2) p(1) s by simp
  qed
  then have "blocks = map (\<lambda>g. group_request_blocks cfg (cg_kv_cache_spec g)) groups"
    by (induction rule: list_all2_induct) auto
  then show thesis using that r by (simp add: request_blocks_of_groups_def)
qed

lemma pool_bytes_plain:
  assumes "plain_groups (mc_get_dtype_size cfg) groups" "\<not> mc_enable_cross_layers_blocks cfg"
    "pool_bytes_per_block cfg groups = Inr b"
    "py_max (map (int \<circ> length \<circ> cg_layer_names) groups) = Inr width"
    "get_uniform_page_size (mc_get_dtype_size cfg) (map cg_kv_cache_spec groups) = Inr page"
  shows "b = page * width"
  using assms plain_not_uniform [OF assms(1)]
  by (auto simp: pool_bytes_per_block_def Let_def use_packed_kv_cache_config_def)

text \<open>The memory was replaced by that of the overriding number of blocks.\<close>

definition memory_overridden :: "mem_config \<Rightarrow> cache_group list \<Rightarrow> int \<Rightarrow> bool" where
  "memory_overridden cfg groups mem \<longleftrightarrow>
     (case mc_num_gpu_blocks_override cfg of
        None \<Rightarrow> True
      | Some n \<Rightarrow> \<exists>b. pool_bytes_per_block cfg groups = Inr b \<and> mem = n * b)"

lemma div_times_le: "0 < b \<Longrightarrow> a div b * b \<le> (a::int)"
  by (simp add: minus_mod_eq_div_mult [symmetric])

lemma quotient_ge:
  assumes "0 < p" "0 < s" "s * p * n \<le> (a::int)" shows "n \<le> a div p div s"
proof -
  have "n * (p * s) \<le> a" using assms(3) by (simp add: mult_ac)
  then have "n \<le> a div (p * s)" using assms by (metis mult_pos_pos nonzero_mult_div_cancel_right order_less_irrefl zdiv_mono1)
  then show ?thesis using assms by (simp add: zdiv_zmult2_eq)
qed

lemma worker_plan:
  assumes plain: "plain_groups (mc_get_dtype_size cfg) groups" and cross: "\<not> mc_enable_cross_layers_blocks cfg"
    and ok: "check_worker cfg (groups, mem) = Inr u"
    and run: "get_kv_cache_config_from_groups cfg groups mem = Inr c"
    and ov: "memory_overridden cfg groups mem"
  obtains page n where "0 < page" "\<forall>g \<in> set groups. group_page_size_bytes (mc_get_dtype_size cfg) (cg_kv_cache_spec g) = Inr page"
    "request_blocks_of_groups cfg groups \<le> cc_num_blocks c" "cc_kv_cache_groups c = groups"
    "cc_kv_cache_tensors c = map (\<lambda>i. plain_tensor (page * cc_num_blocks c) (shared_by groups i)) [0..<n]"
    "\<forall>g \<in> set groups. length (cg_layer_names g) \<le> n"
    "mc_num_gpu_blocks_override cfg = None \<Longrightarrow> page * cc_num_blocks c * int n \<le> mem"
proof -
  have ne: "groups \<noteq> []" using plain by (simp add: plain_groups_def)
  obtain needed where needed: "0 < mem" "max_memory_usage_bytes_from_groups cfg groups = Inr needed" "needed \<le> mem"
    using ok ne by (auto simp: check_worker_def check_enough_memory_def res_simps split: if_splits)
  obtain width page where sp: "py_max (map (int \<circ> length \<circ> cg_layer_names) groups) = Inr width"
    "get_uniform_page_size (mc_get_dtype_size cfg) (map cg_kv_cache_spec groups) = Inr page"
    "needed = width * page * request_blocks_of_groups cfg groups"
    by (rule plain_memory [OF plain needed(2)])
  note p = plain_page_positive [OF plain sp(2)]
  have "\<not> use_packed_kv_cache_config cfg groups"
    using plain_not_uniform(1) [OF plain] cross by (simp add: use_packed_kv_cache_config_def)
  then obtain num where c: "0 < width" "get_num_blocks cfg width mem page = Inr num" "cc_num_blocks c = num"
    "cc_kv_cache_groups c = groups"
    "cc_kv_cache_tensors c = map (\<lambda>i. plain_tensor (page * num) (shared_by groups i)) [0..<nat width]"
    using run ne plain_not_uniform(2) [OF plain] sp(1,2)
    by (auto simp: get_kv_cache_config_from_groups_def general_config_def res_simps)
  have num: "num = may_override_num_blocks cfg (max (mem div page div width) 0)"
    using c(1,2) p(1) by (simp add: get_num_blocks_def py_div_def)
  have enough: "request_blocks_of_groups cfg groups \<le> num \<and>
      (mc_num_gpu_blocks_override cfg = None \<longrightarrow> page * num * width \<le> mem)"
  proof (cases "mc_num_gpu_blocks_override cfg")
    case None
    then have n: "num = mem div page div width"
      using num needed(1) p(1) c(1) by (simp add: may_override_num_blocks_def pos_imp_zdiv_nonneg_iff)
    have "mem div page div width * width \<le> mem div page" using c(1) by (simp add: div_times_le)
    then have "num * width * page \<le> mem div page * page" using n p(1) by (simp add: mult_right_mono)
    also have "\<dots> \<le> mem" using p(1) by (simp add: div_times_le)
    finally show ?thesis using quotient_ge [OF p(1) c(1)] needed(3) sp(3) n by (simp add: mult_ac)
  next
    case (Some k)
    then obtain b where "pool_bytes_per_block cfg groups = Inr b" "mem = k * b" using ov by (auto simp: memory_overridden_def)
    then have "mem = k * (page * width)" using pool_bytes_plain [OF plain cross _ sp(1,2)] by simp
    then have "request_blocks_of_groups cfg groups * (width * page) \<le> k * (width * page)"
      using needed(3) sp(3) by (simp add: mult_ac)
    then show ?thesis using Some num p(1) c(1) by (simp add: may_override_num_blocks_def mult_le_cancel_right)
  qed
  have "int (length (cg_layer_names g)) \<le> width" if "g \<in> set groups" for g
    using py_max_upper [OF sp(1), of "int (length (cg_layer_names g))"] that by simp
  then have "\<forall>g \<in> set groups. length (cg_layer_names g) \<le> nat width"
    using c(1) by (simp add: le_nat_iff)
  then show thesis using that [OF p] enough c by simp
qed

section \<open>The plan of all workers\<close>

text \<open>Every layer is in one tensor.\<close>

lemma concat_singletons: "length xs \<le> n \<Longrightarrow> concat (map (\<lambda>i. if i < length xs then [xs ! i] else []) [0..<n]) = xs"
proof (induction xs rule: rev_induct)
  case (snoc x xs)
  then have n: "[0..<n] = [0..<length xs] @ [length xs..<n]" 
    using upt_add_eq_append [of 0 "length xs" "n - length xs"] by simp
  have "concat (map (\<lambda>i. if i < length (xs @ [x]) then [(xs @ [x]) ! i] else []) [0..<length xs]) = xs"
  proof -
    have "map (\<lambda>i. if i < length (xs @ [x]) then [(xs @ [x]) ! i] else []) [0..<length xs] = map (\<lambda>i. [xs ! i]) [0..<length xs]"
      by (simp add: nth_append)
    then show ?thesis by (simp only: concat_map_singleton map_nth)
  qed
  moreover have "[length xs..<n] = length xs # [Suc (length xs)..<n]" using snoc.prems by (simp add: upt_conv_Cons)
  ultimately show ?case by (simp add: n del: upt_Suc)
qed (simp add: concat_eq_Nil_conv)

lemma mset_concat_append: "mset (concat (map (\<lambda>i. f i @ g i) is)) = mset (concat (map f is)) + mset (concat (map g is))"
  by (induction "is") auto

lemma tensors_hold_layers:
  "\<forall>g \<in> set groups. length (cg_layer_names g) \<le> n \<Longrightarrow>
     mset (concat (map (shared_by groups) [0..<n])) = mset (concat (map cg_layer_names groups))"
proof (induction groups)
  case (Cons g groups)
  have "shared_by (g # groups) = (\<lambda>i. (if i < length (cg_layer_names g) then [cg_layer_names g ! i] else []) @ shared_by groups i)"
    by (rule ext) (simp add: shared_by_def)
  then show ?case using Cons by (simp add: mset_concat_append concat_singletons)
qed (simp add: shared_by_def concat_eq_Nil_conv)

text \<open>Projection keeps single specifications.\<close>

lemma project_group_spec:
  assumes "project_group w g = Inr g'"
  shows "cg_kv_cache_spec g = OneSpec s \<longleftrightarrow> cg_kv_cache_spec g' = OneSpec s"
  using assms by (cases "cg_kv_cache_spec g") (auto simp: project_group_def Let_def res_simps split: if_splits)

lemma projected_specs:
  assumes "project_kv_cache_groups_to_worker global w = Inr groups" "project_kv_cache_groups_to_worker global w' = Inr groups'"
    "plain_groups sz groups"
  shows "plain_groups sz groups' \<and> map cg_kv_cache_spec groups' = map cg_kv_cache_spec groups"
proof -
  have a: "list_all2 (\<lambda>g g'. project_group w g = Inr g') global groups"
    "list_all2 (\<lambda>g g'. project_group w' g = Inr g') global groups'"
    using assms(1,2) by (simp_all add: project_kv_cache_groups_to_worker_def rmap_Inr_iff)
  have len: "length groups' = length groups" using a by (simp add: list_all2_lengthD [symmetric])
  have same: "\<exists>s. cg_kv_cache_spec (groups' ! i) = OneSpec s \<and> cg_kv_cache_spec (groups ! i) = OneSpec s \<and> sized sz s"
    if i: "i < length groups" for i
  proof -
    obtain s where s: "cg_kv_cache_spec (groups ! i) = OneSpec s" "sized sz s"
      using plain_groupsE [OF assms(3) nth_mem [OF i]] by blast
    have "project_group w (global ! i) = Inr (groups ! i)" "project_group w' (global ! i) = Inr (groups' ! i)"
      using a i by (simp_all add: list_all2_conv_all_nth len)
    then have "cg_kv_cache_spec (groups' ! i) = OneSpec s" using project_group_spec s(1) by blast
    then show ?thesis using s by blast
  qed
  have "map cg_kv_cache_spec groups' = map cg_kv_cache_spec groups"
    by (rule nth_equalityI) (use same len in \<open>force+\<close>)
  moreover have "plain_groups sz groups'"
    using same len assms(3) by (force simp: plain_groups_def in_set_conv_nth)
  ultimately show ?thesis by simp
qed

lemma auto_fit_config:
  assumes "auto_fit_max_model_len cfg projected memory = Inr cfg'"
  shows "cfg' = cfg\<lparr>mc_max_model_len := mc_max_model_len cfg'\<rparr>"
  using assms by (auto simp: auto_fit_max_model_len_def res_simps split: if_splits)

lemma overridden_memory:
  assumes "effective_memory cfg projected memory = Inr memory'" "i < length memory'" "i < length projected" "projected ! i \<noteq> []"
  shows "memory_overridden cfg (projected ! i) (memory' ! i) \<and>
    (mc_num_gpu_blocks_override cfg = None \<longrightarrow> memory' = memory)"
proof (cases "mc_num_gpu_blocks_override cfg")
  case (Some k)
  then have "list_all2 (\<lambda>p m. override_memory cfg p = Inr m) (zip projected memory) memory'"
    using assms(1) by (simp add: effective_memory_def rmap_Inr_iff)
  then have "override_memory cfg (projected ! i, memory ! i) = Inr (memory' ! i)"
    using assms(2,3) by (auto simp: list_all2_conv_all_nth)
  then show ?thesis using Some assms(4) by (auto simp: override_memory_def memory_overridden_def res_simps)
qed (use assms in \<open>simp add: effective_memory_def memory_overridden_def\<close>)

lemma shrink_keeps:
  assumes "shrink_config cfg least c = Inr c'"
  shows "cc_num_blocks c' = least" "cc_kv_cache_groups c' = cc_kv_cache_groups c"
    "list_all2 (\<lambda>t t'. shrink_tensor (cc_num_blocks c) least t = Inr t') (cc_kv_cache_tensors c) (cc_kv_cache_tensors c')"
  using assms by (auto simp: shrink_config_def Let_def res_simps rmap_Inr_iff split: if_splits)

lemma shrunk_tensors:
  assumes "list_all2 (\<lambda>t t'. shrink_tensor old least t = Inr t') (map (\<lambda>i. plain_tensor (page * old) (f i)) is) ts"
  shows "ts = map (\<lambda>i. plain_tensor (page * least) (f i)) is"
  using assms
proof (induction "is" arbitrary: ts)
  case (Cons i js)
  then show ?case
    by (auto simp: list_all2_Cons1 shrink_tensor_def plain_tensor_def res_simps split: if_splits)
qed simp

lemma py_min_in: "py_min xs = Inr m \<Longrightarrow> m \<in> set xs"
  by (auto simp: py_min_def split: if_splits)

lemma py_min_lower: "py_min xs = Inr m \<Longrightarrow> x \<in> set xs \<Longrightarrow> m \<le> x"
  by (auto simp: py_min_def split: if_splits)

text \<open>The stages of a successful plan.\<close>

lemma planE:
  assumes "get_kv_cache_configs cfg specs memory = Inr (configs, cfg')"
  obtains global projected memory' olds least where
    "rmap (project_kv_cache_groups_to_worker global) specs = Inr projected"
    "effective_memory cfg projected memory = Inr memory'"
    "cfg' = cfg\<lparr>mc_max_model_len := mc_max_model_len cfg'\<rparr>"
    "\<forall>p \<in> set (zip projected memory'). check_worker cfg' p = Inr ()"
    "list_all2 (\<lambda>p c. worker_config cfg' p = Inr c) (zip projected (zip specs memory')) olds"
    "py_min (map cc_num_blocks olds) = Inr least"
    "list_all2 (\<lambda>c c'. shrink_config cfg' least c = Inr c') olds configs"
proof -
  obtain global projected where g: "rmap (project_kv_cache_groups_to_worker global) specs = Inr projected"
    "plan_workers cfg projected specs memory = Inr (configs, cfg')"
    using assms unfolding get_kv_cache_configs_def by (auto elim!: rbindE)
  obtain memory' olds us where m: "effective_memory cfg projected memory = Inr memory'"
    "(if mc_original_max_model_len cfg = Some (-1) then auto_fit_max_model_len cfg projected memory' else Inr cfg) = Inr cfg'"
    "rmap (check_worker cfg') (zip projected memory') = Inr us"
    "rmap (worker_config cfg') (zip projected (zip specs memory')) = Inr olds"
    "shrink_configs cfg' olds = Inr configs"
    using g(2) unfolding plan_workers_def by (auto elim!: rbindE)
  obtain least where l: "py_min (map cc_num_blocks olds) = Inr least" "rmap (shrink_config cfg' least) olds = Inr configs"
    using m(5) unfolding shrink_configs_def by (auto elim!: rbindE)
  have "cfg' = cfg\<lparr>mc_max_model_len := mc_max_model_len cfg'\<rparr>"
    using m(2) auto_fit_config by (auto split: if_splits)
  moreover have "\<forall>p \<in> set (zip projected memory'). check_worker cfg' p = Inr ()"
    using rmap_elem [OF m(3)] by auto
  ultimately show thesis using that [OF g(1) m(1)] m(4) l by (simp add: rmap_Inr_iff)
qed

lemma use_packed_length [simp]:
  "use_packed_kv_cache_config (cfg\<lparr>mc_max_model_len := n\<rparr>) groups = use_packed_kv_cache_config cfg groups"
  by (simp add: use_packed_kv_cache_config_def)

lemma pool_bytes_length [simp]: "pool_bytes_per_block (cfg\<lparr>mc_max_model_len := n\<rparr>) groups = pool_bytes_per_block cfg groups"
  by (simp add: pool_bytes_per_block_def Let_def split: option.split)

lemma memory_overridden_length [simp]:
  "memory_overridden (cfg\<lparr>mc_max_model_len := n\<rparr>) groups mem = memory_overridden cfg groups mem"
  by (simp add: memory_overridden_def split: option.split)

lemma config_groups: "get_kv_cache_config_from_groups cfg groups mem = Inr c \<Longrightarrow> cc_kv_cache_groups c = groups"
  by (auto simp: get_kv_cache_config_from_groups_def res_simps split: if_splits)

text \<open>The plan of one worker before the numbers of blocks are made equal.\<close>

lemma old_plan:
  assumes run: "get_kv_cache_configs cfg specs memory = Inr (configs, cfg')"
    and cross: "\<not> mc_enable_cross_layers_blocks cfg"
    and i: "i < length configs" and plain: "plain_groups (mc_get_dtype_size cfg) (cc_kv_cache_groups (configs ! i))"
  obtains old :: cache_config and page n where "cc_kv_cache_groups old = cc_kv_cache_groups (configs ! i)" "0 < page"
    "\<forall>g \<in> set (cc_kv_cache_groups (configs ! i)). group_page_size_bytes (mc_get_dtype_size cfg) (cg_kv_cache_spec g) = Inr page"
    "request_blocks_of_groups cfg' (cc_kv_cache_groups (configs ! i)) \<le> cc_num_blocks (configs ! i)"
    "cc_num_blocks (configs ! i) \<le> cc_num_blocks old"
    "\<forall>g \<in> set (cc_kv_cache_groups (configs ! i)). length (cg_layer_names g) \<le> n"
    "cc_kv_cache_tensors (configs ! i) =
       map (\<lambda>k. plain_tensor (page * cc_num_blocks (configs ! i)) (shared_by (cc_kv_cache_groups (configs ! i)) k)) [0..<n]"
    "mc_num_gpu_blocks_override cfg = None \<longrightarrow> page * cc_num_blocks old * int n \<le> memory ! i"
proof -
  obtain global projected memory' olds least where st:
    "rmap (project_kv_cache_groups_to_worker global) specs = Inr projected"
    "effective_memory cfg projected memory = Inr memory'"
    "cfg' = cfg\<lparr>mc_max_model_len := mc_max_model_len cfg'\<rparr>"
    "\<forall>p \<in> set (zip projected memory'). check_worker cfg' p = Inr ()"
    "list_all2 (\<lambda>p c. worker_config cfg' p = Inr c) (zip projected (zip specs memory')) olds"
    "py_min (map cc_num_blocks olds) = Inr least"
    "list_all2 (\<lambda>c c'. shrink_config cfg' least c = Inr c') olds configs"
    by (rule planE [OF run])
  let ?sz = "mc_get_dtype_size cfg"
  have len: "length olds = length configs" "length olds \<le> length projected" "length olds \<le> length memory'"
    using st(5,7) by (auto dest!: list_all2_lengthD)
  have proj: "project_kv_cache_groups_to_worker global (specs ! j) = Inr (projected ! j)" if "j < length olds" for j
    using st(1) that len by (auto simp: rmap_Inr_iff list_all2_conv_all_nth)
  have conf: "get_kv_cache_config_from_groups cfg' (projected ! j) (memory' ! j) = Inr (olds ! j)"
    and checked: "check_worker cfg' (projected ! j, memory' ! j) = Inr ()" if "j < length olds" for j
  proof -
    have "length olds = length (zip projected (zip specs memory'))" 
      by (rule list_all2_lengthD [OF st(5), symmetric])
    then have l: "j < length projected" "j < length specs" "j < length memory'" using that by auto
    then have "worker_config cfg' (projected ! j, specs ! j, memory' ! j) = Inr (olds ! j)"
      using st(5) by (simp add: list_all2_conv_all_nth)
    then show "get_kv_cache_config_from_groups cfg' (projected ! j) (memory' ! j) = Inr (olds ! j)"
      by (auto simp: worker_config_def res_simps)
    show "check_worker cfg' (projected ! j, memory' ! j) = Inr ()"
      using st(4) that len by (metis nth_mem nth_zip length_zip min_less_iff_conj order_less_le_trans)
  qed
  have io: "i < length olds" using i len by simp
  have shr: "shrink_config cfg' least (olds ! j) = Inr (configs ! j)" if "j < length olds" for j
    using st(7) that by (simp add: list_all2_conv_all_nth)
  have gi: "cc_kv_cache_groups (olds ! i) = cc_kv_cache_groups (configs ! i)" using shrink_keeps(2) [OF shr [OF io]] by simp
  have groups_of: "cc_kv_cache_groups (olds ! j) = projected ! j" if "j < length olds" for j
    by (rule config_groups [OF conf [OF that]])
  have pi: "plain_groups ?sz (projected ! i)" using plain gi groups_of [OF io] by simp
  have all: "plain_groups ?sz (projected ! j) \<and> map cg_kv_cache_spec (projected ! j) = map cg_kv_cache_spec (projected ! i)"
    if "j < length olds" for j
    by (rule projected_specs [OF proj [OF io] proj [OF that] pi])
  have szc: "mc_get_dtype_size cfg' = ?sz" "\<not> mc_enable_cross_layers_blocks cfg'"
    "mc_num_gpu_blocks_override cfg' = mc_num_gpu_blocks_override cfg"
    "\<And>gs m. memory_overridden cfg' gs m = memory_overridden cfg gs m"
    using cross by (subst st(3), simp)+
  have blocks: "request_blocks_of_groups cfg' gs = (\<Sum>s\<leftarrow>map cg_kv_cache_spec gs. group_request_blocks cfg' s)" for gs
    by (simp add: request_blocks_of_groups_def comp_def)
  have wp: "\<exists>page n. 0 < page \<and> (\<forall>g \<in> set (projected ! j). group_page_size_bytes ?sz (cg_kv_cache_spec g) = Inr page) \<and>
      request_blocks_of_groups cfg' (projected ! i) \<le> cc_num_blocks (olds ! j) \<and>
      cc_kv_cache_tensors (olds ! j) = map (\<lambda>k. plain_tensor (page * cc_num_blocks (olds ! j)) (shared_by (projected ! j) k)) [0..<n] \<and>
      (\<forall>g \<in> set (projected ! j). length (cg_layer_names g) \<le> n) \<and>
      (mc_num_gpu_blocks_override cfg = None \<longrightarrow> page * cc_num_blocks (olds ! j) * int n \<le> memory ! j)"
    if j: "j < length olds" for j
  proof -
    have pj: "plain_groups (mc_get_dtype_size cfg') (projected ! j)" using all [OF j] szc(1) by simp
    then have ne: "projected ! j \<noteq> []" by (simp add: plain_groups_def)
    have ov: "memory_overridden cfg (projected ! j) (memory' ! j) \<and> (mc_num_gpu_blocks_override cfg = None \<longrightarrow> memory' = memory)"
      by (rule overridden_memory [OF st(2) _ _ ne]) (use j len in simp_all)
    show ?thesis
      by (rule worker_plan [OF pj szc(2) checked [OF j] conf [OF j]])
        (use ov szc all [OF j] blocks in \<open>auto intro!: exI\<close>)
  qed
  have least: "least \<le> cc_num_blocks (olds ! i)"
    by (rule py_min_lower [OF st(6)]) (use io in simp)
  obtain j where j: "j < length olds" "least = cc_num_blocks (olds ! j)"
    using py_min_in [OF st(6)] by (auto simp: in_set_conv_nth)
  obtain page n where w: "0 < page" "\<forall>g \<in> set (projected ! i). group_page_size_bytes ?sz (cg_kv_cache_spec g) = Inr page"
    "cc_kv_cache_tensors (olds ! i) = map (\<lambda>k. plain_tensor (page * cc_num_blocks (olds ! i)) (shared_by (projected ! i) k)) [0..<n]"
    "\<forall>g \<in> set (projected ! i). length (cg_layer_names g) \<le> n"
    "mc_num_gpu_blocks_override cfg = None \<longrightarrow> page * cc_num_blocks (olds ! i) * int n \<le> memory ! i"
    using wp [OF io] by (elim exE conjE) (rule that, assumption+)
  have "request_blocks_of_groups cfg' (projected ! i) \<le> least" using wp [OF j(1)] j(2) by auto
  moreover have "cc_kv_cache_tensors (configs ! i) = map (\<lambda>k. plain_tensor (page * least) (shared_by (projected ! i) k)) [0..<n]"
    using shrink_keeps(3) [OF shr [OF io]] w(3) shrunk_tensors by metis
  ultimately show thesis
    using that [of "olds ! i" page n] w shrink_keeps(1) [OF shr [OF io]] gi groups_of [OF io] least by simp
qed


section \<open>A small model\<close>

text \<open>A full-attention layer on each of two workers and a sliding-window layer on the first; pages of four bytes.\<close>

definition small_attention :: attention_fields where
  "small_attention = \<lparr>af_num_kv_heads = 1, af_head_size = 1, af_dtype = ''float16'', af_kv_quant_mode = QuantNone,
     af_page_size_padded = None, af_indexes_kv_by_block_stride = False\<rparr>"

definition small_full :: layer_spec where
  "small_full = AttentionLayer 2 small_attention (FullAttention (new_full_fields 1 None None))"

definition small_window :: layer_spec where
  "small_window = AttentionLayer 2 small_attention (SlidingWindow 3 1)"

definition small_memory :: "int \<Rightarrow> int option \<Rightarrow> mem_config" where
  "small_memory max_model_len original =
     \<lparr>mc_max_model_len = max_model_len, mc_original_max_model_len = original, mc_max_num_batched_tokens = 4,
      mc_max_num_encoder_input_tokens = 0, mc_decode_context_parallel_size = 1,
      mc_prefill_context_parallel_size = 1, mc_mamba_cache_mode = MambaNone, mc_num_gpu_blocks_override = None,
      mc_disable_hybrid_kv_cache_manager = False, mc_enable_cross_layers_blocks = False, mc_use_eagle = False,
      mc_get_dtype_size = (\<lambda>_. 1)\<rparr>"

definition small_workers :: "(string, layer_spec) dict list" where
  "small_workers = [[(''l0'', small_full), (''l1'', small_window)], [(''l2'', small_full)]]"

lemma small_plan:
  "case get_kv_cache_configs (small_memory 8 None) small_workers [60, 50] of
     Inl _ \<Rightarrow> False
   | Inr (cs, cfg') \<Rightarrow> map cc_num_blocks cs = [12, 12] \<and> mc_max_model_len cfg' = 8 \<and>
       plain_groups (\<lambda>_. 1) (cc_kv_cache_groups (cs ! 0))"
  by code_simp


text \<open>With less memory for the second worker the length 8 of the model is reduced.\<close>

definition small_projected :: "cache_group list list" where
  "small_projected =
     (let g = (\<lambda>names s. \<lparr>cg_layer_names = names, cg_kv_cache_spec = OneSpec s, cg_is_eagle_group = False\<rparr>)
      in [[g [''l0''] small_full, g [] small_full, g [''l1''] small_window],
          [g [] small_full, g [''l2''] small_full, g [] small_window]])"

lemma small_fit:
  "case auto_fit_max_model_len (small_memory 8 (Some (-1))) small_projected [60, 40] of
     Inl _ \<Rightarrow> False
   | Inr cfg' \<Rightarrow> mc_max_model_len cfg' = 6 \<and>
       list_all (sized_groups (\<lambda>_. 1)) small_projected"
  by code_simp

theorem auto_fit_finds_largest_length_witness:
  "\<exists>cfg'. auto_fit_max_model_len (small_memory 8 (Some (-1))) small_projected [60, 40] = Inr cfg' \<and>
     mc_max_model_len cfg' = 6 \<and>
     (\<exists>w \<in> set (zip small_projected [60, 40]). \<not> worker_fits (small_memory 8 (Some (-1))) w 7)"
proof -
  obtain cfg' where r: "auto_fit_max_model_len (small_memory 8 (Some (-1))) small_projected [60, 40] = Inr cfg'"
    and n: "mc_max_model_len cfg' = 6" and s: "list_all (sized_groups (\<lambda>_. 1)) small_projected"
    using small_fit by (auto split: sum.splits)
  have "\<forall>groups \<in> set small_projected. sized_groups (mc_get_dtype_size (small_memory 8 (Some (-1)))) groups"
    using s by (simp add: small_memory_def list_all_iff)
  from auto_fit_finds_largest_length [OF r this] show ?thesis
    using r n by (auto simp: small_memory_def Let_def)
qed

end
