(* ===== verification/Startup.thy ===== *)
theory Startup
  imports EngineProperties MemoryProperties
begin

text \<open>
  The start-up and the running engine together: the number of blocks the memory plan chooses is the
  size of the pool, in which one block is the null block.
\<close>

text \<open>A model with one full-attention layer and a maximum length of 8 tokens, memory for four pages.\<close>

definition starved_plan :: "(cache_config list \<times> mem_config) res" where
  "starved_plan = get_kv_cache_configs (small_memory 8 None) [[(''l0'', small_full)]] [16]"

text \<open>The engine with a pool of that size, and a step with a request of seven tokens.\<close>

definition starved_step :: "(scheduler \<times> scheduler_output \<times> scheduler) run" where
  "starved_step =
     xbind (Some (rbind (new_kv_cache_manager demo_kv_config 8 2 2 None True False True False 1 1 False False None 0)
       (\<lambda>km. Inr (new_scheduler (demo_sched_config\<lparr>sf_max_model_len := 8\<rparr>) km 0 False)))) (\<lambda>s0.
     xbind (demo_engine_request ''a'' [1, 2, 3, 4, 5, 6, 7] 0 False) (\<lambda>a.
     xbind (add_request a s0) (\<lambda>s1.
     xbind (schedule 0 False s1) (\<lambda>(so, s2). Some (Inr (s1, so, s2))))))"


end
