(* ===== verification/RequestQueue.thy ===== *)
theory RequestQueue
  imports Request "HOL-Library.Multiset" "HOL-Library.Char_ord" "HOL-Library.List_Lexorder" "HOL-Library.Product_Lexorder"
begin

text \<open>
  The queues of waiting requests, \<^verbatim>\<open>vllm/v1/core/sched/request_queue.py\<close>: first come first served,
  and by priority.  The scheduler model uses the first; here both meet one interface.

  An entry of a queue stands for a request object: what \<open>Request.__lt__\<close> compares, with the identity of
  the object.  As this order is total, the heap of the priority queue is the sorted list of its
  elements: nothing else of the layout of a \<open>heapq\<close> can be observed.  Membership and removal compare
  objects by identity, so two entries of one object are equal.
\<close>

section \<open>The order of requests\<close>

datatype queue_entry = QueueEntry (qe_priority: int) (qe_arrival_time: rat) (qe_request_id: string) (qe_object: nat)

fun entry_key :: "queue_entry \<Rightarrow> int \<times> rat \<times> string \<times> nat" where
  "entry_key (QueueEntry p t r n) = (p, t, r, n)"

lemma entry_key_inject [simp]: "entry_key a = entry_key b \<longleftrightarrow> a = b"
  by (cases a; cases b) simp

instantiation queue_entry :: linorder
begin

definition less_eq_queue_entry :: "queue_entry \<Rightarrow> queue_entry \<Rightarrow> bool" where
  "less_eq_queue_entry a b \<longleftrightarrow> entry_key a \<le> entry_key b"

definition less_queue_entry :: "queue_entry \<Rightarrow> queue_entry \<Rightarrow> bool" where
  "less_queue_entry a b \<longleftrightarrow> entry_key a < entry_key b"

instance
  by intro_classes (auto simp: less_eq_queue_entry_def less_queue_entry_def order.strict_iff_order)

end

definition entry_of :: "(request \<Rightarrow> nat) \<Rightarrow> request \<Rightarrow> queue_entry" where
  "entry_of address r = QueueEntry (rq_priority r) (rq_arrival_time r) (rq_request_id r) (address r)"

lemma entry_less_iff: "entry_of address r < entry_of address s \<longleftrightarrow> request_lt address (<) r s"
  by (auto simp: entry_of_def less_queue_entry_def request_lt_def)

section \<open>First come, first served\<close>

text \<open>A \<open>deque\<close> is a list.\<close>

definition fcfs_add_request :: "'r \<Rightarrow> 'r list \<Rightarrow> 'r list" where
  "fcfs_add_request r q = q @ [r]"

definition fcfs_pop_request :: "'r list \<Rightarrow> ('r \<times> 'r list) res" where
  "fcfs_pop_request q = (case q of [] \<Rightarrow> Inl IndexError | r # q' \<Rightarrow> Inr (r, q'))"

definition fcfs_peek_request :: "'r list \<Rightarrow> 'r res" where
  "fcfs_peek_request q = (case q of [] \<Rightarrow> Inl IndexError | r # _ \<Rightarrow> Inr r)"

definition fcfs_prepend_request :: "'r \<Rightarrow> 'r list \<Rightarrow> 'r list" where
  "fcfs_prepend_request r q = r # q"

text \<open>\<open>extendleft\<close> reverses what it prepends.\<close>

definition fcfs_prepend_requests :: "'r list \<Rightarrow> 'r list \<Rightarrow> 'r list" where
  "fcfs_prepend_requests rs q = rev rs @ q"

definition fcfs_remove_request :: "'r \<Rightarrow> 'r list \<Rightarrow> 'r list res" where
  "fcfs_remove_request r q = (if r \<in> set q then Inr (remove1 r q) else Inl ValueError)"

definition fcfs_remove_requests :: "'r list \<Rightarrow> 'r list \<Rightarrow> 'r list" where
  "fcfs_remove_requests rs q = filter (\<lambda>r. r \<notin> set rs) q"

section \<open>By priority\<close>

definition priority_add_request :: "'r::linorder \<Rightarrow> 'r list \<Rightarrow> 'r list" where
  "priority_add_request r heap = insort r heap"

definition priority_pop_request :: "'r::linorder list \<Rightarrow> ('r \<times> 'r list) res" where
  "priority_pop_request heap = (case heap of [] \<Rightarrow> Inl IndexError | r # heap' \<Rightarrow> Inr (r, heap'))"

definition priority_peek_request :: "'r::linorder list \<Rightarrow> 'r res" where
  "priority_peek_request heap = (case heap of [] \<Rightarrow> Inl IndexError | r # _ \<Rightarrow> Inr r)"

definition priority_prepend_request :: "'r::linorder \<Rightarrow> 'r list \<Rightarrow> 'r list" where
  "priority_prepend_request r heap = priority_add_request r heap"

definition priority_prepend_requests :: "'r::linorder list \<Rightarrow> 'r list \<Rightarrow> 'r list" where
  "priority_prepend_requests rs heap = fold priority_add_request rs heap"

definition priority_remove_request :: "'r::linorder \<Rightarrow> 'r list \<Rightarrow> 'r list res" where
  "priority_remove_request r heap = (if r \<in> set heap then Inr (sort (remove1 r heap)) else Inl ValueError)"

definition priority_remove_requests :: "'r::linorder list \<Rightarrow> 'r list \<Rightarrow> 'r list" where
  "priority_remove_requests rs heap = sort (filter (\<lambda>r. r \<notin> set rs) heap)"

section \<open>The interface\<close>

text \<open>\<open>RequestQueue\<close>: \<open>waiting q\<close> is the iteration over the queue, which takes the requests in the order
  in which they would be popped; \<open>proper\<close> holds of the queues the operations produce.\<close>

locale request_queue =
  fixes proper :: "'q \<Rightarrow> bool" and waiting :: "'q \<Rightarrow> 'r list" and empty_queue :: 'q
    and add :: "'r \<Rightarrow> 'q \<Rightarrow> 'q" and pop :: "'q \<Rightarrow> ('r \<times> 'q) res" and peek :: "'q \<Rightarrow> 'r res"
    and prepend :: "'r \<Rightarrow> 'q \<Rightarrow> 'q" and discard :: "'r \<Rightarrow> 'q \<Rightarrow> 'q res" and discard_all :: "'r list \<Rightarrow> 'q \<Rightarrow> 'q"
  assumes empty: "proper empty_queue" "waiting empty_queue = []"
    and add_law: "proper q \<Longrightarrow> proper (add r q) \<and> mset (waiting (add r q)) = add_mset r (mset (waiting q))"
    and prepend_law: "proper q \<Longrightarrow> proper (prepend r q) \<and> mset (waiting (prepend r q)) = add_mset r (mset (waiting q))"
    and pop_law: "proper q \<Longrightarrow> (case pop q of
        Inl e \<Rightarrow> e = IndexError \<and> waiting q = []
      | Inr (r, q') \<Rightarrow> proper q' \<and> waiting q = r # waiting q')"
    and peek_law: "proper q \<Longrightarrow> peek q = (case pop q of Inl e \<Rightarrow> Inl e | Inr (r, _) \<Rightarrow> Inr r)"
    and discard_law: "proper q \<Longrightarrow> (case discard r q of
        Inl e \<Rightarrow> e = ValueError \<and> r \<notin> set (waiting q)
      | Inr q' \<Rightarrow> proper q' \<and> waiting q' = remove1 r (waiting q))"
    and discard_all_law: "proper q \<Longrightarrow> proper (discard_all rs q) \<and>
        waiting (discard_all rs q) = filter (\<lambda>r. r \<notin> set rs) (waiting q)"
begin

text \<open>Popping until the queue is empty.\<close>

fun drain :: "nat \<Rightarrow> 'q \<Rightarrow> 'r list \<times> 'q" where
  "drain 0 q = ([], q)"
| "drain (Suc n) q =
     (case pop q of Inl _ \<Rightarrow> ([], q) | Inr (r, q') \<Rightarrow> (let (rs, q'') = drain n q' in (r # rs, q'')))"

lemma drain_takes:
  "proper q \<Longrightarrow> fst (drain n q) = take n (waiting q) \<and> proper (snd (drain n q)) \<and>
     waiting (snd (drain n q)) = drop n (waiting q)"
proof (induction n arbitrary: q)
  case (Suc n)
  from pop_law [OF Suc.prems] show ?case
    by (auto simp: Let_def split_beta Suc.IH Suc.prems split: sum.splits prod.splits)
qed simp

lemma added_are_waiting: "proper q \<Longrightarrow> proper (fold add rs q) \<and> mset (waiting (fold add rs q)) = mset rs + mset (waiting q)"
  by (induction rs arbitrary: q) (simp_all add: add_law)

text \<open>Every request that was added is popped exactly once, and then the queue is empty.\<close>

lemma all_served:
  "mset (fst (drain (length rs) (fold add rs empty_queue))) = mset rs \<and>
   waiting (snd (drain (length rs) (fold add rs empty_queue))) = []"
proof -
  have a: "proper (fold add rs empty_queue)" "mset (waiting (fold add rs empty_queue)) = mset rs"
    using added_are_waiting [OF empty(1), of rs] empty(2) by simp_all
  have "length (waiting (fold add rs empty_queue)) = length rs" using a(2) by (metis size_mset)
  then show ?thesis using drain_takes [OF a(1), of "length rs"] a(2) by simp
qed

lemma discarded_not_served:
  assumes "proper q" "r \<in> set rs" shows "r \<notin> set (fst (drain n (discard_all rs q)))"
  using drain_takes [of "discard_all rs q" n] discard_all_law [OF assms(1), of rs] assms(2)
  by (auto dest: in_set_takeD)

end

interpretation fcfs: request_queue "\<lambda>_. True" "\<lambda>q. q" "[]" fcfs_add_request fcfs_pop_request fcfs_peek_request
  fcfs_prepend_request fcfs_remove_request fcfs_remove_requests
  by unfold_locales (auto simp: fcfs_add_request_def fcfs_pop_request_def fcfs_peek_request_def
    fcfs_prepend_request_def fcfs_remove_request_def fcfs_remove_requests_def split: list.splits)

interpretation by_priority: request_queue sorted "\<lambda>q. q" "[]" priority_add_request priority_pop_request
  priority_peek_request priority_prepend_request priority_remove_request priority_remove_requests
  by unfold_locales (auto simp: priority_add_request_def priority_pop_request_def priority_peek_request_def
    priority_prepend_request_def priority_remove_request_def priority_remove_requests_def sorted_insort
    sorted_remove1 sorted_sort_id sorted_filter [where f = "\<lambda>x. x", simplified] split: list.splits)

text \<open>The order of service: as added, or sorted.\<close>

lemma fcfs_order: "fcfs.drain (length rs) (fold fcfs_add_request rs []) = (rs, [])"
proof -
  have "fold fcfs_add_request rs q = q @ rs" for q by (induction rs arbitrary: q) (simp_all add: fcfs_add_request_def)
  then show ?thesis using fcfs.drain_takes [where q = "fold fcfs_add_request rs []" and n = "length rs"]
    by (simp add: prod_eq_iff)
qed

lemma priority_order: "by_priority.drain (length rs) (fold priority_add_request rs []) = (sort rs, [])"
proof -
  have a: "sorted (fold priority_add_request rs [])" "mset (fold priority_add_request rs []) = mset rs"
    using by_priority.added_are_waiting [of "[]" rs] by simp_all
  then have "fold priority_add_request rs [] = sort rs" by (metis properties_for_sort)
  then show ?thesis using by_priority.drain_takes [where q = "fold priority_add_request rs []" and n = "length rs"]
    by (simp add: prod_eq_iff)
qed

text \<open>Requests that are queued and then popped until the queue is empty come out in the order in
  which they were added, or, by priority, sorted by priority, then arrival time, then request id, then
  object; with either queue nothing is lost and nothing is served twice.\<close>

lemma queues_serve_in_policy_order:
  "fcfs.drain (length rs) (fold fcfs_add_request rs []) = (rs, []) \<and>
   by_priority.drain (length es) (fold priority_add_request es []) = (sort es, [])"
  by (simp only: fcfs_order priority_order)

section \<open>The two policies\<close>

datatype scheduling_policy = FCFS | PRIORITY

datatype 'r any_queue = FCFSRequestQueue "'r list" | PriorityRequestQueue "'r list"

fun create_request_queue :: "scheduling_policy \<Rightarrow> 'r any_queue" where
  "create_request_queue PRIORITY = PriorityRequestQueue []"
| "create_request_queue FCFS = FCFSRequestQueue []"

end
