(* ===== verification/OffloadPolicy.thy ===== *)
theory OffloadPolicy
  imports Prelude "HOL-Library.Multiset"
begin

text \<open>
  The replacement policies of the cache of offloaded blocks in CPU memory,
  \<^verbatim>\<open>vllm/v1/kv_offload/cpu/policies\<close>: least recently used, and adaptive replacement (ARC).

  A policy class is a record of its methods, so that the manager can be written once.  The manager
  also changes the reference count of a block object that the policy holds; \<open>po_write\<close> is the write
  through that reference.  An \<open>OrderedDict\<close> is an association list, one without values a list of keys.
  The counts are 32-bit in the source; they are bounded by the number of transfers in flight.
\<close>

record block_status =
  bs_ref_cnt :: int
  bs_block_id :: int

definition new_block_status :: "int \<Rightarrow> block_status" where
  "new_block_status block_id = \<lparr>bs_ref_cnt = - 1, bs_block_id = block_id\<rparr>"

definition is_ready :: "block_status \<Rightarrow> bool" where
  "is_ready b \<longleftrightarrow> bs_ref_cnt b \<ge> 0"

record ('k, 'p) policy_ops =
  po_new :: "nat \<Rightarrow> 'p"
  po_get :: "'p \<Rightarrow> 'k \<Rightarrow> block_status option"
  po_insert :: "'k \<Rightarrow> block_status \<Rightarrow> 'p \<Rightarrow> 'p"
  po_remove :: "'k \<Rightarrow> 'p \<Rightarrow> 'p res"
  po_touch :: "'k list \<Rightarrow> 'p \<Rightarrow> 'p"
  po_evict :: "nat \<Rightarrow> 'k list \<Rightarrow> 'p \<Rightarrow> (('k \<times> block_status) list \<times> 'p) option res"
  po_clear :: "'p \<Rightarrow> 'p"
  po_mark_evictable :: "'k \<Rightarrow> 'p \<Rightarrow> 'p"
  po_mark_non_evictable :: "'k \<Rightarrow> 'p \<Rightarrow> 'p res"
  po_write :: "'k \<Rightarrow> block_status \<Rightarrow> 'p \<Rightarrow> 'p"

text \<open>Ordered dictionaries without values: \<open>d[k] = None\<close>, \<open>move_to_end\<close>.\<close>

definition put_key :: "'k \<Rightarrow> 'k list \<Rightarrow> 'k list" where
  "put_key k ks = (if k \<in> set ks then ks else ks @ [k])"

definition move_key_to_end :: "'k \<Rightarrow> 'k list \<Rightarrow> 'k list" where
  "move_key_to_end k ks = remove1 k ks @ [k]"

section \<open>Least recently used\<close>

record 'k lru_policy =
  lp_evictable_blocks :: "'k list"
  lp_blocks :: "('k, block_status) dict"

definition lru_new :: "nat \<Rightarrow> 'k lru_policy" where
  "lru_new cache_capacity = \<lparr>lp_evictable_blocks = [], lp_blocks = []\<rparr>"

definition lru_get :: "'k lru_policy \<Rightarrow> 'k \<Rightarrow> block_status option" where
  "lru_get p key = map_of (lp_blocks p) key"

definition lru_insert :: "'k \<Rightarrow> block_status \<Rightarrow> 'k lru_policy \<Rightarrow> 'k lru_policy" where
  "lru_insert key b p =
     (let p1 = p\<lparr>lp_blocks := AList.update key b (lp_blocks p)\<rparr>
      in if bs_ref_cnt b = 0 then p1\<lparr>lp_evictable_blocks := put_key key (lp_evictable_blocks p1)\<rparr> else p1)"

definition lru_remove :: "'k \<Rightarrow> 'k lru_policy \<Rightarrow> 'k lru_policy res" where
  "lru_remove key p =
     rbind (dict_index (lp_blocks p) key) (\<lambda>_.
     Inr (p\<lparr>lp_blocks := AList.delete key (lp_blocks p),
            lp_evictable_blocks := remove1 key (lp_evictable_blocks p)\<rparr>))"

definition lru_touch_one :: "'k \<Rightarrow> 'k lru_policy \<Rightarrow> 'k lru_policy" where
  "lru_touch_one key p =
     (if key \<in> set (lp_evictable_blocks p)
      then p\<lparr>lp_evictable_blocks := move_key_to_end key (lp_evictable_blocks p)\<rparr> else p)"

definition lru_touch :: "'k list \<Rightarrow> 'k lru_policy \<Rightarrow> 'k lru_policy" where
  "lru_touch keys p = fold lru_touch_one (rev keys) p"

definition lru_clear :: "'k lru_policy \<Rightarrow> 'k lru_policy" where
  "lru_clear p = p\<lparr>lp_evictable_blocks := [], lp_blocks := []\<rparr>"

text \<open>The search for \<open>n\<close> victims, which stops when it has them.\<close>

fun lru_candidates ::
  "'k list \<Rightarrow> ('k, block_status) dict \<Rightarrow> nat \<Rightarrow> 'k list \<Rightarrow> ('k \<times> block_status) list res" where
  "lru_candidates protected blocks n [] = Inr []"
| "lru_candidates protected blocks n (key # keys) =
     (if key \<in> set protected then lru_candidates protected blocks n keys
      else rbind (dict_index blocks key) (\<lambda>b.
           rbind (check (bs_ref_cnt b = 0) AssertionError) (\<lambda>_.
           if n \<le> 1 then Inr [(key, b)]
           else rbind (lru_candidates protected blocks (n - 1) keys) (\<lambda>cs. Inr ((key, b) # cs)))))"

definition lru_evict ::
  "nat \<Rightarrow> 'k list \<Rightarrow> 'k lru_policy \<Rightarrow> (('k \<times> block_status) list \<times> 'k lru_policy) option res" where
  "lru_evict n protected p =
     (if n = 0 then Inr (Some ([], p))
      else rbind (lru_candidates protected (lp_blocks p) n (lp_evictable_blocks p)) (\<lambda>candidates.
        if length candidates < n then Inr None
        else Inr (Some (candidates,
               p\<lparr>lp_evictable_blocks := fold (\<lambda>(key, _). remove1 key) candidates (lp_evictable_blocks p),
                 lp_blocks := fold (\<lambda>(key, _). AList.delete key) candidates (lp_blocks p)\<rparr>))))"

definition lru_mark_evictable :: "'k \<Rightarrow> 'k lru_policy \<Rightarrow> 'k lru_policy" where
  "lru_mark_evictable key p = p\<lparr>lp_evictable_blocks := put_key key (lp_evictable_blocks p)\<rparr>"

definition lru_mark_non_evictable :: "'k \<Rightarrow> 'k lru_policy \<Rightarrow> 'k lru_policy res" where
  "lru_mark_non_evictable key p =
     (if key \<in> set (lp_evictable_blocks p)
      then Inr (p\<lparr>lp_evictable_blocks := remove1 key (lp_evictable_blocks p)\<rparr>) else Inl KeyError)"

definition lru_write :: "'k \<Rightarrow> block_status \<Rightarrow> 'k lru_policy \<Rightarrow> 'k lru_policy" where
  "lru_write key b p = p\<lparr>lp_blocks := AList.update key b (lp_blocks p)\<rparr>"

definition lru_ops :: "('k, 'k lru_policy) policy_ops" where
  "lru_ops = \<lparr>po_new = lru_new, po_get = lru_get, po_insert = lru_insert, po_remove = lru_remove,
     po_touch = lru_touch, po_evict = lru_evict, po_clear = lru_clear, po_mark_evictable = lru_mark_evictable,
     po_mark_non_evictable = lru_mark_non_evictable, po_write = lru_write\<rparr>"

section \<open>Adaptive replacement\<close>

record 'k arc_policy =
  ar_cache_capacity :: nat
  ar_target_t1_size :: rat
  ar_t1 :: "('k, block_status) dict"
  ar_t2 :: "('k, block_status) dict"
  ar_b1 :: "'k list"
  ar_b2 :: "'k list"

definition arc_new :: "nat \<Rightarrow> 'k arc_policy" where
  "arc_new cache_capacity = \<lparr>ar_cache_capacity = cache_capacity, ar_target_t1_size = 0, ar_t1 = [], ar_t2 = [],
     ar_b1 = [], ar_b2 = []\<rparr>"

definition arc_get :: "'k arc_policy \<Rightarrow> 'k \<Rightarrow> block_status option" where
  "arc_get p key = (case map_of (ar_t1 p) key of Some b \<Rightarrow> Some b | None \<Rightarrow> map_of (ar_t2 p) key)"

definition arc_insert :: "'k \<Rightarrow> block_status \<Rightarrow> 'k arc_policy \<Rightarrow> 'k arc_policy" where
  "arc_insert key b p = p\<lparr>ar_t1 := AList.update key b (ar_t1 p), ar_b1 := remove1 key (ar_b1 p),
     ar_b2 := remove1 key (ar_b2 p)\<rparr>"

definition arc_remove :: "'k \<Rightarrow> 'k arc_policy \<Rightarrow> 'k arc_policy res" where
  "arc_remove key p =
     Inr (if map_of (ar_t1 p) key = None then p\<lparr>ar_t2 := AList.delete key (ar_t2 p)\<rparr>
          else p\<lparr>ar_t1 := AList.delete key (ar_t1 p)\<rparr>)"

definition arc_touch_one :: "'k \<Rightarrow> 'k arc_policy \<Rightarrow> 'k arc_policy" where
  "arc_touch_one key p =
     (case map_of (ar_t1 p) key of
        Some b \<Rightarrow>
          (let t1 = AList.delete key (ar_t1 p)
           in if \<not> is_ready b then p\<lparr>ar_t1 := t1 @ [(key, b)]\<rparr>
              else p\<lparr>ar_t1 := t1, ar_t2 := AList.update key b (ar_t2 p)\<rparr>)
      | None \<Rightarrow>
      (case map_of (ar_t2 p) key of
        Some b \<Rightarrow> p\<lparr>ar_t2 := AList.delete key (ar_t2 p) @ [(key, b)]\<rparr>
      | None \<Rightarrow>
        if key \<in> set (ar_b1 p)
        then p\<lparr>ar_target_t1_size := min (ar_target_t1_size p +
                  max 1 (of_nat (length (ar_b2 p)) / of_nat (length (ar_b1 p)))) (of_nat (ar_cache_capacity p)),
               ar_b1 := move_key_to_end key (ar_b1 p)\<rparr>
        else if key \<in> set (ar_b2 p)
        then p\<lparr>ar_target_t1_size := max (ar_target_t1_size p -
                  max 1 (of_nat (length (ar_b1 p)) / of_nat (length (ar_b2 p)))) 0,
               ar_b2 := move_key_to_end key (ar_b2 p)\<rparr>
        else p))"

definition arc_touch :: "'k list \<Rightarrow> 'k arc_policy \<Rightarrow> 'k arc_policy" where
  "arc_touch keys p = fold arc_touch_one (rev keys) p"

definition arc_clear :: "'k arc_policy \<Rightarrow> 'k arc_policy" where
  "arc_clear p = p\<lparr>ar_t1 := [], ar_t2 := [], ar_b1 := [], ar_b2 := [], ar_target_t1_size := 0\<rparr>"

text \<open>The selection of \<open>n\<close> victims with the virtual size of the first list; the flag is \<open>from_t1\<close>.\<close>

fun arc_select ::
  "'k list \<Rightarrow> 'k arc_policy \<Rightarrow> int \<Rightarrow> 'k list \<Rightarrow> nat \<Rightarrow> ('k \<times> block_status \<times> bool) list option" where
  "arc_select protected p virtual_t1_size already_selected 0 = Some []"
| "arc_select protected p virtual_t1_size already_selected (Suc n) =
     (let free = (\<lambda>(key, b). bs_ref_cnt b = 0 \<and> key \<notin> set protected \<and> key \<notin> set already_selected)
      in case (if virtual_t1_size \<ge> \<lfloor>ar_target_t1_size p\<rfloor> then find free (ar_t1 p) else None) of
           Some (key, b) \<Rightarrow>
             map_option (\<lambda>cs. (key, b, True) # cs)
               (arc_select protected p (virtual_t1_size - 1) (key # already_selected) n)
         | None \<Rightarrow>
             (case find free (ar_t2 p) of
                Some (key, b) \<Rightarrow>
                  map_option (\<lambda>cs. (key, b, False) # cs)
                    (arc_select protected p virtual_t1_size (key # already_selected) n)
              | None \<Rightarrow> None))"

definition arc_evict_one :: "'k \<times> block_status \<times> bool \<Rightarrow> 'k arc_policy \<Rightarrow> 'k arc_policy" where
  "arc_evict_one c p =
     (case c of (key, b, from_t1) \<Rightarrow>
        if from_t1 then p\<lparr>ar_t1 := AList.delete key (ar_t1 p), ar_b1 := put_key key (ar_b1 p)\<rparr>
        else p\<lparr>ar_t2 := AList.delete key (ar_t2 p), ar_b2 := put_key key (ar_b2 p)\<rparr>)"

definition trim_ghost :: "nat \<Rightarrow> 'k list \<Rightarrow> 'k list" where
  "trim_ghost capacity ghost = drop (length ghost - capacity) ghost"

definition arc_evict ::
  "nat \<Rightarrow> 'k list \<Rightarrow> 'k arc_policy \<Rightarrow> (('k \<times> block_status) list \<times> 'k arc_policy) option res" where
  "arc_evict n protected p =
     (if n = 0 then Inr (Some ([], p))
      else case arc_select protected p (int (length (ar_t1 p))) [] n of
             None \<Rightarrow> Inr None
           | Some candidates \<Rightarrow>
               let p1 = fold arc_evict_one candidates p
               in Inr (Some (map (\<lambda>(key, b, _). (key, b)) candidates,
                    p1\<lparr>ar_b1 := trim_ghost (ar_cache_capacity p1) (ar_b1 p1),
                       ar_b2 := trim_ghost (ar_cache_capacity p1) (ar_b2 p1)\<rparr>)))"

definition arc_write :: "'k \<Rightarrow> block_status \<Rightarrow> 'k arc_policy \<Rightarrow> 'k arc_policy" where
  "arc_write key b p =
     (if map_of (ar_t1 p) key = None then p\<lparr>ar_t2 := AList.update key b (ar_t2 p)\<rparr>
      else p\<lparr>ar_t1 := AList.update key b (ar_t1 p)\<rparr>)"

text \<open>ARC keeps no list of evictable blocks.\<close>

definition arc_ops :: "('k, 'k arc_policy) policy_ops" where
  "arc_ops = \<lparr>po_new = arc_new, po_get = arc_get, po_insert = arc_insert, po_remove = arc_remove,
     po_touch = arc_touch, po_evict = arc_evict, po_clear = arc_clear, po_mark_evictable = (\<lambda>_ p. p),
     po_mark_non_evictable = (\<lambda>_ p. Inr p), po_write = arc_write\<rparr>"

section \<open>What the policies promise\<close>

declare map_of_eq_Some_iff [simp del] split_paired_All [simp del] split_paired_Ex [simp del]

text \<open>The contents of a policy are a dictionary: what an operation does to it as a multiset of its items.\<close>

lemma mset_delete:
  "distinct (dkeys d) \<Longrightarrow> map_of d k = Some b \<Longrightarrow> mset d = add_mset (k, b) (mset (AList.delete k d))"
proof (induction d)
  case (Cons x d)
  show ?case
  proof (cases "fst x = k")
    case True
    then have "x = (k, b)" "k \<notin> set (dkeys d)" using Cons.prems by (cases x, auto)+
    then show ?thesis by simp
  next
    case False
    then show ?thesis using Cons by (cases x) auto
  qed
qed simp

lemma mset_update:
  "distinct (dkeys d) \<Longrightarrow> map_of d k = Some b \<Longrightarrow>
     mset (AList.update k b' d) = add_mset (k, b') (mset d - {#(k, b)#})"
proof (induction d)
  case (Cons x d)
  show ?case
  proof (cases "fst x = k")
    case True
    then show ?thesis using Cons.prems by (cases x) auto
  next
    case False
    then have "(k, b) \<in># mset d" using Cons.prems by (cases x) (auto dest: map_of_SomeD)
    then show ?thesis using Cons False by (cases x) (auto simp: add_mset_commute)
  qed
qed simp

lemma mset_deletes:
  assumes "distinct (dkeys d)" "distinct (map fst vs)" "\<forall>(k, b) \<in> set vs. map_of d k = Some b"
  shows "mset d = mset vs + mset (fold (\<lambda>(k, _). AList.delete k) vs d)"
  using assms
proof (induction vs arbitrary: d)
  case (Cons v vs)
  obtain k b where v: "v = (k, b)" by (cases v)
  have "mset (AList.delete k d) = mset vs + mset (fold (\<lambda>(k, _). AList.delete k) vs (AList.delete k d))"
    by (rule Cons.IH) (use Cons.prems v in \<open>auto simp: rev_image_eqI\<close>)
  then show ?case using mset_delete [of d k b] Cons.prems v by simp
qed simp

lemma distinct_same_items:
  assumes "mset d = mset d'" "distinct (dkeys d)"
  shows "distinct (dkeys d')" "map_of d = map_of d'"
proof -
  have "mset (dkeys d) = mset (dkeys d')" using assms(1) by (metis mset_map)
  then show d: "distinct (dkeys d')" using assms(2) by (metis mset_eq_imp_distinct_iff)
  show "map_of d = map_of d'"
    by (rule map_of_inject_set [THEN iffD2, OF assms(2) d]) (use assms(1) in \<open>metis set_mset_mset\<close>)
qed

locale cache_policy =
  fixes ops :: "('k, 'p) policy_ops"
    and proper :: "'p \<Rightarrow> bool"
    and entries :: "'p \<Rightarrow> ('k, block_status) dict"
  assumes new_law: "proper (po_new ops capacity) \<and> entries (po_new ops capacity) = []"
    and distinct_law: "proper p \<Longrightarrow> distinct (dkeys (entries p))"
    and get_law: "proper p \<Longrightarrow> po_get ops p k = map_of (entries p) k"
    and insert_law: "proper p \<Longrightarrow> k \<notin> set (dkeys (entries p)) \<Longrightarrow> bs_ref_cnt b \<noteq> 0 \<Longrightarrow>
      proper (po_insert ops k b p) \<and> mset (entries (po_insert ops k b p)) = add_mset (k, b) (mset (entries p))"
    and remove_law: "proper p \<Longrightarrow> map_of (entries p) k = Some b \<Longrightarrow> bs_ref_cnt b \<noteq> 0 \<Longrightarrow>
      \<exists>p'. po_remove ops k p = Inr p' \<and> proper p' \<and> mset (entries p) = add_mset (k, b) (mset (entries p'))"
    and touch_law: "proper p \<Longrightarrow> proper (po_touch ops ks p) \<and> mset (entries (po_touch ops ks p)) = mset (entries p)"
    and evict_law: "proper p \<Longrightarrow> po_evict ops n protected p = Inr None \<or>
      (\<exists>vs p'. po_evict ops n protected p = Inr (Some (vs, p')) \<and> length vs = n \<and> proper p' \<and>
         mset (entries p) = mset vs + mset (entries p') \<and>
         (\<forall>(k, b) \<in> set vs. bs_ref_cnt b = 0 \<and> k \<notin> set protected))"
    and clear_law: "proper p \<Longrightarrow> proper (po_clear ops p) \<and> entries (po_clear ops p) = []"
    and busy_law: "proper p \<Longrightarrow> map_of (entries p) k = Some b \<Longrightarrow> bs_ref_cnt b \<noteq> 0 \<Longrightarrow> bs_ref_cnt b' \<noteq> 0 \<Longrightarrow>
      proper (po_write ops k b' p) \<and> mset (entries (po_write ops k b' p)) = add_mset (k, b') (mset (entries p) - {#(k, b)#})"
    and idle_law: "proper p \<Longrightarrow> map_of (entries p) k = Some b \<Longrightarrow> bs_ref_cnt b \<noteq> 0 \<Longrightarrow> bs_ref_cnt b' = 0 \<Longrightarrow>
      proper (po_mark_evictable ops k (po_write ops k b' p)) \<and>
      mset (entries (po_mark_evictable ops k (po_write ops k b' p))) = add_mset (k, b') (mset (entries p) - {#(k, b)#})"
    and acquire_law: "proper p \<Longrightarrow> map_of (entries p) k = Some b \<Longrightarrow> bs_ref_cnt b = 0 \<Longrightarrow> bs_ref_cnt b' \<noteq> 0 \<Longrightarrow>
      \<exists>p'. po_mark_non_evictable ops k p = Inr p' \<and> proper (po_write ops k b' p') \<and>
        mset (entries (po_write ops k b' p')) = add_mset (k, b') (mset (entries p) - {#(k, b)#})"

subsection \<open>Least recently used\<close>

text \<open>The evictable list names the blocks that no transfer uses, each once.\<close>

definition lru_proper :: "'k lru_policy \<Rightarrow> bool" where
  "lru_proper p \<longleftrightarrow> distinct (dkeys (lp_blocks p)) \<and> distinct (lp_evictable_blocks p) \<and>
     (\<forall>k. k \<in> set (lp_evictable_blocks p) \<longleftrightarrow> (\<exists>b. map_of (lp_blocks p) k = Some b \<and> bs_ref_cnt b = 0))"

lemma lru_touch_proper: "lru_proper p \<Longrightarrow> lru_proper (lru_touch ks p) \<and> lp_blocks (lru_touch ks p) = lp_blocks p"
proof -
  have one: "lru_proper (lru_touch_one k p) \<and> lp_blocks (lru_touch_one k p) = lp_blocks p" if "lru_proper p" for k and p :: "'a lru_policy"
    using that by (auto simp: lru_touch_one_def lru_proper_def move_key_to_end_def)
  have "lru_proper (fold lru_touch_one ks p) \<and> lp_blocks (fold lru_touch_one ks p) = lp_blocks p" if "lru_proper p"
    for ks and p :: "'a lru_policy"
    using that by (induction ks arbitrary: p) (simp_all add: one)
  then show "lru_proper p \<Longrightarrow> ?thesis" by (simp add: lru_touch_def)
qed

lemma lru_candidates_found:
  assumes "\<forall>k \<in> set keys. \<exists>b. map_of blocks k = Some b \<and> bs_ref_cnt b = 0" "distinct keys" "0 < n"
  shows "\<exists>cs. lru_candidates protected blocks n keys = Inr cs \<and> length cs \<le> n \<and> distinct (map fst cs) \<and>
    (\<forall>(k, b) \<in> set cs. k \<in> set keys \<and> map_of blocks k = Some b \<and> bs_ref_cnt b = 0 \<and> k \<notin> set protected)"
  using assms
proof (induction protected blocks n keys rule: lru_candidates.induct)
  case (2 protected blocks n key keys)
  obtain b where b: "map_of blocks key = Some b" "bs_ref_cnt b = 0" using 2(3) by auto
  show ?case
  proof (cases "key \<in> set protected")
    case True
    have "\<exists>cs. lru_candidates protected blocks n keys = Inr cs \<and> length cs \<le> n \<and> distinct (map fst cs) \<and>
      (\<forall>(k, b) \<in> set cs. k \<in> set keys \<and> map_of blocks k = Some b \<and> bs_ref_cnt b = 0 \<and> k \<notin> set protected)"
      by (rule 2(1) [OF True]) (use 2 in auto)
    then show ?thesis using True by fastforce
  next
    case False
    show ?thesis
    proof (cases "n \<le> 1")
      case True
      then show ?thesis using False b 2(5) by (simp add: dict_index_def)
    next
      case n: False
      have "\<exists>cs. lru_candidates protected blocks (n - 1) keys = Inr cs \<and> length cs \<le> n - 1 \<and> distinct (map fst cs) \<and>
        (\<forall>(k, b) \<in> set cs. k \<in> set keys \<and> map_of blocks k = Some b \<and> bs_ref_cnt b = 0 \<and> k \<notin> set protected)"
        by (rule 2(2) [OF False, of b "()"]) (use 2 n b in \<open>auto simp: dict_index_def\<close>)
      then obtain cs where cs: "lru_candidates protected blocks (n - 1) keys = Inr cs" "length cs \<le> n - 1" "distinct (map fst cs)"
        "\<forall>(k, b) \<in> set cs. k \<in> set keys \<and> map_of blocks k = Some b \<and> bs_ref_cnt b = 0 \<and> k \<notin> set protected" by blast
      then have "lru_candidates protected blocks n (key # keys) = Inr ((key, b) # cs)"
        using False n b by (simp add: dict_index_def)
      then show ?thesis using cs 2(4) n b False by fastforce
    qed
  qed
qed simp

lemma fold_remove1: "distinct xs \<Longrightarrow> set (fold (\<lambda>(k, _). remove1 k) vs xs) = set xs - fst ` set vs \<and>
    distinct (fold (\<lambda>(k, _). remove1 k) vs xs)"
  by (induction vs arbitrary: xs) (auto, force)

lemma fold_delete: "map_of (fold (\<lambda>(k, _). AList.delete k) vs d) k = (if k \<in> fst ` set vs then None else map_of d k)"
  by (induction vs arbitrary: d) auto

lemma fold_delete_items_distinct: "distinct (dkeys d) \<Longrightarrow> distinct (dkeys (fold (\<lambda>(k, _). AList.delete k) vs d))"
  by (induction vs arbitrary: d) auto

lemma lru_evict_law:
  assumes p: "lru_proper p"
  shows "lru_evict n protected p = Inr None \<or>
    (\<exists>vs p'. lru_evict n protected p = Inr (Some (vs, p')) \<and> length vs = n \<and> lru_proper p' \<and>
       mset (lp_blocks p) = mset vs + mset (lp_blocks p') \<and>
       (\<forall>(k, b) \<in> set vs. bs_ref_cnt b = 0 \<and> k \<notin> set protected))"
proof (cases "n = 0")
  case False
  obtain cs where cs: "lru_candidates protected (lp_blocks p) n (lp_evictable_blocks p) = Inr cs" "length cs \<le> n"
    "distinct (map fst cs)"
    "\<forall>(k, b) \<in> set cs. k \<in> set (lp_evictable_blocks p) \<and> map_of (lp_blocks p) k = Some b \<and> bs_ref_cnt b = 0 \<and> k \<notin> set protected"
    using lru_candidates_found [of "lp_evictable_blocks p" "lp_blocks p" n protected] p False by (auto simp: lru_proper_def)
  let ?p = "p\<lparr>lp_evictable_blocks := fold (\<lambda>(key, _). remove1 key) cs (lp_evictable_blocks p),
              lp_blocks := fold (\<lambda>(key, _). AList.delete key) cs (lp_blocks p)\<rparr>"
  have "lru_proper ?p"
    using p fold_remove1 [of "lp_evictable_blocks p" cs] fold_delete_items_distinct [of "lp_blocks p" cs]
    by (simp add: lru_proper_def fold_delete)
  moreover have "mset (lp_blocks p) = mset cs + mset (lp_blocks ?p)"
    using mset_deletes [of "lp_blocks p" cs] p cs(3,4) by (auto simp: lru_proper_def)
  ultimately show ?thesis using cs False by (cases "length cs < n") (auto simp: lru_evict_def)
qed (use p in \<open>simp add: lru_evict_def\<close>)

interpretation lru: cache_policy lru_ops lru_proper lp_blocks
proof
  fix p :: "'a lru_policy" and k and b b' :: block_status
  assume p: "lru_proper p"
  show "distinct (dkeys (lp_blocks p))" "po_get lru_ops p k = map_of (lp_blocks p) k"
    using p by (simp_all add: lru_proper_def lru_ops_def lru_get_def)
  show "lru_proper (po_touch lru_ops ks p) \<and> mset (lp_blocks (po_touch lru_ops ks p)) = mset (lp_blocks p)" for ks
    using lru_touch_proper [OF p] by (simp add: lru_ops_def)
  show "lru_proper (po_clear lru_ops p) \<and> lp_blocks (po_clear lru_ops p) = []"
    by (simp add: lru_ops_def lru_clear_def lru_proper_def)
  show "po_evict lru_ops n protected p = Inr None \<or>
      (\<exists>vs p'. po_evict lru_ops n protected p = Inr (Some (vs, p')) \<and> length vs = n \<and> lru_proper p' \<and>
         mset (lp_blocks p) = mset vs + mset (lp_blocks p') \<and>
         (\<forall>(k, b) \<in> set vs. bs_ref_cnt b = 0 \<and> k \<notin> set protected))" for n protected
    using lru_evict_law [OF p] by (simp add: lru_ops_def)
  show "lru_proper (po_insert lru_ops k b p) \<and> mset (lp_blocks (po_insert lru_ops k b p)) = add_mset (k, b) (mset (lp_blocks p))"
    if "k \<notin> set (dkeys (lp_blocks p))" "bs_ref_cnt b \<noteq> 0"
    using p that by (auto simp: lru_ops_def lru_insert_def lru_proper_def update_fresh map_of_None_iff [symmetric] split: if_splits)
  assume k: "map_of (lp_blocks p) k = Some b"
  show "\<exists>p'. po_remove lru_ops k p = Inr p' \<and> lru_proper p' \<and> mset (lp_blocks p) = add_mset (k, b) (mset (lp_blocks p'))"
    if "bs_ref_cnt b \<noteq> 0"
    using p k that mset_delete [of "lp_blocks p" k b]
    by (auto simp: lru_ops_def lru_remove_def lru_proper_def dict_index_def)
  have up: "mset (AList.update k b' (lp_blocks p)) = add_mset (k, b') (mset (lp_blocks p) - {#(k, b)#})"
    using mset_update [OF _ k] p by (simp add: lru_proper_def)
  show "lru_proper (po_write lru_ops k b' p) \<and>
      mset (lp_blocks (po_write lru_ops k b' p)) = add_mset (k, b') (mset (lp_blocks p) - {#(k, b)#})"
    if "bs_ref_cnt b \<noteq> 0" "bs_ref_cnt b' \<noteq> 0"
    using p k that up by (auto simp: lru_ops_def lru_write_def lru_proper_def)
  show "lru_proper (po_mark_evictable lru_ops k (po_write lru_ops k b' p)) \<and>
      mset (lp_blocks (po_mark_evictable lru_ops k (po_write lru_ops k b' p))) = add_mset (k, b') (mset (lp_blocks p) - {#(k, b)#})"
    if "bs_ref_cnt b \<noteq> 0" "bs_ref_cnt b' = 0"
    using p k that up by (auto simp: lru_ops_def lru_write_def lru_mark_evictable_def lru_proper_def put_key_def)
  show "\<exists>p'. po_mark_non_evictable lru_ops k p = Inr p' \<and> lru_proper (po_write lru_ops k b' p') \<and>
      mset (lp_blocks (po_write lru_ops k b' p')) = add_mset (k, b') (mset (lp_blocks p) - {#(k, b)#})"
    if "bs_ref_cnt b = 0" "bs_ref_cnt b' \<noteq> 0"
    using p k that up by (auto simp: lru_ops_def lru_write_def lru_mark_non_evictable_def lru_proper_def)
qed (simp_all add: lru_ops_def lru_new_def lru_proper_def)

subsection \<open>Adaptive replacement\<close>

text \<open>The contents are the two lists; no key is in both.\<close>

definition arc_entries :: "'k arc_policy \<Rightarrow> ('k, block_status) dict" where
  "arc_entries p = ar_t1 p @ ar_t2 p"

definition arc_proper :: "'k arc_policy \<Rightarrow> bool" where
  "arc_proper p \<longleftrightarrow> distinct (dkeys (arc_entries p))"

lemma map_of_arc: "map_of (arc_entries p) k = arc_get p k"
  by (auto simp: arc_entries_def arc_get_def map_add_def split: option.splits)

lemma arc_proper_parts:
  "arc_proper p \<longleftrightarrow> distinct (dkeys (ar_t1 p)) \<and> distinct (dkeys (ar_t2 p)) \<and>
     (\<forall>k. map_of (ar_t1 p) k = None \<or> map_of (ar_t2 p) k = None)"
  by (auto simp: arc_proper_def arc_entries_def map_of_None_iff)

lemma find_satisfies: "find P xs = Some x \<Longrightarrow> x \<in> set xs \<and> P x"
  by (induction xs) (auto split: if_splits)

lemma arc_touch_one_proper:
  assumes "arc_proper p" shows "arc_proper (arc_touch_one k p) \<and> mset (arc_entries (arc_touch_one k p)) = mset (arc_entries p)"
proof -
  have d: "distinct (dkeys (ar_t1 p))" "distinct (dkeys (ar_t2 p))"
    and x: "\<And>k. map_of (ar_t1 p) k = None \<or> map_of (ar_t2 p) k = None"
    using assms by (auto simp: arc_proper_parts)
  have m: "mset (arc_entries (arc_touch_one k p)) = mset (arc_entries p)"
  proof (cases "map_of (ar_t1 p) k")
    case (Some b)
    then have "k \<notin> set (dkeys (ar_t2 p))" using x [of k] by (simp add: map_of_None_iff)
    then show ?thesis using mset_delete [OF d(1) Some] Some
      by (simp add: arc_touch_one_def arc_entries_def Let_def update_fresh)
  next
    case None
    show ?thesis
    proof (cases "map_of (ar_t2 p) k")
      case (Some b)
      then show ?thesis using mset_delete [OF d(2) Some] None by (simp add: arc_touch_one_def arc_entries_def)
    qed (use None in \<open>simp add: arc_touch_one_def arc_entries_def\<close>)
  qed
  then show ?thesis using distinct_same_items(1) [OF m [symmetric]] assms by (simp add: arc_proper_def)
qed

lemma arc_touch_proper:
  "arc_proper p \<Longrightarrow> arc_proper (arc_touch ks p) \<and> mset (arc_entries (arc_touch ks p)) = mset (arc_entries p)"
proof -
  have "arc_proper p \<Longrightarrow> arc_proper (fold arc_touch_one ks p) \<and> mset (arc_entries (fold arc_touch_one ks p)) = mset (arc_entries p)"
    for ks by (induction ks arbitrary: p) (simp_all add: arc_touch_one_proper)
  then show "arc_proper p \<Longrightarrow> ?thesis" by (simp add: arc_touch_def)
qed

lemma arc_selected:
  "arc_select protected p v sel n = Some cs \<Longrightarrow> arc_proper p \<Longrightarrow> length cs = n \<and> distinct (map fst cs) \<and>
     (\<forall>(k, b, from_t1) \<in> set cs. bs_ref_cnt b = 0 \<and> k \<notin> set protected \<and> k \<notin> set sel \<and>
        map_of (if from_t1 then ar_t1 p else ar_t2 p) k = Some b)"
proof (induction n arbitrary: v sel cs)
  case (Suc n)
  have d: "distinct (dkeys (ar_t1 p))" "distinct (dkeys (ar_t2 p))" using Suc.prems(2) by (auto simp: arc_proper_parts)
  let ?free = "\<lambda>(key, b). bs_ref_cnt b = 0 \<and> key \<notin> set protected \<and> key \<notin> set sel"
  have step: ?case
    if r: "arc_select protected p v' (k # sel) n = Some cs'" "cs = (k, b, f) # cs'"
      and k: "?free (k, b)" "map_of (if f then ar_t1 p else ar_t2 p) k = Some b" for v' k b f cs'
    using Suc.IH [OF r(1) Suc.prems(2)] r(2) k by (fastforce simp: image_iff)
  show ?case
  proof (cases "if v \<ge> \<lfloor>ar_target_t1_size p\<rfloor> then find ?free (ar_t1 p) else None")
    case (Some c)
    obtain k b where c: "c = (k, b)" by (cases c)
    have "(k, b) \<in> set (ar_t1 p)" "?free (k, b)" using Some c find_satisfies [of ?free "ar_t1 p" "(k, b)"] by (auto split: if_splits)
    moreover obtain cs' where "arc_select protected p (v - 1) (k # sel) n = Some cs'" "cs = (k, b, True) # cs'"
      using Suc.prems(1) Some c by (auto simp: Let_def)
    ultimately show ?thesis using step map_of_SomeI_distinct [OF d(1)] by auto
  next
    case None
    then obtain k b cs' where f: "find ?free (ar_t2 p) = Some (k, b)"
      "arc_select protected p v (k # sel) n = Some cs'" "cs = (k, b, False) # cs'"
      using Suc.prems(1) by (auto simp: Let_def split: option.splits)
    have "(k, b) \<in> set (ar_t2 p)" "?free (k, b)" using find_satisfies [OF f(1)] by auto
    then show ?thesis using step [OF f(2,3)] map_of_SomeI_distinct [OF d(2)] by auto
  qed
qed simp

lemma arc_evict_one_step:
  assumes "arc_proper p" "map_of (if f then ar_t1 p else ar_t2 p) k = Some b"
  shows "arc_proper (arc_evict_one (k, b, f) p) \<and>
    mset (arc_entries p) = add_mset (k, b) (mset (arc_entries (arc_evict_one (k, b, f) p))) \<and>
    (\<forall>k'. k' \<noteq> k \<longrightarrow> map_of (ar_t1 (arc_evict_one (k, b, f) p)) k' = map_of (ar_t1 p) k' \<and>
        map_of (ar_t2 (arc_evict_one (k, b, f) p)) k' = map_of (ar_t2 p) k')"
proof -
  have d: "distinct (dkeys (ar_t1 p))" "distinct (dkeys (ar_t2 p))" using assms(1) by (auto simp: arc_proper_parts)
  show ?thesis
    using assms mset_delete [OF d(1), of k b] mset_delete [OF d(2), of k b]
    by (cases f) (auto simp: arc_proper_parts arc_evict_one_def arc_entries_def)
qed

lemma arc_evict_all:
  assumes "arc_proper p" "distinct (map fst cs)"
    "\<forall>(k, b, f) \<in> set cs. map_of (if f then ar_t1 p else ar_t2 p) k = Some b"
  shows "arc_proper (fold arc_evict_one cs p) \<and>
    mset (arc_entries p) = mset (map (\<lambda>(k, b, _). (k, b)) cs) + mset (arc_entries (fold arc_evict_one cs p))"
  using assms
proof (induction cs arbitrary: p)
  case (Cons c cs)
  obtain k b f where c: "c = (k, b, f)" by (cases c)
  let ?p = "arc_evict_one (k, b, f) p"
  have s: "arc_proper ?p" "mset (arc_entries p) = add_mset (k, b) (mset (arc_entries ?p))"
    "\<And>k'. k' \<noteq> k \<Longrightarrow> map_of (ar_t1 ?p) k' = map_of (ar_t1 p) k' \<and> map_of (ar_t2 ?p) k' = map_of (ar_t2 p) k'"
    using arc_evict_one_step [OF Cons.prems(1), of f k b] Cons.prems(3) c by auto
  have "\<forall>(k', b', f') \<in> set cs. map_of (if f' then ar_t1 ?p else ar_t2 ?p) k' = Some b'"
  proof clarify
    fix k' b' f' assume i: "(k', b', f') \<in> set cs"
    then have "k' \<noteq> k" using Cons.prems(2) c by (auto simp: rev_image_eqI)
    then show "map_of (if f' then ar_t1 ?p else ar_t2 ?p) k' = Some b'" using s(3) i Cons.prems(3) by auto
  qed
  then show ?case using Cons.IH [OF s(1)] Cons.prems(2) s(2) c by simp
qed simp

lemma arc_evict_law:
  assumes p: "arc_proper p"
  shows "arc_evict n protected p = Inr None \<or>
    (\<exists>vs p'. arc_evict n protected p = Inr (Some (vs, p')) \<and> length vs = n \<and> arc_proper p' \<and>
       mset (arc_entries p) = mset vs + mset (arc_entries p') \<and>
       (\<forall>(k, b) \<in> set vs. bs_ref_cnt b = 0 \<and> k \<notin> set protected))"
proof (cases "n = 0 \<or> arc_select protected p (int (length (ar_t1 p))) [] n = None")
  case True
  then show ?thesis using p by (auto simp: arc_evict_def)
next
  case False
  then obtain cs where cs: "arc_select protected p (int (length (ar_t1 p))) [] n = Some cs" by blast
  let ?p = "fold arc_evict_one cs p"
  let ?p' = "?p\<lparr>ar_b1 := trim_ghost (ar_cache_capacity ?p) (ar_b1 ?p), ar_b2 := trim_ghost (ar_cache_capacity ?p) (ar_b2 ?p)\<rparr>"
  let ?vs = "map (\<lambda>(k, b, _). (k, b)) cs"
  note sel = arc_selected [OF cs p]
  have "arc_proper ?p" "mset (arc_entries p) = mset ?vs + mset (arc_entries ?p)"
    using arc_evict_all [OF p, of cs] sel by (simp_all add: case_prod_unfold)
  moreover have "arc_evict n protected p = Inr (Some (?vs, ?p'))" using False cs by (simp add: arc_evict_def Let_def)
  moreover have "arc_entries ?p' = arc_entries ?p" by (simp add: arc_entries_def)
  moreover have "length ?vs = n" "\<forall>(k, b) \<in> set ?vs. bs_ref_cnt b = 0 \<and> k \<notin> set protected" using sel by auto
  ultimately show ?thesis by (auto simp: arc_proper_def)
qed

lemma arc_write_step:
  assumes "arc_proper p" "map_of (arc_entries p) k = Some b"
  shows "arc_proper (arc_write k b' p) \<and>
    mset (arc_entries (arc_write k b' p)) = add_mset (k, b') (mset (arc_entries p) - {#(k, b)#})"
proof -
  have d: "distinct (dkeys (ar_t1 p))" "distinct (dkeys (ar_t2 p))"
    and x: "\<And>k. map_of (ar_t1 p) k = None \<or> map_of (ar_t2 p) k = None"
    using assms(1) by (auto simp: arc_proper_parts)
  show ?thesis
  proof (cases "map_of (ar_t1 p) k")
    case (Some c)
    then have b: "map_of (ar_t1 p) k = Some b" using assms(2) by (simp add: map_of_arc arc_get_def)
    then have "(k, b) \<in># mset (ar_t1 p)" by (auto dest: map_of_SomeD)
    moreover have "map_of (ar_t2 p) k = None" using x [of k] b by simp
    ultimately show ?thesis using d x mset_update [OF d(1) b, of b'] b
      by (auto simp: arc_write_def arc_proper_parts arc_entries_def)
  next
    case None
    then have b: "map_of (ar_t2 p) k = Some b" using assms(2) by (simp add: map_of_arc arc_get_def)
    then have "(k, b) \<in># mset (ar_t2 p)" by (auto dest: map_of_SomeD)
    then show ?thesis using d x mset_update [OF d(2) b, of b'] b None
      by (auto simp: arc_write_def arc_proper_parts arc_entries_def)
  qed
qed

interpretation arc: cache_policy arc_ops arc_proper arc_entries
proof
  fix p :: "'a arc_policy" and k and b b' :: block_status
  assume p: "arc_proper p"
  show "distinct (dkeys (arc_entries p))" using p by (simp add: arc_proper_def)
  show "po_get arc_ops p k = map_of (arc_entries p) k" by (simp add: arc_ops_def map_of_arc)
  show "arc_proper (po_touch arc_ops ks p) \<and> mset (arc_entries (po_touch arc_ops ks p)) = mset (arc_entries p)" for ks
    using arc_touch_proper [OF p] by (simp add: arc_ops_def)
  show "arc_proper (po_clear arc_ops p) \<and> arc_entries (po_clear arc_ops p) = []"
    by (simp add: arc_ops_def arc_clear_def arc_proper_def arc_entries_def)
  show "po_evict arc_ops n protected p = Inr None \<or>
      (\<exists>vs p'. po_evict arc_ops n protected p = Inr (Some (vs, p')) \<and> length vs = n \<and> arc_proper p' \<and>
         mset (arc_entries p) = mset vs + mset (arc_entries p') \<and>
         (\<forall>(k, b) \<in> set vs. bs_ref_cnt b = 0 \<and> k \<notin> set protected))" for n protected
    using arc_evict_law [OF p] by (simp add: arc_ops_def)
  show "arc_proper (po_insert arc_ops k b p) \<and>
      mset (arc_entries (po_insert arc_ops k b p)) = add_mset (k, b) (mset (arc_entries p))"
    if "k \<notin> set (dkeys (arc_entries p))"
    using p that by (auto simp: arc_ops_def arc_insert_def arc_proper_def arc_entries_def update_fresh)
  assume k: "map_of (arc_entries p) k = Some b"
  have d: "distinct (dkeys (ar_t1 p))" "distinct (dkeys (ar_t2 p))" using p by (auto simp: arc_proper_parts)
  show "\<exists>p'. po_remove arc_ops k p = Inr p' \<and> arc_proper p' \<and> mset (arc_entries p) = add_mset (k, b) (mset (arc_entries p'))"
    using p k mset_delete [OF d(1), of k b] mset_delete [OF d(2), of k b]
    by (auto simp: arc_ops_def arc_remove_def arc_proper_parts arc_entries_def map_add_def split: option.splits)
  show "arc_proper (po_write arc_ops k b' p) \<and>
      mset (arc_entries (po_write arc_ops k b' p)) = add_mset (k, b') (mset (arc_entries p) - {#(k, b)#})"
    "arc_proper (po_mark_evictable arc_ops k (po_write arc_ops k b' p)) \<and>
      mset (arc_entries (po_mark_evictable arc_ops k (po_write arc_ops k b' p))) = add_mset (k, b') (mset (arc_entries p) - {#(k, b)#})"
    "\<exists>p'. po_mark_non_evictable arc_ops k p = Inr p' \<and> arc_proper (po_write arc_ops k b' p') \<and>
      mset (arc_entries (po_write arc_ops k b' p')) = add_mset (k, b') (mset (arc_entries p) - {#(k, b)#})"
    using arc_write_step [OF p k] by (simp_all add: arc_ops_def)
qed (simp_all add: arc_ops_def arc_new_def arc_proper_def arc_entries_def)

end
