(* ===== verification/CpuOffload.thy ===== *)
theory CpuOffload
  imports OffloadPolicy BlockHash
begin

text \<open>
  \<open>CPUOffloadingManager\<close> of \<^verbatim>\<open>vllm/v1/kv_offload/cpu/manager.py\<close>: which blocks are kept in CPU memory,
  in which slots, and which of them transfers are reading or writing.  The policy class is an
  argument; the lemmas are proved once for every class that keeps the laws of \<open>cache_policy\<close>.
\<close>

declare map_of_eq_Some_iff [simp del] split_paired_All [simp del] split_paired_Ex [simp del]

section \<open>Keys\<close>

text \<open>The key of an offloaded block is packed as the key of a cached block is.\<close>

definition make_offload_key :: "bytes \<Rightarrow> int \<Rightarrow> bytes res" where
  "make_offload_key block_hash group_idx =
     rbind (to_bytes_4 group_idx) (\<lambda>suffix. Inr (block_hash @ suffix))"

definition get_offload_block_hash :: "bytes \<Rightarrow> bytes" where
  "get_offload_block_hash key = py_slice 0 (- 4) key"

definition get_offload_group_idx :: "bytes \<Rightarrow> int" where
  "get_offload_group_idx key = from_bytes (py_slice_from (- 4) key)"

section \<open>The manager\<close>

record 'k offload_event =
  oe_keys :: "'k list"
  oe_removed :: bool

record 'k prepare_store_output =
  ps_keys_to_store :: "'k list"
  ps_store_spec :: "int list"
  ps_evicted_keys :: "'k list"

record ('k, 'p) offload_manager =
  om_num_blocks :: nat
  om_num_allocated_blocks :: int
  om_free_list :: "int list"
  om_events :: "'k offload_event list option"
  om_policy :: 'p
  om_num_evictable_cache_blocks :: int
  om_store_threshold :: int
  om_max_tracker_size :: int
  om_stores_skipped_in_current_batch :: int
  om_counts :: "('k, int) dict option"

text \<open>The policy by its name.\<close>

datatype cache_policy_class = LRUCachePolicy | ARCCachePolicy

definition cache_policy_class_of :: "string \<Rightarrow> cache_policy_class res" where
  "cache_policy_class_of policy_name =
     (if policy_name = ''lru'' then Inr LRUCachePolicy
      else if policy_name = ''arc'' then Inr ARCCachePolicy
      else Inl ValueError)"

definition new_offload_manager ::
  "('k, 'p) policy_ops \<Rightarrow> nat \<Rightarrow> bool \<Rightarrow> int \<Rightarrow> int \<Rightarrow> ('k, 'p) offload_manager" where
  "new_offload_manager ops num_blocks enable_events store_threshold max_tracker_size =
     \<lparr>om_num_blocks = num_blocks, om_num_allocated_blocks = 0, om_free_list = [],
      om_events = (if enable_events then Some [] else None), om_policy = po_new ops num_blocks,
      om_num_evictable_cache_blocks = 0, om_store_threshold = store_threshold,
      om_max_tracker_size = max_tracker_size, om_stores_skipped_in_current_batch = 0,
      om_counts = (if store_threshold \<ge> 2 then Some [] else None)\<rparr>"

definition om_get_num_free_blocks :: "('k, 'p) offload_manager \<Rightarrow> int" where
  "om_get_num_free_blocks m = int (length (om_free_list m)) + int (om_num_blocks m) - om_num_allocated_blocks m"

text \<open>New slots first, then slots from the end of the free list.\<close>

definition allocate_slots_for :: "nat \<Rightarrow> ('k, 'p) offload_manager \<Rightarrow> (block_status list \<times> ('k, 'p) offload_manager) res" where
  "allocate_slots_for num_keys m =
     (let num_fresh = min (int num_keys) (int (om_num_blocks m) - om_num_allocated_blocks m);
          num_reused = int num_keys - num_fresh
      in rbind (check (int (length (om_free_list m)) \<ge> num_reused) AssertionError) (\<lambda>_.
         let fresh = [om_num_allocated_blocks m .. om_num_allocated_blocks m + num_fresh - 1];
             reused = take (nat num_reused) (rev (om_free_list m))
         in Inr (map new_block_status (fresh @ reused),
                 m\<lparr>om_num_allocated_blocks := om_num_allocated_blocks m + int (length fresh),
                   om_free_list := take (length (om_free_list m) - nat num_reused) (om_free_list m)\<rparr>)))"

definition count_lookup :: "'k \<Rightarrow> ('k, 'p) offload_manager \<Rightarrow> ('k, 'p) offload_manager res" where
  "count_lookup key m =
     (case om_counts m of
        None \<Rightarrow> Inr m
      | Some counts \<Rightarrow>
          (case map_of counts key of
             Some n \<Rightarrow> Inr (m\<lparr>om_counts := Some (AList.delete key counts @ [(key, n + 1)])\<rparr>)
           | None \<Rightarrow>
               if int (length counts) \<ge> om_max_tracker_size m
               then if counts = [] then Inl KeyError
                    else Inr (m\<lparr>om_counts := Some (tl counts @ [(key, 1)])\<rparr>)
               else Inr (m\<lparr>om_counts := Some (counts @ [(key, 1)])\<rparr>)))"

text \<open>\<open>None\<close>: the write is in flight.\<close>

definition om_lookup ::
  "('k, 'p) policy_ops \<Rightarrow> 'k \<Rightarrow> ('k, 'p) offload_manager \<Rightarrow> (bool option \<times> ('k, 'p) offload_manager) res" where
  "om_lookup ops key m =
     rbind (count_lookup key m) (\<lambda>m1.
     Inr (case po_get ops (om_policy m1) key of
            None \<Rightarrow> Some False
          | Some b \<Rightarrow> if is_ready b then Some True else None, m1))"

definition load_one ::
  "('k, 'p) policy_ops \<Rightarrow> 'k \<Rightarrow> int list \<times> ('k, 'p) offload_manager \<Rightarrow> (int list \<times> ('k, 'p) offload_manager) res" where
  "load_one ops key st =
     (case st of (blocks, m) \<Rightarrow>
      case po_get ops (om_policy m) key of
        None \<Rightarrow> Inl AssertionError
      | Some b \<Rightarrow>
          rbind (check (is_ready b) AssertionError) (\<lambda>_.
          rbind (if bs_ref_cnt b = 0
                 then rbind (po_mark_non_evictable ops key (om_policy m)) (\<lambda>p.
                      rbind (check (om_num_evictable_cache_blocks m - 1 \<ge> 0) AssertionError) (\<lambda>_.
                      Inr (m\<lparr>om_policy := p,
                             om_num_evictable_cache_blocks := om_num_evictable_cache_blocks m - 1\<rparr>)))
                 else Inr m) (\<lambda>m1.
          Inr (blocks @ [bs_block_id b],
               m1\<lparr>om_policy := po_write ops key (b\<lparr>bs_ref_cnt := bs_ref_cnt b + 1\<rparr>) (om_policy m1)\<rparr>))))"

definition prepare_load ::
  "('k, 'p) policy_ops \<Rightarrow> 'k list \<Rightarrow> ('k, 'p) offload_manager \<Rightarrow> (int list \<times> ('k, 'p) offload_manager) res" where
  "prepare_load ops keys m = rfold (load_one ops) keys ([], m)"

definition om_touch :: "('k, 'p) policy_ops \<Rightarrow> 'k list \<Rightarrow> ('k, 'p) offload_manager \<Rightarrow> ('k, 'p) offload_manager" where
  "om_touch ops keys m = m\<lparr>om_policy := po_touch ops keys (om_policy m)\<rparr>"

definition complete_load_one ::
  "('k, 'p) policy_ops \<Rightarrow> 'k \<Rightarrow> ('k, 'p) offload_manager \<Rightarrow> ('k, 'p) offload_manager res" where
  "complete_load_one ops key m =
     (case po_get ops (om_policy m) key of
        None \<Rightarrow> Inl AssertionError
      | Some b \<Rightarrow>
          rbind (check (bs_ref_cnt b > 0) AssertionError) (\<lambda>_.
          let b' = b\<lparr>bs_ref_cnt := bs_ref_cnt b - 1\<rparr>; p = po_write ops key b' (om_policy m)
          in Inr (if bs_ref_cnt b' = 0
                  then m\<lparr>om_policy := po_mark_evictable ops key p,
                         om_num_evictable_cache_blocks := om_num_evictable_cache_blocks m + 1\<rparr>
                  else m\<lparr>om_policy := p\<rparr>)))"

definition complete_load ::
  "('k, 'p) policy_ops \<Rightarrow> 'k list \<Rightarrow> ('k, 'p) offload_manager \<Rightarrow> ('k, 'p) offload_manager res" where
  "complete_load ops keys m = rfold (complete_load_one ops) keys m"

definition add_event :: "'k list \<Rightarrow> bool \<Rightarrow> ('k, 'p) offload_manager \<Rightarrow> ('k, 'p) offload_manager" where
  "add_event keys removed m =
     (if keys = [] then m
      else m\<lparr>om_events := map_option (\<lambda>es. es @ [\<lparr>oe_keys = keys, oe_removed = removed\<rparr>]) (om_events m)\<rparr>)"

text \<open>The keys that were asked for often enough, and how many were not.\<close>

definition filter_by_count :: "'k list \<Rightarrow> ('k, 'p) offload_manager \<Rightarrow> 'k list \<times> ('k, 'p) offload_manager" where
  "filter_by_count keys m =
     (case om_counts m of
        None \<Rightarrow> (keys, m)
      | Some counts \<Rightarrow>
          let keys' = filter (\<lambda>k. (case map_of counts k of Some n \<Rightarrow> n | None \<Rightarrow> 0) \<ge> om_store_threshold m) keys
          in (keys', m\<lparr>om_stores_skipped_in_current_batch :=
                        om_stores_skipped_in_current_batch m + int (length keys) - int (length keys')\<rparr>))"

text \<open>Making room: \<open>None\<close> if it fails, else the evicted keys.\<close>

definition make_room ::
  "('k, 'p) policy_ops \<Rightarrow> int \<Rightarrow> 'k list \<Rightarrow> ('k, 'p) offload_manager \<Rightarrow> ('k list \<times> ('k, 'p) offload_manager) option res" where
  "make_room ops num_blocks_to_evict protected m =
     (if num_blocks_to_evict \<le> 0 then Inr (Some ([], m))
      else if num_blocks_to_evict > om_num_evictable_cache_blocks m then Inr None
      else rbind (po_evict ops (nat num_blocks_to_evict) protected (om_policy m)) (\<lambda>r.
        case r of
          None \<Rightarrow> Inr None
        | Some (evicted, p) \<Rightarrow>
            let n = om_num_evictable_cache_blocks m - int (length evicted) in
            rbind (check (n \<ge> 0) AssertionError) (\<lambda>_.
            Inr (Some (map fst evicted,
                 m\<lparr>om_policy := p, om_num_evictable_cache_blocks := n,
                   om_free_list := om_free_list m @ map (bs_block_id \<circ> snd) evicted\<rparr>)))))"

definition insert_blocks ::
  "('k, 'p) policy_ops \<Rightarrow> ('k \<times> block_status) list \<Rightarrow> ('k, 'p) offload_manager \<Rightarrow> ('k, 'p) offload_manager" where
  "insert_blocks ops kbs m = m\<lparr>om_policy := fold (\<lambda>(k, b). po_insert ops k b) kbs (om_policy m)\<rparr>"

definition prepare_store ::
  "('k, 'p) policy_ops \<Rightarrow> 'k list \<Rightarrow> ('k, 'p) offload_manager
     \<Rightarrow> ('k prepare_store_output option \<times> ('k, 'p) offload_manager) res" where
  "prepare_store ops keys0 m0 =
     (let (keys, m) = filter_by_count keys0 m0;
          keys_to_store = filter (\<lambda>k. po_get ops (om_policy m) k = None) keys
      in if keys_to_store = []
         then Inr (Some \<lparr>ps_keys_to_store = [], ps_store_spec = [], ps_evicted_keys = []\<rparr>, m)
         else rbind (make_room ops (int (length keys_to_store) - om_get_num_free_blocks m) keys m) (\<lambda>r.
           case r of
             None \<Rightarrow> Inr (None, m)
           | Some (to_evict, m1) \<Rightarrow>
               let m2 = add_event to_evict True m1 in
               rbind (allocate_slots_for (length keys_to_store) m2) (\<lambda>(blocks, m3).
               rbind (check (length blocks = length keys_to_store) AssertionError) (\<lambda>_.
               Inr (Some \<lparr>ps_keys_to_store = keys_to_store, ps_store_spec = map bs_block_id blocks,
                          ps_evicted_keys = to_evict\<rparr>,
                    insert_blocks ops (zip keys_to_store blocks) m3)))))"

definition finish_store_one ::
  "('k, 'p) policy_ops \<Rightarrow> 'k \<Rightarrow> 'k list \<times> ('k, 'p) offload_manager \<Rightarrow> 'k list \<times> ('k, 'p) offload_manager" where
  "finish_store_one ops key st =
     (case st of (stored_keys, m) \<Rightarrow>
      case po_get ops (om_policy m) key of
        None \<Rightarrow> (stored_keys, m)
      | Some b \<Rightarrow>
          if is_ready b then (stored_keys, m)
          else (stored_keys @ [key],
                m\<lparr>om_policy := po_mark_evictable ops key (po_write ops key (b\<lparr>bs_ref_cnt := 0\<rparr>) (om_policy m)),
                  om_num_evictable_cache_blocks := om_num_evictable_cache_blocks m + 1\<rparr>))"

definition abandon_store_one ::
  "('k, 'p) policy_ops \<Rightarrow> 'k \<Rightarrow> ('k, 'p) offload_manager \<Rightarrow> ('k, 'p) offload_manager res" where
  "abandon_store_one ops key m =
     (case po_get ops (om_policy m) key of
        None \<Rightarrow> Inr m
      | Some b \<Rightarrow>
          if is_ready b then Inr m
          else rbind (po_remove ops key (om_policy m)) (\<lambda>p.
               Inr (m\<lparr>om_policy := p, om_free_list := om_free_list m @ [bs_block_id b]\<rparr>)))"

definition complete_store ::
  "('k, 'p) policy_ops \<Rightarrow> 'k list \<Rightarrow> bool \<Rightarrow> ('k, 'p) offload_manager \<Rightarrow> ('k, 'p) offload_manager res" where
  "complete_store ops keys success m =
     (if success
      then let (stored_keys, m1) = fold (finish_store_one ops) keys ([], m)
           in Inr (add_event stored_keys False m1)
      else rfold (abandon_store_one ops) keys m)"

definition om_reset_cache :: "('k, 'p) policy_ops \<Rightarrow> ('k, 'p) offload_manager \<Rightarrow> ('k, 'p) offload_manager" where
  "om_reset_cache ops m =
     m\<lparr>om_policy := po_clear ops (om_policy m), om_num_evictable_cache_blocks := 0, om_free_list := [],
       om_num_allocated_blocks := 0\<rparr>"

definition om_take_events :: "('k, 'p) offload_manager \<Rightarrow> 'k offload_event list \<times> ('k, 'p) offload_manager" where
  "om_take_events m =
     (case om_events m of None \<Rightarrow> ([], m) | Some es \<Rightarrow> (es, m\<lparr>om_events := Some []\<rparr>))"

text \<open>The usage gauge and, if lookups are counted, the number of skipped stores.\<close>

definition om_get_stats :: "('k, 'p) offload_manager \<Rightarrow> (rat \<times> int option) \<times> ('k, 'p) offload_manager" where
  "om_get_stats m =
     (let num_used = om_num_allocated_blocks m - int (length (om_free_list m)) - om_num_evictable_cache_blocks m;
          usage = (if om_num_blocks m > 0 then of_int num_used / of_nat (om_num_blocks m) else 0)
      in if om_store_threshold m \<ge> 2
         then ((usage, Some (om_stores_skipped_in_current_batch m)), m\<lparr>om_stores_skipped_in_current_batch := 0\<rparr>)
         else ((usage, None), m))"

section \<open>Slots are never shared\<close>

text \<open>Every slot handed out so far is either free or holds one cached block, slots beyond the capacity are
  not handed out, and the counter of evictable blocks is right.\<close>

definition offload_inv ::
  "('p \<Rightarrow> bool) \<Rightarrow> ('p \<Rightarrow> ('k, block_status) dict) \<Rightarrow> ('k, 'p) offload_manager \<Rightarrow> bool" where
  "offload_inv proper entries m \<longleftrightarrow>
     proper (om_policy m) \<and> 0 \<le> om_num_allocated_blocks m \<and> om_num_allocated_blocks m \<le> int (om_num_blocks m) \<and>
     image_mset (bs_block_id \<circ> snd) (mset (entries (om_policy m))) + mset (om_free_list m) =
       mset [0..om_num_allocated_blocks m - 1] \<and>
     (\<forall>x \<in># mset (entries (om_policy m)). - 1 \<le> bs_ref_cnt (snd x)) \<and>
     om_num_evictable_cache_blocks m = int (size (filter_mset (\<lambda>x. bs_ref_cnt (snd x) = 0) (mset (entries (om_policy m)))))"

lemma item_of_map: "map_of d k = Some b \<Longrightarrow> (k, b) \<in># mset d"
  by (simp add: map_of_SomeD)

text \<open>One block changes its reference count.\<close>

lemma inv_recount:
  assumes inv: "offload_inv proper entries m" and k: "map_of (entries (om_policy m)) k = Some b"
    and p: "proper p" "mset (entries p) = add_mset (k, b') (mset (entries (om_policy m)) - {#(k, b)#})"
    and b': "bs_block_id b' = bs_block_id b" "- 1 \<le> bs_ref_cnt b'"
    and n: "n = om_num_evictable_cache_blocks m - (if bs_ref_cnt b = 0 then 1 else 0) + (if bs_ref_cnt b' = 0 then 1 else 0)"
  shows "offload_inv proper entries (m\<lparr>om_policy := p, om_num_evictable_cache_blocks := n\<rparr>)"
proof -
  obtain M where M: "mset (entries (om_policy m)) = add_mset (k, b) M"
    using item_of_map [OF k] by (metis insert_DiffM)
  then have "mset (entries p) = add_mset (k, b') M" using p(2) by simp
  then show ?thesis using inv p(1) b' n by (auto simp: offload_inv_def M)
qed

lemma inv_recount_swapped:
  "offload_inv proper entries (m\<lparr>om_policy := p, om_num_evictable_cache_blocks := n\<rparr>) \<Longrightarrow>
   offload_inv proper entries (m\<lparr>om_num_evictable_cache_blocks := n, om_policy := p\<rparr>)"
  "offload_inv proper entries (m\<lparr>om_policy := p, om_num_evictable_cache_blocks := om_num_evictable_cache_blocks m\<rparr>) \<Longrightarrow>
   offload_inv proper entries (m\<lparr>om_policy := p\<rparr>)"
  by (simp_all add: offload_inv_def)

lemma evictable_nonneg: "offload_inv proper entries m \<Longrightarrow> 0 \<le> om_num_evictable_cache_blocks m"
  by (simp add: offload_inv_def)

lemma evictable_positive:
  assumes "offload_inv proper entries m" "map_of (entries (om_policy m)) k = Some b" "bs_ref_cnt b = 0"
  shows "1 \<le> om_num_evictable_cache_blocks m"
proof -
  obtain M where "mset (entries (om_policy m)) = add_mset (k, b) M"
    using item_of_map [OF assms(2)] by (metis insert_DiffM)
  then show ?thesis using assms by (simp add: offload_inv_def)
qed

lemma inv_capacity:
  assumes "offload_inv proper entries m"
  shows "int (length (entries (om_policy m))) + om_get_num_free_blocks m = int (om_num_blocks m)"
proof -
  have "size (image_mset (bs_block_id \<circ> snd) (mset (entries (om_policy m))) + mset (om_free_list m)) =
      length [0..om_num_allocated_blocks m - 1]"
    using assms by (simp only: offload_inv_def size_mset)
  then have "int (length (entries (om_policy m)) + length (om_free_list m)) = int (nat (om_num_allocated_blocks m))" by simp
  moreover have "0 \<le> om_num_allocated_blocks m" using assms by (simp add: offload_inv_def)
  ultimately show ?thesis by (simp add: om_get_num_free_blocks_def)
qed

lemma inv_other [simp]:
  "offload_inv proper entries (m\<lparr>om_counts := c\<rparr>) = offload_inv proper entries m"
  "offload_inv proper entries (m\<lparr>om_events := e\<rparr>) = offload_inv proper entries m"
  "offload_inv proper entries (m\<lparr>om_stores_skipped_in_current_batch := s\<rparr>) = offload_inv proper entries m"
  by (simp_all add: offload_inv_def)

lemma inv_add_event [simp]: "offload_inv proper entries (add_event keys r m) = offload_inv proper entries m"
  by (simp add: add_event_def)

lemma add_event_fields [simp]:
  "om_policy (add_event keys r m) = om_policy m" "om_free_list (add_event keys r m) = om_free_list m"
  "om_num_blocks (add_event keys r m) = om_num_blocks m"
  "om_num_allocated_blocks (add_event keys r m) = om_num_allocated_blocks m"
  by (simp_all add: add_event_def)

lemma filter_by_count_inv:
  assumes "filter_by_count keys m = (keys', m')"
  shows "offload_inv proper entries m' = offload_inv proper entries m" "om_policy m' = om_policy m"
    "set keys' \<subseteq> set keys" "distinct keys \<Longrightarrow> distinct keys'"
  using assms by (auto simp: filter_by_count_def Let_def split: option.splits)

context cache_policy
begin

abbreviation inv :: "('k, 'p) offload_manager \<Rightarrow> bool" where
  "inv \<equiv> offload_inv proper entries"

lemma inv_proper: "inv m \<Longrightarrow> proper (om_policy m)"
  by (simp add: offload_inv_def)

lemma inv_get: "inv m \<Longrightarrow> po_get ops (om_policy m) k = map_of (entries (om_policy m)) k"
  by (simp add: get_law inv_proper)

lemma inv_ref: "inv m \<Longrightarrow> map_of (entries (om_policy m)) k = Some b \<Longrightarrow> - 1 \<le> bs_ref_cnt b"
  using item_of_map by (fastforce simp: offload_inv_def)

lemma inv_new: "inv (new_offload_manager ops n e t s)"
  using new_law [of n] by (simp add: offload_inv_def new_offload_manager_def)

lemma inv_lookup: "inv m \<Longrightarrow> om_lookup ops key m = Inr (r, m') \<Longrightarrow> inv m'"
  by (auto simp: om_lookup_def count_lookup_def res_simps split: option.splits if_splits)

lemma inv_touch: "inv m \<Longrightarrow> inv (om_touch ops keys m)"
  using touch_law [of "om_policy m" keys] by (simp add: offload_inv_def om_touch_def)

lemma inv_reset: "inv m \<Longrightarrow> inv (om_reset_cache ops m)"
  using clear_law [of "om_policy m"] by (simp add: offload_inv_def om_reset_cache_def)

text \<open>A load: it raises only for a block that is missing or not ready; the block becomes busy.\<close>

lemma inv_load_one:
  assumes "inv m" "map_of (entries (om_policy m)) key = Some b" "is_ready b"
  shows "\<exists>m'. load_one ops key (ids, m) = Inr (ids @ [bs_block_id b], m') \<and> inv m' \<and>
    mset (entries (om_policy m')) =
      add_mset (key, b\<lparr>bs_ref_cnt := bs_ref_cnt b + 1\<rparr>) (mset (entries (om_policy m)) - {#(key, b)#})"
proof (cases "bs_ref_cnt b = 0")
  case True
  obtain p where p: "po_mark_non_evictable ops key (om_policy m) = Inr p"
    "proper (po_write ops key (b\<lparr>bs_ref_cnt := bs_ref_cnt b + 1\<rparr>) p)"
    "mset (entries (po_write ops key (b\<lparr>bs_ref_cnt := bs_ref_cnt b + 1\<rparr>) p)) =
      add_mset (key, b\<lparr>bs_ref_cnt := bs_ref_cnt b + 1\<rparr>) (mset (entries (om_policy m)) - {#(key, b)#})"
    using acquire_law [OF inv_proper [OF assms(1)] assms(2) True, of "b\<lparr>bs_ref_cnt := bs_ref_cnt b + 1\<rparr>"] True by auto
  have "inv (m\<lparr>om_policy := po_write ops key (b\<lparr>bs_ref_cnt := bs_ref_cnt b + 1\<rparr>) p,
      om_num_evictable_cache_blocks := om_num_evictable_cache_blocks m - 1\<rparr>)"
    by (rule inv_recount [OF assms(1,2) p(2,3)]) (use True in simp_all)
  note inv_recount_swapped(1) [OF this]
  then show ?thesis
    using p evictable_positive [OF assms(1,2) True] True assms(2,3) inv_get [OF assms(1)]
    by (simp add: load_one_def)
next
  case False
  then have pos: "0 < bs_ref_cnt b" using assms(3) by (simp add: is_ready_def)
  have p: "proper (po_write ops key (b\<lparr>bs_ref_cnt := bs_ref_cnt b + 1\<rparr>) (om_policy m)) \<and>
    mset (entries (po_write ops key (b\<lparr>bs_ref_cnt := bs_ref_cnt b + 1\<rparr>) (om_policy m))) =
      add_mset (key, b\<lparr>bs_ref_cnt := bs_ref_cnt b + 1\<rparr>) (mset (entries (om_policy m)) - {#(key, b)#})"
    by (rule busy_law [OF inv_proper [OF assms(1)] assms(2)]) (use pos in simp_all)
  have "inv (m\<lparr>om_policy := po_write ops key (b\<lparr>bs_ref_cnt := bs_ref_cnt b + 1\<rparr>) (om_policy m),
      om_num_evictable_cache_blocks := om_num_evictable_cache_blocks m\<rparr>)"
    by (rule inv_recount [OF assms(1,2) p [THEN conjunct1] p [THEN conjunct2]]) (use pos in simp_all)
  note inv_recount_swapped(2) [OF this]
  then show ?thesis using p False assms(2,3) inv_get [OF assms(1)] by (simp add: load_one_def)
qed

lemma inv_load:
  assumes "rfold (load_one ops) keys (ids, m) = Inr (ids', m')" "inv m" shows "inv m'"
  using assms
proof (induction keys arbitrary: ids m)
  case (Cons key keys)
  obtain ids1 m1 where one: "load_one ops key (ids, m) = Inr (ids1, m1)" and rest: "rfold (load_one ops) keys (ids1, m1) = Inr (ids', m')"
    using Cons.prems(1) by (auto simp: res_simps)
  obtain b where "map_of (entries (om_policy m)) key = Some b" "is_ready b"
    using one inv_get [OF Cons.prems(2)] by (auto simp: load_one_def res_simps split: option.splits)
  from inv_load_one [OF Cons.prems(2) this, of ids] have "inv m1" using one by auto
  then show ?case using Cons.IH [OF rest] by simp
qed simp

lemma inv_complete_load_one:
  assumes "complete_load_one ops key m = Inr m'" "inv m" shows "inv m'"
proof -
  obtain b where b: "map_of (entries (om_policy m)) key = Some b" "0 < bs_ref_cnt b"
    using assms inv_get [OF assms(2)] by (auto simp: complete_load_one_def res_simps split: option.splits)
  let ?b = "b\<lparr>bs_ref_cnt := bs_ref_cnt b - 1\<rparr>" and ?p = "po_write ops key (b\<lparr>bs_ref_cnt := bs_ref_cnt b - 1\<rparr>) (om_policy m)"
  have m': "m' = (if bs_ref_cnt ?b = 0
      then m\<lparr>om_policy := po_mark_evictable ops key ?p, om_num_evictable_cache_blocks := om_num_evictable_cache_blocks m + 1\<rparr>
      else m\<lparr>om_policy := ?p, om_num_evictable_cache_blocks := om_num_evictable_cache_blocks m\<rparr>)"
    using assms b inv_get [OF assms(2)] by (auto simp: complete_load_one_def Let_def res_simps)
  show ?thesis
  proof (cases "bs_ref_cnt ?b = 0")
    case True
    have p: "proper (po_mark_evictable ops key ?p) \<and>
      mset (entries (po_mark_evictable ops key ?p)) = add_mset (key, ?b) (mset (entries (om_policy m)) - {#(key, b)#})"
      by (rule idle_law [OF inv_proper [OF assms(2)] b(1) _ True]) (use b in simp)
    show ?thesis unfolding m' if_P [OF True]
      by (rule inv_recount [OF assms(2) b(1) p [THEN conjunct1] p [THEN conjunct2]]) (use True b in simp_all)
  next
    case False
    have p: "proper ?p \<and> mset (entries ?p) = add_mset (key, ?b) (mset (entries (om_policy m)) - {#(key, b)#})"
      by (rule busy_law [OF inv_proper [OF assms(2)] b(1) _ False]) (use b in simp)
    show ?thesis unfolding m' if_not_P [OF False]
      by (rule inv_recount [OF assms(2) b(1) p [THEN conjunct1] p [THEN conjunct2]]) (use False b in simp_all)
  qed
qed

lemma inv_complete_load: "complete_load ops keys m = Inr m' \<Longrightarrow> inv m \<Longrightarrow> inv m'"
  unfolding complete_load_def by (erule rfold_inv [where P = inv]) (auto intro: inv_complete_load_one)


text \<open>A store makes room, takes slots and inserts its blocks.\<close>

lemma inv_make_room:
  assumes "inv m"
  shows "make_room ops n protected m = Inr None \<or>
    (\<exists>evicted m'. make_room ops n protected m = Inr (Some (map fst evicted, m')) \<and> inv m' \<and>
       mset (entries (om_policy m)) = mset evicted + mset (entries (om_policy m')) \<and>
       (\<forall>(k, b) \<in> set evicted. bs_ref_cnt b = 0 \<and> k \<notin> set protected) \<and>
       om_num_blocks m' = om_num_blocks m \<and> n \<le> int (length evicted))"
proof (cases "n \<le> 0")
  case True
  then show ?thesis using assms by (auto simp: make_room_def intro!: exI [of _ "[]"])
next
  case False
  consider "po_evict ops (nat n) protected (om_policy m) = Inr None"
    | vs p where "po_evict ops (nat n) protected (om_policy m) = Inr (Some (vs, p))" "length vs = nat n" "proper p"
      "mset (entries (om_policy m)) = mset vs + mset (entries p)" "\<forall>(k, b) \<in> set vs. bs_ref_cnt b = 0 \<and> k \<notin> set protected"
    using evict_law [OF inv_proper [OF assms], of "nat n" protected] by blast
  then show ?thesis
  proof cases
    case 1
    then show ?thesis using False by (simp add: make_room_def)
  next
    case 2
    have idle: "filter_mset (\<lambda>x. bs_ref_cnt (snd x) = 0) (mset vs) = mset vs"
      using 2(5) by (auto simp: filter_mset_eq_conv)
    let ?m = "m\<lparr>om_policy := p, om_num_evictable_cache_blocks := om_num_evictable_cache_blocks m - int (length vs),
      om_free_list := om_free_list m @ map (bs_block_id \<circ> snd) vs\<rparr>"
    have "inv ?m" using assms 2(3,4) idle by (auto simp: offload_inv_def ac_simps)
    moreover have "int (length vs) \<le> om_num_evictable_cache_blocks m"
      using assms 2(4) idle by (simp add: offload_inv_def)
    ultimately have "n > om_num_evictable_cache_blocks m \<or> make_room ops n protected m = Inr (Some (map fst vs, ?m))"
      using False 2(1) by (simp add: make_room_def Let_def)
    then show ?thesis
      using False \<open>inv ?m\<close> 2(2,4,5) by (auto simp: make_room_def intro!: exI [of _ vs])
  qed
qed

lemma inv_insert_blocks:
  assumes "proper p" "distinct (map fst kbs @ dkeys (entries p))" "\<forall>(k, b) \<in> set kbs. bs_ref_cnt b = - 1"
  shows "proper (fold (\<lambda>(k, b). po_insert ops k b) kbs p) \<and>
    mset (entries (fold (\<lambda>(k, b). po_insert ops k b) kbs p)) = mset kbs + mset (entries p)"
  using assms
proof (induction kbs arbitrary: p)
  case (Cons x kbs)
  obtain k b where x: "x = (k, b)" by (cases x)
  have one: "proper (po_insert ops k b p)" "mset (entries (po_insert ops k b p)) = add_mset (k, b) (mset (entries p))"
    using insert_law [of p k b] Cons.prems x by auto
  have keys: "mset (dkeys (entries (po_insert ops k b p))) = add_mset k (mset (dkeys (entries p)))"
    using arg_cong [OF one(2), of "image_mset fst"] by simp
  then have "set (dkeys (entries (po_insert ops k b p))) = insert k (set (dkeys (entries p)))"
    by (metis set_mset_add_mset_insert set_mset_mset)
  then have "distinct (map fst kbs @ dkeys (entries (po_insert ops k b p)))"
    using Cons.prems distinct_law [OF one(1)] x by auto
  from Cons.IH [OF one(1) this] show ?case using Cons.prems x one(2) by auto
qed simp

end

text \<open>Slots are taken from beyond the last one handed out, then from the free list.\<close>

lemma inv_allocate_slots:
  assumes inv: "offload_inv proper entries m" and room: "int n \<le> om_get_num_free_blocks m"
  shows "\<exists>ids m'. allocate_slots_for n m = Inr (map new_block_status ids, m') \<and> length ids = n \<and>
    om_policy m' = om_policy m \<and> om_num_blocks m' = om_num_blocks m \<and>
    om_num_evictable_cache_blocks m' = om_num_evictable_cache_blocks m \<and>
    0 \<le> om_num_allocated_blocks m' \<and> om_num_allocated_blocks m' \<le> int (om_num_blocks m') \<and>
    mset ids + image_mset (bs_block_id \<circ> snd) (mset (entries (om_policy m))) + mset (om_free_list m') =
      mset [0..om_num_allocated_blocks m' - 1]"
proof -
  define a where "a = om_num_allocated_blocks m"
  define fresh where "fresh = min (int n) (int (om_num_blocks m) - a)"
  define r where "r = nat (int n - fresh)"
  define free where "free = om_free_list m"
  have a: "0 \<le> a" "a \<le> int (om_num_blocks m)" using inv by (auto simp: offload_inv_def a_def)
  have r: "r \<le> length free" using room a by (auto simp: om_get_num_free_blocks_def a_def fresh_def r_def free_def)
  have f: "0 \<le> fresh" "fresh \<le> int n" "a + fresh \<le> int (om_num_blocks m)" using a by (auto simp: fresh_def)
  have cond: "int n - fresh \<le> int (length free)" using r f by (auto simp: r_def)
  have split: "mset free = mset (take (length free - r) free) + mset (take r (rev free))"
    by (metis append_take_drop_id mset_append mset_rev rev_take rev_rev_ident take_rev)
  have "[0..a - 1] @ [a..a + fresh - 1] = [0..a + fresh - 1]"
    using a f upto_split1 [of 0 a "a + fresh - 1"] upto_split2 [of 0 "a - 1" "a + fresh - 1"] by (cases "fresh = 0") auto
  then have "mset [0..a + fresh - 1] = mset [0..a - 1] + mset [a..a + fresh - 1]" by (metis mset_append)
  then have ids: "mset ([a..a + fresh - 1] @ take r (rev free)) +
      image_mset (bs_block_id \<circ> snd) (mset (entries (om_policy m))) + mset (take (length free - r) free) =
      mset [0..a + fresh - 1]"
    using inv split by (simp add: offload_inv_def a_def free_def ac_simps)
  let ?m = "m\<lparr>om_num_allocated_blocks := a + fresh, om_free_list := take (length free - r) free\<rparr>"
  have "allocate_slots_for n m = Inr (map new_block_status ([a..a + fresh - 1] @ take r (rev free)), ?m)"
    using f cond by (simp add: allocate_slots_for_def Let_def flip: a_def free_def fresh_def r_def)
  moreover have "length ([a..a + fresh - 1] @ take r (rev free)) = n" using r f by (auto simp: r_def)
  ultimately show ?thesis using ids f a by fastforce
qed

lemma filter_by_count_num_blocks: "filter_by_count keys m = (keys', m') \<Longrightarrow> om_num_blocks m' = om_num_blocks m"
  by (auto simp: filter_by_count_def Let_def split: option.splits)

text \<open>What a store that was accepted has done: it removed idle blocks, none of them asked for, and put the
  new blocks, with the write in flight, in slots of their own.\<close>

definition stored_as ::
  "('k, 'p) policy_ops \<Rightarrow> 'k list \<Rightarrow> ('k, 'p) offload_manager \<Rightarrow> 'k prepare_store_output \<Rightarrow> ('k, 'p) offload_manager \<Rightarrow> bool" where
  "stored_as ops keys m out m' \<longleftrightarrow>
     set (ps_keys_to_store out) \<subseteq> {k \<in> set keys. po_get ops (om_policy m) k = None} \<and>
     distinct (ps_keys_to_store out) \<and>
     length (ps_store_spec out) = length (ps_keys_to_store out) \<and> distinct (ps_store_spec out) \<and>
     set (ps_store_spec out) \<subseteq> {0..<int (om_num_blocks m)} \<and>
     (\<forall>k \<in> set (ps_evicted_keys out). k \<notin> set (fst (filter_by_count keys m)) \<and>
        (\<exists>b. po_get ops (om_policy m) k = Some b \<and> bs_ref_cnt b = 0)) \<and>
     (\<forall>k. po_get ops (om_policy m') k =
        (case map_of (zip (ps_keys_to_store out) (ps_store_spec out)) k of
           Some slot \<Rightarrow> Some (new_block_status slot)
         | None \<Rightarrow> if k \<in> set (ps_evicted_keys out) then None else po_get ops (om_policy m) k)) \<and>
     (\<forall>k b. po_get ops (om_policy m) k = Some b \<and> k \<notin> set (ps_evicted_keys out) \<longrightarrow>
        bs_block_id b \<notin> set (ps_store_spec out))"

lemma map_of_zip_status:
  "map_of (zip ks (map new_block_status ids)) k = map_option new_block_status (map_of (zip ks ids) k)"
  by (induction ks ids rule: list_induct2') simp_all

context cache_policy
begin

text \<open>The slots are taken and the blocks inserted, once there is room.\<close>

lemma store_after_room:
  assumes inv: "inv m1" and room: "int (length kts) \<le> om_get_num_free_blocks m1"
    and kts: "distinct kts" "set kts \<inter> set (dkeys (entries (om_policy m1))) = {}"
  shows "\<exists>ids m3. allocate_slots_for (length kts) m1 = Inr (map new_block_status ids, m3) \<and> length ids = length kts \<and>
    distinct ids \<and> set ids \<subseteq> {0..<int (om_num_blocks m1)} \<and>
    (\<forall>k b. map_of (entries (om_policy m1)) k = Some b \<longrightarrow> bs_block_id b \<notin> set ids) \<and>
    inv (insert_blocks ops (zip kts (map new_block_status ids)) m3) \<and>
    mset (entries (om_policy (insert_blocks ops (zip kts (map new_block_status ids)) m3))) =
      mset (zip kts (map new_block_status ids) @ entries (om_policy m1))"
proof -
  obtain ids m3 where a: "allocate_slots_for (length kts) m1 = Inr (map new_block_status ids, m3)" "length ids = length kts"
    "om_policy m3 = om_policy m1" "om_num_blocks m3 = om_num_blocks m1"
    "om_num_evictable_cache_blocks m3 = om_num_evictable_cache_blocks m1"
    "0 \<le> om_num_allocated_blocks m3" "om_num_allocated_blocks m3 \<le> int (om_num_blocks m3)"
    and slots: "mset ids + image_mset (bs_block_id \<circ> snd) (mset (entries (om_policy m1))) + mset (om_free_list m3) =
      mset [0..om_num_allocated_blocks m3 - 1]"
    using inv_allocate_slots [OF inv room] by blast
  let ?kbs = "zip kts (map new_block_status ids)"
  have status: "\<forall>(k, b) \<in> set ?kbs. bs_ref_cnt b = - 1" by (auto simp: new_block_status_def dest!: set_zip_rightD)
  have "distinct (map fst ?kbs @ dkeys (entries (om_policy m3)))"
    using kts a(2,3) distinct_law [OF inv_proper [OF inv]] by simp
  from inv_insert_blocks [OF _ this status] have ins:
    "proper (om_policy (insert_blocks ops ?kbs m3))"
    "mset (entries (om_policy (insert_blocks ops ?kbs m3))) = mset ?kbs + mset (entries (om_policy m1))"
    using inv_proper [OF inv] a(3) by (simp_all add: insert_blocks_def)
  have all: "mset (ids @ map (bs_block_id \<circ> snd) (entries (om_policy m1)) @ om_free_list m3) =
      mset [0..om_num_allocated_blocks m3 - 1]" using slots by (simp add: ac_simps)
  then have d: "distinct (ids @ map (bs_block_id \<circ> snd) (entries (om_policy m1)) @ om_free_list m3)"
    by (metis distinct_upto mset_eq_imp_distinct_iff)
  have s: "set (ids @ map (bs_block_id \<circ> snd) (entries (om_policy m1)) @ om_free_list m3) = {0..om_num_allocated_blocks m3 - 1}"
    using all by (metis mset_eq_setD set_upto)
  have ids: "image_mset (bs_block_id \<circ> snd) (mset ?kbs) = mset ids"
  proof -
    have "map (bs_block_id \<circ> snd) ?kbs = map bs_block_id (map new_block_status ids)"
      using a(2) by (simp flip: map_map)
    then have "mset (map (bs_block_id \<circ> snd) ?kbs) = mset ids" by (simp add: new_block_status_def o_def)
    then show ?thesis by simp
  qed
  have busy: "filter_mset (\<lambda>x. bs_ref_cnt (snd x) = 0) (mset ?kbs) = {#}"
    using status by (auto simp: filter_mset_eq_conv)
  have fields: "om_free_list (insert_blocks ops ?kbs m3) = om_free_list m3"
    "om_num_blocks (insert_blocks ops ?kbs m3) = om_num_blocks m3"
    "om_num_allocated_blocks (insert_blocks ops ?kbs m3) = om_num_allocated_blocks m3"
    "om_num_evictable_cache_blocks (insert_blocks ops ?kbs m3) = om_num_evictable_cache_blocks m3"
    by (simp_all add: insert_blocks_def)
  have refs: "\<forall>x \<in># mset ?kbs + mset (entries (om_policy m1)). - 1 \<le> bs_ref_cnt (snd x)"
    using inv status by (auto simp: offload_inv_def)
  have "inv (insert_blocks ops ?kbs m3)"
    unfolding offload_inv_def fields ins(2) image_mset_union filter_union_mset ids busy
    using ins(1) a(5-7) slots refs inv by (simp add: offload_inv_def)
  moreover have "bs_block_id b \<notin> set ids" if "map_of (entries (om_policy m1)) k = Some b" for k b
    using d map_of_SomeD [OF that] by (force simp: disjoint_iff)
  moreover have "set ids \<subseteq> {0..om_num_allocated_blocks m3 - 1}" using s by (metis Un_upper1 set_append)
  then have "set ids \<subseteq> {0..<int (om_num_blocks m1)}" using a(4,7) by auto
  ultimately show ?thesis using a(1,2) d ins(2) by auto
qed

lemma store_outcome:
  assumes "inv m0" "distinct keys0"
  shows "\<exists>r m'. prepare_store ops keys0 m0 = Inr (r, m') \<and> inv m' \<and>
    (case r of
       None \<Rightarrow> om_policy m' = om_policy m0 \<and>
         (\<exists>keys m. filter_by_count keys0 m0 = (keys, m) \<and>
            make_room ops (int (length (filter (\<lambda>k. po_get ops (om_policy m) k = None) keys)) - om_get_num_free_blocks m) keys m = Inr None)
     | Some out \<Rightarrow> stored_as ops keys0 m0 out m')"
proof -
  obtain keys m where fc: "filter_by_count keys0 m0 = (keys, m)" by fastforce
  note fc' = filter_by_count_inv [OF fc] filter_by_count_num_blocks [OF fc]
  have m: "inv m" "distinct keys" "om_policy m = om_policy m0" "om_num_blocks m = om_num_blocks m0"
    using assms(1) fc'(1) [of proper entries] fc'(4) [OF assms(2)] by (simp_all add: fc'(2,5))
  define kts where "kts = filter (\<lambda>k. po_get ops (om_policy m) k = None) keys"
  have kts: "distinct kts" "set kts \<subseteq> set keys0" "\<And>k. k \<in> set kts \<Longrightarrow> map_of (entries (om_policy m)) k = None"
    using m(2) fc'(3) inv_get [OF m(1)] by (auto simp: kts_def)
  show ?thesis
  proof (cases "kts = []")
    case True
    then have "prepare_store ops keys0 m0 = Inr (Some \<lparr>ps_keys_to_store = [], ps_store_spec = [], ps_evicted_keys = []\<rparr>, m)"
      by (simp add: prepare_store_def fc flip: kts_def)
    then show ?thesis using m by (simp add: stored_as_def)
  next
    case False
    define need where "need = int (length kts) - om_get_num_free_blocks m"
    consider "make_room ops need keys m = Inr None"
      | ev m1 where "make_room ops need keys m = Inr (Some (map fst ev, m1))" "inv m1"
        "mset (entries (om_policy m)) = mset (ev @ entries (om_policy m1))"
        "\<forall>(k, b) \<in> set ev. bs_ref_cnt b = 0 \<and> k \<notin> set keys" "om_num_blocks m1 = om_num_blocks m" "need \<le> int (length ev)"
      using inv_make_room [OF m(1), of need keys] by auto
    then show ?thesis
    proof cases
      case 1
      then have "prepare_store ops keys0 m0 = Inr (None, m)"
        using False by (simp add: prepare_store_def fc flip: kts_def need_def)
      then show ?thesis using m fc 1 by (simp add: kts_def need_def)
    next
      case 2
      let ?m2 = "add_event (map fst ev) True m1"
      have e: "mset (dkeys (entries (om_policy m))) = mset (dkeys (ev @ entries (om_policy m1)))"
        using 2(3) by (metis mset_map)
      then have dk: "set (dkeys (entries (om_policy m))) = fst ` set ev \<union> set (dkeys (entries (om_policy m1)))"
        by (metis map_append mset_eq_setD set_append set_map)
      have "length (entries (om_policy m)) = length ev + length (entries (om_policy m1))"
        using arg_cong [OF 2(3), of size] by simp
      then have room: "int (length kts) \<le> om_get_num_free_blocks ?m2"
        using inv_capacity [OF m(1)] inv_capacity [OF 2(2)] 2(5,6) by (simp add: need_def om_get_num_free_blocks_def)
      have new: "set kts \<inter> set (dkeys (entries (om_policy ?m2))) = {}"
        using kts(3) dk by (auto simp: map_of_eq_None_iff)
      have "inv ?m2" using 2(2) by simp
      from store_after_room [OF this room kts(1) new] obtain ids m3 where
        s: "allocate_slots_for (length kts) ?m2 = Inr (map new_block_status ids, m3)" "length ids = length kts"
          "distinct ids" "set ids \<subseteq> {0..<int (om_num_blocks m1)}"
          "\<And>k b. map_of (entries (om_policy m1)) k = Some b \<Longrightarrow> bs_block_id b \<notin> set ids"
          "inv (insert_blocks ops (zip kts (map new_block_status ids)) m3)"
          "mset (entries (om_policy (insert_blocks ops (zip kts (map new_block_status ids)) m3))) =
            mset (zip kts (map new_block_status ids) @ entries (om_policy m1))" by auto
      let ?m' = "insert_blocks ops (zip kts (map new_block_status ids)) m3"
      let ?out = "\<lparr>ps_keys_to_store = kts, ps_store_spec = ids, ps_evicted_keys = map fst ev\<rparr>"
      have dist: "distinct (dkeys (ev @ entries (om_policy m1)))"
        using e distinct_law [OF inv_proper [OF m(1)]] by (metis mset_eq_imp_distinct_iff)
      have maps: "map_of (entries (om_policy m)) = map_of (ev @ entries (om_policy m1))"
        "map_of (entries (om_policy ?m')) = map_of (zip kts (map new_block_status ids) @ entries (om_policy m1))"
        by (rule distinct_same_items(2) [OF 2(3) distinct_law [OF inv_proper [OF m(1)]]],
            rule distinct_same_items(2) [OF s(7) distinct_law [OF inv_proper [OF s(6)]]])
      note get = inv_get [OF m(1)] inv_get [OF s(6)]
      have "map bs_block_id (map new_block_status ids) = ids" by (simp add: new_block_status_def o_def)
      then have "prepare_store ops keys0 m0 = Inr (Some ?out, ?m')"
        using False 2(1) s(1,2) by (simp add: prepare_store_def fc flip: kts_def need_def)
      moreover have "stored_as ops keys0 m0 ?out ?m'"
        unfolding stored_as_def get fc m(3,4) [symmetric] prepare_store_output.simps fst_conv
      proof (intro conjI ballI allI impI)
        show "set kts \<subseteq> {k \<in> set keys0. map_of (entries (om_policy m)) k = None}" using kts(2,3) by auto
        show "set ids \<subseteq> {0..<int (om_num_blocks m)}" using s(4) 2(5) by simp
        show "map_of (entries (om_policy ?m')) k = (case map_of (zip kts ids) k of Some slot \<Rightarrow> Some (new_block_status slot)
            | None \<Rightarrow> if k \<in> set (map fst ev) then None else map_of (entries (om_policy m)) k)" for k
        proof (cases "k \<in> set (map fst ev)")
          case True
          then have "map_of (entries (om_policy m1)) k = None" using dist by (auto simp: map_of_eq_None_iff)
          then show ?thesis using True by (simp add: maps map_add_def map_of_zip_status split: option.splits)
        next
          case False
          then have "map_of ev k = None" by (simp add: map_of_eq_None_iff)
          then show ?thesis using False by (simp add: maps map_add_def map_of_zip_status split: option.splits)
        qed
      next
        fix k assume "k \<in> set (map fst ev)"
        then obtain b where b: "(k, b) \<in> set ev" by auto
        then show "k \<notin> set keys" using 2(4) by auto
        have "map_of (entries (om_policy m)) k = Some b" using b dist by (simp add: maps map_add_def)
        then show "\<exists>b. map_of (entries (om_policy m)) k = Some b \<and> bs_ref_cnt b = 0" using b 2(4) by auto
      next
        fix k b assume "map_of (entries (om_policy m)) k = Some b \<and> k \<notin> set (map fst ev)"
        moreover from this have "map_of ev k = None" by (simp add: map_of_eq_None_iff)
        ultimately have "map_of (entries (om_policy m1)) k = Some b" by (simp add: maps map_add_def)
        then show "bs_block_id b \<notin> set ids" by (rule s(5))
      qed (use s(2,3) kts(1) in simp_all)
      ultimately show ?thesis using s(6) by auto
    qed
  qed
qed
end

context cache_policy
begin

lemma inv_finish_store_one: "inv m \<Longrightarrow> inv (snd (finish_store_one ops key (ks, m)))"
proof -
  assume m: "inv m"
  show ?thesis
  proof (cases "\<exists>b. map_of (entries (om_policy m)) key = Some b \<and> \<not> is_ready b")
    case True
    then obtain b where b: "map_of (entries (om_policy m)) key = Some b" "\<not> is_ready b" by blast
    then have busy: "bs_ref_cnt b \<noteq> 0" by (auto simp: is_ready_def)
    let ?p = "po_mark_evictable ops key (po_write ops key (b\<lparr>bs_ref_cnt := 0\<rparr>) (om_policy m))"
    have p: "proper ?p \<and> mset (entries ?p) = add_mset (key, b\<lparr>bs_ref_cnt := 0\<rparr>) (mset (entries (om_policy m)) - {#(key, b)#})"
      by (rule idle_law [OF inv_proper [OF m] b(1) busy]) simp
    have "inv (m\<lparr>om_policy := ?p, om_num_evictable_cache_blocks := om_num_evictable_cache_blocks m + 1\<rparr>)"
      by (rule inv_recount [OF m b(1) p [THEN conjunct1] p [THEN conjunct2]]) (use busy in simp_all)
    then show ?thesis using b inv_get [OF m] by (simp add: finish_store_one_def)
  next
    case False
    then show ?thesis using m inv_get [OF m] by (auto simp: finish_store_one_def split: option.splits)
  qed
qed

text \<open>Completing a store never raises: blocks that are gone or already readable are passed over.\<close>

lemma inv_abandon_store_one: "inv m \<Longrightarrow> \<exists>m'. abandon_store_one ops key m = Inr m' \<and> inv m'"
proof -
  assume m: "inv m"
  show ?thesis
  proof (cases "\<exists>b. map_of (entries (om_policy m)) key = Some b \<and> \<not> is_ready b")
    case True
    then obtain b where b: "map_of (entries (om_policy m)) key = Some b" "\<not> is_ready b" by blast
    then have busy: "bs_ref_cnt b \<noteq> 0" by (auto simp: is_ready_def)
    obtain p where p: "po_remove ops key (om_policy m) = Inr p" "proper p"
      "mset (entries (om_policy m)) = add_mset (key, b) (mset (entries p))"
      using remove_law [OF inv_proper [OF m] b(1) busy] by blast
    have "inv (m\<lparr>om_policy := p, om_free_list := om_free_list m @ [bs_block_id b]\<rparr>)"
      using m p(2,3) busy by (auto simp: offload_inv_def)
    then show ?thesis using b p(1) inv_get [OF m] by (simp add: abandon_store_one_def)
  next
    case False
    then show ?thesis using m inv_get [OF m] by (auto simp: abandon_store_one_def split: option.splits)
  qed
qed

lemma inv_complete_store: "inv m \<Longrightarrow> \<exists>m'. complete_store ops keys success m = Inr m' \<and> inv m'"
proof (cases success)
  case True
  assume m: "inv m"
  have "inv (snd (fold (finish_store_one ops) keys (ks, m)))" for ks
    using m
  proof (induction keys arbitrary: m ks)
    case (Cons k keys)
    obtain ks' m' where "finish_store_one ops k (ks, m) = (ks', m')" by fastforce
    then show ?case using inv_finish_store_one [OF Cons.prems, of k ks] Cons.IH by simp
  qed simp
  then show ?thesis using True by (auto simp: complete_store_def split: prod.split) (metis snd_conv)
next
  case False
  assume "inv m"
  then have "\<exists>m'. rfold (abandon_store_one ops) keys m = Inr m' \<and> inv m'"
  proof (induction keys arbitrary: m)
    case (Cons k keys)
    obtain m1 where "abandon_store_one ops k m = Inr m1" "inv m1" using inv_abandon_store_one [OF Cons.prems] by blast
    then show ?case using Cons.IH by simp
  qed simp
  then show ?thesis using False by (simp add: complete_store_def)
qed

end

section \<open>The life of a manager\<close>

text \<open>Everything the connector may ask of the manager, in any order.  Only a store is asked for distinct keys.\<close>

inductive offload_history :: "('k, 'p) policy_ops \<Rightarrow> ('k, 'p) offload_manager \<Rightarrow> bool" for ops where
  created: "offload_history ops (new_offload_manager ops n e t s)"
| looked_up: "offload_history ops m \<Longrightarrow> om_lookup ops k m = Inr (r, m') \<Longrightarrow> offload_history ops m'"
| load_prepared: "offload_history ops m \<Longrightarrow> prepare_load ops ks m = Inr (ids, m') \<Longrightarrow> offload_history ops m'"
| load_completed: "offload_history ops m \<Longrightarrow> complete_load ops ks m = Inr m' \<Longrightarrow> offload_history ops m'"
| store_prepared: "offload_history ops m \<Longrightarrow> distinct ks \<Longrightarrow> prepare_store ops ks m = Inr (out, m') \<Longrightarrow> offload_history ops m'"
| store_completed: "offload_history ops m \<Longrightarrow> complete_store ops ks success m = Inr m' \<Longrightarrow> offload_history ops m'"
| touched: "offload_history ops m \<Longrightarrow> offload_history ops (om_touch ops ks m)"
| reset: "offload_history ops m \<Longrightarrow> offload_history ops (om_reset_cache ops m)"
| events_taken: "offload_history ops m \<Longrightarrow> offload_history ops (snd (om_take_events m))"
| stats_taken: "offload_history ops m \<Longrightarrow> offload_history ops (snd (om_get_stats m))"

context cache_policy
begin

lemma history_inv: "offload_history ops m \<Longrightarrow> inv m"
proof (induction rule: offload_history.induct)
  case created
  show ?case by (rule inv_new)
next
  case (looked_up m k r m')
  then show ?case using inv_lookup by blast
next
  case (load_prepared m ks ids m')
  then show ?case using inv_load unfolding prepare_load_def by blast
next
  case (load_completed m ks m')
  then show ?case using inv_complete_load by blast
next
  case (store_prepared m ks out m')
  then show ?case using store_outcome [of m ks] by auto
next
  case (store_completed m ks success m')
  then show ?case using inv_complete_store [of m ks success] by auto
next
  case (touched m ks)
  then show ?case using inv_touch by blast
next
  case (reset m)
  then show ?case using inv_reset by blast
next
  case (events_taken m)
  then show ?case by (simp add: om_take_events_def split: option.split)
next
  case (stats_taken m)
  then show ?case by (simp add: om_get_stats_def Let_def)
qed

end

section \<open>What the connector can rely on\<close>

text \<open>The slots, read through the policy as the manager reads them.\<close>

definition slots_exclusive :: "('k, 'p) policy_ops \<Rightarrow> ('k, 'p) offload_manager \<Rightarrow> bool" where
  "slots_exclusive ops m \<longleftrightarrow>
     om_num_allocated_blocks m \<le> int (om_num_blocks m) \<and> distinct (om_free_list m) \<and>
     set (om_free_list m) \<subseteq> {0..<om_num_allocated_blocks m} \<and>
     (\<forall>k b. po_get ops (om_policy m) k = Some b \<longrightarrow>
        bs_block_id b \<in> {0..<om_num_allocated_blocks m} \<and> bs_block_id b \<notin> set (om_free_list m)) \<and>
     (\<forall>k k' b b'. po_get ops (om_policy m) k = Some b \<and> po_get ops (om_policy m) k' = Some b' \<and> k \<noteq> k' \<longrightarrow>
        bs_block_id b \<noteq> bs_block_id b') \<and>
     om_num_evictable_cache_blocks m =
       int (card {k. \<exists>b. po_get ops (om_policy m) k = Some b \<and> bs_ref_cnt b = 0})"

lemma card_dict_filter:
  assumes "distinct (dkeys d)"
  shows "card {k. \<exists>b. map_of d k = Some b \<and> P b} = length (filter (\<lambda>x. P (snd x)) d)"
proof -
  have "{k. \<exists>b. map_of d k = Some b \<and> P b} = set (map fst (filter (\<lambda>x. P (snd x)) d))"
    using assms by (force simp: map_of_eq_Some_iff)
  also have "card \<dots> = length (map fst (filter (\<lambda>x. P (snd x)) d))"
    by (rule distinct_card) (rule distinct_map_filter [OF assms])
  finally show ?thesis by simp
qed

lemma distinct_map_same: "distinct (map f xs) \<Longrightarrow> x \<in> set xs \<Longrightarrow> y \<in> set xs \<Longrightarrow> f x = f y \<Longrightarrow> x = y"
  by (simp add: distinct_map inj_on_def)

context cache_policy
begin

lemma inv_exclusive:
  assumes inv: "inv m" shows "slots_exclusive ops m"
proof -
  let ?d = "entries (om_policy m)" and ?a = "om_num_allocated_blocks m"
  have "mset (map (bs_block_id \<circ> snd) ?d @ om_free_list m) = mset [0..?a - 1]"
    using inv by (simp add: offload_inv_def)
  then have d: "distinct (map (bs_block_id \<circ> snd) ?d @ om_free_list m)"
    and s: "set (map (bs_block_id \<circ> snd) ?d @ om_free_list m) = {0..?a - 1}"
    by (metis distinct_upto mset_eq_imp_distinct_iff, metis mset_eq_setD set_upto)
  have free: "set (om_free_list m) \<subseteq> {0..<?a}" using s by auto
  have slot: "bs_block_id b \<in> {0..<?a} \<and> bs_block_id b \<notin> set (om_free_list m)" if "map_of ?d k = Some b" for k b
  proof -
    have "bs_block_id b \<in> set (map (bs_block_id \<circ> snd) ?d)" using map_of_SomeD [OF that] by force
    moreover from this have "bs_block_id b \<in> {0..?a - 1}" using s by (metis UnI1 set_append)
    ultimately show ?thesis using d by auto
  qed
  have other: "bs_block_id b \<noteq> bs_block_id b'" if "map_of ?d k = Some b" "map_of ?d k' = Some b'" "k \<noteq> k'" for k k' b b'
    using distinct_map_same [of "bs_block_id \<circ> snd" ?d "(k, b)" "(k', b')"] d that by (auto dest: map_of_SomeD)
  have "om_num_evictable_cache_blocks m = int (card {k. \<exists>b. map_of ?d k = Some b \<and> bs_ref_cnt b = 0})"
    using inv card_dict_filter [OF distinct_law [OF inv_proper [OF inv]], of "\<lambda>b. bs_ref_cnt b = 0"]
    by (simp add: offload_inv_def flip: mset_filter)
  then show ?thesis
    using inv d free slot other unfolding slots_exclusive_def inv_get [OF inv]
    by (auto simp: offload_inv_def)
qed

end

text \<open>A manager for two blocks: two blocks are stored, then a third one takes the place of the first.\<close>

definition store_all ::
  "('k, 'p) policy_ops \<Rightarrow> 'k list list \<Rightarrow> ('k, 'p) offload_manager \<Rightarrow> ('k, 'p) offload_manager res" where
  "store_all ops =
     rfold (\<lambda>ks m. rbind (prepare_store ops ks m) (\<lambda>(_, m'). complete_store ops ks True m'))"

lemma store_all_history:
  "offload_history ops m \<Longrightarrow> \<forall>ks \<in> set kss. distinct ks \<Longrightarrow> store_all ops kss m = Inr m' \<Longrightarrow> offload_history ops m'"
proof (induction kss arbitrary: m)
  case (Cons ks kss)
  then obtain out m1 m2 where "prepare_store ops ks m = Inr (out, m1)" "complete_store ops ks True m1 = Inr m2"
    "store_all ops kss m2 = Inr m'" by (auto simp: store_all_def res_simps)
  then have "offload_history ops m2"
    using Cons.prems(1,2) by (meson list.set_intros(1) offload_history.store_completed offload_history.store_prepared)
  then show ?case using Cons.IH [of m2] Cons.prems(2) \<open>store_all ops kss m2 = Inr m'\<close> by simp
qed (simp add: store_all_def)

definition three_stores :: "(nat, 'p) policy_ops \<Rightarrow> (nat, 'p) offload_manager res" where
  "three_stores ops = store_all ops [[1, 2], [3]] (new_offload_manager ops 2 False 0 10)"

lemma three_stores_run:
  "case three_stores lru_ops of Inr m \<Rightarrow> po_get lru_ops (om_policy m) 3 = Some \<lparr>bs_ref_cnt = 0, bs_block_id = 0\<rparr> | _ \<Rightarrow> False"
  "case three_stores arc_ops of Inr m \<Rightarrow> po_get arc_ops (om_policy m) 3 = Some \<lparr>bs_ref_cnt = 0, bs_block_id = 0\<rparr> | _ \<Rightarrow> False"
  by code_simp+

lemma three_stores_history: "three_stores ops = Inr m \<Longrightarrow> offload_history ops m"
  unfolding three_stores_def by (erule store_all_history [rotated 2]) (simp_all add: offload_history.created)

lemma three_stores_result:
  "\<exists>m. three_stores lru_ops = Inr m \<and> offload_history lru_ops m \<and> po_get lru_ops (om_policy m) 3 \<noteq> None"
  "\<exists>m. three_stores arc_ops = Inr m \<and> offload_history arc_ops m \<and> po_get arc_ops (om_policy m) 3 \<noteq> None"
  using three_stores_run three_stores_history [of lru_ops] three_stores_history [of arc_ops] by (auto split: sum.splits)

text \<open>Claim C18.  Whatever sequence of lookups, loads, stores, completions, touches and resets the connector
  issues, and with either replacement policy, two cached blocks never share a CPU slot, no cached block
  sits in a slot that is also free, every slot lies within the region the manager was given, and the
  counter of evictable blocks, which decides whether a store is refused, is the number of idle blocks.\<close>

theorem offload_slots_are_exclusive:
  "(offload_history lru_ops m \<longrightarrow> slots_exclusive lru_ops m) \<and>
   (offload_history arc_ops a \<longrightarrow> slots_exclusive arc_ops a)"
  by (blast intro: lru.inv_exclusive lru.history_inv arc.inv_exclusive arc.history_inv)

theorem offload_slots_are_exclusive_witness:
  "\<exists>m a. three_stores lru_ops = Inr m \<and> slots_exclusive lru_ops m \<and> po_get lru_ops (om_policy m) 3 \<noteq> None \<and>
     three_stores arc_ops = Inr a \<and> slots_exclusive arc_ops a \<and> po_get arc_ops (om_policy a) 3 \<noteq> None"
  using three_stores_result offload_slots_are_exclusive by metis



subsection \<open>When a store is refused\<close>

lemma lru_candidates_length:
  "lru_candidates protected blocks n keys = Inr cs \<Longrightarrow> 0 < n \<Longrightarrow>
     length cs = min n (length (filter (\<lambda>k. k \<notin> set protected) keys))"
proof (induction keys arbitrary: n cs)
  case (Cons key keys)
  consider "key \<in> set protected" | "key \<notin> set protected" "n = 1" | "key \<notin> set protected" "1 < n"
    using Cons.prems(2) by linarith
  then show ?case
  proof cases
    case 3
    then obtain b cs' where "lru_candidates protected blocks (n - 1) keys = Inr cs'" "cs = (key, b) # cs'"
      using Cons.prems(1) by (auto simp: res_simps)
    then show ?thesis using Cons.IH [of "n - 1" cs'] 3 by simp
  qed (use Cons in \<open>auto simp: res_simps\<close>)
qed simp

lemma lru_evict_refuses:
  "lru_evict n protected p = Inr None \<Longrightarrow> length (filter (\<lambda>k. k \<notin> set protected) (lp_evictable_blocks p)) < n"
  using lru_candidates_length [of protected "lp_blocks p" n "lp_evictable_blocks p"]
  by (auto simp: lru_evict_def res_simps split: if_splits)

text \<open>Claim C22.  With least recently used replacement a store is refused only when it has to be: the keys
  that are not cached yet outnumber the free slots together with the idle blocks that were not
  themselves asked for.\<close>

theorem lru_store_refused_only_when_full:
  assumes "offload_history lru_ops m" "distinct ks" "prepare_store lru_ops ks m = Inr (None, m')"
    and "om_counts m = None"
  shows "int (length (filter (\<lambda>k. po_get lru_ops (om_policy m) k = None) ks)) >
    om_get_num_free_blocks m +
    int (card {k. k \<notin> set ks \<and> (\<exists>b. po_get lru_ops (om_policy m) k = Some b \<and> bs_ref_cnt b = 0)})"
proof -
  note inv = lru.history_inv [OF assms(1)]
  have fc: "filter_by_count ks m = (ks, m)" using assms(4) by (simp add: filter_by_count_def)
  define n where "n = int (length (filter (\<lambda>k. po_get lru_ops (om_policy m) k = None) ks)) - om_get_num_free_blocks m"
  have room: "make_room lru_ops n ks m = Inr None"
    using lru.store_outcome [OF inv assms(2)] assms(3) fc by (auto simp: n_def)
  let ?idle = "filter (\<lambda>k. k \<notin> set ks) (lp_evictable_blocks (om_policy m))"
  have p: "lru_proper (om_policy m)" using lru.inv_proper [OF inv] .
  have "{k. \<exists>b. po_get lru_ops (om_policy m) k = Some b \<and> bs_ref_cnt b = 0} = set (lp_evictable_blocks (om_policy m))"
    using p unfolding lru.inv_get [OF inv] by (auto simp: lru_proper_def)
  then have idle: "{k. k \<notin> set ks \<and> (\<exists>b. po_get lru_ops (om_policy m) k = Some b \<and> bs_ref_cnt b = 0)} = set ?idle"
    and all: "om_num_evictable_cache_blocks m = int (length (lp_evictable_blocks (om_policy m)))"
    using lru.inv_exclusive [OF inv] p by (auto simp: slots_exclusive_def lru_proper_def distinct_card)
  have "int (length ?idle) < n"
  proof (cases "n > om_num_evictable_cache_blocks m")
    case True
    then show ?thesis using all length_filter_le [of _ "lp_evictable_blocks (om_policy m)"] by (smt (verit) of_nat_mono)
  next
    case False
    then have "lru_evict (nat n) ks (om_policy m) = Inr None" "0 < n"
      using room by (auto simp: make_room_def lru_ops_def res_simps Let_def split: if_splits option.splits prod.splits)
    then show ?thesis using lru_evict_refuses by fastforce
  qed
  moreover have "card (set ?idle) = length ?idle"
    using p unfolding lru_proper_def by (intro distinct_card distinct_filter) blast
  ultimately show ?thesis using idle by (simp add: n_def)
qed

theorem lru_store_refused_only_when_full_witness:
  "\<exists>m. three_stores lru_ops = Inr m \<and> int (length (filter (\<lambda>k. po_get lru_ops (om_policy m) k = None) [2, 4, 5])) >
    om_get_num_free_blocks m +
    int (card {k. k \<notin> set [2, 4, 5] \<and> (\<exists>b. po_get lru_ops (om_policy m) k = Some b \<and> bs_ref_cnt b = 0)})"
proof -
  obtain m where m: "three_stores lru_ops = Inr m" "offload_history lru_ops m" using three_stores_result by blast
  have "case three_stores lru_ops of Inr m \<Rightarrow> om_counts m = None \<and>
      (case prepare_store lru_ops [2, 4, 5] m of Inr (None, _) \<Rightarrow> True | _ \<Rightarrow> False) | _ \<Rightarrow> False" by code_simp
  then obtain m' where r: "om_counts m = None" "prepare_store lru_ops [2, 4, 5] m = Inr (None, m')"
    using m(1) by (auto split: sum.splits option.splits prod.splits)
  show ?thesis using lru_store_refused_only_when_full [OF m(2) _ r(2,1)] m(1) by auto
qed


end
