(* ===== verification/Tiering.thy ===== *)
theory Tiering
  imports CpuOffload
begin

text \<open>
  \<open>TieringOffloadingManager\<close> of \<^verbatim>\<open>vllm/v1/kv_offload/tiering/manager.py\<close>: the cache of offloaded blocks in
  CPU memory, the primary tier, in front of any number of secondary tiers to which its blocks are
  copied and from which they are promoted back.

  A secondary tier is anything that implements \<open>SecondaryTierManager\<close>: a record of its methods over a
  state of its own.  A tier object is named by its position in the list of tiers.  A tier moves the data
  itself, between its store and the slots of the primary tier that a job names, and reports the job
  when it is done.  \<open>ExampleSecondaryTierManager\<close> is the tier of the examples.  The memory mapping behind
  the slots and the shutdown of the tiers are left out, and so are the parameters of a request that
  are only passed on to the tiers.
\<close>

declare map_of_eq_Some_iff [simp del] split_paired_All [simp del] split_paired_Ex [simp del]

section \<open>Secondary tiers\<close>

record req_context =
  rc_req_id :: string

datatype offload_policy = BLOCK_LEVEL | REQUEST_LEVEL

record 'k job_metadata =
  jm_job_id :: nat
  jm_keys :: "'k list"
  jm_block_ids :: "int list"
  jm_is_promotion :: bool
  jm_req_context :: req_context

record job_result =
  jr_job_id :: nat
  jr_success :: bool

record ('k, 't) tier_ops =
  ti_lookup :: "'k \<Rightarrow> req_context \<Rightarrow> 't \<Rightarrow> bool option \<times> 't"
  ti_submit_store :: "'k job_metadata \<Rightarrow> 't \<Rightarrow> 't res"
  ti_submit_load :: "'k job_metadata \<Rightarrow> 't \<Rightarrow> 't res"
  ti_get_finished_jobs :: "'t \<Rightarrow> job_result list \<times> 't"
  ti_has_pending_work :: "'t \<Rightarrow> bool"
  ti_touch :: "'k list \<Rightarrow> req_context \<Rightarrow> 't \<Rightarrow> 't"
  ti_on_new_request :: "req_context \<Rightarrow> 't \<Rightarrow> offload_policy \<times> 't"
  ti_on_request_finished :: "req_context \<Rightarrow> 't \<Rightarrow> 't"
  ti_on_schedule_end :: "'t \<Rightarrow> 't"
  ti_drain_jobs :: "'t \<Rightarrow> 't"

subsection \<open>The example tier\<close>

text \<open>It keeps the keys it was given and completes every job at once.\<close>

record 'k example_tier =
  ex_blocks :: "'k list"
  ex_completed_jobs :: "job_result list"

definition new_example_tier :: "'k example_tier" where
  "new_example_tier = \<lparr>ex_blocks = [], ex_completed_jobs = []\<rparr>"

definition example_complete :: "'k job_metadata \<Rightarrow> bool \<Rightarrow> 'k example_tier \<Rightarrow> 'k example_tier" where
  "example_complete job success t =
     t\<lparr>ex_completed_jobs := ex_completed_jobs t @ [\<lparr>jr_job_id = jm_job_id job, jr_success = success\<rparr>]\<rparr>"

definition example_submit_store :: "'k job_metadata \<Rightarrow> 'k example_tier \<Rightarrow> 'k example_tier res" where
  "example_submit_store job t =
     rbind (check (length (jm_keys job) = length (jm_block_ids job)) AssertionError) (\<lambda>_.
     Inr (example_complete job True (t\<lparr>ex_blocks := fold put_key (jm_keys job) (ex_blocks t)\<rparr>)))"

definition example_submit_load :: "'k job_metadata \<Rightarrow> 'k example_tier \<Rightarrow> 'k example_tier res" where
  "example_submit_load job t =
     rbind (check (length (jm_keys job) = length (jm_block_ids job)) AssertionError) (\<lambda>_.
     Inr (example_complete job (\<forall>key \<in> set (jm_keys job). key \<in> set (ex_blocks t)) t))"

definition example_get_finished_jobs :: "'k example_tier \<Rightarrow> job_result list \<times> 'k example_tier" where
  "example_get_finished_jobs t = (ex_completed_jobs t, t\<lparr>ex_completed_jobs := []\<rparr>)"

definition example_ops :: "('k, 'k example_tier) tier_ops" where
  "example_ops = \<lparr>ti_lookup = (\<lambda>key _ t. (Some (key \<in> set (ex_blocks t)), t)),
     ti_submit_store = example_submit_store, ti_submit_load = example_submit_load,
     ti_get_finished_jobs = example_get_finished_jobs, ti_has_pending_work = (\<lambda>_. False),
     ti_touch = (\<lambda>_ _ t. t), ti_on_new_request = (\<lambda>_ t. (BLOCK_LEVEL, t)),
     ti_on_request_finished = (\<lambda>_ t. t), ti_on_schedule_end = (\<lambda>t. t), ti_drain_jobs = (\<lambda>t. t)\<rparr>"

section \<open>The manager of the tiers\<close>

record 'k pending_promotion =
  pp_req_context :: req_context
  pp_keys :: "'k list"
  pp_block_ids :: "int list"

record ('k, 'p, 't) tiering_manager =
  tm_primary_tier :: "('k, 'p) offload_manager"
  tm_secondary_tiers :: "'t list"
  tm_job_id_counter :: nat
  tm_events :: "'k offload_event list option"
  tm_transfer_jobs :: "(nat, 'k job_metadata) dict"
  tm_pending_load_submissions :: "(nat, (string, 'k pending_promotion) dict) dict"
  tm_processed_jobs_this_step :: bool
  tm_request_level_tiers :: "(string, nat list) dict"

definition new_tiering_manager ::
  "('k, 'p) offload_manager \<Rightarrow> 't list \<Rightarrow> bool \<Rightarrow> ('k, 'p, 't) tiering_manager" where
  "new_tiering_manager primary_tier secondary_tiers enable_events =
     \<lparr>tm_primary_tier = primary_tier, tm_secondary_tiers = secondary_tiers, tm_job_id_counter = 0,
      tm_events = (if enable_events then Some [] else None), tm_transfer_jobs = [],
      tm_pending_load_submissions = [], tm_processed_jobs_this_step = False, tm_request_level_tiers = []\<rparr>"

abbreviation tier_indices :: "('k, 'p, 't) tiering_manager \<Rightarrow> nat list" where
  "tier_indices m \<equiv> [0..<length (tm_secondary_tiers m)]"

abbreviation set_tier :: "nat \<Rightarrow> 't \<Rightarrow> ('k, 'p, 't) tiering_manager \<Rightarrow> ('k, 'p, 't) tiering_manager" where
  "set_tier i t m \<equiv> m\<lparr>tm_secondary_tiers := (tm_secondary_tiers m)[i := t]\<rparr>"

text \<open>\<open>job_id = self._next_job_id()\<close>, the job is recorded and then submitted.\<close>

definition submit_job ::
  "('k job_metadata \<Rightarrow> 't \<Rightarrow> 't res) \<Rightarrow> nat \<Rightarrow> bool \<Rightarrow> 'k list \<Rightarrow> int list \<Rightarrow> req_context
     \<Rightarrow> ('k, 'p, 't) tiering_manager \<Rightarrow> ('k, 'p, 't) tiering_manager res" where
  "submit_job submit i is_promotion keys block_ids ctx m =
     (let job_id = tm_job_id_counter m;
          job = \<lparr>jm_job_id = job_id, jm_keys = keys, jm_block_ids = block_ids, jm_is_promotion = is_promotion,
                 jm_req_context = ctx\<rparr>;
          m1 = m\<lparr>tm_job_id_counter := job_id + 1, tm_transfer_jobs := AList.update job_id job (tm_transfer_jobs m)\<rparr>
      in rbind (submit job (tm_secondary_tiers m ! i)) (\<lambda>t. Inr (set_tier i t m1)))"

definition finish_job ::
  "('k, 'p) policy_ops \<Rightarrow> job_result \<Rightarrow> ('k, 'p, 't) tiering_manager \<Rightarrow> ('k, 'p, 't) tiering_manager res" where
  "finish_job P completed_job m =
     (case map_of (tm_transfer_jobs m) (jr_job_id completed_job) of
        None \<Rightarrow> Inl AssertionError
      | Some job \<Rightarrow>
          let m1 = m\<lparr>tm_transfer_jobs := AList.delete (jr_job_id completed_job) (tm_transfer_jobs m)\<rparr>
          in rbind (if jm_is_promotion job
                    then complete_store P (jm_keys job) (jr_success completed_job) (tm_primary_tier m1)
                    else complete_load P (jm_keys job) (tm_primary_tier m1)) (\<lambda>primary.
             Inr (m1\<lparr>tm_primary_tier := primary\<rparr>)))"

definition poll_tier ::
  "('k, 'p) policy_ops \<Rightarrow> ('k, 't) tier_ops \<Rightarrow> nat \<Rightarrow> ('k, 'p, 't) tiering_manager
     \<Rightarrow> ('k, 'p, 't) tiering_manager res" where
  "poll_tier P T i m =
     (let (results, t) = ti_get_finished_jobs T (tm_secondary_tiers m ! i)
      in rfold (finish_job P) results (set_tier i t m))"

definition process_finished_jobs ::
  "('k, 'p) policy_ops \<Rightarrow> ('k, 't) tier_ops \<Rightarrow> ('k, 'p, 't) tiering_manager \<Rightarrow> ('k, 'p, 't) tiering_manager res" where
  "process_finished_jobs P T m = rfold (poll_tier P T) (tier_indices m) m"

definition maybe_process_finished_jobs ::
  "('k, 'p) policy_ops \<Rightarrow> ('k, 't) tier_ops \<Rightarrow> ('k, 'p, 't) tiering_manager \<Rightarrow> ('k, 'p, 't) tiering_manager res" where
  "maybe_process_finished_jobs P T m =
     (if tm_processed_jobs_this_step m then Inr m
      else process_finished_jobs P T (m\<lparr>tm_processed_jobs_this_step := True\<rparr>))"

subsection \<open>Lookup and promotion\<close>

definition queue_promotion ::
  "nat \<Rightarrow> req_context \<Rightarrow> 'k list \<Rightarrow> int list \<Rightarrow> ('k, 'p, 't) tiering_manager \<Rightarrow> ('k, 'p, 't) tiering_manager" where
  "queue_promotion i ctx keys block_ids m =
     (let subs = tm_pending_load_submissions m;
          tier_pending = (case map_of subs i of Some d \<Rightarrow> d | None \<Rightarrow> []);
          entry = (case map_of tier_pending (rc_req_id ctx) of
                     Some e \<Rightarrow> e
                   | None \<Rightarrow> \<lparr>pp_req_context = ctx, pp_keys = [], pp_block_ids = []\<rparr>);
          entry' = entry\<lparr>pp_keys := pp_keys entry @ keys, pp_block_ids := pp_block_ids entry @ block_ids\<rparr>
      in m\<lparr>tm_pending_load_submissions :=
             AList.update i (AList.update (rc_req_id ctx) entry' tier_pending) subs\<rparr>)"

definition initiate_promotion ::
  "('k, 'p) policy_ops \<Rightarrow> nat \<Rightarrow> 'k \<Rightarrow> req_context \<Rightarrow> ('k, 'p, 't) tiering_manager
     \<Rightarrow> (bool \<times> ('k, 'p, 't) tiering_manager) res" where
  "initiate_promotion P i key ctx m =
     rbind (prepare_store P [key] (tm_primary_tier m)) (\<lambda>(primary_write_result, primary).
     let m1 = m\<lparr>tm_primary_tier := primary\<rparr>
     in Inr (case primary_write_result of
               None \<Rightarrow> (False, m1)
             | Some out \<Rightarrow> (True, queue_promotion i ctx (ps_keys_to_store out) (ps_store_spec out) m1)))"

fun lookup_tiers ::
  "('k, 'p) policy_ops \<Rightarrow> ('k, 't) tier_ops \<Rightarrow> 'k \<Rightarrow> req_context \<Rightarrow> bool \<Rightarrow> nat list
     \<Rightarrow> ('k, 'p, 't) tiering_manager \<Rightarrow> (bool option \<times> ('k, 'p, 't) tiering_manager) res" where
  "lookup_tiers P T key ctx any_none [] m = Inr (if any_none then None else Some False, m)"
| "lookup_tiers P T key ctx any_none (i # is) m =
     (let (r, t) = ti_lookup T key ctx (tm_secondary_tiers m ! i);
          m1 = set_tier i t m
      in case r of
           Some True \<Rightarrow>
             rbind (initiate_promotion P i key ctx m1) (\<lambda>(started, m2).
             Inr (if started then None else Some False, m2))
         | Some False \<Rightarrow> lookup_tiers P T key ctx any_none is m1
         | None \<Rightarrow> lookup_tiers P T key ctx True is m1)"

definition tm_lookup ::
  "('k, 'p) policy_ops \<Rightarrow> ('k, 't) tier_ops \<Rightarrow> 'k \<Rightarrow> req_context \<Rightarrow> ('k, 'p, 't) tiering_manager
     \<Rightarrow> (bool option \<times> ('k, 'p, 't) tiering_manager) res" where
  "tm_lookup P T key ctx m =
     rbind (maybe_process_finished_jobs P T m) (\<lambda>m1.
     rbind (om_lookup P key (tm_primary_tier m1)) (\<lambda>(primary_hit, primary).
     let m2 = m1\<lparr>tm_primary_tier := primary\<rparr>
     in case primary_hit of
          Some True \<Rightarrow> Inr (Some True, m2)
        | None \<Rightarrow> Inr (None, m2)
        | Some False \<Rightarrow> lookup_tiers P T key ctx False (tier_indices m2) m2))"

definition flush_entry ::
  "('k, 't) tier_ops \<Rightarrow> nat \<times> 'k pending_promotion \<Rightarrow> ('k, 'p, 't) tiering_manager
     \<Rightarrow> ('k, 'p, 't) tiering_manager res" where
  "flush_entry T x m =
     (case x of (i, entry) \<Rightarrow>
      submit_job (ti_submit_load T) i True (pp_keys entry) (pp_block_ids entry) (pp_req_context entry) m)"

definition pending_entries :: "(nat, (string, 'k pending_promotion) dict) dict \<Rightarrow> (nat \<times> 'k pending_promotion) list" where
  "pending_entries subs = concat (map (\<lambda>(i, by_ctx). map (\<lambda>(_, entry). (i, entry)) by_ctx) subs)"

definition flush_pending_promotions ::
  "('k, 't) tier_ops \<Rightarrow> ('k, 'p, 't) tiering_manager \<Rightarrow> ('k, 'p, 't) tiering_manager res" where
  "flush_pending_promotions T m =
     rbind (rfold (flush_entry T) (pending_entries (tm_pending_load_submissions m)) m) (\<lambda>m1.
     Inr (m1\<lparr>tm_pending_load_submissions := []\<rparr>))"

subsection \<open>Transfers with the GPU\<close>

definition tm_prepare_load ::
  "('k, 'p) policy_ops \<Rightarrow> ('k, 't) tier_ops \<Rightarrow> 'k list \<Rightarrow> req_context \<Rightarrow> ('k, 'p, 't) tiering_manager
     \<Rightarrow> (int list \<times> ('k, 'p, 't) tiering_manager) res" where
  "tm_prepare_load P T keys ctx m =
     rbind (maybe_process_finished_jobs P T m) (\<lambda>m1.
     rbind (prepare_load P keys (tm_primary_tier m1)) (\<lambda>(ids, primary).
     Inr (ids, m1\<lparr>tm_primary_tier := primary\<rparr>)))"

definition tm_touch ::
  "('k, 'p) policy_ops \<Rightarrow> ('k, 't) tier_ops \<Rightarrow> 'k list \<Rightarrow> req_context \<Rightarrow> ('k, 'p, 't) tiering_manager
     \<Rightarrow> ('k, 'p, 't) tiering_manager" where
  "tm_touch P T keys ctx m =
     m\<lparr>tm_primary_tier := om_touch P keys (tm_primary_tier m),
       tm_secondary_tiers := map (ti_touch T keys ctx) (tm_secondary_tiers m)\<rparr>"

definition tm_complete_load ::
  "('k, 'p) policy_ops \<Rightarrow> 'k list \<Rightarrow> ('k, 'p, 't) tiering_manager \<Rightarrow> ('k, 'p, 't) tiering_manager res" where
  "tm_complete_load P keys m =
     rbind (complete_load P keys (tm_primary_tier m)) (\<lambda>primary. Inr (m\<lparr>tm_primary_tier := primary\<rparr>))"

text \<open>Blocks are read by a tier: they are pinned in the primary tier for the duration of the job.\<close>

definition cascade ::
  "('k, 'p) policy_ops \<Rightarrow> ('k, 't) tier_ops \<Rightarrow> 'k list \<Rightarrow> req_context \<Rightarrow> nat \<Rightarrow> ('k, 'p, 't) tiering_manager
     \<Rightarrow> ('k, 'p, 't) tiering_manager res" where
  "cascade P T keys ctx i m =
     rbind (prepare_load P keys (tm_primary_tier m)) (\<lambda>(ids, primary).
     submit_job (ti_submit_store T) i False keys ids ctx (m\<lparr>tm_primary_tier := primary\<rparr>))"

definition ready_one ::
  "('k, 'p) policy_ops \<Rightarrow> 'k \<Rightarrow> 'k list \<times> ('k, 'p, 't) tiering_manager \<Rightarrow> ('k list \<times> ('k, 'p, 't) tiering_manager) res" where
  "ready_one P k st =
     (case st of (ready_keys, m) \<Rightarrow>
      rbind (om_lookup P k (tm_primary_tier m)) (\<lambda>(r, primary).
      Inr (if r = Some True then ready_keys @ [k] else ready_keys, m\<lparr>tm_primary_tier := primary\<rparr>)))"

definition cascade_existing_blocks_to_request_level_tiers ::
  "('k, 'p) policy_ops \<Rightarrow> ('k, 't) tier_ops \<Rightarrow> 'k list \<Rightarrow> req_context \<Rightarrow> nat list
     \<Rightarrow> ('k, 'p, 't) tiering_manager \<Rightarrow> ('k, 'p, 't) tiering_manager res" where
  "cascade_existing_blocks_to_request_level_tiers P T keys ctx tiers m =
     rbind (rfold (ready_one P) keys ([], m)) (\<lambda>(ready_keys, m1).
     if ready_keys = [] then Inr m1 else rfold (cascade P T ready_keys ctx) tiers m1)"

definition tm_prepare_store ::
  "('k, 'p) policy_ops \<Rightarrow> ('k, 't) tier_ops \<Rightarrow> 'k list \<Rightarrow> req_context \<Rightarrow> ('k, 'p, 't) tiering_manager
     \<Rightarrow> ('k prepare_store_output option \<times> ('k, 'p, 't) tiering_manager) res" where
  "tm_prepare_store P T keys ctx m =
     rbind (maybe_process_finished_jobs P T m) (\<lambda>m1.
     rbind (prepare_store P keys (tm_primary_tier m1)) (\<lambda>(primary_result, primary).
     let m2 = m1\<lparr>tm_primary_tier := primary\<rparr>
     in case primary_result of
          None \<Rightarrow> Inr (None, m2)
        | Some out \<Rightarrow>
            (case map_of (tm_request_level_tiers m2) (rc_req_id ctx) of
               None \<Rightarrow> Inr (Some out, m2)
             | Some tiers \<Rightarrow>
                 let already = filter (\<lambda>k. k \<notin> set (ps_keys_to_store out)) keys
                 in rbind (if already = [] then Inr m2
                           else cascade_existing_blocks_to_request_level_tiers P T already ctx tiers m2) (\<lambda>m3.
                    Inr (Some out, m3)))))"

definition tm_complete_store ::
  "('k, 'p) policy_ops \<Rightarrow> ('k, 't) tier_ops \<Rightarrow> 'k list \<Rightarrow> req_context \<Rightarrow> bool \<Rightarrow> ('k, 'p, 't) tiering_manager
     \<Rightarrow> ('k, 'p, 't) tiering_manager res" where
  "tm_complete_store P T keys ctx success m =
     rbind (complete_store P keys success (tm_primary_tier m)) (\<lambda>primary.
     let m1 = m\<lparr>tm_primary_tier := primary\<rparr>
     in if success then rfold (cascade P T keys ctx) (tier_indices m1) m1 else Inr m1)"

subsection \<open>Requests and steps\<close>

definition ask_tier ::
  "('k, 't) tier_ops \<Rightarrow> req_context \<Rightarrow> nat \<Rightarrow> ('k, 'p, 't) tiering_manager \<Rightarrow> ('k, 'p, 't) tiering_manager" where
  "ask_tier T ctx i m =
     (let (policy, t) = ti_on_new_request T ctx (tm_secondary_tiers m ! i);
          m1 = set_tier i t m;
          levels = tm_request_level_tiers m1
      in if policy = REQUEST_LEVEL
         then m1\<lparr>tm_request_level_tiers :=
                AList.update (rc_req_id ctx)
                  (put_key i (case map_of levels (rc_req_id ctx) of Some is \<Rightarrow> is | None \<Rightarrow> [])) levels\<rparr>
         else m1)"

definition tm_on_new_request ::
  "('k, 't) tier_ops \<Rightarrow> req_context \<Rightarrow> ('k, 'p, 't) tiering_manager \<Rightarrow> offload_policy \<times> ('k, 'p, 't) tiering_manager" where
  "tm_on_new_request T ctx m =
     (let m1 = fold (ask_tier T ctx) (tier_indices m) m
      in (if map_of (tm_request_level_tiers m1) (rc_req_id ctx) \<noteq> None then REQUEST_LEVEL else BLOCK_LEVEL, m1))"

definition tm_on_request_finished ::
  "('k, 't) tier_ops \<Rightarrow> req_context \<Rightarrow> ('k, 'p, 't) tiering_manager \<Rightarrow> ('k, 'p, 't) tiering_manager" where
  "tm_on_request_finished T ctx m =
     m\<lparr>tm_secondary_tiers := map (ti_on_request_finished T ctx) (tm_secondary_tiers m),
       tm_request_level_tiers := AList.delete (rc_req_id ctx) (tm_request_level_tiers m)\<rparr>"

definition tm_on_schedule_end ::
  "('k, 'p) policy_ops \<Rightarrow> ('k, 't) tier_ops \<Rightarrow> ('k, 'p, 't) tiering_manager \<Rightarrow> ('k, 'p, 't) tiering_manager res" where
  "tm_on_schedule_end P T m =
     rbind (maybe_process_finished_jobs P T m) (\<lambda>m1.
     rbind (flush_pending_promotions T (m1\<lparr>tm_processed_jobs_this_step := False\<rparr>)) (\<lambda>m2.
     Inr (m2\<lparr>tm_secondary_tiers := map (ti_on_schedule_end T) (tm_secondary_tiers m2)\<rparr>)))"

definition tm_has_pending_work :: "('k, 't) tier_ops \<Rightarrow> ('k, 'p, 't) tiering_manager \<Rightarrow> bool" where
  "tm_has_pending_work T m \<longleftrightarrow>
     tm_transfer_jobs m \<noteq> [] \<or> (\<exists>t \<in> set (tm_secondary_tiers m). ti_has_pending_work T t)"

definition tm_take_events :: "('k, 'p, 't) tiering_manager \<Rightarrow> 'k offload_event list \<times> ('k, 'p, 't) tiering_manager" where
  "tm_take_events m =
     (let own = (case tm_events m of None \<Rightarrow> [] | Some es \<Rightarrow> es);
          (es, primary) = om_take_events (tm_primary_tier m)
      in (own @ es, m\<lparr>tm_events := map_option (\<lambda>_. []) (tm_events m), tm_primary_tier := primary\<rparr>))"

definition tm_reset_cache ::
  "('k, 'p) policy_ops \<Rightarrow> ('k, 't) tier_ops \<Rightarrow> ('k, 'p, 't) tiering_manager \<Rightarrow> ('k, 'p, 't) tiering_manager res" where
  "tm_reset_cache P T m =
     rbind (process_finished_jobs P T (m\<lparr>tm_secondary_tiers := map (ti_drain_jobs T) (tm_secondary_tiers m)\<rparr>)) (\<lambda>m1.
     Inr (m1\<lparr>tm_pending_load_submissions := [], tm_primary_tier := om_reset_cache P (tm_primary_tier m1),
             tm_request_level_tiers := [], tm_processed_jobs_this_step := False\<rparr>))"

section \<open>The lookups of the connector\<close>

text \<open>\<open>OffloadingConnectorScheduler\<close> asks for the blocks of a request one by one; \<open>None\<close> tells the scheduler
  to ask again in a later step.  The flag is \<open>defer_lookup\<close>.\<close>

fun prefix_lookup_loop ::
  "('k \<Rightarrow> 'm \<Rightarrow> (bool option \<times> 'm) res) \<Rightarrow> 'k list \<Rightarrow> int \<Rightarrow> bool \<Rightarrow> 'm \<Rightarrow> (int option \<times> 'm) res" where
  "prefix_lookup_loop lookup [] hit_count defer m = Inr (if defer then None else Some hit_count, m)"
| "prefix_lookup_loop lookup (key # keys) hit_count defer m =
     rbind (lookup key m) (\<lambda>(result, m1).
     case result of
       None \<Rightarrow> prefix_lookup_loop lookup keys (hit_count + 1) True m1
     | Some True \<Rightarrow> prefix_lookup_loop lookup keys (hit_count + 1) defer m1
     | Some False \<Rightarrow> Inr (if defer then None else Some hit_count, m1))"

definition maximal_prefix_lookup ::
  "('k \<Rightarrow> 'm \<Rightarrow> (bool option \<times> 'm) res) \<Rightarrow> 'k list \<Rightarrow> 'm \<Rightarrow> (int option \<times> 'm) res" where
  "maximal_prefix_lookup lookup keys m = prefix_lookup_loop lookup keys 0 False m"

text \<open>The keys from the last to the first; \<open>idx\<close> is the number of keys before the current one.\<close>

fun window_lookup_loop ::
  "('k \<Rightarrow> 'm \<Rightarrow> (bool option \<times> 'm) res) \<Rightarrow> int \<Rightarrow> 'k list \<Rightarrow> int \<Rightarrow> bool \<Rightarrow> 'm \<Rightarrow> (int option \<times> 'm) res" where
  "window_lookup_loop lookup window [] hits defer m = Inr (if defer then None else Some hits, m)"
| "window_lookup_loop lookup window (key # keys) hits defer m =
     rbind (lookup key m) (\<lambda>(result, m1).
     let defer' = (defer \<or> result = None)
     in if result = Some True
        then if hits + 1 = window
             then Inr (if defer' then None else Some (int (length keys) + window), m1)
             else window_lookup_loop lookup window keys (hits + 1) defer' m1
        else window_lookup_loop lookup window keys 0 defer' m1)"

definition sliding_window_lookup ::
  "('k \<Rightarrow> 'm \<Rightarrow> (bool option \<times> 'm) res) \<Rightarrow> 'k list \<Rightarrow> int \<Rightarrow> 'm \<Rightarrow> (int option \<times> 'm) res" where
  "sliding_window_lookup lookup keys window m = window_lookup_loop lookup window (rev keys) 0 False m"

end
