(* ===== verification/TieringProperties.thy ===== *)
theory TieringProperties
  imports Tiering
begin

text \<open>
  Who uses the slots of the primary tier.  The reference count of a block in CPU memory is the number of
  transfers that read it, of the GPU or to a secondary tier, and a block whose write is in flight is
  written by exactly one transfer.  So no slot that a transfer works on is given to another block, by any
  history of the connector, for any secondary tiers.
\<close>

declare map_of_eq_Some_iff [simp del] split_paired_All [simp del] split_paired_Ex [simp del]

section \<open>The ledger of transfers\<close>

text \<open>\<open>W\<close> counts the writes in flight and \<open>R\<close> the reads, by key.\<close>

fun accounted :: "block_status option \<Rightarrow> nat \<Rightarrow> nat \<Rightarrow> bool" where
  "accounted None w r \<longleftrightarrow> w = 0 \<and> r = 0"
| "accounted (Some b) w r \<longleftrightarrow> bs_ref_cnt b = - 1 \<and> w = 1 \<and> r = 0 \<or> w = 0 \<and> bs_ref_cnt b = int r"

definition balanced :: "('k \<Rightarrow> block_status option) \<Rightarrow> 'k multiset \<Rightarrow> 'k multiset \<Rightarrow> bool" where
  "balanced g W R \<longleftrightarrow> (\<forall>k. accounted (g k) (count W k) (count R k))"

definition slot :: "('k \<Rightarrow> block_status option) \<Rightarrow> 'k \<Rightarrow> int option" where
  "slot g k = map_option bs_block_id (g k)"

text \<open>A transfer names a slot for each of its keys; it works on its own blocks if they are there.\<close>

definition at_home :: "('k \<Rightarrow> block_status option) \<Rightarrow> 'k list \<times> int list \<Rightarrow> bool" where
  "at_home g x \<longleftrightarrow> map (slot g) (fst x) = map Some (snd x)"

definition keys_of :: "('k list \<times> int list) multiset \<Rightarrow> 'k multiset" where
  "keys_of X = sum_mset (image_mset (\<lambda>x. mset (fst x)) X)"

definition ledger ::
  "('k \<Rightarrow> block_status option) \<Rightarrow> ('k list \<times> int list) multiset \<Rightarrow> ('k list \<times> int list) multiset \<Rightarrow> bool" where
  "ledger g ws rs \<longleftrightarrow> balanced g (keys_of ws) (keys_of rs) \<and> (\<forall>x \<in># ws + rs. at_home g x)"

lemma keys_of_simps [simp]:
  "keys_of {#} = {#}" "keys_of (add_mset x X) = mset (fst x) + keys_of X" "keys_of (X + Y) = keys_of X + keys_of Y"
  by (simp_all add: keys_of_def)

lemma in_keys_of: "x \<in># X \<Longrightarrow> k \<in> set (fst x) \<Longrightarrow> k \<in># keys_of X"
  by (metis keys_of_simps(2) in_multiset_in_set insert_DiffM union_iff)

lemma at_home_cong: "(\<And>k. k \<in> set (fst x) \<Longrightarrow> slot g' k = slot g k) \<Longrightarrow> at_home g' x = at_home g x"
  by (simp add: at_home_def cong: map_cong)

lemma at_home_append: "length ks = length ids \<Longrightarrow> at_home g (ks @ ks', ids @ ids') \<longleftrightarrow> at_home g (ks, ids) \<and> at_home g (ks', ids')"
  by (simp add: at_home_def)

lemma at_home_length: "at_home g (ks, ids) \<Longrightarrow> length ks = length ids"
  unfolding at_home_def by (metis fst_conv length_map snd_conv)

text \<open>Transfers go on while the slots of their blocks stay.\<close>

lemma ledger_step:
  assumes "ledger g ws rs" "balanced g' (keys_of ws') (keys_of rs')"
    and "\<And>k. k \<in># keys_of ws + keys_of rs \<Longrightarrow> k \<in># keys_of ws' + keys_of rs' \<Longrightarrow> slot g' k = slot g k"
    and "\<And>x. x \<in># ws' + rs' \<Longrightarrow> x \<in># ws + rs \<or> at_home g' x"
  shows "ledger g' ws' rs'"
proof -
  have "at_home g' x" if x: "x \<in># ws' + rs'" for x
  proof (cases "x \<in># ws + rs")
    case True
    then have "at_home g x" using assms(1) by (simp add: ledger_def)
    moreover have "slot g' k = slot g k" if "k \<in> set (fst x)" for k
      using assms(3) [of k] in_keys_of [OF True that] in_keys_of [OF x that] by simp
    ultimately show ?thesis using at_home_cong [of x g' g] by blast
  qed (use assms(4) [OF x] in blast)
  then show ?thesis using assms(2) by (simp add: ledger_def)
qed

subsection \<open>One key at a time\<close>

lemma balanced_at: "balanced g W R \<Longrightarrow> accounted (g k) (count W k) (count R k)"
  by (simp add: balanced_def)

lemma balanced_upd:
  assumes "balanced g W R" "accounted v (count W' k) (count R' k)"
    and "\<And>j. j \<noteq> k \<Longrightarrow> count W' j = count W j \<and> count R' j = count R j"
  shows "balanced (g(k := v)) W' R'"
  using assms by (simp add: balanced_def)

lemma balanced_read:
  assumes "balanced g W R" "g k = Some b" "is_ready b"
  shows "balanced (g(k \<mapsto> b\<lparr>bs_ref_cnt := bs_ref_cnt b + 1\<rparr>)) W (add_mset k R)"
  by (rule balanced_upd [OF assms(1)]) (use balanced_at [OF assms(1), of k] assms(2,3) in \<open>auto simp: is_ready_def\<close>)

lemma balanced_unread:
  assumes "balanced g W (add_mset k R)"
  obtains b where "g k = Some b" "0 < bs_ref_cnt b" "balanced (g(k \<mapsto> b\<lparr>bs_ref_cnt := bs_ref_cnt b - 1\<rparr>)) W R"
proof -
  obtain b where b: "g k = Some b" "count W k = 0" "bs_ref_cnt b = int (count R k) + 1"
    using balanced_at [OF assms, of k] by (cases "g k") auto
  have "balanced (g(k \<mapsto> b\<lparr>bs_ref_cnt := bs_ref_cnt b - 1\<rparr>)) W R"
    by (rule balanced_upd [OF assms]) (use b in auto)
  then show ?thesis using that b by simp
qed

lemma balanced_written:
  assumes "balanced g (add_mset k W) R"
  obtains b where "g k = Some b" "bs_ref_cnt b = - 1" "k \<notin># W" "k \<notin># R"
    "balanced (g(k \<mapsto> b\<lparr>bs_ref_cnt := 0\<rparr>)) W R" "balanced (g(k := None)) W R"
proof -
  obtain b where b: "g k = Some b" "bs_ref_cnt b = - 1" "count W k = 0" "count R k = 0"
    using balanced_at [OF assms, of k] by (cases "g k") auto
  have "balanced (g(k \<mapsto> b\<lparr>bs_ref_cnt := 0\<rparr>)) W R" "balanced (g(k := None)) W R"
    by (rule balanced_upd [OF assms]; use b in auto)+
  then show ?thesis using that b by (simp add: not_in_iff)
qed

lemma balanced_ready: "balanced g W R \<Longrightarrow> g k = Some b \<Longrightarrow> is_ready b \<longleftrightarrow> k \<notin># W"
  using balanced_at [of g W R k] by (auto simp: is_ready_def not_in_iff)

lemma balanced_used: "balanced g W R \<Longrightarrow> k \<in># W + R \<Longrightarrow> \<exists>b. g k = Some b \<and> bs_ref_cnt b \<noteq> 0"
  using balanced_at [of g W R k] by (cases "g k") (auto simp: count_eq_zero_iff)

section \<open>What the primary tier does to the ledger\<close>

context cache_policy
begin

abbreviation held :: "('k, 'p) offload_manager \<Rightarrow> 'k \<Rightarrow> block_status option" where
  "held m \<equiv> po_get ops (om_policy m)"

lemma recount_held:
  assumes "inv m" "held m k = Some b" "proper p"
    "mset (entries p) = add_mset (k, b') (mset (entries (om_policy m)) - {#(k, b)#})"
  shows "po_get ops p = (held m)(k \<mapsto> b')"
proof -
  let ?d = "entries (om_policy m)"
  have d: "distinct (dkeys ?d)" and k: "map_of ?d k = Some b"
    using assms(1,2) distinct_law inv_proper inv_get by auto
  have "mset (entries p) = mset (AList.update k b' ?d)" using assms(4) mset_update [OF d k] by simp
  then have "map_of (entries p) = map_of (AList.update k b' ?d)"
    by (rule distinct_same_items(2)) (rule distinct_law [OF assms(3)])
  then show ?thesis using assms(1,3) by (auto simp: fun_eq_iff get_law inv_get update_conv')
qed

lemma load_one_held:
  assumes "inv m" "held m k = Some b" "is_ready b"
  shows "\<exists>m'. load_one ops k (ids, m) = Inr (ids @ [bs_block_id b], m') \<and> inv m' \<and>
    held m' = (held m)(k \<mapsto> b\<lparr>bs_ref_cnt := bs_ref_cnt b + 1\<rparr>)"
  using inv_load_one [of m k b ids] recount_held [OF assms(1,2)] assms inv_proper inv_get [OF assms(1)] by metis

text \<open>Reading pins the blocks.\<close>

lemma load_ledger:
  assumes "inv m" "balanced (held m) W R" "\<forall>k \<in> set ks. \<exists>b. held m k = Some b \<and> is_ready b"
  shows "\<exists>new m'. rfold (load_one ops) ks (ids, m) = Inr (ids @ new, m') \<and> inv m' \<and>
    balanced (held m') W (mset ks + R) \<and> slot (held m') = slot (held m) \<and> map (slot (held m)) ks = map Some new"
  using assms
proof (induction ks arbitrary: m ids R)
  case (Cons k ks)
  obtain b where b: "held m k = Some b" "is_ready b" using Cons.prems(3) by auto
  obtain m1 where m1: "load_one ops k (ids, m) = Inr (ids @ [bs_block_id b], m1)" "inv m1"
    "held m1 = (held m)(k \<mapsto> b\<lparr>bs_ref_cnt := bs_ref_cnt b + 1\<rparr>)"
    using load_one_held [OF Cons.prems(1) b] by blast
  have s: "slot (held m1) = slot (held m)" using b(1) m1(3) by (auto simp: slot_def fun_eq_iff)
  have "\<forall>k' \<in> set ks. \<exists>b. held m1 k' = Some b \<and> is_ready b"
    using Cons.prems(3) b m1(3) by (auto simp: is_ready_def)
  then obtain new m' where "rfold (load_one ops) ks (ids @ [bs_block_id b], m1) = Inr ((ids @ [bs_block_id b]) @ new, m')"
    "inv m'" "balanced (held m') W (mset ks + add_mset k R)" "slot (held m') = slot (held m1)"
    "map (slot (held m1)) ks = map Some new"
    using Cons.IH [OF m1(2) balanced_read [OF Cons.prems(2) b, folded m1(3)], of "ids @ [bs_block_id b]"] by metis
  moreover have "slot (held m) k = Some (bs_block_id b)" using b(1) by (simp add: slot_def)
  ultimately show ?case using m1(1) s by (auto intro!: exI [of _ "bs_block_id b # new"])
qed simp

lemma prepare_load_ledger:
  assumes "inv m" "balanced (held m) W R" "\<forall>k \<in> set ks. \<exists>b. held m k = Some b \<and> is_ready b"
  shows "\<exists>ids m'. prepare_load ops ks m = Inr (ids, m') \<and> inv m' \<and> balanced (held m') W (mset ks + R) \<and>
    slot (held m') = slot (held m) \<and> at_home (held m) (ks, ids)"
  using load_ledger [OF assms, of "[]"] by (auto simp: prepare_load_def at_home_def)

lemma prepare_load_ready:
  "prepare_load ops ks m = Inr (ids, m') \<Longrightarrow> inv m \<Longrightarrow> \<forall>k \<in> set ks. \<exists>b. held m k = Some b \<and> is_ready b"
proof -
  have "rfold (load_one ops) ks (ids0, m) = Inr (ids, m') \<Longrightarrow> inv m \<Longrightarrow> \<forall>k \<in> set ks. \<exists>b. held m k = Some b \<and> is_ready b"
    for ids0
  proof (induction ks arbitrary: m ids0)
    case (Cons k ks)
    obtain x where one: "load_one ops k (ids0, m) = Inr x" and rest: "rfold (load_one ops) ks x = Inr (ids, m')"
      using Cons.prems(1) by (auto simp: res_simps)
    obtain b where b: "held m k = Some b" "is_ready b"
      using one by (auto simp: load_one_def res_simps split: option.splits)
    obtain m1 where m1: "x = (ids0 @ [bs_block_id b], m1)" "inv m1" "held m1 = (held m)(k \<mapsto> b\<lparr>bs_ref_cnt := bs_ref_cnt b + 1\<rparr>)"
      using load_one_held [OF Cons.prems(2) b, of ids0] one by auto
    show ?case using Cons.IH [OF rest [unfolded m1(1)] m1(2)] b m1(3) by (auto split: if_splits)
  qed simp
  then show "prepare_load ops ks m = Inr (ids, m') \<Longrightarrow> inv m \<Longrightarrow> ?thesis" by (simp add: prepare_load_def)
qed


text \<open>A transfer that is done unpins them; it never raises while the ledger has its reads.\<close>

lemma complete_load_one_held:
  assumes "inv m" "held m k = Some b" "0 < bs_ref_cnt b"
  shows "\<exists>m'. complete_load_one ops k m = Inr m' \<and> inv m' \<and> held m' = (held m)(k \<mapsto> b\<lparr>bs_ref_cnt := bs_ref_cnt b - 1\<rparr>)"
proof -
  let ?b = "b\<lparr>bs_ref_cnt := bs_ref_cnt b - 1\<rparr>" and ?p = "po_write ops k (b\<lparr>bs_ref_cnt := bs_ref_cnt b - 1\<rparr>) (om_policy m)"
  have k: "map_of (entries (om_policy m)) k = Some b" using assms(1,2) inv_get by simp
  have run: "\<exists>m'. complete_load_one ops k m = Inr m' \<and>
      om_policy m' = (if bs_ref_cnt ?b = 0 then po_mark_evictable ops k ?p else ?p)"
    using assms(2,3) by (simp add: complete_load_one_def Let_def)
  then obtain m' where m': "complete_load_one ops k m = Inr m'"
    "om_policy m' = (if bs_ref_cnt ?b = 0 then po_mark_evictable ops k ?p else ?p)" by blast
  have "proper (om_policy m') \<and>
    mset (entries (om_policy m')) = add_mset (k, ?b) (mset (entries (om_policy m)) - {#(k, b)#})"
    using idle_law [OF inv_proper [OF assms(1)] k, of ?b] busy_law [OF inv_proper [OF assms(1)] k, of ?b] assms(3) m'(2)
    by auto
  then show ?thesis using m'(1) inv_complete_load_one [OF m'(1) assms(1)] recount_held [OF assms(1,2)] by blast
qed

lemma complete_load_ledger:
  assumes "inv m" "balanced (held m) W (mset ks + R)"
  shows "\<exists>m'. complete_load ops ks m = Inr m' \<and> inv m' \<and> balanced (held m') W R \<and> slot (held m') = slot (held m)"
  using assms unfolding complete_load_def
proof (induction ks arbitrary: m)
  case (Cons k ks)
  obtain b where b: "held m k = Some b" "0 < bs_ref_cnt b"
    "balanced ((held m)(k \<mapsto> b\<lparr>bs_ref_cnt := bs_ref_cnt b - 1\<rparr>)) W (mset ks + R)"
    using balanced_unread [of "held m" W k "mset ks + R"] Cons.prems(2) by auto
  obtain m1 where m1: "complete_load_one ops k m = Inr m1" "inv m1"
    "held m1 = (held m)(k \<mapsto> b\<lparr>bs_ref_cnt := bs_ref_cnt b - 1\<rparr>)"
    using complete_load_one_held [OF Cons.prems(1) b(1,2)] by blast
  then have "slot (held m1) = slot (held m)" using b(1) by (auto simp: slot_def fun_eq_iff)
  with Cons.IH [OF m1(2) b(3) [folded m1(3)]] m1(1) show ?case by simp
qed simp

text \<open>A write that is done makes its blocks readable, a write that failed removes them.\<close>

lemma finish_store_one_held:
  assumes "inv m" "held m k = Some b" "bs_ref_cnt b = - 1"
  shows "inv (snd (finish_store_one ops k (ks, m))) \<and>
    held (snd (finish_store_one ops k (ks, m))) = (held m)(k \<mapsto> b\<lparr>bs_ref_cnt := 0\<rparr>)"
proof -
  let ?p = "po_mark_evictable ops k (po_write ops k (b\<lparr>bs_ref_cnt := 0\<rparr>) (om_policy m))"
  have k: "map_of (entries (om_policy m)) k = Some b" using assms(1,2) inv_get by simp
  have "proper ?p \<and> mset (entries ?p) = add_mset (k, b\<lparr>bs_ref_cnt := 0\<rparr>) (mset (entries (om_policy m)) - {#(k, b)#})"
    by (rule idle_law [OF inv_proper [OF assms(1)] k]) (use assms(3) in simp_all)
  then have "po_get ops ?p = (held m)(k \<mapsto> b\<lparr>bs_ref_cnt := 0\<rparr>)" using recount_held [OF assms(1,2)] by blast
  moreover have "om_policy (snd (finish_store_one ops k (ks, m))) = ?p"
    using assms(2,3) by (simp add: finish_store_one_def is_ready_def)
  ultimately show ?thesis using inv_finish_store_one [OF assms(1)] by simp
qed

lemma abandon_store_one_held:
  assumes "inv m" "held m k = Some b" "bs_ref_cnt b = - 1"
  shows "\<exists>m'. abandon_store_one ops k m = Inr m' \<and> inv m' \<and> held m' = (held m)(k := None)"
proof -
  have k: "map_of (entries (om_policy m)) k = Some b" using assms(1,2) inv_get by simp
  obtain p where p: "po_remove ops k (om_policy m) = Inr p" "proper p"
    "mset (entries (om_policy m)) = add_mset (k, b) (mset (entries p))"
    using remove_law [OF inv_proper [OF assms(1)] k] assms(3) by auto
  obtain m' where m': "abandon_store_one ops k m = Inr m'" "inv m'" using inv_abandon_store_one [OF assms(1)] by blast
  have pol: "om_policy m' = p" using m'(1) assms(2,3) p(1) by (auto simp: abandon_store_one_def is_ready_def)
  have "map_of ((k, b) # entries p) = map_of (entries (om_policy m))" "distinct (dkeys ((k, b) # entries p))"
    using distinct_same_items [of "entries (om_policy m)" "(k, b) # entries p"] p(3) distinct_law [OF inv_proper [OF assms(1)]]
    by simp_all
  then have "map_of (entries p) = (map_of (entries (om_policy m)))(k := None)"
    by (auto simp: fun_eq_iff map_of_eq_None_iff split: if_splits)
  then show ?thesis using m' pol assms(1) p(2) by (auto simp: fun_eq_iff get_law inv_get)
qed

lemma complete_store_ledger:
  assumes "inv m" "balanced (held m) (mset ks + W) R"
  shows "\<exists>m'. complete_store ops ks success m = Inr m' \<and> inv m' \<and> balanced (held m') W R \<and>
    (\<forall>k. k \<notin> set ks \<or> success \<longrightarrow> slot (held m') k = slot (held m) k)"
proof (cases success)
  case True
  have "inv (snd (fold (finish_store_one ops) ks (done, m))) \<and> balanced (held (snd (fold (finish_store_one ops) ks (done, m)))) W R \<and>
      slot (held (snd (fold (finish_store_one ops) ks (done, m)))) = slot (held m)" for "done"
    using assms
  proof (induction ks arbitrary: m "done")
    case (Cons k ks)
    obtain b where b: "held m k = Some b" "bs_ref_cnt b = - 1"
      "balanced ((held m)(k \<mapsto> b\<lparr>bs_ref_cnt := 0\<rparr>)) (mset ks + W) R"
      using balanced_written [of "held m" k "mset ks + W" R] Cons.prems(2) by auto
    obtain done1 m1 where m1: "finish_store_one ops k (done, m) = (done1, m1)" by fastforce
    then have h: "inv m1" "held m1 = (held m)(k \<mapsto> b\<lparr>bs_ref_cnt := 0\<rparr>)"
      using finish_store_one_held [OF Cons.prems(1) b(1,2), of "done"] by simp_all
    then have "slot (held m1) = slot (held m)" using b(1) by (auto simp: slot_def fun_eq_iff)
    with Cons.IH [OF h(1) b(3) [folded h(2)], of done1] m1 show ?case by simp
  qed simp
  from this [of "[]"] show ?thesis using True by (auto simp: complete_store_def split: prod.splits)
next
  case False
  have "\<exists>m'. rfold (abandon_store_one ops) ks m = Inr m' \<and> inv m' \<and> balanced (held m') W R \<and>
      (\<forall>k. k \<notin> set ks \<longrightarrow> slot (held m') k = slot (held m) k)"
    using assms
  proof (induction ks arbitrary: m)
    case (Cons k ks)
    obtain b where b: "held m k = Some b" "bs_ref_cnt b = - 1" "balanced ((held m)(k := None)) (mset ks + W) R"
      using balanced_written [of "held m" k "mset ks + W" R] Cons.prems(2) by auto
    obtain m1 where m1: "abandon_store_one ops k m = Inr m1" "inv m1" "held m1 = (held m)(k := None)"
      using abandon_store_one_held [OF Cons.prems(1) b(1,2)] by blast
    then have "\<forall>k'. k' \<noteq> k \<longrightarrow> slot (held m1) k' = slot (held m) k'" by (simp add: slot_def)
    with Cons.IH [OF m1(2) b(3) [folded m1(3)]] m1(1) show ?case by auto
  qed simp
  then show ?thesis using False by (simp add: complete_store_def)
qed

text \<open>A store takes slots of its own; blocks that a transfer uses stay where they are.\<close>

lemma prepare_store_ledger:
  assumes "inv m" "balanced (held m) W R" "distinct ks"
  shows "\<exists>r m'. prepare_store ops ks m = Inr (r, m') \<and> inv m' \<and>
    (case r of
       None \<Rightarrow> held m' = held m
     | Some out \<Rightarrow> balanced (held m') (mset (ps_keys_to_store out) + W) R \<and>
         at_home (held m') (ps_keys_to_store out, ps_store_spec out) \<and> distinct (ps_keys_to_store out) \<and>
         set (ps_keys_to_store out) \<subseteq> set ks \<and> (\<forall>k \<in> set (ps_keys_to_store out). held m k = None) \<and>
         (\<forall>k \<in># W + R. slot (held m') k = slot (held m) k))"
proof -
  obtain r m' where r: "prepare_store ops ks m = Inr (r, m')" "inv m'"
    "case r of None \<Rightarrow> om_policy m' = om_policy m | Some out \<Rightarrow> stored_as ops ks m out m'"
    using store_outcome [OF assms(1,3)] by (fastforce split: option.splits)
  show ?thesis
  proof (cases r)
    case (Some out)
    let ?kts = "ps_keys_to_store out" and ?ids = "ps_store_spec out" and ?ev = "set (ps_evicted_keys out)"
    have s: "distinct ?kts" "set ?kts \<subseteq> set ks" "\<And>k. k \<in> set ?kts \<Longrightarrow> held m k = None" "length ?ids = length ?kts"
      "\<And>k. k \<in> ?ev \<Longrightarrow> \<exists>b. held m k = Some b \<and> bs_ref_cnt b = 0"
      "\<And>k. held m' k = (case map_of (zip ?kts ?ids) k of Some i \<Rightarrow> Some (new_block_status i)
         | None \<Rightarrow> if k \<in> ?ev then None else held m k)"
      using r(3) Some by (auto simp: stored_as_def)
    have old: "map_of (zip ?kts ?ids) k = None \<longleftrightarrow> k \<notin> set ?kts" for k
      using s(4) by (simp add: map_of_eq_None_iff flip: set_map)
    have "balanced (held m') (mset ?kts + W) R"
      unfolding balanced_def
    proof
      fix k
      have a: "accounted (held m k) (count W k) (count R k)" by (rule balanced_at [OF assms(2)])
      show "accounted (held m' k) (count (mset ?kts + W) k) (count R k)"
      proof (cases "k \<in> set ?kts")
        case True
        then have "count (mset ?kts) k = 1" using s(1) by (simp add: distinct_count_atmost_1)
        moreover obtain i where "map_of (zip ?kts ?ids) k = Some i" using old [of k] True by auto
        ultimately show ?thesis using a s(3) [OF True] s(6) [of k] by (simp add: new_block_status_def)
      next
        case False
        then have c: "count (mset ?kts + W) k = count W k" by (simp add: count_mset_0_iff)
        show ?thesis unfolding c using a False old [of k] s(5) [of k] s(6) [of k] by (auto split: if_splits)
      qed
    qed
    moreover have "at_home (held m') (?kts, ?ids)"
    proof -
      have "slot (held m') (?kts ! j) = Some (?ids ! j)" if "j < length ?kts" for j
        using map_of_zip_nth [of ?kts ?ids j] s(1,4,6) that by (simp add: slot_def new_block_status_def)
      then show ?thesis using s(4) by (auto simp: at_home_def list_eq_iff_nth_eq)
    qed
    moreover have "slot (held m') k = slot (held m) k" if "k \<in># W + R" for k
      using balanced_used [OF assms(2) that] old [of k] s(3) [of k] s(5) [of k] s(6) [of k] by (auto simp: slot_def)
    ultimately show ?thesis using r Some s(1-3) by simp
  qed (use r in simp)
qed

end

section \<open>The transfers of the manager\<close>

definition promotions :: "('k, 'p, 't) tiering_manager \<Rightarrow> ('k list \<times> int list) multiset" where
  "promotions m = image_mset (\<lambda>(_, j). (jm_keys j, jm_block_ids j))
     (filter_mset (\<lambda>(_, j). jm_is_promotion j) (mset (tm_transfer_jobs m)))"

definition cascades :: "('k, 'p, 't) tiering_manager \<Rightarrow> ('k list \<times> int list) multiset" where
  "cascades m = image_mset (\<lambda>(_, j). (jm_keys j, jm_block_ids j))
     (filter_mset (\<lambda>(_, j). \<not> jm_is_promotion j) (mset (tm_transfer_jobs m)))"

definition promotion_transfer :: "'k pending_promotion \<Rightarrow> 'k list \<times> int list" where
  "promotion_transfer e = (pp_keys e, pp_block_ids e)"

definition waiting_promotions :: "('k, 'p, 't) tiering_manager \<Rightarrow> ('k list \<times> int list) multiset" where
  "waiting_promotions m =
     mset (map (\<lambda>(_, e). promotion_transfer e) (pending_entries (tm_pending_load_submissions m)))"

text \<open>With the transfers of the GPU, \<open>loads\<close> that read blocks and \<open>stores\<close> that write them.\<close>

definition transfers_inv ::
  "('p \<Rightarrow> bool) \<Rightarrow> ('p \<Rightarrow> ('k, block_status) dict) \<Rightarrow> ('k, 'p) policy_ops \<Rightarrow> ('k, 'p, 't) tiering_manager
     \<Rightarrow> ('k list \<times> int list) multiset \<Rightarrow> ('k list \<times> int list) multiset \<Rightarrow> bool" where
  "transfers_inv proper entries P m loads stores \<longleftrightarrow>
     offload_inv proper entries (tm_primary_tier m) \<and>
     distinct (dkeys (tm_transfer_jobs m)) \<and> (\<forall>i \<in> set (dkeys (tm_transfer_jobs m)). i < tm_job_id_counter m) \<and>
     distinct (dkeys (tm_pending_load_submissions m)) \<and>
     (\<forall>x \<in> set (tm_pending_load_submissions m). distinct (dkeys (snd x))) \<and>
     ledger (po_get P (om_policy (tm_primary_tier m)))
       (promotions m + waiting_promotions m + stores) (cascades m + loads)"

lemma transfers_inv_fields [simp]:
  "transfers_inv proper entries P (m\<lparr>tm_secondary_tiers := ts\<rparr>) L S = transfers_inv proper entries P m L S"
  "transfers_inv proper entries P (m\<lparr>tm_processed_jobs_this_step := b\<rparr>) L S = transfers_inv proper entries P m L S"
  "transfers_inv proper entries P (m\<lparr>tm_request_level_tiers := l\<rparr>) L S = transfers_inv proper entries P m L S"
  "transfers_inv proper entries P (m\<lparr>tm_events := es\<rparr>) L S = transfers_inv proper entries P m L S"
  by (simp_all add: transfers_inv_def promotions_def cascades_def waiting_promotions_def)

lemma transfers_parts [simp]:
  "promotions (m\<lparr>tm_primary_tier := p\<rparr>) = promotions m" "cascades (m\<lparr>tm_primary_tier := p\<rparr>) = cascades m"
  "waiting_promotions (m\<lparr>tm_primary_tier := p\<rparr>) = waiting_promotions m"
  "waiting_promotions (m\<lparr>tm_transfer_jobs := js\<rparr>) = waiting_promotions m"
  "promotions (m\<lparr>tm_pending_load_submissions := d\<rparr>) = promotions m"
  "cascades (m\<lparr>tm_pending_load_submissions := d\<rparr>) = cascades m"
  "waiting_promotions (m\<lparr>tm_pending_load_submissions := []\<rparr>) = {#}"
  by (simp_all add: promotions_def cascades_def waiting_promotions_def pending_entries_def)

text \<open>Submitting a job turns a transfer that is only prepared into one of the manager.\<close>

lemma submit_job_inv:
  assumes "submit_job submit i is_promotion ks ids ctx m = Inr m'"
  shows "transfers_inv proper entries P m (if is_promotion then L else add_mset (ks, ids) L)
      (if is_promotion then add_mset (ks, ids) S else S) \<Longrightarrow> transfers_inv proper entries P m' L S"
proof -
  assume inv: "transfers_inv proper entries P m (if is_promotion then L else add_mset (ks, ids) L)
      (if is_promotion then add_mset (ks, ids) S else S)"
  let ?c = "tm_job_id_counter m"
  let ?j = "\<lparr>jm_job_id = ?c, jm_keys = ks, jm_block_ids = ids, jm_is_promotion = is_promotion, jm_req_context = ctx\<rparr>"
  let ?m = "m\<lparr>tm_job_id_counter := ?c + 1, tm_transfer_jobs := AList.update ?c ?j (tm_transfer_jobs m)\<rparr>"
  have m': "\<exists>t. m' = ?m\<lparr>tm_secondary_tiers := t\<rparr>" using assms by (auto simp: submit_job_def Let_def res_simps)
  have "?c \<notin> set (dkeys (tm_transfer_jobs m))" using inv by (auto simp: transfers_inv_def)
  then have "AList.update ?c ?j (tm_transfer_jobs m) = tm_transfer_jobs m @ [(?c, ?j)]" by (rule update_fresh)
  then have "transfers_inv proper entries P ?m L S"
    using inv by (auto simp: transfers_inv_def promotions_def cascades_def waiting_promotions_def less_Suc_eq
      split: if_splits)
  then show ?thesis using m' by auto
qed

lemma ledger_merge:
  assumes "ledger g (add_mset (ks, ids) (add_mset (ks', ids') X)) rs"
  shows "ledger g (add_mset (ks @ ks', ids @ ids') X) rs"
  using assms at_home_append [of ks ids g ks' ids'] at_home_length [of g ks ids]
  by (auto simp: ledger_def add.assoc)

lemma ledger_trivial: "ledger g X rs \<Longrightarrow> ledger g (add_mset ([], []) X) rs"
  by (auto simp: ledger_def at_home_def)

lemma waiting_sum:
  "waiting_promotions m = sum_mset (image_mset (\<lambda>(_, by_ctx). image_mset (\<lambda>(_, e). promotion_transfer e) (mset by_ctx))
     (mset (tm_pending_load_submissions m)))"
proof -
  have "mset (map (\<lambda>(_, e). promotion_transfer e) (pending_entries d)) =
      sum_mset (image_mset (\<lambda>(_, by_ctx). image_mset (\<lambda>(_, e). promotion_transfer e) (mset by_ctx)) (mset d))" for d
    by (induction d) (auto simp: pending_entries_def case_prod_beta image_mset.compositionality o_def)
  then show ?thesis by (simp add: waiting_promotions_def)
qed

lemma in_set_update: "x \<in> set (AList.update k v d) \<Longrightarrow> x = (k, v) \<or> x \<in> set d"
  by (induction d) (auto split: if_splits)

text \<open>Queueing extends the entry of the tier and the request, or starts one.\<close>

lemma queue_promotion_inv:
  assumes "transfers_inv proper entries P m L (add_mset (ks, ids) S)"
  shows "transfers_inv proper entries P (queue_promotion i ctx ks ids m) L S"
proof -
  let ?subs = "tm_pending_load_submissions m" and ?c = "rc_req_id ctx"
  define d where "d = (case map_of ?subs i of Some d \<Rightarrow> d | None \<Rightarrow> [])"
  define e where "e = (case map_of d ?c of Some e \<Rightarrow> e | None \<Rightarrow> \<lparr>pp_req_context = ctx, pp_keys = [], pp_block_ids = []\<rparr>)"
  define e' where "e' = e\<lparr>pp_keys := pp_keys e @ ks, pp_block_ids := pp_block_ids e @ ids\<rparr>"
  define d' where "d' = AList.update ?c e' d"
  have q: "queue_promotion i ctx ks ids m = m\<lparr>tm_pending_load_submissions := AList.update i d' ?subs\<rparr>"
    by (simp add: queue_promotion_def Let_def d'_def e'_def e_def d_def)
  have dd: "distinct (dkeys ?subs)" and dn: "\<forall>x \<in> set ?subs. distinct (dkeys (snd x))"
    using assms unfolding transfers_inv_def by blast+
  have dd': "distinct (dkeys d)"
  proof (cases "map_of ?subs i")
    case (Some d0)
    then show ?thesis using dn map_of_SomeD [OF Some] by (force simp: d_def)
  qed (simp add: d_def)
  have inner: "\<exists>X. (image_mset (\<lambda>(_, e). promotion_transfer e) (mset d) = X \<and> e = \<lparr>pp_req_context = ctx, pp_keys = [], pp_block_ids = []\<rparr> \<or>
      image_mset (\<lambda>(_, e). promotion_transfer e) (mset d) = add_mset (promotion_transfer e) X) \<and>
      image_mset (\<lambda>(_, e). promotion_transfer e) (mset d') = add_mset (promotion_transfer e') X"
  proof (cases "map_of d ?c")
    case None
    then have "AList.update ?c e' d = d @ [(?c, e')]" by (intro update_fresh) (simp add: map_of_eq_None_iff)
    then show ?thesis using None by (simp add: d'_def e_def)
  next
    case (Some e0)
    obtain M where "mset d = add_mset (?c, e0) M" using map_of_SomeD [OF Some] by (metis insert_DiffM set_mset_mset)
    then show ?thesis using mset_update [OF dd' Some, of e'] Some by (auto simp: d'_def e_def)
  qed
  have outer: "\<exists>Y. waiting_promotions m = image_mset (\<lambda>(_, e). promotion_transfer e) (mset d) + Y \<and>
      waiting_promotions (queue_promotion i ctx ks ids m) = image_mset (\<lambda>(_, e). promotion_transfer e) (mset d') + Y"
  proof (cases "map_of ?subs i")
    case None
    then have "AList.update i d' ?subs = ?subs @ [(i, d')]" by (intro update_fresh) (simp add: map_of_eq_None_iff)
    then show ?thesis using None by (simp add: waiting_sum q d_def)
  next
    case (Some d0)
    obtain M where "mset ?subs = add_mset (i, d0) M" using map_of_SomeD [OF Some] by (metis insert_DiffM set_mset_mset)
    then show ?thesis using mset_update [OF dd Some, of d'] Some by (auto simp: waiting_sum q d_def)
  qed
  obtain Z where "waiting_promotions (queue_promotion i ctx ks ids m) = add_mset (promotion_transfer e') Z"
    "waiting_promotions m = add_mset (promotion_transfer e) Z \<or> waiting_promotions m = Z \<and> promotion_transfer e = ([], [])"
    using inner outer by (auto simp: promotion_transfer_def)
  then have "ledger (po_get P (om_policy (tm_primary_tier m)))
      (promotions m + waiting_promotions (queue_promotion i ctx ks ids m) + S) (cascades m + L)"
    using assms ledger_merge [of _ "pp_keys e" "pp_block_ids e" ks ids "promotions m + Z + S" "cascades m + L"]
      ledger_trivial [of _ "add_mset (ks, ids) (promotions m + Z + S)" "cascades m + L"]
    by (auto simp: transfers_inv_def promotion_transfer_def e'_def add_mset_commute)
  moreover have "distinct (dkeys (AList.update i d' ?subs))" using dd by (rule distinct_update)
  moreover have "\<forall>x \<in> set (AList.update i d' ?subs). distinct (dkeys (snd x))"
  proof
    fix x assume "x \<in> set (AList.update i d' ?subs)"
    then have "x = (i, d') \<or> x \<in> set ?subs" by (rule in_set_update)
    then show "distinct (dkeys (snd x))" using dn distinct_update [OF dd', of ?c e'] by (auto simp: d'_def)
  qed
  ultimately show ?thesis using assms by (simp add: transfers_inv_def q)
qed

lemma accounted_writer: "accounted v (c + w) r \<Longrightarrow> c \<noteq> 0 \<Longrightarrow> w = 0 \<and> r = 0 \<and> (\<exists>b. v = Some b)"
  by (cases v) auto

context cache_policy
begin

abbreviation tinv :: "('k, 'p, 't) tiering_manager \<Rightarrow> ('k list \<times> int list) multiset \<Rightarrow> ('k list \<times> int list) multiset \<Rightarrow> bool" where
  "tinv \<equiv> transfers_inv proper entries ops"

abbreviation primary_holds :: "('k, 'p, 't) tiering_manager \<Rightarrow> 'k \<Rightarrow> block_status option" where
  "primary_holds m \<equiv> held (tm_primary_tier m)"

lemma tinv_primary:
  assumes "tinv m L S" "inv p"
    "ledger (held p) (promotions m + waiting_promotions m + S') (cascades m + L')"
  shows "tinv (m\<lparr>tm_primary_tier := p\<rparr>) L' S'"
  using assms by (simp add: transfers_inv_def)

lemma tinv_same_held: "tinv m L S \<Longrightarrow> inv p \<Longrightarrow> held p = primary_holds m \<Longrightarrow> tinv (m\<lparr>tm_primary_tier := p\<rparr>) L S"
  by (simp add: transfers_inv_def)

lemma tinv_balanced: "tinv m L S \<Longrightarrow>
    balanced (primary_holds m) (keys_of (promotions m + waiting_promotions m + S)) (keys_of (cascades m + L))"
  by (simp add: transfers_inv_def ledger_def)

text \<open>A read of the primary tier, by the GPU or by a tier.\<close>

lemma tinv_prepare_load:
  assumes "tinv m L S" "\<forall>k \<in> set ks. \<exists>b. primary_holds m k = Some b \<and> is_ready b"
  shows "\<exists>ids p. prepare_load ops ks (tm_primary_tier m) = Inr (ids, p) \<and>
    tinv (m\<lparr>tm_primary_tier := p\<rparr>) (add_mset (ks, ids) L) S \<and> slot (held p) = slot (primary_holds m) \<and>
    length ids = length ks"
proof -
  have i: "inv (tm_primary_tier m)" using assms(1) by (simp add: transfers_inv_def)
  have led: "ledger (primary_holds m) (promotions m + waiting_promotions m + S) (cascades m + L)"
    using assms(1) by (simp add: transfers_inv_def)
  obtain ids p where p: "prepare_load ops ks (tm_primary_tier m) = Inr (ids, p)" "inv p"
    "balanced (held p) (keys_of (promotions m + waiting_promotions m + S)) (mset ks + keys_of (cascades m + L))"
    "slot (held p) = slot (primary_holds m)" "at_home (primary_holds m) (ks, ids)"
    using prepare_load_ledger [OF i tinv_balanced [OF assms(1)] assms(2)] by blast
  have "ledger (held p) (promotions m + waiting_promotions m + S) (cascades m + add_mset (ks, ids) L)"
    by (rule ledger_step [OF led]) (use p in \<open>auto simp: add.left_commute at_home_def\<close>)
  from tinv_primary [OF assms(1) p(2) this] p at_home_length [OF p(5)] show ?thesis by auto
qed

lemma tinv_complete_load:
  assumes "tinv m L S" "(ks, ids) \<in># L" "mset ks' = mset ks"
  shows "\<exists>p. complete_load ops ks' (tm_primary_tier m) = Inr p \<and> tinv (m\<lparr>tm_primary_tier := p\<rparr>) (L - {#(ks, ids)#}) S"
proof -
  obtain L' where L: "L = add_mset (ks, ids) L'" using assms(2) by (metis insert_DiffM)
  have i: "inv (tm_primary_tier m)" and
    led: "ledger (primary_holds m) (promotions m + waiting_promotions m + S) (cascades m + L)"
    using assms(1) by (simp_all add: transfers_inv_def)
  have "balanced (primary_holds m) (keys_of (promotions m + waiting_promotions m + S)) (mset ks' + keys_of (cascades m + L'))"
    using tinv_balanced [OF assms(1)] L assms(3) by (simp add: add.left_commute)
  then obtain p where p: "complete_load ops ks' (tm_primary_tier m) = Inr p" "inv p"
    "balanced (held p) (keys_of (promotions m + waiting_promotions m + S)) (keys_of (cascades m + L'))"
    "slot (held p) = slot (primary_holds m)"
    using complete_load_ledger [OF i] by blast
  have "ledger (held p) (promotions m + waiting_promotions m + S) (cascades m + L')"
    by (rule ledger_step [OF led]) (use p L in auto)
  from tinv_primary [OF assms(1) p(2) this] p(1) L show ?thesis by auto
qed

lemma tinv_complete_store:
  assumes "tinv m L S" "(ks, ids) \<in># S" "mset ks' = mset ks"
  shows "\<exists>p. complete_store ops ks' success (tm_primary_tier m) = Inr p \<and>
    tinv (m\<lparr>tm_primary_tier := p\<rparr>) L (S - {#(ks, ids)#}) \<and>
    (success \<longrightarrow> (\<forall>k \<in> set ks'. \<exists>b. held p k = Some b \<and> is_ready b))"
proof -
  obtain S' where S: "S = add_mset (ks, ids) S'" using assms(2) by (metis insert_DiffM)
  let ?W = "keys_of (promotions m + waiting_promotions m + S')" and ?R = "keys_of (cascades m + L)"
  have i: "inv (tm_primary_tier m)" and
    led: "ledger (primary_holds m) (promotions m + waiting_promotions m + S) (cascades m + L)"
    using assms(1) by (simp_all add: transfers_inv_def)
  have bal: "balanced (primary_holds m) (mset ks' + ?W) ?R"
    using tinv_balanced [OF assms(1)] S assms(3) by (simp add: add.left_commute)
  then obtain p where p: "complete_store ops ks' success (tm_primary_tier m) = Inr p" "inv p" "balanced (held p) ?W ?R"
    "\<forall>k. k \<notin> set ks' \<or> success \<longrightarrow> slot (held p) k = slot (primary_holds m) k"
    using complete_store_ledger [OF i] by blast
  have new: "k \<notin># ?W + ?R \<and> (\<exists>b. primary_holds m k = Some b)" if "k \<in> set ks'" for k
  proof -
    have "accounted (primary_holds m k) (count (mset ks') k + count ?W k) (count ?R k)"
      using balanced_at [OF bal, of k] by simp
    moreover have "count (mset ks') k \<noteq> 0" using that by (simp add: count_mset_0_iff)
    ultimately have "count ?W k = 0 \<and> count ?R k = 0 \<and> (\<exists>b. primary_holds m k = Some b)"
      by (rule accounted_writer)
    then show ?thesis unfolding count_eq_zero_iff union_iff by blast
  qed
  have "ledger (held p) (promotions m + waiting_promotions m + S') (cascades m + L)"
    by (rule ledger_step [OF led p(3)]) (use new p(4) S in auto)
  moreover have "\<exists>b. held p k = Some b \<and> is_ready b" if s: "success" and k: "k \<in> set ks'" for k
  proof -
    have "slot (held p) k = slot (primary_holds m) k" using p(4) s by blast
    then obtain b where b: "held p k = Some b" using new [OF k] by (cases "held p k") (auto simp: slot_def)
    then show ?thesis using balanced_ready [OF p(3) b] new [OF k] by auto
  qed
  ultimately show ?thesis using tinv_primary [OF assms(1) p(2)] p(1) S by auto
qed

lemma tinv_prepare_store:
  assumes "tinv m L S" "distinct ks"
  shows "\<exists>r p. prepare_store ops ks (tm_primary_tier m) = Inr (r, p) \<and>
    (case r of
       None \<Rightarrow> tinv (m\<lparr>tm_primary_tier := p\<rparr>) L S
     | Some out \<Rightarrow> tinv (m\<lparr>tm_primary_tier := p\<rparr>) L (add_mset (ps_keys_to_store out, ps_store_spec out) S))"
proof -
  let ?W = "keys_of (promotions m + waiting_promotions m + S)" and ?R = "keys_of (cascades m + L)"
  have i: "inv (tm_primary_tier m)" and
    led: "ledger (primary_holds m) (promotions m + waiting_promotions m + S) (cascades m + L)"
    using assms(1) by (simp_all add: transfers_inv_def)
  obtain r p where r: "prepare_store ops ks (tm_primary_tier m) = Inr (r, p)" "inv p"
    "case r of
       None \<Rightarrow> held p = primary_holds m
     | Some out \<Rightarrow> balanced (held p) (mset (ps_keys_to_store out) + ?W) ?R \<and>
         at_home (held p) (ps_keys_to_store out, ps_store_spec out) \<and> distinct (ps_keys_to_store out) \<and>
         set (ps_keys_to_store out) \<subseteq> set ks \<and> (\<forall>k \<in> set (ps_keys_to_store out). primary_holds m k = None) \<and>
         (\<forall>k \<in># ?W + ?R. slot (held p) k = slot (primary_holds m) k)"
    using prepare_store_ledger [OF i tinv_balanced [OF assms(1)] assms(2)] by blast
  show ?thesis
  proof (cases r)
    case None
    then show ?thesis using r tinv_same_held [OF assms(1)] by simp
  next
    case (Some out)
    have "ledger (held p) (promotions m + waiting_promotions m + add_mset (ps_keys_to_store out, ps_store_spec out) S) (cascades m + L)"
      by (rule ledger_step [OF led]) (use r(3) Some in \<open>auto simp: add.left_commute\<close>)
    then show ?thesis using r Some tinv_primary [OF assms(1) r(2)] by simp
  qed
qed

lemma forget_job:
  assumes "tinv m L S" "map_of (tm_transfer_jobs m) jid = Some j"
  shows "tinv (m\<lparr>tm_transfer_jobs := AList.delete jid (tm_transfer_jobs m)\<rparr>)
    (if jm_is_promotion j then L else add_mset (jm_keys j, jm_block_ids j) L)
    (if jm_is_promotion j then add_mset (jm_keys j, jm_block_ids j) S else S)"
proof -
  have "mset (tm_transfer_jobs m) = add_mset (jid, j) (mset (AList.delete jid (tm_transfer_jobs m)))"
    by (rule mset_delete [OF _ assms(2)]) (use assms(1) in \<open>simp add: transfers_inv_def\<close>)
  moreover have "set (AList.delete jid (tm_transfer_jobs m)) \<subseteq> set (tm_transfer_jobs m)" by (auto simp: AList.delete_eq)
  ultimately show ?thesis using assms(1)
    by (auto simp: transfers_inv_def promotions_def cascades_def waiting_promotions_def distinct_delete)
qed

lemma finish_job_inv:
  assumes "tinv m L S" "map_of (tm_transfer_jobs m) (jr_job_id r) = Some j"
  shows "\<exists>m'. finish_job ops r m = Inr m' \<and> tinv m' L S \<and>
    tm_transfer_jobs m' = AList.delete (jr_job_id r) (tm_transfer_jobs m)"
proof -
  let ?m = "m\<lparr>tm_transfer_jobs := AList.delete (jr_job_id r) (tm_transfer_jobs m)\<rparr>"
  note forget = forget_job [OF assms]
  show ?thesis
  proof (cases "jm_is_promotion j")
    case True
    then have "tinv ?m L (add_mset (jm_keys j, jm_block_ids j) S)" using forget by simp
    from tinv_complete_store [OF this _ refl, where ks = "jm_keys j" and ids = "jm_block_ids j" and success = "jr_success r"] True assms(2)
    show ?thesis by (auto simp: finish_job_def Let_def)
  next
    case False
    then have "tinv ?m (add_mset (jm_keys j, jm_block_ids j) L) S" using forget by simp
    from tinv_complete_load [OF this _ refl, where ks = "jm_keys j" and ids = "jm_block_ids j"] False assms(2)
    show ?thesis by (auto simp: finish_job_def Let_def)
  qed
qed

lemma finish_job_keeps: "finish_job ops r m = Inr m' \<Longrightarrow> tinv m L S \<Longrightarrow> tinv m' L S"
  using finish_job_inv [of m L S r] by (cases "map_of (tm_transfer_jobs m) (jr_job_id r)") (auto simp: finish_job_def)

lemma poll_tier_keeps: "poll_tier ops T i m = Inr m' \<Longrightarrow> tinv m L S \<Longrightarrow> tinv m' L S"
  unfolding poll_tier_def
  by (cases "ti_get_finished_jobs T (tm_secondary_tiers m ! i)")
    (auto elim!: rfold_inv [where P = "\<lambda>m. tinv m L S"] intro: finish_job_keeps)

lemma process_keeps: "process_finished_jobs ops T m = Inr m' \<Longrightarrow> tinv m L S \<Longrightarrow> tinv m' L S"
  unfolding process_finished_jobs_def
  by (erule rfold_inv [where P = "\<lambda>m. tinv m L S"]) (auto intro: poll_tier_keeps)

lemma maybe_process_keeps: "maybe_process_finished_jobs ops T m = Inr m' \<Longrightarrow> tinv m L S \<Longrightarrow> tinv m' L S"
  by (auto simp: maybe_process_finished_jobs_def split: if_splits intro: process_keeps)

lemma initiate_promotion_keeps: "initiate_promotion ops i key ctx m = Inr (started, m') \<Longrightarrow> tinv m L S \<Longrightarrow> tinv m' L S"
  using tinv_prepare_store [of m L S "[key]"]
  by (auto simp: initiate_promotion_def Let_def res_simps split: option.splits intro: queue_promotion_inv)

lemma lookup_tiers_keeps:
  "lookup_tiers ops T key ctx any_none is m = Inr (r, m') \<Longrightarrow> tinv m L S \<Longrightarrow> tinv m' L S"
proof (induction "is" arbitrary: any_none m)
  case (Cons i "is")
  obtain a t where t: "ti_lookup T key ctx (tm_secondary_tiers m ! i) = (a, t)" by fastforce
  have "tinv (set_tier i t m) L S" using Cons.prems(2) by simp
  then show ?case
    using Cons.prems(1) t Cons.IH [of _ "set_tier i t m"] initiate_promotion_keeps [of i key ctx "set_tier i t m"]
    by (auto simp: Let_def res_simps split: option.splits bool.splits)
qed simp

lemma om_lookup_held: "om_lookup ops key m = Inr (r, m') \<Longrightarrow> held m' = held m"
  by (auto simp: om_lookup_def count_lookup_def res_simps split: option.splits if_splits)

lemma primary_lookup_keeps:
  "om_lookup ops key (tm_primary_tier m) = Inr (r, p) \<Longrightarrow> tinv m L S \<Longrightarrow> tinv (m\<lparr>tm_primary_tier := p\<rparr>) L S"
  using tinv_same_held inv_lookup om_lookup_held by (metis transfers_inv_def)

lemma lookup_keeps: "tm_lookup ops T key ctx m = Inr (r, m') \<Longrightarrow> tinv m L S \<Longrightarrow> tinv m' L S"
  by (auto simp: tm_lookup_def Let_def res_simps split: option.splits bool.splits
    dest!: maybe_process_keeps primary_lookup_keeps lookup_tiers_keeps)

lemma flush_entries_keep:
  assumes "rfold (flush_entry T) es m = Inr m'"
    and "tinv (m\<lparr>tm_pending_load_submissions := []\<rparr>) L (mset (map (\<lambda>(_, e). promotion_transfer e) es) + S)"
  shows "tinv (m'\<lparr>tm_pending_load_submissions := []\<rparr>) L S"
  using assms
proof (induction es arbitrary: m)
  case (Cons x es)
  obtain i e where x: "x = (i, e)" by (cases x)
  obtain m1 where m1: "flush_entry T (i, e) m = Inr m1" "rfold (flush_entry T) es m1 = Inr m'"
    using Cons.prems(1) x by (auto simp: res_simps)
  have "submit_job (ti_submit_load T) i True (pp_keys e) (pp_block_ids e) (pp_req_context e)
      (m\<lparr>tm_pending_load_submissions := []\<rparr>) = Inr (m1\<lparr>tm_pending_load_submissions := []\<rparr>)"
    using m1(1) by (auto simp: flush_entry_def submit_job_def Let_def res_simps)
  from submit_job_inv [OF this, of proper entries ops L "mset (map (\<lambda>(_, e). promotion_transfer e) es) + S"]
  have "tinv (m1\<lparr>tm_pending_load_submissions := []\<rparr>) L (mset (map (\<lambda>(_, e). promotion_transfer e) es) + S)"
    using Cons.prems(2) x by (simp flip: promotion_transfer_def)
  then show ?case using Cons.IH [OF m1(2)] by simp
qed simp

lemma flush_keeps: "flush_pending_promotions T m = Inr m' \<Longrightarrow> tinv m L S \<Longrightarrow> tinv m' L S"
proof -
  assume f: "flush_pending_promotions T m = Inr m'" and inv: "tinv m L S"
  obtain m1 where m1: "rfold (flush_entry T) (pending_entries (tm_pending_load_submissions m)) m = Inr m1"
    "m' = m1\<lparr>tm_pending_load_submissions := []\<rparr>" using f by (auto simp: flush_pending_promotions_def res_simps)
  have "tinv (m\<lparr>tm_pending_load_submissions := []\<rparr>) L
      (mset (map (\<lambda>(_, e). promotion_transfer e) (pending_entries (tm_pending_load_submissions m))) + S)"
    using inv unfolding waiting_promotions_def [symmetric] by (simp add: transfers_inv_def add.assoc)
  from flush_entries_keep [OF m1(1) this] show ?thesis by (simp add: m1(2))
qed

lemma schedule_end_keeps: "tm_on_schedule_end ops T m = Inr m' \<Longrightarrow> tinv m L S \<Longrightarrow> tinv m' L S"
  by (auto simp: tm_on_schedule_end_def res_simps dest!: maybe_process_keeps flush_keeps)

lemma cascade_keeps:
  assumes "cascade ops T ks ctx i m = Inr m'" "tinv m L S" shows "tinv m' L S"
proof -
  obtain ids p where p: "prepare_load ops ks (tm_primary_tier m) = Inr (ids, p)"
    "submit_job (ti_submit_store T) i False ks ids ctx (m\<lparr>tm_primary_tier := p\<rparr>) = Inr m'"
    using assms(1) by (auto simp: cascade_def res_simps)
  have "\<forall>k \<in> set ks. \<exists>b. primary_holds m k = Some b \<and> is_ready b"
    by (rule prepare_load_ready [OF p(1)]) (use assms(2) in \<open>simp add: transfers_inv_def\<close>)
  from tinv_prepare_load [OF assms(2) this] p(1) submit_job_inv [OF p(2), of proper entries ops L S]
  show ?thesis by simp
qed

lemma cascades_keep: "rfold (cascade ops T ks ctx) is m = Inr m' \<Longrightarrow> tinv m L S \<Longrightarrow> tinv m' L S"
  by (erule rfold_inv [where P = "\<lambda>m. tinv m L S"]) (auto intro: cascade_keeps)

lemma ready_one_keeps: "ready_one ops k (rs, m) = Inr (rs', m') \<Longrightarrow> tinv m L S \<Longrightarrow> tinv m' L S"
  using primary_lookup_keeps by (auto simp: ready_one_def res_simps)

lemma ready_keys_keep: "rfold (ready_one ops) ks (rs, m) = Inr (rs', m') \<Longrightarrow> tinv m L S \<Longrightarrow> tinv m' L S"
proof (induction ks arbitrary: rs m)
  case (Cons k ks)
  then obtain rs1 m1 where "ready_one ops k (rs, m) = Inr (rs1, m1)" "rfold (ready_one ops) ks (rs1, m1) = Inr (rs', m')"
    by (auto simp: res_simps)
  then show ?case using Cons.IH ready_one_keeps Cons.prems(2) by blast
qed simp

lemma cascade_existing_keeps:
  "cascade_existing_blocks_to_request_level_tiers ops T ks ctx tiers m = Inr m' \<Longrightarrow> tinv m L S \<Longrightarrow> tinv m' L S"
  by (auto simp: cascade_existing_blocks_to_request_level_tiers_def res_simps split: if_splits
    dest!: ready_keys_keep cascades_keep)

lemma prepare_store_keeps:
  assumes "tm_prepare_store ops T ks ctx m = Inr (r, m')" "tinv m L S" "distinct ks"
  shows "case r of None \<Rightarrow> tinv m' L S
    | Some out \<Rightarrow> tinv m' L (add_mset (ps_keys_to_store out, ps_store_spec out) S)"
proof -
  obtain m1 where m1: "maybe_process_finished_jobs ops T m = Inr m1" using assms(1) by (auto simp: tm_prepare_store_def res_simps)
  have "tinv m1 L S" by (rule maybe_process_keeps [OF m1 assms(2)])
  from tinv_prepare_store [OF this assms(3)] show ?thesis
    using assms(1) m1
    by (auto simp: tm_prepare_store_def Let_def res_simps split: option.splits if_splits dest: cascade_existing_keeps)
qed

lemma complete_store_keeps:
  assumes "tm_complete_store ops T ks' ctx success m = Inr m'" "tinv m L S" "(ks, ids) \<in># S" "mset ks' = mset ks"
  shows "tinv m' L (S - {#(ks, ids)#})"
  using tinv_complete_store [OF assms(2-4), of success] assms(1)
  by (auto simp: tm_complete_store_def Let_def res_simps split: if_splits dest: cascades_keep)

lemma prepare_load_keeps:
  assumes "tm_prepare_load ops T ks ctx m = Inr (ids, m')" "tinv m L S"
  shows "tinv m' (add_mset (ks, ids) L) S"
proof -
  obtain m1 p where m1: "maybe_process_finished_jobs ops T m = Inr m1" "prepare_load ops ks (tm_primary_tier m1) = Inr (ids, p)"
    "m' = m1\<lparr>tm_primary_tier := p\<rparr>" using assms(1) by (auto simp: tm_prepare_load_def res_simps)
  have inv: "tinv m1 L S" by (rule maybe_process_keeps [OF m1(1) assms(2)])
  have "\<forall>k \<in> set ks. \<exists>b. primary_holds m1 k = Some b \<and> is_ready b"
    by (rule prepare_load_ready [OF m1(2)]) (use inv in \<open>simp add: transfers_inv_def\<close>)
  from tinv_prepare_load [OF inv this] m1(2,3) show ?thesis by auto
qed

lemma complete_load_keeps:
  assumes "tm_complete_load ops ks' m = Inr m'" "tinv m L S" "(ks, ids) \<in># L" "mset ks' = mset ks"
  shows "tinv m' (L - {#(ks, ids)#}) S"
  using tinv_complete_load [OF assms(2-4)] assms(1) by (auto simp: tm_complete_load_def)

lemma touch_held: "inv m \<Longrightarrow> held (om_touch ops ks m) = held m"
proof -
  assume m: "inv m"
  have t: "proper (om_policy (om_touch ops ks m))" "mset (entries (om_policy (om_touch ops ks m))) = mset (entries (om_policy m))"
    using touch_law [OF inv_proper [OF m], of ks] by (simp_all add: om_touch_def)
  show ?thesis
    using distinct_same_items(2) [OF t(2) distinct_law [OF t(1)]] t(1) m by (simp add: fun_eq_iff get_law inv_get)
qed

lemma touch_keeps: "tinv m L S \<Longrightarrow> tinv (tm_touch ops T ks ctx m) L S"
  using tinv_same_held [of m L S "om_touch ops ks (tm_primary_tier m)"] touch_held inv_touch
  by (simp add: tm_touch_def transfers_inv_def [of _ _ _ m])

lemma new_request_keeps: "tinv m L S \<Longrightarrow> tinv (snd (tm_on_new_request T ctx m)) L S"
proof -
  assume "tinv m L S"
  then have "tinv (fold (ask_tier T ctx) is m) L S" for "is"
    by (induction "is" arbitrary: m) (auto simp: ask_tier_def Let_def split: prod.splits if_splits)
  then show ?thesis by (simp add: tm_on_new_request_def Let_def)
qed

lemma take_events_keeps: "tinv m L S \<Longrightarrow> tinv (snd (tm_take_events m)) L S"
  by (auto simp: tm_take_events_def om_take_events_def Let_def transfers_inv_def promotions_def cascades_def
    waiting_promotions_def split: option.splits)

lemma reset_starts_over:
  assumes "tm_reset_cache ops T m = Inr m'" "tinv m L S" "tm_transfer_jobs m' = []"
  shows "tinv m' {#} {#}"
proof -
  obtain m1 where m1: "process_finished_jobs ops T (m\<lparr>tm_secondary_tiers := map (ti_drain_jobs T) (tm_secondary_tiers m)\<rparr>) = Inr m1"
    "tm_primary_tier m' = om_reset_cache ops (tm_primary_tier m1)" "tm_transfer_jobs m' = tm_transfer_jobs m1"
    "tm_pending_load_submissions m' = []"
    using assms(1) by (auto simp: tm_reset_cache_def res_simps)
  have "tinv m1 L S" by (rule process_keeps [OF m1(1)]) (use assms(2) in simp)
  then have i: "inv (tm_primary_tier m1)" by (simp add: transfers_inv_def)
  have "proper (om_policy (tm_primary_tier m'))" "entries (om_policy (tm_primary_tier m')) = []"
    using clear_law [OF inv_proper [OF i]] m1(2) by (simp_all add: om_reset_cache_def)
  then have "primary_holds m' = Map.empty" by (simp add: fun_eq_iff get_law)
  moreover have "inv (tm_primary_tier m')" using inv_reset [OF i] m1(2) by simp
  ultimately show ?thesis using assms(3) m1(4)
    by (simp add: transfers_inv_def promotions_def cascades_def waiting_promotions_def pending_entries_def ledger_def balanced_def)
qed

end

section \<open>The histories of the manager\<close>

text \<open>What the connector does, in any order.  \<open>loads\<close> and \<open>stores\<close> are the transfers of the GPU it has
  prepared and not completed: it completes only those, with their keys in the order of a set.  A reset
  ends the transfers of the GPU, and as \<open>drain_jobs\<close> promises, no job of a tier is left.\<close>

inductive tiering_history ::
  "('k, 'p) policy_ops \<Rightarrow> ('k, 't) tier_ops \<Rightarrow> ('k, 'p, 't) tiering_manager
     \<Rightarrow> ('k list \<times> int list) multiset \<Rightarrow> ('k list \<times> int list) multiset \<Rightarrow> bool" for P T where
  created: "tiering_history P T (new_tiering_manager (new_offload_manager P n e t s) tiers e') {#} {#}"
| looked_up: "tiering_history P T m L S \<Longrightarrow> tm_lookup P T k ctx m = Inr (r, m') \<Longrightarrow> tiering_history P T m' L S"
| load_prepared: "tiering_history P T m L S \<Longrightarrow> tm_prepare_load P T ks ctx m = Inr (ids, m') \<Longrightarrow>
    tiering_history P T m' (add_mset (ks, ids) L) S"
| load_completed: "tiering_history P T m L S \<Longrightarrow> (ks, ids) \<in># L \<Longrightarrow> mset ks' = mset ks \<Longrightarrow>
    tm_complete_load P ks' m = Inr m' \<Longrightarrow> tiering_history P T m' (L - {#(ks, ids)#}) S"
| store_refused: "tiering_history P T m L S \<Longrightarrow> distinct ks \<Longrightarrow> tm_prepare_store P T ks ctx m = Inr (None, m') \<Longrightarrow>
    tiering_history P T m' L S"
| store_prepared: "tiering_history P T m L S \<Longrightarrow> distinct ks \<Longrightarrow> tm_prepare_store P T ks ctx m = Inr (Some out, m') \<Longrightarrow>
    tiering_history P T m' L (add_mset (ps_keys_to_store out, ps_store_spec out) S)"
| store_completed: "tiering_history P T m L S \<Longrightarrow> (ks, ids) \<in># S \<Longrightarrow> mset ks' = mset ks \<Longrightarrow>
    tm_complete_store P T ks' ctx success m = Inr m' \<Longrightarrow> tiering_history P T m' L (S - {#(ks, ids)#})"
| touched: "tiering_history P T m L S \<Longrightarrow> tiering_history P T (tm_touch P T ks ctx m) L S"
| request_added: "tiering_history P T m L S \<Longrightarrow> tiering_history P T (snd (tm_on_new_request T ctx m)) L S"
| request_finished: "tiering_history P T m L S \<Longrightarrow> tiering_history P T (tm_on_request_finished T ctx m) L S"
| step_ended: "tiering_history P T m L S \<Longrightarrow> tm_on_schedule_end P T m = Inr m' \<Longrightarrow> tiering_history P T m' L S"
| events_taken: "tiering_history P T m L S \<Longrightarrow> tiering_history P T (snd (tm_take_events m)) L S"
| reset: "tiering_history P T m L S \<Longrightarrow> tm_reset_cache P T m = Inr m' \<Longrightarrow> tm_transfer_jobs m' = [] \<Longrightarrow>
    tiering_history P T m' {#} {#}"

context cache_policy
begin

lemma tiering_history_inv: "tiering_history ops T m L S \<Longrightarrow> tinv m L S"
proof (induction rule: tiering_history.induct)
  case (created n e t s tiers e')
  have "inv (new_offload_manager ops n e t s)" by (rule inv_new)
  moreover have "held (new_offload_manager ops n e t s) = Map.empty"
    using new_law [of n] get_law [of "po_new ops n"] by (simp add: fun_eq_iff new_offload_manager_def)
  ultimately show ?case
    by (simp add: transfers_inv_def new_tiering_manager_def promotions_def cascades_def waiting_promotions_def
      pending_entries_def ledger_def balanced_def)
next
  case looked_up
  then show ?case using lookup_keeps by blast
next
  case load_prepared
  then show ?case using prepare_load_keeps by blast
next
  case load_completed
  then show ?case using complete_load_keeps by blast
next
  case store_refused
  then show ?case using prepare_store_keeps by fastforce
next
  case store_prepared
  then show ?case using prepare_store_keeps by fastforce
next
  case store_completed
  then show ?case using complete_store_keeps by blast
next
  case touched
  then show ?case using touch_keeps by blast
next
  case request_added
  then show ?case using new_request_keeps by blast
next
  case request_finished
  then show ?case by (simp add: tm_on_request_finished_def)
next
  case step_ended
  then show ?case using schedule_end_keeps by blast
next
  case events_taken
  then show ?case using take_events_keeps by blast
next
  case reset
  then show ?case using reset_starts_over by blast
qed

end

section \<open>A prefix longer than the primary tier\<close>

text \<open>In every step the connector looks up the blocks of a request, marks them as used and ends the step.\<close>

definition a_request :: req_context where
  "a_request = \<lparr>rc_req_id = ''r''\<rparr>"

definition ask ::
  "('k, 'p) policy_ops \<Rightarrow> ('k, 't) tier_ops \<Rightarrow> 'k list \<Rightarrow> ('k, 'p, 't) tiering_manager
     \<Rightarrow> (int option \<times> ('k, 'p, 't) tiering_manager) res" where
  "ask P T keys m =
     rbind (maximal_prefix_lookup (\<lambda>k. tm_lookup P T k a_request) keys m) (\<lambda>(r, m1).
     rbind (tm_on_schedule_end P T (tm_touch P T keys a_request m1)) (\<lambda>m2. Inr (r, m2)))"

fun ask_again ::
  "('k, 'p) policy_ops \<Rightarrow> ('k, 't) tier_ops \<Rightarrow> 'k list \<Rightarrow> nat \<Rightarrow> ('k, 'p, 't) tiering_manager
     \<Rightarrow> (int option list \<times> ('k, 'p, 't) tiering_manager) res" where
  "ask_again P T keys 0 m = Inr ([], m)"
| "ask_again P T keys (Suc n) m =
     rbind (ask P T keys m) (\<lambda>(r, m1).
     rbind (ask_again P T keys n m1) (\<lambda>(rs, m2). Inr (r # rs, m2)))"

text \<open>A primary tier with two slots, in front of a tier that has three blocks.\<close>

definition two_slots :: "(nat, nat lru_policy, nat example_tier) tiering_manager" where
  "two_slots = new_tiering_manager (new_offload_manager lru_ops 2 False 1 64000)
     [new_example_tier\<lparr>ex_blocks := [11, 12, 13]\<rparr>] False"

text \<open>The promotion of the blocks \<open>ks\<close> into the slots \<open>is\<close> has just been submitted as job \<open>c\<close>.\<close>

definition promoting ::
  "nat \<Rightarrow> nat list \<Rightarrow> int list \<Rightarrow> (nat, block_status) dict \<Rightarrow> nat list \<Rightarrow> int
     \<Rightarrow> (nat, nat lru_policy, nat example_tier) tiering_manager" where
  "promoting c ks is blocks evictable n =
     \<lparr>tm_primary_tier =
        \<lparr>om_num_blocks = 2, om_num_allocated_blocks = 2, om_free_list = [], om_events = None,
         om_policy = \<lparr>lp_evictable_blocks = evictable, lp_blocks = blocks\<rparr>, om_num_evictable_cache_blocks = n,
         om_store_threshold = 1, om_max_tracker_size = 64000, om_stores_skipped_in_current_batch = 0,
         om_counts = None\<rparr>,
      tm_secondary_tiers = [\<lparr>ex_blocks = [11, 12, 13], ex_completed_jobs = [\<lparr>jr_job_id = c, jr_success = True\<rparr>]\<rparr>],
      tm_job_id_counter = c + 1, tm_events = None,
      tm_transfer_jobs = [(c, \<lparr>jm_job_id = c, jm_keys = ks, jm_block_ids = is, jm_is_promotion = True,
        jm_req_context = a_request\<rparr>)],
      tm_pending_load_submissions = [], tm_processed_jobs_this_step = False, tm_request_level_tiers = []\<rparr>"

definition two_arriving :: "nat \<Rightarrow> int \<Rightarrow> int \<Rightarrow> (nat, nat lru_policy, nat example_tier) tiering_manager" where
  "two_arriving c s t = promoting c [11, 12] [s, t]
     [(11, \<lparr>bs_ref_cnt = - 1, bs_block_id = s\<rparr>), (12, \<lparr>bs_ref_cnt = - 1, bs_block_id = t\<rparr>)] [] 0"

definition third_arriving :: "nat \<Rightarrow> int \<Rightarrow> int \<Rightarrow> (nat, nat lru_policy, nat example_tier) tiering_manager" where
  "third_arriving c s t = promoting c [13] [s]
     [(12, \<lparr>bs_ref_cnt = 0, bs_block_id = t\<rparr>), (13, \<lparr>bs_ref_cnt = - 1, bs_block_id = s\<rparr>)] [12] 1"

lemmas lookup_defs = maximal_prefix_lookup_def tm_lookup_def maybe_process_finished_jobs_def process_finished_jobs_def
  poll_tier_def finish_job_def initiate_promotion_def queue_promotion_def om_lookup_def count_lookup_def

lemmas primary_defs = prepare_store_def filter_by_count_def make_room_def allocate_slots_for_def insert_blocks_def
  add_event_def om_get_num_free_blocks_def complete_store_def finish_store_one_def om_touch_def new_block_status_def
  is_ready_def

lemmas lru_defs = lru_ops_def lru_new_def lru_get_def lru_insert_def lru_touch_def lru_touch_one_def lru_evict_def
  lru_mark_evictable_def lru_write_def put_key_def move_key_to_end_def dict_index_def

lemmas step_defs = tm_touch_def tm_on_schedule_end_def flush_pending_promotions_def flush_entry_def pending_entries_def
  submit_job_def example_ops_def example_submit_load_def example_complete_def example_get_finished_jobs_def

lemma two_slots_start: "ask lru_ops example_ops [11, 12, 13] two_slots = Inr (None, two_arriving 0 0 1)"
  by (simp add: ask_def two_slots_def two_arriving_def promoting_def new_tiering_manager_def new_offload_manager_def
    new_example_tier_def a_request_def lookup_defs primary_defs lru_defs step_defs Let_def)

lemma two_arrived: "ask lru_ops example_ops [11, 12, 13] (two_arriving c s t) = Inr (None, third_arriving (c + 1) s t)"
  by (simp add: ask_def third_arriving_def two_arriving_def promoting_def a_request_def lookup_defs primary_defs
    lru_defs step_defs Let_def)

lemma third_arrived: "ask lru_ops example_ops [11, 12, 13] (third_arriving c s t) = Inr (None, two_arriving (c + 1) t s)"
  by (simp add: ask_def third_arriving_def two_arriving_def promoting_def a_request_def lookup_defs primary_defs
    lru_defs step_defs Let_def)
lemma never_arrives:
  "(\<exists>m. ask_again lru_ops example_ops [11, 12, 13] n (two_arriving c s t) = Inr (replicate n None, m)) \<and>
   (\<exists>m. ask_again lru_ops example_ops [11, 12, 13] n (third_arriving c s t) = Inr (replicate n None, m))"
proof (induction n arbitrary: c s t)
  case (Suc n)
  show ?case using Suc.IH [of "c + 1" s t] Suc.IH [of "c + 1" t s] by (auto simp: two_arrived third_arrived)
qed simp

text \<open>Claim C20.  A request whose offloaded prefix is longer than the primary tier is never admitted.  Two slots,
  three blocks in the secondary tier, one request: in the first step two blocks are promoted and the
  third finds no room; when they have arrived, the lookup of the third block evicts the first one to
  make room, so in the step after that the first block evicts the second, and so on.  Every lookup
  tells the scheduler to ask again later, however often it asks, although loading the two blocks that
  fit and computing the rest would be possible at any time, as it is for the request of two blocks.\<close>

theorem long_prefix_is_never_admitted:
  "(\<exists>m. ask_again lru_ops example_ops [11, 12, 13] n two_slots = Inr (replicate n None, m)) \<and>
   (case ask_again lru_ops example_ops [11, 12] 2 two_slots of Inr (rs, _) \<Rightarrow> rs = [None, Some 2] | _ \<Rightarrow> False)"
proof
  show "\<exists>m. ask_again lru_ops example_ops [11, 12, 13] n two_slots = Inr (replicate n None, m)"
  proof (cases n)
    case (Suc k)
    obtain m where "ask_again lru_ops example_ops [11, 12, 13] k (two_arriving 0 0 1) = Inr (replicate k None, m)"
      using never_arrives by blast
    then show ?thesis by (simp add: Suc two_slots_start)
  qed simp
  show "case ask_again lru_ops example_ops [11, 12] 2 two_slots of Inr (rs, _) \<Rightarrow> rs = [None, Some 2] | _ \<Rightarrow> False"
    by code_simp
qed

section \<open>What the connector can rely on\<close>

text \<open>The transfers in flight, by what they do in the primary tier.\<close>

definition reading :: "('k, 'p, 't) tiering_manager \<Rightarrow> ('k list \<times> int list) multiset \<Rightarrow> ('k list \<times> int list) multiset" where
  "reading m loads = cascades m + loads"

definition writing :: "('k, 'p, 't) tiering_manager \<Rightarrow> ('k list \<times> int list) multiset \<Rightarrow> ('k list \<times> int list) multiset" where
  "writing m stores = promotions m + waiting_promotions m + stores"

definition transfers_pinned ::
  "('k, 'p) policy_ops \<Rightarrow> ('k, 'p, 't) tiering_manager \<Rightarrow> ('k list \<times> int list) multiset
     \<Rightarrow> ('k list \<times> int list) multiset \<Rightarrow> bool" where
  "transfers_pinned P m loads stores \<longleftrightarrow>
     (let get = po_get P (om_policy (tm_primary_tier m)) in
      (\<forall>(ks, ids) \<in># reading m loads. length ids = length ks \<and>
         (\<forall>(k, i) \<in> set (zip ks ids). \<exists>b. get k = Some b \<and> bs_block_id b = i \<and> bs_ref_cnt b \<ge> 1)) \<and>
      (\<forall>(ks, ids) \<in># writing m stores. length ids = length ks \<and>
         (\<forall>(k, i) \<in> set (zip ks ids). \<exists>b. get k = Some b \<and> bs_block_id b = i \<and> bs_ref_cnt b = - 1)) \<and>
      (\<forall>k b. get k = Some b \<longrightarrow>
         (if bs_ref_cnt b = - 1 then count (keys_of (writing m stores)) k = 1
          else bs_ref_cnt b = int (count (keys_of (reading m loads)) k))))"

lemma accounted_read: "accounted (Some b) w r \<Longrightarrow> r \<noteq> 0 \<Longrightarrow> 1 \<le> bs_ref_cnt b"
  by auto

lemma accounted_written: "accounted (Some b) w r \<Longrightarrow> w \<noteq> 0 \<Longrightarrow> bs_ref_cnt b = - 1"
  by auto

lemma at_home_zip: "at_home g (ks, ids) \<Longrightarrow> (k, i) \<in> set (zip ks ids) \<Longrightarrow> \<exists>b. g k = Some b \<and> bs_block_id b = i"
proof -
  assume h: "at_home g (ks, ids)" and z: "(k, i) \<in> set (zip ks ids)"
  obtain n where n: "n < length ks" "n < length ids" "ks ! n = k" "ids ! n = i" using z by (auto simp: set_zip)
  have "map (slot g) ks ! n = map Some ids ! n" using h by (simp add: at_home_def)
  then show ?thesis using n by (auto simp: slot_def)
qed

lemma ledger_pins:
  assumes "ledger (po_get P (om_policy (tm_primary_tier m))) (writing m stores) (reading m loads)"
  shows "transfers_pinned P m loads stores"
proof -
  let ?g = "po_get P (om_policy (tm_primary_tier m))"
  have bal: "balanced ?g (keys_of (writing m stores)) (keys_of (reading m loads))"
    and home: "\<And>x. x \<in># writing m stores + reading m loads \<Longrightarrow> at_home ?g x" using assms by (auto simp: ledger_def)
  have "length ids = length ks \<and> (\<forall>(k, i) \<in> set (zip ks ids). \<exists>b. ?g k = Some b \<and> bs_block_id b = i \<and> bs_ref_cnt b \<ge> 1)"
    if x: "(ks, ids) \<in># reading m loads" for ks ids
  proof -
    have "\<exists>b. ?g k = Some b \<and> bs_block_id b = i \<and> bs_ref_cnt b \<ge> 1" if z: "(k, i) \<in> set (zip ks ids)" for k i
    proof -
      obtain b where b: "?g k = Some b" "bs_block_id b = i" using at_home_zip [OF home z] x by auto
      have "count (keys_of (reading m loads)) k \<noteq> 0"
        using in_keys_of [OF x] set_zip_leftD [OF z] by (simp add: count_eq_zero_iff)
      then have "bs_ref_cnt b \<ge> 1" using balanced_at [OF bal, of k] unfolding b(1) by (rule accounted_read [rotated])
      then show ?thesis using b by blast
    qed
    moreover have "length ids = length ks" using at_home_length [OF home, of ks ids] x by simp
    ultimately show ?thesis by blast
  qed
  moreover have "length ids = length ks \<and> (\<forall>(k, i) \<in> set (zip ks ids). \<exists>b. ?g k = Some b \<and> bs_block_id b = i \<and> bs_ref_cnt b = - 1)"
    if x: "(ks, ids) \<in># writing m stores" for ks ids
  proof -
    have "\<exists>b. ?g k = Some b \<and> bs_block_id b = i \<and> bs_ref_cnt b = - 1" if z: "(k, i) \<in> set (zip ks ids)" for k i
    proof -
      obtain b where b: "?g k = Some b" "bs_block_id b = i" using at_home_zip [OF home z] x by auto
      have "count (keys_of (writing m stores)) k \<noteq> 0"
        using in_keys_of [OF x] set_zip_leftD [OF z] by (simp add: count_eq_zero_iff)
      then have "bs_ref_cnt b = - 1" using balanced_at [OF bal, of k] unfolding b(1) by (rule accounted_written [rotated])
      then show ?thesis using b by blast
    qed
    moreover have "length ids = length ks" using at_home_length [OF home, of ks ids] x by simp
    ultimately show ?thesis by blast
  qed
  moreover have "if bs_ref_cnt b = - 1 then count (keys_of (writing m stores)) k = 1
      else bs_ref_cnt b = int (count (keys_of (reading m loads)) k)" if "?g k = Some b" for k b
    using balanced_at [OF bal, of k] that by auto
  ultimately show ?thesis
    by (simp only: transfers_pinned_def Let_def Ball_def split_paired_All prod.case) blast
qed

context cache_policy
begin

lemma history_pins: "tiering_history ops T m L S \<Longrightarrow> transfers_pinned ops m L S \<and> slots_exclusive ops (tm_primary_tier m)"
  using tiering_history_inv [of T m L S] ledger_pins [of ops m S L] inv_exclusive [of "tm_primary_tier m"]
  by (simp add: transfers_inv_def writing_def reading_def)

end

text \<open>Claim C19.  In every history of the tiering manager, with either replacement policy and any secondary
  tiers, the transfers in flight work on blocks of their own: a transfer that reads, of the GPU or to a
  secondary tier, finds each of its blocks cached in the slot it was given and pinned; a transfer that
  writes, of the GPU or a promotion, finds each of its blocks reserved in its slot and is the only one to
  write it; the reference count of every readable block is the number of transfers that read it; and
  no two blocks share a slot.\<close>

theorem transfers_pin_their_blocks:
  "(tiering_history lru_ops T m loads stores \<longrightarrow>
      transfers_pinned lru_ops m loads stores \<and> slots_exclusive lru_ops (tm_primary_tier m)) \<and>
   (tiering_history arc_ops T a loads stores \<longrightarrow>
      transfers_pinned arc_ops a loads stores \<and> slots_exclusive arc_ops (tm_primary_tier a))"
  using lru.history_pins [of T m loads stores] arc.history_pins [of T a loads stores] by blast

text \<open>Two blocks are stored, and copied to the example tier: two transfers have read them.\<close>

definition small_tiers :: "(nat, nat lru_policy, nat example_tier) tiering_manager" where
  "small_tiers = new_tiering_manager (new_offload_manager lru_ops 2 False 1 64000) [new_example_tier, new_example_tier] False"

definition stored_and_copied :: "(nat, nat lru_policy, nat example_tier) tiering_manager res" where
  "stored_and_copied =
     rbind (tm_prepare_store lru_ops example_ops [11, 12] a_request small_tiers) (\<lambda>(_, m).
     tm_complete_store lru_ops example_ops [12, 11] a_request True m)"

lemma case_Inr: "(case x of Inl _ \<Rightarrow> False | Inr y \<Rightarrow> Q y) \<longleftrightarrow> (\<exists>y. x = Inr y \<and> Q y)"
  by (cases x) auto

lemma store_run:
  "case tm_prepare_store lru_ops example_ops [11, 12] a_request small_tiers of
     Inr (Some out, m) \<Rightarrow> ps_keys_to_store out = [11, 12] \<and> ps_store_spec out = [0, 1] \<and>
       (case tm_complete_store lru_ops example_ops [12, 11] a_request True m of
          Inr m' \<Rightarrow> map (\<lambda>(_, j). (jm_keys j, jm_block_ids j, jm_is_promotion j)) (tm_transfer_jobs m') =
            [([12, 11], [1, 0], False), ([12, 11], [1, 0], False)] | _ \<Rightarrow> False)
   | _ \<Rightarrow> False"
  by code_simp

theorem transfers_pin_their_blocks_witness:
  "\<exists>m. stored_and_copied = Inr m \<and> transfers_pinned lru_ops m {#} {#} \<and> slots_exclusive lru_ops (tm_primary_tier m) \<and>
     map (\<lambda>(_, j). (jm_keys j, jm_block_ids j, jm_is_promotion j)) (tm_transfer_jobs m) =
       [([12, 11], [1, 0], False), ([12, 11], [1, 0], False)]"
proof -
  obtain out m1 m where r: "tm_prepare_store lru_ops example_ops [11, 12] a_request small_tiers = Inr (Some out, m1)"
    "ps_keys_to_store out = [11, 12]" "ps_store_spec out = [0, 1]"
    "tm_complete_store lru_ops example_ops [12, 11] a_request True m1 = Inr m"
    "map (\<lambda>(_, j). (jm_keys j, jm_block_ids j, jm_is_promotion j)) (tm_transfer_jobs m) =
       [([12, 11], [1, 0], False), ([12, 11], [1, 0], False)]"
    using store_run by (auto simp: case_Inr split: option.splits prod.splits)
  have "tiering_history lru_ops example_ops m1 {#} {#([11, 12], [0, 1])#}"
    using tiering_history.store_prepared [OF tiering_history.created _ r(1) [unfolded small_tiers_def]] r(2,3) by simp
  then have "tiering_history lru_ops example_ops m {#} ({#([11, 12], [0, 1])#} - {#([11, 12], [0, 1])#})"
    by (rule tiering_history.store_completed [OF _ _ _ r(4)]) (simp_all add: add_mset_commute)
  then have p: "transfers_pinned lru_ops m {#} {#}" "slots_exclusive lru_ops (tm_primary_tier m)"
    using transfers_pin_their_blocks [of example_ops m "{#}" "{#}"] by simp_all
  have "stored_and_copied = Inr m" using r(1,4) by (simp add: stored_and_copied_def)
  note s = conjI [OF this conjI [OF p(1) conjI [OF p(2) r(5)]]]
  show ?thesis by (rule exI [of _ m], rule s)
qed

end
