(* ===== verification/Spec2Isabelle.thy ===== *)
theory Spec2Isabelle
  imports WarmMigration HybridSearch KVLifecycle Startup RequestQueue TieringProperties
begin

text \<open>
  Verification of the hierarchical KV cache in a modified vLLM, \<^verbatim>\<open>src/external/vllm\<close>.  File names below
  are relative to \<^verbatim>\<open>src/external/vllm/vllm\<close>.

  \<^bold>\<open>The program.\<close>  vLLM serves language models.  The attention keys and values of the tokens of a request
  are kept in blocks of GPU memory; blocks with equal contents are shared between requests through a
  prefix cache.  This fork adds a second tier: the blocks of a streaming session that waits for its next
  input are moved from the HOT (16-bit) to a WARM (8-bit) store, so that their HOT blocks can serve others.

  One process schedules, others compute.  At start-up the scheduler's side plans the memory: layers are
  grouped by their cache specification, and the groups share a number of blocks.  In each step the
  \<open>Scheduler\<close> chooses the tokens to compute, asks the \<open>KVCacheManager\<close> for blocks, and sends the worker a
  command; the command also names the tier transitions that were planned.  The \<open>KVCacheManager\<close> delegates
  to a coordinator, which has a manager per cache group; all of them share one \<open>BlockPool\<close>, which owns the
  free list of blocks and the map from block hashes to blocks.  The worker performs the transitions with its
  \<open>HKVWarmMigrationManager\<close>, which takes slots from the \<open>HKVWarmSlotAllocator\<close>, and replies; the scheduler
  commits a successful transition (the HOT blocks are freed and replaced by the null block) or backs off.
  Independently of this, blocks can be offloaded to CPU memory through a KV connector; which blocks are kept
  there, and where, is decided by the \<open>CPUOffloadingManager\<close>; the \<open>TieringOffloadingManager\<close> puts it in front
  of further tiers, to which blocks are copied and from which they are promoted back.

  \<^bold>\<open>The theories and the code.\<close>  State is a \<open>record\<close>, an operation is a function from the state to the new
  state, with the exceptions of the source as values (\<open>Prelude\<close>); the prefixes of the record fields tell the
  classes apart (\<open>bp_\<close> for \<open>BlockPool\<close>, \<open>sd_\<close> for \<open>Scheduler\<close>, and so on).

  \<^item> \<open>Prelude\<close>: exceptions, loops that may raise, dictionaries, slices, and the lemmas on them that the other
    theories share.
  \<^item> \<open>KVState\<close>: \<^verbatim>\<open>v1/kv_cache_state.py\<close>, the vocabulary of tier transitions that scheduler and worker
    exchange.
  \<^item> \<open>WarmAlloc\<close>, \<open>WarmMigration\<close>: \<^verbatim>\<open>v1/worker/gpu/hkv_migration.py\<close> and the handler of
    \<^verbatim>\<open>v1/worker/gpu/model_runner.py\<close>.  The slot allocator with reservations, the migration manager, the
    replies of the worker.  The quantisation kernel is an argument of which nothing is assumed.
  \<^item> \<open>Request\<close>: \<^verbatim>\<open>v1/request.py\<close>.  \<open>RequestQueue\<close>: \<^verbatim>\<open>v1/core/sched/request_queue.py\<close>.
  \<^item> \<open>FreeQueue\<close>, \<open>BlockHash\<close>: \<^verbatim>\<open>v1/core/kv_cache_utils.py\<close>.  The doubly linked free list over a memory of
    linked blocks; block hashes, keys and extra keys.  The hash functions are arguments.
  \<^item> \<open>BlockPool\<close>, \<open>PoolHistory\<close>, \<open>PrefixCache\<close>: \<^verbatim>\<open>v1/core/block_pool.py\<close>, its histories, and what holds in
    them.
  \<^item> \<open>KVCacheSpec\<close>, \<open>LayerSpec\<close>: \<^verbatim>\<open>v1/kv_cache_interface.py\<close> and \<^verbatim>\<open>v1/kv_cache_spec_registry.py\<close>, first the
    part the cache managers read, then all classes with their page sizes, memory needs and merging.
  \<^item> \<open>MemoryPlan\<close>, \<open>MemoryProperties\<close>: the memory plan of \<^verbatim>\<open>v1/core/kv_cache_utils.py\<close> and its correctness.
  \<^item> \<open>SingleType\<close>, \<open>CacheHit\<close>: \<^verbatim>\<open>v1/core/single_type_kv_cache_manager.py\<close>, block lists per request and the
    lookups in the prefix cache.
  \<^item> \<open>Coordinator\<close>, \<open>HybridSearch\<close>: \<^verbatim>\<open>v1/core/kv_cache_coordinator.py\<close> and its fixpoint search.
  \<^item> \<open>KVManager\<close>: \<^verbatim>\<open>v1/core/kv_cache_manager.py\<close>.  \<open>Ownership\<close>, \<open>KVHistory\<close>, \<open>KVLifecycle\<close>: who holds each block,
    the histories of the manager, and the properties of its reachable states.
  \<^item> \<open>EncoderCache\<close>: \<^verbatim>\<open>v1/core/encoder_cache_manager.py\<close>.
  \<^item> \<open>Scheduler\<close>, \<open>Schedule\<close>, \<open>StepOutput\<close>: \<^verbatim>\<open>v1/core/sched/scheduler.py\<close>: requests, sessions and tier control; a
    step; the output of a step.  \<open>TierControl\<close>, \<open>EngineHistory\<close>, \<open>EngineProperties\<close>: lemmas on the tiers, the
    reachable states of a scheduler whose steps alternate with replies, and the properties of those states.
  \<^item> \<open>Startup\<close>: the memory plan and the running engine together.
  \<^item> \<open>OffloadPolicy\<close>, \<open>CpuOffload\<close>: \<^verbatim>\<open>v1/kv_offload/cpu\<close>, the replacement policies and the manager.
  \<^item> \<open>Tiering\<close>, \<open>TieringProperties\<close>: \<^verbatim>\<open>v1/kv_offload/tiering/manager.py\<close>, the interface of a secondary tier
    (\<^verbatim>\<open>tiering/base.py\<close>) as a record of its methods, the example tier, the prefix and window lookups of
    the offloading connector; the ledger of the transfers in flight.

  \<^bold>\<open>What the lemmas show.\<close>
  \<^item> Tiers, worker: in every history of the allocator its self-check holds, migration is all or nothing, the
    residency table and the allocator agree, and finishing a request frees its slots.
  \<^item> Tiers, scheduler: the pending transitions are exactly those of the command in flight; demotion under
    pressure takes as few sessions as the marks ask for, oldest first; capacity failures back off; a planned
    demotion commits in every state reachable from its planning by the manager's own operations, and two
    theorems show how a prefix hit in the same step and a resumed session break this.
  \<^item> Blocks: the free list is a list; a block is free or held; reference counts are the owners; a finished
    request returns what it held; a hit in the prefix cache was cached for the same tokens and group; hashing
    in increments is hashing from scratch.
  \<^item> Lookups: what is returned covers the attention window and, without the EAGLE drop, is the longest such
    prefix; the hybrid search returns one length all groups serve.
  \<^item> Memory: the plan serves the longest request it admits, and the automatic length is the largest that fits.
  \<^item> Encoder cache and offloading: admission answers are right, slots are never shared, stores never raise, and
    reference counts in CPU memory are the transfers in flight, with any secondary tiers.

  Theorems named as counterexamples evaluate the definitions on a concrete input where the code does not do
  what its comments promise.

  \<^bold>\<open>Interfaces.\<close>  \<open>slot_store\<close> (the WARM slots), \<open>free_list\<close> (the list of free blocks), \<open>prefix_lookup\<close> (what the
  hybrid search needs of a group lookup), \<open>shared_op\<close>, \<open>shared_do\<close> and \<open>shared_total\<close> (an operation of one
  manager on the pool that all of them share, and its iteration over the managers), \<open>length_search\<close> (a memory
  need that grows with the length, and the binary search over it), \<open>request_queue\<close> and \<open>cache_policy\<close>.  Each is
  interpreted on the definitions of the program that provide it.

  \<^bold>\<open>Loops.\<close>  Most loops are structural recursions on the list the source iterates over.  The two loops of a step
  take as bound the length of the queue when they start, because each iteration passes one request of it.
  Binary searches terminate by the length of their interval.  The loop of the block hasher and of the hybrid
  lookup may not return in the source (a hash block size of zero; a specification of which nothing is
  known), so they are partial functions with \<open>None\<close> for a call that does not return; for the configurations the
  managers accept they are proved to return.

  \<^bold>\<open>Deviations.\<close>  Floats (times, thresholds, the watermark, the target of ARC) are exact rationals.  Python sets
  are lists without repetition, \<open>heapq\<close> heaps are the sorted lists of their elements.  Locks and logging are
  left out.  The notifications of the metrics collector are logged.

  \<^bold>\<open>Not modelled.\<close>
  \<^item> KV and encoder connectors, the workers of offloading and its file and object tiers: code around external
    stores, streams and threads; the scheduler model is the one without a connector.
  \<^item> The asynchronous scheduler and pipelined batches: the histories of the engine let each step wait for the
    reply of the step before.
  \<^item> The priority policy inside the scheduler, LoRA adapters, encoder-decoder models, routed experts, pooling
    models, log probabilities and statistics: options beside the core logic.
  \<^item> Kernels, attention back ends, models, weight loading, tensors of the worker: numerical code.
  \<^item> Front ends, configuration parsing, benchmarks, experiments and notebooks: no state of the cache.
\<close>

end
